(* ===== verification/Prelude.thy ===== *)
theory Prelude
  imports Main "HOL-Library.Word" "HOL-Library.Multiset" "HOL-Library.Char_ord"
    "HOL-Library.List_Lexorder"
begin

text \<open>
  Shared vocabulary of the development: the machine integers of the program
  (\<open>std::uint32_t\<close>), byte strings and their slices, the first-element searches of the C++
  standard library, and sorting by a comparator (\<open>std::ranges::sort\<close> with a strict weak
  ordering). Everything here is generic; the components import it.
\<close>

section \<open>Types\<close>

text \<open>A \<open>std::uint32_t\<close>, and the cast \<open>static_cast<std::uint32_t>(n)\<close> of a
  \<open>std::size_t\<close>, which keeps the low 32 bits.\<close>

type_synonym u32 = "32 word"

abbreviation u32_of :: "nat \<Rightarrow> u32" where
  "u32_of n \<equiv> word_of_nat n"

text \<open>The buffers whose offsets, and the number one past the last, fit a
  \<open>std::uint32_t\<close>.\<close>

abbreviation fits32 :: "'a list \<Rightarrow> bool" where
  "fits32 s \<equiv> Suc (length s) < 2 ^ 32"

abbreviation newline :: char where
  "newline \<equiv> CHR 0x0A"

abbreviation carriage_return :: char where
  "carriage_return \<equiv> CHR 0x0D"

abbreviation tab_char :: char where
  "tab_char \<equiv> CHR 0x09"

named_theorems u32_simps "reading 32-bit words back as naturals"
named_theorems skip_bounds "bounds of the index-advancing scanners"

section \<open>32-bit words\<close>

lemma unat_u32_of [u32_simps]: "n < 2 ^ 32 \<Longrightarrow> unat (u32_of n) = n"
  by (simp add: unat_of_nat take_bit_eq_mod)

lemma unat_u32_lt: "unat (w :: u32) < 2 ^ 32"
  using unsigned_less [of w] by simp

lemma u32_of_le_iff [u32_simps]:
  "m < 2 ^ 32 \<Longrightarrow> n < 2 ^ 32 \<Longrightarrow> (u32_of m \<le> u32_of n) = (m \<le> n)"
  by (simp add: word_le_nat_alt u32_simps)

lemma u32_of_less_iff [u32_simps]:
  "m < 2 ^ 32 \<Longrightarrow> n < 2 ^ 32 \<Longrightarrow> (u32_of m < u32_of n) = (m < n)"
  by (simp add: word_less_nat_alt u32_simps)

lemma unat_u32_add [u32_simps]:
  "unat a + unat b < 2 ^ 32 \<Longrightarrow> unat (a + b :: u32) = unat a + unat b"
  by (simp add: unat_word_ariths)

lemma unat_u32_diff [u32_simps]:
  "b \<le> a \<Longrightarrow> unat (a - b :: u32) = unat a - unat b"
  by (simp add: unat_sub)

lemma unat_u32_min: "unat (min a b :: u32) = min (unat a) (unat b)"
  by (simp add: min_def word_le_nat_alt)

section \<open>Slices\<close>

text \<open>\<open>std::string_view::substr(lo, n)\<close> for \<open>lo\<close> in range: the count is clamped to the
  end of the buffer.\<close>

definition substr :: "'a list \<Rightarrow> nat \<Rightarrow> nat \<Rightarrow> 'a list" where
  "substr s lo n = take n (drop lo s)"

lemma length_substr: "length (substr s lo n) = min n (length s - lo)"
  by (simp add: substr_def min.commute)

lemma nth_substr: "k < n \<Longrightarrow> lo + k < length s \<Longrightarrow> substr s lo n ! k = s ! (lo + k)"
  by (simp add: substr_def)

lemma set_substr: "set (substr s lo n) = {s ! k | k. lo \<le> k \<and> k < lo + n \<and> k < length s}"
proof -
  have "\<exists>k\<ge>lo. x = s ! k \<and> k < lo + n \<and> k < length s"
    if "x \<in> set (substr s lo n)" for x
  proof -
    from that obtain k where "k < length (substr s lo n)" "x = substr s lo n ! k"
      by (auto simp: in_set_conv_nth)
    then show ?thesis
      by (intro exI [of _ "lo + k"]) (auto simp: length_substr nth_substr)
  qed
  moreover have "s ! k \<in> set (substr s lo n)" if "lo \<le> k" "k < lo + n" "k < length s" for k
  proof -
    from that have "substr s lo n ! (k - lo) = s ! k" and "k - lo < length (substr s lo n)"
      by (auto simp: length_substr nth_substr)
    then show ?thesis by (metis nth_mem)
  qed
  ultimately show ?thesis by blast
qed

section \<open>Characters\<close>

text \<open>\<open>std::isalnum\<close>, \<open>std::isalpha\<close>, \<open>std::isdigit\<close> and \<open>std::tolower\<close> of the C locale, which
  the program never changes.\<close>

definition is_digit_char :: "char \<Rightarrow> bool" where
  "is_digit_char c = (CHR ''0'' \<le> c \<and> c \<le> CHR ''9'')"

definition is_alpha_char :: "char \<Rightarrow> bool" where
  "is_alpha_char c = ((CHR ''a'' \<le> c \<and> c \<le> CHR ''z'') \<or> (CHR ''A'' \<le> c \<and> c \<le> CHR ''Z''))"

definition is_alnum_char :: "char \<Rightarrow> bool" where
  "is_alnum_char c = (is_alpha_char c \<or> is_digit_char c)"

definition to_lower_char :: "char \<Rightarrow> char" where
  "to_lower_char c = (if CHR ''A'' \<le> c \<and> c \<le> CHR ''Z'' then char_of (of_char c + 32 :: nat) else c)"

section \<open>Index-advancing loops\<close>

text \<open>\<open>while (i < s.size() && P(s[i])) ++i;\<close>\<close>

function skip_while :: "(char \<Rightarrow> bool) \<Rightarrow> string \<Rightarrow> nat \<Rightarrow> nat" where
  "skip_while P s i = (if i < length s \<and> P (s ! i) then skip_while P s (i + 1) else i)"
  by pat_completeness auto
termination
  by (relation "measure (\<lambda>(P, s, i). length s - i)") auto

declare skip_while.simps [simp del]

lemma skip_while_eq: "skip_while P s i = i + length (takeWhile P (drop i s))"
proof (induction P s i rule: skip_while.induct)
  case (1 P s i)
  show ?case
  proof (cases "i < length s \<and> P (s ! i)")
    case True
    then have "drop i s = s ! i # drop (i + 1) s" by (simp add: Cons_nth_drop_Suc)
    then show ?thesis using 1 True by (subst skip_while.simps) simp
  next
    case False
    then show ?thesis
      by (subst skip_while.simps) (cases "i < length s"; simp flip: Cons_nth_drop_Suc)
  qed
qed

lemma skip_while_ge [skip_bounds, simp]: "i \<le> skip_while P s i"
  by (simp add: skip_while_eq)

lemma skip_while_le [skip_bounds]: "i \<le> length s \<Longrightarrow> skip_while P s i \<le> length s"
  using length_takeWhile_le [of P "drop i s"] by (simp add: skip_while_eq)

lemma skip_while_in: "i \<le> k \<Longrightarrow> k < skip_while P s i \<Longrightarrow> k < length s \<and> P (s ! k)"
proof (induction P s i rule: skip_while.induct)
  case (1 P s i)
  show ?case
  proof (cases "i < length s \<and> P (s ! i)")
    case True
    then have "skip_while P s i = skip_while P s (i + 1)" by (subst skip_while.simps) simp
    then show ?thesis using 1 True by (cases "k = i") auto
  next
    case False
    then have "skip_while P s i = i" by (subst skip_while.simps) auto
    then show ?thesis using 1 by simp
  qed
qed

lemma skip_while_stop: "skip_while P s i < length s \<Longrightarrow> \<not> P (s ! skip_while P s i)"
proof (induction P s i rule: skip_while.induct)
  case (1 P s i)
  then show ?case by (cases "i < length s \<and> P (s ! i)") (simp_all add: skip_while.simps [of P s i])
qed

text \<open>Skipping a run of characters that all satisfy \<open>P\<close> and is followed by one that does not,
  or by the end.\<close>

lemma skip_while_append:
  assumes "\<forall>c \<in> set run. P c" and "rest = [] \<or> \<not> P (hd rest)"
  shows "skip_while P (pre @ run @ rest) (length pre) = length pre + length run"
proof -
  have "takeWhile P (run @ rest) = run"
    using assms by (cases rest) (auto simp: takeWhile_append)
  then show ?thesis by (simp add: skip_while_eq)
qed

section \<open>Counting and the last occurrence\<close>

lemma count_list_take_Suc:
  "i < length s \<Longrightarrow> count_list (take (Suc i) s) c = count_list (take i s) c + (if s ! i = c then 1 else 0)"
  by (simp add: take_Suc_conv_app_nth)

lemma count_list_take_mono: "i \<le> j \<Longrightarrow> count_list (take i s) c \<le> count_list (take j s) c"
proof -
  assume "i \<le> j"
  then have "take j s = take i s @ take (j - i) (drop i s)"
    by (metis le_add_diff_inverse take_add)
  then show ?thesis by simp
qed

section \<open>Sorting by a comparator\<close>

text \<open>
  \<open>std::ranges::sort(v, less)\<close> orders \<open>v\<close> by a strict weak ordering. The model is the
  stable insertion sort, one of the results the standard allows; the lemmas say what every
  sort gives (a permutation in which no element is below an earlier one).
\<close>

fun insert_by :: "('a \<Rightarrow> 'a \<Rightarrow> bool) \<Rightarrow> 'a \<Rightarrow> 'a list \<Rightarrow> 'a list" where
  "insert_by lt x [] = [x]"
| "insert_by lt x (y # ys) = (if lt y x then y # insert_by lt x ys else x # y # ys)"

fun sort_by :: "('a \<Rightarrow> 'a \<Rightarrow> bool) \<Rightarrow> 'a list \<Rightarrow> 'a list" where
  "sort_by lt [] = []"
| "sort_by lt (x # xs) = insert_by lt x (sort_by lt xs)"

lemma mset_insert_by [simp]: "mset (insert_by lt x ys) = add_mset x (mset ys)"
  by (induction ys) auto

lemma mset_sort_by [simp]: "mset (sort_by lt xs) = mset xs"
  by (induction xs) auto

lemma set_insert_by [simp]: "set (insert_by lt x ys) = insert x (set ys)"
  by (induction ys) auto

lemma set_sort_by [simp]: "set (sort_by lt xs) = set xs"
  by (induction xs) auto

lemma length_sort_by [simp]: "length (sort_by lt xs) = length xs"
  by (metis mset_sort_by size_mset)

lemma distinct_sort_by [simp]: "distinct (sort_by lt xs) = distinct xs"
  by (metis mset_eq_imp_distinct_iff mset_sort_by)

text \<open>For a symmetric relation, holding between all elements does not depend on the order.\<close>

lemma sorted_wrt_mset:
  assumes "\<And>a b. P a b \<Longrightarrow> P b a" and "sorted_wrt P xs" and "mset ys = mset xs"
  shows "sorted_wrt P ys"
  using assms(2,3)
proof (induction xs arbitrary: ys)
  case (Cons x xs)
  then have "x \<in> set ys" by (metis list.set_intros(1) set_mset_mset)
  then obtain us vs where ys: "ys = us @ x # vs" by (meson split_list)
  with Cons.prems(2) have m: "mset (us @ vs) = mset xs" by simp
  then have "set us \<union> set vs = set xs" by (metis set_append set_mset_mset)
  moreover have "sorted_wrt P (us @ vs)" using Cons.IH [OF _ m] Cons.prems(1) by simp
  ultimately show ?case
    using Cons.prems(1) assms(1) by (auto simp: ys sorted_wrt_append)
qed simp

text \<open>The contract a comparator must meet for \<open>std::ranges::sort\<close>: a strict weak ordering.\<close>

locale strict_weak_order =
  fixes lt :: "'a \<Rightarrow> 'a \<Rightarrow> bool"
  assumes irrefl: "\<not> lt x x"
    and trans: "lt x y \<Longrightarrow> lt y z \<Longrightarrow> lt x z"
    and incomp_trans: "\<not> lt x y \<Longrightarrow> \<not> lt y z \<Longrightarrow> \<not> lt x z"
begin

lemma asym: "lt x y \<Longrightarrow> \<not> lt y x"
  using trans irrefl by blast

lemma sorted_insert_by:
  "sorted_wrt (\<lambda>a b. \<not> lt b a) ys \<Longrightarrow> sorted_wrt (\<lambda>a b. \<not> lt b a) (insert_by lt x ys)"
proof (induction ys)
  case Nil
  then show ?case by simp
next
  case (Cons y ys)
  from Cons.prems have y: "\<forall>z \<in> set ys. \<not> lt z y" and ys: "sorted_wrt (\<lambda>a b. \<not> lt b a) ys"
    by auto
  show ?case
  proof (cases "lt y x")
    case True
    with Cons.IH [OF ys] y show ?thesis by (simp add: asym)
  next
    case False
    with y ys Cons.prems show ?thesis by (auto dest: incomp_trans)
  qed
qed

lemma sorted_sort_by: "sorted_wrt (\<lambda>a b. \<not> lt b a) (sort_by lt xs)"
  by (induction xs) (auto intro: sorted_insert_by)

end

text \<open>
  A comparator without ties: the sorted result is the only one any sort may return, so the
  choice of the algorithm does not show.
\<close>

locale strict_linear_order = strict_weak_order +
  assumes total: "x \<noteq> y \<Longrightarrow> lt x y \<or> lt y x"
begin

lemma sorted_unique:
  assumes "sorted_wrt (\<lambda>a b. \<not> lt b a) xs" and "sorted_wrt (\<lambda>a b. \<not> lt b a) ys"
    and "mset xs = mset ys"
  shows "xs = ys"
  using assms
proof (induction xs arbitrary: ys)
  case Nil
  then show ?case by simp
next
  case (Cons x xs)
  from Cons.prems(3) obtain y ys' where ys: "ys = y # ys'"
    by (cases ys) auto
  have "x \<in> set ys" and "y \<in> set (x # xs)"
    using Cons.prems(3) ys by (metis list.set_intros(1) set_mset_mset)+
  with Cons.prems(1,2) ys have "x = y"
    using total [of x y] by auto
  with Cons ys show ?case by simp
qed

lemma sort_by_unique:
  assumes "mset ys = mset xs" and "sorted_wrt (\<lambda>a b. \<not> lt b a) ys"
  shows "ys = sort_by lt xs"
  using sorted_unique [OF assms(2) sorted_sort_by] assms(1) by simp

end

section \<open>Results\<close>

text \<open>A computation that stops at the first error: \<open>Inl\<close> is the early return, \<open>Inr\<close> the value
  the rest of the code goes on with.\<close>

fun and_then :: "'e + 'a \<Rightarrow> ('a \<Rightarrow> 'e + 'b) \<Rightarrow> 'e + 'b" where
  "and_then (Inl e) f = Inl e"
| "and_then (Inr x) f = f x"

lemma and_then_Inr [simp]: "and_then m f = Inr y \<longleftrightarrow> (\<exists>x. m = Inr x \<and> f x = Inr y)"
  by (cases m) auto

lemma and_then_cong [fundef_cong]:
  "m = m' \<Longrightarrow> (\<And>x. m' = Inr x \<Longrightarrow> f x = f' x) \<Longrightarrow> and_then m f = and_then m' f'"
  by (cases m') auto

text \<open>A loop over a list whose body may return early.\<close>

fun fold_result :: "('x \<Rightarrow> 's \<Rightarrow> 'e + 's) \<Rightarrow> 'x list \<Rightarrow> 's \<Rightarrow> 'e + 's" where
  "fold_result f [] s = Inr s"
| "fold_result f (x # xs) s = and_then (f x s) (fold_result f xs)"

end
