(* ===== verification/Sources.thy ===== *)
theory Sources
  imports Prelude
begin

text \<open>
  \<^verbatim>\<open>core/include/shader_clippy/source.hpp\<close>, \<^verbatim>\<open>diagnostic.hpp\<close> and
  \<^verbatim>\<open>core/src/source.cpp\<close>: byte spans, the diagnostic and fix records every component
  exchanges, the line table of a source file (\<open>line_col\<close>, \<open>line_text\<close>) and the
  \<open>SourceManager\<close> registry. The lemmas show that the line table is sorted and complete,
  so that \<open>line_col\<close> counts the newlines before an offset and can be inverted.
\<close>

section \<open>Spans and diagnostics\<close>

record source_id =
  sid_value :: u32

definition source_id_valid :: "source_id \<Rightarrow> bool" where
  "source_id_valid s = (sid_value s \<noteq> 0)"

record byte_span =
  bs_lo :: u32
  bs_hi :: u32

definition byte_span_empty :: "byte_span \<Rightarrow> bool" where
  "byte_span_empty b = (bs_hi b \<le> bs_lo b)"

definition byte_span_size :: "byte_span \<Rightarrow> u32" where
  "byte_span_size b = (if bs_hi b > bs_lo b then bs_hi b - bs_lo b else 0)"

record span =
  sp_source :: source_id
  sp_bytes :: byte_span

record line_col_t =
  lc_line :: u32
  lc_column :: u32

datatype severity = Note | Warning | Error

record text_edit =
  te_span :: span
  te_replacement :: string

record fix_t =
  fx_description :: string
  fx_machine_applicable :: bool
  fx_edits :: "text_edit list"

record diagnostic =
  dg_code :: string
  dg_severity :: severity
  dg_primary_span :: span
  dg_message :: string
  dg_fixes :: "fix_t list"

section \<open>SourceFile\<close>

record source_file =
  sf_id :: source_id
  sf_path :: string
  sf_contents :: string
  sf_line_starts :: "u32 list"

text \<open>The loop of \<open>build_line_starts\<close> from index \<open>i\<close> on: one entry just past each newline.\<close>

fun line_starts_from :: "nat \<Rightarrow> string \<Rightarrow> u32 list" where
  "line_starts_from i [] = []"
| "line_starts_from i (c # cs) =
     (if c = newline then u32_of (i + 1) # line_starts_from (i + 1) cs
      else line_starts_from (i + 1) cs)"

definition build_line_starts :: "string \<Rightarrow> u32 list" where
  "build_line_starts contents = 0 # line_starts_from 0 contents"

definition new_source_file :: "source_id \<Rightarrow> string \<Rightarrow> string \<Rightarrow> source_file" where
  "new_source_file i path contents =
     \<lparr>sf_id = i, sf_path = path, sf_contents = contents,
      sf_line_starts = build_line_starts contents\<rparr>"

text \<open>\<open>std::ranges::upper_bound\<close>: the index of the first element above \<open>v\<close>, or the length.\<close>

definition upper_bound :: "u32 list \<Rightarrow> u32 \<Rightarrow> nat" where
  "upper_bound xs v = length (takeWhile (\<lambda>x. x \<le> v) xs)"

definition line_col :: "source_file \<Rightarrow> u32 \<Rightarrow> line_col_t" where
  "line_col f byte_offset =
     (if sf_line_starts f = [] then \<lparr>lc_line = 1, lc_column = 1\<rparr>
      else let clamped = min byte_offset (u32_of (length (sf_contents f)));
               it = upper_bound (sf_line_starts f) clamped
           in if it = 0 then \<lparr>lc_line = 1, lc_column = 1\<rparr>
              else let line_index = u32_of (it - 1);
                       column = clamped - sf_line_starts f ! (it - 1)
                   in \<lparr>lc_line = line_index + 1, lc_column = column + 1\<rparr>)"

text \<open>One trailing byte \<open>c\<close> is dropped from the end of a line, as both steps of
  \<open>line_text\<close> do for \<open>\n\<close> and \<open>\r\<close>.\<close>

definition strip_end :: "char \<Rightarrow> string \<Rightarrow> u32 \<Rightarrow> u32" where
  "strip_end c contents line_end =
     (if line_end > 0 \<and> unat (line_end - 1) < length contents \<and>
         contents ! unat (line_end - 1) = c
      then line_end - 1 else line_end)"

definition line_text :: "source_file \<Rightarrow> u32 \<Rightarrow> string" where
  "line_text f byte_offset =
     (let contents = sf_contents f; starts = sf_line_starts f in
      if starts = [] \<or> contents = [] then []
      else let clamped = min byte_offset (u32_of (length contents));
               it = upper_bound starts clamped;
               line_start = starts ! (it - 1);
               next_start = (if it < length starts then starts ! it
                             else u32_of (length contents))
           in if next_start \<le> line_start then []
              else let line_end = strip_end carriage_return contents
                                    (strip_end newline contents next_start)
                   in if line_end \<le> line_start then []
                      else substr contents (unat line_start) (unat (line_end - line_start)))"

section \<open>SourceManager\<close>

type_synonym source_manager = "source_file list"

definition add_buffer :: "source_manager \<Rightarrow> string \<Rightarrow> string \<Rightarrow> source_id \<times> source_manager" where
  "add_buffer files virtual_path contents =
     (let i = \<lparr>sid_value = u32_of (length files + 1)\<rparr>
      in (i, files @ [new_source_file i virtual_path contents]))"

definition default_max_file_bytes :: nat where
  "default_max_file_bytes = 8 * 1024 * 1024"

text \<open>
  \<open>max_file_bytes\<close> reads \<^verbatim>\<open>SHADER_CLIPPY_MAX_FILE_BYTES\<close>. The parameter is the
  variable's value, if set, and \<open>strtoull\<close> its parse by the C library: the number and the
  unread suffix, or \<open>None\<close> when no digit was read.
\<close>

definition max_file_bytes :: "(string \<Rightarrow> (nat \<times> string) option) \<Rightarrow> string option \<Rightarrow> nat" where
  "max_file_bytes strtoull env =
     (case env of
        None \<Rightarrow> default_max_file_bytes
      | Some text \<Rightarrow>
          if text = [] then default_max_file_bytes
          else case strtoull text of
                 None \<Rightarrow> default_max_file_bytes
               | Some (parsed, rest) \<Rightarrow>
                   if rest = [] \<and> parsed > 0 then parsed else default_max_file_bytes)"

text \<open>
  What the file system says of a path when \<open>add_file\<close> asks: whether it exists, its size
  (\<open>None\<close> when \<open>file_size\<close> reports an error) and the bytes a read returns
  (\<open>None\<close> when the stream does not open).
\<close>

record disk_entry =
  de_exists :: bool
  de_size :: "nat option"
  de_bytes :: "string option"

definition read_file_to_string :: "disk_entry \<Rightarrow> string" where
  "read_file_to_string d = (case de_bytes d of None \<Rightarrow> [] | Some b \<Rightarrow> b)"

definition add_file ::
  "nat \<Rightarrow> (string \<Rightarrow> disk_entry) \<Rightarrow> source_manager \<Rightarrow> string \<Rightarrow> source_id \<times> source_manager" where
  "add_file max_bytes disk files path =
     (let d = disk path in
      if \<not> de_exists d then (\<lparr>sid_value = 0\<rparr>, files)
      else if (case de_size d of Some bytes \<Rightarrow> bytes > max_bytes | None \<Rightarrow> False)
           then (\<lparr>sid_value = 0\<rparr>, files)
      else let i = \<lparr>sid_value = u32_of (length files + 1)\<rparr>
           in (i, files @ [new_source_file i path (read_file_to_string d)]))"

definition sm_get :: "source_manager \<Rightarrow> source_id \<Rightarrow> source_file option" where
  "sm_get files i =
     (if \<not> source_id_valid i then None
      else let index = unat (sid_value i - 1)
           in if index \<ge> length files then None else Some (files ! index))"

definition sm_resolve :: "source_manager \<Rightarrow> source_id \<Rightarrow> u32 \<Rightarrow> line_col_t" where
  "sm_resolve files i byte_offset =
     (case sm_get files i of
        Some f \<Rightarrow> line_col f byte_offset
      | None \<Rightarrow> \<lparr>lc_line = 1, lc_column = 1\<rparr>)"

section \<open>The line table\<close>

text \<open>The start of the line an offset lies on: just past the last newline before it.\<close>

fun line_begin :: "string \<Rightarrow> nat \<Rightarrow> nat" where
  "line_begin c 0 = 0"
| "line_begin c (Suc k) = (if c ! k = newline then Suc k else line_begin c k)"

lemma line_begin_le: "line_begin c k \<le> k"
  by (induction k) auto

lemma line_begin_char: "line_begin c k = 0 \<or> c ! (line_begin c k - 1) = newline"
  by (induction k) auto

lemma line_begin_no_newline: "line_begin c k \<le> j \<Longrightarrow> j < k \<Longrightarrow> c ! j \<noteq> newline"
  by (induction k) (auto split: if_splits simp: less_Suc_eq)

lemma count_le_self: "count_list (take k c) x \<le> k"
  using count_le_length [of "take k c" x] by simp

lemma takeWhile_line_starts:
  "i + length cs < 2 ^ 32 \<Longrightarrow> off < 2 ^ 32 \<Longrightarrow>
   length (takeWhile (\<lambda>x. x \<le> u32_of off) (line_starts_from i cs))
     = count_list (take (off - i) cs) newline"
proof (induction cs arbitrary: i)
  case Nil
  then show ?case by simp
next
  case (Cons c cs)
  have IH: "length (takeWhile (\<lambda>x. x \<le> u32_of off) (line_starts_from (i + 1) cs))
      = count_list (take (off - (i + 1)) cs) newline"
    using Cons by simp
  have le: "(u32_of (i + 1) \<le> u32_of off) = (i + 1 \<le> off)"
    using Cons.prems by (intro u32_of_le_iff) auto
  show ?case
  proof (cases "i < off")
    case True
    then have "off - i = Suc (off - (i + 1))" by simp
    with IH le True show ?thesis by simp
  next
    case False
    with IH le show ?thesis by simp
  qed
qed

lemma nth_line_starts:
  "k < length cs \<Longrightarrow> cs ! k = newline \<Longrightarrow>
   line_starts_from i cs ! count_list (take k cs) newline = u32_of (i + k + 1)"
proof (induction cs arbitrary: i k)
  case Nil
  then show ?case by simp
next
  case (Cons c cs)
  show ?case
  proof (cases k)
    case 0
    with Cons.prems show ?thesis by simp
  next
    case (Suc k')
    then have "line_starts_from (i + 1) cs ! count_list (take k' cs) newline
        = u32_of (i + 1 + k' + 1)"
      using Cons by (intro Cons.IH) auto
    with Suc show ?thesis by simp
  qed
qed

lemma length_line_starts: "length (line_starts_from i cs) = count_list cs newline"
  by (induction cs arbitrary: i) auto

lemma upper_bound_line_starts:
  assumes "fits32 c" and "off \<le> length c"
  shows "upper_bound (build_line_starts c) (u32_of off) = Suc (count_list (take off c) newline)"
  using takeWhile_line_starts [of 0 c off] assms
  by (simp add: upper_bound_def build_line_starts_def)

lemma line_start_nth:
  assumes "off \<le> length c"
  shows "build_line_starts c ! count_list (take off c) newline = u32_of (line_begin c off)"
  using assms
proof (induction off)
  case 0
  then show ?case by (simp add: build_line_starts_def)
next
  case (Suc k)
  then have k: "k < length c" by simp
  show ?case
  proof (cases "c ! k = newline")
    case True
    then show ?thesis
      using nth_line_starts [OF k True, of 0]
      by (simp add: count_list_take_Suc [OF k] build_line_starts_def)
  next
    case False
    with Suc k show ?thesis by (simp add: count_list_take_Suc [OF k])
  qed
qed

lemma build_line_starts_nonempty [simp]: "build_line_starts c \<noteq> []"
  by (simp add: build_line_starts_def)

lemma new_source_file_simps [simp]:
  "sf_id (new_source_file i p c) = i"
  "sf_path (new_source_file i p c) = p"
  "sf_contents (new_source_file i p c) = c"
  "sf_line_starts (new_source_file i p c) = build_line_starts c"
  by (simp_all add: new_source_file_def)

text \<open>The offset \<open>line_col\<close> and \<open>line_text\<close> work with.\<close>

lemma clamp_offset:
  assumes "fits32 c"
  shows "min w (u32_of (length c)) = u32_of (min (unat w) (length c))"
proof -
  have "unat (min w (u32_of (length c))) = min (unat w) (length c)"
    using assms by (simp add: unat_u32_min u32_simps)
  also have "\<dots> = unat (u32_of (min (unat w) (length c)))"
    using assms by (intro unat_u32_of [symmetric]) auto
  finally show ?thesis by (simp add: word_unat_eq_iff)
qed

lemma line_col_eq:
  fixes w :: u32
  assumes "fits32 c"
  defines "off \<equiv> min (unat w) (length c)"
  shows "line_col (new_source_file i p c) w =
     \<lparr>lc_line = u32_of (count_list (take off c) newline) + 1,
      lc_column = u32_of (off - line_begin c off) + 1\<rparr>"
proof -
  have off: "off \<le> length c" by (simp add: off_def)
  have "u32_of off - u32_of (line_begin c off) = u32_of (off - line_begin c off)"
    using line_begin_le by (simp add: of_nat_diff)
  then show ?thesis
    using line_start_nth [OF off] upper_bound_line_starts [OF assms(1) off]
    by (simp add: line_col_def Let_def clamp_offset [OF assms(1), of w, folded off_def])
qed

text \<open>\<open>line_col\<close> in numbers: the line is one more than the newlines before the offset, the
  column one more than the distance to the start of the line.\<close>

lemma line_col_unat:
  fixes w :: u32
  assumes "fits32 c"
  defines "off \<equiv> min (unat w) (length c)"
  shows "unat (lc_line (line_col (new_source_file i p c) w)) = count_list (take off c) newline + 1"
    and "unat (lc_column (line_col (new_source_file i p c) w)) = off - line_begin c off + 1"
proof -
  have off: "off \<le> length c" by (simp add: off_def)
  have "count_list (take off c) newline \<le> length c"
    using count_le_self [of off c newline] off by linarith
  then show "unat (lc_line (line_col (new_source_file i p c) w)) = count_list (take off c) newline + 1"
    using assms(1) by (simp add: line_col_eq [OF assms(1), where w = w, folded off_def] u32_simps)
  show "unat (lc_column (line_col (new_source_file i p c) w)) = off - line_begin c off + 1"
    using assms(1) off by (simp add: line_col_eq [OF assms(1), where w = w, folded off_def] u32_simps)
qed

section \<open>Offsets and positions correspond\<close>

text \<open>The inverse of \<open>line_col\<close>: the line's start in the table plus the column.\<close>

definition offset_of :: "source_file \<Rightarrow> line_col_t \<Rightarrow> u32" where
  "offset_of f lc = sf_line_starts f ! unat (lc_line lc - 1) + (lc_column lc - 1)"

lemma offset_of_line_col:
  assumes "fits32 c"
  shows "offset_of (new_source_file i p c) (line_col (new_source_file i p c) w)
       = min w (u32_of (length c))"
proof -
  define off where "off = min (unat w) (length c)"
  have off: "off \<le> length c" by (simp add: off_def)
  have cnt: "count_list (take off c) newline < 2 ^ 32"
    using count_le_self [of off c newline] off assms by linarith
  have "u32_of (line_begin c off) + u32_of (off - line_begin c off) = u32_of off"
    using line_begin_le [of c off] by (simp flip: of_nat_add)
  then show ?thesis
    using line_start_nth [OF off] cnt
    by (simp add: offset_of_def line_col_eq [OF assms, where w = w, folded off_def]
        clamp_offset [OF assms, of w, folded off_def] u32_simps)
qed

lemma line_begin_mono: "j \<le> k \<Longrightarrow> line_begin c j \<le> line_begin c k"
proof (induction k)
  case (Suc k)
  then show ?case using line_begin_le [of c j] by (cases "j = Suc k") auto
qed simp

lemma same_line_begin:
  assumes "j \<le> k" and "k \<le> length c"
    and "count_list (take j c) newline = count_list (take k c) newline"
  shows "line_begin c j = line_begin c k"
  using assms
proof (induction k)
  case 0
  then show ?case by simp
next
  case (Suc k)
  show ?case
  proof (cases "j = Suc k")
    case False
    with Suc.prems have k: "j \<le> k" "k < length c" by auto
    then have "count_list (take j c) newline \<le> count_list (take k c) newline"
      by (simp add: count_list_take_mono)
    with Suc.prems k have "c ! k \<noteq> newline"
      and "count_list (take j c) newline = count_list (take k c) newline"
      by (auto simp: count_list_take_Suc split: if_splits)
    with Suc.IH k show ?thesis by simp
  qed simp
qed

section \<open>The text of a line\<close>

text \<open>The line an offset lies on, without its newline.\<close>

definition line_body :: "string \<Rightarrow> nat \<Rightarrow> string" where
  "line_body c off = takeWhile (\<lambda>x. x \<noteq> newline) (drop (line_begin c off) c)"

definition chop_cr :: "string \<Rightarrow> string" where
  "chop_cr l = (if l \<noteq> [] \<and> last l = carriage_return then butlast l else l)"

lemma line_body_no_newline: "newline \<notin> set (line_body c off)"
  by (auto simp: line_body_def dest: set_takeWhileD)

lemma takeWhile_stop: "k = length (takeWhile P xs) \<Longrightarrow> k < length xs \<Longrightarrow> \<not> P (xs ! k)"
  using nth_length_takeWhile by blast

text \<open>Where \<open>line_text\<close> stops: the newline that ends the line, or the end of the buffer.\<close>

definition line_stop :: "string \<Rightarrow> nat \<Rightarrow> nat" where
  "line_stop c off = line_begin c off + length (line_body c off)"

lemma line_stop_le: "off \<le> length c \<Longrightarrow> line_stop c off \<le> length c"
proof -
  assume "off \<le> length c"
  then have "line_begin c off \<le> length c" using line_begin_le [of c off] by linarith
  moreover have "length (line_body c off) \<le> length c - line_begin c off"
    unfolding line_body_def by (metis length_drop length_takeWhile_le)
  ultimately show ?thesis by (simp add: line_stop_def)
qed

lemma line_stop_char:
  assumes "line_stop c off < length c"
  shows "c ! line_stop c off = newline"
proof -
  have "length (line_body c off) < length (drop (line_begin c off) c)"
    using assms by (simp add: line_stop_def)
  then show ?thesis
    using takeWhile_stop [of "length (line_body c off)" "\<lambda>x. x \<noteq> newline" "drop (line_begin c off) c"]
      assms by (simp add: line_body_def line_stop_def)
qed

lemma line_body_nth:
  assumes "line_begin c off \<le> k" and "k < line_stop c off"
  shows "c ! k = line_body c off ! (k - line_begin c off)" and "c ! k \<noteq> newline"
proof -
  have k: "k - line_begin c off < length (line_body c off)"
    using assms by (simp add: line_stop_def)
  then have "line_body c off ! (k - line_begin c off) = drop (line_begin c off) c ! (k - line_begin c off)"
    unfolding line_body_def by (rule takeWhile_nth)
  moreover have "length (line_body c off) \<le> length c - line_begin c off"
    unfolding line_body_def by (metis length_drop length_takeWhile_le)
  ultimately show "c ! k = line_body c off ! (k - line_begin c off)"
    using k assms(1) by simp
  then show "c ! k \<noteq> newline"
    using k line_body_no_newline nth_mem by metis
qed

lemma off_le_line_stop: "off \<le> length c \<Longrightarrow> off \<le> line_stop c off"
proof (rule ccontr)
  assume off: "off \<le> length c" and "\<not> off \<le> line_stop c off"
  then have "line_stop c off < length c" "line_stop c off < off" by auto
  moreover from this have "c ! line_stop c off = newline" by (simp add: line_stop_char)
  ultimately show False
    using line_begin_no_newline [of c off "line_stop c off"] by (simp add: line_stop_def)
qed

lemma count_to_line_stop:
  assumes "off \<le> length c"
  shows "count_list (take (line_stop c off) c) newline = count_list (take off c) newline"
proof -
  have split: "take (line_stop c off) c = take off c @ take (line_stop c off - off) (drop off c)"
    using off_le_line_stop [OF assms] by (metis le_add_diff_inverse take_add)
  have "newline \<notin> set (take (line_stop c off - off) (drop off c))"
  proof
    assume "newline \<in> set (take (line_stop c off - off) (drop off c))"
    then obtain j where "j < line_stop c off - off" "c ! (off + j) = newline"
      using assms by (auto simp: in_set_conv_nth)
    then show False
      using line_body_nth(2) [of c off "off + j"] line_begin_le [of c off] by simp
  qed
  with split show ?thesis by simp
qed

lemma next_line_start:
  assumes "fits32 c" and "off \<le> length c"
  defines "it \<equiv> Suc (count_list (take off c) newline)"
  shows "it < length (build_line_starts c) \<longleftrightarrow> line_stop c off < length c"
    and "line_stop c off < length c \<Longrightarrow> build_line_starts c ! it = u32_of (line_stop c off + 1)"
proof -
  have cnt: "count_list (take (line_stop c off) c) newline = count_list (take off c) newline"
    by (rule count_to_line_stop [OF assms(2)])
  show nxt: "build_line_starts c ! it = u32_of (line_stop c off + 1)" if "line_stop c off < length c"
    using nth_line_starts [OF that line_stop_char [OF that], of 0] cnt
    by (simp add: it_def build_line_starts_def)
  have len: "length (build_line_starts c) = Suc (count_list c newline)"
    by (simp add: build_line_starts_def length_line_starts)
  show "it < length (build_line_starts c) \<longleftrightarrow> line_stop c off < length c"
  proof
    assume "line_stop c off < length c"
    then have "count_list (take (Suc (line_stop c off)) c) newline = it"
      using cnt line_stop_char by (simp add: it_def count_list_take_Suc)
    moreover have "count_list (take (Suc (line_stop c off)) c) newline \<le> count_list (take (length c) c) newline"
      using \<open>line_stop c off < length c\<close> by (intro count_list_take_mono) simp
    ultimately show "it < length (build_line_starts c)" using len by simp
  next
    assume "it < length (build_line_starts c)"
    then show "line_stop c off < length c"
      using len cnt line_stop_le [OF assms(2)] by (cases "line_stop c off = length c") (auto simp: it_def)
  qed
qed

lemma strip_end_u32:
  assumes "fits32 c" and "n \<le> length c"
  shows "strip_end ch c (u32_of n) = u32_of (if 0 < n \<and> c ! (n - 1) = ch then n - 1 else n)"
proof (cases n)
  case 0
  then show ?thesis by (simp add: strip_end_def)
next
  case (Suc m)
  have "u32_of n - 1 = u32_of m" by (simp add: Suc)
  moreover have "0 < u32_of n"
    using assms Suc u32_of_less_iff [of 0 n] by simp
  ultimately show ?thesis
    using assms Suc by (simp add: strip_end_def u32_simps)
qed

lemma strip_newline_next:
  assumes "fits32 c" and "off \<le> length c" and "line_begin c off < length c"
  shows "strip_end newline c (u32_of (if line_stop c off < length c then line_stop c off + 1 else length c))
       = u32_of (line_stop c off)"
proof (cases "line_stop c off < length c")
  case True
  then show ?thesis
    using strip_end_u32 [OF assms(1), of "line_stop c off + 1" newline] line_stop_char [OF True]
    by simp
next
  case False
  then have stop: "line_stop c off = length c"
    using line_stop_le [OF assms(2)] by simp
  then have "c ! (length c - 1) \<noteq> newline"
    using assms(3) by (intro line_body_nth(2) [of c off]) auto
  then show ?thesis
    using strip_end_u32 [OF assms(1), of "length c" newline] stop by simp
qed

lemma line_body_substr: "off \<le> length c \<Longrightarrow>
  substr c (line_begin c off) (length (line_body c off)) = line_body c off"
  unfolding substr_def line_body_def by (rule takeWhile_eq_take [symmetric])

lemma substr_butlast:
  assumes "line_body c off \<noteq> []"
  shows "substr c (line_begin c off) (length (line_body c off) - 1) = butlast (line_body c off)"
proof -
  have "line_body c off = take (length (line_body c off)) (drop (line_begin c off) c)"
    unfolding line_body_def by (rule takeWhile_eq_take)
  then show ?thesis
    by (metis butlast_take diff_le_self length_take min.cobounded1 min_def substr_def butlast_conv_take
        take_take min.absorb1)
qed

lemma line_text_unfold:
  assumes "c \<noteq> []" and "min w (u32_of (length c)) = u32_of off"
    and "upper_bound (build_line_starts c) (u32_of off) = it"
    and "(if it < length (build_line_starts c) then build_line_starts c ! it else u32_of (length c)) = nxt"
    and "build_line_starts c ! (it - 1) = ls" and "\<not> nxt \<le> ls"
  shows "line_text (new_source_file i p c) w =
    (let e = strip_end carriage_return c (strip_end newline c nxt)
     in if e \<le> ls then [] else substr c (unat ls) (unat (e - ls)))"
  unfolding line_text_def Let_def new_source_file_simps assms(2,3,4,5) using assms(1,6)
  by simp

lemma line_text_eq:
  fixes w :: u32
  assumes c: "fits32 c"
  defines "off \<equiv> min (unat w) (length c)"
  shows "line_text (new_source_file i p c) w = chop_cr (line_body c off)"
proof -
  let ?ls = "line_begin c off" and ?st = "line_stop c off"
  have off: "off \<le> length c" by (simp add: off_def)
  have st: "?st \<le> length c" "?ls \<le> ?st"
    using line_stop_le [OF off] by (auto simp: line_stop_def)
  define it where "it = Suc (count_list (take off c) newline)"
  have nxt: "(if it < length (build_line_starts c) then build_line_starts c ! it else u32_of (length c))
      = u32_of (if ?st < length c then ?st + 1 else length c)" (is "?nxt = _")
    using next_line_start [OF c off] by (auto simp: it_def)
  have start: "build_line_starts c ! (it - 1) = u32_of ?ls"
    using line_start_nth [OF off] by (simp add: it_def)
  have ub: "upper_bound (build_line_starts c) (u32_of off) = it"
    using upper_bound_line_starts [OF c off] by (simp add: it_def)
  have le: "(u32_of m \<le> u32_of n) = (m \<le> n)" if "m \<le> length c" "n \<le> Suc (length c)" for m n
    using that c by (intro u32_of_le_iff) auto
  show ?thesis
  proof (cases "?ls < length c")
    case False
    then have "?ls = length c" "?st = length c" using st by auto
    then have "line_body c off = []" by (simp add: line_stop_def)
    moreover have "\<not> it < length (build_line_starts c)"
      using next_line_start(1) [OF c off] \<open>?st = length c\<close> by (simp add: it_def)
    ultimately show ?thesis
      using False \<open>?ls = length c\<close> \<open>?st = length c\<close> nxt start ub
      by (simp add: line_text_def Let_def clamp_offset [OF c, of w, folded off_def] chop_cr_def)
  next
    case True
    define e where "e = (if 0 < ?st \<and> c ! (?st - 1) = carriage_return then ?st - 1 else ?st)"
    have e: "strip_end carriage_return c (strip_end newline c ?nxt) = u32_of e"
      unfolding nxt strip_newline_next [OF c off True] strip_end_u32 [OF c st(1)] e_def by simp
    have "e \<le> length c" using st by (auto simp: e_def)
    have ne: "c \<noteq> []" using True by auto
    have "\<not> ?nxt \<le> u32_of ?ls"
      unfolding nxt using True st by (subst le) auto
    then have "line_text (new_source_file i p c) w =
        (if u32_of e \<le> u32_of ?ls then [] else substr c (unat (u32_of ?ls)) (unat (u32_of e - u32_of ?ls)))"
      using ne start ub e line_text_unfold [of c w off it "?nxt" "u32_of ?ls" i p]
        clamp_offset [OF c, of w, folded off_def]
      by simp
    also have "\<dots> = substr c ?ls (e - ?ls)"
    proof (cases "e \<le> ?ls")
      case True
      then show ?thesis using \<open>e \<le> length c\<close> st by (simp add: le substr_def)
    next
      case False
      then have "u32_of e - u32_of ?ls = u32_of (e - ?ls)" by (simp add: of_nat_diff)
      with False \<open>e \<le> length c\<close> st c show ?thesis by (simp add: le u32_simps)
    qed
    also have "\<dots> = chop_cr (line_body c off)"
    proof (cases "line_body c off = []")
      case True
      then show ?thesis by (simp add: e_def line_stop_def chop_cr_def substr_def)
    next
      case False
      then have "1 \<le> length (line_body c off)" by (cases "line_body c off") auto
      then have "c ! (?st - 1) = last (line_body c off)"
        using False line_body_nth(1) [of c off "?st - 1"] by (simp add: line_stop_def last_conv_nth)
      then show ?thesis
        using False line_body_substr [OF off] substr_butlast [OF False]
        by (auto simp: e_def line_stop_def chop_cr_def)
    qed
    finally show ?thesis .
  qed
qed

section \<open>The registry\<close>

definition manager_ok :: "source_manager \<Rightarrow> bool" where
  "manager_ok files =
     (fits32 files \<and> (\<forall>k < length files. files ! k =
        new_source_file \<lparr>sid_value = u32_of (k + 1)\<rparr> (sf_path (files ! k)) (sf_contents (files ! k))))"

lemma manager_ok_empty: "manager_ok []"
  by (simp add: manager_ok_def)

lemma manager_ok_snoc:
  assumes "manager_ok files" and "length files + 2 < 2 ^ 32"
  shows "manager_ok (files @ [new_source_file \<lparr>sid_value = u32_of (length files + 1)\<rparr> p c])"
  using assms by (auto simp: manager_ok_def nth_append less_Suc_eq)

lemma add_buffer_ok:
  "manager_ok files \<Longrightarrow> length files + 2 < 2 ^ 32 \<Longrightarrow> manager_ok (snd (add_buffer files p c))"
  using manager_ok_snoc by (simp add: add_buffer_def Let_def)

lemma add_file_ok:
  "manager_ok files \<Longrightarrow> length files + 2 < 2 ^ 32 \<Longrightarrow> manager_ok (snd (add_file mx disk files p))"
  using manager_ok_snoc by (simp add: add_file_def Let_def)

lemma sm_get_index:
  assumes "k < length files" and "fits32 files"
  shows "sm_get files \<lparr>sid_value = u32_of (k + 1)\<rparr> = Some (files ! k)"
proof -
  have "unat (u32_of (k + 1)) = k + 1" using assms by (intro unat_u32_of) auto
  then have "u32_of (k + 1) \<noteq> 0"
    by (metis Zero_not_Suc add.commute plus_1_eq_Suc unsigned_0)
  moreover have "u32_of (k + 1) - 1 = u32_of k" by simp
  ultimately show ?thesis
    using assms by (simp add: sm_get_def source_id_valid_def u32_simps)
qed

lemma sm_get_add_buffer:
  assumes "length files + 2 < 2 ^ 32" and "add_buffer files p c = (i, files')"
  shows "sm_get files' i = Some (new_source_file i p c)"
  using assms sm_get_index [of "length files" files']
  by (auto simp: add_buffer_def Let_def nth_append)

text \<open>Registered files stay: what an id names is unchanged by every later registration.\<close>

lemma sm_get_append:
  assumes "sm_get files i = Some f"
  shows "sm_get (files @ gs) i = Some f"
  using assms by (auto simp: sm_get_def Let_def nth_append split: if_splits)

section \<open>Properties\<close>

text \<open>C27: The line and column of an offset are what they say, and lose nothing: the line is one more
  than the newlines before the offset, the column one more than its distance to the start of the
  line, and the line table with the two numbers gives the offset back (clamped to the end of the
  buffer).\<close>

theorem line_col_round_trip:
  fixes w :: u32
  assumes "fits32 c"
  shows "unat (lc_line (line_col (new_source_file i p c) w)) = count_list (take (unat w) c) newline + 1 \<and>
    unat (lc_column (line_col (new_source_file i p c) w)) =
      min (unat w) (length c) - line_begin c (min (unat w) (length c)) + 1 \<and>
    offset_of (new_source_file i p c) (line_col (new_source_file i p c) w) = min w (u32_of (length c))"
proof -
  have "take (min (unat w) (length c)) c = take (unat w) c" by (simp add: min_def)
  then show ?thesis
    using line_col_unat [OF assms, of i p w] offset_of_line_col [OF assms, of i p w] by simp
qed

theorem line_col_round_trip_witness:
  "line_col (new_source_file \<lparr>sid_value = 1\<rparr> ''f'' (''ab'' @ [newline] @ ''cd'')) 4 = \<lparr>lc_line = 2, lc_column = 2\<rparr> \<and>
   offset_of (new_source_file \<lparr>sid_value = 1\<rparr> ''f'' (''ab'' @ [newline] @ ''cd''))
     (line_col (new_source_file \<lparr>sid_value = 1\<rparr> ''f'' (''ab'' @ [newline] @ ''cd'')) 4) = 4"
proof
  show "line_col (new_source_file \<lparr>sid_value = 1\<rparr> ''f'' (''ab'' @ [newline] @ ''cd'')) 4 = \<lparr>lc_line = 2, lc_column = 2\<rparr>"
    by code_simp
  have "fits32 (''ab'' @ [newline] @ ''cd'')" by simp
  from line_col_round_trip [OF this, of "\<lparr>sid_value = 1\<rparr>" "''f''" 4]
  show "offset_of (new_source_file \<lparr>sid_value = 1\<rparr> ''f'' (''ab'' @ [newline] @ ''cd''))
     (line_col (new_source_file \<lparr>sid_value = 1\<rparr> ''f'' (''ab'' @ [newline] @ ''cd'')) 4) = 4"
    by (simp add: min_def)
qed

text \<open>The line text shown under a diagnostic is the line the offset lies on: everything between
  the surrounding newlines, without the carriage return of a Windows line ending.\<close>

theorem line_text_is_line:
  fixes w :: u32
  assumes "fits32 c"
  shows "line_text (new_source_file i p c) w = chop_cr (line_body c (min (unat w) (length c)))"
  using assms by (rule line_text_eq)

theorem line_text_is_line_witness:
  "line_text (new_source_file \<lparr>sid_value = 1\<rparr> ''f'' (''ab'' @ [newline] @ ''cd'' @ [carriage_return, newline] @ ''e'')) 4 = ''cd''"
proof -
  have fits: "fits32 (''ab'' @ [newline] @ ''cd'' @ [carriage_return, newline] @ ''e'')" by simp
  have "chop_cr (line_body (''ab'' @ [newline] @ ''cd'' @ [carriage_return, newline] @ ''e'')
      (min (unat (4 :: u32)) (length (''ab'' @ [newline] @ ''cd'' @ [carriage_return, newline] @ ''e'')))) = ''cd''"
    by code_simp
  with line_text_is_line [OF fits, of _ _ 4] show ?thesis by (simp only:)
qed

text \<open>The registry grows by \<open>add_buffer\<close> and \<open>add_file\<close>.\<close>

inductive registry_run :: "source_manager \<Rightarrow> bool" where
  empty: "registry_run []"
| buffer: "registry_run files \<Longrightarrow> length files + 2 < 2 ^ 32 \<Longrightarrow> registry_run (snd (add_buffer files p c))"
| from_disk: "registry_run files \<Longrightarrow> length files + 2 < 2 ^ 32 \<Longrightarrow> registry_run (snd (add_file mx disk files p))"

inductive_cases registry_runE: "registry_run (f # files)"

lemma registry_run_ok: "registry_run files \<Longrightarrow> manager_ok files"
  by (induction rule: registry_run.induct) (auto simp: manager_ok_empty intro: add_buffer_ok add_file_ok)

lemma sm_get_add_file:
  assumes "length files + 2 < 2 ^ 32" and "add_file mx disk files p = (i, files')"
  shows "source_id_valid i \<Longrightarrow> sm_get files' i = Some (new_source_file i p (read_file_to_string (disk p)))"
    and "\<not> source_id_valid i \<Longrightarrow> files' = files"
proof -
  have "u32_of (length files + 1) \<noteq> 0"
    using assms(1) unat_u32_of [of "length files + 1"] by (metis Suc_eq_plus1 add_2_eq_Suc' lessI nat.simps(3) order_less_trans unsigned_0)
  then show "source_id_valid i \<Longrightarrow> sm_get files' i = Some (new_source_file i p (read_file_to_string (disk p)))"
    and "\<not> source_id_valid i \<Longrightarrow> files' = files"
    using assms sm_get_index [of "length files" files']
    by (auto simp: add_file_def Let_def source_id_valid_def nth_append split: if_splits)
qed

text \<open>Source ids are stable: in every registry the program can build, the id a registration
  returns names the registered file with its contents, a refused file leaves the registry alone,
  the file an id names knows that id and its own line table, and no later registration changes what
  an id names.\<close>

theorem registry_ids_stable:
  assumes "registry_run files" and "length files + 2 < 2 ^ 32" and "add_file mx disk files p = (i, files')"
  shows "(if source_id_valid i then sm_get files' i = Some (new_source_file i p (read_file_to_string (disk p)))
          else files' = files) \<and>
    (\<forall>j f. sm_get files j = Some f \<longrightarrow> sm_get files' j = Some f \<and> sf_id f = j \<and>
       sf_line_starts f = build_line_starts (sf_contents f))"
proof -
  have "\<exists>gs. files' = files @ gs" using assms(3) by (auto simp: add_file_def Let_def split: if_splits)
  then have keep: "sm_get files j = Some f \<Longrightarrow> sm_get files' j = Some f" for j f
    using sm_get_append by blast
  have own: "sf_id f = j \<and> sf_line_starts f = build_line_starts (sf_contents f)" if "sm_get files j = Some f" for j f
  proof -
    let ?k = "unat (sid_value j - 1)"
    have k: "?k < length files" "f = files ! ?k" "source_id_valid j"
      using that by (auto simp: sm_get_def Let_def split: if_splits)
    then have f: "f = new_source_file \<lparr>sid_value = u32_of (?k + 1)\<rparr> (sf_path f) (sf_contents f)"
      using registry_run_ok [OF assms(1)] unfolding manager_ok_def by blast
    have "u32_of (?k + 1) = sid_value j" by simp
    moreover have "\<lparr>sid_value = sid_value j\<rparr> = j" by simp
    ultimately have "f = new_source_file j (sf_path f) (sf_contents f)" using f by metis
    then show ?thesis by (metis new_source_file_simps(1,4))
  qed
  show ?thesis using sm_get_add_file [OF assms(2,3)] keep own by auto
qed

theorem registry_ids_stable_witness:
  "registry_run (snd (add_buffer [] ''a'' ''x'')) \<and>
   sm_get (snd (add_file 10 (\<lambda>p. \<lparr>de_exists = True, de_size = Some 1, de_bytes = Some ''y''\<rparr>)
       (snd (add_buffer [] ''a'' ''x'')) ''b'')) \<lparr>sid_value = 2\<rparr> =
     Some (new_source_file \<lparr>sid_value = 2\<rparr> ''b'' ''y'')"
proof -
  let ?disk = "\<lambda>p. \<lparr>de_exists = True, de_size = Some 1, de_bytes = Some ''y''\<rparr> :: disk_entry"
  let ?files = "snd (add_buffer [] ''a'' ''x'')"
  have run: "registry_run ?files" by (intro registry_run.buffer registry_run.empty) simp
  have small: "length ?files + 2 < 2 ^ 32" by (simp add: add_buffer_def Let_def)
  have add: "add_file 10 ?disk ?files ''b'' = (\<lparr>sid_value = 2\<rparr>, snd (add_file 10 ?disk ?files ''b''))"
    by (simp add: add_file_def add_buffer_def Let_def)
  from registry_ids_stable [OF run small add] run show ?thesis
    by (simp add: source_id_valid_def read_file_to_string_def)
qed

end
