(* ===== verification/Rewriter.thy ===== *)
theory Rewriter
  imports Sources
begin

text \<open>
  \<^verbatim>\<open>core/src/rewriter.cpp\<close>: the engine behind \<^verbatim>\<open>--fix\<close>. Fixes are ordered by
  priority, accepted one by one unless an edit overlaps an accepted one, and the accepted edits
  are spliced into the source from its end to its start. The lemmas show that acceptance is
  atomic per fix, that accepted edits of different fixes never overlap, that every drop is
  reported with the fix that won, and that splicing backwards computes the intended text: every
  accepted range replaced, every other byte kept.
\<close>

section \<open>Definitions\<close>

record fix_priority =
  fp_severity :: severity
  fp_rule_id :: string

record prioritised_fix =
  pf_priority :: fix_priority
  pf_fix :: fix_t

record fix_conflict =
  fc_dropped_rule_id :: string
  fc_winning_rule_id :: string
  fc_byte_lo :: u32
  fc_byte_hi :: u32

fun severity_rank :: "severity \<Rightarrow> int" where
  "severity_rank Error = 2"
| "severity_rank Warning = 1"
| "severity_rank Note = 0"

text \<open>Rule ids compare as \<open>std::string\<close> does, byte by byte as unsigned characters: the
  lexicographic order of \<^theory_text>\<open>HOL-Library.List_Lexorder\<close> over
  \<^theory_text>\<open>HOL-Library.Char_ord\<close>.\<close>

definition priority_greater :: "fix_priority \<Rightarrow> nat \<Rightarrow> fix_priority \<Rightarrow> nat \<Rightarrow> bool" where
  "priority_greater a a_idx b b_idx =
     (let ra = severity_rank (fp_severity a); rb = severity_rank (fp_severity b)
      in if ra \<noteq> rb then ra > rb
         else if fp_rule_id a \<noteq> fp_rule_id b then fp_rule_id a < fp_rule_id b
         else a_idx < b_idx)"

definition overlaps :: "u32 \<Rightarrow> u32 \<Rightarrow> u32 \<Rightarrow> u32 \<Rightarrow> bool" where
  "overlaps a_lo a_hi b_lo b_hi = (a_lo < b_hi \<and> b_lo < a_hi)"

record accepted_edit =
  ae_byte_lo :: u32
  ae_byte_hi :: u32
  ae_replacement :: string
  ae_owner_rule_id :: string

abbreviation te_lo :: "text_edit \<Rightarrow> u32" where
  "te_lo e \<equiv> bs_lo (sp_bytes (te_span e))"

abbreviation te_hi :: "text_edit \<Rightarrow> u32" where
  "te_hi e \<equiv> bs_hi (sp_bytes (te_span e))"

text \<open>\<open>find_overlap\<close>: the first accepted edit that some edit of the fix overlaps, edits of the
  fix in the outer loop, accepted edits in the inner one.\<close>

fun find_overlap :: "text_edit list \<Rightarrow> accepted_edit list \<Rightarrow> accepted_edit option" where
  "find_overlap [] accepted = None"
| "find_overlap (e # es) accepted =
     (case find (\<lambda>ae. overlaps (te_lo e) (te_hi e) (ae_byte_lo ae) (ae_byte_hi ae)) accepted of
        Some ae \<Rightarrow> Some ae
      | None \<Rightarrow> find_overlap es accepted)"

definition accept_edit :: "string \<Rightarrow> text_edit \<Rightarrow> accepted_edit" where
  "accept_edit owner e =
     \<lparr>ae_byte_lo = te_lo e, ae_byte_hi = te_hi e, ae_replacement = te_replacement e,
      ae_owner_rule_id = owner\<rparr>"

text \<open>Step (2) of \<open>Rewriter::apply\<close> for one fix of the priority order: an empty fix is skipped,
  a clashing fix is dropped with a conflict record, any other fix has all its edits accepted.\<close>

definition accept_fix ::
  "prioritised_fix \<Rightarrow> accepted_edit list \<times> fix_conflict list \<Rightarrow> accepted_edit list \<times> fix_conflict list" where
  "accept_fix pf st =
     (case st of (accepted, conflicts) \<Rightarrow>
        let edits = fx_edits (pf_fix pf) in
        if edits = [] then (accepted, conflicts)
        else case find_overlap edits accepted of
               Some clash \<Rightarrow>
                 (accepted, conflicts @
                    [\<lparr>fc_dropped_rule_id = fp_rule_id (pf_priority pf),
                      fc_winning_rule_id = ae_owner_rule_id clash,
                      fc_byte_lo = te_lo (hd edits),
                      fc_byte_hi = te_hi (hd edits)\<rparr>])
             | None \<Rightarrow>
                 (accepted @ map (accept_edit (fp_rule_id (pf_priority pf))) edits, conflicts))"

text \<open>Step (1): the indices of the fixes, highest priority first.\<close>

definition index_greater :: "prioritised_fix list \<Rightarrow> nat \<Rightarrow> nat \<Rightarrow> bool" where
  "index_greater fixes a b =
     priority_greater (pf_priority (fixes ! a)) a (pf_priority (fixes ! b)) b"

definition priority_order :: "prioritised_fix list \<Rightarrow> nat list" where
  "priority_order fixes = sort_by (index_greater fixes) [0..<length fixes]"

definition accept_all :: "prioritised_fix list \<Rightarrow> accepted_edit list \<times> fix_conflict list" where
  "accept_all fixes = fold (\<lambda>idx. accept_fix (fixes ! idx)) (priority_order fixes) ([], [])"

text \<open>Step (3): accepted edits by descending start, and one \<open>std::string::replace\<close> each. An edit
  outside the current text is skipped.\<close>

definition lo_greater :: "accepted_edit \<Rightarrow> accepted_edit \<Rightarrow> bool" where
  "lo_greater a b = (ae_byte_lo a > ae_byte_lo b)"

definition splice :: "string \<Rightarrow> accepted_edit \<Rightarrow> string" where
  "splice out e =
     (if unat (ae_byte_lo e) > length out \<or> unat (ae_byte_hi e) > length out \<or>
         ae_byte_hi e < ae_byte_lo e then out
      else take (unat (ae_byte_lo e)) out @ ae_replacement e @ drop (unat (ae_byte_hi e)) out)"

definition apply_fixes :: "string \<Rightarrow> prioritised_fix list \<Rightarrow> string \<times> fix_conflict list" where
  "apply_fixes source fixes =
     (if fixes = [] then (source, [])
      else let (accepted, conflicts) = accept_all fixes
           in (foldl splice source (sort_by lo_greater accepted), conflicts))"

section \<open>The orderings\<close>

text \<open>Both comparators handed to \<open>std::ranges::sort\<close> are strict weak orderings; the one on fix
  indices never ties, so the priority order does not depend on the sorting algorithm.\<close>

lemma severity_rank_inj: "severity_rank a = severity_rank b \<Longrightarrow> a = b"
  by (cases a; cases b) auto

interpretation pord: strict_linear_order "index_greater fxs" for fxs
proof
  fix x y z :: nat
  show "\<not> index_greater fxs x x"
    by (simp add: index_greater_def priority_greater_def)
  show "index_greater fxs x y \<Longrightarrow> index_greater fxs y z \<Longrightarrow> index_greater fxs x z"
    by (auto simp: index_greater_def priority_greater_def Let_def split: if_splits)
  show "\<not> index_greater fxs x y \<Longrightarrow> \<not> index_greater fxs y z \<Longrightarrow> \<not> index_greater fxs x z"
    by (auto simp: index_greater_def priority_greater_def Let_def split: if_splits)
  show "x \<noteq> y \<Longrightarrow> index_greater fxs x y \<or> index_greater fxs y x"
    by (auto simp: index_greater_def priority_greater_def Let_def)
qed

interpretation lord: strict_weak_order lo_greater
  by unfold_locales (auto simp: lo_greater_def)

lemma set_priority_order [simp]: "set (priority_order fixes) = {0..<length fixes}"
  by (simp add: priority_order_def)

lemma distinct_priority_order: "distinct (priority_order fixes)"
  by (simp add: priority_order_def)

lemma priority_order_sorted: "sorted_wrt (index_greater fixes) (priority_order fixes)"
proof -
  have "sorted_wrt (\<lambda>a b. \<not> index_greater fixes b a \<and> a \<noteq> b) (priority_order fixes)"
    using pord.sorted_sort_by [of _ "[0..<length fixes]"] distinct_priority_order
    unfolding priority_order_def by (simp add: sorted_wrt_iff_nth_less distinct_conv_nth)
  then show ?thesis
    by (rule sorted_wrt_mono_rel [rotated]) (use pord.total in blast)
qed

section \<open>Acceptance\<close>

abbreviation fix_edits :: "prioritised_fix list \<Rightarrow> nat \<Rightarrow> text_edit list" where
  "fix_edits fxs i \<equiv> fx_edits (pf_fix (fxs ! i))"

abbreviation fix_rule :: "prioritised_fix list \<Rightarrow> nat \<Rightarrow> string" where
  "fix_rule fxs i \<equiv> fp_rule_id (pf_priority (fxs ! i))"

definition owned_edits :: "prioritised_fix list \<Rightarrow> nat \<Rightarrow> accepted_edit list" where
  "owned_edits fxs i = map (accept_edit (fix_rule fxs i)) (fix_edits fxs i)"

text \<open>Two fixes clash when some edit of the one overlaps some edit of the other.\<close>

definition clash :: "prioritised_fix list \<Rightarrow> nat \<Rightarrow> nat \<Rightarrow> bool" where
  "clash fxs i j = (\<exists>e \<in> set (fix_edits fxs i). \<exists>e' \<in> set (fix_edits fxs j).
     overlaps (te_lo e) (te_hi e) (te_lo e') (te_hi e'))"

lemma overlaps_sym: "overlaps a b c d = overlaps c d a b"
  by (auto simp: overlaps_def)

lemma clash_sym: "clash fxs i j = clash fxs j i"
  unfolding clash_def by (metis overlaps_sym)

lemma accept_edit_simps [simp]:
  "ae_byte_lo (accept_edit r e) = te_lo e" "ae_byte_hi (accept_edit r e) = te_hi e"
  "ae_replacement (accept_edit r e) = te_replacement e" "ae_owner_rule_id (accept_edit r e) = r"
  by (simp_all add: accept_edit_def)

lemma find_overlap_None:
  "find_overlap es acc = None \<longleftrightarrow>
     (\<forall>e \<in> set es. \<forall>ae \<in> set acc. \<not> overlaps (te_lo e) (te_hi e) (ae_byte_lo ae) (ae_byte_hi ae))"
  by (induction es) (fastforce simp: find_None_iff find_Some_iff split: option.splits)+

lemma find_overlap_Some:
  "find_overlap es acc = Some ae \<Longrightarrow>
     ae \<in> set acc \<and> (\<exists>e \<in> set es. overlaps (te_lo e) (te_hi e) (ae_byte_lo ae) (ae_byte_hi ae))"
  by (induction es) (auto simp: find_Some_iff in_set_conv_nth split: option.splits)

lemma overlap_owned:
  "find_overlap (fix_edits fxs i) (concat (map (owned_edits fxs) ks)) = None
     \<longleftrightarrow> (\<forall>j \<in> set ks. \<not> clash fxs i j)"
  by (auto simp: find_overlap_None clash_def owned_edits_def)

text \<open>One step of the acceptance loop, from a state that holds the edits of the fixes \<open>ks\<close>.\<close>

lemma accept_fix_skip:
  "fix_edits fxs i = [] \<Longrightarrow> accept_fix (fxs ! i) st = st"
  by (cases st) (simp add: accept_fix_def)

lemma accept_fix_keep:
  assumes "fix_edits fxs i \<noteq> []" and "\<forall>j \<in> set ks. \<not> clash fxs i j"
  shows "accept_fix (fxs ! i) (concat (map (owned_edits fxs) ks), conf)
       = (concat (map (owned_edits fxs) (ks @ [i])), conf)"
  using assms overlap_owned [of fxs i ks] by (simp add: accept_fix_def owned_edits_def [of fxs i])

definition conflict_of :: "prioritised_fix list \<Rightarrow> nat \<Rightarrow> nat \<Rightarrow> fix_conflict" where
  "conflict_of fxs i j =
     \<lparr>fc_dropped_rule_id = fix_rule fxs i, fc_winning_rule_id = fix_rule fxs j,
      fc_byte_lo = te_lo (hd (fix_edits fxs i)), fc_byte_hi = te_hi (hd (fix_edits fxs i))\<rparr>"

lemma accept_fix_drop:
  assumes "fix_edits fxs i \<noteq> []" and "\<not> (\<forall>j \<in> set ks. \<not> clash fxs i j)"
  obtains j where "j \<in> set ks" and "clash fxs i j"
    and "accept_fix (fxs ! i) (concat (map (owned_edits fxs) ks), conf)
       = (concat (map (owned_edits fxs) ks), conf @ [conflict_of fxs i j])"
proof -
  from assms obtain ae where ae: "find_overlap (fix_edits fxs i) (concat (map (owned_edits fxs) ks)) = Some ae"
    using overlap_owned [of fxs i ks] by fastforce
  then obtain j where "j \<in> set ks" "ae_owner_rule_id ae = fix_rule fxs j" "clash fxs i j"
    using find_overlap_Some [OF ae] by (fastforce simp: owned_edits_def clash_def)
  with ae assms(1) show ?thesis
    by (intro that [of j]) (simp_all add: accept_fix_def conflict_of_def Let_def)
qed

text \<open>The fixes of a priority list that are accepted after those of \<open>ks\<close>, and the conflict
  records of the others.\<close>

fun kept_after :: "prioritised_fix list \<Rightarrow> nat list \<Rightarrow> nat list \<Rightarrow> nat list" where
  "kept_after fxs ks [] = ks"
| "kept_after fxs ks (i # is) =
     (if fix_edits fxs i \<noteq> [] \<and> (\<forall>j \<in> set ks. \<not> clash fxs i j)
      then kept_after fxs (ks @ [i]) is else kept_after fxs ks is)"

definition applied :: "prioritised_fix list \<Rightarrow> nat list" where
  "applied fxs = kept_after fxs [] (priority_order fxs)"

lemma kept_after_prefix: "\<exists>rest. kept_after fxs ks is = ks @ rest \<and> set rest \<subseteq> set is"
proof (induction "is" arbitrary: ks)
  case (Cons i "is")
  show ?case using Cons [of ks] Cons [of "ks @ [i]"] by fastforce
qed simp

lemma distinct_kept_after:
  "distinct (ks @ is) \<Longrightarrow> distinct (kept_after fxs ks is)"
  by (induction "is" arbitrary: ks) auto

lemma fold_accept_edits:
  "fst (fold (\<lambda>idx. accept_fix (fxs ! idx)) is (concat (map (owned_edits fxs) ks), conf))
   = concat (map (owned_edits fxs) (kept_after fxs ks is))"
proof (induction "is" arbitrary: ks conf)
  case (Cons i "is")
  consider "fix_edits fxs i = []"
    | "fix_edits fxs i \<noteq> []" "\<forall>j \<in> set ks. \<not> clash fxs i j"
    | "fix_edits fxs i \<noteq> []" "\<not> (\<forall>j \<in> set ks. \<not> clash fxs i j)"
    by blast
  then show ?case
  proof cases
    case 1
    then show ?thesis using Cons.IH by (simp add: accept_fix_skip)
  next
    case 2
    then show ?thesis using Cons.IH [of "ks @ [i]"] by (simp add: accept_fix_keep)
  next
    case 3
    then obtain j where "accept_fix (fxs ! i) (concat (map (owned_edits fxs) ks), conf)
        = (concat (map (owned_edits fxs) ks), conf @ [conflict_of fxs i j])"
      by (rule accept_fix_drop)
    with 3 show ?thesis using Cons.IH [of ks] by auto
  qed
qed simp

lemma accept_all_edits: "fst (accept_all fxs) = concat (map (owned_edits fxs) (applied fxs))"
  using fold_accept_edits [of fxs _ "[]"] by (simp add: accept_all_def applied_def)

text \<open>The greedy choice: a fix is applied exactly when it has an edit and clashes with no applied
  fix of higher priority.\<close>

lemma kept_after_char:
  assumes "sorted_wrt (index_greater fxs) is"
    and "\<forall>k \<in> set ks. \<forall>i \<in> set is. index_greater fxs k i" and "i \<in> set is"
  shows "i \<in> set (kept_after fxs ks is) \<longleftrightarrow> fix_edits fxs i \<noteq> [] \<and>
    (\<forall>j \<in> set (kept_after fxs ks is). index_greater fxs j i \<longrightarrow> \<not> clash fxs i j)"
  using assms
proof (induction "is" arbitrary: ks)
  case Nil
  then show ?case by simp
next
  case (Cons a "is")
  define ks' where "ks' = (if fix_edits fxs a \<noteq> [] \<and> (\<forall>j \<in> set ks. \<not> clash fxs a j) then ks @ [a] else ks)"
  have step: "kept_after fxs ks (a # is) = kept_after fxs ks' is" by (simp add: ks'_def)
  obtain rest where rest: "kept_after fxs ks' is = ks' @ rest" "set rest \<subseteq> set is"
    using kept_after_prefix by blast
  show ?case
  proof (cases "i = a")
    case True
    have later: "\<not> index_greater fxs j a" if "j \<in> set is" for j
      using Cons.prems(1) that pord.asym by auto
    have "a \<notin> set ks \<union> set is"
      using Cons.prems(1,2) pord.irrefl by fastforce
    then have "a \<in> set (ks' @ rest) \<longleftrightarrow> fix_edits fxs a \<noteq> [] \<and> (\<forall>j \<in> set ks. \<not> clash fxs a j)"
      using rest(2) by (auto simp: ks'_def)
    moreover have "(\<forall>j \<in> set (ks' @ rest). index_greater fxs j a \<longrightarrow> \<not> clash fxs a j)
        \<longleftrightarrow> (\<forall>j \<in> set ks. \<not> clash fxs a j)"
      using later rest(2) Cons.prems(2) pord.irrefl by (auto simp: ks'_def split: if_splits)
    ultimately show ?thesis unfolding step rest(1) True by simp
  next
    case False
    have "\<forall>k \<in> set ks'. \<forall>i \<in> set is. index_greater fxs k i"
      using Cons.prems by (auto simp: ks'_def)
    with Cons False show ?thesis unfolding step by (intro Cons.IH) auto
  qed
qed

lemma applied_iff:
  assumes "i < length fxs"
  shows "i \<in> set (applied fxs) \<longleftrightarrow> fix_edits fxs i \<noteq> [] \<and>
    (\<forall>j \<in> set (applied fxs). index_greater fxs j i \<longrightarrow> \<not> clash fxs i j)"
  unfolding applied_def
  by (rule kept_after_char [OF priority_order_sorted]) (use assms in auto)

lemma set_applied: "set (applied fxs) \<subseteq> {0..<length fxs}"
  using kept_after_prefix [of fxs "[]" "priority_order fxs"] by (auto simp: applied_def)

lemma distinct_applied: "distinct (applied fxs)"
  using distinct_kept_after [of "[]"] distinct_priority_order by (simp add: applied_def)

lemma applied_disjoint:
  assumes "i \<in> set (applied fxs)" and "j \<in> set (applied fxs)" and "i \<noteq> j"
  shows "\<not> clash fxs i j"
  using assms applied_iff [of i fxs] applied_iff [of j fxs] set_applied [of fxs]
    pord.total [of i j fxs] clash_sym [of fxs i j] by auto

section \<open>Conflicts\<close>

definition dropped :: "prioritised_fix list \<Rightarrow> nat list" where
  "dropped fxs = filter (\<lambda>i. fix_edits fxs i \<noteq> [] \<and> i \<notin> set (applied fxs)) (priority_order fxs)"

text \<open>Every dropped fix has one record, in priority order, and the record names the rule of an
  applied fix it clashes with.\<close>

lemma fold_accept_conflicts:
  assumes "distinct (ks @ is)"
  shows "\<exists>cs. snd (fold (\<lambda>idx. accept_fix (fxs ! idx)) is (concat (map (owned_edits fxs) ks), conf)) = conf @ cs \<and>
     list_all2 (\<lambda>i c. \<exists>j \<in> set (kept_after fxs ks is). clash fxs i j \<and> c = conflict_of fxs i j)
       (filter (\<lambda>i. fix_edits fxs i \<noteq> [] \<and> i \<notin> set (kept_after fxs ks is)) is) cs"
  using assms
proof (induction "is" arbitrary: ks conf)
  case Nil
  then show ?case by simp
next
  case (Cons i "is")
  consider "fix_edits fxs i = []"
    | "fix_edits fxs i \<noteq> []" "\<forall>j \<in> set ks. \<not> clash fxs i j"
    | "fix_edits fxs i \<noteq> []" "\<not> (\<forall>j \<in> set ks. \<not> clash fxs i j)"
    by blast
  then show ?case
  proof cases
    case 1
    then show ?thesis using Cons.IH [of ks conf] Cons.prems by (simp add: accept_fix_skip)
  next
    case 2
    moreover have "i \<in> set (kept_after fxs (ks @ [i]) is)"
      using kept_after_prefix [of fxs "ks @ [i]" "is"] by auto
    ultimately show ?thesis
      using Cons.IH [of "ks @ [i]" conf] Cons.prems by (simp add: accept_fix_keep)
  next
    case 3
    then obtain j where j: "j \<in> set ks" "clash fxs i j"
      and step: "accept_fix (fxs ! i) (concat (map (owned_edits fxs) ks), conf)
        = (concat (map (owned_edits fxs) ks), conf @ [conflict_of fxs i j])"
      by (rule accept_fix_drop)
    obtain rest where rest: "kept_after fxs ks is = ks @ rest" "set rest \<subseteq> set is"
      using kept_after_prefix by blast
    have kept: "kept_after fxs ks (i # is) = kept_after fxs ks is" using 3 by auto
    have "i \<notin> set (kept_after fxs ks is)" "j \<in> set (kept_after fxs ks is)"
      using rest Cons.prems j by auto
    moreover obtain cs where
      "snd (fold (\<lambda>idx. accept_fix (fxs ! idx)) is (concat (map (owned_edits fxs) ks), conf @ [conflict_of fxs i j]))
         = conf @ conflict_of fxs i j # cs"
      and "list_all2 (\<lambda>i c. \<exists>j \<in> set (kept_after fxs ks is). clash fxs i j \<and> c = conflict_of fxs i j)
         (filter (\<lambda>i. fix_edits fxs i \<noteq> [] \<and> i \<notin> set (kept_after fxs ks is)) is) cs"
      using Cons.IH [of ks "conf @ [conflict_of fxs i j]"] Cons.prems by auto
    ultimately show ?thesis
      unfolding kept using 3(1) j(2)
      by (intro exI [of _ "conflict_of fxs i j # cs"]) (auto simp: step)
  qed
qed

lemma accept_all_conflicts:
  "list_all2 (\<lambda>i c. \<exists>j \<in> set (applied fxs). clash fxs i j \<and> c = conflict_of fxs i j)
     (dropped fxs) (snd (accept_all fxs))"
  using fold_accept_conflicts [of "[]" "priority_order fxs" fxs "[]"] distinct_priority_order
  by (auto simp: accept_all_def applied_def dropped_def)

section \<open>Splicing\<close>

text \<open>The intended text: copy up to each edit, put its replacement, go on after it.\<close>

fun render :: "string \<Rightarrow> nat \<Rightarrow> accepted_edit list \<Rightarrow> string" where
  "render s i [] = drop i s"
| "render s i (e # es) =
     substr s i (unat (ae_byte_lo e) - i) @ ae_replacement e @ render s (unat (ae_byte_hi e)) es"

definition in_bounds :: "string \<Rightarrow> accepted_edit \<Rightarrow> bool" where
  "in_bounds s e = (ae_byte_lo e \<le> ae_byte_hi e \<and> unat (ae_byte_hi e) \<le> length s)"

definition before :: "accepted_edit \<Rightarrow> accepted_edit \<Rightarrow> bool" where
  "before a b = (ae_byte_hi a \<le> ae_byte_lo b)"

lemma splice_render:
  assumes "\<forall>e \<in> set es. in_bounds s e \<and> i \<le> unat (ae_byte_lo e)"
    and "sorted_wrt before es" and "i \<le> length s"
  shows "foldl splice s (rev es) = take i s @ render s i es"
  using assms
proof (induction es arbitrary: i)
  case Nil
  then show ?case by simp
next
  case (Cons e es)
  let ?lo = "unat (ae_byte_lo e)" and ?hi = "unat (ae_byte_hi e)"
  have hi: "?lo \<le> ?hi" "?hi \<le> length s" "i \<le> ?lo"
    using Cons.prems(1) by (auto simp: in_bounds_def word_le_nat_alt)
  have "foldl splice s (rev es) = take ?hi s @ render s ?hi es"
    using Cons.prems(1,2) hi(2) by (intro Cons.IH) (auto simp: before_def word_le_nat_alt)
  moreover have "splice (take ?hi s @ render s ?hi es) e
      = take ?lo s @ ae_replacement e @ render s ?hi es"
    using hi by (simp add: splice_def word_less_nat_alt min_def)
  moreover have "take ?lo s = take i s @ substr s i (?lo - i)"
    using hi(3) unfolding substr_def by (metis le_add_diff_inverse take_add)
  ultimately show ?case by simp
qed

text \<open>Edits that pairwise neither overlap nor start at the same byte have exactly one order by
  descending start, and it is the reverse of their order in the text.\<close>

lemma before_if_less:
  assumes "in_bounds s a" and "in_bounds s b" and "ae_byte_lo a < ae_byte_lo b"
    and "\<not> overlaps (ae_byte_lo a) (ae_byte_hi a) (ae_byte_lo b) (ae_byte_hi b)"
  shows "before a b"
  using assms by (auto simp: in_bounds_def overlaps_def before_def)

lemma splice_any_sort:
  assumes bounds: "\<forall>e \<in> set es. in_bounds s e"
    and disj: "sorted_wrt (\<lambda>a b. ae_byte_lo a \<noteq> ae_byte_lo b \<and>
       \<not> overlaps (ae_byte_lo a) (ae_byte_hi a) (ae_byte_lo b) (ae_byte_hi b)) es"
    and sorted: "sorted_wrt (\<lambda>a b. \<not> lo_greater b a) es"
  shows "foldl splice s es = render s 0 (rev es)"
proof -
  have "sorted_wrt (\<lambda>a b. before b a) es"
    using disj sorted bounds
  proof (induction es)
    case (Cons e es)
    have "before b e" if "b \<in> set es" for b
    proof (rule before_if_less [of s])
      show "ae_byte_lo b < ae_byte_lo e"
        using Cons.prems(1,2) that not_less_iff_gr_or_eq by (auto simp: lo_greater_def)
      show "\<not> overlaps (ae_byte_lo b) (ae_byte_hi b) (ae_byte_lo e) (ae_byte_hi e)"
        using Cons.prems(1) that overlaps_sym by auto
    qed (use Cons.prems(3) that in auto)
    with Cons show ?case by auto
  qed simp
  then have "sorted_wrt before (rev es)" by (simp add: sorted_wrt_rev)
  then show ?thesis
    using splice_render [of "rev es" s 0] bounds by simp
qed

lemma pairwise_accepted:
  assumes "\<forall>i \<in> set (applied fxs). sorted_wrt (\<lambda>a b. \<not> overlaps (te_lo a) (te_hi a) (te_lo b) (te_hi b))
      (fix_edits fxs i)"
  shows "sorted_wrt (\<lambda>a b. \<not> overlaps (ae_byte_lo a) (ae_byte_hi a) (ae_byte_lo b) (ae_byte_hi b))
      (fst (accept_all fxs))"
proof -
  have "sorted_wrt (\<lambda>a b. \<not> overlaps (ae_byte_lo a) (ae_byte_hi a) (ae_byte_lo b) (ae_byte_hi b))
      (concat (map (owned_edits fxs) ks))" if "distinct ks" "set ks \<subseteq> set (applied fxs)" for ks
    using that
  proof (induction ks)
    case (Cons k ks)
    have "\<not> overlaps (te_lo a) (te_hi a) (te_lo b) (te_hi b)"
      if "a \<in> set (fix_edits fxs k)" "b \<in> set (fix_edits fxs j)" "j \<in> set ks" for a b j
    proof -
      have "\<not> clash fxs k j"
        using Cons.prems that by (intro applied_disjoint) auto
      with that show ?thesis by (auto simp: clash_def)
    qed
    with Cons assms show ?case by (auto simp: sorted_wrt_append owned_edits_def sorted_wrt_map)
  qed simp
  then show ?thesis by (simp add: accept_all_edits distinct_applied)
qed

section \<open>Properties\<close>

text \<open>C4: the accepted edits are exactly the edits of the applied fixes, each fix whole or not at
  all, and a fix is applied exactly when it has an edit and overlaps no applied fix of higher
  priority.\<close>

theorem rewriter_accepts_greedily:
  "fst (accept_all fxs) = concat (map (owned_edits fxs) (applied fxs)) \<and> distinct (applied fxs) \<and>
   set (applied fxs) = {i. i < length fxs \<and> fix_edits fxs i \<noteq> [] \<and>
     \<not> (\<exists>j \<in> set (applied fxs). index_greater fxs j i \<and> clash fxs i j)}"
  using applied_iff [of _ fxs] set_applied [of fxs]
  by (auto simp: accept_all_edits distinct_applied)

text \<open>C24: Every fix with an edit that was not applied is reported, in priority order, by one
  conflict record, which names the dropped rule, its first edit's range and a rule whose applied
  fix it overlaps.\<close>

theorem rewriter_reports_every_drop:
  "list_all2 (\<lambda>i c. \<exists>j \<in> set (applied fxs). clash fxs i j \<and> c = conflict_of fxs i j)
     (filter (\<lambda>i. fix_edits fxs i \<noteq> [] \<and> i \<notin> set (applied fxs)) (priority_order fxs))
     (snd (apply_fixes s fxs))"
proof (cases "fxs = []")
  case True
  then show ?thesis by (simp add: apply_fixes_def priority_order_def)
next
  case False
  then show ?thesis
    using accept_all_conflicts [of fxs] by (auto simp: apply_fixes_def dropped_def split: prod.splits)
qed

text \<open>C5: when the accepted edits lie in the source, the edits inside one fix do not overlap each
  other and no two accepted edits start at the same byte, the rewritten text is the source with
  each accepted range replaced and everything else kept, whatever order a correct sort puts
  them in.\<close>

theorem rewriter_renders:
  assumes "\<forall>e \<in> set (fst (accept_all fxs)). in_bounds s e"
    and "\<forall>i \<in> set (applied fxs). sorted_wrt (\<lambda>a b. \<not> overlaps (te_lo a) (te_hi a) (te_lo b) (te_hi b))
      (fix_edits fxs i)"
    and "distinct (map ae_byte_lo (fst (accept_all fxs)))"
  shows "fst (apply_fixes s fxs) = render s 0 (rev (sort_by lo_greater (fst (accept_all fxs)))) \<and>
    (\<forall>es. mset es = mset (fst (accept_all fxs)) \<longrightarrow> sorted_wrt (\<lambda>a b. \<not> lo_greater b a) es \<longrightarrow>
       foldl splice s es = render s 0 (rev es))"
proof -
  let ?P = "\<lambda>a b. ae_byte_lo a \<noteq> ae_byte_lo b \<and>
    \<not> overlaps (ae_byte_lo a) (ae_byte_hi a) (ae_byte_lo b) (ae_byte_hi b)"
  have "sorted_wrt (\<lambda>a b. ae_byte_lo a \<noteq> ae_byte_lo b) (fst (accept_all fxs))"
    using assms(3) by (simp add: distinct_map sorted_wrt_iff_nth_less distinct_conv_nth nth_eq_iff_index_eq inj_on_def)
  then have P: "sorted_wrt ?P (fst (accept_all fxs))"
    using pairwise_accepted [OF assms(2)] by (simp add: sorted_wrt_iff_nth_less)
  have any: "foldl splice s es = render s 0 (rev es)"
    if "mset es = mset (fst (accept_all fxs))" "sorted_wrt (\<lambda>a b. \<not> lo_greater b a) es" for es
  proof (rule splice_any_sort)
    show "\<forall>e \<in> set es. in_bounds s e"
      using assms(1) that(1) by (metis set_mset_mset)
    show "sorted_wrt ?P es"
      by (rule sorted_wrt_mset [OF _ P that(1)]) (auto simp: symp_on_def overlaps_sym)
  qed (rule that(2))
  have "fst (apply_fixes s fxs) = foldl splice s (sort_by lo_greater (fst (accept_all fxs)))"
    by (cases "fxs = []") (simp_all add: apply_fixes_def accept_all_def priority_order_def split: prod.splits)
  with any lord.sorted_sort_by show ?thesis by simp
qed

text \<open>Fixes with a single edit, for the concrete runs below.\<close>

definition one_edit_fix :: "severity \<Rightarrow> string \<Rightarrow> nat \<Rightarrow> nat \<Rightarrow> string \<Rightarrow> prioritised_fix" where
  "one_edit_fix sev rule lo hi text =
     \<lparr>pf_priority = \<lparr>fp_severity = sev, fp_rule_id = rule\<rparr>,
      pf_fix = \<lparr>fx_description = [], fx_machine_applicable = True,
        fx_edits = [\<lparr>te_span = \<lparr>sp_source = \<lparr>sid_value = 1\<rparr>,
          sp_bytes = \<lparr>bs_lo = u32_of lo, bs_hi = u32_of hi\<rparr>\<rparr>, te_replacement = text\<rparr>]\<rparr>\<rparr>"

definition sample_fixes :: "prioritised_fix list" where
  "sample_fixes = [one_edit_fix Note ''n'' 2 4 ''Z'', one_edit_fix Warning ''r'' 3 5 ''YY'',
     one_edit_fix Error ''q'' 1 2 ''X'']"

lemma rewriter_renders_witness:
  "fst (apply_fixes ''abcdef'' sample_fixes) = ''aXcYYf'' \<and>
   fst (apply_fixes ''abcdef'' sample_fixes)
     = render ''abcdef'' 0 (rev (sort_by lo_greater (fst (accept_all sample_fixes))))"
proof
  show "fst (apply_fixes ''abcdef'' sample_fixes)
     = render ''abcdef'' 0 (rev (sort_by lo_greater (fst (accept_all sample_fixes))))"
  proof (rule rewriter_renders [THEN conjunct1])
    show "\<forall>e \<in> set (fst (accept_all sample_fixes)). in_bounds ''abcdef'' e" by code_simp
    show "\<forall>i \<in> set (applied sample_fixes). sorted_wrt (\<lambda>a b. \<not> overlaps (te_lo a) (te_hi a) (te_lo b) (te_hi b))
      (fix_edits sample_fixes i)" by code_simp
    show "distinct (map ae_byte_lo (fst (accept_all sample_fixes)))" by code_simp
  qed
  show "fst (apply_fixes ''abcdef'' sample_fixes) = ''aXcYYf''" by code_simp
qed

definition same_start_fixes :: "prioritised_fix list" where
  "same_start_fixes =
     [one_edit_fix Error ''wrap'' 2 2 ''('', one_edit_fix Warning ''name'' 2 4 ''YZ'']"

text \<open>Two accepted edits may start at the same byte, an insertion and a replacement, without
  overlapping. The comparator does not order them, so either order is a result of the sort, and
  the texts differ: with the insertion applied first the replacement overwrites it and spares
  bytes it meant to delete. No conflict is reported.\<close>

theorem rewriter_same_start_corrupts:
  "fst (apply_fixes ''abcdef'' same_start_fixes) = ''abYZdef'' \<and>
   snd (apply_fixes ''abcdef'' same_start_fixes) = [] \<and>
   sorted_wrt (\<lambda>a b. \<not> lo_greater b a) (fst (accept_all same_start_fixes)) \<and>
   sorted_wrt (\<lambda>a b. \<not> lo_greater b a) (rev (fst (accept_all same_start_fixes))) \<and>
   foldl splice ''abcdef'' (rev (fst (accept_all same_start_fixes))) = ''ab(YZef''"
  by (intro conjI; code_simp)

end
