(* ===== verification/Suppress.thy ===== *)
theory Suppress
  imports Sources
begin

text \<open>
  \<^verbatim>\<open>core/src/suppress.cpp\<close> and \<^verbatim>\<open>suppress.hpp\<close>: the grammar-agnostic scanner for
  inline suppressions, \<^verbatim>\<open>// shader-clippy: allow(rule, ...)\<close>. A flat loop over the bytes
  tells line comments, block comments, string literals and code apart; each marker comment is
  parsed and given a scope (the rest of its line, the next braced block, the next code line, or
  the whole file), and the resulting byte ranges answer \<open>suppresses\<close>. The lemmas bound every
  index the scanner computes, give the parser's result on printed markers, show that the sorted
  per-rule index answers exactly as the flat list of entries, and follow a file-scope wildcard
  from the text to every diagnostic.
\<close>

section \<open>Lexical helpers\<close>

definition k_marker :: string where
  "k_marker = ''shader-clippy:''"

definition k_allow :: string where
  "k_allow = ''allow''"

definition k_wildcard_rule :: string where
  "k_wildcard_rule = ''*''"

definition is_space_or_tab :: "char \<Rightarrow> bool" where
  "is_space_or_tab c = (c = CHR '' '' \<or> c = tab_char)"

definition is_ident_char :: "char \<Rightarrow> bool" where
  "is_ident_char c = (c = CHR ''-'' \<or> c = CHR ''_'' \<or> c = CHR ''*'' \<or> c = CHR '':'' \<or> is_alnum_char c)"

definition skip_inline_ws :: "string \<Rightarrow> nat \<Rightarrow> nat" where
  "skip_inline_ws src i = skip_while is_space_or_tab src i"

definition skip_ident :: "string \<Rightarrow> nat \<Rightarrow> nat" where
  "skip_ident src i = skip_while is_ident_char src i"

definition starts_with :: "string \<Rightarrow> nat \<Rightarrow> string \<Rightarrow> bool" where
  "starts_with src i needle =
     (if i + length needle > length src then False
      else substr src i (length needle) = needle)"

definition end_of_line :: "string \<Rightarrow> nat \<Rightarrow> nat" where
  "end_of_line src i = skip_while (\<lambda>c. c \<noteq> newline) src i"

function end_of_block :: "string \<Rightarrow> nat \<Rightarrow> nat" where
  "end_of_block src i =
     (if i + 1 < length src
      then if src ! i = CHR ''*'' \<and> src ! (i + 1) = CHR ''/'' then i + 2
           else end_of_block src (i + 1)
      else length src)"
  by pat_completeness auto
termination
  by (relation "measure (\<lambda>(src, i). length src - i)") auto

declare end_of_block.simps [simp del]

text \<open>The loop of \<open>skip_string_literal\<close>, from the byte after the opening quote.\<close>

function literal_end :: "string \<Rightarrow> nat \<Rightarrow> char \<Rightarrow> nat" where
  "literal_end src i quote =
     (if i < length src \<and> src ! i \<noteq> quote
      then if src ! i = CHR 0x5C \<and> i + 1 < length src then literal_end src (i + 2) quote
           else literal_end src (i + 1) quote
      else i)"
  by pat_completeness auto
termination
  by (relation "measure (\<lambda>(src, i, quote). length src - i)") auto

declare literal_end.simps [simp del]

definition skip_string_literal :: "string \<Rightarrow> nat \<Rightarrow> char \<Rightarrow> nat" where
  "skip_string_literal src i quote =
     (let j = literal_end src (i + 1) quote in if j < length src then j + 1 else j)"

lemma end_of_line_bounds [skip_bounds]:
  "i \<le> end_of_line src i" "i \<le> length src \<Longrightarrow> end_of_line src i \<le> length src"
  by (simp_all add: end_of_line_def skip_bounds)

lemma skip_inline_ws_bounds [skip_bounds]:
  "i \<le> skip_inline_ws src i" "i \<le> length src \<Longrightarrow> skip_inline_ws src i \<le> length src"
  by (simp_all add: skip_inline_ws_def skip_bounds)

lemma skip_ident_bounds [skip_bounds]:
  "i \<le> skip_ident src i" "i \<le> length src \<Longrightarrow> skip_ident src i \<le> length src"
  by (simp_all add: skip_ident_def skip_bounds)

lemma end_of_block_bounds [skip_bounds]:
  "i \<le> length src \<Longrightarrow> i \<le> end_of_block src i" "i \<le> length src \<Longrightarrow> end_of_block src i \<le> length src"
proof -
  have "i \<le> length src \<Longrightarrow> i \<le> end_of_block src i \<and> end_of_block src i \<le> length src"
  proof (induction src i rule: end_of_block.induct)
    case (1 src i)
    then show ?case by (subst (1 2) end_of_block.simps) auto
  qed
  then show "i \<le> length src \<Longrightarrow> i \<le> end_of_block src i"
    and "i \<le> length src \<Longrightarrow> end_of_block src i \<le> length src" by auto
qed

lemma literal_end_bounds:
  "i \<le> length src \<Longrightarrow> i \<le> literal_end src i q \<and> literal_end src i q \<le> length src"
proof (induction src i q rule: literal_end.induct)
  case (1 src i q)
  then show ?case by (subst (1 2) literal_end.simps) auto
qed

lemma skip_string_literal_bounds [skip_bounds]:
  "i < length src \<Longrightarrow> i < skip_string_literal src i q"
  "i < length src \<Longrightarrow> skip_string_literal src i q \<le> length src"
  using literal_end_bounds [of "i + 1" src q] by (auto simp: skip_string_literal_def Let_def)

section \<open>Markers\<close>

record parsed_marker =
  pm_rules :: "string list"
  pm_byte_lo :: u32
  pm_byte_hi :: u32
  pm_well_formed :: bool

text \<open>The loop of \<open>parse_marker\<close> over the rule list, from the byte after the opening
  parenthesis: the names read so far and whether a closing parenthesis ended the list.\<close>

function parse_rules :: "string \<Rightarrow> nat \<Rightarrow> nat \<Rightarrow> string list \<Rightarrow> string list \<times> bool" where
  "parse_rules src hi i0 rules =
     (if i0 < hi
      then let i = skip_inline_ws src i0 in
           if i < hi \<and> src ! i = CHR '')'' then (rules, True)
           else let name_lo = i; i = skip_ident src i in
                if i = name_lo then (rules, False)
                else let rules' = rules @ [substr src name_lo (i - name_lo)];
                         i = skip_inline_ws src i in
                     if i < hi \<and> src ! i = CHR '','' then parse_rules src hi (i + 1) rules'
                     else if i < hi \<and> src ! i = CHR '')'' then (rules', True)
                     else (rules', False)
      else (rules, False))"
  by pat_completeness auto
termination
proof (relation "measure (\<lambda>(src, hi, i, rules). hi - i)", goal_cases)
  case (2 src hi i0 rules i name_lo j rules' k)
  have "i0 \<le> k" using 2 skip_inline_ws_bounds(1) skip_ident_bounds(1) by (metis le_trans)
  moreover have "k < hi" using 2 by simp
  ultimately show ?case by auto
qed simp

declare parse_rules.simps [simp del]

definition parse_marker :: "string \<Rightarrow> nat \<Rightarrow> nat \<Rightarrow> parsed_marker" where
  "parse_marker src body_lo body_hi =
     (let mk = (\<lambda>rules ok. \<lparr>pm_rules = rules, pm_byte_lo = u32_of body_lo,
                 pm_byte_hi = u32_of body_hi, pm_well_formed = ok\<rparr>);
          i = skip_inline_ws src body_lo in
      if \<not> starts_with src i k_marker then mk [] False
      else let i = skip_inline_ws src (i + length k_marker) in
      if \<not> starts_with src i k_allow then mk [] False
      else let i = skip_inline_ws src (i + length k_allow) in
      if i \<ge> body_hi \<or> src ! i \<noteq> CHR ''('' then mk [] False
      else case parse_rules src body_hi (i + 1) [] of (rules, ok) \<Rightarrow> mk rules ok)"

section \<open>Scopes\<close>

function skip_ws_and_comments :: "string \<Rightarrow> nat \<Rightarrow> nat" where
  "skip_ws_and_comments src i =
     (if i < length src
      then let c = src ! i in
           if c = CHR '' '' \<or> c = tab_char \<or> c = carriage_return \<or> c = newline
           then skip_ws_and_comments src (i + 1)
           else if c = CHR ''/'' \<and> i + 1 < length src \<and> src ! (i + 1) = CHR ''/''
           then skip_ws_and_comments src (end_of_line src (i + 2))
           else if c = CHR ''/'' \<and> i + 1 < length src \<and> src ! (i + 1) = CHR ''*''
           then skip_ws_and_comments src (end_of_block src (i + 2))
           else i
      else length src)"
  by pat_completeness auto
termination
proof (relation "measure (\<lambda>(src, i). length src - i)", goal_cases)
  case (3 src i c)
  then show ?case using end_of_line_bounds(1) [of "i + 2" src] by auto
next
  case (4 src i c)
  then show ?case using end_of_block_bounds(1) [of "i + 2" src] by auto
qed auto

declare skip_ws_and_comments.simps [simp del]

definition skip_token :: "string \<Rightarrow> nat \<Rightarrow> nat" where
  "skip_token src i =
     (let c = src ! i in
      if c = CHR ''/'' \<and> i + 1 < length src \<and> src ! (i + 1) = CHR ''/'' then end_of_line src (i + 2)
      else if c = CHR ''/'' \<and> i + 1 < length src \<and> src ! (i + 1) = CHR ''*'' then end_of_block src (i + 2)
      else if c = CHR 0x22 \<or> c = CHR 0x27 then skip_string_literal src i c
      else i)"

lemma skip_token_bounds [skip_bounds]:
  "i < length src \<Longrightarrow> i \<le> skip_token src i" "i < length src \<Longrightarrow> skip_token src i \<le> length src"
  using end_of_line_bounds [of "i + 2" src] end_of_block_bounds [of "i + 2" src]
    skip_string_literal_bounds [of i src]
  by (auto simp: skip_token_def Let_def intro: less_imp_le)

text \<open>The loop of \<open>end_of_block_brace\<close>, from the byte after the opening brace at depth 1.\<close>

function brace_loop :: "string \<Rightarrow> nat \<Rightarrow> int \<Rightarrow> nat" where
  "brace_loop src i depth =
     (if i < length src \<and> depth > 0
      then let after_token = skip_token src i in
           if after_token \<noteq> i then brace_loop src after_token depth
           else let c = src ! i in
                if c = CHR 0x7B then brace_loop src (i + 1) (depth + 1)
                else if c = CHR 0x7D then
                  (if depth - 1 = 0 then i + 1 else brace_loop src (i + 1) (depth - 1))
                else brace_loop src (i + 1) depth
      else length src)"
  by pat_completeness auto
termination
proof (relation "measure (\<lambda>(src, i, depth). length src - i)", goal_cases)
  case (2 src i depth t)
  then show ?case using skip_token_bounds [of i src] by auto
qed auto

declare brace_loop.simps [simp del]

definition end_of_block_brace :: "string \<Rightarrow> nat \<Rightarrow> nat" where
  "end_of_block_brace src open_brace =
     (if open_brace \<ge> length src \<or> src ! open_brace \<noteq> CHR 0x7B then length src
      else brace_loop src (open_brace + 1) 1)"

text \<open>\<open>if (i < src.size() && src[i] == '\n') ++i;\<close>, as the line loops step over a line end.\<close>

definition past_newline :: "string \<Rightarrow> nat \<Rightarrow> nat" where
  "past_newline src i = (if i < length src \<and> src ! i = newline then i + 1 else i)"

lemma past_newline_bounds [skip_bounds]:
  "i \<le> past_newline src i" "i \<le> length src \<Longrightarrow> past_newline src i \<le> length src"
  by (auto simp: past_newline_def)

text \<open>The two loops over lines. Both skip blank and comment lines after the marker's line;
  \<open>next_code_line_end\<close> returns the end of the first line with code,
  \<open>next_code_line_start\<close> its start. Neither takes a carriage return for white space.\<close>

function line_end_loop :: "string \<Rightarrow> nat \<Rightarrow> nat" where
  "line_end_loop src i0 =
     (if i0 < length src
      then let i = skip_inline_ws src i0 in
           if i < length src \<and> src ! i = newline then line_end_loop src (i + 1)
           else if i + 1 < length src \<and> src ! i = CHR ''/'' \<and> src ! (i + 1) = CHR ''/''
           then line_end_loop src (past_newline src (end_of_line src (i + 2)))
           else if i + 1 < length src \<and> src ! i = CHR ''/'' \<and> src ! (i + 1) = CHR ''*''
           then line_end_loop src (end_of_block src (i + 2))
           else end_of_line src i
      else length src)"
  by pat_completeness auto
termination
proof (relation "measure (\<lambda>(src, i). length src - i)", goal_cases)
  case (2 src i0 i)
  then show ?case using skip_inline_ws_bounds(1) [of i0 src] by auto
next
  case (3 src i0 i)
  then show ?case
    using skip_inline_ws_bounds(1) [of i0 src] end_of_line_bounds(1) [of "i + 2" src]
      past_newline_bounds(1) [of "end_of_line src (i + 2)" src] by auto
next
  case (4 src i0 i)
  then show ?case
    using skip_inline_ws_bounds(1) [of i0 src] end_of_block_bounds(1) [of "i + 2" src] by auto
qed auto

declare line_end_loop.simps [simp del]

function line_start_loop :: "string \<Rightarrow> nat \<Rightarrow> nat" where
  "line_start_loop src i0 =
     (if i0 < length src
      then let line_start_save = i0; i = skip_inline_ws src i0 in
           if i < length src \<and> src ! i = newline then line_start_loop src (i + 1)
           else if i + 1 < length src \<and> src ! i = CHR ''/'' \<and> src ! (i + 1) = CHR ''/''
           then line_start_loop src (past_newline src (end_of_line src (i + 2)))
           else if i + 1 < length src \<and> src ! i = CHR ''/'' \<and> src ! (i + 1) = CHR ''*''
           then line_start_loop src (end_of_block src (i + 2))
           else line_start_save
      else length src)"
  by pat_completeness auto
termination
proof (relation "measure (\<lambda>(src, i). length src - i)", goal_cases)
  case (2 src i0 s i)
  then show ?case using skip_inline_ws_bounds(1) [of i0 src] by auto
next
  case (3 src i0 s i)
  then show ?case
    using skip_inline_ws_bounds(1) [of i0 src] end_of_line_bounds(1) [of "i + 2" src]
      past_newline_bounds(1) [of "end_of_line src (i + 2)" src] by auto
next
  case (4 src i0 s i)
  then show ?case
    using skip_inline_ws_bounds(1) [of i0 src] end_of_block_bounds(1) [of "i + 2" src] by auto
qed auto

declare line_start_loop.simps [simp del]

definition next_code_line_end :: "string \<Rightarrow> nat \<Rightarrow> u32" where
  "next_code_line_end src line_end = u32_of (line_end_loop src (past_newline src line_end))"

definition next_code_line_start :: "string \<Rightarrow> nat \<Rightarrow> u32" where
  "next_code_line_start src line_end = u32_of (line_start_loop src (past_newline src line_end))"

definition any_non_ws :: "string \<Rightarrow> nat \<Rightarrow> nat \<Rightarrow> bool" where
  "any_non_ws src lo hi =
     list_ex (\<lambda>k. src ! k \<noteq> CHR '' '' \<and> src ! k \<noteq> tab_char) [lo..<min hi (length src)]"

definition contains_wildcard :: "string list \<Rightarrow> bool" where
  "contains_wildcard rules = list_ex (\<lambda>r. r = k_wildcard_rule) rules"

record resolved_scope =
  rs_byte_lo :: u32
  rs_byte_hi :: u32
  rs_wildcard_at_top :: bool

text \<open>The \<open>while\<close> loop of \<open>resolve_scope\<close> that walks back to the start of the line.\<close>

fun walk_to_line_start :: "string \<Rightarrow> nat \<Rightarrow> nat" where
  "walk_to_line_start src 0 = 0"
| "walk_to_line_start src (Suc k) = (if src ! k \<noteq> newline then walk_to_line_start src k else Suc k)"

definition resolve_scope :: "string \<Rightarrow> nat \<Rightarrow> nat \<Rightarrow> bool \<Rightarrow> string list \<Rightarrow> resolved_scope" where
  "resolve_scope source line_comment_lo comment_hi seen_real_code rules =
     (let comment_start = (if line_comment_lo \<ge> 2 then line_comment_lo - 2 else 0);
          line_start = walk_to_line_start source comment_start;
          same_line_code = any_non_ws source line_start comment_start in
      if same_line_code
      then \<lparr>rs_byte_lo = u32_of line_start, rs_byte_hi = u32_of comment_hi,
            rs_wildcard_at_top = False\<rparr>
      else let next_token_idx = skip_ws_and_comments source comment_hi;
               (lo, hi) =
                 (if next_token_idx \<ge> length source then (u32_of comment_hi, u32_of comment_hi)
                  else if source ! next_token_idx = CHR 0x7B
                  then (u32_of next_token_idx, u32_of (end_of_block_brace source next_token_idx))
                  else (next_code_line_start source comment_hi, next_code_line_end source comment_hi))
           in \<lparr>rs_byte_lo = lo, rs_byte_hi = hi,
               rs_wildcard_at_top = (\<not> seen_real_code \<and> contains_wildcard rules)\<rparr>)"

section \<open>The scanner\<close>

record suppression =
  su_rule_id :: string
  su_byte_lo :: u32
  su_byte_hi :: u32

record scan_diagnostic =
  sd_message :: string
  sd_byte_lo :: u32
  sd_byte_hi :: u32

definition build_entries :: "resolved_scope \<Rightarrow> string \<Rightarrow> string list \<Rightarrow> suppression list" where
  "build_entries rs source rules =
     (if rs_wildcard_at_top rs
      then [\<lparr>su_rule_id = k_wildcard_rule, su_byte_lo = 0, su_byte_hi = u32_of (length source)\<rparr>]
      else map (\<lambda>r. \<lparr>su_rule_id = r, su_byte_lo = rs_byte_lo rs, su_byte_hi = rs_byte_hi rs\<rparr>) rules)"

definition malformed_message :: string where
  "malformed_message =
     ''malformed `// shader-clippy:` annotation; expected `allow(rule-name, ...)`''"

definition build_malformed :: "string \<Rightarrow> nat \<Rightarrow> nat \<Rightarrow> scan_diagnostic option" where
  "build_malformed source line_comment_lo comment_hi =
     (let probe = skip_inline_ws source line_comment_lo in
      if \<not> starts_with source probe k_marker then None
      else Some \<lparr>sd_message = malformed_message, sd_byte_lo = u32_of (line_comment_lo - 2),
                 sd_byte_hi = u32_of comment_hi\<rparr>)"

text \<open>What \<open>finalize_line_comment\<close> appends to the entries and to the scan diagnostics.\<close>

definition finalize_line_comment ::
  "string \<Rightarrow> nat \<Rightarrow> nat \<Rightarrow> bool \<Rightarrow> suppression list \<times> scan_diagnostic list" where
  "finalize_line_comment source line_comment_lo comment_hi seen_real_code =
     (let marker = parse_marker source line_comment_lo comment_hi in
      if pm_well_formed marker \<and> pm_rules marker \<noteq> []
      then let rs = resolve_scope source line_comment_lo comment_hi seen_real_code (pm_rules marker)
           in (build_entries rs source (pm_rules marker), [])
      else case build_malformed source line_comment_lo comment_hi of
             Some d \<Rightarrow> ([], [d])
           | None \<Rightarrow> ([], []))"

type_synonym scan_output = "suppression list \<times> scan_diagnostic list"

function scan_loop :: "string \<Rightarrow> nat \<Rightarrow> bool \<Rightarrow> scan_output \<Rightarrow> scan_output" where
  "scan_loop source i seen_real_code out =
     (if i < length source
      then let c = source ! i in
           if c = CHR ''/'' \<and> i + 1 < length source \<and> source ! (i + 1) = CHR ''/''
           then let body_lo = i + 2;
                    body_hi = end_of_line source body_lo;
                    (es, ds) = finalize_line_comment source body_lo body_hi seen_real_code
                in scan_loop source body_hi seen_real_code (fst out @ es, snd out @ ds)
           else if c = CHR ''/'' \<and> i + 1 < length source \<and> source ! (i + 1) = CHR ''*''
           then scan_loop source (end_of_block source (i + 2)) seen_real_code out
           else if c = CHR 0x22 \<or> c = CHR 0x27
           then scan_loop source (skip_string_literal source i c) True out
           else scan_loop source (i + 1)
                  (if c \<noteq> CHR '' '' \<and> c \<noteq> tab_char \<and> c \<noteq> carriage_return \<and> c \<noteq> newline
                   then True else seen_real_code) out
      else out)"
  by pat_completeness auto
termination
proof (relation "measure (\<lambda>(src, i, seen, out). length src - i)", goal_cases)
  case (2 src i seen out c lo hi res es ds)
  then show ?case using end_of_line_bounds(1) [of "i + 2" src] by auto
next
  case (3 src i seen out c)
  then show ?case using end_of_block_bounds(1) [of "i + 2" src] by auto
next
  case (4 src i seen out c)
  then show ?case using skip_string_literal_bounds(1) [of i src c] by auto
qed auto

declare scan_loop.simps [simp del]

section \<open>The suppression set\<close>

record suppression_set =
  ss_entries :: "suppression list"
  ss_scan_diagnostics :: "scan_diagnostic list"
  ss_by_rule :: "string \<Rightarrow> (u32 \<times> u32) list option"
  ss_wildcard :: "(u32 \<times> u32) list"

definition first_less :: "u32 \<times> u32 \<Rightarrow> u32 \<times> u32 \<Rightarrow> bool" where
  "first_less a b = (fst a < fst b)"

text \<open>One entry of the loop of \<open>index\<close>: empty ranges are left out; \<open>by_rule_[id]\<close> creates the
  list when the key is new.\<close>

definition index_entry ::
  "suppression \<Rightarrow> (string \<Rightarrow> (u32 \<times> u32) list option) \<times> (u32 \<times> u32) list
    \<Rightarrow> (string \<Rightarrow> (u32 \<times> u32) list option) \<times> (u32 \<times> u32) list" where
  "index_entry e st =
     (case st of (by_rule, wildcard) \<Rightarrow>
        if su_byte_hi e \<le> su_byte_lo e then (by_rule, wildcard)
        else if su_rule_id e = k_wildcard_rule
        then (by_rule, wildcard @ [(su_byte_lo e, su_byte_hi e)])
        else (by_rule(su_rule_id e \<mapsto>
                (case by_rule (su_rule_id e) of None \<Rightarrow> [] | Some l \<Rightarrow> l)
                  @ [(su_byte_lo e, su_byte_hi e)]), wildcard))"

definition index_set :: "suppression list \<Rightarrow> scan_diagnostic list \<Rightarrow> suppression_set" where
  "index_set entries diags =
     (let (by_rule, wildcard) = fold index_entry entries (Map.empty, []) in
      \<lparr>ss_entries = entries, ss_scan_diagnostics = diags,
       ss_by_rule = (\<lambda>r. map_option (sort_by first_less) (by_rule r)),
       ss_wildcard = sort_by first_less wildcard\<rparr>)"

definition scan :: "string \<Rightarrow> suppression_set" where
  "scan source =
     (let (entries, diags) = scan_loop source 0 False ([], []) in index_set entries diags)"

definition covers :: "u32 \<Rightarrow> u32 \<Rightarrow> (u32 \<times> u32) list \<Rightarrow> bool" where
  "covers byte_lo byte_hi intervals =
     list_ex (\<lambda>(lo, hi). (byte_lo \<ge> lo \<and> byte_lo < hi) \<or>
                         (byte_lo = byte_hi \<and> byte_lo \<ge> lo \<and> byte_lo \<le> hi)) intervals"

definition suppresses :: "suppression_set \<Rightarrow> string \<Rightarrow> u32 \<Rightarrow> u32 \<Rightarrow> bool" where
  "suppresses s rule_id byte_lo byte_hi =
     (if covers byte_lo byte_hi (ss_wildcard s) then True
      else case ss_by_rule s rule_id of
             None \<Rightarrow> False
           | Some intervals \<Rightarrow> covers byte_lo byte_hi intervals)"

section \<open>The index answers as the flat list does\<close>

text \<open>What \<open>suppresses\<close> promises, over the entries alone: some entry of the rule, or a wildcard
  entry, has a non-empty range that the diagnostic's start lies in; an empty diagnostic may also
  sit at the range's end.\<close>

definition entry_covers :: "suppression \<Rightarrow> string \<Rightarrow> u32 \<Rightarrow> u32 \<Rightarrow> bool" where
  "entry_covers e r lo hi =
     ((su_rule_id e = k_wildcard_rule \<or> su_rule_id e = r) \<and> su_byte_lo e < su_byte_hi e \<and>
      su_byte_lo e \<le> lo \<and> (lo < su_byte_hi e \<or> lo = hi \<and> lo \<le> su_byte_hi e))"

abbreviation ranges_of :: "(suppression \<Rightarrow> bool) \<Rightarrow> suppression list \<Rightarrow> (u32 \<times> u32) set" where
  "ranges_of P es \<equiv> {(su_byte_lo e, su_byte_hi e) | e. e \<in> set es \<and> su_byte_lo e < su_byte_hi e \<and> P e}"

definition bucket :: "(string \<Rightarrow> (u32 \<times> u32) list option) \<Rightarrow> string \<Rightarrow> (u32 \<times> u32) list" where
  "bucket m r = (case m r of None \<Rightarrow> [] | Some l \<Rightarrow> l)"

lemma index_entry_ranges:
  assumes "index_entry e (m, w) = (m', w')"
  shows "set w' = set w \<union> ranges_of (\<lambda>e. su_rule_id e = k_wildcard_rule) [e]"
    and "set (bucket m' r) = set (bucket m r) \<union>
      ranges_of (\<lambda>e. su_rule_id e \<noteq> k_wildcard_rule \<and> su_rule_id e = r) [e]"
  using assms by (auto simp: index_entry_def bucket_def not_le split: if_splits option.splits)

lemma ranges_of_Cons: "ranges_of P (e # es) = ranges_of P [e] \<union> ranges_of P es"
  by auto

lemma fold_index_entry:
  assumes "fold index_entry es (m, w) = (m', w')"
  shows "set w' = set w \<union> ranges_of (\<lambda>e. su_rule_id e = k_wildcard_rule) es
    \<and> set (bucket m' r) = set (bucket m r) \<union>
      ranges_of (\<lambda>e. su_rule_id e \<noteq> k_wildcard_rule \<and> su_rule_id e = r) es"
  using assms
proof (induction es arbitrary: m w)
  case (Cons e es)
  obtain m1 w1 where step: "index_entry e (m, w) = (m1, w1)" by fastforce
  then have "fold index_entry es (m1, w1) = (m', w')" using Cons.prems by simp
  from Cons.IH [OF this] show ?case
    unfolding ranges_of_Cons [where e = e and es = es] index_entry_ranges(1) [OF step]
      index_entry_ranges(2) [OF step, of r] by blast
qed simp

lemma covers_iff:
  "covers lo hi ivs \<longleftrightarrow> (\<exists>(l, h) \<in> set ivs. l \<le> lo \<and> (lo < h \<or> lo = hi \<and> lo \<le> h))"
  unfolding covers_def list_ex_iff by fastforce

lemma suppresses_bucket:
  "suppresses (index_set es ds) r lo hi \<longleftrightarrow>
     (let (m, w) = fold index_entry es (Map.empty, []) in covers lo hi w \<or> covers lo hi (bucket m r))"
proof -
  obtain m w where mw: "fold index_entry es (Map.empty, []) = (m, w)" by fastforce
  have "covers lo hi (sort_by first_less ivs) = covers lo hi ivs" for ivs
    by (simp add: covers_iff)
  moreover have "\<not> covers lo hi []" by (simp add: covers_def)
  ultimately show ?thesis
    by (auto simp: suppresses_def index_set_def mw bucket_def split: option.splits)
qed

lemma suppresses_iff:
  "suppresses (index_set es ds) r lo hi \<longleftrightarrow> (\<exists>e \<in> set es. entry_covers e r lo hi)"
proof -
  obtain m w where mw: "fold index_entry es (Map.empty, []) = (m, w)" by fastforce
  have w: "set w = ranges_of (\<lambda>e. su_rule_id e = k_wildcard_rule) es"
    using fold_index_entry [OF mw] by simp
  have b: "set (bucket m r) = ranges_of (\<lambda>e. su_rule_id e \<noteq> k_wildcard_rule \<and> su_rule_id e = r) es"
    using fold_index_entry [OF mw, of r] by (simp add: bucket_def)
  show ?thesis
    unfolding suppresses_bucket mw Let_def prod.case covers_iff w b entry_covers_def by blast
qed

section \<open>Bounds of the scanner\<close>

lemma skip_ws_and_comments_bounds [skip_bounds]:
  "i \<le> length src \<Longrightarrow> i \<le> skip_ws_and_comments src i \<and> skip_ws_and_comments src i \<le> length src"
proof (induction src i rule: skip_ws_and_comments.induct)
  case (1 src i)
  then show ?case
    using end_of_line_bounds [of "i + 2" src] end_of_block_bounds [of "i + 2" src]
    by (subst (1 2) skip_ws_and_comments.simps) (auto simp: Let_def)
qed

lemma brace_loop_bounds:
  "i \<le> length src \<Longrightarrow> i \<le> brace_loop src i d \<and> brace_loop src i d \<le> length src"
proof (induction src i d rule: brace_loop.induct)
  case (1 src i d)
  show ?case
  proof (cases "i < length src \<and> 0 < d")
    case False
    then show ?thesis using 1 by (subst (1 2) brace_loop.simps) auto
  next
    case True
    then show ?thesis
      using 1 skip_token_bounds [of i src]
      by (subst (1 2) brace_loop.simps) (fastforce simp: Let_def)
  qed
qed

lemma end_of_block_brace_bounds [skip_bounds]:
  "i < length src \<Longrightarrow> i < end_of_block_brace src i \<and> end_of_block_brace src i \<le> length src"
  using brace_loop_bounds [of "i + 1" src 1] by (auto simp: end_of_block_brace_def)

text \<open>The two line loops walk in step: the start found never lies past the end found.\<close>

lemma line_loops_bounds:
  "i \<le> length src \<Longrightarrow> i \<le> line_start_loop src i \<and> line_start_loop src i \<le> line_end_loop src i \<and>
     line_end_loop src i \<le> length src"
proof (induction src i rule: line_end_loop.induct)
  case (1 src i0)
  let ?i = "skip_inline_ws src i0" and ?j = "past_newline src (end_of_line src (skip_inline_ws src i0 + 2))"
    and ?k = "end_of_block src (skip_inline_ws src i0 + 2)"
  show ?case
  proof (cases "i0 < length src")
    case False
    then have "line_end_loop src i0 = length src" "line_start_loop src i0 = length src"
      by (simp_all only: line_end_loop.simps [of src i0] line_start_loop.simps [of src i0] if_False)
    then show ?thesis using 1(4) by simp
  next
    case True
    have i: "i0 \<le> ?i" "?i \<le> length src" using True skip_inline_ws_bounds by auto
    have j: "?i + 2 \<le> length src \<Longrightarrow> ?i + 2 \<le> ?j \<and> ?j \<le> length src"
      and k: "?i + 2 \<le> length src \<Longrightarrow> ?i + 2 \<le> ?k \<and> ?k \<le> length src"
      and l: "?i \<le> end_of_line src ?i \<and> end_of_line src ?i \<le> length src"
      using i end_of_line_bounds [of "?i + 2" src] end_of_line_bounds [of ?i src]
        end_of_block_bounds [of "?i + 2" src] past_newline_bounds [of "end_of_line src (?i + 2)" src]
      by auto
    consider (blank) "?i < length src \<and> src ! ?i = newline"
      | (line) "\<not> (?i < length src \<and> src ! ?i = newline)"
          "?i + 1 < length src \<and> src ! ?i = CHR ''/'' \<and> src ! (?i + 1) = CHR ''/''"
      | (block) "\<not> (?i < length src \<and> src ! ?i = newline)"
          "\<not> (?i + 1 < length src \<and> src ! ?i = CHR ''/'' \<and> src ! (?i + 1) = CHR ''/'')"
          "?i + 1 < length src \<and> src ! ?i = CHR ''/'' \<and> src ! (?i + 1) = CHR ''*''"
      | (code) "\<not> (?i < length src \<and> src ! ?i = newline)"
          "\<not> (?i + 1 < length src \<and> src ! ?i = CHR ''/'' \<and> src ! (?i + 1) = CHR ''/'')"
          "\<not> (?i + 1 < length src \<and> src ! ?i = CHR ''/'' \<and> src ! (?i + 1) = CHR ''*'')"
      by blast
    then show ?thesis
    proof cases
      case blank
      then show ?thesis
        using True i 1(1) [OF True refl blank]
        by (simp add: line_end_loop.simps [of src i0] line_start_loop.simps [of src i0] Let_def)
    next
      case line
      then show ?thesis
        using True i j 1(2) [OF True refl line]
        by (simp add: line_end_loop.simps [of src i0] line_start_loop.simps [of src i0] Let_def)
    next
      case block
      then show ?thesis
        using True i k 1(3) [OF True refl block]
        by (simp add: line_end_loop.simps [of src i0] line_start_loop.simps [of src i0] Let_def)
    next
      case code
      then have "line_end_loop src i0 = end_of_line src ?i"
        using True by (simp only: line_end_loop.simps [of src i0] Let_def if_True if_False)
      moreover have "line_start_loop src i0 = i0"
        using code True by (simp only: line_start_loop.simps [of src i0] Let_def if_True if_False)
      ultimately show ?thesis using i l by simp
    qed
  qed
qed

lemma walk_to_line_start_eq: "walk_to_line_start src k = line_begin src k"
  by (induction k) auto

lemma next_code_line_bounds:
  assumes "fits32 src" and "i \<le> length src"
  shows "next_code_line_start src i \<le> next_code_line_end src i"
    and "unat (next_code_line_end src i) \<le> length src"
  using line_loops_bounds [of "past_newline src i" src] past_newline_bounds [of i src] assms
  by (simp_all add: next_code_line_start_def next_code_line_end_def u32_simps)

definition scope_ok :: "string \<Rightarrow> u32 \<Rightarrow> u32 \<Rightarrow> bool" where
  "scope_ok src lo hi = (lo \<le> hi \<and> unat hi \<le> length src)"

lemma scope_ok_u32:
  "fits32 src \<Longrightarrow> m \<le> n \<Longrightarrow> n \<le> length src \<Longrightarrow> scope_ok src (u32_of m) (u32_of n)"
  by (simp add: scope_ok_def u32_simps)

lemma resolve_scope_ok:
  assumes src: "fits32 src" and lo: "lo \<le> hi" and hi: "hi \<le> length src"
  shows "scope_ok src (rs_byte_lo (resolve_scope src lo hi seen rules))
    (rs_byte_hi (resolve_scope src lo hi seen rules))"
proof -
  let ?cs = "if lo \<ge> 2 then lo - 2 else 0" and ?next = "skip_ws_and_comments src hi"
  have cs: "walk_to_line_start src ?cs \<le> hi"
    using line_begin_le [of src ?cs] lo by (auto simp: walk_to_line_start_eq)
  have "scope_ok src (next_code_line_start src hi) (next_code_line_end src hi)"
    using next_code_line_bounds [OF src hi] by (simp add: scope_ok_def)
  moreover have "scope_ok src (u32_of ?next) (u32_of (end_of_block_brace src ?next))" if "?next < length src"
    using src that end_of_block_brace_bounds [OF that] by (intro scope_ok_u32) auto
  moreover have "scope_ok src (u32_of (walk_to_line_start src ?cs)) (u32_of hi)"
    using src cs hi by (rule scope_ok_u32)
  moreover have "scope_ok src (u32_of hi) (u32_of hi)"
    using src hi by (intro scope_ok_u32) auto
  ultimately show ?thesis
    unfolding resolve_scope_def Let_def by (simp split: prod.splits)
qed

definition entries_ok :: "string \<Rightarrow> scan_output \<Rightarrow> bool" where
  "entries_ok src out =
     ((\<forall>e \<in> set (fst out). scope_ok src (su_byte_lo e) (su_byte_hi e)) \<and>
      (\<forall>d \<in> set (snd out). scope_ok src (sd_byte_lo d) (sd_byte_hi d)))"

lemma entries_ok_append:
  "entries_ok src (es, ds) \<Longrightarrow> entries_ok src out \<Longrightarrow> entries_ok src (fst out @ es, snd out @ ds)"
  by (auto simp: entries_ok_def)

lemma finalize_ok:
  assumes src: "fits32 src" and lo: "lo \<le> hi" and hi: "hi \<le> length src"
  shows "entries_ok src (finalize_line_comment src lo hi seen)"
proof -
  have whole: "scope_ok src 0 (u32_of (length src))"
    using src scope_ok_u32 [of src 0 "length src"] by simp
  have body: "scope_ok src (u32_of (lo - 2)) (u32_of hi)"
    using src lo hi by (intro scope_ok_u32) auto
  show ?thesis
    using whole body resolve_scope_ok [OF src lo hi]
    by (auto simp: finalize_line_comment_def Let_def build_entries_def build_malformed_def
        entries_ok_def split: option.splits)
qed

text \<open>The scanner's step at each kind of byte.\<close>

abbreviation at_line_comment :: "string \<Rightarrow> nat \<Rightarrow> bool" where
  "at_line_comment src i \<equiv> src ! i = CHR ''/'' \<and> i + 1 < length src \<and> src ! (i + 1) = CHR ''/''"

abbreviation at_block_comment :: "string \<Rightarrow> nat \<Rightarrow> bool" where
  "at_block_comment src i \<equiv> src ! i = CHR ''/'' \<and> i + 1 < length src \<and> src ! (i + 1) = CHR ''*''"

abbreviation at_quote :: "string \<Rightarrow> nat \<Rightarrow> bool" where
  "at_quote src i \<equiv> src ! i = CHR 0x22 \<or> src ! i = CHR 0x27"

definition is_blank_char :: "char \<Rightarrow> bool" where
  "is_blank_char c = (c = CHR '' '' \<or> c = tab_char \<or> c = carriage_return \<or> c = newline)"

lemma scan_loop_done: "\<not> i < length src \<Longrightarrow> scan_loop src i seen out = out"
  by (simp only: scan_loop.simps [of src i] if_False)

lemma scan_loop_line:
  assumes "i < length src" and "at_line_comment src i"
  shows "scan_loop src i seen out =
    (let fin = finalize_line_comment src (i + 2) (end_of_line src (i + 2)) seen
     in scan_loop src (end_of_line src (i + 2)) seen (fst out @ fst fin, snd out @ snd fin))"
  using assms by (simp only: scan_loop.simps [of src i] Let_def if_True simp_thms split_beta)

lemma scan_loop_block:
  assumes "i < length src" and "at_block_comment src i"
  shows "scan_loop src i seen out = scan_loop src (end_of_block src (i + 2)) seen out"
  using assms by (simp add: scan_loop.simps [of src i])

lemma scan_loop_literal:
  assumes "i < length src" and "at_quote src i"
  shows "scan_loop src i seen out = scan_loop src (skip_string_literal src i (src ! i)) True out"
  using assms by (auto simp: scan_loop.simps [of src i] Let_def)

lemma scan_loop_code:
  assumes "i < length src" and "\<not> at_line_comment src i" and "\<not> at_block_comment src i"
    and "\<not> at_quote src i"
  shows "scan_loop src i seen out =
    scan_loop src (i + 1) (if \<not> is_blank_char (src ! i) then True else seen) out"
  by (simp only: scan_loop.simps [of src i] Let_def is_blank_char_def if_P [OF assms(1)]
      if_not_P [OF assms(2)] if_not_P [OF assms(3)] if_not_P [OF assms(4)] de_Morgan_disj)

lemma scan_cases:
  obtains (finished) "\<not> i < length src"
    | (line) "i < length src" "at_line_comment src i"
    | (block) "i < length src" "at_block_comment src i"
    | (literal) "i < length src" "at_quote src i"
    | (code) "i < length src" "\<not> at_line_comment src i" "\<not> at_block_comment src i" "\<not> at_quote src i"
  by blast

text \<open>Induction along the scan: a property of every start index.\<close>

lemma scan_induct [case_names step]:
  assumes "\<And>i. (\<And>j. i < j \<Longrightarrow> i < length src \<Longrightarrow> P j) \<Longrightarrow> P i"
  shows "P (i :: nat)"
proof (induction "length src - i" arbitrary: i rule: less_induct)
  case less
  show ?case by (rule assms) (simp add: less)
qed

lemma scan_loop_ok:
  assumes src: "fits32 src"
  shows "i \<le> length src \<Longrightarrow> entries_ok src out \<Longrightarrow> entries_ok src (scan_loop src i seen out)"
proof (induction i arbitrary: seen out rule: scan_induct [where src = src])
  case (step i)
  show ?case
  proof (cases rule: scan_cases [where i = i and src = src])
    case finished
    then show ?thesis using step.prems by (simp add: scan_loop_done)
  next
    case line
    let ?hi = "end_of_line src (i + 2)"
    have hi: "i + 2 \<le> ?hi" "?hi \<le> length src"
      using line end_of_line_bounds [of "i + 2" src] by auto
    have "entries_ok src (fst out @ fst fin, snd out @ snd fin)"
      if "fin = finalize_line_comment src (i + 2) ?hi seen" for fin
      using finalize_ok [OF src hi, of seen] step.prems(2) that
      by (intro entries_ok_append) simp_all
    then show ?thesis
      using step.IH [of ?hi] hi line(1) by (simp only: scan_loop_line [OF line] Let_def)
  next
    case block
    then show ?thesis
      using step.IH [of "end_of_block src (i + 2)"] step.prems end_of_block_bounds [of "i + 2" src]
      by (simp only: scan_loop_block [OF block]) simp
  next
    case literal
    then show ?thesis
      using step skip_string_literal_bounds [OF literal(1)] by (simp add: scan_loop_literal)
  next
    case code
    then show ?thesis using step.IH [of "i + 1"] step.prems by (simp add: scan_loop_code)
  qed
qed

lemma scan_ok:
  assumes "fits32 src"
  shows "entries_ok src (ss_entries (scan src), ss_scan_diagnostics (scan src))"
  using scan_loop_ok [OF assms, of 0 "([], [])" False]
  by (simp add: scan_def index_set_def entries_ok_def split: prod.splits)

section \<open>Printed markers parse back\<close>

definition rule_name :: "string \<Rightarrow> bool" where
  "rule_name r = (r \<noteq> [] \<and> list_all is_ident_char r)"

fun rules_text :: "string list \<Rightarrow> string" where
  "rules_text [] = []"
| "rules_text [r] = r"
| "rules_text (r # rs) = r @ '', '' @ rules_text rs"

definition marker_text :: "string list \<Rightarrow> string" where
  "marker_text rules = '' shader-clippy: allow('' @ rules_text rules @ '')''"

lemma ident_not_blank: "is_ident_char c \<Longrightarrow> \<not> is_space_or_tab c"
  by (auto simp: is_ident_char_def is_space_or_tab_def is_alnum_char_def is_alpha_char_def is_digit_char_def)

lemma not_ident: "\<not> is_ident_char (CHR '','')" "\<not> is_ident_char (CHR '')'')" "\<not> is_ident_char (CHR '' '')"
  "\<not> is_space_or_tab (CHR '','')" "\<not> is_space_or_tab (CHR '')'')"
  by code_simp+

lemma skip_inline_ws_append:
  "\<forall>c \<in> set ws. is_space_or_tab c \<Longrightarrow> rest = [] \<or> \<not> is_space_or_tab (hd rest) \<Longrightarrow>
   skip_inline_ws (pre @ ws @ rest) (length pre) = length pre + length ws"
  unfolding skip_inline_ws_def by (rule skip_while_append)

lemma skip_ident_append:
  "\<forall>c \<in> set r. is_ident_char c \<Longrightarrow> rest = [] \<or> \<not> is_ident_char (hd rest) \<Longrightarrow>
   skip_ident (pre @ r @ rest) (length pre) = length pre + length r"
  unfolding skip_ident_def by (rule skip_while_append)

lemma rules_text_hd:
  assumes "\<forall>r \<in> set rules. rule_name r"
  shows "\<not> is_space_or_tab (hd (rules_text rules @ CHR '')'' # rest))"
  using assms
proof (cases rules)
  case Nil
  then show ?thesis by (simp add: not_ident)
next
  case (Cons r rs)
  with assms obtain c cs where "r = c # cs" "is_ident_char c"
    by (cases r) (auto simp: rule_name_def)
  with Cons show ?thesis by (cases rs) (auto dest: ident_not_blank)
qed

lemma parse_rules_close:
  assumes "i0 < hi" and "skip_inline_ws src i0 < hi" and "src ! skip_inline_ws src i0 = CHR '')''"
  shows "parse_rules src hi i0 acc = (acc, True)"
  using assms by (simp add: parse_rules.simps [of src hi i0] Let_def)

lemma parse_rules_at_name:
  assumes "skip_inline_ws src i0 = i" and "src ! i \<noteq> CHR '')''" and "skip_ident src i = j" and "i < j"
    and "skip_inline_ws src j = j" and "src ! j = c" and "c = CHR '','' \<or> c = CHR '')''" and "j < hi"
    and "i0 \<le> i"
  shows "parse_rules src hi i0 acc =
    (if c = CHR '','' then parse_rules src hi (j + 1) (acc @ [substr src i (j - i)])
     else (acc @ [substr src i (j - i)], True))"
  using assms by (auto simp: parse_rules.simps [of src hi i0] Let_def)

lemma parse_rules_name:
  assumes "\<forall>c \<in> set ws. is_space_or_tab c" and "rule_name r" and "\<not> is_ident_char c"
    and "\<not> is_space_or_tab c" and "c = CHR '','' \<or> c = CHR '')''"
    and "length (pre @ ws @ r) < hi"
  shows "parse_rules (pre @ ws @ r @ c # rest) hi (length pre) acc =
    (if c = CHR '','' then parse_rules (pre @ ws @ r @ c # rest) hi (length (pre @ ws @ r) + 1) (acc @ [r])
     else (acc @ [r], True))"
proof -
  let ?s = "pre @ ws @ r @ c # rest"
  obtain x xs where r: "r = x # xs" and x: "is_ident_char x"
    using assms(2) by (cases r) (auto simp: rule_name_def)
  have i: "skip_inline_ws ?s (length pre) = length pre + length ws"
    using assms(1) x by (intro skip_inline_ws_append) (auto simp: r dest: ident_not_blank)
  have x': "?s ! (length pre + length ws) = x"
    using nth_append_length [of "pre @ ws" x] r by (simp add: nth_append)
  have "x \<noteq> CHR '')''" using x not_ident by metis
  have j: "skip_ident ?s (length pre + length ws) = length pre + length ws + length r"
    using skip_ident_append [of r "c # rest" "pre @ ws"] assms(2,3)
    by (simp add: rule_name_def list_all_iff)
  have k: "skip_inline_ws ?s (length pre + length ws + length r) = length pre + length ws + length r"
    using skip_inline_ws_append [of "[]" "c # rest" "pre @ ws @ r"] assms(4) by (simp add: add.assoc)
  have c: "?s ! (length pre + length ws + length r) = c"
    using nth_append_length [of "pre @ ws @ r" c rest] by (simp add: add.assoc)
  have sub: "substr ?s (length pre + length ws) (length r) = r"
    by (simp add: substr_def)
  have "0 < length r" "length pre + length ws + length r < hi" using assms(6) r by auto
  then show ?thesis
    using parse_rules_at_name [OF i _ j _ k c assms(5), of hi acc] \<open>x \<noteq> CHR '')''\<close> x' sub
    by (cases "c = CHR '',''") (simp_all add: add.assoc)
qed

lemma parse_rules_print:
  assumes "\<forall>r \<in> set rules. rule_name r" and "\<forall>c \<in> set ws. is_space_or_tab c"
    and "length (pre @ ws @ rules_text rules) < hi"
  shows "parse_rules (pre @ ws @ rules_text rules @ CHR '')'' # rest) hi (length pre) acc =
    (acc @ rules, True)"
  using assms
proof (induction rules arbitrary: pre ws acc rule: rules_text.induct)
  case 1
  have "skip_inline_ws (pre @ ws @ CHR '')'' # rest) (length pre) = length pre + length ws"
    using 1 by (intro skip_inline_ws_append) (auto simp: not_ident)
  with 1 show ?case by (simp add: parse_rules_close nth_append)
next
  case (2 r)
  then show ?case using parse_rules_name [of ws r "CHR '')''" pre hi rest acc]
    by (simp add: not_ident)
next
  case (3 r r' rs)
  have "parse_rules ((pre @ ws @ r @ '','') @ '' '' @ rules_text (r' # rs) @ CHR '')'' # rest) hi
      (length (pre @ ws @ r @ '','')) (acc @ [r]) = ((acc @ [r]) @ r' # rs, True)"
    using 3(2,3,4) by (intro 3(1)) (auto simp: is_space_or_tab_def)
  then show ?case
    using parse_rules_name [of ws r "CHR '',''" pre hi "CHR '' '' # rules_text (r' # rs) @ CHR '')'' # rest" acc] 3(2,3,4)
    by (simp add: not_ident add.assoc)
qed
lemma starts_with_append: "starts_with (pre @ needle @ rest) (length pre) needle"
  by (simp add: starts_with_def substr_def)

lemma parse_marker_text:
  assumes "\<forall>r \<in> set rules. rule_name r" and "src = pre @ marker_text rules @ rest"
    and "length (pre @ marker_text rules) \<le> hi"
  shows "parse_marker src (length pre) hi =
    \<lparr>pm_rules = rules, pm_byte_lo = u32_of (length pre), pm_byte_hi = u32_of hi, pm_well_formed = True\<rparr>"
proof -
  let ?t = "rules_text rules @ '')'' @ rest"
  have s1: "src = pre @ '' '' @ k_marker @ '' allow('' @ ?t"
    and s2: "src = (pre @ '' '' @ k_marker) @ '' '' @ k_allow @ ''('' @ ?t"
    and s3: "src = (pre @ '' '' @ k_marker @ '' '' @ k_allow) @ [] @ ''('' @ ?t"
    and s4: "src = (pre @ '' '' @ k_marker @ '' '' @ k_allow @ ''('') @ [] @ rules_text rules @ CHR '')'' # rest"
    by (simp_all add: assms(2) marker_text_def k_marker_def k_allow_def)
  have a: "skip_inline_ws src (length pre) = length pre + 1"
    using skip_inline_ws_append [of "'' ''" "k_marker @ '' allow('' @ ?t" pre]
    by (simp add: s1 is_space_or_tab_def k_marker_def)
  have b: "starts_with src (length pre + 1) k_marker"
    using starts_with_append [of "pre @ '' ''" k_marker "'' allow('' @ ?t"] by (simp add: s1)
  have c: "skip_inline_ws src (length pre + 1 + length k_marker) = length pre + 2 + length k_marker"
    using skip_inline_ws_append [of "'' ''" "k_allow @ ''('' @ ?t" "pre @ '' '' @ k_marker"]
    by (simp add: s2 is_space_or_tab_def k_allow_def)
  have d: "starts_with src (length pre + 2 + length k_marker) k_allow"
    using starts_with_append [of "pre @ '' '' @ k_marker @ '' ''" k_allow "''('' @ ?t"] by (simp add: s2)
  have e: "skip_inline_ws src (length pre + 2 + length k_marker + length k_allow)
      = length pre + 2 + length k_marker + length k_allow"
    using skip_inline_ws_append [of "[]" "''('' @ ?t" "pre @ '' '' @ k_marker @ '' '' @ k_allow"]
    by (simp add: s3 is_space_or_tab_def add.assoc)
  have f: "src ! (length pre + 2 + length k_marker + length k_allow) = CHR ''(''"
    using nth_append_length [of "pre @ '' '' @ k_marker @ '' '' @ k_allow" "CHR ''(''" ?t]
    by (simp add: s3 add.assoc)
  have len: "length (pre @ marker_text rules) = length pre + 4 + length k_marker + length k_allow + length (rules_text rules)"
    by (simp add: marker_text_def k_marker_def k_allow_def)
  have g: "parse_rules src hi (length pre + 2 + length k_marker + length k_allow + 1) [] = (rules, True)"
    using parse_rules_print [OF assms(1), of "[]" "pre @ '' '' @ k_marker @ '' '' @ k_allow @ ''(''" hi rest "[]"]
      assms(3) len by (simp add: s4 add.assoc)
  have h: "\<not> (hi \<le> length pre + 2 + length k_marker + length k_allow)"
    using assms(3) len by simp
  show ?thesis
    unfolding parse_marker_def Let_def a c e f g using b d h by simp
qed

section \<open>From the text to the decision\<close>

text \<open>Source text that opens no comment and no literal.\<close>

definition plain_code :: "string \<Rightarrow> bool" where
  "plain_code s = list_all (\<lambda>c. c \<noteq> CHR ''/'' \<and> c \<noteq> CHR 0x22 \<and> c \<noteq> CHR 0x27) s"

lemma scan_loop_plain:
  "plain_code run \<Longrightarrow> scan_loop (pre @ run @ rest) (length pre) seen out =
     scan_loop (pre @ run @ rest) (length (pre @ run)) (seen \<or> list_ex (\<lambda>c. \<not> is_blank_char c) run) out"
proof (induction run arbitrary: pre seen)
  case (Cons c run)
  have "scan_loop (pre @ (c # run) @ rest) (length pre) seen out =
      scan_loop (pre @ (c # run) @ rest) (length pre + 1) (if \<not> is_blank_char c then True else seen) out"
    using Cons.prems scan_loop_code [of "length pre" "pre @ (c # run) @ rest" seen out]
    by (simp add: plain_code_def)
  then show ?case
    using Cons.IH [of "pre @ [c]" "if \<not> is_blank_char c then True else seen"] Cons.prems
    by (simp add: plain_code_def)
qed simp

lemma scan_loop_mono: "set (fst out) \<subseteq> set (fst (scan_loop src i seen out))"
proof (induction i arbitrary: seen out rule: scan_induct [where src = src])
  case (step i)
  show ?case
  proof (cases rule: scan_cases [where i = i and src = src])
    case finished
    then show ?thesis by (simp add: scan_loop_done)
  next
    case line
    let ?fin = "finalize_line_comment src (i + 2) (end_of_line src (i + 2)) seen"
    have "i < end_of_line src (i + 2)" using end_of_line_bounds(1) [of "i + 2" src] by simp
    from step.IH [OF this line(1), of "(fst out @ fst ?fin, snd out @ snd ?fin)" seen]
    show ?thesis unfolding scan_loop_line [OF line] Let_def by simp
  next
    case block
    then show ?thesis
      using step.IH [of "end_of_block src (i + 2)"] end_of_block_bounds(1) [of "i + 2" src]
      by (simp add: scan_loop_block [OF block])
  next
    case literal
    then show ?thesis
      using step skip_string_literal_bounds [OF literal(1)] by (simp add: scan_loop_literal)
  next
    case code
    then show ?thesis using step.IH [of "i + 1"] by (simp add: scan_loop_code)
  qed
qed

lemma end_of_line_append:
  "newline \<notin> set run \<Longrightarrow> rest = [] \<or> hd rest = newline \<Longrightarrow>
   end_of_line (pre @ run @ rest) (length pre) = length pre + length run"
  unfolding end_of_line_def by (rule skip_while_append) auto

lemma scan_first_comment:
  assumes "src = pre @ ''//'' @ body @ rest" and "plain_code pre" and "newline \<notin> set body"
    and "rest = [] \<or> hd rest = newline"
  shows "set (fst (finalize_line_comment src (length pre + 2) (length pre + 2 + length body)
      (list_ex (\<lambda>c. \<not> is_blank_char c) pre))) \<subseteq> set (ss_entries (scan src))"
proof -
  let ?seen = "list_ex (\<lambda>c. \<not> is_blank_char c) pre"
  let ?fin = "finalize_line_comment src (length pre + 2) (length pre + 2 + length body) ?seen"
  have start: "scan_loop src 0 False ([], []) = scan_loop src (length pre) ?seen ([], [])"
    using scan_loop_plain [OF assms(2), of "[]" "''//'' @ body @ rest" False "([], [])"]
    by (simp add: assms(1))
  have at: "length pre < length src" "at_line_comment src (length pre)"
    by (auto simp: assms(1) nth_append)
  have eol: "end_of_line src (length pre + 2) = length pre + 2 + length body"
    using end_of_line_append [OF assms(3,4), of "pre @ ''//''"] by (simp add: assms(1))
  have "set (fst ?fin) \<subseteq> set (fst (scan_loop src (length pre) ?seen ([], [])))"
    using scan_loop_mono [of "(fst ?fin, snd ?fin)" src "length pre + 2 + length body" ?seen]
    unfolding scan_loop_line [OF at] Let_def eol by simp
  also have "\<dots> = set (ss_entries (scan src))"
    by (simp add: scan_def start index_set_def split: prod.splits)
  finally show ?thesis .
qed

text \<open>A comment that holds a printed marker, with any further text after the closing
  parenthesis.\<close>

lemma marker_text_newline: "\<forall>r \<in> set rules. rule_name r \<Longrightarrow> newline \<notin> set (marker_text rules)"
proof -
  have "\<not> is_ident_char newline" by code_simp
  moreover have "\<forall>r \<in> set rules. rule_name r \<Longrightarrow> c \<in> set (rules_text rules) \<Longrightarrow>
      is_ident_char c \<or> c \<in> set '', ''" for c
    by (induction rules rule: rules_text.induct) (auto simp: rule_name_def list_all_iff)
  moreover assume "\<forall>r \<in> set rules. rule_name r"
  ultimately show ?thesis by (fastforce simp: marker_text_def)
qed

lemma finalize_marker:
  assumes "\<forall>r \<in> set rules. rule_name r" and "rules \<noteq> []"
    and "src = pre @ ''//'' @ (marker_text rules @ tail) @ rest"
  shows "finalize_line_comment src (length pre + 2) (length pre + 2 + length (marker_text rules @ tail)) seen
    = (build_entries (resolve_scope src (length pre + 2)
         (length pre + 2 + length (marker_text rules @ tail)) seen rules) src rules, [])"
  using parse_marker_text [OF assms(1), of src "pre @ ''//''" "tail @ rest"
      "length pre + 2 + length (marker_text rules @ tail)"] assms(2,3)
  by (simp add: finalize_line_comment_def)

text \<open>What a marker in the first comment of a file records, and what its entries silence.\<close>

lemma suppresses_scanI:
  "e \<in> set (ss_entries (scan src)) \<Longrightarrow> entry_covers e r lo hi \<Longrightarrow> suppresses (scan src) r lo hi"
  using suppresses_iff by (auto simp: scan_def index_set_def split: prod.splits)

lemma scan_marker_entries:
  assumes src: "src = pre @ ''//'' @ (marker_text rules @ tail) @ rest" and pre: "plain_code pre"
    and rules: "\<forall>r \<in> set rules. rule_name r" and ne: "rules \<noteq> []"
    and tail: "newline \<notin> set tail" "rest = [] \<or> hd rest = newline"
    and rs: "resolve_scope src (length pre + 2) (length pre + 2 + length (marker_text rules @ tail))
               (list_ex (\<lambda>c. \<not> is_blank_char c) pre) rules = rs"
  shows "set (build_entries rs src rules) \<subseteq> set (ss_entries (scan src))"
  using scan_first_comment [OF src pre _ tail(2)] marker_text_newline [OF rules] tail(1)
  unfolding finalize_marker [OF rules ne src] rs by simp

lemma build_entries_cover:
  assumes "r \<in> set rules \<or> k_wildcard_rule \<in> set rules" and "rs_byte_lo rs \<le> lo" "lo < rs_byte_hi rs"
    and "scope_ok src (rs_byte_lo rs) (rs_byte_hi rs)" and "fits32 src"
  shows "\<exists>e \<in> set (build_entries rs src rules). entry_covers e r lo hi"
proof (cases "rs_wildcard_at_top rs")
  case True
  have "lo < u32_of (length src)"
    using assms(3-5) by (simp add: word_less_nat_alt scope_ok_def u32_simps)
  then show ?thesis
    using True by (auto simp: build_entries_def entry_covers_def intro: order.strict_trans1 [of 0 lo])
next
  case False
  then show ?thesis
    using assms(1-3) by (auto simp: build_entries_def entry_covers_def)
qed

lemma scan_marker_suppresses:
  assumes src: "src = pre @ ''//'' @ (marker_text rules @ tail) @ rest" and pre: "plain_code pre"
    and rules: "\<forall>r \<in> set rules. rule_name r" and r: "r \<in> set rules \<or> k_wildcard_rule \<in> set rules"
    and tail: "newline \<notin> set tail" "rest = [] \<or> hd rest = newline" and fits: "fits32 src"
    and rs: "resolve_scope src (length pre + 2) (length pre + 2 + length (marker_text rules @ tail))
               (list_ex (\<lambda>c. \<not> is_blank_char c) pre) rules = rs"
    and scope: "rs_byte_lo rs = u32_of m" "rs_byte_hi rs = u32_of n" "m \<le> unat lo" "unat lo < n"
      "n \<le> length src"
  shows "suppresses (scan src) r lo hi"
proof -
  have ne: "rules \<noteq> []" using r by auto
  have inside: "rs_byte_lo rs \<le> lo" "lo < rs_byte_hi rs" "scope_ok src (rs_byte_lo rs) (rs_byte_hi rs)"
    using scope fits by (simp_all add: scope_ok_u32 word_le_nat_alt word_less_nat_alt u32_simps)
  obtain e where "e \<in> set (build_entries rs src rules)" "entry_covers e r lo hi"
    using build_entries_cover [OF r inside fits] by blast
  with scan_marker_entries [OF src pre rules ne tail rs] show ?thesis
    by (blast intro: suppresses_scanI)
qed

lemma line_begin_append:
  "newline \<notin> set line \<Longrightarrow> before = [] \<or> last before = newline \<Longrightarrow>
   line_begin (before @ line @ rest) (length (before @ line)) = length before"
proof (induction line arbitrary: rest rule: rev_induct)
  case Nil
  then show ?case
    by (cases before rule: rev_cases) (auto simp: nth_append)
next
  case (snoc c line)
  have "(before @ (line @ [c]) @ rest) ! length (before @ line) = c"
    using nth_append_length [of "before @ line" c rest] by simp
  then show ?case using snoc by auto
qed

lemma any_non_ws_append:
  "any_non_ws (before @ line @ rest) (length before) (length (before @ line)) =
     list_ex (\<lambda>c. \<not> is_space_or_tab c) line"
proof -
  have "(before @ line @ rest) ! k = line ! (k - length before)"
    if "length before \<le> k" "k < length before + length line" for k
    using that less_diff_conv2 [OF that(1), of "length line"] by (simp add: nth_append add.commute)
  then have "any_non_ws (before @ line @ rest) (length before) (length (before @ line)) =
      (\<exists>k\<in>{length before..<length before + length line}. \<not> is_space_or_tab (line ! (k - length before)))"
    by (auto simp: any_non_ws_def list_ex_iff is_space_or_tab_def)
  also have "\<dots> = (\<exists>j<length line. \<not> is_space_or_tab (line ! j))"
  proof
    assume "\<exists>k\<in>{length before..<length before + length line}. \<not> is_space_or_tab (line ! (k - length before))"
    then obtain k where "length before \<le> k" "k < length before + length line"
      "\<not> is_space_or_tab (line ! (k - length before))" by auto
    then show "\<exists>j<length line. \<not> is_space_or_tab (line ! j)"
      by (intro exI [of _ "k - length before"]) auto
  next
    assume "\<exists>j<length line. \<not> is_space_or_tab (line ! j)"
    then obtain j where "j < length line" "\<not> is_space_or_tab (line ! j)" by blast
    then show "\<exists>k\<in>{length before..<length before + length line}. \<not> is_space_or_tab (line ! (k - length before))"
      by (intro bexI [of _ "length before + j"]) auto
  qed
  finally show ?thesis by (simp add: list_ex_length)
qed

text \<open>The scope of a comment that follows the text \<open>before @ line\<close> on its line.\<close>

lemma resolve_scope_eq:
  assumes "src = before @ line @ ''//'' @ body @ rest" and "newline \<notin> set line"
    and "before = [] \<or> last before = newline"
  shows "resolve_scope src (length (before @ line) + 2) hi seen rules =
    (if list_ex (\<lambda>c. \<not> is_space_or_tab c) line
     then \<lparr>rs_byte_lo = u32_of (length before), rs_byte_hi = u32_of hi, rs_wildcard_at_top = False\<rparr>
     else let next_token_idx = skip_ws_and_comments src hi;
              (lo, hi) = (if next_token_idx \<ge> length src then (u32_of hi, u32_of hi)
                  else if src ! next_token_idx = CHR 0x7B
                  then (u32_of next_token_idx, u32_of (end_of_block_brace src next_token_idx))
                  else (next_code_line_start src hi, next_code_line_end src hi))
          in \<lparr>rs_byte_lo = lo, rs_byte_hi = hi,
              rs_wildcard_at_top = (\<not> seen \<and> contains_wildcard rules)\<rparr>)"
proof -
  have "walk_to_line_start src (length (before @ line)) = length before"
    using line_begin_append [OF assms(2,3)] by (simp add: walk_to_line_start_eq assms(1))
  moreover have "any_non_ws src (length before) (length (before @ line)) =
      list_ex (\<lambda>c. \<not> is_space_or_tab c) line"
    using any_non_ws_append by (simp add: assms(1))
  ultimately show ?thesis by (simp add: resolve_scope_def Let_def)
qed

text \<open>Blank text before a token is skipped.\<close>

lemma skip_ws_and_comments_blank:
  "list_all is_blank_char ws \<Longrightarrow>
   skip_ws_and_comments (pre @ ws @ rest) (length pre) = skip_ws_and_comments (pre @ ws @ rest) (length (pre @ ws))"
proof (induction ws arbitrary: pre)
  case (Cons c ws)
  have "skip_ws_and_comments (pre @ (c # ws) @ rest) (length pre) =
      skip_ws_and_comments (pre @ (c # ws) @ rest) (length pre + 1)"
    using Cons.prems by (subst skip_ws_and_comments.simps) (auto simp: is_blank_char_def)
  then show ?case using Cons.IH [of "pre @ [c]"] Cons.prems by simp
qed simp

lemma skip_ws_and_comments_token:
  assumes "i < length src" and "\<not> is_blank_char (src ! i)" and "src ! i \<noteq> CHR ''/''"
  shows "skip_ws_and_comments src i = i"
  using assms by (subst skip_ws_and_comments.simps) (simp add: is_blank_char_def Let_def)

lemma past_newline_append: "past_newline (pre @ newline # rest) (length pre) = length pre + 1"
  by (simp add: past_newline_def)

text \<open>The first line of code after the marker: its start, indentation included, and its end.\<close>

lemma line_loops_code:
  assumes "src = pre @ ind @ (c # cs) @ rest" and "list_all is_space_or_tab ind"
    and "newline \<notin> set (c # cs)" and "\<not> is_space_or_tab c" and "c \<noteq> CHR ''/''"
    and "rest = [] \<or> hd rest = newline"
  shows "line_start_loop src (length pre) = length pre"
    and "line_end_loop src (length pre) = length (pre @ ind @ c # cs)"
proof -
  have i: "skip_inline_ws src (length pre) = length pre + length ind"
    using skip_inline_ws_append [of ind "(c # cs) @ rest" pre] assms(2,4)
    by (simp add: assms(1) list_all_iff)
  have c: "src ! (length pre + length ind) = c"
    using nth_append_length [of "pre @ ind" c "cs @ rest"] by (simp add: assms(1))
  have e: "end_of_line src (length pre + length ind) = length (pre @ ind @ c # cs)"
    using end_of_line_append [OF assms(3,6), of "pre @ ind"] by (simp add: assms(1))
  have lt: "length pre < length src" by (simp add: assms(1))
  have nc: "c \<noteq> newline" "c \<noteq> CHR ''/''" using assms(3,5) by auto
  show "line_start_loop src (length pre) = length pre"
    using lt nc by (simp add: line_start_loop.simps [of src "length pre"] Let_def i c)
  show "line_end_loop src (length pre) = length (pre @ ind @ c # cs)"
    using lt nc by (simp add: line_end_loop.simps [of src "length pre"] Let_def i c e)
qed




lemma blank_chars:
  "is_space_or_tab c \<Longrightarrow> is_blank_char c" "\<not> is_space_or_tab newline"
  "is_blank_char c \<Longrightarrow> c \<noteq> CHR ''/'' \<and> c \<noteq> CHR 0x22 \<and> c \<noteq> CHR 0x27 \<and> c \<noteq> CHR 0x7B"
  by (auto simp: is_space_or_tab_def is_blank_char_def)

lemma blank_prefix:
  assumes "list_all is_blank_char before" and "list_all is_space_or_tab line"
  shows "newline \<notin> set line" and "plain_code (before @ line)"
    and "\<not> list_ex (\<lambda>c. \<not> is_blank_char c) (before @ line)"
    and "\<not> list_ex (\<lambda>c. \<not> is_space_or_tab c) line"
proof -
  have "list_all is_blank_char (before @ line)"
    using assms blank_chars(1) unfolding list_all_iff by (metis Un_iff set_append)
  then show "plain_code (before @ line)" and "\<not> list_ex (\<lambda>c. \<not> is_blank_char c) (before @ line)"
    using blank_chars(3) unfolding plain_code_def list_all_iff list_ex_iff by blast+
  show "newline \<notin> set line" and "\<not> list_ex (\<lambda>c. \<not> is_space_or_tab c) line"
    using assms(2) blank_chars(2) unfolding list_all_iff list_ex_iff by blast+
qed

lemma scan_file_wildcard:
  assumes "src = before @ line @ ''//'' @ (marker_text rules @ tail) @ rest"
    and "list_all is_blank_char before" and "before = [] \<or> last before = newline"
    and "list_all is_space_or_tab line"
    and "\<forall>r \<in> set rules. rule_name r" and "newline \<notin> set tail" and "rest = [] \<or> hd rest = newline"
    and "fits32 src" and "k_wildcard_rule \<in> set rules" and "unat lo < length src"
  shows "suppresses (scan src) r lo hi"
proof -
  have src: "src = (before @ line) @ ''//'' @ (marker_text rules @ tail) @ rest" using assms(1) by simp
  note line = blank_prefix [OF assms(2,4)]
  have wild: "contains_wildcard rules" using assms(9) by (auto simp: contains_wildcard_def list_ex_iff)
  obtain rs where rs: "resolve_scope src (length (before @ line) + 2)
      (length (before @ line) + 2 + length (marker_text rules @ tail))
      (list_ex (\<lambda>c. \<not> is_blank_char c) (before @ line)) rules = rs" by simp
  have "rs_wildcard_at_top rs"
    using wild line(3) unfolding rs [symmetric] resolve_scope_eq [OF assms(1) line(1) assms(3)] if_not_P [OF line(4)]
    by (simp add: Let_def split: prod.split)
  then have "\<exists>e \<in> set (build_entries rs src rules). entry_covers e r lo hi"
    using assms(8,10)
    by (auto simp: build_entries_def entry_covers_def word_less_nat_alt u32_simps)
  with scan_marker_entries [OF src line(2) assms(5) _ assms(6,7) rs] assms(9) show ?thesis
    by (metis empty_iff empty_set subsetD suppresses_scanI)
qed

lemma own_line_scope:
  assumes "src = before @ line @ ''//'' @ body @ rest" and "list_all is_space_or_tab line"
    and "before = [] \<or> last before = newline" and "newline \<notin> set line"
    and "skip_ws_and_comments src hi = k" and "k < length src"
  shows "resolve_scope src (length (before @ line) + 2) hi seen rules =
    (if src ! k = CHR 0x7B
     then \<lparr>rs_byte_lo = u32_of k, rs_byte_hi = u32_of (end_of_block_brace src k),
           rs_wildcard_at_top = (\<not> seen \<and> contains_wildcard rules)\<rparr>
     else \<lparr>rs_byte_lo = next_code_line_start src hi, rs_byte_hi = next_code_line_end src hi,
           rs_wildcard_at_top = (\<not> seen \<and> contains_wildcard rules)\<rparr>)"
proof -
  have "\<not> list_ex (\<lambda>c. \<not> is_space_or_tab c) line"
    using assms(2) by (simp add: list_all_iff list_ex_iff)
  then show ?thesis
    using assms(6) unfolding resolve_scope_eq [OF assms(1,4,3)] assms(5) by (simp add: Let_def)
qed

lemma own_line_plain:
  "plain_code before \<Longrightarrow> list_all is_space_or_tab line \<Longrightarrow> plain_code (before @ line)"
  using blank_chars(1,3) unfolding plain_code_def list_all_iff by (metis Un_iff set_append)

section \<open>Properties\<close>

text \<open>C2: The per-rule index, with its sorted interval lists and its separate wildcard list, gives
  the same answer as a search of the flat list of suppressions in which every entry is tested on
  its own, for every list of entries, rule and diagnostic range.\<close>

theorem suppress_index_refines_entries:
  "suppresses (index_set es ds) r lo hi \<longleftrightarrow> (\<exists>e \<in> set es. entry_covers e r lo hi)"
  by (rule suppresses_iff)

text \<open>C29: Every suppression and every malformed-marker diagnostic the scanner records has a
  range inside the source, with its start not past its end, for any text of less than four
  gigabytes, however malformed.\<close>

theorem suppress_scan_in_bounds:
  assumes "fits32 src"
  shows "entries_ok src (ss_entries (scan src), ss_scan_diagnostics (scan src))"
  using assms by (rule scan_ok)

definition nested_sample :: string where
  "nested_sample = ''/* // shader-clippy: allow(a) */ { // shader-clippy: deny(b)'' @ [newline] @ ''}''"

theorem suppress_scan_in_bounds_witness:
  "entries_ok nested_sample (ss_entries (scan nested_sample), ss_scan_diagnostics (scan nested_sample))
    \<and> map (\<lambda>d. (sd_byte_lo d, sd_byte_hi d)) (ss_scan_diagnostics (scan nested_sample)) = [(35, 60)]"
proof
  have "fits32 nested_sample" by (simp add: nested_sample_def)
  then show "entries_ok nested_sample (ss_entries (scan nested_sample), ss_scan_diagnostics (scan nested_sample))"
    by (rule suppress_scan_in_bounds)
qed code_simp

text \<open>A marker after code silences its own line: when the first comment of the source follows
  code on its line, every diagnostic of a rule the marker names (of any rule, when it names the
  wildcard) that starts from the first byte of that line to the end of the comment is
  suppressed.\<close>

theorem suppress_trailing_marker:
  assumes "src = before @ line @ ''//'' @ (marker_text rules @ tail) @ rest"
    and "plain_code (before @ line)" and "before = [] \<or> last before = newline"
    and "newline \<notin> set line" and "list_ex (\<lambda>c. \<not> is_space_or_tab c) line"
    and "\<forall>r \<in> set rules. rule_name r" and "newline \<notin> set tail" and "rest = [] \<or> hd rest = newline"
    and "fits32 src" and "r \<in> set rules \<or> k_wildcard_rule \<in> set rules"
    and "length before \<le> unat lo" and "unat lo < length (before @ line @ ''//'' @ marker_text rules @ tail)"
  shows "suppresses (scan src) r lo hi"
proof -
  have src: "src = (before @ line) @ ''//'' @ (marker_text rules @ tail) @ rest" using assms(1) by simp
  have len: "length (before @ line) + 2 + length (marker_text rules @ tail) \<le> length src"
    by (simp add: src)
  note rs = resolve_scope_eq [OF assms(1,4,3), of "length (before @ line) + 2 + length (marker_text rules @ tail)",
      unfolded if_P [OF assms(5)]]
  show ?thesis
    by (rule scan_marker_suppresses [OF src assms(2,6,10,7,8,9) rs _ _ assms(11) _ len])
      (use assms(12) in simp_all)
qed

theorem suppress_trailing_marker_witness:
  "suppresses (scan (''int a;'' @ [newline] @ ''x = pow(a, 2); // shader-clippy: allow(pow, div) why'')) ''div'' 11 14"
  by (rule suppress_trailing_marker [where before = "''int a;'' @ [newline]" and line = "''x = pow(a, 2); ''"
        and rules = "[''pow'', ''div'']" and tail = "'' why''" and rest = "[]"]) ((simp; fail) | code_simp)+

text \<open>A wildcard marker before any code silences the file: when only blanks and line breaks
  precede the first comment and its marker names the wildcard, every diagnostic of every rule
  that starts inside the file is suppressed.\<close>

theorem suppress_file_wildcard:
  assumes "src = before @ line @ ''//'' @ (marker_text rules @ tail) @ rest"
    and "list_all is_blank_char before" and "before = [] \<or> last before = newline"
    and "list_all is_space_or_tab line"
    and "\<forall>r \<in> set rules. rule_name r" and "newline \<notin> set tail" and "rest = [] \<or> hd rest = newline"
    and "fits32 src" and "k_wildcard_rule \<in> set rules" and "unat lo < length src"
  shows "suppresses (scan src) r lo hi"
  using assms by (rule scan_file_wildcard)

theorem suppress_file_wildcard_witness:
  "suppresses (scan ([newline] @ '' // shader-clippy: allow(pow, *)'' @ [newline] @ ''x = pow(a, 2);'')) ''div'' 40 41"
  by (rule suppress_file_wildcard [where before = "[newline]" and line = "'' ''"
        and rules = "[''pow'', ''*'']" and tail = "[]" and rest = "newline # ''x = pow(a, 2);''"]) ((simp; fail) | code_simp)+

text \<open>A marker on a line of its own silences the next line of code, however indented: a
  diagnostic of a named rule that starts on that line is suppressed.\<close>

theorem suppress_next_line:
  assumes "src = before @ line @ ''//'' @ (marker_text rules @ tail) @ newline # ind @ (c # cs) @ rest"
    and "plain_code before" and "before = [] \<or> last before = newline" and "list_all is_space_or_tab line"
    and "\<forall>r \<in> set rules. rule_name r" and "newline \<notin> set tail" and "list_all is_space_or_tab ind"
    and "newline \<notin> set (c # cs)" and "\<not> is_blank_char c" and "c \<noteq> CHR ''/''" and "c \<noteq> CHR 0x7B"
    and "rest = [] \<or> hd rest = newline" and "fits32 src"
    and "r \<in> set rules \<or> k_wildcard_rule \<in> set rules"
    and "length (before @ line @ ''//'' @ marker_text rules @ tail) < unat lo"
    and "unat lo \<le> length (before @ line @ ''//'' @ marker_text rules @ tail @ ind @ c # cs)"
  shows "suppresses (scan src) r lo hi"
proof -
  let ?eol = "length (before @ line) + 2 + length (marker_text rules @ tail)"
    and ?pre = "before @ line @ ''//'' @ marker_text rules @ tail @ [newline]"
  have src: "src = (before @ line) @ ''//'' @ (marker_text rules @ tail) @ newline # ind @ (c # cs) @ rest"
    and pre: "src = ?pre @ ind @ (c # cs) @ rest"
    and eol: "src = (before @ line @ ''//'' @ marker_text rules @ tail) @ (newline # ind) @ (c # cs) @ rest"
    using assms(1) by simp_all
  have line: "newline \<notin> set line" using assms(4) blank_chars(2) by (auto simp: list_all_iff)
  have len: "?eol + 1 + length (ind @ c # cs) \<le> length src" by (simp add: src)
  have "list_all is_blank_char (newline # ind)"
    using assms(7) blank_chars(1) by (auto simp: list_all_iff is_blank_char_def)
  from skip_ws_and_comments_blank [OF this, of "before @ line @ ''//'' @ marker_text rules @ tail" "(c # cs) @ rest"]
  have skip: "skip_ws_and_comments src ?eol = skip_ws_and_comments src (?eol + 1 + length ind)"
    unfolding eol [symmetric] by (simp add: add.assoc)
  have at: "src ! (?eol + 1 + length ind) = c"
    using nth_append_length [of "?pre @ ind" c "cs @ rest"] by (simp add: src add.assoc)
  have token: "skip_ws_and_comments src ?eol = ?eol + 1 + length ind"
    unfolding skip using assms(9,10) len at by (intro skip_ws_and_comments_token) simp_all
  have c: "\<not> is_space_or_tab c" using assms(9) blank_chars(1) by blast
  note loops = line_loops_code [OF pre assms(7,8) c assms(10,12)]
  have nl: "past_newline src ?eol = length ?pre"
    using past_newline_append [of "before @ line @ ''//'' @ marker_text rules @ tail" "ind @ (c # cs) @ rest"]
    by (simp add: src add.assoc)
  have lt: "?eol + 1 + length ind < length src" using len by simp
  have brace: "src ! (?eol + 1 + length ind) \<noteq> CHR 0x7B" using at assms(11) by simp
  note rs = own_line_scope [OF assms(1,4,3) line token lt, unfolded if_not_P [OF brace]]
  show ?thesis
    by (rule scan_marker_suppresses [OF src own_line_plain [OF assms(2,4)] assms(5,14,6) _ assms(13) rs,
          where m = "length ?pre" and n = "length (?pre @ ind @ c # cs)"])
      (use loops nl len assms(15,16) in \<open>simp_all add: next_code_line_start_def next_code_line_end_def\<close>)
qed

theorem suppress_next_line_witness:
  "suppresses (scan (''int a; '' @ [newline] @ '' // shader-clippy: allow(pow)'' @ [newline] @ ''  x = pow(a, 2);'')) ''pow'' 44 47"
  by (rule suppress_next_line [where before = "''int a; '' @ [newline]" and line = "'' ''"
        and rules = "[''pow'']" and tail = "[]" and ind = "''  ''" and c = "CHR ''x''"
        and cs = "'' = pow(a, 2);''" and rest = "[]"]) ((simp; fail) | code_simp)+



definition blank_line_sample :: "string \<Rightarrow> string" where
  "blank_line_sample eol = ''// shader-clippy: allow(pow)'' @ eol @ eol @ ''x = pow(a, 2);'' @ eol"

text \<open>The marker's reach depends on the line endings: on a source whose marker line and the
  blank line after it end in line feeds, the marker covers the next code line; on the same source
  with carriage returns before the line feeds the blank line itself counts as the next code line,
  and the diagnostic the marker was written for is reported.\<close>

theorem suppress_crlf_blank_line_defeats_marker:
  "blank_line_sample [newline] ! 30 = CHR ''x'' \<and>
   suppresses (scan (blank_line_sample [newline])) ''pow'' 34 37 \<and>
   blank_line_sample [carriage_return, newline] ! 32 = CHR ''x'' \<and>
   \<not> suppresses (scan (blank_line_sample [carriage_return, newline])) ''pow'' 36 39"
  by code_simp

end
