(* ===== verification/Config.thy ===== *)
theory Config
  imports Complex_Main Sources
begin

text \<open>
  \<^verbatim>\<open>core/src/config.cpp\<close>, \<^verbatim>\<open>config.hpp\<close> and \<^verbatim>\<open>core/src/language.cpp\<close>: the
  \<^verbatim>\<open>.shader-clippy.toml\<close> loader. The TOML parser is a third-party library and enters as
  the tree it returns; every section of the schema, its errors and its soft warnings are
  modelled, then the path globs, the severity a configuration gives a rule on a file, the walk up
  the directories that finds the file, and the choice of the source language. The lemmas give the
  language of a glob by concatenation, the precedence of the overrides, the exact content of the
  loaded severities, the range of the epsilons and the closest configuration found.
\<close>

section \<open>Paths\<close>

text \<open>\<open>std::filesystem::path\<close> on POSIX, where the native and the generic format agree: a path
  is its string.\<close>

type_synonym path = string

abbreviation slash :: char where
  "slash \<equiv> CHR ''/''"

abbreviation backslash :: char where
  "backslash \<equiv> CHR 0x5C"

definition path_is_absolute :: "path \<Rightarrow> bool" where
  "path_is_absolute p = (p \<noteq> [] \<and> hd p = slash)"

text \<open>The file names of a path: its maximal runs without separators.\<close>

fun split_names :: "path \<Rightarrow> string \<Rightarrow> string list" where
  "split_names [] name = (if name = [] then [] else [name])"
| "split_names (c # cs) name =
     (if c = slash then (if name = [] then split_names cs [] else name # split_names cs [])
      else split_names cs (name @ [c]))"

fun join_names :: "string list \<Rightarrow> path" where
  "join_names [] = []"
| "join_names [n] = n"
| "join_names (n # ns) = n @ slash # join_names ns"

text \<open>One name of the walk of \<open>lexically_normal\<close>: the names kept, last first, and whether what
  was read so far ends in a directory separator.\<close>

definition normal_step :: "bool \<Rightarrow> string \<Rightarrow> string list \<times> bool \<Rightarrow> string list \<times> bool" where
  "normal_step rooted name st =
     (case st of (kept, ends_dir) \<Rightarrow>
        if name = ''.'' then (kept, True)
        else if name = ''..'' then
          (case kept of
             [] \<Rightarrow> if rooted then ([], True) else ([name], False)
           | k # ks \<Rightarrow> if k = ''..'' then (name # kept, False) else (ks, True))
        else (name # kept, False))"

definition lexically_normal :: "path \<Rightarrow> path" where
  "lexically_normal p =
     (if p = [] then []
      else let rooted = path_is_absolute p;
               (kept, ends_dir) = fold (normal_step rooted) (split_names p []) ([], False);
               ends_dir = (ends_dir \<or> last p = slash);
               body = join_names (rev kept) @
                 (if ends_dir \<and> kept \<noteq> [] \<and> hd kept \<noteq> ''..'' then [slash] else []);
               out = (if rooted then slash # body else body)
           in if out = [] then ''.'' else out)"

text \<open>\<open>parent_path\<close>: everything before the separators that precede the last file name, the root
  kept.\<close>

definition path_parent :: "path \<Rightarrow> path" where
  "path_parent p =
     (let dir = rev (dropWhile (\<lambda>c. c \<noteq> slash) (rev p));
          stem = rev (dropWhile (\<lambda>c. c = slash) (rev dir)) in
      if dir \<noteq> [] \<and> stem = [] then (if path_is_absolute p then [slash] else []) else stem)"

text \<open>\<open>operator/\<close>: an absolute right operand replaces the left one.\<close>

definition path_append :: "path \<Rightarrow> path \<Rightarrow> path" where
  "path_append a b =
     (if path_is_absolute b then b
      else if a = [] \<or> last a = slash then a @ b
      else a @ slash # b)"

definition path_filename :: "path \<Rightarrow> string" where
  "path_filename p = rev (takeWhile (\<lambda>c. c \<noteq> slash) (rev p))"

text \<open>\<open>extension\<close>: from the last dot of the file name, unless the name starts with its only dot
  or is \<open>.\<close> or \<open>..\<close>.\<close>

definition path_extension :: "path \<Rightarrow> string" where
  "path_extension p =
     (let name = path_filename p;
          ext = takeWhile (\<lambda>c. c \<noteq> CHR ''.'') (rev name) in
      if name = ''.'' \<or> name = ''..'' \<or> CHR ''.'' \<notin> set (tl name) then []
      else CHR ''.'' # rev ext)"

section \<open>Languages\<close>

datatype source_language = Auto | Hlsl | Slang

definition ascii_to_lower :: "string \<Rightarrow> string" where
  "ascii_to_lower s = map to_lower_char s"

definition detect_language :: "path \<Rightarrow> source_language" where
  "detect_language p =
     (let ext_str = path_extension p; lower_ext = ascii_to_lower ext_str in
      if lower_ext = ''.slang'' then Slang else Hlsl)"

definition resolve_language :: "source_language \<Rightarrow> path \<Rightarrow> source_language" where
  "resolve_language selected p = (if selected = Auto then detect_language p else selected)"

fun language_label :: "source_language \<Rightarrow> string" where
  "language_label Auto = ''auto''"
| "language_label Hlsl = ''hlsl''"
| "language_label Slang = ''slang''"

section \<open>Configuration data\<close>

datatype rule_severity = Allow | Warn | Deny

datatype experimental_target = No_Target | Rdna4 | Blackwell | Xe2

record rule_override =
  ro_path_glob :: string
  ro_rule_severity :: "string \<Rightarrow> rule_severity option"

record config =
  cfg_rule_severity :: "string \<Rightarrow> rule_severity option"
  cfg_includes :: "string list"
  cfg_excludes :: "string list"
  cfg_shader_include_directories :: "path list"
  cfg_overrides :: "rule_override list"
  cfg_experimental_target :: experimental_target
  cfg_compare_epsilon :: rat
  cfg_div_epsilon :: rat
  cfg_source_language :: source_language
  cfg_warnings :: "string list"

record config_error =
  ce_message :: string
  ce_source :: path
  ce_line :: u32
  ce_column :: u32

text \<open>A single-precision \<open>float\<close> is the rational it stands for; the cast of a double in the open
  unit interval rounds to the nearest multiple of the spacing at its exponent (at least
  \<open>2\<^sup>-\<^sup>1\<^sup>4\<^sup>9\<close>), ties to the even multiple.\<close>

definition round_half_even :: "rat \<Rightarrow> int" where
  "round_half_even x =
     (let n = \<lfloor>x\<rfloor>; d = x - of_int n in
      if d < 1 / 2 then n else if d > 1 / 2 then n + 1 else if even n then n else n + 1)"

definition f32_spacing :: "rat \<Rightarrow> rat" where
  "f32_spacing x =
     (case find (\<lambda>k. x * 2 ^ k < 2 ^ 24) (rev [24..<150]) of
        None \<Rightarrow> 0 | Some k \<Rightarrow> 1 / 2 ^ k)"

definition f32_of :: "rat \<Rightarrow> rat" where
  "f32_of x = of_int (round_half_even (x / f32_spacing x)) * f32_spacing x"

definition k_default_compare_epsilon :: rat where
  "k_default_compare_epsilon = f32_of (1 / 10 ^ 4)"

definition k_default_div_epsilon :: rat where
  "k_default_div_epsilon = f32_of (1 / 10 ^ 6)"

definition default_config :: config where
  "default_config =
     \<lparr>cfg_rule_severity = Map.empty, cfg_includes = [], cfg_excludes = [],
      cfg_shader_include_directories = [], cfg_overrides = [], cfg_experimental_target = No_Target,
      cfg_compare_epsilon = k_default_compare_epsilon, cfg_div_epsilon = k_default_div_epsilon,
      cfg_source_language = Auto, cfg_warnings = []\<rparr>"

section \<open>The TOML tree\<close>

text \<open>
  What the loader reads of the tree the TOML library returns: a node has a kind and the line and
  column it begins at; a table lists its keys with their nodes in the order the library iterates
  them, each key once. A floating-point node that is infinite or not a number has no rational
  value (both fail every test the loader makes); dates and times are \<open>T_other\<close>.
\<close>

datatype toml_node = Toml_Node (node_line: u32) (node_column: u32) (node_value: toml_value)
  and toml_value =
    T_string string
  | T_integer int
  | T_floating "rat option"
  | T_boolean bool
  | T_other
  | T_array "toml_node list"
  | T_table "(string \<times> toml_node) list"

type_synonym toml_table = "(string \<times> toml_node) list"

fun as_table :: "toml_node \<Rightarrow> toml_table option" where
  "as_table (Toml_Node l c (T_table t)) = Some t"
| "as_table n = None"

fun as_array :: "toml_node \<Rightarrow> toml_node list option" where
  "as_array (Toml_Node l c (T_array a)) = Some a"
| "as_array n = None"

fun as_string :: "toml_node \<Rightarrow> string option" where
  "as_string (Toml_Node l c (T_string s)) = Some s"
| "as_string n = None"

text \<open>The number a node holds, as the epsilon parser reads it: the value of a floating-point or an
  integer node.\<close>

fun as_number :: "toml_node \<Rightarrow> rat option" where
  "as_number (Toml_Node l c (T_floating f)) = f"
| "as_number (Toml_Node l c (T_integer i)) = Some (of_int i)"
| "as_number n = None"

section \<open>The loader\<close>

definition parse_rule_severity :: "string \<Rightarrow> rule_severity option" where
  "parse_rule_severity text =
     (if text = ''allow'' then Some Allow
      else if text = ''warn'' then Some Warn
      else if text = ''deny'' then Some Deny
      else None)"

definition parse_source_language :: "string \<Rightarrow> source_language \<times> bool" where
  "parse_source_language text =
     (if text = [] \<or> text = ''auto'' then (Auto, False)
      else if text = ''hlsl'' then (Hlsl, False)
      else if text = ''slang'' then (Slang, False)
      else (Auto, True))"

definition parse_experimental_target :: "string \<Rightarrow> experimental_target \<times> bool" where
  "parse_experimental_target text =
     (if text = [] then (No_Target, False)
      else if text = ''rdna4'' then (Rdna4, False)
      else if text = ''blackwell'' then (Blackwell, False)
      else if text = ''xe2'' then (Xe2, False)
      else (No_Target, True))"

definition make_error :: "string \<Rightarrow> path \<Rightarrow> u32 \<Rightarrow> u32 \<Rightarrow> config_error" where
  "make_error message src line column =
     \<lparr>ce_message = message, ce_source = src, ce_line = line, ce_column = column\<rparr>"

abbreviation fail_at :: "string \<Rightarrow> path \<Rightarrow> toml_node \<Rightarrow> config_error + 'a" where
  "fail_at message src node \<equiv> Inl (make_error message src (node_line node) (node_column node))"

abbreviation fail_plain :: "string \<Rightarrow> path \<Rightarrow> config_error + 'a" where
  "fail_plain message src \<equiv> Inl (make_error message src 0 0)"

definition resolve_config_relative_path :: "string \<Rightarrow> path \<Rightarrow> path" where
  "resolve_config_relative_path text src =
     (if path_is_absolute text \<or> src = [] then lexically_normal text
      else let base = (if path_parent src \<noteq> [] then path_parent src else []) in
           if base = [] then lexically_normal text
           else lexically_normal (path_append base text))"

text \<open>\<open>root.get(name)\<close>: the node of a key.\<close>

definition toml_get :: "toml_table \<Rightarrow> string \<Rightarrow> toml_node option" where
  "toml_get t k = map_of t k"

text \<open>\<open>emplace\<close> inserts only when the key is new.\<close>

definition emplace :: "string \<Rightarrow> 'v \<Rightarrow> (string \<Rightarrow> 'v option) \<Rightarrow> string \<Rightarrow> 'v option" where
  "emplace k v m = (if m k = None then m(k \<mapsto> v) else m)"

definition parse_rule_entry ::
  "path \<Rightarrow> string \<times> toml_node \<Rightarrow> (string \<Rightarrow> rule_severity option) \<Rightarrow>
   config_error + (string \<Rightarrow> rule_severity option)" where
  "parse_rule_entry src kv m =
     (case as_string (snd kv) of
        None \<Rightarrow> fail_at (''`rules.'' @ fst kv @ ''` must be a string (\"allow\", \"warn\", or \"deny\")'') src (snd kv)
      | Some str \<Rightarrow>
          (case parse_rule_severity str of
             None \<Rightarrow> fail_at (''invalid severity \"'' @ str @ ''\" for rule `'' @ fst kv @
                       ''`: expected \"allow\", \"warn\", or \"deny\"'') src (snd kv)
           | Some sev \<Rightarrow> Inr (emplace (fst kv) sev m)))"

definition parse_rules_section :: "path \<Rightarrow> toml_table \<Rightarrow> config \<Rightarrow> config_error + config" where
  "parse_rules_section src doc cfg =
     (case toml_get doc ''rules'' of
        None \<Rightarrow> Inr cfg
      | Some node \<Rightarrow>
          (case as_table node of
             None \<Rightarrow> fail_plain ''`rules` must be a table'' src
           | Some tbl \<Rightarrow>
               and_then (fold_result (parse_rule_entry src) tbl (cfg_rule_severity cfg))
                 (\<lambda>m. Inr (cfg\<lparr>cfg_rule_severity := m\<rparr>))))"

text \<open>\<open>[includes]\<close> and \<open>[excludes]\<close>: the same code over two section names.\<close>

definition push_string :: "string \<Rightarrow> path \<Rightarrow> (string \<Rightarrow> 'a) \<Rightarrow> toml_node \<Rightarrow> 'a list \<Rightarrow> config_error + 'a list" where
  "push_string message src f el out =
     (case as_string el of None \<Rightarrow> fail_plain message src | Some s \<Rightarrow> Inr (out @ [f s]))"

definition parse_patterns :: "string \<Rightarrow> path \<Rightarrow> toml_table \<Rightarrow> string list \<Rightarrow> config_error + string list" where
  "parse_patterns name src doc patterns =
     (case toml_get doc name of
        None \<Rightarrow> Inr patterns
      | Some node \<Rightarrow>
          (case as_table node of
             None \<Rightarrow> fail_plain (''`'' @ name @ ''` must be a table'') src
           | Some tbl \<Rightarrow>
               (case toml_get tbl ''patterns'' of
                  None \<Rightarrow> Inr patterns
                | Some pat \<Rightarrow>
                    (case as_array pat of
                       None \<Rightarrow> fail_plain (''`'' @ name @ ''.patterns` must be an array of strings'') src
                     | Some arr \<Rightarrow>
                         fold_result (push_string (''`'' @ name @ ''.patterns` entries must be strings'') src (\<lambda>s. s))
                           arr patterns))))"

definition parse_includes_section :: "path \<Rightarrow> toml_table \<Rightarrow> config \<Rightarrow> config_error + config" where
  "parse_includes_section src doc cfg =
     and_then (parse_patterns ''includes'' src doc (cfg_includes cfg)) (\<lambda>p. Inr (cfg\<lparr>cfg_includes := p\<rparr>))"

definition parse_excludes_section :: "path \<Rightarrow> toml_table \<Rightarrow> config \<Rightarrow> config_error + config" where
  "parse_excludes_section src doc cfg =
     and_then (parse_patterns ''excludes'' src doc (cfg_excludes cfg)) (\<lambda>p. Inr (cfg\<lparr>cfg_excludes := p\<rparr>))"

definition parse_shader_section :: "path \<Rightarrow> toml_table \<Rightarrow> config \<Rightarrow> config_error + config" where
  "parse_shader_section src doc cfg =
     (case toml_get doc ''shader'' of
        None \<Rightarrow> Inr cfg
      | Some node \<Rightarrow>
          (case as_table node of
             None \<Rightarrow> fail_plain ''`shader` must be a table'' src
           | Some tbl \<Rightarrow>
               (case toml_get tbl ''include-directories'' of
                  None \<Rightarrow> Inr cfg
                | Some dirs \<Rightarrow>
                    (case as_array dirs of
                       None \<Rightarrow> fail_plain ''`shader.include-directories` must be an array of strings'' src
                     | Some arr \<Rightarrow>
                         and_then (fold_result
                             (push_string ''`shader.include-directories` entries must be strings'' src
                               (\<lambda>s. resolve_config_relative_path s src))
                             arr (cfg_shader_include_directories cfg))
                           (\<lambda>ds. Inr (cfg\<lparr>cfg_shader_include_directories := ds\<rparr>))))))"

text \<open>The lambda \<open>parse_epsilon\<close>: the new value and the warnings.\<close>

definition parse_epsilon :: "toml_table \<Rightarrow> string \<Rightarrow> rat \<Rightarrow> rat \<times> string list \<Rightarrow> rat \<times> string list" where
  "parse_epsilon tbl key default_value st =
     (case toml_get tbl key of
        None \<Rightarrow> st
      | Some node \<Rightarrow>
          (case as_number node of
             Some x \<Rightarrow>
               if \<not> (x > 0) \<or> \<not> (x < 1)
               then (default_value, snd st @ [''`float.'' @ key @
                      ''` must be a positive numeric value strictly less than 1.0; falling back to the default''])
               else (f32_of x, snd st)
           | None \<Rightarrow> (default_value, snd st @ [''`float.'' @ key @
                      ''` must be a positive numeric value strictly less than 1.0; falling back to the default''])))"

definition parse_float_section :: "path \<Rightarrow> toml_table \<Rightarrow> config \<Rightarrow> config_error + config" where
  "parse_float_section src doc cfg =
     (case toml_get doc ''float'' of
        None \<Rightarrow> Inr cfg
      | Some node \<Rightarrow>
          (case as_table node of
             None \<Rightarrow> fail_plain ''`float` must be a table'' src
           | Some tbl \<Rightarrow>
               let (ce, ws) = parse_epsilon tbl ''compare-epsilon'' k_default_compare_epsilon
                                (cfg_compare_epsilon cfg, cfg_warnings cfg);
                   (de, ws) = parse_epsilon tbl ''div-epsilon'' k_default_div_epsilon
                                (cfg_div_epsilon cfg, ws)
               in Inr (cfg\<lparr>cfg_compare_epsilon := ce, cfg_div_epsilon := de, cfg_warnings := ws\<rparr>)))"

definition parse_lint_section :: "path \<Rightarrow> toml_table \<Rightarrow> config \<Rightarrow> config_error + config" where
  "parse_lint_section src doc cfg =
     (case toml_get doc ''lint'' of
        None \<Rightarrow> Inr cfg
      | Some node \<Rightarrow>
          (case as_table node of
             None \<Rightarrow> fail_plain ''`lint` must be a table'' src
           | Some tbl \<Rightarrow>
               (case toml_get tbl ''source-language'' of
                  None \<Rightarrow> Inr cfg
                | Some sl \<Rightarrow>
                    (case as_string sl of
                       None \<Rightarrow> fail_at ''`lint.source-language` must be a string (\"auto\", \"hlsl\", or \"slang\")'' src sl
                     | Some str \<Rightarrow>
                         let (parsed, unknown) = parse_source_language str in
                         Inr (cfg\<lparr>cfg_source_language := parsed,
                                  cfg_warnings := cfg_warnings cfg @
                                    (if unknown then [''unrecognised `lint.source-language = \"'' @ str @
                                       ''\"`: expected \"auto\", \"hlsl\", or \"slang\"; falling back to \"auto\"'']
                                     else [])\<rparr>)))))"

definition parse_experimental_section :: "path \<Rightarrow> toml_table \<Rightarrow> config \<Rightarrow> config_error + config" where
  "parse_experimental_section src doc cfg =
     (case toml_get doc ''experimental'' of
        None \<Rightarrow> Inr cfg
      | Some node \<Rightarrow>
          (case as_table node of
             None \<Rightarrow> fail_plain ''`experimental` must be a table'' src
           | Some tbl \<Rightarrow>
               (case toml_get tbl ''target'' of
                  None \<Rightarrow> Inr cfg
                | Some tgt \<Rightarrow>
                    (case as_string tgt of
                       None \<Rightarrow> fail_at ''`experimental.target` must be a string (\"rdna4\", \"blackwell\", \"xe2\", or empty)'' src tgt
                     | Some str \<Rightarrow>
                         let (parsed, unknown) = parse_experimental_target str in
                         Inr (cfg\<lparr>cfg_experimental_target := parsed,
                                  cfg_warnings := cfg_warnings cfg @
                                    (if unknown then [''unrecognised `experimental.target = \"'' @ str @
                                       ''\"`: expected \"rdna4\", \"blackwell\", \"xe2\", or empty; falling back to no experimental target'']
                                     else [])\<rparr>)))))"

definition parse_override_rule ::
  "path \<Rightarrow> string \<times> toml_node \<Rightarrow> (string \<Rightarrow> rule_severity option) \<Rightarrow>
   config_error + (string \<Rightarrow> rule_severity option)" where
  "parse_override_rule src kv m =
     (case as_string (snd kv) of
        None \<Rightarrow> fail_at (''`overrides[].rules.'' @ fst kv @ ''` must be a string'') src (snd kv)
      | Some sv \<Rightarrow>
          (case parse_rule_severity sv of
             None \<Rightarrow> fail_at (''invalid severity for `overrides[].rules.'' @ fst kv @ ''`'') src (snd kv)
           | Some sev \<Rightarrow> Inr (emplace (fst kv) sev m)))"

definition parse_override :: "path \<Rightarrow> toml_node \<Rightarrow> config_error + rule_override" where
  "parse_override src el =
     (case as_table el of
        None \<Rightarrow> fail_plain ''`overrides` entries must be tables'' src
      | Some tbl \<Rightarrow>
          (case toml_get tbl ''path'' of
             None \<Rightarrow> fail_plain ''`overrides[]` requires a `path` field'' src
           | Some p \<Rightarrow>
               (case as_string p of
                  None \<Rightarrow> fail_plain ''`overrides[].path` must be a string'' src
                | Some glob \<Rightarrow>
                    (case toml_get tbl ''rules'' of
                       None \<Rightarrow> Inr \<lparr>ro_path_glob = glob, ro_rule_severity = Map.empty\<rparr>
                     | Some r \<Rightarrow>
                         (case as_table r of
                            None \<Rightarrow> fail_plain ''`overrides[].rules` must be a table'' src
                          | Some rt \<Rightarrow>
                              and_then (fold_result (parse_override_rule src) rt Map.empty)
                                (\<lambda>m. Inr \<lparr>ro_path_glob = glob, ro_rule_severity = m\<rparr>))))))"

definition parse_overrides_section :: "path \<Rightarrow> toml_table \<Rightarrow> config \<Rightarrow> config_error + config" where
  "parse_overrides_section src doc cfg =
     (case toml_get doc ''overrides'' of
        None \<Rightarrow> Inr cfg
      | Some node \<Rightarrow>
          (case as_array node of
             None \<Rightarrow> fail_plain ''`overrides` must be an array of tables'' src
           | Some arr \<Rightarrow>
               and_then (fold_result (\<lambda>el out. and_then (parse_override src el) (\<lambda>e. Inr (out @ [e])))
                   arr (cfg_overrides cfg))
                 (\<lambda>ovs. Inr (cfg\<lparr>cfg_overrides := ovs\<rparr>))))"

definition parse_root :: "toml_table \<Rightarrow> path \<Rightarrow> config_error + config" where
  "parse_root doc src =
     and_then (parse_rules_section src doc default_config)
       (\<lambda>cfg. and_then (parse_includes_section src doc cfg)
         (\<lambda>cfg. and_then (parse_excludes_section src doc cfg)
           (\<lambda>cfg. and_then (parse_shader_section src doc cfg)
             (\<lambda>cfg. and_then (parse_float_section src doc cfg)
               (\<lambda>cfg. and_then (parse_lint_section src doc cfg)
                 (\<lambda>cfg. and_then (parse_experimental_section src doc cfg)
                   (\<lambda>cfg. parse_overrides_section src doc cfg)))))))"

text \<open>What the TOML library throws: its description and the position of the error.\<close>

record toml_parse_error =
  pe_description :: string
  pe_line :: u32
  pe_column :: u32

definition from_parse_error :: "toml_parse_error \<Rightarrow> path \<Rightarrow> config_error" where
  "from_parse_error e src =
     \<lparr>ce_message = pe_description e, ce_source = src, ce_line = pe_line e, ce_column = pe_column e\<rparr>"

definition load_config_string ::
  "(string \<Rightarrow> toml_parse_error + toml_table) \<Rightarrow> string \<Rightarrow> path \<Rightarrow> config_error + config" where
  "load_config_string toml_parse contents origin =
     (case toml_parse contents of
        Inl e \<Rightarrow> Inl (from_parse_error e origin)
      | Inr tbl \<Rightarrow> parse_root tbl origin)"

text \<open>Reading the file: the stream opens with some content, or not.\<close>

definition load_config ::
  "(string \<Rightarrow> toml_parse_error + toml_table) \<Rightarrow> (path \<Rightarrow> string option) \<Rightarrow> path \<Rightarrow> config_error + config" where
  "load_config toml_parse open_stream p =
     (case open_stream p of
        None \<Rightarrow> fail_plain ''could not open config file'' p
      | Some contents \<Rightarrow> load_config_string toml_parse contents p)"

section \<open>Path globs\<close>

definition normalise_separators :: "string \<Rightarrow> string" where
  "normalise_separators s = map (\<lambda>c. if c = backslash then slash else c) s"

text \<open>\<open>glob_match\<close>, on the views of the pattern and the text that are left: the loop after
  \<open>**\<close> tries the rest of the pattern at every later position, the one after \<open>*\<close> stops at
  the first separator.\<close>

function (sequential) glob_match :: "string \<Rightarrow> string \<Rightarrow> bool"
  and any_path_loop :: "string \<Rightarrow> string \<Rightarrow> bool"
  and any_name_loop :: "string \<Rightarrow> string \<Rightarrow> bool" where
  "glob_match [] t = (t = [])"
| "glob_match (c # ps) t =
     (if c = CHR ''*'' \<and> ps \<noteq> [] \<and> hd ps = CHR ''*''
      then let ate_slash = (tl ps \<noteq> [] \<and> hd (tl ps) = slash) in
           any_path_loop (if ate_slash then tl (tl ps) else tl ps) t
      else if c = CHR ''*'' then any_name_loop ps t
      else case t of
             [] \<Rightarrow> False
           | d # ds \<Rightarrow>
               if c = CHR ''?'' then if d = slash then False else glob_match ps ds
               else if c \<noteq> d then False else glob_match ps ds)"
| "any_path_loop rest t =
     (if glob_match rest t then True
      else case t of [] \<Rightarrow> False | d # ds \<Rightarrow> any_path_loop rest ds)"
| "any_name_loop rest t =
     (if glob_match rest t then True
      else case t of [] \<Rightarrow> False | d # ds \<Rightarrow> if d = slash then False else any_name_loop rest ds)"
  by pat_completeness auto
termination
  by (relation "measures [\<lambda>s. case s of Inl (p, t) \<Rightarrow> length p | Inr (Inl (p, t)) \<Rightarrow> length p | Inr (Inr (p, t)) \<Rightarrow> length p,
        \<lambda>s. case s of Inl (p, t) \<Rightarrow> 0 | Inr (Inl (p, t)) \<Rightarrow> Suc (length t) | Inr (Inr (p, t)) \<Rightarrow> Suc (length t)]")
    (auto split: list.splits)

declare glob_match.simps(2) [simp del] any_path_loop.simps [simp del] any_name_loop.simps [simp del]

definition path_glob_match :: "string \<Rightarrow> path \<Rightarrow> bool" where
  "path_glob_match glob p = glob_match (normalise_separators glob) (normalise_separators p)"

text \<open>What a glob stands for: a sequence of tokens, each with its set of texts; a text matches
  when it is a concatenation of texts of the tokens, in order.\<close>

datatype glob_token = Any_Path | Any_Name | Any_Char | Literal char

fun glob_tokens :: "string \<Rightarrow> glob_token list" where
  "glob_tokens [] = []"
| "glob_tokens (c # ps) =
     (if c = CHR ''*'' then
        (case ps of
           d # ps' \<Rightarrow>
             if d = CHR ''*'' then
               Any_Path # (case ps' of e # ps'' \<Rightarrow> if e = slash then glob_tokens ps'' else glob_tokens ps'
                                     | [] \<Rightarrow> [])
             else Any_Name # glob_tokens ps
         | [] \<Rightarrow> [Any_Name])
      else if c = CHR ''?'' then Any_Char # glob_tokens ps
      else Literal c # glob_tokens ps)"

fun token_texts :: "glob_token \<Rightarrow> string set" where
  "token_texts Any_Path = UNIV"
| "token_texts Any_Name = {s. slash \<notin> set s}"
| "token_texts Any_Char = {[c] | c. c \<noteq> slash}"
| "token_texts (Literal c) = {[c]}"

fun glob_texts :: "glob_token list \<Rightarrow> string set" where
  "glob_texts [] = {[]}"
| "glob_texts (k # ks) = {u @ v | u v. u \<in> token_texts k \<and> v \<in> glob_texts ks}"

lemma split_Cons:
  "(\<exists>u v. d # ds = u @ v \<and> P u \<and> Q v) \<longleftrightarrow> P [] \<and> Q (d # ds) \<or> (\<exists>u v. ds = u @ v \<and> P (d # u) \<and> Q v)"
proof
  assume "\<exists>u v. d # ds = u @ v \<and> P u \<and> Q v"
  then obtain u v where "d # ds = u @ v" "P u" "Q v" by blast
  then show "P [] \<and> Q (d # ds) \<or> (\<exists>u v. ds = u @ v \<and> P (d # u) \<and> Q v)"
    by (cases u) auto
next
  assume "P [] \<and> Q (d # ds) \<or> (\<exists>u v. ds = u @ v \<and> P (d # u) \<and> Q v)"
  then show "\<exists>u v. d # ds = u @ v \<and> P u \<and> Q v"
  proof
    assume "P [] \<and> Q (d # ds)"
    then show ?thesis by (intro exI [of _ "[]"] exI [of _ "d # ds"]) simp
  next
    assume "\<exists>u v. ds = u @ v \<and> P (d # u) \<and> Q v"
    then obtain u v where "ds = u @ v" "P (d # u)" "Q v" by blast
    then show ?thesis by (intro exI [of _ "d # u"] exI [of _ v]) simp
  qed
qed

lemma glob_texts_Cons: "t \<in> glob_texts (k # ks) \<longleftrightarrow> (\<exists>u v. t = u @ v \<and> u \<in> token_texts k \<and> v \<in> glob_texts ks)"
  by simp

lemma glob_texts_char:
  "t \<in> glob_texts (Any_Char # ks) \<longleftrightarrow> (case t of [] \<Rightarrow> False | c # v \<Rightarrow> c \<noteq> slash \<and> v \<in> glob_texts ks)"
  "t \<in> glob_texts (Literal c # ks) \<longleftrightarrow> (case t of [] \<Rightarrow> False | d # v \<Rightarrow> d = c \<and> v \<in> glob_texts ks)"
proof -
  have one: "[] \<notin> token_texts Any_Char" "[] \<notin> token_texts (Literal c)"
    "c # u \<in> token_texts Any_Char \<longleftrightarrow> u = [] \<and> c \<noteq> slash"
    "d # u \<in> token_texts (Literal c) \<longleftrightarrow> u = [] \<and> d = c" for c d u
    by auto
  show "t \<in> glob_texts (Any_Char # ks) \<longleftrightarrow> (case t of [] \<Rightarrow> False | c # v \<Rightarrow> c \<noteq> slash \<and> v \<in> glob_texts ks)"
    unfolding glob_texts_Cons
    by (cases t) (simp_all only: split_Cons one list.case, auto simp del: token_texts.simps simp: one)
  show "t \<in> glob_texts (Literal c # ks) \<longleftrightarrow> (case t of [] \<Rightarrow> False | d # v \<Rightarrow> d = c \<and> v \<in> glob_texts ks)"
    unfolding glob_texts_Cons
    by (cases t) (simp_all only: split_Cons one list.case, auto simp del: token_texts.simps simp: one)
qed

lemma any_path_loop_iff: "any_path_loop rest t \<longleftrightarrow> (\<exists>u v. t = u @ v \<and> glob_match rest v)"
proof (induction t)
  case Nil
  then show ?case by (simp add: any_path_loop.simps)
next
  case (Cons d ds)
  then show ?case
    by (auto simp: any_path_loop.simps [of rest "d # ds"] Cons_eq_append_conv)
qed

lemma any_name_loop_iff:
  "any_name_loop rest t \<longleftrightarrow> (\<exists>u v. t = u @ v \<and> slash \<notin> set u \<and> glob_match rest v)"
proof (induction t)
  case Nil
  then show ?case by (simp add: any_name_loop.simps)
next
  case (Cons d ds)
  then show ?case
    by (auto simp: any_name_loop.simps [of rest "d # ds"] split_Cons)
qed

lemma glob_match_iff: "glob_match p t \<longleftrightarrow> t \<in> glob_texts (glob_tokens p)"
proof (induction p arbitrary: t rule: glob_tokens.induct)
  case 1
  then show ?case by simp
next
  case (2 c ps)
  show ?case
  proof (cases "c = CHR ''*''")
    case False
    then show ?thesis
      using 2(4,5) by (cases t) (auto simp: glob_match.simps(2) glob_texts_char simp del: glob_texts.simps)
  next
    case star: True
    show ?thesis
    proof (cases "ps \<noteq> [] \<and> hd ps = CHR ''*''")
      case False
      then have "glob_match (c # ps) t = any_name_loop ps t"
        using star by (auto simp: glob_match.simps(2))
      moreover have "glob_tokens (c # ps) = Any_Name # glob_tokens ps"
        using False star by (cases ps) auto
      moreover have "glob_match ps v = (v \<in> glob_texts (glob_tokens ps))" for v
        using False star 2(3) by (cases ps) auto
      ultimately show ?thesis by (simp add: any_name_loop_iff)
    next
      case True
      then obtain ps' where ps: "ps = CHR ''*'' # ps'" by (cases ps) auto
      let ?rest = "if ps' \<noteq> [] \<and> hd ps' = slash then tl ps' else ps'"
      have "glob_match (c # ps) t = any_path_loop ?rest t"
        using star by (simp add: ps glob_match.simps(2) Let_def)
      moreover have "glob_tokens (c # ps) = Any_Path # glob_tokens ?rest"
        using star by (cases ps') (auto simp: ps)
      moreover have "glob_match ?rest v = (v \<in> glob_texts (glob_tokens ?rest))" for v
        using star 2(1,2) [OF star ps] by (cases ps') (auto simp: ps)
      ultimately show ?thesis by (simp add: any_path_loop_iff)
    qed
  qed
qed

section \<open>Severities\<close>

definition severity_step :: "string \<Rightarrow> path \<Rightarrow> rule_override \<Rightarrow> rule_severity option \<Rightarrow> rule_severity option" where
  "severity_step rule_id file_path entry override_sev =
     (if \<not> path_glob_match (ro_path_glob entry) file_path then override_sev
      else case ro_rule_severity entry rule_id of
             Some s \<Rightarrow> Some s
           | None \<Rightarrow> override_sev)"

definition severity_for :: "config \<Rightarrow> string \<Rightarrow> path \<Rightarrow> rule_severity option" where
  "severity_for cfg rule_id file_path =
     (let override_sev = fold (severity_step rule_id file_path) (cfg_overrides cfg) None in
      if override_sev \<noteq> None then override_sev
      else cfg_rule_severity cfg rule_id)"

definition override_applies :: "string \<Rightarrow> path \<Rightarrow> rule_override \<Rightarrow> bool" where
  "override_applies r p e = (path_glob_match (ro_path_glob e) p \<and> ro_rule_severity e r \<noteq> None)"

lemma fold_severity_step:
  "fold (severity_step r p) es init =
     (case filter (override_applies r p) (rev es) of [] \<Rightarrow> init | e # _ \<Rightarrow> ro_rule_severity e r)"
proof (induction es rule: rev_induct)
  case (snoc e es)
  then show ?case by (auto simp: severity_step_def override_applies_def split: option.splits)
qed simp

section \<open>Finding the configuration\<close>

text \<open>What \<open>find_config\<close> asks of the file system: for a path that exists, whether it is a
  regular file. Absolute paths are the lists of their file names, the root being empty.\<close>

datatype fs_entry = Regular_File | Other_Entry

type_synonym file_system = "string list \<Rightarrow> fs_entry option"

definition config_name :: string where
  "config_name = ''.shader-clippy.toml''"

definition git_name :: string where
  "git_name = ''.git''"

lemma butlast_shorter: "butlast xs \<noteq> xs \<Longrightarrow> length xs - Suc 0 < length xs"
  by (cases xs) auto

function find_config_loop :: "file_system \<Rightarrow> string list \<Rightarrow> string list option" where
  "find_config_loop fs cur =
     (let candidate = cur @ [config_name] in
      if fs candidate \<noteq> None \<and> fs candidate = Some Regular_File then Some candidate
      else if fs (cur @ [git_name]) \<noteq> None then None
      else let parent = butlast cur in
           if parent = cur then None else find_config_loop fs parent)"
  by pat_completeness auto
termination
  by (relation "measure (\<lambda>(fs, cur). length cur)") (auto simp: butlast_shorter)

declare find_config_loop.simps [simp del]

definition find_config :: "file_system \<Rightarrow> string list \<Rightarrow> string list option" where
  "find_config fs start =
     (let cur = (if fs start = Some Regular_File then butlast start else start) in find_config_loop fs cur)"

section \<open>Lemmas of the loader\<close>

lemma round_half_even_bounds: "\<lfloor>x\<rfloor> \<le> round_half_even x \<and> round_half_even x \<le> \<lfloor>x\<rfloor> + 1"
  by (simp add: round_half_even_def Let_def)

lemma f32_spacing_unit:
  assumes "0 < x" and "x < 1"
  obtains k where "f32_spacing x = 1 / 2 ^ k" and "x * 2 ^ k < 2 ^ 24" and "24 \<le> k"
proof (cases "find (\<lambda>k. x * 2 ^ k < 2 ^ 24) (rev [24..<150])")
  case None
  moreover have "24 \<in> set (rev [24..<150])" by simp
  ultimately have "\<not> x * 2 ^ 24 < 2 ^ 24" by (metis find_None_iff)
  with assms show ?thesis by simp
next
  case (Some k)
  obtain i where "i < length (rev [24..<150])" "x * 2 ^ k < 2 ^ 24" "k = rev [24..<150] ! i"
    using Some unfolding find_Some_iff by blast
  moreover from this have "k \<in> set (rev [24..<150])" by (metis nth_mem)
  ultimately show ?thesis
    using Some by (intro that [of k]) (simp_all only: f32_spacing_def option.case set_rev set_upt atLeastLessThan_iff)
qed

lemma f32_of_unit:
  assumes "0 < x" and "x < 1"
  shows "0 \<le> f32_of x \<and> f32_of x \<le> 1"
proof -
  obtain k where k: "f32_spacing x = 1 / 2 ^ k" "x * 2 ^ k < 2 ^ 24" "24 \<le> k"
    using f32_spacing_unit [OF assms] by blast
  have eq: "f32_of x = of_int (round_half_even (x * 2 ^ k)) / 2 ^ k"
    by (simp add: f32_of_def k(1))
  have pos: "0 \<le> x * 2 ^ k" using assms(1) by simp
  then have "0 \<le> \<lfloor>x * 2 ^ k\<rfloor>" by simp
  then have lo: "0 \<le> round_half_even (x * 2 ^ k)" using round_half_even_bounds [of "x * 2 ^ k"] by linarith
  have "\<lfloor>x * 2 ^ k\<rfloor> < 2 ^ 24" using k(2) by (simp add: floor_less_iff)
  then have "round_half_even (x * 2 ^ k) \<le> 2 ^ 24" using round_half_even_bounds [of "x * 2 ^ k"] by linarith
  then have "(of_int (round_half_even (x * 2 ^ k)) :: rat) \<le> of_int (2 ^ 24)" by (simp only: of_int_le_iff)
  also have "(of_int (2 ^ 24) :: rat) \<le> 2 ^ k"
    using power_increasing [of 24 k "2 :: rat"] k(3) by simp
  finally show ?thesis using lo unfolding eq by simp
qed

lemma parse_epsilon_unit:
  "0 \<le> fst st \<and> fst st \<le> 1 \<Longrightarrow> 0 \<le> d \<and> d \<le> 1 \<Longrightarrow>
   0 \<le> fst (parse_epsilon tbl key d st) \<and> fst (parse_epsilon tbl key d st) \<le> 1"
  using f32_of_unit by (auto simp: parse_epsilon_def split: option.split)

lemma default_epsilons: "0 \<le> k_default_compare_epsilon \<and> k_default_compare_epsilon \<le> 1"
  "0 \<le> k_default_div_epsilon \<and> k_default_div_epsilon \<le> 1"
  unfolding k_default_compare_epsilon_def k_default_div_epsilon_def by (rule f32_of_unit; simp)+

lemma fold_parse_rule_entry:
  "fold_result (parse_rule_entry src) tbl m = Inr m' \<Longrightarrow>
     (\<forall>(k, n) \<in> set tbl. \<exists>s. as_string n = Some s \<and> parse_rule_severity s \<noteq> None) \<and>
     m' r = (case m r of Some x \<Rightarrow> Some x
               | None \<Rightarrow> Option.bind (Option.bind (map_of tbl r) as_string) parse_rule_severity)"
proof (induction tbl arbitrary: m)
  case (Cons kv tbl)
  obtain k n where kv: "kv = (k, n)" by fastforce
  from Cons.prems obtain m1 where step: "parse_rule_entry src kv m = Inr m1"
    and rest: "fold_result (parse_rule_entry src) tbl m1 = Inr m'" by auto
  from step obtain s sev where "as_string n = Some s" "parse_rule_severity s = Some sev"
    and "m1 = emplace k sev m"
    by (auto simp: parse_rule_entry_def kv split: option.splits)
  with Cons.IH [OF rest] show ?case
    by (auto simp: kv emplace_def split: option.splits if_splits)
qed (simp split: option.split)

text \<open>Which fields a section leaves alone.\<close>

lemma sections_keep_rules:
  "parse_includes_section src d c = Inr c' \<Longrightarrow> cfg_rule_severity c' = cfg_rule_severity c"
  "parse_excludes_section src d c = Inr c' \<Longrightarrow> cfg_rule_severity c' = cfg_rule_severity c"
  "parse_shader_section src d c = Inr c' \<Longrightarrow> cfg_rule_severity c' = cfg_rule_severity c"
  "parse_float_section src d c = Inr c' \<Longrightarrow> cfg_rule_severity c' = cfg_rule_severity c"
  "parse_lint_section src d c = Inr c' \<Longrightarrow> cfg_rule_severity c' = cfg_rule_severity c"
  "parse_experimental_section src d c = Inr c' \<Longrightarrow> cfg_rule_severity c' = cfg_rule_severity c"
  "parse_overrides_section src d c = Inr c' \<Longrightarrow> cfg_rule_severity c' = cfg_rule_severity c"
  by (auto simp: parse_includes_section_def parse_excludes_section_def parse_shader_section_def
      parse_float_section_def parse_lint_section_def parse_experimental_section_def
      parse_overrides_section_def Let_def split: option.splits prod.splits)

abbreviation epsilons :: "config \<Rightarrow> rat \<times> rat" where
  "epsilons c \<equiv> (cfg_compare_epsilon c, cfg_div_epsilon c)"

lemma sections_keep_epsilons:
  "parse_rules_section src d c = Inr c' \<Longrightarrow> epsilons c' = epsilons c"
  "parse_includes_section src d c = Inr c' \<Longrightarrow> epsilons c' = epsilons c"
  "parse_excludes_section src d c = Inr c' \<Longrightarrow> epsilons c' = epsilons c"
  "parse_shader_section src d c = Inr c' \<Longrightarrow> epsilons c' = epsilons c"
  "parse_lint_section src d c = Inr c' \<Longrightarrow> epsilons c' = epsilons c"
  "parse_experimental_section src d c = Inr c' \<Longrightarrow> epsilons c' = epsilons c"
  "parse_overrides_section src d c = Inr c' \<Longrightarrow> epsilons c' = epsilons c"
  by (auto simp: parse_rules_section_def parse_includes_section_def parse_excludes_section_def
      parse_shader_section_def parse_lint_section_def parse_experimental_section_def
      parse_overrides_section_def Let_def split: option.splits prod.splits)

lemma parse_root_sections:
  assumes "parse_root doc src = Inr cfg"
  obtains c1 c2 c3 c4 c5 c6 c7 where "parse_rules_section src doc default_config = Inr c1"
    and "parse_includes_section src doc c1 = Inr c2" and "parse_excludes_section src doc c2 = Inr c3"
    and "parse_shader_section src doc c3 = Inr c4" and "parse_float_section src doc c4 = Inr c5"
    and "parse_lint_section src doc c5 = Inr c6" and "parse_experimental_section src doc c6 = Inr c7"
    and "parse_overrides_section src doc c7 = Inr cfg"
  using assms unfolding parse_root_def by auto

lemma find_config_loop_cases:
  "find_config_loop fs cur =
     (if fs (cur @ [config_name]) = Some Regular_File then Some (cur @ [config_name])
      else if fs (cur @ [git_name]) \<noteq> None then None
      else if cur = [] then None else find_config_loop fs (butlast cur))"
proof -
  have "(butlast cur = cur) = (cur = [])" by (cases cur rule: rev_cases) auto
  then show ?thesis by (subst find_config_loop.simps) (simp only: Let_def, simp)
qed

lemma find_config_loop_iff:
  "find_config_loop fs cur = Some c \<longleftrightarrow>
     (\<exists>n \<le> length cur. c = take n cur @ [config_name] \<and> fs c = Some Regular_File \<and>
        (\<forall>m. n < m \<and> m \<le> length cur \<longrightarrow>
           fs (take m cur @ [config_name]) \<noteq> Some Regular_File \<and> fs (take m cur @ [git_name]) = None))"
  (is "_ \<longleftrightarrow> ?closest cur")
proof (induction cur rule: rev_induct)
  case Nil
  then show ?case by (subst find_config_loop_cases) auto
next
  case (snoc x cur)
  let ?cur = "cur @ [x]"
  have last: "take (length ?cur) ?cur = ?cur" by simp
  consider (here) "fs (?cur @ [config_name]) = Some Regular_File"
    | (git) "fs (?cur @ [config_name]) \<noteq> Some Regular_File" "fs (?cur @ [git_name]) \<noteq> None"
    | (up) "fs (?cur @ [config_name]) \<noteq> Some Regular_File" "fs (?cur @ [git_name]) = None"
    by blast
  then show ?case
  proof cases
    case here
    have "?closest ?cur \<longleftrightarrow> c = ?cur @ [config_name]"
    proof
      assume "?closest ?cur"
      then obtain n where n: "n \<le> length ?cur" "c = take n ?cur @ [config_name]"
        "\<forall>m. n < m \<and> m \<le> length ?cur \<longrightarrow> fs (take m ?cur @ [config_name]) \<noteq> Some Regular_File"
        by blast
      have "\<not> n < length ?cur" using n(3) here last by (metis le_refl)
      then show "c = ?cur @ [config_name]" using n(1,2) by simp
    next
      assume "c = ?cur @ [config_name]"
      then show "?closest ?cur" using here by (intro exI [of _ "length ?cur"]) auto
    qed
    then show ?thesis using here by (subst find_config_loop_cases) auto
  next
    case git
    have "\<not> ?closest ?cur"
    proof
      assume "?closest ?cur"
      then obtain n where n: "n \<le> length ?cur" "c = take n ?cur @ [config_name]" "fs c = Some Regular_File"
        "\<forall>m. n < m \<and> m \<le> length ?cur \<longrightarrow> fs (take m ?cur @ [git_name]) = None"
        by blast
      have "\<not> n < length ?cur" using n(4) git(2) last by (metis le_refl)
      then show False using n(1-3) git(1) by simp
    qed
    then show ?thesis using git by (subst find_config_loop_cases) auto
  next
    case up
    have "?closest ?cur \<longleftrightarrow> ?closest cur"
    proof
      assume "?closest ?cur"
      then obtain n where n: "n \<le> length ?cur" "c = take n ?cur @ [config_name]" "fs c = Some Regular_File"
        "\<forall>m. n < m \<and> m \<le> length ?cur \<longrightarrow>
           fs (take m ?cur @ [config_name]) \<noteq> Some Regular_File \<and> fs (take m ?cur @ [git_name]) = None"
        by blast
      have "n \<noteq> length ?cur" using n(2,3) up(1) by auto
      then have "n \<le> length cur" using n(1) by simp
      then show "?closest cur" using n(2-4) by (intro exI [of _ n]) fastforce
    next
      assume "?closest cur"
      then obtain n where n: "n \<le> length cur" "c = take n cur @ [config_name]" "fs c = Some Regular_File"
        "\<forall>m. n < m \<and> m \<le> length cur \<longrightarrow>
           fs (take m cur @ [config_name]) \<noteq> Some Regular_File \<and> fs (take m cur @ [git_name]) = None"
        by blast
      have "fs (take m ?cur @ [config_name]) \<noteq> Some Regular_File \<and> fs (take m ?cur @ [git_name]) = None"
        if "n < m" "m \<le> length ?cur" for m
        using that n(4) up by (cases "m = length ?cur") auto
      then show "?closest ?cur" using n(1-3) by (intro exI [of _ n]) simp
    qed
    then show ?thesis using up snoc.IH by (subst find_config_loop_cases) simp
  qed
qed

lemma lexically_normal_absolute: "path_is_absolute p \<Longrightarrow> path_is_absolute (lexically_normal p)"
  by (auto simp: lexically_normal_def path_is_absolute_def Let_def split: prod.split)

lemma path_append_absolute: "path_is_absolute a \<Longrightarrow> path_is_absolute (path_append a b)"
  by (auto simp: path_append_def path_is_absolute_def)

lemma path_parent_absolute: "path_is_absolute p \<Longrightarrow> path_is_absolute (path_parent p)"
proof -
  assume abs: "path_is_absolute p"
  let ?dir = "rev (dropWhile (\<lambda>c. c \<noteq> slash) (rev p))"
  let ?stem = "rev (dropWhile (\<lambda>c. c = slash) (rev ?dir))"
  obtain cs where p: "p = slash # cs" using abs by (cases p) (auto simp: path_is_absolute_def)
  have "\<exists>us. dropWhile (\<lambda>c. c \<noteq> slash) (rev cs @ [slash]) = us @ [slash]"
  proof (cases "slash \<in> set cs")
    case True
    then show ?thesis by (simp add: dropWhile_append1)
  next
    case False
    then have "dropWhile (\<lambda>c. c \<noteq> slash) (rev cs @ [slash]) = [slash]"
      by (subst dropWhile_append2) auto
    then show ?thesis by simp
  qed
  then obtain us where "dropWhile (\<lambda>c. c \<noteq> slash) (rev p) = us @ [slash]"
    using p by (metis rev.simps(2))
  then obtain ds where dir: "?dir = slash # ds" by simp
  show ?thesis
  proof (cases "?stem = []")
    case True
    then show ?thesis using dir abs by (simp add: path_parent_def Let_def path_is_absolute_def)
  next
    case False
    have "\<exists>us. rev ?dir = us @ dropWhile (\<lambda>c. c = slash) (rev ?dir)"
      by (metis takeWhile_dropWhile_id)
    then obtain us where "?dir = ?stem @ rev us" by (metis rev_append rev_rev_ident)
    then have "hd ?stem = slash" using dir False by (metis hd_append2 list.sel(1))
    then show ?thesis using False dir by (simp add: path_parent_def Let_def path_is_absolute_def)
  qed
qed

lemma resolve_config_absolute:
  "path_is_absolute src \<Longrightarrow> path_is_absolute (resolve_config_relative_path text src)"
  using path_parent_absolute [of src]
  by (auto simp: resolve_config_relative_path_def Let_def
      intro!: lexically_normal_absolute path_append_absolute)
    (auto simp: path_is_absolute_def)

lemma fold_push_string:
  "fold_result (push_string msg src f) arr out = Inr out' \<Longrightarrow>
     \<exists>ss. map as_string arr = map Some ss \<and> out' = out @ map f ss"
proof (induction arr arbitrary: out)
  case (Cons el arr)
  from Cons.prems obtain o1 where step: "push_string msg src f el out = Inr o1"
    and rest: "fold_result (push_string msg src f) arr o1 = Inr out'" by auto
  from step obtain s where s: "as_string el = Some s" and "o1 = out @ [f s]"
    by (auto simp: push_string_def split: option.splits)
  with rest have "fold_result (push_string msg src f) arr (out @ [f s]) = Inr out'" by simp
  from Cons.IH [OF this] obtain ss where "map as_string arr = map Some ss" "out' = (out @ [f s]) @ map f ss"
    by blast
  then show ?case using s by (intro exI [of _ "s # ss"]) simp
qed simp

lemma sections_keep_directories:
  "parse_rules_section src d c = Inr c' \<Longrightarrow> cfg_shader_include_directories c' = cfg_shader_include_directories c"
  "parse_includes_section src d c = Inr c' \<Longrightarrow> cfg_shader_include_directories c' = cfg_shader_include_directories c"
  "parse_excludes_section src d c = Inr c' \<Longrightarrow> cfg_shader_include_directories c' = cfg_shader_include_directories c"
  "parse_float_section src d c = Inr c' \<Longrightarrow> cfg_shader_include_directories c' = cfg_shader_include_directories c"
  "parse_lint_section src d c = Inr c' \<Longrightarrow> cfg_shader_include_directories c' = cfg_shader_include_directories c"
  "parse_experimental_section src d c = Inr c' \<Longrightarrow> cfg_shader_include_directories c' = cfg_shader_include_directories c"
  "parse_overrides_section src d c = Inr c' \<Longrightarrow> cfg_shader_include_directories c' = cfg_shader_include_directories c"
  by (auto simp: parse_rules_section_def parse_includes_section_def parse_excludes_section_def
      parse_float_section_def parse_lint_section_def parse_experimental_section_def
      parse_overrides_section_def Let_def split: option.splits prod.splits)

section \<open>Properties\<close>

text \<open>The recursive glob matcher, with its backtracking loops over the positions of the text,
  accepts exactly the texts the pattern stands for: the concatenations of any text for a double
  star (and the slash after it), of separator-free text for a star, of one character other than
  a separator for a question mark, and of the characters themselves, in both inputs with
  backslashes read as slashes.\<close>

theorem glob_match_language:
  "path_glob_match glob p \<longleftrightarrow>
     normalise_separators p \<in> glob_texts (glob_tokens (normalise_separators glob))"
  by (simp add: path_glob_match_def glob_match_iff)

text \<open>The documented meaning of a double star, any number of path components, is not what the
  matcher does: the slash after the stars is optional at every position, so the last component of
  the pattern also matches the tail of a longer name.\<close>

theorem glob_double_star_splits_names:
  "path_glob_match ''a/**/b.hlsl'' ''a/b.hlsl'' \<and> path_glob_match ''a/**/b.hlsl'' ''a/x/y/b.hlsl'' \<and>
   path_glob_match ''a/**/b.hlsl'' ''a/xb.hlsl'' \<and> path_glob_match ''**/b.hlsl'' ''not-b.hlsl''"
  by code_simp

text \<open>C6: The severity a configuration gives a rule on a file is that of the last override entry
  whose glob matches the file and whose table names the rule, and without such an entry that of
  the top-level table.\<close>

theorem severity_for_last_override:
  "severity_for cfg r p =
     (case filter (override_applies r p) (rev (cfg_overrides cfg)) of
        e # _ \<Rightarrow> ro_rule_severity e r
      | [] \<Rightarrow> cfg_rule_severity cfg r)"
proof -
  have "ro_rule_severity e r \<noteq> None" if "filter (override_applies r p) (rev es) = e # es'" for e es es'
  proof -
    have "e \<in> set (filter (override_applies r p) (rev es))" using that by simp
    then show ?thesis by (auto simp: override_applies_def)
  qed
  from this [of "cfg_overrides cfg"] show ?thesis
    by (cases "filter (override_applies r p) (rev (cfg_overrides cfg))")
      (simp_all add: severity_for_def fold_severity_step)
qed

text \<open>A document that loads has a well-formed rules table, and the loaded severities are that
  table read entry by entry: every entry is a string naming a severity, and a rule has the severity
  its entry names and none without an entry.\<close>

theorem parse_root_rules:
  assumes "parse_root doc src = Inr cfg"
  shows "(\<forall>node. toml_get doc ''rules'' = Some node \<longrightarrow> (\<exists>tbl. as_table node = Some tbl \<and>
            (\<forall>(k, n) \<in> set tbl. \<exists>s. as_string n = Some s \<and> parse_rule_severity s \<noteq> None)))
    \<and> cfg_rule_severity cfg r =
        Option.bind (Option.bind (Option.bind (Option.bind (toml_get doc ''rules'') as_table)
          (\<lambda>tbl. toml_get tbl r)) as_string) parse_rule_severity"
proof -
  obtain c1 c2 c3 c4 c5 c6 c7 where c: "parse_rules_section src doc default_config = Inr c1"
      "parse_includes_section src doc c1 = Inr c2" "parse_excludes_section src doc c2 = Inr c3"
      "parse_shader_section src doc c3 = Inr c4" "parse_float_section src doc c4 = Inr c5"
      "parse_lint_section src doc c5 = Inr c6" "parse_experimental_section src doc c6 = Inr c7"
      "parse_overrides_section src doc c7 = Inr cfg"
    using parse_root_sections [OF assms] by blast
  have "cfg_rule_severity cfg = cfg_rule_severity c1"
    using sections_keep_rules(1) [OF c(2)] sections_keep_rules(2) [OF c(3)] sections_keep_rules(3) [OF c(4)]
      sections_keep_rules(4) [OF c(5)] sections_keep_rules(5) [OF c(6)] sections_keep_rules(6) [OF c(7)]
      sections_keep_rules(7) [OF c(8)] by simp
  with c(1) show ?thesis
    using fold_parse_rule_entry [of src _ Map.empty]
    by (auto simp: parse_rules_section_def default_config_def toml_get_def split: option.splits) force+
qed

text \<open>The two epsilons of a loaded configuration lie in the closed unit interval, whatever the
  document says.\<close>

theorem parse_root_epsilons:
  assumes "parse_root doc src = Inr cfg"
  shows "0 \<le> cfg_compare_epsilon cfg \<and> cfg_compare_epsilon cfg \<le> 1 \<and>
    0 \<le> cfg_div_epsilon cfg \<and> cfg_div_epsilon cfg \<le> 1"
proof -
  obtain c1 c2 c3 c4 c5 c6 c7 where c: "parse_rules_section src doc default_config = Inr c1"
      "parse_includes_section src doc c1 = Inr c2" "parse_excludes_section src doc c2 = Inr c3"
      "parse_shader_section src doc c3 = Inr c4" "parse_float_section src doc c4 = Inr c5"
      "parse_lint_section src doc c5 = Inr c6" "parse_experimental_section src doc c6 = Inr c7"
      "parse_overrides_section src doc c7 = Inr cfg"
    using parse_root_sections [OF assms] by blast
  have "epsilons c4 = epsilons default_config"
    using sections_keep_epsilons(1) [OF c(1)] sections_keep_epsilons(2) [OF c(2)]
      sections_keep_epsilons(3) [OF c(3)] sections_keep_epsilons(4) [OF c(4)] by simp
  then have c4: "0 \<le> cfg_compare_epsilon c4 \<and> cfg_compare_epsilon c4 \<le> 1"
    "0 \<le> cfg_div_epsilon c4 \<and> cfg_div_epsilon c4 \<le> 1"
    using default_epsilons by (simp_all add: default_config_def)
  have "0 \<le> cfg_compare_epsilon c5 \<and> cfg_compare_epsilon c5 \<le> 1 \<and>
      0 \<le> cfg_div_epsilon c5 \<and> cfg_div_epsilon c5 \<le> 1"
    using c(5) c4 default_epsilons
      parse_epsilon_unit [of "(cfg_compare_epsilon c4, cfg_warnings c4)" k_default_compare_epsilon _ "''compare-epsilon''"]
      parse_epsilon_unit [of "(cfg_div_epsilon c4, _)" k_default_div_epsilon _ "''div-epsilon''"]
    by (auto simp: parse_float_section_def split: option.splits prod.splits) (metis fst_conv)+
  moreover have "epsilons cfg = epsilons c5"
    using sections_keep_epsilons(5) [OF c(6)] sections_keep_epsilons(6) [OF c(7)]
      sections_keep_epsilons(7) [OF c(8)] by simp
  ultimately show ?thesis by simp
qed

definition sample_document :: toml_table where
  "sample_document =
     [(''float'', Toml_Node 5 1 (T_table [(''compare-epsilon'', Toml_Node 6 1 (T_floating (Some (1 / 10 ^ 50)))),
                                          (''div-epsilon'', Toml_Node 7 1 (T_floating (Some (1 - 1 / 10 ^ 9))))])),
      (''rules'', Toml_Node 1 1 (T_table [(''pow'', Toml_Node 2 1 (T_string ''deny'')),
                                          (''redundant'', Toml_Node 3 1 (T_string ''allow''))])),
      (''shader'', Toml_Node 9 1 (T_table [(''include-directories'',
          Toml_Node 10 1 (T_array [Toml_Node 10 3 (T_string ''../inc''), Toml_Node 10 9 (T_string ''/opt/./x'')]))]))]"

lemma floor_rat_numeral: "\<lfloor>numeral a / numeral b :: rat\<rfloor> = numeral a div numeral b"
  using floor_divide_of_int_eq [of "numeral a" "numeral b", where ?'a = rat] by simp

lemma f32_extremes: "f32_of (1 / 10 ^ 50) = 0" "f32_of (1 - 1 / 10 ^ 9) = 1"
  by (simp_all add: f32_of_def f32_spacing_def round_half_even_def Let_def floor_rat_numeral)

lemma sample_sections:
  "parse_rules_section src sample_document cfg = Inr (cfg\<lparr>cfg_rule_severity :=
     emplace ''redundant'' Allow (emplace ''pow'' Deny (cfg_rule_severity cfg))\<rparr>)"
  "parse_includes_section src sample_document cfg = Inr cfg"
  "parse_excludes_section src sample_document cfg = Inr cfg"
  "parse_shader_section src sample_document cfg = Inr (cfg\<lparr>cfg_shader_include_directories :=
     cfg_shader_include_directories cfg @ [resolve_config_relative_path ''../inc'' src,
       resolve_config_relative_path ''/opt/./x'' src]\<rparr>)"
  "parse_float_section src sample_document cfg = Inr (cfg\<lparr>cfg_compare_epsilon := 0, cfg_div_epsilon := 1\<rparr>)"
  "parse_lint_section src sample_document cfg = Inr cfg"
  "parse_experimental_section src sample_document cfg = Inr cfg"
  "parse_overrides_section src sample_document cfg = Inr cfg"
  by (simp_all add: parse_rules_section_def parse_rule_entry_def parse_rule_severity_def
      parse_includes_section_def parse_excludes_section_def parse_patterns_def parse_shader_section_def
      push_string_def parse_float_section_def parse_lint_section_def parse_experimental_section_def
      parse_overrides_section_def sample_document_def toml_get_def parse_epsilon_def f32_extremes [simplified])

definition sample_config :: "path \<Rightarrow> config" where
  "sample_config src = default_config
     \<lparr>cfg_rule_severity := emplace ''redundant'' Allow (emplace ''pow'' Deny (cfg_rule_severity default_config)),
      cfg_shader_include_directories := [resolve_config_relative_path ''../inc'' src,
        resolve_config_relative_path ''/opt/./x'' src],
      cfg_compare_epsilon := 0, cfg_div_epsilon := 1\<rparr>"

lemma sample_root: "parse_root sample_document src = Inr (sample_config src)"
  unfolding parse_root_def sample_sections and_then.simps sample_config_def
  by (simp add: default_config_def)

text \<open>The interval is closed although the loader tests for values strictly between zero and
  one: the test is on the double, and the cast to single precision takes a tiny value to zero and
  a value just below one to one, without a warning.\<close>

theorem epsilon_rounds_out_of_range:
  "(case parse_root sample_document src of
      Inr cfg \<Rightarrow> cfg_compare_epsilon cfg = 0 \<and> cfg_div_epsilon cfg = 1 \<and> cfg_warnings cfg = []
    | Inl e \<Rightarrow> False)"
  unfolding sample_root by (simp add: sample_config_def default_config_def)

theorem parse_root_rules_witness:
  "parse_root sample_document ''/p/cfg'' = Inr (sample_config ''/p/cfg'') \<and>
   cfg_rule_severity (sample_config ''/p/cfg'') ''pow'' = Some Deny"
  using parse_root_rules [OF sample_root [of "''/p/cfg''"], where r = "''pow''"] sample_root [of "''/p/cfg''"]
  by (simp add: toml_get_def sample_document_def parse_rule_severity_def)

theorem parse_root_epsilons_witness:
  "parse_root sample_document ''/p/cfg'' = Inr (sample_config ''/p/cfg'') \<and>
   cfg_div_epsilon (sample_config ''/p/cfg'') \<le> 1"
  using parse_root_epsilons [OF sample_root] sample_root by simp

text \<open>Include directories are anchored at the configuration file: when the file's path is
  absolute, so is every include directory of the loaded configuration, and each is the normalised
  form of the entry below the file's directory or of the absolute entry itself.\<close>

theorem include_directories_absolute:
  assumes "parse_root doc src = Inr cfg" and "path_is_absolute src"
  shows "\<forall>d \<in> set (cfg_shader_include_directories cfg). path_is_absolute d \<and>
    (\<exists>text. d = resolve_config_relative_path text src)"
proof -
  obtain c1 c2 c3 c4 c5 c6 c7 where c: "parse_rules_section src doc default_config = Inr c1"
      "parse_includes_section src doc c1 = Inr c2" "parse_excludes_section src doc c2 = Inr c3"
      "parse_shader_section src doc c3 = Inr c4" "parse_float_section src doc c4 = Inr c5"
      "parse_lint_section src doc c5 = Inr c6" "parse_experimental_section src doc c6 = Inr c7"
      "parse_overrides_section src doc c7 = Inr cfg"
    using parse_root_sections [OF assms(1)] by blast
  have c3: "cfg_shader_include_directories c3 = []"
    using sections_keep_directories(1) [OF c(1)] sections_keep_directories(2) [OF c(2)]
      sections_keep_directories(3) [OF c(3)] by (simp add: default_config_def)
  have "\<forall>d \<in> set (cfg_shader_include_directories c4). \<exists>text. d = resolve_config_relative_path text src"
    using c(4) c3 fold_push_string [where f = "\<lambda>s. resolve_config_relative_path s src" and src = src]
    by (fastforce simp: parse_shader_section_def split: option.splits)
  moreover have "cfg_shader_include_directories cfg = cfg_shader_include_directories c4"
    using sections_keep_directories(4) [OF c(5)] sections_keep_directories(5) [OF c(6)]
      sections_keep_directories(6) [OF c(7)] sections_keep_directories(7) [OF c(8)] by simp
  ultimately show ?thesis using resolve_config_absolute [OF assms(2)] by fastforce
qed

theorem include_directories_absolute_witness:
  "parse_root sample_document ''/p/cfg'' = Inr (sample_config ''/p/cfg'') \<and>
   cfg_shader_include_directories (sample_config ''/p/cfg'') = [''/inc'', ''/opt/x''] \<and>
   path_is_absolute ''/inc''"
proof -
  have dirs: "cfg_shader_include_directories (sample_config ''/p/cfg'') = [''/inc'', ''/opt/x'']"
  proof -
    have "[resolve_config_relative_path ''../inc'' ''/p/cfg'', resolve_config_relative_path ''/opt/./x'' ''/p/cfg'']
        = [''/inc'', ''/opt/x'']" by code_simp
    then show ?thesis by (simp add: sample_config_def)
  qed
  have "path_is_absolute ''/p/cfg''" by code_simp
  from include_directories_absolute [OF sample_root this] show ?thesis
    using dirs sample_root by simp
qed

text \<open>C30: The configuration found for a file is the closest one: \<open>find_config\<close> returns a
  regular file named after the configuration in an ancestor of the start (of its directory, when
  the start is a file), no directory between has such a file, and none between holds a
  repository; and it finds one whenever there is one like that.\<close>

theorem find_config_closest:
  "find_config fs start = Some c \<longleftrightarrow>
     (let dir = if fs start = Some Regular_File then butlast start else start in
      \<exists>n \<le> length dir. c = take n dir @ [config_name] \<and> fs c = Some Regular_File \<and>
        (\<forall>m. n < m \<and> m \<le> length dir \<longrightarrow>
           fs (take m dir @ [config_name]) \<noteq> Some Regular_File \<and> fs (take m dir @ [git_name]) = None))"
  unfolding find_config_def Let_def find_config_loop_iff by (rule refl)

definition sample_tree :: file_system where
  "sample_tree p = (if p = [''repo'', ''shaders'', ''a.hlsl''] then Some Regular_File
     else if p = [''repo'', config_name] then Some Regular_File
     else if p = [''repo'', git_name] then Some Other_Entry
     else if p = [config_name] then Some Regular_File else None)"

theorem find_config_closest_witness:
  "find_config sample_tree [''repo'', ''shaders'', ''a.hlsl''] = Some [''repo'', config_name]"
  by (subst find_config_closest)
    (simp add: sample_tree_def config_name_def git_name_def Let_def, rule exI [of _ 1],
      auto simp: take_Cons' config_name_def git_name_def split: if_splits)

end
