(* ===== verification/Wire.thy ===== *)
theory Wire
  imports Config
begin

text \<open>
  The byte formats of the language server: \<^verbatim>\<open>lsp/src/rpc/framing.cpp\<close> (the header and body
  of a message, read from a stream) and \<^verbatim>\<open>lsp/src/document/uri.cpp\<close> (file URIs with percent
  encoding). Both are codecs whose encodings are read back from the front of a stream; the locale
  \<open>stream_codec\<close> states that contract and what follows from it for sequences, and both formats
  are interpretations of it.
\<close>

section \<open>Decimal numbers\<close>

text \<open>\<open>std::to_string\<close> of an unsigned number, and the number a string of digits stands for.\<close>

definition digit_char :: "nat \<Rightarrow> char" where
  "digit_char d = char_of (48 + d)"

definition digit_value :: "char \<Rightarrow> nat" where
  "digit_value c = of_char c - 48"

fun to_decimal :: "nat \<Rightarrow> string" where
  "to_decimal n = (if n < 10 then [digit_char n] else to_decimal (n div 10) @ [digit_char (n mod 10)])"

declare to_decimal.simps [simp del]

definition of_decimal :: "string \<Rightarrow> nat" where
  "of_decimal s = fold (\<lambda>c n. 10 * n + digit_value c) s 0"

text \<open>\<open>std::from_chars\<close> into a \<open>std::uint32_t\<close>: the longest run of digits, an error when there
  is none or when the value does not fit; the rest of the input is returned.\<close>

definition from_chars_u32 :: "string \<Rightarrow> (u32 \<times> string) option" where
  "from_chars_u32 s =
     (let ds = takeWhile is_digit_char s in
      if ds = [] then None
      else if of_decimal ds \<ge> 2 ^ 32 then None
      else Some (u32_of (of_decimal ds), dropWhile is_digit_char s))"

lemma of_char_digit: "d < 10 \<Longrightarrow> (of_char (digit_char d) :: nat) = 48 + d"
  by (simp add: digit_char_def)

lemma digit_value_char [simp]: "d < 10 \<Longrightarrow> digit_value (digit_char d) = d"
  by (simp add: digit_value_def of_char_digit)

lemma is_digit_digit_char: "d < 10 \<Longrightarrow> is_digit_char (digit_char d)"
  by (simp add: is_digit_char_def less_eq_char_def of_char_digit)

lemma to_decimal_digits: "\<forall>c \<in> set (to_decimal n). is_digit_char c"
proof (induction n rule: to_decimal.induct)
  case (1 n)
  then show ?case by (subst to_decimal.simps) (auto simp: is_digit_digit_char)
qed

lemma to_decimal_nonempty [simp]: "to_decimal n \<noteq> []"
  by (subst to_decimal.simps) simp

lemma of_decimal_snoc: "of_decimal (s @ [c]) = 10 * of_decimal s + digit_value c"
  by (simp add: of_decimal_def)

lemma of_to_decimal [simp]: "of_decimal (to_decimal n) = n"
proof (induction n rule: to_decimal.induct)
  case (1 n)
  show ?case
  proof (cases "n < 10")
    case True
    then show ?thesis by (subst to_decimal.simps) (simp add: of_decimal_def)
  next
    case False
    then show ?thesis using 1 by (subst to_decimal.simps) (simp add: of_decimal_snoc)
  qed
qed

section \<open>Codecs on streams\<close>

text \<open>
  An encoder and the decoder that reads one encoded item off the front of a stream: the law is
  that the decoder returns the item and leaves what follows it, whatever that is. So no encoding
  is a proper prefix of another, a stream of encodings reads back item by item, and two sequences
  with the same encoding are equal.
\<close>

locale stream_codec =
  fixes enc :: "'m \<Rightarrow> 'b list"
    and dec :: "'b list \<Rightarrow> ('m \<times> 'b list) option"
    and valid :: "'m \<Rightarrow> bool"
  assumes dec_enc: "valid m \<Longrightarrow> dec (enc m @ rest) = Some (m, rest)"
    and enc_nonempty: "valid m \<Longrightarrow> enc m \<noteq> []"
begin

lemma enc_cancel: "valid m \<Longrightarrow> valid m' \<Longrightarrow> enc m @ r = enc m' @ r' \<Longrightarrow> m = m' \<and> r = r'"
  using dec_enc by (metis option.inject prod.inject)

lemma enc_all_inject:
  "list_all valid ms \<Longrightarrow> list_all valid ms' \<Longrightarrow> concat (map enc ms) = concat (map enc ms') \<Longrightarrow> ms = ms'"
proof (induction ms arbitrary: ms')
  case Nil
  then show ?case by (cases ms') (auto simp: enc_nonempty)
next
  case (Cons m ms)
  then obtain m' ms'' where ms': "ms' = m' # ms''"
    by (cases ms') (auto simp: enc_nonempty)
  with Cons show ?case using enc_cancel [of m m'] by auto
qed

text \<open>Any reader that takes items off the front until the stream is empty reads the sequence
  back.\<close>

lemma read_all:
  assumes "all [] = Some []"
    and "\<And>m r s. s \<noteq> [] \<Longrightarrow> dec s = Some (m, r) \<Longrightarrow> all s = map_option (Cons m) (all r)"
  shows "list_all valid ms \<Longrightarrow> all (concat (map enc ms)) = Some ms"
proof (induction ms)
  case Nil
  then show ?case using assms(1) by simp
next
  case (Cons m ms)
  then show ?case
    using assms(2) [OF _ dec_enc [of m "concat (map enc ms)"]] enc_nonempty [of m] by simp
qed

end

section \<open>Message framing\<close>

datatype framing_status = Ok | EndOfStream | HeaderError | BodyTruncated

record read_result =
  rr_status :: framing_status
  rr_body :: string

definition k_content_length :: string where
  "k_content_length = ''Content-Length''"

definition k_crlf :: string where
  "k_crlf = [carriage_return, newline]"

definition k_header_terminator :: string where
  "k_header_terminator = k_crlf @ k_crlf"

definition trim :: "string \<Rightarrow> string" where
  "trim s =
     (let blank = (\<lambda>c. c = CHR '' '' \<or> c = tab_char) in
      rev (dropWhile blank (rev (dropWhile blank s))))"

definition ascii_iequals :: "string \<Rightarrow> string \<Rightarrow> bool" where
  "ascii_iequals a b =
     (length a = length b \<and> list_all2 (\<lambda>ca cb. to_lower_char ca = to_lower_char cb) a b)"

text \<open>The next line of a header block (\<open>find(k_crlf, pos)\<close> and the two \<open>substr\<close>), and what
  follows its line break.\<close>

fun cut_line :: "string \<Rightarrow> string \<times> string" where
  "cut_line [] = ([], [])"
| "cut_line (c # cs) =
     (if c = carriage_return \<and> cs \<noteq> [] \<and> hd cs = newline then ([], tl cs)
      else let (line, rest) = cut_line cs in (c # line, rest))"

lemma cut_line_shorter: "s \<noteq> [] \<Longrightarrow> length (snd (cut_line s)) < length s"
proof (induction s rule: cut_line.induct)
  case (2 c cs)
  then show ?case by (cases "cs = []") (auto split: prod.splits)
qed simp

lemma cut_line_rest: "s \<noteq> [] \<Longrightarrow> (line, rest) = cut_line s \<Longrightarrow> length rest < length s"
  using cut_line_shorter [of s] by (metis snd_conv)

text \<open>The loop of \<open>parse_content_length\<close> on the part of the headers still to read.\<close>

function header_loop :: "string \<Rightarrow> u32 option \<Rightarrow> u32 option" where
  "header_loop headers found =
     (if headers = [] then found
      else let (line, rest) = cut_line headers in
        if line = [] then header_loop rest found
        else if CHR '':'' \<notin> set line then None
        else let name = trim (takeWhile (\<lambda>c. c \<noteq> CHR '':'') line);
                 val = trim (tl (dropWhile (\<lambda>c. c \<noteq> CHR '':'') line)) in
             if ascii_iequals name k_content_length then
               (case from_chars_u32 val of
                  None \<Rightarrow> None
                | Some (parsed, left) \<Rightarrow>
                    if left \<noteq> [] then None else header_loop rest (Some parsed))
             else header_loop rest found)"
  by pat_completeness auto
termination
  by (relation "measure (\<lambda>(h, f). length h)") (simp_all add: cut_line_rest)

declare header_loop.simps [simp del]

definition parse_content_length :: "string \<Rightarrow> u32 option" where
  "parse_content_length headers = header_loop headers None"

definition k_max_header_bytes :: nat where
  "k_max_header_bytes = 65536"

definition k_max_body_bytes :: nat where
  "k_max_body_bytes = 16 * 1024 * 1024"

definition ends_with :: "string \<Rightarrow> string \<Rightarrow> bool" where
  "ends_with s suffix_text =
     (length suffix_text \<le> length s \<and> drop (length s - length suffix_text) s = suffix_text)"

text \<open>The loop that reads the header bytes one at a time: a framing error, or the bytes read up to
  the terminator; in both cases with the rest of the stream.\<close>

fun read_header :: "string \<Rightarrow> string \<Rightarrow> (framing_status + string) \<times> string" where
  "read_header [] headers = (Inl (if headers = [] then EndOfStream else HeaderError), [])"
| "read_header (byte # rest) headers =
     (let headers = headers @ [byte] in
      if length headers \<ge> length k_header_terminator \<and> ends_with headers k_header_terminator
      then (Inr headers, rest)
      else if length headers > k_max_header_bytes then (Inl HeaderError, rest)
      else read_header rest headers)"

definition read_message :: "string \<Rightarrow> read_result \<times> string" where
  "read_message stream =
     (case read_header stream [] of
        (Inl status, rest) \<Rightarrow> (\<lparr>rr_status = status, rr_body = []\<rparr>, rest)
      | (Inr headers, rest) \<Rightarrow>
          let header_view = take (length headers - length k_header_terminator) headers in
          (case parse_content_length header_view of
             None \<Rightarrow> (\<lparr>rr_status = HeaderError, rr_body = []\<rparr>, rest)
           | Some len \<Rightarrow>
               if len > u32_of k_max_body_bytes then (\<lparr>rr_status = HeaderError, rr_body = []\<rparr>, rest)
               else let body = take (unat len) rest in
                    if unat len > 0 \<and> length body \<noteq> unat len
                    then (\<lparr>rr_status = BodyTruncated, rr_body = body\<rparr>, [])
                    else (\<lparr>rr_status = Ok, rr_body = body\<rparr>, drop (unat len) rest)))"

definition frame_message :: "string \<Rightarrow> string" where
  "frame_message body =
     k_content_length @ '': '' @ to_decimal (length body) @ k_crlf @ k_crlf @ body"

section \<open>File URIs\<close>

definition k_file_scheme :: string where
  "k_file_scheme = ''file://''"

definition hex_value :: "char \<Rightarrow> int" where
  "hex_value c =
     (if CHR ''0'' \<le> c \<and> c \<le> CHR ''9'' then of_char c - 48
      else if CHR ''a'' \<le> c \<and> c \<le> CHR ''f'' then 10 + (of_char c - 97)
      else if CHR ''A'' \<le> c \<and> c \<le> CHR ''F'' then 10 + (of_char c - 65)
      else - 1)"

text \<open>\<open>percent_decode\<close> on what is left of the input and the output so far.\<close>

function percent_loop :: "string \<Rightarrow> string \<Rightarrow> string option" where
  "percent_loop s out =
     (case s of
        [] \<Rightarrow> Some out
      | c # cs \<Rightarrow>
          if c \<noteq> CHR ''%'' then percent_loop cs (out @ [c])
          else if length cs < 2 then None
          else let hi = hex_value (cs ! 0); lo = hex_value (cs ! 1) in
               if hi < 0 \<or> lo < 0 then None
               else percent_loop (drop 2 cs) (out @ [char_of (nat (hi * 16 + lo))]))"
  by pat_completeness auto
termination
  by (relation "measure (\<lambda>(s, out). length s)") auto

declare percent_loop.simps [simp del]

definition percent_decode :: "string \<Rightarrow> string option" where
  "percent_decode s = percent_loop s []"

definition is_unreserved :: "char \<Rightarrow> bool" where
  "is_unreserved c =
     (if (CHR ''A'' \<le> c \<and> c \<le> CHR ''Z'') \<or> (CHR ''a'' \<le> c \<and> c \<le> CHR ''z'') \<or>
         (CHR ''0'' \<le> c \<and> c \<le> CHR ''9'') then True
      else c = CHR ''-'' \<or> c = CHR ''_'' \<or> c = CHR ''.'' \<or> c = CHR ''~'')"

definition uri_to_path :: "string \<Rightarrow> path option" where
  "uri_to_path uri =
     (if take (length k_file_scheme) uri \<noteq> k_file_scheme then None
      else percent_decode (drop (length k_file_scheme) uri))"

definition k_hex :: string where
  "k_hex = ''0123456789ABCDEF''"

text \<open>What the loop of \<open>path_to_uri\<close> appends for one byte.\<close>

definition encode_byte :: "char \<Rightarrow> string" where
  "encode_byte c =
     (if is_unreserved c \<or> c = slash \<or> c = CHR '':'' then [c]
      else [CHR ''%'', k_hex ! (of_char c div 16 mod 16), k_hex ! (of_char c mod 16)])"

definition path_to_uri :: "path \<Rightarrow> string" where
  "path_to_uri p =
     (let raw = (if p = [] \<or> hd p \<noteq> slash then slash # p else p) in
      k_file_scheme @ concat (map encode_byte raw))"

section \<open>Frames read back\<close>

lemma to_decimal_length: "n < 10 ^ k \<Longrightarrow> 0 < k \<Longrightarrow> length (to_decimal n) \<le> k"
proof (induction k arbitrary: n)
  case (Suc k)
  show ?case
  proof (cases "n < 10")
    case True
    then show ?thesis by (subst to_decimal.simps) simp
  next
    case False
    then have "n div 10 < 10 ^ k" "0 < k"
      using Suc.prems(1) by (simp_all add: less_mult_imp_div_less) (cases k; simp)
    then show ?thesis using Suc.IH False by (subst to_decimal.simps) simp
  qed
qed simp

lemma ends_with_iff: "ends_with s t \<longleftrightarrow> (\<exists>u. s = u @ t)"
  by (auto simp: ends_with_def) (metis append_take_drop_id)

lemma terminator_eq: "k_header_terminator = [carriage_return, newline, carriage_return, newline]"
  by (simp add: k_header_terminator_def k_crlf_def)

lemma read_header_byte:
  assumes "length acc < k_max_header_bytes" and "carriage_return \<notin> set acc"
  shows "read_header (c # rest) acc = read_header rest (acc @ [c])"
proof -
  have "\<not> ends_with (acc @ [c]) k_header_terminator"
    using assms(2) by (auto simp: ends_with_iff terminator_eq append_eq_append_conv2 Cons_eq_append_conv append_eq_Cons_conv)
  then show ?thesis using assms(1) by (simp add: Let_def)
qed

lemma read_header_terminator:
  assumes "length acc + 4 \<le> k_max_header_bytes" and "carriage_return \<notin> set acc"
  shows "read_header (k_header_terminator @ rest) acc = (Inr (acc @ k_header_terminator), rest)"
proof -
  have a: "\<not> ends_with (acc @ [carriage_return]) k_header_terminator"
    "\<not> ends_with (acc @ [carriage_return, newline]) k_header_terminator"
    "\<not> ends_with (acc @ [carriage_return, newline, carriage_return]) k_header_terminator"
    using assms(2) by (auto simp: ends_with_iff terminator_eq append_eq_append_conv2 Cons_eq_append_conv append_eq_Cons_conv)
  have b: "ends_with (acc @ [carriage_return, newline, carriage_return, newline]) k_header_terminator"
    by (auto simp: ends_with_iff terminator_eq)
  show ?thesis using assms(1) a b by (simp add: terminator_eq Let_def)
qed

lemma read_header_line:
  "carriage_return \<notin> set x \<Longrightarrow> carriage_return \<notin> set acc \<Longrightarrow> length acc + length x + 4 \<le> k_max_header_bytes \<Longrightarrow>
   read_header (x @ k_header_terminator @ rest) acc = (Inr (acc @ x @ k_header_terminator), rest)"
proof (induction x arbitrary: acc)
  case Nil
  then show ?case using read_header_terminator [of acc rest] by simp
next
  case (Cons c x)
  then show ?case
    using read_header_byte [of acc c "x @ k_header_terminator @ rest"] Cons.IH [of "acc @ [c]"] by simp
qed

lemma cut_line_single: "carriage_return \<notin> set x \<Longrightarrow> cut_line x = (x, [])"
  by (induction x) auto

lemma trim_plain:
  assumes "s \<noteq> []" and "hd s \<noteq> CHR '' ''" "hd s \<noteq> tab_char" and "last s \<noteq> CHR '' ''" "last s \<noteq> tab_char"
  shows "trim s = s \<and> trim (CHR '' '' # s) = s"
proof -
  let ?blank = "\<lambda>c. c = CHR '' '' \<or> c = tab_char"
  have front: "dropWhile ?blank s = s" and rear: "dropWhile ?blank (rev s) = rev s"
    using assms by (simp_all add: dropWhile_eq_self_iff hd_rev)
  have "dropWhile ?blank (CHR '' '' # s) = s" using front by simp
  with front rear show ?thesis unfolding trim_def Let_def by simp
qed

lemma digit_not_blank: "is_digit_char c \<Longrightarrow> c \<noteq> CHR '' '' \<and> c \<noteq> tab_char \<and> c \<noteq> carriage_return"
  by (auto simp: is_digit_char_def)

lemma from_chars_decimal: "n < 2 ^ 32 \<Longrightarrow> from_chars_u32 (to_decimal n) = Some (u32_of n, [])"
proof -
  assume n: "n < 2 ^ 32"
  have tw: "takeWhile is_digit_char (to_decimal n) = to_decimal n"
    and dw: "dropWhile is_digit_char (to_decimal n) = []"
    using to_decimal_digits [of n] by (simp_all add: takeWhile_eq_all_conv)
  show ?thesis unfolding from_chars_u32_def tw dw Let_def using n by simp
qed

lemma content_length_header:
  assumes "n < 2 ^ 32"
  shows "parse_content_length (k_content_length @ '': '' @ to_decimal n) = Some (u32_of n)"
proof -
  let ?x = "k_content_length @ '': '' @ to_decimal n"
  have "carriage_return \<notin> set ?x"
    using to_decimal_digits [of n] digit_not_blank by (auto simp: k_content_length_def)
  then have cut: "cut_line ?x = (?x, [])" by (rule cut_line_single)
  have name: "takeWhile (\<lambda>c. c \<noteq> CHR '':'') ?x = k_content_length"
    and val: "tl (dropWhile (\<lambda>c. c \<noteq> CHR '':'') ?x) = CHR '' '' # to_decimal n"
    by (simp_all add: k_content_length_def)
  have "hd (to_decimal n) \<in> set (to_decimal n)" "last (to_decimal n) \<in> set (to_decimal n)" by simp_all
  then have "is_digit_char (hd (to_decimal n))" "is_digit_char (last (to_decimal n))"
    using to_decimal_digits [of n] by blast+
  then have trim_val: "trim (CHR '' '' # to_decimal n) = to_decimal n"
    using trim_plain [OF to_decimal_nonempty [of n]] digit_not_blank by blast
  have trim_name: "ascii_iequals (trim k_content_length) k_content_length" by code_simp
  have "CHR '':'' \<in> set ?x" "?x \<noteq> []" by simp_all
  then have "header_loop ?x None = header_loop [] (Some (u32_of n))"
    by (subst header_loop.simps) (simp only: cut name val trim_val trim_name from_chars_decimal [OF assms]
        Let_def prod.case option.case if_True if_False not_True_eq_False simp_thms)
  also have "\<dots> = Some (u32_of n)" by (subst header_loop.simps) simp
  finally show ?thesis by (simp only: parse_content_length_def)
qed

lemma decimal_header:
  assumes "n < 2 ^ 32"
  shows "carriage_return \<notin> set (k_content_length @ '': '' @ to_decimal n) \<and>
    length (k_content_length @ '': '' @ to_decimal n) + 4 \<le> k_max_header_bytes"
proof -
  have "length (to_decimal n) \<le> 10" using assms by (intro to_decimal_length) simp_all
  then show ?thesis
    using to_decimal_digits [of n] digit_not_blank by (auto simp: k_content_length_def k_max_header_bytes_def)
qed

lemma read_frame:
  assumes "length body \<le> k_max_body_bytes"
  shows "read_message (frame_message body @ rest) = (\<lparr>rr_status = Ok, rr_body = body\<rparr>, rest)"
proof -
  let ?x = "k_content_length @ '': '' @ to_decimal (length body)"
  have n: "length body < 2 ^ 32" using assms by (simp add: k_max_body_bytes_def)
  note cr = decimal_header [OF n, THEN conjunct1] and len = decimal_header [OF n, THEN conjunct2]
  have frame: "frame_message body @ rest = ?x @ k_header_terminator @ body @ rest"
    by (simp add: frame_message_def k_header_terminator_def)
  have header: "read_header (frame_message body @ rest) [] = (Inr (?x @ k_header_terminator), body @ rest)"
    using read_header_line [OF cr, of "[]" "body @ rest"] len unfolding frame by simp
  have view: "take (length (?x @ k_header_terminator) - length k_header_terminator) (?x @ k_header_terminator) = ?x"
    by simp
  have small: "\<not> u32_of (length body) > u32_of k_max_body_bytes"
    using assms n by (simp add: not_less u32_simps k_max_body_bytes_def word_le_nat_alt)
  have unat: "unat (u32_of (length body)) = length body" using n by (simp add: u32_simps)
  show ?thesis
    unfolding read_message_def header prod.case sum.case Let_def view content_length_header [OF n] option.case
      if_not_P [OF small] unat
    by simp
qed

text \<open>Reading one message off the front of a stream, when it is well framed.\<close>

definition decode_frame :: "string \<Rightarrow> (string \<times> string) option" where
  "decode_frame s =
     (case read_message s of
        (r, rest) \<Rightarrow> if rr_status r = Ok then Some (rr_body r, rest) else None)"

interpretation frames: stream_codec frame_message decode_frame "\<lambda>body. length body \<le> k_max_body_bytes"
proof
  show "decode_frame (frame_message m @ rest) = Some (m, rest)" if "length m \<le> k_max_body_bytes" for m rest
    using read_frame [OF that] by (simp add: decode_frame_def)
  show "frame_message m \<noteq> []" for m by (simp add: frame_message_def k_content_length_def)
qed

text \<open>What a successful read says of the stream.\<close>

lemma read_header_sound:
  "read_header s acc = (Inr h, rest) \<Longrightarrow>
     acc @ s = h @ rest \<and> ends_with h k_header_terminator \<and> length acc < length h"
proof (induction s acc rule: read_header.induct)
  case (2 byte s acc)
  let ?h = "acc @ [byte]"
  show ?case
  proof (cases "length ?h \<ge> length k_header_terminator \<and> ends_with ?h k_header_terminator")
    case True
    then show ?thesis using 2(2) by auto
  next
    case False
    then have "\<not> length ?h > k_max_header_bytes" using 2(2) by (auto split: if_splits)
    moreover from this False have "read_header s ?h = (Inr h, rest)" using 2(2) by auto
    ultimately show ?thesis using 2(1) [OF refl] False by auto
  qed
qed simp

lemma read_header_error: "read_header s acc = (Inl status, rest) \<Longrightarrow> status \<noteq> Ok"
  by (induction s acc rule: read_header.induct) (auto simp: Let_def split: if_splits)

lemma read_header_progress: "length (snd (read_header s acc)) \<le> length s - 1"
  by (induction s acc rule: read_header.induct) (auto simp: Let_def)

lemma read_message_sound:
  assumes "read_message s = (r, rest)" and "rr_status r = Ok"
  shows "\<exists>headers len. s = headers @ k_header_terminator @ rr_body r @ rest \<and>
    parse_content_length headers = Some len \<and> length (rr_body r) = unat len \<and>
    length (rr_body r) \<le> k_max_body_bytes"
proof -
  obtain h r1 where h: "read_header s [] = (Inr h, r1)"
    using assms read_header_error [of s "[]"]
    by (cases "read_header s []"; cases "fst (read_header s [])") (auto simp: read_message_def)
  from read_header_sound [OF h] obtain headers where hd: "h = headers @ k_header_terminator" and s: "s = h @ r1"
    by (auto simp: ends_with_iff)
  then have view: "take (length h - length k_header_terminator) h = headers" by simp
  obtain len where len: "parse_content_length headers = Some len"
    using assms by (auto simp: read_message_def h view Let_def split: option.splits)
  have body: "rr_body r = take (unat len) r1 \<and> rest = drop (unat len) r1 \<and>
      \<not> len > u32_of k_max_body_bytes \<and> (unat len > 0 \<longrightarrow> length (take (unat len) r1) = unat len)"
    using assms unfolding read_message_def h prod.case sum.case Let_def view len option.case
    by (auto split: if_splits)
  then have "unat len \<le> k_max_body_bytes"
    by (simp add: not_less word_le_nat_alt u32_simps k_max_body_bytes_def)
  moreover have "length (rr_body r) = unat len" using body by (cases "unat len = 0") simp_all
  ultimately show ?thesis
    using body s hd len by (intro exI [of _ headers] exI [of _ len]) auto
qed

lemma read_message_progress: "length (snd (read_message s)) \<le> length s - 1"
proof -
  obtain x rest where h: "read_header s [] = (x, rest)" by fastforce
  then have "length rest \<le> length s - 1" using read_header_progress [of s "[]"] by simp
  then show ?thesis
    by (auto simp: read_message_def h Let_def split: sum.split option.split)
qed

section \<open>Percent encoding reads back\<close>

definition decode_byte :: "string \<Rightarrow> (char \<times> string) option" where
  "decode_byte s =
     (case s of
        [] \<Rightarrow> None
      | c # cs \<Rightarrow>
          if c \<noteq> CHR ''%'' then Some (c, cs)
          else if length cs < 2 then None
          else let hi = hex_value (cs ! 0); lo = hex_value (cs ! 1) in
               if hi < 0 \<or> lo < 0 then None
               else Some (char_of (nat (hi * 16 + lo)), drop 2 cs))"

lemma percent_loop_step:
  "s \<noteq> [] \<Longrightarrow> percent_loop s out =
     (case decode_byte s of None \<Rightarrow> None | Some (c, r) \<Rightarrow> percent_loop r (out @ [c]))"
  by (subst percent_loop.simps) (simp add: decode_byte_def Let_def split: list.split)

lemma percent_loop_Nil [simp]: "percent_loop [] out = Some out"
  by (simp add: percent_loop.simps)

lemma decode_byte_shorter: "decode_byte s = Some (c, r) \<Longrightarrow> length r < length s"
  by (auto simp: decode_byte_def Let_def split: list.splits if_splits)

lemma percent_loop_acc: "percent_loop s out = map_option ((@) out) (percent_loop s [])"
proof (induction "length s" arbitrary: s out rule: less_induct)
  case less
  show ?case
  proof (cases "s = []")
    case True
    then show ?thesis by simp
  next
    case False
    show ?thesis
    proof (cases "decode_byte s")
      case None
      then show ?thesis by (simp add: percent_loop_step [OF False])
    next
      case (Some cr)
      obtain c r where cr: "cr = (c, r)" by fastforce
      have r: "length r < length s" using Some cr decode_byte_shorter by simp
      have "percent_loop s out = map_option ((@) (out @ [c])) (percent_loop r [])"
        using less [OF r, of "out @ [c]"] by (simp add: percent_loop_step [OF False] Some cr)
      also have "\<dots> = map_option ((@) out) (map_option ((@) [c]) (percent_loop r []))"
        by (cases "percent_loop r []") simp_all
      also have "map_option ((@) [c]) (percent_loop r []) = percent_loop s []"
        using less [OF r, of "[c]"] by (simp add: percent_loop_step [OF False] Some cr)
      finally show ?thesis .
    qed
  qed
qed

lemma percent_decode_step:
  assumes "s \<noteq> []" and "decode_byte s = Some (c, r)"
  shows "percent_decode s = map_option (Cons c) (percent_decode r)"
  using percent_loop_acc [of r "[c]"] percent_loop_step [OF assms(1), of "[]"] assms(2)
  by (simp add: percent_decode_def comp_def cong: option.map_cong)

lemma of_char_less_256: "(of_char c :: nat) < 256"
  using of_char_mod_256 [of c, where ?'a = nat] by (metis mod_less_divisor zero_less_numeral)

lemma hex_digits: "\<forall>d \<in> set [0..<16]. hex_value (k_hex ! d) = int d"
  by code_simp

lemma hex_value_digit: "d < 16 \<Longrightarrow> hex_value (k_hex ! d) = int d"
  using hex_digits by simp

lemma of_char_nibbles: "(of_char c :: nat) div 16 < 16" "(of_char c :: nat) mod 16 < 16"
proof -
  show "(of_char c :: nat) div 16 < 16"
    using of_char_less_256 [of c] by (intro less_mult_imp_div_less) simp
qed simp

lemma encode_byte_cases:
  obtains (plain) "encode_byte c = [c]" "c \<noteq> CHR ''%''"
    | (escaped) "encode_byte c = [CHR ''%'', k_hex ! (of_char c div 16), k_hex ! (of_char c mod 16)]"
proof (cases "is_unreserved c \<or> c = slash \<or> c = CHR '':''")
  case True
  moreover have "\<not> (is_unreserved (CHR ''%'') \<or> CHR ''%'' = slash \<or> CHR ''%'' = CHR '':'')" by code_simp
  ultimately have "c \<noteq> CHR ''%''" by blast
  moreover have "encode_byte c = [c]" using True by (simp add: encode_byte_def)
  ultimately show ?thesis by (rule plain [rotated])
next
  case False
  then show ?thesis using of_char_nibbles(1) [of c] by (intro escaped) (simp add: encode_byte_def)
qed

lemma decode_encode_byte: "decode_byte (encode_byte c @ rest) = Some (c, rest)"
proof (cases c rule: encode_byte_cases)
  case plain
  then show ?thesis by (simp add: decode_byte_def)
next
  case escaped
  have "nat (int (of_char c div 16) * 16 + int (of_char c mod 16)) = of_char c"
    using div_mult_mod_eq [of "of_char c :: nat" 16] by linarith
  then show ?thesis
    using of_char_nibbles [of c] by (simp add: escaped decode_byte_def hex_value_digit Let_def)
qed

interpretation bytes: stream_codec encode_byte decode_byte "\<lambda>_. True"
proof
  show "decode_byte (encode_byte m @ rest) = Some (m, rest)" for m rest by (rule decode_encode_byte)
  show "encode_byte m \<noteq> []" for m by (cases m rule: encode_byte_cases) simp_all
qed

lemma percent_decode_encode: "percent_decode (concat (map encode_byte s)) = Some s"
proof (rule bytes.read_all)
  show "percent_decode [] = Some []" by (simp add: percent_decode_def)
qed (auto simp: percent_decode_step list_all_iff)

section \<open>Properties\<close>

text \<open>C28: A framed body of at most sixteen megabytes is read back byte for byte from the front of
  any stream, and what follows it is left for the next read.\<close>

theorem frame_round_trip:
  assumes "length body \<le> k_max_body_bytes"
  shows "read_message (frame_message body @ rest) = (\<lparr>rr_status = Ok, rr_body = body\<rparr>, rest)"
  using assms by (rule read_frame)

theorem frame_round_trip_witness:
  "read_message (frame_message ''{}'' @ ''Content'') = (\<lparr>rr_status = Ok, rr_body = ''{}''\<rparr>, ''Content'')"
  by (rule frame_round_trip) (simp add: k_max_body_bytes_def)

text \<open>A stream of frames has one reading: two sequences of bodies of at most sixteen megabytes
  whose frames make the same bytes are the same sequence.\<close>

theorem frames_uniquely_decodable:
  assumes "list_all (\<lambda>b. length b \<le> k_max_body_bytes) bs" and "list_all (\<lambda>b. length b \<le> k_max_body_bytes) bs'"
    and "concat (map frame_message bs) = concat (map frame_message bs')"
  shows "bs = bs'"
  using assms by (rule frames.enc_all_inject)

theorem frames_uniquely_decodable_witness:
  "[''{}'', ''[1]''] = [''{}'', ''[1]'']"
  by (rule frames_uniquely_decodable) (simp_all add: k_max_body_bytes_def)

text \<open>A successful read is exact: the stream was a header block, its terminator, the body and
  the rest that is returned, the header block announces the length of the body, and the body is at
  most sixteen megabytes; and every read of a stream that is not empty makes progress.\<close>

theorem read_message_exact:
  "(rr_status (fst (read_message s)) = Ok \<longrightarrow>
      (\<exists>headers len. s = headers @ k_header_terminator @ rr_body (fst (read_message s)) @ snd (read_message s) \<and>
         parse_content_length headers = Some len \<and> length (rr_body (fst (read_message s))) = unat len \<and>
         length (rr_body (fst (read_message s))) \<le> k_max_body_bytes))
   \<and> length (snd (read_message s)) \<le> length s - 1"
  using read_message_sound [of s "fst (read_message s)" "snd (read_message s)"] read_message_progress by simp

theorem read_message_exact_witness:
  "rr_body (fst (read_message (frame_message ''{}''))) = ''{}'' \<and>
   (\<exists>headers len. frame_message ''{}'' = headers @ k_header_terminator @ ''{}'' @ [] \<and>
      parse_content_length headers = Some len \<and> 2 = unat len)"
proof -
  have r: "read_message (frame_message ''{}'') = (\<lparr>rr_status = Ok, rr_body = ''{}''\<rparr>, [])"
    using read_frame [of "''{}''" "[]"] by (simp add: k_max_body_bytes_def)
  show ?thesis using read_message_exact [of "frame_message ''{}''"] unfolding r by auto
qed

text \<open>A header that announces a body over the limit is refused without its body being read: the
  next read starts at the first byte of the refused body, so a frame inside that body is answered
  as a message of its own.\<close>

theorem oversized_body_read_as_messages:
  assumes "k_max_body_bytes < n" and "n < 2 ^ 32" and "length body \<le> k_max_body_bytes"
  shows "read_message (k_content_length @ '': '' @ to_decimal n @ k_header_terminator @ frame_message body @ rest) =
      (\<lparr>rr_status = HeaderError, rr_body = []\<rparr>, frame_message body @ rest)
    \<and> read_message (frame_message body @ rest) = (\<lparr>rr_status = Ok, rr_body = body\<rparr>, rest)"
proof
  let ?x = "k_content_length @ '': '' @ to_decimal n" and ?r = "frame_message body @ rest"
  have header: "read_header (?x @ k_header_terminator @ ?r) [] = (Inr (?x @ k_header_terminator), ?r)"
    using read_header_line [of ?x "[]" ?r] decimal_header [OF assms(2)] by simp
  have view: "take (length (?x @ k_header_terminator) - length k_header_terminator) (?x @ k_header_terminator) = ?x"
    by simp
  have big: "u32_of n > u32_of k_max_body_bytes"
    using assms(1,2) by (subst u32_of_less_iff) (simp_all add: k_max_body_bytes_def)
  show "read_message (k_content_length @ '': '' @ to_decimal n @ k_header_terminator @ frame_message body @ rest) =
      (\<lparr>rr_status = HeaderError, rr_body = []\<rparr>, frame_message body @ rest)"
    using header unfolding read_message_def
    by (simp only: append_assoc prod.case sum.case Let_def view [unfolded append_assoc]
        content_length_header [OF assms(2)] option.case if_P [OF big])
  show "read_message (frame_message body @ rest) = (\<lparr>rr_status = Ok, rr_body = body\<rparr>, rest)"
    using assms(3) by (rule read_frame)
qed

theorem oversized_body_read_as_messages_witness:
  "\<exists>rest'. read_message (k_content_length @ '': '' @ to_decimal 16777217 @ k_header_terminator @ frame_message ''{}'' @ [])
     = (\<lparr>rr_status = HeaderError, rr_body = []\<rparr>, rest') \<and> rest' = frame_message ''{}'' @ []"
  using oversized_body_read_as_messages [of 16777217 "''{}''" "[]"] by (simp add: k_max_body_bytes_def)

text \<open>C35: The URI of an absolute path decodes to that path, whatever bytes it holds, and different
  absolute paths have different URIs.\<close>

theorem uri_round_trip:
  assumes "path_is_absolute p"
  shows "uri_to_path (path_to_uri p) = Some p \<and>
    (\<forall>q. path_is_absolute q \<longrightarrow> path_to_uri q = path_to_uri p \<longrightarrow> q = p)"
proof -
  have back_again: "uri_to_path (path_to_uri q) = Some q" if "path_is_absolute q" for q
    using that percent_decode_encode [of q]
    by (simp add: uri_to_path_def path_to_uri_def path_is_absolute_def k_file_scheme_def)
  then show ?thesis using assms by (metis option.inject)
qed

theorem uri_round_trip_witness:
  "path_to_uri ''/a b/c%.hlsl'' = ''file:///a%20b/c%25.hlsl'' \<and>
   uri_to_path ''file:///a%20b/c%25.hlsl'' = Some ''/a b/c%.hlsl''"
proof -
  have uri: "path_to_uri ''/a b/c%.hlsl'' = ''file:///a%20b/c%25.hlsl''" by code_simp
  have "path_is_absolute ''/a b/c%.hlsl''" by code_simp
  from uri_round_trip [OF this] show ?thesis unfolding uri by simp
qed

end
