(* ===== verification/Documents.thy ===== *)
theory Documents
  imports Wire
begin

text \<open>
  \<^verbatim>\<open>lsp/src/document/manager.cpp\<close>: the open documents of the language server, keyed by
  URI, and the edits the client sends. The state is a map from URIs to documents; every operation
  of the class is a function on it. The lemmas characterise the position arithmetic, show it
  inverts the line and column the source manager computes, and frame every operation.
\<close>

section \<open>State\<close>

record content_change =
  ch_has_range :: bool
  ch_start_line :: u32
  ch_start_character :: u32
  ch_end_line :: u32
  ch_end_character :: u32
  ch_text :: string

text \<open>Points of the steady clock are integers; the default-constructed one is zero.\<close>

type_synonym time_point = int

record open_document =
  od_uri :: string
  od_path :: path
  od_contents :: string
  od_version :: int
  od_latest_diagnostics :: "diagnostic list"
  od_last_change_time :: time_point
  od_last_lint_time :: time_point

type_synonym documents = "string \<Rightarrow> open_document option"

section \<open>Positions\<close>

text \<open>The loop of \<open>line_start_offset\<close> from offset \<open>i\<close>: the offset found, or the number of
  lines counted at the end.\<close>

fun line_start_loop_lsp :: "string \<Rightarrow> nat \<Rightarrow> u32 \<Rightarrow> u32 \<Rightarrow> nat + u32" where
  "line_start_loop_lsp [] i current target = Inr current"
| "line_start_loop_lsp (c # cs) i current target =
     (if c = newline
      then (if current + 1 = target then Inl (i + 1)
            else line_start_loop_lsp cs (i + 1) (current + 1) target)
      else line_start_loop_lsp cs (i + 1) current target)"

definition line_start_offset :: "string \<Rightarrow> u32 \<Rightarrow> nat option" where
  "line_start_offset contents target_line =
     (if target_line = 0 then Some 0
      else case line_start_loop_lsp contents 0 0 target_line of
             Inl off \<Rightarrow> Some off
           | Inr current_line \<Rightarrow>
               if current_line = target_line then Some (length contents)
               else if current_line + 1 = target_line then Some (length contents)
               else None)"

text \<open>The walk of \<open>position_to_offset\<close>: \<open>n\<close> is the number of characters still to consume.\<close>

fun walk_characters :: "string \<Rightarrow> nat \<Rightarrow> nat \<Rightarrow> nat" where
  "walk_characters contents 0 offset = offset"
| "walk_characters contents (Suc n) offset =
     (if offset < length contents \<and> contents ! offset \<noteq> newline
      then walk_characters contents n (offset + 1)
      else offset)"

definition position_to_offset :: "string \<Rightarrow> u32 \<Rightarrow> u32 \<Rightarrow> nat option" where
  "position_to_offset contents line character =
     (case line_start_offset contents line of
        None \<Rightarrow> None
      | Some base \<Rightarrow>
          if base + unat character > length contents then None
          else Some (walk_characters contents (unat character) base))"

section \<open>Edits\<close>

text \<open>\<open>std::string::replace(lo, n, text)\<close> for \<open>lo\<close> in range.\<close>

definition replace_at :: "string \<Rightarrow> nat \<Rightarrow> nat \<Rightarrow> string \<Rightarrow> string" where
  "replace_at s lo n text = take lo s @ text @ drop (lo + n) s"

text \<open>\<open>apply_one\<close>: the new contents, or nothing when it returns false (and leaves them).\<close>

definition apply_one :: "string \<Rightarrow> content_change \<Rightarrow> string option" where
  "apply_one contents change =
     (if \<not> ch_has_range change then Some (ch_text change)
      else case (position_to_offset contents (ch_start_line change) (ch_start_character change),
                 position_to_offset contents (ch_end_line change) (ch_end_character change)) of
             (Some lo, Some hi) \<Rightarrow>
               if lo > hi then None else Some (replace_at contents lo (hi - lo) (ch_text change))
           | _ \<Rightarrow> None)"

section \<open>The manager's operations\<close>

definition dm_open :: "documents \<Rightarrow> string \<Rightarrow> path \<Rightarrow> string \<Rightarrow> int \<Rightarrow> time_point \<Rightarrow> documents" where
  "dm_open docs uri p contents version now =
     docs(uri \<mapsto> \<lparr>od_uri = uri, od_path = p, od_contents = contents, od_version = version,
                  od_latest_diagnostics = [], od_last_change_time = now, od_last_lint_time = 0\<rparr>)"

text \<open>The loop of \<open>apply_changes\<close>: it edits the stored contents in place, so when a change fails
  the earlier ones stay.\<close>

fun apply_loop :: "string \<Rightarrow> content_change list \<Rightarrow> string \<times> bool" where
  "apply_loop contents [] = (contents, True)"
| "apply_loop contents (ch # chs) =
     (case apply_one contents ch of
        None \<Rightarrow> (contents, False)
      | Some contents' \<Rightarrow> apply_loop contents' chs)"

definition dm_apply_changes ::
  "documents \<Rightarrow> string \<Rightarrow> int \<Rightarrow> content_change list \<Rightarrow> time_point \<Rightarrow> bool \<times> documents" where
  "dm_apply_changes docs uri new_version changes now =
     (case docs uri of
        None \<Rightarrow> (False, docs)
      | Some doc \<Rightarrow>
          let (contents, ok) = apply_loop (od_contents doc) changes;
              doc = doc\<lparr>od_contents := contents\<rparr> in
          if ok then (True, docs(uri \<mapsto> doc\<lparr>od_version := new_version, od_last_change_time := now\<rparr>))
          else (False, docs(uri \<mapsto> doc)))"

definition dm_close :: "documents \<Rightarrow> string \<Rightarrow> documents" where
  "dm_close docs uri = docs(uri := None)"

definition dm_find :: "documents \<Rightarrow> string \<Rightarrow> open_document option" where
  "dm_find docs uri = docs uri"

definition dm_contains :: "documents \<Rightarrow> string \<Rightarrow> bool" where
  "dm_contains docs uri = (docs uri \<noteq> None)"

definition should_debounce_lint :: "documents \<Rightarrow> string \<Rightarrow> int \<Rightarrow> time_point \<Rightarrow> bool" where
  "should_debounce_lint docs uri debounce now =
     (case dm_find docs uri of
        None \<Rightarrow> False
      | Some doc \<Rightarrow>
          if od_last_lint_time doc = 0 then False
          else now - od_last_change_time doc < debounce)"

definition mark_linted :: "documents \<Rightarrow> string \<Rightarrow> time_point \<Rightarrow> documents" where
  "mark_linted docs uri now =
     (case dm_find docs uri of
        None \<Rightarrow> docs
      | Some doc \<Rightarrow> docs(uri \<mapsto> doc\<lparr>od_last_lint_time := now\<rparr>))"

section \<open>Positions and lines\<close>

lemma line_begin_Cons:
  "j \<le> length cs \<Longrightarrow> line_begin (c # cs) (Suc j) =
     (if newline \<in> set (take j cs) then Suc (line_begin cs j) else if c = newline then 1 else 0)"
proof (induction j)
  case (Suc j)
  have "line_begin (c # cs) (Suc (Suc j)) = (if cs ! j = newline then Suc (Suc j) else line_begin (c # cs) (Suc j))"
    by (simp only: line_begin.simps nth_Cons_Suc)
  moreover have "take (Suc j) cs = take j cs @ [cs ! j]"
    using Suc.prems by (simp add: take_Suc_conv_app_nth)
  moreover have "line_begin cs (Suc j) = (if cs ! j = newline then Suc j else line_begin cs j)"
    by simp
  ultimately show ?case
    using Suc.IH Suc.prems by (cases "c = newline") (simp_all del: line_begin.simps)
qed simp

lemma u32_of_inj: "a < 2 ^ 32 \<Longrightarrow> b < 2 ^ 32 \<Longrightarrow> (u32_of a = u32_of b) = (a = b)"
  by (metis unat_u32_of)

lemma u32_of_Suc: "u32_of n + 1 = u32_of (Suc n)"
  by simp

lemma line_start_loop_found:
  assumes "current + length cs < 2 ^ 32" and "j \<le> length cs" and "newline \<in> set (take j cs)"
  shows "line_start_loop_lsp cs i (u32_of current) (u32_of (current + count_list (take j cs) newline)) =
    Inl (i + line_begin cs j)"
  using assms
proof (induction cs arbitrary: i current j)
  case (Cons c cs)
  obtain j' where j: "j = Suc j'" "j' \<le> length cs" using Cons.prems by (cases j) auto
  let ?n = "count_list (take j' cs) newline"
  have n: "?n \<le> length cs" using count_le_self [of j' cs newline] j(2) by simp
  have no: "newline \<notin> set (take j' cs) \<longleftrightarrow> ?n = 0" by (simp add: count_list_0_iff)
  show ?case
  proof (cases "c = newline")
    case True
    have eq: "u32_of current + 1 = (u32_of (current + count_list (take j (c # cs)) newline)) \<longleftrightarrow> ?n = 0"
      using u32_of_inj [of "Suc current" "current + Suc ?n"] n Cons.prems(1)
      by (simp add: j True add.commute add.left_commute)
    have tgt: "current + count_list (take j (c # cs)) newline = Suc current + ?n" by (simp add: j True)
    show ?thesis
    proof (cases "?n = 0")
      case True
      then show ?thesis
        using eq no \<open>c = newline\<close> by (simp add: line_begin_Cons [OF j(2)] j(1) del: line_begin.simps)
    next
      case False
      have "line_start_loop_lsp (c # cs) i (u32_of current) (u32_of (current + count_list (take j (c # cs)) newline))
          = line_start_loop_lsp cs (i + 1) (u32_of (Suc current)) (u32_of (Suc current + ?n))"
        using eq False \<open>c = newline\<close> tgt by (simp add: ac_simps)
      also have "\<dots> = Inl (i + 1 + line_begin cs j')"
        using Cons.IH [of "Suc current" j' "i + 1"] Cons.prems(1) j(2) False no by simp
      finally show ?thesis using False no by (simp add: line_begin_Cons [OF j(2)] j(1) del: line_begin.simps)
    qed
  next
    case False
    then show ?thesis
      using Cons.IH [of current j' "i + 1"] Cons.prems j(2) by (simp add: line_begin_Cons [OF j(2)] j(1) del: line_begin.simps)
  qed
qed simp

lemma line_start_loop_missed:
  "current + length cs < 2 ^ 32 \<Longrightarrow> current + count_list cs newline < target \<Longrightarrow> target < 2 ^ 32 \<Longrightarrow>
   line_start_loop_lsp cs i (u32_of current) (u32_of target) = Inr (u32_of (current + count_list cs newline))"
proof (induction cs arbitrary: i current)
  case (Cons c cs)
  have "u32_of current + 1 \<noteq> (u32_of target :: u32)" if "c = newline"
    using u32_of_inj [of "Suc current" target] Cons.prems that by (simp add: add.commute)
  then show ?case
    using Cons.IH [of "Suc current" "i + 1"] Cons.IH [of current "i + 1"] Cons.prems
    by (auto simp: ac_simps)
qed simp

lemma line_start_offset_begin:
  assumes "fits32 c" and "off \<le> length c"
  shows "line_start_offset c (u32_of (count_list (take off c) newline)) = Some (line_begin c off)"
proof (cases "newline \<in> set (take off c)")
  case True
  then have pos: "count_list (take off c) newline \<noteq> 0" by (simp add: count_list_0_iff)
  have small: "count_list (take off c) newline < 2 ^ 32"
    using count_le_self [of off c newline] assms by simp
  show ?thesis
    using line_start_loop_found [of 0 c off 0] True assms pos u32_of_inj [OF small, of 0]
    by (simp add: line_start_offset_def)
next
  case False
  have "line_begin c off = 0" if "newline \<notin> set (take off c)" "off \<le> length c" for off
    using that by (induction off) (auto simp: take_Suc_conv_app_nth)
  then show ?thesis
    using False assms(2) by (simp add: line_start_offset_def count_list_0_iff [THEN iffD2])
qed

lemma count_take_surj: "L \<le> count_list c x \<Longrightarrow> \<exists>off \<le> length c. count_list (take off c) x = L"
proof (induction c rule: rev_induct)
  case (snoc y c)
  show ?case
  proof (cases "L \<le> count_list c x")
    case True
    then obtain off where "off \<le> length c" "count_list (take off c) x = L" using snoc.IH by blast
    then show ?thesis by (intro exI [of _ off]) simp
  next
    case False
    then have "count_list (c @ [y]) x = L" using snoc.prems by (auto split: if_splits)
    then show ?thesis by (intro exI [of _ "length (c @ [y])"]) simp
  qed
qed simp

lemma length_build_line_starts: "length (build_line_starts c) = Suc (count_list c newline)"
  by (simp add: build_line_starts_def length_line_starts)

lemma line_start_offset_eq:
  assumes "fits32 c"
  shows "line_start_offset c w =
    (if unat w < length (build_line_starts c) then Some (unat (build_line_starts c ! unat w))
     else if unat w = length (build_line_starts c) then Some (length c) else None)"
proof (cases "unat w < length (build_line_starts c)")
  case True
  then obtain off where off: "off \<le> length c" "count_list (take off c) newline = unat w"
    using count_take_surj [of "unat w" c newline] by (auto simp: length_build_line_starts)
  have "unat (u32_of (line_begin c off)) = line_begin c off"
    using line_begin_le [of c off] off(1) assms by (intro unat_u32_of) simp
  then show ?thesis
    using True line_start_offset_begin [OF assms off(1)] line_start_nth [OF off(1)]
    by (simp add: off(2))
next
  case False
  let ?n = "count_list c newline"
  have n: "?n \<le> length c" by (rule count_le_length)
  have w: "u32_of (unat w) = w" by simp
  have gt: "?n < unat w" using False by (simp add: length_build_line_starts)
  then have "w \<noteq> 0" by auto
  moreover have "line_start_loop_lsp c 0 0 w = Inr (u32_of ?n)"
    using line_start_loop_missed [of 0 c "unat w" 0] gt assms unat_u32_lt [of w] by simp
  moreover have "u32_of ?n \<noteq> w"
    using gt n assms unat_u32_of [of ?n] by auto
  moreover have "(u32_of ?n + 1 = w) = (unat w = Suc ?n)"
    using u32_of_inj [of "Suc ?n" "unat w"] n assms unat_u32_lt [of w] by (simp add: u32_of_Suc) auto
  ultimately show ?thesis
    using False by (simp add: line_start_offset_def length_build_line_starts)
qed

lemma walk_characters_bounds:
  "base \<le> walk_characters c n base \<and> walk_characters c n base \<le> base + n \<and>
   (base \<le> length c \<longrightarrow> walk_characters c n base \<le> length c)"
  by (induction c n base rule: walk_characters.induct) auto

lemma walk_characters_line:
  "base \<le> k \<Longrightarrow> k < walk_characters c n base \<Longrightarrow> k < length c \<and> c ! k \<noteq> newline"
  by (induction c n base rule: walk_characters.induct) (auto split: if_splits simp: le_Suc_eq Suc_le_eq dest: le_neq_implies_less)

lemma walk_characters_full:
  "base + n \<le> length c \<Longrightarrow> \<forall>k. base \<le> k \<and> k < base + n \<longrightarrow> c ! k \<noteq> newline \<Longrightarrow>
   walk_characters c n base = base + n"
  by (induction c n base rule: walk_characters.induct) auto

lemma position_of_offset:
  assumes "fits32 c" and "off \<le> length c"
  shows "position_to_offset c (u32_of (count_list (take off c) newline)) (u32_of (off - line_begin c off)) = Some off"
proof -
  have ch: "unat (u32_of (off - line_begin c off)) = off - line_begin c off"
    using assms by (intro unat_u32_of) simp
  have "walk_characters c (off - line_begin c off) (line_begin c off) = off"
    using walk_characters_full [of "line_begin c off" "off - line_begin c off" c]
      line_begin_no_newline [of c off] line_begin_le [of c off] assms(2) by simp
  then show ?thesis
    using line_begin_le [of c off] assms(2)
    by (simp add: position_to_offset_def line_start_offset_begin [OF assms] ch del: of_nat_diff)
qed

lemma position_to_offset_bound: "position_to_offset c l ch = Some off \<Longrightarrow> off \<le> length c"
proof -
  assume "position_to_offset c l ch = Some off"
  then obtain base where "off = walk_characters c (unat ch) base" "base + unat ch \<le> length c"
    by (auto simp: position_to_offset_def split: option.splits if_splits)
  then show ?thesis using walk_characters_bounds [of base c "unat ch"] by simp
qed

section \<open>Documents\<close>

definition documents_ok :: "documents \<Rightarrow> bool" where
  "documents_ok docs = (\<forall>u d. docs u = Some d \<longrightarrow> od_uri d = u)"

lemma documents_ok_empty: "documents_ok Map.empty"
  by (simp add: documents_ok_def)

lemma documents_ok_open: "documents_ok docs \<Longrightarrow> documents_ok (dm_open docs uri p c v now)"
  by (simp add: documents_ok_def dm_open_def)

lemma documents_ok_close: "documents_ok docs \<Longrightarrow> documents_ok (dm_close docs uri)"
  by (simp add: documents_ok_def dm_close_def)

lemma documents_ok_linted: "documents_ok docs \<Longrightarrow> documents_ok (mark_linted docs uri now)"
  by (auto simp: documents_ok_def mark_linted_def dm_find_def split: option.split)

lemma documents_ok_apply: "documents_ok docs \<Longrightarrow> documents_ok (snd (dm_apply_changes docs uri v chs now))"
  by (auto simp: documents_ok_def dm_apply_changes_def Let_def split: option.split prod.split)

lemma apply_loop_snoc:
  "apply_loop c (chs @ [ch]) =
     (case apply_loop c chs of
        (c', False) \<Rightarrow> (c', False)
      | (c', True) \<Rightarrow> (case apply_one c' ch of None \<Rightarrow> (c', False) | Some c'' \<Rightarrow> (c'', True)))"
  by (induction chs arbitrary: c) (auto split: option.split)

lemma apply_loop_failed:
  "apply_loop c chs = (c', False) \<Longrightarrow>
     \<exists>pre ch post. chs = pre @ ch # post \<and> apply_loop c pre = (c', True) \<and> apply_one c' ch = None"
proof (induction chs arbitrary: c)
  case (Cons ch chs)
  show ?case
  proof (cases "apply_one c ch")
    case None
    then show ?thesis using Cons.prems by (intro exI [of _ "[]"]) simp
  next
    case (Some c1)
    then have "apply_loop c1 chs = (c', False)" using Cons.prems by simp
    from Cons.IH [OF this] obtain pre ch' post where "chs = pre @ ch' # post"
      "apply_loop c1 pre = (c', True)" "apply_one c' ch' = None" by blast
    then show ?thesis using Some by (intro exI [of _ "ch # pre"]) auto
  qed
qed simp

text \<open>The states the manager goes through: the client and the handlers call its operations in any
  order, while the steady clock does not go back.\<close>

inductive manager_run :: "documents \<Rightarrow> time_point \<Rightarrow> bool" where
  start: "0 < t \<Longrightarrow> manager_run Map.empty t"
| tick: "manager_run docs t \<Longrightarrow> t \<le> t' \<Longrightarrow> manager_run docs t'"
| opened: "manager_run docs t \<Longrightarrow> manager_run (dm_open docs uri p contents v t) t"
| changed: "manager_run docs t \<Longrightarrow> manager_run (snd (dm_apply_changes docs uri v chs t)) t"
| linted: "manager_run docs t \<Longrightarrow> manager_run (mark_linted docs uri t) t"
| closed: "manager_run docs t \<Longrightarrow> manager_run (dm_close docs uri) t"

definition times_ok :: "documents \<Rightarrow> time_point \<Rightarrow> bool" where
  "times_ok docs t = (0 < t \<and> (\<forall>u d. docs u = Some d \<longrightarrow>
     od_last_change_time d \<le> t \<and> 0 < od_last_change_time d \<and> 0 \<le> od_last_lint_time d \<and> od_last_lint_time d \<le> t))"

lemma times_ok_step:
  assumes "times_ok docs t"
  shows "t \<le> t' \<Longrightarrow> times_ok docs t'" and "times_ok (dm_open docs uri p c v t) t"
    and "times_ok (snd (dm_apply_changes docs uri v chs t)) t" and "times_ok (mark_linted docs uri t) t"
    and "times_ok (dm_close docs uri) t"
  using assms
  by (force simp: times_ok_def dm_open_def dm_apply_changes_def mark_linted_def dm_close_def dm_find_def Let_def
      split: option.split prod.split)+

section \<open>Properties\<close>

text \<open>The scan of \<open>line_start_offset\<close> for a line finds what the line table of the source
  manager stores for it; one line past the table it answers the end of the buffer, and beyond that
  nothing.\<close>

theorem line_start_offset_table:
  assumes "fits32 c"
  shows "line_start_offset c w =
    (if unat w < length (build_line_starts c) then Some (unat (build_line_starts c ! unat w))
     else if unat w = length (build_line_starts c) then Some (length c) else None)"
  using assms by (rule line_start_offset_eq)

theorem line_start_offset_table_witness:
  "line_start_offset (''ab'' @ [newline] @ ''c'') 1 = Some 3 \<and>
   line_start_offset (''ab'' @ [newline] @ ''c'') 2 = Some 4 \<and> line_start_offset (''ab'' @ [newline] @ ''c'') 3 = None"
proof -
  have "fits32 (''ab'' @ [newline] @ ''c'')" by simp
  note table = line_start_offset_table [OF this]
  show ?thesis
    unfolding table by (simp add: build_line_starts_def)
qed

text \<open>An edit sent with the zero-based forms of the line and column that the source manager
  computes for two offsets replaces exactly the bytes between these offsets: the two components
  agree on every position of the buffer, the end of the buffer and positions at line breaks
  included.\<close>

theorem edit_at_resolved_positions:
  fixes i :: source_id and p :: string
  assumes "fits32 c" and "lo \<le> hi" and "hi \<le> length c"
  defines "lc \<equiv> \<lambda>off. line_col (new_source_file i p c) (u32_of off)"
  shows "apply_one c \<lparr>ch_has_range = True, ch_start_line = lc_line (lc lo) - 1,
      ch_start_character = lc_column (lc lo) - 1, ch_end_line = lc_line (lc hi) - 1,
      ch_end_character = lc_column (lc hi) - 1, ch_text = new\<rparr>
    = Some (take lo c @ new @ drop hi c)"
proof -
  have pos: "lc_line (lc off) - 1 = u32_of (count_list (take off c) newline)"
    "lc_column (lc off) - 1 = u32_of (off - line_begin c off)" if "off \<le> length c" for off
  proof -
    have "unat (u32_of off) = off" using that assms(1) by (intro unat_u32_of) simp
    then show "lc_line (lc off) - 1 = u32_of (count_list (take off c) newline)"
      "lc_column (lc off) - 1 = u32_of (off - line_begin c off)"
      using line_col_eq [OF assms(1), of i p "u32_of off"] that by (simp_all add: lc_def del: of_nat_diff)
  qed
  show ?thesis
    using position_of_offset [OF assms(1), of lo] position_of_offset [OF assms(1), of hi] assms(2,3) pos [of lo] pos [of hi]
    by (simp add: apply_one_def replace_at_def)
qed

theorem edit_at_resolved_positions_witness:
  "\<exists>l1 c1 l2 c2. apply_one (''ab'' @ [newline] @ ''cd'') \<lparr>ch_has_range = True, ch_start_line = l1,
      ch_start_character = c1, ch_end_line = l2, ch_end_character = c2, ch_text = ''x''\<rparr> = Some ''axd''"
proof -
  have "fits32 (''ab'' @ [newline] @ ''cd'')" "(1::nat) \<le> 4" "4 \<le> length (''ab'' @ [newline] @ ''cd'')" by simp_all
  from edit_at_resolved_positions [OF this, where new = "''x''"]
  have "apply_one (''ab'' @ [newline] @ ''cd'') \<lparr>ch_has_range = True,
      ch_start_line = lc_line (line_col (new_source_file \<lparr>sid_value = 1\<rparr> [] (''ab'' @ [newline] @ ''cd'')) (u32_of 1)) - 1,
      ch_start_character = lc_column (line_col (new_source_file \<lparr>sid_value = 1\<rparr> [] (''ab'' @ [newline] @ ''cd'')) (u32_of 1)) - 1,
      ch_end_line = lc_line (line_col (new_source_file \<lparr>sid_value = 1\<rparr> [] (''ab'' @ [newline] @ ''cd'')) (u32_of 4)) - 1,
      ch_end_character = lc_column (line_col (new_source_file \<lparr>sid_value = 1\<rparr> [] (''ab'' @ [newline] @ ''cd'')) (u32_of 4)) - 1,
      ch_text = ''x''\<rparr> = Some (take 1 (''ab'' @ [newline] @ ''cd'') @ ''x'' @ drop 4 (''ab'' @ [newline] @ ''cd''))"
    by blast
  moreover have "take 1 (''ab'' @ [newline] @ ''cd'') @ ''x'' @ drop 4 (''ab'' @ [newline] @ ''cd'') = ''axd''" by simp
  ultimately show ?thesis by metis
qed

text \<open>In every state the manager can reach, each document is stored under its own URI, and its
  change and lint times are times that have passed; so a debounced document is one that was linted
  and changed less than the debounce interval ago.\<close>

theorem manager_invariant:
  assumes "manager_run docs now"
  shows "(\<forall>uri d. docs uri = Some d \<longrightarrow> od_uri d = uri \<and> 0 < od_last_change_time d \<and>
            od_last_change_time d \<le> now \<and> od_last_lint_time d \<le> now) \<and>
    (should_debounce_lint docs uri debounce now \<longleftrightarrow>
       (\<exists>d. docs uri = Some d \<and> 0 < od_last_lint_time d \<and> now < od_last_change_time d + debounce))"
proof -
  have "documents_ok docs \<and> times_ok docs now"
    using assms
  proof (induction rule: manager_run.induct)
    case (start t)
    then show ?case by (simp add: documents_ok_empty times_ok_def)
  qed (auto intro: times_ok_step documents_ok_open documents_ok_close documents_ok_apply documents_ok_linted)
  then have inv: "docs u = Some d \<Longrightarrow> od_uri d = u \<and> 0 < od_last_change_time d \<and> od_last_change_time d \<le> now \<and>
      0 \<le> od_last_lint_time d \<and> od_last_lint_time d \<le> now" for u d
    by (auto simp: documents_ok_def times_ok_def)
  have "should_debounce_lint docs uri debounce now \<longleftrightarrow>
       (\<exists>d. docs uri = Some d \<and> 0 < od_last_lint_time d \<and> now < od_last_change_time d + debounce)"
    using inv [of uri] by (cases "docs uri") (auto simp: should_debounce_lint_def dm_find_def)
  with inv show ?thesis by blast
qed

theorem manager_invariant_witness:
  "manager_run (dm_open Map.empty ''u'' ''/u'' ''x'' 1 5) 5 \<and>
   \<not> should_debounce_lint (dm_open Map.empty ''u'' ''/u'' ''x'' 1 5) ''u'' 150 5"
proof
  show run: "manager_run (dm_open Map.empty ''u'' ''/u'' ''x'' 1 5) 5"
    by (rule manager_run.opened [OF manager_run.start]) simp
  show "\<not> should_debounce_lint (dm_open Map.empty ''u'' ''/u'' ''x'' 1 5) ''u'' 150 5"
    using manager_invariant [OF run, of "''u''" 150] by (simp add: dm_open_def)
qed

text \<open>A rejected batch of changes is not undone: when \<open>apply_changes\<close> refuses a batch for a
  known document, the changes before the refused one stay in the buffer while the version and the
  times do not move, and no other document changes.\<close>

theorem rejected_changes_stay:
  assumes "docs uri = Some d" and "dm_apply_changes docs uri v chs now = (False, docs')"
  shows "\<exists>pre ch post c. chs = pre @ ch # post \<and> apply_loop (od_contents d) pre = (c, True) \<and>
    apply_one c ch = None \<and> docs' = docs(uri \<mapsto> d\<lparr>od_contents := c\<rparr>)"
proof -
  obtain c ok where loop: "apply_loop (od_contents d) chs = (c, ok)" by fastforce
  with assms have "\<not> ok" and docs': "docs' = docs(uri \<mapsto> d\<lparr>od_contents := c\<rparr>)"
    by (auto simp: dm_apply_changes_def Let_def split: if_splits)
  then have "apply_loop (od_contents d) chs = (c, False)" using loop by simp
  from apply_loop_failed [OF this] docs' show ?thesis by blast
qed

definition two_changes :: "content_change list" where
  "two_changes = [\<lparr>ch_has_range = False, ch_start_line = 0, ch_start_character = 0, ch_end_line = 0,
       ch_end_character = 0, ch_text = ''new''\<rparr>,
     \<lparr>ch_has_range = True, ch_start_line = 9, ch_start_character = 0, ch_end_line = 9,
       ch_end_character = 0, ch_text = ''!''\<rparr>]"

theorem rejected_changes_stay_witness:
  "fst (dm_apply_changes (dm_open Map.empty ''u'' ''/u'' ''old'' 1 5) ''u'' 2 two_changes 6) = False \<and>
   map_option od_contents (snd (dm_apply_changes (dm_open Map.empty ''u'' ''/u'' ''old'' 1 5) ''u'' 2 two_changes 6) ''u'')
     = Some ''new''"
proof -
  let ?docs = "dm_open Map.empty ''u'' ''/u'' ''old'' 1 5"
  have known: "?docs ''u'' = Some \<lparr>od_uri = ''u'', od_path = ''/u'', od_contents = ''old'', od_version = 1,
      od_latest_diagnostics = [], od_last_change_time = 5, od_last_lint_time = 0\<rparr>"
    by (simp add: dm_open_def)
  have refused: "dm_apply_changes ?docs ''u'' 2 two_changes 6 = (False, snd (dm_apply_changes ?docs ''u'' 2 two_changes 6))"
    by (simp add: dm_open_def dm_apply_changes_def two_changes_def apply_one_def position_to_offset_def
        line_start_offset_def)
  from rejected_changes_stay [OF known refused] show ?thesis
    by (simp add: dm_open_def dm_apply_changes_def two_changes_def apply_one_def position_to_offset_def
        line_start_offset_def)
qed

end
