(* ===== verification/Ast.thy ===== *)
theory Ast
  imports Config
begin

text \<open>
  The syntax tree as the linter sees it. Parsing is tree-sitter's; the tree it returns is data:
  \<open>ts_node\<close> holds what the program asks of a node (its kind, whether it is named, its byte range,
  its children with their field names). \<^verbatim>\<open>core/src/parser.cpp\<close> chooses the grammar; the
  cursor of \<^verbatim>\<open>core/src/lint.cpp\<close> (\<open>walk\<close>) moves over the tree without recursion, and
  \<^verbatim>\<open>core/src/rule_context.cpp\<close> slices the source by a node. The lemmas show that the cursor
  visits every node once, in document order, and that a slice never leaves the source.
\<close>

section \<open>Nodes\<close>

datatype ts_node = Ts_Node
  (ts_kind: string) (ts_named: bool) (ts_start: u32) (ts_end: u32)
  (ts_children: "(string option \<times> ts_node) list")

abbreviation child_nodes :: "ts_node \<Rightarrow> ts_node list" where
  "child_nodes n \<equiv> map snd (ts_children n)"

text \<open>\<open>ts_node_child_by_field_name\<close>: the first child with the field.\<close>

definition child_by_field :: "ts_node \<Rightarrow> string \<Rightarrow> ts_node option" where
  "child_by_field n f = map_option snd (find (\<lambda>(g, c). g = Some f) (ts_children n))"

definition named_children :: "ts_node \<Rightarrow> ts_node list" where
  "named_children n = filter ts_named (child_nodes n)"

text \<open>\<open>AstTree::text\<close> and \<open>byte_range\<close>; a null node is \<open>None\<close>.\<close>

definition ast_text :: "string \<Rightarrow> ts_node option \<Rightarrow> string" where
  "ast_text source_bytes node =
     (case node of
        None \<Rightarrow> []
      | Some n \<Rightarrow>
          let lo = ts_start n; hi = ts_end n in
          if unat hi > length source_bytes \<or> hi < lo then []
          else substr source_bytes (unat lo) (unat (hi - lo)))"

definition byte_range :: "ts_node option \<Rightarrow> byte_span" where
  "byte_range node =
     (case node of
        None \<Rightarrow> \<lparr>bs_lo = 0, bs_hi = 0\<rparr>
      | Some n \<Rightarrow> \<lparr>bs_lo = ts_start n, bs_hi = ts_end n\<rparr>)"

section \<open>Parsing\<close>

datatype grammar = Tree_Sitter_Hlsl | Tree_Sitter_Slang

fun select_language :: "source_language \<Rightarrow> grammar" where
  "select_language Slang = Tree_Sitter_Slang"
| "select_language Hlsl = Tree_Sitter_Hlsl"
| "select_language Auto = Tree_Sitter_Hlsl"

record parsed_source =
  ps_source :: source_id
  ps_bytes :: string
  ps_tree :: ts_node
  ps_language :: grammar

text \<open>The parameter is tree-sitter: the root of the tree it builds, if any.\<close>

definition parse :: "(grammar \<Rightarrow> string \<Rightarrow> ts_node option) \<Rightarrow> source_manager \<Rightarrow> source_id \<Rightarrow> source_language \<Rightarrow>
    parsed_source option" where
  "parse ts_parse sources source language =
     (case sm_get sources source of
        None \<Rightarrow> None
      | Some file \<Rightarrow>
          let resolved = (if language = Auto then detect_language (sf_path file) else language);
              grammar = select_language resolved;
              bytes = sf_contents file
          in case ts_parse grammar bytes of
               None \<Rightarrow> None
             | Some tree \<Rightarrow> Some \<lparr>ps_source = source, ps_bytes = bytes, ps_tree = tree, ps_language = grammar\<rparr>)"

section \<open>The cursor\<close>

text \<open>A tree-sitter cursor: the current node, the siblings to its right, and for each ancestor, from
  the parent up, that ancestor and the siblings to its right.\<close>

datatype cursor = Cursor (cur_node: ts_node) (cur_right: "ts_node list")
  (cur_parents: "(ts_node \<times> ts_node list) list")

definition cursor_new :: "ts_node \<Rightarrow> cursor" where
  "cursor_new n = Cursor n [] []"

fun goto_first_child :: "cursor \<Rightarrow> cursor option" where
  "goto_first_child (Cursor n right parents) =
     (case child_nodes n of [] \<Rightarrow> None | c # cs \<Rightarrow> Some (Cursor c cs ((n, right) # parents)))"

fun goto_next_sibling :: "cursor \<Rightarrow> cursor option" where
  "goto_next_sibling (Cursor n right parents) =
     (case right of [] \<Rightarrow> None | r # rs \<Rightarrow> Some (Cursor r rs parents))"

fun goto_parent :: "cursor \<Rightarrow> cursor option" where
  "goto_parent (Cursor n right parents) =
     (case parents of [] \<Rightarrow> None | (p, rs) # ps \<Rightarrow> Some (Cursor p rs ps))"

lemma goto_parent_shorter: "goto_parent c = Some c' \<Longrightarrow> length (cur_parents c') < length (cur_parents c)"
  by (cases c) (auto split: list.splits)

text \<open>The inner loop of \<open>walk\<close>: sideways, or up until there is a sibling; nothing when it climbs past
  the root.\<close>

function climb :: "cursor \<Rightarrow> cursor option" where
  "climb c =
     (case goto_next_sibling c of
        Some c' \<Rightarrow> Some c'
      | None \<Rightarrow> (case goto_parent c of None \<Rightarrow> None | Some c' \<Rightarrow> climb c'))"
  by pat_completeness auto
termination
  by (relation "measure (\<lambda>c. length (cur_parents c))") (auto dest: goto_parent_shorter)

declare climb.simps [simp del]

text \<open>The nodes a cursor has still to visit: its subtree, then the siblings to the right at every
  level, bottom up.\<close>

fun preorder :: "ts_node \<Rightarrow> ts_node list" where
  "preorder (Ts_Node k nm lo hi cs) = Ts_Node k nm lo hi cs # concat (map (\<lambda>c. preorder (snd c)) cs)"

lemma preorder_children: "preorder n = n # concat (map preorder (child_nodes n))"
  by (cases n) (simp add: comp_def)

fun pending :: "(ts_node \<times> ts_node list) list \<Rightarrow> ts_node list" where
  "pending [] = []"
| "pending ((p, rs) # ps) = concat (map preorder rs) @ pending ps"

fun cursor_nodes :: "cursor \<Rightarrow> ts_node list" where
  "cursor_nodes (Cursor n right parents) = preorder n @ concat (map preorder right) @ pending parents"

lemma climb_nodes:
  "(case climb c of None \<Rightarrow> [] | Some c' \<Rightarrow> cursor_nodes c') = concat (map preorder (cur_right c)) @ pending (cur_parents c)"
proof (induction c rule: climb.induct)
  case (1 c)
  obtain n right parents where c: "c = Cursor n right parents" by (cases c)
  show ?case
  proof (cases right)
    case (Cons r rs)
    then show ?thesis by (subst climb.simps) (simp add: c)
  next
    case Nil
    show ?thesis
    proof (cases parents)
      case Nil
      then show ?thesis using \<open>right = []\<close> by (subst climb.simps) (simp add: c)
    next
      case (Cons pr ps)
      obtain p rs where pr: "pr = (p, rs)" by fastforce
      have "climb c = climb (Cursor p rs ps)"
        using \<open>right = []\<close> Cons pr by (subst climb.simps) (simp add: c)
      moreover have "goto_next_sibling c = None" "goto_parent c = Some (Cursor p rs ps)"
        using \<open>right = []\<close> Cons pr by (simp_all add: c)
      ultimately show ?thesis using 1 \<open>right = []\<close> Cons pr by (simp add: c)
    qed
  qed
qed

text \<open>One step of the outer loop after the node is processed: down, else sideways or up.\<close>

definition advance :: "cursor \<Rightarrow> cursor option" where
  "advance c = (case goto_first_child c of Some c' \<Rightarrow> Some c' | None \<Rightarrow> climb c)"

lemma advance_nodes:
  "cursor_nodes c = cur_node c # (case advance c of None \<Rightarrow> [] | Some c' \<Rightarrow> cursor_nodes c')"
proof -
  obtain n right parents where c: "c = Cursor n right parents" by (cases c)
  show ?thesis
  proof (cases "child_nodes n")
    case Nil
    then show ?thesis
      using climb_nodes [of c] preorder_children [of n]
      by (simp add: advance_def c)
  next
    case (Cons d ds)
    then show ?thesis
      using preorder_children [of n] by (simp add: advance_def c)
  qed
qed

lemma advance_smaller: "advance c = Some c' \<Longrightarrow> length (cursor_nodes c') < length (cursor_nodes c)"
  using advance_nodes [of c] by simp

section \<open>The walk\<close>

text \<open>\<open>walk\<close>: \<open>visit\<close> is what the loop body does with a named node and the state it threads
  through.\<close>

function walk :: "(ts_node \<Rightarrow> 's \<Rightarrow> 's) \<Rightarrow> cursor \<Rightarrow> 's \<Rightarrow> 's" where
  "walk visit c s =
     (let s' = (if ts_named (cur_node c) then visit (cur_node c) s else s) in
      case advance c of None \<Rightarrow> s' | Some c' \<Rightarrow> walk visit c' s')"
  by pat_completeness auto
termination
  by (relation "measure (\<lambda>(visit, c, s). length (cursor_nodes c))") (auto dest: advance_smaller)

declare walk.simps [simp del]

lemma walk_fold: "walk visit c s = fold visit (filter ts_named (cursor_nodes c)) s"
proof (induction visit c s rule: walk.induct)
  case (1 visit c s)
  let ?s = "if ts_named (cur_node c) then visit (cur_node c) s else s"
  show ?case
  proof (cases "advance c")
    case None
    then show ?thesis using advance_nodes [of c] by (subst walk.simps) simp
  next
    case (Some c')
    then show ?thesis using 1 [OF refl Some] advance_nodes [of c] by (subst walk.simps) simp
  qed
qed

lemma ast_text_length: "length (ast_text bytes node) \<le> length bytes"
  by (auto simp: ast_text_def Let_def length_substr split: option.split)

section \<open>Properties\<close>

text \<open>The walk with the tree-sitter cursor (down to the first child, else to the next sibling of
  the node or of its closest ancestor that has one) ends, and processes every named node of the tree
  exactly once, in document order: parents before children, siblings from left to right.\<close>

theorem walk_visits_preorder:
  "walk visit (cursor_new tree) s = fold visit (filter ts_named (preorder tree)) s"
  by (simp add: walk_fold cursor_new_def)

end
