(* ===== verification/Lint.thy ===== *)
theory Lint
  imports Ast Suppress
begin

text \<open>
  \<^verbatim>\<open>core/src/lint.cpp\<close> with \<^verbatim>\<open>rule.hpp\<close>, \<^verbatim>\<open>lint.hpp\<close> and the
  \<open>RuleContext\<close> of \<^verbatim>\<open>core/src/rule_context.cpp\<close>: the orchestrator. One lint run parses the
  source, scans its suppressions, dispatches the rules stage by stage (syntax tree, reflection,
  control flow, IR), filters what they emit through the suppressions, appends the malformed-marker
  diagnostics and applies the configured severities.

  A rule is its identity and its hooks: functions of what the hook is shown and of the rule's own
  state, which return the new state and the diagnostics the hook emits, in order. The engines the
  orchestrator calls (tree-sitter, Slang reflection, the control-flow and IR engines) are the fields
  of \<open>engines\<close>; their results are the type parameters.
\<close>

section \<open>Rules\<close>

datatype stage = Stage_Ast | Stage_Reflection | Stage_Control_Flow | Stage_Ir

record ast_tree =
  at_root :: ts_node
  at_language :: grammar
  at_bytes :: string
  at_source :: source_id

text \<open>What a hook can read of the rule context.\<close>

record rule_view =
  rv_sources :: source_manager
  rv_source :: source_id
  rv_config :: "config option"

record ('s, 'r, 'c, 'i) rule =
  rl_id :: string
  rl_stage :: stage
  rl_target :: experimental_target
  rl_state :: 's
  rl_on_node :: "rule_view \<Rightarrow> ts_node \<Rightarrow> 's \<Rightarrow> 's \<times> diagnostic list"
  rl_on_tree :: "rule_view \<Rightarrow> ast_tree \<Rightarrow> 's \<Rightarrow> 's \<times> diagnostic list"
  rl_on_reflection :: "rule_view \<Rightarrow> ast_tree \<Rightarrow> 'r \<Rightarrow> 's \<Rightarrow> 's \<times> diagnostic list"
  rl_on_cfg :: "rule_view \<Rightarrow> ast_tree \<Rightarrow> 'c \<Rightarrow> 's \<Rightarrow> 's \<times> diagnostic list"
  rl_on_ir :: "rule_view \<Rightarrow> ast_tree \<Rightarrow> 'i \<Rightarrow> 's \<Rightarrow> 's \<times> diagnostic list"

text \<open>The default hooks do nothing.\<close>

definition default_rule :: "string \<Rightarrow> 's \<Rightarrow> ('s, 'r, 'c, 'i) rule" where
  "default_rule i s =
     \<lparr>rl_id = i, rl_stage = Stage_Ast, rl_target = No_Target, rl_state = s,
      rl_on_node = (\<lambda>_ _ s. (s, [])), rl_on_tree = (\<lambda>_ _ s. (s, [])),
      rl_on_reflection = (\<lambda>_ _ _ s. (s, [])), rl_on_cfg = (\<lambda>_ _ _ s. (s, [])),
      rl_on_ir = (\<lambda>_ _ _ s. (s, []))\<rparr>"

record lint_options =
  lo_target_profile :: "string option"
  lo_include_directories :: "path list"
  lo_enable_reflection :: bool
  lo_reflection_pool_size :: u32
  lo_enable_control_flow :: bool
  lo_cfg_inlining_depth :: u32
  lo_enable_ir :: bool
  lo_vgpr_pressure_threshold :: u32

definition default_options :: lint_options where
  "default_options =
     \<lparr>lo_target_profile = None, lo_include_directories = [], lo_enable_reflection = True,
      lo_reflection_pool_size = 4, lo_enable_control_flow = True, lo_cfg_inlining_depth = 3,
      lo_enable_ir = True, lo_vgpr_pressure_threshold = 64\<rparr>"

record ('r, 'c, 'i) engines =
  en_ts_parse :: "grammar \<Rightarrow> string \<Rightarrow> ts_node option"
  en_reflect :: "source_manager \<Rightarrow> source_id \<Rightarrow> string \<Rightarrow> path list \<Rightarrow> diagnostic + 'r"
  en_build_cfg :: "source_id \<Rightarrow> ts_node \<Rightarrow> string \<Rightarrow> 'r option \<Rightarrow> u32 \<Rightarrow> (diagnostic + 'c) \<times> diagnostic list"
  en_analyze_ir :: "source_manager \<Rightarrow> source_id \<Rightarrow> string \<Rightarrow> path list \<Rightarrow> diagnostic + 'i"

section \<open>The rule context\<close>

text \<open>\<open>RuleContext::emit\<close>.\<close>

definition emit :: "suppression_set \<Rightarrow> diagnostic \<Rightarrow> diagnostic list \<Rightarrow> diagnostic list" where
  "emit suppressions d diagnostics =
     (if suppresses suppressions (dg_code d) (bs_lo (sp_bytes (dg_primary_span d)))
           (bs_hi (sp_bytes (dg_primary_span d)))
      then diagnostics else diagnostics @ [d])"

abbreviation emit_all :: "suppression_set \<Rightarrow> diagnostic list \<Rightarrow> diagnostic list \<Rightarrow> diagnostic list" where
  "emit_all suppressions ds diagnostics \<equiv> fold (emit suppressions) ds diagnostics"

section \<open>Dispatch\<close>

definition experimental_target_enabled :: "('s, 'r, 'c, 'i) rule \<Rightarrow> experimental_target \<Rightarrow> bool" where
  "experimental_target_enabled r active =
     (if rl_target r = No_Target then True else rl_target r = active)"

definition any_stage_rule :: "stage \<Rightarrow> ('s, 'r, 'c, 'i) rule list \<Rightarrow> experimental_target \<Rightarrow> bool" where
  "any_stage_rule st rules active =
     list_ex (\<lambda>r. rl_stage r = st \<and> experimental_target_enabled r active) rules"

text \<open>A loop over the rules that calls \<open>hook\<close> on those of one stage, in order.\<close>

fun dispatch :: "stage \<Rightarrow> experimental_target \<Rightarrow> suppression_set \<Rightarrow>
    (('s, 'r, 'c, 'i) rule \<Rightarrow> 's \<Rightarrow> 's \<times> diagnostic list) \<Rightarrow>
    ('s, 'r, 'c, 'i) rule list \<Rightarrow> diagnostic list \<Rightarrow> ('s, 'r, 'c, 'i) rule list \<times> diagnostic list" where
  "dispatch st active supp hook [] ds = ([], ds)"
| "dispatch st active supp hook (r # rs) ds =
     (if rl_stage r \<noteq> st \<or> \<not> experimental_target_enabled r active
      then let (rs', ds') = dispatch st active supp hook rs ds in (r # rs', ds')
      else let (s', out) = hook r (rl_state r);
               (rs', ds') = dispatch st active supp hook rs (emit_all supp out ds)
           in (r\<lparr>rl_state := s'\<rparr> # rs', ds'))"

text \<open>What the body of \<open>walk\<close> does with one named node.\<close>

definition visit_node :: "rule_view \<Rightarrow> experimental_target \<Rightarrow> suppression_set \<Rightarrow> ts_node \<Rightarrow>
    ('s, 'r, 'c, 'i) rule list \<times> diagnostic list \<Rightarrow> ('s, 'r, 'c, 'i) rule list \<times> diagnostic list" where
  "visit_node view active supp node st =
     dispatch Stage_Ast active supp (\<lambda>r. rl_on_node r view node) (fst st) (snd st)"

definition should_dispatch_ast_stage :: "source_language \<Rightarrow> bool" where
  "should_dispatch_ast_stage lang = True"

definition run_ast_stage where
  "run_ast_stage view active supp tree rules ds =
     (let st = dispatch Stage_Ast active supp (\<lambda>r. rl_on_tree r view tree) rules ds
      in walk (visit_node view active supp) (cursor_new (at_root tree)) st)"

text \<open>The later stages return the rules, the diagnostics and, for reflection, the result the
  control-flow engine gets.\<close>

definition run_reflection_stage where
  "run_reflection_stage eng options view active supp tree rules ds =
     (if lo_enable_reflection options \<and> any_stage_rule Stage_Reflection rules active
      then let profile = (case lo_target_profile options of Some p \<Rightarrow> p | None \<Rightarrow> []) in
           case en_reflect eng (rv_sources view) (rv_source view) profile (lo_include_directories options) of
             Inl d \<Rightarrow> (rules, emit supp d ds, None)
           | Inr reflection \<Rightarrow>
               let (rules', ds') = dispatch Stage_Reflection active supp
                     (\<lambda>r. rl_on_reflection r view tree reflection) rules ds
               in (rules', ds', Some reflection)
      else (rules, ds, None))"

definition run_cfg_stage where
  "run_cfg_stage eng options view active supp tree reflection rules ds =
     (if lo_enable_control_flow options \<and> any_stage_rule Stage_Control_Flow rules active
      then case en_build_cfg eng (rv_source view) (at_root tree) (at_bytes tree) reflection
                  (lo_cfg_inlining_depth options) of
             (Inl d, _) \<Rightarrow> (rules, emit supp d ds)
           | (Inr cfg, skipped) \<Rightarrow>
               let (rules', ds') = dispatch Stage_Control_Flow active supp
                     (\<lambda>r. rl_on_cfg r view tree cfg) rules ds
               in (rules', emit_all supp skipped ds')
      else (rules, ds))"

definition run_ir_stage where
  "run_ir_stage eng options view active supp tree rules ds =
     (if lo_enable_ir options \<and> any_stage_rule Stage_Ir rules active
      then let profile = (case lo_target_profile options of Some p \<Rightarrow> p | None \<Rightarrow> []) in
           case en_analyze_ir eng (rv_sources view) (rv_source view) profile (lo_include_directories options) of
             Inl d \<Rightarrow> (rules, emit supp d ds)
           | Inr ir \<Rightarrow> dispatch Stage_Ir active supp (\<lambda>r. rl_on_ir r view tree ir) rules ds
      else (rules, ds))"

definition malformed_suppression :: "source_id \<Rightarrow> scan_diagnostic \<Rightarrow> diagnostic" where
  "malformed_suppression source sd =
     \<lparr>dg_code = ''clippy::malformed-suppression'', dg_severity = Warning,
      dg_primary_span = \<lparr>sp_source = source, sp_bytes = \<lparr>bs_lo = sd_byte_lo sd, bs_hi = sd_byte_hi sd\<rparr>\<rparr>,
      dg_message = sd_message sd, dg_fixes = []\<rparr>"

text \<open>\<open>run_rules\<close>, in a build with the IR engine: the rules with their states after the run, and
  the diagnostics.\<close>

definition run_rules ::
  "('r, 'c, 'i) engines \<Rightarrow> source_manager \<Rightarrow> source_id \<Rightarrow> ('s, 'r, 'c, 'i) rule list \<Rightarrow> lint_options \<Rightarrow>
   experimental_target \<Rightarrow> source_language \<Rightarrow> config option \<Rightarrow> ('s, 'r, 'c, 'i) rule list \<times> diagnostic list" where
  "run_rules eng sources source rules options active lang config =
     (case parse (en_ts_parse eng) sources source lang of
        None \<Rightarrow> (rules, [])
      | Some parsed \<Rightarrow>
          let source_bytes = (case sm_get sources source of Some f \<Rightarrow> sf_contents f | None \<Rightarrow> []);
              suppressions = scan source_bytes;
              view = \<lparr>rv_sources = sources, rv_source = source, rv_config = config\<rparr>;
              tree = \<lparr>at_root = ps_tree parsed, at_language = ps_language parsed,
                      at_bytes = ps_bytes parsed, at_source = ps_source parsed\<rparr>;
              (rules, ds) = run_ast_stage view active suppressions tree rules [];
              (rules, ds, reflection) = run_reflection_stage eng options view active suppressions tree rules ds;
              (rules, ds) = run_cfg_stage eng options view active suppressions tree reflection rules ds;
              (rules, ds) = run_ir_stage eng options view active suppressions tree rules ds
          in (rules, ds @ map (malformed_suppression source) (ss_scan_diagnostics suppressions)))"

section \<open>The entry points\<close>

definition append_unique_path :: "path \<Rightarrow> path list \<Rightarrow> path list" where
  "append_unique_path p paths =
     (if p = [] then paths
      else let p = lexically_normal p in if p \<in> set paths then paths else paths @ [p])"

definition resolve_for_source :: "source_manager \<Rightarrow> source_id \<Rightarrow> source_language \<Rightarrow> source_language" where
  "resolve_for_source sources source selected =
     (if selected \<noteq> Auto then selected
      else case sm_get sources source of
             Some f \<Rightarrow> detect_language (sf_path f)
           | None \<Rightarrow> Hlsl)"

text \<open>\<open>lint\<close> without a configuration.\<close>

definition lint_plain where
  "lint_plain eng sources source rules options =
     run_rules eng sources source rules options No_Target (resolve_for_source sources source Auto) None"

text \<open>The loop over the diagnostics at the end of \<open>lint\<close>.\<close>

fun apply_severities :: "config \<Rightarrow> path \<Rightarrow> diagnostic list \<Rightarrow> diagnostic list" where
  "apply_severities cfg file_path [] = []"
| "apply_severities cfg file_path (d # ds) =
     (case severity_for cfg (dg_code d) file_path of
        Some Allow \<Rightarrow> apply_severities cfg file_path ds
      | Some Warn \<Rightarrow> d\<lparr>dg_severity := Warning\<rparr> # apply_severities cfg file_path ds
      | Some Deny \<Rightarrow> d\<lparr>dg_severity := Error\<rparr> # apply_severities cfg file_path ds
      | None \<Rightarrow> d # apply_severities cfg file_path ds)"

definition lint ::
  "('r, 'c, 'i) engines \<Rightarrow> source_manager \<Rightarrow> source_id \<Rightarrow> ('s, 'r, 'c, 'i) rule list \<Rightarrow> config \<Rightarrow> path \<Rightarrow>
   lint_options \<Rightarrow> ('s, 'r, 'c, 'i) rule list \<times> diagnostic list" where
  "lint eng sources source rules cfg file_path options =
     (let lang = (if cfg_source_language cfg = Auto
                  then (if file_path \<noteq> [] then detect_language file_path
                        else resolve_for_source sources source Auto)
                  else cfg_source_language cfg);
          effective_options = options\<lparr>lo_include_directories :=
            fold append_unique_path (cfg_shader_include_directories cfg) (lo_include_directories options)\<rparr>;
          (rules, diagnostics) = run_rules eng sources source rules effective_options
            (cfg_experimental_target cfg) lang (Some cfg)
      in (rules, apply_severities cfg file_path diagnostics))"

section \<open>The contract of a stage\<close>

definition hidden :: "suppression_set \<Rightarrow> diagnostic \<Rightarrow> bool" where
  "hidden supp d = suppresses supp (dg_code d) (bs_lo (sp_bytes (dg_primary_span d)))
     (bs_hi (sp_bytes (dg_primary_span d)))"

abbreviation rule_enabled :: "experimental_target \<Rightarrow> ('s, 'r, 'c, 'i) rule \<Rightarrow> bool" where
  "rule_enabled active r \<equiv> experimental_target_enabled r active"

text \<open>What the orchestrator asks of a rule to decide whether it runs: nothing a hook can change.\<close>

definition rule_gate :: "('s, 'r, 'c, 'i) rule \<Rightarrow> stage \<times> experimental_target" where
  "rule_gate r = (rl_stage r, rl_target r)"

text \<open>
  Every stage only appends diagnostics that are not suppressed, changes nothing of the rules but
  their states, and does on a rule list what it does on the rules of the active target.
\<close>

locale lint_stage =
  fixes supp :: suppression_set and active :: experimental_target
    and run :: "('s, 'r, 'c, 'i) rule list \<Rightarrow> diagnostic list \<Rightarrow> ('s, 'r, 'c, 'i) rule list \<times> diagnostic list"
  assumes appends: "\<exists>es. snd (run rs ds) = ds @ es \<and> (\<forall>d \<in> set es. \<not> hidden supp d)"
    and gates: "map rule_gate (fst (run rs ds)) = map rule_gate rs"
    and skips: "run (filter (rule_enabled active) rs) ds =
      (filter (rule_enabled active) (fst (run rs ds)), snd (run rs ds))"
begin

lemma visible: "\<forall>d \<in> set ds. \<not> hidden supp d \<Longrightarrow> \<forall>d \<in> set (snd (run rs ds)). \<not> hidden supp d"
  using appends [of rs ds] by auto

end

lemma lint_stage_seq:
  assumes "lint_stage supp active f" and "lint_stage supp active g"
  shows "lint_stage supp active (\<lambda>rs ds. g (fst (f rs ds)) (snd (f rs ds)))"
proof
  show "\<exists>es. snd (g (fst (f rs ds)) (snd (f rs ds))) = ds @ es \<and> (\<forall>d \<in> set es. \<not> hidden supp d)" for rs ds
  proof -
    obtain es es' where "snd (f rs ds) = ds @ es" "\<forall>d \<in> set es. \<not> hidden supp d"
      and "snd (g (fst (f rs ds)) (snd (f rs ds))) = snd (f rs ds) @ es'" "\<forall>d \<in> set es'. \<not> hidden supp d"
      using lint_stage.appends [OF assms(1), of rs ds]
        lint_stage.appends [OF assms(2), of "fst (f rs ds)" "snd (f rs ds)"] by blast
    then show ?thesis by (intro exI [of _ "es @ es'"]) auto
  qed
  show "map rule_gate (fst (g (fst (f rs ds)) (snd (f rs ds)))) = map rule_gate rs" for rs ds
    by (simp add: lint_stage.gates [OF assms(1)] lint_stage.gates [OF assms(2)])
  show "g (fst (f (filter (rule_enabled active) rs) ds)) (snd (f (filter (rule_enabled active) rs) ds)) =
      (filter (rule_enabled active) (fst (g (fst (f rs ds)) (snd (f rs ds)))), snd (g (fst (f rs ds)) (snd (f rs ds))))" for rs ds
    by (simp add: lint_stage.skips [OF assms(1)] lint_stage.skips [OF assms(2)])
qed

lemma lint_stage_id: "lint_stage supp active Pair"
  by unfold_locales simp_all

lemma emit_hidden:
  "hidden supp d \<Longrightarrow> emit supp d ds = ds" "\<not> hidden supp d \<Longrightarrow> emit supp d ds = ds @ [d]"
  by (simp_all add: emit_def hidden_def)

lemma emit_all_appends: "\<exists>es. emit_all supp out ds = ds @ es \<and> (\<forall>d \<in> set es. \<not> hidden supp d)"
proof (induction out arbitrary: ds)
  case (Cons d out)
  show ?case
  proof (cases "hidden supp d")
    case True
    then show ?thesis using Cons [of ds] by (simp add: emit_hidden)
  next
    case False
    obtain es where "emit_all supp out (ds @ [d]) = (ds @ [d]) @ es" "\<forall>d \<in> set es. \<not> hidden supp d"
      using Cons by blast
    then show ?thesis using False by (intro exI [of _ "d # es"]) (simp add: emit_hidden)
  qed
qed simp

lemma lint_stage_emit: "lint_stage supp active (\<lambda>rs ds. (rs, emit_all supp out ds))"
  using emit_all_appends by unfold_locales simp_all

lemma gate_update [simp]: "rule_gate (r\<lparr>rl_state := s\<rparr>) = rule_gate r"
  "rule_enabled active (r\<lparr>rl_state := s\<rparr>) = rule_enabled active r"
  by (simp_all add: rule_gate_def experimental_target_enabled_def)

text \<open>The dispatch loop meets the contract, whatever the hook.\<close>

interpretation dispatch_loop: lint_stage supp active "dispatch st active supp hook" for supp active st hook
proof
  show "\<exists>es. snd (dispatch st active supp hook rs ds) = ds @ es \<and> (\<forall>d \<in> set es. \<not> hidden supp d)" for rs ds
  proof (induction rs arbitrary: ds)
    case (Cons r rs)
    obtain s out where h: "hook r (rl_state r) = (s, out)" by fastforce
    obtain es where es: "emit_all supp out ds = ds @ es" "\<forall>d \<in> set es. \<not> hidden supp d"
      using emit_all_appends by blast
    obtain es1 where "snd (dispatch st active supp hook rs (ds @ es)) = (ds @ es) @ es1" "\<forall>d \<in> set es1. \<not> hidden supp d"
      using Cons by blast
    moreover obtain es2 where "snd (dispatch st active supp hook rs ds) = ds @ es2" "\<forall>d \<in> set es2. \<not> hidden supp d"
      using Cons by blast
    ultimately show ?case
      using es h by (auto simp: split_beta intro: exI [of _ "es @ es1"])
  qed simp
  show "map rule_gate (fst (dispatch st active supp hook rs ds)) = map rule_gate rs" for rs ds
    by (induction rs arbitrary: ds) (simp_all add: split_beta)
  show "dispatch st active supp hook (filter (rule_enabled active) rs) ds =
      (filter (rule_enabled active) (fst (dispatch st active supp hook rs ds)), snd (dispatch st active supp hook rs ds))" for rs ds
    by (induction rs arbitrary: ds) (simp_all add: split_beta)
qed

lemma lint_stage_walk:
  "lint_stage supp active (\<lambda>rs ds. walk (visit_node view active supp) c (rs, ds))"
proof -
  have "lint_stage supp active (\<lambda>rs ds. fold (visit_node view active supp) ns (rs, ds))" for ns
  proof (induction ns rule: rev_induct)
    case Nil
    then show ?case using lint_stage_id by (simp add: lint_stage_def)
  next
    case (snoc n ns)
    have "lint_stage supp active (dispatch Stage_Ast active supp (\<lambda>r. rl_on_node r view n))"
      by (rule dispatch_loop.lint_stage_axioms)
    from lint_stage_seq [OF snoc this] show ?case
      by (simp add: visit_node_def)
  qed
  then show ?thesis by (simp add: walk_fold)
qed

lemma run_ast_stage_seq:
  "run_ast_stage view active supp tree = (\<lambda>rs ds. walk (visit_node view active supp) (cursor_new (at_root tree))
      (fst (dispatch Stage_Ast active supp (\<lambda>r. rl_on_tree r view tree) rs ds),
       snd (dispatch Stage_Ast active supp (\<lambda>r. rl_on_tree r view tree) rs ds)))"
  by (intro ext) (simp add: run_ast_stage_def Let_def)

interpretation ast_stage: lint_stage supp active "run_ast_stage view active supp tree" for supp active view tree
  unfolding run_ast_stage_seq
  by (rule lint_stage_seq [OF dispatch_loop.lint_stage_axioms lint_stage_walk])

text \<open>Whether a stage has a rule to run is decided by the gates of the enabled rules.\<close>

lemma any_stage_filter:
  "any_stage_rule st (filter (rule_enabled active) rs) active = any_stage_rule st rs active"
  by (auto simp: any_stage_rule_def list_ex_iff)

lemma any_stage_rule_gates:
  "any_stage_rule st rs active = list_ex (\<lambda>(s, t). s = st \<and> (t = No_Target \<or> t = active)) (map rule_gate rs)"
  by (auto simp: any_stage_rule_def rule_gate_def experimental_target_enabled_def list_ex_iff)

lemma any_stage_gates:
  "map rule_gate rs' = map rule_gate rs \<Longrightarrow> any_stage_rule st rs' active = any_stage_rule st rs active"
  by (simp only: any_stage_rule_gates)

lemma lint_stage_if:
  assumes "lint_stage supp active f"
  shows "lint_stage supp active (\<lambda>rs ds. if P \<and> any_stage_rule st rs active then f rs ds else (rs, ds))"
proof
  show "\<exists>es. snd (if P \<and> any_stage_rule st rs active then f rs ds else (rs, ds)) = ds @ es \<and>
      (\<forall>d \<in> set es. \<not> hidden supp d)" for rs ds
    using lint_stage.appends [OF assms, of rs ds] by simp
  show "map rule_gate (fst (if P \<and> any_stage_rule st rs active then f rs ds else (rs, ds))) = map rule_gate rs" for rs ds
    by (simp add: lint_stage.gates [OF assms])
  show "(if P \<and> any_stage_rule st (filter (rule_enabled active) rs) active
       then f (filter (rule_enabled active) rs) ds else (filter (rule_enabled active) rs, ds)) =
      (filter (rule_enabled active) (fst (if P \<and> any_stage_rule st rs active then f rs ds else (rs, ds))),
       snd (if P \<and> any_stage_rule st rs active then f rs ds else (rs, ds)))" for rs ds
    by (simp add: any_stage_filter lint_stage.skips [OF assms])
qed

text \<open>The result the reflection stage hands on, from the gates alone.\<close>

definition reflection_result where
  "reflection_result eng options view active rules =
     (if lo_enable_reflection options \<and> any_stage_rule Stage_Reflection rules active
      then case en_reflect eng (rv_sources view) (rv_source view)
                  (case lo_target_profile options of Some p \<Rightarrow> p | None \<Rightarrow> []) (lo_include_directories options) of
             Inl d \<Rightarrow> None | Inr r \<Rightarrow> Some r
      else None)"

definition reflection_step where
  "reflection_step eng options view active supp tree rules ds =
     (if lo_enable_reflection options \<and> any_stage_rule Stage_Reflection rules active
        then (case en_reflect eng (rv_sources view) (rv_source view)
                  (case lo_target_profile options of Some p \<Rightarrow> p | None \<Rightarrow> []) (lo_include_directories options) of
                Inl d \<Rightarrow> (rules, emit_all supp [d] ds)
              | Inr reflection \<Rightarrow> dispatch Stage_Reflection active supp
                     (\<lambda>r. rl_on_reflection r view tree reflection) rules ds)
        else (rules, ds))"

lemma run_reflection_stage_split:
  "run_reflection_stage eng options view active supp tree rules ds =
     (fst (reflection_step eng options view active supp tree rules ds),
      snd (reflection_step eng options view active supp tree rules ds),
      reflection_result eng options view active rules)"
  by (simp add: run_reflection_stage_def reflection_result_def reflection_step_def split: sum.split prod.split)

lemma lint_stage_case_sum:
  "lint_stage supp active (\<lambda>rs ds. case x of Inl d \<Rightarrow> (rs, emit_all supp [d] ds)
     | Inr r \<Rightarrow> dispatch st active supp (hook r) rs ds)"
proof (cases x)
  case (Inl d)
  show ?thesis unfolding Inl sum.case by (rule lint_stage_emit)
next
  case (Inr r)
  show ?thesis unfolding Inr sum.case by (rule dispatch_loop.lint_stage_axioms)
qed

interpretation reflection_stage: lint_stage supp active "reflection_step eng options view active supp tree"
  for supp active eng options view tree
  unfolding reflection_step_def by (rule lint_stage_if [OF lint_stage_case_sum])

interpretation cfg_stage: lint_stage supp active "run_cfg_stage eng options view active supp tree reflection"
  for supp active eng options view tree reflection
proof -
  have eq: "run_cfg_stage eng options view active supp tree reflection rs ds =
      (if lo_enable_control_flow options \<and> any_stage_rule Stage_Control_Flow rs active
       then (let x = en_build_cfg eng (rv_source view) (at_root tree) (at_bytes tree) reflection (lo_cfg_inlining_depth options);
                 st = (case fst x of Inl d \<Rightarrow> (rs, emit_all supp [d] ds)
                       | Inr cfg \<Rightarrow> dispatch Stage_Control_Flow active supp (\<lambda>r. rl_on_cfg r view tree cfg) rs ds)
             in (fst st, emit_all supp (case fst x of Inl d \<Rightarrow> [] | Inr cfg \<Rightarrow> snd x) (snd st)))
       else (rs, ds))" for rs ds
    by (simp add: run_cfg_stage_def Let_def split: sum.split prod.split)
  show "lint_stage supp active (run_cfg_stage eng options view active supp tree reflection)"
    unfolding eq [abs_def] Let_def
    by (rule lint_stage_if [OF lint_stage_seq [OF lint_stage_case_sum lint_stage_emit]])
qed

interpretation ir_stage: lint_stage supp active "run_ir_stage eng options view active supp tree"
  for supp active eng options view tree
proof -
  have eq: "run_ir_stage eng options view active supp tree rs ds =
      (if lo_enable_ir options \<and> any_stage_rule Stage_Ir rs active
       then (case en_analyze_ir eng (rv_sources view) (rv_source view)
                  (case lo_target_profile options of Some p \<Rightarrow> p | None \<Rightarrow> []) (lo_include_directories options) of
                Inl d \<Rightarrow> (rs, emit_all supp [d] ds)
              | Inr ir \<Rightarrow> dispatch Stage_Ir active supp (\<lambda>r. rl_on_ir r view tree ir) rs ds)
       else (rs, ds))" for rs ds
    by (simp add: run_ir_stage_def Let_def split: sum.split prod.split)
  show "lint_stage supp active (run_ir_stage eng options view active supp tree)"
    unfolding eq [abs_def] by (rule lint_stage_if [OF lint_stage_case_sum])
qed

lemma reflection_result_gates:
  "map rule_gate rs' = map rule_gate rs \<Longrightarrow>
     reflection_result eng options view active rs' = reflection_result eng options view active rs"
  using any_stage_gates [of rs' rs Stage_Reflection active] by (simp add: reflection_result_def)

lemma reflection_result_filter:
  "reflection_result eng options view active (filter (rule_enabled active) rs) =
     reflection_result eng options view active rs"
  by (simp only: reflection_result_def any_stage_filter)

text \<open>The four stages in sequence, with the reflection result they share.\<close>

definition all_stages where
  "all_stages eng options view active supp tree shared rules ds =
     (let st1 = run_ast_stage view active supp tree rules ds;
          st2 = reflection_step eng options view active supp tree (fst st1) (snd st1);
          st3 = run_cfg_stage eng options view active supp tree shared (fst st2) (snd st2)
      in run_ir_stage eng options view active supp tree (fst st3) (snd st3))"

interpretation all_stages: lint_stage supp active "all_stages eng options view active supp tree shared"
  for supp active eng options view tree shared
  unfolding all_stages_def [abs_def] Let_def
  by (intro lint_stage_seq [where g = "run_ir_stage eng options view active supp tree"]
      lint_stage_seq [where g = "run_cfg_stage eng options view active supp tree shared"]
      lint_stage_seq [where g = "reflection_step eng options view active supp tree"]
      ast_stage.lint_stage_axioms reflection_stage.lint_stage_axioms cfg_stage.lint_stage_axioms
      ir_stage.lint_stage_axioms)

lemma run_rules_stages:
  assumes "parse (en_ts_parse eng) sources source lang = Some parsed"
    and "sm_get sources source = Some f"
  shows "run_rules eng sources source rules options active lang config =
    (let view = \<lparr>rv_sources = sources, rv_source = source, rv_config = config\<rparr>;
         tree = \<lparr>at_root = ps_tree parsed, at_language = ps_language parsed,
                 at_bytes = ps_bytes parsed, at_source = ps_source parsed\<rparr>;
         supp = scan (sf_contents f);
         st = all_stages eng options view active supp tree
                (reflection_result eng options view active rules) rules []
     in (fst st, snd st @ map (malformed_suppression source) (ss_scan_diagnostics supp)))"
proof -
  have "map rule_gate (fst (run_ast_stage view active supp tree rules [])) = map rule_gate rules" for view supp tree
    by (rule ast_stage.gates)
  from reflection_result_gates [OF this]
  have shared: "reflection_result eng options view active (fst (run_ast_stage view active supp tree rules [])) =
      reflection_result eng options view active rules" for view supp tree .
  show ?thesis
    unfolding run_rules_def assms option.case Let_def split_beta run_reflection_stage_split fst_conv snd_conv shared
      all_stages_def ..
qed

lemma parse_get: "parse ts sources source lang = Some parsed \<Longrightarrow> \<exists>f. sm_get sources source = Some f \<and> ps_bytes parsed = sf_contents f"
  by (auto simp: parse_def Let_def split: option.splits)

lemma run_rules_reports:
  assumes "sm_get sources source = Some f"
  shows "\<exists>es. snd (run_rules eng sources source rules options active lang config) \<in>
      {[], es @ map (malformed_suppression source) (ss_scan_diagnostics (scan (sf_contents f)))} \<and>
    (\<forall>d \<in> set es. \<not> hidden (scan (sf_contents f)) d)"
proof (cases "parse (en_ts_parse eng) sources source lang")
  case None
  then show ?thesis by (intro exI [of _ "[]"]) (simp add: run_rules_def)
next
  case (Some parsed)
  show ?thesis
    unfolding run_rules_stages [OF Some assms] Let_def snd_conv
    using all_stages.appends [where ds = "[]"] by fastforce
qed

section \<open>What the hooks say\<close>

text \<open>A reference for a run that knows nothing of suppressions or of the loops of the orchestrator: which
  hooks are called, in which order, and what they and the engines say.\<close>

type_synonym ('s, 'r, 'c, 'i) hook_call = "('s, 'r, 'c, 'i) rule \<Rightarrow> 's \<Rightarrow> 's \<times> diagnostic list"

definition runs_in :: "stage \<Rightarrow> experimental_target \<Rightarrow> ('s, 'r, 'c, 'i) rule \<Rightarrow> bool" where
  "runs_in st active r \<longleftrightarrow> rl_stage r = st \<and> (rl_target r = No_Target \<or> rl_target r = active)"

definition rules_after :: "stage \<Rightarrow> experimental_target \<Rightarrow> ('s, 'r, 'c, 'i) hook_call \<Rightarrow> ('s, 'r, 'c, 'i) rule list \<Rightarrow>
    ('s, 'r, 'c, 'i) rule list" where
  "rules_after st active hook rules =
     map (\<lambda>r. if runs_in st active r then r\<lparr>rl_state := fst (hook r (rl_state r))\<rparr> else r) rules"

definition says :: "stage \<Rightarrow> experimental_target \<Rightarrow> ('s, 'r, 'c, 'i) hook_call \<Rightarrow> ('s, 'r, 'c, 'i) rule list \<Rightarrow> diagnostic list" where
  "says st active hook rules = concat (map (\<lambda>r. snd (hook r (rl_state r))) (filter (runs_in st active) rules))"

text \<open>Several calls in sequence, every rule with the state its last call left.\<close>

fun says_all :: "stage \<Rightarrow> experimental_target \<Rightarrow> ('s, 'r, 'c, 'i) hook_call list \<Rightarrow> ('s, 'r, 'c, 'i) rule list \<Rightarrow> diagnostic list" where
  "says_all st active [] rules = []"
| "says_all st active (h # hs) rules = says st active h rules @ says_all st active hs (rules_after st active h rules)"

text \<open>A stage with an engine: nothing without a rule that runs in it, the engine's diagnostic when it fails.\<close>

definition engine_says :: "bool \<Rightarrow> stage \<Rightarrow> experimental_target \<Rightarrow> diagnostic + 'x \<Rightarrow> ('x \<Rightarrow> ('s, 'r, 'c, 'i) hook_call) \<Rightarrow>
    diagnostic list \<Rightarrow> ('s, 'r, 'c, 'i) rule list \<Rightarrow> diagnostic list" where
  "engine_says enabled st active answer hook skipped rules =
     (if enabled \<and> (\<exists>r \<in> set rules. runs_in st active r)
      then case answer of Inl d \<Rightarrow> [d] | Inr x \<Rightarrow> says st active (hook x) rules @ skipped
      else [])"

text \<open>The whole run: the tree, its named nodes in document order, then reflection, control flow (which is given
  the reflection, if there is one) and the intermediate representation.\<close>

definition run_says :: "('r, 'c, 'i) engines \<Rightarrow> lint_options \<Rightarrow> rule_view \<Rightarrow> experimental_target \<Rightarrow> ast_tree \<Rightarrow>
    ('s, 'r, 'c, 'i) rule list \<Rightarrow> diagnostic list" where
  "run_says eng options view active tree rules =
     (let profile = (case lo_target_profile options of Some p \<Rightarrow> p | None \<Rightarrow> []);
          reflected = en_reflect eng (rv_sources view) (rv_source view) profile (lo_include_directories options);
          shared = (if lo_enable_reflection options \<and> (\<exists>r \<in> set rules. runs_in Stage_Reflection active r)
                    then case reflected of Inl d \<Rightarrow> None | Inr x \<Rightarrow> Some x else None);
          (cfg, skipped) = en_build_cfg eng (rv_source view) (at_root tree) (at_bytes tree) shared (lo_cfg_inlining_depth options);
          ir = en_analyze_ir eng (rv_sources view) (rv_source view) profile (lo_include_directories options)
      in says_all Stage_Ast active
           ((\<lambda>r. rl_on_tree r view tree) # map (\<lambda>n r. rl_on_node r view n) (filter ts_named (preorder (at_root tree)))) rules @
         engine_says (lo_enable_reflection options) Stage_Reflection active reflected (\<lambda>x r. rl_on_reflection r view tree x) [] rules @
         engine_says (lo_enable_control_flow options) Stage_Control_Flow active cfg (\<lambda>x r. rl_on_cfg r view tree x) skipped rules @
         engine_says (lo_enable_ir options) Stage_Ir active ir (\<lambda>x r. rl_on_ir r view tree x) [] rules)"

lemma runs_in_loop: "runs_in st active r \<longleftrightarrow> \<not> (rl_stage r \<noteq> st \<or> \<not> experimental_target_enabled r active)"
  by (auto simp: runs_in_def experimental_target_enabled_def)

lemma any_stage_runs: "any_stage_rule st rules active \<longleftrightarrow> (\<exists>r \<in> set rules. runs_in st active r)"
  by (simp add: any_stage_rule_def runs_in_loop list_ex_iff)

lemma runs_in_state [simp]: "runs_in st active (r\<lparr>rl_state := s\<rparr>) = runs_in st active r"
  by (simp add: runs_in_def)

lemma rules_after_runs [simp]:
  "(\<exists>r \<in> set (rules_after st active h rules). runs_in st' active r) \<longleftrightarrow> (\<exists>r \<in> set rules. runs_in st' active r)"
  by (induction rules) (auto simp: rules_after_def)

text \<open>A stage leaves the rules of the other stages alone.\<close>

lemma says_after_other:
  "st \<noteq> st' \<Longrightarrow> says st active h (rules_after st' active h' rules) = says st active h rules"
  by (induction rules) (auto simp: says_def rules_after_def runs_in_def)

lemma engine_says_after_other:
  "st \<noteq> st' \<Longrightarrow> engine_says e st active x h sk (rules_after st' active h' rules) = engine_says e st active x h sk rules"
  unfolding engine_says_def rules_after_runs by (cases x) (simp_all only: says_after_other sum.case simp_thms)

lemma fold_after_other:
  "st \<noteq> st' \<Longrightarrow> engine_says e st active x h sk (fold (rules_after st' active) hs rules) = engine_says e st active x h sk rules"
  "(\<exists>r \<in> set (fold (rules_after st' active) hs rules). runs_in st active r) \<longleftrightarrow> (\<exists>r \<in> set rules. runs_in st active r)"
  by (induction hs arbitrary: rules) (simp_all add: engine_says_after_other)

abbreviation visible_only :: "suppression_set \<Rightarrow> diagnostic list \<Rightarrow> diagnostic list" where
  "visible_only supp \<equiv> filter (\<lambda>d. \<not> hidden supp d)"

lemma emit_all_visible: "emit_all supp out ds = ds @ visible_only supp out"
  by (induction out arbitrary: ds) (simp_all add: emit_def hidden_def)

lemma dispatch_says:
  "dispatch st active supp hook rules ds = (rules_after st active hook rules, ds @ visible_only supp (says st active hook rules))"
  by (induction rules arbitrary: ds)
    (auto simp: rules_after_def says_def runs_in_loop emit_all_visible split_beta)

lemma visits_say:
  "fold (\<lambda>h st. dispatch Stage_Ast active supp h (fst st) (snd st)) hs (rules, ds) =
     (fold (rules_after Stage_Ast active) hs rules, ds @ visible_only supp (says_all Stage_Ast active hs rules))"
  by (induction hs arbitrary: rules ds) (simp_all add: dispatch_says)

lemma ast_stage_says:
  "run_ast_stage view active supp tree rules ds =
     (let hs = (\<lambda>r. rl_on_tree r view tree) # map (\<lambda>n r. rl_on_node r view n) (filter ts_named (preorder (at_root tree)))
      in (fold (rules_after Stage_Ast active) hs rules, ds @ visible_only supp (says_all Stage_Ast active hs rules)))"
proof -
  have "run_ast_stage view active supp tree rules ds =
      fold (\<lambda>h st. dispatch Stage_Ast active supp h (fst st) (snd st))
        ((\<lambda>r. rl_on_tree r view tree) # map (\<lambda>n r. rl_on_node r view n) (filter ts_named (preorder (at_root tree)))) (rules, ds)"
    by (simp add: run_ast_stage_def walk_fold cursor_new_def fold_map comp_def visit_node_def [abs_def])
  then show ?thesis by (simp only: visits_say Let_def)
qed

definition stage_rules :: "bool \<Rightarrow> stage \<Rightarrow> experimental_target \<Rightarrow> diagnostic + 'x \<Rightarrow> ('x \<Rightarrow> ('s, 'r, 'c, 'i) hook_call) \<Rightarrow>
    ('s, 'r, 'c, 'i) rule list \<Rightarrow> ('s, 'r, 'c, 'i) rule list" where
  "stage_rules enabled st active answer hook rules =
     (if enabled \<and> (\<exists>r \<in> set rules. runs_in st active r)
      then case answer of Inl d \<Rightarrow> rules | Inr x \<Rightarrow> rules_after st active (hook x) rules else rules)"

lemma stage_rules_other:
  "st \<noteq> st' \<Longrightarrow> engine_says e st active x h sk (stage_rules e' st' active x' h' rules) = engine_says e st active x h sk rules"
  by (auto simp: stage_rules_def engine_says_after_other split: sum.split)

lemma engine_stages_say:
  fixes options :: lint_options
  defines "profile \<equiv> (case lo_target_profile options of Some p \<Rightarrow> p | None \<Rightarrow> [])"
  shows "reflection_step eng options view active supp tree rules ds =
    (stage_rules (lo_enable_reflection options) Stage_Reflection active
       (en_reflect eng (rv_sources view) (rv_source view) profile (lo_include_directories options)) (\<lambda>x r. rl_on_reflection r view tree x) rules,
     ds @ visible_only supp (engine_says (lo_enable_reflection options) Stage_Reflection active
       (en_reflect eng (rv_sources view) (rv_source view) profile (lo_include_directories options)) (\<lambda>x r. rl_on_reflection r view tree x) [] rules))"
    and "run_cfg_stage eng options view active supp tree shared rules ds =
    (let (cfg, skipped) = en_build_cfg eng (rv_source view) (at_root tree) (at_bytes tree) shared (lo_cfg_inlining_depth options) in
     (stage_rules (lo_enable_control_flow options) Stage_Control_Flow active cfg (\<lambda>x r. rl_on_cfg r view tree x) rules,
      ds @ visible_only supp (engine_says (lo_enable_control_flow options) Stage_Control_Flow active cfg (\<lambda>x r. rl_on_cfg r view tree x) skipped rules)))"
    and "run_ir_stage eng options view active supp tree rules ds =
    (stage_rules (lo_enable_ir options) Stage_Ir active
       (en_analyze_ir eng (rv_sources view) (rv_source view) profile (lo_include_directories options)) (\<lambda>x r. rl_on_ir r view tree x) rules,
     ds @ visible_only supp (engine_says (lo_enable_ir options) Stage_Ir active
       (en_analyze_ir eng (rv_sources view) (rv_source view) profile (lo_include_directories options)) (\<lambda>x r. rl_on_ir r view tree x) [] rules))"
  by (auto simp: reflection_step_def run_cfg_stage_def run_ir_stage_def profile_def engine_says_def stage_rules_def any_stage_runs
      dispatch_says emit_all_visible emit_hidden [unfolded hidden_def] emit_def hidden_def Let_def split: sum.split prod.split)

lemma run_rules_says:
  assumes "parse (en_ts_parse eng) sources source lang = Some parsed" and "sm_get sources source = Some f"
  shows "snd (run_rules eng sources source rules options active lang config) =
    visible_only (scan (sf_contents f)) (run_says eng options \<lparr>rv_sources = sources, rv_source = source, rv_config = config\<rparr> active
      \<lparr>at_root = ps_tree parsed, at_language = ps_language parsed, at_bytes = ps_bytes parsed, at_source = ps_source parsed\<rparr> rules) @
    map (malformed_suppression source) (ss_scan_diagnostics (scan (sf_contents f)))"
  unfolding run_rules_stages [OF assms] all_stages_def ast_stage_says engine_stages_say reflection_result_def any_stage_runs
    run_says_def Let_def split_beta fst_conv snd_conv
  by (simp add: stage_rules_other fold_after_other engine_says_after_other)

lemma run_rules_enabled:
  "snd (run_rules eng sources source (filter (rule_enabled active) rules) options active lang config) =
   snd (run_rules eng sources source rules options active lang config)"
proof (cases "parse (en_ts_parse eng) sources source lang")
  case None
  then show ?thesis by (simp add: run_rules_def)
next
  case (Some parsed)
  obtain f where f: "sm_get sources source = Some f" using parse_get [OF Some] by blast
  show ?thesis
    unfolding run_rules_stages [OF Some f] Let_def snd_conv reflection_result_filter all_stages.skips ..
qed

lemma apply_severities_eq:
  "apply_severities cfg p ds =
     map (\<lambda>d. case severity_for cfg (dg_code d) p of
                Some Warn \<Rightarrow> d\<lparr>dg_severity := Warning\<rparr> | Some Deny \<Rightarrow> d\<lparr>dg_severity := Error\<rparr> | _ \<Rightarrow> d)
       (filter (\<lambda>d. severity_for cfg (dg_code d) p \<noteq> Some Allow) ds)"
  by (induction ds) (auto split: option.split rule_severity.split)

lemma stages_consult:
  "(lo_enable_reflection options \<and> any_stage_rule Stage_Reflection rules active \<longrightarrow> en_reflect eng' = en_reflect eng) \<Longrightarrow>
     reflection_step eng options view active supp tree rules ds = reflection_step eng' options view active supp tree rules ds \<and>
     reflection_result eng options view active rules = reflection_result eng' options view active rules"
  "(lo_enable_control_flow options \<and> any_stage_rule Stage_Control_Flow rules active \<longrightarrow> en_build_cfg eng' = en_build_cfg eng) \<Longrightarrow>
     run_cfg_stage eng options view active supp tree shared rules ds = run_cfg_stage eng' options view active supp tree shared rules ds"
  "(lo_enable_ir options \<and> any_stage_rule Stage_Ir rules active \<longrightarrow> en_analyze_ir eng' = en_analyze_ir eng) \<Longrightarrow>
     run_ir_stage eng options view active supp tree rules ds = run_ir_stage eng' options view active supp tree rules ds"
  by (auto simp: reflection_step_def reflection_result_def run_cfg_stage_def run_ir_stage_def)

lemma all_stages_consult:
  assumes "lo_enable_reflection options \<and> any_stage_rule Stage_Reflection rules active \<longrightarrow> en_reflect eng' = en_reflect eng"
    and "lo_enable_control_flow options \<and> any_stage_rule Stage_Control_Flow rules active \<longrightarrow> en_build_cfg eng' = en_build_cfg eng"
    and "lo_enable_ir options \<and> any_stage_rule Stage_Ir rules active \<longrightarrow> en_analyze_ir eng' = en_analyze_ir eng"
  shows "all_stages eng options view active supp tree shared rules ds = all_stages eng' options view active supp tree shared rules ds"
proof -
  let ?st1 = "run_ast_stage view active supp tree rules ds"
  let ?st2 = "reflection_step eng options view active supp tree (fst ?st1) (snd ?st1)"
  let ?st3 = "run_cfg_stage eng options view active supp tree shared (fst ?st2) (snd ?st2)"
  have g1: "map rule_gate (fst ?st1) = map rule_gate rules" by (rule ast_stage.gates)
  have g2: "map rule_gate (fst ?st2) = map rule_gate rules" using g1 by (simp only: reflection_stage.gates)
  have g3: "map rule_gate (fst ?st3) = map rule_gate rules" using g2 by (simp only: cfg_stage.gates)
  have "reflection_step eng' options view active supp tree (fst ?st1) (snd ?st1) = ?st2"
    using stages_consult(1) [of options "fst ?st1" active eng' eng] assms(1) any_stage_gates [OF g1] by simp
  moreover have "run_cfg_stage eng' options view active supp tree shared (fst ?st2) (snd ?st2) = ?st3"
    using stages_consult(2) [of options "fst ?st2" active eng' eng] assms(2) any_stage_gates [OF g2] by simp
  moreover have "run_ir_stage eng' options view active supp tree (fst ?st3) (snd ?st3) =
      run_ir_stage eng options view active supp tree (fst ?st3) (snd ?st3)"
    using stages_consult(3) [of options "fst ?st3" active eng' eng] assms(3) any_stage_gates [OF g3] by simp
  ultimately show ?thesis unfolding all_stages_def Let_def by simp
qed

text \<open>A linter with one rule per pass, for the examples.\<close>

definition sample_node :: ts_node where
  "sample_node = Ts_Node ''translation_unit'' True 0 40 []"

definition sample_engines :: "(unit, unit, unit) engines" where
  "sample_engines = \<lparr>en_ts_parse = (\<lambda>_ _. Some sample_node), en_reflect = (\<lambda>_ _ _ _. Inr ()),
     en_build_cfg = (\<lambda>_ _ _ _ _. (Inr (), [])), en_analyze_ir = (\<lambda>_ _ _ _. Inr ())\<rparr>"

definition sample_diagnostic :: "string \<Rightarrow> u32 \<Rightarrow> diagnostic" where
  "sample_diagnostic code lo = \<lparr>dg_code = code, dg_severity = Note,
     dg_primary_span = \<lparr>sp_source = \<lparr>sid_value = 1\<rparr>, sp_bytes = \<lparr>bs_lo = lo, bs_hi = lo + 1\<rparr>\<rparr>,
     dg_message = ''m'', dg_fixes = []\<rparr>"

definition sample_rules :: "(nat, unit, unit, unit) rule list" where
  "sample_rules =
     [(default_rule ''pow'' 0)\<lparr>rl_on_node := (\<lambda>_ n s. (s + 1, [sample_diagnostic ''pow'' (ts_start n + 8)]))\<rparr>,
      (default_rule ''rdna'' 0)\<lparr>rl_target := Rdna4, rl_on_tree := (\<lambda>_ _ s. (s, [sample_diagnostic ''rdna'' 9]))\<rparr>]"

definition sample_sources :: "string \<Rightarrow> source_manager" where
  "sample_sources text = snd (add_buffer [] ''/p/a.hlsl'' text)"

abbreviation sample_id :: source_id where
  "sample_id \<equiv> \<lparr>sid_value = 1\<rparr>"

lemma sample_get: "sm_get (sample_sources text) sample_id = Some (new_source_file sample_id ''/p/a.hlsl'' text)"
  by (simp add: sample_sources_def add_buffer_def sm_get_def source_id_valid_def Let_def)

section \<open>Properties\<close>

text \<open>C1: A lint run reports exactly what the source does not suppress: when the source parses, the
  diagnostics of a run are everything said, in the order in which it is said, by the hooks of the enabled rules (the tree,
  then every named node in document order, then reflection, control flow and IR) and by the engines (a failure, or the
  functions the control-flow engine skipped), without those that a suppression of the source covers, followed by one warning
  per malformed marker; a source that does not parse gets none.\<close>

theorem run_rules_reports_emissions:
  assumes "sm_get sources source = Some f"
  shows "snd (run_rules eng sources source rules options active lang config) =
    (case parse (en_ts_parse eng) sources source lang of
       None \<Rightarrow> []
     | Some parsed \<Rightarrow>
         filter (\<lambda>d. \<not> suppresses (scan (sf_contents f)) (dg_code d) (bs_lo (sp_bytes (dg_primary_span d)))
             (bs_hi (sp_bytes (dg_primary_span d))))
           (run_says eng options \<lparr>rv_sources = sources, rv_source = source, rv_config = config\<rparr> active
              \<lparr>at_root = ps_tree parsed, at_language = ps_language parsed, at_bytes = sf_contents f, at_source = source\<rparr> rules) @
         map (malformed_suppression source) (ss_scan_diagnostics (scan (sf_contents f))))"
proof (cases "parse (en_ts_parse eng) sources source lang")
  case None
  then show ?thesis by (simp add: run_rules_def)
next
  case (Some parsed)
  then have "ps_bytes parsed = sf_contents f" "ps_source parsed = source"
    using assms by (auto simp: parse_def Let_def split: option.splits)
  then show ?thesis using run_rules_says [OF Some assms] unfolding hidden_def by (simp add: Some)
qed

theorem run_rules_reports_emissions_witness:
  "snd (run_rules sample_engines (sample_sources ''int a = pow; // shader-clippy: allow(pow)'') sample_id
       sample_rules default_options Rdna4 Hlsl None) = [sample_diagnostic ''rdna'' 9]"
proof -
  let ?text = "''int a = pow; // shader-clippy: allow(pow)''"
  let ?sources = "sample_sources ?text"
  have p: "parse (en_ts_parse sample_engines) ?sources sample_id Hlsl =
      Some \<lparr>ps_source = sample_id, ps_bytes = ?text, ps_tree = sample_node, ps_language = select_language Hlsl\<rparr>"
    by (simp add: parse_def sample_get new_source_file_simps sample_engines_def Let_def)
  have "filter (\<lambda>d. \<not> suppresses (scan ?text) (dg_code d) (bs_lo (sp_bytes (dg_primary_span d)))
        (bs_hi (sp_bytes (dg_primary_span d)))) [sample_diagnostic ''rdna'' 9, sample_diagnostic ''pow'' 8] @
      map (malformed_suppression sample_id) (ss_scan_diagnostics (scan ?text)) = [sample_diagnostic ''rdna'' 9]"
    by code_simp
  moreover have "run_says sample_engines default_options \<lparr>rv_sources = ?sources, rv_source = sample_id, rv_config = None\<rparr> Rdna4
      \<lparr>at_root = sample_node, at_language = select_language Hlsl, at_bytes = ?text, at_source = sample_id\<rparr> sample_rules =
      [sample_diagnostic ''rdna'' 9, sample_diagnostic ''pow'' 8]"
    by (simp add: run_says_def engine_says_def says_def rules_after_def runs_in_def sample_rules_def sample_engines_def
        sample_node_def default_rule_def)
  ultimately show ?thesis
    using run_rules_reports_emissions [OF sample_get, of sample_engines ?text sample_rules default_options Rdna4 Hlsl None]
    by (simp add: p new_source_file_simps)
qed

text \<open>Rules of another experimental target do not exist for a run: without them the run reports
  the same diagnostics, in the same order.\<close>

theorem run_rules_ignores_other_targets:
  "snd (run_rules eng sources source (filter (\<lambda>r. experimental_target_enabled r active) rules) options active lang config) =
   snd (run_rules eng sources source rules options active lang config)"
  by (rule run_rules_enabled)

text \<open>C23: An engine is consulted only for rules that need it: two runs whose engines parse alike, and
  agree on reflection, control flow and IR wherever that stage is enabled and has an enabled rule,
  give the same result, rule states included; so a rule pack without reflection rules does not
  depend on the reflection engine at all, and likewise for the other two.\<close>

theorem run_rules_engines_on_demand:
  assumes "en_ts_parse eng' = en_ts_parse eng"
    and "lo_enable_reflection options \<and> any_stage_rule Stage_Reflection rules active \<longrightarrow> en_reflect eng' = en_reflect eng"
    and "lo_enable_control_flow options \<and> any_stage_rule Stage_Control_Flow rules active \<longrightarrow> en_build_cfg eng' = en_build_cfg eng"
    and "lo_enable_ir options \<and> any_stage_rule Stage_Ir rules active \<longrightarrow> en_analyze_ir eng' = en_analyze_ir eng"
  shows "run_rules eng sources source rules options active lang config =
    run_rules eng' sources source rules options active lang config"
proof (cases "parse (en_ts_parse eng) sources source lang")
  case None
  then show ?thesis by (simp add: run_rules_def assms(1))
next
  case (Some parsed)
  obtain f where f: "sm_get sources source = Some f" using parse_get [OF Some] by blast
  have parsed': "parse (en_ts_parse eng') sources source lang = Some parsed" using Some assms(1) by simp
  show ?thesis
    unfolding run_rules_stages [OF Some f] run_rules_stages [OF parsed' f] Let_def
      all_stages_consult [OF assms(2,3,4)] stages_consult(1) [OF assms(2), THEN conjunct2] ..
qed

theorem run_rules_engines_on_demand_witness:
  "run_rules sample_engines (sample_sources ''a'') sample_id sample_rules default_options No_Target Hlsl None =
   run_rules (sample_engines\<lparr>en_reflect := (\<lambda>_ _ _ _. Inl (sample_diagnostic ''clippy::reflection'' 0)),
       en_analyze_ir := (\<lambda>_ _ _ _. Inl (sample_diagnostic ''clippy::ir'' 0))\<rparr>)
     (sample_sources ''a'') sample_id sample_rules default_options No_Target Hlsl None"
  by (rule run_rules_engines_on_demand)
    (simp_all add: sample_rules_def default_rule_def any_stage_rule_def)

text \<open>C7: The configuration has the last word on severities: a configured run reports the diagnostics
  of the run with the configured target, language and include directories, in order, without those
  whose code the configuration allows, with warning and error severities where it says warn and
  deny, and with their own severity where it says nothing.\<close>

theorem lint_applies_config:
  "snd (lint eng sources source rules cfg p options) =
     map (\<lambda>d. case severity_for cfg (dg_code d) p of
                Some Warn \<Rightarrow> d\<lparr>dg_severity := Warning\<rparr> | Some Deny \<Rightarrow> d\<lparr>dg_severity := Error\<rparr> | _ \<Rightarrow> d)
       (filter (\<lambda>d. severity_for cfg (dg_code d) p \<noteq> Some Allow)
         (snd (run_rules eng sources source rules
            (options\<lparr>lo_include_directories :=
               fold append_unique_path (cfg_shader_include_directories cfg) (lo_include_directories options)\<rparr>)
            (cfg_experimental_target cfg)
            (resolve_language (cfg_source_language cfg)
               (if p = [] then (case sm_get sources source of Some f \<Rightarrow> sf_path f | None \<Rightarrow> ''x.hlsl'') else p))
            (Some cfg))))"
proof -
  have "detect_language ''x.hlsl'' = Hlsl" by code_simp
  then show ?thesis
    by (simp add: lint_def Let_def split_beta apply_severities_eq resolve_language_def resolve_for_source_def
        split: option.split)
qed

text \<open>A file-scope wildcard silences a whole run: when the source begins, after blanks and line
  breaks, with a marker comment that names the wildcard, a configured run reports only malformed
  markers and diagnostics that start at or past the end of the source.\<close>

theorem wildcard_marker_silences_lint:
  assumes "sm_get sources source = Some f"
    and "sf_contents f = before @ line @ ''//'' @ (marker_text names @ tail) @ rest"
    and "list_all is_blank_char before" and "before = [] \<or> last before = newline"
    and "list_all is_space_or_tab line" and "\<forall>r \<in> set names. rule_name r" and "newline \<notin> set tail"
    and "rest = [] \<or> hd rest = newline" and "fits32 (sf_contents f)" and "k_wildcard_rule \<in> set names"
  shows "\<forall>d \<in> set (snd (lint eng sources source rules cfg p options)).
    dg_code d = ''clippy::malformed-suppression'' \<or> length (sf_contents f) \<le> unat (bs_lo (sp_bytes (dg_primary_span d)))"
proof
  fix d assume "d \<in> set (snd (lint eng sources source rules cfg p options))"
  then obtain options' lang' d0 where d0: "d0 \<in> set (snd (run_rules eng sources source rules options'
      (cfg_experimental_target cfg) lang' (Some cfg)))"
    and same: "dg_code d = dg_code d0" "dg_primary_span d = dg_primary_span d0"
    by (fastforce simp: lint_def Let_def split_beta apply_severities_eq split: option.splits rule_severity.splits)
  obtain es where es: "snd (run_rules eng sources source rules options' (cfg_experimental_target cfg) lang' (Some cfg)) \<in>
      {[], es @ map (malformed_suppression source) (ss_scan_diagnostics (scan (sf_contents f)))}"
    "\<forall>d \<in> set es. \<not> hidden (scan (sf_contents f)) d"
    using run_rules_reports [OF assms(1)] by blast
  then consider (emitted) "d0 \<in> set es" | (malformed) sd where "d0 = malformed_suppression source sd"
    using d0 by auto
  then show "dg_code d = ''clippy::malformed-suppression'' \<or> length (sf_contents f) \<le> unat (bs_lo (sp_bytes (dg_primary_span d)))"
  proof cases
    case emitted
    then have "\<not> hidden (scan (sf_contents f)) d0" using es(2) by blast
    then show ?thesis
      using scan_file_wildcard [OF assms(2-10)] same by (auto simp: hidden_def not_less [symmetric])
  next
    case malformed
    then show ?thesis using same by (simp add: malformed_suppression_def)
  qed
qed

theorem wildcard_marker_silences_lint_witness:
  "list_all (\<lambda>d. dg_code d = ''clippy::malformed-suppression'' \<or> 31 \<le> unat (bs_lo (sp_bytes (dg_primary_span d))))
     (snd (lint sample_engines (sample_sources ([newline] @ ''// shader-clippy: allow(*)'' @ [newline] @ ''pow'')) sample_id
        sample_rules default_config ''/p/a.hlsl'' default_options))"
proof -
  let ?text = "[newline] @ ''// shader-clippy: allow(*)'' @ [newline] @ ''pow''"
  have split: "sf_contents (new_source_file sample_id ''/p/a.hlsl'' ?text) =
      [newline] @ [] @ ''//'' @ (marker_text [''*''] @ []) @ (newline # ''pow'')"
    by (simp add: marker_text_def)
  have "fits32 (sf_contents (new_source_file sample_id ''/p/a.hlsl'' ?text))" by simp
  moreover have "\<forall>r \<in> set [''*'']. rule_name r" "list_all is_blank_char [newline]" by code_simp+
  ultimately have "\<forall>d \<in> set (snd (lint sample_engines (sample_sources ?text) sample_id
      sample_rules default_config ''/p/a.hlsl'' default_options)).
    dg_code d = ''clippy::malformed-suppression'' \<or>
      length (sf_contents (new_source_file sample_id ''/p/a.hlsl'' ?text)) \<le> unat (bs_lo (sp_bytes (dg_primary_span d)))"
    using wildcard_marker_silences_lint [OF sample_get split] by (simp add: k_wildcard_rule_def)
  moreover have "length (sf_contents (new_source_file sample_id ''/p/a.hlsl'' ?text)) = 31" by simp
  ultimately show ?thesis by (simp only: list_all_iff)
qed

end
