(* ===== verification/Cfg.thy ===== *)
theory Cfg
  imports Sources
begin

text \<open>
  \<^verbatim>\<open>core/src/control_flow/cfg_storage.hpp\<close> and \<^verbatim>\<open>cfg_storage.cpp\<close>: the control-flow
  graphs of a source and the queries rules ask of them. A function's blocks are indexed from the
  entry, block 0; global block ids start at 1. Indices are natural numbers: a table has fewer than
  \<open>2\<^sup>3\<^sup>2\<close> blocks. The lemmas give the graph meaning of the searches: \<open>reachable\<close> is the
  reflexive transitive closure of the edges, and the barrier query speaks of all paths.
\<close>

section \<open>Storage\<close>

record basic_block =
  bb_span :: span
  bb_successors :: "nat list"
  bb_contains_barrier :: bool
  bb_contains_discard :: bool
  bb_is_exit :: bool
  bb_tainted_by_error :: bool

record cfg_function =
  cf_declaration_span :: span
  cf_name :: string
  cf_blocks :: "basic_block list"
  cf_idom :: "nat list"
  cf_error_skipped :: bool

record cfg_storage =
  cs_source :: source_id
  cs_functions :: "cfg_function list"
  cs_block_to_function :: "nat list"
  cs_block_to_local :: "nat list"
  cs_span_to_block :: "(span \<times> nat) list"

definition allocate_block_id :: "cfg_storage \<Rightarrow> nat \<Rightarrow> nat \<Rightarrow> nat \<times> cfg_storage" where
  "allocate_block_id st function_id local_index =
     (length (cs_block_to_function st) + 1,
      st\<lparr>cs_block_to_function := cs_block_to_function st @ [function_id],
         cs_block_to_local := cs_block_to_local st @ [local_index]\<rparr>)"

definition global_id :: "cfg_storage \<Rightarrow> nat \<Rightarrow> nat \<Rightarrow> nat" where
  "global_id st function_id local_index =
     (case find (\<lambda>i. cs_block_to_function st ! i = function_id \<and> cs_block_to_local st ! i = local_index)
             [0..<length (cs_block_to_function st)] of
        Some i \<Rightarrow> i + 1
      | None \<Rightarrow> 0)"

text \<open>\<open>resolve\<close>: function id and local index of a raw block id, zeros for an invalid one.\<close>

definition resolve_block :: "cfg_storage \<Rightarrow> nat \<Rightarrow> nat \<times> nat" where
  "resolve_block st raw =
     (if raw = 0 \<or> raw > length (cs_block_to_function st) then (0, 0)
      else (cs_block_to_function st ! (raw - 1), cs_block_to_local st ! (raw - 1)))"

section \<open>Searches\<close>

text \<open>The inner loop of the searches, over the successors of one block: \<open>skip\<close> is the extra test of
  the barrier search. It returns whether the sink was met, and else the seen flags and the stack.\<close>

fun scan_successors :: "nat \<Rightarrow> (nat \<Rightarrow> bool) \<Rightarrow> nat \<Rightarrow> nat list \<Rightarrow> bool list \<Rightarrow> nat list \<Rightarrow> (bool list \<times> nat list) option" where
  "scan_successors n skip to_local [] seen stack = Some (seen, stack)"
| "scan_successors n skip to_local (succ # succs) seen stack =
     (if succ \<ge> n \<or> seen ! succ then scan_successors n skip to_local succs seen stack
      else if succ = to_local then None
      else if skip succ then scan_successors n skip to_local succs seen stack
      else scan_successors n skip to_local succs (seen[succ := True]) (succ # stack))"

definition unseen :: "bool list \<Rightarrow> nat" where
  "unseen seen = length (filter Not seen)"

lemma unseen_update: "i < length seen \<Longrightarrow> \<not> seen ! i \<Longrightarrow> Suc (unseen (seen[i := True])) = unseen seen"
proof (induction seen arbitrary: i)
  case (Cons b seen)
  then show ?case by (cases i) (auto simp: unseen_def)
qed simp

lemma scan_successors_measure:
  "scan_successors n skip to_local succs seen stack = Some (seen', stack') \<Longrightarrow> length seen = n \<Longrightarrow>
     length seen' = n \<and> unseen seen' + length stack' = unseen seen + length stack"
proof (induction succs arbitrary: seen stack)
  case (Cons s succs)
  show ?case
  proof (cases "s \<ge> n \<or> seen ! s \<or> s = to_local \<or> skip s")
    case True
    then show ?thesis using Cons by (auto split: if_splits)
  next
    case False
    then have "scan_successors n skip to_local succs (seen[s := True]) (s # stack) = Some (seen', stack')"
      using Cons.prems(1) by simp
    from Cons.IH [OF this] show ?thesis
      using False Cons.prems(2) unseen_update [of s seen] by simp
  qed
qed simp

text \<open>The outer loop: whether the sink is met before the stack runs empty. The seen flags have the
  length of the block table.\<close>

function search_loop :: "cfg_function \<Rightarrow> (nat \<Rightarrow> bool) \<Rightarrow> nat \<Rightarrow> bool list \<Rightarrow> nat list \<Rightarrow> bool" where
  "search_loop fn skip to_local seen stack =
     (case stack of
        [] \<Rightarrow> False
      | cur # stack \<Rightarrow>
          (if length seen \<noteq> length (cf_blocks fn) then False
           else case scan_successors (length (cf_blocks fn)) skip to_local
                       (bb_successors (cf_blocks fn ! cur)) seen stack of
                  None \<Rightarrow> True
                | Some (seen, stack) \<Rightarrow> search_loop fn skip to_local seen stack))"
  by pat_completeness auto
termination
  by (relation "measure (\<lambda>(fn, skip, to_local, seen, stack). unseen seen + length stack)")
    (auto dest: scan_successors_measure)

declare search_loop.simps [simp del]

definition search_from :: "cfg_function \<Rightarrow> (nat \<Rightarrow> bool) \<Rightarrow> nat \<Rightarrow> nat \<Rightarrow> bool" where
  "search_from fn skip from_local to_local =
     search_loop fn skip to_local ((replicate (length (cf_blocks fn)) False)[from_local := True]) [from_local]"

definition reachable :: "cfg_function \<Rightarrow> nat \<Rightarrow> nat \<Rightarrow> bool" where
  "reachable fn from_local to_local =
     (if from_local \<ge> length (cf_blocks fn) \<or> to_local \<ge> length (cf_blocks fn) then False
      else if from_local = to_local then True
      else search_from fn (\<lambda>_. False) from_local to_local)"

text \<open>The guarded walk of \<open>dominates_query\<close> up the dominator tree.\<close>

fun dominates_walk :: "cfg_function \<Rightarrow> nat \<Rightarrow> nat \<Rightarrow> nat \<Rightarrow> bool" where
  "dominates_walk fn a_local 0 cur = False"
| "dominates_walk fn a_local (Suc guard) cur =
     (if cur = a_local then True
      else let parent = cf_idom fn ! cur in
           if parent = cur then a_local = cur
           else dominates_walk fn a_local guard parent)"

definition dominates_query :: "cfg_function \<Rightarrow> nat \<Rightarrow> nat \<Rightarrow> bool" where
  "dominates_query fn a_local b_local =
     (if a_local \<ge> length (cf_blocks fn) \<or> b_local \<ge> length (cf_blocks fn) then False
      else if length (cf_idom fn) \<noteq> length (cf_blocks fn) then a_local = 0
      else dominates_walk fn a_local (length (cf_blocks fn) + 1) b_local)"

definition barrier_separates :: "cfg_function \<Rightarrow> nat \<Rightarrow> nat \<Rightarrow> bool" where
  "barrier_separates fn from_local to_local =
     (if from_local \<ge> length (cf_blocks fn) \<or> to_local \<ge> length (cf_blocks fn) then False
      else if from_local = to_local then False
      else if \<not> search_from fn (\<lambda>_. False) from_local to_local then False
      else if bb_contains_barrier (cf_blocks fn ! to_local) then True
      else \<not> search_from fn (\<lambda>b. bb_contains_barrier (cf_blocks fn ! b)) from_local to_local)"

section \<open>The public queries\<close>

text \<open>Both ids must resolve into the same function; \<open>None\<close> is a null handle.\<close>

definition query_blocks :: "(cfg_function \<Rightarrow> nat \<Rightarrow> nat \<Rightarrow> bool) \<Rightarrow> cfg_storage option \<Rightarrow> nat \<Rightarrow> nat \<Rightarrow> bool" where
  "query_blocks q impl a b =
     (case impl of
        None \<Rightarrow> False
      | Some st \<Rightarrow>
          let (a_fn, a_local) = resolve_block st a; (b_fn, b_local) = resolve_block st b in
          if a_fn = 0 \<or> b_fn = 0 \<or> a_fn \<noteq> b_fn then False
          else q (cs_functions st ! a_fn) a_local b_local)"

definition reachable_from :: "cfg_storage option \<Rightarrow> nat \<Rightarrow> nat \<Rightarrow> bool" where
  "reachable_from impl a b = query_blocks reachable impl a b"

definition cfg_dominates :: "cfg_storage option \<Rightarrow> nat \<Rightarrow> nat \<Rightarrow> bool" where
  "cfg_dominates impl a b = query_blocks dominates_query impl a b"

definition barrier_between :: "cfg_storage option \<Rightarrow> nat \<Rightarrow> nat \<Rightarrow> bool" where
  "barrier_between impl a b = query_blocks barrier_separates impl a b"

section \<open>Edges and paths\<close>

definition cfg_edge :: "cfg_function \<Rightarrow> nat \<Rightarrow> nat \<Rightarrow> bool" where
  "cfg_edge fn u v = (u < length (cf_blocks fn) \<and> v < length (cf_blocks fn) \<and> v \<in> set (bb_successors (cf_blocks fn ! u)))"

text \<open>Paths: \<open>cfg_path fn u p v\<close> says the edges lead from \<open>u\<close> to \<open>v\<close>, \<open>p\<close> being the blocks
  after \<open>u\<close>, \<open>v\<close> included.\<close>

inductive cfg_path :: "cfg_function \<Rightarrow> nat \<Rightarrow> nat list \<Rightarrow> nat \<Rightarrow> bool" for fn where
  here: "u < length (cf_blocks fn) \<Longrightarrow> cfg_path fn u [] u"
| step: "cfg_path fn u p v \<Longrightarrow> cfg_edge fn v w \<Longrightarrow> cfg_path fn u (p @ [w]) w"

inductive_cases cfg_path_snocE: "cfg_path fn u (p @ [w]) v"
inductive_cases cfg_path_NilE: "cfg_path fn u [] v"

text \<open>The blocks a search may pass: edges into blocks that are not skipped.\<close>

definition open_edges :: "cfg_function \<Rightarrow> (nat \<Rightarrow> bool) \<Rightarrow> (nat \<times> nat) set" where
  "open_edges fn skip = {(u, v). cfg_edge fn u v \<and> \<not> skip v}"

section \<open>What the searches find\<close>

text \<open>A block with an edge to the sink, reached from \<open>u\<close> through blocks that are not skipped.\<close>

definition leads_to :: "cfg_function \<Rightarrow> (nat \<Rightarrow> bool) \<Rightarrow> nat \<Rightarrow> nat \<Rightarrow> bool" where
  "leads_to fn skip u v = (\<exists>w. (u, w) \<in> (open_edges fn skip)\<^sup>* \<and> cfg_edge fn w v)"

lemma scan_successors_None:
  "scan_successors n skip to_local succs seen stack = None \<Longrightarrow> to_local \<in> set succs \<and> to_local < n"
  by (induction succs arbitrary: seen stack) (auto split: if_splits)

lemma scan_successors_Some:
  assumes "scan_successors n skip to_local succs seen stack = Some (seen', stack')" and "length seen = n"
    and "to_local < n" and "\<not> seen ! to_local"
  shows "\<exists>new. stack' = new @ stack \<and> length seen' = n \<and> (\<forall>v < n. seen' ! v \<longleftrightarrow> seen ! v \<or> v \<in> set new) \<and>
    (\<forall>v \<in> set new. v \<in> set succs \<and> v < n \<and> \<not> skip v \<and> v \<noteq> to_local) \<and>
    (\<forall>v \<in> set succs. v < n \<longrightarrow> v \<noteq> to_local \<and> (skip v \<or> seen' ! v))"
  using assms
proof (induction succs arbitrary: seen stack)
  case Nil
  then show ?case by (intro exI [of _ "[]"]) simp
next
  case (Cons s succs)
  consider (old) "s \<ge> n \<or> seen ! s" | (skipped) "s < n" "\<not> seen ! s" "s \<noteq> to_local" "skip s"
    | (new) "s < n" "\<not> seen ! s" "s \<noteq> to_local" "\<not> skip s"
    using Cons.prems(1) by fastforce
  then show ?case
  proof cases
    case old
    then have "scan_successors n skip to_local succs seen stack = Some (seen', stack')" using Cons.prems(1) by simp
    from Cons.IH [OF this Cons.prems(2-4)] obtain new where new: "stack' = new @ stack" "length seen' = n"
      "\<forall>v < n. seen' ! v \<longleftrightarrow> seen ! v \<or> v \<in> set new"
      "\<forall>v \<in> set new. v \<in> set succs \<and> v < n \<and> \<not> skip v \<and> v \<noteq> to_local"
      "\<forall>v \<in> set succs. v < n \<longrightarrow> v \<noteq> to_local \<and> (skip v \<or> seen' ! v)" by blast
    have "s < n \<longrightarrow> s \<noteq> to_local \<and> (skip s \<or> seen' ! s)"
      using old new(3) Cons.prems(3,4) by auto
    with new show ?thesis by (intro exI [of _ new]) auto
  next
    case skipped
    then have "scan_successors n skip to_local succs seen stack = Some (seen', stack')" using Cons.prems(1) by simp
    from Cons.IH [OF this Cons.prems(2-4)] obtain new where "stack' = new @ stack" "length seen' = n"
      "\<forall>v < n. seen' ! v \<longleftrightarrow> seen ! v \<or> v \<in> set new"
      "\<forall>v \<in> set new. v \<in> set succs \<and> v < n \<and> \<not> skip v \<and> v \<noteq> to_local"
      "\<forall>v \<in> set succs. v < n \<longrightarrow> v \<noteq> to_local \<and> (skip v \<or> seen' ! v)" by blast
    with skipped show ?thesis by (intro exI [of _ new]) auto
  next
    case new
    then have "scan_successors n skip to_local succs (seen[s := True]) (s # stack) = Some (seen', stack')"
      using Cons.prems(1) by simp
    from Cons.IH [OF this] new(3) Cons.prems(2-4) obtain more where more: "stack' = more @ s # stack" "length seen' = n"
      "\<forall>v < n. seen' ! v \<longleftrightarrow> (seen[s := True]) ! v \<or> v \<in> set more"
      "\<forall>v \<in> set more. v \<in> set succs \<and> v < n \<and> \<not> skip v \<and> v \<noteq> to_local"
      "\<forall>v \<in> set succs. v < n \<longrightarrow> v \<noteq> to_local \<and> (skip v \<or> seen' ! v)" by fastforce
    have "\<forall>v < n. seen' ! v \<longleftrightarrow> seen ! v \<or> v \<in> set (more @ [s])"
      using more(3) new(1) Cons.prems(2) by (auto simp: nth_list_update)
    with new more show ?thesis by (intro exI [of _ "more @ [s]"]) auto
  qed
qed

lemma leads_to_step: "(u, v) \<in> open_edges fn skip \<Longrightarrow> leads_to fn skip v w \<Longrightarrow> leads_to fn skip u w"
  unfolding leads_to_def by (meson converse_rtrancl_into_rtrancl)

lemma search_loop_iff:
  assumes "length seen = length (cf_blocks fn)" and "to_local < length (cf_blocks fn)" and "\<not> seen ! to_local"
    and "\<forall>u \<in> set stack. u < length (cf_blocks fn) \<and> seen ! u"
    and "\<forall>u v. u < length (cf_blocks fn) \<longrightarrow> seen ! u \<longrightarrow> u \<notin> set stack \<longrightarrow> cfg_edge fn u v \<longrightarrow>
           v \<noteq> to_local \<and> (skip v \<or> seen ! v)"
  shows "search_loop fn skip to_local seen stack \<longleftrightarrow>
    (\<exists>u < length (cf_blocks fn). seen ! u \<and> leads_to fn skip u to_local)"
  using assms
proof (induction fn skip to_local seen stack rule: search_loop.induct)
  case (1 fn skip to_local seen stack)
  let ?n = "length (cf_blocks fn)"
  show ?case
  proof (cases stack)
    case Nil
    have closed: "w < ?n \<and> seen ! w" if "(u, w) \<in> (open_edges fn skip)\<^sup>*" "u < ?n" "seen ! u" for u w
      using that
    proof (induction rule: rtrancl_induct)
      case (step v w)
      then show ?case using 1(6) Nil by (auto simp: open_edges_def cfg_edge_def)
    qed simp
    have "\<not> leads_to fn skip u to_local" if "u < ?n" "seen ! u" for u
      using closed [OF _ that] 1(6) Nil by (auto simp: leads_to_def)
    then show ?thesis using Nil by (subst search_loop.simps) auto
  next
    case (Cons cur rest)
    have cur: "cur < ?n" "seen ! cur" using 1(5) Cons by simp_all
    show ?thesis
    proof (cases "scan_successors ?n skip to_local (bb_successors (cf_blocks fn ! cur)) seen rest")
      case None
      then have "cfg_edge fn cur to_local"
        using scan_successors_None cur(1) by (auto simp: cfg_edge_def)
      then have "leads_to fn skip cur to_local" unfolding leads_to_def by blast
      then show ?thesis using cur None Cons 1(2) by (subst search_loop.simps) auto
    next
      case (Some r)
      obtain seen' stack' where r: "r = (seen', stack')" by fastforce
      obtain new where new: "stack' = new @ rest" "length seen' = ?n"
        "\<forall>v < ?n. seen' ! v \<longleftrightarrow> seen ! v \<or> v \<in> set new"
        "\<forall>v \<in> set new. v \<in> set (bb_successors (cf_blocks fn ! cur)) \<and> v < ?n \<and> \<not> skip v \<and> v \<noteq> to_local"
        "\<forall>v \<in> set (bb_successors (cf_blocks fn ! cur)). v < ?n \<longrightarrow> v \<noteq> to_local \<and> (skip v \<or> seen' ! v)"
        using scan_successors_Some [OF Some [unfolded r] 1(2,3,4)] by blast
      have edge: "(cur, v) \<in> open_edges fn skip" if "v \<in> set new" for v
        using new(4) that cur(1) by (simp add: open_edges_def cfg_edge_def)
      have same: "\<not> length seen \<noteq> ?n" using 1(2) by simp
      have "search_loop fn skip to_local seen stack = search_loop fn skip to_local seen' stack'"
        using Some r Cons 1(2) by (subst search_loop.simps) simp
      also have "\<dots> = (\<exists>u < ?n. seen' ! u \<and> leads_to fn skip u to_local)"
      proof (rule 1(1) [OF Cons same Some r [symmetric]])
        show "\<not> seen' ! to_local" using new(3,4) 1(3,4) by auto
        show "\<forall>u \<in> set stack'. u < ?n \<and> seen' ! u" using new 1(5) Cons by auto
        show "\<forall>u v. u < ?n \<longrightarrow> seen' ! u \<longrightarrow> u \<notin> set stack' \<longrightarrow> cfg_edge fn u v \<longrightarrow> v \<noteq> to_local \<and> (skip v \<or> seen' ! v)"
        proof (intro allI impI)
          fix u v assume u: "u < ?n" "seen' ! u" "u \<notin> set stack'" "cfg_edge fn u v"
          then have "seen ! u" using new(1,3) by auto
          show "v \<noteq> to_local \<and> (skip v \<or> seen' ! v)"
          proof (cases "u = cur")
            case True
            then show ?thesis using new(5) u(4) by (simp add: cfg_edge_def)
          next
            case False
            then have "u \<notin> set stack" using u(3) new(1) Cons by auto
            then have "v \<noteq> to_local \<and> (skip v \<or> seen ! v)" using 1(6) u \<open>seen ! u\<close> by blast
            then show ?thesis using new(3) u(4) by (auto simp: cfg_edge_def)
          qed
        qed
      qed (use new(2) 1(3) in simp_all)
      also have "\<dots> = (\<exists>u < ?n. seen ! u \<and> leads_to fn skip u to_local)"
        using new(3) cur edge leads_to_step by blast
      finally show ?thesis .
    qed
  qed
qed

lemma search_from_iff:
  assumes "u < length (cf_blocks fn)" and "v < length (cf_blocks fn)" and "u \<noteq> v"
  shows "search_from fn skip u v \<longleftrightarrow> leads_to fn skip u v"
proof -
  have "(replicate (length (cf_blocks fn)) False)[u := True] ! w \<longleftrightarrow> w = u" if "w < length (cf_blocks fn)" for w
    using that assms(1) by (simp add: nth_list_update)
  then show ?thesis
    unfolding search_from_def using assms by (subst search_loop_iff) auto
qed

section \<open>Paths\<close>

text \<open>
  The contract of a search in a graph: it finds a way from one node to another that enters no
  skipped node before its end. What it says of paths is proved from that alone.
\<close>

locale path_search =
  fixes nodes :: "nat set" and edge :: "nat \<Rightarrow> nat \<Rightarrow> bool"
    and search :: "(nat \<Rightarrow> bool) \<Rightarrow> nat \<Rightarrow> nat \<Rightarrow> bool"
  assumes edge_nodes: "edge u v \<Longrightarrow> u \<in> nodes \<and> v \<in> nodes"
    and search_iff: "u \<in> nodes \<Longrightarrow> v \<in> nodes \<Longrightarrow> u \<noteq> v \<Longrightarrow>
      search skip u v \<longleftrightarrow> (\<exists>w. (u, w) \<in> {(a, b). edge a b \<and> \<not> skip b}\<^sup>* \<and> edge w v)"
begin

lemma search_reaches:
  assumes "u \<in> nodes" and "v \<in> nodes" and "u \<noteq> v"
  shows "search (\<lambda>_. False) u v \<longleftrightarrow> (u, v) \<in> {(a, b). edge a b}\<^sup>*"
proof -
  have "(\<exists>w. (u, w) \<in> {(a, b). edge a b}\<^sup>* \<and> edge w v) \<longleftrightarrow> (u, v) \<in> {(a, b). edge a b}\<^sup>+"
    by (auto simp: trancl_unfold_right)
  then show ?thesis using search_iff [OF assms, of "\<lambda>_. False"] assms(3) by (simp add: rtrancl_eq_or_trancl)
qed

end

interpretation cfg_search: path_search "{..<length (cf_blocks fn)}" "cfg_edge fn" "search_from fn" for fn
  by unfold_locales (auto simp: cfg_edge_def search_from_iff leads_to_def open_edges_def)

lemma cfg_path_bounds: "cfg_path fn u p v \<Longrightarrow> u < length (cf_blocks fn) \<and> v < length (cf_blocks fn)"
  by (induction rule: cfg_path.induct) (auto simp: cfg_edge_def)

lemma cfg_path_rtrancl:
  "u < length (cf_blocks fn) \<Longrightarrow>
     (u, w) \<in> (open_edges fn skip)\<^sup>* \<longleftrightarrow> (\<exists>p. cfg_path fn u p w \<and> (\<forall>b \<in> set p. \<not> skip b))"
proof
  assume u: "u < length (cf_blocks fn)" and "(u, w) \<in> (open_edges fn skip)\<^sup>*"
  from this(2) show "\<exists>p. cfg_path fn u p w \<and> (\<forall>b \<in> set p. \<not> skip b)"
  proof (induction rule: rtrancl_induct)
    case base
    then show ?case using u by (intro exI [of _ "[]"]) (simp add: cfg_path.here)
  next
    case (step v w)
    then obtain p where "cfg_path fn u p v" "\<forall>b \<in> set p. \<not> skip b" by blast
    then show ?case using step(2) by (intro exI [of _ "p @ [w]"]) (auto simp: open_edges_def intro: cfg_path.step)
  qed
next
  assume "\<exists>p. cfg_path fn u p w \<and> (\<forall>b \<in> set p. \<not> skip b)"
  then obtain p where "cfg_path fn u p w" "\<forall>b \<in> set p. \<not> skip b" by blast
  then show "(u, w) \<in> (open_edges fn skip)\<^sup>*"
    by (induction rule: cfg_path.induct) (auto simp: open_edges_def intro: rtrancl.rtrancl_into_rtrancl)
qed

lemma leads_to_path:
  assumes "u < length (cf_blocks fn)" and "u \<noteq> v"
  shows "leads_to fn skip u v \<longleftrightarrow> (\<exists>p. cfg_path fn u p v \<and> (\<forall>b \<in> set (butlast p). \<not> skip b))"
proof
  assume "leads_to fn skip u v"
  then obtain w p where "cfg_path fn u p w" "\<forall>b \<in> set p. \<not> skip b" "cfg_edge fn w v"
    using cfg_path_rtrancl [OF assms(1)] by (auto simp: leads_to_def)
  then show "\<exists>p. cfg_path fn u p v \<and> (\<forall>b \<in> set (butlast p). \<not> skip b)"
    by (intro exI [of _ "p @ [v]"]) (simp add: cfg_path.step)
next
  assume "\<exists>p. cfg_path fn u p v \<and> (\<forall>b \<in> set (butlast p). \<not> skip b)"
  then obtain p where p: "cfg_path fn u p v" "\<forall>b \<in> set (butlast p). \<not> skip b" by blast
  from p(1) show "leads_to fn skip u v"
  proof (cases rule: cfg_path.cases)
    case here
    then show ?thesis using assms(2) by simp
  next
    case (step q w)
    then show ?thesis
      using p(2) cfg_path_rtrancl [OF assms(1), of w skip] by (auto simp: leads_to_def)
  qed
qed

lemma cfg_path_last: "cfg_path fn u p v \<Longrightarrow> u \<noteq> v \<Longrightarrow> p \<noteq> [] \<and> last p = v"
  by (induction rule: cfg_path.induct) auto

lemma barrier_separates_paths:
  "barrier_separates fn u v \<longleftrightarrow>
     u < length (cf_blocks fn) \<and> v < length (cf_blocks fn) \<and> u \<noteq> v \<and> (\<exists>p. cfg_path fn u p v) \<and>
     (\<forall>p. cfg_path fn u p v \<longrightarrow> (\<exists>b \<in> set p. bb_contains_barrier (cf_blocks fn ! b)))"
proof (cases "u < length (cf_blocks fn) \<and> v < length (cf_blocks fn) \<and> u \<noteq> v")
  case True
  then have uv: "u < length (cf_blocks fn)" "v < length (cf_blocks fn)" "u \<noteq> v" by simp_all
  let ?barrier = "\<lambda>b. bb_contains_barrier (cf_blocks fn ! b)"
  have reach: "search_from fn (\<lambda>_. False) u v \<longleftrightarrow> (\<exists>p. cfg_path fn u p v)"
    using search_from_iff [OF uv] leads_to_path [OF uv(1,3)] by simp
  have free: "search_from fn ?barrier u v \<longleftrightarrow> (\<exists>p. cfg_path fn u p v \<and> (\<forall>b \<in> set (butlast p). \<not> ?barrier b))"
    using search_from_iff [OF uv] leads_to_path [OF uv(1,3)] by simp
  have split: "(\<exists>b \<in> set p. ?barrier b) \<longleftrightarrow> ?barrier v \<or> (\<exists>b \<in> set (butlast p). ?barrier b)" if "cfg_path fn u p v" for p
  proof -
    have "p = butlast p @ [v]" using cfg_path_last [OF that uv(3)] by (metis append_butlast_last_id)
    then have "set p = insert v (set (butlast p))" by (metis list.simps(15) rotate1.simps(2) set_rotate1)
    then show ?thesis by auto
  qed
  show ?thesis
  proof (cases "?barrier v")
    case True
    then show ?thesis using uv reach split by (auto simp: barrier_separates_def)
  next
    case False
    then have "barrier_separates fn u v \<longleftrightarrow> (\<exists>p. cfg_path fn u p v) \<and>
        \<not> (\<exists>p. cfg_path fn u p v \<and> (\<forall>b \<in> set (butlast p). \<not> ?barrier b))"
      using uv reach free by (simp add: barrier_separates_def)
    then show ?thesis using uv split False by blast
  qed
qed (auto simp: barrier_separates_def)

text \<open>A graph for the examples: a diamond from the entry to block 3 with a barrier on one arm, and an
  unreachable block.\<close>

definition sample_block :: "nat list \<Rightarrow> bool \<Rightarrow> basic_block" where
  "sample_block succs barrier =
     \<lparr>bb_span = \<lparr>sp_source = \<lparr>sid_value = 1\<rparr>, sp_bytes = \<lparr>bs_lo = 0, bs_hi = 0\<rparr>\<rparr>, bb_successors = succs,
      bb_contains_barrier = barrier, bb_contains_discard = False, bb_is_exit = False, bb_tainted_by_error = False\<rparr>"

definition diamond :: cfg_function where
  "diamond =
     \<lparr>cf_declaration_span = \<lparr>sp_source = \<lparr>sid_value = 1\<rparr>, sp_bytes = \<lparr>bs_lo = 0, bs_hi = 0\<rparr>\<rparr>, cf_name = ''main'',
      cf_blocks = [sample_block [1, 2] False, sample_block [3] True, sample_block [3] False,
                   sample_block [1] False, sample_block [3] False],
      cf_idom = [], cf_error_skipped = False\<rparr>"

section \<open>Properties\<close>

text \<open>C34: The depth-first search behind \<open>reachable_from\<close> decides reachability: it answers true exactly
  when the control-flow graph has a path between the two blocks, the empty path included.\<close>

theorem reachable_is_path:
  "reachable fn u v \<longleftrightarrow> u < length (cf_blocks fn) \<and> v < length (cf_blocks fn) \<and> (\<exists>p. cfg_path fn u p v)"
proof (cases "u < length (cf_blocks fn) \<and> v < length (cf_blocks fn) \<and> u \<noteq> v")
  case True
  then show ?thesis
    using search_from_iff [of u fn v] leads_to_path [of u fn v] by (simp add: reachable_def)
next
  case False
  have "u < length (cf_blocks fn) \<Longrightarrow> cfg_path fn u [] u" by (rule cfg_path.here)
  with False show ?thesis by (auto simp: reachable_def)
qed

text \<open>C26: The two searches behind \<open>barrier_between\<close> decide its contract: from a block without a barrier
  of its own, the answer is true exactly when both blocks exist, some path leads to the sink, and every path to it passes through at
  least one barrier block.\<close>

theorem barrier_separates_all_paths:
  assumes "\<not> bb_contains_barrier (cf_blocks fn ! u)"
  shows "barrier_separates fn u v \<longleftrightarrow>
     u < length (cf_blocks fn) \<and> v < length (cf_blocks fn) \<and> (\<exists>p. cfg_path fn u p v) \<and>
     (\<forall>p. cfg_path fn u p v \<longrightarrow> (\<exists>b \<in> set (u # p). bb_contains_barrier (cf_blocks fn ! b)))"
proof -
  have "cfg_path fn u [] u" if "u < length (cf_blocks fn)" using that by (rule cfg_path.here)
  then show ?thesis using assms barrier_separates_paths [of fn u v] by (cases "u = v") auto
qed

theorem barrier_separates_all_paths_witness:
  "barrier_separates diamond 3 1 \<and> \<not> barrier_separates diamond 0 3 \<and> cfg_path diamond 3 [1] 1"
proof -
  have path: "cfg_path diamond 3 [1] 1"
    using cfg_path.step [OF cfg_path.here [of 3 diamond], of 1] by (simp add: diamond_def cfg_edge_def sample_block_def)
  have barrier: "bb_contains_barrier (cf_blocks diamond ! 1)" and start: "\<not> bb_contains_barrier (cf_blocks diamond ! 3)"
    by (simp_all add: diamond_def sample_block_def)
  have "\<exists>b \<in> set (3 # p). bb_contains_barrier (cf_blocks diamond ! b)" if "cfg_path diamond 3 p 1" for p
  proof (cases p rule: rev_cases)
    case Nil
    with that show ?thesis by (auto elim: cfg_path_NilE)
  next
    case (snoc q w)
    with that have "w = 1" by (auto elim: cfg_path_snocE)
    with snoc barrier show ?thesis by simp
  qed
  moreover have "length (cf_blocks diamond) = 5" by (simp add: diamond_def)
  ultimately have "barrier_separates diamond 3 1"
    using path barrier_separates_all_paths [OF start, of 1] by auto
  moreover have "\<not> barrier_separates diamond 0 3" by code_simp
  ultimately show ?thesis using path by simp
qed

end
