(* ===== verification/Dominators.thy ===== *)
theory Dominators
  imports Cfg "HOL-Library.Monad_Syntax"
begin

text \<open>
  \<^verbatim>\<open>core/src/control_flow/dominators.cpp\<close>: the iterative dominator computation. The order
  of the blocks comes from a depth-first search with an explicit stack; the table of immediate
  dominators starts with the entry alone and is swept in that order until nothing changes. An
  undefined entry (\<open>k_undefined\<close>) is \<open>None\<close>. The loops whose end depends on the table are
  partial functions: \<open>None\<close> at their outer type means that the loop does not end, and the
  correctness theorem of the theory \<open>Dominance\<close> says that this does not happen.
\<close>

section \<open>Reverse postorder\<close>

text \<open>The stack holds a node and the index of its next successor, the top first. The seen flags have
  one entry per block, so the test \<open>next < block_count\<close> is one on their length.\<close>

definition stack_weight :: "cfg_function \<Rightarrow> (nat \<times> nat) list \<Rightarrow> nat" where
  "stack_weight fn stack =
     sum_list (map (\<lambda>(node, i). Suc (length (bb_successors (cf_blocks fn ! node)) - i)) stack)"

function dfs_loop :: "cfg_function \<Rightarrow> bool list \<Rightarrow> (nat \<times> nat) list \<Rightarrow> nat list \<Rightarrow> nat list" where
  "dfs_loop fn seen stack order =
     (case stack of
        [] \<Rightarrow> order
      | (node, succ_index) # stack \<Rightarrow>
          if node \<ge> length (cf_blocks fn) then dfs_loop fn seen stack order
          else let successors = bb_successors (cf_blocks fn ! node) in
            if succ_index < length successors
            then let nxt = successors ! succ_index in
              if nxt < length seen \<and> \<not> seen ! nxt
              then dfs_loop fn (seen[nxt := True]) ((nxt, 0) # (node, succ_index + 1) # stack) order
              else dfs_loop fn seen ((node, succ_index + 1) # stack) order
            else dfs_loop fn seen stack (order @ [node]))"
  by pat_completeness auto
termination
proof (relation "inv_image (less_than <*lex*> less_than)
    (\<lambda>(fn, seen, stack, order). (unseen seen, stack_weight fn stack))", goal_cases)
  case (3 fn seen stack order p rest node i)
  then show ?case using unseen_update by (force simp: stack_weight_def)
qed (auto simp: stack_weight_def)

declare dfs_loop.simps [simp del]

definition reverse_postorder :: "cfg_function \<Rightarrow> nat list" where
  "reverse_postorder fn =
     (if cf_blocks fn = [] then []
      else rev (dfs_loop fn ((replicate (length (cf_blocks fn)) False)[0 := True]) [(0, 0)] []))"

definition postorder_numbers :: "nat \<Rightarrow> nat list \<Rightarrow> nat list" where
  "postorder_numbers block_count rpo =
     fold (\<lambda>i num. num[rpo ! i := length rpo - 1 - i]) [0..<length rpo] (replicate block_count 0)"

section \<open>Predecessors\<close>

definition add_predecessor :: "cfg_function \<Rightarrow> nat \<Rightarrow> nat \<Rightarrow> nat list list \<Rightarrow> nat list list" where
  "add_predecessor fn b succ preds =
     (if succ < length (cf_blocks fn) then preds[succ := preds ! succ @ [b]] else preds)"

definition compute_predecessors :: "cfg_function \<Rightarrow> nat list list" where
  "compute_predecessors fn =
     fold (\<lambda>b. fold (add_predecessor fn b) (bb_successors (cf_blocks fn ! b)))
       [0..<length (cf_blocks fn)] (replicate (length (cf_blocks fn)) [])"

section \<open>The fixed point\<close>

text \<open>One of the two inner loops of \<open>intersect\<close>: the node it stops at, or nothing for the early
  return with \<open>k_undefined\<close>.\<close>

partial_function (option) climb_side :: "nat option list \<Rightarrow> nat list \<Rightarrow> nat \<Rightarrow> nat \<Rightarrow> nat option option" where
  "climb_side idom num b other =
     (if num ! b < num ! other
      then (case idom ! b of
              None \<Rightarrow> Some None
            | Some nxt \<Rightarrow> if nxt = b then Some (Some b) else climb_side idom num nxt other)
      else Some (Some b))"

partial_function (option) intersect :: "nat option list \<Rightarrow> nat list \<Rightarrow> nat \<Rightarrow> nat \<Rightarrow> nat option option" where
  "intersect idom num b1 b2 =
     (if b1 = b2 then Some (Some b1)
      else do {
        r1 \<leftarrow> climb_side idom num b1 b2;
        (case r1 of
           None \<Rightarrow> Some None
         | Some c1 \<Rightarrow> do {
             r2 \<leftarrow> climb_side idom num b2 c1;
             (case r2 of
                None \<Rightarrow> Some None
              | Some c2 \<Rightarrow>
                  if num ! c1 = num ! c2 \<and> c1 \<noteq> c2 then Some None
                  else intersect idom num c1 c2) }) })"

text \<open>The loop over the predecessors of a block, and a sweep over the blocks.\<close>

fun meet_preds :: "nat option list \<Rightarrow> nat list \<Rightarrow> nat list \<Rightarrow> nat option \<Rightarrow> nat option option" where
  "meet_preds idom num [] new_idom = Some new_idom"
| "meet_preds idom num (p # ps) new_idom =
     (if idom ! p = None then meet_preds idom num ps new_idom
      else case new_idom of
             None \<Rightarrow> meet_preds idom num ps (Some p)
           | Some m \<Rightarrow> do {
               intersected \<leftarrow> intersect idom num p m;
               meet_preds idom num ps (case intersected of None \<Rightarrow> Some m | Some c \<Rightarrow> Some c) })"

fun dom_pass :: "nat list \<Rightarrow> nat list list \<Rightarrow> nat list \<Rightarrow> nat option list \<Rightarrow> bool \<Rightarrow> (nat option list \<times> bool) option" where
  "dom_pass num preds [] idom changed = Some (idom, changed)"
| "dom_pass num preds (b # bs) idom changed = do {
     new_idom \<leftarrow> meet_preds idom num (preds ! b) None;
     (if new_idom \<noteq> None \<and> idom ! b \<noteq> new_idom
      then dom_pass num preds bs (idom[b := new_idom]) True
      else dom_pass num preds bs idom changed) }"

partial_function (option) dom_fix :: "nat list \<Rightarrow> nat list list \<Rightarrow> nat list \<Rightarrow> nat option list \<Rightarrow> nat option list option" where
  "dom_fix num preds bs idom = do {
     (idom', changed) \<leftarrow> dom_pass num preds bs idom False;
     (if changed then dom_fix num preds bs idom' else Some idom') }"

definition compute_dominators :: "cfg_function \<Rightarrow> cfg_function option" where
  "compute_dominators fn =
     (let block_count = length (cf_blocks fn) in
      if cf_error_skipped fn
      then Some (if length (cf_idom fn) \<noteq> block_count then fn\<lparr>cf_idom := replicate block_count 0\<rparr> else fn)
      else if block_count = 0 then Some (fn\<lparr>cf_idom := []\<rparr>)
      else do {
        let rpo = reverse_postorder fn;
        let num = postorder_numbers block_count rpo;
        let preds = compute_predecessors fn;
        idom \<leftarrow> dom_fix num preds (tl rpo) ((replicate block_count None)[0 := Some 0]);
        Some (fn\<lparr>cf_idom := map (\<lambda>parent. case parent of None \<Rightarrow> 0 | Some p \<Rightarrow> p) idom\<rparr>) })"

declare climb_side.simps [code] intersect.simps [code] dom_fix.simps [code]

text \<open>The loop over the functions of a storage, all but the sentinel.\<close>

fun dominators_of_list :: "cfg_function list \<Rightarrow> cfg_function list option" where
  "dominators_of_list [] = Some []"
| "dominators_of_list (fn # fns) = do {
     fn' \<leftarrow> compute_dominators fn;
     fns' \<leftarrow> dominators_of_list fns;
     Some (fn' # fns') }"

definition compute_all_dominators :: "cfg_storage \<Rightarrow> cfg_storage option" where
  "compute_all_dominators st = do {
     fns \<leftarrow> dominators_of_list (tl (cs_functions st));
     Some (st\<lparr>cs_functions := take 1 (cs_functions st) @ fns\<rparr>) }"

section \<open>What the depth-first search leaves\<close>

text \<open>\<open>p\<close> comes after \<open>v\<close> in a list.\<close>

definition later :: "nat list \<Rightarrow> nat \<Rightarrow> nat \<Rightarrow> bool" where
  "later xs p v = (\<exists>as bs. xs = as @ v # bs \<and> p \<in> set bs)"

lemma later_append: "later xs p v \<Longrightarrow> later (xs @ ys) p v"
  by (fastforce simp: later_def)

lemma later_last: "v \<in> set xs \<Longrightarrow> later (xs @ [p]) p v"
  by (fastforce simp: later_def dest: split_list)

text \<open>The state of the search: what is seen is finished or on the stack, everything finished or on the
  stack is reached from the entry, finished blocks lead to seen ones, each stack entry is a successor
  of the next, the entry is at the bottom, and every finished block but the entry has a predecessor
  that is still on the stack or finished after it.\<close>

definition dfs_inv :: "cfg_function \<Rightarrow> bool list \<Rightarrow> (nat \<times> nat) list \<Rightarrow> nat list \<Rightarrow> bool" where
  "dfs_inv fn seen stack order \<longleftrightarrow>
     length seen = length (cf_blocks fn) \<and>
     distinct (map fst stack @ order) \<and>
     (\<forall>v. v < length seen \<and> seen ! v \<longleftrightarrow> v \<in> fst ` set stack \<union> set order) \<and>
     (\<forall>v \<in> fst ` set stack \<union> set order. \<exists>p. cfg_path fn 0 p v) \<and>
     (\<forall>v \<in> set order. \<forall>w. cfg_edge fn v w \<longrightarrow> seen ! w) \<and>
     (\<forall>(v, i) \<in> set stack. \<forall>w \<in> set (take i (bb_successors (cf_blocks fn ! v))). w < length seen \<longrightarrow> seen ! w) \<and>
     successively (\<lambda>c p. cfg_edge fn (fst p) (fst c)) stack \<and>
     (if stack = [] then order \<noteq> [] \<and> last order = 0 else fst (last stack) = 0) \<and>
     (\<forall>v \<in> set order. v \<noteq> 0 \<longrightarrow> (\<exists>p. cfg_edge fn p v \<and> (p \<in> fst ` set stack \<or> later order p v)))"

lemma dfs_invD:
  assumes "dfs_inv fn seen stack order"
  shows "length seen = length (cf_blocks fn)"
    and "distinct (map fst stack @ order)"
    and "\<And>v. v < length seen \<and> seen ! v \<longleftrightarrow> v \<in> fst ` set stack \<union> set order"
    and "\<And>v. v \<in> fst ` set stack \<union> set order \<Longrightarrow> \<exists>p. cfg_path fn 0 p v"
    and "\<And>v w. v \<in> set order \<Longrightarrow> cfg_edge fn v w \<Longrightarrow> seen ! w"
    and "\<And>v i w. (v, i) \<in> set stack \<Longrightarrow> w \<in> set (take i (bb_successors (cf_blocks fn ! v))) \<Longrightarrow>
      w < length seen \<Longrightarrow> seen ! w"
    and "successively (\<lambda>c p. cfg_edge fn (fst p) (fst c)) stack"
    and "if stack = [] then order \<noteq> [] \<and> last order = 0 else fst (last stack) = 0"
    and "\<And>v. v \<in> set order \<Longrightarrow> v \<noteq> 0 \<Longrightarrow> \<exists>p. cfg_edge fn p v \<and> (p \<in> fst ` set stack \<or> later order p v)"
  using assms unfolding dfs_inv_def by blast+

lemma dfs_invI:
  assumes "length seen = length (cf_blocks fn)"
    and "distinct (map fst stack @ order)"
    and "\<And>v. v < length seen \<and> seen ! v \<longleftrightarrow> v \<in> fst ` set stack \<union> set order"
    and "\<And>v. v \<in> fst ` set stack \<union> set order \<Longrightarrow> \<exists>p. cfg_path fn 0 p v"
    and "\<And>v w. v \<in> set order \<Longrightarrow> cfg_edge fn v w \<Longrightarrow> seen ! w"
    and "\<And>v i w. (v, i) \<in> set stack \<Longrightarrow> w \<in> set (take i (bb_successors (cf_blocks fn ! v))) \<Longrightarrow>
      w < length seen \<Longrightarrow> seen ! w"
    and "successively (\<lambda>c p. cfg_edge fn (fst p) (fst c)) stack"
    and "if stack = [] then order \<noteq> [] \<and> last order = 0 else fst (last stack) = 0"
    and "\<And>v. v \<in> set order \<Longrightarrow> v \<noteq> 0 \<Longrightarrow> \<exists>p. cfg_edge fn p v \<and> (p \<in> fst ` set stack \<or> later order p v)"
  shows "dfs_inv fn seen stack order"
  unfolding dfs_inv_def
proof (intro conjI)
  show "\<forall>v. v < length seen \<and> seen ! v \<longleftrightarrow> v \<in> fst ` set stack \<union> set order" using assms(3) by (rule allI)
  show "\<forall>v \<in> fst ` set stack \<union> set order. \<exists>p. cfg_path fn 0 p v" using assms(4) by (rule ballI)
  show "\<forall>v \<in> set order. \<forall>w. cfg_edge fn v w \<longrightarrow> seen ! w" using assms(5) by (intro ballI allI impI)
  show "\<forall>(v, i) \<in> set stack. \<forall>w \<in> set (take i (bb_successors (cf_blocks fn ! v))). w < length seen \<longrightarrow> seen ! w"
    using assms(6) by blast
  show "\<forall>v \<in> set order. v \<noteq> 0 \<longrightarrow> (\<exists>p. cfg_edge fn p v \<and> (p \<in> fst ` set stack \<or> later order p v))"
    using assms(9) by (intro ballI impI)
qed (rule assms(1) assms(2) assms(7) assms(8))+

lemma dfs_inv_start:
  assumes "cf_blocks fn \<noteq> []"
  shows "dfs_inv fn ((replicate (length (cf_blocks fn)) False)[0 := True]) [(0, 0)] []"
  using assms by (intro dfs_invI) (auto simp: nth_list_update intro: cfg_path.here)

lemma take_Suc_succs:
  "i < length xs \<Longrightarrow> w \<in> set (take (i + 1) xs) \<longleftrightarrow> w = xs ! i \<or> w \<in> set (take i xs)"
  by (auto simp: take_Suc_conv_app_nth)

lemma dfs_inv_push:
  assumes inv: "dfs_inv fn seen ((node, i) # stack) order"
    and i: "i < length (bb_successors (cf_blocks fn ! node))" "bb_successors (cf_blocks fn ! node) ! i = v"
    and v: "v < length seen" "\<not> seen ! v"
  shows "dfs_inv fn (seen[v := True]) ((v, 0) # (node, i + 1) # stack) order"
proof -
  note parts = dfs_invD [OF inv]
  have edge: "cfg_edge fn node v"
    using parts(1) parts(3) [of node] i v(1) nth_mem [OF i(1)] by (simp add: cfg_edge_def)
  obtain p where "cfg_path fn 0 p node" using parts(4) [of node] by auto
  then have reach: "cfg_path fn 0 (p @ [v]) v" using edge by (rule cfg_path.step)
  have new: "v \<notin> fst ` set ((node, i) # stack) \<union> set order" using parts(3) [of v] v by blast
  have keep: "seen ! w \<Longrightarrow> seen[v := True] ! w" for w by (cases "w = v") (use v in simp_all)
  show ?thesis
  proof (rule dfs_invI)
    show "distinct (map fst ((v, 0) # (node, i + 1) # stack) @ order)" using parts(2) new by simp
    show "u < length (seen[v := True]) \<and> seen[v := True] ! u \<longleftrightarrow>
        u \<in> fst ` set ((v, 0) # (node, i + 1) # stack) \<union> set order" for u
      using parts(3) [of u] v by (cases "u = v") simp_all
    show "\<exists>p. cfg_path fn 0 p u" if "u \<in> fst ` set ((v, 0) # (node, i + 1) # stack) \<union> set order" for u
      using that parts(4) [of u] reach by auto
    show "seen[v := True] ! w" if "u \<in> set order" "cfg_edge fn u w" for u w
      using parts(5) [OF that] by (rule keep)
    show "seen[v := True] ! w" if "(u, j) \<in> set ((v, 0) # (node, i + 1) # stack)"
      "w \<in> set (take j (bb_successors (cf_blocks fn ! u)))" "w < length (seen[v := True])" for u j w
      using that parts(6) [of u j w] parts(6) [of node i w] take_Suc_succs [OF i(1)] i(2) v(1) keep by auto
    show "successively (\<lambda>c p. cfg_edge fn (fst p) (fst c)) ((v, 0) # (node, i + 1) # stack)"
      using parts(7) edge by (cases stack) auto
    show "\<exists>p. cfg_edge fn p u \<and> (p \<in> fst ` set ((v, 0) # (node, i + 1) # stack) \<or> later order p u)"
      if "u \<in> set order" "u \<noteq> 0" for u
      using parts(9) [OF that] by auto
  qed (use parts(1,8) in auto)
qed

lemma dfs_inv_next:
  assumes inv: "dfs_inv fn seen ((node, i) # stack) order"
    and i: "i < length (bb_successors (cf_blocks fn ! node))" "bb_successors (cf_blocks fn ! node) ! i = v"
    and v: "\<not> (v < length seen \<and> \<not> seen ! v)"
  shows "dfs_inv fn seen ((node, i + 1) # stack) order"
proof -
  note parts = dfs_invD [OF inv]
  show ?thesis
  proof (rule dfs_invI)
    show "u < length seen \<and> seen ! u \<longleftrightarrow> u \<in> fst ` set ((node, i + 1) # stack) \<union> set order" for u
      using parts(3) [of u] by simp
    show "\<exists>p. cfg_path fn 0 p u" if "u \<in> fst ` set ((node, i + 1) # stack) \<union> set order" for u
      using that parts(4) [of u] by simp
    show "seen ! w" if "(u, j) \<in> set ((node, i + 1) # stack)"
      "w \<in> set (take j (bb_successors (cf_blocks fn ! u)))" "w < length seen" for u j w
      using that parts(6) [of u j w] parts(6) [of node i w] take_Suc_succs [OF i(1)] i(2) v by auto
    show "successively (\<lambda>c p. cfg_edge fn (fst p) (fst c)) ((node, i + 1) # stack)"
      using parts(7) by (cases stack) auto
    show "\<exists>p. cfg_edge fn p u \<and> (p \<in> fst ` set ((node, i + 1) # stack) \<or> later order p u)"
      if "u \<in> set order" "u \<noteq> 0" for u
      using parts(9) [OF that] by auto
  qed (use parts(1,2,5,8) in \<open>auto split: if_splits\<close>)
qed

lemma dfs_inv_pop:
  assumes inv: "dfs_inv fn seen ((node, i) # stack) order"
    and i: "i \<ge> length (bb_successors (cf_blocks fn ! node))"
  shows "dfs_inv fn seen stack (order @ [node])"
proof -
  note parts = dfs_invD [OF inv]
  show ?thesis
  proof (rule dfs_invI)
    show "distinct (map fst stack @ order @ [node])" using parts(2) by auto
    show "u < length seen \<and> seen ! u \<longleftrightarrow> u \<in> fst ` set stack \<union> set (order @ [node])" for u
      using parts(3) [of u] by auto
    show "\<exists>p. cfg_path fn 0 p u" if "u \<in> fst ` set stack \<union> set (order @ [node])" for u
      using that parts(4) [of u] by auto
    show "seen ! w" if "u \<in> set (order @ [node])" "cfg_edge fn u w" for u w
      using that parts(1) parts(5) [of u w] parts(6) [of node i w] i by (auto simp: cfg_edge_def)
    show "seen ! w" if "(u, j) \<in> set stack" "w \<in> set (take j (bb_successors (cf_blocks fn ! u)))"
      "w < length seen" for u j w
      using that parts(6) [of u j w] by simp
    show "successively (\<lambda>c p. cfg_edge fn (fst p) (fst c)) stack" using parts(7) by (cases stack) auto
    show "if stack = [] then order @ [node] \<noteq> [] \<and> last (order @ [node]) = 0 else fst (last stack) = 0"
      using parts(8) by (auto split: if_splits)
    show "\<exists>p. cfg_edge fn p u \<and> (p \<in> fst ` set stack \<or> later (order @ [node]) p u)"
      if u: "u \<in> set (order @ [node])" "u \<noteq> 0" for u
    proof (cases "u \<in> set order")
      case True
      then obtain p where p: "cfg_edge fn p u" "p = node \<or> p \<in> fst ` set stack \<or> later order p u"
        using parts(9) u(2) by auto
      then have "p \<in> fst ` set stack \<or> later (order @ [node]) p u"
        using later_last [OF True] later_append by blast
      with p(1) show ?thesis by blast
    next
      case False
      then have "u = node" using u by simp
      then have "stack \<noteq> []" using parts(8) u(2) by auto
      then have "cfg_edge fn (fst (hd stack)) u" "fst (hd stack) \<in> fst ` set stack"
        using parts(7) \<open>u = node\<close> by (cases stack; simp)+
      then show ?thesis by blast
    qed
  qed (use parts(1) in auto)
qed

lemma dfs_loop_inv:
  "dfs_inv fn seen stack order \<Longrightarrow> \<exists>seen'. dfs_inv fn seen' [] (dfs_loop fn seen stack order)"
proof (induction fn seen stack order rule: dfs_loop.induct)
  case (1 fn seen stack order)
  show ?case
  proof (cases stack)
    case Nil
    then show ?thesis using 1(5) by (subst dfs_loop.simps) auto
  next
    case (Cons top rest)
    obtain node i where top: "top = (node, i)" by fastforce
    note inv = 1(5) [unfolded Cons top]
    have node: "\<not> node \<ge> length (cf_blocks fn)" using inv by (auto simp: dfs_inv_def)
    let ?succs = "bb_successors (cf_blocks fn ! node)"
    consider (push) "i < length ?succs" "?succs ! i < length seen \<and> \<not> seen ! (?succs ! i)"
      | (nxt) "i < length ?succs" "\<not> (?succs ! i < length seen \<and> \<not> seen ! (?succs ! i))"
      | (pop) "\<not> i < length ?succs" by blast
    then show ?thesis
    proof cases
      case push
      have "dfs_loop fn seen stack order =
          dfs_loop fn (seen[?succs ! i := True]) ((?succs ! i, 0) # (node, i + 1) # rest) order"
        using push node Cons top by (subst dfs_loop.simps) (simp add: Let_def)
      then show ?thesis
        using 1(2) [OF Cons top [symmetric] node refl push(1) refl push(2)] dfs_inv_push [OF inv push(1) refl] push(2) by simp
    next
      case nxt
      have "dfs_loop fn seen stack order = dfs_loop fn seen ((node, i + 1) # rest) order"
        using nxt node Cons top by (subst dfs_loop.simps) (simp only: Let_def list.case prod.case if_False if_True)
      then show ?thesis
        using 1(3) [OF Cons top [symmetric] node refl nxt(1) refl nxt(2)] dfs_inv_next [OF inv nxt(1) refl nxt(2)] by simp
    next
      case pop
      have "dfs_loop fn seen stack order = dfs_loop fn seen rest (order @ [node])"
        using pop node Cons top by (subst dfs_loop.simps) simp
      then show ?thesis
        using 1(4) [OF Cons top [symmetric] node refl pop] dfs_inv_pop [OF inv] pop by simp
    qed
  qed
qed

lemma dfs_order:
  assumes "cf_blocks fn \<noteq> []"
  defines "order \<equiv> rev (reverse_postorder fn)"
  shows "distinct order" and "order \<noteq> [] \<and> last order = 0"
    and "v \<in> set order \<longleftrightarrow> (\<exists>p. cfg_path fn 0 p v)"
    and "v \<in> set order \<Longrightarrow> v \<noteq> 0 \<Longrightarrow> \<exists>p. cfg_edge fn p v \<and> later order p v"
proof -
  obtain seen where inv: "dfs_inv fn seen [] order"
    using dfs_loop_inv [OF dfs_inv_start [OF assms(1)]] assms(1) by (auto simp: order_def reverse_postorder_def)
  note parts = dfs_invD [OF inv]
  show "distinct order" and last: "order \<noteq> [] \<and> last order = 0" using parts(2,8) by simp_all
  show "\<exists>p. cfg_edge fn p v \<and> later order p v" if "v \<in> set order" "v \<noteq> 0"
    using parts(9) [OF that] by simp
  have "w \<in> set order" if "cfg_path fn 0 p w" for p w
    using that
  proof (induction "0 :: nat" p w rule: cfg_path.induct)
    case here
    then show ?case using last last_in_set by metis
  next
    case (step p v w)
    then have "seen ! w" using parts(5) by simp
    then show ?case using step(3) parts(1) parts(3) [of w] by (auto simp: cfg_edge_def)
  qed
  then show "v \<in> set order \<longleftrightarrow> (\<exists>p. cfg_path fn 0 p v)" using parts(4) [of v] by auto
qed

section \<open>The numbers and the predecessors\<close>

lemma length_number_fold: "length (fold (\<lambda>i num. num[f i := g i]) is num) = length num"
  by (induction "is" arbitrary: num) simp_all

lemma postorder_numbers_nth:
  assumes "distinct rpo" and "\<forall>v \<in> set rpo. v < n" and "i < length rpo"
  shows "postorder_numbers n rpo ! (rpo ! i) = length rpo - 1 - i"
proof -
  have "fold (\<lambda>i num. num[rpo ! i := length rpo - 1 - i]) [0..<k] (replicate n 0) ! (rpo ! i) = length rpo - 1 - i"
    if "i < k" "k \<le> length rpo" for k
    using that
  proof (induction k)
    case (Suc k)
    let ?num = "fold (\<lambda>i num. num[rpo ! i := length rpo - 1 - i]) [0..<k] (replicate n 0)"
    have "length ?num = n" by (simp add: length_number_fold)
    moreover have "rpo ! i < n" using assms(2) nth_mem [OF assms(3)] by blast
    ultimately show ?case
      using Suc assms(1) nth_eq_iff_index_eq [OF assms(1), of i k] by (cases "i = k") auto
  qed simp
  then show ?thesis using assms(3) by (simp add: postorder_numbers_def)
qed

lemma postorder_numbers_descend:
  assumes "distinct rpo" and "\<forall>v \<in> set rpo. v < n"
  shows "sorted_wrt (\<lambda>u v. postorder_numbers n rpo ! v < postorder_numbers n rpo ! u) rpo"
  unfolding sorted_wrt_iff_nth_less using postorder_numbers_nth [OF assms] by auto

lemma add_predecessor_set:
  assumes "length preds = length (cf_blocks fn)" and "v < length (cf_blocks fn)"
  shows "length (add_predecessor fn b s preds) = length (cf_blocks fn)"
    and "x \<in> set (add_predecessor fn b s preds ! v) \<longleftrightarrow> x \<in> set (preds ! v) \<or> x = b \<and> s = v"
  using assms by (auto simp: add_predecessor_def nth_list_update)

lemma fold_add_predecessor:
  assumes "length preds = length (cf_blocks fn)" and "v < length (cf_blocks fn)"
  shows "length (fold (add_predecessor fn b) ss preds) = length (cf_blocks fn) \<and>
    (x \<in> set (fold (add_predecessor fn b) ss preds ! v) \<longleftrightarrow> x \<in> set (preds ! v) \<or> x = b \<and> v \<in> set ss)"
  using assms(1)
proof (induction ss arbitrary: preds)
  case (Cons s ss)
  show ?case
    using Cons.IH [OF add_predecessor_set(1) [OF Cons.prems assms(2), of b s]]
      add_predecessor_set(2) [OF Cons.prems assms(2), of x b s] by auto
qed simp

lemma compute_predecessors_edge:
  assumes "v < length (cf_blocks fn)"
  shows "length (compute_predecessors fn) = length (cf_blocks fn)"
    and "u \<in> set (compute_predecessors fn ! v) \<longleftrightarrow> cfg_edge fn u v"
proof -
  have *: "length (fold (\<lambda>b. fold (add_predecessor fn b) (succs b)) bs preds) = length (cf_blocks fn) \<and>
      (u \<in> set (fold (\<lambda>b. fold (add_predecessor fn b) (succs b)) bs preds ! v) \<longleftrightarrow>
        u \<in> set (preds ! v) \<or> u \<in> set bs \<and> v \<in> set (succs u))"
    if "length preds = length (cf_blocks fn)" for bs preds succs
    using that
  proof (induction bs arbitrary: preds)
    case (Cons b bs)
    show ?case
      using Cons.IH [of "fold (add_predecessor fn b) (succs b) preds"]
        fold_add_predecessor [OF Cons.prems assms, of b "succs b" u] by auto
  qed simp
  show "length (compute_predecessors fn) = length (cf_blocks fn)"
    and "u \<in> set (compute_predecessors fn ! v) \<longleftrightarrow> cfg_edge fn u v"
    using * [of "replicate (length (cf_blocks fn)) []" "\<lambda>b. bb_successors (cf_blocks fn ! b)" "[0..<length (cf_blocks fn)]"] assms
    by (auto simp: compute_predecessors_def cfg_edge_def)
qed

lemma length_compute_predecessors [simp]: "length (compute_predecessors fn) = length (cf_blocks fn)"
  by (cases "cf_blocks fn") (simp add: compute_predecessors_def, metis compute_predecessors_edge(1) length_greater_0_conv list.distinct(1))

end
