(* ===== verification/Dominance.thy ===== *)
theory Dominance
  imports Dominators
begin

text \<open>
  Correctness of \<^verbatim>\<open>core/src/control_flow/dominators.cpp\<close>. The locale \<open>numbered_flow\<close>
  states what the fixed point needs of its input: a list of the reached blocks in descending order of
  their numbers, the entry first, and for every other block a predecessor with a greater number. It
  is interpreted on the reverse postorder, the numbers and the predecessors the code computes. In it
  the sweeps are shown to end and the table they leave to describe dominance exactly.
\<close>

section \<open>Paths from the entry and chains of a table\<close>

inductive entry_path :: "nat list list \<Rightarrow> nat set \<Rightarrow> nat \<Rightarrow> bool" for preds where
  start: "0 < length preds \<Longrightarrow> entry_path preds {0} 0"
| step: "entry_path preds S p \<Longrightarrow> v < length preds \<Longrightarrow> p \<in> set (preds ! v) \<Longrightarrow> entry_path preds (insert v S) v"

definition on_all_paths :: "nat list list \<Rightarrow> nat \<Rightarrow> nat \<Rightarrow> bool" where
  "on_all_paths preds a v = (\<forall>S. entry_path preds S v \<longrightarrow> a \<in> S)"

text \<open>\<open>chain up a v\<close>: \<open>a\<close> is met on the way from \<open>v\<close> to the entry along \<open>up\<close>.\<close>

inductive chain :: "(nat \<Rightarrow> nat option) \<Rightarrow> nat \<Rightarrow> nat \<Rightarrow> bool" for up where
  here: "up v \<noteq> None \<Longrightarrow> chain up v v"
| above: "chain up a u \<Longrightarrow> up v = Some u \<Longrightarrow> v \<noteq> 0 \<Longrightarrow> chain up a v"

inductive_simps chain_entry: "chain up a 0"
inductive_cases chainE: "chain up a v"

lemma chain_defined: "chain up a v \<Longrightarrow> up v \<noteq> None"
  by (induction rule: chain.induct) simp_all

lemma chain_trans: "chain up b v \<Longrightarrow> chain up a b \<Longrightarrow> chain up a v"
  by (induction rule: chain.induct) (auto intro: chain.above)

lemma chain_step: "up v = Some u \<Longrightarrow> v \<noteq> 0 \<Longrightarrow> chain up a v \<longleftrightarrow> a = v \<or> chain up a u"
  by (subst chain.simps) (auto intro: chain.intros)

lemma on_all_paths_pred:
  "on_all_paths preds a v \<Longrightarrow> a \<noteq> v \<Longrightarrow> v < length preds \<Longrightarrow> p \<in> set (preds ! v) \<Longrightarrow> on_all_paths preds a p"
  unfolding on_all_paths_def
proof (intro allI impI)
  fix S
  assume avoid: "\<forall>S. entry_path preds S v \<longrightarrow> a \<in> S" "a \<noteq> v" "v < length preds" "p \<in> set (preds ! v)"
    and "entry_path preds S p"
  then have "entry_path preds (insert v S) v" by (intro entry_path.step)
  then show "a \<in> S" using avoid(1,2) by blast
qed

lemma on_all_paths_entry: "on_all_paths preds a 0 \<Longrightarrow> 0 < length preds \<Longrightarrow> a = 0"
  unfolding on_all_paths_def using entry_path.start [of preds] by blast

text \<open>The size of a table: it grows with every change the sweeps make.\<close>

definition table_weight :: "nat list \<Rightarrow> nat option list \<Rightarrow> nat" where
  "table_weight num x = sum_list (map (\<lambda>p. case p of None \<Rightarrow> 0 | Some u \<Rightarrow> Suc (num ! u)) x)"

lemma table_weight_update:
  assumes "b < length x" and "\<And>z. x ! b = Some z \<Longrightarrow> num ! z < num ! c"
  shows "table_weight num x < table_weight num (x[b := Some c])"
proof -
  let ?f = "\<lambda>p. case p of None \<Rightarrow> 0 | Some u \<Rightarrow> Suc (num ! u)"
  have "x = take b x @ x ! b # drop (Suc b) x" using assms(1) by (rule id_take_nth_drop)
  then have "table_weight num x = sum_list (map ?f (take b x)) + (?f (x ! b) + sum_list (map ?f (drop (Suc b) x)))"
    unfolding table_weight_def by (metis list.simps(9) map_append sum_list.Cons sum_list_append)
  moreover have "table_weight num (x[b := Some c]) =
      sum_list (map ?f (take b x)) + (Suc (num ! c) + sum_list (map ?f (drop (Suc b) x)))"
    using assms(1) by (simp add: table_weight_def upd_conv_take_nth_drop)
  moreover have "?f (x ! b) < Suc (num ! c)" using assms(2) by (cases "x ! b") auto
  ultimately show ?thesis by simp
qed

section \<open>The fixed point\<close>

locale numbered_flow =
  fixes rpo :: "nat list" and num :: "nat list" and preds :: "nat list list" and tree :: "nat \<Rightarrow> nat"
  assumes numbers: "sorted_wrt (\<lambda>u v. num ! v < num ! u) rpo"
    and entry: "rpo \<noteq> [] \<Longrightarrow> hd rpo = 0"
    and nodes: "v \<in> set rpo \<Longrightarrow> v < length preds"
    and pred_nodes: "v \<in> set rpo \<Longrightarrow> p \<in> set (preds ! v) \<Longrightarrow> p < length preds"
    and reached: "v \<in> set rpo \<longleftrightarrow> (\<exists>S. entry_path preds S v)"
    and parent: "v \<in> set rpo \<Longrightarrow> v \<noteq> 0 \<Longrightarrow>
      tree v \<in> set rpo \<and> tree v \<in> set (preds ! v) \<and> num ! v < num ! tree v"
begin

lemma num_inj: "u \<in> set rpo \<Longrightarrow> v \<in> set rpo \<Longrightarrow> num ! u = num ! v \<Longrightarrow> u = v"
  using numbers by (auto simp: in_set_conv_nth sorted_wrt_iff_nth_less) (metis less_irrefl linorder_neqE_nat)

lemma num_entry: "v \<in> set rpo \<Longrightarrow> v \<noteq> 0 \<Longrightarrow> num ! v < num ! 0"
  using numbers entry by (cases rpo) auto

lemma num_entry_le: "v \<in> set rpo \<Longrightarrow> num ! v \<le> num ! 0"
  using num_entry by (cases "v = 0") (auto intro: less_imp_le)

lemma entry_node: "v \<in> set rpo \<Longrightarrow> 0 \<in> set rpo"
  using entry by (cases rpo) auto

text \<open>Maps that lead from a node to one with a greater number.\<close>

definition climbing :: "(nat \<Rightarrow> nat option) \<Rightarrow> bool" where
  "climbing up \<longleftrightarrow> (\<forall>v \<in> set rpo. \<forall>u. v \<noteq> 0 \<longrightarrow> up v = Some u \<longrightarrow> u \<in> set rpo \<and> up u \<noteq> None \<and> num ! v < num ! u)"

definition tree_up :: "nat \<Rightarrow> nat option" where
  "tree_up v = (if v \<in> set rpo then Some (tree v) else None)"

lemma climbing_tree: "climbing tree_up"
  using parent by (auto simp: climbing_def tree_up_def)

lemma climbingD: "climbing up \<Longrightarrow> v \<in> set rpo \<Longrightarrow> v \<noteq> 0 \<Longrightarrow> up v = Some u \<Longrightarrow>
    u \<in> set rpo \<and> up u \<noteq> None \<and> num ! v < num ! u"
  by (auto simp: climbing_def)

lemma chain_bounds:
  assumes "chain up a v" and "climbing up" and "v \<in> set rpo"
  shows "a \<in> set rpo \<and> up a \<noteq> None \<and> num ! v \<le> num ! a"
  using assms
proof (induction rule: chain.induct)
  case (above a u v)
  then show ?case using climbingD [of up v u] by fastforce
qed simp

lemma chain_linear:
  assumes "chain up a v" and "chain up b v" and "climbing up" and "v \<in> set rpo" and "num ! a \<le> num ! b"
  shows "chain up b a"
  using assms
proof (induction rule: chain.induct)
  case (above a u v)
  have u: "u \<in> set rpo" "num ! v < num ! u" using climbingD [of up v u] above by auto
  have "num ! u \<le> num ! a" using chain_bounds [OF above(1)] above(6) u(1) by blast
  then have "b \<noteq> v" using u(2) above.prems(4) by auto
  then have "chain up b u" using above.prems(1) chain_step [of up v u b] above.hyps by blast
  then show ?case using above u(1) by blast
qed simp

lemma chain_agree:
  assumes "chain up a w" and "climbing up" and "w \<in> set rpo" and "num ! b < num ! w"
    and "\<And>v. v \<in> set rpo \<Longrightarrow> num ! b < num ! v \<Longrightarrow> up' v = up v"
  shows "chain up' a w"
  using assms
proof (induction rule: chain.induct)
  case (above a u v)
  then have "u \<in> set rpo" "num ! v < num ! u" using climbingD [of up v u] by auto
  then have "chain up' a u" using above by (meson less_trans)
  then show ?case using above by (auto intro: chain.above)
qed (auto intro: chain.here)

text \<open>Tables: the shape they keep.\<close>

definition shape :: "nat option list \<Rightarrow> bool" where
  "shape x \<longleftrightarrow> length x = length preds \<and> x ! 0 = Some 0 \<and>
     (\<forall>v < length preds. x ! v \<noteq> None \<longrightarrow> v \<in> set rpo) \<and> climbing (nth x)"

lemma shapeD:
  assumes "shape x"
  shows "length x = length preds" and "x ! 0 = Some 0" and "climbing (nth x)"
    and "\<And>v. v < length preds \<Longrightarrow> x ! v \<noteq> None \<Longrightarrow> v \<in> set rpo"
  using assms by (auto simp: shape_def)

lemma climb_side_chain:
  assumes "shape x" and "x ! b \<noteq> None" and "b \<in> set rpo" and "k \<in> set rpo"
  shows "\<exists>c. climb_side x num b k = Some (Some c) \<and> chain (nth x) c b \<and> num ! k \<le> num ! c \<and>
    (\<forall>a. chain (nth x) a b \<longrightarrow> num ! k \<le> num ! a \<longrightarrow> chain (nth x) a c)"
  using assms(2,3)
proof (induction "num ! 0 - num ! b" arbitrary: b rule: less_induct)
  case less
  show ?case
  proof (cases "num ! b < num ! k")
    case True
    then have "b \<noteq> 0" using num_entry_le [OF assms(4)] by (metis not_less)
    obtain u where u: "x ! b = Some u" using less.prems(1) by auto
    have up: "u \<in> set rpo" "x ! u \<noteq> None" "num ! b < num ! u"
      using climbingD [OF shapeD(3) [OF assms(1)] less.prems(2) \<open>b \<noteq> 0\<close> u] by auto
    have "num ! 0 - num ! u < num ! 0 - num ! b" using up num_entry_le [of u] by simp
    from less.hyps [OF this up(2,1)] obtain c where c: "climb_side x num u k = Some (Some c)"
      "chain (nth x) c u" "num ! k \<le> num ! c"
      "\<forall>a. chain (nth x) a u \<longrightarrow> num ! k \<le> num ! a \<longrightarrow> chain (nth x) a c" by blast
    have "climb_side x num b k = Some (Some c)"
      using True u up(3) c(1) by (subst climb_side.simps) auto
    moreover have "chain (nth x) c b" using c(2) u \<open>b \<noteq> 0\<close> by (rule chain.above)
    moreover have "\<forall>a. chain (nth x) a b \<longrightarrow> num ! k \<le> num ! a \<longrightarrow> chain (nth x) a c"
      using c(4) True chain_step [of "nth x", OF u \<open>b \<noteq> 0\<close>] by auto
    ultimately show ?thesis using c(3) by blast
  next
    case False
    then have "climb_side x num b k = Some (Some b)" by (subst climb_side.simps) simp
    then show ?thesis using False less.prems(1) chain.here [of "nth x" b] by auto
  qed
qed

lemma intersect_chain:
  assumes "shape x" and "x ! b1 \<noteq> None" "b1 \<in> set rpo" and "x ! b2 \<noteq> None" "b2 \<in> set rpo"
  shows "\<exists>c. intersect x num b1 b2 = Some (Some c) \<and> c \<in> set rpo \<and> x ! c \<noteq> None \<and>
    (\<forall>a. chain (nth x) a c \<longleftrightarrow> chain (nth x) a b1 \<and> chain (nth x) a b2)"
  using assms(2-5)
proof (induction "num ! 0 - num ! b1 + (num ! 0 - num ! b2)" arbitrary: b1 b2 rule: less_induct)
  case less
  note climbs = shapeD(3) [OF assms(1)]
  show ?case
  proof (cases "b1 = b2")
    case True
    then show ?thesis using less.prems by (subst intersect.simps) auto
  next
    case False
    obtain c1 where c1: "climb_side x num b1 b2 = Some (Some c1)" "chain (nth x) c1 b1" "num ! b2 \<le> num ! c1"
      "\<forall>a. chain (nth x) a b1 \<longrightarrow> num ! b2 \<le> num ! a \<longrightarrow> chain (nth x) a c1"
      using climb_side_chain [OF assms(1) less.prems(1,2,4)] by blast
    have d1: "c1 \<in> set rpo" "x ! c1 \<noteq> None" "num ! b1 \<le> num ! c1"
      using chain_bounds [OF c1(2) climbs less.prems(2)] by auto
    obtain c2 where c2: "climb_side x num b2 c1 = Some (Some c2)" "chain (nth x) c2 b2" "num ! c1 \<le> num ! c2"
      "\<forall>a. chain (nth x) a b2 \<longrightarrow> num ! c1 \<le> num ! a \<longrightarrow> chain (nth x) a c2"
      using climb_side_chain [OF assms(1) less.prems(3,4) d1(1)] by blast
    have d2: "c2 \<in> set rpo" "x ! c2 \<noteq> None" "num ! b2 \<le> num ! c2"
      using chain_bounds [OF c2(2) climbs less.prems(4)] by auto
    have "num ! b1 \<noteq> num ! b2" using False num_inj less.prems by blast
    then have "num ! 0 - num ! c1 + (num ! 0 - num ! c2) < num ! 0 - num ! b1 + (num ! 0 - num ! b2)"
      using c1(3) c2(3) d1(3) d2(3) num_entry_le [OF d1(1)] num_entry_le [OF d2(1)] by linarith
    from less.hyps [OF this d1(2,1) d2(2,1)] obtain c where c: "intersect x num c1 c2 = Some (Some c)"
      "c \<in> set rpo" "x ! c \<noteq> None" "\<forall>a. chain (nth x) a c \<longleftrightarrow> chain (nth x) a c1 \<and> chain (nth x) a c2" by blast
    have "chain (nth x) a c \<longleftrightarrow> chain (nth x) a b1 \<and> chain (nth x) a b2" for a
    proof
      assume "chain (nth x) a c"
      then show "chain (nth x) a b1 \<and> chain (nth x) a b2" using c(4) c1(2) c2(2) chain_trans by blast
    next
      assume both: "chain (nth x) a b1 \<and> chain (nth x) a b2"
      then have "num ! b2 \<le> num ! a" using chain_bounds climbs less.prems(4) by blast
      then have "chain (nth x) a c1" using both c1(4) by blast
      then have "num ! c1 \<le> num ! a" using chain_bounds climbs d1(1) by blast
      then show "chain (nth x) a c" using both c2(4) c(4) \<open>chain (nth x) a c1\<close> by blast
    qed
    moreover have "intersect x num b1 b2 = Some (Some c)"
      using False c1(1) c2(1) c(1) num_inj [OF d1(1) d2(1)] by (subst intersect.simps) auto
    ultimately show ?thesis using c(2,3) by blast
  qed
qed

text \<open>What the loop over the predecessors returns: a node whose chain is what the chains of the
  defined predecessors share, or nothing when none is defined.\<close>

definition meet_of :: "nat option list \<Rightarrow> nat list \<Rightarrow> nat option \<Rightarrow> nat option \<Rightarrow> bool" where
  "meet_of x ps new r =
     (case r of
        None \<Rightarrow> new = None \<and> (\<forall>p \<in> set ps. x ! p = None)
      | Some c \<Rightarrow> c \<in> set rpo \<and> x ! c \<noteq> None \<and>
          (\<forall>a. chain (nth x) a c \<longleftrightarrow> (\<forall>m. new = Some m \<longrightarrow> chain (nth x) a m) \<and>
             (\<forall>p \<in> set ps. x ! p \<noteq> None \<longrightarrow> chain (nth x) a p)))"

lemma meet_preds_chain:
  assumes "shape x" and "\<forall>p \<in> set ps. p < length preds"
    and "\<forall>m. new = Some m \<longrightarrow> m \<in> set rpo \<and> x ! m \<noteq> None"
  shows "\<exists>r. meet_preds x num ps new = Some r \<and> meet_of x ps new r"
  using assms(2,3)
proof (induction ps arbitrary: new)
  case Nil
  then show ?case by (cases new) (auto simp: meet_of_def)
next
  case (Cons p ps)
  have p: "x ! p \<noteq> None \<Longrightarrow> p \<in> set rpo" using shapeD(4) [OF assms(1)] Cons.prems(1) by simp
  have ps: "\<forall>q \<in> set ps. q < length preds" using Cons.prems(1) by simp
  consider (skip) "x ! p = None" | (first) "x ! p \<noteq> None" "new = None" | (meet) m where "x ! p \<noteq> None" "new = Some m"
    by fastforce
  then show ?case
  proof cases
    case skip
    then have "meet_of x (p # ps) new r = meet_of x ps new r" for r by (cases r) (simp_all add: meet_of_def)
    then show ?thesis using Cons.IH [OF ps Cons.prems(2)] skip by simp
  next
    case first
    have "\<forall>m. Some p = Some m \<longrightarrow> m \<in> set rpo \<and> x ! m \<noteq> None" using p first(1) by simp
    then obtain r where r: "meet_preds x num ps (Some p) = Some r" "meet_of x ps (Some p) r"
      using Cons.IH [OF ps] by blast
    have "meet_of x (p # ps) new r"
      using r(2) first by (cases r) (simp_all add: meet_of_def del: not_None_eq)
    then show ?thesis using r(1) first by auto
  next
    case meet
    obtain c where c: "intersect x num p m = Some (Some c)" "c \<in> set rpo" "x ! c \<noteq> None"
      "\<forall>a. chain (nth x) a c \<longleftrightarrow> chain (nth x) a p \<and> chain (nth x) a m"
      using intersect_chain [OF assms(1), of p m] meet p Cons.prems(2) by blast
    have "\<forall>e. Some c = Some e \<longrightarrow> e \<in> set rpo \<and> x ! e \<noteq> None" using c(2,3) by simp
    then obtain r where r: "meet_preds x num ps (Some c) = Some r" "meet_of x ps (Some c) r"
      using Cons.IH [OF ps] by blast
    have "meet_of x (p # ps) new r"
      using r(2) c(4) meet by (cases r) (auto simp: meet_of_def simp del: not_None_eq)
    then show ?thesis using r(1) meet c(1) by auto
  qed
qed

end

context numbered_flow
begin

text \<open>The invariant of the sweeps: each entry lies on the search tree's path above the block's parent,
  keeps every block that lies on all paths, and is no lower than what the chains of the predecessors
  share.\<close>

definition good :: "nat option list \<Rightarrow> bool" where
  "good x \<longleftrightarrow> shape x \<and> (\<forall>v \<in> set rpo. \<forall>u. v \<noteq> 0 \<longrightarrow> x ! v = Some u \<longrightarrow>
     chain tree_up u (tree v) \<and>
     (\<forall>a. a \<noteq> v \<longrightarrow> on_all_paths preds a v \<longrightarrow> on_all_paths preds a u) \<and>
     (\<forall>y. (\<forall>p \<in> set (preds ! v). x ! p \<noteq> None \<longrightarrow> chain (nth x) y p) \<longrightarrow> num ! u \<le> num ! y))"

lemma goodD:
  assumes "good x"
  shows "shape x" and "climbing (nth x)"
    and "v \<in> set rpo \<Longrightarrow> v \<noteq> 0 \<Longrightarrow> x ! v = Some u \<Longrightarrow> chain tree_up u (tree v)"
    and "v \<in> set rpo \<Longrightarrow> v \<noteq> 0 \<Longrightarrow> x ! v = Some u \<Longrightarrow> a \<noteq> v \<Longrightarrow> on_all_paths preds a v \<Longrightarrow> on_all_paths preds a u"
    and "v \<in> set rpo \<Longrightarrow> v \<noteq> 0 \<Longrightarrow> x ! v = Some u \<Longrightarrow>
      (\<And>p. p \<in> set (preds ! v) \<Longrightarrow> x ! p \<noteq> None \<Longrightarrow> chain (nth x) y p) \<Longrightarrow> num ! u \<le> num ! y"
  using assms shapeD(3) by (auto simp: good_def)

text \<open>What one sweep has established for the blocks it has passed.\<close>

definition settled :: "nat option list \<Rightarrow> nat set \<Rightarrow> bool" where
  "settled x B \<longleftrightarrow> (\<forall>w \<in> B. w \<noteq> 0 \<longrightarrow> (\<exists>u. x ! w = Some u \<and> chain (nth x) u (tree w)))"

lemma settledD:
  assumes "settled x B" and "shape x" and "w \<in> B"
  shows "x ! w \<noteq> None"
  using assms shapeD(2) by (cases "w = 0") (auto simp: settled_def)

lemma chain_on_tree:
  assumes "chain (nth x) a v" and "good x" and "v \<in> set rpo"
  shows "chain tree_up a v"
  using assms
proof (induction rule: chain.induct)
  case (here v)
  then show ?case by (auto simp: tree_up_def intro: chain.here)
next
  case (above a u v)
  have "u \<in> set rpo" using climbingD [OF goodD(2)] above by blast
  then have "chain tree_up a u" using above by blast
  moreover have "chain tree_up u (tree v)" using goodD(3) above by blast
  then have "chain tree_up u v" using above by (auto simp: tree_up_def intro: chain.above)
  ultimately show ?case by (rule chain_trans [rotated])
qed

text \<open>On the blocks already passed, a node of a chain that is not below a tree ancestor is on the
  ancestor's chain.\<close>

lemma chain_through:
  assumes "chain tree_up z w" and "chain (nth x) y w" and "good x" and "w \<in> set rpo" and "num ! z \<le> num ! y"
    and "settled x {v \<in> set rpo. num ! w \<le> num ! v}"
  shows "chain (nth x) y z"
  using assms
proof (induction rule: chain.induct)
  case (above z u w)
  have u: "u = tree w" using above by (auto simp: tree_up_def)
  then have w: "u \<in> set rpo" "num ! w < num ! u" using parent above by auto
  have "num ! u \<le> num ! z" using chain_bounds [OF above(1) climbing_tree w(1)] by blast
  then have "y \<noteq> w" using w(2) above.prems(4) by auto
  obtain s where s: "x ! w = Some s" "chain (nth x) s u"
    using above.prems(3,5) above.hyps(3) u by (auto simp: settled_def)
  have "chain (nth x) y s" using above.prems(1) \<open>y \<noteq> w\<close> chain_step [of "nth x", OF s(1) above.hyps(3)] by blast
  then have "chain (nth x) y u" using s(2) chain_trans by blast
  moreover have "settled x {v \<in> set rpo. num ! u \<le> num ! v}"
    using above.prems(5) w(2) by (auto simp: settled_def)
  ultimately show ?case using above w(1) by blast
qed

lemma on_all_paths_chain:
  assumes "good x" and "on_all_paths preds a v" and "v \<in> set rpo" and "x ! v \<noteq> None"
  shows "chain (nth x) a v"
  using assms(2-4)
proof (induction "num ! 0 - num ! v" arbitrary: v rule: less_induct)
  case less
  show ?case
  proof (cases "a = v \<or> v = 0")
    case True
    have "a = v"
      using True on_all_paths_entry less.prems(1) nodes [OF entry_node [OF less.prems(2)]] by blast
    then show ?thesis using less.prems(3) by (auto intro: chain.here)
  next
    case False
    obtain u where u: "x ! v = Some u" using less.prems(3) by auto
    have up: "u \<in> set rpo" "x ! u \<noteq> None" "num ! v < num ! u"
      using climbingD [OF goodD(2) [OF assms(1)] less.prems(2) _ u] False by auto
    have "num ! 0 - num ! u < num ! 0 - num ! v" using up(3) num_entry_le [OF up(1)] by simp
    moreover have "on_all_paths preds a u"
      using goodD(4) [OF assms(1) less.prems(2) _ u _ less.prems(1)] False by blast
    ultimately have "chain (nth x) a u" using less.hyps up by blast
    then show ?thesis using u False by (auto intro: chain.above)
  qed
qed

lemma on_all_paths_down:
  assumes "chain (nth x) c w" and "good x" and "on_all_paths preds a w" and "chain (nth x) a c" and "w \<in> set rpo"
  shows "on_all_paths preds a c"
  using assms
proof (induction rule: chain.induct)
  case (above c u w)
  have u: "u \<in> set rpo" "num ! w < num ! u" using climbingD [OF goodD(2)] above by blast+
  have c: "c \<in> set rpo" "num ! u \<le> num ! c" using chain_bounds [OF above(1) goodD(2)] above.prems(1) u(1) by blast+
  have "num ! c \<le> num ! a" using chain_bounds [OF above.prems(3) goodD(2)] above.prems(1) c(1) by blast
  then have "a \<noteq> w" using u(2) c(2) by auto
  then have "on_all_paths preds a u" using goodD(4) above by blast
  then show ?case using above u(1) by blast
qed simp

end

section \<open>The sweeps\<close>

context numbered_flow
begin

lemma meet_some:
  assumes "good x" and "b \<in> set rpo" "b \<noteq> 0" and "settled x {w \<in> set rpo. num ! b < num ! w}"
    and "meet_of x (preds ! b) None r"
  shows "\<exists>c. r = Some c \<and> c \<in> set rpo \<and> x ! c \<noteq> None \<and> chain (nth x) c (tree b) \<and> num ! b < num ! c \<and>
    (\<forall>a. chain (nth x) a c \<longleftrightarrow> (\<forall>p \<in> set (preds ! b). x ! p \<noteq> None \<longrightarrow> chain (nth x) a p))"
proof -
  note tree = parent [OF assms(2,3)]
  have "x ! tree b \<noteq> None" using settledD [OF assms(4) goodD(1) [OF assms(1)]] tree by simp
  with assms(5) tree obtain c where c: "r = Some c" "c \<in> set rpo" "x ! c \<noteq> None"
    "\<forall>a. chain (nth x) a c \<longleftrightarrow> (\<forall>p \<in> set (preds ! b). x ! p \<noteq> None \<longrightarrow> chain (nth x) a p)"
    by (cases r) (auto simp: meet_of_def simp del: not_None_eq)
  have "chain (nth x) c (tree b)"
    using c(3,4) chain.here [of "nth x" c] tree \<open>x ! tree b \<noteq> None\<close> by blast
  moreover from this have "num ! b < num ! c"
    using chain_bounds [OF _ goodD(2) [OF assms(1)]] tree by fastforce
  ultimately show ?thesis using c by blast
qed

lemma chain_update_above:
  assumes "shape x" and "shape (x[b := Some c])" and "w \<in> set rpo" and "num ! b < num ! w"
  shows "chain (nth (x[b := Some c])) a w \<longleftrightarrow> chain (nth x) a w"
proof -
  have same: "x[b := Some c] ! v = x ! v" if "num ! b < num ! v" for v using that by (cases "v = b") auto
  then show ?thesis
    using chain_agree [OF _ shapeD(3) [OF assms(1)] assms(3,4), of a "nth (x[b := Some c])"]
      chain_agree [OF _ shapeD(3) [OF assms(2)] assms(3,4), of a "nth x"] by auto
qed

lemma chain_update_shrinks:
  assumes "chain (nth (x[b := Some c])) a q" and "good x" and "b < length x" and "x ! c \<noteq> None" "c \<in> set rpo"
    and "\<And>z. x ! b = Some z \<Longrightarrow> chain (nth x) c z" and "b \<noteq> 0" and "q \<in> set rpo" and "x ! q \<noteq> None"
  shows "chain (nth x) a q"
  using assms
proof (induction rule: chain.induct)
  case (here v)
  then show ?case by (auto intro: chain.here)
next
  case (above a u v)
  show ?case
  proof (cases "v = b")
    case True
    then have "u = c" using above by simp
    obtain z where z: "x ! b = Some z" using above.prems True by auto
    have "chain (nth x) a z"
      using above.IH above.prems \<open>u = c\<close> z chain_trans [of "nth x" c z a] by blast
    then show ?thesis using z above.hyps True by (auto intro: chain.above)
  next
    case False
    then have u: "x ! v = Some u" using above.hyps by simp
    have "u \<in> set rpo" "x ! u \<noteq> None"
      using climbingD [OF goodD(2) [OF above.prems(1)] above.prems(7) _ u] above.hyps by auto
    then show ?thesis using above.IH above.prems u above.hyps by (auto intro: chain.above)
  qed
qed

lemma update_shape:
  assumes "shape x" and "b \<in> set rpo" "b \<noteq> 0" and "c \<in> set rpo" "x ! c \<noteq> None" "num ! b < num ! c"
  shows "shape (x[b := Some c])"
proof -
  have "climbing (nth (x[b := Some c]))"
    unfolding climbing_def
  proof (intro ballI allI impI)
    fix v u
    assume v: "v \<in> set rpo" "v \<noteq> 0" "x[b := Some c] ! v = Some u"
    have "v < length x" "b < length x" using shapeD(1) [OF assms(1)] nodes v(1) assms(2) by auto
    then show "u \<in> set rpo \<and> x[b := Some c] ! u \<noteq> None \<and> num ! v < num ! u"
      using v assms climbingD [OF shapeD(3) [OF assms(1)] v(1,2), of u]
      by (cases "v = b"; cases "u = b") auto
  qed
  moreover have "v \<in> set rpo" if "v < length preds" "x[b := Some c] ! v \<noteq> None" for v
    using that assms(2) shapeD(4) [OF assms(1), of v] by (cases "v = b") simp_all
  ultimately show ?thesis
    using assms(1,3) by (auto simp: shape_def)
qed

lemma update_good:
  assumes good: "good x" and b: "b \<in> set rpo" "b \<noteq> 0"
    and before: "settled x {w \<in> set rpo. num ! b < num ! w}"
    and meet: "meet_of x (preds ! b) None (Some c)"
  shows "good (x[b := Some c])" and "settled (x[b := Some c]) {w \<in> set rpo. num ! b \<le> num ! w}"
    and "x ! b = Some z \<Longrightarrow> num ! z \<le> num ! c"
proof -
  let ?x = "x[b := Some c]"
  note tree = parent [OF b]
  have c: "c \<in> set rpo" "x ! c \<noteq> None" "chain (nth x) c (tree b)" "num ! b < num ! c"
    "\<And>a. chain (nth x) a c \<longleftrightarrow> (\<forall>p \<in> set (preds ! b). x ! p \<noteq> None \<longrightarrow> chain (nth x) a p)"
    using meet_some [OF good b before meet] by auto
  note shape = goodD(1) [OF good]
  note shape' = update_shape [OF shape b c(1,2,4)]
  have len: "b < length x" using shapeD(1) [OF shape] nodes [OF b(1)] by simp
  have low: "num ! z \<le> num ! c" if "x ! b = Some z" for z
    using goodD(5) [OF good b that, of c] c(5) [of c] chain.here [of "nth x" c] c(2) by blast
  then show "x ! b = Some z \<Longrightarrow> num ! z \<le> num ! c" .
  have "chain (nth x) c z" if "x ! b = Some z" for z
  proof -
    have "settled x {v \<in> set rpo. num ! tree b \<le> num ! v}"
      using before tree by (auto simp: settled_def)
    then show ?thesis using chain_through [OF goodD(3) [OF good b that] c(3) good] tree low [OF that] by blast
  qed
  note shrinks = chain_update_shrinks [OF _ good len c(2,1) this b(2)]
  show "settled ?x {w \<in> set rpo. num ! b \<le> num ! w}"
    unfolding settled_def
  proof (intro ballI impI)
    fix w
    assume w: "w \<in> {w \<in> set rpo. num ! b \<le> num ! w}" "w \<noteq> 0"
    show "\<exists>u. ?x ! w = Some u \<and> chain (nth ?x) u (tree w)"
    proof (cases "w = b")
      case True
      then show ?thesis using c(3) len chain_update_above [OF shape shape'] tree by auto
    next
      case False
      then have above: "num ! b < num ! w" using w num_inj b(1) by (metis le_neq_implies_less mem_Collect_eq)
      then obtain u where "x ! w = Some u" "chain (nth x) u (tree w)" using before w by (auto simp: settled_def)
      then show ?thesis
        using False chain_update_above [OF shape shape'] parent [of w] w above by auto
    qed
  qed
  have entry: "chain tree_up u (tree v) \<and> (\<forall>a. a \<noteq> v \<longrightarrow> on_all_paths preds a v \<longrightarrow> on_all_paths preds a u) \<and>
      (\<forall>y. (\<forall>p \<in> set (preds ! v). ?x ! p \<noteq> None \<longrightarrow> chain (nth ?x) y p) \<longrightarrow> num ! u \<le> num ! y)"
    if v: "v \<in> set rpo" "v \<noteq> 0" and u: "?x ! v = Some u" for v u
  proof (intro conjI allI impI)
    have old: "x ! v = Some u" if "v \<noteq> b" using that u by simp
    have new: "u = c" if "v = b" using that u len by simp
    show "chain tree_up u (tree v)"
    proof (cases "v = b")
      case True
      then show ?thesis using new chain_on_tree [OF c(3) good] tree by simp
    qed (use old goodD(3) [OF good v] in blast)
    show "on_all_paths preds a u" if a: "a \<noteq> v" "on_all_paths preds a v" for a
    proof (cases "v = b")
      case True
      have "chain (nth x) a p" if "p \<in> set (preds ! b)" "x ! p \<noteq> None" for p
        using on_all_paths_chain [OF good _ _ that(2)] on_all_paths_pred [of preds a b p] a True that(1)
          nodes [OF b(1)] shapeD(4) [OF shape _ that(2)] pred_nodes [OF b(1) that(1)] by blast
      then have "chain (nth x) a c" using c(5) by blast
      then show ?thesis
        using on_all_paths_down [OF c(3) good] on_all_paths_pred [of preds a b "tree b"] a True tree nodes [OF b(1)] new
        by auto
    qed (use old goodD(4) [OF good v _ a] in blast)
    show "num ! u \<le> num ! y" if y: "\<forall>p \<in> set (preds ! v). ?x ! p \<noteq> None \<longrightarrow> chain (nth ?x) y p" for y
    proof -
      have y': "chain (nth x) y p" if "p \<in> set (preds ! v)" "x ! p \<noteq> None" for p
      proof (rule shrinks)
        show "p \<in> set rpo" using shapeD(4) [OF shape pred_nodes [OF v(1) that(1)] that(2)] .
        show "chain (nth ?x) y p" using y that by (cases "p = b") (use len in auto)
      qed (assumption | rule that(2))+
      show ?thesis
      proof (cases "v = b")
        case True
        then have "chain (nth x) y c" using y' c(5) by blast
        then show ?thesis using chain_bounds goodD(2) [OF good] c(1) new [OF True] by blast
      qed (use old goodD(5) [OF good v _ y'] in blast)
    qed
  qed
  show "good ?x" unfolding good_def using shape' entry by blast
qed

lemma update_weight:
  assumes "good x" and "b \<in> set rpo" "b \<noteq> 0" and "settled x {w \<in> set rpo. num ! b < num ! w}"
    and "meet_of x (preds ! b) None (Some c)" and "x ! b \<noteq> Some c"
  shows "table_weight num x < table_weight num (x[b := Some c])"
proof (rule table_weight_update)
  show "b < length x" using shapeD(1) [OF goodD(1) [OF assms(1)]] nodes [OF assms(2)] by simp
  show "num ! z < num ! c" if z: "x ! b = Some z" for z
  proof -
    have "z \<noteq> c" using z assms(6) by auto
    moreover have "z \<in> set rpo" using climbingD [OF goodD(2) [OF assms(1)] assms(2,3) z] by blast
    moreover have "c \<in> set rpo" using assms(5) by (simp add: meet_of_def)
    ultimately show ?thesis
      using update_good(3) [OF assms(1-5) z] num_inj by (metis le_neq_implies_less)
  qed
qed
end

lemma sum_list_bound:
  fixes f :: "'a \<Rightarrow> nat"
  shows "(\<And>p. p \<in> set xs \<Longrightarrow> f p \<le> k) \<Longrightarrow> sum_list (map f xs) \<le> length xs * k"
proof (induction xs)
  case (Cons p xs)
  then show ?case using add_mono [of "f p" k "sum_list (map f xs)" "length xs * k"] by simp
qed simp

text \<open>A whole sweep, and the iteration of sweeps.\<close>

context numbered_flow
begin

definition stable :: "nat option list \<Rightarrow> nat set \<Rightarrow> bool" where
  "stable x B \<longleftrightarrow> (\<forall>b \<in> B. b \<noteq> 0 \<longrightarrow> meet_of x (preds ! b) None (x ! b))"

lemma set_before:
  assumes "rpo = before @ b # bs"
  shows "{w \<in> set rpo. num ! b < num ! w} = set before" and "{w \<in> set rpo. num ! b \<le> num ! w} = set (before @ [b])"
  using numbers unfolding assms by (auto simp: sorted_wrt_append)

lemma dom_pass_step:
  assumes "rpo = before @ b # bs" and "before \<noteq> []" and good: "good x" and "settled x (set before)"
  shows "\<exists>c. dom_pass num preds (b # bs) x changed =
      dom_pass num preds bs (x[b := Some c]) (changed \<or> x ! b \<noteq> Some c) \<and>
    good (x[b := Some c]) \<and> settled (x[b := Some c]) (set (before @ [b])) \<and>
    (x ! b \<noteq> Some c \<longrightarrow> table_weight num x < table_weight num (x[b := Some c])) \<and>
    meet_of x (preds ! b) None (Some c)"
proof -
  have b: "b \<in> set rpo" "b \<noteq> 0"
    using assms(1,2) entry numbers by (cases before; force)+
  have before: "settled x {w \<in> set rpo. num ! b < num ! w}" using assms(4) set_before(1) [OF assms(1)] by simp
  have "\<forall>p \<in> set (preds ! b). p < length preds" using pred_nodes [OF b(1)] by blast
  then obtain r where r: "meet_preds x num (preds ! b) None = Some r" "meet_of x (preds ! b) None r"
    using meet_preds_chain [OF goodD(1) [OF good], of "preds ! b" None] by auto
  then obtain c where c: "r = Some c" using meet_some [OF good b before] by blast
  note meet = r(2) [unfolded c]
  have "dom_pass num preds (b # bs) x changed = dom_pass num preds bs (x[b := Some c]) (changed \<or> x ! b \<noteq> Some c)"
    using r(1) c list_update_id [of x b] by (cases "x ! b = Some c") simp_all
  then show ?thesis
    using update_good(1,2) [OF good b before meet] update_weight [OF good b before meet] meet
      set_before(2) [OF assms(1)] by auto
qed

lemma dom_pass_good:
  assumes "rpo = before @ bs" and "before \<noteq> []" and "good x" and "settled x (set before)"
  shows "\<exists>x' changed'. dom_pass num preds bs x changed = Some (x', changed') \<and> good x' \<and> settled x' (set rpo) \<and>
    table_weight num x \<le> table_weight num x' \<and>
    (if changed' then changed \<or> table_weight num x < table_weight num x'
     else \<not> changed \<and> x' = x \<and> stable x (set bs))"
  using assms
proof (induction bs arbitrary: before x changed)
  case Nil
  have "settled x (set rpo)" using Nil.prems(1,4) by simp
  then show ?case using Nil.prems(3) by (simp add: stable_def)
next
  case (Cons b bs)
  obtain c where c: "dom_pass num preds (b # bs) x changed =
      dom_pass num preds bs (x[b := Some c]) (changed \<or> x ! b \<noteq> Some c)"
    "good (x[b := Some c])" "settled (x[b := Some c]) (set (before @ [b]))"
    "x ! b \<noteq> Some c \<longrightarrow> table_weight num x < table_weight num (x[b := Some c])"
    "meet_of x (preds ! b) None (Some c)"
    using dom_pass_step [OF Cons.prems] by blast
  have "rpo = (before @ [b]) @ bs" using Cons.prems(1) by simp
  then obtain x' changed' where x': "dom_pass num preds bs (x[b := Some c]) (changed \<or> x ! b \<noteq> Some c) = Some (x', changed')"
    "good x'" "settled x' (set rpo)" "table_weight num (x[b := Some c]) \<le> table_weight num x'"
    "if changed' then (changed \<or> x ! b \<noteq> Some c) \<or> table_weight num (x[b := Some c]) < table_weight num x'
     else \<not> (changed \<or> x ! b \<noteq> Some c) \<and> x' = x[b := Some c] \<and> stable (x[b := Some c]) (set bs)"
    using Cons.IH [OF _ _ c(2,3), of "changed \<or> x ! b \<noteq> Some c"] by blast
  show ?case
  proof (cases "x ! b = Some c")
    case True
    then have same: "x[b := Some c] = x" by (metis list_update_id)
    have "\<not> changed' \<longrightarrow> stable x (set (b # bs))"
      using x'(5) c(5) True same by (auto simp: stable_def)
    then show ?thesis using c(1) x' same True by (auto split: if_splits)
  next
    case False
    then have "changed'" using x'(5) by (auto split: if_splits)
    then show ?thesis using c(1,4) x' False by auto
  qed
qed

lemma table_weight_bound:
  assumes "shape x"
  shows "table_weight num x \<le> length preds * Suc (num ! 0)"
proof -
  have "(case p of None \<Rightarrow> 0 | Some u \<Rightarrow> Suc (num ! u)) \<le> Suc (num ! 0)" if p: "p \<in> set x" for p
  proof (cases p)
    case (Some u)
    obtain v where v: "v < length preds" "x ! v = Some u"
      using p Some shapeD(1) [OF assms] by (auto simp: in_set_conv_nth)
    then have "v \<in> set rpo" using shapeD(4) [OF assms v(1)] by simp
    then have "u \<in> set rpo"
      using climbingD [OF shapeD(3) [OF assms] _ _ v(2)] v(2) shapeD(2) [OF assms] by (cases "v = 0") auto
    then show ?thesis using Some num_entry_le by simp
  qed simp
  then have "sum_list (map (\<lambda>p. case p of None \<Rightarrow> 0 | Some u \<Rightarrow> Suc (num ! u)) x) \<le> length x * Suc (num ! 0)"
    by (rule sum_list_bound)
  then show ?thesis using shapeD(1) [OF assms] by (simp add: table_weight_def)
qed

lemma dom_fix_good:
  assumes "rpo \<noteq> []" and "good x"
  shows "\<exists>y. dom_fix num preds (tl rpo) x = Some y \<and> good y \<and> settled y (set rpo) \<and> stable y (set (tl rpo))"
  using assms(2)
proof (induction "length preds * Suc (num ! 0) - table_weight num x" arbitrary: x rule: less_induct)
  case less
  have split: "rpo = [0] @ tl rpo" using entry [OF assms(1)] assms(1) by (cases rpo) auto
  have "[0 :: nat] \<noteq> []" "settled x (set [0])" by (simp_all add: settled_def)
  from dom_pass_good [OF split this(1) less.prems this(2), of False]
  obtain x' changed where x': "dom_pass num preds (tl rpo) x False = Some (x', changed)" "good x'"
    "settled x' (set rpo)"
    "if changed then False \<or> table_weight num x < table_weight num x' else \<not> False \<and> x' = x \<and> stable x (set (tl rpo))"
    by blast
  show ?case
  proof (cases changed)
    case True
    then have "length preds * Suc (num ! 0) - table_weight num x' < length preds * Suc (num ! 0) - table_weight num x"
      using x'(4) table_weight_bound [OF goodD(1) [OF x'(2)]] by simp
    then obtain y where "dom_fix num preds (tl rpo) x' = Some y \<and> good y \<and> settled y (set rpo) \<and> stable y (set (tl rpo))"
      using less.hyps x'(2) by blast
    then show ?thesis using x'(1) True by (subst dom_fix.simps) simp
  next
    case False
    then show ?thesis using x' by (subst dom_fix.simps) simp
  qed
qed

section \<open>What the table says\<close>

lemma chain_sound:
  assumes "entry_path preds S v" and "good x" and "settled x (set rpo)" and "stable x (set (tl rpo))"
    and "chain (nth x) a v"
  shows "a \<in> S"
  using assms(1,5)
proof (induction arbitrary: a rule: entry_path.induct)
  case start
  then show ?case by (auto simp: chain_entry)
next
  case (step S p v)
  have v: "v \<in> set rpo" using reached entry_path.step [OF step.hyps] by blast
  have p: "x ! p \<noteq> None" using settledD [OF assms(3) goodD(1) [OF assms(2)]] reached step.hyps(1) by blast
  have "0 \<in> S" using step.hyps(1) by (induction rule: entry_path.induct) auto
  consider "a = v" | "v = 0" | u where "x ! v = Some u" "v \<noteq> 0" "chain (nth x) a u"
    using step.prems by (cases rule: chain.cases) auto
  then show ?case
  proof cases
    case 2
    then show ?thesis using step.prems by (simp add: chain_entry)
  next
    case 3
    have "v \<in> set (tl rpo)" using v 3(2) entry by (cases rpo) auto
    then have "meet_of x (preds ! v) None (Some u)" using assms(4) 3 by (auto simp: stable_def)
    then have "chain (nth x) a p" using 3(3) step.hyps(3) p by (auto simp: meet_of_def)
    then show ?thesis using step.IH by blast
  qed simp
qed

lemma good_start:
  assumes "rpo \<noteq> []"
  shows "good ((replicate (length preds) None)[0 := Some 0])"
proof -
  have 0: "0 \<in> set rpo" "0 < length preds" using entry_node nodes assms by (cases rpo; auto)+
  have none: "(replicate (length preds) None)[0 := Some 0] ! v = None" if "v \<noteq> 0" "v < length preds" for v
    using that by simp
  let ?x = "(replicate (length preds) None)[0 := Some (0::nat)]"
  have entry_only: "v = 0" if "v \<in> set rpo" "?x ! v = Some u" for v u
    using that none [of v] nodes [OF that(1)] by (cases "v = 0") auto
  have "climbing (nth ?x)" unfolding climbing_def using entry_only by blast
  moreover have "v \<in> set rpo" if "v < length preds" "?x ! v \<noteq> None" for v
    using that none [of v] 0(1) by (cases "v = 0") auto
  ultimately have "shape ?x" using 0(2) by (simp add: shape_def)
  then show ?thesis unfolding good_def using entry_only by blast
qed

lemma dom_fix_dominators:
  assumes "rpo \<noteq> []"
  shows "\<exists>y. dom_fix num preds (tl rpo) ((replicate (length preds) None)[0 := Some 0]) = Some y \<and> shape y \<and>
    (\<forall>v \<in> set rpo. y ! v \<noteq> None \<and> (\<forall>a. chain (nth y) a v \<longleftrightarrow> on_all_paths preds a v))"
proof -
  obtain y where y: "dom_fix num preds (tl rpo) ((replicate (length preds) None)[0 := Some 0]) = Some y"
    "good y" "settled y (set rpo)" "stable y (set (tl rpo))"
    using dom_fix_good [OF assms good_start [OF assms]] by blast
  have "y ! v \<noteq> None \<and> (\<forall>a. chain (nth y) a v \<longleftrightarrow> on_all_paths preds a v)" if v: "v \<in> set rpo" for v
  proof -
    have defined: "y ! v \<noteq> None" using settledD [OF y(3) goodD(1) [OF y(2)] v] .
    moreover have "on_all_paths preds a v" if "chain (nth y) a v" for a
      using chain_sound [OF _ y(2-4) that] by (auto simp: on_all_paths_def)
    ultimately show ?thesis using on_all_paths_chain [OF y(2) _ v defined] by blast
  qed
  then show ?thesis using y(1) goodD(1) [OF y(2)] by blast
qed

text \<open>The guarded walk of the query follows the chain to its end.\<close>

lemma dominates_walk_chain:
  assumes "shape y" and "\<forall>v \<in> set rpo. \<exists>u. y ! v = Some u \<and> cf_idom fn ! v = u"
    and "v \<in> set rpo" and "num ! 0 - num ! v < guard"
  shows "dominates_walk fn a guard v \<longleftrightarrow> chain (nth y) a v"
  using assms(3,4)
proof (induction guard arbitrary: v)
  case (Suc guard)
  obtain u where u: "y ! v = Some u" "cf_idom fn ! v = u" using assms(2) Suc.prems(1) by blast
  show ?case
  proof (cases "v = 0")
    case True
    then have "u = 0" using u(1) shapeD(2) [OF assms(1)] by simp
    then show ?thesis using True u by (auto simp: chain_entry)
  next
    case False
    have up: "u \<in> set rpo" "num ! v < num ! u"
      using climbingD [OF shapeD(3) [OF assms(1)] Suc.prems(1) False u(1)] by auto
    have "num ! 0 - num ! u < guard" using up(2) num_entry_le [OF up(1)] Suc.prems(2) by simp
    then have "dominates_walk fn a guard u \<longleftrightarrow> chain (nth y) a u" using Suc.IH up(1) by blast
    moreover have "u \<noteq> v" using up(2) by auto
    ultimately show ?thesis using u chain_step [of "nth y", OF u(1) False] by auto
  qed
qed simp

end

section \<open>The code's numbering\<close>

definition block_numbers :: "cfg_function \<Rightarrow> nat list" where
  "block_numbers fn = postorder_numbers (length (cf_blocks fn)) (reverse_postorder fn)"

definition tree_parent :: "cfg_function \<Rightarrow> nat \<Rightarrow> nat" where
  "tree_parent fn v =
     hd (filter (\<lambda>p. p \<in> set (reverse_postorder fn) \<and> block_numbers fn ! v < block_numbers fn ! p)
       (compute_predecessors fn ! v))"

lemma entry_path_nonempty: "entry_path preds S v \<Longrightarrow> 0 < length preds"
  by (induction rule: entry_path.induct) simp_all

lemma entry_path_cfg:
  "entry_path (compute_predecessors fn) S v \<longleftrightarrow> (\<exists>p. cfg_path fn 0 p v \<and> S = insert 0 (set p))"
proof
  assume "entry_path (compute_predecessors fn) S v"
  then show "\<exists>p. cfg_path fn 0 p v \<and> S = insert 0 (set p)"
  proof (induction rule: entry_path.induct)
    case start
    then show ?case by (auto intro!: exI [of _ "[]"] cfg_path.here)
  next
    case (step S p v)
    then obtain q where q: "cfg_path fn 0 q p" "S = insert 0 (set q)" by blast
    have "cfg_edge fn p v" using step.hyps(2,3) compute_predecessors_edge(2) [of v fn p] by simp
    then have "cfg_path fn 0 (q @ [v]) v" using q(1) by (rule cfg_path.step [rotated])
    then show ?case using q(2) by (intro exI [of _ "q @ [v]"]) auto
  qed
next
  assume "\<exists>p. cfg_path fn 0 p v \<and> S = insert 0 (set p)"
  then obtain p where p: "cfg_path fn 0 p v" "S = insert 0 (set p)" by blast
  have "entry_path (compute_predecessors fn) (insert 0 (set p)) v"
    using p(1)
  proof (induction "0 :: nat" p v rule: cfg_path.induct)
    case here
    then show ?case using entry_path.start [of "compute_predecessors fn"] by simp
  next
    case (step p v w)
    then have "w < length (compute_predecessors fn)" "v \<in> set (compute_predecessors fn ! w)"
      using compute_predecessors_edge(2) [of w fn v] by (simp_all add: cfg_edge_def)
    from entry_path.step [OF step(2) this] show ?case by (simp add: insert_commute)
  qed
  then show "entry_path (compute_predecessors fn) S v" using p(2) by simp
qed

lemma cfg_path_below: "cfg_path fn u p v \<Longrightarrow> v < length (cf_blocks fn)"
  by (induction rule: cfg_path.induct) (auto simp: cfg_edge_def)

lemma rpo_facts:
  assumes "cf_blocks fn \<noteq> []"
  shows "distinct (reverse_postorder fn)" and "hd (reverse_postorder fn) = 0" and "reverse_postorder fn \<noteq> []"
    and "v \<in> set (reverse_postorder fn) \<longleftrightarrow> (\<exists>p. cfg_path fn 0 p v)"
    and "sorted_wrt (\<lambda>u v. block_numbers fn ! v < block_numbers fn ! u) (reverse_postorder fn)"
proof -
  note order = dfs_order [OF assms]
  show "distinct (reverse_postorder fn)" "hd (reverse_postorder fn) = 0" "reverse_postorder fn \<noteq> []"
    using order(1,2) by (simp_all add: last_rev)
  show nodes: "v \<in> set (reverse_postorder fn) \<longleftrightarrow> (\<exists>p. cfg_path fn 0 p v)" for v using order(3) [of v] by simp
  then show "sorted_wrt (\<lambda>u v. block_numbers fn ! v < block_numbers fn ! u) (reverse_postorder fn)"
    unfolding block_numbers_def using order(1) cfg_path_below
    by (intro postorder_numbers_descend) auto
qed

lemma tree_parent_above:
  assumes "v \<in> set (reverse_postorder fn)" and "v \<noteq> 0"
  shows "tree_parent fn v \<in> set (reverse_postorder fn) \<and> tree_parent fn v \<in> set (compute_predecessors fn ! v) \<and>
    block_numbers fn ! v < block_numbers fn ! tree_parent fn v"
proof -
  have ne: "cf_blocks fn \<noteq> []" using assms(1) by (auto simp: reverse_postorder_def)
  obtain p where p: "cfg_edge fn p v" "later (rev (reverse_postorder fn)) p v"
    using dfs_order(4) [OF ne, of v] assms by auto
  then obtain as bs where split: "rev (reverse_postorder fn) = as @ v # bs" "p \<in> set bs"
    by (auto simp: later_def)
  have rpo: "reverse_postorder fn = rev bs @ v # rev as"
    using arg_cong [OF split(1), of rev] by simp
  have "block_numbers fn ! v < block_numbers fn ! p"
    using rpo_facts(5) [OF ne] split(2) unfolding rpo by (auto simp: sorted_wrt_append)
  moreover have "p \<in> set (reverse_postorder fn)" using rpo split(2) by simp
  moreover have "p \<in> set (compute_predecessors fn ! v)"
    using p(1) compute_predecessors_edge(2) [of v fn p] by (simp add: cfg_edge_def)
  ultimately have "p \<in> set (filter (\<lambda>p. p \<in> set (reverse_postorder fn) \<and> block_numbers fn ! v < block_numbers fn ! p)
      (compute_predecessors fn ! v))" by simp
  then have "tree_parent fn v \<in> set (filter (\<lambda>p. p \<in> set (reverse_postorder fn) \<and> block_numbers fn ! v < block_numbers fn ! p)
      (compute_predecessors fn ! v))"
    unfolding tree_parent_def by (metis empty_iff empty_set list.set_sel(1))
  then show ?thesis by simp
qed

interpretation flow: numbered_flow "reverse_postorder fn" "block_numbers fn" "compute_predecessors fn" "tree_parent fn" for fn
proof
  let ?rpo = "reverse_postorder fn"
  have empty: "cf_blocks fn = [] \<Longrightarrow> ?rpo = []" by (simp add: reverse_postorder_def)
  show "sorted_wrt (\<lambda>u v. block_numbers fn ! v < block_numbers fn ! u) ?rpo"
    using rpo_facts(5) [of fn] empty by (cases "cf_blocks fn = []") simp_all
  show "?rpo \<noteq> [] \<Longrightarrow> hd ?rpo = 0" using rpo_facts(2) empty by blast
  show nodes: "v \<in> set ?rpo \<Longrightarrow> v < length (compute_predecessors fn)" for v
    using rpo_facts(4) [of fn v] empty cfg_path_below by fastforce
  show "p < length (compute_predecessors fn)" if "v \<in> set ?rpo" "p \<in> set (compute_predecessors fn ! v)" for v p
    using that nodes [OF that(1)] compute_predecessors_edge(2) [of v fn p] by (simp add: cfg_edge_def)
  show "v \<in> set ?rpo \<longleftrightarrow> (\<exists>S. entry_path (compute_predecessors fn) S v)" for v
  proof (cases "cf_blocks fn = []")
    case True
    then show ?thesis using empty entry_path_nonempty [of "compute_predecessors fn"] by auto
  next
    case False
    then show ?thesis using rpo_facts(4) [OF False, of v] by (auto simp: entry_path_cfg)
  qed
  show "tree_parent fn v \<in> set ?rpo \<and> tree_parent fn v \<in> set (compute_predecessors fn ! v) \<and>
      block_numbers fn ! v < block_numbers fn ! tree_parent fn v" if "v \<in> set ?rpo" "v \<noteq> 0" for v
    using tree_parent_above [OF that] .
qed

lemma on_all_paths_cfg:
  "on_all_paths (compute_predecessors fn) a v \<longleftrightarrow> (\<forall>p. cfg_path fn 0 p v \<longrightarrow> a \<in> insert 0 (set p))"
  unfolding on_all_paths_def entry_path_cfg by blast

section \<open>The computed tree\<close>

lemma compute_dominators_tree:
  assumes "\<not> cf_error_skipped fn" and "cf_blocks fn \<noteq> []"
  shows "\<exists>y. compute_dominators fn = Some (fn\<lparr>cf_idom := map (\<lambda>p. case p of None \<Rightarrow> 0 | Some u \<Rightarrow> u) y\<rparr>) \<and> flow.shape fn y \<and>
    (\<forall>v \<in> set (reverse_postorder fn). y ! v \<noteq> None \<and>
       (\<forall>a. chain (nth y) a v \<longleftrightarrow> on_all_paths (compute_predecessors fn) a v))"
proof -
  obtain y where y: "dom_fix (block_numbers fn) (compute_predecessors fn) (tl (reverse_postorder fn))
      ((replicate (length (compute_predecessors fn)) None)[0 := Some 0]) = Some y" "flow.shape fn y"
    "\<forall>v \<in> set (reverse_postorder fn). y ! v \<noteq> None \<and>
       (\<forall>a. chain (nth y) a v \<longleftrightarrow> on_all_paths (compute_predecessors fn) a v)"
    using flow.dom_fix_dominators [OF rpo_facts(3) [OF assms(2)]] by blast
  have "compute_dominators fn = Some (fn\<lparr>cf_idom := map (\<lambda>p. case p of None \<Rightarrow> 0 | Some u \<Rightarrow> u) y\<rparr>)"
    using y(1) assms by (simp add: compute_dominators_def block_numbers_def)
  then show ?thesis using y(2,3) by blast
qed

lemma compute_dominators_total: "\<exists>fn'. compute_dominators fn = Some fn' \<and> cf_blocks fn' = cf_blocks fn \<and>
    length (cf_idom fn') = length (cf_blocks fn)"
proof (cases "cf_error_skipped fn \<or> cf_blocks fn = []")
  case True
  then show ?thesis by (auto simp: compute_dominators_def Let_def)
next
  case False
  then show ?thesis using compute_dominators_tree [of fn] flow.shapeD(1) by fastforce
qed

lemma dominates_query_paths:
  assumes "\<not> cf_error_skipped fn" and "compute_dominators fn = Some fn'" and "cfg_path fn 0 q b"
  shows "dominates_query fn' a b \<longleftrightarrow> (\<forall>p. cfg_path fn 0 p b \<longrightarrow> a \<in> insert 0 (set p))"
proof -
  have ne: "cf_blocks fn \<noteq> []" using cfg_path_below [OF assms(3)] by auto
  obtain y where y: "compute_dominators fn = Some (fn\<lparr>cf_idom := map (\<lambda>p. case p of None \<Rightarrow> 0 | Some u \<Rightarrow> u) y\<rparr>)"
    "flow.shape fn y" "\<forall>v \<in> set (reverse_postorder fn). y ! v \<noteq> None \<and>
       (\<forall>a. chain (nth y) a v \<longleftrightarrow> on_all_paths (compute_predecessors fn) a v)"
    using compute_dominators_tree [OF assms(1) ne] by blast
  note fn' = assms(2) [unfolded y(1)]
  have len: "length y = length (cf_blocks fn)" using flow.shapeD(1) [OF y(2)] by simp
  have b: "b \<in> set (reverse_postorder fn)" using rpo_facts(4) [OF ne] assms(3) by blast
  have idom: "\<forall>v \<in> set (reverse_postorder fn). \<exists>u. y ! v = Some u \<and> cf_idom fn' ! v = u"
  proof
    fix v
    assume v: "v \<in> set (reverse_postorder fn)"
    then have "v < length y" using flow.nodes [of v fn] len by simp
    then show "\<exists>u. y ! v = Some u \<and> cf_idom fn' ! v = u" using y(3) v fn' by auto
  qed
  have "block_numbers fn ! 0 \<le> length (cf_blocks fn)"
  proof -
    have "block_numbers fn ! (reverse_postorder fn ! 0) = length (reverse_postorder fn) - 1 - 0"
      unfolding block_numbers_def using rpo_facts(1,3) [OF ne] flow.nodes [of _ fn]
      by (intro postorder_numbers_nth) auto
    moreover have "set (reverse_postorder fn) \<subseteq> {..<length (cf_blocks fn)}" using flow.nodes [of _ fn] by auto
    then have "length (reverse_postorder fn) \<le> length (cf_blocks fn)"
      using rpo_facts(1) [OF ne] by (metis card_lessThan card_mono distinct_card finite_lessThan)
    ultimately show ?thesis using rpo_facts(2,3) [OF ne] by (simp add: hd_conv_nth)
  qed
  then have guard: "block_numbers fn ! 0 - block_numbers fn ! b < length (cf_blocks fn) + 1" by simp
  have "dominates_walk fn' a (length (cf_blocks fn) + 1) b \<longleftrightarrow> chain (nth y) a b"
    by (rule flow.dominates_walk_chain [OF y(2) idom b guard])
  also have "\<dots> \<longleftrightarrow> (\<forall>p. cfg_path fn 0 p b \<longrightarrow> a \<in> insert 0 (set p))"
    using y(3) b on_all_paths_cfg [of fn a b] by blast
  finally have walk: "dominates_walk fn' a (length (cf_blocks fn) + 1) b \<longleftrightarrow>
      (\<forall>p. cfg_path fn 0 p b \<longrightarrow> a \<in> insert 0 (set p))" .
  have "a < length (cf_blocks fn)" if "dominates_walk fn' a (length (cf_blocks fn) + 1) b"
  proof -
    have "a \<in> insert 0 (set q)" using that walk assms(3) by blast
    moreover have "x < length (cf_blocks fn)" if "cfg_path fn u q v" "x \<in> set q" for u q v x
      using that by (induction rule: cfg_path.induct) (auto simp: cfg_edge_def)
    ultimately show ?thesis using assms(3) ne by auto
  qed
  moreover have "dominates_query fn' a b \<longleftrightarrow>
      a < length (cf_blocks fn) \<and> dominates_walk fn' a (length (cf_blocks fn) + 1) b"
    using fn' len cfg_path_below [OF assms(3)] by (auto simp: dominates_query_def simp del: dominates_walk.simps)
  ultimately show ?thesis using walk by blast
qed

lemma dominators_of_list_total:
  "\<exists>fns'. dominators_of_list fns = Some fns' \<and> list_all2 (\<lambda>fn fn'. compute_dominators fn = Some fn') fns fns'"
proof (induction fns)
  case (Cons fn fns)
  then show ?case using compute_dominators_total [of fn] by fastforce
qed simp

section \<open>Properties\<close>

text \<open>C3: The tree the fixed point computes is the dominator tree: for a block with a path from the
  entry, walking up from it meets exactly the blocks that lie on every path from the entry to it.\<close>

theorem dominator_tree_exact:
  assumes "\<not> cf_error_skipped fn" and "compute_dominators fn = Some fn'" and "cfg_path fn 0 q b"
  shows "dominates_query fn' a b \<longleftrightarrow> (\<forall>p. cfg_path fn 0 p b \<longrightarrow> a \<in> insert 0 (set p))"
  by (rule dominates_query_paths [OF assms])

theorem dominator_tree_exact_witness:
  "compute_dominators diamond = Some (diamond\<lparr>cf_idom := [0, 0, 0, 0, 0]\<rparr>) \<and>
   \<not> dominates_query (diamond\<lparr>cf_idom := [0, 0, 0, 0, 0]\<rparr>) 1 3 \<and>
   (\<exists>p. cfg_path diamond 0 p 3 \<and> 1 \<notin> insert 0 (set p))"
proof -
  let ?fn = "diamond\<lparr>cf_idom := [0, 0, 0, 0, 0]\<rparr>"
  have computed: "compute_dominators diamond = Some ?fn" by code_simp
  have skipped: "\<not> cf_error_skipped diamond" by (simp add: diamond_def)
  have edges: "cfg_edge diamond 0 1" "cfg_edge diamond 1 3"
    by (simp_all add: diamond_def cfg_edge_def sample_block_def)
  have "cfg_path diamond 0 [1, 3] 3"
    using cfg_path.step [OF cfg_path.step [OF cfg_path.here [of 0 diamond] edges(1)] edges(2)]
    by (simp add: diamond_def)
  from dominator_tree_exact [OF skipped computed this, of 1]
  have "dominates_query ?fn 1 3 \<longleftrightarrow> (\<forall>p. cfg_path diamond 0 p 3 \<longrightarrow> 1 \<in> insert 0 (set p))" .
  moreover have "\<not> dominates_query ?fn 1 3" by code_simp
  ultimately show ?thesis using computed by blast
qed

text \<open>The sweeps always end, whatever the graph: the dominator pass over a storage returns, leaves
  the sentinel function alone and gives every other function its computed tree, with one parent per
  block.\<close>

theorem dominator_pass_terminates:
  "\<exists>fns. compute_all_dominators st = Some (st\<lparr>cs_functions := take 1 (cs_functions st) @ fns\<rparr>) \<and>
     list_all2 (\<lambda>fn fn'. compute_dominators fn = Some fn' \<and> cf_blocks fn' = cf_blocks fn \<and>
       length (cf_idom fn') = length (cf_blocks fn)) (tl (cs_functions st)) fns"
proof -
  obtain fns where fns: "dominators_of_list (tl (cs_functions st)) = Some fns"
    "list_all2 (\<lambda>fn fn'. compute_dominators fn = Some fn') (tl (cs_functions st)) fns"
    using dominators_of_list_total by blast
  have "list_all2 (\<lambda>fn fn'. compute_dominators fn = Some fn' \<and> cf_blocks fn' = cf_blocks fn \<and>
       length (cf_idom fn') = length (cf_blocks fn)) (tl (cs_functions st)) fns"
    using fns(2) by (rule list_all2_mono) (metis compute_dominators_total option.inject)
  then show ?thesis using fns(1) by (intro exI [of _ fns]) (simp add: compute_all_dominators_def)
qed

end
