(* ===== verification/CfgBuilder.thy ===== *)
theory CfgBuilder
  imports Cfg Ast "HOL-Library.State_Monad"
begin

text \<open>
  \<^verbatim>\<open>core/src/control_flow/cfg_builder.cpp\<close>: the basic blocks of every function of a syntax
  tree. The builder mutates one storage through many calls, so it is written in the state monad over
  \<open>cfg_storage\<close>. Whether a subtree has a syntax error is tree-sitter's answer and a parameter.
  The lemmas show that the builder keeps all its indices in range and that block ids and blocks
  correspond one to one; they also show which shapes of code lose their control flow.
\<close>

section \<open>Nodes\<close>

definition node_kind :: "ts_node option \<Rightarrow> string" where
  "node_kind node = (case node of None \<Rightarrow> [] | Some n \<Rightarrow> ts_kind n)"

definition node_span :: "ts_node option \<Rightarrow> source_id \<Rightarrow> span" where
  "node_span node source = \<lparr>sp_source = source, sp_bytes = byte_range node\<rparr>"

definition node_text :: "ts_node option \<Rightarrow> string \<Rightarrow> string" where
  "node_text node bytes = ast_text bytes node"

definition is_barrier_call :: "string \<Rightarrow> bool" where
  "is_barrier_call ident \<longleftrightarrow>
     ident = ''GroupMemoryBarrier'' \<or> ident = ''GroupMemoryBarrierWithGroupSync'' \<or>
     ident = ''DeviceMemoryBarrier'' \<or> ident = ''DeviceMemoryBarrierWithGroupSync'' \<or>
     ident = ''AllMemoryBarrier'' \<or> ident = ''AllMemoryBarrierWithGroupSync''"

text \<open>\<open>std::string_view::find(s) != npos\<close> and \<open>starts_with\<close>.\<close>

definition text_starts_with :: "string \<Rightarrow> string \<Rightarrow> bool" where
  "text_starts_with text s = (take (length s) text = s)"

fun text_contains :: "string \<Rightarrow> string \<Rightarrow> bool" where
  "text_contains [] s = (s = [])"
| "text_contains (c # text) s = (text_starts_with (c # text) s \<or> text_contains text s)"

text \<open>The statement text that marks a block as discarding.\<close>

definition mentions_discard :: "string \<Rightarrow> bool" where
  "mentions_discard text \<longleftrightarrow>
     text_contains text ''discard'' \<or> text_starts_with text ''clip('' \<or> text_contains text '' clip(''"

section \<open>Building blocks\<close>

record build_env =
  be_function_id :: nat
  be_source :: source_id
  be_bytes :: string

definition fresh_block :: "span \<Rightarrow> basic_block" where
  "fresh_block sp =
     \<lparr>bb_span = sp, bb_successors = [], bb_contains_barrier = False, bb_contains_discard = False,
      bb_is_exit = False, bb_tainted_by_error = False\<rparr>"

definition fresh_function :: cfg_function where
  "fresh_function =
     \<lparr>cf_declaration_span = \<lparr>sp_source = \<lparr>sid_value = 0\<rparr>, sp_bytes = \<lparr>bs_lo = 0, bs_hi = 0\<rparr>\<rparr>, cf_name = [],
      cf_blocks = [], cf_idom = [], cf_error_skipped = False\<rparr>"

abbreviation the_fn :: "nat \<Rightarrow> cfg_storage \<Rightarrow> cfg_function" where
  "the_fn fid st \<equiv> cs_functions st ! fid"

definition update_fn :: "nat \<Rightarrow> (cfg_function \<Rightarrow> cfg_function) \<Rightarrow> cfg_storage \<Rightarrow> cfg_storage" where
  "update_fn fid f st = st\<lparr>cs_functions := (cs_functions st)[fid := f (the_fn fid st)]\<rparr>"

definition add_block :: "nat \<Rightarrow> basic_block \<Rightarrow> cfg_storage \<Rightarrow> cfg_storage" where
  "add_block fid block st =
     (let local_index = length (cf_blocks (the_fn fid st));
          st = update_fn fid (\<lambda>fn. fn\<lparr>cf_blocks := cf_blocks fn @ [block]\<rparr>) st;
          (raw, st) = allocate_block_id st fid local_index
      in st\<lparr>cs_span_to_block := cs_span_to_block st @ [(bb_span block, raw)]\<rparr>)"

definition new_block :: "build_env \<Rightarrow> ts_node option \<Rightarrow> (cfg_storage, nat) state" where
  "new_block env anchor = State (\<lambda>st.
     (length (cf_blocks (the_fn (be_function_id env) st)),
      add_block (be_function_id env) (fresh_block (node_span anchor (be_source env))) st))"

definition update_block :: "nat \<Rightarrow> (basic_block \<Rightarrow> basic_block) \<Rightarrow> cfg_function \<Rightarrow> cfg_function" where
  "update_block i f fn = fn\<lparr>cf_blocks := (cf_blocks fn)[i := f (cf_blocks fn ! i)]\<rparr>"

definition modify_block :: "build_env \<Rightarrow> nat \<Rightarrow> (basic_block \<Rightarrow> basic_block) \<Rightarrow> (cfg_storage, unit) state" where
  "modify_block env i f = State (\<lambda>st. ((), update_fn (be_function_id env) (update_block i f) st))"

definition add_edge :: "build_env \<Rightarrow> nat \<Rightarrow> nat \<Rightarrow> (cfg_storage, unit) state" where
  "add_edge env src dst = State (\<lambda>st.
     ((), if src \<ge> length (cf_blocks (the_fn (be_function_id env) st)) then st
          else update_fn (be_function_id env)
                 (update_block src (\<lambda>b. b\<lparr>bb_successors := bb_successors b @ [dst]\<rparr>)) st))"

section \<open>Recursion over nodes\<close>

fun node_size :: "ts_node \<Rightarrow> nat" where
  "node_size (Ts_Node k nm lo hi cs) = Suc (sum_list (map (\<lambda>c. node_size (snd c)) cs))"

lemma child_smaller: "c \<in> set (child_nodes n) \<Longrightarrow> node_size c < node_size n"
proof (cases n)
  case (Ts_Node k nm lo hi cs)
  assume "c \<in> set (child_nodes n)"
  then have "node_size c \<in> set (map (\<lambda>c. node_size (snd c)) cs)" using Ts_Node by auto
  then have "node_size c \<le> sum_list (map (\<lambda>c. node_size (snd c)) cs)" by (rule member_le_sum_list) simp
  then show ?thesis using Ts_Node by simp
qed

lemma named_child_smaller: "c \<in> set (named_children n) \<Longrightarrow> node_size c < node_size n"
  by (rule child_smaller) (simp add: named_children_def)

lemma field_child: "child_by_field n f = Some c \<Longrightarrow> c \<in> set (child_nodes n)"
  by (auto simp: child_by_field_def find_Some_iff intro: rev_image_eqI [OF nth_mem])

fun detect_barrier :: "string \<Rightarrow> ts_node \<Rightarrow> bool" where
  "detect_barrier bytes (Ts_Node k nm lo hi cs) =
     (if k = ''call_expression'' \<and>
         (case child_by_field (Ts_Node k nm lo hi cs) ''function'' of
            None \<Rightarrow> False
          | Some callee \<Rightarrow> is_barrier_call (node_text (Some callee) bytes))
      then True
      else list_ex (\<lambda>c. ts_kind (snd c) \<noteq> ''function_definition'' \<and> detect_barrier bytes (snd c)) cs)"

text \<open>The arms of an \<open>if_statement\<close>: by field name, else by position among the named children.\<close>

definition if_arms :: "ts_node \<Rightarrow> ts_node option \<times> ts_node option" where
  "if_arms n =
     (let then_node = child_by_field n ''consequence''; else_node = child_by_field n ''alternative'' in
      if then_node = None \<and> else_node = None
      then let kids = named_children n in
        (if length kids \<ge> 2 then Some (kids ! 1) else None, if length kids \<ge> 3 then Some (kids ! 2) else None)
      else (then_node, else_node))"

text \<open>The body of a loop, else the last named child (the first one of a \<open>do_statement\<close>).\<close>

definition loop_body :: "ts_node \<Rightarrow> ts_node option" where
  "loop_body n =
     (case child_by_field n ''body'' of
        Some b \<Rightarrow> Some b
      | None \<Rightarrow> let kids = named_children n in if kids = [] then None else Some (last kids))"

definition do_body :: "ts_node \<Rightarrow> ts_node option" where
  "do_body n =
     (case child_by_field n ''body'' of
        Some b \<Rightarrow> Some b
      | None \<Rightarrow> let kids = named_children n in if kids = [] then None else Some (hd kids))"

definition opt_size :: "ts_node option \<Rightarrow> nat" where
  "opt_size node = (case node of None \<Rightarrow> 0 | Some n \<Rightarrow> node_size n)"

lemma node_size_pos [simp]: "0 < node_size n"
  by (cases n) simp

lemma if_arms_smaller: "if_arms n = (t, e) \<Longrightarrow> opt_size t < node_size n \<and> opt_size e < node_size n"
  using named_child_smaller [of _ n] child_smaller [OF field_child]
  by (auto simp: if_arms_def opt_size_def Let_def split: if_splits option.splits)

lemma loop_body_smaller: "opt_size (loop_body n) < node_size n" "opt_size (do_body n) < node_size n"
  using named_child_smaller [of _ n] child_smaller [OF field_child]
  by (auto simp: loop_body_def do_body_def opt_size_def Let_def split: option.splits)

lemma state_bind_cong [fundef_cong]:
  "m = m' \<Longrightarrow> (\<And>a. f a = g a) \<Longrightarrow> State_Monad.bind m f = State_Monad.bind m' g"
proof -
  assume "m = m'" and "\<And>a. f a = g a"
  moreover from this(2) have "f = g" by (rule ext)
  ultimately show ?thesis by simp
qed

lemma named_children_smaller: "Suc (3 * sum_list (map node_size (named_children n))) < 3 * node_size n"
proof -
  have filter: "sum_list (map node_size (filter P ns)) \<le> sum_list (map node_size ns)" for P ns
    by (induction ns) auto
  have "node_size n = Suc (sum_list (map node_size (child_nodes n)))"
    by (cases n) (simp add: comp_def)
  moreover have "sum_list (map node_size (named_children n)) \<le> sum_list (map node_size (child_nodes n))"
    unfolding named_children_def by (rule filter)
  ultimately show ?thesis by linarith
qed

section \<open>Statements\<close>

text \<open>\<open>walk_statement\<close>, its loop over the statements of a block and its loop over the labels of a
  switch.\<close>

function (sequential)
  walk_statement :: "build_env \<Rightarrow> ts_node option \<Rightarrow> nat \<Rightarrow> (cfg_storage, nat) state" and
  walk_kids :: "build_env \<Rightarrow> ts_node list \<Rightarrow> nat \<Rightarrow> (cfg_storage, nat) state" and
  walk_cases :: "build_env \<Rightarrow> ts_node list \<Rightarrow> nat \<Rightarrow> nat \<Rightarrow> (cfg_storage, unit) state"
where
  "walk_statement env None current = State_Monad.return current"
| "walk_statement env (Some n) current =
     (if ts_kind n = ''return_statement''
      then do {
        modify_block env current (\<lambda>b. b\<lparr>bb_is_exit := True\<rparr>);
        new_block env (Some n) }
      else if detect_barrier (be_bytes env) n
      then do {
        modify_block env current (\<lambda>b. b\<lparr>bb_contains_barrier := True\<rparr>);
        nxt \<leftarrow> new_block env (Some n);
        add_edge env current nxt;
        State_Monad.return nxt }
      else do {
        (if mentions_discard (node_text (Some n) (be_bytes env))
         then modify_block env current (\<lambda>b. b\<lparr>bb_contains_discard := True\<rparr>)
         else State_Monad.return ());
        (if ts_kind n = ''if_statement''
         then case if_arms n of (then_node, else_node) \<Rightarrow> do {
           then_block \<leftarrow> new_block env (Some n);
           add_edge env current then_block;
           then_end \<leftarrow> walk_statement env then_node then_block;
           else_end \<leftarrow> (case else_node of
               None \<Rightarrow> State_Monad.return current
             | Some e \<Rightarrow> do {
                 else_block \<leftarrow> new_block env (Some e);
                 add_edge env current else_block;
                 walk_statement env (Some e) else_block });
           join \<leftarrow> new_block env (Some n);
           add_edge env then_end join;
           add_edge env else_end join;
           State_Monad.return join }
         else if ts_kind n = ''for_statement'' \<or> ts_kind n = ''while_statement''
         then do {
           header \<leftarrow> new_block env (Some n);
           add_edge env current header;
           body \<leftarrow> new_block env (Some n);
           add_edge env header body;
           body_end \<leftarrow> walk_statement env (loop_body n) body;
           add_edge env body_end header;
           exit_block \<leftarrow> new_block env (Some n);
           add_edge env header exit_block;
           State_Monad.return exit_block }
         else if ts_kind n = ''do_statement''
         then do {
           body \<leftarrow> new_block env (Some n);
           add_edge env current body;
           body_end \<leftarrow> walk_statement env (do_body n) body;
           cond_block \<leftarrow> new_block env (Some n);
           add_edge env body_end cond_block;
           add_edge env cond_block body;
           exit_block \<leftarrow> new_block env (Some n);
           add_edge env cond_block exit_block;
           State_Monad.return exit_block }
         else if ts_kind n = ''switch_statement''
         then do {
           join \<leftarrow> new_block env (Some n);
           walk_cases env (named_children n) current join;
           (if named_children n = [] then add_edge env current join else State_Monad.return ());
           State_Monad.return join }
         else if ts_kind n = ''compound_statement''
         then walk_kids env (named_children n) current
         else State_Monad.return current) })"
| "walk_kids env [] cur = State_Monad.return cur"
| "walk_kids env (child # kids) cur = do {
     cur \<leftarrow> walk_statement env (Some child) cur;
     walk_kids env kids cur }"
| "walk_cases env [] dispatch join = State_Monad.return ()"
| "walk_cases env (child # kids) dispatch join =
     (if ts_kind child = ''case_statement'' \<or> ts_kind child = ''default_statement''
      then do {
        case_block \<leftarrow> new_block env (Some child);
        add_edge env dispatch case_block;
        case_end \<leftarrow> walk_statement env (Some child) case_block;
        add_edge env case_end join;
        walk_cases env kids dispatch join }
      else walk_cases env kids dispatch join)"
  by pat_completeness auto
termination
  by (relation "measure (case_sum (\<lambda>(env, stmt, cur). 3 * opt_size stmt)
      (case_sum (\<lambda>(env, kids, cur). Suc (3 * sum_list (map node_size kids)))
         (\<lambda>(env, kids, d, j). Suc (3 * sum_list (map node_size kids)))))")
    (use loop_body_smaller named_children_smaller in
      \<open>auto simp: opt_size_def split: option.splits dest!: if_arms_smaller [OF sym]\<close>)

section \<open>Functions\<close>

text \<open>The loop that looks for the name among the children; it ends at the first declarator.\<close>

fun name_loop :: "string \<Rightarrow> ts_node list \<Rightarrow> string \<Rightarrow> string" where
  "name_loop bytes [] name = name"
| "name_loop bytes (child # children) name =
     (case (if ts_kind child = ''function_declarator'' then child_by_field child ''declarator'' else None) of
        Some ident \<Rightarrow> node_text (Some ident) bytes
      | None \<Rightarrow>
          if ts_kind child = ''identifier'' \<and> name = []
          then name_loop bytes children (node_text (Some child) bytes)
          else name_loop bytes children name)"

definition function_body :: "ts_node \<Rightarrow> ts_node option" where
  "function_body fn_node =
     (case child_by_field fn_node ''body'' of
        Some b \<Rightarrow> Some b
      | None \<Rightarrow> find (\<lambda>c. ts_kind c = ''compound_statement'') (child_nodes fn_node))"

definition cfg_skip_diagnostic :: "span \<Rightarrow> diagnostic" where
  "cfg_skip_diagnostic sp =
     \<lparr>dg_code = ''clippy::cfg-skip'', dg_severity = Warning, dg_primary_span = sp,
      dg_message = ''function contains a tree-sitter ERROR node; skipping CFG-stage rules '' @
        ''for this function (see ADR 0013 risk mitigation; ADR 0002 grammar gaps)'',
      dg_fixes = []\<rparr>"

definition build_function ::
  "(ts_node \<Rightarrow> bool) \<Rightarrow> nat \<Rightarrow> ts_node \<Rightarrow> source_id \<Rightarrow> string \<Rightarrow> cfg_storage \<times> diagnostic list \<Rightarrow>
   cfg_storage \<times> diagnostic list" where
  "build_function has_error fid fn_node source bytes sd =
     (case sd of (st, diagnostics) \<Rightarrow>
        let decl = node_span (Some fn_node) source;
            name = name_loop bytes (child_nodes fn_node) (cf_name (the_fn fid st));
            st = update_fn fid (\<lambda>fn. fn\<lparr>cf_declaration_span := decl, cf_name := name\<rparr>) st
        in if has_error fn_node
           then let entry = (fresh_block decl)\<lparr>bb_tainted_by_error := True\<rparr>;
                    st = update_fn fid (\<lambda>fn. fn\<lparr>cf_error_skipped := True\<rparr>) st;
                    st = add_block fid entry st;
                    st = update_fn fid (\<lambda>fn. fn\<lparr>cf_idom := [0]\<rparr>) st
                in (st, diagnostics @ [cfg_skip_diagnostic decl])
           else let env = \<lparr>be_function_id = fid, be_source = source, be_bytes = bytes\<rparr>;
                    (entry_local, st) = run_state (new_block env (Some fn_node)) st;
                    (end_local, st) =
                      (case function_body fn_node of
                         None \<Rightarrow> (entry_local, st)
                       | Some body \<Rightarrow> run_state (walk_statement env (Some body) entry_local) st)
                in (snd (run_state (modify_block env end_local (\<lambda>b. b\<lparr>bb_is_exit := True\<rparr>)) st), diagnostics))"

fun collect_functions :: "ts_node \<Rightarrow> ts_node list" where
  "collect_functions (Ts_Node k nm lo hi cs) =
     (if k = ''function_definition'' then [Ts_Node k nm lo hi cs]
      else concat (map (\<lambda>c. collect_functions (snd c)) cs))"

text \<open>The loop of \<open>build_cfg\<close>: each function gets the next id.\<close>

definition build_next :: "(ts_node \<Rightarrow> bool) \<Rightarrow> source_id \<Rightarrow> string \<Rightarrow> ts_node \<Rightarrow>
    cfg_storage \<times> diagnostic list \<Rightarrow> cfg_storage \<times> diagnostic list" where
  "build_next has_error source bytes fn_node sd =
     (case sd of (st, diagnostics) \<Rightarrow>
        build_function has_error (length (cs_functions st)) fn_node source bytes
          (st\<lparr>cs_functions := cs_functions st @ [fresh_function]\<rparr>, diagnostics))"

definition build_cfg :: "(ts_node \<Rightarrow> bool) \<Rightarrow> ts_node option \<Rightarrow> source_id \<Rightarrow> string \<Rightarrow> cfg_storage \<times> diagnostic list" where
  "build_cfg has_error root_node source bytes =
     (let st = \<lparr>cs_source = source, cs_functions = [fresh_function], cs_block_to_function = [],
                cs_block_to_local = [], cs_span_to_block = []\<rparr>
      in case root_node of
           None \<Rightarrow> (st, [])
         | Some n \<Rightarrow> fold (build_next has_error source bytes) (collect_functions n) (st, []))"

section \<open>What the builder keeps\<close>

text \<open>A storage is well formed when its block ids and its blocks correspond one to one, the sentinel
  function has no block, and every edge ends at a block of its function.\<close>

abbreviation block_count :: "nat \<Rightarrow> cfg_storage \<Rightarrow> nat" where
  "block_count f st \<equiv> length (cf_blocks (the_fn f st))"

definition id_pairs :: "cfg_storage \<Rightarrow> (nat \<times> nat) list" where
  "id_pairs st = zip (cs_block_to_function st) (cs_block_to_local st)"

definition edges_inside :: "cfg_function \<Rightarrow> bool" where
  "edges_inside fn = (\<forall>b \<in> set (cf_blocks fn). \<forall>s \<in> set (bb_successors b). s < length (cf_blocks fn))"

definition storage_ok :: "cfg_storage \<Rightarrow> bool" where
  "storage_ok st \<longleftrightarrow>
     length (cs_block_to_function st) = length (cs_block_to_local st) \<and> distinct (id_pairs st) \<and>
     (\<forall>f l. (f, l) \<in> set (id_pairs st) \<longleftrightarrow> f < length (cs_functions st) \<and> l < block_count f st) \<and>
     cs_functions st \<noteq> [] \<and> cf_blocks (the_fn 0 st) = [] \<and> (\<forall>fn \<in> set (cs_functions st). edges_inside fn)"

lemma storage_okD:
  assumes "storage_ok st"
  shows "length (cs_block_to_function st) = length (cs_block_to_local st)" and "distinct (id_pairs st)"
    and "(f, l) \<in> set (id_pairs st) \<longleftrightarrow> f < length (cs_functions st) \<and> l < block_count f st"
    and "cs_functions st \<noteq> []" and "cf_blocks (the_fn 0 st) = []"
    and "f < length (cs_functions st) \<Longrightarrow> edges_inside (the_fn f st)"
  using assms by (simp_all add: storage_ok_def)

lemma update_fn_simps [simp]:
  "length (cs_functions (update_fn fid f st)) = length (cs_functions st)"
  "fid < length (cs_functions st) \<Longrightarrow> the_fn fid (update_fn fid f st) = f (the_fn fid st)"
  "g \<noteq> fid \<Longrightarrow> the_fn g (update_fn fid f st) = the_fn g st"
  "id_pairs (update_fn fid f st) = id_pairs st"
  "cs_block_to_function (update_fn fid f st) = cs_block_to_function st"
  "cs_block_to_local (update_fn fid f st) = cs_block_to_local st"
  by (simp_all add: update_fn_def id_pairs_def)

lemma update_fn_ok:
  assumes "storage_ok st" and "fid < length (cs_functions st)" and "0 < fid"
    and "length (cf_blocks (f (the_fn fid st))) = block_count fid st" and "edges_inside (f (the_fn fid st))"
  shows "storage_ok (update_fn fid f st)"
proof -
  have "block_count g (update_fn fid f st) = block_count g st" for g
    using assms(2,4) by (cases "g = fid") simp_all
  moreover have "\<forall>fn \<in> set (cs_functions (update_fn fid f st)). edges_inside fn"
    using assms(1,5) set_update_subset_insert [of "cs_functions st" fid "f (the_fn fid st)"]
    by (auto simp: storage_ok_def update_fn_def)
  ultimately show ?thesis
    using assms(1,3) by (simp add: storage_ok_def) (simp add: update_fn_def)
qed

lemma add_block_simps:
  assumes "fid < length (cs_functions st)"
  shows "length (cs_functions (add_block fid b st)) = length (cs_functions st)"
    and "the_fn fid (add_block fid b st) = (the_fn fid st)\<lparr>cf_blocks := cf_blocks (the_fn fid st) @ [b]\<rparr>"
    and "g \<noteq> fid \<Longrightarrow> the_fn g (add_block fid b st) = the_fn g st"
    and "length (cs_block_to_function st) = length (cs_block_to_local st) \<Longrightarrow>
      id_pairs (add_block fid b st) = id_pairs st @ [(fid, block_count fid st)]"
    and "length (cs_block_to_function (add_block fid b st)) = Suc (length (cs_block_to_function st))"
    and "length (cs_block_to_local (add_block fid b st)) = Suc (length (cs_block_to_local st))"
  using assms by (simp_all add: add_block_def Let_def allocate_block_id_def update_fn_def id_pairs_def)

lemma add_block_ok:
  assumes ok: "storage_ok st" and fid: "fid < length (cs_functions st)" "0 < fid" and "bb_successors b = []"
  shows "storage_ok (add_block fid b st)"
proof -
  note parts = storage_okD [OF ok] and new = add_block_simps [OF fid(1)]
  have "edges_inside ((the_fn fid st)\<lparr>cf_blocks := cf_blocks (the_fn fid st) @ [b]\<rparr>)"
    using parts(6) [OF fid(1)] assms(4) by (fastforce simp: edges_inside_def)
  then have "edges_inside (the_fn g (add_block fid b st))" if "g < length (cs_functions st)" for g
    using that parts(6) [of g] new(2,3) by (cases "g = fid") simp_all
  then have "\<forall>fn \<in> set (cs_functions (add_block fid b st)). edges_inside fn"
    using new(1) by (auto simp: in_set_conv_nth)
  moreover have "(f, l) \<in> set (id_pairs (add_block fid b st)) \<longleftrightarrow>
      f < length (cs_functions (add_block fid b st)) \<and> l < block_count f (add_block fid b st)" for f l
    using parts(1) parts(3) [of f l] new fid by (cases "f = fid") auto
  moreover have "distinct (id_pairs (add_block fid b st))"
    using parts(1,2) parts(3) [of fid "block_count fid st"] new(4) by simp
  moreover have "cs_functions (add_block fid b st) \<noteq> []" using new(1) [of b] fid(1) by (metis length_0_conv less_nat_zero_code)
  ultimately show ?thesis using parts(1,5) new fid(2) by (auto simp: storage_ok_def)
qed

text \<open>A step of the builder on a function with at least \<open>lo\<close> blocks: it keeps the storage well formed
  and the blocks, and its result meets \<open>R\<close> for the new number of blocks.\<close>

definition builds :: "nat \<Rightarrow> nat \<Rightarrow> (nat \<Rightarrow> 'a \<Rightarrow> bool) \<Rightarrow> (cfg_storage, 'a) state \<Rightarrow> bool" where
  "builds fid lo R m \<longleftrightarrow>
     (\<forall>st. storage_ok st \<longrightarrow> 0 < fid \<longrightarrow> fid < length (cs_functions st) \<longrightarrow> lo \<le> block_count fid st \<longrightarrow>
        (case run_state m st of (a, st') \<Rightarrow>
           storage_ok st' \<and> length (cs_functions st') = length (cs_functions st) \<and>
           block_count fid st \<le> block_count fid st' \<and> R (block_count fid st') a))"

abbreviation (input) index_below :: "nat \<Rightarrow> nat \<Rightarrow> bool" where
  "index_below n i \<equiv> i < n"

abbreviation (input) no_result :: "nat \<Rightarrow> unit \<Rightarrow> bool" where
  "no_result n u \<equiv> True"

lemma builds_return: "(\<And>n. lo \<le> n \<Longrightarrow> R n a) \<Longrightarrow> builds fid lo R (State_Monad.return a)"
  by (simp add: builds_def)

lemma builds_bind:
  assumes "builds fid lo Q m" and "\<And>a hi. lo \<le> hi \<Longrightarrow> Q hi a \<Longrightarrow> builds fid hi R (f a)"
  shows "builds fid lo R (State_Monad.bind m f)"
  unfolding builds_def
proof (intro allI impI)
  fix st
  assume st: "storage_ok st" "0 < fid" "fid < length (cs_functions st)" "lo \<le> block_count fid st"
  obtain a st' where m: "run_state m st = (a, st')" by fastforce
  have st': "storage_ok st'" "length (cs_functions st') = length (cs_functions st)"
    "block_count fid st \<le> block_count fid st'" "Q (block_count fid st') a"
    using assms(1) st m by (auto simp: builds_def)
  then have "builds fid (block_count fid st') R (f a)" using assms(2) st(4) by (meson order_trans)
  then show "case run_state (State_Monad.bind m f) st of (b, st'') \<Rightarrow>
      storage_ok st'' \<and> length (cs_functions st'') = length (cs_functions st) \<and>
      block_count fid st \<le> block_count fid st'' \<and> R (block_count fid st'') b"
    using st st' m by (force simp: builds_def)
qed

lemma builds_new_block: "builds (be_function_id env) lo index_below (new_block env anchor)"
  by (auto simp: builds_def new_block_def add_block_ok fresh_block_def add_block_simps)

lemma builds_modify_block:
  assumes "\<And>b. set (bb_successors (f b)) \<subseteq> set (bb_successors b) \<union> {..<lo}"
  shows "builds (be_function_id env) lo no_result (modify_block env i f)"
proof -
  have "edges_inside (update_block i f fn)" if "edges_inside fn" "lo \<le> length (cf_blocks fn)" for fn
  proof (cases "i < length (cf_blocks fn)")
    case True
    then have "\<forall>s \<in> set (bb_successors (f (cf_blocks fn ! i))). s < length (cf_blocks fn)"
      using assms [of "cf_blocks fn ! i"] that by (fastforce simp: edges_inside_def)
    then show ?thesis
      using that set_update_subset_insert [of "cf_blocks fn" i "f (cf_blocks fn ! i)"]
      by (auto simp: edges_inside_def update_block_def)
  qed (use that in \<open>simp add: edges_inside_def update_block_def list_update_beyond\<close>)
  then show ?thesis
    by (auto simp: builds_def modify_block_def update_block_def storage_okD intro!: update_fn_ok)
qed

lemma builds_add_edge:
  assumes "dst < lo"
  shows "builds (be_function_id env) lo no_result (add_edge env src dst)"
proof -
  have "run_state (add_edge env src dst) st =
      (if src \<ge> block_count (be_function_id env) st then ((), st)
       else run_state (modify_block env src (\<lambda>b. b\<lparr>bb_successors := bb_successors b @ [dst]\<rparr>)) st)" for st
    by (simp add: add_edge_def modify_block_def)
  moreover have "builds (be_function_id env) lo no_result
      (modify_block env src (\<lambda>b. b\<lparr>bb_successors := bb_successors b @ [dst]\<rparr>))"
    by (rule builds_modify_block) (use assms in auto)
  ultimately show ?thesis unfolding builds_def by auto
qed

lemmas builds_rules = builds_return builds_new_block builds_modify_block builds_add_edge

lemma builds_cases:
  "(c \<Longrightarrow> builds fid lo R m) \<Longrightarrow> (\<not> c \<Longrightarrow> builds fid lo R m') \<Longrightarrow> builds fid lo R (if c then m else m')"
  "(x = None \<Longrightarrow> builds fid lo R n) \<Longrightarrow> (\<And>y. x = Some y \<Longrightarrow> builds fid lo R (s y)) \<Longrightarrow>
     builds fid lo R (case x of None \<Rightarrow> n | Some y \<Rightarrow> s y)"
  "(\<And>t e. z = (t, e) \<Longrightarrow> builds fid lo R (p t e)) \<Longrightarrow> builds fid lo R (case z of (t, e) \<Rightarrow> p t e)"
  by (simp_all split: option.split prod.split)

lemma walk_builds:
  shows "current < lo \<Longrightarrow> builds (be_function_id env) lo index_below (walk_statement env stmt current)"
    and "current < lo \<Longrightarrow> builds (be_function_id env) lo index_below (walk_kids env kids current)"
    and "join < lo \<Longrightarrow> builds (be_function_id env) lo no_result (walk_cases env cases dispatch join)"
proof (induction env stmt current and env kids current and env cases dispatch join arbitrary: lo and lo and lo
    rule: walk_statement_walk_kids_walk_cases.induct)
  case (1 env current)
  then show ?case by (auto intro: builds_return)
next
  case (2 env n current)
  note steps = builds_bind builds_new_block builds_add_edge builds_return
  have marks: "builds (be_function_id env) lo no_result (if c then modify_block env current (\<lambda>b. b\<lparr>bb_contains_discard := True\<rparr>)
      else State_Monad.return ())" for c
    by (intro builds_cases(1) builds_modify_block builds_return) simp_all
  show ?case
  proof (subst walk_statement.simps, intro builds_cases(1), goal_cases)
    case 1
    show ?case by (rule builds_bind, rule builds_modify_block, simp, rule builds_new_block)
  next
    case 2
    show ?case by (rule builds_bind, rule builds_modify_block, simp) (rule steps | simp)+
  next
    case kind: 3
    show ?case
    proof (rule builds_bind [OF marks], intro builds_cases(1), goal_cases)
      case (1 u hi)
      show ?case
      proof (rule builds_cases(3))
        fix t e
        assume arms: "if_arms n = (t, e)"
        note walk_then = 2(1) [OF kind 1(3) arms [symmetric]]
        have walk_else: "builds (be_function_id env) k index_below
            (case e of None \<Rightarrow> State_Monad.return current
             | Some e \<Rightarrow> do { else_block \<leftarrow> new_block env (Some e); add_edge env current else_block; walk_statement env (Some e) else_block })"
          if "current < k" for k
        proof (rule builds_cases(2))
          show "builds (be_function_id env) k index_below (State_Monad.return current)"
            by (rule builds_return) (use that in simp)
          fix e'
          assume "e = Some e'"
          note walk_some = 2(2) [OF kind 1(3) arms [symmetric] this]
          show "builds (be_function_id env) k index_below
              (do { else_block \<leftarrow> new_block env (Some e'); add_edge env current else_block; walk_statement env (Some e') else_block })"
            by (rule steps walk_some | simp)+
        qed
        show "builds (be_function_id env) hi index_below (do {
           then_block \<leftarrow> new_block env (Some n);
           add_edge env current then_block;
           then_end \<leftarrow> walk_statement env t then_block;
           else_end \<leftarrow> (case e of None \<Rightarrow> State_Monad.return current
             | Some e \<Rightarrow> do { else_block \<leftarrow> new_block env (Some e); add_edge env current else_block; walk_statement env (Some e) else_block });
           join \<leftarrow> new_block env (Some n);
           add_edge env then_end join;
           add_edge env else_end join;
           State_Monad.return join })"
          using 2(7) 1(1) by - (rule steps walk_then walk_else | simp)+
      qed
    next
      case loop: (2 u hi)
      show ?case by (rule steps 2(3) [OF kind loop(3,4)] | simp)+
    next
      case body: (3 u hi)
      show ?case by (rule steps 2(4) [OF kind body(3-5)] | simp)+
    next
      case switch: (4 u hi)
      note walk = 2(5) [OF kind switch(3-6)]
      show ?case by (rule steps walk builds_cases(1) | simp)+
    next
      case block: (5 u hi)
      show ?case by (rule 2(6) [OF kind block(3-7)]) (use 2(7) block(1) in simp)
    next
      case other: (6 u hi)
      show ?case by (rule builds_return) (use 2(7) other(1) in simp)
    qed
  qed
next
  case (3 env cur)
  then show ?case by (auto intro: builds_return)
next
  case (4 env child kids cur)
  show ?case
    by (subst walk_kids.simps, rule builds_bind, rule 4(1), rule 4(3), rule 4(2), simp)
next
  case (5 env dispatch join)
  then show ?case by (auto intro: builds_return)
next
  case (6 env child kids dispatch join)
  show ?case
  proof (cases "ts_kind child = ''case_statement'' \<or> ts_kind child = ''default_statement''")
    case True
    have "builds (be_function_id env) lo no_result (do {
        case_block \<leftarrow> new_block env (Some child);
        add_edge env dispatch case_block;
        case_end \<leftarrow> walk_statement env (Some child) case_block;
        add_edge env case_end join;
        walk_cases env kids dispatch join })"
      using 6(4) by - (rule builds_bind builds_new_block builds_add_edge 6(1) [OF True] 6(2) [OF True] | simp)+
    then show ?thesis using True by simp
  next
    case False
    then show ?thesis using 6(3) [OF False] 6(4) by simp
  qed
qed

section \<open>Whole functions and sources\<close>

lemma update_fn_blocks_ok:
  assumes "storage_ok st" and "fid < length (cs_functions st)" and "0 < fid" and "\<And>fn. cf_blocks (f fn) = cf_blocks fn"
  shows "storage_ok (update_fn fid f st)"
  by (rule update_fn_ok) (use assms storage_okD(6) [OF assms(1,2)] in \<open>simp_all add: edges_inside_def\<close>)

lemma buildsD:
  assumes "builds fid lo R m" and "storage_ok st" "0 < fid" "fid < length (cs_functions st)" "lo \<le> block_count fid st"
  shows "storage_ok (snd (run_state m st)) \<and> length (cs_functions (snd (run_state m st))) = length (cs_functions st)"
  using assms by (cases "run_state m st") (auto simp: builds_def)

lemma build_function_ok:
  assumes ok: "storage_ok st" and fid: "fid < length (cs_functions st)" "0 < fid"
  shows "storage_ok (fst (build_function has_error fid fn_node source bytes (st, ds)))"
    and "length (cs_functions (fst (build_function has_error fid fn_node source bytes (st, ds)))) = length (cs_functions st)"
proof -
  define st1 where "st1 = update_fn fid (\<lambda>fn. fn\<lparr>cf_declaration_span := node_span (Some fn_node) source,
    cf_name := name_loop bytes (child_nodes fn_node) (cf_name (the_fn fid st))\<rparr>) st"
  have st1: "storage_ok st1" "length (cs_functions st1) = length (cs_functions st)"
    using update_fn_blocks_ok [OF ok fid] by (simp_all add: st1_def)
  note fid1 = fid(1) [folded st1(2)]
  have "storage_ok (fst (build_function has_error fid fn_node source bytes (st, ds))) \<and>
    length (cs_functions (fst (build_function has_error fid fn_node source bytes (st, ds)))) = length (cs_functions st)"
  proof (cases "has_error fn_node")
    case True
    have "storage_ok (update_fn fid (\<lambda>fn. fn\<lparr>cf_error_skipped := True\<rparr>) st1)"
      by (rule update_fn_blocks_ok [OF st1(1) fid1 fid(2)]) simp
    then have "storage_ok (add_block fid ((fresh_block (node_span (Some fn_node) source))\<lparr>bb_tainted_by_error := True\<rparr>)
        (update_fn fid (\<lambda>fn. fn\<lparr>cf_error_skipped := True\<rparr>) st1))"
      by (rule add_block_ok) (use fid1 fid(2) in \<open>simp_all add: fresh_block_def\<close>)
    from update_fn_blocks_ok [OF this _ fid(2), of "\<lambda>fn. fn\<lparr>cf_idom := [0]\<rparr>"]
    show ?thesis
      using True fid fid1 st1(2)
      by (simp add: build_function_def Let_def st1_def [symmetric] add_block_simps)
  next
    case False
    define env where "env = \<lparr>be_function_id = fid, be_source = source, be_bytes = bytes\<rparr>"
    let ?m = "do {
        entry_local \<leftarrow> new_block env (Some fn_node);
        end_local \<leftarrow> (case function_body fn_node of None \<Rightarrow> State_Monad.return entry_local
          | Some body \<Rightarrow> walk_statement env (Some body) entry_local);
        modify_block env end_local (\<lambda>b. b\<lparr>bb_is_exit := True\<rparr>) }"
    have "builds (be_function_id env) 0 no_result ?m"
      by (rule builds_bind, rule builds_new_block, rule builds_bind [where Q = index_below],
        rule builds_cases(2), rule builds_return, simp, rule walk_builds(1), simp, rule builds_modify_block, simp)
    then have "builds fid 0 no_result ?m" by (simp add: env_def)
    then have "storage_ok (snd (run_state ?m st1)) \<and> length (cs_functions (snd (run_state ?m st1))) = length (cs_functions st1)"
      by (rule buildsD) (use st1 fid in simp_all)
    moreover have "fst (build_function has_error fid fn_node source bytes (st, ds)) = snd (run_state ?m st1)"
      using False by (cases "function_body fn_node")
        (simp_all only: build_function_def Let_def st1_def [symmetric] env_def [symmetric] if_False prod.case fst_conv
          split_beta run_state_bind run_state_return option.case snd_conv)
    ultimately show ?thesis using st1(2) by simp
  qed
  then show "storage_ok (fst (build_function has_error fid fn_node source bytes (st, ds)))"
    and "length (cs_functions (fst (build_function has_error fid fn_node source bytes (st, ds)))) = length (cs_functions st)"
    by simp_all
qed

lemma append_function_ok:
  assumes "storage_ok st"
  shows "storage_ok (st\<lparr>cs_functions := cs_functions st @ [fresh_function]\<rparr>)"
proof -
  note parts = storage_okD [OF assms]
  have "(f, l) \<in> set (id_pairs st) \<longleftrightarrow> f < Suc (length (cs_functions st)) \<and>
      l < length (cf_blocks ((cs_functions st @ [fresh_function]) ! f))" for f l
    using parts(3) [of f l] by (auto simp: nth_append fresh_function_def less_Suc_eq)
  then show ?thesis
    using parts(1,2,4,5) assms
    by (auto simp: storage_ok_def id_pairs_def nth_append edges_inside_def fresh_function_def)
qed

lemma build_next_ok:
  assumes "storage_ok st"
  shows "storage_ok (fst (build_next has_error source bytes fn_node (st, ds)))"
  using build_function_ok(1) [OF append_function_ok [OF assms]] storage_okD(4) [OF assms]
  by (simp add: build_next_def)

lemma build_cfg_ok: "storage_ok (fst (build_cfg has_error node source bytes))"
proof -
  have start: "storage_ok \<lparr>cs_source = source, cs_functions = [fresh_function], cs_block_to_function = [],
      cs_block_to_local = [], cs_span_to_block = []\<rparr>"
    by (auto simp: storage_ok_def id_pairs_def edges_inside_def fresh_function_def)
  have "storage_ok (fst (fold (build_next has_error source bytes) fns sd))" if "storage_ok (fst sd)" for fns sd
    using that
  proof (induction fns arbitrary: sd)
    case (Cons fn_node fns)
    then show ?case using build_next_ok [of "fst sd" has_error source bytes fn_node "snd sd"] by simp
  qed simp
  then show ?thesis using start by (simp add: build_cfg_def Let_def split: option.splits)
qed

text \<open>Ids and blocks correspond.\<close>

lemma global_id_resolves:
  assumes ok: "storage_ok st" and "f < length (cs_functions st)" and "l < block_count f st"
  shows "global_id st f l \<noteq> 0 \<and> resolve_block st (global_id st f l) = (f, l)"
proof -
  have "(f, l) \<in> set (id_pairs st)" using storage_okD(3) [OF ok] assms by blast
  then obtain i where i: "i < length (cs_block_to_function st)" "cs_block_to_function st ! i = f" "cs_block_to_local st ! i = l"
    using storage_okD(1) [OF ok] by (auto simp: id_pairs_def in_set_zip)
  then obtain k where k: "find (\<lambda>i. cs_block_to_function st ! i = f \<and> cs_block_to_local st ! i = l)
      [0..<length (cs_block_to_function st)] = Some k"
    by (cases "find (\<lambda>i. cs_block_to_function st ! i = f \<and> cs_block_to_local st ! i = l)
      [0..<length (cs_block_to_function st)]") (auto simp: find_None_iff)
  then have "k < length (cs_block_to_function st)" "cs_block_to_function st ! k = f" "cs_block_to_local st ! k = l"
    by (auto simp: find_Some_iff)
  then show ?thesis using k by (simp add: global_id_def resolve_block_def)
qed

lemma resolve_in_range:
  assumes ok: "storage_ok st" and "raw \<noteq> 0" "raw \<le> length (cs_block_to_function st)"
  shows "\<exists>f l. resolve_block st raw = (f, l) \<and> 0 < f \<and> f < length (cs_functions st) \<and> l < block_count f st \<and> global_id st f l = raw"
proof -
  let ?f = "cs_block_to_function st ! (raw - 1)" and ?l = "cs_block_to_local st ! (raw - 1)"
  have raw: "raw - 1 < length (id_pairs st)" "id_pairs st ! (raw - 1) = (?f, ?l)"
    using assms storage_okD(1) [OF ok] by (simp_all add: id_pairs_def)
  then have mem: "?f < length (cs_functions st)" "?l < block_count ?f st"
    using storage_okD(3) [OF ok, of ?f ?l] nth_mem [OF raw(1)] by simp_all
  moreover have pos: "0 < ?f" using mem(2) storage_okD(5) [OF ok] by (cases "?f = 0") auto
  moreover have "global_id st ?f ?l = raw"
  proof -
    note g = global_id_resolves [OF ok mem]
    let ?g = "global_id st ?f ?l"
    have g': "?g - 1 < length (id_pairs st)" "id_pairs st ! (?g - 1) = (?f, ?l)"
    proof -
      have "?g \<le> length (cs_block_to_function st)" using g pos by (auto simp: resolve_block_def split: if_splits)
      then have "?g - 1 < length (cs_block_to_function st)" using g by linarith
      then show "?g - 1 < length (id_pairs st)" "id_pairs st ! (?g - 1) = (?f, ?l)"
        using g pos storage_okD(1) [OF ok] by (auto simp: resolve_block_def id_pairs_def split: if_splits)
    qed
    then have "?g - 1 = raw - 1"
      using nth_eq_iff_index_eq [OF storage_okD(2) [OF ok] g'(1) raw(1)] raw(2) by simp
    then show ?thesis using g assms(2) by linarith
  qed
  ultimately show ?thesis using assms by (simp add: resolve_block_def)
qed

lemma global_id_below:
  assumes "storage_ok st" and "f < length (cs_functions st)" and "l < block_count f st"
  shows "global_id st f l \<le> length (cs_block_to_function st)"
proof (rule ccontr)
  assume "\<not> ?thesis"
  then have "resolve_block st (global_id st f l) = (0, 0)" by (simp add: resolve_block_def)
  then show False using global_id_resolves [OF assms] assms(3) storage_okD(5) [OF assms(1)] by auto
qed

text \<open>A storage with one function, for the examples: its text is all the builder reads.\<close>

definition leaf :: "string \<Rightarrow> nat \<Rightarrow> nat \<Rightarrow> ts_node" where
  "leaf k lo hi = Ts_Node k True (u32_of lo) (u32_of hi) []"

text \<open>\<open>void f(){if(a){AllMemoryBarrier();}}\<close> and \<open>void f(){if(a){g();}}\<close>: a call under a
  condition, given the callee and its text.\<close>

definition sample_function :: "string \<Rightarrow> ts_node" where
  "sample_function bytes =
     (let n = length bytes;
          call = Ts_Node ''call_expression'' True 15 (u32_of (n - 3))
            [(Some ''function'', Ts_Node ''identifier'' True 15 (u32_of (n - 5)) [])];
          arm = Ts_Node ''compound_statement'' True 14 (u32_of (n - 1))
            [(None, Ts_Node ''expression_statement'' True 15 (u32_of (n - 2)) [(None, call)])];
          branch = Ts_Node ''if_statement'' True 9 (u32_of (n - 1))
            [(Some ''condition'', leaf ''identifier'' 12 13), (Some ''consequence'', arm)];
          body = Ts_Node ''compound_statement'' True 8 (u32_of n) [(None, branch)]
      in Ts_Node ''function_definition'' True 0 (u32_of n)
           [(Some ''type'', leaf ''primitive_type'' 0 4),
            (Some ''declarator'', Ts_Node ''function_declarator'' True 5 8 [(Some ''declarator'', leaf ''identifier'' 5 6)]),
            (Some ''body'', body)])"

section \<open>Properties\<close>

text \<open>C8: Block ids are sound on every storage the builder returns: a function and a local index name a
  block exactly when some id in range resolves to them, and the id the storage looks up for them is
  then that one.\<close>

theorem built_block_ids:
  assumes "storage = fst (build_cfg has_error node source bytes)"
  shows "f < length (cs_functions storage) \<and> l < length (cf_blocks (cs_functions storage ! f)) \<longleftrightarrow>
    (\<exists>raw. raw \<noteq> 0 \<and> raw \<le> length (cs_block_to_function storage) \<and> resolve_block storage raw = (f, l) \<and>
       global_id storage f l = raw)"
proof -
  have ok: "storage_ok storage" unfolding assms by (rule build_cfg_ok)
  show ?thesis
  proof
    assume "f < length (cs_functions storage) \<and> l < length (cf_blocks (cs_functions storage ! f))"
    then show "\<exists>raw. raw \<noteq> 0 \<and> raw \<le> length (cs_block_to_function storage) \<and> resolve_block storage raw = (f, l) \<and>
        global_id storage f l = raw"
      using global_id_resolves [OF ok, of f l] global_id_below [OF ok, of f l] by blast
  next
    assume "\<exists>raw. raw \<noteq> 0 \<and> raw \<le> length (cs_block_to_function storage) \<and> resolve_block storage raw = (f, l) \<and>
        global_id storage f l = raw"
    then obtain raw where raw: "raw \<noteq> 0" "raw \<le> length (cs_block_to_function storage)" "resolve_block storage raw = (f, l)"
      by blast
    then show "f < length (cs_functions storage) \<and> l < length (cf_blocks (cs_functions storage ! f))"
      using resolve_in_range [OF ok raw(1,2)] by auto
  qed
qed

definition sample_storage :: "string \<Rightarrow> cfg_storage" where
  "sample_storage bytes = fst (build_cfg (\<lambda>_. False) (Some (sample_function bytes)) \<lparr>sid_value = 1\<rparr> bytes)"

lemma sample_plain:
  "length (cs_functions (sample_storage ''void f(){if(a){g();}}'')) = 2 \<and>
   map bb_successors (cf_blocks (cs_functions (sample_storage ''void f(){if(a){g();}}'') ! 1)) = [[1, 2], [2], []]"
  by code_simp

theorem built_block_ids_witness:
  "length (cf_blocks (cs_functions (sample_storage ''void f(){if(a){g();}}'') ! 1)) = 3 \<and>
   (\<exists>raw. raw \<noteq> 0 \<and> resolve_block (sample_storage ''void f(){if(a){g();}}'') raw = (1, 2))"
proof -
  have "length (cs_functions (sample_storage ''void f(){if(a){g();}}'')) = 2"
    "length (cf_blocks (cs_functions (sample_storage ''void f(){if(a){g();}}'') ! 1)) = length [[1, 2], [2], [] :: nat list]"
    using sample_plain length_map by metis+
  then show ?thesis using built_block_ids [OF sample_storage_def [of "''void f(){if(a){g();}}''"], of 1 2] by auto
qed

text \<open>No search over a built graph leaves its tables: every successor of every block is a block of the
  same function.\<close>

theorem built_edges_inside:
  assumes "fn \<in> set (cs_functions (fst (build_cfg has_error node source bytes)))" and "b \<in> set (cf_blocks fn)"
    and "s \<in> set (bb_successors b)"
  shows "s < length (cf_blocks fn)"
  using build_cfg_ok [of has_error node source bytes] assms by (auto simp: storage_ok_def edges_inside_def)

theorem built_edges_inside_witness:
  "map bb_successors (cf_blocks (cs_functions (sample_storage ''void f(){if(a){g();}}'') ! 1)) = [[1, 2], [2], []] \<and>
   2 < length (cf_blocks (cs_functions (sample_storage ''void f(){if(a){g();}}'') ! 1))"
proof -
  let ?st = "sample_storage ''void f(){if(a){g();}}''"
  have succs: "map bb_successors (cf_blocks (cs_functions ?st ! 1)) = [[1, 2], [2], []]"
    and "length (cs_functions ?st) = 2" using sample_plain by blast+
  have "[1, 2] \<in> set (map bb_successors (cf_blocks (cs_functions ?st ! 1)))" unfolding succs by simp
  then obtain b where b: "b \<in> set (cf_blocks (cs_functions ?st ! 1))" "[1, 2] = bb_successors b"
    unfolding set_map by (rule imageE) blast
  have "2 \<in> set (bb_successors b)" unfolding b(2) [symmetric] by simp
  note b = b(1) this
  from \<open>length (cs_functions ?st) = 2\<close> have "cs_functions ?st ! 1 \<in> set (cs_functions ?st)" by simp
  then have "2 < length (cf_blocks (cs_functions ?st ! 1))"
    using b built_edges_inside unfolding sample_storage_def by blast
  with succs show ?thesis by blast
qed

text \<open>A barrier anywhere in a function erases its control flow: the test for barrier calls comes before
  the case of a brace block and looks through whole subtrees, so the body of such a function is taken
  for one barrier statement. The function gets two blocks, the entry marked as the barrier and an exit
  after it, whatever conditions and loops the barrier sits in.\<close>

theorem barrier_flattens_function:
  assumes "\<not> has_error fn_node" and "function_body fn_node = Some body"
    and "ts_kind body \<noteq> ''return_statement''" and "detect_barrier bytes body"
  shows "map (\<lambda>b. (bb_successors b, bb_contains_barrier b, bb_is_exit b))
    (cf_blocks (last (cs_functions (fst (build_next has_error source bytes fn_node sd))))) =
    [([1], True, False), ([], False, True)]"
proof -
  obtain st ds where sd: "sd = (st, ds)" by fastforce
  have last: "last (cs_functions st') = the_fn (length (cs_functions st)) st'"
    if "length (cs_functions st') = Suc (length (cs_functions st))" for st' :: cfg_storage
    using that by (metis diff_Suc_1 last_conv_nth length_0_conv nat.distinct(1))
  show ?thesis
    using assms
    by (simp add: sd build_next_def build_function_def Let_def last new_block_def add_block_simps modify_block_def
        add_edge_def update_block_def fresh_block_def fresh_function_def nth_append)
qed

theorem barrier_flattens_function_witness:
  "map (\<lambda>b. (bb_successors b, bb_contains_barrier b, bb_is_exit b))
     (cf_blocks (last (cs_functions (fst (build_next (\<lambda>_. False) \<lparr>sid_value = 1\<rparr> ''void f(){if(a){AllMemoryBarrier();}}''
       (sample_function ''void f(){if(a){AllMemoryBarrier();}}'') (sample_storage [], [])))))) =
     [([1], True, False), ([], False, True)] \<and>
   map bb_successors (cf_blocks (cs_functions (sample_storage ''void f(){if(a){g();}}'') ! 1)) = [[1, 2], [2], []]"
proof -
  let ?bytes = "''void f(){if(a){AllMemoryBarrier();}}''"
  have "case function_body (sample_function ?bytes) of None \<Rightarrow> False
    | Some body \<Rightarrow> ts_kind body \<noteq> ''return_statement'' \<and> detect_barrier ?bytes body" by code_simp
  then obtain body where "function_body (sample_function ?bytes) = Some body" "ts_kind body \<noteq> ''return_statement''"
    "detect_barrier ?bytes body" by (auto split: option.splits)
  moreover note sample_plain
  ultimately show ?thesis using barrier_flattens_function [of "\<lambda>_. False"] by blast
qed

text \<open>The same loss for a switch whose labels are not its direct children: the loop over the labels finds
  none and the edge past them is added only for a switch without any child, so the block the code after
  the switch goes to has no edge into it.\<close>

theorem switch_without_direct_labels:
  assumes "ts_kind n = ''switch_statement''" and "named_children n \<noteq> []"
    and "\<forall>c \<in> set (named_children n). ts_kind c \<noteq> ''case_statement'' \<and> ts_kind c \<noteq> ''default_statement''"
    and "\<not> detect_barrier (be_bytes env) n" and "storage_ok st" and "be_function_id env < length (cs_functions st)"
  shows "\<exists>join st'. run_state (walk_statement env (Some n) current) st = (join, st') \<and>
    (\<forall>b \<in> set (cf_blocks (cs_functions st' ! be_function_id env)). join \<notin> set (bb_successors b))"
proof -
  have cases: "walk_cases env kids d j = State_Monad.return ()"
    if "\<forall>c \<in> set kids. ts_kind c \<noteq> ''case_statement'' \<and> ts_kind c \<noteq> ''default_statement''" for kids d j
    using that by (induction kids) simp_all
  have inside: "edges_inside (the_fn (be_function_id env) st)" using storage_okD(6) [OF assms(5,6)] .
  then have flat: "\<forall>b \<in> set (cf_blocks (the_fn (be_function_id env) st)). block_count (be_function_id env) st \<notin> set (bb_successors b)"
    by (auto simp: edges_inside_def)
  moreover have "\<forall>b \<in> set ((cf_blocks (the_fn (be_function_id env) st))[current :=
      (cf_blocks (the_fn (be_function_id env) st) ! current)\<lparr>bb_contains_discard := True\<rparr>]).
    block_count (be_function_id env) st \<notin> set (bb_successors b)"
  proof (cases "current < block_count (be_function_id env) st")
    case True
    then have "block_count (be_function_id env) st \<notin> set (bb_successors (cf_blocks (the_fn (be_function_id env) st) ! current))"
      using flat nth_mem by blast
    then show ?thesis using flat by (auto dest!: set_update_subset_insert [THEN subsetD])
  qed (use flat in \<open>simp add: list_update_beyond\<close>)
  ultimately show ?thesis
    using assms cases [OF assms(3)]
    by (auto simp: new_block_def modify_block_def update_block_def add_block_simps fresh_block_def)
qed

theorem switch_without_direct_labels_witness:
  "\<exists>join st'. run_state (walk_statement \<lparr>be_function_id = 1, be_source = \<lparr>sid_value = 1\<rparr>, be_bytes = []\<rparr>
       (Some (Ts_Node ''switch_statement'' True 0 9 [(None, leaf ''compound_statement'' 2 9)])) 0)
       (sample_storage ''void f(){if(a){g();}}'') = (join, st') \<and>
     (\<exists>fn. cs_functions st' ! 1 = fn \<and> join \<notin> \<Union> (set ` set (map bb_successors (cf_blocks fn))))"
proof -
  have "storage_ok (sample_storage ''void f(){if(a){g();}}'')" unfolding sample_storage_def by (rule build_cfg_ok)
  moreover have "1 < length (cs_functions (sample_storage ''void f(){if(a){g();}}''))" using sample_plain by simp
  ultimately show ?thesis
    using switch_without_direct_labels [of "Ts_Node ''switch_statement'' True 0 9 [(None, leaf ''compound_statement'' 2 9)]"
      "\<lparr>be_function_id = 1, be_source = \<lparr>sid_value = 1\<rparr>, be_bytes = []\<rparr>"]
    by (simp add: named_children_def leaf_def)
qed

end
