(* ===== verification/Uniformity.thy ===== *)
theory Uniformity
  imports CfgBuilder
begin

text \<open>
  \<^verbatim>\<open>core/src/control_flow/uniformity_analyzer.cpp\<close> and the oracle lookups of
  \<^verbatim>\<open>cfg_storage.cpp\<close>: a taint analysis over the syntax tree that classifies each named
  node and stores the class under the node's packed byte range. The classes form a chain, in which
  \<open>join\<close> is the maximum; the lemmas say what the tables hold after the whole walk, that more divergent
  names never make an expression more uniform, and what the analysis cannot answer.
\<close>

section \<open>The classes\<close>

datatype uniformity = Unknown | Uniform | Divergent | Loop_Invariant

fun join :: "uniformity \<Rightarrow> uniformity \<Rightarrow> uniformity" where
  "join lhs rhs =
     (if lhs = Divergent \<or> rhs = Divergent then Divergent
      else if lhs = Unknown then rhs
      else if rhs = Unknown then lhs
      else if lhs = Loop_Invariant \<or> rhs = Loop_Invariant then Loop_Invariant
      else Uniform)"

text \<open>The order of the lattice in the code's comment.\<close>

instantiation uniformity :: linorder
begin

fun rank_of :: "uniformity \<Rightarrow> nat" where
  "rank_of Unknown = 0"
| "rank_of Uniform = 1"
| "rank_of Loop_Invariant = 2"
| "rank_of Divergent = 3"

definition less_eq_uniformity :: "uniformity \<Rightarrow> uniformity \<Rightarrow> bool" where
  "u \<le> v \<longleftrightarrow> rank_of u \<le> rank_of v"

definition less_uniformity :: "uniformity \<Rightarrow> uniformity \<Rightarrow> bool" where
  "u < v \<longleftrightarrow> rank_of u < rank_of v"

instance
proof
  fix u v :: uniformity
  show "u \<le> v \<Longrightarrow> v \<le> u \<Longrightarrow> u = v"
    by (cases u; cases v) (simp_all add: less_eq_uniformity_def)
qed (auto simp: less_eq_uniformity_def less_uniformity_def)

end

lemma join_max: "join u v = max u v"
  by (cases u; cases v) (simp_all add: max_def less_eq_uniformity_def)

declare join.simps [simp del]

section \<open>Names\<close>

definition is_divergent_sv_name :: "string \<Rightarrow> bool" where
  "is_divergent_sv_name ident \<longleftrightarrow>
     ident = ''SV_DispatchThreadID'' \<or> ident = ''SV_GroupThreadID'' \<or> ident = ''SV_GroupIndex'' \<or>
     ident = ''SV_VertexID'' \<or> ident = ''SV_InstanceID'' \<or> ident = ''SV_PrimitiveID'' \<or> ident = ''SV_SampleIndex''"

definition is_divergent_wave_intrinsic :: "string \<Rightarrow> bool" where
  "is_divergent_wave_intrinsic ident \<longleftrightarrow>
     ident = ''WaveGetLaneIndex'' \<or> ident = ''WaveReadLaneFirst'' \<or> ident = ''WaveActiveAllEqual'' \<or>
     ident = ''WaveActiveAnyTrue'' \<or> ident = ''WaveActiveBallot''"

definition is_uniform_wave_intrinsic :: "string \<Rightarrow> bool" where
  "is_uniform_wave_intrinsic ident \<longleftrightarrow> ident = ''WaveGetLaneCount'' \<or> ident = ''WaveIsFirstLane''"

section \<open>Packed byte ranges\<close>

type_synonym u64 = "64 word"

definition pack_span_bytes :: "u32 \<Rightarrow> u32 \<Rightarrow> u64" where
  "pack_span_bytes lo hi = or (push_bit 32 (ucast lo)) (ucast hi)"

definition pack_node :: "ts_node \<Rightarrow> u64" where
  "pack_node n = pack_span_bytes (ts_start n) (ts_end n)"

definition pack_span :: "span \<Rightarrow> u64" where
  "pack_span s = pack_span_bytes (bs_lo (sp_bytes s)) (bs_hi (sp_bytes s))"

lemma pack_span_bytes_parts:
  "(ucast (drop_bit 32 (pack_span_bytes lo hi)) :: u32) = lo" "(ucast (pack_span_bytes lo hi) :: u32) = hi"
proof -
  have high: "\<not> bit hi (32 + n)" for n using bit_imp_le_length [of hi "32 + n"] by auto
  show "(ucast (drop_bit 32 (pack_span_bytes lo hi)) :: u32) = lo"
    by (rule bit_word_eqI) (simp add: pack_span_bytes_def bit_simps high)
  show "(ucast (pack_span_bytes lo hi) :: u32) = hi"
    by (rule bit_word_eqI) (auto simp: pack_span_bytes_def bit_simps)
qed

lemma pack_span_bytes_inj: "pack_span_bytes lo hi = pack_span_bytes lo' hi' \<longleftrightarrow> lo = lo' \<and> hi = hi'"
  by (metis pack_span_bytes_parts)

lemma pack_node_iff: "pack_node m = pack_span sp \<longleftrightarrow> ts_start m = bs_lo (sp_bytes sp) \<and> ts_end m = bs_hi (sp_bytes sp)"
  by (simp add: pack_node_def pack_span_def pack_span_bytes_inj)

section \<open>Walks with an explicit stack\<close>

lemma children_smaller [simp]: "sum_list (map node_size (child_nodes n)) < node_size n"
  by (cases n) (simp add: comp_def)

text \<open>The loop that pops a node, handles it and pushes its children in order.\<close>

function stack_loop :: "(ts_node \<Rightarrow> 's \<Rightarrow> 's) \<Rightarrow> ts_node list \<Rightarrow> 's \<Rightarrow> 's" where
  "stack_loop visit [] s = s"
| "stack_loop visit (n # stack) s = stack_loop visit (rev (child_nodes n) @ stack) (visit n s)"
  by pat_completeness auto
termination
proof (relation "measure (\<lambda>(visit, stack, s). sum_list (map node_size stack))", goal_cases)
  case (2 visit n stack s)
  show ?case using children_smaller [of n] by (simp add: rev_map [symmetric] del: children_smaller)
qed simp

lemma preorder_nth: "set (preorder n) = insert n (\<Union>c \<in> set (child_nodes n). set (preorder c))"
  using arg_cong [OF preorder_children [of n], of set] by simp

text \<open>Its order is the document order mirrored.\<close>

function mirrored :: "ts_node list \<Rightarrow> ts_node list" where
  "mirrored [] = []"
| "mirrored (n # stack) = n # mirrored (rev (child_nodes n) @ stack)"
  by pat_completeness auto
termination
proof (relation "measure (\<lambda>stack. sum_list (map node_size stack))", goal_cases)
  case (2 n stack)
  show ?case using children_smaller [of n] by (simp add: rev_map [symmetric] del: children_smaller)
qed simp

lemma stack_loop_fold: "stack_loop visit stack s = fold visit (mirrored stack) s"
  by (induction visit stack s rule: stack_loop.induct) simp_all

lemma mirrored_set: "set (mirrored stack) = (\<Union>n \<in> set stack. set (preorder n))"
proof (induction stack rule: mirrored.induct)
  case (2 n stack)
  then show ?case using preorder_nth [of n] by auto
qed simp

section \<open>The analyzer\<close>

record analyzer =
  an_bytes :: string
  an_divergent_idents :: "string set"
  an_divergent_resources :: "string set"

type_synonym class_table = "u64 \<Rightarrow> uniformity option"

definition k_divergent_semantics :: "string list" where
  "k_divergent_semantics =
     [''SV_DispatchThreadID'', ''SV_GroupThreadID'', ''SV_GroupIndex'', ''SV_VertexID'', ''SV_InstanceID'',
      ''SV_PrimitiveID'', ''SV_SampleIndex'']"

definition extract_ident :: "string \<Rightarrow> ts_node \<Rightarrow> string set \<Rightarrow> string set" where
  "extract_ident bytes node out =
     (if ts_kind node = ''identifier''
      then let text = node_text (Some node) bytes in
           if text \<noteq> [] \<and> \<not> text_starts_with text ''SV_'' \<and> \<not> text_starts_with text ''TEXCOORD'' \<and> text \<noteq> ''POSITION''
           then insert text out else out
      else out)"

definition extract_param_idents :: "string \<Rightarrow> ts_node \<Rightarrow> string set \<Rightarrow> string set" where
  "extract_param_idents bytes param out = stack_loop (extract_ident bytes) [param] out"

definition seed_parameter :: "string \<Rightarrow> ts_node \<Rightarrow> string set \<Rightarrow> string set" where
  "seed_parameter bytes node out =
     (if ts_kind node = ''parameter_declaration'' \<or> ts_kind node = ''parameter''
      then if list_ex (text_contains (node_text (Some node) bytes)) k_divergent_semantics
           then extract_param_idents bytes node out else out
      else out)"

definition seed_divergent_parameters :: "string \<Rightarrow> ts_node \<Rightarrow> string set \<Rightarrow> string set" where
  "seed_divergent_parameters bytes node out = stack_loop (seed_parameter bytes) [node] out"

definition is_literal_kind :: "string \<Rightarrow> bool" where
  "is_literal_kind k \<longleftrightarrow> k = ''number_literal'' \<or> k = ''string_literal'' \<or> k = ''true'' \<or> k = ''false''"

definition classify_identifier :: "analyzer \<Rightarrow> string \<Rightarrow> uniformity" where
  "classify_identifier an text =
     (if text \<in> an_divergent_idents an then Divergent
      else if text \<in> an_divergent_resources an then Divergent
      else if is_divergent_sv_name text \<or> is_divergent_wave_intrinsic text then Divergent
      else if is_uniform_wave_intrinsic text then Uniform
      else Uniform)"

text \<open>\<open>classify\<close> and its loop over named children. The table is written on return; the case of the
  operator nodes and the default case of the code do the same.\<close>

function classify :: "analyzer \<Rightarrow> ts_node \<Rightarrow> class_table \<Rightarrow> uniformity \<times> class_table"
  and classify_children :: "analyzer \<Rightarrow> ts_node list \<Rightarrow> uniformity \<Rightarrow> class_table \<Rightarrow> uniformity \<times> class_table"
where
  "classify an n tbl =
     (if \<not> ts_named n then (Unknown, tbl)
      else if is_literal_kind (ts_kind n) then (Uniform, tbl(pack_node n \<mapsto> Uniform))
      else if ts_kind n = ''identifier''
      then let u = classify_identifier an (node_text (Some n) (an_bytes an)) in (u, tbl(pack_node n \<mapsto> u))
      else if ts_kind n = ''call_expression''
      then let callee_text = node_text (child_by_field n ''function'') (an_bytes an) in
           if is_divergent_wave_intrinsic callee_text \<or> is_divergent_sv_name callee_text
           then (Divergent, tbl(pack_node n \<mapsto> Divergent))
           else if is_uniform_wave_intrinsic callee_text then (Uniform, tbl(pack_node n \<mapsto> Uniform))
           else let (u, tbl) = (case child_by_field n ''arguments'' of
                       None \<Rightarrow> (Unknown, tbl)
                     | Some args \<Rightarrow> classify_children an (child_nodes args) Unknown tbl)
                in (u, tbl(pack_node n \<mapsto> u))
      else let (u, tbl) = classify_children an (child_nodes n) Unknown tbl in (u, tbl(pack_node n \<mapsto> u)))"
| "classify_children an [] u tbl = (u, tbl)"
| "classify_children an (c # cs) u tbl =
     (if ts_named c
      then let (v, tbl) = classify an c tbl in classify_children an cs (join u v) tbl
      else classify_children an cs u tbl)"
  by pat_completeness auto
termination
proof (relation "measure (case_sum (\<lambda>(an, n, tbl). 2 * node_size n)
      (\<lambda>(an, ns, u, tbl). Suc (2 * sum_list (map node_size ns))))", goal_cases)
  case (2 an n tbl callee args)
  then show ?case using child_smaller [OF field_child] children_smaller [of args] by fastforce
next
  case (3 an n tbl)
  then show ?case using children_smaller [of n] by (simp del: children_smaller)
qed simp_all

declare classify.simps [simp del] classify_children.simps [simp del]

text \<open>The statement's condition: by field name, else the first named child.\<close>

definition branch_condition :: "ts_node \<Rightarrow> ts_node option" where
  "branch_condition node =
     (case child_by_field node ''condition'' of
        Some c \<Rightarrow> Some c
      | None \<Rightarrow> find ts_named (child_nodes node))"

definition is_branch :: "ts_node \<Rightarrow> bool" where
  "is_branch node \<longleftrightarrow> ts_kind node = ''if_statement'' \<or> ts_kind node = ''switch_statement''"

record uniformity_data =
  ud_expr :: class_table
  ud_branch :: class_table

definition scan_branch :: "analyzer \<Rightarrow> ts_node \<Rightarrow> uniformity_data \<Rightarrow> uniformity_data" where
  "scan_branch an node out =
     (if is_branch node
      then let (u, expr) = (case branch_condition node of
                   None \<Rightarrow> (Unknown, ud_expr out)
                 | Some cond \<Rightarrow> classify an cond (ud_expr out))
           in \<lparr>ud_expr = expr, ud_branch = (ud_branch out)(pack_node node \<mapsto> u)\<rparr>
      else out)"

definition scan_branches :: "analyzer \<Rightarrow> ts_node \<Rightarrow> uniformity_data \<Rightarrow> uniformity_data" where
  "scan_branches an tree out = stack_loop (scan_branch an) [tree] out"

definition classify_visit :: "analyzer \<Rightarrow> ts_node \<Rightarrow> uniformity_data \<Rightarrow> uniformity_data" where
  "classify_visit an node out =
     (if ts_named node then out\<lparr>ud_expr := snd (classify an node (ud_expr out))\<rparr> else out)"

definition seeded_analyzer :: "ts_node \<Rightarrow> string \<Rightarrow> analyzer" where
  "seeded_analyzer tree bytes =
     \<lparr>an_bytes = bytes, an_divergent_idents = seed_divergent_parameters bytes tree {}, an_divergent_resources = {}\<rparr>"

definition analyse_uniformity :: "ts_node \<Rightarrow> string \<Rightarrow> uniformity_data \<Rightarrow> uniformity_data" where
  "analyse_uniformity tree bytes out =
     (let an = seeded_analyzer tree bytes
      in scan_branches an tree (stack_loop (classify_visit an) [tree] out))"

definition empty_uniformity :: uniformity_data where
  "empty_uniformity = \<lparr>ud_expr = (\<lambda>_. None), ud_branch = (\<lambda>_. None)\<rparr>"

definition of_expr :: "uniformity_data option \<Rightarrow> span \<Rightarrow> uniformity" where
  "of_expr impl expr =
     (case impl of None \<Rightarrow> Unknown
      | Some data \<Rightarrow> (case ud_expr data (pack_span expr) of None \<Rightarrow> Unknown | Some u \<Rightarrow> u))"

definition of_branch :: "uniformity_data option \<Rightarrow> span \<Rightarrow> uniformity" where
  "of_branch impl stmt =
     (case impl of None \<Rightarrow> Unknown
      | Some data \<Rightarrow> (case ud_branch data (pack_span stmt) of None \<Rightarrow> Unknown | Some u \<Rightarrow> u))"

section \<open>What the walk computes\<close>

text \<open>The class of a node as a function of the tree alone, and the nodes that classifying it writes to
  the table, in order.\<close>

function class_of :: "analyzer \<Rightarrow> ts_node \<Rightarrow> uniformity" where
  "class_of an n =
     (if \<not> ts_named n then Unknown
      else if is_literal_kind (ts_kind n) then Uniform
      else if ts_kind n = ''identifier'' then classify_identifier an (node_text (Some n) (an_bytes an))
      else if ts_kind n = ''call_expression''
      then let callee_text = node_text (child_by_field n ''function'') (an_bytes an) in
           if is_divergent_wave_intrinsic callee_text \<or> is_divergent_sv_name callee_text then Divergent
           else if is_uniform_wave_intrinsic callee_text then Uniform
           else (case child_by_field n ''arguments'' of
                   None \<Rightarrow> Unknown
                 | Some args \<Rightarrow> fold join (map (class_of an) (child_nodes args)) Unknown)
      else fold join (map (class_of an) (child_nodes n)) Unknown)"
  by pat_completeness auto
termination
proof (relation "measure (\<lambda>(an, n). node_size n)", goal_cases)
  case (2 an n callee args c)
  then show ?case using child_smaller [OF field_child] child_smaller [of c args] by fastforce
next
  case (3 an n c)
  then show ?case using child_smaller by simp
qed simp_all

function operands :: "analyzer \<Rightarrow> ts_node \<Rightarrow> ts_node list" where
  "operands an n =
     (if \<not> ts_named n then []
      else if is_literal_kind (ts_kind n) \<or> ts_kind n = ''identifier'' then [n]
      else if ts_kind n = ''call_expression''
      then let callee_text = node_text (child_by_field n ''function'') (an_bytes an) in
           if is_divergent_wave_intrinsic callee_text \<or> is_divergent_sv_name callee_text \<or>
              is_uniform_wave_intrinsic callee_text then [n]
           else (case child_by_field n ''arguments'' of
                   None \<Rightarrow> [n]
                 | Some args \<Rightarrow> concat (map (operands an) (child_nodes args)) @ [n])
      else concat (map (operands an) (child_nodes n)) @ [n])"
  by pat_completeness auto
termination
proof (relation "measure (\<lambda>(an, n). node_size n)", goal_cases)
  case (2 an n callee args c)
  then show ?case using child_smaller [OF field_child] child_smaller [of c args] by fastforce
next
  case (3 an n c)
  then show ?case using child_smaller by simp
qed simp_all

declare class_of.simps [simp del] operands.simps [simp del]

definition stamp :: "analyzer \<Rightarrow> ts_node list \<Rightarrow> class_table \<Rightarrow> class_table" where
  "stamp an ms tbl = fold (\<lambda>m t. t(pack_node m \<mapsto> class_of an m)) ms tbl"

lemma stamp_simps [simp]:
  "stamp an [] tbl = tbl"
  "stamp an (m # ms) tbl = stamp an ms (tbl(pack_node m \<mapsto> class_of an m))"
  "stamp an (ms @ ms') tbl = stamp an ms' (stamp an ms tbl)"
  by (simp_all add: stamp_def)

lemma classify_exact:
  "classify an n tbl = (class_of an n, stamp an (operands an n) tbl)"
  "classify_children an cs u tbl =
     (fold join (map (class_of an) cs) u, stamp an (concat (map (operands an) cs)) tbl)"
proof (induction an n tbl and an cs u tbl rule: classify_classify_children.induct)
  case (1 an n tbl)
  then show ?case
    by (simp add: classify.simps [of an n] class_of.simps [of an n] operands.simps [of an n] Let_def split: option.split)
next
  case (3 an c cs u tbl)
  have u: "\<not> ts_named c \<Longrightarrow> class_of an c = Unknown" "\<not> ts_named c \<Longrightarrow> operands an c = []"
    by (simp_all add: class_of.simps operands.simps)
  have j: "join u v = join v u" "join Unknown u = u" for v
    by (simp add: join_max max.commute, cases u, simp_all add: join.simps)
  show ?case
    using 3 u by (cases "ts_named c") (simp_all add: classify_children.simps j)
qed (simp_all add: classify_children.simps)

lemma preorder_self [simp]: "n \<in> set (preorder n)"
  by (subst preorder_nth) simp

lemma preorder_child: "c \<in> set (child_nodes n) \<Longrightarrow> set (preorder c) \<subseteq> set (preorder n)"
  using preorder_nth [of n] by blast

lemma operands_cases:
  "m \<in> set (operands an n) \<Longrightarrow> m = n \<and> ts_named n \<or>
     (\<exists>p c. (p = n \<or> p \<in> set (child_nodes n)) \<and> c \<in> set (child_nodes p) \<and> m \<in> set (operands an c))"
  using field_child [of n "''arguments''"]
  by (subst (asm) operands.simps) (auto simp: Let_def split: if_splits option.splits)

lemma operands_named: "m \<in> set (operands an n) \<Longrightarrow> ts_named m \<and> m \<in> set (preorder n)"
proof (induction "node_size n" arbitrary: n rule: less_induct)
  case less
  from operands_cases [OF less.prems] consider "m = n" "ts_named n" | p c where
      "p = n \<or> p \<in> set (child_nodes n)" "c \<in> set (child_nodes p)" "m \<in> set (operands an c)" by blast
  then show ?case
  proof cases
    case pc: (2 p c)
    then have "node_size c < node_size n"
      using child_smaller [of c p] by (auto dest!: child_smaller [of p n, simplified])
    from less.hyps [OF this pc(3)] show ?thesis using pc preorder_child [of p n] preorder_child [of c p] by blast
  qed simp
qed

lemma operands_self: "ts_named n \<Longrightarrow> n \<in> set (operands an n)"
  by (subst operands.simps) (simp add: Let_def split: option.split)

section \<open>What the oracle answers\<close>

lemma stamp_lookup:
  "stamp an ms tbl k =
     (case find (\<lambda>m. pack_node m = k) (rev ms) of Some m \<Rightarrow> Some (class_of an m) | None \<Rightarrow> tbl k)"
  by (induction ms arbitrary: tbl rule: rev_induct) (auto simp: stamp_def)

lemma find_class_cases:
  assumes "r = (case find P ms of Some m \<Rightarrow> Some (f m) | None \<Rightarrow> None)" and "ns = {m \<in> set ms. P m}"
  shows "if ns = {} then (case r of None \<Rightarrow> Unknown | Some u \<Rightarrow> u) = Unknown
    else (case r of None \<Rightarrow> Unknown | Some u \<Rightarrow> u) \<in> f ` ns"
proof (cases "find P ms")
  case None
  then have "ns = {}" using assms(2) by (auto simp: find_None_iff)
  then show ?thesis using assms(1) None by simp
next
  case (Some m)
  then have "m \<in> ns" using assms(2) by (auto simp: find_Some_iff)
  then show ?thesis using assms(1) Some by auto
qed

text \<open>The class of the condition of a branch.\<close>

definition condition_class :: "analyzer \<Rightarrow> ts_node \<Rightarrow> uniformity" where
  "condition_class an n = (case branch_condition n of None \<Rightarrow> Unknown | Some c \<Rightarrow> class_of an c)"

definition branch_stamp :: "analyzer \<Rightarrow> ts_node list \<Rightarrow> class_table \<Rightarrow> class_table" where
  "branch_stamp an ns t = fold (\<lambda>n t. t(pack_node n \<mapsto> condition_class an n)) ns t"

lemma branch_stamp_simps [simp]:
  "branch_stamp an [] t = t"
  "branch_stamp an (n # ns) t = branch_stamp an ns (t(pack_node n \<mapsto> condition_class an n))"
  by (simp_all add: branch_stamp_def)

definition condition_operands :: "analyzer \<Rightarrow> ts_node \<Rightarrow> ts_node list" where
  "condition_operands an n = (case branch_condition n of None \<Rightarrow> [] | Some c \<Rightarrow> operands an c)"

lemma scan_branches_exact:
  "fold (scan_branch an) ns out =
     \<lparr>ud_expr = stamp an (concat (map (condition_operands an) (filter is_branch ns))) (ud_expr out),
      ud_branch = branch_stamp an (filter is_branch ns) (ud_branch out)\<rparr>"
proof (induction ns arbitrary: out)
  case (Cons n ns)
  then show ?case
    by (cases "is_branch n"; cases "branch_condition n")
      (simp_all add: scan_branch_def classify_exact condition_operands_def condition_class_def fun_upd_def)
qed simp

lemma classify_walk_exact:
  "fold (classify_visit an) ns out = out\<lparr>ud_expr := stamp an (concat (map (operands an) ns)) (ud_expr out)\<rparr>"
proof (induction ns arbitrary: out)
  case (Cons n ns)
  have "\<not> ts_named n \<Longrightarrow> operands an n = []" by (subst operands.simps) simp
  with Cons show ?case by (cases "ts_named n") (simp_all add: classify_visit_def classify_exact)
qed simp

lemma branch_lookup:
  "branch_stamp an ns t k =
     (case find (\<lambda>m. pack_node m = k) (rev ns) of Some m \<Rightarrow> Some (condition_class an m) | None \<Rightarrow> t k)"
  by (induction ns arbitrary: t rule: rev_induct) (auto simp: branch_stamp_def)

lemma preorder_trans: "c \<in> set (preorder n) \<Longrightarrow> m \<in> set (preorder c) \<Longrightarrow> m \<in> set (preorder n)"
proof (induction n rule: preorder.induct)
  case (1 k nm lo hi cs)
  then show ?case by fastforce
qed

lemma branch_condition_inside: "branch_condition n = Some c \<Longrightarrow> c \<in> set (preorder n)"
proof -
  assume "branch_condition n = Some c"
  then have "c \<in> set (child_nodes n)"
    using field_child [of n "''condition''" c]
    by (auto simp: branch_condition_def find_Some_iff intro: rev_image_eqI [OF nth_mem] split: option.splits)
  then show ?thesis using preorder_child [of c n] preorder_self [of c] by blast
qed

lemma analysis_tables:
  obtains ms where "set ms = {m \<in> set (preorder tree). ts_named m}"
    "analyse_uniformity tree bytes empty_uniformity =
       \<lparr>ud_expr = stamp (seeded_analyzer tree bytes) ms (\<lambda>_. None),
        ud_branch = branch_stamp (seeded_analyzer tree bytes) (filter is_branch (mirrored [tree])) (\<lambda>_. None)\<rparr>"
proof
  let ?an = "seeded_analyzer tree bytes"
  let ?ms = "concat (map (operands ?an) (mirrored [tree])) @
     concat (map (condition_operands ?an) (filter is_branch (mirrored [tree])))"
  have inside: "m \<in> set (operands ?an c) \<Longrightarrow> c \<in> set (preorder tree) \<Longrightarrow> ts_named m \<and> m \<in> set (preorder tree)" for m c
    using operands_named preorder_trans by blast
  have "set (condition_operands ?an n) \<subseteq> {m \<in> set (preorder tree). ts_named m}" if "n \<in> set (preorder tree)" for n
    using branch_condition_inside [of n] preorder_trans [OF that]
    by (cases "branch_condition n") (auto simp: condition_operands_def dest: inside)
  moreover have "set (mirrored [tree]) = set (preorder tree)" by (simp add: mirrored_set del: mirrored.simps)
  moreover have "(\<Union>n \<in> set (preorder tree). set (operands ?an n)) = {m \<in> set (preorder tree). ts_named m}"
    using operands_self inside by blast
  ultimately show "set ?ms = {m \<in> set (preorder tree). ts_named m}"
    by (simp del: mirrored.simps) blast
  show "analyse_uniformity tree bytes empty_uniformity =
       \<lparr>ud_expr = stamp ?an ?ms (\<lambda>_. None),
        ud_branch = branch_stamp ?an (filter is_branch (mirrored [tree])) (\<lambda>_. None)\<rparr>"
    by (simp add: analyse_uniformity_def scan_branches_def stack_loop_fold classify_walk_exact scan_branches_exact
        Let_def empty_uniformity_def del: mirrored.simps)
qed

section \<open>Taint\<close>

text \<open>The nodes that are divergent by themselves.\<close>

definition taints :: "analyzer \<Rightarrow> ts_node \<Rightarrow> bool" where
  "taints an n \<longleftrightarrow>
     (if ts_kind n = ''identifier'' then classify_identifier an (node_text (Some n) (an_bytes an)) = Divergent
      else ts_kind n = ''call_expression'' \<and>
           (let callee_text = node_text (child_by_field n ''function'') (an_bytes an)
            in is_divergent_wave_intrinsic callee_text \<or> is_divergent_sv_name callee_text))"

lemma join_divergent: "join u v = Divergent \<longleftrightarrow> u = Divergent \<or> v = Divergent"
  by (cases u; cases v) (simp_all add: join.simps)

lemma joins_divergent: "fold join us u = Divergent \<longleftrightarrow> u = Divergent \<or> Divergent \<in> set us"
  by (induction us arbitrary: u) (auto simp: join_divergent)

lemma joins_loop_invariant:
  "Loop_Invariant \<notin> set us \<Longrightarrow> u \<noteq> Loop_Invariant \<Longrightarrow> fold join us u \<noteq> Loop_Invariant"
proof (induction us arbitrary: u)
  case (Cons v us)
  then have "join v u \<noteq> Loop_Invariant" by (cases u; cases v) (simp_all add: join.simps)
  with Cons show ?case by simp
qed simp

lemma joins_mono: "list_all2 (\<le>) us vs \<Longrightarrow> u \<le> v \<Longrightarrow> fold join us u \<le> fold join vs v"
  by (induction us vs arbitrary: u v rule: list_all2_induct) (auto simp: join_max intro: max.mono)

text \<open>The nodes whose classes a node's class joins.\<close>

definition joined :: "analyzer \<Rightarrow> ts_node \<Rightarrow> ts_node list" where
  "joined an n =
     (if \<not> ts_named n \<or> is_literal_kind (ts_kind n) \<or> ts_kind n = ''identifier'' then []
      else if ts_kind n = ''call_expression''
      then let callee_text = node_text (child_by_field n ''function'') (an_bytes an) in
           if is_divergent_wave_intrinsic callee_text \<or> is_divergent_sv_name callee_text \<or>
              is_uniform_wave_intrinsic callee_text then []
           else (case child_by_field n ''arguments'' of None \<Rightarrow> [] | Some args \<Rightarrow> child_nodes args)
      else child_nodes n)"

lemma joined_smaller: "c \<in> set (joined an n) \<Longrightarrow> node_size c < node_size n"
proof (cases "child_by_field n ''arguments''")
  case (Some args)
  then have "node_size args < node_size n" by (rule child_smaller [OF field_child])
  then show "c \<in> set (joined an n) \<Longrightarrow> node_size c < node_size n"
    using child_smaller [of c args] child_smaller [of c n] Some
    by (auto simp: joined_def Let_def split: if_splits)
qed (use child_smaller [of c n] in \<open>auto simp: joined_def Let_def split: if_splits\<close>)

definition leaf_class :: "analyzer \<Rightarrow> ts_node \<Rightarrow> uniformity" where
  "leaf_class an n =
     (if \<not> ts_named n then Unknown
      else if is_literal_kind (ts_kind n) then Uniform
      else if taints an n then Divergent
      else if ts_kind n = ''identifier'' then Uniform
      else if ts_kind n = ''call_expression'' \<and>
              is_uniform_wave_intrinsic (node_text (child_by_field n ''function'') (an_bytes an)) then Uniform
      else Unknown)"

lemma class_of_joined: "class_of an n = fold join (map (class_of an) (joined an n)) (leaf_class an n)"
proof -
  have kinds: "is_literal_kind k \<Longrightarrow> k \<noteq> ''identifier'' \<and> k \<noteq> ''call_expression''" for k
    by (auto simp: is_literal_kind_def)
  show ?thesis
    by (subst class_of.simps)
      (auto simp: joined_def leaf_class_def taints_def Let_def classify_identifier_def dest: kinds
        split: option.split)
qed

lemma operands_joined:
  "operands an n = (if ts_named n then concat (map (operands an) (joined an n)) @ [n] else [])"
  by (subst operands.simps) (auto simp: joined_def Let_def split: option.split)

lemma class_divergent: "class_of an n = Divergent \<longleftrightarrow> (\<exists>m \<in> set (operands an n). taints an m)"
proof (induction "node_size n" arbitrary: n rule: less_induct)
  case less
  have "class_of an n = Divergent \<longleftrightarrow> leaf_class an n = Divergent \<or> (\<exists>c \<in> set (joined an n). class_of an c = Divergent)"
    by (subst class_of_joined) (force simp: joins_divergent)
  moreover have "leaf_class an n = Divergent \<longleftrightarrow> ts_named n \<and> taints an n"
    by (auto simp: leaf_class_def taints_def is_literal_kind_def)
  moreover have "joined an n = []" if "\<not> ts_named n" using that by (simp add: joined_def)
  moreover have "class_of an c = Divergent \<longleftrightarrow> (\<exists>m \<in> set (operands an c). taints an m)" if "c \<in> set (joined an n)" for c
    using less joined_smaller [OF that] by blast
  ultimately show ?case by (cases "ts_named n"; subst operands_joined) auto
qed

lemma class_not_loop_invariant: "class_of an n \<noteq> Loop_Invariant"
proof (induction "node_size n" arbitrary: n rule: less_induct)
  case less
  have "Loop_Invariant \<notin> set (map (class_of an) (joined an n))"
    using less joined_smaller by (auto dest: sym)
  moreover have "leaf_class an n \<noteq> Loop_Invariant" by (simp add: leaf_class_def)
  ultimately show ?case by (subst class_of_joined) (rule joins_loop_invariant)
qed

lemma class_mono:
  assumes "D \<subseteq> D'"
  shows "class_of (an\<lparr>an_divergent_idents := D\<rparr>) n \<le> class_of (an\<lparr>an_divergent_idents := D'\<rparr>) n"
proof (induction "node_size n" arbitrary: n rule: less_induct)
  case less
  let ?a = "an\<lparr>an_divergent_idents := D\<rparr>" and ?b = "an\<lparr>an_divergent_idents := D'\<rparr>"
  have j: "joined ?b n = joined ?a n" by (simp add: joined_def)
  have "list_all2 (\<le>) (map (class_of ?a) (joined ?a n)) (map (class_of ?b) (joined ?a n))"
    unfolding list.rel_map by (rule list.rel_refl_strong) (rule less [OF joined_smaller])
  moreover have "leaf_class ?a n \<le> leaf_class ?b n"
    using assms by (auto simp: leaf_class_def taints_def classify_identifier_def Let_def less_eq_uniformity_def)
  ultimately show ?case by (subst (1 2) class_of_joined) (simp add: joins_mono j)
qed

section \<open>Properties\<close>


text \<open>The lookup of a branch: when no \<open>if\<close> or \<open>switch\<close> statement of the file has the
  queried byte range the answer is \<open>Unknown\<close>; otherwise it is the class of the condition of a branch statement
  with exactly that range.\<close>

theorem of_branch_reads_condition:
  "let branches = {m \<in> set (preorder tree). is_branch m \<and>
      ts_start m = bs_lo (sp_bytes sp) \<and> ts_end m = bs_hi (sp_bytes sp)} in
     if branches = {} then of_branch (Some (analyse_uniformity tree bytes empty_uniformity)) sp = Unknown
         else of_branch (Some (analyse_uniformity tree bytes empty_uniformity)) sp
                \<in> condition_class (seeded_analyzer tree bytes) ` branches"
proof -
  let ?an = "seeded_analyzer tree bytes" and ?ns = "filter is_branch (mirrored [tree])"
  have ns: "ud_branch (analyse_uniformity tree bytes empty_uniformity) = branch_stamp ?an ?ns (\<lambda>_. None)"
    by (rule analysis_tables [of tree bytes]) simp
  have "{m \<in> set (preorder tree). is_branch m \<and>
      ts_start m = bs_lo (sp_bytes sp) \<and> ts_end m = bs_hi (sp_bytes sp)} =
      {m \<in> set (rev ?ns). pack_node m = pack_span sp}"
    by (auto simp: mirrored_set pack_node_iff simp del: mirrored.simps)
  from find_class_cases [OF branch_lookup this] show ?thesis
    by (simp add: of_branch_def ns Let_def del: mirrored.simps)
qed

text \<open>Classification is taint: it answers \<open>Divergent\<close> exactly when one of the nodes it descends
  into is divergent by itself, that is an identifier that names a divergent parameter, resource, system value
  or wave intrinsic, or a call of one of these. An argument of a wave-uniform intrinsic is not descended into.\<close>

theorem classify_is_taint:
  "fst (classify an n tbl) = Divergent \<longleftrightarrow> (\<exists>m \<in> set (operands an n). taints an m)"
  by (simp add: classify_exact class_divergent)

text \<open>Monotonicity: with more divergent identifiers no node becomes less divergent, whatever the
  tables held before.\<close>

theorem classify_mono:
  assumes "D \<subseteq> D'"
  shows "fst (classify (an\<lparr>an_divergent_idents := D\<rparr>) n tbl) \<le> fst (classify (an\<lparr>an_divergent_idents := D'\<rparr>) n tbl')"
  using class_mono [OF assms] by (simp add: classify_exact)

theorem classify_mono_witness:
  "fst (classify (\<lparr>an_bytes = ''tid'', an_divergent_idents = {}, an_divergent_resources = {}\<rparr>\<lparr>an_divergent_idents := {}\<rparr>)
      (Ts_Node ''identifier'' True 0 3 []) (\<lambda>_. None))
    \<le> fst (classify (\<lparr>an_bytes = ''tid'', an_divergent_idents = {}, an_divergent_resources = {}\<rparr>\<lparr>an_divergent_idents := {''tid''}\<rparr>)
      (Ts_Node ''identifier'' True 0 3 []) (\<lambda>_. None)) \<and>
   fst (classify (\<lparr>an_bytes = ''tid'', an_divergent_idents = {}, an_divergent_resources = {}\<rparr>\<lparr>an_divergent_idents := {}\<rparr>)
      (Ts_Node ''identifier'' True 0 3 []) (\<lambda>_. None)) = Uniform \<and>
   fst (classify (\<lparr>an_bytes = ''tid'', an_divergent_idents = {}, an_divergent_resources = {}\<rparr>\<lparr>an_divergent_idents := {''tid''}\<rparr>)
      (Ts_Node ''identifier'' True 0 3 []) (\<lambda>_. None)) = Divergent"
proof (intro conjI)
  have sub: "{} \<subseteq> {''tid''}" by simp
  show "fst (classify (\<lparr>an_bytes = ''tid'', an_divergent_idents = {}, an_divergent_resources = {}\<rparr>\<lparr>an_divergent_idents := {}\<rparr>)
      (Ts_Node ''identifier'' True 0 3 []) (\<lambda>_. None))
    \<le> fst (classify (\<lparr>an_bytes = ''tid'', an_divergent_idents = {}, an_divergent_resources = {}\<rparr>\<lparr>an_divergent_idents := {''tid''}\<rparr>)
      (Ts_Node ''identifier'' True 0 3 []) (\<lambda>_. None))"
    by (rule classify_mono [OF sub])
qed (simp_all add: classify.simps is_literal_kind_def classify_identifier_def node_text_def ast_text_def substr_def
       is_divergent_sv_name_def is_divergent_wave_intrinsic_def is_uniform_wave_intrinsic_def Let_def)

text \<open>The class for hoisting rules is never produced: neither lookup ever answers
  \<open>Loop_Invariant\<close>, whatever the file holds.\<close>

theorem loop_invariant_never_answered:
  "of_expr (Some (analyse_uniformity tree bytes empty_uniformity)) sp \<noteq> Loop_Invariant \<and>
   of_branch (Some (analyse_uniformity tree bytes empty_uniformity)) sp \<noteq> Loop_Invariant"
proof -
  let ?an = "seeded_analyzer tree bytes"
  obtain ms where ms: "analyse_uniformity tree bytes empty_uniformity =
       \<lparr>ud_expr = stamp ?an ms (\<lambda>_. None), ud_branch = branch_stamp ?an (filter is_branch (mirrored [tree])) (\<lambda>_. None)\<rparr>"
    by (rule analysis_tables [of tree bytes])
  have "condition_class ?an n \<noteq> Loop_Invariant" for n
    by (simp add: condition_class_def class_not_loop_invariant split: option.split)
  then show ?thesis
    by (simp add: of_expr_def of_branch_def ms stamp_lookup branch_lookup class_not_loop_invariant
        del: mirrored.simps split: option.split)
qed

end
