(* ===== verification/Engines.thy ===== *)
theory Engines
  imports Config
begin

text \<open>
  The data of \<^verbatim>\<open>reflection.hpp\<close> and \<^verbatim>\<open>ir.hpp\<close> with their lookup helpers
  (\<^verbatim>\<open>reflection/reflection.cpp\<close>, \<^verbatim>\<open>rule_context.cpp\<close>), and the two engines that
  cache them per process (\<^verbatim>\<open>reflection/engine.cpp\<close>, \<^verbatim>\<open>ir/engine.cpp\<close>). The Slang
  compiler behind the reflection engine is a parameter. The lemmas say when the caches are transparent, what
  a hit ignores, and what concurrent callers see; the locale \<open>keyed_store\<close> is the contract of an ordered
  map with \<open>try_emplace\<close>, which the control-flow engine uses too.
\<close>

section \<open>Reflection data\<close>

datatype resource_kind =
    Rk_Unknown | Texture1D | Texture2D | Texture3D | TextureCube
  | Texture1DArray | Texture2DArray | TextureCubeArray
  | RWTexture1D | RWTexture2D | RWTexture3D | RWTexture1DArray | RWTexture2DArray
  | Buffer | RWBuffer | ByteAddressBuffer | RWByteAddressBuffer
  | StructuredBuffer | RWStructuredBuffer | AppendStructuredBuffer | ConsumeStructuredBuffer
  | SamplerState | SamplerComparisonState | ConstantBuffer | AccelerationStructure
  | FeedbackTexture2D | FeedbackTexture2DArray

record resource_binding =
  rb_name :: string
  rb_kind :: resource_kind
  rb_register_slot :: u32
  rb_register_space :: u32
  rb_array_size :: "u32 option"
  rb_declaration_span :: span
  rb_dxgi_format :: string

record cbuffer_field =
  fl_name :: string
  fl_byte_offset :: u32
  fl_byte_size :: u32
  fl_type_name :: string

record cbuffer_layout =
  cl_name :: string
  cl_total_bytes :: u32
  cl_fields :: "cbuffer_field list"
  cl_declaration_span :: span

record entry_point_info =
  ep_name :: string
  ep_stage :: string
  ep_numthreads :: "(u32 \<times> u32 \<times> u32) option"
  ep_wave_size_min :: "u32 option"
  ep_wave_size_max :: "u32 option"
  ep_declaration_span :: span

record reflection_info =
  ri_bindings :: "resource_binding list"
  ri_cbuffers :: "cbuffer_layout list"
  ri_entry_points :: "entry_point_info list"
  ri_target_profile :: string

definition padding_bytes :: "cbuffer_layout \<Rightarrow> u32" where
  "padding_bytes layout =
     (let used = fold (\<lambda>f used. used + fl_byte_size f) (cl_fields layout) 0
      in if cl_total_bytes layout > used then cl_total_bytes layout - used else 0)"

definition is_16byte_aligned :: "cbuffer_layout \<Rightarrow> bool" where
  "is_16byte_aligned layout \<longleftrightarrow> cl_total_bytes layout mod 16 = 0"

definition find_binding_by_name :: "reflection_info \<Rightarrow> string \<Rightarrow> resource_binding option" where
  "find_binding_by_name info name = find (\<lambda>b. rb_name b = name) (ri_bindings info)"

definition find_cbuffer_by_name :: "reflection_info \<Rightarrow> string \<Rightarrow> cbuffer_layout option" where
  "find_cbuffer_by_name info name = find (\<lambda>c. cl_name c = name) (ri_cbuffers info)"

definition find_entry_point_by_name :: "reflection_info \<Rightarrow> string \<Rightarrow> entry_point_info option" where
  "find_entry_point_by_name info name = find (\<lambda>e. ep_name e = name) (ri_entry_points info)"

section \<open>Intermediate representation\<close>

datatype ir_opcode =
    Op_Unknown | Load | Store | AllocaLocalArray | DynamicGep
  | Sample | SampleLevel | SampleGrad | SampleCmp | Gather
  | TraceRay | AcceptHitAndEndSearch | IgnoreHit | ReportHit | CallShader
  | MaybeReorderThread | HitObjectInvoke | HitObjectTraceRay | HitObjectFromRayQuery
  | MeshSetOutputCounts | MeshOutputVertex | MeshOutputPrimitive | DispatchMesh
  | AluFloat | AluInt | Bitcast | F32ToF16 | F16ToF32 | Pack8888 | Unpack8888
  | Phi | Branch | Switch | Return

record ir_instruction =
  ii_id :: u32
  ii_opcode :: ir_opcode
  ii_span :: span
  ii_operands :: "u32 list"
  ii_result_bit_width :: "u32 option"

record ir_basic_block =
  ib_id :: u32
  ib_instructions :: "u32 list"
  ib_successors :: "u32 list"

record ir_function =
  if_id :: u32
  if_entry_point_name :: string
  if_stage :: string
  if_blocks :: "ir_basic_block list"
  if_declaration_span :: span

record ir_info =
  ir_functions :: "ir_function list"
  ir_target_profile :: string

definition find_function_by_name :: "ir_info \<Rightarrow> string \<Rightarrow> ir_function option" where
  "find_function_by_name info name = find (\<lambda>fn. if_entry_point_name fn = name) (ir_functions info)"

definition find_instruction :: "ir_info \<Rightarrow> u32 \<Rightarrow> ir_instruction option" where
  "find_instruction info i = None"

text \<open>One function per entry point, with the default id and no blocks.\<close>

definition ir_function_of :: "entry_point_info \<Rightarrow> ir_function" where
  "ir_function_of ep =
     \<lparr>if_id = 0, if_entry_point_name = ep_name ep, if_stage = ep_stage ep, if_blocks = [],
      if_declaration_span = ep_declaration_span ep\<rparr>"

definition build_ir_info_from_reflection :: "reflection_info \<Rightarrow> ir_info" where
  "build_ir_info_from_reflection reflection =
     \<lparr>ir_functions = map ir_function_of (ri_entry_points reflection), ir_target_profile = ri_target_profile reflection\<rparr>"

section \<open>Keys\<close>

type_synonym u64 = "64 word"

text \<open>FNV-1a over the bytes.\<close>

definition fnv_step :: "char \<Rightarrow> u64 \<Rightarrow> u64" where
  "fnv_step c hash = xor hash (of_char c) * 1099511628211"

definition fingerprint :: "string \<Rightarrow> u64" where
  "fingerprint contents = fold fnv_step contents 14695981039346656037"

definition include_step :: "path \<Rightarrow> string \<Rightarrow> string" where
  "include_step dir out = (if out \<noteq> [] then out @ [newline] else out) @ lexically_normal dir"

definition include_key :: "path list \<Rightarrow> string" where
  "include_key include_directories = fold include_step include_directories []"

type_synonym engine_key = "u32 \<times> string \<times> u64 \<times> string"

section \<open>The contract of the caches\<close>

text \<open>\<open>find\<close> and \<open>try_emplace\<close> of an ordered map; \<open>ok\<close> is the map's own invariant.\<close>

locale keyed_store =
  fixes ok :: "'c \<Rightarrow> bool" and get :: "'c \<Rightarrow> 'k \<Rightarrow> 'v option" and emplace :: "'k \<Rightarrow> 'v \<Rightarrow> 'c \<Rightarrow> 'c"
  assumes emplace_ok: "ok c \<Longrightarrow> ok (emplace k v c)"
    and get_emplace: "ok c \<Longrightarrow> get (emplace k v c) k' =
      (if k' = k then (case get c k of Some w \<Rightarrow> Some w | None \<Rightarrow> Some v) else get c k')"
begin

text \<open>Every entry satisfies the predicate.\<close>

definition sound :: "('k \<Rightarrow> 'v \<Rightarrow> bool) \<Rightarrow> 'c \<Rightarrow> bool" where
  "sound P c \<longleftrightarrow> (\<forall>k v. get c k = Some v \<longrightarrow> P k v)"

lemma sound_emplace: "ok c \<Longrightarrow> sound P c \<Longrightarrow> P k v \<Longrightarrow> sound P (emplace k v c)"
  by (auto simp: sound_def get_emplace split: if_splits option.splits)

lemma sound_get: "sound P c \<Longrightarrow> get c k = Some v \<Longrightarrow> P k v"
  by (simp add: sound_def)

lemma emplace_keeps: "ok c \<Longrightarrow> get c k = Some v \<Longrightarrow> get (emplace k' v' c) k = Some v"
  by (auto simp: get_emplace)

end

definition try_emplace :: "'k \<Rightarrow> 'v \<Rightarrow> ('k \<Rightarrow> 'v option) \<Rightarrow> ('k \<Rightarrow> 'v option)" where
  "try_emplace k v c = (if c k = None then c(k \<mapsto> v) else c)"

interpretation map_store: keyed_store "\<lambda>c. True" "\<lambda>c k. c k" try_emplace
  by unfold_locales (auto simp: try_emplace_def split: option.split)

section \<open>The engines\<close>

type_synonym bridge = "source_manager \<Rightarrow> source_id \<Rightarrow> string \<Rightarrow> path list \<Rightarrow> diagnostic + reflection_info"

type_synonym reflection_cache = "engine_key \<Rightarrow> reflection_info option"

definition reflection_key :: "source_manager \<Rightarrow> source_id \<Rightarrow> string \<Rightarrow> path list \<Rightarrow> engine_key" where
  "reflection_key sources source target_profile dirs =
     (let fp = (case sm_get sources source of Some file \<Rightarrow> fingerprint (sf_contents file) | None \<Rightarrow> 0)
      in (sid_value source, target_profile, fp, include_key dirs))"

definition reflect :: "bridge \<Rightarrow> reflection_cache \<Rightarrow> source_manager \<Rightarrow> source_id \<Rightarrow> string \<Rightarrow> path list \<Rightarrow>
    (diagnostic + reflection_info) \<times> reflection_cache" where
  "reflect bridge cache sources source target_profile dirs =
     (let key = reflection_key sources source target_profile dirs
      in case cache key of
           Some info \<Rightarrow> (Inr info, cache)
         | None \<Rightarrow>
             (case bridge sources source target_profile dirs of
                Inl d \<Rightarrow> (Inl d, cache)
              | Inr info \<Rightarrow>
                  let cache = try_emplace key info cache in (Inr (the (cache key)), cache)))"

type_synonym ir_cache = "engine_key \<Rightarrow> ir_info option"

definition unregistered_source :: "source_id \<Rightarrow> diagnostic" where
  "unregistered_source source =
     \<lparr>dg_code = ''clippy::ir'', dg_severity = Note,
      dg_primary_span = \<lparr>sp_source = source, sp_bytes = \<lparr>bs_lo = 0, bs_hi = 0\<rparr>\<rparr>,
      dg_message = ''IR analysis skipped: source id is not registered with the '' @
        ''SourceManager (programmer error in the lint orchestrator).'',
      dg_fixes = []\<rparr>"

definition analyze :: "bridge \<Rightarrow> reflection_cache \<times> ir_cache \<Rightarrow> source_manager \<Rightarrow> source_id \<Rightarrow> string \<Rightarrow> path list \<Rightarrow>
    (diagnostic + ir_info) \<times> reflection_cache \<times> ir_cache" where
  "analyze bridge caches sources source target_profile dirs =
     (case sm_get sources source of
        None \<Rightarrow> (Inl (unregistered_source source), caches)
      | Some file \<Rightarrow>
          let (refl_cache, cache) = caches;
              key = (sid_value source, target_profile, fingerprint (sf_contents file), include_key dirs)
          in case cache key of
               Some info \<Rightarrow> (Inr info, refl_cache, cache)
             | None \<Rightarrow>
                 (case reflect bridge refl_cache sources source target_profile dirs of
                    (Inl d, refl_cache) \<Rightarrow> (Inl (d\<lparr>dg_code := ''clippy::ir''\<rparr>), refl_cache, cache)
                  | (Inr reflection, refl_cache) \<Rightarrow>
                      let info = build_ir_info_from_reflection reflection
                      in (Inr info, refl_cache, cache(key \<mapsto> info))))"

section \<open>A process serving calls\<close>

text \<open>The arguments of a call, and the calls of the two engines in the order the process makes them.\<close>

type_synonym request = "source_manager \<times> source_id \<times> string \<times> path list"

datatype engine_call = Call_Reflect request | Call_Analyze request

datatype engine_answer = Reflected "diagnostic + reflection_info" | Analyzed "diagnostic + ir_info"

fun call_request :: "engine_call \<Rightarrow> request" where
  "call_request (Call_Reflect r) = r"
| "call_request (Call_Analyze r) = r"

fun request_key :: "request \<Rightarrow> engine_key" where
  "request_key (sources, source, profile, dirs) = reflection_key sources source profile dirs"

fun ask_bridge :: "bridge \<Rightarrow> request \<Rightarrow> diagnostic + reflection_info" where
  "ask_bridge bridge (sources, source, profile, dirs) = bridge sources source profile dirs"

fun serve :: "bridge \<Rightarrow> reflection_cache \<times> ir_cache \<Rightarrow> engine_call \<Rightarrow> engine_answer \<times> reflection_cache \<times> ir_cache" where
  "serve bridge (rc, ic) (Call_Reflect (sources, source, profile, dirs)) =
     (let (a, rc) = reflect bridge rc sources source profile dirs in (Reflected a, rc, ic))"
| "serve bridge (rc, ic) (Call_Analyze (sources, source, profile, dirs)) =
     (let (a, caches) = analyze bridge (rc, ic) sources source profile dirs in (Analyzed a, caches))"

fun serve_all :: "bridge \<Rightarrow> reflection_cache \<times> ir_cache \<Rightarrow> engine_call list \<Rightarrow> engine_answer list" where
  "serve_all bridge caches [] = []"
| "serve_all bridge caches (call # calls) =
     (let (a, caches) = serve bridge caches call in a # serve_all bridge caches calls)"

text \<open>The answer without caches.\<close>

fun direct_answer :: "bridge \<Rightarrow> engine_call \<Rightarrow> engine_answer" where
  "direct_answer bridge (Call_Reflect r) = Reflected (ask_bridge bridge r)"
| "direct_answer bridge (Call_Analyze (sources, source, profile, dirs)) =
     Analyzed (if sm_get sources source = None then Inl (unregistered_source source)
       else map_sum (\<lambda>d. d\<lparr>dg_code := ''clippy::ir''\<rparr>) build_ir_info_from_reflection
              (bridge sources source profile dirs))"

definition justified :: "bridge \<Rightarrow> request set \<Rightarrow> engine_key \<Rightarrow> reflection_info \<Rightarrow> bool" where
  "justified bridge rs k info \<longleftrightarrow> (\<exists>r \<in> rs. request_key r = k \<and> ask_bridge bridge r = Inr info)"

definition ir_justified :: "bridge \<Rightarrow> request set \<Rightarrow> engine_key \<Rightarrow> ir_info \<Rightarrow> bool" where
  "ir_justified bridge rs k ir \<longleftrightarrow> (\<exists>info. justified bridge rs k info \<and> ir = build_ir_info_from_reflection info)"

definition agrees :: "bridge \<Rightarrow> request set \<Rightarrow> bool" where
  "agrees bridge rs \<longleftrightarrow> (\<forall>p \<in> rs. \<forall>q \<in> rs. request_key p = request_key q \<longrightarrow> ask_bridge bridge p = ask_bridge bridge q)"

lemma justified_unique:
  "agrees bridge rs \<Longrightarrow> r \<in> rs \<Longrightarrow> justified bridge rs (request_key r) info \<Longrightarrow> ask_bridge bridge r = Inr info"
  unfolding agrees_def justified_def by metis

lemma reflect_direct:
  assumes ag: "agrees bridge rs" and "(sources, source, profile, dirs) \<in> rs"
    and "map_store.sound (justified bridge rs) rc"
  shows "fst (reflect bridge rc sources source profile dirs) = bridge sources source profile dirs"
    and "map_store.sound (justified bridge rs) (snd (reflect bridge rc sources source profile dirs))"
proof -
  let ?k = "reflection_key sources source profile dirs"
  have just: "justified bridge rs ?k info" if "bridge sources source profile dirs = Inr info" for info
    using assms(2) that unfolding justified_def by force
  have "bridge sources source profile dirs = Inr info" if "rc ?k = Some info" for info
    using justified_unique [OF ag assms(2), of info] map_store.sound_get [OF assms(3) that] by simp
  then show "fst (reflect bridge rc sources source profile dirs) = bridge sources source profile dirs"
    by (auto simp: reflect_def Let_def try_emplace_def split: option.split sum.split)
  show "map_store.sound (justified bridge rs) (snd (reflect bridge rc sources source profile dirs))"
    using assms(3) just by (auto simp: reflect_def Let_def intro: map_store.sound_emplace split: option.split sum.split)
qed

lemma serve_direct:
  assumes ag: "agrees bridge rs" and "call_request call \<in> rs"
    and rc: "map_store.sound (justified bridge rs) rc" and ic: "map_store.sound (ir_justified bridge rs) ic"
  obtains rc' ic' where "serve bridge (rc, ic) call = (direct_answer bridge call, rc', ic')"
    "map_store.sound (justified bridge rs) rc'" "map_store.sound (ir_justified bridge rs) ic'"
proof (cases call)
  case (Call_Reflect r)
  then obtain sources source profile dirs where r: "r = (sources, source, profile, dirs)" by (cases r)
  show thesis
    using reflect_direct [OF ag _ rc, of sources source profile dirs] assms(2) ic that Call_Reflect r
    by (cases "reflect bridge rc sources source profile dirs") simp
next
  case (Call_Analyze r)
  then obtain sources source profile dirs where r: "r = (sources, source, profile, dirs)" by (cases r)
  have mem: "(sources, source, profile, dirs) \<in> rs" using assms(2) Call_Analyze r by simp
  obtain a rc' where refl: "reflect bridge rc sources source profile dirs = (a, rc')" by fastforce
  have a: "a = bridge sources source profile dirs" and rc': "map_store.sound (justified bridge rs) rc'"
    using reflect_direct [OF ag mem rc] refl by simp_all
  show thesis
  proof (cases "sm_get sources source")
    case None
    with that [OF _ rc ic] Call_Analyze r show thesis by (simp add: analyze_def)
  next
    case (Some f)
    let ?k = "reflection_key sources source profile dirs"
    have k: "?k = (sid_value source, profile, fingerprint (sf_contents f), include_key dirs)"
      using Some by (simp add: reflection_key_def)
    show thesis
    proof (cases "ic ?k")
      case (Some ir)
      then obtain info where info: "justified bridge rs ?k info" "ir = build_ir_info_from_reflection info"
        using map_store.sound_get [OF ic Some] unfolding ir_justified_def by blast
      from justified_unique [OF ag mem, of info] info(1) have "bridge sources source profile dirs = Inr info" by simp
      then show thesis
        using that [OF _ rc ic] Call_Analyze r info(2) Some \<open>sm_get sources source = Some f\<close> k
        by (simp add: analyze_def)
    next
      case None
      show thesis
      proof (cases a)
        case (Inl d)
        then show thesis
          using that [OF _ rc' ic] Call_Analyze r None \<open>sm_get sources source = Some f\<close> k a refl
          by (simp add: analyze_def)
      next
        case (Inr info)
        have "justified bridge rs ?k info" using mem Inr a unfolding justified_def by force
        then have "map_store.sound (ir_justified bridge rs) (ic(?k \<mapsto> build_ir_info_from_reflection info))"
          using ic by (auto simp: map_store.sound_def ir_justified_def)
        from that [OF _ rc' this] show thesis
          using Inr Call_Analyze r None \<open>sm_get sources source = Some f\<close> k a refl
          by (simp add: analyze_def Let_def)
      qed
    qed
  qed
qed

lemma serve_all_direct:
  assumes "agrees bridge rs" and "call_request ` set calls \<subseteq> rs"
    and "map_store.sound (justified bridge rs) rc" and "map_store.sound (ir_justified bridge rs) ic"
  shows "serve_all bridge (rc, ic) calls = map (direct_answer bridge) calls"
  using assms(2-4)
proof (induction calls arbitrary: rc ic)
  case (Cons call calls)
  from Cons.prems(1) have "call_request call \<in> rs" by simp
  from serve_direct [OF assms(1) this Cons.prems(2,3)] Cons show ?case by (metis (no_types, lifting) case_prod_conv image_subset_iff list.set_intros(2) list.simps(9) serve_all.simps(2))
qed simp

section \<open>Concurrent callers\<close>

text \<open>What one caller of \<open>reflect\<close> is about to do: look the key up under the read lock, run the
  bridge without a lock, store under the write lock.\<close>

datatype phase = Looking engine_key | Computing engine_key | Storing engine_key reflection_info
  | Returned engine_key reflection_info | Failed engine_key

inductive caller_step :: "reflection_cache \<times> phase list \<Rightarrow> reflection_cache \<times> phase list \<Rightarrow> bool" where
  hit: "i < length ts \<Longrightarrow> ts ! i = Looking k \<Longrightarrow> c k = Some v \<Longrightarrow> caller_step (c, ts) (c, ts[i := Returned k v])"
| miss: "i < length ts \<Longrightarrow> ts ! i = Looking k \<Longrightarrow> c k = None \<Longrightarrow> caller_step (c, ts) (c, ts[i := Computing k])"
| computed: "i < length ts \<Longrightarrow> ts ! i = Computing k \<Longrightarrow> caller_step (c, ts) (c, ts[i := Storing k v])"
| failed: "i < length ts \<Longrightarrow> ts ! i = Computing k \<Longrightarrow> caller_step (c, ts) (c, ts[i := Failed k])"
| store: "i < length ts \<Longrightarrow> ts ! i = Storing k v \<Longrightarrow>
    caller_step (c, ts) (try_emplace k v c, ts[i := Returned k (the (try_emplace k v c k))])"

inductive_cases caller_stepE: "caller_step (c, ts) s"

definition returned_ok :: "reflection_cache \<times> phase list \<Rightarrow> bool" where
  "returned_ok s \<longleftrightarrow> (\<forall>k v. Returned k v \<in> set (snd s) \<longrightarrow> fst s k = Some v)"

lemma returned_okD: "returned_ok s \<Longrightarrow> Returned k v \<in> set (snd s) \<Longrightarrow> fst s k = Some v"
  unfolding returned_ok_def by blast

lemma try_emplace_keeps: "c k = Some v \<Longrightarrow> try_emplace k' v' c k = Some v"
  by (rule map_store.emplace_keeps) simp_all

lemma try_emplace_key: "try_emplace k v c k = Some (the (try_emplace k v c k))"
  by (auto simp: try_emplace_def)

lemma returned_ok_step: "caller_step s s' \<Longrightarrow> returned_ok s \<Longrightarrow> returned_ok s'"
proof (induction rule: caller_step.induct)
  case (store i ts k v c)
  have "try_emplace k v c k' = Some v'" if "Returned k' v' \<in> set (ts[i := Returned k (the (try_emplace k v c k))])"
    for k' v'
  proof -
    from that(1) have "Returned k' v' \<in> set ts \<or> k' = k \<and> v' = the (try_emplace k v c k)"
      by (auto dest!: subsetD [OF set_update_subset_insert])
    then show ?thesis
    proof
      assume "Returned k' v' \<in> set ts"
      with store have "c k' = Some v'" using returned_okD [of "(c, ts)"] by simp
      then show ?thesis by (rule try_emplace_keeps)
    qed (use try_emplace_key [of k v c] in simp)
  qed
  then show ?case unfolding returned_ok_def fst_conv snd_conv by blast
qed (auto simp: returned_ok_def dest!: subsetD [OF set_update_subset_insert])

lemma returned_ok_run: "caller_step\<^sup>*\<^sup>* s s' \<Longrightarrow> returned_ok s \<Longrightarrow> returned_ok s'"
  by (induction rule: rtranclp_induct) (use returned_ok_step in blast)+

section \<open>Properties\<close>

text \<open>C15: The caches of the reflection and the IR engine are transparent: a process that serves any
  sequence of calls of the two, from empty caches, answers each as if there were none, provided the compiler
  answers calls with the same key (source id, profile, fingerprint of the source and include directories)
  alike.\<close>

theorem engine_caches_transparent:
  assumes "\<forall>p \<in> call_request ` set calls. \<forall>q \<in> call_request ` set calls.
    request_key p = request_key q \<longrightarrow> ask_bridge bridge p = ask_bridge bridge q"
  shows "serve_all bridge (Map.empty, Map.empty) calls = map (direct_answer bridge) calls"
proof (rule serve_all_direct)
  show "agrees bridge (call_request ` set calls)" using assms by (simp only: agrees_def)
qed (simp_all add: map_store.sound_def)

definition sample_manager :: "string \<Rightarrow> source_manager" where
  "sample_manager contents = snd (add_buffer [] ''a.hlsl'' contents)"

definition sample_bridge :: bridge where
  "sample_bridge sources source profile dirs =
     Inr \<lparr>ri_bindings = [], ri_cbuffers = [],
       ri_entry_points = [\<lparr>ep_name = ''main'', ep_stage = ''compute'', ep_numthreads = Some (8, 8, 1),
         ep_wave_size_min = None, ep_wave_size_max = None,
         ep_declaration_span = \<lparr>sp_source = source, sp_bytes = \<lparr>bs_lo = 0, bs_hi = 4\<rparr>\<rparr>\<rparr>],
       ri_target_profile = profile\<rparr>"

theorem engine_caches_transparent_witness:
  "serve_all sample_bridge (Map.empty, Map.empty)
     [Call_Reflect (sample_manager ''main'', \<lparr>sid_value = 1\<rparr>, ''sm_6_6'', []),
      Call_Analyze (sample_manager ''main'', \<lparr>sid_value = 1\<rparr>, ''sm_6_6'', [])] =
   map (direct_answer sample_bridge)
     [Call_Reflect (sample_manager ''main'', \<lparr>sid_value = 1\<rparr>, ''sm_6_6'', []),
      Call_Analyze (sample_manager ''main'', \<lparr>sid_value = 1\<rparr>, ''sm_6_6'', [])]"
  by (rule engine_caches_transparent) simp

text \<open>What a hit ignores: once a call has been answered, every later call with the same key gets
  that answer, whatever the compiler would say by then (for example after an included file changed on disk,
  which is no part of the key) and whatever else the engine served in between.\<close>

theorem reflect_hit_is_final:
  assumes "fst (reflect bridge cache sources source profile dirs) = Inr info"
    and "reflection_key sources' source' profile' dirs' = reflection_key sources source profile dirs"
  shows "fst (reflect bridge' (snd (reflect other (snd (reflect bridge cache sources source profile dirs)) s i p d))
           sources' source' profile' dirs') = Inr info"
proof -
  let ?k = "reflection_key sources source profile dirs"
  have "snd (reflect bridge cache sources source profile dirs) ?k = Some info"
    using assms(1) by (auto simp: reflect_def Let_def try_emplace_def split: option.splits sum.splits)
  moreover have "snd (reflect other c s i p d) ?k = Some info" if "c ?k = Some info" for c
    using that by (auto simp: reflect_def Let_def try_emplace_keeps split: option.split sum.split)
  ultimately show ?thesis by (simp add: reflect_def [of bridge'] assms(2))
qed

theorem reflect_hit_is_final_witness:
  "fst (reflect (\<lambda>_ _ _ _. Inl (unregistered_source \<lparr>sid_value = 1\<rparr>))
      (snd (reflect sample_bridge (snd (reflect sample_bridge Map.empty (sample_manager ''main'') \<lparr>sid_value = 1\<rparr> ''sm_6_6'' []))
         (sample_manager ''x'') \<lparr>sid_value = 1\<rparr> ''sm_6_6'' []))
      (sample_manager ''main'') \<lparr>sid_value = 1\<rparr> ''sm_6_6'' []) =
   sample_bridge (sample_manager ''main'') \<lparr>sid_value = 1\<rparr> ''sm_6_6'' []"
proof -
  obtain info where info: "sample_bridge (sample_manager ''main'') \<lparr>sid_value = 1\<rparr> ''sm_6_6'' [] = Inr info"
    by (simp add: sample_bridge_def)
  then have "fst (reflect sample_bridge Map.empty (sample_manager ''main'') \<lparr>sid_value = 1\<rparr> ''sm_6_6'' []) = Inr info"
    by (simp add: reflect_def Let_def try_emplace_def)
  from reflect_hit_is_final [OF this refl] info show ?thesis by simp
qed

text \<open>C37: Concurrent callers of the reflection engine agree: in every interleaving of any number of
  callers, with a compiler that may answer differently each time it is run, all that have returned for a key
  hold one answer, the one the cache holds.\<close>

theorem concurrent_callers_agree:
  assumes "caller_step\<^sup>*\<^sup>* (Map.empty, map Looking keys) (c, ts)"
  shows "Returned k v \<in> set ts \<Longrightarrow> c k = Some v"
proof -
  have "returned_ok (Map.empty, map Looking keys)" unfolding returned_ok_def by auto
  from returned_okD [OF returned_ok_run [OF assms this]] show "Returned k v \<in> set ts \<Longrightarrow> c k = Some v" by simp
qed

definition sample_info :: "string \<Rightarrow> reflection_info" where
  "sample_info profile = \<lparr>ri_bindings = [], ri_cbuffers = [], ri_entry_points = [], ri_target_profile = profile\<rparr>"

text \<open>Two callers that miss; the second compiles something else, and still returns what the first
  stored.\<close>

lemma race_run:
  "caller_step\<^sup>*\<^sup>* (Map.empty, map Looking [k, k]) ([k \<mapsto> v], [Returned k v, Returned k v])"
proof -
  have "caller_step (Map.empty, [Looking k, Looking k]) (Map.empty, [Computing k, Looking k])"
    using caller_step.miss [of 0 "[Looking k, Looking k]" k Map.empty] by simp
  moreover have "caller_step (Map.empty, [Computing k, Looking k]) (Map.empty, [Computing k, Computing k])"
    using caller_step.miss [of 1 "[Computing k, Looking k]" k Map.empty] by simp
  moreover have "caller_step (Map.empty, [Computing k, Computing k]) (Map.empty, [Storing k v, Computing k])"
    using caller_step.computed [of 0 "[Computing k, Computing k]" k Map.empty v] by simp
  moreover have "caller_step (Map.empty, [Storing k v, Computing k]) (Map.empty, [Storing k v, Storing k w])"
    using caller_step.computed [of 1 "[Storing k v, Computing k]" k Map.empty w] by simp
  moreover have "caller_step (Map.empty, [Storing k v, Storing k w]) ([k \<mapsto> v], [Returned k v, Storing k w])"
    using caller_step.store [of 0 "[Storing k v, Storing k w]" k v Map.empty] by (simp add: try_emplace_def)
  moreover have "caller_step ([k \<mapsto> v], [Returned k v, Storing k w]) ([k \<mapsto> v], [Returned k v, Returned k v])"
    using caller_step.store [of 1 "[Returned k v, Storing k w]" k w "[k \<mapsto> v]"] by (simp add: try_emplace_def)
  ultimately show ?thesis by simp
qed

definition sample_key :: engine_key where
  "sample_key = (1, ''sm_6_6'', fingerprint ''main'', [])"

theorem concurrent_callers_agree_witness:
  "\<exists>c ts. caller_step\<^sup>*\<^sup>* (Map.empty, map Looking [sample_key, sample_key]) (c, ts) \<and>
     ts = [Returned sample_key (sample_info ''sm_6_6''), Returned sample_key (sample_info ''sm_6_6'')] \<and>
     c sample_key = Some (sample_info ''sm_6_6'')"
proof (intro exI conjI)
  let ?k = sample_key and ?v = "sample_info ''sm_6_6''"
  show run: "caller_step\<^sup>*\<^sup>* (Map.empty, map Looking [?k, ?k]) ([?k \<mapsto> ?v], [Returned ?k ?v, Returned ?k ?v])"
    by (rule race_run)
  show "[?k \<mapsto> ?v] ?k = Some ?v" by (rule concurrent_callers_agree [OF run]) simp
qed (rule refl)

text \<open>The IR engine's view of a shader today is the list of its entry points: looking a function up
  by name finds exactly the function made from the entry point of that name, with its stage and span, and it has
  no blocks.\<close>

theorem ir_functions_are_entry_points:
  "find_function_by_name (build_ir_info_from_reflection reflection) name =
     map_option (\<lambda>ep. \<lparr>if_id = 0, if_entry_point_name = name, if_stage = ep_stage ep, if_blocks = [],
       if_declaration_span = ep_declaration_span ep\<rparr>) (find_entry_point_by_name reflection name)"
proof -
  have "find (\<lambda>fn. if_entry_point_name fn = name) (map ir_function_of eps) =
      map_option (\<lambda>ep. \<lparr>if_id = 0, if_entry_point_name = name, if_stage = ep_stage ep, if_blocks = [],
        if_declaration_span = ep_declaration_span ep\<rparr>) (find (\<lambda>e. ep_name e = name) eps)" for eps
    by (induction eps) (auto simp: ir_function_of_def)
  then show ?thesis
    by (simp add: find_function_by_name_def find_entry_point_by_name_def build_ir_info_from_reflection_def)
qed

end
