(* ===== verification/CfgEngine.thy ===== *)
theory CfgEngine
  imports Engines Dominance Uniformity "HOL-Library.Product_Lexorder"
begin

text \<open>
  \<^verbatim>\<open>core/src/control_flow/engine.cpp\<close>: the process-wide engine that builds a source's graph,
  its dominators and its uniformity tables, and caches them by source id and content fingerprint in a map
  ordered by that key. The lemmas compose the builder, the dominator pass, the analyser and the queries: the
  engine always answers, and what the public queries say about its answer is what the paths of the graph say.
\<close>

section \<open>The engine\<close>

record cfg_info =
  ci_impl :: cfg_storage
  ci_blocks :: "nat list"
  ci_entry_span :: span

record control_flow_info =
  cfi_cfg :: cfg_info
  cfi_uniformity :: uniformity_data

record cfg_entry =
  ce_info :: control_flow_info
  ce_diagnostics :: "diagnostic list"

type_synonym cfg_key = "u32 \<times> u64"

text \<open>The map, in ascending order of its keys, with \<open>find\<close> and \<open>try_emplace\<close>.\<close>

type_synonym cfg_cache = "(cfg_key \<times> cfg_entry) list"

fun cache_emplace :: "cfg_key \<Rightarrow> cfg_entry \<Rightarrow> cfg_cache \<Rightarrow> cfg_cache" where
  "cache_emplace k v [] = [(k, v)]"
| "cache_emplace k v ((k', v') # c) =
     (if k < k' then (k, v) # (k', v') # c
      else if k = k' then (k', v') # c
      else (k', v') # cache_emplace k v c)"

definition cache_ok :: "cfg_cache \<Rightarrow> bool" where
  "cache_ok c \<longleftrightarrow> sorted_wrt (<) (map fst c)"

definition empty_span :: "source_id \<Rightarrow> span" where
  "empty_span source = \<lparr>sp_source = source, sp_bytes = \<lparr>bs_lo = 0, bs_hi = 0\<rparr>\<rparr>"

definition cfg_error :: "source_id \<Rightarrow> string \<Rightarrow> diagnostic" where
  "cfg_error source message =
     \<lparr>dg_code = ''clippy::cfg'', dg_severity = Error, dg_primary_span = empty_span source, dg_message = message,
      dg_fixes = []\<rparr>"

text \<open>What a miss computes. It is \<open>None\<close> if the dominator pass did not end.\<close>

definition build_entry :: "(ts_node \<Rightarrow> bool) \<Rightarrow> source_id \<Rightarrow> ts_node \<Rightarrow> string \<Rightarrow> cfg_entry option" where
  "build_entry has_error source tree source_bytes =
     (let (storage, diagnostics) = build_cfg has_error (Some tree) source source_bytes
      in case compute_all_dominators storage of
           None \<Rightarrow> None
         | Some storage \<Rightarrow>
             let cfg = \<lparr>ci_impl = storage,
                   ci_blocks = map (\<lambda>i. i + 1) [0..<length (cs_block_to_function storage)],
                   ci_entry_span = (if length (cs_functions storage) > 1
                     then cf_declaration_span (cs_functions storage ! 1) else empty_span source)\<rparr>
             in Some \<lparr>ce_info = \<lparr>cfi_cfg = cfg, cfi_uniformity = analyse_uniformity tree source_bytes empty_uniformity\<rparr>,
                      ce_diagnostics = diagnostics\<rparr>)"

definition build_with_tree :: "(ts_node \<Rightarrow> bool) \<Rightarrow> cfg_cache \<Rightarrow> source_id \<Rightarrow> ts_node option \<Rightarrow> string \<Rightarrow>
    ((diagnostic + control_flow_info) \<times> cfg_cache) option" where
  "build_with_tree has_error cache source tree source_bytes =
     (let key = (sid_value source, fingerprint source_bytes)
      in case map_of cache key of
           Some entry \<Rightarrow> Some (Inr (ce_info entry), cache)
         | None \<Rightarrow>
             (case tree of
                None \<Rightarrow> Some (Inl (cfg_error source ''null tree-sitter root passed to CFG engine''), cache)
              | Some tree \<Rightarrow>
                  (case build_entry has_error source tree source_bytes of
                     None \<Rightarrow> None
                   | Some entry \<Rightarrow>
                       let cache = cache_emplace key entry cache
                       in Some (Inr (ce_info (the (map_of cache key))), cache))))"

text \<open>\<open>build\<close>, which parses the source itself.\<close>

definition build_source :: "(ts_node \<Rightarrow> bool) \<Rightarrow> (grammar \<Rightarrow> string \<Rightarrow> ts_node option) \<Rightarrow> cfg_cache \<Rightarrow>
    source_manager \<Rightarrow> source_id \<Rightarrow> ((diagnostic + control_flow_info) \<times> cfg_cache) option" where
  "build_source has_error ts_parse cache sources source =
     (case parse ts_parse sources source Auto of
        None \<Rightarrow> Some (Inl (cfg_error source ''failed to parse source for CFG construction''), cache)
      | Some parsed \<Rightarrow> build_with_tree has_error cache source (Some (ps_tree parsed)) (ps_bytes parsed))"

definition take_diagnostics :: "cfg_cache \<Rightarrow> source_id \<Rightarrow> diagnostic list" where
  "take_diagnostics cache source =
     (case find (\<lambda>(key, entry). fst key = sid_value source) cache of
        Some (key, entry) \<Rightarrow> ce_diagnostics entry
      | None \<Rightarrow> [])"

section \<open>The map\<close>

lemma set_cache_emplace: "fst ` set (cache_emplace k v c) = insert k (fst ` set c)"
  by (induction k v c rule: cache_emplace.induct) auto

lemma cache_emplace_ok: "cache_ok c \<Longrightarrow> cache_ok (cache_emplace k v c)"
proof (induction k v c rule: cache_emplace.induct)
  case (2 k v k' v' c)
  then show ?case
    using set_cache_emplace [of k v c] by (auto simp: cache_ok_def image_iff dest: order.strict_trans)
qed (simp add: cache_ok_def)

lemma map_of_cache_emplace:
  "cache_ok c \<Longrightarrow> map_of (cache_emplace k v c) k' =
     (if k' = k then (case map_of c k of Some w \<Rightarrow> Some w | None \<Rightarrow> Some v) else map_of c k')"
proof (induction k v c rule: cache_emplace.induct)
  case (2 k v k1 v1 c)
  have "map_of c k = None" if "k < k1"
    using 2(2) that by (force simp: cache_ok_def map_of_eq_None_iff dest: order.strict_trans)
  then show ?case using 2 by (auto simp: cache_ok_def)
qed (simp add: cache_ok_def)

interpretation cfg_store: keyed_store cache_ok map_of cache_emplace
  by unfold_locales (simp_all add: cache_emplace_ok map_of_cache_emplace)

section \<open>The built graph\<close>

lemma compute_dominators_idom: "compute_dominators fn = Some fn' \<Longrightarrow> \<exists>d. fn' = fn\<lparr>cf_idom := d\<rparr>"
proof -
  assume "compute_dominators fn = Some fn'"
  then consider "fn' = fn" | d where "fn' = fn\<lparr>cf_idom := d\<rparr>"
    by (auto simp: compute_dominators_def Let_def bind_eq_Some_conv split: if_splits)
  then show ?thesis
  proof cases
    case 1
    then have "fn' = fn\<lparr>cf_idom := cf_idom fn\<rparr>" by simp
    then show ?thesis by blast
  qed blast
qed

lemma cfg_path_blocks:
  assumes "cf_blocks fn' = cf_blocks fn" shows "cfg_path fn' u p v \<longleftrightarrow> cfg_path fn u p v"
proof -
  have "cfg_path g u p v \<Longrightarrow> cf_blocks h = cf_blocks g \<Longrightarrow> cfg_path h u p v" for g h
    by (induction rule: cfg_path.induct) (auto simp: cfg_edge_def intro: cfg_path.intros)
  with assms show ?thesis by metis
qed

lemma dominators_of_list_total':
  obtains fns where "dominators_of_list (tl (cs_functions st)) = Some fns"
    "list_all2 (\<lambda>fn fn'. compute_dominators fn = Some fn') (tl (cs_functions st)) fns"
  using dominators_of_list_total by blast

text \<open>The dominator pass on a storage: it answers, and changes the parents only.\<close>

lemma compute_all_dominators_total:
  assumes "cs_functions st \<noteq> []"
  obtains st' where "compute_all_dominators st = Some st'"
    "cs_block_to_function st' = cs_block_to_function st" "cs_block_to_local st' = cs_block_to_local st"
    "length (cs_functions st') = length (cs_functions st)" "cs_functions st' ! 0 = cs_functions st ! 0"
    "\<And>f. 0 < f \<Longrightarrow> f < length (cs_functions st) \<Longrightarrow>
       compute_dominators (cs_functions st ! f) = Some (cs_functions st' ! f)"
proof -
  obtain fns where fns: "dominators_of_list (tl (cs_functions st)) = Some fns"
    "list_all2 (\<lambda>fn fn'. compute_dominators fn = Some fn') (tl (cs_functions st)) fns"
    by (rule dominators_of_list_total')
  obtain f0 fs where split: "cs_functions st = f0 # fs" using assms by (cases "cs_functions st") auto
  let ?st = "st\<lparr>cs_functions := take 1 (cs_functions st) @ fns\<rparr>"
  have len: "length fns = length fs" using list_all2_lengthD [OF fns(2)] split by simp
  have "compute_dominators (cs_functions st ! f) = Some (cs_functions ?st ! f)"
    if "0 < f" "f < length (cs_functions st)" for f
    using list_all2_nthD [OF fns(2), of "f - 1"] that split by (cases f) auto
  moreover have "compute_all_dominators st = Some ?st" using fns(1) by (simp add: compute_all_dominators_def)
  ultimately show thesis using that [of ?st] split len by simp
qed

lemma build_entry_total:
  obtains entry st where "build_entry has_error source tree bytes = Some entry"
    "st = fst (build_cfg has_error (Some tree) source bytes)" "storage_ok st"
    "compute_all_dominators st = Some (ci_impl (cfi_cfg (ce_info entry)))"
    "ci_blocks (cfi_cfg (ce_info entry)) = map (\<lambda>i. i + 1) [0..<length (cs_block_to_function st)]"
proof -
  obtain st ds where b: "build_cfg has_error (Some tree) source bytes = (st, ds)" by fastforce
  have ok: "storage_ok st" using build_cfg_ok [of has_error "Some tree" source bytes] b by simp
  obtain st' where st': "compute_all_dominators st = Some st'" "cs_block_to_function st' = cs_block_to_function st"
    using compute_all_dominators_total [OF storage_okD(4) [OF ok]] by metis
  let ?cfg = "\<lparr>ci_impl = st', ci_blocks = map (\<lambda>i. i + 1) [0..<length (cs_block_to_function st')],
      ci_entry_span = (if length (cs_functions st') > 1
        then cf_declaration_span (cs_functions st' ! 1) else empty_span source)\<rparr>"
  let ?entry = "\<lparr>ce_info = \<lparr>cfi_cfg = ?cfg, cfi_uniformity = analyse_uniformity tree bytes empty_uniformity\<rparr>,
      ce_diagnostics = ds\<rparr>"
  have entry: "build_entry has_error source tree bytes = Some ?entry"
    unfolding build_entry_def b by (simp add: st'(1))
  show thesis by (rule that [OF entry _ ok]) (simp_all add: st' b)
qed

lemma build_with_tree_miss:
  assumes "map_of cache (sid_value source, fingerprint bytes) = None"
    and "build_with_tree has_error cache source (Some tree) bytes = Some (Inr info, cache')"
    and "cache_ok cache"
  obtains entry where "build_entry has_error source tree bytes = Some entry" "info = ce_info entry"
proof -
  obtain entry where e: "build_entry has_error source tree bytes = Some entry"
    using build_entry_total by metis
  with assms have "info = ce_info entry"
    by (auto simp: build_with_tree_def Let_def map_of_cache_emplace)
  with e show thesis by (rule that)
qed

lemma query_dominates:
  assumes "storage_ok st" and "compute_all_dominators st = Some st'"
    and "a \<noteq> 0" "a \<le> length (cs_block_to_function st)" and "b \<noteq> 0" "b \<le> length (cs_block_to_function st)"
    and "resolve_block st' b = (f, l)" and "\<not> cf_error_skipped (cs_functions st' ! f)"
    and "cfg_path (cs_functions st' ! f) 0 q l"
  shows "cfg_dominates (Some st') a b \<longleftrightarrow>
    (\<exists>k. resolve_block st' a = (f, k) \<and> (\<forall>p. cfg_path (cs_functions st' ! f) 0 p l \<longrightarrow> k \<in> insert 0 (set p)))"
proof -
  obtain st'' where pass: "compute_all_dominators st = Some st''" "cs_block_to_function st'' = cs_block_to_function st"
    "cs_block_to_local st'' = cs_block_to_local st" "length (cs_functions st'') = length (cs_functions st)"
    "cs_functions st'' ! 0 = cs_functions st ! 0"
    "\<And>f. 0 < f \<Longrightarrow> f < length (cs_functions st) \<Longrightarrow> compute_dominators (cs_functions st ! f) = Some (cs_functions st'' ! f)"
    using compute_all_dominators_total [OF storage_okD(4) [OF assms(1)]] by metis
  have st'': "st'' = st'" using assms(2) pass(1) by simp
  have real: "0 < g \<and> g < length (cs_functions st)"
    if "c \<noteq> 0" "c \<le> length (cs_block_to_function st)" "resolve_block st' c = (g, m)" for c g m
  proof -
    have "(g, m) \<in> set (id_pairs st)"
      using that pass(2,3) storage_okD(1) [OF assms(1)] st''
      by (auto simp: resolve_block_def id_pairs_def set_zip intro!: exI [of _ "c - 1"])
    then have "g < length (cs_functions st) \<and> m < block_count g st" using storage_okD(3) [OF assms(1)] by simp
    moreover then have "g \<noteq> 0" using storage_okD(5) [OF assms(1)] by (metis length_0_conv not_less_zero)
    ultimately show ?thesis by simp
  qed
  note f = real [OF assms(5-7)]
  let ?fn = "cs_functions st ! f" and ?fn' = "cs_functions st' ! f"
  have dom: "compute_dominators ?fn = Some ?fn'" using pass(6) f st'' by blast
  from compute_dominators_idom [OF this] obtain d where d: "?fn' = ?fn\<lparr>cf_idom := d\<rparr>" by blast
  have paths: "cfg_path ?fn' u p v \<longleftrightarrow> cfg_path ?fn u p v" for u p v
    by (rule cfg_path_blocks) (simp add: d)
  have "dominates_query ?fn' k l \<longleftrightarrow> (\<forall>p. cfg_path ?fn' 0 p l \<longrightarrow> k \<in> insert 0 (set p))" for k
    using dominates_query_paths [OF _ dom, of q l k] assms(8,9) d unfolding paths by simp
  moreover obtain g k where "resolve_block st' a = (g, k)" by fastforce
  moreover have "0 < g" using real [OF assms(3,4) calculation(2)] by simp
  ultimately show ?thesis
    using assms(7) f by (simp add: cfg_dominates_def query_blocks_def)
qed

section \<open>Sequences of builds\<close>

fun build_all :: "(ts_node \<Rightarrow> bool) \<Rightarrow> cfg_cache \<Rightarrow> (source_id \<times> ts_node \<times> string) list \<Rightarrow>
    (diagnostic + control_flow_info) option list" where
  "build_all has_error cache [] = []"
| "build_all has_error cache ((source, tree, bytes) # calls) =
     (case build_with_tree has_error cache source (Some tree) bytes of
        None \<Rightarrow> None # build_all has_error cache calls
      | Some (r, cache) \<Rightarrow> Some r # build_all has_error cache calls)"

fun fresh_build :: "(ts_node \<Rightarrow> bool) \<Rightarrow> source_id \<times> ts_node \<times> string \<Rightarrow> (diagnostic + control_flow_info) option" where
  "fresh_build has_error (source, tree, bytes) = map_option (Inr \<circ> ce_info) (build_entry has_error source tree bytes)"

fun call_key :: "source_id \<times> ts_node \<times> string \<Rightarrow> cfg_key" where
  "call_key (source, tree, bytes) = (sid_value source, fingerprint bytes)"

lemma build_all_fresh:
  assumes agree: "\<And>p q. p \<in> calls \<Longrightarrow> q \<in> calls \<Longrightarrow> call_key p = call_key q \<Longrightarrow> fresh_build has_error p = fresh_build has_error q"
    and "set cs \<subseteq> calls" and "cache_ok cache"
    and "cfg_store.sound (\<lambda>k e. \<exists>p \<in> calls. call_key p = k \<and> fresh_build has_error p = Some (Inr (ce_info e))) cache"
  shows "build_all has_error cache cs = map (fresh_build has_error) cs"
  using assms(2-)
proof (induction cs arbitrary: cache)
  case (Cons call cs)
  obtain source tree bytes where call: "call = (source, tree, bytes)" by (cases call)
  let ?P = "\<lambda>k e. \<exists>p \<in> calls. call_key p = k \<and> fresh_build has_error p = Some (Inr (ce_info e))"
  have mem: "call \<in> calls" using Cons.prems(1) by simp
  show ?case
  proof (cases "map_of cache (call_key call)")
    case (Some e)
    then have "?P (call_key call) e" using cfg_store.sound_get [OF Cons.prems(3)] by blast
    then have "fresh_build has_error call = Some (Inr (ce_info e))" using agree [OF _ mem] by metis
    with Some Cons show ?thesis by (simp add: call build_with_tree_def del: fresh_build.simps)
  next
    case None
    obtain e where e: "build_entry has_error source tree bytes = Some e" using build_entry_total by metis
    then have "?P (call_key call) e" using mem call by (auto intro!: bexI [of _ call])
    from cfg_store.sound_emplace [OF Cons.prems(2,3) this] cache_emplace_ok [OF Cons.prems(2)]
    have "build_all has_error (cache_emplace (call_key call) e cache) cs = map (fresh_build has_error) cs"
      using Cons by (intro Cons.IH) simp_all
    with None e Cons.prems(2) show ?thesis by (simp add: call build_with_tree_def Let_def map_of_cache_emplace)
  qed
qed simp

section \<open>Properties\<close>

text \<open>The engine always answers: for every tree, whatever its cache holds, a build ends and
  returns a graph.\<close>

theorem engine_always_answers:
  "\<exists>info cache'. build_with_tree has_error cache source (Some tree) bytes = Some (Inr info, cache')"
proof (cases "map_of cache (sid_value source, fingerprint bytes)")
  case None
  obtain entry where "build_entry has_error source tree bytes = Some entry" using build_entry_total by metis
  with None show ?thesis by (simp add: build_with_tree_def Let_def)
qed (simp add: build_with_tree_def)

text \<open>C13: What \<open>CfgInfo::dominates\<close> says about a graph the engine has just built: for two of its block
  ids, the second one reachable from the entry of its function, it answers that the two are blocks of one
  function and the first lies on every path from the entry to the second.\<close>

theorem engine_dominance:
  assumes "build_with_tree has_error cache source (Some tree) bytes = Some (Inr info, cache')"
    and "map_of cache (sid_value source, fingerprint bytes) = None" and "cache_ok cache"
    and "a \<in> set (ci_blocks (cfi_cfg info))" and "b \<in> set (ci_blocks (cfi_cfg info))"
    and "resolve_block (ci_impl (cfi_cfg info)) b = (f, l)"
    and "\<not> cf_error_skipped (cs_functions (ci_impl (cfi_cfg info)) ! f)"
    and "cfg_path (cs_functions (ci_impl (cfi_cfg info)) ! f) 0 q l"
  shows "cfg_dominates (Some (ci_impl (cfi_cfg info))) a b \<longleftrightarrow>
    (\<exists>k. resolve_block (ci_impl (cfi_cfg info)) a = (f, k) \<and>
       (\<forall>p. cfg_path (cs_functions (ci_impl (cfi_cfg info)) ! f) 0 p l \<longrightarrow> k \<in> insert 0 (set p)))"
proof -
  obtain entry where entry: "build_entry has_error source tree bytes = Some entry" "info = ce_info entry"
    using build_with_tree_miss [OF assms(2,1,3)] .
  obtain st where st: "storage_ok st" "compute_all_dominators st = Some (ci_impl (cfi_cfg info))"
    "ci_blocks (cfi_cfg info) = map (\<lambda>i. i + 1) [0..<length (cs_block_to_function st)]"
    using build_entry_total [of has_error source tree bytes] entry by (metis option.inject)
  show ?thesis
    using assms(4-) st by (intro query_dominates [OF st(1,2)]) auto
qed

text \<open>A function whose body is an \<open>if\<close> without an \<open>else\<close>.\<close>

definition sample_tree :: ts_node where
  "sample_tree = Ts_Node ''translation_unit'' True 0 6 [(None, Ts_Node ''function_definition'' True 0 6
     [(Some ''body'', Ts_Node ''compound_statement'' True 1 6 [(None, Ts_Node ''if_statement'' True 2 5
        [(Some ''condition'', Ts_Node ''identifier'' True 3 4 []),
         (Some ''consequence'', Ts_Node ''compound_statement'' True 4 5 [])])])])]"

definition sample_cfg :: cfg_info where
  "sample_cfg = (case build_with_tree (\<lambda>_. False) [] \<lparr>sid_value = 1\<rparr> (Some sample_tree) ''f{if;}'' of
     Some (Inr info, cache) \<Rightarrow> cfi_cfg info)"

definition sample_view :: "cfg_info \<Rightarrow> nat list \<times> (nat \<times> nat) list \<times> bool \<times> bool \<times> nat list list" where
  "sample_view cfg = (ci_blocks cfg, map (resolve_block (ci_impl cfg)) [2, 3],
     cf_error_skipped (cs_functions (ci_impl cfg) ! 1), cfg_dominates (Some (ci_impl cfg)) 2 3,
     map bb_successors (cf_blocks (cs_functions (ci_impl cfg) ! 1)))"

lemma sample_cfg_view: "sample_view sample_cfg = ([1, 2, 3], [(1, 1), (1, 2)], False, False, [[1, 2], [2], []])"
  by code_simp

lemma sample_cfg_facts:
  "ci_blocks sample_cfg = [1, 2, 3]" "resolve_block (ci_impl sample_cfg) 2 = (1, 1)"
  "resolve_block (ci_impl sample_cfg) 3 = (1, 2)" "\<not> cf_error_skipped (cs_functions (ci_impl sample_cfg) ! 1)"
  "\<not> cfg_dominates (Some (ci_impl sample_cfg)) 2 3"
  "map bb_successors (cf_blocks (cs_functions (ci_impl sample_cfg) ! 1)) = [[1, 2], [2], []]"
  using sample_cfg_view by (simp_all add: sample_view_def)

theorem engine_dominance_witness:
  "\<not> cfg_dominates (Some (ci_impl sample_cfg)) 2 3 \<and>
   (\<exists>p. cfg_path (cs_functions (ci_impl sample_cfg) ! 1) 0 p 2 \<and> 1 \<notin> insert 0 (set p))"
proof -
  let ?fn = "cs_functions (ci_impl sample_cfg) ! 1"
  obtain entry where "build_entry (\<lambda>_. False) \<lparr>sid_value = 1\<rparr> sample_tree ''f{if;}'' = Some entry"
    using build_entry_total by metis
  then obtain info cache where info: "build_with_tree (\<lambda>_. False) [] \<lparr>sid_value = 1\<rparr> (Some sample_tree)
      ''f{if;}'' = Some (Inr info, cache)"
    by (simp add: build_with_tree_def Let_def)
  then have cfg: "cfi_cfg info = sample_cfg" by (simp add: sample_cfg_def)
  have succs: "map bb_successors (cf_blocks ?fn) = [[1, 2], [2], []]" by (rule sample_cfg_facts(6))
  then have "length (cf_blocks ?fn) = 3" "bb_successors (cf_blocks ?fn ! 0) = [1, 2]"
    by (auto simp: map_eq_Cons_conv)
  then have "cfg_edge ?fn 0 2" by (simp add: cfg_edge_def)
  then have path: "cfg_path ?fn 0 [2] 2"
    using cfg_path.step [OF cfg_path.here [of 0 ?fn]] \<open>length (cf_blocks ?fn) = 3\<close> by fastforce
  have "cfg_dominates (Some (ci_impl (cfi_cfg info))) 2 3 \<longleftrightarrow>
      (\<exists>k. resolve_block (ci_impl (cfi_cfg info)) 2 = (1, k) \<and>
       (\<forall>p. cfg_path (cs_functions (ci_impl (cfi_cfg info)) ! 1) 0 p 2 \<longrightarrow> k \<in> insert 0 (set p)))"
    by (rule engine_dominance [OF info]) (use path sample_cfg_facts in \<open>simp_all add: cfg cache_ok_def\<close>)
  with path show ?thesis using sample_cfg_facts by (auto simp: cfg)
qed

text \<open>The cache is transparent: a process that builds any sequence of sources gets for each what a
  build without a cache gives, provided sources with the same id and fingerprint have the same graph.\<close>

theorem cfg_cache_transparent:
  assumes "\<forall>p \<in> set calls. \<forall>q \<in> set calls. call_key p = call_key q \<longrightarrow> fresh_build has_error p = fresh_build has_error q"
  shows "build_all has_error [] calls = map (fresh_build has_error) calls"
proof (rule build_all_fresh [where calls = "set calls"])
  show "p \<in> set calls \<Longrightarrow> q \<in> set calls \<Longrightarrow> call_key p = call_key q \<Longrightarrow> fresh_build has_error p = fresh_build has_error q" for p q
    using assms by blast
qed (simp_all add: cache_ok_def cfg_store.sound_def)

theorem cfg_cache_transparent_witness:
  "build_all (\<lambda>_. False) []
     [(\<lparr>sid_value = 1\<rparr>, Ts_Node ''translation_unit'' True 0 1 [], ''a''),
      (\<lparr>sid_value = 1\<rparr>, Ts_Node ''translation_unit'' True 0 1 [], ''a'')] =
   map (fresh_build (\<lambda>_. False))
     [(\<lparr>sid_value = 1\<rparr>, Ts_Node ''translation_unit'' True 0 1 [], ''a''),
      (\<lparr>sid_value = 1\<rparr>, Ts_Node ''translation_unit'' True 0 1 [], ''a'')]"
  by (rule cfg_cache_transparent) simp

text \<open>The warnings of a build come from the entry with the smallest fingerprint of the source id, not
  from the last build: here a source with one skipped function is built, then, under the same id, a source
  without any function; the diagnostics then taken for the second are those of the first.\<close>

theorem stale_diagnostics_taken:
  "let source = \<lparr>sid_value = 1\<rparr>;
       broken = Ts_Node ''translation_unit'' True 0 1 [(None, Ts_Node ''function_definition'' True 0 1 [])];
       fixed = Ts_Node ''translation_unit'' True 0 1 [];
       c1 = snd (the (build_with_tree (\<lambda>n. ts_children n = []) [] source (Some broken) ''a''));
       c2 = snd (the (build_with_tree (\<lambda>n. ts_children n = []) c1 source (Some fixed) ''b''))
   in take_diagnostics c1 source = take_diagnostics c2 source \<and>
      map dg_code (take_diagnostics c2 source) = [''clippy::cfg-skip''] \<and>
      map_option ce_diagnostics (map_of c2 (1, fingerprint ''b'')) = Some []"
  by code_simp

end
