(* ===== verification/Rpc.thy ===== *)
theory Rpc
  imports Wire "HOL-Library.Signed_Division"
begin

text \<open>
  JSON values as \<^verbatim>\<open>nlohmann::json\<close> shows them to the language server, and the dispatcher of
  \<^verbatim>\<open>lsp/src/rpc/dispatcher.cpp\<close> with the envelopes of \<^verbatim>\<open>message.hpp\<close>. The text form
  of JSON is the library's: its parser and its printer are parameters, and the printer may fail, outside every handler of exceptions in the dispatcher. Handlers are functions of the server state;
  a thrown exception is a value. The lemmas say which envelopes are answered, with which id and which code.
\<close>

section \<open>JSON values\<close>

text \<open>An object is the list of its members in the order of \<open>std::map\<close>, without repeated keys.\<close>

datatype json =
    Json_Null
  | Json_Bool bool
  | Json_Int int
  | Json_Float real
  | Json_String string
  | Json_Array "json list"
  | Json_Object "(string \<times> json) list"

fun is_object :: "json \<Rightarrow> bool" where
  "is_object (Json_Object kvs) = True"
| "is_object j = False"

text \<open>\<open>find\<close>: nothing when the value is not an object.\<close>

fun json_find :: "json \<Rightarrow> string \<Rightarrow> json option" where
  "json_find (Json_Object kvs) k = map_of kvs k"
| "json_find j k = None"

fun get_string :: "json option \<Rightarrow> string option" where
  "get_string (Some (Json_String s)) = Some s"
| "get_string j = None"

fun get_array :: "json option \<Rightarrow> json list option" where
  "get_array (Some (Json_Array js)) = Some js"
| "get_array j = None"

fun get_object :: "json option \<Rightarrow> json option" where
  "get_object (Some (Json_Object kvs)) = Some (Json_Object kvs)"
| "get_object j = None"

fun get_bool :: "json option \<Rightarrow> bool option" where
  "get_bool (Some (Json_Bool b)) = Some b"
| "get_bool j = None"

text \<open>\<open>is_number_integer\<close> and the value; \<open>get\<close> casts it to the wanted width.\<close>

fun get_integer :: "json option \<Rightarrow> int option" where
  "get_integer (Some (Json_Int i)) = Some i"
| "get_integer j = None"

definition to_i64 :: "int \<Rightarrow> int" where
  "to_i64 i = sint (word_of_int i :: 64 word)"

definition to_i32 :: "int \<Rightarrow> int" where
  "to_i32 i = sint (word_of_int i :: 32 word)"

section \<open>Messages\<close>

datatype rpc_id = Id_Int int | Id_String string

record request_msg =
  rq_id :: rpc_id
  rq_method :: string
  rq_params :: json

record notification_msg =
  nt_method :: string
  nt_params :: json

record error_object =
  eo_code :: int
  eo_message :: string
  eo_data :: json

definition k_parse_error :: int where "k_parse_error = - 32700"
definition k_invalid_request :: int where "k_invalid_request = - 32600"
definition k_method_not_found :: int where "k_method_not_found = - 32601"
definition k_internal_error :: int where "k_internal_error = - 32603"

fun id_to_json :: "rpc_id \<Rightarrow> json" where
  "id_to_json (Id_Int i) = Json_Int i"
| "id_to_json (Id_String s) = Json_String s"

definition parse_id :: "json \<Rightarrow> rpc_id option" where
  "parse_id envelope =
     (case json_find envelope ''id'' of
        Some (Json_Int i) \<Rightarrow> Some (Id_Int (to_i64 i))
      | Some (Json_String s) \<Rightarrow> Some (Id_String s)
      | _ \<Rightarrow> None)"

definition build_success :: "rpc_id \<Rightarrow> json \<Rightarrow> json" where
  "build_success i result = Json_Object [(''id'', id_to_json i), (''jsonrpc'', Json_String ''2.0''), (''result'', result)]"

definition build_error :: "rpc_id \<Rightarrow> error_object \<Rightarrow> json" where
  "build_error i err =
     Json_Object
       [(''error'', Json_Object ([(''code'', Json_Int (eo_code err))] @
           (if eo_data err \<noteq> Json_Null then [(''data'', eo_data err)] else []) @
           [(''message'', Json_String (eo_message err))])),
        (''id'', id_to_json i), (''jsonrpc'', Json_String ''2.0'')]"

section \<open>The dispatcher\<close>

text \<open>What a handler does: return, or throw a \<open>std::exception\<close> with its text, or throw something
  else; each leaves a state.\<close>

datatype handler_result = Returned "error_object + json" | Threw string | Threw_Unknown

record 's dispatcher =
  dp_request :: "string \<Rightarrow> (json \<Rightarrow> 's \<Rightarrow> handler_result \<times> 's) option"
  dp_notification :: "string \<Rightarrow> (json \<Rightarrow> 's \<Rightarrow> 's) option"

definition empty_dispatcher :: "'s dispatcher" where
  "empty_dispatcher = \<lparr>dp_request = Map.empty, dp_notification = Map.empty\<rparr>"

definition on_request :: "string \<Rightarrow> (json \<Rightarrow> 's \<Rightarrow> handler_result \<times> 's) \<Rightarrow> 's dispatcher \<Rightarrow> 's dispatcher" where
  "on_request m h d = d\<lparr>dp_request := (dp_request d)(m \<mapsto> h)\<rparr>"

definition on_notification :: "string \<Rightarrow> (json \<Rightarrow> 's \<Rightarrow> 's) \<Rightarrow> 's dispatcher \<Rightarrow> 's dispatcher" where
  "on_notification m h d = d\<lparr>dp_notification := (dp_notification d)(m \<mapsto> h)\<rparr>"

abbreviation simple_error :: "int \<Rightarrow> string \<Rightarrow> error_object" where
  "simple_error code message \<equiv> \<lparr>eo_code = code, eo_message = message, eo_data = Json_Null\<rparr>"

text \<open>The printer of the library may throw (a string that is not UTF-8): then it gives nothing. What the
  dispatcher returns is the text of the reply, empty for none, or nothing when that exception leaves it.\<close>

definition error_response :: "(json \<Rightarrow> string option) \<Rightarrow> rpc_id \<Rightarrow> error_object \<Rightarrow> string option" where
  "error_response dump i err = dump (build_error i err)"

definition handle_request :: "(json \<Rightarrow> string option) \<Rightarrow> 's dispatcher \<Rightarrow> request_msg \<Rightarrow> 's \<Rightarrow>
    string option \<times> 's" where
  "handle_request dump d req s =
     (case dp_request d (rq_method req) of
        None \<Rightarrow> (error_response dump (rq_id req)
                  (simple_error k_method_not_found (''method not found: '' @ rq_method req)), s)
      | Some h \<Rightarrow>
          (case h (rq_params req) s of
             (Threw what, s) \<Rightarrow>
               (error_response dump (rq_id req) (simple_error k_internal_error (''handler threw: '' @ what)), s)
           | (Threw_Unknown, s) \<Rightarrow>
               (error_response dump (rq_id req) (simple_error k_internal_error ''handler threw unknown exception''), s)
           | (Returned (Inl err), s) \<Rightarrow> (error_response dump (rq_id req) err, s)
           | (Returned (Inr result), s) \<Rightarrow> (dump (build_success (rq_id req) result), s)))"

definition handle_notification :: "'s dispatcher \<Rightarrow> notification_msg \<Rightarrow> 's \<Rightarrow> 's" where
  "handle_notification d note s =
     (case dp_notification d (nt_method note) of None \<Rightarrow> s | Some h \<Rightarrow> h (nt_params note) s)"

definition dispatch_envelope :: "(json \<Rightarrow> string option) \<Rightarrow> 's dispatcher \<Rightarrow> json \<Rightarrow> 's \<Rightarrow>
    string option \<times> 's" where
  "dispatch_envelope dump d envelope s =
     (if \<not> is_object envelope
      then (error_response dump (Id_Int 0) (simple_error k_invalid_request ''envelope is not a JSON object''), s)
      else case get_string (json_find envelope ''method'') of
             None \<Rightarrow>
               (case parse_id envelope of
                  Some i \<Rightarrow> (error_response dump i (simple_error k_invalid_request ''missing or non-string `method`''), s)
                | None \<Rightarrow> (Some [], s))
           | Some m \<Rightarrow>
               let params = (case json_find envelope ''params'' of Some p \<Rightarrow> p | None \<Rightarrow> Json_Object []) in
               (case parse_id envelope of
                  Some i \<Rightarrow> handle_request dump d \<lparr>rq_id = i, rq_method = m, rq_params = params\<rparr> s
                | None \<Rightarrow> (Some [], handle_notification d \<lparr>nt_method = m, nt_params = params\<rparr> s)))"

text \<open>What \<open>Json::parse\<close> does with a text: a value, a \<open>parse_error\<close>, or another exception.\<close>

datatype parse_outcome = Parsed json | Parse_Error | Parse_Failure

definition dispatch_wire :: "(string \<Rightarrow> parse_outcome) \<Rightarrow> (json \<Rightarrow> string option) \<Rightarrow> 's dispatcher \<Rightarrow> string \<Rightarrow> 's \<Rightarrow>
    string option \<times> 's" where
  "dispatch_wire json_parse dump d wire_body s =
     (case json_parse wire_body of
        Parse_Error \<Rightarrow> (error_response dump (Id_Int 0) (simple_error k_parse_error ''JSON parse error''), s)
      | Parse_Failure \<Rightarrow> (error_response dump (Id_Int 0) (simple_error k_parse_error ''unknown JSON parse failure''), s)
      | Parsed envelope \<Rightarrow> dispatch_envelope dump d envelope s)"

section \<open>Properties\<close>

text \<open>The code of the error a response reports, if it is an error.\<close>

definition response_code :: "json \<Rightarrow> int option" where
  "response_code j =
     (case json_find j ''error'' of None \<Rightarrow> None
      | Some err \<Rightarrow> get_integer (json_find err ''code''))"

lemma build_error_fields [simp]:
  "json_find (build_error i err) ''id'' = Some (id_to_json i)"
  "json_find (build_error i err) ''jsonrpc'' = Some (Json_String ''2.0'')"
  "json_find (build_error i err) ''result'' = None"
  "json_find (build_error i err) ''error'' \<noteq> None"
  "response_code (build_error i err) = Some (eo_code err)"
  by (simp_all add: build_error_def response_code_def)

lemma build_success_fields [simp]:
  "json_find (build_success i result) ''id'' = Some (id_to_json i)"
  "json_find (build_success i result) ''jsonrpc'' = Some (Json_String ''2.0'')"
  "json_find (build_success i result) ''result'' = Some result"
  "json_find (build_success i result) ''error'' = None"
  "response_code (build_success i result) = None"
  by (simp_all add: build_success_def response_code_def)

text \<open>What a response is to a request of this id.\<close>

definition answers :: "rpc_id \<Rightarrow> json \<Rightarrow> bool" where
  "answers i j \<longleftrightarrow> json_find j ''id'' = Some (id_to_json i) \<and> json_find j ''jsonrpc'' = Some (Json_String ''2.0'') \<and>
     (json_find j ''result'' = None \<longleftrightarrow> json_find j ''error'' \<noteq> None)"

lemma built_answers [simp]: "answers i (build_error i err)" "answers i (build_success i result)"
  by (simp_all add: answers_def del: not_None_eq)

text \<open>What a response reports: the result, or the fields of the error.\<close>

definition carries :: "error_object + json \<Rightarrow> json \<Rightarrow> bool" where
  "carries r j =
     (case r of
        Inr result \<Rightarrow> json_find j ''result'' = Some result
      | Inl e \<Rightarrow>
          (case json_find j ''error'' of None \<Rightarrow> False
           | Some err \<Rightarrow> json_find err ''code'' = Some (Json_Int (eo_code e)) \<and>
               json_find err ''message'' = Some (Json_String (eo_message e)) \<and>
               json_find err ''data'' = (if eo_data e = Json_Null then None else Some (eo_data e))))"

lemma built_carries [simp]: "carries (Inl e) (build_error i e)" "carries (Inr result) (build_success i result)"
  by (simp_all add: carries_def build_error_def build_success_def)






text \<open>A message without a usable id is never answered: a notification, known or not, malformed or
  not, and whatever its handler does, produces no reply; without a handler it changes nothing.\<close>

theorem notification_gets_no_response:
  assumes "is_object envelope" and "parse_id envelope = None"
  shows "fst (dispatch_envelope dump d envelope s) = Some [] \<and>
    snd (dispatch_envelope dump d envelope s) =
      (case get_string (json_find envelope ''method'') of None \<Rightarrow> s
       | Some m \<Rightarrow> (case dp_notification d m of None \<Rightarrow> s
           | Some h \<Rightarrow> h (case json_find envelope ''params'' of Some p \<Rightarrow> p | None \<Rightarrow> Json_Object []) s))"
  using assms by (simp add: dispatch_envelope_def handle_notification_def Let_def split: option.split)

theorem notification_gets_no_response_witness:
  "fst (dispatch_envelope (\<lambda>_. Some ''x'') (on_notification ''exit'' (\<lambda>_ s. s + 1) (empty_dispatcher :: nat dispatcher))
      (Json_Object [(''id'', Json_Bool True), (''method'', Json_String ''exit'')]) 0) = Some [] \<and>
   snd (dispatch_envelope (\<lambda>_. Some ''x'') (on_notification ''exit'' (\<lambda>_ s. s + 1) (empty_dispatcher :: nat dispatcher))
      (Json_Object [(''id'', Json_Bool True), (''method'', Json_String ''exit'')]) 0) = 1"
proof -
  have "is_object (Json_Object [(''id'', Json_Bool True), (''method'', Json_String ''exit'')])"
    "parse_id (Json_Object [(''id'', Json_Bool True), (''method'', Json_String ''exit'')]) = None"
    by (simp_all add: parse_id_def)
  from notification_gets_no_response [OF this, of "\<lambda>_. Some ''x''"
      "on_notification ''exit'' (\<lambda>_ s. s + 1) (empty_dispatcher :: nat dispatcher)" 0]
  show ?thesis by (simp add: on_notification_def empty_dispatcher_def)
qed

text \<open>What has no id to answer to is answered all the same, with the number zero as its id: an
  envelope that is not an object (a batch, for instance) and a text that is not JSON.\<close>

theorem malformed_answered_with_id_zero:
  "dispatch_wire (\<lambda>_. Parsed (Json_Array js)) dump d w s =
     (dump (build_error (Id_Int 0) (simple_error (- 32600) ''envelope is not a JSON object'')), s) \<and>
   dispatch_wire (\<lambda>_. Parse_Error) dump d w s =
     (dump (build_error (Id_Int 0) (simple_error (- 32700) ''JSON parse error'')), s)"
  by (simp add: dispatch_wire_def dispatch_envelope_def error_response_def k_invalid_request_def k_parse_error_def)

end
