(* ===== verification/Actions.thy ===== *)
theory Actions
  imports Rpc Documents
begin

text \<open>
  \<^verbatim>\<open>lsp/src/server/diagnostic_convert.cpp\<close> and \<^verbatim>\<open>lsp/src/server/code_actions.cpp\<close>:
  diagnostics, quick fixes and hovers as the JSON the client gets. The lemmas compose them with the document manager:
  the positions they write, read back the way the server reads positions, are the byte offsets they came from.
\<close>

section \<open>Diagnostics\<close>

fun to_lsp_severity :: "severity \<Rightarrow> int" where
  "to_lsp_severity Error = 1"
| "to_lsp_severity Warning = 2"
| "to_lsp_severity Note = 3"

definition to_lsp_position :: "source_manager \<Rightarrow> source_id \<Rightarrow> u32 \<Rightarrow> json" where
  "to_lsp_position sources source byte_offset =
     (let loc = sm_resolve sources source byte_offset
      in Json_Object [(''character'', Json_Int (uint (if lc_column loc > 0 then lc_column loc - 1 else 0))),
                      (''line'', Json_Int (uint (if lc_line loc > 0 then lc_line loc - 1 else 0)))])"

definition to_lsp_diagnostic :: "source_manager \<Rightarrow> diagnostic \<Rightarrow> json" where
  "to_lsp_diagnostic sources d =
     (let sp = dg_primary_span d
      in Json_Object
        [(''code'', Json_String (dg_code d)),
         (''message'', Json_String (dg_message d)),
         (''range'', Json_Object
            [(''end'', to_lsp_position sources (sp_source sp) (bs_hi (sp_bytes sp))),
             (''start'', to_lsp_position sources (sp_source sp) (bs_lo (sp_bytes sp)))]),
         (''severity'', Json_Int (to_lsp_severity (dg_severity d))),
         (''source'', Json_String ''shader-clippy'')])"

definition to_lsp_diagnostics :: "source_manager \<Rightarrow> diagnostic list \<Rightarrow> json" where
  "to_lsp_diagnostics sources ds = Json_Array (map (to_lsp_diagnostic sources) ds)"

section \<open>Positions and ranges\<close>

datatype position = Position (po_line: int) (po_character: int)

text \<open>The code's comparison operators.\<close>

definition position_le :: "position \<Rightarrow> position \<Rightarrow> bool" where
  "position_le lhs rhs \<longleftrightarrow>
     po_line lhs < po_line rhs \<or> (po_line lhs = po_line rhs \<and> po_character lhs \<le> po_character rhs)"

definition position_lt :: "position \<Rightarrow> position \<Rightarrow> bool" where
  "position_lt lhs rhs \<longleftrightarrow>
     po_line lhs < po_line rhs \<or> (po_line lhs = po_line rhs \<and> po_character lhs < po_character rhs)"

instantiation position :: linorder
begin

definition less_eq_position :: "position \<Rightarrow> position \<Rightarrow> bool" where
  "lhs \<le> rhs \<longleftrightarrow> position_le lhs rhs"

definition less_position :: "position \<Rightarrow> position \<Rightarrow> bool" where
  "lhs < rhs \<longleftrightarrow> position_lt lhs rhs"

instance
  by standard (auto simp: less_eq_position_def less_position_def position_le_def position_lt_def position.expand)

end

lemmas position_order_defs = less_eq_position_def less_position_def position_le_def position_lt_def

definition to_position :: "source_manager \<Rightarrow> source_id \<Rightarrow> u32 \<Rightarrow> position" where
  "to_position sources source byte_offset =
     (let loc = sm_resolve sources source byte_offset
      in Position (if lc_line loc > 0 then sint (lc_line loc - 1) else 0)
                  (if lc_column loc > 0 then sint (lc_column loc - 1) else 0))"

definition position_to_json :: "position \<Rightarrow> json" where
  "position_to_json p = Json_Object [(''character'', Json_Int (po_character p)), (''line'', Json_Int (po_line p))]"

definition make_range :: "position \<Rightarrow> position \<Rightarrow> json" where
  "make_range start stop = Json_Object [(''end'', position_to_json stop), (''start'', position_to_json start)]"

definition ranges_overlap :: "position \<Rightarrow> position \<Rightarrow> position \<Rightarrow> position \<Rightarrow> bool" where
  "ranges_overlap a_lo a_hi b_lo b_hi =
     (let a_degenerate = (\<not> a_lo < a_hi); b_degenerate = (\<not> b_lo < b_hi)
      in if a_degenerate \<and> b_degenerate
         then po_line a_lo = po_line b_lo \<and> po_character a_lo = po_character b_lo
         else if a_degenerate then b_lo \<le> a_lo \<and> a_lo \<le> b_hi
         else if b_degenerate then a_lo \<le> b_lo \<and> b_lo \<le> a_hi
         else a_lo < b_hi \<and> b_lo < a_hi)"

section \<open>Quick fixes\<close>

definition edit_to_json :: "source_manager \<Rightarrow> text_edit \<Rightarrow> json" where
  "edit_to_json sources e =
     (let sp = te_span e
      in Json_Object
        [(''newText'', Json_String (te_replacement e)),
         (''range'', make_range (to_position sources (sp_source sp) (bs_lo (sp_bytes sp)))
                                (to_position sources (sp_source sp) (bs_hi (sp_bytes sp))))])"

definition fix_edits_to_text_edits :: "source_manager \<Rightarrow> fix_t \<Rightarrow> json" where
  "fix_edits_to_text_edits sources f = Json_Array (map (edit_to_json sources) (fx_edits f))"

definition build_code_action :: "source_manager \<Rightarrow> string \<Rightarrow> diagnostic \<Rightarrow> fix_t \<Rightarrow> json" where
  "build_code_action sources document_uri d f =
     Json_Object
       [(''diagnostics'', Json_Array [to_lsp_diagnostic sources d]),
        (''edit'', Json_Object [(''changes'', Json_Object [(document_uri, fix_edits_to_text_edits sources f)])]),
        (''isPreferred'', Json_Bool (fx_machine_applicable f)),
        (''kind'', Json_String ''quickfix''),
        (''title'', Json_String (fx_description f))]"

definition diagnostic_range :: "source_manager \<Rightarrow> diagnostic \<Rightarrow> position \<times> position" where
  "diagnostic_range sources d =
     (let sp = dg_primary_span d
      in (to_position sources (sp_source sp) (bs_lo (sp_bytes sp)), to_position sources (sp_source sp) (bs_hi (sp_bytes sp))))"

definition code_actions_for_range ::
  "diagnostic list \<Rightarrow> source_manager \<Rightarrow> string \<Rightarrow> position \<Rightarrow> position \<Rightarrow> json" where
  "code_actions_for_range diagnostics sources document_uri request_lo request_hi =
     Json_Array (concat (map (\<lambda>d.
       if dg_fixes d = [] then []
       else case diagnostic_range sources d of (lo, hi) \<Rightarrow>
         if \<not> ranges_overlap lo hi request_lo request_hi then []
         else map (build_code_action sources document_uri d) (dg_fixes d)) diagnostics))"

section \<open>Hovers\<close>

definition k_docs_url_prefix :: string where
  "k_docs_url_prefix = ''https://github.com/NelCit/shader-clippy/blob/main/docs/rules/''"

definition docs_url_for_rule :: "string \<Rightarrow> string" where
  "docs_url_for_rule rule_id = k_docs_url_prefix @ rule_id @ ''.md''"

fun smallest_cover :: "source_manager \<Rightarrow> position \<Rightarrow> diagnostic list \<Rightarrow> (diagnostic \<times> u32) option \<Rightarrow>
    (diagnostic \<times> u32) option" where
  "smallest_cover sources cursor [] best = best"
| "smallest_cover sources cursor (d # ds) best =
     (case diagnostic_range sources d of (lo, hi) \<Rightarrow>
        if \<not> ranges_overlap lo hi cursor cursor then smallest_cover sources cursor ds best
        else let len = byte_span_size (sp_bytes (dg_primary_span d)) in
             smallest_cover sources cursor ds
               (case best of
                  None \<Rightarrow> Some (d, len)
                | Some (b, best_len) \<Rightarrow> if len < best_len then Some (d, len) else Some (b, best_len)))"

definition hover_markdown :: "diagnostic \<Rightarrow> string" where
  "hover_markdown d =
     ''**'' @ dg_code d @ ''** ([docs]('' @ docs_url_for_rule (dg_code d) @ ''))'' @ [newline, newline] @ dg_message d"

definition hover_for_position :: "diagnostic list \<Rightarrow> source_manager \<Rightarrow> position \<Rightarrow> json" where
  "hover_for_position diagnostics sources cursor =
     (case smallest_cover sources cursor diagnostics None of
        None \<Rightarrow> Json_Null
      | Some (d, len) \<Rightarrow>
          Json_Object [(''contents'', Json_Object
            [(''kind'', Json_String ''markdown''), (''value'', Json_String (hover_markdown d))])])"

section \<open>Positions sent by the client\<close>

text \<open>\<open>parse_content_changes\<close> of \<^verbatim>\<open>handlers.cpp\<close>, one change: the range counts when both of
  its ends have two integers, and then every integer is cast to 32 bits.\<close>

definition change_range :: "json \<Rightarrow> (u32 \<times> u32 \<times> u32 \<times> u32) option" where
  "change_range change =
     (case get_object (json_find change ''range'') of
        None \<Rightarrow> None
      | Some rng \<Rightarrow>
          (case (get_object (json_find rng ''start''), get_object (json_find rng ''end'')) of
             (Some start, Some stop) \<Rightarrow>
               (case (get_integer (json_find start ''line''), get_integer (json_find start ''character''),
                      get_integer (json_find stop ''line''), get_integer (json_find stop ''character'')) of
                  (Some sl, Some sc, Some el, Some ec) \<Rightarrow>
                    Some (word_of_int sl, word_of_int sc, word_of_int el, word_of_int ec)
                | _ \<Rightarrow> None)
           | _ \<Rightarrow> None))"

definition parse_content_change :: "json \<Rightarrow> content_change" where
  "parse_content_change change =
     (let txt = (case get_string (json_find change ''text'') of Some s \<Rightarrow> s | None \<Rightarrow> [])
      in case change_range change of
           Some (sl, sc, el, ec) \<Rightarrow>
             \<lparr>ch_has_range = True, ch_start_line = sl, ch_start_character = sc, ch_end_line = el, ch_end_character = ec,
              ch_text = txt\<rparr>
         | None \<Rightarrow>
             \<lparr>ch_has_range = False, ch_start_line = 0, ch_start_character = 0, ch_end_line = 0, ch_end_character = 0,
              ch_text = txt\<rparr>)"

definition parse_content_changes :: "json \<Rightarrow> content_change list" where
  "parse_content_changes params =
     (case get_array (json_find params ''contentChanges'') of
        None \<Rightarrow> []
      | Some changes \<Rightarrow> map parse_content_change changes)"

section \<open>Properties\<close>

text \<open>The overlap test behind quick fixes and hovers: two well-ordered ranges overlap when some
  position lies in both, ends excluded; when one of them is a bare cursor the ends count.\<close>

theorem ranges_overlap_shares_position:
  assumes "a_lo \<le> a_hi" and "b_lo \<le> b_hi"
  shows "ranges_overlap a_lo a_hi b_lo b_hi \<longleftrightarrow>
    (\<exists>p. a_lo \<le> p \<and> b_lo \<le> p \<and>
       (if a_lo < a_hi \<and> b_lo < b_hi then p < a_hi \<and> p < b_hi else p \<le> a_hi \<and> p \<le> b_hi))"
    (is "_ \<longleftrightarrow> (\<exists>p. ?in p)")
proof -
  let ?m = "max a_lo b_lo"
  have eq: "a_lo = b_lo \<longleftrightarrow> po_line a_lo = po_line b_lo \<and> po_character a_lo = po_character b_lo"
    by (auto simp: position.expand)
  have "(\<exists>p. ?in p) \<longleftrightarrow> ?in ?m"
  proof
    assume "\<exists>p. ?in p"
    then obtain p where p: "?in p" by blast
    then have "?m \<le> p" by simp
    with p show "?in ?m" by (cases "a_lo < a_hi \<and> b_lo < b_hi") (auto dest: le_less_trans order_trans)
  qed blast
  also have "\<dots> \<longleftrightarrow> ranges_overlap a_lo a_hi b_lo b_hi"
    using assms unfolding ranges_overlap_def Let_def eq [symmetric]
    by (cases "a_lo < a_hi"; cases "b_lo < b_hi") auto
  finally show ?thesis by simp
qed

theorem ranges_overlap_shares_position_witness:
  "ranges_overlap (Position 0 2) (Position 1 3) (Position 1 3) (Position 1 3)"
proof -
  have "Position 0 2 \<le> Position 1 3" "Position 1 3 \<le> Position 1 3" by (simp_all add: position_order_defs)
  from ranges_overlap_shares_position [OF this]
  show ?thesis by (auto simp: position_order_defs intro!: exI [of _ "Position 1 3"])
qed

text \<open>The message of an edit as the client applies it.\<close>

definition change_of_edit :: "source_manager \<Rightarrow> text_edit \<Rightarrow> json" where
  "change_of_edit sources e =
     Json_Object [(''range'', the (json_find (edit_to_json sources e) ''range'')),
                  (''text'', the (json_find (edit_to_json sources e) ''newText''))]"

lemma change_of_edit_parsed:
  "parse_content_change (change_of_edit sources e) =
     (let lc = sm_resolve sources (sp_source (te_span e)); b = sp_bytes (te_span e) in
      \<lparr>ch_has_range = True,
       ch_start_line = (if lc_line (lc (bs_lo b)) > 0 then lc_line (lc (bs_lo b)) - 1 else 0),
       ch_start_character = (if lc_column (lc (bs_lo b)) > 0 then lc_column (lc (bs_lo b)) - 1 else 0),
       ch_end_line = (if lc_line (lc (bs_hi b)) > 0 then lc_line (lc (bs_hi b)) - 1 else 0),
       ch_end_character = (if lc_column (lc (bs_hi b)) > 0 then lc_column (lc (bs_hi b)) - 1 else 0),
       ch_text = te_replacement e\<rparr>)"
  by (simp add: change_of_edit_def parse_content_change_def change_range_def edit_to_json_def make_range_def
      position_to_json_def to_position_def Let_def)

lemma resolved_offset:
  fixes off :: u32 and i :: source_id and p :: string
  assumes "fits32 c" and "unat off \<le> length c"
  defines "lc \<equiv> line_col (new_source_file i p c) off"
  shows "position_to_offset c (lc_line lc - 1) (lc_column lc - 1) = Some (unat off)"
    and "0 < lc_line lc" and "0 < lc_column lc"
proof -
  have m: "min (unat off) (length c) = unat off" using assms(2) by simp
  have eq: "lc = \<lparr>lc_line = u32_of (count_list (take (unat off) c) newline) + 1,
      lc_column = u32_of (unat off - line_begin c (unat off)) + 1\<rparr>"
    unfolding lc_def using line_col_eq [OF assms(1), of i p off] by (simp only: m)
  show "position_to_offset c (lc_line lc - 1) (lc_column lc - 1) = Some (unat off)"
    using position_of_offset [OF assms(1,2)] by (simp add: eq)
  show "0 < lc_line lc" "0 < lc_column lc"
    using line_col_unat [OF assms(1), of i p off] by (auto simp: lc_def word_greater_zero_iff intro: ccontr)
qed

text \<open>C14: Quick fixes land where the rule put them: each edit of a fix, written as a range of positions
  for the client and applied the way the server itself applies ranged changes (parsed from the message,
  resolved line by line), replaces exactly the bytes of the edit's span.\<close>

theorem quick_fix_edits_bytes:
  assumes "fits32 c" and "sp_source (te_span e) = fst (add_buffer [] p c)"
    and "bs_lo (sp_bytes (te_span e)) \<le> bs_hi (sp_bytes (te_span e))"
    and "unat (bs_hi (sp_bytes (te_span e))) \<le> length c"
  shows "apply_one c (parse_content_change (change_of_edit (snd (add_buffer [] p c)) e)) =
    Some (take (unat (bs_lo (sp_bytes (te_span e)))) c @ te_replacement e @ drop (unat (bs_hi (sp_bytes (te_span e)))) c)"
proof -
  let ?lo = "bs_lo (sp_bytes (te_span e))" and ?hi = "bs_hi (sp_bytes (te_span e))"
  have le: "unat ?lo \<le> unat ?hi" using assms(3) by (simp add: word_le_nat_alt)
  have lc: "sm_resolve (snd (add_buffer [] p c)) (sp_source (te_span e)) off = line_col (new_source_file \<lparr>sid_value = 1\<rparr> p c) off"
    for off
    using assms(2) by (simp add: add_buffer_def Let_def sm_resolve_def sm_get_def source_id_valid_def)
  note res = resolved_offset [OF assms(1), where i = "\<lparr>sid_value = 1\<rparr>" and p = p]
  have "unat ?lo \<le> length c" using le assms(4) by simp
  then show ?thesis
    using res [of ?lo] res [of ?hi] assms(4) le
    by (simp add: change_of_edit_parsed Let_def lc apply_one_def replace_at_def)
qed

theorem quick_fix_edits_bytes_witness:
  "apply_one (''ab'' @ [newline] @ ''cd'') (parse_content_change (change_of_edit
      (snd (add_buffer [] ''f'' (''ab'' @ [newline] @ ''cd'')))
      \<lparr>te_span = \<lparr>sp_source = \<lparr>sid_value = 1\<rparr>, sp_bytes = \<lparr>bs_lo = 1, bs_hi = 4\<rparr>\<rparr>, te_replacement = ''x''\<rparr>)) =
   Some ''axd''"
proof -
  let ?c = "''ab'' @ [newline] @ ''cd''"
  let ?e = "\<lparr>te_span = \<lparr>sp_source = \<lparr>sid_value = 1\<rparr>, sp_bytes = \<lparr>bs_lo = 1, bs_hi = 4\<rparr>\<rparr>, te_replacement = ''x''\<rparr>"
  have "fits32 ?c" "sp_source (te_span ?e) = fst (add_buffer [] ''f'' ?c)"
    "bs_lo (sp_bytes (te_span ?e)) \<le> bs_hi (sp_bytes (te_span ?e))" "unat (bs_hi (sp_bytes (te_span ?e))) \<le> length ?c"
    by (simp_all add: add_buffer_def Let_def)
  from quick_fix_edits_bytes [OF this] show ?thesis by simp
qed

text \<open>A change the server cannot read empties the buffer: a content change without a text string and
  without a complete integer range is taken for a full replacement by the empty text.\<close>

theorem malformed_change_empties_document:
  assumes "get_string (json_find change ''text'') = None" and "change_range change = None"
  shows "apply_one contents (parse_content_change change) = Some []"
  using assms by (simp add: parse_content_change_def apply_one_def)

theorem malformed_change_empties_document_witness:
  "apply_one ''float4 main() {}'' (parse_content_change (Json_Object [(''range'', Json_Null)])) = Some []"
  by (rule malformed_change_empties_document) (simp_all add: change_range_def)

section \<open>The hovered diagnostic\<close>

definition hovered :: "source_manager \<Rightarrow> position \<Rightarrow> diagnostic \<Rightarrow> bool" where
  "hovered sources cursor d \<longleftrightarrow>
     ranges_overlap (fst (diagnostic_range sources d)) (snd (diagnostic_range sources d)) cursor cursor"

abbreviation diagnostic_size :: "diagnostic \<Rightarrow> u32" where
  "diagnostic_size d \<equiv> byte_span_size (sp_bytes (dg_primary_span d))"

definition innermost :: "source_manager \<Rightarrow> position \<Rightarrow> diagnostic list \<Rightarrow> (diagnostic \<times> u32) option \<Rightarrow> bool" where
  "innermost sources cursor ds best =
     (case best of
        None \<Rightarrow> \<forall>d \<in> set ds. \<not> hovered sources cursor d
      | Some (d, len) \<Rightarrow> len = diagnostic_size d \<and> hovered sources cursor d \<and>
          (\<exists>before after. ds = before @ d # after \<and>
             (\<forall>d' \<in> set before. hovered sources cursor d' \<longrightarrow> diagnostic_size d < diagnostic_size d') \<and>
             (\<forall>d' \<in> set after. hovered sources cursor d' \<longrightarrow> diagnostic_size d \<le> diagnostic_size d')))"

lemma innermost_skip: "innermost sources cursor ds best \<Longrightarrow> \<not> hovered sources cursor d \<Longrightarrow>
    innermost sources cursor (ds @ [d]) best"
  by (fastforce simp: innermost_def split: option.splits)

lemma innermost_take:
  assumes "innermost sources cursor ds best" and "hovered sources cursor d"
    and "\<And>b len. best = Some (b, len) \<Longrightarrow> diagnostic_size d < len"
  shows "innermost sources cursor (ds @ [d]) (Some (d, diagnostic_size d))"
proof -
  have "\<forall>d' \<in> set ds. hovered sources cursor d' \<longrightarrow> diagnostic_size d < diagnostic_size d'"
  proof (cases best)
    case (Some p)
    obtain b len where p: "p = (b, len)" by (cases p)
    with Some assms(1) obtain before after where "ds = before @ b # after" "len = diagnostic_size b"
      "\<forall>d' \<in> set before. hovered sources cursor d' \<longrightarrow> diagnostic_size b < diagnostic_size d'"
      "\<forall>d' \<in> set after. hovered sources cursor d' \<longrightarrow> diagnostic_size b \<le> diagnostic_size d'"
      by (auto simp: innermost_def)
    with assms(3) [of b len] Some p show ?thesis by fastforce
  qed (use assms(1) in \<open>simp add: innermost_def\<close>)
  with assms(2) show ?thesis by (simp add: innermost_def) (intro exI [of _ ds] exI [of _ "[]"], simp)
qed

lemma innermost_keep:
  assumes "innermost sources cursor ds (Some (b, len))" and "\<not> diagnostic_size d < len"
  shows "innermost sources cursor (ds @ [d]) (Some (b, len))"
  using assms by (fastforce simp: innermost_def)

lemma smallest_cover_best:
  "innermost sources cursor seen best \<Longrightarrow>
   innermost sources cursor (seen @ ds) (smallest_cover sources cursor ds best)"
proof (induction ds arbitrary: seen best)
  case (Cons d ds)
  have step: "innermost sources cursor (seen @ [d])
      (if \<not> hovered sources cursor d then best
       else case best of None \<Rightarrow> Some (d, diagnostic_size d)
         | Some (b, len) \<Rightarrow> if diagnostic_size d < len then Some (d, diagnostic_size d) else Some (b, len))"
    using Cons.prems innermost_skip [OF Cons.prems] innermost_take [OF Cons.prems] innermost_keep
    by (auto split: option.split)
  from Cons.IH [OF this] show ?case
    by (cases "diagnostic_range sources d") (auto simp: hovered_def Let_def split: if_splits option.splits)
qed simp

text \<open>The hover text is that of the innermost diagnostic: null when no diagnostic covers the cursor,
  else the document link and message of the covering diagnostic with the smallest span, the first one of these in the
  order of the lint.\<close>

theorem hover_shows_innermost:
  "\<exists>best. innermost sources cursor ds best \<and> hover_for_position ds sources cursor =
     (case best of
        None \<Rightarrow> Json_Null
      | Some (d, len) \<Rightarrow> Json_Object [(''contents'', Json_Object
          [(''kind'', Json_String ''markdown''), (''value'', Json_String (hover_markdown d))])])"
proof (intro exI conjI)
  show "innermost sources cursor ds (smallest_cover sources cursor ds None)"
    using smallest_cover_best [of sources cursor "[]" None ds] by (simp add: innermost_def)
qed (simp add: hover_for_position_def)

end
