(* ===== verification/Server.thy ===== *)
theory Server
  imports Actions Lint
begin

text \<open>
  The language server: the handlers of \<^verbatim>\<open>lsp/src/server/handlers.cpp\<close>, the configuration lookup of
  \<^verbatim>\<open>lsp/src/config_resolver.cpp\<close> and the loop of \<^verbatim>\<open>lsp/src/main.cpp\<close>. A handler is a
  function of the server's state and of what it reads of the world (the clock, the files, the JSON library, the
  engines and the rules). The printer of the JSON library may fail on a value; then a notification is not sent, and a reply
  ends the session. The lemmas follow whole sessions: every read makes progress, so the loop ends; frames are
  served in order; the exit code is that of the life cycle; the server's text is the client's; and what a save and a change
  publish.
\<close>

section \<open>The world and the state\<close>

record ('s, 'r, 'c, 'i) world =
  wd_engines :: "('r, 'c, 'i) engines"
  wd_default_rules :: "('s, 'r, 'c, 'i) rule list"
  wd_current_path :: path
  wd_files :: file_system
  wd_open_stream :: "path \<Rightarrow> string option"
  wd_toml_parse :: "string \<Rightarrow> toml_parse_error + toml_table"
  wd_version :: string
  wd_json_parse :: "string \<Rightarrow> parse_outcome"
  wd_json_dump :: "json \<Rightarrow> string option"
  wd_change_time :: time_point
  wd_check_time :: time_point
  wd_lint_time :: time_point

text \<open>The clock is read up to three times by one handler: when a document is stored, when the debounce is
  decided and after the lint. The printer of the JSON library may throw. The messages written are kept in order;
  \<open>sv_crashed\<close> stands for an exception that has left the loop.\<close>

record server =
  sv_docs :: documents
  sv_out :: "string list"
  sv_target_profile :: string
  sv_init_include_directories :: "path list"
  sv_workspace_folders :: "path list"
  sv_enable_reflection :: bool
  sv_enable_control_flow :: bool
  sv_initialized :: bool
  sv_shutdown_requested :: bool
  sv_should_exit :: bool
  sv_crashed :: bool

definition fresh_server :: server where
  "fresh_server =
     \<lparr>sv_docs = Map.empty, sv_out = [], sv_target_profile = [], sv_init_include_directories = [],
      sv_workspace_folders = [], sv_enable_reflection = True, sv_enable_control_flow = True, sv_initialized = False,
      sv_shutdown_requested = False, sv_should_exit = False, sv_crashed = False\<rparr>"

definition exit_code :: "server \<Rightarrow> int" where
  "exit_code sv = (if sv_shutdown_requested sv then 0 else 1)"

text \<open>The steady clock counts nanoseconds; the debounce is 150 milliseconds.\<close>

definition k_debounce :: int where
  "k_debounce = 150 * 10 ^ 6"

section \<open>Reading parameters\<close>

definition extract_text_document_uri :: "json \<Rightarrow> string" where
  "extract_text_document_uri params =
     (case get_object (json_find params ''textDocument'') of
        None \<Rightarrow> []
      | Some td \<Rightarrow> (case get_string (json_find td ''uri'') of None \<Rightarrow> [] | Some uri \<Rightarrow> uri))"

definition extract_text_document_version :: "json \<Rightarrow> int" where
  "extract_text_document_version params =
     (case get_object (json_find params ''textDocument'') of
        None \<Rightarrow> 0
      | Some td \<Rightarrow> (case get_integer (json_find td ''version'') of None \<Rightarrow> 0 | Some v \<Rightarrow> to_i32 v))"

definition extract_position :: "json \<Rightarrow> position" where
  "extract_position obj =
     Position (case get_integer (json_find obj ''line'') of Some l \<Rightarrow> to_i32 l | None \<Rightarrow> 0)
              (case get_integer (json_find obj ''character'') of Some c \<Rightarrow> to_i32 c | None \<Rightarrow> 0)"

text \<open>The elements of a path: the root, the names, and an empty one after a final separator.\<close>

definition path_elements :: "path \<Rightarrow> string list" where
  "path_elements p =
     (let names = split_names p [] in
      (if path_is_absolute p then [[slash]] else []) @ names @ (if names \<noteq> [] \<and> last p = slash then [[]] else []))"

fun common_prefix :: "string list \<Rightarrow> string list \<Rightarrow> string list \<times> string list" where
  "common_prefix (x # xs) (y # ys) = (if x = y then common_prefix xs ys else (x # xs, y # ys))"
| "common_prefix xs ys = (xs, ys)"

text \<open>\<open>lexically_relative\<close>: the elements of the result, none for the empty path.\<close>

definition lexically_relative :: "path \<Rightarrow> path \<Rightarrow> string list" where
  "lexically_relative p base =
     (if path_is_absolute p \<noteq> path_is_absolute base then []
      else let (a, b) = common_prefix (path_elements p) (path_elements base) in
           if a = [] \<and> b = [] then [''.'']
           else let ups = length (filter (\<lambda>n. n \<noteq> [] \<and> n \<noteq> ''.'' \<and> n \<noteq> ''..'') b);
                    downs = length (filter (\<lambda>n. n = ''..'') b) in
                if ups < downs then []
                else if ups = downs \<and> (a = [] \<or> hd a = []) then [''.'']
                else replicate (ups - downs) ''..'' @ a)"

definition path_is_inside :: "path \<Rightarrow> path \<Rightarrow> bool" where
  "path_is_inside child parent =
     (let c = lexically_normal child; p = lexically_normal parent in
      if c = p then True
      else let rel = lexically_relative c p in if rel = [] then False else hd rel \<noteq> ''..'')"

definition append_workspace_roots_for_document :: "path list \<Rightarrow> path list \<Rightarrow> path \<Rightarrow> path list" where
  "append_workspace_roots_for_document paths workspaces document_path =
     (let inside = filter (path_is_inside document_path) workspaces in
      fold append_unique_path (if inside \<noteq> [] then inside else workspaces) paths)"

text \<open>The strings of an array, the other items skipped.\<close>

definition json_strings :: "json list \<Rightarrow> string list" where
  "json_strings items = concat (map (\<lambda>j. case get_string (Some j) of Some s \<Rightarrow> [s] | None \<Rightarrow> []) items)"

definition parse_path_array :: "json \<Rightarrow> string \<Rightarrow> path list" where
  "parse_path_array obj key =
     (case get_array (json_find obj key) of
        None \<Rightarrow> []
      | Some items \<Rightarrow> fold append_unique_path (json_strings items) [])"

definition append_uri_path :: "json option \<Rightarrow> path list \<Rightarrow> path list" where
  "append_uri_path uri out =
     (case get_string uri of
        None \<Rightarrow> out
      | Some u \<Rightarrow> (case uri_to_path u of None \<Rightarrow> out | Some p \<Rightarrow> append_unique_path p out))"

definition parse_workspace_folders :: "json \<Rightarrow> path list" where
  "parse_workspace_folders params =
     (let out = (case get_array (json_find params ''workspaceFolders'') of
                   None \<Rightarrow> []
                 | Some folders \<Rightarrow> fold (\<lambda>folder. append_uri_path (json_find folder ''uri'')) folders [])
      in if out \<noteq> [] then out else append_uri_path (json_find params ''rootUri'') [])"

definition initialization_options :: "json \<Rightarrow> json option" where
  "initialization_options params = get_object (json_find params ''initializationOptions'')"

section \<open>Capabilities\<close>

definition build_server_capabilities :: json where
  "build_server_capabilities =
     Json_Object
       [(''codeActionProvider'', Json_Bool True), (''completionProvider'', Json_Null), (''definitionProvider'', Json_Bool False),
        (''documentFormattingProvider'', Json_Bool False), (''documentRangeFormattingProvider'', Json_Bool False),
        (''hoverProvider'', Json_Bool True), (''referencesProvider'', Json_Bool False), (''signatureHelpProvider'', Json_Null),
        (''textDocumentSync'', Json_Object [(''change'', Json_Int 2), (''openClose'', Json_Bool True),
           (''save'', Json_Object [(''includeText'', Json_Bool False)])]),
        (''workspace'', Json_Object [(''workspaceFolders'',
           Json_Object [(''changeNotifications'', Json_Bool True), (''supported'', Json_Bool True)])])]"

section \<open>Linting a document\<close>

text \<open>\<open>std::filesystem::absolute\<close>, as the names of the result.\<close>

definition absolute_names :: "path \<Rightarrow> path \<Rightarrow> string list" where
  "absolute_names cwd p = split_names (if path_is_absolute p then p else path_append cwd p) []"

definition resolve_config_for :: "('s, 'r, 'c, 'i) world \<Rightarrow> path \<Rightarrow> config option" where
  "resolve_config_for w document_path =
     (case find_config (wd_files w) (absolute_names (wd_current_path w) document_path) of
        None \<Rightarrow> None
      | Some names \<Rightarrow>
          (case load_config (wd_toml_parse w) (wd_open_stream w) (slash # join_names names) of
             Inl e \<Rightarrow> None
           | Inr cfg \<Rightarrow> Some cfg))"

definition document_options :: "server \<Rightarrow> path \<Rightarrow> lint_options" where
  "document_options sv doc_path =
     (let dirs = append_unique_path (path_parent doc_path) [];
          dirs = append_workspace_roots_for_document dirs (sv_workspace_folders sv) doc_path;
          dirs = fold append_unique_path (sv_init_include_directories sv) dirs
      in default_options\<lparr>lo_enable_reflection := sv_enable_reflection sv,
           lo_enable_control_flow := sv_enable_control_flow sv,
           lo_target_profile := (if sv_target_profile sv \<noteq> [] then Some (sv_target_profile sv) else None),
           lo_include_directories := dirs\<rparr>)"

text \<open>The diagnostics of a document's text, in a source manager of its own.\<close>

definition document_sources :: "open_document \<Rightarrow> source_id \<times> source_manager" where
  "document_sources doc = add_buffer [] (od_path doc) (od_contents doc)"

definition lint_document :: "('s, 'r, 'c, 'i) world \<Rightarrow> server \<Rightarrow> open_document \<Rightarrow> diagnostic list" where
  "lint_document w sv doc =
     (let (src_id, sources) = document_sources doc;
          options = document_options sv (od_path doc)
      in snd (case resolve_config_for w (od_path doc) of
                Some cfg \<Rightarrow>
                  lint (wd_engines w) sources src_id (wd_default_rules w) cfg (od_path doc)
                    (options\<lparr>lo_include_directories :=
                       fold append_unique_path (cfg_shader_include_directories cfg) (lo_include_directories options)\<rparr>)
              | None \<Rightarrow> lint_plain (wd_engines w) sources src_id (wd_default_rules w) options))"

text \<open>The sink prints the envelope and writes it. It is only called as the last thing of a notification
  handler, and what it throws is swallowed by \<open>handle_notification\<close>: then nothing is sent.\<close>

definition send_notification :: "('s, 'r, 'c, 'i) world \<Rightarrow> string \<Rightarrow> json \<Rightarrow> server \<Rightarrow> server" where
  "send_notification w m params sv =
     (case wd_json_dump w (Json_Object
         [(''jsonrpc'', Json_String ''2.0''), (''method'', Json_String m), (''params'', params)]) of
        None \<Rightarrow> sv
      | Some message \<Rightarrow> sv\<lparr>sv_out := sv_out sv @ [message]\<rparr>)"

definition publish_params :: "string \<Rightarrow> int \<Rightarrow> json \<Rightarrow> json" where
  "publish_params uri version diagnostics =
     Json_Object [(''diagnostics'', diagnostics), (''uri'', Json_String uri), (''version'', Json_Int version)]"

definition lint_and_publish :: "('s, 'r, 'c, 'i) world \<Rightarrow> string \<Rightarrow> server \<Rightarrow> server" where
  "lint_and_publish w uri sv =
     (case dm_find (sv_docs sv) uri of
        None \<Rightarrow> sv
      | Some doc \<Rightarrow>
          let (src_id, sources) = document_sources doc in
          if \<not> source_id_valid src_id then sv
          else let diagnostics = lint_document w sv doc;
                   docs = (sv_docs sv)(uri \<mapsto> doc\<lparr>od_latest_diagnostics := diagnostics\<rparr>);
                   docs = mark_linted docs uri (wd_lint_time w)
               in send_notification w ''textDocument/publishDiagnostics''
                    (publish_params uri (od_version doc) (to_lsp_diagnostics sources diagnostics))
                    (sv\<lparr>sv_docs := docs\<rparr>))"

section \<open>Requests\<close>

definition on_initialize :: "('s, 'r, 'c, 'i) world \<Rightarrow> json \<Rightarrow> server \<Rightarrow> handler_result \<times> server" where
  "on_initialize w params sv =
     (let sv = sv\<lparr>sv_workspace_folders := parse_workspace_folders params\<rparr>;
          sv = (case initialization_options params of
                  None \<Rightarrow> sv
                | Some opts \<Rightarrow>
                    sv\<lparr>sv_target_profile :=
                         (case get_string (json_find opts ''targetProfile'') of Some p \<Rightarrow> p | None \<Rightarrow> sv_target_profile sv),
                       sv_enable_reflection :=
                         (case get_bool (json_find opts ''enableReflection'') of Some b \<Rightarrow> b | None \<Rightarrow> sv_enable_reflection sv),
                       sv_enable_control_flow :=
                         (case get_bool (json_find opts ''enableControlFlow'') of Some b \<Rightarrow> b | None \<Rightarrow> sv_enable_control_flow sv),
                       sv_init_include_directories := parse_path_array opts ''includeDirectories''\<rparr>)
      in (Returned (Inr (Json_Object
            [(''capabilities'', build_server_capabilities),
             (''serverInfo'', Json_Object [(''name'', Json_String ''shader-clippy-lsp''), (''version'', Json_String (wd_version w))])])), sv))"

definition on_shutdown :: "json \<Rightarrow> server \<Rightarrow> handler_result \<times> server" where
  "on_shutdown params sv = (Returned (Inr Json_Null), sv\<lparr>sv_shutdown_requested := True\<rparr>)"

definition on_unimplemented_request :: "json \<Rightarrow> server \<Rightarrow> handler_result \<times> server" where
  "on_unimplemented_request params sv = (Returned (Inr Json_Null), sv)"

text \<open>\<open>view_for\<close>: the latest text of the document with the diagnostics of its last lint.\<close>

definition view_for :: "documents \<Rightarrow> string \<Rightarrow> (source_manager \<times> diagnostic list) option" where
  "view_for docs uri =
     (case dm_find docs uri of
        None \<Rightarrow> None
      | Some doc \<Rightarrow>
          let (src_id, sources) = document_sources doc in
          if \<not> source_id_valid src_id then None else Some (sources, od_latest_diagnostics doc))"

definition code_action_reply :: "json \<Rightarrow> server \<Rightarrow> json" where
  "code_action_reply params sv =
     (let uri = extract_text_document_uri params in
      if uri = [] then Json_Array []
      else case get_object (json_find params ''range'') of
             None \<Rightarrow> Json_Array []
           | Some rng \<Rightarrow>
               (case (json_find rng ''start'', json_find rng ''end'') of
                  (Some start, Some stop) \<Rightarrow>
                    (case view_for (sv_docs sv) uri of
                       None \<Rightarrow> Json_Array []
                     | Some (sources, diagnostics) \<Rightarrow>
                         code_actions_for_range diagnostics sources uri (extract_position start) (extract_position stop))
                | _ \<Rightarrow> Json_Array []))"

definition on_code_action :: "json \<Rightarrow> server \<Rightarrow> handler_result \<times> server" where
  "on_code_action params sv = (Returned (Inr (code_action_reply params sv)), sv)"

definition hover_reply :: "json \<Rightarrow> server \<Rightarrow> json" where
  "hover_reply params sv =
     (let uri = extract_text_document_uri params in
      if uri = [] then Json_Null
      else case get_object (json_find params ''position'') of
             None \<Rightarrow> Json_Null
           | Some pos \<Rightarrow>
               (case view_for (sv_docs sv) uri of
                  None \<Rightarrow> Json_Null
                | Some (sources, diagnostics) \<Rightarrow> hover_for_position diagnostics sources (extract_position pos)))"

definition on_hover :: "json \<Rightarrow> server \<Rightarrow> handler_result \<times> server" where
  "on_hover params sv = (Returned (Inr (hover_reply params sv)), sv)"

section \<open>Notifications\<close>

definition on_initialized :: "json \<Rightarrow> server \<Rightarrow> server" where
  "on_initialized params sv = sv\<lparr>sv_initialized := True\<rparr>"

definition on_did_open :: "('s, 'r, 'c, 'i) world \<Rightarrow> json \<Rightarrow> server \<Rightarrow> server" where
  "on_did_open w params sv =
     (let uri = extract_text_document_uri params in
      if uri = [] then sv
      else case get_object (json_find params ''textDocument'') of
             None \<Rightarrow> sv
           | Some td \<Rightarrow>
               (case get_string (json_find td ''text'') of
                  None \<Rightarrow> sv
                | Some txt \<Rightarrow>
                    let p = (case uri_to_path uri of Some p \<Rightarrow> p | None \<Rightarrow> uri)
                    in lint_and_publish w uri (sv\<lparr>sv_docs :=
                         dm_open (sv_docs sv) uri p txt (extract_text_document_version params) (wd_change_time w)\<rparr>)))"

definition on_did_change :: "('s, 'r, 'c, 'i) world \<Rightarrow> json \<Rightarrow> server \<Rightarrow> server" where
  "on_did_change w params sv =
     (let uri = extract_text_document_uri params in
      if uri = [] then sv
      else let (ok, docs) = dm_apply_changes (sv_docs sv) uri (extract_text_document_version params)
                              (parse_content_changes params) (wd_change_time w);
               sv = sv\<lparr>sv_docs := docs\<rparr>
           in if \<not> ok then sv
              else if should_debounce_lint docs uri k_debounce (wd_check_time w) then sv
              else lint_and_publish w uri sv)"

definition on_did_save :: "('s, 'r, 'c, 'i) world \<Rightarrow> json \<Rightarrow> server \<Rightarrow> server" where
  "on_did_save w params sv =
     (let uri = extract_text_document_uri params in if uri = [] then sv else lint_and_publish w uri sv)"

definition on_did_close :: "('s, 'r, 'c, 'i) world \<Rightarrow> json \<Rightarrow> server \<Rightarrow> server" where
  "on_did_close w params sv =
     (let uri = extract_text_document_uri params in
      if uri = [] then sv
      else send_notification w ''textDocument/publishDiagnostics''
             (Json_Object [(''diagnostics'', Json_Array []), (''uri'', Json_String uri)])
             (sv\<lparr>sv_docs := dm_close (sv_docs sv) uri\<rparr>))"

definition on_did_change_configuration :: "json \<Rightarrow> server \<Rightarrow> server" where
  "on_did_change_configuration params sv = sv"

definition on_did_change_watched_files :: "json \<Rightarrow> server \<Rightarrow> server" where
  "on_did_change_watched_files params sv = sv"

definition on_exit :: "json \<Rightarrow> server \<Rightarrow> server" where
  "on_exit params sv = sv\<lparr>sv_should_exit := True\<rparr>"

section \<open>The loop\<close>

definition register_handlers :: "('s, 'r, 'c, 'i) world \<Rightarrow> server dispatcher" where
  "register_handlers w =
     fold (\<lambda>f. f)
       [on_request ''initialize'' (on_initialize w), on_request ''shutdown'' on_shutdown,
        on_request ''textDocument/codeAction'' on_code_action, on_request ''textDocument/hover'' on_hover,
        on_notification ''initialized'' on_initialized, on_notification ''textDocument/didOpen'' (on_did_open w),
        on_notification ''textDocument/didChange'' (on_did_change w), on_notification ''textDocument/didSave'' (on_did_save w),
        on_notification ''textDocument/didClose'' (on_did_close w),
        on_notification ''workspace/didChangeConfiguration'' on_did_change_configuration,
        on_notification ''workspace/didChangeWatchedFiles'' on_did_change_watched_files,
        on_notification ''exit'' on_exit] empty_dispatcher"

text \<open>One message body: dispatched, and the reply written unless it is empty; or an exception leaves the
  dispatcher and the loop.\<close>

definition serve_body :: "('s, 'r, 'c, 'i) world \<Rightarrow> string \<Rightarrow> server \<Rightarrow> server" where
  "serve_body w body sv =
     (let (reply, sv) = dispatch_wire (wd_json_parse w) (wd_json_dump w) (register_handlers w) body sv
      in case reply of
           None \<Rightarrow> sv\<lparr>sv_crashed := True\<rparr>
         | Some text \<Rightarrow> if text \<noteq> [] then sv\<lparr>sv_out := sv_out sv @ [text]\<rparr> else sv)"

text \<open>The loop of \<open>run_server\<close>; \<open>ws i\<close> is the world during its \<open>i\<close>-th turn.\<close>

lemma read_message_shorter:
  "read_message stream = (msg, rest) \<Longrightarrow> rr_status msg \<noteq> EndOfStream \<Longrightarrow> length rest < length stream"
proof (cases stream)
  case Nil
  assume "read_message stream = (msg, rest)" "rr_status msg \<noteq> EndOfStream"
  then show "length rest < length stream" using Nil by (auto simp: read_message_def)
next
  case (Cons c cs)
  assume "read_message stream = (msg, rest)"
  then show "length rest < length stream" using Cons read_message_progress [of stream] by simp
qed

function run_loop :: "(nat \<Rightarrow> ('s, 'r, 'c, 'i) world) \<Rightarrow> nat \<Rightarrow> string \<Rightarrow> server \<Rightarrow> server" where
  "run_loop ws i stream sv =
     (if sv_should_exit sv \<or> sv_crashed sv then sv
      else let (msg, rest) = read_message stream in
           if rr_status msg = EndOfStream then sv
           else if rr_status msg \<noteq> Ok then run_loop ws (i + 1) rest sv
           else run_loop ws (i + 1) rest (serve_body (ws i) (rr_body msg) sv))"
  by pat_completeness auto
termination
  by (relation "measure (\<lambda>(ws, i, stream, sv). length stream)") (auto dest!: read_message_shorter [OF sym])

declare run_loop.simps [simp del]

text \<open>The code of the process: an exception that left the loop is caught by \<open>main\<close>, which returns 1.\<close>

definition process_code :: "server \<Rightarrow> int" where
  "process_code sv = (if sv_crashed sv then 1 else exit_code sv)"

definition run_server :: "(nat \<Rightarrow> ('s, 'r, 'c, 'i) world) \<Rightarrow> string \<Rightarrow> int \<times> string" where
  "run_server ws stream =
     (let sv = run_loop ws 0 stream fresh_server in (process_code sv, concat (map frame_message (sv_out sv))))"

section \<open>Which handler runs\<close>

lemma dispatcher_lookup [simp]:
  "dp_request (on_request m h d) = (dp_request d)(m \<mapsto> h)" "dp_notification (on_request m h d) = dp_notification d"
  "dp_notification (on_notification m g d) = (dp_notification d)(m \<mapsto> g)" "dp_request (on_notification m g d) = dp_request d"
  "dp_request empty_dispatcher = Map.empty" "dp_notification empty_dispatcher = Map.empty"
  by (simp_all add: on_request_def on_notification_def empty_dispatcher_def)

lemma request_handlers:
  "dp_request (register_handlers w) =
     [''initialize'' \<mapsto> on_initialize w, ''shutdown'' \<mapsto> on_shutdown,
      ''textDocument/codeAction'' \<mapsto> on_code_action, ''textDocument/hover'' \<mapsto> on_hover]"
  by (simp add: register_handlers_def)

lemma notification_handlers:
  "dp_notification (register_handlers w) =
     [''initialized'' \<mapsto> on_initialized, ''textDocument/didOpen'' \<mapsto> on_did_open w,
      ''textDocument/didChange'' \<mapsto> on_did_change w, ''textDocument/didSave'' \<mapsto> on_did_save w,
      ''textDocument/didClose'' \<mapsto> on_did_close w,
      ''workspace/didChangeConfiguration'' \<mapsto> on_did_change_configuration,
      ''workspace/didChangeWatchedFiles'' \<mapsto> on_did_change_watched_files, ''exit'' \<mapsto> on_exit]"
  by (simp add: register_handlers_def)

text \<open>What a body asks for: the method of a request, or of a notification.\<close>

definition body_request :: "('s, 'r, 'c, 'i) world \<Rightarrow> string \<Rightarrow> string option" where
  "body_request w body =
     (case wd_json_parse w body of
        Parsed e \<Rightarrow> if is_object e \<and> parse_id e \<noteq> None then get_string (json_find e ''method'') else None
      | _ \<Rightarrow> None)"

definition body_notification :: "('s, 'r, 'c, 'i) world \<Rightarrow> string \<Rightarrow> string option" where
  "body_notification w body =
     (case wd_json_parse w body of
        Parsed e \<Rightarrow> if is_object e \<and> parse_id e = None then get_string (json_find e ''method'') else None
      | _ \<Rightarrow> None)"

definition body_params :: "('s, 'r, 'c, 'i) world \<Rightarrow> string \<Rightarrow> json" where
  "body_params w body =
     (case wd_json_parse w body of
        Parsed e \<Rightarrow> (case json_find e ''params'' of Some p \<Rightarrow> p | None \<Rightarrow> Json_Object [])
      | _ \<Rightarrow> Json_Null)"

text \<open>The state a body leaves, the replies to requests apart.\<close>

definition body_effect :: "('s, 'r, 'c, 'i) world \<Rightarrow> string \<Rightarrow> server \<Rightarrow> server" where
  "body_effect w body sv =
     (case body_request w body of
        Some m \<Rightarrow> (case dp_request (register_handlers w) m of None \<Rightarrow> sv | Some h \<Rightarrow> snd (h (body_params w body) sv))
      | None \<Rightarrow> (case body_notification w body of
           None \<Rightarrow> sv
         | Some m \<Rightarrow> (case dp_notification (register_handlers w) m of None \<Rightarrow> sv | Some h \<Rightarrow> h (body_params w body) sv)))"

lemma dispatch_effect:
  "snd (dispatch_wire (wd_json_parse w) (wd_json_dump w) (register_handlers w) body sv) = body_effect w body sv"
proof (cases "wd_json_parse w body")
  case (Parsed e)
  show ?thesis
  proof (cases "get_string (json_find e ''method'')")
    case None
    then show ?thesis using Parsed
      by (auto simp: body_effect_def body_request_def body_notification_def dispatch_wire_def dispatch_envelope_def
          split: option.split)
  next
    case (Some m)
    then show ?thesis using Parsed
      by (cases "is_object e"; cases "parse_id e")
        (auto simp: body_effect_def body_request_def body_notification_def body_params_def dispatch_wire_def
          dispatch_envelope_def handle_request_def handle_notification_def Let_def
          split: option.split prod.split handler_result.split sum.split)
  qed
qed (simp_all add: body_effect_def body_request_def body_notification_def dispatch_wire_def)

lemma serve_body_effect:
  obtains out crashed where "serve_body w body sv = (body_effect w body sv)\<lparr>sv_out := out, sv_crashed := crashed\<rparr>"
proof -
  obtain reply sv' where d: "dispatch_wire (wd_json_parse w) (wd_json_dump w) (register_handlers w) body sv = (reply, sv')"
    by fastforce
  then have sv': "sv' = body_effect w body sv" using dispatch_effect [of w body sv] by simp
  show thesis
  proof (cases reply)
    case None
    then show thesis by (intro that [of True "sv_out sv'"]) (simp add: serve_body_def d sv')
  next
    case (Some answer)
    then show thesis
      by (intro that [of "sv_crashed sv'" "if answer \<noteq> [] then sv_out sv' @ [answer] else sv_out sv'"])
        (simp add: serve_body_def d sv')
  qed
qed

section \<open>The life cycle\<close>

lemma lint_and_publish_flags [simp]:
  "sv_shutdown_requested (lint_and_publish w uri sv) = sv_shutdown_requested sv"
  "sv_should_exit (lint_and_publish w uri sv) = sv_should_exit sv"
  "sv_crashed (lint_and_publish w uri sv) = sv_crashed sv"
  by (simp_all add: lint_and_publish_def send_notification_def Let_def split: option.split prod.split)

lemmas handler_defs =
  on_initialize_def on_shutdown_def on_code_action_def on_hover_def on_initialized_def on_did_open_def
  on_did_change_def on_did_save_def on_did_close_def on_did_change_configuration_def
  on_did_change_watched_files_def on_exit_def

lemma body_effect_flags:
  "sv_shutdown_requested (body_effect w body sv) \<longleftrightarrow> sv_shutdown_requested sv \<or> body_request w body = Some ''shutdown''"
  "sv_should_exit (body_effect w body sv) \<longleftrightarrow> sv_should_exit sv \<or> body_notification w body = Some ''exit''"
proof -
  have excl: "body_request w body \<noteq> None \<Longrightarrow> body_notification w body = None"
    by (auto simp: body_request_def body_notification_def split: parse_outcome.splits if_splits)
  show "sv_shutdown_requested (body_effect w body sv) \<longleftrightarrow> sv_shutdown_requested sv \<or> body_request w body = Some ''shutdown''"
    by (auto simp: body_effect_def request_handlers notification_handlers handler_defs send_notification_def Let_def
        split: option.split prod.split)
  show "sv_should_exit (body_effect w body sv) \<longleftrightarrow> sv_should_exit sv \<or> body_notification w body = Some ''exit''"
    using excl
    by (auto simp: body_effect_def request_handlers notification_handlers handler_defs send_notification_def Let_def
        split: option.split prod.split)
qed

lemma serve_body_flags:
  "sv_shutdown_requested (serve_body w body sv) \<longleftrightarrow> sv_shutdown_requested sv \<or> body_request w body = Some ''shutdown''"
  "sv_should_exit (serve_body w body sv) \<longleftrightarrow> sv_should_exit sv \<or> body_notification w body = Some ''exit''"
  by (rule serve_body_effect [of w body sv]; simp add: body_effect_flags)+

lemma serve_exit:
  "body_notification w body = Some ''exit'' \<Longrightarrow> serve_body w body sv = sv\<lparr>sv_should_exit := True\<rparr>"
  by (auto simp: body_notification_def serve_body_def dispatch_wire_def dispatch_envelope_def handle_notification_def
      notification_handlers on_exit_def Let_def split: parse_outcome.splits if_splits)

section \<open>Sessions\<close>

text \<open>The bodies of a session served in order, until the server stops: at the \<open>exit\<close>, or when an
  exception leaves the loop.\<close>

fun serve_bodies :: "(nat \<Rightarrow> ('s, 'r, 'c, 'i) world) \<Rightarrow> nat \<Rightarrow> string list \<Rightarrow> server \<Rightarrow> server" where
  "serve_bodies ws i [] sv = sv"
| "serve_bodies ws i (body # bodies) sv =
     (if sv_should_exit sv \<or> sv_crashed sv then sv else serve_bodies ws (i + 1) bodies (serve_body (ws i) body sv))"

lemma read_message_empty: "read_message [] = (\<lparr>rr_status = EndOfStream, rr_body = []\<rparr>, [])"
  by (simp add: read_message_def)

lemma serve_bodies_stopped: "sv_should_exit sv \<or> sv_crashed sv \<Longrightarrow> serve_bodies ws i bodies sv = sv"
  by (cases bodies) simp_all

lemma serve_bodies_append:
  "serve_bodies ws i (xs @ ys) sv = serve_bodies ws (i + length xs) ys (serve_bodies ws i xs sv)"
  by (induction xs arbitrary: i sv) (simp_all add: serve_bodies_stopped)

lemma run_loop_stopped: "sv_should_exit sv \<or> sv_crashed sv \<Longrightarrow> run_loop ws i stream sv = sv"
  by (subst run_loop.simps) simp

lemma run_loop_append:
  "list_all (\<lambda>b. length b \<le> k_max_body_bytes) bodies \<Longrightarrow>
   run_loop ws i (concat (map frame_message bodies) @ rest) sv =
     run_loop ws (i + length bodies) rest (serve_bodies ws i bodies sv)"
proof (induction bodies arbitrary: i sv)
  case (Cons body bodies)
  have "read_message (frame_message body @ concat (map frame_message bodies) @ rest) =
      (\<lparr>rr_status = Ok, rr_body = body\<rparr>, concat (map frame_message bodies) @ rest)"
    using Cons.prems by (intro read_frame) simp
  then show ?case
    using Cons by (subst run_loop.simps) (simp add: run_loop_stopped)
qed simp

lemma run_loop_frames:
  "list_all (\<lambda>b. length b \<le> k_max_body_bytes) bodies \<Longrightarrow>
   run_loop ws i (concat (map frame_message bodies)) sv = serve_bodies ws i bodies sv"
  using run_loop_append [of bodies ws i "[]" sv] by (simp add: run_loop.simps [of _ _ "[]"] read_message_empty)

text \<open>Before the first \<open>exit\<close>, the server is stopped by an exception only.\<close>

lemma serve_bodies_flags:
  assumes "\<forall>k < length bodies. body_notification (ws (i + k)) (bodies ! k) \<noteq> Some ''exit''" and "\<not> sv_should_exit sv"
  shows "\<not> sv_should_exit (serve_bodies ws i bodies sv)"
    and "\<not> sv_crashed (serve_bodies ws i bodies sv) \<Longrightarrow> sv_shutdown_requested (serve_bodies ws i bodies sv) \<longleftrightarrow>
      sv_shutdown_requested sv \<or> (\<exists>k < length bodies. body_request (ws (i + k)) (bodies ! k) = Some ''shutdown'')"
proof -
  have less: "(\<exists>k < Suc n. P k) \<longleftrightarrow> P 0 \<or> (\<exists>k < n. P (Suc k))" "(\<forall>k < Suc n. P k) \<longleftrightarrow> P 0 \<and> (\<forall>k < n. P (Suc k))"
    for P and n :: nat
    by (auto simp: less_Suc_eq_0_disj)
  have "\<not> sv_should_exit (serve_bodies ws i bodies sv) \<and> (\<not> sv_crashed (serve_bodies ws i bodies sv) \<longrightarrow>
      (sv_shutdown_requested (serve_bodies ws i bodies sv) \<longleftrightarrow>
       sv_shutdown_requested sv \<or> (\<exists>k < length bodies. body_request (ws (i + k)) (bodies ! k) = Some ''shutdown'')))"
    using assms
  proof (induction bodies arbitrary: i sv)
    case (Cons body bodies)
    show ?case
    proof (cases "sv_crashed sv")
      case True
      then show ?thesis using Cons.prems by (simp add: serve_bodies_stopped)
    next
      case False
      then show ?thesis using Cons.prems Cons.IH [of "i + 1" "serve_body (ws i) body sv"]
        by (simp add: serve_body_flags less)
    qed
  qed simp
  then show "\<not> sv_should_exit (serve_bodies ws i bodies sv)"
    and "\<not> sv_crashed (serve_bodies ws i bodies sv) \<Longrightarrow> sv_shutdown_requested (serve_bodies ws i bodies sv) \<longleftrightarrow>
      sv_shutdown_requested sv \<or> (\<exists>k < length bodies. body_request (ws (i + k)) (bodies ! k) = Some ''shutdown'')"
    by blast+
qed

section \<open>Clients\<close>

text \<open>What a client does to the text it shows: it replaces the bytes from \<open>lo\<close> to \<open>hi\<close>.\<close>

datatype client_edit = Client_Edit nat nat string

fun client_apply :: "client_edit \<Rightarrow> string \<Rightarrow> string" where
  "client_apply (Client_Edit lo hi new) t = take lo t @ new @ drop hi t"

fun client_edit_ok :: "string \<Rightarrow> client_edit \<Rightarrow> bool" where
  "client_edit_ok t (Client_Edit lo hi new) \<longleftrightarrow> lo \<le> hi \<and> hi \<le> length t"

fun client_edits_ok :: "string \<Rightarrow> client_edit list \<Rightarrow> bool" where
  "client_edits_ok t [] = fits32 t"
| "client_edits_ok t (e # es) \<longleftrightarrow> fits32 t \<and> client_edit_ok t e \<and> client_edits_ok (client_apply e t) es"

text \<open>What it tells the server: the line and the column of both ends in the text before the edit, both from
  zero: the line breaks before the offset, and the bytes since the last of them.\<close>

definition client_position :: "string \<Rightarrow> nat \<Rightarrow> json" where
  "client_position t off =
     Json_Object [(''character'', Json_Int (int (off - line_begin t off))), (''line'', Json_Int (int (count_list (take off t) newline)))]"

fun client_change :: "string \<Rightarrow> client_edit \<Rightarrow> json" where
  "client_change t (Client_Edit lo hi new) =
     Json_Object [(''range'', Json_Object [(''end'', client_position t hi), (''start'', client_position t lo)]),
       (''text'', Json_String new)]"

fun client_changes :: "string \<Rightarrow> client_edit list \<Rightarrow> json list" where
  "client_changes t [] = []"
| "client_changes t (e # es) = client_change t e # client_changes (client_apply e t) es"

definition change_message :: "string \<Rightarrow> int \<Rightarrow> json list \<Rightarrow> json" where
  "change_message uri version changes =
     Json_Object [(''contentChanges'', Json_Array changes),
       (''textDocument'', Json_Object [(''uri'', Json_String uri), (''version'', Json_Int version)])]"

lemma client_change_applies:
  assumes "fits32 t" and "client_edit_ok t e"
  shows "apply_one t (parse_content_change (client_change t e)) = Some (client_apply e t)"
proof (cases e)
  case (Client_Edit lo hi new)
  have le: "lo \<le> hi" "hi \<le> length t" "lo \<le> length t" using assms(2) Client_Edit by simp_all
  have r: "change_range (client_change t e) =
      Some (u32_of (count_list (take lo t) newline), u32_of (lo - line_begin t lo),
            u32_of (count_list (take hi t) newline), u32_of (hi - line_begin t hi))"
    by (simp add: Client_Edit change_range_def client_position_def del: of_nat_diff)
  show ?thesis
    using position_of_offset [OF assms(1) le(3)] position_of_offset [OF assms(1) le(2)] le(1)
    by (simp add: parse_content_change_def r apply_one_def replace_at_def) (simp add: Client_Edit)
qed

lemma client_changes_apply:
  "client_edits_ok t es \<Longrightarrow> apply_loop t (map parse_content_change (client_changes t es)) = (fold client_apply es t, True)"
  by (induction es arbitrary: t) (simp_all add: client_change_applies)

lemma lint_and_publish_docs:
  "map_option od_contents (sv_docs (lint_and_publish w uri sv) u) = map_option od_contents (sv_docs sv u)"
  "map_option od_version (sv_docs (lint_and_publish w uri sv) u) = map_option od_version (sv_docs sv u)"
  "u \<noteq> uri \<Longrightarrow> sv_docs (lint_and_publish w uri sv) u = sv_docs sv u"
  by (auto simp: lint_and_publish_def send_notification_def mark_linted_def dm_find_def Let_def split: option.split prod.split)

section \<open>Changes\<close>

lemma apply_keeps_diagnostics:
  "dm_apply_changes docs uri v chs now = (ok, docs') \<Longrightarrow>
     map_option od_latest_diagnostics (docs' u) = map_option od_latest_diagnostics (docs u) \<and>
     map_option od_last_lint_time (docs' u) = map_option od_last_lint_time (docs u) \<and>
     map_option od_path (docs' u) = map_option od_path (docs u)"
  by (auto simp: dm_apply_changes_def Let_def split: option.splits prod.splits if_splits)

text \<open>A change handled within the debounce interval of its own time stamp.\<close>

lemma change_is_debounced:
  assumes "dm_apply_changes docs uri v chs now = (True, docs')" and "check < now + debounce"
    and "\<And>d. docs uri = Some d \<Longrightarrow> od_last_lint_time d \<noteq> 0"
  shows "should_debounce_lint docs' uri debounce check"
  using assms by (auto simp: dm_apply_changes_def should_debounce_lint_def dm_find_def Let_def split: option.splits prod.splits if_splits)

lemma change_publishes_nothing:
  assumes "\<And>d. sv_docs sv (extract_text_document_uri params) = Some d \<Longrightarrow> od_last_lint_time d \<noteq> 0"
    and "wd_check_time w < wd_change_time w + k_debounce"
  obtains docs where "on_did_change w params sv = sv\<lparr>sv_docs := docs\<rparr>"
    "\<forall>u. map_option od_latest_diagnostics (docs u) = map_option od_latest_diagnostics (sv_docs sv u)"
    "\<forall>u. map_option od_last_lint_time (docs u) = map_option od_last_lint_time (sv_docs sv u)"
    "\<forall>u. map_option od_path (docs u) = map_option od_path (sv_docs sv u)"
proof -
  let ?uri = "extract_text_document_uri params"
  obtain ok docs where a: "dm_apply_changes (sv_docs sv) ?uri (extract_text_document_version params)
      (parse_content_changes params) (wd_change_time w) = (ok, docs)" by fastforce
  show thesis
  proof (cases "?uri = []")
    case True
    then show thesis by (intro that [of "sv_docs sv"]) (simp_all add: on_did_change_def)
  next
    case False
    have "ok \<Longrightarrow> should_debounce_lint docs ?uri k_debounce (wd_check_time w)"
    proof -
      assume ok
      then have "dm_apply_changes (sv_docs sv) ?uri (extract_text_document_version params)
          (parse_content_changes params) (wd_change_time w) = (True, docs)" using a by simp
      from change_is_debounced [OF this assms(2)] assms(1) show ?thesis by blast
    qed
    then show thesis
      using False a apply_keeps_diagnostics [OF a] by (intro that [of docs]) (auto simp: on_did_change_def Let_def)
  qed
qed

section \<open>Sample worlds\<close>

text \<open>A world without files whose JSON library knows two texts; its clock stands at \<open>t\<close>.\<close>

definition sample_parse :: "string \<Rightarrow> parse_outcome" where
  "sample_parse body =
     (if body = ''shutdown'' then Parsed (Json_Object [(''id'', Json_Int 1), (''method'', Json_String ''shutdown'')])
      else if body = ''exit'' then Parsed (Json_Object [(''method'', Json_String ''exit'')])
      else if body = ''open''
        then Parsed (Json_Object [(''method'', Json_String ''textDocument/didOpen''),
               (''params'', Json_Object [(''textDocument'', Json_Object [(''text'', Json_String ''x''), (''uri'', Json_String ''u'')])])])
      else Parse_Error)"

definition sample_world :: "time_point \<Rightarrow> (nat, unit, unit, unit) world" where
  "sample_world t =
     \<lparr>wd_engines = sample_engines, wd_default_rules = [], wd_current_path = ''/'', wd_files = (\<lambda>_. None),
      wd_open_stream = (\<lambda>_. None), wd_toml_parse = (\<lambda>_. Inr []), wd_version = ''1'', wd_json_parse = sample_parse,
      wd_json_dump = (\<lambda>_. Some ''reply''), wd_change_time = t, wd_check_time = t, wd_lint_time = t\<rparr>"

definition sample_params :: json where
  "sample_params = Json_Object [(''textDocument'', Json_Object [(''uri'', Json_String ''u'')])]"

lemma sample_params_uri: "extract_text_document_uri sample_params = ''u''"
  by (simp add: sample_params_def extract_text_document_uri_def)

definition sample_open_document :: open_document where
  "sample_open_document = \<lparr>od_uri = ''u'', od_path = ''u'', od_contents = ''x'', od_version = 1,
     od_latest_diagnostics = [], od_last_change_time = 5, od_last_lint_time = 5\<rparr>"

definition sample_server :: server where
  "sample_server = fresh_server\<lparr>sv_docs := [''u'' \<mapsto> sample_open_document]\<rparr>"

lemma sample_server_doc: "sv_docs sample_server ''u'' = Some sample_open_document"
  by (simp add: sample_server_def)

section \<open>Properties\<close>

text \<open>C10: The server serves a session frame by frame: on the frames of bodies of at most sixteen megabytes
  it does what serving the bodies one after the other does, until it stops, at the first \<open>exit\<close> or when a reply cannot
  be printed, whatever the bodies hold.\<close>

theorem server_serves_frames:
  assumes "list_all (\<lambda>b. length b \<le> k_max_body_bytes) bodies"
  shows "run_server ws (concat (map frame_message bodies)) =
    (process_code (serve_bodies ws 0 bodies fresh_server),
     concat (map frame_message (sv_out (serve_bodies ws 0 bodies fresh_server))))"
  by (simp add: run_server_def run_loop_frames [OF assms] Let_def)

theorem server_serves_frames_witness:
  "run_server sample_world (concat (map frame_message [''shutdown'', ''?'', ''exit''])) =
   (0, concat (map frame_message [''reply'', ''reply'']))"
proof -
  have "(let sv = serve_bodies sample_world 0 [''shutdown'', ''?'', ''exit''] fresh_server in (process_code sv, sv_out sv)) =
      (0, [''reply'', ''reply''])" by code_simp
  then have "process_code (serve_bodies sample_world 0 [''shutdown'', ''?'', ''exit''] fresh_server) = 0"
    and "sv_out (serve_bodies sample_world 0 [''shutdown'', ''?'', ''exit''] fresh_server) = [''reply'', ''reply'']"
    by (simp_all only: Let_def prod.inject)
  moreover have "list_all (\<lambda>b. length b \<le> k_max_body_bytes) [''shutdown'', ''?'', ''exit'']"
    by (simp add: k_max_body_bytes_def)
  ultimately show ?thesis by (simp only: server_serves_frames)
qed

text \<open>C12: The exit code of a session that ends with \<open>exit\<close>: when well-formed frames of at most sixteen
  megabytes arrive, the last of them the first \<open>exit\<close> notification, the process ends there, whatever bytes follow; its code is zero when a
  \<open>shutdown\<close> request arrived before the \<open>exit\<close> and one otherwise, except that a reply that cannot be
  printed has ended the process before, with code one.\<close>

theorem exit_code_life_cycle:
  assumes "list_all (\<lambda>b. length b \<le> k_max_body_bytes) (bodies @ [last_body])"
    and "body_notification (ws (length bodies)) last_body = Some ''exit''"
    and "\<forall>k < length bodies. body_notification (ws k) (bodies ! k) \<noteq> Some ''exit''"
  shows "run_server ws (concat (map frame_message (bodies @ [last_body])) @ rest) =
    (if sv_crashed (serve_bodies ws 0 bodies fresh_server) then 1
     else if \<exists>k < length bodies. body_request (ws k) (bodies ! k) = Some ''shutdown'' then 0 else 1,
     concat (map frame_message (sv_out (serve_bodies ws 0 bodies fresh_server))))"
proof -
  let ?sv = "serve_bodies ws 0 bodies fresh_server"
  let ?final = "serve_bodies ws 0 (bodies @ [last_body]) fresh_server"
  have fresh: "\<not> sv_should_exit fresh_server" "\<not> sv_shutdown_requested fresh_server" by (simp_all add: fresh_server_def)
  have before: "\<forall>k < length bodies. body_notification (ws (0 + k)) (bodies ! k) \<noteq> Some ''exit''" using assms(3) by simp
  note flags = serve_bodies_flags [OF before fresh(1)]
  have served: "?final = (if sv_crashed ?sv then ?sv else serve_body (ws (length bodies)) last_body ?sv)"
    by (simp add: serve_bodies_append flags(1))
  have stop: "serve_body (ws (length bodies)) last_body ?sv = ?sv\<lparr>sv_should_exit := True\<rparr>"
    by (rule serve_exit [OF assms(2)])
  have ended: "sv_should_exit ?final \<or> sv_crashed ?final" unfolding served stop by simp
  have "run_loop ws 0 (concat (map frame_message (bodies @ [last_body])) @ rest) fresh_server = ?final"
    by (simp only: run_loop_append [OF assms(1)] run_loop_stopped [OF ended])
  then show ?thesis
    using flags(2) by (simp add: run_server_def served stop process_code_def exit_code_def fresh(2))
qed

theorem exit_code_life_cycle_witness:
  "run_server sample_world (concat (map frame_message ([''open'', ''shutdown''] @ [''exit''])) @ ''?'') =
     (0, concat (map frame_message [''reply'', ''reply'']))"
proof -
  have s: "(let sv = serve_bodies sample_world 0 [''open'', ''shutdown''] fresh_server in (sv_crashed sv, sv_out sv)) =
      (False, [''reply'', ''reply''])" by code_simp
  have r: "body_request (sample_world t) ''shutdown'' = Some ''shutdown''"
    "body_notification (sample_world t) ''shutdown'' = None" "body_notification (sample_world t) ''exit'' = Some ''exit''"
    "body_notification (sample_world t) ''open'' = Some ''textDocument/didOpen''" for t
    by (simp_all add: body_request_def body_notification_def sample_world_def sample_parse_def parse_id_def)
  have "\<exists>k < length [''open'', ''shutdown'']. body_request (sample_world k) ([''open'', ''shutdown''] ! k) = Some ''shutdown''"
    by (rule exI [of _ 1]) (simp add: r)
  moreover have "run_server sample_world (concat (map frame_message ([''open'', ''shutdown''] @ [''exit''])) @ ''?'') =
    (if sv_crashed (serve_bodies sample_world 0 [''open'', ''shutdown''] fresh_server) then 1
     else if \<exists>k < length [''open'', ''shutdown'']. body_request (sample_world k) ([''open'', ''shutdown''] ! k) = Some ''shutdown'' then 0 else 1,
     concat (map frame_message (sv_out (serve_bodies sample_world 0 [''open'', ''shutdown''] fresh_server))))"
    by (rule exit_code_life_cycle) (auto simp: k_max_body_bytes_def r less_Suc_eq)
  ultimately show ?thesis using s by (simp only: Let_def prod.inject if_False if_True simp_thms)
qed

text \<open>A reply that the library cannot print ends the session: the process stops with code one, no reply is
  written for this request, and nothing that follows is served.\<close>

theorem unprintable_reply_ends_session:
  assumes "list_all (\<lambda>b. length b \<le> k_max_body_bytes) (bodies @ [body])"
    and "\<forall>k < length bodies. body_notification (ws k) (bodies ! k) \<noteq> Some ''exit''"
    and "\<not> sv_crashed (serve_bodies ws 0 bodies fresh_server)"
    and "fst (dispatch_wire (wd_json_parse (ws (length bodies))) (wd_json_dump (ws (length bodies)))
           (register_handlers (ws (length bodies))) body (serve_bodies ws 0 bodies fresh_server)) = None"
  shows "fst (run_server ws (concat (map frame_message (bodies @ [body])) @ rest)) = 1"
proof -
  let ?final = "serve_bodies ws 0 (bodies @ [body]) fresh_server"
  have before: "\<forall>k < length bodies. body_notification (ws (0 + k)) (bodies ! k) \<noteq> Some ''exit''" using assms(2) by simp
  have "?final = serve_body (ws (length bodies)) body (serve_bodies ws 0 bodies fresh_server)"
    using assms(3) serve_bodies_flags(1) [OF before] by (simp add: serve_bodies_append fresh_server_def)
  then have crashed: "sv_crashed ?final"
    using assms(4) by (simp add: serve_body_def case_prod_beta)
  have "run_loop ws 0 (concat (map frame_message (bodies @ [body])) @ rest) fresh_server = ?final"
    using crashed by (simp only: run_loop_append [OF assms(1)] run_loop_stopped simp_thms)
  with crashed show ?thesis by (simp add: run_server_def process_code_def)
qed

text \<open>C16: The server's text is the client's text: when a client edits the document it shows, and tells the server
  every edit by the line and the byte column of its ends in the text before that edit, in one change notification, the server then holds the client's
  text after all the edits, under the version of the notification; no other document changes.\<close>

theorem edits_keep_texts_equal:
  fixes w :: "('s, 'r, 'c, 'i) world"
  assumes "sv_docs sv uri = Some d" and "uri \<noteq> []" and "client_edits_ok (od_contents d) es"
    and "- (2 ^ 31) \<le> version" and "version < 2 ^ 31"
  defines "sv' \<equiv> on_did_change w (change_message uri version (client_changes (od_contents d) es)) sv"
  shows "map_option od_contents (sv_docs sv' uri) = Some (fold client_apply es (od_contents d)) \<and>
    map_option od_version (sv_docs sv' uri) = Some version \<and> (\<forall>u. u \<noteq> uri \<longrightarrow> sv_docs sv' u = sv_docs sv u)"
proof -
  let ?params = "change_message uri version (client_changes (od_contents d) es)"
  have "to_i32 version = version"
    using assms(4,5) by (simp add: to_i32_def sint_sbintrunc' signed_take_bit_int_eq_self)
  then have params: "extract_text_document_uri ?params = uri" "extract_text_document_version ?params = version"
    "parse_content_changes ?params = map parse_content_change (client_changes (od_contents d) es)"
    by (simp_all add: change_message_def extract_text_document_uri_def extract_text_document_version_def parse_content_changes_def)
  define docs where "docs = (sv_docs sv)(uri \<mapsto> d\<lparr>od_contents := fold client_apply es (od_contents d),
      od_version := version, od_last_change_time := wd_change_time w\<rparr>)"
  have "dm_apply_changes (sv_docs sv) uri version (parse_content_changes ?params) (wd_change_time w) = (True, docs)"
    by (simp add: dm_apply_changes_def assms(1) params(3) client_changes_apply [OF assms(3)] docs_def)
  then have "sv' = (if should_debounce_lint docs uri k_debounce (wd_check_time w) then sv\<lparr>sv_docs := docs\<rparr>
      else lint_and_publish w uri (sv\<lparr>sv_docs := docs\<rparr>))"
    by (simp add: sv'_def on_did_change_def params(1,2) assms(2))
  moreover have "map_option od_contents (docs uri) = Some (fold client_apply es (od_contents d))"
    "map_option od_version (docs uri) = Some version" "\<And>u. u \<noteq> uri \<Longrightarrow> docs u = sv_docs sv u"
    by (simp_all add: docs_def)
  ultimately show ?thesis by (simp add: lint_and_publish_docs del: map_option_eq_Some)
qed

theorem edits_keep_texts_equal_witness:
  "map_option od_contents (sv_docs (on_did_change (sample_world 9) (change_message ''u'' 2
     (client_changes ''x'' [Client_Edit 1 1 [newline], Client_Edit 2 2 ''y'', Client_Edit 0 1 ''ab''])) sample_server) ''u'') =
   Some (''ab'' @ [newline] @ ''y'')"
proof -
  let ?es = "[Client_Edit 1 1 [newline], Client_Edit 2 2 ''y'', Client_Edit 0 1 ''ab'']"
  have doc: "od_contents sample_open_document = ''x''" by (simp add: sample_open_document_def)
  have "client_edits_ok (od_contents sample_open_document) ?es" by (simp add: doc)
  from edits_keep_texts_equal [OF sample_server_doc _ this, of 2 "sample_world 9"] show ?thesis by (simp add: doc)
qed

text \<open>Opening or saving publishes what the linter says of the text the server holds: one notification, with
  the document's version and the diagnostics of its current text under its configuration; the same diagnostics are
  kept for hovers and quick fixes.\<close>

theorem save_publishes_current:
  assumes "sv_docs sv uri = Some doc" and "extract_text_document_uri params = uri" and "uri \<noteq> []"
    and "wd_json_dump w (Json_Object
      [(''jsonrpc'', Json_String ''2.0''), (''method'', Json_String ''textDocument/publishDiagnostics''),
       (''params'', publish_params uri (od_version doc)
          (to_lsp_diagnostics (snd (document_sources doc)) (lint_document w sv doc)))]) = Some message"
  shows "sv_out (on_did_save w params sv) = sv_out sv @ [message] \<and>
    view_for (sv_docs (on_did_save w params sv)) uri = Some (snd (document_sources doc), lint_document w sv doc)"
proof -
  obtain i sources where s: "document_sources doc = (i, sources)" "source_id_valid i"
    by (auto simp: document_sources_def add_buffer_def Let_def source_id_valid_def)
  have s': "document_sources (doc\<lparr>od_latest_diagnostics := ds, od_last_lint_time := t\<rparr>) = (i, sources)" for ds t
    using s(1) by (simp add: document_sources_def)
  have f: "dm_find (sv_docs sv) uri = Some doc" using assms(1) by (simp add: dm_find_def)
  have e: "on_did_save w params sv = lint_and_publish w uri sv"
    by (simp only: on_did_save_def Let_def assms(2,3) if_False)
  let ?docs = "mark_linted ((sv_docs sv)(uri \<mapsto> doc\<lparr>od_latest_diagnostics := lint_document w sv doc\<rparr>)) uri (wd_lint_time w)"
  have p: "lint_and_publish w uri sv = send_notification w ''textDocument/publishDiagnostics''
      (publish_params uri (od_version doc) (to_lsp_diagnostics sources (lint_document w sv doc))) (sv\<lparr>sv_docs := ?docs\<rparr>)"
    by (simp only: lint_and_publish_def f option.case s prod.case Let_def not_True_eq_False if_False)
  have v: "view_for ?docs uri = Some (sources, lint_document w sv doc)"
    by (simp add: view_for_def dm_find_def mark_linted_def s s')
  show ?thesis
    using assms(4) unfolding e p by (simp add: send_notification_def v s)
qed

theorem save_publishes_current_witness:
  "sv_out (on_did_save (sample_world 9) sample_params sample_server) = [''reply''] \<and>
   view_for (sv_docs (on_did_save (sample_world 9) sample_params sample_server)) ''u'' =
     Some (snd (document_sources sample_open_document), lint_document (sample_world 9) sample_server sample_open_document)"
  using save_publishes_current [OF sample_server_doc sample_params_uri, of "sample_world 9" "''reply''"]
  by (simp add: sample_world_def) (simp add: sample_server_def fresh_server_def)

text \<open>Typing never updates the diagnostics: once a document has been linted, a change that the server
  handles within 150 milliseconds of storing it publishes nothing, because the debounce compares the clock with the time
  stamp the same change has just set; and hovers and quick fixes then pair the new text with the diagnostics of the
  old one.\<close>

theorem change_never_publishes:
  assumes "sv_docs sv uri = Some d" and "od_last_lint_time d \<noteq> 0" and "extract_text_document_uri params = uri"
    and "wd_check_time w < wd_change_time w + k_debounce"
  shows "sv_out (on_did_change w params sv) = sv_out sv \<and>
    (\<exists>d'. sv_docs (on_did_change w params sv) uri = Some d' \<and>
       view_for (sv_docs (on_did_change w params sv)) uri = Some (snd (document_sources d'), od_latest_diagnostics d))"
proof -
  have nz: "od_last_lint_time d' \<noteq> 0" if "sv_docs sv (extract_text_document_uri params) = Some d'" for d'
    using that assms(1-3) by simp
  obtain docs where docs: "on_did_change w params sv = sv\<lparr>sv_docs := docs\<rparr>"
    "\<forall>u. map_option od_latest_diagnostics (docs u) = map_option od_latest_diagnostics (sv_docs sv u)"
    "\<forall>u. map_option od_last_lint_time (docs u) = map_option od_last_lint_time (sv_docs sv u)"
    "\<forall>u. map_option od_path (docs u) = map_option od_path (sv_docs sv u)"
    by (rule change_publishes_nothing [OF nz assms(4)])
  have "map_option od_latest_diagnostics (docs uri) = Some (od_latest_diagnostics d)"
    using docs(2) [rule_format, of uri] assms(1) by simp
  then obtain d' where d': "docs uri = Some d'" "od_latest_diagnostics d' = od_latest_diagnostics d"
    by (auto simp: map_option_eq_Some)
  have "source_id_valid (fst (document_sources d'))"
    by (simp add: document_sources_def add_buffer_def Let_def source_id_valid_def)
  with d' docs(1) show ?thesis by (simp add: view_for_def dm_find_def case_prod_beta)
qed

theorem change_never_publishes_witness:
  "sv_out (on_did_change (sample_world 1000000000) sample_params sample_server) = [] \<and>
   (\<exists>d'. view_for (sv_docs (on_did_change (sample_world 1000000000) sample_params sample_server)) ''u'' =
     Some (snd (document_sources d'), []))"
proof -
  have "sv_out (on_did_change (sample_world 1000000000) sample_params sample_server) = sv_out sample_server \<and>
    (\<exists>d'. sv_docs (on_did_change (sample_world 1000000000) sample_params sample_server) ''u'' = Some d' \<and>
       view_for (sv_docs (on_did_change (sample_world 1000000000) sample_params sample_server)) ''u'' =
         Some (snd (document_sources d'), od_latest_diagnostics sample_open_document))"
    by (rule change_never_publishes [OF sample_server_doc _ sample_params_uri])
      (simp_all add: sample_open_document_def sample_world_def k_debounce_def)
  then show ?thesis by (auto simp: sample_server_def fresh_server_def sample_open_document_def)
qed

end
