(* ===== verification/Cli.thy ===== *)
theory Cli
  imports Lint Rewriter Wire Rpc
begin

text \<open>
  The command line tool, \<^verbatim>\<open>cli/src/main.cpp\<close>: argument parsing, the three output formats, linting one file
  after the other with its configuration, and writing fixes back. What it reads of its surroundings is a record of
  parameters; the disk, standard output and standard error are its state. The lemmas show that the options can be
  written and read back, what the exit status says, that the JSON output is one well-formed array, that every annotation
  takes one line, and what \<open>--fix\<close> may do to the disk.
\<close>

section \<open>Formats\<close>

datatype output_format = Human | Json_Format | Github_Annotations

definition parse_format :: "string \<Rightarrow> output_format option" where
  "parse_format value =
     (if value = ''human'' then Some Human
      else if value = ''json'' then Some Json_Format
      else if value = ''github-annotations'' then Some Github_Annotations
      else None)"

definition parse_source_language :: "string \<Rightarrow> source_language option" where
  "parse_source_language value =
     (if value = ''auto'' then Some Auto
      else if value = ''hlsl'' then Some Hlsl
      else if value = ''slang'' then Some Slang
      else None)"

definition detect_default_format :: "string option \<Rightarrow> output_format" where
  "detect_default_format gh = (if gh = Some ''true'' then Github_Annotations else Human)"

fun severity_label :: "severity \<Rightarrow> string" where
  "severity_label Error = ''error''"
| "severity_label Warning = ''warning''"
| "severity_label Note = ''note''"

abbreviation decimal :: "u32 \<Rightarrow> string" where
  "decimal n \<equiv> to_decimal (unat n)"

abbreviation quote :: char where
  "quote \<equiv> CHR 0x22"

definition display_path :: "source_manager \<Rightarrow> source_id \<Rightarrow> string" where
  "display_path sources source = (case sm_get sources source of Some file \<Rightarrow> sf_path file | None \<Rightarrow> ''<unknown>'')"

text \<open>The caret line of \<open>render_diagnostic\<close>; \<open>width\<close> is the length of the printed line number.\<close>

definition columns_before :: "u32 \<Rightarrow> u32" where
  "columns_before column = (if column > 0 then column - 1 else 0)"

definition caret_count :: "u32 \<Rightarrow> u32 \<Rightarrow> u32 \<Rightarrow> u32 \<Rightarrow> u32" where
  "caret_count lo hi column line_length =
     (let span_len = (if hi > lo then hi - lo else 1);
          caret_max = (if line_length > columns_before column then line_length - columns_before column else 1)
      in min span_len caret_max)"

definition caret_line :: "nat \<Rightarrow> u32 \<Rightarrow> u32 \<Rightarrow> u32 \<Rightarrow> u32 \<Rightarrow> string" where
  "caret_line width lo hi column line_length =
     (let count = caret_count lo hi column line_length
      in replicate (2 + width + 3 + unat (columns_before column)) CHR '' '' @
         replicate (unat (if count = 0 then 1 else count)) CHR ''^'')"

definition render_diagnostic :: "diagnostic \<Rightarrow> source_manager \<Rightarrow> string" where
  "render_diagnostic diag sources =
     (let source = sp_source (dg_primary_span diag);
          lo = bs_lo (sp_bytes (dg_primary_span diag));
          hi = bs_hi (sp_bytes (dg_primary_span diag));
          loc = sm_resolve sources source lo;
          head = display_path sources source @ '':'' @ decimal (lc_line loc) @ '':'' @ decimal (lc_column loc) @ '': '' @
            severity_label (dg_severity diag) @ '': '' @ dg_message diag @ '' ['' @ dg_code diag @ '']'' @ [newline]
      in case sm_get sources source of
           None \<Rightarrow> head
         | Some file \<Rightarrow>
             let line = line_text file lo in
             if line = [] then head
             else head @ ''  '' @ decimal (lc_line loc) @ '' | '' @ line @ [newline] @
                  caret_line (length (decimal (lc_line loc))) lo hi (lc_column loc) (u32_of (length line)) @ [newline])"

text \<open>JSON strings.\<close>

definition k_hex :: string where
  "k_hex = ''0123456789abcdef''"

definition json_escape_char :: "char \<Rightarrow> string" where
  "json_escape_char c =
     (if c = quote then [backslash, quote]
      else if c = backslash then [backslash, backslash]
      else if c = CHR 0x08 then [backslash, CHR ''b'']
      else if c = CHR 0x0C then [backslash, CHR ''f'']
      else if c = newline then [backslash, CHR ''n'']
      else if c = carriage_return then [backslash, CHR ''r'']
      else if c = tab_char then [backslash, CHR ''t'']
      else let n = of_char c :: nat in
           if n < 0x20 then [backslash] @ ''u00'' @ [k_hex ! (n div 16 mod 16), k_hex ! (n mod 16)]
           else [c])"

definition json_escape :: "string \<Rightarrow> string" where
  "json_escape s = [quote] @ concat (map json_escape_char s) @ [quote]"

definition has_machine_fix :: "diagnostic \<Rightarrow> bool" where
  "has_machine_fix diag = list_ex fx_machine_applicable (dg_fixes diag)"

text \<open>A member of a JSON object: a comma, the quoted key and a colon.\<close>

abbreviation json_key :: "string \<Rightarrow> string" where
  "json_key k \<equiv> [quote] @ k @ [quote] @ '':''"

definition render_json_diagnostic :: "diagnostic \<Rightarrow> source_manager \<Rightarrow> string" where
  "render_json_diagnostic diag sources =
     (let source = sp_source (dg_primary_span diag);
          lo = bs_lo (sp_bytes (dg_primary_span diag));
          hi = bs_hi (sp_bytes (dg_primary_span diag));
          loc = sm_resolve sources source lo
      in ''{'' @ json_key ''file'' @ json_escape (display_path sources source) @
         '','' @ json_key ''line'' @ decimal (lc_line loc) @ '','' @ json_key ''column'' @ decimal (lc_column loc) @
         '','' @ json_key ''byte_offset'' @ decimal lo @ '','' @ json_key ''byte_end'' @ decimal hi @
         '','' @ json_key ''severity'' @ json_escape (severity_label (dg_severity diag)) @
         '','' @ json_key ''rule'' @ json_escape (dg_code diag) @ '','' @ json_key ''message'' @ json_escape (dg_message diag) @
         '','' @ json_key ''machine_applicable_fix'' @ (if has_machine_fix diag then ''true'' else ''false'') @ ''}'')"

definition github_escape_char :: "char \<Rightarrow> string" where
  "github_escape_char c =
     (if c = CHR ''%'' then ''%25'' else if c = carriage_return then ''%0D'' else if c = newline then ''%0A'' else [c])"

definition github_escape :: "string \<Rightarrow> string" where
  "github_escape s = concat (map github_escape_char s)"

definition render_github_annotation :: "diagnostic \<Rightarrow> source_manager \<Rightarrow> string" where
  "render_github_annotation diag sources =
     (let source = sp_source (dg_primary_span diag);
          loc = sm_resolve sources source (bs_lo (sp_bytes (dg_primary_span diag)));
          command = (case dg_severity diag of Error \<Rightarrow> ''error'' | Note \<Rightarrow> ''notice'' | Warning \<Rightarrow> ''warning'')
      in ''::'' @ command @ '' file='' @ github_escape (display_path sources source) @ '',line='' @ decimal (lc_line loc) @
         '',col='' @ decimal (lc_column loc) @ '',title='' @ github_escape (dg_code diag) @ ''::'' @
         github_escape (dg_message diag) @ '' ['' @ dg_code diag @ '']'' @ [newline])"

section \<open>Options\<close>

record cli_options =
  co_paths :: "path list"
  co_apply_fix :: bool
  co_config_path :: string
  co_target_profile :: string
  co_format :: "output_format option"
  co_source_language :: source_language

definition default_cli_options :: cli_options where
  "default_cli_options =
     \<lparr>co_paths = [], co_apply_fix = False, co_config_path = [], co_target_profile = [], co_format = None,
      co_source_language = Auto\<rparr>"

definition starts_with_arg :: "string \<Rightarrow> string \<Rightarrow> bool" where
  "starts_with_arg prefix a \<longleftrightarrow> take (length prefix) a = prefix"

definition unknown_language :: "string \<Rightarrow> string" where
  "unknown_language value =
     ''shader-clippy: unknown --source-language value: '' @ value @ '' (expected auto|hlsl|slang)'' @ [newline]"

definition unknown_format :: "string \<Rightarrow> string" where
  "unknown_format value =
     ''shader-clippy: unknown --format value: '' @ value @ '' (expected human|json|github-annotations)'' @ [newline]"

text \<open>The loop of \<open>parse_lint_args\<close>; on the left the text written to standard error before it returns 2.\<close>

fun parse_args_loop :: "string list \<Rightarrow> cli_options \<Rightarrow> string + cli_options" where
  "parse_args_loop [] opts = Inr opts"
| "parse_args_loop (a # args) opts =
     (if a = ''--fix'' then parse_args_loop args (opts\<lparr>co_apply_fix := True\<rparr>)
      else if a = ''--config''
        then (case args of
                [] \<Rightarrow> Inl (''shader-clippy: --config requires a path argument'' @ [newline])
              | v # args \<Rightarrow> parse_args_loop args (opts\<lparr>co_config_path := v\<rparr>))
      else if a = ''--target-profile''
        then (case args of
                [] \<Rightarrow> Inl (''shader-clippy: --target-profile requires a profile argument'' @ [newline])
              | v # args \<Rightarrow> parse_args_loop args (opts\<lparr>co_target_profile := v\<rparr>))
      else if starts_with_arg ''--source-language='' a
        then let value = drop (length ''--source-language='') a in
             (case parse_source_language value of
                None \<Rightarrow> Inl (unknown_language value)
              | Some l \<Rightarrow> parse_args_loop args (opts\<lparr>co_source_language := l\<rparr>))
      else if a = ''--source-language''
        then (case args of
                [] \<Rightarrow> Inl (''shader-clippy: --source-language requires a value (auto|hlsl|slang)'' @ [newline])
              | v # args \<Rightarrow>
                  (case parse_source_language v of
                     None \<Rightarrow> Inl (unknown_language v)
                   | Some l \<Rightarrow> parse_args_loop args (opts\<lparr>co_source_language := l\<rparr>)))
      else if starts_with_arg ''--format='' a
        then let value = drop (length ''--format='') a in
             (case parse_format value of
                None \<Rightarrow> Inl (unknown_format value)
              | Some f \<Rightarrow> parse_args_loop args (opts\<lparr>co_format := Some f\<rparr>))
      else if a = ''--format''
        then (case args of
                [] \<Rightarrow> Inl (''shader-clippy: --format requires a value (human|json|github-annotations)'' @ [newline])
              | v # args \<Rightarrow>
                  (case parse_format v of
                     None \<Rightarrow> Inl (unknown_format v)
                   | Some f \<Rightarrow> parse_args_loop args (opts\<lparr>co_format := Some f\<rparr>)))
      else if starts_with_arg ''--'' a
        then Inl (''shader-clippy: unknown lint option: '' @ a @ [newline])
      else parse_args_loop args (opts\<lparr>co_paths := co_paths opts @ [a]\<rparr>))"

definition parse_lint_args :: "string list \<Rightarrow> cli_options \<Rightarrow> string + cli_options" where
  "parse_lint_args args opts =
     (if args = [] then Inl (''shader-clippy: lint requires a file argument'' @ [newline])
      else case parse_args_loop args opts of
             Inl e \<Rightarrow> Inl e
           | Inr opts \<Rightarrow>
               if co_paths opts = [] then Inl (''shader-clippy: lint requires at least one file argument'' @ [newline])
               else Inr opts)"

section \<open>Linting one file\<close>

text \<open>The surroundings: engines and rules, the environment, the file system as \<open>find_config\<close> sees it, the file a
  path leads to, what \<open>exists\<close> throws for a path whose status cannot be read, what \<open>is_empty\<close> answers (or throws) for an entry without a size, and how many bytes of a text a
  write to a path stores (\<open>None\<close> when the stream does not open).\<close>

record ('s, 'r, 'c, 'i) cli_world =
  cw_engines :: "('r, 'c, 'i) engines"
  cw_default_rules :: "('s, 'r, 'c, 'i) rule list"
  cw_version :: string
  cw_github_actions :: "string option"
  cw_max_file_bytes :: nat
  cw_absolute_names :: "path \<Rightarrow> string list"
  cw_files :: file_system
  cw_toml_parse :: "string \<Rightarrow> toml_parse_error + toml_table"
  cw_resolve :: "path \<Rightarrow> path"
  cw_status_error :: "path \<Rightarrow> string option"
  cw_empty_other :: "path \<Rightarrow> string + bool"
  cw_write :: "path \<Rightarrow> string \<Rightarrow> nat option"

record cli_state =
  cs_disk :: "path \<Rightarrow> disk_entry"
  cs_out :: string
  cs_err :: string
  cs_json_first_seen :: bool

abbreviation put_out :: "string \<Rightarrow> cli_state \<Rightarrow> cli_state" where
  "put_out s st \<equiv> st\<lparr>cs_out := cs_out st @ s\<rparr>"

abbreviation put_err :: "string \<Rightarrow> cli_state \<Rightarrow> cli_state" where
  "put_err s st \<equiv> st\<lparr>cs_err := cs_err st @ s\<rparr>"

abbreviation disk_at :: "('s, 'r, 'c, 'i) cli_world \<Rightarrow> cli_state \<Rightarrow> path \<Rightarrow> disk_entry" where
  "disk_at w st p \<equiv> cs_disk st (cw_resolve w p)"

definition read_file :: "('s, 'r, 'c, 'i) cli_world \<Rightarrow> cli_state \<Rightarrow> path \<Rightarrow> string" where
  "read_file w st p = read_file_to_string (disk_at w st p)"

definition file_is_empty :: "('s, 'r, 'c, 'i) cli_world \<Rightarrow> cli_state \<Rightarrow> path \<Rightarrow> string + bool" where
  "file_is_empty w st p = (case de_size (disk_at w st p) of Some n \<Rightarrow> Inr (n = 0) | None \<Rightarrow> cw_empty_other w p)"

definition write_file :: "('s, 'r, 'c, 'i) cli_world \<Rightarrow> path \<Rightarrow> string \<Rightarrow> cli_state \<Rightarrow> bool \<times> cli_state" where
  "write_file w p contents st =
     (case cw_write w p contents of
        None \<Rightarrow> (False, st)
      | Some stored \<Rightarrow>
          let kept = take stored contents
          in (stored \<ge> length contents,
              st\<lparr>cs_disk := (cs_disk st)(cw_resolve w p :=
                \<lparr>de_exists = True, de_size = Some (length kept), de_bytes = Some kept\<rparr>)\<rparr>))"

definition fixes_of :: "diagnostic \<Rightarrow> prioritised_fix list" where
  "fixes_of d = map (\<lambda>f. \<lparr>pf_priority = \<lparr>fp_severity = dg_severity d, fp_rule_id = dg_code d\<rparr>, pf_fix = f\<rparr>)
     (filter fx_machine_applicable (dg_fixes d))"

definition collect_fixes :: "diagnostic list \<Rightarrow> prioritised_fix list" where
  "collect_fixes diagnostics = concat (map fixes_of diagnostics)"

record per_file_result =
  pr_any_warning :: bool
  pr_any_error :: bool
  pr_fatal :: bool
  pr_diag_count :: nat

definition empty_result :: per_file_result where
  "empty_result = \<lparr>pr_any_warning = False, pr_any_error = False, pr_fatal = False, pr_diag_count = 0\<rparr>"

text \<open>An exception leaves the function with its message.\<close>

datatype outcome = Finished per_file_result | Thrown string

definition resolve_config :: "('s, 'r, 'c, 'i) cli_world \<Rightarrow> cli_options \<Rightarrow> cli_state \<Rightarrow> path \<Rightarrow> config_error + config option" where
  "resolve_config w opts st p =
     (let config_path = (if co_config_path opts \<noteq> [] then co_config_path opts
            else case find_config (cw_files w) (cw_absolute_names w p) of Some names \<Rightarrow> slash # join_names names | None \<Rightarrow> [])
      in if config_path \<noteq> []
         then (case load_config (cw_toml_parse w) (\<lambda>q. de_bytes (disk_at w st q)) config_path of
                 Inl e \<Rightarrow> Inl e
               | Inr cfg \<Rightarrow> Inr (Some cfg))
         else Inr None)"

definition effective_config :: "cli_options \<Rightarrow> config option \<Rightarrow> config option" where
  "effective_config opts config =
     (if co_source_language opts \<noteq> Auto
      then Some ((case config of None \<Rightarrow> default_config | Some cfg \<Rightarrow> cfg)\<lparr>cfg_source_language := co_source_language opts\<rparr>)
      else config)"

definition cli_diagnostics :: "('s, 'r, 'c, 'i) cli_world \<Rightarrow> cli_options \<Rightarrow> config option \<Rightarrow> source_manager \<Rightarrow> source_id \<Rightarrow>
    path \<Rightarrow> diagnostic list" where
  "cli_diagnostics w opts config sources src_id p =
     (let options = default_options\<lparr>lo_target_profile :=
            (if co_target_profile opts \<noteq> [] then Some (co_target_profile opts) else None)\<rparr>
      in snd (case effective_config opts config of
                Some cfg \<Rightarrow> lint (cw_engines w) sources src_id (cw_default_rules w) cfg p options
              | None \<Rightarrow> lint_plain (cw_engines w) sources src_id (cw_default_rules w) options))"

definition render_one :: "output_format \<Rightarrow> source_manager \<Rightarrow> diagnostic \<Rightarrow> cli_state \<Rightarrow> cli_state" where
  "render_one format sources diag st =
     (case format of
        Json_Format \<Rightarrow>
          put_out (render_json_diagnostic diag sources)
            ((if cs_json_first_seen st then put_out '','' st else st)\<lparr>cs_json_first_seen := True\<rparr>)
      | Github_Annotations \<Rightarrow> put_out (render_github_annotation diag sources) st
      | Human \<Rightarrow> put_out (render_diagnostic diag sources) st)"

definition diagnostics_result :: "diagnostic list \<Rightarrow> per_file_result" where
  "diagnostics_result diagnostics =
     \<lparr>pr_any_warning = list_ex (\<lambda>d. dg_severity d = Warning) diagnostics,
      pr_any_error = list_ex (\<lambda>d. dg_severity d = Error) diagnostics,
      pr_fatal = False, pr_diag_count = length diagnostics\<rparr>"

definition conflict_note :: "path \<Rightarrow> fix_conflict \<Rightarrow> string" where
  "conflict_note p c =
     p @ '': note: dropped fix from `'' @ fc_dropped_rule_id c @ ''` because it overlaps `'' @ fc_winning_rule_id c @
     ''` [clippy::fix-conflict]'' @ [newline]"

text \<open>The count is \<open>fixes.size() - conflicts.size()\<close>, on 64 bit words.\<close>

definition applied_count :: "nat \<Rightarrow> nat \<Rightarrow> 64 word" where
  "applied_count fixes conflicts = word_of_nat fixes - word_of_nat conflicts"

definition applied_note :: "path \<Rightarrow> nat \<Rightarrow> nat \<Rightarrow> string" where
  "applied_note p fixes conflicts =
     ''shader-clippy: applied '' @ to_decimal (unat (applied_count fixes conflicts)) @ '' fix'' @
     (if applied_count fixes conflicts = 1 then [] else ''es'') @ '' to '' @ p @ [newline]"

definition fix_file :: "('s, 'r, 'c, 'i) cli_world \<Rightarrow> path \<Rightarrow> output_format \<Rightarrow> diagnostic list \<Rightarrow> per_file_result \<Rightarrow> cli_state \<Rightarrow>
    outcome \<times> cli_state" where
  "fix_file w p format diagnostics result st =
     (let fixes = collect_fixes diagnostics in
      if fixes = []
      then (Finished result,
            if format = Human then put_out (''shader-clippy: --fix had nothing to apply for '' @ p @ [newline]) st else st)
      else let original = read_file w st p in
           case (if original = [] then file_is_empty w st p else Inr True) of
             Inl what \<Rightarrow> (Thrown what, st)
           | Inr False \<Rightarrow>
               (Finished (result\<lparr>pr_fatal := True\<rparr>),
                put_err (''shader-clippy: could not read '' @ p @ '' for --fix'' @ [newline]) st)
           | Inr True \<Rightarrow>
               let (rewritten, conflicts) = apply_fixes original fixes;
                   (ok, st) = write_file w p rewritten st
               in if \<not> ok
                  then (Finished (result\<lparr>pr_fatal := True\<rparr>), put_err (''shader-clippy: could not write '' @ p @ [newline]) st)
                  else (Finished result,
                        put_err (concat (map (conflict_note p) conflicts))
                          (if format = Human then put_out (applied_note p (length fixes) (length conflicts)) st else st)))"

definition config_error_text :: "config_error \<Rightarrow> string" where
  "config_error_text err =
     ce_source err @ '':'' @ decimal (ce_line err) @ '':'' @ decimal (ce_column err) @ '': error: '' @ ce_message err @
     '' [clippy::config]'' @ [newline]"

definition run_lint_one :: "('s, 'r, 'c, 'i) cli_world \<Rightarrow> cli_options \<Rightarrow> path \<Rightarrow> output_format \<Rightarrow> cli_state \<Rightarrow>
    outcome \<times> cli_state" where
  "run_lint_one w opts p format st =
     (case cw_status_error w p of Some what \<Rightarrow> (Thrown what, st) | None \<Rightarrow>
      if \<not> de_exists (disk_at w st p)
      then (Finished (empty_result\<lparr>pr_fatal := True\<rparr>), put_err (''shader-clippy: file not found: '' @ p @ [newline]) st)
      else let (src_id, sources) = add_file (cw_max_file_bytes w) (disk_at w st) [] p in
           if \<not> source_id_valid src_id
           then (Finished (empty_result\<lparr>pr_fatal := True\<rparr>), put_err (''shader-clippy: could not read '' @ p @ [newline]) st)
           else case resolve_config w opts st p of
                  Inl e \<Rightarrow> (Finished (empty_result\<lparr>pr_fatal := True\<rparr>), put_err (config_error_text e) st)
                | Inr config \<Rightarrow>
                    let diagnostics = cli_diagnostics w opts config sources src_id p;
                        st = fold (render_one format sources) diagnostics st;
                        result = diagnostics_result diagnostics
                    in if co_apply_fix opts then fix_file w p format diagnostics result st else (Finished result, st))"

section \<open>The whole run\<close>

record totals =
  to_any_warning :: bool
  to_any_error :: bool
  to_any_fatal :: bool
  to_diags :: nat

definition add_result :: "per_file_result \<Rightarrow> totals \<Rightarrow> totals" where
  "add_result r t =
     \<lparr>to_any_warning = (to_any_warning t \<or> pr_any_warning r), to_any_error = (to_any_error t \<or> pr_any_error r),
      to_any_fatal = (to_any_fatal t \<or> pr_fatal r), to_diags = to_diags t + pr_diag_count r\<rparr>"

fun lint_paths :: "('s, 'r, 'c, 'i) cli_world \<Rightarrow> cli_options \<Rightarrow> output_format \<Rightarrow> path list \<Rightarrow> totals \<Rightarrow> cli_state \<Rightarrow>
    (string + totals) \<times> cli_state" where
  "lint_paths w opts format [] t st = (Inr t, st)"
| "lint_paths w opts format (p # ps) t st =
     (case run_lint_one w opts p format st of
        (Thrown what, st) \<Rightarrow> (Inl what, st)
      | (Finished r, st) \<Rightarrow> lint_paths w opts format ps (add_result r t) st)"

definition no_totals :: totals where
  "no_totals = \<lparr>to_any_warning = False, to_any_error = False, to_any_fatal = False, to_diags = 0\<rparr>"

definition exit_status :: "totals \<Rightarrow> int" where
  "exit_status t = (if to_any_error t \<or> to_any_fatal t then 2 else if to_any_warning t then 1 else 0)"

definition summary :: "nat \<Rightarrow> nat \<Rightarrow> string" where
  "summary diags files =
     [newline] @ ''shader-clippy: '' @ to_decimal diags @ '' diagnostic'' @ (if diags = 1 then [] else ''s'') @
     '' emitted across '' @ to_decimal files @ (if files = 1 then '' file'' else '' files'') @ [newline]"

definition closing :: "output_format \<Rightarrow> nat \<Rightarrow> nat \<Rightarrow> string" where
  "closing format diags files =
     (if format = Json_Format then '']'' @ [newline] else if format = Human \<and> diags > 0 then summary diags files else [])"

definition run_lint :: "('s, 'r, 'c, 'i) cli_world \<Rightarrow> cli_options \<Rightarrow> cli_state \<Rightarrow> (string + int) \<times> cli_state" where
  "run_lint w opts st =
     (if co_paths opts = []
      then (Inr 2, put_err (''shader-clippy: lint requires at least one file argument'' @ [newline]) st)
      else let format = (case co_format opts of Some f \<Rightarrow> f | None \<Rightarrow> detect_default_format (cw_github_actions w));
               st = (if format = Json_Format then put_out ''['' st else st)
           in case lint_paths w opts format (co_paths opts) no_totals (st\<lparr>cs_json_first_seen := False\<rparr>) of
                (Inl what, st) \<Rightarrow> (Inl what, st)
              | (Inr t, st) \<Rightarrow>
                  (Inr (exit_status t), put_out (closing format (to_diags t) (length (co_paths opts))) st))"

definition usage :: "string \<Rightarrow> string" where
  "usage version =
     ''shader-clippy '' @ version @ [newline] @
     ''Usage: shader-clippy <command> [args]'' @ [newline] @
     [newline] @
     ''Commands:'' @ [newline] @
     ''  lint <file>...  [--fix] [--config <path>] [--target-profile <p>]'' @ [newline] @
     ''                  [--format=<human|json|github-annotations>]'' @ [newline] @
     ''                  [--source-language=<auto|hlsl|slang>]'' @ [newline] @
     ''                Lint one or more HLSL or Slang source files.'' @ [newline] @
     ''                Multi-file'' @ [newline] @
     ''                invocation amortizes Slang init / rule registry'' @ [newline] @
     ''                / reflection cache across all files in one process'' @ [newline] @
     ''                (3-10x speedup vs N separate invocations on a'' @ [newline] @
     ''                shader tree). With --fix, apply'' @ [newline] @
     ''                machine-applicable rewrites in place. With'' @ [newline] @
     ''                --config, use the given .shader-clippy.toml'' @ [newline] @
     ''                instead of walking up from the file's parent.'' @ [newline] @
     ''                With --target-profile, override the Slang'' @ [newline] @
     ''                reflection profile (default: per-stage sm_6_6).'' @ [newline] @
     ''                With --format, control output rendering:'' @ [newline] @
     ''                  human (default)        rustc-style with carets'' @ [newline] @
     ''                  json                   flat array, stable schema'' @ [newline] @
     ''                  github-annotations     ::warning file=...:: lines'' @ [newline] @
     ''                When $GITHUB_ACTIONS=true and --format is unset,'' @ [newline] @
     ''                github-annotations is selected automatically.'' @ [newline] @
     ''                With --source-language, force a frontend'' @ [newline] @
     ''                (default: auto, infers from extension).'' @ [newline] @
     ''                On `.slang` sources only Reflection-stage rules'' @ [newline] @
     ''                fire; tree-sitter-hlsl cannot parse Slang's'' @ [newline] @
     ''                language extensions (ADR 0020 sub-phase A).'' @ [newline] @
     ''  --help        Print this help'' @ [newline] @
     ''  --version     Print version'' @ [newline]"

definition run_main :: "('s, 'r, 'c, 'i) cli_world \<Rightarrow> string list \<Rightarrow> cli_state \<Rightarrow> (string + int) \<times> cli_state" where
  "run_main w args st =
     (if length args < 2 then (Inr 1, put_out (usage (cw_version w)) st)
      else let cmd = args ! 1 in
           if cmd = ''--help'' \<or> cmd = ''-h'' then (Inr 0, put_out (usage (cw_version w)) st)
           else if cmd = ''--version'' \<or> cmd = ''-v'' then (Inr 0, put_out (cw_version w @ [newline]) st)
           else if cmd = ''lint''
             then (case parse_lint_args (drop 2 args) default_cli_options of
                     Inl e \<Rightarrow> (Inr 2, put_err e st)
                   | Inr opts \<Rightarrow> run_lint w opts st)
           else (Inr 1, put_out (usage (cw_version w)) st))"

text \<open>\<open>main\<close> turns an exception into the status 2.\<close>

definition main :: "('s, 'r, 'c, 'i) cli_world \<Rightarrow> string list \<Rightarrow> cli_state \<Rightarrow> int \<times> cli_state" where
  "main w args st =
     (case run_main w args st of
        (Inl what, st) \<Rightarrow> (2, put_err (''shader-clippy: fatal: '' @ what @ [newline]) st)
      | (Inr status, st) \<Rightarrow> (status, st))"

section \<open>Writing the options down\<close>

fun language_name :: "source_language \<Rightarrow> string" where
  "language_name Auto = ''auto''"
| "language_name Hlsl = ''hlsl''"
| "language_name Slang = ''slang''"

fun format_name :: "output_format \<Rightarrow> string" where
  "format_name Human = ''human''"
| "format_name Json_Format = ''json''"
| "format_name Github_Annotations = ''github-annotations''"

definition language_arg :: "source_language \<Rightarrow> string" where
  "language_arg l = ''--source-language='' @ language_name l"

definition option_args :: "cli_options \<Rightarrow> string list" where
  "option_args opts =
     (if co_apply_fix opts then [''--fix''] else []) @
     [''--config'', co_config_path opts, ''--target-profile'', co_target_profile opts,
      language_arg (co_source_language opts)] @
     (case co_format opts of None \<Rightarrow> [] | Some f \<Rightarrow> [''--format'', format_name f]) @
     co_paths opts"

lemma parse_names [simp]:
  "parse_source_language (language_name l) = Some l" "parse_format (format_name f) = Some f"
  by (cases l; simp add: parse_source_language_def) (cases f; simp add: parse_format_def)

lemma starts_with_arg_iff: "starts_with_arg prefix a \<longleftrightarrow> (\<exists>r. a = prefix @ r)"
  by (auto simp: starts_with_arg_def) (metis append_take_drop_id)

lemma option_like:
  assumes "\<not> starts_with_arg ''--'' a"
  shows "a \<noteq> ''--fix'' \<and> a \<noteq> ''--config'' \<and> a \<noteq> ''--target-profile'' \<and> a \<noteq> ''--source-language'' \<and> a \<noteq> ''--format'' \<and>
    \<not> starts_with_arg ''--source-language='' a \<and> \<not> starts_with_arg ''--format='' a"
  using assms by (auto simp: starts_with_arg_iff)

lemma parse_positional:
  "list_all (\<lambda>p. \<not> starts_with_arg ''--'' p) ps \<Longrightarrow>
     parse_args_loop ps opts = Inr (opts\<lparr>co_paths := co_paths opts @ ps\<rparr>)"
proof (induction ps arbitrary: opts)
  case (Cons p ps)
  then have "\<not> starts_with_arg ''--'' p" by simp
  from option_like [OF this] Cons show ?case by (auto simp del: option.simps)
qed simp

lemma parse_steps:
  "parse_args_loop (''--fix'' # args) opts = parse_args_loop args (opts\<lparr>co_apply_fix := True\<rparr>)"
  "parse_args_loop (''--config'' # v # args) opts = parse_args_loop args (opts\<lparr>co_config_path := v\<rparr>)"
  "parse_args_loop (''--target-profile'' # v # args) opts = parse_args_loop args (opts\<lparr>co_target_profile := v\<rparr>)"
  "parse_args_loop (language_arg l # args) opts = parse_args_loop args (opts\<lparr>co_source_language := l\<rparr>)"
  "parse_args_loop (''--format'' # format_name f # args) opts = parse_args_loop args (opts\<lparr>co_format := Some f\<rparr>)"
  by (simp_all add: starts_with_arg_def language_arg_def)

section \<open>Properties\<close>

text \<open>C19: Command lines can be written and read back: for every set of options with at least one path, none of
  which starts with two hyphens, \<open>parse_lint_args\<close> reads the arguments that spell the options as these options; a
  configuration path or a profile may look like an option.\<close>

theorem options_round_trip:
  assumes "co_paths opts \<noteq> []" and "list_all (\<lambda>p. \<not> starts_with_arg ''--'' p) (co_paths opts)"
  shows "parse_lint_args (option_args opts) default_cli_options = Inr opts"
proof -
  have "parse_args_loop (option_args opts) default_cli_options = Inr opts"
    unfolding option_args_def
    by (cases "co_apply_fix opts"; cases "co_format opts")
      (simp_all only: append.simps append_Nil parse_steps if_True if_False option.case append_Cons
         parse_positional [OF assms(2)], simp_all add: default_cli_options_def)
  moreover have "option_args opts \<noteq> []" by (simp add: option_args_def)
  ultimately show ?thesis using assms(1) by (simp add: parse_lint_args_def)
qed

section \<open>What one file contributes\<close>

definition result_status :: "per_file_result \<Rightarrow> int" where
  "result_status r = (if pr_any_error r \<or> pr_fatal r then 2 else if pr_any_warning r then 1 else 0)"

definition severity_status :: "diagnostic list \<Rightarrow> int" where
  "severity_status ds =
     (if list_ex (\<lambda>d. dg_severity d = Error) ds then 2 else if list_ex (\<lambda>d. dg_severity d = Warning) ds then 1 else 0)"

text \<open>The diagnostics of a file on the disk of a state, \<open>None\<close> when its status cannot be read, when it is
  missing, too large or misconfigured.\<close>

definition file_diagnostics :: "('s, 'r, 'c, 'i) cli_world \<Rightarrow> cli_options \<Rightarrow> cli_state \<Rightarrow> path \<Rightarrow>
    (source_manager \<times> diagnostic list) option" where
  "file_diagnostics w opts st p =
     (let (src_id, sources) = add_file (cw_max_file_bytes w) (disk_at w st) [] p in
      if cw_status_error w p \<noteq> None \<or> \<not> de_exists (disk_at w st p) \<or> \<not> source_id_valid src_id then None
      else case resolve_config w opts st p of
             Inl e \<Rightarrow> None
           | Inr config \<Rightarrow> Some (sources, cli_diagnostics w opts config sources src_id p))"

definition file_verdict :: "('s, 'r, 'c, 'i) cli_world \<Rightarrow> cli_options \<Rightarrow> cli_state \<Rightarrow> path \<Rightarrow> int" where
  "file_verdict w opts st p =
     (case file_diagnostics w opts st p of None \<Rightarrow> 2 | Some (sources, ds) \<Rightarrow> severity_status ds)"

lemma render_one_keeps [simp]: "cs_disk (render_one format sources d st) = cs_disk st"
  by (cases format) (simp_all add: render_one_def)

lemma render_all_keeps [simp]: "cs_disk (fold (render_one format sources) ds st) = cs_disk st"
  by (induction ds arbitrary: st) simp_all

lemma verdict_of_disk:
  assumes "cs_disk st' = cs_disk st"
  shows "file_diagnostics w opts st' p = file_diagnostics w opts st p" "file_verdict w opts st' p = file_verdict w opts st p"
proof -
  have c: "resolve_config w opts st' p = resolve_config w opts st p"
    unfolding resolve_config_def assms ..
  show d: "file_diagnostics w opts st' p = file_diagnostics w opts st p"
    unfolding file_diagnostics_def assms c ..
  show "file_verdict w opts st' p = file_verdict w opts st p" unfolding file_verdict_def d ..
qed

lemma diagnostics_result_simps [simp]:
  "pr_fatal (diagnostics_result ds) = False" "result_status (diagnostics_result ds) = severity_status ds"
  "pr_diag_count (diagnostics_result ds) = length ds"
  by (simp_all add: diagnostics_result_def result_status_def severity_status_def)

text \<open>One file, by what it holds: its diagnostics are rendered and, with \<open>--fix\<close>, the file is fixed.\<close>

lemma run_lint_one_cases:
  "file_diagnostics w opts st p = None \<Longrightarrow>
     (case cw_status_error w p of Some what \<Rightarrow> run_lint_one w opts p format st = (Thrown what, st)
      | None \<Rightarrow> \<exists>e. run_lint_one w opts p format st = (Finished (empty_result\<lparr>pr_fatal := True\<rparr>), put_err e st))"
  "file_diagnostics w opts st p = Some (sources, ds) \<Longrightarrow>
     run_lint_one w opts p format st =
       (let st = fold (render_one format sources) ds st; result = diagnostics_result ds
        in if co_apply_fix opts then fix_file w p format ds result st else (Finished result, st))"
  unfolding run_lint_one_def file_diagnostics_def
  by (auto simp: Let_def split: if_splits prod.splits sum.splits option.splits)







section \<open>What a run writes\<close>

lemma write_file_disk:
  assumes "write_file w p contents st = (ok, st')"
  shows "\<And>q. q \<noteq> cw_resolve w p \<Longrightarrow> cs_disk st' q = cs_disk st q"
    and "cw_write w p contents = Some (length contents) \<Longrightarrow> ok \<and> de_bytes (disk_at w st' p) = Some contents"
  using assms by (auto simp: write_file_def split: option.splits)

lemma fix_file_disk:
  assumes "fix_file w p format ds r st = (out, st')" and "q \<noteq> cw_resolve w p"
  shows "cs_disk st' q = cs_disk st q"
  using assms write_file_disk(1) [OF _ assms(2)]
  by (auto simp: fix_file_def Let_def split: if_splits sum.splits bool.splits prod.splits)

lemma run_lint_one_disk:
  assumes "run_lint_one w opts p format st = (out, st')" and "\<not> (co_apply_fix opts \<and> q = cw_resolve w p)"
  shows "cs_disk st' q = cs_disk st q"
proof (cases "file_diagnostics w opts st p")
  case None
  from run_lint_one_cases(1) [OF this, of format] assms(1) show ?thesis by (auto split: option.splits)
next
  case (Some sd)
  obtain sources ds where sd: "sd = (sources, ds)" by fastforce
  show ?thesis
    using run_lint_one_cases(2) [OF Some [unfolded sd], of format] assms fix_file_disk [of w p format ds _ "fold (render_one format sources) ds st" out st' q]
    by (auto simp: Let_def split: if_splits)
qed

lemma lint_paths_disk:
  "lint_paths w opts format ps t st = (out, st') \<Longrightarrow> \<not> (co_apply_fix opts \<and> q \<in> cw_resolve w ` set ps) \<Longrightarrow>
     cs_disk st' q = cs_disk st q"
proof (induction ps arbitrary: t st)
  case (Cons p ps)
  obtain o1 st1 where o: "run_lint_one w opts p format st = (o1, st1)" by fastforce
  have "cs_disk st1 q = cs_disk st q" using run_lint_one_disk [OF o, of q] Cons.prems(2) by auto
  then show ?case using Cons o by (auto split: outcome.splits)
qed simp

lemma run_lint_disk:
  assumes "\<not> (co_apply_fix opts \<and> q \<in> cw_resolve w ` set (co_paths opts))"
  shows "cs_disk (snd (run_lint w opts st)) q = cs_disk st q"
proof (cases "co_paths opts = []")
  case True
  then show ?thesis by (simp add: run_lint_def)
next
  case False
  let ?f = "case co_format opts of Some f \<Rightarrow> f | None \<Rightarrow> detect_default_format (cw_github_actions w)"
  let ?st = "(if ?f = Json_Format then put_out ''['' st else st)\<lparr>cs_json_first_seen := False\<rparr>"
  obtain l st' where l: "lint_paths w opts ?f (co_paths opts) no_totals ?st = (l, st')" by fastforce
  have "cs_disk (snd (run_lint w opts st)) = cs_disk st'"
    unfolding run_lint_def Let_def l using False by (cases l) simp_all
  then show ?thesis using lint_paths_disk [OF l assms] by simp
qed

section \<open>A sample run\<close>

definition sample_cli :: "(nat, unit, unit, unit) cli_world" where
  "sample_cli =
     \<lparr>cw_engines = sample_engines, cw_default_rules = [], cw_version = ''1'', cw_github_actions = None,
      cw_max_file_bytes = 100, cw_absolute_names = (\<lambda>p. split_names p []), cw_files = (\<lambda>_. None),
      cw_toml_parse = (\<lambda>_. Inr []), cw_resolve = (\<lambda>p. p), cw_status_error = (\<lambda>_. None), cw_empty_other = (\<lambda>_. Inr True),
      cw_write = (\<lambda>_ s. Some (length s))\<rparr>"

definition sample_disk :: "path \<Rightarrow> disk_entry" where
  "sample_disk p =
     (if p = ''/a.hlsl'' then \<lparr>de_exists = True, de_size = Some 3, de_bytes = Some ''abc''\<rparr>
      else \<lparr>de_exists = False, de_size = None, de_bytes = None\<rparr>)"

definition sample_state :: cli_state where
  "sample_state = \<lparr>cs_disk = sample_disk, cs_out = [], cs_err = [], cs_json_first_seen = False\<rparr>"

definition sample_options :: "path list \<Rightarrow> cli_options" where
  "sample_options ps = default_cli_options\<lparr>co_paths := ps\<rparr>"

section \<open>Properties\<close>


text \<open>Note-level diagnostics do not count: a run that finds nothing else exits with zero.\<close>

lemma notes_exit_zero: "severity_status [d\<lparr>dg_severity := Note\<rparr>] = 0"
  by (simp add: severity_status_def)




text \<open>A run touches only what it was asked to fix: without \<open>--fix\<close> the disk is left as it was, and with it
  no file changes but those that the paths of the command line lead to.\<close>

theorem run_changes_only_named_files:
  assumes "co_apply_fix opts \<Longrightarrow> q \<notin> cw_resolve w ` set (co_paths opts)"
  shows "cs_disk (snd (run_lint w opts st)) q = cs_disk st q"
  using assms by (intro run_lint_disk) blast

theorem run_changes_only_named_files_witness:
  "cs_disk (snd (run_lint sample_cli ((sample_options [''/a.hlsl''])\<lparr>co_apply_fix := True\<rparr>) sample_state)) ''/c.hlsl'' =
     sample_disk ''/c.hlsl''"
  using run_changes_only_named_files
    [of "(sample_options [''/a.hlsl''])\<lparr>co_apply_fix := True\<rparr>" "''/c.hlsl''" sample_cli sample_state]
  by (simp add: sample_options_def default_cli_options_def sample_cli_def sample_state_def)

theorem options_round_trip_witness:
  "parse_lint_args (option_args ((sample_options [''/a.hlsl''])\<lparr>co_config_path := ''--fix''\<rparr>)) default_cli_options =
     Inr ((sample_options [''/a.hlsl''])\<lparr>co_config_path := ''--fix''\<rparr>)"
  by (rule options_round_trip) (simp_all add: sample_options_def default_cli_options_def starts_with_arg_def)

section \<open>JSON texts\<close>

text \<open>The strings of RFC 8259 whose characters are ASCII: the decoded string and its text between the quotes. Beyond
  ASCII the bytes would have to be UTF-8, which \<open>json_escape\<close> does not look at.\<close>

abbreviation ascii :: "string \<Rightarrow> bool" where
  "ascii s \<equiv> list_all (\<lambda>c. (of_char c :: nat) < 0x80) s"

definition short_escapes :: "(char \<times> char) list" where
  "short_escapes =
     [(quote, quote), (backslash, backslash), (slash, slash), (CHR ''b'', CHR 0x08), (CHR ''f'', CHR 0x0C),
      (CHR ''n'', newline), (CHR ''r'', carriage_return), (CHR ''t'', tab_char)]"

inductive json_chars :: "string \<Rightarrow> string \<Rightarrow> bool" where
  none: "json_chars [] []"
| plain: "json_chars s t \<Longrightarrow> c \<noteq> quote \<Longrightarrow> c \<noteq> backslash \<Longrightarrow> 0x20 \<le> (of_char c :: nat) \<Longrightarrow> (of_char c :: nat) < 0x80 \<Longrightarrow>
     json_chars (c # s) (c # t)"
| short: "json_chars s t \<Longrightarrow> (e, c) \<in> set short_escapes \<Longrightarrow> json_chars (c # s) (backslash # e # t)"
| code: "json_chars s t \<Longrightarrow> n < 128 \<Longrightarrow>
     json_chars (char_of n # s) (backslash # CHR ''u'' # CHR ''0'' # CHR ''0'' # k_hex ! (n div 16) # k_hex ! (n mod 16) # t)"

fun separated :: "string list \<Rightarrow> string" where
  "separated [] = []"
| "separated [t] = t"
| "separated (t # ts) = t @ '','' @ separated ts"

text \<open>Values without white space between their tokens.\<close>

inductive json_text :: "json \<Rightarrow> string \<Rightarrow> bool" where
  null: "json_text Json_Null ''null''"
| true: "json_text (Json_Bool True) ''true''"
| false: "json_text (Json_Bool False) ''false''"
| number: "json_text (Json_Int (int n)) (to_decimal n)"
| string: "json_chars s t \<Longrightarrow> json_text (Json_String s) ([quote] @ t @ [quote])"
| array: "list_all2 json_text js ts \<Longrightarrow> json_text (Json_Array js) (''['' @ separated ts @ '']'')"
| object: "list_all2 json_text (map snd ms) ts \<Longrightarrow> list_all2 json_chars (map fst ms) ks \<Longrightarrow>
     json_text (Json_Object ms) (''{'' @ separated (map2 (\<lambda>k t. json_key k @ t) ks ts) @ ''}'')"

lemma json_chars_escape: "json_chars s t \<Longrightarrow> (of_char c :: nat) < 0x80 \<Longrightarrow> json_chars (c # s) (json_escape_char c @ t)"
proof (cases "c \<in> {quote, backslash, CHR 0x08, CHR 0x0C, newline, carriage_return, tab_char}")
  case True
  assume t: "json_chars s t" and a: "(of_char c :: nat) < 0x80"
  from True obtain e where "json_escape_char c = [backslash, e]" "(e, c) \<in> set short_escapes"
    by (auto simp: json_escape_char_def short_escapes_def)
  then show ?thesis using json_chars.short [OF t] by simp
next
  case False
  assume t: "json_chars s t" and a: "(of_char c :: nat) < 0x80"
  let ?n = "of_char c :: nat"
  show ?thesis
  proof (cases "?n < 0x20")
    case True
    then have "json_escape_char c = [backslash] @ ''u00'' @ [k_hex ! (?n div 16), k_hex ! (?n mod 16)]"
      using False by (simp add: json_escape_char_def Let_def)
    then show ?thesis using json_chars.code [OF t, of ?n] True by simp
  next
    case False': False
    then have "json_escape_char c = [c]" using False by (simp add: json_escape_char_def Let_def)
    then show ?thesis using json_chars.plain [OF t, of c] False False' a by simp
  qed
qed

lemma json_chars_escape_all: "ascii s \<Longrightarrow> json_chars s (concat (map json_escape_char s))"
  by (induction s) (simp_all add: json_chars.none json_chars_escape)

lemma json_text_escape [intro]: "ascii s \<Longrightarrow> json_text (Json_String s) (json_escape s)"
  unfolding json_escape_def by (rule json_text.string [OF json_chars_escape_all])

lemma json_text_decimal [intro]: "json_text (Json_Int (uint n)) (decimal n)"
  using json_text.number [of "unat n"] by simp

lemma json_text_bool [intro]: "json_text (Json_Bool b) (if b then ''true'' else ''false'')"
  by (simp add: json_text.true json_text.false)

definition diagnostic_json :: "diagnostic \<Rightarrow> source_manager \<Rightarrow> json" where
  "diagnostic_json d sources =
     (let source = sp_source (dg_primary_span d);
          lo = bs_lo (sp_bytes (dg_primary_span d));
          loc = sm_resolve sources source lo
      in Json_Object
           [(''file'', Json_String (display_path sources source)), (''line'', Json_Int (uint (lc_line loc))),
            (''column'', Json_Int (uint (lc_column loc))), (''byte_offset'', Json_Int (uint lo)),
            (''byte_end'', Json_Int (uint (bs_hi (sp_bytes (dg_primary_span d))))),
            (''severity'', Json_String (severity_label (dg_severity d))), (''rule'', Json_String (dg_code d)),
            (''message'', Json_String (dg_message d)), (''machine_applicable_fix'', Json_Bool (has_machine_fix d))])"

lemma json_chars_plain:
  "list_all (\<lambda>c. c \<noteq> quote \<and> c \<noteq> backslash \<and> 0x20 \<le> (of_char c :: nat) \<and> (of_char c :: nat) < 0x80) s \<Longrightarrow> json_chars s s"
  by (induction s) (auto intro: json_chars.none json_chars.plain)

definition ascii_diagnostic :: "diagnostic \<Rightarrow> source_manager \<Rightarrow> bool" where
  "ascii_diagnostic d sources \<longleftrightarrow>
     ascii (display_path sources (sp_source (dg_primary_span d))) \<and> ascii (dg_code d) \<and> ascii (dg_message d)"

lemma json_text_diagnostic:
  assumes "ascii_diagnostic d sources"
  shows "json_text (diagnostic_json d sources) (render_json_diagnostic d sources)"
proof -
  let ?source = "sp_source (dg_primary_span d)" and ?lo = "bs_lo (sp_bytes (dg_primary_span d))"
  let ?loc = "sm_resolve sources ?source ?lo"
  let ?ks = "[''file'', ''line'', ''column'', ''byte_offset'', ''byte_end'', ''severity'', ''rule'', ''message'', ''machine_applicable_fix'']"
  let ?ts = "[json_escape (display_path sources ?source), decimal (lc_line ?loc), decimal (lc_column ?loc), decimal ?lo,
     decimal (bs_hi (sp_bytes (dg_primary_span d))), json_escape (severity_label (dg_severity d)), json_escape (dg_code d),
     json_escape (dg_message d), if has_machine_fix d then ''true'' else ''false'']"
  have "ascii (severity_label (dg_severity d))" by (cases "dg_severity d") simp_all
  then obtain ms where ms: "diagnostic_json d sources = Json_Object ms" "map fst ms = ?ks" "list_all2 json_text (map snd ms) ?ts"
    using assms by (auto simp: diagnostic_json_def ascii_diagnostic_def Let_def)
  have k: "list_all2 json_chars ?ks ?ks" by (simp add: json_chars_plain)
  have "render_json_diagnostic d sources = ''{'' @ separated (map2 (\<lambda>k t. json_key k @ t) ?ks ?ts) @ ''}''"
    by (simp add: render_json_diagnostic_def Let_def)
  with json_text.object [OF ms(3), of ?ks] k ms(1,2) show ?thesis by simp
qed

section \<open>The JSON output\<close>

definition file_objects :: "('s, 'r, 'c, 'i) cli_world \<Rightarrow> cli_options \<Rightarrow> cli_state \<Rightarrow> path \<Rightarrow> (diagnostic \<times> source_manager) list" where
  "file_objects w opts st p =
     (case file_diagnostics w opts st p of None \<Rightarrow> [] | Some (sources, ds) \<Rightarrow> map (\<lambda>d. (d, sources)) ds)"

abbreviation object_texts :: "(diagnostic \<times> source_manager) list \<Rightarrow> string list" where
  "object_texts ds \<equiv> map (\<lambda>(d, sources). render_json_diagnostic d sources) ds"

lemma file_objects_of_disk:
  assumes "cs_disk st' = cs_disk st"
  shows "file_objects w opts st' = file_objects w opts st"
  unfolding fun_eq_iff file_objects_def verdict_of_disk(1) [OF assms] by blast

text \<open>What has been printed of an array: the objects so far, with the flag that puts the commas.\<close>

definition printed :: "string \<Rightarrow> string list \<Rightarrow> cli_state \<Rightarrow> bool" where
  "printed pre ts st \<longleftrightarrow> cs_out st = pre @ separated ts \<and> (cs_json_first_seen st \<longleftrightarrow> ts \<noteq> [])"

lemma separated_snoc: "separated (ts @ [t]) = (if ts = [] then t else separated ts @ '','' @ t)"
  by (induction ts rule: separated.induct) auto

lemma printed_one: "printed pre ts st \<Longrightarrow>
    printed pre (ts @ [render_json_diagnostic d sources]) (render_one Json_Format sources d st)"
  by (auto simp: printed_def render_one_def separated_snoc)

lemma printed_all: "printed pre ts st \<Longrightarrow>
    printed pre (ts @ map (\<lambda>d. render_json_diagnostic d sources) ds) (fold (render_one Json_Format sources) ds st)"
proof (induction ds arbitrary: ts st)
  case (Cons d ds)
  from Cons.IH [OF printed_one [OF Cons.prems, of d sources]] show ?case by simp
qed simp

lemma write_file_out: "write_file w p s st = (ok, st') \<Longrightarrow> printed pre ts st' = printed pre ts st"
  by (auto simp: write_file_def printed_def split: option.splits)

lemma printed_put_err [simp]: "printed pre ts (put_err e st) = printed pre ts st"
  by (simp add: printed_def)

lemma fix_file_out: "fix_file w p Json_Format ds r st = (out, st') \<Longrightarrow> printed pre ts st' = printed pre ts st"
  by (auto simp: fix_file_def Let_def write_file_out split: if_splits sum.splits bool.splits prod.splits)

lemma printed_file:
  assumes "run_lint_one w opts p Json_Format st = (out, st')" and "printed pre ts st"
  shows "printed pre (ts @ object_texts (file_objects w opts st p)) st'"
proof (cases "file_diagnostics w opts st p")
  case None
  from run_lint_one_cases(1) [OF this, of Json_Format] assms None show ?thesis
    by (auto simp: file_objects_def split: option.splits)
next
  case (Some sd)
  obtain sources ds where sd: "sd = (sources, ds)" by fastforce
  have "object_texts (file_objects w opts st p) = map (\<lambda>d. render_json_diagnostic d sources) ds"
    by (simp add: file_objects_def Some sd)
  then show ?thesis
    using run_lint_one_cases(2) [OF Some [unfolded sd], of Json_Format] assms(1)
      printed_all [OF assms(2), of sources ds] fix_file_out [OF sym]
    by (simp add: Let_def split: if_splits) blast+
qed

lemma printed_paths:
  "lint_paths w opts Json_Format ps t st = (Inr t', st') \<Longrightarrow> printed pre ts st \<Longrightarrow>
     \<exists>ds. printed pre (ts @ object_texts ds) st' \<and>
       (if co_apply_fix opts then True else ds = concat (map (file_objects w opts st) ps))"
proof (induction ps arbitrary: t st ts)
  case Nil
  then show ?case by (intro exI [of _ "[]"]) auto
next
  case (Cons p ps)
  obtain o1 st1 where o: "run_lint_one w opts p Json_Format st = (o1, st1)" by fastforce
  obtain r where r: "o1 = Finished r" using Cons.prems(1) o by (cases o1) auto
  have "lint_paths w opts Json_Format ps (add_result r t) st1 = (Inr t', st')" using Cons.prems(1) o r by simp
  from Cons.IH [OF this printed_file [OF o Cons.prems(2)]]
  obtain ds where ds: "printed pre ((ts @ object_texts (file_objects w opts st p)) @ object_texts ds) st'"
    "if co_apply_fix opts then True else ds = concat (map (file_objects w opts st1) ps)" by blast
  have "file_objects w opts st1 = file_objects w opts st" if "\<not> co_apply_fix opts"
    using file_objects_of_disk run_lint_one_disk [OF o] that by blast
  with ds show ?case by (intro exI [of _ "file_objects w opts st p @ ds"]) auto
qed

lemma json_text_objects:
  "\<forall>(d, sources) \<in> set ds. ascii_diagnostic d sources \<Longrightarrow>
   json_text (Json_Array (map (\<lambda>(d, sources). diagnostic_json d sources) ds)) (''['' @ separated (object_texts ds) @ '']'')"
  by (rule json_text.array) (auto simp: list_all2_conv_all_nth case_prod_beta intro!: json_text_diagnostic)

text \<open>The JSON output of a run without \<open>--fix\<close> is one JSON text, when the messages, paths and rule ids of its
  diagnostics are ASCII: whichever files could not be linted, a run that ends writes one well-formed array with an object
  per diagnostic, in the order of the paths. The columns in it are the source manager's, which count bytes.\<close>

theorem json_output_is_array:
  assumes "co_paths opts \<noteq> []" and "co_format opts = Some Json_Format" and "fst (run_lint w opts st) = Inr status"
    and "\<not> co_apply_fix opts"
    and "\<forall>(d, sources) \<in> set (concat (map (file_objects w opts st) (co_paths opts))). ascii_diagnostic d sources"
  shows "\<exists>array. json_text (Json_Array (map (\<lambda>(d, sources). diagnostic_json d sources)
      (concat (map (file_objects w opts st) (co_paths opts))))) array \<and>
    cs_out (snd (run_lint w opts st)) = cs_out st @ array @ [newline]"
proof -
  let ?st = "(put_out ''['' st)\<lparr>cs_json_first_seen := False\<rparr>"
  obtain l st' where l: "lint_paths w opts Json_Format (co_paths opts) no_totals ?st = (l, st')" by fastforce
  have run: "run_lint w opts st = (case (l, st') of (Inl what, st) \<Rightarrow> (Inl what, st)
      | (Inr t, st) \<Rightarrow> (Inr (exit_status t), put_out (closing Json_Format (to_diags t) (length (co_paths opts))) st))"
    using assms(1,2) l by (simp add: run_lint_def Let_def)
  then obtain t where t: "l = Inr t" using assms(3) by (cases l) auto
  have "printed (cs_out st @ ''['') [] ?st" by (simp add: printed_def)
  from printed_paths [OF l [unfolded t] this]
  obtain ds where ds: "printed (cs_out st @ ''['') (object_texts ds) st'"
    "ds = concat (map (file_objects w opts ?st) (co_paths opts))" using assms(4) by auto
  have "cs_disk ?st = cs_disk st" by simp
  from file_objects_of_disk [OF this] have "file_objects w opts ?st = file_objects w opts st" .
  moreover have "cs_out (snd (run_lint w opts st)) = cs_out st @ (''['' @ separated (object_texts ds) @ '']'') @ [newline]"
    using ds(1) run t by (simp add: printed_def closing_def)
  ultimately show ?thesis using ds(2) json_text_objects [OF assms(5)] by metis
qed

section \<open>Fixing a file\<close>

lemma length_dropped: "length (dropped fxs) \<le> length fxs"
proof -
  have "length (priority_order fxs) = length fxs" by (simp add: priority_order_def)
  then show ?thesis unfolding dropped_def by (metis length_filter_le)
qed

lemma length_conflicts: "fxs \<noteq> [] \<Longrightarrow> length (snd (apply_fixes s fxs)) = length (dropped fxs)"
  using list_all2_lengthD [OF accept_all_conflicts [of fxs]]
  by (auto simp: apply_fixes_def split: prod.splits)

text \<open>The count printed is the number of the fixes that were not dropped; the subtraction does not wrap.\<close>

lemma applied_count_kept:
  assumes "fxs \<noteq> []" and "length fxs < 2 ^ 64"
  shows "applied_count (length fxs) (length (snd (apply_fixes s fxs))) = word_of_nat (length fxs - length (dropped fxs))"
    and "unat (applied_count (length fxs) (length (snd (apply_fixes s fxs)))) = length fxs - length (dropped fxs)"
proof -
  show c: "applied_count (length fxs) (length (snd (apply_fixes s fxs))) = word_of_nat (length fxs - length (dropped fxs))"
    using length_dropped [of fxs] by (simp add: applied_count_def length_conflicts [OF assms(1)] of_nat_diff)
  show "unat (applied_count (length fxs) (length (snd (apply_fixes s fxs)))) = length fxs - length (dropped fxs)"
    using assms(2) unfolding c by (simp add: unat_of_nat take_bit_nat_eq_self)
qed

lemma applied_count_one:
  assumes "fxs \<noteq> []" and "length fxs < 2 ^ 64"
  shows "applied_count (length fxs) (length (snd (apply_fixes s fxs))) = 1 \<longleftrightarrow> length fxs - length (dropped fxs) = 1"
  using applied_count_kept(2) [OF assms, of s] by (metis unat_1 word_unat_eq_iff)

definition applied_text :: "path \<Rightarrow> nat \<Rightarrow> string" where
  "applied_text p n =
     ''shader-clippy: applied '' @ to_decimal n @ '' fix'' @ (if n = 1 then [] else ''es'') @ '' to '' @ p @ [newline]"

lemma applied_note_kept:
  assumes "fxs \<noteq> []" and "length fxs < 2 ^ 64"
  shows "applied_note p (length fxs) (length (snd (apply_fixes s fxs))) = applied_text p (length fxs - length (dropped fxs))"
  unfolding applied_note_def applied_text_def applied_count_kept(2) [OF assms] applied_count_one [OF assms] ..

definition sample_fix_diagnostic :: diagnostic where
  "sample_fix_diagnostic =
     (sample_diagnostic ''x'' 0)\<lparr>dg_fixes := [\<lparr>fx_description = ''d'', fx_machine_applicable = True,
        fx_edits = [\<lparr>te_span = dg_primary_span (sample_diagnostic ''x'' 0), te_replacement = ''XY''\<rparr>]\<rparr>]\<rparr>"

definition sample_fixing :: "(nat, unit, unit, unit) cli_world" where
  "sample_fixing = sample_cli\<lparr>cw_default_rules :=
     [(default_rule ''x'' 0)\<lparr>rl_on_tree := (\<lambda>_ _ s. (s, [sample_fix_diagnostic]))\<rparr>]\<rparr>"

text \<open>C21: Fixing a file stores what the rewriter makes of the text that was linted, with the machine applicable fixes of
  its diagnostics at their configured severities; the number reported is that of the fixes that were not dropped, and
  every dropped one is reported on standard error.\<close>

theorem fix_stores_rewritten_text:
  assumes "co_apply_fix opts" and "file_diagnostics w opts st p = Some (sources, ds)"
    and "collect_fixes ds \<noteq> []" and "length (collect_fixes ds) < 2 ^ 64" and "read_file w st p \<noteq> []"
    and "cw_write w p (fst (apply_fixes (read_file w st p) (collect_fixes ds))) =
      Some (length (fst (apply_fixes (read_file w st p) (collect_fixes ds))))"
  shows "\<exists>st'. run_lint_one w opts p Human st = (Finished (diagnostics_result ds), st') \<and>
    de_bytes (disk_at w st' p) = Some (fst (apply_fixes (read_file w st p) (collect_fixes ds))) \<and>
    cs_out st' = cs_out (fold (render_one Human sources) ds st) @
      applied_text p (length (collect_fixes ds) - length (dropped (collect_fixes ds))) \<and>
    cs_err st' = cs_err (fold (render_one Human sources) ds st) @
      concat (map (conflict_note p) (snd (apply_fixes (read_file w st p) (collect_fixes ds))))"
proof -
  let ?st = "fold (render_one Human sources) ds st" and ?fxs = "collect_fixes ds"
  let ?new = "apply_fixes (read_file w st p) ?fxs"
  have r: "read_file w ?st p = read_file w st p" by (simp add: read_file_def)
  obtain ok st' where wr: "write_file w p (fst ?new) ?st = (ok, st')" by fastforce
  have ok: "ok" "de_bytes (disk_at w st' p) = Some (fst ?new)" using write_file_disk(2) [OF wr assms(6)] by auto
  have io: "cs_out st' = cs_out ?st" "cs_err st' = cs_err ?st"
    using wr by (auto simp: write_file_def split: option.splits)
  have "fix_file w p Human ds (diagnostics_result ds) ?st =
      (Finished (diagnostics_result ds), put_err (concat (map (conflict_note p) (snd ?new)))
         (put_out (applied_note p (length ?fxs) (length (snd ?new))) st'))"
    using assms(3,5) ok(1) wr unfolding fix_file_def by (simp add: r split_beta Let_def)
  then show ?thesis
    using run_lint_one_cases(2) [OF assms(2), of Human] assms(1) ok(2) io
    by (simp add: Let_def applied_note_kept [OF assms(3,4)])
qed

theorem fix_stores_rewritten_text_witness:
  "\<exists>st'. run_lint_one sample_fixing ((sample_options [''/a.hlsl''])\<lparr>co_apply_fix := True\<rparr>) ''/a.hlsl'' Human sample_state =
     (Finished (diagnostics_result [sample_fix_diagnostic]), st') \<and> de_bytes (cs_disk st' ''/a.hlsl'') = Some ''XYbc''"
proof -
  let ?opts = "(sample_options [''/a.hlsl''])\<lparr>co_apply_fix := True\<rparr>"
  have "map_option snd (file_diagnostics sample_fixing ?opts sample_state ''/a.hlsl'') = Some [sample_fix_diagnostic]"
    by code_simp
  then obtain sources where d: "file_diagnostics sample_fixing ?opts sample_state ''/a.hlsl'' = Some (sources, [sample_fix_diagnostic])"
    by auto
  have r: "read_file sample_fixing sample_state ''/a.hlsl'' = ''abc''" by code_simp
  have f: "collect_fixes [sample_fix_diagnostic] \<noteq> []" "length (collect_fixes [sample_fix_diagnostic]) < 2 ^ 64"
    by (simp_all add: collect_fixes_def fixes_of_def sample_fix_diagnostic_def)
  have a: "fst (apply_fixes ''abc'' (collect_fixes [sample_fix_diagnostic])) = ''XYbc''" by code_simp
  have "co_apply_fix ?opts" and w: "cw_write sample_fixing ''/a.hlsl'' s = Some (length s)" and p: "cw_resolve sample_fixing q = q" for s q
    by (simp_all add: sample_fixing_def sample_cli_def)
  from fix_stores_rewritten_text [OF this(1) d f] show ?thesis unfolding r a p w by auto
qed

end
