(* ===== verification/CfgQuery.thy ===== *)
theory CfgQuery
  imports CfgEngine
begin

text \<open>
  The queries the rules put to the control-flow graph: \<^verbatim>\<open>core/src/rules/util/cfg_query.cpp\<close>,
  \<^verbatim>\<open>helper_lane_analyzer.cpp\<close>, \<^verbatim>\<open>uniformity.cpp\<close> and \<^verbatim>\<open>light_dataflow.cpp\<close>. A span is
  located in the smallest block that encloses it; the searches from there are compared with paths of the graph. The
  handles of a \<open>ControlFlowInfo\<close> may be null.
\<close>

section \<open>Locating a block\<close>

record flow_view =
  fv_cfg :: "cfg_storage option"
  fv_uniformity :: "uniformity_data option"

definition view_of :: "control_flow_info \<Rightarrow> flow_view" where
  "view_of info = \<lparr>fv_cfg = Some (ci_impl (cfi_cfg info)), fv_uniformity = Some (cfi_uniformity info)\<rparr>"

definition span_contains :: "span \<Rightarrow> span \<Rightarrow> bool" where
  "span_contains outer inner =
     (if sp_source outer \<noteq> sp_source inner then False
      else bs_lo (sp_bytes outer) \<le> bs_lo (sp_bytes inner) \<and> bs_hi (sp_bytes outer) \<ge> bs_hi (sp_bytes inner))"

record block_hit =
  bh_function_id :: nat
  bh_local_index :: nat
  bh_raw_id :: nat

definition no_hit :: block_hit where
  "no_hit = \<lparr>bh_function_id = 0, bh_local_index = 0, bh_raw_id = 0\<rparr>"

definition span_size :: "span \<Rightarrow> u32" where
  "span_size s = bs_hi (sp_bytes s) - bs_lo (sp_bytes s)"

text \<open>The tables are indexed with \<open>raw - 1\<close>, which for a raw id zero wraps to an index outside every table.\<close>

definition resolve_hit :: "cfg_storage \<Rightarrow> nat \<Rightarrow> block_hit \<Rightarrow> block_hit" where
  "resolve_hit st raw best =
     (if raw \<noteq> 0 \<and> raw - 1 < length (cs_block_to_function st)
      then \<lparr>bh_function_id = cs_block_to_function st ! (raw - 1), bh_local_index = cs_block_to_local st ! (raw - 1),
            bh_raw_id = raw\<rparr>
      else best)"

fun locate_loop :: "cfg_storage \<Rightarrow> span \<Rightarrow> (span \<times> nat) list \<Rightarrow> block_hit \<Rightarrow> u32 \<Rightarrow> block_hit" where
  "locate_loop st sp [] best best_size = best"
| "locate_loop st sp ((block_span, raw) # entries) best best_size =
     (if \<not> span_contains block_span sp then locate_loop st sp entries best best_size
      else let sz = span_size block_span in
           if sz < best_size then locate_loop st sp entries (resolve_hit st raw best) sz
           else locate_loop st sp entries best best_size)"

definition locate_block :: "cfg_storage \<Rightarrow> span \<Rightarrow> block_hit" where
  "locate_block st sp = locate_loop st sp (cs_span_to_block st) no_hit 0xFFFFFFFF"

definition block_for :: "flow_view \<Rightarrow> span \<Rightarrow> nat option" where
  "block_for cfg sp =
     (case fv_cfg cfg of
        None \<Rightarrow> None
      | Some st \<Rightarrow> let hit = locate_block st sp in if bh_raw_id hit = 0 then None else Some (bh_raw_id hit))"

section \<open>Searches\<close>

text \<open>The successors of one block in \<open>any_reachable_discard\<close>: \<open>None\<close> when one of them is a goal.\<close>

fun scan_goal :: "nat \<Rightarrow> (nat \<Rightarrow> bool) \<Rightarrow> nat list \<Rightarrow> bool list \<Rightarrow> nat list \<Rightarrow> (bool list \<times> nat list) option" where
  "scan_goal n goal [] seen stack = Some (seen, stack)"
| "scan_goal n goal (succ # succs) seen stack =
     (if succ \<ge> n \<or> seen ! succ then scan_goal n goal succs seen stack
      else if goal succ then None
      else scan_goal n goal succs (seen[succ := True]) (succ # stack))"

lemma scan_goal_measure:
  "scan_goal n goal succs seen stack = Some (seen', stack') \<Longrightarrow> length seen = n \<Longrightarrow>
     length seen' = n \<and> unseen seen' + length stack' = unseen seen + length stack"
proof (induction succs arbitrary: seen stack)
  case (Cons s succs)
  show ?case
  proof (cases "s \<ge> n \<or> seen ! s \<or> goal s")
    case True
    then show ?thesis using Cons by (auto split: if_splits)
  next
    case False
    then have "scan_goal n goal succs (seen[s := True]) (s # stack) = Some (seen', stack')" using Cons.prems(1) by simp
    from Cons.IH [OF this] show ?thesis using False Cons.prems(2) unseen_update [of s seen] by simp
  qed
qed simp

function goal_loop :: "cfg_function \<Rightarrow> (nat \<Rightarrow> bool) \<Rightarrow> bool list \<Rightarrow> nat list \<Rightarrow> bool" where
  "goal_loop fn goal seen stack =
     (case stack of
        [] \<Rightarrow> False
      | cur # stack \<Rightarrow>
          (if length seen \<noteq> length (cf_blocks fn) then False
           else case scan_goal (length (cf_blocks fn)) goal (bb_successors (cf_blocks fn ! cur)) seen stack of
                  None \<Rightarrow> True
                | Some (seen, stack) \<Rightarrow> goal_loop fn goal seen stack))"
  by pat_completeness auto
termination
  by (relation "measure (\<lambda>(fn, goal, seen, stack). unseen seen + length stack)") (auto dest: scan_goal_measure)

declare goal_loop.simps [simp del]

definition has_discard :: "cfg_function \<Rightarrow> nat \<Rightarrow> bool" where
  "has_discard fn b = bb_contains_discard (cf_blocks fn ! b)"

definition any_reachable_discard :: "cfg_function \<Rightarrow> nat \<Rightarrow> bool" where
  "any_reachable_discard fn start_local =
     (if start_local \<ge> length (cf_blocks fn) then False
      else if has_discard fn start_local then True
      else goal_loop fn (has_discard fn) ((replicate (length (cf_blocks fn)) False)[start_local := True]) [start_local])"

text \<open>The function of a hit, unless it is the sentinel, out of range or skipped.\<close>

definition hit_function :: "cfg_storage \<Rightarrow> block_hit \<Rightarrow> cfg_function option" where
  "hit_function st hit =
     (if bh_function_id hit = 0 \<or> bh_function_id hit \<ge> length (cs_functions st) then None
      else let fn = cs_functions st ! bh_function_id hit in if cf_error_skipped fn then None else Some fn)"

definition located_query :: "flow_view \<Rightarrow> span \<Rightarrow> (cfg_function \<Rightarrow> nat \<Rightarrow> bool) \<Rightarrow> bool" where
  "located_query cfg sp q =
     (case fv_cfg cfg of
        None \<Rightarrow> False
      | Some st \<Rightarrow>
          let hit = locate_block st sp
          in (case hit_function st hit of None \<Rightarrow> False | Some fn \<Rightarrow> q fn (bh_local_index hit)))"

definition reachable_with_discard :: "flow_view \<Rightarrow> span \<Rightarrow> bool" where
  "reachable_with_discard cfg from_span = located_query cfg from_span any_reachable_discard"

definition barrier_separates_spans :: "flow_view \<Rightarrow> span \<Rightarrow> span \<Rightarrow> bool" where
  "barrier_separates_spans cfg from_span to_span =
     (case (block_for cfg from_span, block_for cfg to_span) of
        (Some from_block, Some to_block) \<Rightarrow> barrier_between (fv_cfg cfg) from_block to_block
      | _ \<Rightarrow> False)"

text \<open>Both walks up the dominator tree are the guarded walk of \<open>dominates_query\<close>.\<close>

definition in_some_loop :: "cfg_function \<Rightarrow> nat \<Rightarrow> bool" where
  "in_some_loop fn target_local =
     (if length (cf_idom fn) \<noteq> length (cf_blocks fn) then False
      else list_ex (\<lambda>t. list_ex (\<lambda>h. h < length (cf_blocks fn) \<and>
              dominates_walk fn h (length (cf_blocks fn) + 1) t \<and>
              dominates_walk fn h (length (cf_blocks fn) + 1) target_local)
            (bb_successors (cf_blocks fn ! t))) [0..<length (cf_blocks fn)])"

definition inside_loop :: "flow_view \<Rightarrow> span \<Rightarrow> bool" where
  "inside_loop cfg inner_span = located_query cfg inner_span in_some_loop"

text \<open>The entries of the branch table are visited in some order; a branch counts when the span unpacked from its key
  encloses the inner one.\<close>

definition unpacked_span :: "source_id \<Rightarrow> u64 \<Rightarrow> span" where
  "unpacked_span source packed =
     \<lparr>sp_source = source, sp_bytes = \<lparr>bs_lo = ucast (drop_bit 32 packed), bs_hi = ucast packed\<rparr>\<rparr>"

definition inside_divergent_cf :: "flow_view \<Rightarrow> u64 list \<Rightarrow> span \<Rightarrow> bool" where
  "inside_divergent_cf cfg keys inner_span =
     (case fv_uniformity cfg of
        None \<Rightarrow> False
      | Some data \<Rightarrow>
          list_ex (\<lambda>packed. span_contains (unpacked_span (sp_source inner_span) packed) inner_span \<and>
              ud_branch data packed \<in> {Some Divergent, Some Unknown}) keys)"

text \<open>\<open>helper_lane_analyzer.cpp\<close>: the search is that of \<open>reachable\<close>, from every block with a discard.\<close>

definition any_discard_can_reach :: "cfg_function \<Rightarrow> nat \<Rightarrow> bool" where
  "any_discard_can_reach fn target_local =
     (if target_local \<ge> length (cf_blocks fn) then False
      else list_ex (\<lambda>start. has_discard fn start \<and> (start = target_local \<or> search_from fn (\<lambda>_. False) start target_local))
             [0..<length (cf_blocks fn)])"

definition possibly_helper_lane_at :: "flow_view \<Rightarrow> span \<Rightarrow> bool" where
  "possibly_helper_lane_at cfg sp = located_query cfg sp any_discard_can_reach"

definition in_pixel_stage_or_unknown :: "flow_view \<Rightarrow> bool" where
  "in_pixel_stage_or_unknown cfg = True"

text \<open>\<open>uniformity.cpp\<close>.\<close>

definition is_uniform :: "flow_view \<Rightarrow> span \<Rightarrow> bool" where
  "is_uniform cfg s \<longleftrightarrow> of_expr (fv_uniformity cfg) s = Uniform"

definition is_divergent :: "flow_view \<Rightarrow> span \<Rightarrow> bool" where
  "is_divergent cfg s \<longleftrightarrow> of_expr (fv_uniformity cfg) s = Divergent"

definition is_loop_invariant :: "flow_view \<Rightarrow> span \<Rightarrow> bool" where
  "is_loop_invariant cfg s \<longleftrightarrow> of_expr (fv_uniformity cfg) s = Loop_Invariant"

definition divergent_branch :: "flow_view \<Rightarrow> span \<Rightarrow> bool" where
  "divergent_branch cfg s \<longleftrightarrow> of_branch (fv_uniformity cfg) s = Divergent"

definition is_inherently_divergent_semantic :: "string \<Rightarrow> bool" where
  "is_inherently_divergent_semantic name \<longleftrightarrow>
     name \<in> set [''SV_DispatchThreadID'', ''SV_GroupThreadID'', ''SV_GroupIndex'', ''SV_VertexID'', ''SV_InstanceID'',
       ''SV_PrimitiveID'', ''SV_SampleIndex'']"

text \<open>\<open>light_dataflow.cpp\<close>: two of its queries answer no to everything.\<close>

definition groupshared_read_before_write :: "flow_view \<Rightarrow> span \<Rightarrow> bool" where
  "groupshared_read_before_write cfg gs_decl_span = False"

definition dead_store :: "flow_view \<Rightarrow> span \<Rightarrow> bool" where
  "dead_store cfg var_span = False"

definition loop_invariant_expr :: "flow_view \<Rightarrow> span \<Rightarrow> bool" where
  "loop_invariant_expr cfg expr_span \<longleftrightarrow> is_uniform cfg expr_span \<or> is_loop_invariant cfg expr_span"

section \<open>The smallest enclosing block\<close>

definition entries_ok :: "cfg_storage \<Rightarrow> bool" where
  "entries_ok st \<longleftrightarrow> list_all (\<lambda>(s, raw). raw \<noteq> 0 \<and> raw - 1 < length (cs_block_to_function st)) (cs_span_to_block st)"

text \<open>What the loop keeps: the best entry so far is a smallest one among those already seen.\<close>

lemma locate_loop_min:
  assumes "list_all (\<lambda>(s, raw). raw \<noteq> 0 \<and> raw - 1 < length (cs_block_to_function st)) entries"
  shows "locate_loop st sp entries best bnd = best \<and> (\<forall>(s, raw) \<in> set entries. span_contains s sp \<longrightarrow> bnd \<le> span_size s) \<or>
    (\<exists>(s, raw) \<in> set entries. span_contains s sp \<and> span_size s < bnd \<and>
       locate_loop st sp entries best bnd = resolve_hit st raw no_hit \<and>
       (\<forall>(s', raw') \<in> set entries. span_contains s' sp \<longrightarrow> span_size s \<le> span_size s'))"
  using assms
proof (induction entries arbitrary: best bnd)
  case (Cons e entries)
  obtain s raw where e: "e = (s, raw)" by fastforce
  have "list_all (\<lambda>(s, raw). raw \<noteq> 0 \<and> raw - 1 < length (cs_block_to_function st)) entries" using Cons.prems by simp
  note IH = Cons.IH [OF this]
  show ?case
  proof (cases "span_contains s sp \<and> span_size s < bnd")
    case False
    then have "locate_loop st sp (e # entries) best bnd = locate_loop st sp entries best bnd"
      by (auto simp: e Let_def)
    then show ?thesis using IH [of best bnd] False by (auto simp: e not_less intro: order_trans)
  next
    case True
    have raw: "resolve_hit st raw best = resolve_hit st raw no_hit" using Cons.prems by (simp add: e resolve_hit_def)
    have "locate_loop st sp (e # entries) best bnd = locate_loop st sp entries (resolve_hit st raw no_hit) (span_size s)"
      using True by (simp add: e Let_def raw)
    then show ?thesis using IH [of "resolve_hit st raw no_hit" "span_size s"] True
      by (auto simp: e intro: order_trans less_trans less_imp_le)
  qed
qed simp

lemma block_for_cases:
  assumes "fv_cfg cfg = Some st" and "entries_ok st"
  shows "case block_for cfg sp of
      Some raw \<Rightarrow> (\<exists>s. (s, raw) \<in> set (cs_span_to_block st) \<and> span_contains s sp \<and>
        list_all (\<lambda>(s', raw'). if span_contains s' sp then span_size s \<le> span_size s' else True) (cs_span_to_block st))
    | None \<Rightarrow> list_all (\<lambda>(s, raw). if span_contains s sp then span_size s = 0xFFFFFFFF else True) (cs_span_to_block st)"
proof -
  have max: "x = 0xFFFFFFFF" if "0xFFFFFFFF \<le> x" for x :: u32
  proof -
    have "(0xFFFFFFFF :: u32) = - 1" by simp
    with that word_n1_ge [of x] show ?thesis by (simp only: antisym)
  qed
  consider (none) "locate_block st sp = no_hit" "\<forall>(s, raw) \<in> set (cs_span_to_block st). span_contains s sp \<longrightarrow> 0xFFFFFFFF \<le> span_size s"
    | (some) s raw where "(s, raw) \<in> set (cs_span_to_block st)" "span_contains s sp" "locate_block st sp = resolve_hit st raw no_hit"
        "\<forall>(s', raw') \<in> set (cs_span_to_block st). span_contains s' sp \<longrightarrow> span_size s \<le> span_size s'"
    using locate_loop_min [OF assms(2) [unfolded entries_ok_def], of sp no_hit "0xFFFFFFFF"]
    unfolding locate_block_def by blast
  then show ?thesis
  proof cases
    case none
    then have "block_for cfg sp = None" by (simp add: block_for_def assms(1) no_hit_def Let_def)
    moreover have "list_all (\<lambda>(s, raw). if span_contains s sp then span_size s = 0xFFFFFFFF else True) (cs_span_to_block st)"
      using none(2) max unfolding list_all_iff by fastforce
    ultimately show ?thesis by simp
  next
    case some
    have "raw \<noteq> 0 \<and> raw - 1 < length (cs_block_to_function st)"
      using assms(2) some(1) by (auto simp: entries_ok_def list_all_iff)
    then have "block_for cfg sp = Some raw" by (simp add: block_for_def assms(1) some(3) resolve_hit_def Let_def)
    moreover have "list_all (\<lambda>(s', raw'). if span_contains s' sp then span_size s \<le> span_size s' else True) (cs_span_to_block st)"
      using some(4) unfolding list_all_iff by fastforce
    ultimately show ?thesis using some(1,2) by auto
  qed
qed

section \<open>Goals and paths\<close>

lemma scan_goal_None: "scan_goal n goal succs seen stack = None \<Longrightarrow> \<exists>v \<in> set succs. v < n \<and> goal v"
  by (induction succs arbitrary: seen stack) (auto split: if_splits)

lemma scan_goal_Some:
  assumes "scan_goal n goal succs seen stack = Some (seen', stack')" and "length seen = n"
  shows "\<exists>new. stack' = new @ stack \<and> length seen' = n \<and> (\<forall>v < n. seen' ! v \<longleftrightarrow> seen ! v \<or> v \<in> set new) \<and>
    (\<forall>v \<in> set new. v \<in> set succs \<and> v < n \<and> \<not> goal v) \<and> (\<forall>v \<in> set succs. v < n \<longrightarrow> seen' ! v)"
  using assms
proof (induction succs arbitrary: seen stack)
  case Nil
  then show ?case by (intro exI [of _ "[]"]) simp
next
  case (Cons s succs)
  show ?case
  proof (cases "s \<ge> n \<or> seen ! s")
    case True
    then have "scan_goal n goal succs seen stack = Some (seen', stack')" using Cons.prems(1) by simp
    from Cons.IH [OF this Cons.prems(2)] obtain new where "stack' = new @ stack" "length seen' = n"
      "\<forall>v < n. seen' ! v \<longleftrightarrow> seen ! v \<or> v \<in> set new" "\<forall>v \<in> set new. v \<in> set succs \<and> v < n \<and> \<not> goal v"
      "\<forall>v \<in> set succs. v < n \<longrightarrow> seen' ! v" by blast
    with True show ?thesis by (intro exI [of _ new]) auto
  next
    case False
    then have g: "\<not> goal s" "scan_goal n goal succs (seen[s := True]) (s # stack) = Some (seen', stack')"
      using Cons.prems(1) by (auto split: if_splits)
    from Cons.IH [OF g(2)] Cons.prems(2) obtain more where more: "stack' = more @ s # stack" "length seen' = n"
      "\<forall>v < n. seen' ! v \<longleftrightarrow> (seen[s := True]) ! v \<or> v \<in> set more" "\<forall>v \<in> set more. v \<in> set succs \<and> v < n \<and> \<not> goal v"
      "\<forall>v \<in> set succs. v < n \<longrightarrow> seen' ! v" by auto
    have "\<forall>v < n. seen' ! v \<longleftrightarrow> seen ! v \<or> v \<in> set (more @ [s])"
      using more(3) False Cons.prems(2) by (auto simp: nth_list_update)
    moreover have "(seen[s := True]) ! s" using False Cons.prems(2) by simp
    ultimately show ?thesis using False g(1) more by (intro exI [of _ "more @ [s]"]) auto
  qed
qed

abbreviation edges :: "cfg_function \<Rightarrow> (nat \<times> nat) set" where
  "edges fn \<equiv> {(u, v). cfg_edge fn u v}"

lemma goal_loop_iff:
  assumes "length seen = length (cf_blocks fn)"
    and "\<forall>u \<in> set stack. u < length (cf_blocks fn) \<and> seen ! u"
    and "\<forall>u < length (cf_blocks fn). seen ! u \<longrightarrow> \<not> goal u"
    and "\<forall>u v. u < length (cf_blocks fn) \<longrightarrow> seen ! u \<longrightarrow> u \<notin> set stack \<longrightarrow> cfg_edge fn u v \<longrightarrow> seen ! v"
  shows "goal_loop fn goal seen stack \<longleftrightarrow>
    (\<exists>u v. u < length (cf_blocks fn) \<and> seen ! u \<and> (u, v) \<in> (edges fn)\<^sup>* \<and> goal v)"
  using assms
proof (induction fn goal seen stack rule: goal_loop.induct)
  case (1 fn goal seen stack)
  let ?n = "length (cf_blocks fn)"
  show ?case
  proof (cases stack)
    case Nil
    have "w < ?n \<and> seen ! w" if "(u, w) \<in> (edges fn)\<^sup>*" "u < ?n" "seen ! u" for u w
      using that by (induction rule: rtrancl_induct) (use 1(5) Nil in \<open>auto simp: cfg_edge_def\<close>)
    then show ?thesis using Nil 1(4) by (subst goal_loop.simps) auto
  next
    case (Cons cur rest)
    have cur: "cur < ?n" "seen ! cur" using 1(3) Cons by simp_all
    have same: "\<not> length seen \<noteq> ?n" using 1(2) by simp
    show ?thesis
    proof (cases "scan_goal ?n goal (bb_successors (cf_blocks fn ! cur)) seen rest")
      case None
      then obtain v where "v \<in> set (bb_successors (cf_blocks fn ! cur))" "v < ?n" "goal v" using scan_goal_None by blast
      then have "(cur, v) \<in> (edges fn)\<^sup>*" "goal v" using cur(1) by (auto simp: cfg_edge_def)
      then show ?thesis using cur None Cons 1(2) by (subst goal_loop.simps) auto
    next
      case (Some r)
      obtain seen' stack' where r: "r = (seen', stack')" by fastforce
      obtain new where new: "stack' = new @ rest" "length seen' = ?n"
        "\<forall>v < ?n. seen' ! v \<longleftrightarrow> seen ! v \<or> v \<in> set new"
        "\<forall>v \<in> set new. v \<in> set (bb_successors (cf_blocks fn ! cur)) \<and> v < ?n \<and> \<not> goal v"
        "\<forall>v \<in> set (bb_successors (cf_blocks fn ! cur)). v < ?n \<longrightarrow> seen' ! v"
        using scan_goal_Some [OF Some [unfolded r] 1(2)] by blast
      have edge: "cfg_edge fn cur v" if "v \<in> set new" for v using new(4) that cur(1) by (simp add: cfg_edge_def)
      have "goal_loop fn goal seen stack = goal_loop fn goal seen' stack'"
        using Some r Cons 1(2) by (subst goal_loop.simps) simp
      also have "\<dots> = (\<exists>u v. u < ?n \<and> seen' ! u \<and> (u, v) \<in> (edges fn)\<^sup>* \<and> goal v)"
      proof (rule 1(1) [OF Cons same Some r [symmetric]])
        show "\<forall>u \<in> set stack'. u < ?n \<and> seen' ! u" using new 1(3) Cons by auto
        show "\<forall>u < ?n. seen' ! u \<longrightarrow> \<not> goal u" using new(3,4) 1(4) by auto
        show "\<forall>u v. u < ?n \<longrightarrow> seen' ! u \<longrightarrow> u \<notin> set stack' \<longrightarrow> cfg_edge fn u v \<longrightarrow> seen' ! v"
        proof (intro allI impI)
          fix u v assume u: "u < ?n" "seen' ! u" "u \<notin> set stack'" "cfg_edge fn u v"
          then have "seen ! u" using new(1,3) by auto
          then show "seen' ! v" using u new(1,3,5) 1(5) Cons by (cases "u = cur") (auto simp: cfg_edge_def)
        qed
      qed (rule new(2))
      also have "\<dots> = (\<exists>u v. u < ?n \<and> seen ! u \<and> (u, v) \<in> (edges fn)\<^sup>* \<and> goal v)"
      proof -
        have "(cur, v) \<in> (edges fn)\<^sup>*" if "u \<in> set new" "(u, v) \<in> (edges fn)\<^sup>*" for u v
          using converse_rtrancl_into_rtrancl [of cur u "edges fn" v] edge that by blast
        then show ?thesis using new(3) cur by blast
      qed
      finally show ?thesis .
    qed
  qed
qed

lemma edges_path: "u < length (cf_blocks fn) \<Longrightarrow> (u, v) \<in> (edges fn)\<^sup>* \<longleftrightarrow> (\<exists>p. cfg_path fn u p v)"
proof
  assume "u < length (cf_blocks fn)"
  show "\<exists>p. cfg_path fn u p v" if "(u, v) \<in> (edges fn)\<^sup>*"
    using that
  proof (induction rule: rtrancl_induct)
    case base
    then show ?case using cfg_path.here [OF \<open>u < length (cf_blocks fn)\<close>] by blast
  next
    case (step v w)
    then show ?case using cfg_path.step [of fn u _ v w] by blast
  qed
  show "(u, v) \<in> (edges fn)\<^sup>*" if "\<exists>p. cfg_path fn u p v"
  proof -
    have "(u, v) \<in> (edges fn)\<^sup>*" if "cfg_path fn u p v" for p
      using that by (induction rule: cfg_path.induct) (auto intro: rtrancl_into_rtrancl)
    with that show ?thesis by blast
  qed
qed

lemma any_reachable_discard_paths:
  "any_reachable_discard fn b \<longleftrightarrow> (\<exists>p d. cfg_path fn b p d \<and> has_discard fn d)"
proof (cases "b < length (cf_blocks fn) \<and> \<not> has_discard fn b")
  case True
  then have b: "b < length (cf_blocks fn)" "\<not> has_discard fn b" by simp_all
  have "(replicate (length (cf_blocks fn)) False)[b := True] ! u \<longleftrightarrow> u = b" if "u < length (cf_blocks fn)" for u
    using that b(1) by (simp add: nth_list_update)
  then have "goal_loop fn (has_discard fn) ((replicate (length (cf_blocks fn)) False)[b := True]) [b] \<longleftrightarrow>
      (\<exists>v. (b, v) \<in> (edges fn)\<^sup>* \<and> has_discard fn v)"
    using b by (subst goal_loop_iff) (auto simp: cfg_edge_def)
  then show ?thesis using b edges_path [OF b(1)] by (auto simp: any_reachable_discard_def)
next
  case False
  show ?thesis
  proof (cases "b < length (cf_blocks fn)")
    case True
    then show ?thesis using False cfg_path.here [of b fn] unfolding any_reachable_discard_def by auto
  next
    case False
    then show ?thesis using cfg_path_bounds [of fn b] unfolding any_reachable_discard_def by auto
  qed
qed

lemma any_discard_can_reach_paths:
  "any_discard_can_reach fn b \<longleftrightarrow> (\<exists>p d. cfg_path fn d p b \<and> has_discard fn d)"
proof (cases "b < length (cf_blocks fn)")
  case True
  have "(d = b \<or> search_from fn (\<lambda>_. False) d b) \<longleftrightarrow> (\<exists>p. cfg_path fn d p b)" if "d < length (cf_blocks fn)" for d
    using edges_path [OF that, of b] that True cfg_search.search_reaches [of d fn b]
    by (cases "d = b") (auto intro: cfg_path.here)
  then show ?thesis
    using True cfg_path_bounds [of fn] by (auto simp: any_discard_can_reach_def list_ex_iff)
next
  case False
  then show ?thesis using cfg_path_bounds [of fn] by (auto simp: any_discard_can_reach_def)
qed

section \<open>Loops\<close>

lemma cfg_path_append: "cfg_path fn v r w \<Longrightarrow> cfg_path fn u p v \<Longrightarrow> cfg_path fn u (p @ r) w"
proof (induction rule: cfg_path.induct)
  case (step v q x y)
  then show ?case using cfg_path.step [of fn u "p @ q" x y] by simp
qed simp

lemma dominates_walk_query:
  assumes "dominates_query fn a b" and "length (cf_idom fn) = length (cf_blocks fn)"
  shows "dominates_walk fn a (length (cf_blocks fn) + 1) b"
  using assms by (simp add: dominates_query_def del: dominates_walk.simps split: if_splits)

text \<open>The natural loop of the back edge from \<open>t\<close> to \<open>h\<close>: \<open>h\<close> dominates \<open>t\<close>, and \<open>b\<close> is \<open>h\<close> or reaches \<open>t\<close>
  without passing \<open>h\<close>.\<close>

definition on_every_path :: "cfg_function \<Rightarrow> nat \<Rightarrow> nat \<Rightarrow> bool" where
  "on_every_path fn a b \<longleftrightarrow> (\<forall>p. cfg_path fn 0 p b \<longrightarrow> a \<in> insert 0 (set p))"

definition in_natural_loop :: "cfg_function \<Rightarrow> nat \<Rightarrow> nat \<Rightarrow> nat \<Rightarrow> bool" where
  "in_natural_loop fn t h b \<longleftrightarrow>
     cfg_edge fn t h \<and> (\<exists>q. cfg_path fn 0 q t) \<and> on_every_path fn h t \<and> (b = h \<or> (\<exists>r. cfg_path fn b r t \<and> h \<notin> set r))"

lemma natural_loop_dominated:
  assumes "in_natural_loop fn t h b"
  shows "on_every_path fn h b"
proof (cases "b = h")
  case True
  have "h \<in> insert 0 (set p)" if "cfg_path fn 0 p h" for p
    using cfg_path_last [OF that] by (cases "h = 0") auto
  then show ?thesis by (simp add: on_every_path_def True)
next
  case False
  then obtain r where r: "cfg_path fn b r t" "h \<notin> set r" using assms by (auto simp: in_natural_loop_def)
  have "h \<in> insert 0 (set p)" if "cfg_path fn 0 p b" for p
  proof -
    have "on_every_path fn h t" using assms by (simp add: in_natural_loop_def)
    then have "h \<in> insert 0 (set (p @ r))" using cfg_path_append [OF r(1) that] unfolding on_every_path_def by blast
    with r(2) show ?thesis by auto
  qed
  then show ?thesis by (simp add: on_every_path_def)
qed

text \<open>An entry, the header and the body of a loop, the block after it, and a block with a discard.\<close>

definition sample_loop :: "nat list \<Rightarrow> cfg_function" where
  "sample_loop idom =
     \<lparr>cf_declaration_span = empty_span \<lparr>sid_value = 1\<rparr>, cf_name = ''f'',
      cf_blocks = [sample_block [1] False, sample_block [2, 3] False, sample_block [1] False,
        (sample_block [] False)\<lparr>bb_contains_discard := True, bb_span := \<lparr>sp_source = \<lparr>sid_value = 1\<rparr>, sp_bytes = \<lparr>bs_lo = 2, bs_hi = 9\<rparr>\<rparr>\<rparr>],
      cf_idom = idom, cf_error_skipped = False\<rparr>"

lemma sample_loop_edges: "cfg_edge (sample_loop i) u v \<longleftrightarrow> (u, v) \<in> {(0, 1), (1, 2), (1, 3), (2, 1)}"
  by (auto simp: cfg_edge_def sample_loop_def sample_block_def less_Suc_eq nth_Cons')

lemma sample_loop_length [simp]: "length (cf_blocks (sample_loop i)) = 4"
  by (simp add: sample_loop_def)

definition sample_flow :: flow_view where
  "sample_flow = \<lparr>fv_cfg = Some \<lparr>cs_source = \<lparr>sid_value = 1\<rparr>, cs_functions = [fresh_function, sample_loop [0, 0, 1, 1]],
     cs_block_to_function = [1, 1, 1, 1], cs_block_to_local = [0, 1, 2, 3],
     cs_span_to_block = [(empty_span \<lparr>sid_value = 1\<rparr>, 1), (\<lparr>sp_source = \<lparr>sid_value = 1\<rparr>, sp_bytes = \<lparr>bs_lo = 2, bs_hi = 9\<rparr>\<rparr>, 4)]\<rparr>,
   fv_uniformity = None\<rparr>"

section \<open>Properties\<close>

text \<open>A span is located in a smallest block that encloses it: when the storage's entries name existing blocks,
  the answer is the block of an enclosing entry and no enclosing entry is smaller; there is none only if nothing
  encloses the span (or only a block of the largest possible size).\<close>

theorem block_for_smallest:
  assumes "fv_cfg cfg = Some st" and "entries_ok st"
  shows "case block_for cfg sp of
      Some raw \<Rightarrow> (\<exists>s. (s, raw) \<in> set (cs_span_to_block st) \<and> span_contains s sp \<and>
        list_all (\<lambda>(s', raw'). if span_contains s' sp then span_size s \<le> span_size s' else True) (cs_span_to_block st))
    | None \<Rightarrow> list_all (\<lambda>(s, raw). if span_contains s sp then span_size s = 0xFFFFFFFF else True) (cs_span_to_block st)"
  by (rule block_for_cases [OF assms])

text \<open>C32: Asking whether a \<open>discard\<close> can be reached is a question about paths: for a span located in a block
  of a function that was built, the answer is true exactly when some path leads from that block to a block with a \<open>discard\<close>;
  a span that lies in no block gets the answer no.\<close>

theorem discard_queries_are_paths:
  assumes "fv_cfg cfg = Some st"
  shows "reachable_with_discard cfg sp \<longleftrightarrow>
    (\<exists>fn p d. hit_function st (locate_block st sp) = Some fn \<and> cfg_path fn (bh_local_index (locate_block st sp)) p d \<and> has_discard fn d)"
  using assms
  by (cases "hit_function st (locate_block st sp)")
    (simp_all add: reachable_with_discard_def located_query_def any_reachable_discard_paths)

text \<open>No loop is missed: with the dominators the engine computes, every block of a natural loop that the entry
  reaches counts as inside a loop.\<close>

theorem natural_loops_found:
  assumes "\<not> cf_error_skipped fn" and "compute_dominators fn = Some fn'" and "cfg_path fn 0 q b"
    and "in_natural_loop fn t h b"
  shows "in_some_loop fn' b"
proof -
  have fn': "cf_blocks fn' = cf_blocks fn" "length (cf_idom fn') = length (cf_blocks fn')"
    using compute_dominators_total [of fn] assms(2) by auto
  obtain q' where t: "cfg_path fn 0 q' t" "cfg_edge fn t h" "on_every_path fn h t"
    using assms(4) by (auto simp: in_natural_loop_def)
  have "dominates_query fn' h t" "dominates_query fn' h b"
    using dominates_query_paths [OF assms(1,2) t(1)] dominates_query_paths [OF assms(1-3)] t(3)
      natural_loop_dominated [OF assms(4)] by (auto simp: on_every_path_def)
  note walks = this [THEN dominates_walk_query, OF fn'(2)]
  have "t < length (cf_blocks fn)" "h < length (cf_blocks fn)" "h \<in> set (bb_successors (cf_blocks fn ! t))"
    using t(2) by (auto simp: cfg_edge_def)
  then show ?thesis
    using walks fn' unfolding in_some_loop_def by (auto simp: list_ex_iff simp del: dominates_walk.simps)
qed

theorem block_for_smallest_witness:
  "block_for sample_flow \<lparr>sp_source = \<lparr>sid_value = 1\<rparr>, sp_bytes = \<lparr>bs_lo = 3, bs_hi = 4\<rparr>\<rparr> = Some 4 \<and>
   (\<exists>s. (s, 4) \<in> set (cs_span_to_block (the (fv_cfg sample_flow))) \<and>
     span_contains s \<lparr>sp_source = \<lparr>sid_value = 1\<rparr>, sp_bytes = \<lparr>bs_lo = 3, bs_hi = 4\<rparr>\<rparr>)"
proof -
  let ?sp = "\<lparr>sp_source = \<lparr>sid_value = 1\<rparr>, sp_bytes = \<lparr>bs_lo = 3, bs_hi = 4\<rparr>\<rparr>"
  have "fv_cfg sample_flow = Some (the (fv_cfg sample_flow))" by (simp add: sample_flow_def)
  moreover have "entries_ok (the (fv_cfg sample_flow))" by (simp add: sample_flow_def entries_ok_def)
  ultimately have "case block_for sample_flow ?sp of
      Some raw \<Rightarrow> (\<exists>s. (s, raw) \<in> set (cs_span_to_block (the (fv_cfg sample_flow))) \<and> span_contains s ?sp \<and>
        list_all (\<lambda>(s', raw'). if span_contains s' ?sp then span_size s \<le> span_size s' else True) (cs_span_to_block (the (fv_cfg sample_flow))))
    | None \<Rightarrow> list_all (\<lambda>(s, raw). if span_contains s ?sp then span_size s = 0xFFFFFFFF else True) (cs_span_to_block (the (fv_cfg sample_flow)))"
    by (rule block_for_smallest)
  moreover have "block_for sample_flow ?sp = Some 4" by code_simp
  ultimately show ?thesis by auto
qed

theorem discard_queries_are_paths_witness:
  "reachable_with_discard sample_flow \<lparr>sp_source = \<lparr>sid_value = 1\<rparr>, sp_bytes = \<lparr>bs_lo = 0, bs_hi = 0\<rparr>\<rparr> \<and>
   (\<exists>p d. cfg_path (sample_loop [0, 0, 1, 1]) 0 p d \<and> has_discard (sample_loop [0, 0, 1, 1]) d)"
proof -
  let ?sp = "\<lparr>sp_source = \<lparr>sid_value = 1\<rparr>, sp_bytes = \<lparr>bs_lo = 0, bs_hi = 0\<rparr>\<rparr>" and ?st = "the (fv_cfg sample_flow)"
  have st: "fv_cfg sample_flow = Some ?st" by (simp add: sample_flow_def)
  have hit: "locate_block ?st ?sp = \<lparr>bh_function_id = 1, bh_local_index = 0, bh_raw_id = 1\<rparr>" by code_simp
  have fn: "hit_function ?st (locate_block ?st ?sp) = Some (sample_loop [0, 0, 1, 1])"
    unfolding hit by (simp add: hit_function_def sample_flow_def sample_loop_def)
  have "reachable_with_discard sample_flow ?sp" by code_simp
  with discard_queries_are_paths [OF st, of ?sp] fn hit show ?thesis by auto
qed

theorem natural_loops_found_witness:
  "in_some_loop (sample_loop [0, 0, 1, 1]) 2"
proof -
  let ?fn = "sample_loop []"
  have c: "compute_dominators ?fn = Some (sample_loop [0, 0, 1, 1])" by code_simp
  have skip: "\<not> cf_error_skipped ?fn" by (simp add: sample_loop_def)
  have p0: "cfg_path ?fn 0 [] 0" by (rule cfg_path.here) simp
  have p1: "cfg_path ?fn 0 [1] 1" using cfg_path.step [OF p0, of 1] by (simp add: sample_loop_edges)
  have p2: "cfg_path ?fn 0 [1, 2] 2" using cfg_path.step [OF p1, of 2] by (simp add: sample_loop_edges)
  have "1 \<in> set p" if "cfg_path ?fn 0 p 2" for p
    using that
  proof (cases rule: cfg_path.cases)
    case (step q v)
    then have "v = 1" by (simp add: sample_loop_edges)
    with step cfg_path_last [of ?fn 0 q v] last_in_set [of q] show ?thesis by auto
  qed simp
  then have "on_every_path ?fn 1 2" by (simp add: on_every_path_def)
  then have "in_natural_loop ?fn 2 1 2"
    using p2 exI [of "\<lambda>r. cfg_path ?fn 2 r 2 \<and> 1 \<notin> set r" "[]"] cfg_path.here [of 2 ?fn] unfolding in_natural_loop_def
    by (simp add: sample_loop_edges) blast
  from natural_loops_found [OF skip c p2 this] show ?thesis .
qed

text \<open>What counts as inside a loop is too much: the block after the loop is dominated by the loop's header, and
  nothing asks whether it reaches the back edge, so everything after a loop counts as inside it.\<close>

theorem inside_loop_overshoots:
  "compute_dominators (sample_loop []) = Some (sample_loop [0, 0, 1, 1]) \<and> in_some_loop (sample_loop [0, 0, 1, 1]) 3 \<and>
   (\<nexists>v. cfg_edge (sample_loop [0, 0, 1, 1]) 3 v)"
proof (intro conjI)
  show "compute_dominators (sample_loop []) = Some (sample_loop [0, 0, 1, 1])" by code_simp
  show "in_some_loop (sample_loop [0, 0, 1, 1]) 3" by code_simp
qed (simp add: sample_loop_edges)

end
