(* ===== verification/Liveness.thy ===== *)
theory Liveness
  imports CfgQuery
begin

text \<open>
  \<^verbatim>\<open>core/src/rules/util/liveness.cpp\<close>: which variables are live at the entry and the exit of a basic
  block. A walk over the syntax tree collects, block by block, the names used before any definition and the names
  defined; sweeps over the blocks then propagate them backwards, at most \<open>8 n + 16\<close> times for \<open>n\<close> blocks. The lemmas
  compare what the sweeps compute with paths of the control-flow graph and show that the bound is never what ends them.
\<close>

section \<open>Names\<close>

definition k_type_prefixes :: "string list" where
  "k_type_prefixes =
    [''float'', ''double'', ''half'', ''min10float'', ''min16float'', ''min12int'', ''min16int'',
      ''min16uint'', ''uint'', ''int'', ''bool'', ''uint16_t'', ''uint32_t'', ''uint64_t'', ''int16_t'',
      ''int32_t'', ''int64_t'', ''vector'', ''matrix'']"

definition k_keywords :: "string list" where
  "k_keywords =
    [''if'', ''else'', ''for'', ''while'', ''do'', ''switch'', ''case'', ''default'', ''break'',
      ''continue'', ''return'', ''discard'', ''true'', ''false'', ''void'', ''in'', ''out'', ''inout'',
      ''const'', ''static'', ''uniform'', ''groupshared'', ''shared'', ''register'', ''struct'',
      ''cbuffer'', ''tbuffer'', ''typedef'', ''namespace'', ''this'', ''nullptr'', ''centroid'',
      ''noperspective'', ''linear'', ''sample'', ''nointerpolation'', ''precise'', ''snorm'', ''unorm'',
      ''row_major'', ''column_major'', ''globallycoherent'', ''reordercoherent'']"

definition is_reserved_or_type_token :: "string \<Rightarrow> bool" where
  "is_reserved_or_type_token text \<longleftrightarrow>
     text = [] \<or>
     list_ex (\<lambda>pfx. text = pfx \<or>
         (take (length pfx) text = pfx \<and> length text > length pfx \<and> is_digit_char (text ! length pfx))) k_type_prefixes \<or>
     text \<in> set k_keywords"

section \<open>Blocks of nodes\<close>

text \<open>The smallest recorded span that encloses a byte range, whatever its source; zero is no block.\<close>

definition find_enclosing_block :: "cfg_storage \<Rightarrow> u32 \<Rightarrow> u32 \<Rightarrow> nat" where
  "find_enclosing_block st node_lo node_hi =
     fst (fold (\<lambda>(block_span, raw) (best, best_size).
         if bs_lo (sp_bytes block_span) > node_lo \<or> bs_hi (sp_bytes block_span) < node_hi then (best, best_size)
         else let sz = span_size block_span in if sz < best_size then (raw, sz) else (best, best_size))
       (cs_span_to_block st) (0, 0xFFFFFFFF))"

text \<open>The blocks of a loop share the span of its statement; they are told apart by their order.\<close>

definition find_nth_block_with_exact_span :: "cfg_storage \<Rightarrow> u32 \<Rightarrow> u32 \<Rightarrow> nat \<Rightarrow> nat" where
  "find_nth_block_with_exact_span st node_lo node_hi n =
     (let matches = filter (\<lambda>(s, raw). bs_lo (sp_bytes s) = node_lo \<and> bs_hi (sp_bytes s) = node_hi) (cs_span_to_block st)
      in if n < length matches then snd (matches ! n) else 0)"

section \<open>The walker\<close>

record walk_env =
  we_storage :: cfg_storage
  we_bytes :: string

record walker =
  wk_use :: "nat \<Rightarrow> string set"
  wk_def :: "nat \<Rightarrow> string set"
  wk_defs_seen :: "u64 set"
  wk_use_skip :: "u64 set"

unbundle bit_operations_syntax

definition def_key :: "nat \<Rightarrow> string \<Rightarrow> u64" where
  "def_key block name =
     fold (\<lambda>c h. (h XOR of_char c) * 1099511628211) name (word_of_nat block * 1099511628211)"

definition block_of :: "walk_env \<Rightarrow> ts_node \<Rightarrow> nat" where
  "block_of env node = find_enclosing_block (we_storage env) (ts_start node) (ts_end node)"

definition name_of :: "walk_env \<Rightarrow> ts_node \<Rightarrow> string" where
  "name_of env ident = ast_text (we_bytes env) (Some ident)"

definition skip_use :: "ts_node \<Rightarrow> walker \<Rightarrow> walker" where
  "skip_use n w = w\<lparr>wk_use_skip := insert (pack_node n) (wk_use_skip w)\<rparr>"

definition record_def :: "walk_env \<Rightarrow> ts_node \<Rightarrow> nat \<Rightarrow> walker \<Rightarrow> walker" where
  "record_def env ident block w =
     (let text = name_of env ident in
      if block = 0 then w
      else if text = [] \<or> is_reserved_or_type_token text then w
      else skip_use ident
             (w\<lparr>wk_def := (wk_def w)(block := insert text (wk_def w block)),
                wk_defs_seen := insert (def_key block text) (wk_defs_seen w)\<rparr>))"

definition record_use :: "walk_env \<Rightarrow> ts_node \<Rightarrow> nat \<Rightarrow> walker \<Rightarrow> walker" where
  "record_use env ident block w =
     (let text = name_of env ident in
      if block = 0 then w
      else if pack_node ident \<in> wk_use_skip w then w
      else if text = [] \<or> is_reserved_or_type_token text then w
      else if def_key block text \<in> wk_defs_seen w then w
      else w\<lparr>wk_use := (wk_use w)(block := insert text (wk_use w block))\<rparr>)"

text \<open>A work list is kept with its top first: children are pushed in order, so the last one is visited first.\<close>

lemma filter_sizes: "sum_list (map node_size (filter P ns)) \<le> sum_list (map node_size ns)"
  by (induction ns) auto

lemma pushed_smaller [termination_simp]: "sum_list (map node_size (filter P (child_nodes n))) < node_size n"
  using filter_sizes [of P "child_nodes n"] children_smaller [of n] by linarith

lemma named_pushed_smaller [termination_simp]: "sum_list (map node_size (named_children n)) < node_size n"
  unfolding named_children_def by (rule pushed_smaller)

lemma field_smaller: "child_by_field n f = Some c \<Longrightarrow> node_size c < node_size n"
  by (rule child_smaller) (rule field_child)

function walk_subexpr :: "walk_env \<Rightarrow> nat \<Rightarrow> ts_node list \<Rightarrow> walker \<Rightarrow> walker" where
  "walk_subexpr env block [] w = w"
| "walk_subexpr env block (node # stack) w =
     (if ts_kind node = ''identifier'' then walk_subexpr env block stack (record_use env node block w)
      else if ts_kind node = ''call_expression''
        then let w = (case child_by_field node ''function'' of
                        None \<Rightarrow> w
                      | Some callee \<Rightarrow>
                          if ts_kind callee = ''field_expression''
                          then (case child_by_field callee ''argument'' of
                                  None \<Rightarrow> skip_use callee w
                                | Some receiver \<Rightarrow> walk_subexpr env block [receiver] (skip_use callee w))
                          else skip_use callee w)
             in (case child_by_field node ''arguments'' of
                   Some args \<Rightarrow> walk_subexpr env block (args # stack) w
                 | None \<Rightarrow> walk_subexpr env block stack w)
      else walk_subexpr env block (rev (named_children node) @ stack) w)"
  by pat_completeness auto
termination
proof (relation "measure (\<lambda>(env, block, stack, w). sum_list (map node_size stack))", goal_cases)
  case (3 env block node stack w callee receiver)
  then show ?case using field_smaller [of node "''function''" callee] field_smaller [of callee "''argument''" receiver] by simp
next
  case (6 env block node stack w)
  then show ?case using named_pushed_smaller [of node] by (simp add: rev_map [symmetric])
qed (auto dest: field_smaller)

declare walk_subexpr.simps [simp del]

text \<open>An optional node: walking a null node does nothing.\<close>

definition walk_opt :: "walk_env \<Rightarrow> nat \<Rightarrow> ts_node option \<Rightarrow> walker \<Rightarrow> walker" where
  "walk_opt env block node w = (case node of None \<Rightarrow> w | Some n \<Rightarrow> walk_subexpr env block [n] w)"

text \<open>Nodes are compared by identity, which is the position among the children.\<close>

definition field_index :: "ts_node \<Rightarrow> string \<Rightarrow> nat option" where
  "field_index n f = map_option fst (find (\<lambda>(i, g, c). g = Some f) (enumerate 0 (ts_children n)))"

definition named_except :: "ts_node \<Rightarrow> nat option \<Rightarrow> ts_node list" where
  "named_except n skip =
     map (snd \<circ> snd) (filter (\<lambda>(i, g, c). ts_named c \<and> Some i \<noteq> skip) (enumerate 0 (ts_children n)))"

definition child_at :: "ts_node \<Rightarrow> nat \<Rightarrow> ts_node option" where
  "child_at n i = (if i < length (ts_children n) then Some (child_nodes n ! i) else None)"

definition walk_assignment_lhs :: "walk_env \<Rightarrow> nat \<Rightarrow> ts_node option \<Rightarrow> walker \<Rightarrow> walker" where
  "walk_assignment_lhs env block lhs w =
     (case lhs of
        None \<Rightarrow> w
      | Some n \<Rightarrow>
          let i = (case field_index n ''argument'' of Some i \<Rightarrow> i | None \<Rightarrow> 0) in
          if ts_kind n = ''identifier'' then record_def env n block w
          else if ts_kind n = ''subscript_expression''
            then fold (\<lambda>c. walk_subexpr env block [c]) (named_except n (Some i)) (walk_opt env block (child_at n i) w)
          else if ts_kind n = ''field_expression'' then walk_opt env block (child_at n i) w
          else walk_subexpr env block [n] w)"

function unwrap_declarator :: "ts_node \<Rightarrow> ts_node" where
  "unwrap_declarator n =
     (if ts_kind n = ''array_declarator''
      then (case child_by_field n ''declarator'' of None \<Rightarrow> n | Some inner \<Rightarrow> unwrap_declarator inner)
      else n)"
  by pat_completeness auto
termination
  by (relation "measure node_size") (auto dest: field_smaller)

declare unwrap_declarator.simps [simp del]

text \<open>The value of a declarator: the field, else the last named child that is not the declarator itself; once array
  brackets have been unwrapped the declarator is no longer a child.\<close>

definition declared_value :: "ts_node \<Rightarrow> ts_node option" where
  "declared_value n =
     (case child_by_field n ''value'' of
        Some v \<Rightarrow> Some v
      | None \<Rightarrow>
          let i = (case field_index n ''declarator'' of Some i \<Rightarrow> i | None \<Rightarrow> 0);
              unwrapped = (case child_at n i of
                             None \<Rightarrow> False
                           | Some d \<Rightarrow> ts_kind d = ''array_declarator'' \<and> child_by_field d ''declarator'' \<noteq> None);
              others = named_except n (if unwrapped then None else Some i)
          in if others = [] then None else Some (last others))"

definition walk_init_declarator :: "walk_env \<Rightarrow> nat \<Rightarrow> ts_node \<Rightarrow> walker \<Rightarrow> walker" where
  "walk_init_declarator env block n w =
     (let declarator = (case child_by_field n ''declarator'' of Some d \<Rightarrow> Some d | None \<Rightarrow> child_at n 0);
          w = (case map_option unwrap_declarator declarator of
                 None \<Rightarrow> w
               | Some d \<Rightarrow> if ts_kind d = ''identifier'' then record_def env d block w else w)
      in walk_opt env block (declared_value n) w)"

text \<open>A loop over a stack that handles a node and descends into its named children unless told to stop.\<close>

function named_loop :: "(ts_node \<Rightarrow> 's \<Rightarrow> 's option) \<Rightarrow> ts_node list \<Rightarrow> 's \<Rightarrow> 's" where
  "named_loop handle [] s = s"
| "named_loop handle (n # stack) s =
     (case handle n s of
        Some s \<Rightarrow> named_loop handle stack s
      | None \<Rightarrow> named_loop handle (rev (named_children n) @ stack) s)"
  by pat_completeness auto
termination
  by (relation "measure (\<lambda>(handle, stack, s). sum_list (map node_size stack))")
    (auto simp: named_pushed_smaller simp flip: rev_map)

declare named_loop.simps [simp del]

definition walk_declaration :: "walk_env \<Rightarrow> nat \<Rightarrow> ts_node \<Rightarrow> walker \<Rightarrow> walker" where
  "walk_declaration env block decl =
     named_loop (\<lambda>n w.
         if ts_kind n = ''init_declarator'' then Some (walk_init_declarator env block n w)
         else if ts_kind n = ''identifier'' then Some (record_def env n block w)
         else None) [decl]"

definition walk_update :: "walk_env \<Rightarrow> nat \<Rightarrow> ts_node \<Rightarrow> walker \<Rightarrow> walker" where
  "walk_update env block stmt =
     named_loop (\<lambda>n w.
         if ts_kind n = ''identifier'' then Some (record_def env n block (record_use env n block w)) else None) [stmt]"

definition nth_block_or :: "walk_env \<Rightarrow> ts_node \<Rightarrow> nat \<Rightarrow> nat \<Rightarrow> nat" where
  "nth_block_or env stmt n otherwise =
     (let b = find_nth_block_with_exact_span (we_storage env) (ts_start stmt) (ts_end stmt) n
      in if b \<noteq> 0 then b else otherwise)"

text \<open>The children that get their own block, below an \<open>if_statement\<close> or \<open>switch_statement\<close> and below a compound.\<close>

definition is_arm_kind :: "string \<Rightarrow> bool" where
  "is_arm_kind k \<longleftrightarrow>
     k \<in> {''compound_statement'', ''block'', ''if_statement'', ''switch_statement'', ''while_statement'',
       ''for_statement'', ''do_statement'', ''case_statement'', ''default_statement''}"

definition is_boundary_kind :: "string \<Rightarrow> bool" where
  "is_boundary_kind k \<longleftrightarrow>
     k \<in> {''compound_statement'', ''block'', ''if_statement'', ''switch_statement'', ''for_statement'',
       ''while_statement'', ''do_statement'', ''return_statement''}"

definition is_compound_kind :: "string \<Rightarrow> bool" where
  "is_compound_kind k \<longleftrightarrow> k = ''compound_statement'' \<or> k = ''block''"

function walk_stmt :: "walk_env \<Rightarrow> ts_node \<Rightarrow> nat \<Rightarrow> walker \<Rightarrow> walker" where
  "walk_stmt env stmt block w =
     (let kind = ts_kind stmt; kids = named_children stmt in
      if kind \<in> {''declaration'', ''variable_declaration'', ''field_declaration''} then walk_declaration env block stmt w
      else if kind = ''assignment_expression''
        then walk_assignment_lhs env block (child_by_field stmt ''left'')
               (walk_opt env block (child_by_field stmt ''right'') w)
      else if kind = ''update_expression'' then walk_update env block stmt w
      else if kind = ''expression_statement'' then fold (\<lambda>c. walk_stmt env c block) kids w
      else if kind = ''return_statement'' then fold (\<lambda>c. walk_subexpr env block [c]) kids w
      else if kind = ''for_statement'' \<or> kind = ''while_statement''
        then let header = nth_block_or env stmt 0 block; body = nth_block_or env stmt 1 header in
          fold (\<lambda>c. if is_compound_kind (ts_kind c) then walk_stmt env c body
                    else if ts_kind c \<in> {''declaration'', ''init_declarator''} then walk_declaration env header c
                    else walk_subexpr env header [c]) kids w
      else if kind = ''do_statement''
        then let body = nth_block_or env stmt 0 block; cond = nth_block_or env stmt 1 body in
          fold (\<lambda>c. if is_compound_kind (ts_kind c) then walk_stmt env c body
                    else walk_subexpr env cond [c]) kids w
      else if kind = ''if_statement'' \<or> kind = ''switch_statement''
        then fold (\<lambda>c. if is_arm_kind (ts_kind c) then walk_stmt env c (block_of env c)
                       else walk_subexpr env block [c]) kids w
      else if is_compound_kind kind
        then fold (\<lambda>c. walk_stmt env c (if is_boundary_kind (ts_kind c) then block_of env c else block)) kids w
      else walk_subexpr env block [stmt] w)"
  by pat_completeness auto
termination
  by (relation "measure (\<lambda>(env, stmt, block, w). node_size stmt)") (auto intro: named_child_smaller)

declare walk_stmt.simps [simp del]

section \<open>Functions\<close>

definition first_of_kind :: "ts_node \<Rightarrow> string \<Rightarrow> ts_node option" where
  "first_of_kind n k = find (\<lambda>c. ts_kind c = k) (child_nodes n)"

definition walk_function_body :: "walk_env \<Rightarrow> ts_node \<Rightarrow> nat \<Rightarrow> walker \<Rightarrow> walker" where
  "walk_function_body env body block w = walk_stmt env body block (w\<lparr>wk_defs_seen := {}, wk_use_skip := {}\<rparr>)"

definition function_params :: "ts_node \<Rightarrow> ts_node list" where
  "function_params n =
     [param. d \<leftarrow> child_nodes n, ts_kind d = ''function_declarator'',
             p \<leftarrow> child_nodes d, ts_kind p = ''parameter_list'',
             param \<leftarrow> child_nodes p, ts_kind param = ''parameter_declaration'' \<or> ts_kind param = ''parameter'']"

definition walk_function :: "walk_env \<Rightarrow> ts_node \<Rightarrow> walker \<Rightarrow> walker" where
  "walk_function env n w =
     (case (case child_by_field n ''body'' of Some b \<Rightarrow> Some b | None \<Rightarrow> first_of_kind n ''compound_statement'') of
        None \<Rightarrow> w
      | Some body \<Rightarrow>
          walk_function_body env body (block_of env body)
            (fold (walk_declaration env (block_of env n)) (function_params n) w))"

function walk_source_loop :: "walk_env \<Rightarrow> ts_node list \<Rightarrow> walker \<Rightarrow> walker" where
  "walk_source_loop env [] w = w"
| "walk_source_loop env (n # stack) w =
     (if ts_kind n = ''function_definition'' then walk_source_loop env stack (walk_function env n w)
      else walk_source_loop env (rev (child_nodes n) @ stack) w)"
  by pat_completeness auto
termination
proof (relation "measure (\<lambda>(env, stack, w). sum_list (map node_size stack))", goal_cases)
  case (3 env n stack w)
  then show ?case using children_smaller [of n] by (simp add: rev_map [symmetric] del: children_smaller)
qed auto

definition no_walker :: walker where
  "no_walker = \<lparr>wk_use = \<lambda>_. {}, wk_def = \<lambda>_. {}, wk_defs_seen = {}, wk_use_skip = {}\<rparr>"

definition walk_source :: "walk_env \<Rightarrow> ts_node \<Rightarrow> walker" where
  "walk_source env tree = walk_source_loop env [tree] no_walker"

section \<open>Sweeps\<close>

record live_state =
  lv_in :: "nat \<rightharpoonup> string set"
  lv_out :: "nat \<rightharpoonup> string set"
  lv_changed :: bool

definition names_at :: "(nat \<rightharpoonup> string set) \<Rightarrow> nat \<Rightarrow> string set" where
  "names_at m raw = (case m raw of None \<Rightarrow> {} | Some s \<Rightarrow> s)"

definition local_to_raw :: "cfg_storage \<Rightarrow> nat \<Rightarrow> nat list" where
  "local_to_raw st fn_id = map (global_id st fn_id) [0..<length (cf_blocks (cs_functions st ! fn_id))]"

text \<open>What the successors of a block need; an index out of the table is skipped.\<close>

definition merge_out :: "cfg_function \<Rightarrow> nat list \<Rightarrow> (nat \<rightharpoonup> string set) \<Rightarrow> nat \<Rightarrow> string set" where
  "merge_out fn raws live_in i =
     fold (\<lambda>succ new_out.
         if succ \<ge> length (cf_blocks fn) then new_out
         else if raws ! succ = 0 then new_out
         else new_out \<union> names_at live_in (raws ! succ)) (bb_successors (cf_blocks fn ! i)) {}"

text \<open>Comparing with the table creates the entry of the block when there is none.\<close>

definition sweep_block :: "walker \<Rightarrow> cfg_function \<Rightarrow> nat list \<Rightarrow> nat \<Rightarrow> live_state \<Rightarrow> live_state" where
  "sweep_block w fn raws i s =
     (let raw = raws ! i in
      if raw = 0 then s
      else let new_out = merge_out fn raws (lv_in s) i;
               new_in = wk_use w raw \<union> (new_out - wk_def w raw)
           in \<lparr>lv_in = (lv_in s)(raw \<mapsto> new_in), lv_out = (lv_out s)(raw \<mapsto> new_out),
               lv_changed = (lv_changed s \<or> new_in \<noteq> names_at (lv_in s) raw \<or> new_out \<noteq> names_at (lv_out s) raw)\<rparr>)"

definition sweep :: "walker \<Rightarrow> cfg_function \<Rightarrow> nat list \<Rightarrow> live_state \<Rightarrow> live_state" where
  "sweep w fn raws s =
     fold (sweep_block w fn raws) (rev [0..<length (cf_blocks fn)]) (s\<lparr>lv_changed := False\<rparr>)"

fun sweep_loop :: "walker \<Rightarrow> cfg_function \<Rightarrow> nat list \<Rightarrow> nat \<Rightarrow> live_state \<Rightarrow> live_state" where
  "sweep_loop w fn raws 0 s = s"
| "sweep_loop w fn raws (Suc iters) s =
     (if lv_changed s then sweep_loop w fn raws iters (sweep w fn raws s) else s)"

definition max_iters :: "cfg_function \<Rightarrow> nat" where
  "max_iters fn = length (cf_blocks fn) * 8 + 16"

definition function_liveness :: "walker \<Rightarrow> cfg_storage \<Rightarrow> nat \<Rightarrow> live_state \<Rightarrow> live_state" where
  "function_liveness w st fn_id s =
     (let fn = cs_functions st ! fn_id in
      if cf_error_skipped fn \<or> cf_blocks fn = [] then s
      else sweep_loop w fn (local_to_raw st fn_id) (max_iters fn) (s\<lparr>lv_changed := True\<rparr>))"

definition liveness_tables :: "walker \<Rightarrow> cfg_storage \<Rightarrow> live_state" where
  "liveness_tables w st =
     fold (function_liveness w st) [1..<length (cs_functions st)]
       \<lparr>lv_in = Map.empty, lv_out = Map.empty, lv_changed = False\<rparr>"

section \<open>The sweeps of one variable\<close>

text \<open>Blocks as numbers and sets of names as functions: one step recomputes one block.\<close>

definition flow_in :: "(nat \<Rightarrow> nat set) \<Rightarrow> (nat \<Rightarrow> 'v set) \<Rightarrow> (nat \<Rightarrow> 'v set) \<Rightarrow> nat \<Rightarrow> (nat \<Rightarrow> 'v set) \<Rightarrow> 'v set" where
  "flow_in G U K i I = U i \<union> ((\<Union>j \<in> G i. I j) - K i)"

definition flow_step :: "(nat \<Rightarrow> nat set) \<Rightarrow> (nat \<Rightarrow> 'v set) \<Rightarrow> (nat \<Rightarrow> 'v set) \<Rightarrow> nat \<Rightarrow> (nat \<Rightarrow> 'v set) \<Rightarrow> nat \<Rightarrow> 'v set" where
  "flow_step G U K i I = I(i := flow_in G U K i I)"

definition flow_sweep :: "(nat \<Rightarrow> nat set) \<Rightarrow> (nat \<Rightarrow> 'v set) \<Rightarrow> (nat \<Rightarrow> 'v set) \<Rightarrow> nat list \<Rightarrow> (nat \<Rightarrow> 'v set) \<Rightarrow> nat \<Rightarrow> 'v set" where
  "flow_sweep G U K is = fold (flow_step G U K) is"

text \<open>A table is ascending when recomputing a block does not lose anything.\<close>

definition ascending :: "(nat \<Rightarrow> nat set) \<Rightarrow> (nat \<Rightarrow> 'v set) \<Rightarrow> (nat \<Rightarrow> 'v set) \<Rightarrow> (nat \<Rightarrow> 'v set) \<Rightarrow> bool" where
  "ascending G U K I \<longleftrightarrow> (\<forall>i. I i \<subseteq> flow_in G U K i I)"

lemma flow_in_mono: "I \<le> J \<Longrightarrow> flow_in G U K i I \<subseteq> flow_in G U K i J"
  by (fastforce simp: flow_in_def le_fun_def)

lemma flow_step_ascending: "ascending G U K I \<Longrightarrow> I \<le> flow_step G U K i I \<and> ascending G U K (flow_step G U K i I)"
proof -
  assume asc: "ascending G U K I"
  then have le: "I \<le> flow_step G U K i I" by (auto simp: le_fun_def ascending_def flow_step_def)
  have "flow_step G U K i I j \<subseteq> flow_in G U K j (flow_step G U K i I)" for j
    using asc flow_in_mono [OF le, of G U K j] by (cases "j = i") (auto simp: ascending_def flow_step_def)
  with le show ?thesis by (simp add: ascending_def)
qed

lemma flow_sweep_ascending: "ascending G U K I \<Longrightarrow> I \<le> flow_sweep G U K is I \<and> ascending G U K (flow_sweep G U K is I)"
proof (induction "is" arbitrary: I)
  case (Cons i "is")
  then show ?case using flow_step_ascending [OF Cons.prems, of i] by (force simp: flow_sweep_def intro: order_trans)
qed (simp add: flow_sweep_def)

lemma flow_sweep_below:
  assumes "\<And>i. flow_in G U K i S \<subseteq> S i" and "I \<le> S"
  shows "flow_sweep G U K is I \<le> S"
  using assms(2)
proof (induction "is" arbitrary: I)
  case (Cons i "is")
  have "flow_step G U K i I \<le> S"
    using Cons.prems assms(1) [of i] flow_in_mono [OF Cons.prems, of G U K i] by (auto simp: le_fun_def flow_step_def)
  then show ?case using Cons.IH by (simp add: flow_sweep_def)
qed (simp add: flow_sweep_def)

lemma flow_sweep_stable:
  assumes "ascending G U K I" and "flow_sweep G U K is I = I" and "i \<in> set is"
  shows "flow_in G U K i I = I i"
  using assms(2,3)
proof (induction "is")
  case (Cons k "is")
  have step: "I \<le> flow_step G U K k I" "ascending G U K (flow_step G U K k I)"
    using flow_step_ascending [OF assms(1)] by auto
  then have "flow_step G U K k I \<le> flow_sweep G U K is (flow_step G U K k I)" by (simp add: flow_sweep_ascending)
  also have "\<dots> = I" using Cons.prems(1) by (simp add: flow_sweep_def)
  finally have k: "flow_step G U K k I = I" using step(1) by simp
  then have "flow_in G U K k I = I k" by (metis flow_step_def fun_upd_same)
  with k Cons show ?case by (auto simp: flow_sweep_def)
qed simp

text \<open>One variable at a time a table is a set of blocks, so \<open>n\<close> sweeps are enough.\<close>

definition holders :: "(nat \<Rightarrow> 'v set) \<Rightarrow> 'v \<Rightarrow> nat set" where
  "holders I v = {i. v \<in> I i}"

lemma flow_sweep_holders:
  "holders I v = holders J v \<Longrightarrow> holders (flow_sweep G U K is I) v = holders (flow_sweep G U K is J) v"
proof (induction "is" arbitrary: I J)
  case (Cons i "is")
  from Cons.prems have eq: "v \<in> I j \<longleftrightarrow> v \<in> J j" for j unfolding holders_def by blast
  have "holders (flow_step G U K i I) v = holders (flow_step G U K i J) v"
    unfolding holders_def flow_step_def flow_in_def by (simp add: eq)
  from Cons.IH [OF this] show ?case by (simp add: flow_sweep_def)
qed (simp add: flow_sweep_def)

lemma flow_sweep_domain:
  "set is \<subseteq> {..<n} \<Longrightarrow> (\<And>i. \<not> i < n \<Longrightarrow> I i = {}) \<Longrightarrow> \<not> i < n \<Longrightarrow> flow_sweep G U K is I i = {}"
  by (induction "is" arbitrary: I) (auto simp: flow_sweep_def flow_step_def)

definition sweeps :: "(nat \<Rightarrow> nat set) \<Rightarrow> (nat \<Rightarrow> 'v set) \<Rightarrow> (nat \<Rightarrow> 'v set) \<Rightarrow> nat list \<Rightarrow> nat \<Rightarrow> nat \<Rightarrow> 'v set" where
  "sweeps G U K is k = (flow_sweep G U K is ^^ k) (\<lambda>_. {})"

lemma sweeps_Suc: "sweeps G U K is (Suc k) = flow_sweep G U K is (sweeps G U K is k)"
  by (simp add: sweeps_def)

lemma sweeps_ascending: "ascending G U K (sweeps G U K is k)"
  by (induction k) (simp_all add: sweeps_Suc flow_sweep_ascending, simp add: sweeps_def ascending_def)

lemma sweeps_mono: "sweeps G U K is k \<le> sweeps G U K is (Suc k)"
  using flow_sweep_ascending [OF sweeps_ascending [of G U K "is" k], of "is"] by (simp add: sweeps_Suc)

lemma sweeps_domain: "set is \<subseteq> {..<n} \<Longrightarrow> \<not> i < n \<Longrightarrow> sweeps G U K is k i = {}"
  by (induction k arbitrary: i) (simp add: sweeps_def, metis sweeps_Suc flow_sweep_domain)

lemma set_chain_stops:
  fixes S :: "nat \<Rightarrow> nat set"
  assumes "\<And>k. S k \<subseteq> S (Suc k)" and "\<And>k. S k \<subseteq> {..<n}" and "\<And>k. S k = S (Suc k) \<Longrightarrow> S (Suc k) = S (Suc (Suc k))"
  shows "S (Suc n) = S n"
proof -
  have "mono S" using assms(1) by (simp add: mono_iff_le_Suc)
  moreover have "finite (range S)" by (rule finite_subset [of _ "Pow {..<n}"]) (use assms(2) in auto)
  ultimately have "S (card {..<n}) = (\<Union>k. S k)"
    by (intro finite_mono_strict_prefix_implies_finite_fixpoint [OF assms(2) finite_lessThan]
        finite_mono_remains_stable_implies_strict_prefix) (use assms(3) in auto)
  then have "S (Suc n) \<subseteq> S n" by auto
  then show ?thesis using assms(1) by blast
qed

lemma sweeps_stop: assumes "set is \<subseteq> {..<n}" shows "sweeps G U K is (Suc n) = sweeps G U K is n"
proof -
  have "holders (sweeps G U K is (Suc n)) v = holders (sweeps G U K is n) v" for v
  proof (rule set_chain_stops [where S = "\<lambda>k. holders (sweeps G U K is k) v"])
    show "holders (sweeps G U K is k) v \<subseteq> holders (sweeps G U K is (Suc k)) v" for k
      using sweeps_mono [of G U K "is" k] by (auto simp: holders_def le_fun_def)
    show "holders (sweeps G U K is k) v \<subseteq> {..<n}" for k
      using sweeps_domain [OF assms, of _ G U K k] by (fastforce simp: holders_def)
    show "holders (sweeps G U K is (Suc k)) v = holders (sweeps G U K is (Suc (Suc k))) v"
      if "holders (sweeps G U K is k) v = holders (sweeps G U K is (Suc k)) v" for k
      using flow_sweep_holders [OF that, of G U K "is"] by (simp only: sweeps_Suc)
  qed
  then have "v \<in> sweeps G U K is (Suc n) i \<longleftrightarrow> v \<in> sweeps G U K is n i" for v i unfolding holders_def by blast
  then show ?thesis by (intro ext) blast
qed

section \<open>The tables as functions of the block\<close>

definition table_view :: "cfg_storage \<Rightarrow> nat \<Rightarrow> (nat \<rightharpoonup> string set) \<Rightarrow> nat \<Rightarrow> string set" where
  "table_view st f m i = (if i < block_count f st then names_at m (global_id st f i) else {})"

definition succ_set :: "cfg_storage \<Rightarrow> nat \<Rightarrow> nat \<Rightarrow> nat set" where
  "succ_set st f i = (if i < block_count f st then set (bb_successors (cf_blocks (the_fn f st) ! i)) else {})"

definition use_view :: "walker \<Rightarrow> cfg_storage \<Rightarrow> nat \<Rightarrow> nat \<Rightarrow> string set" where
  "use_view w st f i = (if i < block_count f st then wk_use w (global_id st f i) else {})"

definition def_view :: "walker \<Rightarrow> cfg_storage \<Rightarrow> nat \<Rightarrow> nat \<Rightarrow> string set" where
  "def_view w st f i = wk_def w (global_id st f i)"

definition step_view :: "walker \<Rightarrow> cfg_storage \<Rightarrow> nat \<Rightarrow> nat \<Rightarrow> (nat \<Rightarrow> string set) \<Rightarrow> string set" where
  "step_view w st f = flow_in (succ_set st f) (use_view w st f) (def_view w st f)"

definition out_of :: "cfg_storage \<Rightarrow> nat \<Rightarrow> (nat \<Rightarrow> string set) \<Rightarrow> nat \<Rightarrow> string set" where
  "out_of st f I i = (\<Union>j \<in> succ_set st f i. I j)"

lemma global_id_inj:
  assumes "storage_ok st" "f < length (cs_functions st)" "i < block_count f st" "g < length (cs_functions st)" "j < block_count g st"
  shows "global_id st f i = global_id st g j \<longleftrightarrow> f = g \<and> i = j"
  using global_id_resolves [OF assms(1,2,3)] global_id_resolves [OF assms(1,4,5)] by (metis prod.inject)

lemma succ_set_below:
  "storage_ok st \<Longrightarrow> f < length (cs_functions st) \<Longrightarrow> j \<in> succ_set st f i \<Longrightarrow> j < block_count f st"
  using storage_okD(6) [of st f] by (auto simp: succ_set_def edges_inside_def split: if_splits)

lemma local_to_raw_nth: "i < block_count f st \<Longrightarrow> local_to_raw st f ! i = global_id st f i"
  by (simp add: local_to_raw_def)

lemma merge_out_view:
  assumes ok: "storage_ok st" "f < length (cs_functions st)" "i < block_count f st"
  shows "merge_out (the_fn f st) (local_to_raw st f) m i = out_of st f (table_view st f m) i"
proof -
  let ?succs = "bb_successors (cf_blocks (the_fn f st) ! i)"
  have "fold (\<lambda>succ new_out. if succ \<ge> block_count f st then new_out
         else if local_to_raw st f ! succ = 0 then new_out
         else new_out \<union> names_at m (local_to_raw st f ! succ)) succs N = N \<union> (\<Union>j \<in> set succs. table_view st f m j)"
    if "set succs \<subseteq> {..<block_count f st}" for succs N
    using that
  proof (induction succs arbitrary: N)
    case (Cons s succs)
    then have s: "s < block_count f st" by simp
    then show ?case
      using Cons global_id_resolves [OF ok(1,2) s] by (simp add: local_to_raw_nth table_view_def Un_assoc)
  qed simp
  from this [of ?succs "{}"] show ?thesis
    using succ_set_below [OF ok(1,2), of _ i] ok(3) by (auto simp: merge_out_def out_of_def succ_set_def)
qed

definition live_views :: "cfg_storage \<Rightarrow> nat \<Rightarrow> live_state \<Rightarrow> (nat \<Rightarrow> string set) \<times> (nat \<Rightarrow> string set)" where
  "live_views st f s = (table_view st f (lv_in s), table_view st f (lv_out s))"

abbreviation in_view :: "cfg_storage \<Rightarrow> nat \<Rightarrow> live_state \<Rightarrow> nat \<Rightarrow> string set" where
  "in_view st f s \<equiv> table_view st f (lv_in s)"

abbreviation out_view :: "cfg_storage \<Rightarrow> nat \<Rightarrow> live_state \<Rightarrow> nat \<Rightarrow> string set" where
  "out_view st f s \<equiv> table_view st f (lv_out s)"

lemma table_view_upd:
  assumes "storage_ok st" "f < length (cs_functions st)" "i < block_count f st"
  shows "table_view st f (m(global_id st f i \<mapsto> X)) = (table_view st f m)(i := X)"
proof (rule ext)
  fix j
  show "table_view st f (m(global_id st f i \<mapsto> X)) j = ((table_view st f m)(i := X)) j"
    using assms(3) global_id_inj [OF assms(1,2) _ assms(2,3), of j] by (simp add: table_view_def names_at_def)
qed

lemma sweep_block_view:
  assumes ok: "storage_ok st" "f < length (cs_functions st)" "i < block_count f st"
  fixes w s defines "s' \<equiv> sweep_block w (the_fn f st) (local_to_raw st f) i s"
  shows "in_view st f s' = flow_step (succ_set st f) (use_view w st f) (def_view w st f) i (in_view st f s)"
    and "out_view st f s' = (out_view st f s)(i := out_of st f (in_view st f s) i)"
    and "lv_changed s' \<longleftrightarrow> lv_changed s \<or> step_view w st f i (in_view st f s) \<noteq> in_view st f s i \<or>
           out_of st f (in_view st f s) i \<noteq> out_view st f s i"
proof -
  let ?raw = "global_id st f i" and ?out = "out_of st f (in_view st f s) i"
  let ?in = "wk_use w ?raw \<union> (?out - wk_def w ?raw)"
  have step: "?in = step_view w st f i (in_view st f s)"
    using ok(3) by (simp add: step_view_def flow_in_def out_of_def use_view_def def_view_def)
  have "?raw \<noteq> 0" using global_id_resolves [OF ok] by simp
  then have s': "s' = \<lparr>lv_in = (lv_in s)(?raw \<mapsto> ?in), lv_out = (lv_out s)(?raw \<mapsto> ?out),
      lv_changed = (lv_changed s \<or> ?in \<noteq> names_at (lv_in s) ?raw \<or> ?out \<noteq> names_at (lv_out s) ?raw)\<rparr>"
    unfolding s'_def sweep_block_def Let_def using merge_out_view [OF ok] ok(3) by (simp add: local_to_raw_nth)
  show "in_view st f s' = flow_step (succ_set st f) (use_view w st f) (def_view w st f) i (in_view st f s)"
    using step by (simp add: s' table_view_upd [OF ok] flow_step_def step_view_def)
  show "out_view st f s' = (out_view st f s)(i := ?out)"
    by (simp add: s' table_view_upd [OF ok])
  show "lv_changed s' \<longleftrightarrow> lv_changed s \<or> step_view w st f i (in_view st f s) \<noteq> in_view st f s i \<or> ?out \<noteq> out_view st f s i"
    using ok(3) step by (simp add: s') (simp add: table_view_def)
qed

abbreviation sweep_blocks :: "walker \<Rightarrow> cfg_storage \<Rightarrow> nat \<Rightarrow> nat list \<Rightarrow> live_state \<Rightarrow> live_state" where
  "sweep_blocks w st f is \<equiv> fold (sweep_block w (the_fn f st) (local_to_raw st f)) is"

lemma sweep_blocks_in:
  assumes ok: "storage_ok st" "f < length (cs_functions st)" and "set is \<subseteq> {..<block_count f st}"
  shows "in_view st f (sweep_blocks w st f is s) =
    flow_sweep (succ_set st f) (use_view w st f) (def_view w st f) is (in_view st f s)"
  using assms(3) by (induction "is" arbitrary: s) (simp_all add: flow_sweep_def sweep_block_view(1) [OF ok])

text \<open>Blocks whose names agree with their successors': the step only sets what is live at the exit.\<close>

lemma sweep_blocks_stable:
  assumes ok: "storage_ok st" "f < length (cs_functions st)" and "set is \<subseteq> {..<block_count f st}"
    and "\<forall>i \<in> set is. step_view w st f i (in_view st f s) = in_view st f s i"
  shows "in_view st f (sweep_blocks w st f is s) = in_view st f s \<and>
    (\<forall>i. out_view st f (sweep_blocks w st f is s) i =
       (if i \<in> set is then out_of st f (in_view st f s) i else out_view st f s i)) \<and>
    (lv_changed (sweep_blocks w st f is s) \<longrightarrow>
       lv_changed s \<or> (\<exists>i \<in> set is. out_of st f (in_view st f s) i \<noteq> out_view st f s i))"
  using assms(3,4)
proof (induction "is" arbitrary: s)
  case (Cons i "is")
  let ?s = "sweep_block w (the_fn f st) (local_to_raw st f) i s"
  have i: "i < block_count f st" using Cons.prems by simp
  have same: "in_view st f ?s = in_view st f s"
    using Cons.prems(2) by (simp add: sweep_block_view(1) [OF ok i] flow_step_def flip: step_view_def)
  have out: "out_view st f ?s = (out_view st f s)(i := out_of st f (in_view st f s) i)"
    by (rule sweep_block_view(2) [OF ok i])
  have changed: "lv_changed ?s \<longleftrightarrow> lv_changed s \<or> out_of st f (in_view st f s) i \<noteq> out_view st f s i"
    using Cons.prems(2) by (simp add: sweep_block_view(3) [OF ok i])
  have IH: "in_view st f (sweep_blocks w st f is ?s) = in_view st f s"
    "\<And>j. out_view st f (sweep_blocks w st f is ?s) j =
       (if j \<in> set is then out_of st f (in_view st f s) j else out_view st f ?s j)"
    "lv_changed (sweep_blocks w st f is ?s) \<Longrightarrow>
       lv_changed ?s \<or> (\<exists>j \<in> set is. out_of st f (in_view st f s) j \<noteq> out_view st f ?s j)"
    using Cons.IH [of ?s] Cons.prems by (simp_all add: same)
  have "\<exists>j \<in> set (i # is). out_of st f (in_view st f s) j \<noteq> out_view st f s j"
    if ch: "lv_changed (sweep_blocks w st f is ?s)" "\<not> lv_changed s"
  proof (cases "lv_changed ?s")
    case True
    then show ?thesis using changed ch(2) by simp
  next
    case False
    then obtain j where "j \<in> set is" "out_of st f (in_view st f s) j \<noteq> out_view st f ?s j" using IH(3) ch(1) by blast
    then show ?thesis by (cases "j = i") (auto simp: out)
  qed
  then show ?case using IH(1,2) out by auto
qed simp

lemma sweep_block_changed: "lv_changed s \<Longrightarrow> lv_changed (sweep_block w fn raws i s)"
  by (simp add: sweep_block_def Let_def)

lemma sweep_blocks_changed: "lv_changed s \<Longrightarrow> lv_changed (fold (sweep_block w fn raws) is s)"
  by (induction "is" arbitrary: s) (simp_all add: sweep_block_changed)

lemma sweep_blocks_unchanged:
  assumes ok: "storage_ok st" "f < length (cs_functions st)" and "set is \<subseteq> {..<block_count f st}"
    and "\<not> lv_changed (sweep_blocks w st f is s)"
  shows "in_view st f (sweep_blocks w st f is s) = in_view st f s \<and> out_view st f (sweep_blocks w st f is s) = out_view st f s \<and>
    (\<forall>i \<in> set is. step_view w st f i (in_view st f s) = in_view st f s i \<and> out_of st f (in_view st f s) i = out_view st f s i)"
  using assms(3,4)
proof (induction "is" arbitrary: s)
  case (Cons i "is")
  let ?s = "sweep_block w (the_fn f st) (local_to_raw st f) i s"
  have i: "i < block_count f st" using Cons.prems by simp
  have "\<not> lv_changed ?s" using Cons.prems(2) sweep_blocks_changed by auto
  then have eqs: "step_view w st f i (in_view st f s) = in_view st f s i" "out_of st f (in_view st f s) i = out_view st f s i"
    by (auto simp: sweep_block_view(3) [OF ok i])
  then have "in_view st f ?s = in_view st f s" "out_view st f ?s = out_view st f s"
    by (simp_all add: sweep_block_view(1,2) [OF ok i] flow_step_def flip: step_view_def)
  with eqs Cons.IH [of ?s] Cons.prems show ?case by simp
qed simp

section \<open>The loop reaches the fixed point\<close>

definition swept :: "walker \<Rightarrow> cfg_storage \<Rightarrow> nat \<Rightarrow> nat \<Rightarrow> nat \<Rightarrow> string set" where
  "swept w st f = sweeps (succ_set st f) (use_view w st f) (def_view w st f) (rev [0..<block_count f st])"

lemma swept_Suc: "swept w st f (Suc k) =
    flow_sweep (succ_set st f) (use_view w st f) (def_view w st f) (rev [0..<block_count f st]) (swept w st f k)"
  by (simp add: swept_def sweeps_Suc)

lemma swept_late: "block_count f st \<le> k \<Longrightarrow> swept w st f k = swept w st f (block_count f st)"
proof (induction k rule: dec_induct)
  case (step k)
  then have "swept w st f (Suc k) = swept w st f (Suc (block_count f st))" by (simp only: swept_Suc)
  also have "\<dots> = swept w st f (block_count f st)" unfolding swept_def by (rule sweeps_stop) auto
  finally show ?case .
qed simp

lemma swept_fixed:
  assumes "block_count f st \<le> k" and "i < block_count f st"
  shows "step_view w st f i (swept w st f k) = swept w st f k i"
proof -
  have "swept w st f (Suc k) = swept w st f k"
    using swept_late [of st f "Suc k" w] swept_late [OF assms(1), of w] assms(1) by simp
  then have "flow_sweep (succ_set st f) (use_view w st f) (def_view w st f) (rev [0..<block_count f st]) (swept w st f k) =
    swept w st f k" by (simp only: swept_Suc)
  moreover have "ascending (succ_set st f) (use_view w st f) (def_view w st f) (swept w st f k)"
    unfolding swept_def by (rule sweeps_ascending)
  ultimately show ?thesis using assms(2) unfolding step_view_def by (intro flow_sweep_stable) auto
qed

text \<open>What holds after \<open>k\<close> sweeps.\<close>

definition settled :: "walker \<Rightarrow> cfg_storage \<Rightarrow> nat \<Rightarrow> live_state \<Rightarrow> bool" where
  "settled w st f s \<longleftrightarrow>
     (\<forall>i < block_count f st. step_view w st f i (in_view st f s) = in_view st f s i \<and>
        out_of st f (in_view st f s) i = out_view st f s i)"

definition after_sweeps :: "walker \<Rightarrow> cfg_storage \<Rightarrow> nat \<Rightarrow> nat \<Rightarrow> live_state \<Rightarrow> bool" where
  "after_sweeps w st f k s \<longleftrightarrow>
     in_view st f s = swept w st f k \<and>
     (lv_changed s \<or> settled w st f s) \<and>
     (block_count f st < k \<longrightarrow> (\<forall>i < block_count f st. out_of st f (in_view st f s) i = out_view st f s i)) \<and>
     (Suc (block_count f st) < k \<longrightarrow> \<not> lv_changed s)"

lemma after_sweep:
  assumes ok: "storage_ok st" "f < length (cs_functions st)" and s: "after_sweeps w st f k s"
  shows "after_sweeps w st f (Suc k) (sweep w (the_fn f st) (local_to_raw st f) s)"
proof -
  let ?n = "block_count f st" and ?is = "rev [0..<block_count f st]" and ?s = "s\<lparr>lv_changed := False\<rparr>"
  let ?t = "sweep w (the_fn f st) (local_to_raw st f) s"
  have t: "?t = sweep_blocks w st f ?is ?s" by (simp add: sweep_def)
  have sub: "set ?is \<subseteq> {..<?n}" by auto
  have start: "in_view st f ?s = swept w st f k" using s by (simp add: after_sweeps_def)
  have "in_view st f ?t = swept w st f (Suc k)"
    unfolding t sweep_blocks_in [OF ok sub] start by (simp only: swept_Suc)
  moreover have "settled w st f ?t" if "\<not> lv_changed ?t"
    using sweep_blocks_unchanged [OF ok sub, of w ?s] that by (simp add: t settled_def)
  moreover have "(\<forall>i < ?n. out_of st f (in_view st f ?t) i = out_view st f ?t i) \<and> (?n < k \<longrightarrow> \<not> lv_changed ?t)" if "?n \<le> k"
  proof -
    have fixed: "\<forall>i \<in> set ?is. step_view w st f i (in_view st f ?s) = in_view st f ?s i"
      using swept_fixed [OF that] start by simp
    note stable = sweep_blocks_stable [OF ok sub fixed]
    show ?thesis using stable s by (auto simp: t after_sweeps_def)
  qed
  ultimately show ?thesis by (auto simp: after_sweeps_def)
qed

lemma sweep_loop_agrees:
  assumes ok: "storage_ok st" "f < length (cs_functions st)"
  shows "after_sweeps w st f k s \<Longrightarrow> Suc (block_count f st) < k + m \<Longrightarrow>
    \<exists>k'. after_sweeps w st f k' (sweep_loop w (the_fn f st) (local_to_raw st f) m s) \<and>
      \<not> lv_changed (sweep_loop w (the_fn f st) (local_to_raw st f) m s)"
proof (induction m arbitrary: k s)
  case 0
  then show ?case by (auto simp: after_sweeps_def)
next
  case (Suc m)
  show ?case
  proof (cases "lv_changed s")
    case True
    then show ?thesis using Suc.IH [OF after_sweep [OF ok Suc.prems(1)]] Suc.prems(2) by simp
  qed (use Suc.prems in auto)
qed

section \<open>Paths\<close>

lemma cfg_path_Cons: "cfg_path fn u (w # p) v \<longleftrightarrow> cfg_edge fn u w \<and> cfg_path fn w p v"
proof
  assume "cfg_path fn u (w # p) v"
  then show "cfg_edge fn u w \<and> cfg_path fn w p v"
  proof (induction p arbitrary: v rule: rev_induct)
    case Nil
    then have "v = w" "cfg_edge fn u w"
      using cfg_path_snocE [of fn u "[]" w v, simplified] by (auto elim!: cfg_path_NilE)
    then show ?case by (simp add: cfg_edge_def cfg_path.here)
  next
    case (snoc x p)
    then have "cfg_path fn u ((w # p) @ [x]) v" by simp
    then obtain y where y: "v = x" "cfg_path fn u (w # p) y" "cfg_edge fn y x" by (rule cfg_path_snocE) blast
    from snoc.IH [OF y(2)] y show ?case by (auto intro: cfg_path.step)
  qed
next
  have "cfg_path fn w p v \<Longrightarrow> cfg_edge fn u w \<Longrightarrow> cfg_path fn u (w # p) v"
  proof (induction rule: cfg_path.induct)
    case (here w)
    then show ?case using cfg_path.step [OF cfg_path.here [of u fn], of w] by (simp add: cfg_edge_def)
  next
    case (step x q y z)
    then show ?case using cfg_path.step [of fn u "x # q" y z] by simp
  qed
  then show "cfg_edge fn u w \<and> cfg_path fn w p v \<Longrightarrow> cfg_path fn u (w # p) v" by blast
qed

text \<open>A name is needed at the entry of a block when a path leads to a block that uses it first, and no block before that
  one defines it.\<close>

definition needed_at :: "walker \<Rightarrow> cfg_storage \<Rightarrow> nat \<Rightarrow> nat \<Rightarrow> string set" where
  "needed_at w st f i =
     {v. \<exists>p j. cfg_path (the_fn f st) i p j \<and> v \<in> use_view w st f j \<and> (\<forall>b \<in> set (butlast (i # p)). v \<notin> def_view w st f b)}"

lemma succ_set_edge:
  assumes "storage_ok st" "f < length (cs_functions st)"
  shows "j \<in> succ_set st f i \<longleftrightarrow> cfg_edge (the_fn f st) i j"
  using succ_set_below [OF assms, of j i] by (auto simp: succ_set_def cfg_edge_def split: if_splits)

lemma needed_unfold:
  assumes ok: "storage_ok st" "f < length (cs_functions st)"
  shows "needed_at w st f i = step_view w st f i (needed_at w st f)" (is "?L = ?R")
proof (intro equalityI subsetI)
  fix v assume "v \<in> ?L"
  then obtain p j where p: "cfg_path (the_fn f st) i p j" "v \<in> use_view w st f j" "\<forall>b \<in> set (butlast (i # p)). v \<notin> def_view w st f b"
    by (auto simp: needed_at_def)
  show "v \<in> ?R"
  proof (cases p)
    case Nil
    then have "j = i" using p(1) by (auto elim: cfg_path_NilE)
    then show ?thesis using p(2) by (simp add: step_view_def flow_in_def)
  next
    case (Cons k q)
    then have "k \<in> succ_set st f i" "cfg_path (the_fn f st) k q j" "v \<notin> def_view w st f i"
      "\<forall>b \<in> set (butlast (k # q)). v \<notin> def_view w st f b"
      using p by (simp_all add: cfg_path_Cons succ_set_edge [OF ok])
    then have "v \<in> needed_at w st f k" using p(2) unfolding needed_at_def by blast
    with \<open>k \<in> succ_set st f i\<close> \<open>v \<notin> def_view w st f i\<close> show ?thesis by (auto simp: step_view_def flow_in_def)
  qed
next
  fix v assume "v \<in> ?R"
  then consider "v \<in> use_view w st f i" | k where "k \<in> succ_set st f i" "v \<in> needed_at w st f k" "v \<notin> def_view w st f i"
    by (auto simp: step_view_def flow_in_def)
  then show "v \<in> ?L"
  proof cases
    case 1
    then have "cfg_path (the_fn f st) i [] i" by (intro cfg_path.here) (simp add: use_view_def split: if_splits)
    with 1 show ?thesis unfolding needed_at_def by (intro CollectI exI [of _ "[]"] exI [of _ i]) simp
  next
    case 2
    then obtain p j where p: "cfg_path (the_fn f st) k p j" "v \<in> use_view w st f j" "\<forall>b \<in> set (butlast (k # p)). v \<notin> def_view w st f b"
      by (auto simp: needed_at_def)
    with 2 have "cfg_path (the_fn f st) i (k # p) j" "\<forall>b \<in> set (butlast (i # k # p)). v \<notin> def_view w st f b"
      by (simp_all add: cfg_path_Cons succ_set_edge [OF ok])
    with p(2) show ?thesis unfolding needed_at_def by blast
  qed
qed

lemma swept_below_needed:
  assumes ok: "storage_ok st" "f < length (cs_functions st)"
  shows "swept w st f k \<le> needed_at w st f"
proof (induction k)
  case (Suc k)
  show ?case unfolding swept_Suc
    by (rule flow_sweep_below [OF _ Suc]) (metis needed_unfold [OF ok] step_view_def order_refl)
qed (simp add: swept_def sweeps_def le_fun_def)

lemma needed_below_fixed:
  assumes ok: "storage_ok st" "f < length (cs_functions st)"
    and fixed: "\<And>i. i < block_count f st \<Longrightarrow> step_view w st f i I = I i"
  shows "needed_at w st f i \<subseteq> I i"
proof -
  have "cfg_path (the_fn f st) i p j \<Longrightarrow> v \<in> use_view w st f j \<Longrightarrow> \<forall>b \<in> set (butlast (i # p)). v \<notin> def_view w st f b \<Longrightarrow> v \<in> I i" for p j v
  proof (induction p arbitrary: i)
    case Nil
    then have "j = i" "i < block_count f st" by (auto elim: cfg_path_NilE dest: cfg_path_bounds)
    then show ?case using fixed [of i] Nil(2) by (auto simp: step_view_def flow_in_def)
  next
    case (Cons k p)
    then have "v \<in> I k" "k \<in> succ_set st f i" "v \<notin> def_view w st f i" by (simp_all add: cfg_path_Cons succ_set_edge [OF ok])
    then have "v \<in> step_view w st f i I" by (auto simp: step_view_def flow_in_def)
    moreover have "i < block_count f st" using Cons.prems(1) by (auto dest: cfg_path_bounds)
    ultimately show ?case using fixed by blast
  qed
  then show ?thesis by (auto simp: needed_at_def)
qed

section \<open>All functions\<close>

lemma table_view_other:
  assumes "storage_ok st" "f < length (cs_functions st)" "g < length (cs_functions st)" "g \<noteq> f" "i < block_count g st"
  shows "table_view st f (m(global_id st g i \<mapsto> X)) = table_view st f m"
proof (rule ext)
  fix j
  show "table_view st f (m(global_id st g i \<mapsto> X)) j = table_view st f m j"
    using assms(4) global_id_inj [OF assms(1,2) _ assms(3,5), of j] by (simp add: table_view_def names_at_def)
qed

lemma sweep_block_other:
  assumes "storage_ok st" "f < length (cs_functions st)" "g < length (cs_functions st)" "g \<noteq> f" "i < block_count g st"
  shows "in_view st f (sweep_block w (the_fn g st) (local_to_raw st g) i s) = in_view st f s \<and>
    out_view st f (sweep_block w (the_fn g st) (local_to_raw st g) i s) = out_view st f s"
  using table_view_other [OF assms] assms(5) by (simp add: sweep_block_def Let_def local_to_raw_nth)

lemma function_liveness_other:
  assumes ok: "storage_ok st" "f < length (cs_functions st)" "g < length (cs_functions st)" "g \<noteq> f"
  shows "in_view st f (function_liveness w st g s) = in_view st f s \<and> out_view st f (function_liveness w st g s) = out_view st f s"
proof -
  have blocks: "in_view st f (sweep_blocks w st g is s) = in_view st f s \<and> out_view st f (sweep_blocks w st g is s) = out_view st f s"
    if "set is \<subseteq> {..<block_count g st}" for "is" s
    using that by (induction "is" arbitrary: s) (simp_all add: sweep_block_other [OF ok])
  have "in_view st f (sweep_loop w (the_fn g st) (local_to_raw st g) m s) = in_view st f s \<and>
      out_view st f (sweep_loop w (the_fn g st) (local_to_raw st g) m s) = out_view st f s" for m s
    by (induction m arbitrary: s) (simp_all add: sweep_def blocks subset_eq)
  then show ?thesis by (simp add: function_liveness_def Let_def)
qed

lemma function_liveness_result:
  assumes ok: "storage_ok st" "f < length (cs_functions st)"
    and "\<not> cf_error_skipped (the_fn f st)" and "cf_blocks (the_fn f st) \<noteq> []" and empty: "in_view st f s = (\<lambda>_. {})"
  shows "in_view st f (function_liveness w st f s) = needed_at w st f \<and>
    out_view st f (function_liveness w st f s) = out_of st f (needed_at w st f) \<and>
    \<not> lv_changed (function_liveness w st f s)"
proof -
  let ?t = "function_liveness w st f s"
  have t: "?t = sweep_loop w (the_fn f st) (local_to_raw st f) (max_iters (the_fn f st)) (s\<lparr>lv_changed := True\<rparr>)"
    using assms(3,4) by (simp add: function_liveness_def Let_def)
  have "after_sweeps w st f 0 (s\<lparr>lv_changed := True\<rparr>)"
    using empty by (simp add: after_sweeps_def swept_def sweeps_def)
  from sweep_loop_agrees [OF ok this, of "max_iters (the_fn f st)"]
  obtain k where k: "after_sweeps w st f k ?t" "\<not> lv_changed ?t" by (auto simp: t max_iters_def)
  then have agree: "settled w st f ?t" and view: "in_view st f ?t = swept w st f k" by (auto simp: after_sweeps_def)
  have "needed_at w st f i \<subseteq> in_view st f ?t i" for i
    by (rule needed_below_fixed [OF ok]) (use agree in \<open>simp add: settled_def\<close>)
  then have eq: "in_view st f ?t = needed_at w st f"
    using swept_below_needed [OF ok, of w k] view by (intro order_antisym) (simp_all add: le_fun_def)
  moreover have "out_view st f ?t = out_of st f (needed_at w st f)"
  proof (rule ext)
    fix i
    show "out_view st f ?t i = out_of st f (needed_at w st f) i"
      using agree eq by (cases "i < block_count f st") (simp_all add: settled_def, simp add: table_view_def out_of_def succ_set_def)
  qed
  ultimately show ?thesis using k(2) by simp
qed

lemma liveness_tables_view:
  assumes ok: "storage_ok st" "0 < f" "f < length (cs_functions st)"
    and "\<not> cf_error_skipped (the_fn f st)" and "cf_blocks (the_fn f st) \<noteq> []"
  shows "in_view st f (liveness_tables w st) = needed_at w st f \<and>
    out_view st f (liveness_tables w st) = out_of st f (needed_at w st f)"
proof -
  have others: "set gs \<subseteq> {..<length (cs_functions st)} \<Longrightarrow> f \<notin> set gs \<Longrightarrow>
      in_view st f (fold (function_liveness w st) gs s) = in_view st f s \<and>
      out_view st f (fold (function_liveness w st) gs s) = out_view st f s" for gs s
    by (induction gs arbitrary: s) (simp_all add: function_liveness_other [OF ok(1,3)])
  let ?s0 = "\<lparr>lv_in = Map.empty, lv_out = Map.empty, lv_changed = False\<rparr>"
  let ?s1 = "fold (function_liveness w st) [1..<f] ?s0"
  have split: "[1..<length (cs_functions st)] = [1..<f] @ f # [Suc f..<length (cs_functions st)]"
    using ok(2,3) upt_add_eq_append [of 1 f "length (cs_functions st) - f"] upt_conv_Cons [OF ok(3)] by simp
  have "in_view st f ?s1 = (\<lambda>_. {})"
    using others [of "[1..<f]" ?s0] ok(3) by (simp add: subset_eq) (simp add: table_view_def names_at_def fun_eq_iff)
  from function_liveness_result [OF ok(1,3) assms(4,5) this, of w]
  moreover have "liveness_tables w st = fold (function_liveness w st) [Suc f..<length (cs_functions st)] (function_liveness w st f ?s1)"
    by (simp only: liveness_tables_def split fold_append fold_simps comp_apply)
  ultimately show ?thesis using others [of "[Suc f..<length (cs_functions st)]" "function_liveness w st f ?s1"]
    by (simp add: subset_eq)
qed

section \<open>The result\<close>

record liveness_info =
  li_in_per_block :: "(nat \<times> string list) list"
  li_out_per_block :: "(nat \<times> string list) list"

text \<open>Entries in the order of their ids; an id is at most the number of blocks.\<close>

definition finalize_table :: "nat \<Rightarrow> (nat \<rightharpoonup> string set) \<Rightarrow> (nat \<times> string list) list" where
  "finalize_table blocks src =
     map (\<lambda>raw. (raw, sorted_list_of_set (names_at src raw))) (filter (\<lambda>raw. src raw \<noteq> None) [0..<Suc blocks])"

definition lookup_block :: "(nat \<times> string list) list \<Rightarrow> nat \<Rightarrow> string list" where
  "lookup_block table block =
     (case dropWhile (\<lambda>(raw, names). raw < block) table of
        [] \<Rightarrow> []
      | (raw, names) # _ \<Rightarrow> if raw \<noteq> block then [] else names)"

definition live_in_at :: "liveness_info \<Rightarrow> nat \<Rightarrow> string list" where
  "live_in_at li block = lookup_block (li_in_per_block li) block"

definition live_out_at :: "liveness_info \<Rightarrow> nat \<Rightarrow> string list" where
  "live_out_at li block = lookup_block (li_out_per_block li) block"

text \<open>A graph without storage and a source without tree have no liveness.\<close>

definition compute_liveness :: "cfg_storage option \<Rightarrow> ts_node option \<Rightarrow> string \<Rightarrow> liveness_info" where
  "compute_liveness cfg tree bytes =
     (case cfg of
        None \<Rightarrow> \<lparr>li_in_per_block = [], li_out_per_block = []\<rparr>
      | Some st \<Rightarrow>
          (case tree of
             None \<Rightarrow> \<lparr>li_in_per_block = [], li_out_per_block = []\<rparr>
           | Some tree \<Rightarrow>
               let w = walk_source \<lparr>we_storage = st, we_bytes = bytes\<rparr> tree;
                   live = liveness_tables w st;
                   blocks = length (cs_block_to_function st)
               in \<lparr>li_in_per_block = finalize_table blocks (lv_in live), li_out_per_block = finalize_table blocks (lv_out live)\<rparr>))"

lemma lookup_block_sorted:
  "sorted_wrt (<) (map fst table) \<Longrightarrow>
     lookup_block table block = (case map_of table block of None \<Rightarrow> [] | Some names \<Rightarrow> names)"
proof (induction table)
  case (Cons e table)
  obtain raw names where e: "e = (raw, names)" by fastforce
  show ?case
  proof (cases "raw < block")
    case True
    then show ?thesis using Cons by (simp add: lookup_block_def e)
  next
    case False
    then have "block \<notin> fst ` set table" if "raw \<noteq> block" using Cons.prems that by (auto simp: e)
    then have "map_of table block = None" if "raw \<noteq> block" using that by (simp add: map_of_eq_None_iff)
    then show ?thesis using False by (simp add: lookup_block_def e)
  qed
qed (simp add: lookup_block_def)

lemma lookup_finalize:
  assumes "block \<le> blocks"
  shows "lookup_block (finalize_table blocks src) block = sorted_list_of_set (names_at src block)"
proof -
  let ?raws = "filter (\<lambda>raw. src raw \<noteq> None) [0..<Suc blocks]"
  have ids: "map fst (finalize_table blocks src) = ?raws" by (simp add: finalize_table_def comp_def)
  have "sorted_wrt (<) (map fst (finalize_table blocks src))" unfolding ids by (intro sorted_wrt_filter sorted_wrt_upt)
  moreover have "map_of (finalize_table blocks src) block =
      (if src block = None then None else Some (sorted_list_of_set (names_at src block)))"
    using assms by (auto simp: finalize_table_def map_of_map_restrict restrict_map_def simp del: upt_Suc)
  ultimately show ?thesis by (auto simp: lookup_block_sorted names_at_def)
qed

section \<open>What the walk keeps\<close>

text \<open>The walk only acts on its tables through \<open>record_def\<close>, \<open>record_use\<close> and \<open>skip_use\<close>, and by clearing its memos.\<close>

locale walk_invariant =
  fixes env :: walk_env and P :: "walker \<Rightarrow> bool"
  assumes start: "P no_walker"
    and recorded_def: "P w \<Longrightarrow> P (record_def env n b w)"
    and recorded_use: "P w \<Longrightarrow> P (record_use env n b w)"
    and skipped: "P w \<Longrightarrow> P (skip_use n w)"
    and cleared: "P w \<Longrightarrow> P (w\<lparr>wk_defs_seen := {}, wk_use_skip := {}\<rparr>)"
begin

lemma fold_keeps: "(\<And>c w. c \<in> set cs \<Longrightarrow> P w \<Longrightarrow> P (f c w)) \<Longrightarrow> P w \<Longrightarrow> P (fold f cs w)"
  by (induction cs arbitrary: w) simp_all

lemma subexpr_keeps: "P w \<Longrightarrow> P (walk_subexpr env b stack w)"
proof (induction stack arbitrary: w rule: measure_induct_rule [of "\<lambda>stack. sum_list (map node_size stack)"])
  case (less stack)
  show ?case
  proof (cases stack)
    case Nil
    then show ?thesis using less.prems by (simp add: walk_subexpr.simps)
  next
    case (Cons n rest)
    have rest: "P w \<Longrightarrow> P (walk_subexpr env b rest w)" for w by (rule less.IH) (simp_all add: Cons)
    have kids: "P w \<Longrightarrow> P (walk_subexpr env b (rev (named_children n) @ rest) w)" for w
      by (rule less.IH) (simp_all add: Cons named_pushed_smaller flip: rev_map)
    have args: "P w \<Longrightarrow> child_by_field n f = Some c \<Longrightarrow> P (walk_subexpr env b (c # rest) w)" for w c f
      by (rule less.IH) (use field_smaller in \<open>simp_all add: Cons\<close>)
    have receiver: "P w \<Longrightarrow> child_by_field n f = Some c \<Longrightarrow> child_by_field c g = Some r \<Longrightarrow> P (walk_subexpr env b [r] w)" for w c f g r
      by (rule less.IH) (use field_smaller [of n f c] field_smaller [of c g r] in \<open>simp_all add: Cons\<close>)
    define w' where "w' = (case child_by_field n ''function'' of
                        None \<Rightarrow> w
                      | Some callee \<Rightarrow>
                          if ts_kind callee = ''field_expression''
                          then (case child_by_field callee ''argument'' of
                                  None \<Rightarrow> skip_use callee w
                                | Some receiver \<Rightarrow> walk_subexpr env b [receiver] (skip_use callee w))
                          else skip_use callee w)"
    have "P w'" using less.prems receiver skipped by (auto simp: w'_def split: option.split)
    then show ?thesis using less.prems rest kids args recorded_use unfolding Cons
      by (subst walk_subexpr.simps(2)) (simp add: Let_def flip: w'_def split: option.split)
  qed
qed

lemma opt_keeps: "P w \<Longrightarrow> P (walk_opt env b n w)"
  by (simp add: walk_opt_def subexpr_keeps split: option.split)

lemma named_loop_keeps:
  assumes "\<And>n w w'. P w \<Longrightarrow> handle n w = Some w' \<Longrightarrow> P w'" and "P w"
  shows "P (named_loop handle stack w)"
  using assms(2)
proof (induction stack arbitrary: w rule: measure_induct_rule [of "\<lambda>stack. sum_list (map node_size stack)"])
  case (less stack)
  show ?case
  proof (cases stack)
    case (Cons n rest)
    have "P (named_loop handle (rev (named_children n) @ rest) w)"
      by (rule less.IH) (simp_all add: Cons less.prems named_pushed_smaller flip: rev_map)
    moreover have "P (named_loop handle rest w')" if "handle n w = Some w'" for w'
      by (rule less.IH) (use assms(1) [OF less.prems that] in \<open>simp_all add: Cons\<close>)
    ultimately show ?thesis by (simp add: Cons named_loop.simps split: option.split)
  qed (simp add: named_loop.simps less.prems)
qed

lemma lhs_keeps: "P w \<Longrightarrow> P (walk_assignment_lhs env b lhs w)"
  by (auto simp: walk_assignment_lhs_def Let_def split: option.split intro!: fold_keeps subexpr_keeps opt_keeps recorded_def)

lemma init_keeps: "P w \<Longrightarrow> P (walk_init_declarator env b n w)"
  by (auto simp: walk_init_declarator_def Let_def split: option.split intro!: opt_keeps recorded_def)

lemma declaration_keeps: "P w \<Longrightarrow> P (walk_declaration env b n w)"
  unfolding walk_declaration_def by (rule named_loop_keeps) (auto split: if_splits intro: init_keeps recorded_def)

lemma update_keeps: "P w \<Longrightarrow> P (walk_update env b n w)"
  unfolding walk_update_def by (rule named_loop_keeps) (auto split: if_splits intro: recorded_use recorded_def)

lemma stmt_keeps: "P w \<Longrightarrow> P (walk_stmt env stmt b w)"
proof (induction stmt arbitrary: b w rule: measure_induct_rule [of node_size])
  case (less stmt)
  then show ?case
    unfolding walk_stmt.simps [of env stmt] Let_def
    by (simp add: declaration_keeps lhs_keeps opt_keeps update_keeps subexpr_keeps named_child_smaller fold_keeps)
qed

lemma function_keeps: "P w \<Longrightarrow> P (walk_function env n w)"
  by (auto simp: walk_function_def walk_function_body_def split: option.split
      intro!: stmt_keeps cleared fold_keeps declaration_keeps)

lemma source_keeps: "P (walk_source env n)"
proof -
  have "P w \<Longrightarrow> P (walk_source_loop env stack w)" for stack w
  proof (induction stack arbitrary: w rule: measure_induct_rule [of "\<lambda>stack. sum_list (map node_size stack)"])
    case (less stack)
    show ?case
    proof (cases stack)
      case (Cons n rest)
      have "P (walk_source_loop env (rev (child_nodes n) @ rest) w)"
        by (rule less.IH) (use children_smaller [of n] in \<open>simp_all add: Cons less.prems flip: rev_map\<close>)
      moreover have "P (walk_source_loop env rest (walk_function env n w))"
        by (rule less.IH) (simp_all add: Cons function_keeps less.prems)
      ultimately show ?thesis by (simp add: Cons)
    qed (simp add: less.prems)
  qed
  then show ?thesis using start unfolding walk_source_def by blast
qed

end

text \<open>Names in the tables: finitely many for each block, none for no block, never empty, a keyword or a type.\<close>

definition names_ok :: "string set \<Rightarrow> bool" where
  "names_ok s \<longleftrightarrow> finite s \<and> (\<forall>v \<in> s. v \<noteq> [] \<and> \<not> is_reserved_or_type_token v)"

definition tables_ok :: "walker \<Rightarrow> bool" where
  "tables_ok w \<longleftrightarrow> (\<forall>b. names_ok (wk_use w b) \<and> names_ok (wk_def w b)) \<and> wk_use w 0 = {} \<and> wk_def w 0 = {}"

interpretation tables: walk_invariant env tables_ok for env
  by unfold_locales
    (auto simp: tables_ok_def names_ok_def no_walker_def record_def_def record_use_def skip_use_def Let_def)

text \<open>\<open>f(){if(c){x=b;}}\<close>, the arm with or without its braces, and \<open>f(){x=a;return x;}\<close>.\<close>

definition sample_assign :: "u32 \<Rightarrow> u32 \<Rightarrow> u32 \<Rightarrow> ts_node" where
  "sample_assign lo eq hi = Ts_Node ''expression_statement'' True lo hi
     [(None, Ts_Node ''assignment_expression'' True lo hi
        [(Some ''left'', Ts_Node ''identifier'' True lo eq []), (Some ''right'', Ts_Node ''identifier'' True (eq + 1) hi [])])]"

definition sample_source :: "ts_node list \<Rightarrow> u32 \<Rightarrow> ts_node" where
  "sample_source stmts hi = Ts_Node ''translation_unit'' True 0 hi [(None, Ts_Node ''function_definition'' True 0 hi
     [(Some ''body'', Ts_Node ''compound_statement'' True 3 hi (map (Pair None) stmts))])]"

definition sample_if :: "bool \<Rightarrow> ts_node" where
  "sample_if braces = sample_source [Ts_Node ''if_statement'' True 4 15
     [(Some ''condition'', Ts_Node ''identifier'' True 7 8 []),
      (Some ''consequence'', if braces then Ts_Node ''compound_statement'' True 9 15 [(None, sample_assign 10 11 13)]
                             else sample_assign 10 11 13)]] 16"

definition sample_return :: ts_node where
  "sample_return = sample_source [sample_assign 4 5 7,
     Ts_Node ''return_statement'' True 8 17 [(None, Ts_Node ''identifier'' True 15 16 [])]] 18"

definition if_text :: string where "if_text = ''f(){if(c){x=b;}}''"
definition return_text :: string where "return_text = ''f(){x=a;return x;}''"

definition built_storage :: "ts_node \<Rightarrow> string \<Rightarrow> cfg_storage" where
  "built_storage tree bytes = fst (build_cfg (\<lambda>_. False) (Some tree) \<lparr>sid_value = 1\<rparr> bytes)"

text \<open>What the builder makes of them: the block of a whole function, and blocks with one span each.\<close>

definition flat_storage :: "u32 \<Rightarrow> (u32 \<times> u32 \<times> nat list) list \<Rightarrow> cfg_storage" where
  "flat_storage hi blocks =
     (let sp = (\<lambda>lo hi. \<lparr>sp_source = \<lparr>sid_value = 1\<rparr>, sp_bytes = \<lparr>bs_lo = lo, bs_hi = hi\<rparr>\<rparr>) in
      \<lparr>cs_source = \<lparr>sid_value = 1\<rparr>,
       cs_functions = [fresh_function, \<lparr>cf_declaration_span = sp 0 hi, cf_name = [],
         cf_blocks = map (\<lambda>(l, h, succs). (fresh_block (sp l h))\<lparr>bb_successors := succs, bb_is_exit := (succs = [])\<rparr>) blocks,
         cf_idom = [], cf_error_skipped = False\<rparr>],
       cs_block_to_function = replicate (length blocks) 1, cs_block_to_local = [0..<length blocks],
       cs_span_to_block = map (\<lambda>(i, l, h, succs). (sp l h, Suc i)) (enumerate 0 blocks)\<rparr>)"

lemma if_storage: "built_storage (sample_if b) if_text = flat_storage 16 [(0, 16, [1, 2]), (4, 15, [2]), (4, 15, [])]"
  by (cases b; simp only:; code_simp)

lemma return_storage: "built_storage sample_return return_text = flat_storage 18 [(0, 18, []), (8, 17, [])]"
  by code_simp

section \<open>Tables of the result\<close>

lemma merge_out_ok: "(\<And>r. names_ok (names_at m r)) \<Longrightarrow> names_ok (merge_out fn raws m i)"
proof -
  assume m: "\<And>r. names_ok (names_at m r)"
  have union: "names_ok N \<Longrightarrow> names_ok (N \<union> names_at m r)" for N r using m [of r] by (auto simp: names_ok_def)
  have "names_ok N \<Longrightarrow> names_ok (fold (\<lambda>succ new_out.
         if succ \<ge> length (cf_blocks fn) then new_out
         else if raws ! succ = 0 then new_out
         else new_out \<union> names_at m (raws ! succ)) succs N)" for succs N
    by (induction succs arbitrary: N) (simp_all add: union)
  moreover have "names_ok {}" by (simp add: names_ok_def)
  ultimately show ?thesis unfolding merge_out_def by blast
qed

definition live_ok :: "live_state \<Rightarrow> bool" where
  "live_ok s \<longleftrightarrow> (\<forall>r. names_ok (names_at (lv_in s) r) \<and> names_ok (names_at (lv_out s) r))"

lemma sweep_block_ok: "tables_ok w \<Longrightarrow> live_ok s \<Longrightarrow> live_ok (sweep_block w fn raws i s)"
proof -
  assume w: "tables_ok w" and s: "live_ok s"
  have out: "names_ok (merge_out fn raws (lv_in s) i)" by (rule merge_out_ok) (use s in \<open>simp add: live_ok_def\<close>)
  moreover have "names_ok (wk_use w (raws ! i) \<union> (merge_out fn raws (lv_in s) i - wk_def w (raws ! i)))"
    using w out by (auto simp: tables_ok_def names_ok_def)
  ultimately show ?thesis using s by (simp add: sweep_block_def Let_def live_ok_def) (simp add: names_at_def)
qed

lemma liveness_tables_ok: "tables_ok w \<Longrightarrow> live_ok (liveness_tables w st)"
proof -
  assume w: "tables_ok w"
  have blocks: "live_ok s \<Longrightarrow> live_ok (fold (sweep_block w fn raws) is s)" for fn raws "is" s
    by (induction "is" arbitrary: s) (simp_all add: sweep_block_ok [OF w])
  have sweep: "live_ok s \<Longrightarrow> live_ok (sweep w fn raws s)" for fn raws s
    unfolding sweep_def by (rule blocks) (simp add: live_ok_def)
  have loop: "live_ok s \<Longrightarrow> live_ok (sweep_loop w fn raws m s)" for fn raws m s
    by (induction m arbitrary: s) (simp_all add: sweep)
  have set_changed: "live_ok s \<Longrightarrow> live_ok (s\<lparr>lv_changed := c\<rparr>)" for s c by (simp add: live_ok_def)
  have fn: "live_ok (function_liveness w st f s)" if s: "live_ok s" for f s
    using s loop [OF set_changed [OF s, of True]] unfolding function_liveness_def Let_def by (simp only: if_split) simp
  have "live_ok s \<Longrightarrow> live_ok (fold (function_liveness w st) fs s)" for fs s
    by (induction fs arbitrary: s) (simp_all add: fn)
  moreover have "live_ok \<lparr>lv_in = Map.empty, lv_out = Map.empty, lv_changed = False\<rparr>"
    by (simp add: live_ok_def names_ok_def names_at_def)
  ultimately show ?thesis unfolding liveness_tables_def by blast
qed

lemma lookup_ok:
  assumes "live_ok s"
  shows "list_all (\<lambda>v. v \<noteq> [] \<and> \<not> is_reserved_or_type_token v) (lookup_block (finalize_table blocks (lv_in s)) r) \<and>
    sorted_wrt (<) (lookup_block (finalize_table blocks (lv_in s)) r) \<and>
    list_all (\<lambda>v. v \<noteq> [] \<and> \<not> is_reserved_or_type_token v) (lookup_block (finalize_table blocks (lv_out s)) r) \<and>
    sorted_wrt (<) (lookup_block (finalize_table blocks (lv_out s)) r)"
proof -
  have beyond: "lookup_block (finalize_table blocks m) r = []" if "blocks < r" for m
  proof -
    have "dropWhile (\<lambda>(raw, names). raw < r) (finalize_table blocks m) = []"
      using that by (auto simp: finalize_table_def simp del: upt_Suc)
    then show ?thesis by (simp only: lookup_block_def list.case)
  qed
  have names: "names_ok (names_at (lv_in s) r)" "names_ok (names_at (lv_out s) r)" using assms by (auto simp: live_ok_def)
  show ?thesis
  proof (cases "r \<le> blocks")
    case True
    then show ?thesis using names by (simp add: lookup_finalize list_all_iff names_ok_def)
  qed (use beyond in simp)
qed

section \<open>Properties\<close>

text \<open>C17: What the server of dead-store and pressure rules is told is liveness over paths: for a block of a function that
  was built, a name is live at its entry exactly when some path leads to a block that uses the name before defining it,
  and no block the path leaves before defines it; at its exit, exactly when it is live at the entry of a successor.\<close>

theorem live_names_are_needed:
  assumes "storage_ok st" and "raw \<noteq> 0" and "raw \<le> length (cs_block_to_function st)" and "resolve_block st raw = (f, i)"
    and "\<not> cf_error_skipped (cs_functions st ! f)"
    and "w = walk_source \<lparr>we_storage = st, we_bytes = bytes\<rparr> tree" and "li = compute_liveness (Some st) (Some tree) bytes"
  shows "set (live_in_at li raw) =
      {v. \<exists>p j. cfg_path (cs_functions st ! f) i p j \<and> v \<in> wk_use w (global_id st f j) \<and>
            (\<forall>b \<in> set (butlast (i # p)). v \<notin> wk_def w (global_id st f b))} \<and>
    set (live_out_at li raw) =
      (\<Union>j \<in> set (bb_successors (cf_blocks (cs_functions st ! f) ! i)). set (live_in_at li (global_id st f j)))"
proof -
  let ?t = "liveness_tables w st" and ?n = "length (cs_block_to_function st)"
  have f: "0 < f" "f < length (cs_functions st)" "i < block_count f st" "global_id st f i = raw"
    using resolve_in_range [OF assms(1-3)] assms(4) by auto
  note views = liveness_tables_view [OF assms(1) f(1,2) assms(5), of w]
  have nonempty: "cf_blocks (the_fn f st) \<noteq> []" using f(3) by auto
  have ok: "live_ok ?t" by (rule liveness_tables_ok) (simp add: assms(6) tables.source_keeps)
  have at: "set (live_in_at li r) = names_at (lv_in ?t) r" "set (live_out_at li r) = names_at (lv_out ?t) r" if "r \<le> ?n" for r
    using that ok by (simp_all add: assms(6,7) compute_liveness_def Let_def live_in_at_def live_out_at_def lookup_finalize)
      (simp_all add: live_ok_def names_ok_def assms(6))
  have live_in: "set (live_in_at li (global_id st f j)) = needed_at w st f j" if "j < block_count f st" for j
    using at(1) [OF global_id_below [OF assms(1) f(2) that]] views nonempty that
    by (simp add: table_view_def fun_eq_iff) metis
  have "set (live_out_at li raw) = out_of st f (needed_at w st f) i"
    using at(2) [OF assms(3)] views nonempty f(3,4) by (simp add: table_view_def fun_eq_iff) metis
  also have "\<dots> = (\<Union>j \<in> set (bb_successors (cf_blocks (the_fn f st) ! i)). set (live_in_at li (global_id st f j)))"
    using live_in succ_set_below [OF assms(1) f(2), of _ i] f(3) by (auto simp: out_of_def succ_set_def)
  finally have "set (live_out_at li raw) = \<dots>" .
  moreover have "needed_at w st f i = {v. \<exists>p j. cfg_path (the_fn f st) i p j \<and> v \<in> wk_use w (global_id st f j) \<and>
            (\<forall>b \<in> set (butlast (i # p)). v \<notin> wk_def w (global_id st f b))}"
    unfolding needed_at_def def_view_def use_view_def by (auto dest: cfg_path_bounds)
  ultimately show ?thesis using live_in [OF f(3)] f(4) by simp
qed

text \<open>C18: The sweeps over a function end because nothing changes any more: two sweeps more than the function has blocks
  are always enough, so the defensive bound of eight sweeps per block is never what stops them.\<close>

theorem liveness_sweeps_end:
  assumes "storage_ok st" and "f < length (cs_functions st)" and "length (cf_blocks (cs_functions st ! f)) + 2 \<le> iters"
  shows "\<not> lv_changed (sweep_loop w (cs_functions st ! f) (local_to_raw st f) iters
    \<lparr>lv_in = Map.empty, lv_out = Map.empty, lv_changed = True\<rparr>)"
proof -
  have "after_sweeps w st f 0 \<lparr>lv_in = Map.empty, lv_out = Map.empty, lv_changed = True\<rparr>"
    by (simp add: after_sweeps_def swept_def sweeps_def) (simp add: table_view_def names_at_def fun_eq_iff)
  from sweep_loop_agrees [OF assms(1,2) this, of iters] assms(3) show ?thesis by auto
qed

text \<open>C31: What a lookup returns for any block id is a strictly ascending list of names, none of them empty, a keyword or
  the name of a built-in type, whatever the graph and the tree.\<close>

theorem live_names_listed:
  "list_all (\<lambda>v. v \<noteq> [] \<and> \<not> is_reserved_or_type_token v) (live_in_at (compute_liveness cfg tree bytes) block) \<and>
   sorted_wrt (<) (live_in_at (compute_liveness cfg tree bytes) block) \<and>
   list_all (\<lambda>v. v \<noteq> [] \<and> \<not> is_reserved_or_type_token v) (live_out_at (compute_liveness cfg tree bytes) block) \<and>
   sorted_wrt (<) (live_out_at (compute_liveness cfg tree bytes) block)"
proof (cases cfg)
  case None
  then show ?thesis by (simp add: compute_liveness_def live_in_at_def live_out_at_def lookup_block_def)
next
  case (Some st)
  show ?thesis
  proof (cases tree)
    case None
    then show ?thesis using Some by (simp add: compute_liveness_def live_in_at_def live_out_at_def lookup_block_def)
  next
    case (Some node)
    have "live_ok (liveness_tables (walk_source \<lparr>we_storage = st, we_bytes = bytes\<rparr> node) st)"
      by (rule liveness_tables_ok) (rule tables.source_keeps)
    from lookup_ok [OF this] show ?thesis
      using \<open>cfg = Some st\<close> Some by (simp add: compute_liveness_def Let_def live_in_at_def live_out_at_def)
  qed
qed

text \<open>A returned value is not live before its \<open>return\<close>: in \<open>f(){x=a;return x;}\<close> the walk files the use of \<open>x\<close>
  under the block that the builder starts after the \<open>return\<close>, which no edge leads to. So nothing is live at the exit of
  the block that sets \<open>x\<close>, and the assignment looks dead.\<close>

theorem returned_name_not_live:
  "let st = built_storage sample_return return_text;
       li = compute_liveness (Some st) (Some sample_return) return_text
   in live_in_at li 2 = [''x''] \<and> live_out_at li 1 = [] \<and>
      map bb_successors (cf_blocks (cs_functions st ! 1)) = [[], []]"
  unfolding return_storage Let_def by (intro conjI; code_simp)

text \<open>An assignment that is the whole arm of an \<open>if\<close>, without braces, is filed as uses only: the block of the arm
  of \<open>if(c){x=b;}\<close> defines \<open>x\<close>, that of \<open>if(c)x=b;\<close> nothing.\<close>

theorem unbraced_assignment_is_use:
  "(let defs = \<lambda>b. wk_def (walk_source \<lparr>we_storage = built_storage (sample_if b) if_text, we_bytes = if_text\<rparr> (sample_if b)) 2
    in defs True = {''x''} \<and> defs False = {})"
  unfolding if_storage Let_def by (intro conjI; code_simp)

text \<open>The condition of an \<open>if\<close> is filed under the block of its first arm, which has the span of the statement.\<close>

theorem condition_filed_under_arm:
  "wk_use (walk_source \<lparr>we_storage = built_storage (sample_if True) if_text, we_bytes = if_text\<rparr> (sample_if True)) 1 = {} \<and>
   ''c'' \<in> wk_use (walk_source \<lparr>we_storage = built_storage (sample_if True) if_text, we_bytes = if_text\<rparr> (sample_if True)) 2"
  unfolding if_storage by (intro conjI; code_simp)

theorem live_names_are_needed_witness:
  "let st = built_storage (sample_if True) if_text; li = compute_liveness (Some st) (Some (sample_if True)) if_text in
   live_in_at li 1 = [''b'', ''c''] \<and> (\<exists>p j. cfg_path (cs_functions st ! 1) 0 p j \<and>
     ''b'' \<in> wk_use (walk_source \<lparr>we_storage = st, we_bytes = if_text\<rparr> (sample_if True)) (global_id st 1 j))"
proof -
  let ?st = "built_storage (sample_if True) if_text"
  have ok: "storage_ok ?st" unfolding built_storage_def by (rule build_cfg_ok)
  have facts: "(1::nat) \<le> length (cs_block_to_function ?st) \<and> resolve_block ?st 1 = (1, 0) \<and>
    \<not> cf_error_skipped (cs_functions ?st ! 1)" unfolding if_storage by code_simp
  have names: "live_in_at (compute_liveness (Some ?st) (Some (sample_if True)) if_text) 1 = [''b'', ''c'']"
    unfolding if_storage by code_simp
  have "set (live_in_at (compute_liveness (Some ?st) (Some (sample_if True)) if_text) 1) =
    {v. \<exists>p j. cfg_path (cs_functions ?st ! 1) 0 p j \<and>
      v \<in> wk_use (walk_source \<lparr>we_storage = ?st, we_bytes = if_text\<rparr> (sample_if True)) (global_id ?st 1 j) \<and>
      (\<forall>b \<in> set (butlast (0 # p)). v \<notin> wk_def (walk_source \<lparr>we_storage = ?st, we_bytes = if_text\<rparr> (sample_if True)) (global_id ?st 1 b))}"
    using live_names_are_needed [OF ok _ _ _ _ refl refl, of 1 1 0] facts by simp
  moreover have "''b'' \<in> set (live_in_at (compute_liveness (Some ?st) (Some (sample_if True)) if_text) 1)" unfolding names by simp
  ultimately show ?thesis using names unfolding Let_def by blast
qed

theorem liveness_sweeps_end_witness:
  "\<not> lv_changed (sweep_loop no_walker (cs_functions (built_storage sample_return return_text) ! 1)
    (local_to_raw (built_storage sample_return return_text) 1) 32 \<lparr>lv_in = Map.empty, lv_out = Map.empty, lv_changed = True\<rparr>)"
proof (rule liveness_sweeps_end)
  show "storage_ok (built_storage sample_return return_text)" unfolding built_storage_def by (rule build_cfg_ok)
  show "1 < length (cs_functions (built_storage sample_return return_text))"
    "length (cf_blocks (cs_functions (built_storage sample_return return_text) ! 1)) + 2 \<le> 32"
    unfolding return_storage by code_simp+
qed

end
