(* ===== verification/Pressure.thy ===== *)
theory Pressure
  imports Liveness Wire
begin

text \<open>
  \<^verbatim>\<open>core/src/rules/util/register_pressure_ast.cpp\<close>: how many registers of 32 bits the names live at
  the entry of each block take. The width of a name comes from the reflected constant buffers, else from the type
  written where it is declared, else it is 32 bits. The lemmas give the widths of the built-in types in their two
  spellings and what the list of estimates holds; \<open>std::sort\<close> does not say how blocks with equal estimates are
  ordered, and no statement depends on the order the model gives them.
\<close>

section \<open>Widths of types\<close>

definition k_qualifiers :: "string list" where
  "k_qualifiers =
    [''row_major '', ''column_major '', ''snorm '', ''unorm '', ''centroid '', ''noperspective '', ''linear '',
     ''sample '', ''nointerpolation '', ''precise '', ''uniform '', ''static '', ''const '', ''globallycoherent '',
     ''groupshared '']"

definition has_prefix :: "string \<Rightarrow> string \<Rightarrow> bool" where
  "has_prefix pfx s \<longleftrightarrow> take (length pfx) s = pfx"

lemma has_prefix_length: "has_prefix pfx s \<Longrightarrow> length pfx \<le> length s"
  unfolding has_prefix_def by (metis length_take min.cobounded1)

function strip_qualifiers :: "string \<Rightarrow> string" where
  "strip_qualifiers s =
     (case find (\<lambda>pfx. has_prefix pfx s) k_qualifiers of
        None \<Rightarrow> s
      | Some pfx \<Rightarrow> strip_qualifiers (drop (length pfx) s))"
  by pat_completeness auto
termination
proof (relation "measure length", goal_cases)
  case (2 s pfx)
  then have "pfx \<in> set k_qualifiers" "has_prefix pfx s" by (auto simp: find_Some_iff)
  moreover have "list_all (\<lambda>pfx. 0 < length pfx) k_qualifiers" by (simp add: k_qualifiers_def)
  ultimately have "0 < length pfx" "length pfx \<le> length s" by (simp_all add: list_all_iff has_prefix_length)
  then have "length s - length pfx < length s" by linarith
  then show ?case by simp
qed simp

declare strip_qualifiers.simps [simp del]

definition k_scalar_prefixes :: "(string \<times> u32) list" where
  "k_scalar_prefixes =
    [(''min16float'', 16), (''min10float'', 16), (''min16int'', 16), (''min12int'', 16), (''min16uint'', 16),
     (''float16_t'', 16), (''int16_t'', 16), (''uint16_t'', 16), (''float32_t'', 32), (''int32_t'', 32),
     (''uint32_t'', 32), (''float64_t'', 64), (''int64_t'', 64), (''uint64_t'', 64), (''double'', 64), (''float'', 32),
     (''half'', 16), (''uint'', 32), (''int'', 32), (''bool'', 32)]"

fun find_char :: "char \<Rightarrow> string \<Rightarrow> nat option" where
  "find_char c [] = None"
| "find_char c (x # xs) = (if x = c then Some 0 else map_option Suc (find_char c xs))"

definition rfind_char :: "char \<Rightarrow> string \<Rightarrow> nat option" where
  "rfind_char c s = map_option (\<lambda>i. length s - 1 - i) (find_char c (rev s))"

lemma find_char_bound: "find_char c s = Some i \<Longrightarrow> i < length s"
  by (induction c s arbitrary: i rule: find_char.induct) (auto split: if_splits)

lemma rfind_char_bound: "rfind_char c s = Some i \<Longrightarrow> i < length s"
  using find_char_bound [of c "rev s"] by (fastforce simp: rfind_char_def)

definition is_blank :: "char \<Rightarrow> bool" where
  "is_blank c \<longleftrightarrow> c = CHR '' '' \<or> c = tab_char"

definition trim_blanks :: "string \<Rightarrow> string" where
  "trim_blanks s = rev (dropWhile is_blank (rev (dropWhile is_blank s)))"

definition digit_u32 :: "char \<Rightarrow> u32" where
  "digit_u32 c = (if is_digit_char c then of_char c - 48 else 0)"

text \<open>The value of a template argument: its digits, one when that is zero.\<close>

definition dimension :: "string \<Rightarrow> u32" where
  "dimension tok =
     (let v = fold (\<lambda>c v. if is_digit_char c then v * 10 + digit_u32 c else v) tok 0 in if v = 0 then 1 else v)"

function dimensions :: "string \<Rightarrow> u32 \<Rightarrow> u32" where
  "dimensions rem product =
     (if rem = [] then product
      else case find_char CHR '','' rem of
             None \<Rightarrow> product * dimension rem
           | Some i \<Rightarrow> dimensions (drop (i + 1) rem) (product * dimension (take i rem)))"
  by pat_completeness auto
termination
  by (relation "measure (\<lambda>(rem, product). length rem)") auto

declare dimensions.simps [simp del]

text \<open>The scalar and the dimensions of \<open>vector<T, N>\<close> and \<open>matrix<T, R, C>\<close>.\<close>

definition template_arguments :: "string \<Rightarrow> string \<times> u32" where
  "template_arguments inner =
     (case find_char CHR '','' inner of
        None \<Rightarrow> (trim_blanks inner, 1)
      | Some comma \<Rightarrow> (trim_blanks (take comma inner), dimensions (drop (comma + 1) inner) 1))"

definition template_parts :: "string \<Rightarrow> (string \<times> u32) option" where
  "template_parts name =
     (if has_prefix ''vector<'' name \<or> has_prefix ''matrix<'' name
      then (case (find_char CHR ''<'' name, rfind_char CHR ''>'' name) of
              (Some op, Some cl) \<Rightarrow>
                (if op + 1 < cl
                 then Some (template_arguments (substr name (op + 1) (cl - op - 1)))
                 else None)
            | _ \<Rightarrow> None)
      else None)"

text \<open>The shape after a scalar: \<open>N\<close> or \<open>RxC\<close>, single digits.\<close>

definition shape_bits :: "u32 \<Rightarrow> string \<Rightarrow> u32" where
  "shape_bits scalar_bits rest =
     (if rest = [] then scalar_bits
      else let a = digit_u32 (rest ! 0) in
        if a = 0 then scalar_bits
        else if length rest \<ge> 3 \<and> rest ! 1 = CHR ''x'' \<and> digit_u32 (rest ! 2) \<noteq> 0
             then scalar_bits * a * digit_u32 (rest ! 2)
             else scalar_bits * a)"

lemma trim_blanks_length: "length (trim_blanks s) \<le> length s"
  unfolding trim_blanks_def using length_dropWhile_le [of is_blank] by (metis le_trans length_rev)

lemma template_arguments_length: "length (fst (template_arguments inner)) \<le> length inner"
  using trim_blanks_length [of inner] trim_blanks_length [of "take _ inner"]
  by (auto simp: template_arguments_def split: option.split intro: le_trans)

lemma template_parts_shorter: "template_parts name = Some (scalar, d) \<Longrightarrow> length scalar < length name"
proof -
  assume "template_parts name = Some (scalar, d)"
  then obtain op cl where parts: "op + 1 < cl" "rfind_char CHR ''>'' name = Some cl"
    "template_arguments (substr name (op + 1) (cl - op - 1)) = (scalar, d)"
    by (auto simp: template_parts_def split: if_splits option.splits)
  have "cl < length name" using parts(2) by (rule rfind_char_bound)
  moreover have "length scalar \<le> cl - op - 1"
    using template_arguments_length [of "substr name (op + 1) (cl - op - 1)"] parts(3) by (simp add: substr_def)
  ultimately show ?thesis using parts(1) by simp
qed

lemma strip_qualifiers_length: "length (strip_qualifiers s) \<le> length s"
proof (induction s rule: strip_qualifiers.induct)
  case (1 s)
  then show ?case
    by (subst strip_qualifiers.simps) (auto split: option.split intro: le_trans)
qed

function type_lexeme_bits :: "string \<Rightarrow> u32" where
  "type_lexeme_bits type_name =
     (let name = strip_qualifiers type_name in
      if name = [] then 0
      else case find (\<lambda>(pfx, bits). has_prefix pfx name) k_scalar_prefixes of
             Some (pfx, bits) \<Rightarrow> shape_bits bits (drop (length pfx) name)
           | None \<Rightarrow>
               (case template_parts name of
                  None \<Rightarrow> 0
                | Some (scalar, product) \<Rightarrow> type_lexeme_bits scalar * product))"
  by pat_completeness auto
termination
  by (relation "measure length") (auto dest!: template_parts_shorter intro: less_le_trans strip_qualifiers_length)

declare type_lexeme_bits.simps [simp del]

section \<open>Declared types\<close>

definition is_decl_like :: "string \<Rightarrow> bool" where
  "is_decl_like kind \<longleftrightarrow>
     kind \<in> {''declaration'', ''field_declaration'', ''parameter_declaration'', ''parameter'', ''variable_declaration''}"

definition is_type_kind :: "string \<Rightarrow> bool" where
  "is_type_kind kind \<longleftrightarrow>
     kind \<in> {''primitive_type'', ''type_identifier'', ''template_type'', ''type_specifier'', ''sized_type_specifier''}"

text \<open>The text of the first child that looks like a type, else of the first identifier that has one.\<close>

definition decl_type_text :: "string \<Rightarrow> ts_node \<Rightarrow> string" where
  "decl_type_text bytes n =
     (let text = (case find (\<lambda>c. is_type_kind (ts_kind c)) (named_children n) of
                    None \<Rightarrow> []
                  | Some c \<Rightarrow> ast_text bytes (Some c))
      in if text \<noteq> [] then text
         else case find (\<lambda>c. ts_kind c = ''identifier'' \<and> ast_text bytes (Some c) \<noteq> []) (child_nodes n) of
                None \<Rightarrow> []
              | Some c \<Rightarrow> ast_text bytes (Some c))"

definition declares :: "string \<Rightarrow> string \<Rightarrow> ts_node \<Rightarrow> (string \<rightharpoonup> string) \<Rightarrow> (string \<rightharpoonup> string)" where
  "declares bytes type_text n m =
     (let name = ast_text bytes (Some n) in if name \<noteq> [] \<and> type_text \<noteq> [] then try_emplace name type_text m else m)"

definition declare_at :: "string \<Rightarrow> string \<Rightarrow> ts_node \<Rightarrow> (string \<rightharpoonup> string) \<Rightarrow> (string \<rightharpoonup> string)" where
  "declare_at bytes type_text n m =
     (if ts_kind n = ''init_declarator'' \<or> ts_kind n = ''field_identifier''
      then (case (case child_by_field n ''declarator'' of Some d \<Rightarrow> Some d | None \<Rightarrow> child_at n 0) of
              None \<Rightarrow> m
            | Some d \<Rightarrow> declares bytes type_text (unwrap_declarator d) m)
      else if ts_kind n = ''identifier'' then declares bytes type_text n m
      else m)"

text \<open>The loop over the named nodes below a declaration, itself included; every one is expanded.\<close>

function named_visit :: "(ts_node \<Rightarrow> 's \<Rightarrow> 's) \<Rightarrow> ts_node list \<Rightarrow> 's \<Rightarrow> 's" where
  "named_visit visit [] s = s"
| "named_visit visit (n # stack) s = named_visit visit (rev (named_children n) @ stack) (visit n s)"
  by pat_completeness auto
termination
  by (relation "measure (\<lambda>(visit, stack, s). sum_list (map node_size stack))")
    (auto simp: named_pushed_smaller simp flip: rev_map)

definition collect_decl_types :: "ts_node \<Rightarrow> string \<Rightarrow> (string \<rightharpoonup> string)" where
  "collect_decl_types tree bytes =
     stack_loop (\<lambda>n m. if is_decl_like (ts_kind n) then named_visit (declare_at bytes (decl_type_text bytes n)) [n] m else m)
       [tree] Map.empty"

section \<open>Estimates\<close>

definition field_bits :: "cbuffer_field \<Rightarrow> u32" where
  "field_bits field =
     (let via_lexeme = type_lexeme_bits (fl_type_name field) in
      if via_lexeme \<noteq> 0 then via_lexeme else if fl_byte_size field \<noteq> 0 then fl_byte_size field * 8 else 0)"

text \<open>A field whose width is unknown does not end the search.\<close>

fun first_known :: "string \<Rightarrow> cbuffer_field list \<Rightarrow> u32" where
  "first_known name [] = 0"
| "first_known name (f # fs) =
     (if fl_name f = name \<and> (type_lexeme_bits (fl_type_name f) \<noteq> 0 \<or> fl_byte_size f \<noteq> 0) then field_bits f
      else first_known name fs)"

definition reflection_bits_for :: "reflection_info \<Rightarrow> string \<Rightarrow> u32" where
  "reflection_bits_for reflection name = first_known name (concat (map cl_fields (ri_cbuffers reflection)))"

definition bits_for_name :: "string \<Rightarrow> (string \<rightharpoonup> string) \<Rightarrow> reflection_info option \<Rightarrow> u32" where
  "bits_for_name name decl_types reflection =
     (let reflected = (case reflection of None \<Rightarrow> 0 | Some r \<Rightarrow> reflection_bits_for r name);
          declared = (case decl_types name of None \<Rightarrow> 0 | Some t \<Rightarrow> type_lexeme_bits t)
      in if reflected \<noteq> 0 then reflected else if declared \<noteq> 0 then declared else 32)"

definition bits_to_vgpr_slots :: "u32 \<Rightarrow> u32" where
  "bits_to_vgpr_slots bits = (if bits = 0 then 0 else (bits + 31) div 32)"

record pressure_estimate =
  pe_block :: nat
  pe_estimated_vgprs :: u32

definition block_pressure :: "liveness_info \<Rightarrow> (string \<rightharpoonup> string) \<Rightarrow> reflection_info option \<Rightarrow> nat \<Rightarrow> pressure_estimate" where
  "block_pressure liveness decl_types reflection raw =
     \<lparr>pe_block = raw,
      pe_estimated_vgprs =
        fold (\<lambda>name total. total + bits_to_vgpr_slots (bits_for_name name decl_types reflection)) (live_in_at liveness raw) 0\<rparr>"

definition estimate_pressure ::
  "cfg_storage option \<Rightarrow> liveness_info \<Rightarrow> ts_node option \<Rightarrow> string \<Rightarrow> reflection_info option \<Rightarrow> u32 \<Rightarrow> pressure_estimate list" where
  "estimate_pressure cfg liveness tree bytes reflection threshold =
     (case (cfg, tree) of
        (Some st, Some n) \<Rightarrow>
          let decl_types = collect_decl_types n bytes in
          sort_by (\<lambda>a b. pe_estimated_vgprs a > pe_estimated_vgprs b)
            (map (\<lambda>i. block_pressure liveness decl_types reflection (i + 1)) [0..<length (cs_block_to_function st)])
      | _ \<Rightarrow> [])"

interpretation worst_first: strict_weak_order "\<lambda>a b. pe_estimated_vgprs a > pe_estimated_vgprs b"
  by unfold_locales auto

lemma fold_plus_sum: "fold (\<lambda>x total. total + f x) xs (a :: u32) = a + sum_list (map f xs)"
  by (induction xs arbitrary: a) (simp_all add: add.assoc)

section \<open>Shapes\<close>

lemma plain_name:
  assumes "(name, bits) \<in> set k_scalar_prefixes"
  shows "CHR '','' \<notin> set name" "CHR ''<'' \<notin> set name" "CHR ''>'' \<notin> set name" "trim_blanks name = name"
proof -
  have "list_all (\<lambda>(name, bits). CHR '','' \<notin> set name \<and> CHR ''<'' \<notin> set name \<and> CHR ''>'' \<notin> set name \<and> trim_blanks name = name)
    k_scalar_prefixes" by code_simp
  then show "CHR '','' \<notin> set name" "CHR ''<'' \<notin> set name" "CHR ''>'' \<notin> set name" "trim_blanks name = name"
    using assms by (auto simp: list_all_iff)
qed

lemma nonzero_digit: "r \<in> set ''123456789'' \<Longrightarrow> is_digit_char r \<and> r \<noteq> CHR ''0'' \<and> digit_u32 r \<noteq> 0"
proof -
  have "list_all (\<lambda>r. is_digit_char r \<and> r \<noteq> CHR ''0'' \<and> digit_u32 r \<noteq> 0) ''123456789''" by code_simp
  then show "r \<in> set ''123456789'' \<Longrightarrow> is_digit_char r \<and> r \<noteq> CHR ''0'' \<and> digit_u32 r \<noteq> 0" unfolding list_all_iff by blast
qed

text \<open>A prefix of a name with a short suffix is a prefix of the name, or goes on from it.\<close>

definition clash :: "string \<Rightarrow> string \<Rightarrow> bool" where
  "clash pfx name \<longleftrightarrow> has_prefix pfx name \<or> (has_prefix name pfx \<and> length pfx \<le> length name + 3)"

lemma has_prefix_append: "has_prefix pfx (name @ suffix) \<Longrightarrow> length suffix \<le> 3 \<Longrightarrow> clash pfx name"
proof -
  assume pfx: "has_prefix pfx (name @ suffix)" and "length suffix \<le> 3"
  then have "length pfx \<le> length name + 3" using has_prefix_length [OF pfx] by simp
  moreover have "has_prefix pfx name \<or> has_prefix name pfx"
  proof (cases "length pfx \<le> length name")
    case True
    then show ?thesis using pfx by (simp add: has_prefix_def)
  next
    case False
    then have "pfx = name @ take (length pfx - length name) suffix" using pfx by (simp add: has_prefix_def)
    then show ?thesis unfolding has_prefix_def by (metis append_eq_conv_conj)
  qed
  ultimately show ?thesis by (auto simp: clash_def)
qed

lemma no_clash:
  "list_all (\<lambda>i. list_all (\<lambda>pfx. \<not> clash pfx (fst (k_scalar_prefixes ! i))) (map fst (take i k_scalar_prefixes) @ k_qualifiers))
    [0..<length k_scalar_prefixes]"
  by code_simp

lemma find_scalar:
  assumes "(name, bits) \<in> set k_scalar_prefixes" and "length suffix \<le> 3"
  shows "find (\<lambda>pfx. has_prefix pfx (name @ suffix)) k_qualifiers = None"
    and "find (\<lambda>(pfx, bits). has_prefix pfx (name @ suffix)) k_scalar_prefixes = Some (name, bits)"
proof -
  obtain i where i: "i < length k_scalar_prefixes" "k_scalar_prefixes ! i = (name, bits)"
    using assms(1) by (auto simp: in_set_conv_nth)
  then have "list_all (\<lambda>pfx. \<not> clash pfx name) (map fst (take i k_scalar_prefixes) @ k_qualifiers)"
    using no_clash unfolding list_all_iff by (metis atLeastLessThan_iff fst_conv set_upt zero_le)
  then have none: "\<not> has_prefix pfx (name @ suffix)" if "pfx \<in> set (map fst (take i k_scalar_prefixes) @ k_qualifiers)" for pfx
    using that has_prefix_append [OF _ assms(2)] by (auto simp: list_all_iff)
  show "find (\<lambda>pfx. has_prefix pfx (name @ suffix)) k_qualifiers = None"
    using none by (auto simp: find_None_iff)
  have "\<not> has_prefix (fst (k_scalar_prefixes ! j)) (name @ suffix)" if "j < i" for j
    by (rule none) (use that i(1) nth_mem [of j "take i k_scalar_prefixes"] in \<open>simp add: rev_image_eqI\<close>)
  moreover have "has_prefix name (name @ suffix)" by (simp add: has_prefix_def)
  ultimately show "find (\<lambda>(pfx, bits). has_prefix pfx (name @ suffix)) k_scalar_prefixes = Some (name, bits)"
    using i by (auto simp: find_Some_iff split_beta)
qed

lemma type_lexeme_scalar:
  assumes "(name, bits) \<in> set k_scalar_prefixes" and "length suffix \<le> 3"
  shows "type_lexeme_bits (name @ suffix) = shape_bits bits suffix"
proof -
  have "strip_qualifiers (name @ suffix) = name @ suffix"
    using find_scalar(1) [OF assms] by (subst strip_qualifiers.simps) simp
  moreover have "name \<noteq> []" using assms(1) by (auto simp: k_scalar_prefixes_def)
  ultimately show ?thesis using find_scalar(2) [OF assms]
    by (subst type_lexeme_bits.simps) (simp add: Let_def)
qed

lemma find_char_first: "c \<notin> set xs \<Longrightarrow> find_char c (xs @ c # ys) = Some (length xs)"
  by (induction xs) auto

lemma find_char_none: "c \<notin> set xs \<Longrightarrow> find_char c xs = None"
  by (induction xs) auto

lemma rfind_char_last: "rfind_char c (xs @ [c]) = Some (length xs)"
  by (simp add: rfind_char_def)

lemma template_scalar:
  assumes name: "(name, bits) \<in> set k_scalar_prefixes" and kind: "kind = ''vector<'' \<or> kind = ''matrix<''"
  shows "type_lexeme_bits (kind @ name @ CHR '','' # rest @ ''>'') = bits * dimensions rest 1"
proof -
  let ?inner = "name @ CHR '','' # rest" and ?s = "kind @ name @ CHR '','' # rest @ ''>''"
  have s: "?s = (kind @ ?inner) @ [CHR ''>'']" by simp
  have op: "find_char CHR ''<'' ?s = Some 6"
    using kind find_char_first [of "CHR ''<''" "butlast kind" "name @ CHR '','' # rest @ ''>''"] by auto
  have cl: "rfind_char CHR ''>'' ?s = Some (6 + length ?inner + 1)"
    using kind rfind_char_last [of "CHR ''>''" "kind @ ?inner"] by auto
  have "substr ?s 7 (length ?inner) = ?inner" using kind by (auto simp: substr_def)
  moreover have "template_arguments ?inner = (name, dimensions rest 1)"
    using find_char_first [OF plain_name(1) [OF name], of rest] plain_name(4) [OF name] by (simp add: template_arguments_def)
  moreover have "has_prefix ''vector<'' ?s \<or> has_prefix ''matrix<'' ?s" using kind by (auto simp: has_prefix_def)
  ultimately have parts: "template_parts ?s = Some (name, dimensions rest 1)"
    unfolding template_parts_def op cl by simp
  have "strip_qualifiers ?s = ?s"
    using kind by (subst strip_qualifiers.simps) (elim disjE; simp add: k_qualifiers_def has_prefix_def)
  moreover have "find (\<lambda>(pfx, bits). has_prefix pfx ?s) k_scalar_prefixes = None"
    using kind by (elim disjE) (simp_all add: k_scalar_prefixes_def has_prefix_def)
  ultimately have "type_lexeme_bits ?s = type_lexeme_bits name * dimensions rest 1"
    using parts by (subst type_lexeme_bits.simps) (simp add: Let_def)
  also have "type_lexeme_bits name = bits" using type_lexeme_scalar [OF name, of "[]"] by (simp add: shape_bits_def)
  finally show ?thesis .
qed

lemma digit_argument: "r \<in> set ''123456789'' \<Longrightarrow> dimension [CHR '' '', r] = digit_u32 r \<and> r \<noteq> CHR '',''"
proof -
  have "list_all (\<lambda>r. dimension [CHR '' '', r] = digit_u32 r \<and> r \<noteq> CHR '','') ''123456789''" by code_simp
  then show "r \<in> set ''123456789'' \<Longrightarrow> dimension [CHR '' '', r] = digit_u32 r \<and> r \<noteq> CHR '',''" unfolding list_all_iff by blast
qed

lemma one_dimension: "r \<in> set ''123456789'' \<Longrightarrow> dimensions [CHR '' '', r] p = p * digit_u32 r"
  using digit_argument [of r] find_char_none [of "CHR '',''" "[CHR '' '', r]"] by (subst dimensions.simps) (simp add: eq_commute)

lemma two_dimensions:
  "r \<in> set ''123456789'' \<Longrightarrow> c \<in> set ''123456789'' \<Longrightarrow>
     dimensions ([CHR '' '', r] @ CHR '','' # [CHR '' '', c]) 1 = digit_u32 r * digit_u32 c"
proof -
  assume r: "r \<in> set ''123456789''" and c: "c \<in> set ''123456789''"
  let ?args = "[CHR '' '', r] @ CHR '','' # [CHR '' '', c]"
  have "find_char CHR '','' ?args = Some 2"
    using digit_argument [OF r] find_char_first [of "CHR '',''" "[CHR '' '', r]" "[CHR '' '', c]"] by simp
  then have "dimensions ?args 1 = dimensions [CHR '' '', c] (dimension [CHR '' '', r])"
    using dimensions.simps [of ?args 1] by (simp add: numeral_2_eq_2)
  then show ?thesis using one_dimension [OF c] digit_argument [OF r] by simp
qed

section \<open>Properties\<close>

text \<open>The estimate has one entry for every block of the storage, the entries come in descending order, so the first
  is a block of the highest pressure, and each is the sum of the registers of the names live at the entry of its block.\<close>

theorem pressure_of_every_block:
  "let es = estimate_pressure (Some st) liveness (Some tree) bytes reflection threshold in
   mset (map pe_block es) = mset [1..<length (cs_block_to_function st) + 1] \<and>
   sorted_wrt (\<lambda>a b. pe_estimated_vgprs a \<ge> pe_estimated_vgprs b) es \<and>
   list_all (\<lambda>e. pe_estimated_vgprs e =
       (\<Sum>name \<leftarrow> live_in_at liveness (pe_block e). bits_to_vgpr_slots (bits_for_name name (collect_decl_types tree bytes) reflection))) es"
proof -
  let ?bs = "map (\<lambda>i. block_pressure liveness (collect_decl_types tree bytes) reflection (i + 1)) [0..<length (cs_block_to_function st)]"
  have es: "estimate_pressure (Some st) liveness (Some tree) bytes reflection threshold =
      sort_by (\<lambda>a b. pe_estimated_vgprs a > pe_estimated_vgprs b) ?bs"
    by (simp add: estimate_pressure_def)
  have "map pe_block ?bs = map Suc [0..<length (cs_block_to_function st)]" by (simp add: block_pressure_def)
  also have "\<dots> = [1..<length (cs_block_to_function st) + 1]" by (simp add: map_Suc_upt)
  finally have "mset (map pe_block ?bs) = mset [1..<length (cs_block_to_function st) + 1]" by (simp only:)
  moreover have "mset (map pe_block (sort_by (\<lambda>a b. pe_estimated_vgprs a > pe_estimated_vgprs b) ?bs)) = mset (map pe_block ?bs)"
    by (simp only: mset_map mset_sort_by)
  ultimately show ?thesis
    using worst_first.sorted_sort_by [of ?bs] by (simp add: es list_all_iff not_less) (simp add: block_pressure_def fold_plus_sum)
qed

text \<open>A width of \<open>b\<close> bits takes the registers that hold it, \<open>b / 32\<close> rounded up; beyond \<open>2\<^sup>3\<^sup>2 - 32\<close> the sum with 31 wraps
  and the name counts for none.\<close>

theorem vgpr_slots_round_up:
  "unat (bits_to_vgpr_slots bits) = (if bits \<le> 0xFFFFFFE0 then (unat bits + 31) div 32 else 0)"
proof (cases "bits \<le> 0xFFFFFFE0")
  case True
  then have "unat bits + 31 < 2 ^ 32" by (simp add: word_le_nat_alt)
  then have "unat (bits + 31) = unat bits + 31" by (simp add: unat_word_ariths)
  then show ?thesis using True by (auto simp: bits_to_vgpr_slots_def unat_div)
next
  case False
  then have "2 ^ 32 \<le> unat bits + 31" "unat bits < 2 ^ 32"
    using unsigned_less [of bits] by (simp_all add: word_le_nat_alt not_le)
  then have "unat (bits + 31) < 32" by (simp add: unat_word_ariths) (simp add: le_mod_geq)
  then show ?thesis using False by (auto simp: bits_to_vgpr_slots_def unat_div)
qed

text \<open>The two spellings of a shape agree: for every built-in scalar and digits other than zero, \<open>float3\<close> and
  \<open>vector<float, 3>\<close> have three times its width, and \<open>float2x4\<close> and \<open>matrix<float, 2, 4>\<close> eight times.\<close>

theorem type_spellings_agree:
  assumes "(name, bits) \<in> set k_scalar_prefixes" and "r \<in> set ''123456789''" and "c \<in> set ''123456789''"
  shows "type_lexeme_bits (name @ [r]) = bits * digit_u32 r \<and>
    type_lexeme_bits (''vector<'' @ name @ '', '' @ [r] @ ''>'') = bits * digit_u32 r \<and>
    type_lexeme_bits (name @ [r, CHR ''x'', c]) = bits * digit_u32 r * digit_u32 c \<and>
    type_lexeme_bits (''matrix<'' @ name @ '', '' @ [r] @ '', '' @ [c] @ ''>'') = bits * digit_u32 r * digit_u32 c"
  using type_lexeme_scalar [OF assms(1), of "[r]"] type_lexeme_scalar [OF assms(1), of "[r, CHR ''x'', c]"]
    template_scalar [OF assms(1), of "''vector<''" "[CHR '' '', r]"] one_dimension [OF assms(2), of 1]
    template_scalar [OF assms(1), of "''matrix<''" "[CHR '' '', r] @ CHR '','' # [CHR '' '', c]"] two_dimensions [OF assms(2,3)]
    nonzero_digit [OF assms(2)] nonzero_digit [OF assms(3)]
  by (simp add: shape_bits_def mult.assoc)

theorem type_spellings_agree_witness:
  "type_lexeme_bits ''matrix<half, 2, 3>'' = 96 \<and> type_lexeme_bits ''half2x3'' = 96"
proof -
  have "(''half'', 16) \<in> set k_scalar_prefixes" by (simp add: k_scalar_prefixes_def)
  from type_spellings_agree [OF this, of "CHR ''2''" "CHR ''3''"] show ?thesis by (simp add: digit_u32_def is_digit_char_def)
qed

text \<open>Eight bit types count as whole vectors: the digit of \<open>int8\<close> is read as a shape, so it has the width of eight
  integers, and a packed type of 32 bits is given eight registers.\<close>

theorem packed_type_counts_eightfold:
  "type_lexeme_bits ''int8'' = 256 \<and> type_lexeme_bits ''uint8_t4_packed'' = 256 \<and>
   bits_to_vgpr_slots (type_lexeme_bits ''uint8_t4_packed'') = 8"
  by code_simp

text \<open>\<open>double y;half h=y;\<close>\<close>

definition sample_decls :: ts_node where
  "sample_decls = Ts_Node ''compound_statement'' True 0 18
     [(None, Ts_Node ''declaration'' True 0 9 [(None, Ts_Node ''primitive_type'' True 0 6 []), (None, Ts_Node ''identifier'' True 7 8 [])]),
      (None, Ts_Node ''declaration'' True 9 18 [(None, Ts_Node ''primitive_type'' True 9 13 []),
        (None, Ts_Node ''init_declarator'' True 14 17 [(Some ''declarator'', Ts_Node ''identifier'' True 14 15 []),
           (Some ''value'', Ts_Node ''identifier'' True 16 17 [])])])]"

text \<open>A name takes the type of a later declaration that mentions it: the walk visits the last declaration first and
  records every identifier below it, those of the initialiser included, so in \<open>double y;half h=y;\<close> the variable \<open>y\<close>
  counts 16 bits, not 64.\<close>

theorem initialiser_types_its_names:
  "collect_decl_types sample_decls ''double y;half h=y;'' ''y'' = Some ''half'' \<and>
   bits_for_name ''y'' (collect_decl_types sample_decls ''double y;half h=y;'') None = 16 \<and>
   type_lexeme_bits ''double'' = 64"
  by code_simp

end
