(* ===== verification/RuleUtil.thy ===== *)
theory RuleUtil
  imports Wire CfgEngine
begin

text \<open>
  The helpers the rules share, \<^verbatim>\<open>core/src/rules/util/\<close>: \<^verbatim>\<open>numeric_literal.cpp\<close> (is a
  literal a given whole number), \<^verbatim>\<open>purity_oracle.cpp\<close> (may an expression be evaluated twice),
  \<^verbatim>\<open>reflect_resource.cpp, reflect_sampler.cpp, reflect_stage.cpp, sm6_10.cpp\<close> (what the compiler's reflection and
  the attributes before a function say). The lemmas give the languages the scanners accept and the expressions the
  oracle trusts.
\<close>

section \<open>Numeric literals\<close>

definition is_literal_suffix_char :: "char \<Rightarrow> bool" where
  "is_literal_suffix_char c \<longleftrightarrow> c \<in> set ''fFhHlLuU''"

definition is_numeric_literal_uint :: "string \<Rightarrow> u64 \<Rightarrow> bool" where
  "is_numeric_literal_uint text value =
     (if text = [] then False
      else
        let int_begin = (if text ! 0 = CHR ''+'' then 1 else 0);
            i = skip_while is_digit_char text int_begin
        in if i = int_begin then False
           else
             let int_part = substr text int_begin (i - int_begin);
                 significant = skip_while (\<lambda>c. c = CHR ''0'') int_part 0
             in if (if value = 0 then significant \<noteq> length int_part
                    else significant \<ge> length int_part \<or> drop significant int_part \<noteq> to_decimal (unat value))
                then False
                else
                  let dot = (i < length text \<and> text ! i = CHR ''.'');
                      j = (if dot then skip_while is_digit_char text (i + 1) else i)
                  in if dot \<and> \<not> list_all (\<lambda>c. c = CHR ''0'') (substr text (i + 1) (j - (i + 1))) then False
                     else if j < length text \<and> (text ! j = CHR ''e'' \<or> text ! j = CHR ''E'') then False
                     else list_all is_literal_suffix_char (drop j text))"

definition is_numeric_literal_zero :: "string \<Rightarrow> bool" where
  "is_numeric_literal_zero text = is_numeric_literal_uint text 0"

definition is_numeric_literal_one :: "string \<Rightarrow> bool" where
  "is_numeric_literal_one text = is_numeric_literal_uint text 1"

definition is_numeric_literal_two :: "string \<Rightarrow> bool" where
  "is_numeric_literal_two text = is_numeric_literal_uint text 2"

definition is_numeric_literal_255 :: "string \<Rightarrow> bool" where
  "is_numeric_literal_255 text = is_numeric_literal_uint text 255"

text \<open>Leading zeros do not count, and without them a number has one spelling.\<close>

lemma digit_value_digit: "is_digit_char c \<Longrightarrow> digit_char (digit_value c) = c \<and> digit_value c < 10"
proof -
  assume "is_digit_char c"
  then have "48 \<le> (of_char c :: nat)" "(of_char c :: nat) \<le> 57" by (simp_all add: is_digit_char_def less_eq_char_def)
  then show ?thesis by (simp add: digit_char_def digit_value_def)
qed

lemma of_decimal_zeros: "of_decimal (dropWhile (\<lambda>c. c = CHR ''0'') ds) = of_decimal ds"
  by (induction ds) (auto simp: of_decimal_def digit_value_def)

lemma to_decimal_snoc: "0 < n \<Longrightarrow> d < 10 \<Longrightarrow> to_decimal (10 * n + d) = to_decimal n @ [digit_char d]"
  by (subst to_decimal.simps) simp

lemma to_of_decimal:
  "\<forall>c \<in> set ds. is_digit_char c \<Longrightarrow> ds \<noteq> [] \<Longrightarrow> hd ds \<noteq> CHR ''0'' \<Longrightarrow> to_decimal (of_decimal ds) = ds \<and> 0 < of_decimal ds"
proof (induction ds rule: rev_induct)
  case (snoc c ds)
  have c: "digit_char (digit_value c) = c" "digit_value c < 10" using digit_value_digit snoc.prems(1) by simp_all
  show ?case
  proof (cases "ds = []")
    case True
    have "digit_char 0 = CHR ''0''" by code_simp
    then have "digit_value c \<noteq> 0" using c snoc.prems(3) True by (metis append_Nil list.sel(1))
    then show ?thesis using True c by (subst to_decimal.simps) (simp add: of_decimal_def)
  next
    case False
    then have "to_decimal (of_decimal ds) = ds \<and> 0 < of_decimal ds" using snoc by simp
    then show ?thesis using to_decimal_snoc [of "of_decimal ds" "digit_value c"] c by (simp add: of_decimal_snoc)
  qed
qed simp

lemma stripped_decimal:
  assumes "\<forall>c \<in> set ds. is_digit_char c"
  shows "dropWhile (\<lambda>c. c = CHR ''0'') ds = (if v = 0 then [] else to_decimal v) \<longleftrightarrow> of_decimal ds = v"
proof -
  define s where "s = dropWhile (\<lambda>c. c = CHR ''0'') ds"
  have digits: "\<forall>c \<in> set s. is_digit_char c" using assms unfolding s_def by (blast dest: set_dropWhileD)
  have val: "of_decimal s = of_decimal ds" unfolding s_def by (rule of_decimal_zeros)
  show ?thesis
  proof (cases "s = []")
    case True
    then have "of_decimal ds = 0" using val by (simp add: of_decimal_def)
    then show ?thesis unfolding s_def [symmetric] using True to_decimal_nonempty [of v] by (cases "v = 0") metis+
  next
    case False
    then have "hd s \<noteq> CHR ''0''" using hd_dropWhile [of "\<lambda>c. c = CHR ''0''" ds] unfolding s_def by blast
    then have "to_decimal (of_decimal ds) = s \<and> 0 < of_decimal ds" using to_of_decimal [OF digits False] val by simp
    then show ?thesis unfolding s_def [symmetric] using False by (metis of_to_decimal neq0_conv)
  qed
qed

lemma split_run: "list_all P run \<Longrightarrow> rest = [] \<or> \<not> P (hd rest) \<Longrightarrow> takeWhile P (run @ rest) = run \<and> dropWhile P (run @ rest) = rest"
  by (induction run) (cases rest; simp)+

definition literal_tail :: "string \<Rightarrow> bool" where
  "literal_tail rest \<longleftrightarrow>
     list_all is_literal_suffix_char rest \<or>
     (\<exists>zs suffixes. rest = CHR ''.'' # zs @ suffixes \<and> list_all (\<lambda>c. c = CHR ''0'') zs \<and> list_all is_literal_suffix_char suffixes)"

lemma suffix_char_facts:
  "is_literal_suffix_char c \<Longrightarrow> \<not> is_digit_char c \<and> c \<noteq> CHR ''.'' \<and> c \<noteq> CHR ''e'' \<and> c \<noteq> CHR ''E''"
  by (auto simp: is_literal_suffix_char_def is_digit_char_def)

lemma int_part_value:
  fixes v :: u64
  assumes "\<forall>c \<in> set ds. is_digit_char c"
  defines "sig \<equiv> skip_while (\<lambda>c. c = CHR ''0'') ds 0"
  shows "(if v = 0 then sig \<noteq> length ds else sig \<ge> length ds \<or> drop sig ds \<noteq> to_decimal (unat v)) \<longleftrightarrow>
    of_decimal ds \<noteq> unat v"
proof -
  have drop: "drop sig ds = dropWhile (\<lambda>c. c = CHR ''0'') ds" and le: "sig \<le> length ds"
    unfolding sig_def by (simp_all add: skip_while_eq dropWhile_eq_drop length_takeWhile_le)
  have eq: "drop sig ds = (if unat v = 0 then [] else to_decimal (unat v)) \<longleftrightarrow> of_decimal ds = unat v"
    unfolding drop by (rule stripped_decimal [OF assms(1)])
  have ge: "sig \<ge> length ds \<longleftrightarrow> drop sig ds = []" by simp
  show ?thesis
  proof (cases "unat v = 0")
    case True
    then have "v = 0" by (simp add: unat_eq_0)
    have "drop sig ds = [] \<longleftrightarrow> of_decimal ds = unat v" using eq unfolding if_P [OF True] .
    moreover have "sig = length ds \<longleftrightarrow> drop sig ds = []" using ge le by linarith
    ultimately show ?thesis using \<open>v = 0\<close> by (simp only: if_True simp_thms)
  next
    case False
    then have "v \<noteq> 0" by (simp add: unat_eq_0)
    then show ?thesis using eq ge False to_decimal_nonempty [of "unat v"] by (simp only: if_False) metis
  qed
qed

lemma literal_body:
  fixes s :: string
  defines "body \<equiv> drop (if s ! 0 = CHR ''+'' then 1 else 0) s"
  assumes "s \<noteq> []"
  shows "is_numeric_literal_uint s value \<longleftrightarrow>
    takeWhile is_digit_char body \<noteq> [] \<and> of_decimal (takeWhile is_digit_char body) = unat value \<and>
    literal_tail (dropWhile is_digit_char body)"
proof -
  let ?b = "if s ! 0 = CHR ''+'' then 1 else (0::nat)"
  let ?ds = "takeWhile is_digit_char body" and ?rest = "dropWhile is_digit_char body"
  let ?i = "skip_while is_digit_char s ?b"
  have b: "body = drop ?b s" by (simp only: body_def)
  have i: "?i = ?b + length ?ds" unfolding b by (rule skip_while_eq)
  have "substr s ?b (?i - ?b) = take (length ?ds) body" unfolding i substr_def b by (simp only: add_diff_cancel_left')
  then have part: "substr s ?b (?i - ?b) = ?ds" by (metis takeWhile_eq_take)
  have "drop ?i s = drop (length ?ds) body" unfolding i b by (simp only: drop_drop add.commute)
  define R where "R = ?rest"
  define pos where "pos = ?i"
  have rest: "drop pos s = R" unfolding pos_def R_def using \<open>drop ?i s = drop (length ?ds) body\<close> by (metis dropWhile_eq_drop)
  have digits: "\<forall>c \<in> set ?ds. is_digit_char c" by (auto dest: set_takeWhileD)
  note int_ok = int_part_value [OF digits, of "value"]
  define dot where "dot \<longleftrightarrow> pos < length s \<and> s ! pos = CHR ''.''"
  define j where "j = (if dot then skip_while is_digit_char s (pos + 1) else pos)"
  have dot: "dot \<longleftrightarrow> (\<exists>r. R = CHR ''.'' # r)"
  proof -
    have "pos < length s \<Longrightarrow> R = s ! pos # drop (Suc pos) s" using rest by (simp add: Cons_nth_drop_Suc)
    moreover have "\<not> pos < length s \<Longrightarrow> R = []" using rest by simp
    ultimately show ?thesis by (cases "pos < length s") (auto simp: dot_def)
  qed
  have tail: "(if dot \<and> \<not> list_all (\<lambda>c. c = CHR ''0'') (substr s (pos + 1) (j - (pos + 1))) then False
       else if j < length s \<and> (s ! j = CHR ''e'' \<or> s ! j = CHR ''E'') then False
       else list_all is_literal_suffix_char (drop j s)) \<longleftrightarrow> literal_tail R"
  proof (cases dot)
    case False
    then have "\<nexists>r. R = CHR ''.'' # r" using dot by blast
    moreover have "j = pos" using False by (simp add: j_def)
    moreover have "pos < length s \<and> (s ! pos = CHR ''e'' \<or> s ! pos = CHR ''E'') \<longrightarrow> \<not> list_all is_literal_suffix_char (drop pos s)"
      using suffix_char_facts by (auto simp flip: Cons_nth_drop_Suc)
    ultimately show ?thesis using False rest by (auto simp: literal_tail_def)
  next
    case True
    then obtain r where r: "R = CHR ''.'' # r" using dot by blast
    have i_less: "pos < length s" using True by (simp add: dot_def)
    have r_drop: "drop (pos + 1) s = r" using r rest by (metis Suc_eq_plus1 drop_Suc list.sel(3) tl_drop)
    have j: "j = pos + 1 + length (takeWhile is_digit_char r)" using True r_drop by (simp add: j_def skip_while_eq)
    have zeros: "substr s (pos + 1) (j - (pos + 1)) = takeWhile is_digit_char r" using r_drop by (simp add: substr_def j flip: takeWhile_eq_take)
    have "drop j s = drop (length (takeWhile is_digit_char r)) (drop (pos + 1) s)" by (simp only: j drop_drop add.commute)
    then have tail: "drop j s = dropWhile is_digit_char r" unfolding r_drop by (simp only: dropWhile_eq_drop)
    have e: "j < length s \<and> (s ! j = CHR ''e'' \<or> s ! j = CHR ''E'') \<longrightarrow> \<not> list_all is_literal_suffix_char (drop j s)"
      using suffix_char_facts by (auto simp flip: Cons_nth_drop_Suc)
    have "literal_tail R \<longleftrightarrow> (\<exists>zs suffixes. r = zs @ suffixes \<and> list_all (\<lambda>c. c = CHR ''0'') zs \<and> list_all is_literal_suffix_char suffixes)"
      using suffix_char_facts [of "CHR ''.''"] by (auto simp: literal_tail_def r)
    also have "\<dots> \<longleftrightarrow> list_all (\<lambda>c. c = CHR ''0'') (takeWhile is_digit_char r) \<and> list_all is_literal_suffix_char (dropWhile is_digit_char r)"
    proof
      assume "\<exists>zs suffixes. r = zs @ suffixes \<and> list_all (\<lambda>c. c = CHR ''0'') zs \<and> list_all is_literal_suffix_char suffixes"
      then obtain zs suffixes where s: "r = zs @ suffixes" "list_all (\<lambda>c. c = CHR ''0'') zs" "list_all is_literal_suffix_char suffixes" by blast
      have "is_digit_char CHR ''0''" by code_simp
      then have "list_all is_digit_char zs" using list.pred_mono_strong [OF s(2)] by blast
      moreover have "suffixes = [] \<or> \<not> is_digit_char (hd suffixes)" using s(3) suffix_char_facts by (cases suffixes) auto
      ultimately have "takeWhile is_digit_char r = zs" "dropWhile is_digit_char r = suffixes"
        unfolding s(1) by (simp_all add: split_run)
      then show "list_all (\<lambda>c. c = CHR ''0'') (takeWhile is_digit_char r) \<and> list_all is_literal_suffix_char (dropWhile is_digit_char r)"
        using s by simp
    qed (metis takeWhile_dropWhile_id)
    finally show ?thesis unfolding zeros using True e tail by auto
  qed
  have empty: "?i = ?b \<longleftrightarrow> ?ds = []" unfolding i by (simp only: add_cancel_left_right length_0_conv)
  show ?thesis
    unfolding is_numeric_literal_uint_def Let_def part int_ok empty tail [unfolded j_def dot_def pos_def R_def]
    by (simp only: assms(2) if_False split: if_split) blast
qed

section \<open>Properties of literals\<close>

text \<open>C22: A literal is taken for a whole number exactly when it is that number: an optional sign, decimal digits with
  that value (leading zeros included), an optional fraction of zeros, and suffix letters; no exponent, no base prefix.\<close>

theorem numeric_literal_language:
  "is_numeric_literal_uint s n \<longleftrightarrow>
    (\<exists>sign ds rest. s = sign @ ds @ rest \<and> (sign = [] \<or> sign = ''+'') \<and> ds \<noteq> [] \<and> list_all is_digit_char ds \<and>
       of_decimal ds = unat n \<and> literal_tail rest)"
proof (cases "s = []")
  case True
  then show ?thesis by (auto simp: is_numeric_literal_uint_def)
next
  case False
  define k where "k = (if s ! 0 = CHR ''+'' then 1 else (0::nat))"
  have split: "s = take k s @ drop k s" by simp
  have sign: "take k s = [] \<or> take k s = ''+''" using False by (cases s) (auto simp: k_def)
  note body = literal_body [OF False, of n, folded k_def]
  show ?thesis
  proof
    assume "is_numeric_literal_uint s n"
    then have "takeWhile is_digit_char (drop k s) \<noteq> []" "of_decimal (takeWhile is_digit_char (drop k s)) = unat n"
      "literal_tail (dropWhile is_digit_char (drop k s))" by (simp_all add: body)
    moreover have "s = take k s @ takeWhile is_digit_char (drop k s) @ dropWhile is_digit_char (drop k s)" by simp
    moreover have "list_all is_digit_char (takeWhile is_digit_char (drop k s))" by (auto simp: list_all_iff dest: set_takeWhileD)
    ultimately show "\<exists>sign ds rest. s = sign @ ds @ rest \<and> (sign = [] \<or> sign = ''+'') \<and> ds \<noteq> [] \<and> list_all is_digit_char ds \<and>
       of_decimal ds = unat n \<and> literal_tail rest" using sign by blast
  next
    assume "\<exists>sign ds rest. s = sign @ ds @ rest \<and> (sign = [] \<or> sign = ''+'') \<and> ds \<noteq> [] \<and> list_all is_digit_char ds \<and>
       of_decimal ds = unat n \<and> literal_tail rest"
    then obtain sgn ds rest where s: "s = sgn @ ds @ rest" "sgn = [] \<or> sgn = ''+''" "ds \<noteq> []" "list_all is_digit_char ds"
      "of_decimal ds = unat n" "literal_tail rest" by blast
    have "\<not> is_digit_char CHR ''+''" by (simp add: is_digit_char_def)
    then have "s ! 0 = CHR ''+'' \<longleftrightarrow> sgn = ''+''" using s(1-4) by (cases ds) auto
    then have drop: "drop k s = ds @ rest" using s(1,2) by (auto simp: k_def)
    have "rest = [] \<or> \<not> is_digit_char (hd rest)"
      using s(6) suffix_char_facts by (cases rest) (auto simp: literal_tail_def is_digit_char_def)
    then have "takeWhile is_digit_char (drop k s) = ds" "dropWhile is_digit_char (drop k s) = rest"
      unfolding drop using split_run [OF s(4)] by simp_all
    then show "is_numeric_literal_uint s n" unfolding body using s(3,5,6) by (simp only: simp_thms)
  qed
qed

section \<open>The purity oracle\<close>

datatype purity = Purity_Unknown | SideEffectFree | SideEffectful

definition k_pure_intrinsic_allowlist :: "string list" where
  "k_pure_intrinsic_allowlist =
    [''asfloat'', ''asint'', ''asuint'',
     ''acos'', ''asin'', ''atan'', ''atan2'', ''cos'', ''sin'', ''tan'',
     ''bitfieldextract'', ''bitfieldinsert'', ''countbits'', ''f16tof32'', ''f32tof16'', ''firstbithigh'',
     ''firstbitlow'', ''reversebits'',
     ''cross'', ''dot'', ''length'', ''normalize'',
     ''abs'', ''clamp'', ''max'', ''min'', ''saturate'', ''sign'', ''step'',
     ''lerp'', ''mad'', ''smoothstep'',
     ''ceil'', ''floor'', ''frac'', ''round'', ''trunc'',
     ''exp'', ''exp2'', ''log'', ''log10'', ''log2'', ''pow'', ''rsqrt'', ''sqrt'',
     ''half'', ''min16float'', ''min16int'', ''min16uint'']"

definition is_allowlisted_intrinsic :: "string \<Rightarrow> bool" where
  "is_allowlisted_intrinsic name \<longleftrightarrow> name \<in> set k_pure_intrinsic_allowlist"

definition is_pure_leaf :: "string \<Rightarrow> bool" where
  "is_pure_leaf kind \<longleftrightarrow>
     kind \<in> {''identifier'', ''field_expression'', ''subscript_expression'', ''number_literal'', ''string_literal''}"

fun combine :: "purity \<Rightarrow> purity \<Rightarrow> purity" where
  "combine lhs rhs =
     (if lhs = Purity_Unknown \<or> rhs = Purity_Unknown then Purity_Unknown
      else if lhs = SideEffectful \<or> rhs = SideEffectful then SideEffectful
      else SideEffectFree)"

text \<open>The loops over operands and arguments, which stop at the first one that is not free of effects.\<close>

fun combine_all :: "purity \<Rightarrow> purity list \<Rightarrow> purity" where
  "combine_all acc [] = acc"
| "combine_all acc (p # ps) =
     (let acc = combine acc p in if acc = Purity_Unknown \<or> acc = SideEffectful then acc else combine_all acc ps)"

definition is_operator_kind :: "string \<Rightarrow> bool" where
  "is_operator_kind kind \<longleftrightarrow>
     kind \<in> {''binary_expression'', ''unary_expression'', ''parenthesized_expression'', ''conditional_expression''}"

function classify_recursive :: "string \<Rightarrow> ts_node \<Rightarrow> purity" where
  "classify_recursive bytes node =
     (let kind = ts_kind node in
      if kind = [] then Purity_Unknown
      else if is_pure_leaf kind then SideEffectFree
      else if is_operator_kind kind
        then (if named_children node = [] then Purity_Unknown
              else combine_all SideEffectFree (map (classify_recursive bytes) (named_children node)))
      else if kind = ''call_expression''
        then (let fn_text = ast_text bytes (child_by_field node ''function'') in
              if fn_text = [] \<or> \<not> is_allowlisted_intrinsic fn_text then SideEffectful
              else case child_by_field node ''arguments'' of
                     None \<Rightarrow> Purity_Unknown
                   | Some args \<Rightarrow> combine_all SideEffectFree (map (classify_recursive bytes) (named_children args)))
      else if kind = ''assignment_expression'' \<or> kind = ''update_expression'' then SideEffectful
      else Purity_Unknown)"
  by pat_completeness auto
termination
proof (relation "measure (\<lambda>(bytes, node). node_size node)", goal_cases)
  case (3 bytes node kind fn_text args z)
  then show ?case using child_smaller [OF field_child, of node "''arguments''" args] named_child_smaller [of z args] by simp
qed (auto intro: named_child_smaller)

declare classify_recursive.simps [simp del]

definition classify_expression :: "string \<Rightarrow> ts_node option \<Rightarrow> purity" where
  "classify_expression bytes expr = (case expr of None \<Rightarrow> Purity_Unknown | Some n \<Rightarrow> classify_recursive bytes n)"

text \<open>What the oracle trusts: leaves, operators on trusted operands, and calls of listed intrinsics on trusted
  arguments.\<close>

inductive trusted :: "string \<Rightarrow> ts_node \<Rightarrow> bool" for bytes where
  leaf: "is_pure_leaf (ts_kind n) \<Longrightarrow> trusted bytes n"
| operator: "is_operator_kind (ts_kind n) \<Longrightarrow> named_children n \<noteq> [] \<Longrightarrow> \<forall>c \<in> set (named_children n). trusted bytes c \<Longrightarrow>
    trusted bytes n"
| intrinsic: "ts_kind n = ''call_expression'' \<Longrightarrow>
    ast_text bytes (child_by_field n ''function'') \<in> set k_pure_intrinsic_allowlist \<Longrightarrow>
    child_by_field n ''arguments'' = Some args \<Longrightarrow> \<forall>c \<in> set (named_children args). trusted bytes c \<Longrightarrow> trusted bytes n"

inductive_simps trusted_iff: "trusted bytes n"

lemma combine_all_free: "combine_all SideEffectFree ps = SideEffectFree \<longleftrightarrow> (\<forall>p \<in> set ps. p = SideEffectFree)"
  proof (induction ps)
  case (Cons p ps)
  then show ?case by (cases p) (simp_all add: Let_def)
qed simp

lemma kind_classes:
  "is_operator_kind k \<Longrightarrow> \<not> is_pure_leaf k" "is_operator_kind k \<Longrightarrow> k \<noteq> ''call_expression''"
  "\<not> is_pure_leaf ''call_expression''" "\<not> is_operator_kind ''call_expression''" "\<not> is_pure_leaf []" "\<not> is_operator_kind []"
  by (auto simp: is_operator_kind_def is_pure_leaf_def)

section \<open>Properties of the oracle\<close>

text \<open>The oracle calls an expression free of side effects exactly when it is built from leaves with the operators it
  looks through and calls of listed intrinsics; an assignment, an increment, any other call and any node it does not
  know, under an operator or as an argument, make it say otherwise.\<close>

theorem oracle_trusts:
  "classify_expression bytes (Some n) = SideEffectFree \<longleftrightarrow> trusted bytes n"
proof -
  have "classify_recursive bytes n = SideEffectFree \<longleftrightarrow> trusted bytes n"
  proof (induction n rule: measure_induct_rule [of node_size])
    case (less n)
    have kids: "\<forall>c \<in> set (named_children n). (classify_recursive bytes c = SideEffectFree) = trusted bytes c"
      using less named_child_smaller by blast
    have args: "\<forall>c \<in> set (named_children a). (classify_recursive bytes c = SideEffectFree) = trusted bytes c"
      if "child_by_field n ''arguments'' = Some a" for a
      using less named_child_smaller child_smaller [OF field_child [OF that]] by (meson less_trans)
    have listed: "is_allowlisted_intrinsic t \<longleftrightarrow> t \<in> set k_pure_intrinsic_allowlist" "[] \<notin> set k_pure_intrinsic_allowlist" for t
      by (simp_all add: is_allowlisted_intrinsic_def k_pure_intrinsic_allowlist_def)
    consider "is_pure_leaf (ts_kind n)" | "is_operator_kind (ts_kind n)" | "ts_kind n = ''call_expression''"
      | "\<not> is_pure_leaf (ts_kind n)" "\<not> is_operator_kind (ts_kind n)" "ts_kind n \<noteq> ''call_expression''" by blast
    then show ?case
    proof cases
      case 1
      then show ?thesis using kind_classes by (subst classify_recursive.simps) (auto simp: Let_def intro: trusted.leaf)
    next
      case 2
      then have "trusted bytes n \<longleftrightarrow> named_children n \<noteq> [] \<and> (\<forall>c \<in> set (named_children n). trusted bytes c)"
        using kind_classes by (subst trusted_iff) auto
      then show ?thesis using 2 kids kind_classes
        by (subst classify_recursive.simps) (auto simp: Let_def combine_all_free)
    next
      case 3
      then have "trusted bytes n \<longleftrightarrow> ast_text bytes (child_by_field n ''function'') \<in> set k_pure_intrinsic_allowlist \<and>
          (\<exists>a. child_by_field n ''arguments'' = Some a \<and> (\<forall>c \<in> set (named_children a). trusted bytes c))"
        using kind_classes by (subst trusted_iff) auto
      then show ?thesis using 3 args kind_classes listed
        by (subst classify_recursive.simps) (auto simp: Let_def combine_all_free split: option.split)
    next
      case 4
      then have "\<not> trusted bytes n" using trusted_iff by blast
      then show ?thesis using 4 by (subst classify_recursive.simps) (auto simp: Let_def)
    qed
  qed
  then show ?thesis by (simp add: classify_expression_def)
qed

text \<open>A leaf is trusted without a look inside, so \<open>a[i++]\<close> counts as free of side effects, although the increment
  below it does not.\<close>

theorem trusted_subscript_increments:
  "let inc = Ts_Node ''update_expression'' True 2 5 [(None, Ts_Node ''identifier'' True 2 3 [])];
       sub = Ts_Node ''subscript_expression'' True 0 6 [(Some ''argument'', Ts_Node ''identifier'' True 0 1 []), (None, inc)]
   in classify_expression ''a[i++]'' (Some inc) = SideEffectful \<and> inc \<in> set (named_children sub) \<and>
      classify_expression ''a[i++]'' (Some sub) = SideEffectFree"
  by code_simp

section \<open>Kinds of resources\<close>

definition is_writable :: "resource_kind \<Rightarrow> bool" where
  "is_writable k \<longleftrightarrow>
     k \<in> {RWBuffer, RWByteAddressBuffer, RWStructuredBuffer, AppendStructuredBuffer, ConsumeStructuredBuffer,
       RWTexture1D, RWTexture2D, RWTexture3D, RWTexture1DArray, RWTexture2DArray}"

definition is_texture :: "resource_kind \<Rightarrow> bool" where
  "is_texture k \<longleftrightarrow>
     k \<in> {Texture1D, Texture2D, Texture3D, TextureCube, Texture1DArray, Texture2DArray, TextureCubeArray,
       RWTexture1D, RWTexture2D, RWTexture3D, RWTexture1DArray, RWTexture2DArray, FeedbackTexture2D, FeedbackTexture2DArray}"

definition is_buffer :: "resource_kind \<Rightarrow> bool" where
  "is_buffer k \<longleftrightarrow>
     k \<in> {Buffer, RWBuffer, ByteAddressBuffer, RWByteAddressBuffer, StructuredBuffer, RWStructuredBuffer,
       AppendStructuredBuffer, ConsumeStructuredBuffer, ConstantBuffer}"

definition is_sampler :: "resource_kind \<Rightarrow> bool" where
  "is_sampler k \<longleftrightarrow> k = SamplerState \<or> k = SamplerComparisonState"

definition find_binding_used_by :: "reflection_info \<Rightarrow> string \<Rightarrow> resource_binding option" where
  "find_binding_used_by reflection name = find_binding_by_name reflection name"

definition array_size_of :: "reflection_info \<Rightarrow> string \<Rightarrow> u32 option" where
  "array_size_of reflection name =
     (case find_binding_by_name reflection name of None \<Rightarrow> None | Some b \<Rightarrow> rb_array_size b)"

text \<open>The fields of a sampler are not reflected yet: every lookup fails.\<close>

definition sampler_descriptor_for :: "reflection_info \<Rightarrow> string \<Rightarrow> 'd option" where
  "sampler_descriptor_for reflection sampler_name =
     (case find_binding_by_name reflection sampler_name of
        None \<Rightarrow> None
      | Some b \<Rightarrow> if \<not> is_sampler (rb_kind b) then None else None)"

text \<open>No resource is of two of these kinds.\<close>

lemma resource_classes: "\<not> (is_texture k \<and> is_buffer k)" "\<not> (is_sampler k \<and> (is_texture k \<or> is_buffer k \<or> is_writable k))"
  "is_writable k \<Longrightarrow> is_texture k \<or> is_buffer k"
  by (cases k; simp add: is_writable_def is_texture_def is_buffer_def is_sampler_def)+

section \<open>Stages and profiles\<close>

definition find_entry_point :: "reflection_info \<Rightarrow> string \<Rightarrow> entry_point_info option" where
  "find_entry_point reflection entry_name = find_entry_point_by_name reflection entry_name"

definition is_pixel_shader :: "entry_point_info \<Rightarrow> bool" where "is_pixel_shader ep \<longleftrightarrow> ep_stage ep = ''pixel''"

definition is_vertex_shader :: "entry_point_info \<Rightarrow> bool" where "is_vertex_shader ep \<longleftrightarrow> ep_stage ep = ''vertex''"

definition is_compute_shader :: "entry_point_info \<Rightarrow> bool" where "is_compute_shader ep \<longleftrightarrow> ep_stage ep = ''compute''"

definition is_mesh_or_amp_shader :: "entry_point_info \<Rightarrow> bool" where
  "is_mesh_or_amp_shader ep \<longleftrightarrow> ep_stage ep = ''mesh'' \<or> ep_stage ep = ''amplification''"

definition is_raytracing_shader :: "entry_point_info \<Rightarrow> bool" where
  "is_raytracing_shader ep \<longleftrightarrow>
     ep_stage ep \<in> {''raygeneration'', ''intersection'', ''anyhit'', ''closesthit'', ''miss'', ''callable''}"

definition find_last_of :: "string \<Rightarrow> char \<Rightarrow> nat option" where
  "find_last_of s c = (let i = length (takeWhile (\<lambda>d. d \<noteq> c) (rev s)) in if i < length s then Some (length s - 1 - i) else None)"

text \<open>The digits after \<open>_6_\<close>; the number wraps.\<close>

definition char_digit :: "char \<Rightarrow> u32" where
  "char_digit c = of_char c - 48"

definition shader_model_minor :: "string \<Rightarrow> u32 option" where
  "shader_model_minor profile =
     (if length profile < 5 then None
      else case find_last_of profile CHR ''_'' of
             None \<Rightarrow> None
           | Some last_us \<Rightarrow>
               if last_us + 1 \<ge> length profile then None
               else if last_us < 1 \<or> profile ! (last_us - 1) \<noteq> CHR ''6'' then None
               else if last_us < 2 \<or> profile ! (last_us - 2) \<noteq> CHR ''_'' then None
               else let digits = drop (last_us + 1) profile in
                 if \<not> list_all is_digit_char digits then None
                 else Some (fold (\<lambda>c minor. minor * 10 + char_digit c) digits 0))"

definition target_supports_sm :: "string \<Rightarrow> u32 \<Rightarrow> bool" where
  "target_supports_sm profile required_minor =
     (case shader_model_minor profile of None \<Rightarrow> False | Some minor \<Rightarrow> minor \<ge> required_minor)"

definition k_preview :: string where "k_preview = ''-preview''"

definition strip_preview_suffix :: "string \<Rightarrow> string" where
  "strip_preview_suffix profile =
     (if length profile \<ge> length k_preview \<and> drop (length profile - length k_preview) profile = k_preview
      then take (length profile - length k_preview) profile else profile)"

definition target_is_sm610_or_later :: "string \<Rightarrow> bool" where
  "target_is_sm610_or_later profile =
     (case shader_model_minor (strip_preview_suffix profile) of None \<Rightarrow> False | Some minor \<Rightarrow> minor \<ge> 10)"

definition expected_wave_size_for_target :: "string \<Rightarrow> u32" where
  "expected_wave_size_for_target profile =
     (if profile = [] then 32
      else case shader_model_minor (strip_preview_suffix profile) of
             None \<Rightarrow> 32
           | Some minor \<Rightarrow> if minor \<ge> 5 then 32 else 64)"

section \<open>Attributes before a function\<close>

definition attr_blank :: "char \<Rightarrow> bool" where
  "attr_blank c \<longleftrightarrow> c = CHR '' '' \<or> c = tab_char \<or> c = carriage_return \<or> c = newline"

abbreviation skip_ws :: "string \<Rightarrow> nat \<Rightarrow> nat" where "skip_ws \<equiv> skip_while attr_blank"

definition match_keyword :: "string \<Rightarrow> string \<Rightarrow> bool" where
  "match_keyword s keyword =
     (if length s < length keyword then False
      else if take (length keyword) s \<noteq> keyword then False
      else if length s = length keyword then True
      else let c = s ! length keyword in \<not> (is_alnum_char c \<or> c = CHR ''_''))"

function prefix_start :: "string \<Rightarrow> nat \<Rightarrow> nat" where
  "prefix_start bytes i =
     (if 0 < i \<and> bytes ! (i - 1) \<notin> set '';}{'' then prefix_start bytes (i - 1) else i)"
  by pat_completeness auto
termination by (relation "measure snd") auto

declare prefix_start.simps [simp del]

text \<open>Digits from \<open>i\<close>: the index after them and their number, if there are any. Once the number is at least
  \<open>10\<^sup>9\<close>, further digits are dropped; the last product may wrap before that.\<close>

definition saturating_digit :: "char \<Rightarrow> u32 \<Rightarrow> u32" where
  "saturating_digit c n = (if n < 1000000000 then n * 10 + char_digit c else n)"

definition parse_uint :: "string \<Rightarrow> nat \<Rightarrow> (u32 \<times> nat) option" where
  "parse_uint s i =
     (let j = skip_while is_digit_char s i in
      if j = i then None else Some (fold saturating_digit (substr s i (j - i)) 0, j))"

text \<open>An attribute of the given name at an opening bracket: what its arguments give, or nothing when it is not one.\<close>

definition attribute_arguments :: "string \<Rightarrow> string \<Rightarrow> nat \<Rightarrow> (nat \<Rightarrow> 'a option) \<Rightarrow> 'a option" where
  "attribute_arguments name pfx j args =
     (if \<not> match_keyword (drop j pfx) name then None
      else let k = skip_ws pfx (j + length name) in
        if k \<ge> length pfx \<or> pfx ! k \<noteq> CHR ''('' then None
        else args (skip_ws pfx (k + 1)))"

text \<open>The scan goes on after a bracket that is not the attribute, and ends at one that is followed by blanks only.\<close>

function scan_attribute :: "string \<Rightarrow> string \<Rightarrow> (nat \<Rightarrow> 'a option) \<Rightarrow> nat \<Rightarrow> 'a option" where
  "scan_attribute name pfx args i =
     (if i \<ge> length pfx then None
      else if pfx ! i \<noteq> CHR ''['' then scan_attribute name pfx args (i + 1)
      else let j = skip_ws pfx (i + 1) in
        if j \<ge> length pfx then None
        else case attribute_arguments name pfx j args of
               Some r \<Rightarrow> Some r
             | None \<Rightarrow> scan_attribute name pfx args (i + 1))"
  by pat_completeness auto
termination by (relation "measure (\<lambda>(name, pfx, args, i). length pfx - i)") auto

declare scan_attribute.simps [simp del]

definition wavesize_arguments :: "string \<Rightarrow> nat \<Rightarrow> (u32 \<times> u32) option" where
  "wavesize_arguments pfx j =
     (case parse_uint pfx j of
        None \<Rightarrow> None
      | Some (min_v, after_min) \<Rightarrow>
          let k = skip_ws pfx after_min in
          if k < length pfx \<and> pfx ! k = CHR '',''
          then (case parse_uint pfx (skip_ws pfx (k + 1)) of None \<Rightarrow> None | Some (max_v, _) \<Rightarrow> Some (min_v, max_v))
          else Some (min_v, min_v))"

definition scan_wavesize :: "string \<Rightarrow> (u32 \<times> u32) option" where
  "scan_wavesize pfx = scan_attribute ''WaveSize'' pfx (wavesize_arguments pfx) 0"

definition scan_groupshared_limit :: "string \<Rightarrow> u32 option" where
  "scan_groupshared_limit pfx = scan_attribute ''GroupSharedLimit'' pfx (\<lambda>j. map_option fst (parse_uint pfx j)) 0"

section \<open>Finding the function\<close>

definition declarator_identifier :: "ts_node \<Rightarrow> ts_node option" where
  "declarator_identifier n =
     (case child_by_field n ''declarator'' of
        Some d \<Rightarrow> if ts_kind d = ''identifier'' then Some d else find (\<lambda>c. ts_kind c = ''identifier'') (child_nodes n)
      | None \<Rightarrow> find (\<lambda>c. ts_kind c = ''identifier'') (child_nodes n))"

text \<open>Depth first, in document order: the first declarator of that name.\<close>

fun find_function_identifier :: "string \<Rightarrow> string \<Rightarrow> ts_node \<Rightarrow> ts_node option"
  and find_in_children :: "string \<Rightarrow> string \<Rightarrow> (string option \<times> ts_node) list \<Rightarrow> ts_node option" where
  "find_function_identifier bytes target_name (Ts_Node k named lo hi cs) =
     (let ident = (if k = ''function_declarator'' then declarator_identifier (Ts_Node k named lo hi cs) else None) in
      if ident \<noteq> None \<and> ast_text bytes ident = target_name then ident
      else find_in_children bytes target_name cs)"
| "find_in_children bytes target_name [] = None"
| "find_in_children bytes target_name ((g, c) # cs) =
     (case find_function_identifier bytes target_name c of
        Some hit \<Rightarrow> Some hit
      | None \<Rightarrow> find_in_children bytes target_name cs)"

function function_identifier :: "ts_node \<Rightarrow> ts_node option"
  and first_identifier :: "ts_node list \<Rightarrow> ts_node option" where
  "function_identifier n =
     (if ts_kind n = ''function_definition'' \<and> child_by_field n ''declarator'' \<noteq> None
      then function_identifier (the (child_by_field n ''declarator''))
      else if ts_kind n = ''function_declarator'' \<and> declarator_identifier n \<noteq> None then declarator_identifier n
      else first_identifier (child_nodes n))"
| "first_identifier [] = None"
| "first_identifier (c # cs) =
     (if ts_kind c = ''identifier'' then Some c
      else case function_identifier c of
             Some hit \<Rightarrow> (if ts_kind hit = ''identifier'' then Some hit else first_identifier cs)
           | None \<Rightarrow> first_identifier cs)"
  by pat_completeness auto
termination
proof (relation "measure (case_sum (\<lambda>n. 2 * node_size n) (\<lambda>cs. 1 + 2 * sum_list (map node_size cs)))", goal_cases)
  case (2 n)
  then show ?case using child_smaller [OF field_child, of n "''declarator''"] by auto
next
  case (3 n)
  then show ?case using children_smaller [of n] by simp
qed auto

declare function_identifier.simps [simp del]

definition attribute_prefix :: "string \<Rightarrow> ts_node \<Rightarrow> string option" where
  "attribute_prefix bytes ident =
     (let ident_lo = unat (ts_start ident); pref_lo = prefix_start bytes ident_lo in
      if pref_lo \<ge> ident_lo then None else Some (substr bytes pref_lo (ident_lo - pref_lo)))"

definition wave_size_for_entry_point :: "ts_node option \<Rightarrow> string \<Rightarrow> entry_point_info \<Rightarrow> (u32 \<times> u32) option" where
  "wave_size_for_entry_point tree bytes ep =
     (case tree of
        None \<Rightarrow> None
      | Some n \<Rightarrow>
          (case find_function_identifier bytes (ep_name ep) n of
             None \<Rightarrow> None
           | Some ident \<Rightarrow>
               (case attribute_prefix bytes ident of None \<Rightarrow> None | Some pfx \<Rightarrow> scan_wavesize pfx)))"

definition parse_groupshared_limit_attribute :: "string \<Rightarrow> ts_node option \<Rightarrow> u32 option" where
  "parse_groupshared_limit_attribute bytes entry_point =
     (case entry_point of
        None \<Rightarrow> None
      | Some n \<Rightarrow>
          (case function_identifier n of
             None \<Rightarrow> None
           | Some ident \<Rightarrow>
               if unat (ts_start ident) > length bytes then None
               else (case attribute_prefix bytes ident of None \<Rightarrow> None | Some pfx \<Rightarrow> scan_groupshared_limit pfx)))"

definition is_linalg_matrix_type :: "string \<Rightarrow> bool" where
  "is_linalg_matrix_type type_name =
     (let k_prefix = ''linalg::Matrix''; i = skip_ws type_name 0 in
      if i \<ge> length type_name then False
      else if take (length k_prefix) (drop i type_name) \<noteq> k_prefix then False
      else let j = skip_ws type_name (i + length k_prefix) in j < length type_name \<and> type_name ! j = CHR ''<'')"

section \<open>Numbers in attributes and profiles\<close>

lemma char_digit_value: "is_digit_char c \<Longrightarrow> char_digit c = u32_of (digit_value c)"
proof -
  assume "is_digit_char c"
  then have "48 \<le> (of_char c :: nat)" by (simp add: is_digit_char_def less_eq_char_def)
  moreover have "of_char c = (of_nat (of_char c) :: u32)" by (simp only: of_nat_of_char)
  ultimately show ?thesis unfolding char_digit_def digit_value_def by (metis of_nat_diff of_nat_numeral)
qed

lemma wrapped_decimal:
  "list_all is_digit_char ds \<Longrightarrow> fold (\<lambda>c n. n * 10 + char_digit c) ds 0 = u32_of (of_decimal ds)"
proof (induction ds rule: rev_induct)
  case (snoc c ds)
  then show ?case by (simp add: of_decimal_snoc char_digit_value mult.commute)
qed (simp add: of_decimal_def)

lemma saturated_decimal:
  "list_all is_digit_char ds \<Longrightarrow> of_decimal ds < 2 ^ 32 \<Longrightarrow> fold saturating_digit ds 0 = u32_of (of_decimal ds)"
proof (induction ds rule: rev_induct)
  case (snoc c ds)
  then have "of_decimal ds < 1000000000" and eq: "fold saturating_digit ds 0 = u32_of (of_decimal ds)"
    by (simp_all add: of_decimal_snoc)
  then have "unat (u32_of (of_decimal ds)) < 1000000000" by (simp add: unat_of_nat)
  then have "u32_of (of_decimal ds) < 1000000000" by (simp add: word_less_nat_alt)
  then show ?case using snoc.prems eq
    by (simp add: saturating_digit_def [of c "u32_of (of_decimal ds)"] of_decimal_snoc char_digit_value mult.commute)
qed (simp add: of_decimal_def)

lemma parse_uint_decimal:
  assumes "rest = [] \<or> \<not> is_digit_char (hd rest)"
  shows "parse_uint (pre @ to_decimal (unat (n :: u32)) @ rest) (length pre) = Some (n, length pre + length (to_decimal (unat n)))"
proof -
  let ?s = "pre @ to_decimal (unat n) @ rest"
  have digits: "\<forall>c \<in> set (to_decimal (unat n)). is_digit_char c" by (rule to_decimal_digits)
  have j: "skip_while is_digit_char ?s (length pre) = length pre + length (to_decimal (unat n))"
    by (rule skip_while_append [OF digits assms])
  have "unat n < 2 ^ 32" using unsigned_less [of n] by simp
  then have "fold saturating_digit (to_decimal (unat n)) 0 = n"
    using saturated_decimal [of "to_decimal (unat n)"] digits by (simp add: list_all_iff)
  then show ?thesis by (simp add: parse_uint_def j substr_def)
qed

lemma find_last_of_last: "c \<notin> set ys \<Longrightarrow> find_last_of (xs @ c # ys) c = Some (length xs)"
proof -
  assume "c \<notin> set ys"
  then have "takeWhile (\<lambda>d. d \<noteq> c) (rev (xs @ c # ys)) = rev ys" by (simp add: takeWhile_append)
  then show ?thesis by (simp add: find_last_of_def)
qed

lemma find_last_of_split:
  assumes "find_last_of s c = Some i"
  shows "i < length s" "s ! i = c" "s = take i s @ c # drop (i + 1) s"
proof -
  let ?n = "length (takeWhile (\<lambda>d. d \<noteq> c) (rev s))"
  have n: "?n < length s" "i = length s - 1 - ?n" using assms by (auto simp: find_last_of_def Let_def split: if_splits)
  then show i: "i < length s" by simp
  have "rev s ! ?n = c" using nth_length_takeWhile [of "\<lambda>d. d \<noteq> c" "rev s"] n(1) by simp
  then show "s ! i = c" using n by (simp add: rev_nth)
  with i show "s = take i s @ c # drop (i + 1) s" by (metis Suc_eq_plus1 id_take_nth_drop)
qed

lemma plain_chars:
  "\<not> is_digit_char CHR '')''" "\<not> is_digit_char CHR '',''" "\<not> attr_blank CHR '')''" "\<not> attr_blank CHR '',''"
  "\<not> attr_blank CHR ''W''" "\<not> attr_blank CHR ''(''" "attr_blank CHR '' ''" "\<not> is_alnum_char CHR ''(''"
  by (simp_all add: attr_blank_def) code_simp+

lemma decimal_start: "\<not> attr_blank (hd (to_decimal n))"
proof -
  have "is_digit_char (hd (to_decimal n))" using to_decimal_digits [of n] by simp
  moreover have "\<not> is_digit_char CHR '' ''" "\<not> is_digit_char tab_char" "\<not> is_digit_char carriage_return"
    "\<not> is_digit_char newline" by code_simp+
  ultimately show ?thesis unfolding attr_blank_def by metis
qed

lemma skip_ws_here: "b = [] \<or> \<not> attr_blank (hd b) \<Longrightarrow> skip_ws (a @ b) (length a) = length a"
  using skip_while_append [of "[]" attr_blank b a] by simp

lemma scan_attribute_skips:
  "CHR ''['' \<notin> set pre \<Longrightarrow> scan_attribute name (pre @ s) args 0 = scan_attribute name (pre @ s) args (length pre)"
proof -
  assume pre: "CHR ''['' \<notin> set pre"
  have "i \<le> length pre \<Longrightarrow> scan_attribute name (pre @ s) args i = scan_attribute name (pre @ s) args (length pre)" for i
  proof (induction i rule: inc_induct)
    case (step i)
    then have "pre ! i \<noteq> CHR ''[''" using pre by (metis nth_mem)
    then have "scan_attribute name (pre @ s) args i = scan_attribute name (pre @ s) args (i + 1)"
      using step(2) scan_attribute.simps [of name "pre @ s" args i] by (simp add: nth_append)
    then show ?case using step(3) by simp
  qed simp
  from this [of 0] show ?thesis by blast
qed

lemma scan_attribute_here:
  assumes "CHR ''['' \<notin> set pre" and "args (length (pre @ ''[WaveSize('')) = Some r"
    and "s \<noteq> []" and "\<not> attr_blank (hd s)"
  shows "scan_attribute ''WaveSize'' (pre @ ''[WaveSize('' @ s) args 0 = Some r"
proof -
  let ?s = "pre @ ''[WaveSize('' @ s"
  have j: "skip_ws ?s (length pre + 1) = length pre + 1"
    using skip_ws_here [of "''WaveSize('' @ s" "pre @ ''[''"] by (simp add: plain_chars)
  have k: "skip_ws ?s (length pre + 9) = length pre + 9"
    using skip_ws_here [of "''('' @ s" "pre @ ''[WaveSize''"] by (simp add: plain_chars numeral_eq_Suc)
  have a: "skip_ws ?s (length pre + 10) = length pre + 10"
    using skip_ws_here [of s "pre @ ''[WaveSize(''"] assms(4) by (simp add: numeral_eq_Suc)
  have "attribute_arguments ''WaveSize'' ?s (length pre + 1) args = Some r"
    using k a assms(2)
    by (simp add: attribute_arguments_def match_keyword_def plain_chars nth_append numeral_eq_Suc Let_def)
  then show ?thesis
    unfolding scan_attribute_skips [OF assms(1)] using j by (subst scan_attribute.simps) (simp add: nth_append)
qed

section \<open>Properties of profiles and attributes\<close>

text \<open>The minor version of a profile is the number after \<open>_6_\<close>, and there is one exactly when the profile ends with
  that and at least one digit; the number is taken modulo \<open>2\<^sup>3\<^sup>2\<close>.\<close>

theorem shader_model_minor_language:
  "shader_model_minor profile = Some m \<longleftrightarrow>
     5 \<le> length profile \<and>
     (\<exists>pfx ds. profile = pfx @ ''_6_'' @ ds \<and> ds \<noteq> [] \<and> list_all is_digit_char ds \<and> m = of_nat (of_decimal ds))"
proof
  assume some: "shader_model_minor profile = Some m"
  then obtain i where i: "find_last_of profile CHR ''_'' = Some i"
    by (auto simp: shader_model_minor_def split: if_splits option.splits)
  from some have facts: "5 \<le> length profile" "i + 1 < length profile" "2 \<le> i" "profile ! (i - 1) = CHR ''6''"
    "profile ! (i - 2) = CHR ''_''" "list_all is_digit_char (drop (i + 1) profile)"
    "m = fold (\<lambda>c n. n * 10 + char_digit c) (drop (i + 1) profile) 0"
    by (auto simp: shader_model_minor_def i Let_def split: if_splits)
  have "profile = take i profile @ CHR ''_'' # drop (i + 1) profile" by (rule find_last_of_split(3) [OF i])
  moreover have "take i profile = take (i - 2) profile @ ''_6''"
  proof -
    obtain k where k: "i = Suc (Suc k)" using facts(3) by (metis Suc_diff_Suc Suc_1 Suc_le_lessD add_2_eq_Suc le_add_diff_inverse)
    then have "take i profile = take k profile @ [profile ! k, profile ! Suc k]"
      using facts(2) by (simp add: take_Suc_conv_app_nth)
    then show ?thesis using facts(4,5) k by simp
  qed
  ultimately have "profile = take (i - 2) profile @ ''_6_'' @ drop (i + 1) profile" by simp
  then show "5 \<le> length profile \<and>
     (\<exists>pfx ds. profile = pfx @ ''_6_'' @ ds \<and> ds \<noteq> [] \<and> list_all is_digit_char ds \<and> m = of_nat (of_decimal ds))"
    using facts wrapped_decimal [OF facts(6)] by (metis drop_eq_Nil leD)
next
  assume "5 \<le> length profile \<and>
     (\<exists>pfx ds. profile = pfx @ ''_6_'' @ ds \<and> ds \<noteq> [] \<and> list_all is_digit_char ds \<and> m = of_nat (of_decimal ds))"
  then obtain pfx ds where s: "profile = pfx @ ''_6_'' @ ds" "ds \<noteq> []" "list_all is_digit_char ds" "m = of_nat (of_decimal ds)"
    and len: "5 \<le> length profile" by blast
  have "\<not> is_digit_char CHR ''_''" by code_simp
  then have "CHR ''_'' \<notin> set ds" using s(3) by (auto simp: list_all_iff)
  then have "find_last_of profile CHR ''_'' = Some (length pfx + 2)"
    using find_last_of_last [of "CHR ''_''" ds "pfx @ ''_6''"] s(1) by simp
  then show "shader_model_minor profile = Some m"
    using len s wrapped_decimal [OF s(3)] by (simp add: shader_model_minor_def nth_append)
qed

text \<open>An attribute written before a function is read back: whatever precedes it, as long as there is no other
  bracket, and whatever follows, \<open>[WaveSize(lo, hi)]\<close> gives the two numbers and \<open>[WaveSize(n)]\<close> the same number twice,
  for every number of 32 bits.\<close>

theorem wavesize_round_trip:
  assumes "CHR ''['' \<notin> set pre"
  shows "scan_wavesize (pre @ ''[WaveSize('' @ to_decimal (unat lo) @ '', '' @ to_decimal (unat hi) @ '')]'' @ rest) = Some (lo, hi) \<and>
    scan_wavesize (pre @ ''[WaveSize('' @ to_decimal (unat lo) @ '')]'' @ rest) = Some (lo, lo)"
proof -
  let ?pre = "pre @ ''[WaveSize(''"
  have one: "wavesize_arguments (?pre @ to_decimal (unat lo) @ '')]'' @ rest) (length ?pre) = Some (lo, lo)"
  proof -
    let ?s = "?pre @ to_decimal (unat lo) @ '')]'' @ rest"
    have "parse_uint ?s (length ?pre) = Some (lo, length ?pre + length (to_decimal (unat lo)))"
      by (rule parse_uint_decimal) (simp add: plain_chars)
    moreover have "skip_ws ?s (length ?pre + length (to_decimal (unat lo))) = length ?pre + length (to_decimal (unat lo))"
      using skip_ws_here [of "'')]'' @ rest" "?pre @ to_decimal (unat lo)"] by (simp add: plain_chars)
    ultimately show ?thesis by (simp add: wavesize_arguments_def nth_append)
  qed
  have two: "wavesize_arguments (?pre @ to_decimal (unat lo) @ '', '' @ to_decimal (unat hi) @ '')]'' @ rest) (length ?pre) = Some (lo, hi)"
  proof -
    let ?s = "?pre @ to_decimal (unat lo) @ '', '' @ to_decimal (unat hi) @ '')]'' @ rest"
    let ?k = "length ?pre + length (to_decimal (unat lo))"
    have first: "parse_uint ?s (length ?pre) = Some (lo, ?k)"
      by (rule parse_uint_decimal) (simp add: plain_chars)
    have k: "skip_ws ?s ?k = ?k"
      using skip_ws_here [of "'', '' @ to_decimal (unat hi) @ '')]'' @ rest" "?pre @ to_decimal (unat lo)"] by (simp add: plain_chars)
    have blank: "skip_ws ?s (?k + 1) = ?k + 2"
      using skip_while_append [of "'' ''" attr_blank "to_decimal (unat hi) @ '')]'' @ rest" "?pre @ to_decimal (unat lo) @ '',''"]
        decimal_start [of "unat hi"] by (simp add: plain_chars)
    have second: "parse_uint ?s (?k + 2) = Some (hi, ?k + 2 + length (to_decimal (unat hi)))"
      using parse_uint_decimal [of "'')]'' @ rest" "?pre @ to_decimal (unat lo) @ '', ''" hi] by (simp add: plain_chars)
    have "?k < length ?s" "?s ! ?k = CHR '',''" by (simp_all add: nth_append)
    then show ?thesis by (simp only: wavesize_arguments_def first option.case prod.case Let_def k blank second if_True simp_thms)
  qed
  have "scan_wavesize (pre @ ''[WaveSize('' @ to_decimal (unat lo) @ '', '' @ to_decimal (unat hi) @ '')]'' @ rest) = Some (lo, hi)"
    unfolding scan_wavesize_def
    by (rule scan_attribute_here [OF assms]) (use decimal_start [of "unat lo"] two in \<open>simp_all add: plain_chars\<close>)
  moreover have "scan_wavesize (pre @ ''[WaveSize('' @ to_decimal (unat lo) @ '')]'' @ rest) = Some (lo, lo)"
    unfolding scan_wavesize_def
    by (rule scan_attribute_here [OF assms]) (use decimal_start [of "unat lo"] one in \<open>simp_all add: plain_chars\<close>)
  ultimately show ?thesis ..
qed

text \<open>The parser of attribute numbers stops adding digits too late to keep its numbers from wrapping: \<open>2\<^sup>3\<^sup>2 + 32\<close>
  is read as 32.\<close>

theorem wavesize_wraps:
  "scan_wavesize ''[WaveSize(4294967328)]'' = Some (32, 32)"
  by code_simp

theorem wavesize_round_trip_witness:
  "scan_wavesize ''float4 f; [WaveSize(32, 64)] void main'' = Some (32, 64)"
proof -
  have "CHR ''['' \<notin> set ''float4 f; ''" by simp
  moreover have "to_decimal (unat (32 :: u32)) = ''32''" "to_decimal (unat (64 :: u32)) = ''64''" by code_simp+
  ultimately show ?thesis using wavesize_round_trip [of "''float4 f; ''" 32 64 "'' void main''"] by simp
qed

end
