(* ===== verification/RuleKit.thy ===== *)
theory RuleKit
  imports CfgEngine Lint RuleUtil
begin

text \<open>
  What the rules share: nodes that know their ancestors, which \<^verbatim>\<open>ts_node_parent\<close> and the node identities of
  \<^verbatim>\<open>core/src/rules\<close> need, the recursion over all nodes that most rules write out, and the diagnostics they
  build. A node of a tree is the path of child positions that leads to it from the root.
\<close>

section \<open>Nodes with ancestors\<close>

type_synonym node_path = "nat list"

fun node_at :: "ts_node \<Rightarrow> node_path \<Rightarrow> ts_node option" where
  "node_at n [] = Some n"
| "node_at n (i # p) = (if i < length (ts_children n) then node_at (snd (ts_children n ! i)) p else None)"

abbreviation kind_at :: "ts_node \<Rightarrow> node_path \<Rightarrow> string" where
  "kind_at tr p \<equiv> node_kind (node_at tr p)"

text \<open>\<open>ts_node_parent\<close> of any node but the root.\<close>

abbreviation parent_path :: "node_path \<Rightarrow> node_path" where
  "parent_path \<equiv> butlast"

definition located_children :: "node_path \<Rightarrow> ts_node \<Rightarrow> (node_path \<times> ts_node) list" where
  "located_children p n = map (\<lambda>(i, c). (p @ [i], c)) (enumerate 0 (child_nodes n))"

lemma located_child: "(q, c) \<in> set (located_children p n) \<Longrightarrow> c \<in> set (child_nodes n)"
  by (auto simp: located_children_def in_set_enumerate_eq)

lemma located_child_smaller: "(q, c) \<in> set (located_children p n) \<Longrightarrow> node_size c < node_size n"
  by (rule child_smaller) (rule located_child)

lemma node_at_snoc: "node_at n p = Some m \<Longrightarrow> i < length (ts_children m) \<Longrightarrow> node_at n (p @ [i]) = Some (snd (ts_children m ! i))"
proof (induction p arbitrary: n)
  case (Cons j p)
  then show ?case by (cases "j < length (ts_children n)") auto
qed simp

lemma located_child_at:
  assumes "node_at tr p = Some n" and "(q, c) \<in> set (located_children p n)"
  shows "node_at tr q = Some c"
  using assms by (auto simp: located_children_def in_set_enumerate_eq node_at_snoc)

text \<open>All nodes below a node, itself included, in document order.\<close>

function located_nodes :: "node_path \<Rightarrow> ts_node \<Rightarrow> (node_path \<times> ts_node) list" where
  "located_nodes p n = (p, n) # concat (map (\<lambda>(q, c). located_nodes q c) (located_children p n))"
  by pat_completeness auto
termination
  by (relation "measure (\<lambda>(p, n). node_size n)") (auto intro: located_child_smaller)

declare located_nodes.simps [simp del]

lemma located_nodes_preorder: "map snd (located_nodes p n) = preorder n"
proof (induction p n rule: located_nodes.induct)
  case (1 p n)
  have "map snd (concat (map (\<lambda>(q, c). located_nodes q c) cs)) = concat (map preorder (map snd cs))"
    if "set cs \<subseteq> set (located_children p n)" for cs
    using that 1 by (induction cs) (auto split: prod.splits)
  moreover have "map snd (located_children p n) = child_nodes n"
    by (simp add: located_children_def comp_def case_prod_beta)
  ultimately have "map snd (concat (map (\<lambda>(q, c). located_nodes q c) (located_children p n))) = concat (map preorder (child_nodes n))"
    by (metis subset_refl)
  then show ?case using preorder_children [of n] by (subst located_nodes.simps) simp
qed

definition field_position :: "ts_node \<Rightarrow> string \<Rightarrow> nat option" where
  "field_position n f = map_option fst (find (\<lambda>(i, g, c). g = Some f) (enumerate 0 (ts_children n)))"

text \<open>A text position of a node, as the rules store it.\<close>

abbreviation range_of :: "ts_node \<Rightarrow> byte_span" where
  "range_of n \<equiv> byte_range (Some n)"

section \<open>Text\<close>

text \<open>\<open>std::string_view::find(pattern, pos)\<close>.\<close>

definition find_text :: "string \<Rightarrow> string \<Rightarrow> nat \<Rightarrow> nat option" where
  "find_text text pattern pos =
     find (\<lambda>i. take (length pattern) (drop i text) = pattern) [pos..<Suc (length text - length pattern)]"

lemma find_text_bounds: "find_text text pattern pos = Some i \<Longrightarrow> pos \<le> i \<and> i \<le> length text"
proof -
  assume "find_text text pattern pos = Some i"
  then have "i \<in> set [pos..<Suc (length text - length pattern)]"
    unfolding find_text_def find_Some_iff by (metis nth_mem)
  then show ?thesis by auto
qed

definition is_id_char :: "char \<Rightarrow> bool" where
  "is_id_char c \<longleftrightarrow> is_alnum_char c \<or> c = CHR ''_''"

text \<open>A keyword in a text, not as part of a longer word.\<close>

function keyword_from :: "string \<Rightarrow> string \<Rightarrow> nat \<Rightarrow> bool" where
  "keyword_from text keyword pos =
     (case find_text text keyword pos of
        None \<Rightarrow> False
      | Some found \<Rightarrow>
          (if (found = 0 \<or> \<not> is_id_char (text ! (found - 1))) \<and>
              (found + length keyword \<ge> length text \<or> \<not> is_id_char (text ! (found + length keyword)))
           then True
           else keyword_from text keyword (found + 1)))"
  by pat_completeness auto
termination
  by (relation "measure (\<lambda>(text, keyword, pos). Suc (length text) - pos)") (auto dest: find_text_bounds)

declare keyword_from.simps [simp del]

definition has_keyword :: "string \<Rightarrow> string \<Rightarrow> bool" where
  "has_keyword text keyword = keyword_from text keyword 0"

section \<open>Diagnostics\<close>

definition rule_diagnostic :: "string \<Rightarrow> source_id \<Rightarrow> byte_span \<Rightarrow> string \<Rightarrow> fix_t list \<Rightarrow> diagnostic" where
  "rule_diagnostic code source bs message fixes =
     \<lparr>dg_code = code, dg_severity = Warning, dg_primary_span = \<lparr>sp_source = source, sp_bytes = bs\<rparr>,
      dg_message = message, dg_fixes = fixes\<rparr>"

definition suggestion :: "string \<Rightarrow> fix_t" where
  "suggestion description = \<lparr>fx_description = description, fx_machine_applicable = False, fx_edits = []\<rparr>"

definition replacing_fix :: "bool \<Rightarrow> string \<Rightarrow> source_id \<Rightarrow> byte_span \<Rightarrow> string \<Rightarrow> fix_t" where
  "replacing_fix machine description source bs replacement =
     \<lparr>fx_description = description, fx_machine_applicable = machine,
      fx_edits = [\<lparr>te_span = \<lparr>sp_source = source, sp_bytes = bs\<rparr>, te_replacement = replacement\<rparr>]\<rparr>"

definition error_diagnostic :: "string \<Rightarrow> source_id \<Rightarrow> byte_span \<Rightarrow> string \<Rightarrow> fix_t list \<Rightarrow> diagnostic" where
  "error_diagnostic code source bs message fixes = (rule_diagnostic code source bs message fixes)\<lparr>dg_severity := Error\<rparr>"

text \<open>The long dash of the messages.\<close>

abbreviation em_dash :: string where
  "em_dash \<equiv> [CHR 0xE2, CHR 0x80, CHR 0x94]"

text \<open>Trees of examples: a node of the given kind over a text range.\<close>

abbreviation ex_node :: "string \<Rightarrow> u32 \<Rightarrow> u32 \<Rightarrow> ts_node list \<Rightarrow> ts_node" where
  "ex_node kind lo hi children \<equiv> Ts_Node kind True lo hi (map (Pair None) children)"

abbreviation ex_token :: "string \<Rightarrow> u32 \<Rightarrow> u32 \<Rightarrow> ts_node" where
  "ex_token kind lo hi \<equiv> Ts_Node kind False lo hi []"

definition ex_call :: "u32 \<Rightarrow> u32 \<Rightarrow> u32 \<Rightarrow> ts_node list \<Rightarrow> ts_node" where
  "ex_call lo mid hi arguments =
     Ts_Node ''call_expression'' True lo hi
       [(Some ''function'', ex_node ''identifier'' lo mid []), (Some ''arguments'', ex_node ''argument_list'' mid hi arguments)]"

definition ex_assign :: "u32 \<Rightarrow> u32 \<Rightarrow> ts_node \<Rightarrow> ts_node" where
  "ex_assign lo hi value_node =
     ex_node ''expression_statement'' lo (hi + 1)
       [Ts_Node ''assignment_expression'' True lo hi
          [(Some ''left'', ex_node ''identifier'' lo (lo + 1) []), (Some ''right'', value_node)]]"

end
