(* ===== verification/Barriers.thy ===== *)
theory Barriers
  imports RuleKit CfgQuery
begin

text \<open>
  How \<^verbatim>\<open>core/src/control_flow/cfg_builder.cpp\<close> and the barrier query of
  \<^verbatim>\<open>core/src/rules/util/cfg_query.cpp\<close> compose: a statement with a barrier call anywhere below it is taken
  for the barrier, and the first such statement on the way down is the body of the function. The graphs of built
  functions then have no edge into a block that holds a barrier, and the query is false throughout.
\<close>

section \<open>Quiet steps\<close>

definition calm :: "nat \<Rightarrow> cfg_storage \<Rightarrow> bool" where
  "calm fid st \<longleftrightarrow> (\<forall>b \<in> set (cf_blocks (the_fn fid st)). \<not> bb_contains_barrier b)"

text \<open>A step on one function leaves the others alone, and is calm when it marks no barrier.\<close>

definition on_function :: "nat \<Rightarrow> bool \<Rightarrow> (cfg_storage, 'a) state \<Rightarrow> bool" where
  "on_function fid quiet m \<longleftrightarrow>
     (\<forall>st. fid < length (cs_functions st) \<longrightarrow>
        (let st' = snd (run_state m st) in
         length (cs_functions st') = length (cs_functions st) \<and> (\<forall>g. g \<noteq> fid \<longrightarrow> the_fn g st' = the_fn g st) \<and>
         (quiet \<longrightarrow> calm fid st \<longrightarrow> calm fid st')))"

lemma on_function_return: "on_function fid quiet (State_Monad.return a)"
  by (simp add: on_function_def)

lemma on_function_bind:
  assumes "on_function fid quiet m" and "\<And>a. on_function fid quiet (f a)"
  shows "on_function fid quiet (State_Monad.bind m f)"
  unfolding on_function_def Let_def
proof (intro allI impI)
  fix st :: cfg_storage
  assume fid: "fid < length (cs_functions st)"
  obtain a st' where m: "run_state m st = (a, st')" by fastforce
  then have st': "length (cs_functions st') = length (cs_functions st)" "\<forall>g. g \<noteq> fid \<longrightarrow> the_fn g st' = the_fn g st"
    "quiet \<longrightarrow> calm fid st \<longrightarrow> calm fid st'"
    using assms(1) fid by (auto simp: on_function_def Let_def)
  then show "length (cs_functions (snd (run_state (State_Monad.bind m f) st))) = length (cs_functions st) \<and>
      (\<forall>g. g \<noteq> fid \<longrightarrow> the_fn g (snd (run_state (State_Monad.bind m f) st)) = the_fn g st) \<and>
      (quiet \<longrightarrow> calm fid st \<longrightarrow> calm fid (snd (run_state (State_Monad.bind m f) st)))"
    using assms(2) [of a] fid m by (simp add: on_function_def Let_def)
qed

lemma on_function_new_block: "on_function (be_function_id env) quiet (new_block env anchor)"
  by (auto simp: on_function_def new_block_def add_block_simps calm_def fresh_block_def)

lemma on_function_modify:
  assumes "quiet \<Longrightarrow> (\<And>b. bb_contains_barrier (f b) \<Longrightarrow> bb_contains_barrier b)"
  shows "on_function (be_function_id env) quiet (modify_block env i f)"
proof -
  have "calm (be_function_id env) (update_fn (be_function_id env) (update_block i f) st)"
    if "quiet" "be_function_id env < length (cs_functions st)" "calm (be_function_id env) st" for st
  proof (cases "i < length (cf_blocks (the_fn (be_function_id env) st))")
    case True
    then show ?thesis
      using that assms set_update_subset_insert [of "cf_blocks (the_fn (be_function_id env) st)" i]
      by (fastforce simp: calm_def update_block_def)
  qed (use that in \<open>simp add: calm_def update_block_def list_update_beyond\<close>)
  then show ?thesis by (auto simp: on_function_def modify_block_def)
qed

lemma on_function_add_edge: "on_function (be_function_id env) quiet (add_edge env src dst)"
proof -
  have "run_state (add_edge env src dst) st =
      (if src \<ge> block_count (be_function_id env) st then ((), st)
       else run_state (modify_block env src (\<lambda>b. b\<lparr>bb_successors := bb_successors b @ [dst]\<rparr>)) st)" for st
    by (simp add: add_edge_def modify_block_def)
  moreover have "on_function (be_function_id env) quiet
      (modify_block env src (\<lambda>b. b\<lparr>bb_successors := bb_successors b @ [dst]\<rparr>))"
    by (rule on_function_modify) simp
  ultimately show ?thesis unfolding on_function_def Let_def by auto
qed

lemma on_function_cases:
  "(c \<Longrightarrow> on_function fid quiet m) \<Longrightarrow> (\<not> c \<Longrightarrow> on_function fid quiet m') \<Longrightarrow> on_function fid quiet (if c then m else m')"
  "(x = None \<Longrightarrow> on_function fid quiet n) \<Longrightarrow> (\<And>y. x = Some y \<Longrightarrow> on_function fid quiet (s y)) \<Longrightarrow>
     on_function fid quiet (case x of None \<Rightarrow> n | Some y \<Rightarrow> s y)"
  "(\<And>t e. z = (t, e) \<Longrightarrow> on_function fid quiet (p t e)) \<Longrightarrow> on_function fid quiet (case z of (t, e) \<Rightarrow> p t e)"
  by (simp_all split: option.split prod.split)

lemmas on_function_steps =
  on_function_return on_function_bind on_function_new_block on_function_add_edge on_function_cases

section \<open>Statements without a barrier\<close>

definition no_barrier :: "string \<Rightarrow> ts_node \<Rightarrow> bool" where
  "no_barrier bytes n \<longleftrightarrow> \<not> detect_barrier bytes n \<and> (\<forall>m \<in> set (preorder n). ts_kind m \<noteq> ''function_definition'')"

lemma no_barrier_child: "no_barrier bytes n \<Longrightarrow> c \<in> set (child_nodes n) \<Longrightarrow> no_barrier bytes c"
proof -
  assume n: "no_barrier bytes n" and c: "c \<in> set (child_nodes n)"
  obtain k nm lo hi cs where t: "n = Ts_Node k nm lo hi cs" by (cases n)
  have "set (preorder n) = insert n (\<Union>d \<in> set (child_nodes n). set (preorder d))" by (subst preorder_children) simp
  then have "set (preorder c) \<subseteq> set (preorder n)" using c by blast
  moreover from this have "c \<in> set (preorder n)" using preorder_self [of c] by blast
  moreover have "detect_barrier bytes c \<Longrightarrow> detect_barrier bytes n" if "ts_kind c \<noteq> ''function_definition''"
    using c that t by (auto simp: list_ex_iff)
  ultimately show ?thesis using n by (auto simp: no_barrier_def)
qed

lemma no_barrier_named: "no_barrier bytes n \<Longrightarrow> c \<in> set (named_children n) \<Longrightarrow> no_barrier bytes c"
  by (rule no_barrier_child) (auto simp: named_children_def)

lemma no_barrier_field: "no_barrier bytes n \<Longrightarrow> pred_option (no_barrier bytes) (child_by_field n f)"
  by (cases "child_by_field n f") (auto intro: no_barrier_child dest: field_child)

lemma no_barrier_arms:
  assumes "no_barrier bytes n"
  shows "if_arms n = (t, e) \<Longrightarrow> pred_option (no_barrier bytes) t \<and> pred_option (no_barrier bytes) e"
    and "pred_option (no_barrier bytes) (loop_body n)" and "pred_option (no_barrier bytes) (do_body n)"
proof -
  have named: "no_barrier bytes (named_children n ! i)" if "i < length (named_children n)" for i
    using no_barrier_named [OF assms nth_mem [OF that]] .
  assume "if_arms n = (t, e)"
  then show "pred_option (no_barrier bytes) t \<and> pred_option (no_barrier bytes) e"
    using no_barrier_field [OF assms] named [of 1] named [of 2] by (auto simp: if_arms_def Let_def split: if_splits)
next
  show "pred_option (no_barrier bytes) (loop_body n)"
    using no_barrier_field [OF assms, of "''body''"] no_barrier_named [OF assms last_in_set]
    by (cases "child_by_field n ''body''") (auto simp: loop_body_def Let_def)
  show "pred_option (no_barrier bytes) (do_body n)"
    using no_barrier_field [OF assms, of "''body''"] no_barrier_named [OF assms hd_in_set]
    by (cases "child_by_field n ''body''") (auto simp: do_body_def Let_def)
qed

lemma walk_on_function:
  shows "(quiet \<Longrightarrow> pred_option (no_barrier (be_bytes env)) stmt) \<Longrightarrow>
      on_function (be_function_id env) quiet (walk_statement env stmt current)"
    and "(quiet \<Longrightarrow> list_all (no_barrier (be_bytes env)) kids) \<Longrightarrow>
      on_function (be_function_id env) quiet (walk_kids env kids current)"
    and "(quiet \<Longrightarrow> list_all (no_barrier (be_bytes env)) cases) \<Longrightarrow>
      on_function (be_function_id env) quiet (walk_cases env cases disp jn)"
proof (induction env stmt current and env kids current and env cases disp jn
    rule: walk_statement_walk_kids_walk_cases.induct)
  case (1 env current)
  show ?case by (simp add: on_function_return)
next
  case (2 env n current)
  have marks: "on_function (be_function_id env) quiet (if c then modify_block env current (\<lambda>b. b\<lparr>bb_contains_discard := True\<rparr>)
      else State_Monad.return ())" for c
    by (intro on_function_cases(1) on_function_modify on_function_return) simp_all
  have quiet: "no_barrier (be_bytes env) n" if quiet using 2(7) that by simp
  have named: "list_all (no_barrier (be_bytes env)) (named_children n)" if quiet
    using no_barrier_named [OF quiet [OF that]] by (simp add: list_all_iff)
  show ?case
  proof (subst walk_statement.simps, intro on_function_cases(1), goal_cases)
    case 1
    show ?case by (rule on_function_bind, rule on_function_modify, simp, rule on_function_new_block)
  next
    case barrier: 2
    have "\<not> quiet" using quiet barrier(2) by (auto simp: no_barrier_def)
    then show ?case by - (rule on_function_bind, rule on_function_modify, simp, (rule on_function_steps | simp)+)
  next
    case kind: 3
    show ?case
    proof (rule on_function_bind [OF marks], intro on_function_cases(1), goal_cases)
      case (1 u)
      show ?case
      proof (rule on_function_cases(3))
        fix t e
        assume arms: "if_arms n = (t, e)"
        note walk_then = 2(1) [OF kind 1 arms [symmetric]]
        have walk_else: "on_function (be_function_id env) quiet
            (case e of None \<Rightarrow> State_Monad.return current
             | Some e \<Rightarrow> do { else_block \<leftarrow> new_block env (Some e); add_edge env current else_block; walk_statement env (Some e) else_block })"
        proof (rule on_function_cases(2))
          show "on_function (be_function_id env) quiet (State_Monad.return current)" by (rule on_function_return)
          fix e'
          assume e: "e = Some e'"
          note walk_some = 2(2) [OF kind 1 arms [symmetric] this]
          have "on_function (be_function_id env) quiet (walk_statement env (Some e') b)" for b
            by (rule walk_some) (use no_barrier_arms(1) [OF quiet arms] e in simp)
          then show "on_function (be_function_id env) quiet
              (do { else_block \<leftarrow> new_block env (Some e'); add_edge env current else_block; walk_statement env (Some e') else_block })"
            by (intro on_function_steps)
        qed
        have "on_function (be_function_id env) quiet (walk_statement env t b)" for b
          by (rule walk_then) (use no_barrier_arms(1) [OF quiet arms] in simp)
        with walk_else show "on_function (be_function_id env) quiet (do {
           then_block \<leftarrow> new_block env (Some n);
           add_edge env current then_block;
           then_end \<leftarrow> walk_statement env t then_block;
           else_end \<leftarrow> (case e of None \<Rightarrow> State_Monad.return current
             | Some e \<Rightarrow> do { else_block \<leftarrow> new_block env (Some e); add_edge env current else_block; walk_statement env (Some e) else_block });
           jn \<leftarrow> new_block env (Some n);
           add_edge env then_end jn;
           add_edge env else_end jn;
           State_Monad.return jn })"
          by (intro on_function_bind on_function_new_block on_function_add_edge on_function_return)
      qed
    next
      case loop: (2 u)
      have "on_function (be_function_id env) quiet (walk_statement env (loop_body n) b)" for b
        by (rule 2(3) [OF kind loop]) (use no_barrier_arms(2) [OF quiet] in simp)
      then show ?case by (intro on_function_bind on_function_new_block on_function_add_edge on_function_return)
    next
      case body: (3 u)
      have "on_function (be_function_id env) quiet (walk_statement env (do_body n) b)" for b
        by (rule 2(4) [OF kind body]) (use no_barrier_arms(3) [OF quiet] in simp)
      then show ?case by (intro on_function_bind on_function_new_block on_function_add_edge on_function_return)
    next
      case switch: (4 u)
      have "on_function (be_function_id env) quiet (walk_cases env (named_children n) current j)" for j
        by (rule 2(5) [OF kind switch]) (rule named)
      then show ?case
        by (intro on_function_bind on_function_new_block on_function_cases(1) on_function_add_edge on_function_return)
    next
      case block: (5 u)
      show ?case by (rule 2(6) [OF kind block]) (rule named)
    next
      case other: (6 u)
      show ?case by (rule on_function_return)
    qed
  qed
next
  case (3 env cur)
  show ?case by (simp add: on_function_return)
next
  case (4 env child kids cur)
  show ?case
    by (subst walk_kids.simps, rule on_function_bind, rule 4(1), use 4(3) in simp, rule 4(2), use 4(3) in simp)
next
  case (5 env disp jn)
  show ?case by (simp add: on_function_return)
next
  case (6 env child kids disp jn)
  show ?case
  proof (cases "ts_kind child = ''case_statement'' \<or> ts_kind child = ''default_statement''")
    case True
    have "on_function (be_function_id env) quiet (walk_statement env (Some child) b)" for b
      by (rule 6(1) [OF True]) (use 6(4) in simp)
    moreover have "on_function (be_function_id env) quiet (walk_cases env kids disp jn)"
      by (rule 6(2) [OF True]) (use 6(4) in simp)
    ultimately have "on_function (be_function_id env) quiet (do {
        case_block \<leftarrow> new_block env (Some child);
        add_edge env disp case_block;
        case_end \<leftarrow> walk_statement env (Some child) case_block;
        add_edge env case_end jn;
        walk_cases env kids disp jn })"
      by (intro on_function_bind on_function_new_block on_function_add_edge)
    then show ?thesis using True by simp
  next
    case False
    then show ?thesis using 6(3) [OF False] 6(4) by simp
  qed
qed

section \<open>No edge leads to a barrier\<close>

definition barrier_unreached :: "cfg_function \<Rightarrow> bool" where
  "barrier_unreached fn \<longleftrightarrow>
     (\<forall>b \<in> set (cf_blocks fn). \<forall>s \<in> set (bb_successors b). s < length (cf_blocks fn) \<longrightarrow> \<not> bb_contains_barrier (cf_blocks fn ! s))"

lemma calm_unreached: "calm fid st \<Longrightarrow> barrier_unreached (the_fn fid st)"
  by (auto simp: calm_def barrier_unreached_def)

definition no_nested :: "ts_node \<Rightarrow> bool" where
  "no_nested fn_node \<longleftrightarrow> (\<forall>c \<in> set (child_nodes fn_node). \<forall>m \<in> set (preorder c). ts_kind m \<noteq> ''function_definition'')"

lemma function_body_child: "function_body n = Some b \<Longrightarrow> b \<in> set (child_nodes n)"
  by (auto simp: function_body_def find_Some_iff split: option.splits dest: field_child)

lemma build_next_unreached:
  assumes "no_nested fn_node"
  shows "length (cs_functions (fst (build_next has_error source bytes fn_node (st, ds)))) = Suc (length (cs_functions st))"
    and "g < length (cs_functions st) \<Longrightarrow> the_fn g (fst (build_next has_error source bytes fn_node (st, ds))) = the_fn g st"
    and "barrier_unreached (the_fn (length (cs_functions st)) (fst (build_next has_error source bytes fn_node (st, ds))))"
proof -
  let ?fid = "length (cs_functions st)"
  define st0 where "st0 = st\<lparr>cs_functions := cs_functions st @ [fresh_function]\<rparr>"
  define st1 where "st1 = update_fn ?fid (\<lambda>fn. fn\<lparr>cf_declaration_span := node_span (Some fn_node) source,
    cf_name := name_loop bytes (child_nodes fn_node) (cf_name (the_fn ?fid st0))\<rparr>) st0"
  have fid: "?fid < length (cs_functions st1)" by (simp add: st1_def st0_def)
  have st1: "length (cs_functions st1) = Suc ?fid" "\<And>g. g < ?fid \<Longrightarrow> the_fn g st1 = the_fn g st" "cf_blocks (the_fn ?fid st1) = []"
    by (simp_all add: st1_def st0_def nth_append fresh_function_def)
  let ?st' = "fst (build_next has_error source bytes fn_node (st, ds))"
  have goal: "length (cs_functions ?st') = Suc ?fid \<and> (\<forall>g < ?fid. the_fn g ?st' = the_fn g st) \<and>
      barrier_unreached (the_fn ?fid ?st')"
  proof (cases "has_error fn_node")
    case True
    have st': "?st' = update_fn ?fid (\<lambda>fn. fn\<lparr>cf_idom := [0]\<rparr>)
        (add_block ?fid ((fresh_block (node_span (Some fn_node) source))\<lparr>bb_tainted_by_error := True\<rparr>)
          (update_fn ?fid (\<lambda>fn. fn\<lparr>cf_error_skipped := True\<rparr>) st1))"
      using True by (simp only: build_next_def prod.case st0_def [symmetric] build_function_def Let_def st1_def [symmetric]
          if_True fst_conv)
    show ?thesis
      unfolding st' using fid st1 by (simp add: add_block_simps barrier_unreached_def fresh_block_def)
  next
    case False
    define env where "env = \<lparr>be_function_id = ?fid, be_source = source, be_bytes = bytes\<rparr>"
    have env: "be_function_id env = ?fid" "be_bytes env = bytes" by (simp_all add: env_def)
    let ?m = "do {
        entry_local \<leftarrow> new_block env (Some fn_node);
        end_local \<leftarrow> (case function_body fn_node of None \<Rightarrow> State_Monad.return entry_local
          | Some body \<Rightarrow> walk_statement env (Some body) entry_local);
        modify_block env end_local (\<lambda>b. b\<lparr>bb_is_exit := True\<rparr>) }"
    have m: "?st' = snd (run_state ?m st1)"
      using False by (cases "function_body fn_node")
        (simp_all only: build_next_def prod.case st0_def [symmetric] build_function_def Let_def st1_def [symmetric]
          env_def [symmetric] if_False prod.case fst_conv split_beta run_state_bind run_state_return option.case snd_conv)
    define flat where "flat \<longleftrightarrow> (case function_body fn_node of None \<Rightarrow> False
      | Some body \<Rightarrow> ts_kind body \<noteq> ''return_statement'' \<and> detect_barrier bytes body)"
    have "on_function ?fid (\<not> flat) (walk_statement env (Some body) b)" if body: "function_body fn_node = Some body" for body b
    proof (cases "ts_kind body = ''return_statement''")
      case True
      have "on_function (be_function_id env) (\<not> flat) (do {
          modify_block env b (\<lambda>b. b\<lparr>bb_is_exit := True\<rparr>); new_block env (Some body) })"
        by (rule on_function_bind, rule on_function_modify, simp, rule on_function_new_block)
      then show ?thesis using True env by simp
    next
      case False
      have "no_barrier bytes body" if "\<not> flat"
        using that False body assms function_body_child [OF body] by (auto simp: flat_def no_barrier_def no_nested_def)
      then have "on_function (be_function_id env) (\<not> flat) (walk_statement env (Some body) b)"
        by (intro walk_on_function(1)) (simp add: env)
      then show ?thesis by (simp only: env)
    qed
    then have "on_function (be_function_id env) (\<not> flat) ?m"
      unfolding env(1) [symmetric]
      by (intro on_function_bind on_function_new_block on_function_cases(2) on_function_modify on_function_return) simp_all
    then have keeps: "length (cs_functions ?st') = length (cs_functions st1)" "\<forall>g. g \<noteq> ?fid \<longrightarrow> the_fn g ?st' = the_fn g st1"
      "\<not> flat \<longrightarrow> calm ?fid st1 \<longrightarrow> calm ?fid ?st'"
      using fid by (simp_all only: on_function_def Let_def m env) blast+
    moreover have "barrier_unreached (the_fn ?fid ?st')"
    proof (cases flat)
      case True
      then obtain body where body: "function_body fn_node = Some body" "ts_kind body \<noteq> ''return_statement''" "detect_barrier bytes body"
        by (auto simp: flat_def split: option.splits)
      have "map (\<lambda>b. (bb_successors b, bb_contains_barrier b, bb_is_exit b)) (cf_blocks (last (cs_functions ?st'))) =
          [([1], True, False), ([], False, True)]"
        using barrier_flattens_function [of has_error, OF False body] by blast
      moreover have "last (cs_functions ?st') = the_fn ?fid ?st'"
        using keeps(1) st1(1) by (metis diff_Suc_1 last_conv_nth length_0_conv nat.distinct(1))
      ultimately have "map (\<lambda>b. (bb_successors b, bb_contains_barrier b, bb_is_exit b)) (cf_blocks (the_fn ?fid ?st')) =
          [([1], True, False), ([], False, True)]" by simp
      then obtain b0 b1 where "cf_blocks (the_fn ?fid ?st') = [b0, b1]" "bb_successors b0 = [1]" "bb_successors b1 = []"
        "\<not> bb_contains_barrier b1" by (auto simp: map_eq_Cons_conv)
      then show ?thesis by (simp add: barrier_unreached_def)
    next
      case False
      then have "calm ?fid ?st'" using keeps(3) st1(3) by (simp add: calm_def)
      then show ?thesis by (rule calm_unreached)
    qed
    ultimately show ?thesis using st1 by simp
  qed
  then show "length (cs_functions ?st') = Suc ?fid" "g < ?fid \<Longrightarrow> the_fn g ?st' = the_fn g st" "barrier_unreached (the_fn ?fid ?st')"
    by blast+
qed

lemma build_cfg_unreached:
  assumes "list_all no_nested (collect_functions n)" and "f < length (cs_functions (fst (build_cfg has_error (Some n) source bytes)))"
  shows "barrier_unreached (the_fn f (fst (build_cfg has_error (Some n) source bytes)))"
proof -
  have step: "\<forall>f < length (cs_functions (fst (fold (build_next has_error source bytes) fns sd))).
      barrier_unreached (the_fn f (fst (fold (build_next has_error source bytes) fns sd)))"
    if "list_all no_nested fns" "\<forall>f < length (cs_functions (fst sd)). barrier_unreached (the_fn f (fst sd))" for fns sd
    using that
  proof (induction fns arbitrary: sd)
    case (Cons fn_node fns)
    obtain st ds where sd: "sd = (st, ds)" by fastforce
    have "\<forall>f < length (cs_functions (fst (build_next has_error source bytes fn_node sd))).
        barrier_unreached (the_fn f (fst (build_next has_error source bytes fn_node sd)))"
      using build_next_unreached [of fn_node, where has_error = has_error and source = source and bytes = bytes and st = st and ds = ds]
        Cons.prems by (auto simp: sd less_Suc_eq)
    then show ?case using Cons by simp
  qed simp
  let ?st = "\<lparr>cs_source = source, cs_functions = [fresh_function], cs_block_to_function = [], cs_block_to_local = [],
    cs_span_to_block = []\<rparr>"
  have "\<forall>f < length (cs_functions (fst (?st, []))). barrier_unreached (the_fn f (fst (?st, [])))"
    by (simp add: barrier_unreached_def fresh_function_def)
  from step [OF assms(1) this] assms(2) show ?thesis by (simp add: build_cfg_def Let_def)
qed

lemma cfg_path_entered: "cfg_path fn u p v \<Longrightarrow> b \<in> set p \<Longrightarrow> \<exists>w. cfg_edge fn w b"
  by (induction rule: cfg_path.induct) auto

lemma unreached_separates: "barrier_unreached fn \<Longrightarrow> \<not> barrier_separates fn u v"
proof
  assume fn: "barrier_unreached fn" and "barrier_separates fn u v"
  then obtain p b where "cfg_path fn u p v" "b \<in> set p" "bb_contains_barrier (cf_blocks fn ! b)"
    unfolding barrier_separates_paths by blast
  with cfg_path_entered obtain w where "cfg_edge fn w b" by blast
  then show False
    using fn \<open>bb_contains_barrier (cf_blocks fn ! b)\<close> by (auto simp: barrier_unreached_def cfg_edge_def)
qed

lemma built_unseparated:
  assumes "build_entry has_error source tree bytes = Some entry" and "list_all no_nested (collect_functions tree)"
  shows "\<not> barrier_separates_spans (view_of (ce_info entry)) a b"
proof -
  let ?st = "fst (build_cfg has_error (Some tree) source bytes)"
  have ok: "storage_ok ?st" by (rule build_cfg_ok)
  obtain st' where st': "compute_all_dominators ?st = Some st'"
    "length (cs_functions st') = length (cs_functions ?st)" "cs_functions st' ! 0 = cs_functions ?st ! 0"
    "cs_block_to_function st' = cs_block_to_function ?st" "cs_block_to_local st' = cs_block_to_local ?st"
    "\<And>f. 0 < f \<Longrightarrow> f < length (cs_functions ?st) \<Longrightarrow> compute_dominators (cs_functions ?st ! f) = Some (cs_functions st' ! f)"
    using compute_all_dominators_total [OF storage_okD(4) [OF ok]] by metis
  have impl: "ci_impl (cfi_cfg (ce_info entry)) = st'"
    using assms(1) st'(1) by (auto simp: build_entry_def Let_def split: prod.splits)
  have unreached: "barrier_unreached (cs_functions st' ! f)" if "0 < f" "f < length (cs_functions ?st)" for f
  proof -
    have "cf_blocks (cs_functions st' ! f) = cf_blocks (cs_functions ?st ! f)"
      using st'(6) [OF that] compute_dominators_total [of "cs_functions ?st ! f"] by auto
    then show ?thesis using build_cfg_unreached [OF assms(2) that(2)] by (simp add: barrier_unreached_def)
  qed
  have "\<not> barrier_between (Some st') x y" for x y
  proof
    assume "barrier_between (Some st') x y"
    moreover have "resolve_block st' r = resolve_block ?st r" for r by (simp add: resolve_block_def st'(4,5))
    ultimately obtain f u v where q: "resolve_block ?st x = (f, u)" "0 < f" "barrier_separates (cs_functions st' ! f) u v"
      by (auto simp: barrier_between_def query_blocks_def Let_def split: prod.splits if_splits)
    then have "x \<noteq> 0" "x \<le> length (cs_block_to_function ?st)" by (auto simp: resolve_block_def split: if_splits)
    from resolve_in_range [OF ok this] q(1) have "f < length (cs_functions ?st)" by auto
    then show False using unreached [OF q(2)] q(3) unreached_separates by blast
  qed
  then show ?thesis by (auto simp: barrier_separates_spans_def view_of_def impl split: option.splits)
qed

section \<open>Properties\<close>

text \<open>The graph never answers that a barrier separates two places: for every source without nested functions, and
  with the graph and the dominators the engine computes, the query of the rules is false for every pair of spans. A body
  with a barrier call becomes one block, marked as the barrier, that no edge leads to. This is not what the query is for: its
  contract has it true when a barrier stands between.\<close>

theorem barrier_never_separates:
  assumes "build_entry has_error source tree bytes = Some entry" and "list_all no_nested (collect_functions tree)"
  shows "\<not> barrier_separates_spans (view_of (ce_info entry)) a b"
  using assms by (rule built_unseparated)

text \<open>A kernel that writes a shared cell, waits at a barrier, and reads another cell.\<close>

definition synced_text :: string where
  "synced_text = ''groupshared float g[64];void f(){g[i]=1;AllMemoryBarrier();x=g[j];}''"

definition ex_cell :: "u32 \<Rightarrow> ts_node" where
  "ex_cell lo = Ts_Node ''subscript_expression'' True lo (lo + 4)
     [(Some ''argument'', ex_node ''identifier'' lo (lo + 1) []), (None, ex_token ''['' (lo + 1) (lo + 2)),
      (Some ''index'', ex_node ''identifier'' (lo + 2) (lo + 3) []), (None, ex_token '']'' (lo + 3) (lo + 4))]"

definition ex_store :: "u32 \<Rightarrow> u32 \<Rightarrow> ts_node \<Rightarrow> ts_node \<Rightarrow> ts_node" where
  "ex_store lo hi target val =
     ex_node ''expression_statement'' lo (hi + 1)
       [Ts_Node ''assignment_expression'' True lo hi [(Some ''left'', target), (Some ''right'', val)]]"

definition shared_decl :: ts_node where
  "shared_decl = Ts_Node ''declaration'' True 0 24
     [(None, ex_token ''groupshared'' 0 11), (Some ''type'', ex_node ''primitive_type'' 12 17 []),
      (Some ''declarator'', Ts_Node ''array_declarator'' True 18 23
         [(Some ''declarator'', ex_node ''identifier'' 18 19 []), (Some ''size'', ex_node ''number_literal'' 20 22 [])])]"

definition synced_tree :: ts_node where
  "synced_tree = ex_node ''translation_unit'' 0 67
     [shared_decl,
      Ts_Node ''function_definition'' True 24 67
        [(Some ''type'', ex_node ''primitive_type'' 24 28 []),
         (Some ''declarator'', Ts_Node ''function_declarator'' True 29 32 [(Some ''declarator'', ex_node ''identifier'' 29 30 [])]),
         (Some ''body'', ex_node ''compound_statement'' 32 67
            [ex_store 33 39 (ex_cell 33) (ex_node ''number_literal'' 38 39 []),
             ex_node ''expression_statement'' 40 59 [ex_call 40 56 58 []],
             ex_store 59 65 (ex_node ''identifier'' 59 60 []) (ex_cell 61)])]]"

lemma synced_flat: "list_all no_nested (collect_functions synced_tree)"
  by code_simp

theorem barrier_never_separates_witness:
  "\<exists>entry. build_entry (\<lambda>_. False) \<lparr>sid_value = 1\<rparr> synced_tree synced_text = Some entry \<and>
     list_all (detect_barrier synced_text) (collect_functions synced_tree) \<and>
     \<not> barrier_separates_spans (view_of (ce_info entry))
         \<lparr>sp_source = \<lparr>sid_value = 1\<rparr>, sp_bytes = \<lparr>bs_lo = 33, bs_hi = 37\<rparr>\<rparr>
         \<lparr>sp_source = \<lparr>sid_value = 1\<rparr>, sp_bytes = \<lparr>bs_lo = 61, bs_hi = 65\<rparr>\<rparr>"
proof -
  obtain entry where entry: "build_entry (\<lambda>_. False) \<lparr>sid_value = 1\<rparr> synced_tree synced_text = Some entry"
    using build_entry_total by metis
  have "list_all (detect_barrier synced_text) (collect_functions synced_tree) \<and> collect_functions synced_tree \<noteq> []" by code_simp
  with entry barrier_never_separates [OF entry synced_flat] show ?thesis by auto
qed

end
