(* ===== verification/Repeated.thy ===== *)
theory Repeated
  imports RuleKit
begin

text \<open>
  \<^verbatim>\<open>core/src/rules/repeated_pure_intrinsic.cpp\<close>: calls of an expensive pure intrinsic with the same arguments, twice
  in one function, with no write in between that could change them. A walk over the body collects the writes and the
  calls; the calls are grouped by their text, and neighbours of a group are compared. The main lemma replaces the
  collecting, hashing and sorting by a statement about the nodes of the body.
\<close>

section \<open>Events\<close>

definition k_pure_intrinsics :: "string list" where
  "k_pure_intrinsics =
    [''sqrt'', ''rsqrt'', ''length'', ''normalize'', ''pow'', ''exp'', ''exp2'', ''log'', ''log2'', ''log10'', ''sin'', ''cos'',
     ''tan'', ''asin'', ''acos'', ''atan'', ''atan2'', ''sinh'', ''cosh'']"

definition is_pure_intrinsic :: "string \<Rightarrow> bool" where
  "is_pure_intrinsic name \<longleftrightarrow> name \<in> set k_pure_intrinsics \<or> name = ''tanh''"

definition canonicalise_args :: "string \<Rightarrow> string" where
  "canonicalise_args text = filter (\<lambda>c. c \<noteq> CHR '' '' \<and> c \<noteq> tab_char \<and> c \<noteq> newline \<and> c \<noteq> carriage_return) text"

fun collect_identifiers :: "string \<Rightarrow> ts_node \<Rightarrow> string set" where
  "collect_identifiers bytes (Ts_Node k nm lo hi cs) =
     (if k = ''identifier''
      then let t = node_text (Some (Ts_Node k nm lo hi cs)) bytes in if t = [] then {} else {t}
      else \<Union> (set (map (\<lambda>c. collect_identifiers bytes (snd c)) cs)))"

text \<open>The root of an assigned expression; the empty string when it has none.\<close>

function root_assignee :: "string \<Rightarrow> ts_node option \<Rightarrow> string" where
  "root_assignee bytes node =
     (case node of
        None \<Rightarrow> []
      | Some n \<Rightarrow>
          (if ts_kind n = ''identifier'' then node_text (Some n) bytes
           else if ts_kind n = ''field_expression'' \<or> ts_kind n = ''subscript_expression'' \<or>
                   ts_kind n = ''parenthesized_expression''
             then (case named_children n of [] \<Rightarrow> [] | c # _ \<Rightarrow> root_assignee bytes (Some c))
           else []))"
  by pat_completeness auto
termination
proof (relation "measure (\<lambda>(bytes, node). opt_size node)")
qed (auto simp: opt_size_def intro: named_child_smaller)

record mutation_event =
  me_pos :: u32
  me_span :: byte_span
  me_node :: node_path
  me_target :: string
  me_wildcard_targets :: "string set"

record call_event =
  ce_pos :: u32
  ce_span :: byte_span
  ce_intrinsic_name :: string
  ce_canonical_args :: string
  ce_referenced_ids :: "string set"
  ce_call_node :: node_path

record function_analysis =
  fa_mutations :: "mutation_event list"
  fa_calls :: "call_event list"

definition mutation_at :: "node_path \<Rightarrow> ts_node \<Rightarrow> string \<Rightarrow> string set \<Rightarrow> mutation_event" where
  "mutation_at p n target wildcard =
     \<lparr>me_pos = ts_start n, me_span = range_of n, me_node = p, me_target = target, me_wildcard_targets = wildcard\<rparr>"

definition written_node :: "ts_node \<Rightarrow> ts_node option" where
  "written_node n =
     (case child_by_field n ''left'' of
        Some lhs \<Rightarrow> Some lhs
      | None \<Rightarrow> (case named_children n of [] \<Rightarrow> None | c # _ \<Rightarrow> Some c))"

text \<open>The events of one node.\<close>

definition write_events :: "string \<Rightarrow> node_path \<Rightarrow> ts_node \<Rightarrow> mutation_event list" where
  "write_events bytes p n =
     (if ts_kind n = ''assignment_expression'' \<or> ts_kind n = ''augmented_assignment_expression''
      then [mutation_at p n (root_assignee bytes (written_node n)) {}]
      else if ts_kind n = ''update_expression''
        then (case named_children n of [] \<Rightarrow> [] | c # _ \<Rightarrow> [mutation_at p n (root_assignee bytes (Some c)) {}])
      else [])"

definition call_events :: "string \<Rightarrow> node_path \<Rightarrow> ts_node \<Rightarrow> mutation_event list \<times> call_event list" where
  "call_events bytes p n =
     (if ts_kind n = ''call_expression''
      then (case (child_by_field n ''function'', child_by_field n ''arguments'') of
              (Some fn, Some args) \<Rightarrow>
                let fn_text = node_text (Some fn) bytes; ids = collect_identifiers bytes args in
                if is_pure_intrinsic fn_text
                then ([], [\<lparr>ce_pos = ts_start n, ce_span = range_of n, ce_intrinsic_name = fn_text,
                            ce_canonical_args = canonicalise_args (node_text (Some args) bytes),
                            ce_referenced_ids = ids, ce_call_node = p\<rparr>])
                else if ids = {} then ([], []) else ([mutation_at p n [] ids], [])
            | _ \<Rightarrow> ([], []))
      else ([], []))"

definition record_events :: "string \<Rightarrow> node_path \<Rightarrow> ts_node \<Rightarrow> function_analysis \<Rightarrow> function_analysis" where
  "record_events bytes p n out =
     (let (ms, cs) = call_events bytes p n in
      out\<lparr>fa_mutations := fa_mutations out @ write_events bytes p n @ ms, fa_calls := fa_calls out @ cs\<rparr>)"

function collect_events :: "string \<Rightarrow> node_path \<Rightarrow> ts_node \<Rightarrow> function_analysis \<Rightarrow> function_analysis" where
  "collect_events bytes p n out =
     (if ts_kind n = ''function_definition'' then out
      else fold (\<lambda>(q, c). collect_events bytes q c) (located_children p n) (record_events bytes p n out))"
  by pat_completeness auto
termination
  by (relation "measure (\<lambda>(bytes, p, n, out). node_size n)") (auto intro: located_child_smaller)

declare collect_events.simps [simp del]

section \<open>Branches\<close>

definition mutation_targets_any :: "mutation_event \<Rightarrow> string set \<Rightarrow> bool" where
  "mutation_targets_any m ids \<longleftrightarrow>
     (me_target m \<noteq> [] \<and> me_target m \<in> ids) \<or> me_wildcard_targets m \<inter> ids \<noteq> {}"

text \<open>Climbing from a node towards the root ends at the root or below a function.\<close>

function collect_compound_ancestors :: "ts_node \<Rightarrow> node_path \<Rightarrow> node_path list" where
  "collect_compound_ancestors tr p =
     (if p = [] then []
      else let q = parent_path p in
           if kind_at tr q = ''function_definition'' then []
           else if kind_at tr q = ''compound_statement'' then q # collect_compound_ancestors tr q
           else collect_compound_ancestors tr q)"
  by pat_completeness auto
termination
  by (relation "measure (\<lambda>(tr, p). length p)") auto

declare collect_compound_ancestors.simps [simp del]

definition enclosing_if :: "ts_node \<Rightarrow> node_path \<Rightarrow> node_path option" where
  "enclosing_if tr compound =
     (if compound = [] then None
      else let q = parent_path compound in
           if kind_at tr q = ''if_statement'' then Some q
           else if kind_at tr q = ''else_clause'' \<and> q \<noteq> [] \<and> kind_at tr (parent_path q) = ''if_statement''
             then Some (parent_path q)
           else None)"

definition calls_are_in_disjoint_branches :: "ts_node \<Rightarrow> node_path \<Rightarrow> node_path \<Rightarrow> bool" where
  "calls_are_in_disjoint_branches tr a b =
     list_ex (\<lambda>ab.
         case enclosing_if tr ab of
           None \<Rightarrow> False
         | Some a_if \<Rightarrow> list_ex (\<lambda>bb. ab \<noteq> bb \<and> enclosing_if tr bb = Some a_if) (collect_compound_ancestors tr b))
       (collect_compound_ancestors tr a)"

definition block_unconditionally_exits :: "ts_node option \<Rightarrow> bool" where
  "block_unconditionally_exits block =
     (case block of
        None \<Rightarrow> False
      | Some n \<Rightarrow>
          (if ts_kind n \<noteq> ''compound_statement'' \<or> named_children n = [] then False
           else ts_kind (last (named_children n)) \<in>
             {''return_statement'', ''discard_statement'', ''break_statement'', ''continue_statement''}))"

function mutation_in_exiting_branch_before :: "ts_node \<Rightarrow> node_path \<Rightarrow> u32 \<Rightarrow> bool" where
  "mutation_in_exiting_branch_before tr p b_pos =
     (if p = [] then False
      else let q = parent_path p in
           if kind_at tr q = ''function_definition'' then False
           else if kind_at tr q = ''compound_statement'' \<and> bs_hi (byte_range (node_at tr q)) \<le> b_pos \<and>
                   block_unconditionally_exits (node_at tr q)
             then True
           else mutation_in_exiting_branch_before tr q b_pos)"
  by pat_completeness auto
termination
  by (relation "measure (\<lambda>(tr, p, b_pos). length p)") auto

declare mutation_in_exiting_branch_before.simps [simp del]

definition mutation_intervenes :: "ts_node \<Rightarrow> mutation_event \<Rightarrow> call_event \<Rightarrow> call_event \<Rightarrow> bool" where
  "mutation_intervenes tr m a b =
     (if \<not> mutation_targets_any m (ce_referenced_ids b) then False
      else if me_pos m \<le> ce_pos a \<or> me_pos m \<ge> ce_pos b then False
      else \<not> mutation_in_exiting_branch_before tr (me_node m) (ce_pos b))"

section \<open>Reports\<close>

text \<open>Calls with the same name and arguments are grouped under a key; \<open>buckets\<close> is the order in which the hash map
  holds the keys.\<close>

definition group_key :: "call_event \<Rightarrow> string" where
  "group_key c = ce_intrinsic_name c @ [CHR 0x1F] @ ce_canonical_args c"

definition call_group :: "call_event list \<Rightarrow> string \<Rightarrow> call_event list" where
  "call_group calls key = sort_by (\<lambda>a b. ce_pos a < ce_pos b) (filter (\<lambda>c. group_key c = key) calls)"

definition repeated_report :: "source_id \<Rightarrow> call_event \<Rightarrow> diagnostic" where
  "repeated_report source b =
     rule_diagnostic ''repeated-pure-intrinsic'' source (ce_span b)
       (''`'' @ ce_intrinsic_name b @ ''('' @ ce_canonical_args b @
        '')` is computed more than once in the same function with no intervening mutation of its argument '' @ em_dash @
        '' hoist into a local to make intent explicit (DXC / Slang already CSE this at -O1, '' @
        ''but the duplication signals confused intent)'')
       [suggestion
         (''hoist `'' @ ce_intrinsic_name b @ ''('' @ ce_canonical_args b @
          '')` into a local at the first call site and reuse it. '' @
          ''Verify no precision-sensitive ordering relies on the duplicate computation before applying'')]"

definition is_repeated :: "ts_node \<Rightarrow> mutation_event list \<Rightarrow> call_event \<Rightarrow> call_event \<Rightarrow> bool" where
  "is_repeated tr mutations a b =
     (if calls_are_in_disjoint_branches tr (ce_call_node a) (ce_call_node b) then False
      else \<not> list_ex (\<lambda>m. mutation_intervenes tr m a b) mutations)"

fun report_pairs :: "ts_node \<Rightarrow> mutation_event list \<Rightarrow> source_id \<Rightarrow> call_event list \<Rightarrow> diagnostic list" where
  "report_pairs tr mutations source (a # b # calls) =
     (if is_repeated tr mutations a b then [repeated_report source b] else []) @
     report_pairs tr mutations source (b # calls)"
| "report_pairs tr mutations source calls = []"

definition analyse_function_body ::
    "(string list \<Rightarrow> string list) \<Rightarrow> ast_tree \<Rightarrow> node_path \<Rightarrow> ts_node option \<Rightarrow> diagnostic list" where
  "analyse_function_body buckets t p body =
     (case body of
        None \<Rightarrow> []
      | Some n \<Rightarrow>
          let fa = collect_events (at_bytes t) p n \<lparr>fa_mutations = [], fa_calls = []\<rparr> in
          if length (fa_calls fa) < 2 then []
          else concat (map (\<lambda>key. report_pairs (at_root t) (fa_mutations fa) (at_source t) (call_group (fa_calls fa) key))
                 (buckets (remdups (map group_key (fa_calls fa))))))"

text \<open>The body of a function: the field of that name, else the last named child.\<close>

definition body_child :: "node_path \<Rightarrow> ts_node \<Rightarrow> (node_path \<times> ts_node) option" where
  "body_child p n =
     (case find (\<lambda>(i, f, c). f = Some ''body'') (enumerate 0 (ts_children n)) of
        Some (i, f, c) \<Rightarrow> Some (p @ [i], c)
      | None \<Rightarrow> let named = filter (\<lambda>(q, c). ts_named c) (located_children p n) in
                if named = [] then None else Some (last named))"

function walk_top_level :: "(string list \<Rightarrow> string list) \<Rightarrow> ast_tree \<Rightarrow> node_path \<Rightarrow> ts_node \<Rightarrow> diagnostic list" where
  "walk_top_level buckets t p n =
     (if ts_kind n = ''function_definition''
      then (case body_child p n of
              None \<Rightarrow> analyse_function_body buckets t p None
            | Some (q, b) \<Rightarrow> analyse_function_body buckets t q (Some b))
      else concat (map (\<lambda>(q, c). walk_top_level buckets t q c) (located_children p n)))"
  by pat_completeness auto
termination
  by (relation "measure (\<lambda>(buckets, t, p, n). node_size n)") (auto intro: located_child_smaller)

declare walk_top_level.simps [simp del]

text \<open>The rule; the control-flow information it is given is not used.\<close>

definition repeated_pure_intrinsic :: "(string list \<Rightarrow> string list) \<Rightarrow> (unit, 'r, 'c, 'i) rule" where
  "repeated_pure_intrinsic buckets =
     (default_rule ''repeated-pure-intrinsic'' ())
       \<lparr>rl_stage := Stage_Control_Flow, rl_on_cfg := (\<lambda>view t cfg s. (s, walk_top_level buckets t [] (at_root t)))\<rparr>"

section \<open>What is collected\<close>

text \<open>The nodes of a body in document order, without those of nested functions.\<close>

function body_nodes :: "node_path \<Rightarrow> ts_node \<Rightarrow> (node_path \<times> ts_node) list" where
  "body_nodes p n =
     (if ts_kind n = ''function_definition'' then []
      else (p, n) # concat (map (\<lambda>(q, c). body_nodes q c) (located_children p n)))"
  by pat_completeness auto
termination
  by (relation "measure (\<lambda>(p, n). node_size n)") (auto intro: located_child_smaller)

declare body_nodes.simps [simp del]

lemma collect_events_fold: "collect_events bytes p n out = fold (\<lambda>(q, m). record_events bytes q m) (body_nodes p n) out"
proof (induction bytes p n out rule: collect_events.induct)
  case (1 bytes p n out)
  show ?case
  proof (cases "ts_kind n = ''function_definition''")
    case False
    have "fold (\<lambda>(q, c). collect_events bytes q c) cs out' =
        fold (\<lambda>(q, m). record_events bytes q m) (concat (map (\<lambda>(q, c). body_nodes q c) cs)) out'"
      if "set cs \<subseteq> set (located_children p n)" for cs out'
      using that
    proof (induction cs arbitrary: out')
      case (Cons c cs)
      then show ?case using "1.IH" [OF False] by (auto split: prod.splits)
    qed simp
    from this [OF subset_refl] show ?thesis using False by (subst collect_events.simps, subst body_nodes.simps) simp
  qed (subst collect_events.simps, subst body_nodes.simps, simp)
qed

definition body_mutations :: "string \<Rightarrow> node_path \<Rightarrow> ts_node \<Rightarrow> mutation_event list" where
  "body_mutations bytes p n = concat (map (\<lambda>(q, m). write_events bytes q m @ fst (call_events bytes q m)) (body_nodes p n))"

definition body_calls :: "string \<Rightarrow> node_path \<Rightarrow> ts_node \<Rightarrow> call_event list" where
  "body_calls bytes p n = concat (map (\<lambda>(q, m). snd (call_events bytes q m)) (body_nodes p n))"

lemma collected_events:
  "collect_events bytes p n \<lparr>fa_mutations = [], fa_calls = []\<rparr> =
     \<lparr>fa_mutations = body_mutations bytes p n, fa_calls = body_calls bytes p n\<rparr>"
proof -
  have "fold (\<lambda>(q, m). record_events bytes q m) ns out =
      \<lparr>fa_mutations = fa_mutations out @ concat (map (\<lambda>(q, m). write_events bytes q m @ fst (call_events bytes q m)) ns),
       fa_calls = fa_calls out @ concat (map (\<lambda>(q, m). snd (call_events bytes q m)) ns)\<rparr>" for ns out
    by (induction ns arbitrary: out) (auto simp: record_events_def split: prod.splits)
  then show ?thesis by (simp add: collect_events_fold body_mutations_def body_calls_def)
qed

section \<open>Groups\<close>

lemma call_event_pure: "c \<in> set (snd (call_events bytes q m)) \<Longrightarrow> is_pure_intrinsic (ce_intrinsic_name c)"
  unfolding call_events_def Let_def
  by (cases "child_by_field m ''function''"; cases "child_by_field m ''arguments''") (auto split: if_splits)

lemma body_call_pure: "c \<in> set (body_calls bytes p n) \<Longrightarrow> is_pure_intrinsic (ce_intrinsic_name c)"
  by (auto simp: body_calls_def call_event_pure)

lemma pure_name_plain: "is_pure_intrinsic name \<Longrightarrow> CHR 0x1F \<notin> set name"
  by (auto simp: is_pure_intrinsic_def k_pure_intrinsics_def)

lemma group_key_iff:
  assumes "is_pure_intrinsic (ce_intrinsic_name c)" and "is_pure_intrinsic (ce_intrinsic_name d)"
  shows "group_key c = group_key d \<longleftrightarrow>
     ce_intrinsic_name c = ce_intrinsic_name d \<and> ce_canonical_args c = ce_canonical_args d"
proof
  have cut: "takeWhile (\<lambda>x. x \<noteq> CHR 0x1F) (group_key e) = ce_intrinsic_name e"
    if "is_pure_intrinsic (ce_intrinsic_name e)" for e
    using pure_name_plain [OF that] by (auto simp: group_key_def takeWhile_append)
  assume "group_key c = group_key d"
  then show "ce_intrinsic_name c = ce_intrinsic_name d \<and> ce_canonical_args c = ce_canonical_args d"
    using cut [OF assms(1)] cut [OF assms(2)] by (simp add: group_key_def)
qed (simp add: group_key_def)

interpretation by_position: strict_weak_order "\<lambda>a b. ce_pos a < ce_pos b"
  by unfold_locales auto

text \<open>Neighbours in a list that is sorted strictly are the pairs with nothing in between.\<close>

lemma neighbours_sorted:
  assumes "sorted_wrt (\<lambda>a b. f a < (f b :: 'a :: linorder)) xs"
  shows "set (zip xs (tl xs)) = {(a, b). a \<in> set xs \<and> b \<in> set xs \<and> f a < f b \<and> (\<forall>c \<in> set xs. f c \<le> f a \<or> f b \<le> f c)}"
  using assms
proof (induction xs)
  case (Cons x xs)
  show ?case
  proof (cases xs)
    case (Cons y ys)
    have below: "\<forall>z \<in> set xs. f x < f z" "\<forall>z \<in> set ys. f y < f z" "sorted_wrt (\<lambda>a b. f a < f b) xs"
      using Cons.prems Cons by auto
    have IH: "set (zip xs (tl xs)) = {(a, b). a \<in> set xs \<and> b \<in> set xs \<and> f a < f b \<and> (\<forall>c \<in> set xs. f c \<le> f a \<or> f b \<le> f c)}"
      using Cons.IH below(3) by simp
    have "set (zip (x # xs) (tl (x # xs))) = insert (x, y) (set (zip xs (tl xs)))" using Cons by simp
    also have "\<dots> = {(a, b). a \<in> set (x # xs) \<and> b \<in> set (x # xs) \<and> f a < f b \<and>
        (\<forall>c \<in> set (x # xs). f c \<le> f a \<or> f b \<le> f c)}"
      (is "?L = ?R")
    proof (intro equalityI subsetI)
      fix ab assume "ab \<in> ?L"
      then show "ab \<in> ?R" unfolding IH using below Cons by (auto intro: less_imp_le)
    next
      fix ab assume r: "ab \<in> ?R"
      obtain a b where ab: "ab = (a, b)" by fastforce
      show "ab \<in> ?L"
      proof (cases "a = x")
        case True
        then have "b \<in> set xs" "f b \<le> f y" using r ab below(1) Cons by auto
        then have "b = y" using below(2) Cons by (auto dest: leD)
        then show ?thesis using True ab by simp
      next
        case False
        then have "a \<in> set xs" "b \<in> set xs" using r ab below(1) by (auto dest: less_asym)
        then show ?thesis unfolding IH using r ab by auto
      qed
    qed
    finally show ?thesis .
  qed auto
qed simp

lemma report_pairs_zip:
  "report_pairs tr ms source calls =
     concat (map (\<lambda>(a, b). if is_repeated tr ms a b then [repeated_report source b] else []) (zip calls (tl calls)))"
  by (induction tr ms source calls rule: report_pairs.induct) auto

text \<open>A group is sorted strictly when no two of its calls start at the same byte.\<close>

lemma call_group_sorted:
  assumes "distinct (map (\<lambda>c. (group_key c, ce_pos c)) calls)"
  shows "sorted_wrt (\<lambda>a b. ce_pos a < ce_pos b) (call_group calls key)"
proof -
  let ?g = "call_group calls key"
  have d: "distinct (map (\<lambda>c. (group_key c, ce_pos c)) ?g)"
  proof -
    have "mset (map (\<lambda>c. (group_key c, ce_pos c)) ?g) = mset (map (\<lambda>c. (group_key c, ce_pos c)) (filter (\<lambda>c. group_key c = key) calls))"
      by (simp add: call_group_def)
    moreover have "distinct (map (\<lambda>c. (group_key c, ce_pos c)) (filter (\<lambda>c. group_key c = key) calls))"
      using assms by (rule distinct_map_filter)
    ultimately show ?thesis using mset_eq_imp_distinct_iff by blast
  qed
  have s: "sorted_wrt (\<lambda>a b. \<not> ce_pos b < ce_pos a) ?g" by (simp add: call_group_def by_position.sorted_sort_by)
  have key: "group_key c = key" if "c \<in> set ?g" for c using that by (auto simp: call_group_def)
  show ?thesis
  proof (unfold sorted_wrt_iff_nth_less, intro allI impI)
    fix i j assume ij: "i < j" "j < length ?g"
    have "\<not> ce_pos (?g ! j) < ce_pos (?g ! i)" using sorted_wrt_nth_less [OF s] ij by simp
    moreover have "ce_pos (?g ! i) \<noteq> ce_pos (?g ! j)"
      using d ij key [of "?g ! i"] key [of "?g ! j"] by (auto simp: distinct_conv_nth)
    ultimately show "ce_pos (?g ! i) < ce_pos (?g ! j)" by simp
  qed
qed

section \<open>Properties\<close>

text \<open>\<open>a\<close> is the closest call before \<open>b\<close> with the same name and arguments.\<close>

definition same_call :: "call_event \<Rightarrow> call_event \<Rightarrow> bool" where
  "same_call a b \<longleftrightarrow> ce_intrinsic_name a = ce_intrinsic_name b \<and> ce_canonical_args a = ce_canonical_args b"

definition closest_before :: "call_event list \<Rightarrow> call_event \<Rightarrow> call_event \<Rightarrow> bool" where
  "closest_before calls a b \<longleftrightarrow> a \<in> set calls \<and> b \<in> set calls \<and> same_call a b \<and> ce_pos a < ce_pos b \<and>
     list_all (\<lambda>c. \<not> (same_call c b \<and> ce_pos a < ce_pos c \<and> ce_pos c < ce_pos b)) calls"

lemma group_neighbours:
  assumes d: "distinct (map (\<lambda>c. (group_key c, ce_pos c)) calls)"
    and pure: "\<And>c. c \<in> set calls \<Longrightarrow> is_pure_intrinsic (ce_intrinsic_name c)"
  shows "(\<exists>key \<in> set (map group_key calls). (a, b) \<in> set (zip (call_group calls key) (tl (call_group calls key)))) \<longleftrightarrow>
    closest_before calls a b"
proof -
  have mem: "c \<in> set (call_group calls key) \<longleftrightarrow> c \<in> set calls \<and> group_key c = key" for c key
    by (auto simp: call_group_def)
  have same: "group_key c = group_key e \<longleftrightarrow> same_call c e" if "c \<in> set calls" "e \<in> set calls" for c e
    using group_key_iff [OF pure pure] that by (simp add: same_call_def)
  have pair: "(a, b) \<in> set (zip (call_group calls key) (tl (call_group calls key))) \<longleftrightarrow>
      a \<in> set calls \<and> b \<in> set calls \<and> group_key a = key \<and> group_key b = key \<and> ce_pos a < ce_pos b \<and>
      (\<forall>c \<in> set calls. group_key c = key \<longrightarrow> ce_pos c \<le> ce_pos a \<or> ce_pos b \<le> ce_pos c)" for key
    using neighbours_sorted [OF call_group_sorted [OF d]] by (auto simp: mem)
  show ?thesis unfolding pair closest_before_def list_all_iff using same by (auto simp: not_less) (metis not_less)+
qed

text \<open>A call is reported exactly when the closest call before it with the same name and arguments is not on the
  other side of an \<open>if\<close>, and no write between the two changes a name in the arguments, except in a block that ends before
  the second call and is left by a jump: whatever order the hash map keeps its keys in. The header of the file asks for
  more (that the first call dominates the second, and that declarations count as writes), which the code does not do.\<close>

theorem repeated_calls_reported:
  assumes "distinct (map (\<lambda>c. (ce_intrinsic_name c, ce_canonical_args c, ce_pos c)) (body_calls (at_bytes t) p n))"
    and "\<And>keys. set (buckets keys) = set keys"
  shows "set (analyse_function_body buckets t p (Some n)) =
    {repeated_report (at_source t) b | a b. closest_before (body_calls (at_bytes t) p n) a b \<and>
       is_repeated (at_root t) (body_mutations (at_bytes t) p n) a b}"
proof -
  let ?calls = "body_calls (at_bytes t) p n"
  let ?ms = "body_mutations (at_bytes t) p n"
  have pure: "is_pure_intrinsic (ce_intrinsic_name c)" if "c \<in> set ?calls" for c using that by (rule body_call_pure)
  have d: "distinct (map (\<lambda>c. (group_key c, ce_pos c)) ?calls)"
  proof -
    have "inj_on (\<lambda>c. (group_key c, ce_pos c)) (set ?calls)" "distinct ?calls"
      using assms(1) group_key_iff [OF pure pure] by (auto simp: distinct_map inj_on_def)
    then show ?thesis by (simp add: distinct_map)
  qed
  let ?all = "concat (map (\<lambda>key. report_pairs (at_root t) ?ms (at_source t) (call_group ?calls key)) (buckets (remdups (map group_key ?calls))))"
  define pairs where "pairs key = zip (call_group ?calls key) (tl (call_group ?calls key))" for key
  have "set ?all = {repeated_report (at_source t) b | a b. (\<exists>key \<in> set (map group_key ?calls). (a, b) \<in> set (pairs key)) \<and>
      is_repeated (at_root t) ?ms a b}"
    by (force simp: report_pairs_zip assms(2) pairs_def [symmetric] split: if_splits)
  then have all: "set ?all = {repeated_report (at_source t) b | a b. closest_before ?calls a b \<and> is_repeated (at_root t) ?ms a b}"
    unfolding pairs_def using group_neighbours [OF d pure] by simp
  show ?thesis
  proof (cases "length ?calls < 2")
    case True
    then have "\<not> closest_before ?calls a b" for a b
      by (cases ?calls) (auto simp: closest_before_def)
    then show ?thesis using True by (simp add: analyse_function_body_def collected_events)
  next
    case False
    then show ?thesis using all by (simp add: analyse_function_body_def collected_events)
  qed
qed

text \<open>\<open>f(){a=sqrt(x);while(c){if(d){x=b;break;}}e=sqrt(x);}\<close>\<close>

definition loop_text :: string where
  "loop_text = ''f(){a=sqrt(x);while(c){if(d){x=b;break;}}e=sqrt(x);}''"

definition loop_tree :: ts_node where
  "loop_tree =
     Ts_Node ''function_definition'' True 0 52
       [(Some ''body'', ex_node ''compound_statement'' 3 52
          [ex_assign 4 13 (ex_call 6 10 13 [ex_node ''identifier'' 11 12 []]),
           ex_node ''while_statement'' 14 41
             [ex_node ''parenthesized_expression'' 19 22 [ex_node ''identifier'' 20 21 []],
              ex_node ''compound_statement'' 22 41
                [ex_node ''if_statement'' 23 40
                   [ex_node ''parenthesized_expression'' 25 28 [ex_node ''identifier'' 26 27 []],
                    ex_node ''compound_statement'' 28 40
                      [ex_assign 29 32 (ex_node ''identifier'' 31 32 []), ex_node ''break_statement'' 33 39 []]]]],
           ex_assign 41 50 (ex_call 43 47 50 [ex_node ''identifier'' 48 49 []])])]"

definition loop_source :: ast_tree where
  "loop_source = \<lparr>at_root = loop_tree, at_language = Tree_Sitter_Hlsl, at_bytes = loop_text, at_source = \<lparr>sid_value = 1\<rparr>\<rparr>"

text \<open>A write that leaves a loop is overlooked: the block of \<open>x=b;break;\<close> ends with a jump before the second
  \<open>sqrt(x)\<close>, so its write does not count, although \<open>break\<close> leads to the code after the loop. The report, that the
  value is computed twice, is wrong; and it quotes the arguments with their parentheses, as \<open>sqrt((x))\<close>.\<close>

theorem write_before_break_overlooked:
  "map (\<lambda>d. (sp_bytes (dg_primary_span d), take 11 (dg_message d))) (walk_top_level id loop_source [] loop_tree) =
     [(\<lparr>bs_lo = 43, bs_hi = 50\<rparr>, ''`sqrt((x))`'')] \<and>
   map (\<lambda>m. (me_pos m, me_target m)) (body_mutations loop_text [0] (snd (hd (ts_children loop_tree)))) =
     [(4, ''a''), (29, ''x''), (41, ''e'')]"
  by code_simp

theorem repeated_calls_reported_witness:
  "set (analyse_function_body rev loop_source [0] (Some (snd (hd (ts_children loop_tree))))) =
    {repeated_report \<lparr>sid_value = 1\<rparr> b | a b.
       closest_before (body_calls loop_text [0] (snd (hd (ts_children loop_tree)))) a b \<and>
       is_repeated loop_tree (body_mutations loop_text [0] (snd (hd (ts_children loop_tree)))) a b}"
proof -
  have "distinct (map (\<lambda>c. (ce_intrinsic_name c, ce_canonical_args c, ce_pos c))
      (body_calls (at_bytes loop_source) [0] (snd (hd (ts_children loop_tree)))))" by code_simp
  from repeated_calls_reported [OF this, of rev] show ?thesis by (simp add: loop_source_def)
qed

end
