(* ===== verification/Powers.thy ===== *)
theory Powers
  imports RuleKit Rewriter
begin

text \<open>
  The four rules on calls of \<open>pow\<close>: \<^verbatim>\<open>pow_const_squared.cpp, pow_to_mul.cpp, pow_integer_decomposition.cpp\<close> and
  \<^verbatim>\<open>pow_base_two_to_exp2.cpp\<close> of \<^verbatim>\<open>core/src/rules\<close>. Each looks at one node; the files repeat the parser of literals,
  with two or three digits, and the match of the call. The main lemma evaluates the text of a fix.
\<close>

section \<open>Literals\<close>

definition is_float_suffix :: "char \<Rightarrow> bool" where
  "is_float_suffix c \<longleftrightarrow> c \<in> set ''fFhHlLuU''"

definition skip_optional_plus :: "string \<Rightarrow> nat \<Rightarrow> nat" where
  "skip_optional_plus text i = (if i < length text \<and> text ! i = CHR ''+'' then i + 1 else i)"

abbreviation read_digits :: "string \<Rightarrow> nat \<Rightarrow> nat" where
  "read_digits \<equiv> skip_while is_digit_char"

definition skip_zero_fraction :: "string \<Rightarrow> nat \<Rightarrow> nat option" where
  "skip_zero_fraction text i =
     (if i \<ge> length text \<or> text ! i \<noteq> CHR ''.'' then Some i
      else let j = skip_while (\<lambda>c. c = CHR ''0'') text (i + 1) in
           if j < length text \<and> is_digit_char (text ! j) \<and> text ! j \<noteq> CHR ''0'' then None else Some j)"

definition skip_suffixes :: "string \<Rightarrow> nat \<Rightarrow> nat option" where
  "skip_suffixes text i = (if list_all is_float_suffix (drop i text) then Some (max i (length text)) else None)"

text \<open>The value of a literal with at most \<open>digits\<close> digits before the point and only zeros after it.\<close>

definition parse_integer_literal :: "nat \<Rightarrow> string \<Rightarrow> nat option" where
  "parse_integer_literal digits text =
     (if text = [] then None
      else let int_start = skip_optional_plus text 0 in
        if int_start \<ge> length text then None
        else let i = read_digits text int_start in
          if int_start = i then None
          else let int_part = substr text int_start (i - int_start) in
            (case skip_zero_fraction text i of
               None \<Rightarrow> None
             | Some i \<Rightarrow>
                 (if i < length text \<and> (text ! i = CHR ''e'' \<or> text ! i = CHR ''E'') then None
                  else case skip_suffixes text i of
                         None \<Rightarrow> None
                       | Some _ \<Rightarrow> if length int_part > digits then None else Some (of_decimal int_part))))"

section \<open>The calls\<close>

text \<open>The bytes a cursor reads: those of the source of the rule context.\<close>

definition view_bytes :: "rule_view \<Rightarrow> string" where
  "view_bytes view = (case sm_get (rv_sources view) (rv_source view) of None \<Rightarrow> [] | Some file \<Rightarrow> sf_contents file)"

definition node_kind_is :: "ts_node option \<Rightarrow> string \<Rightarrow> bool" where
  "node_kind_is node expected = (case node of None \<Rightarrow> False | Some n \<Rightarrow> ts_kind n = expected)"

text \<open>The two arguments of a call of \<open>pow\<close>.\<close>

definition pow_arguments :: "string \<Rightarrow> ts_node \<Rightarrow> (ts_node \<times> ts_node) option" where
  "pow_arguments bytes call =
     (let fn = child_by_field call ''function'' in
      if \<not> node_kind_is fn ''identifier'' \<or> node_text fn bytes \<noteq> ''pow'' then None
      else case child_by_field call ''arguments'' of
             None \<Rightarrow> None
           | Some args \<Rightarrow> (case named_children args of [arg0, arg1] \<Rightarrow> Some (arg0, arg1) | _ \<Rightarrow> None))"

record pow_match =
  pm_exponent :: nat
  pm_base_text :: string
  pm_base_is_simple_identifier :: bool

definition literal_base_two :: "nat \<Rightarrow> string \<Rightarrow> ts_node \<Rightarrow> bool" where
  "literal_base_two digits bytes arg0 \<longleftrightarrow>
     ts_kind arg0 = ''number_literal'' \<and> parse_integer_literal digits (node_text (Some arg0) bytes) = Some 2"

definition match_pow_call :: "nat \<Rightarrow> ts_node \<Rightarrow> string \<Rightarrow> pow_match option" where
  "match_pow_call highest call bytes =
     (case pow_arguments bytes call of
        None \<Rightarrow> None
      | Some (arg0, arg1) \<Rightarrow>
          (if ts_kind arg1 \<noteq> ''number_literal'' then None
           else case parse_integer_literal 2 (node_text (Some arg1) bytes) of
                  None \<Rightarrow> None
                | Some exponent \<Rightarrow>
                    (if exponent < 2 \<or> exponent > highest then None
                     else if literal_base_two 2 bytes arg0 then None
                     else if node_text (Some arg0) bytes = [] then None
                     else Some \<lparr>pm_exponent = exponent, pm_base_text = node_text (Some arg0) bytes,
                                pm_base_is_simple_identifier = (ts_kind arg0 = ''identifier'')\<rparr>)))"

section \<open>The rules\<close>

definition make_replacement :: "string \<Rightarrow> nat \<Rightarrow> string" where
  "make_replacement base exponent =
     (if exponent = 2 then base @ '' * '' @ base
      else if exponent = 3 then base @ '' * '' @ base @ '' * '' @ base
      else if exponent = 4 then ''('' @ base @ '' * '' @ base @ '') * ('' @ base @ '' * '' @ base @ '')''
      else if exponent = 5 then ''('' @ base @ '' * '' @ base @ '') * ('' @ base @ '' * '' @ base @ '') * '' @ base
      else base)"

definition const_squared_message :: "nat \<Rightarrow> string" where
  "const_squared_message exponent =
     ''`pow(x, '' @ [digit_char exponent] @ ''.0)` should be written as '' @
     (if exponent = 2 then ''`x * x`''
      else if exponent = 3 then ''`x * x * x`''
      else if exponent = 4 then ''`(x * x) * (x * x)` (one multiplication saved via squaring)''
      else if exponent = 5 then ''`(x * x) * (x * x) * x` (pow-by-squaring; 3 multiplies vs. transcendental)''
      else ''repeated multiplication'') @
     '' '' @ em_dash @ '' `pow` lowers to a transcendental sequence on every current GPU''"

definition to_mul_message :: "nat \<Rightarrow> string" where
  "to_mul_message exponent =
     ''`pow(x, '' @ [digit_char exponent] @ ''.0)` should be written as '' @
     (if exponent = 2 then ''`x * x`''
      else if exponent = 3 then ''`x * x * x`''
      else if exponent = 4 then ''`(x * x) * (x * x)`''
      else ''repeated multiplication'') @
     '' -- `pow` lowers to a transcendental sequence on every current GPU''"

definition product_fix :: "source_id \<Rightarrow> byte_span \<Rightarrow> pow_match \<Rightarrow> fix_t" where
  "product_fix source bs m =
     replacing_fix (pm_base_is_simple_identifier m)
       (if pm_base_is_simple_identifier m then ''replace `pow(x, N.0)` with repeated multiplication''
        else ''replace with repeated multiplication; verify the base expression is side-effect-free before applying'')
       source bs (make_replacement (pm_base_text m) (pm_exponent m))"

definition const_squared_visit :: "rule_view \<Rightarrow> ts_node \<Rightarrow> diagnostic list" where
  "const_squared_visit view n =
     (if ts_kind n \<noteq> ''call_expression'' then []
      else case match_pow_call 5 n (view_bytes view) of
             None \<Rightarrow> []
           | Some m \<Rightarrow> [rule_diagnostic ''pow-const-squared'' (rv_source view) (range_of n) (const_squared_message (pm_exponent m))
                          [product_fix (rv_source view) (range_of n) m]])"

definition to_mul_visit :: "rule_view \<Rightarrow> ts_node \<Rightarrow> diagnostic list" where
  "to_mul_visit view n =
     (if ts_kind n \<noteq> ''call_expression'' then []
      else case match_pow_call 4 n (view_bytes view) of
             None \<Rightarrow> []
           | Some m \<Rightarrow> [rule_diagnostic ''pow-to-mul'' (rv_source view) (range_of n) (to_mul_message (pm_exponent m))
                          [product_fix (rv_source view) (range_of n) m]])"

definition render_exponent :: "nat \<Rightarrow> string" where
  "render_exponent n =
     (if n \<ge> 100 then [digit_char (n div 100), digit_char (n div 10 mod 10), digit_char (n mod 10)]
      else if n \<ge> 10 then [digit_char (n div 10), digit_char (n mod 10)]
      else [digit_char n])"

definition decomposition_visit :: "rule_view \<Rightarrow> ts_node \<Rightarrow> diagnostic list" where
  "decomposition_visit view n =
     (if ts_kind n \<noteq> ''call_expression'' then []
      else let bytes = view_bytes view in
        case pow_arguments bytes n of
          None \<Rightarrow> []
        | Some (arg0, arg1) \<Rightarrow>
            (if ts_kind arg1 \<noteq> ''number_literal'' then []
             else case parse_integer_literal 3 (node_text (Some arg1) bytes) of
                    None \<Rightarrow> []
                  | Some exponent \<Rightarrow>
                      (if exponent < 5 \<or> literal_base_two 3 bytes arg0 then []
                       else [rule_diagnostic ''pow-integer-decomposition'' (rv_source view) (range_of n)
                               (''`pow(x, '' @ render_exponent exponent @
                                ''.0)` should be replaced with a pow-by-squaring chain -- '' @
                                ''`pow` lowers to a transcendental sequence on every current GPU, '' @
                                ''but a handful of multiplies is strictly cheaper'')
                               [suggestion
                                 (''rewrite as a pow-by-squaring chain (e.g. `pow(x, 5)` --> '' @
                                  ''`(x*x)*(x*x)*x`); choose an addition chain that minimises '' @
                                  ''multiplications for your N'')]])))"

definition base_two_visit :: "rule_view \<Rightarrow> ts_node \<Rightarrow> diagnostic list" where
  "base_two_visit view n =
     (if ts_kind n \<noteq> ''call_expression'' then []
      else let bytes = view_bytes view in
        case pow_arguments bytes n of
          None \<Rightarrow> []
        | Some (arg0, arg1) \<Rightarrow>
            (if ts_kind arg0 \<noteq> ''number_literal'' \<or> \<not> is_numeric_literal_two (node_text (Some arg0) bytes) then []
             else let exponent_text = node_text (Some arg1) bytes in
               if exponent_text = [] then []
               else [rule_diagnostic ''pow-base-two-to-exp2'' (rv_source view) (range_of n)
                       (''`pow(2.0, x)` should be written as `exp2(x)` -- `exp2` is a single '' @
                        ''GPU instruction; `pow(2, x)` typically lowers to log2 + multiply + exp2'')
                       [replacing_fix True ''replace `pow(2.0, x)` with `exp2(x)`'' (rv_source view) (range_of n)
                          (''exp2('' @ exponent_text @ '')'')]]))"

definition node_rule :: "string \<Rightarrow> (rule_view \<Rightarrow> ts_node \<Rightarrow> diagnostic list) \<Rightarrow> (unit, 'r, 'c, 'i) rule" where
  "node_rule i visit = (default_rule i ())\<lparr>rl_on_node := (\<lambda>view n s. (s, visit view n))\<rparr>"

definition pow_const_squared :: "(unit, 'r, 'c, 'i) rule" where
  "pow_const_squared = node_rule ''pow-const-squared'' const_squared_visit"

definition pow_to_mul :: "(unit, 'r, 'c, 'i) rule" where
  "pow_to_mul = node_rule ''pow-to-mul'' to_mul_visit"

definition pow_integer_decomposition :: "(unit, 'r, 'c, 'i) rule" where
  "pow_integer_decomposition = node_rule ''pow-integer-decomposition'' decomposition_visit"

definition pow_base_two_to_exp2 :: "(unit, 'r, 'c, 'i) rule" where
  "pow_base_two_to_exp2 = node_rule ''pow-base-two-to-exp2'' base_two_visit"

section \<open>The value of a product\<close>

text \<open>Products as the language reads them: words and parentheses joined by \<open>*\<close> and \<open>/\<close>, from left to right; \<open>env\<close> gives
  the value of a word.\<close>

datatype token = Word string | Symbol char

definition is_word_char :: "char \<Rightarrow> bool" where
  "is_word_char c \<longleftrightarrow> is_alnum_char c \<or> c = CHR ''_'' \<or> c = CHR ''.''"

function tokens :: "string \<Rightarrow> token list" where
  "tokens [] = []"
| "tokens (c # text) =
     (if c = CHR '' '' then tokens text
      else if is_word_char c then Word (takeWhile is_word_char (c # text)) # tokens (dropWhile is_word_char text)
      else Symbol c # tokens text)"
  by pat_completeness auto
termination
  by (relation "measure length") (auto simp: le_imp_less_Suc length_dropWhile_le)

fun factor_of :: "(string \<Rightarrow> 'a :: field) \<Rightarrow> nat \<Rightarrow> token list \<Rightarrow> ('a \<times> token list) option"
  and product_of :: "(string \<Rightarrow> 'a :: field) \<Rightarrow> nat \<Rightarrow> token list \<Rightarrow> ('a \<times> token list) option"
  and more_of :: "(string \<Rightarrow> 'a :: field) \<Rightarrow> nat \<Rightarrow> 'a \<Rightarrow> token list \<Rightarrow> ('a \<times> token list) option" where
  "factor_of env 0 ts = None"
| "factor_of env (Suc k) [] = None"
| "factor_of env (Suc k) (Word w # ts) = Some (env w, ts)"
| "factor_of env (Suc k) (Symbol c # ts) =
     (if c = CHR ''(''
      then (case product_of env k ts of
              Some (v, Symbol d # ts') \<Rightarrow> if d = CHR '')'' then Some (v, ts') else None
            | _ \<Rightarrow> None)
      else None)"
| "product_of env 0 ts = None"
| "product_of env (Suc k) ts =
     (case factor_of env k ts of None \<Rightarrow> None | Some (v, ts') \<Rightarrow> more_of env k v ts')"
| "more_of env 0 v ts = None"
| "more_of env (Suc k) v ts =
     (case ts of
        Symbol c # ts' \<Rightarrow>
          (if c = CHR ''*'' \<or> c = CHR ''/''
           then (case factor_of env k ts' of
                   None \<Rightarrow> None
                 | Some (w, ts'') \<Rightarrow> more_of env k (if c = CHR ''*'' then v * w else v / w) ts'')
           else Some (v, ts))
      | _ \<Rightarrow> Some (v, ts))"

text \<open>Every call uses one unit of fuel and reads a token, or is the first of its level.\<close>

definition product_value :: "(string \<Rightarrow> 'a :: field) \<Rightarrow> string \<Rightarrow> 'a option" where
  "product_value env text =
     (case product_of env (2 * length (tokens text) + 2) (tokens text) of Some (v, []) \<Rightarrow> Some v | _ \<Rightarrow> None)"

definition is_word :: "string \<Rightarrow> bool" where
  "is_word w \<longleftrightarrow> w \<noteq> [] \<and> list_all is_word_char w"

lemma tokens_word:
  assumes "is_word w" and "rest = [] \<or> \<not> is_word_char (hd rest)"
  shows "tokens (w @ rest) = Word w # tokens rest"
proof -
  obtain c cs where w: "w = c # cs" "is_word_char c" "\<forall>x \<in> set cs. is_word_char x"
    using assms(1) by (cases w) (auto simp: is_word_def list_all_iff)
  have "c \<noteq> CHR '' ''" using w(2) by (auto simp: is_word_char_def is_alnum_char_def is_digit_char_def is_alpha_char_def)
  moreover have "takeWhile is_word_char (cs @ rest) = cs" "dropWhile is_word_char (cs @ rest) = rest"
    using w(3) assms(2) by (cases rest; auto simp: takeWhile_append dropWhile_append)+
  ultimately show ?thesis using w by simp
qed

lemma tokens_symbols:
  "tokens ('' * '' @ rest) = Symbol CHR ''*'' # tokens rest"
  "tokens ('')'' @ rest) = Symbol CHR '')'' # tokens rest"
  "tokens (''('' @ rest) = Symbol CHR ''('' # tokens rest"
  "tokens ('') * ('' @ rest) = Symbol CHR '')'' # Symbol CHR ''*'' # Symbol CHR ''('' # tokens rest"
  "tokens ('') * '' @ rest) = Symbol CHR '')'' # Symbol CHR ''*'' # tokens rest"
  by (simp_all add: is_word_char_def is_alnum_char_def is_digit_char_def is_alpha_char_def)

lemma word_ends [simp]:
  "\<not> is_word_char CHR '' ''" "\<not> is_word_char CHR '')''" "\<not> is_word_char CHR ''(''"
  by (simp_all add: is_word_char_def is_alnum_char_def is_digit_char_def is_alpha_char_def)

lemma replacement_tokens:
  assumes "is_word base"
  shows "tokens (make_replacement base 2) = [Word base, Symbol CHR ''*'', Word base]"
    and "tokens (make_replacement base 3) = [Word base, Symbol CHR ''*'', Word base, Symbol CHR ''*'', Word base]"
    and "tokens (make_replacement base 4) =
      [Symbol CHR ''('', Word base, Symbol CHR ''*'', Word base, Symbol CHR '')'', Symbol CHR ''*'',
       Symbol CHR ''('', Word base, Symbol CHR ''*'', Word base, Symbol CHR '')'']"
    and "tokens (make_replacement base 5) =
      [Symbol CHR ''('', Word base, Symbol CHR ''*'', Word base, Symbol CHR '')'', Symbol CHR ''*'',
       Symbol CHR ''('', Word base, Symbol CHR ''*'', Word base, Symbol CHR '')'', Symbol CHR ''*'', Word base]"
proof -
  note step = tokens_word [OF assms] tokens_symbols
  have last: "tokens base = [Word base]" "tokens '')'' = [Symbol CHR '')'']"
    using tokens_word [OF assms, of "[]"] by simp_all
  show "tokens (make_replacement base 2) = [Word base, Symbol CHR ''*'', Word base]"
    "tokens (make_replacement base 3) = [Word base, Symbol CHR ''*'', Word base, Symbol CHR ''*'', Word base]"
    "tokens (make_replacement base 4) =
      [Symbol CHR ''('', Word base, Symbol CHR ''*'', Word base, Symbol CHR '')'', Symbol CHR ''*'',
       Symbol CHR ''('', Word base, Symbol CHR ''*'', Word base, Symbol CHR '')'']"
    "tokens (make_replacement base 5) =
      [Symbol CHR ''('', Word base, Symbol CHR ''*'', Word base, Symbol CHR '')'', Symbol CHR ''*'',
       Symbol CHR ''('', Word base, Symbol CHR ''*'', Word base, Symbol CHR '')'', Symbol CHR ''*'', Word base]"
    by (simp_all add: make_replacement_def step last del: tokens.simps append.simps)
qed

lemma replacement_value:
  assumes "is_word base" and "2 \<le> exponent" and "exponent \<le> 5"
  shows "product_value env (make_replacement base exponent) = Some (env base ^ exponent)"
proof -
  have "exponent = 2 \<or> exponent = 3 \<or> exponent = 4 \<or> exponent = 5" using assms(2,3) by auto
  then show ?thesis
  proof (elim disjE)
    assume "exponent = 2"
    then show ?thesis
      by (simp add: product_value_def replacement_tokens [OF assms(1)]) (simp add: eval_nat_numeral)
  next
    assume "exponent = 3"
    then show ?thesis
      by (simp add: product_value_def replacement_tokens [OF assms(1)]) (simp add: eval_nat_numeral)
  next
    assume "exponent = 4"
    then show ?thesis
      by (simp add: product_value_def replacement_tokens [OF assms(1)]) (simp add: eval_nat_numeral)
  next
    assume "exponent = 5"
    then show ?thesis
      by (simp add: product_value_def replacement_tokens [OF assms(1)]) (simp add: eval_nat_numeral)
  qed
qed

lemma match_pow_call_facts:
  assumes "match_pow_call highest n bytes = Some m"
  obtains base literal where "pow_arguments bytes n = Some (base, literal)"
    and "parse_integer_literal 2 (node_text (Some literal) bytes) = Some (pm_exponent m)"
    and "2 \<le> pm_exponent m" and "pm_exponent m \<le> highest" and "pm_base_text m = node_text (Some base) bytes"
    and "pm_base_is_simple_identifier m \<longleftrightarrow> ts_kind base = ''identifier''"
  using assms by (auto simp: match_pow_call_def not_less split: option.splits prod.splits if_splits)

lemma product_fix_edits [simp]:
  "fx_edits (product_fix source bs m) =
     [\<lparr>te_span = \<lparr>sp_source = source, sp_bytes = bs\<rparr>, te_replacement = make_replacement (pm_base_text m) (pm_exponent m)\<rparr>]"
  by (simp add: product_fix_def replacing_fix_def)

lemma product_visits:
  "d \<in> set (const_squared_visit view n) \<Longrightarrow> \<exists>m. match_pow_call 5 n (view_bytes view) = Some m \<and> dg_severity d = Warning \<and>
     dg_code d = ''pow-const-squared'' \<and> dg_fixes d = [product_fix (rv_source view) (range_of n) m]"
  "d \<in> set (to_mul_visit view n) \<Longrightarrow> \<exists>m. match_pow_call 4 n (view_bytes view) = Some m \<and> dg_severity d = Warning \<and>
     dg_code d = ''pow-to-mul'' \<and> dg_fixes d = [product_fix (rv_source view) (range_of n) m]"
  by (cases "match_pow_call 5 n (view_bytes view)"; cases "match_pow_call 4 n (view_bytes view)";
      auto simp: const_squared_visit_def to_mul_visit_def rule_diagnostic_def split: if_splits)+

section \<open>Properties\<close>

text \<open>The fix of a diagnostic with the priority the rewriter is given.\<close>

definition first_fix :: "diagnostic \<Rightarrow> prioritised_fix" where
  "first_fix d = \<lparr>pf_priority = \<lparr>fp_severity = dg_severity d, fp_rule_id = dg_code d\<rparr>, pf_fix = hd (dg_fixes d)\<rparr>"

text \<open>C33: The two product rules may both report a call, and their fixes do not stack: the rewriter applies the fix of
  \<open>pow-const-squared\<close>, which replaces the call once, and reports the other as a conflict.\<close>

theorem pow_fixes_do_not_stack:
  assumes "d \<in> set (const_squared_visit view n)" and "d' \<in> set (to_mul_visit view n)"
    and "ts_start n < ts_end n" and "unat (ts_end n) \<le> length text"
  shows "\<exists>m. match_pow_call 5 n (view_bytes view) = Some m \<and>
    apply_fixes text [first_fix d', first_fix d] =
      (take (unat (ts_start n)) text @ make_replacement (pm_base_text m) (pm_exponent m) @ drop (unat (ts_end n)) text,
       [\<lparr>fc_dropped_rule_id = ''pow-to-mul'', fc_winning_rule_id = ''pow-const-squared'',
         fc_byte_lo = ts_start n, fc_byte_hi = ts_end n\<rparr>])"
proof -
  obtain m where m: "match_pow_call 5 n (view_bytes view) = Some m"
    and d: "first_fix d = \<lparr>pf_priority = \<lparr>fp_severity = Warning, fp_rule_id = ''pow-const-squared''\<rparr>,
      pf_fix = product_fix (rv_source view) (range_of n) m\<rparr>"
    using product_visits(1) [OF assms(1)] by (auto simp: first_fix_def)
  obtain m' where d': "first_fix d' = \<lparr>pf_priority = \<lparr>fp_severity = Warning, fp_rule_id = ''pow-to-mul''\<rparr>,
      pf_fix = product_fix (rv_source view) (range_of n) m'\<rparr>"
    using product_visits(2) [OF assms(2)] by (auto simp: first_fix_def)
  have less: "''pow-const-squared'' < ''pow-to-mul''" "\<not> ''pow-to-mul'' < ''pow-const-squared''" by code_simp+
  have order: "priority_order [first_fix d', first_fix d] = [1, 0]"
    using less by (simp add: d d' priority_order_def index_greater_def priority_greater_def Let_def)
  have bounds: "bs_lo (range_of n) = ts_start n" "bs_hi (range_of n) = ts_end n" by (simp_all add: byte_range_def)
  have "\<not> ts_end n < ts_start n" "unat (ts_start n) \<le> length text"
    using assms(3,4) by (simp_all add: word_less_nat_alt)
  then show ?thesis
    using m assms(3,4)
    by (simp add: apply_fixes_def accept_all_def order [unfolded d d'] d d' accept_fix_def bounds
        accept_edit_def overlaps_def splice_def)
qed

text \<open>\<open>1/pow(x,2)\<close>\<close>

definition quotient_text :: string where
  "quotient_text = ''1/pow(x,2)''"

definition quotient_call :: ts_node where
  "quotient_call = ex_call 2 5 10 [ex_node ''identifier'' 6 7 [], ex_node ''number_literal'' 8 9 []]"

definition quotient_view :: rule_view where
  "quotient_view = \<lparr>rv_sources = sample_sources quotient_text, rv_source = sample_id, rv_config = None\<rparr>"

lemma quotient_bytes: "view_bytes quotient_view = quotient_text"
  by code_simp

text \<open>The product is not parenthesised, although the fix is applied without a question: \<open>1/pow(x,2)\<close> becomes
  \<open>1/x * x\<close>, which is one for every \<open>x\<close> but zero.\<close>

theorem pow_fix_ignores_context:
  "\<exists>d. const_squared_visit quotient_view quotient_call = [d] \<and> fx_machine_applicable (hd (dg_fixes d)) \<and>
     fst (apply_fixes quotient_text [first_fix d]) = ''1/x * x'' \<and>
     product_value (\<lambda>w. if w = ''1'' then 1 else 3) ''1/x * x'' = Some (1 :: rat) \<and>
     (1 :: rat) / 3 ^ 2 = 1 / 9"
proof (intro exI conjI)
  show "const_squared_visit quotient_view quotient_call = [hd (const_squared_visit quotient_view quotient_call)]" by code_simp
  show "fx_machine_applicable (hd (dg_fixes (hd (const_squared_visit quotient_view quotient_call))))" by code_simp
  show "fst (apply_fixes quotient_text [first_fix (hd (const_squared_visit quotient_view quotient_call))]) = ''1/x * x''"
    by code_simp
  show "product_value (\<lambda>w. if w = ''1'' then 1 else 3) ''1/x * x'' = Some (1 :: rat)" by code_simp
  show "(1 :: rat) / 3 ^ 2 = 1 / 9" by code_simp
qed

text \<open>Leading zeros defeat the division of labour: \<open>pow(002.0, 3)\<close> is a power of two for one rule and has too many
  digits for the parser of the others, so it is reported both as \<open>exp2\<close> and as a product.\<close>

theorem padded_two_reported_twice:
  "let call = ex_call 0 3 13 [ex_node ''number_literal'' 4 9 [], ex_node ''number_literal'' 11 12 []];
       view = \<lparr>rv_sources = sample_sources ''pow(002.0, 3)'', rv_source = sample_id, rv_config = None\<rparr>
   in map dg_code (base_two_visit view call @ const_squared_visit view call) =
        [''pow-base-two-to-exp2'', ''pow-const-squared'']"
  by code_simp

theorem pow_fixes_do_not_stack_witness:
  "\<exists>m. match_pow_call 5 quotient_call quotient_text = Some m \<and>
    apply_fixes quotient_text
        [first_fix (hd (to_mul_visit quotient_view quotient_call)), first_fix (hd (const_squared_visit quotient_view quotient_call))] =
      (take 2 quotient_text @ make_replacement (pm_base_text m) (pm_exponent m) @ drop 10 quotient_text,
       [\<lparr>fc_dropped_rule_id = ''pow-to-mul'', fc_winning_rule_id = ''pow-const-squared'', fc_byte_lo = 2, fc_byte_hi = 10\<rparr>])"
proof -
  have "hd (const_squared_visit quotient_view quotient_call) \<in> set (const_squared_visit quotient_view quotient_call)"
    "hd (to_mul_visit quotient_view quotient_call) \<in> set (to_mul_visit quotient_view quotient_call)"
    "ts_start quotient_call < ts_end quotient_call" "unat (ts_end quotient_call) \<le> length quotient_text"
    by code_simp+
  from pow_fixes_do_not_stack [OF this]
  show ?thesis by (simp add: quotient_bytes) (simp add: quotient_call_def ex_call_def)
qed

end
