(* ===== verification/SharedMemory.thy ===== *)
theory SharedMemory
  imports Barriers
begin

text \<open>
  Five rules on groupshared memory: \<^verbatim>\<open>groupshared_first_read_without_barrier.cpp\<close>,
  \<^verbatim>\<open>groupshared_overwrite_before_barrier.cpp\<close>, \<^verbatim>\<open>groupshared_write_then_no_barrier_read.cpp\<close>,
  \<^verbatim>\<open>groupshared_uninitialized_read.cpp\<close> and \<^verbatim>\<open>groupshared_dead_store.cpp\<close> of \<^verbatim>\<open>core/src/rules\<close>. They scan the
  tree for accesses to shared arrays and ask the control-flow graph whether a barrier lies between two of them; the
  lemmas say what each reports, for any answers of the graph and for those of the graphs the engine builds.
\<close>

section \<open>Names and accesses\<close>

definition is_variable_kind :: "string \<Rightarrow> bool" where
  "is_variable_kind k \<longleftrightarrow>
     k \<in> {''declaration'', ''field_declaration'', ''global_variable_declaration'', ''variable_declaration''}"

definition inner_declarator :: "ts_node \<Rightarrow> ts_node" where
  "inner_declarator n = (case child_by_field n ''declarator'' of None \<Rightarrow> n | Some inner \<Rightarrow> inner)"

text \<open>The name a shared declaration declares: at most two declarators are unwrapped.\<close>

definition groupshared_name :: "string \<Rightarrow> ts_node \<Rightarrow> string list" where
  "groupshared_name bytes n =
     (if is_variable_kind (ts_kind n) \<and> has_keyword (node_text (Some n) bytes) ''groupshared''
      then (case child_by_field n ''declarator'' of
              None \<Rightarrow> []
            | Some declarator \<Rightarrow>
                let name_node = (if ts_kind declarator = ''init_declarator'' \<or> ts_kind declarator = ''array_declarator''
                      then inner_declarator declarator else declarator);
                    name_node = (if ts_kind name_node = ''array_declarator'' then inner_declarator name_node else name_node);
                    name = node_text (Some name_node) bytes
                in if name = [] then [] else [name])
      else [])"

definition collect_groupshared_names :: "ts_node \<Rightarrow> string \<Rightarrow> string set" where
  "collect_groupshared_names n bytes = set (concat (map (groupshared_name bytes) (preorder n)))"

text \<open>The start of the function around a node, the node itself included; zero outside functions.\<close>

function enclosing_function_key :: "ts_node \<Rightarrow> node_path \<Rightarrow> u32" where
  "enclosing_function_key tr p =
     (if kind_at tr p = ''function_definition'' \<or> kind_at tr p = ''method_definition''
      then bs_lo (byte_range (node_at tr p))
      else if p = [] then 0
      else enclosing_function_key tr (parent_path p))"
  by pat_completeness auto
termination
  by (relation "measure (\<lambda>(tr, p). length p)") auto

declare enclosing_function_key.simps [simp del]

definition subscript_receiver :: "ts_node \<Rightarrow> ts_node option" where
  "subscript_receiver n =
     (case child_by_field n ''argument'' of
        Some r \<Rightarrow> Some r
      | None \<Rightarrow> (case child_nodes n of [] \<Rightarrow> None | c # _ \<Rightarrow> Some c))"

definition subscript_index :: "ts_node \<Rightarrow> ts_node option" where
  "subscript_index n =
     (case child_by_field n ''index'' of
        Some i \<Rightarrow> Some i
      | None \<Rightarrow> find (\<lambda>c. ts_kind c \<noteq> ''['' \<and> ts_kind c \<noteq> '']'') (rev (child_nodes n)))"

definition cell_key_of :: "string \<Rightarrow> ts_node \<Rightarrow> string" where
  "cell_key_of bytes n = node_text (subscript_receiver n) bytes @ ''['' @ node_text (subscript_index n) bytes @ '']''"

definition is_shared_cell :: "string \<Rightarrow> string set \<Rightarrow> ts_node \<Rightarrow> bool" where
  "is_shared_cell bytes names n \<longleftrightarrow>
     ts_kind n = ''subscript_expression'' \<and> node_text (subscript_receiver n) bytes \<noteq> [] \<and>
     node_text (subscript_receiver n) bytes \<in> names"

section \<open>A first read without a barrier\<close>

record access_site =
  as_cell_key :: string
  as_subscript_node :: ts_node
  as_fn_id :: u32
  as_is_write :: bool

definition is_lhs_of_assignment :: "ts_node \<Rightarrow> node_path \<Rightarrow> bool" where
  "is_lhs_of_assignment tr p =
     (if p = [] then False
      else case node_at tr (parent_path p) of
             None \<Rightarrow> False
           | Some parent \<Rightarrow> ts_kind parent = ''assignment_expression'' \<and> field_position parent ''left'' = Some (last p))"

text \<open>A placeholder in the code: every branch of it answers no.\<close>

definition is_addressed_by_atomic_or_outparam :: "ts_node \<Rightarrow> node_path \<Rightarrow> bool" where
  "is_addressed_by_atomic_or_outparam tr p = False"

definition access_at :: "ts_node \<Rightarrow> string \<Rightarrow> string set \<Rightarrow> node_path \<times> ts_node \<Rightarrow> access_site list" where
  "access_at tr bytes names = (\<lambda>(p, n).
     if is_shared_cell bytes names n
     then [\<lparr>as_cell_key = cell_key_of bytes n, as_subscript_node = n, as_fn_id = enclosing_function_key tr p,
            as_is_write = (is_lhs_of_assignment tr p \<or> is_addressed_by_atomic_or_outparam tr p)\<rparr>]
     else [])"

definition scan_accesses :: "ts_node \<Rightarrow> string \<Rightarrow> string set \<Rightarrow> access_site list" where
  "scan_accesses tr bytes names = concat (map (access_at tr bytes names) (located_nodes [] tr))"

definition node_span_in :: "ast_tree \<Rightarrow> ts_node \<Rightarrow> span" where
  "node_span_in t n = \<lparr>sp_source = at_source t, sp_bytes = range_of n\<rparr>"

text \<open>The key of the writes to an array: the function, and the cell key up to its bracket.\<close>

definition array_key :: "access_site \<Rightarrow> u32 \<times> string" where
  "array_key s = (as_fn_id s, takeWhile (\<lambda>c. c \<noteq> CHR ''['') (as_cell_key s))"

definition earlier_write :: "u32 \<Rightarrow> access_site \<Rightarrow> access_site option \<Rightarrow> access_site option" where
  "earlier_write read_lo w best =
     (if ts_start (as_subscript_node w) < read_lo \<and>
         (case best of None \<Rightarrow> True | Some b \<Rightarrow> ts_start (as_subscript_node w) < ts_start (as_subscript_node b))
      then Some w else best)"

definition earliest_writer :: "access_site list \<Rightarrow> access_site \<Rightarrow> access_site option" where
  "earliest_writer sites read =
     fold (earlier_write (ts_start (as_subscript_node read)))
       (filter (\<lambda>w. as_is_write w \<and> array_key w = array_key read) sites) None"

definition first_read_report :: "ast_tree \<Rightarrow> access_site \<Rightarrow> diagnostic" where
  "first_read_report t r =
     error_diagnostic ''groupshared-first-read-without-barrier'' (at_source t) (range_of (as_subscript_node r))
       (''groupshared read of `'' @ as_cell_key r @
        ''` is not separated by `GroupMemoryBarrier*` from a prior '' @
        ''write to the same array on this CFG path; cross-lane reads '' @
        ''are unordered without a barrier and produce undefined '' @
        ''values once the workgroup spans more than one wave'') []"

definition check_read :: "ast_tree \<Rightarrow> flow_view \<Rightarrow> access_site list \<Rightarrow> access_site \<Rightarrow> diagnostic list" where
  "check_read t cfg sites r =
     (if as_is_write r then []
      else case earliest_writer sites r of
             None \<Rightarrow> []
           | Some w \<Rightarrow>
               (if barrier_separates_spans cfg (node_span_in t (as_subscript_node w)) (node_span_in t (as_subscript_node r))
                then [] else [first_read_report t r]))"

definition first_read_check :: "ast_tree \<Rightarrow> flow_view \<Rightarrow> diagnostic list" where
  "first_read_check t cfg =
     (let names = collect_groupshared_names (at_root t) (at_bytes t) in
      if names = {} then []
      else let sites = scan_accesses (at_root t) (at_bytes t) names in
           if length sites < 2 then [] else concat (map (check_read t cfg sites) sites))"

section \<open>An overwrite before a barrier\<close>

record write_site =
  ws_cell_key :: string
  ws_assign_node :: ts_node
  ws_lhs_subscript_node :: ts_node
  ws_receiver :: string
  ws_enclosing_function_id :: u32

definition write_at :: "ts_node \<Rightarrow> string \<Rightarrow> string set \<Rightarrow> node_path \<times> ts_node \<Rightarrow> write_site list" where
  "write_at tr bytes names = (\<lambda>(p, n).
     if ts_kind n = ''assignment_expression''
     then (case child_by_field n ''left'' of
             None \<Rightarrow> []
           | Some lhs \<Rightarrow>
               (if is_shared_cell bytes names lhs
                then [\<lparr>ws_cell_key = cell_key_of bytes lhs, ws_assign_node = n, ws_lhs_subscript_node = lhs,
                       ws_receiver = node_text (subscript_receiver lhs) bytes,
                       ws_enclosing_function_id = enclosing_function_key tr p\<rparr>]
                else []))
     else [])"

definition scan_writes :: "ts_node \<Rightarrow> string \<Rightarrow> string set \<Rightarrow> write_site list" where
  "scan_writes tr bytes names = concat (map (write_at tr bytes names) (located_nodes [] tr))"

definition overwrite_report :: "ast_tree \<Rightarrow> write_site \<Rightarrow> diagnostic" where
  "overwrite_report t prev =
     rule_diagnostic ''groupshared-overwrite-before-barrier'' (at_source t) (range_of (ws_assign_node prev))
       (''groupshared write to `'' @ ws_cell_key prev @
        ''` is overwritten on the same path with no intervening '' @
        ''`GroupMemoryBarrier*` -- the first store is unobservable '' @
        ''to other threads; delete it or insert a barrier'') []"

abbreviation cell_id :: "write_site \<Rightarrow> u32 \<times> string" where
  "cell_id w \<equiv> (ws_enclosing_function_id w, ws_cell_key w)"

definition overwrites :: "ast_tree \<Rightarrow> flow_view \<Rightarrow> write_site \<Rightarrow> write_site \<Rightarrow> bool" where
  "overwrites t cfg prev w \<longleftrightarrow>
     \<not> barrier_separates_spans cfg (node_span_in t (ws_lhs_subscript_node prev)) (node_span_in t (ws_lhs_subscript_node w))"

fun overwrite_loop :: "ast_tree \<Rightarrow> flow_view \<Rightarrow> write_site list \<Rightarrow> (u32 \<times> string \<rightharpoonup> write_site) \<Rightarrow> diagnostic list" where
  "overwrite_loop t cfg [] last_write = []"
| "overwrite_loop t cfg (w # sites) last_write =
     (case last_write (cell_id w) of
        None \<Rightarrow> []
      | Some prev \<Rightarrow> if overwrites t cfg prev w then [overwrite_report t prev] else []) @
     overwrite_loop t cfg sites (last_write(cell_id w \<mapsto> w))"

definition overwrite_check :: "ast_tree \<Rightarrow> flow_view \<Rightarrow> diagnostic list" where
  "overwrite_check t cfg =
     (let names = collect_groupshared_names (at_root t) (at_bytes t) in
      if names = {} then []
      else let sites = scan_writes (at_root t) (at_bytes t) names in
           if length sites < 2 then [] else overwrite_loop t cfg sites Map.empty)"

section \<open>A write and a read without a barrier\<close>

text \<open>The declared names, from the text alone.\<close>

definition name_before :: "string \<Rightarrow> nat \<Rightarrow> nat \<Rightarrow> nat \<times> nat" where
  "name_before bytes i boundary =
     (let declared = substr bytes i (boundary - i);
          trimmed = rev (dropWhile (\<lambda>c. c = CHR '' '' \<or> c = tab_char) (rev declared));
          name = rev (takeWhile is_id_char (rev trimmed));
          name_end = i + length trimmed
      in (name_end - length name, name_end))"

function scan_names :: "string \<Rightarrow> nat \<Rightarrow> (nat \<times> nat) list" where
  "scan_names bytes pos =
     (if pos \<ge> length bytes then []
      else case find_text bytes ''groupshared'' pos of
             None \<Rightarrow> []
           | Some found \<Rightarrow>
               (if found > 0 \<and> is_id_char (bytes ! (found - 1)) then scan_names bytes (found + 1)
                else let i = found + length ''groupshared'' in
                     if i < length bytes \<and> is_id_char (bytes ! i) then scan_names bytes i
                     else let boundary = skip_while (\<lambda>c. c \<noteq> CHR '';'' \<and> c \<noteq> CHR ''['' \<and> c \<noteq> CHR ''{'') bytes i;
                              (name_start, name_end) = name_before bytes i boundary
                          in (if name_end > name_start then [(name_start, name_end)] else []) @ scan_names bytes boundary))"
  by pat_completeness auto
termination
proof (relation "measure (\<lambda>(bytes, pos). Suc (length bytes) - pos)", goal_cases)
  case 1
  show ?case by simp
next
  case (2 bytes pos found)
  have "pos \<le> found" using find_text_bounds 2(2) by blast
  then show ?case using 2(1) by simp
next
  case (3 bytes pos found i)
  have "pos < i" using find_text_bounds [OF 3(2)] 3(4) by simp
  then show ?case using 3(1) by simp
next
  case (4 bytes pos found i boundary x name_start name_end)
  have "pos < i" using find_text_bounds [OF 4(2)] 4(4) by simp
  moreover have "i \<le> boundary" using 4(6) skip_while_ge by simp
  ultimately show ?case using 4(1) by simp
qed

declare scan_names.simps [simp del]

definition collect_gs_names :: "string \<Rightarrow> string list" where
  "collect_gs_names bytes = map (\<lambda>(a, b). substr bytes a (b - a)) (scan_names bytes 0)"

record gs_access =
  ga_node :: ts_node
  ga_is_write :: bool

text \<open>The first child of an assignment is taken for its target.\<close>

fun collect_gs_accesses :: "string \<Rightarrow> string list \<Rightarrow> ts_node \<Rightarrow> bool \<Rightarrow> gs_access list" where
  "collect_gs_accesses bytes names (Ts_Node k nm lo hi cs) parent_is_lhs =
     (let n = Ts_Node k nm lo hi cs;
          recv = (case named_children n of [] \<Rightarrow> None | c # _ \<Rightarrow> Some c)
      in (if k = ''subscript_expression'' \<and> node_text recv bytes \<in> set names
          then [\<lparr>ga_node = n, ga_is_write = parent_is_lhs\<rparr>] else []) @
         (case cs of
            [] \<Rightarrow> []
          | (f, c) # rest \<Rightarrow>
              collect_gs_accesses bytes names c (k = ''assignment_expression'') @
              concat (map (\<lambda>(f, c). collect_gs_accesses bytes names c False) rest)))"

definition write_read_report :: "ast_tree \<Rightarrow> gs_access \<Rightarrow> diagnostic" where
  "write_read_report t r =
     rule_diagnostic ''groupshared-write-then-no-barrier-read'' (at_source t) (range_of (ga_node r))
       (''groupshared read after a cross-thread write with no '' @
        ''GroupMemoryBarrier* between them -- the reader may observe '' @
        ''stale or partially-updated values; UB per the HLSL memory model'')
       [suggestion
         (''insert `GroupMemoryBarrierWithGroupSync()` between the '' @
          ''writer and the reader; without it the LDS visibility is implementation-defined'')]"

fun write_read_loop :: "ast_tree \<Rightarrow> flow_view \<Rightarrow> gs_access list \<Rightarrow> diagnostic list" where
  "write_read_loop t cfg [] = []"
| "write_read_loop t cfg (w # accesses) =
     (if ga_is_write w
      then (case find (\<lambda>r. \<not> ga_is_write r \<and>
                \<not> barrier_separates_spans cfg (node_span_in t (ga_node w)) (node_span_in t (ga_node r))) accesses of
              None \<Rightarrow> []
            | Some r \<Rightarrow> [write_read_report t r])
      else []) @ write_read_loop t cfg accesses"

definition write_read_check :: "ast_tree \<Rightarrow> flow_view \<Rightarrow> diagnostic list" where
  "write_read_check t cfg =
     (let names = collect_gs_names (at_bytes t) in
      if names = [] then [] else write_read_loop t cfg (collect_gs_accesses (at_bytes t) names (at_root t) False))"

section \<open>Two rules that wait for an analysis\<close>

definition uninitialized_read_check :: "ast_tree \<Rightarrow> flow_view \<Rightarrow> diagnostic list" where
  "uninitialized_read_check t cfg =
     concat (map (\<lambda>(a, b).
       let decl = \<lparr>sp_source = at_source t, sp_bytes = \<lparr>bs_lo = u32_of a, bs_hi = u32_of b\<rparr>\<rparr> in
       if \<not> groupshared_read_before_write cfg decl then []
       else [rule_diagnostic ''groupshared-uninitialized-read'' (at_source t) (sp_bytes decl)
               (''groupshared cell read before any thread writes it on some '' @
                ''CFG path -- the cell's contents are undefined; either '' @
                ''initialise unconditionally before the first read, or gate '' @
                ''the read on a barrier-synchronised writer'')
               [suggestion
                 (''initialise the groupshared cell at thread-0 (gated by '' @
                  ''tid.x == 0) followed by a `GroupMemoryBarrierWithGroupSync` before any read'')]])
       (scan_names (at_bytes t) 0))"

definition dead_store_at :: "ast_tree \<Rightarrow> flow_view \<Rightarrow> string set \<Rightarrow> ts_node \<Rightarrow> diagnostic list" where
  "dead_store_at t cfg names n =
     (if ts_kind n = ''assignment_expression''
      then (case child_by_field n ''left'' of
              None \<Rightarrow> []
            | Some lhs \<Rightarrow>
                (if is_shared_cell (at_bytes t) names lhs \<and> dead_store cfg (node_span_in t lhs)
                 then [rule_diagnostic ''groupshared-dead-store'' (at_source t) (range_of n)
                         (''write to groupshared cell `'' @ node_text (subscript_receiver lhs) (at_bytes t) @
                          ''` is dead -- no reachable read on any CFG path; remove '' @
                          ''the store (and possibly the LDS allocation) to recover '' @
                          ''LDS bandwidth and occupancy budget'') []]
                 else []))
      else [])"

definition dead_store_check :: "ast_tree \<Rightarrow> flow_view \<Rightarrow> diagnostic list" where
  "dead_store_check t cfg =
     (let names = collect_groupshared_names (at_root t) (at_bytes t) in
      if names = {} then [] else concat (map (dead_store_at t cfg names) (preorder (at_root t))))"

section \<open>The rules\<close>

definition flow_rule :: "string \<Rightarrow> (ast_tree \<Rightarrow> 'c \<Rightarrow> diagnostic list) \<Rightarrow> (unit, 'r, 'c, 'i) rule" where
  "flow_rule i check =
     (default_rule i ())\<lparr>rl_stage := Stage_Control_Flow, rl_on_cfg := (\<lambda>view t cfg s. (s, check t cfg))\<rparr>"

definition groupshared_first_read_without_barrier :: "(unit, 'r, flow_view, 'i) rule" where
  "groupshared_first_read_without_barrier = flow_rule ''groupshared-first-read-without-barrier'' first_read_check"

definition groupshared_overwrite_before_barrier :: "(unit, 'r, flow_view, 'i) rule" where
  "groupshared_overwrite_before_barrier = flow_rule ''groupshared-overwrite-before-barrier'' overwrite_check"

definition groupshared_write_then_no_barrier_read :: "(unit, 'r, flow_view, 'i) rule" where
  "groupshared_write_then_no_barrier_read = flow_rule ''groupshared-write-then-no-barrier-read'' write_read_check"

definition groupshared_uninitialized_read :: "(unit, 'r, flow_view, 'i) rule" where
  "groupshared_uninitialized_read = flow_rule ''groupshared-uninitialized-read'' uninitialized_read_check"

definition groupshared_dead_store :: "(unit, 'r, flow_view, 'i) rule" where
  "groupshared_dead_store = flow_rule ''groupshared-dead-store'' dead_store_check"

section \<open>What is reported\<close>

lemma earliest_writer_None:
  "earliest_writer sites r = None \<longleftrightarrow>
     \<not> list_ex (\<lambda>w. as_is_write w \<and> array_key w = array_key r \<and>
       ts_start (as_subscript_node w) < ts_start (as_subscript_node r)) sites"
proof -
  let ?lo = "ts_start (as_subscript_node r)"
  have "fold (earlier_write ?lo) ws best = None \<longleftrightarrow> best = None \<and> (\<forall>w \<in> set ws. \<not> ts_start (as_subscript_node w) < ?lo)" for ws best
    by (induction ws arbitrary: best) (auto simp: earlier_write_def split: option.splits)
  then show ?thesis by (auto simp: earliest_writer_def list_ex_iff)
qed

text \<open>The write the fold keeps is the first of those that start at the smallest offset.\<close>

lemma earliest_writer_Some:
  assumes "earliest_writer sites r = Some w"
  shows "w \<in> set sites \<and> as_is_write w \<and> array_key w = array_key r \<and>
     ts_start (as_subscript_node w) < ts_start (as_subscript_node r) \<and>
     list_all (\<lambda>v. as_is_write v \<and> array_key v = array_key r \<longrightarrow> ts_start (as_subscript_node w) \<le> ts_start (as_subscript_node v)) sites"
proof -
  let ?lo = "ts_start (as_subscript_node r)" and ?s = "\<lambda>w. ts_start (as_subscript_node w)"
  have "fold (earlier_write ?lo) ws best = Some w \<Longrightarrow>
      (best = Some w \<or> w \<in> set ws \<and> ?s w < ?lo) \<and> (\<forall>b. best = Some b \<longrightarrow> ?s w \<le> ?s b) \<and>
      (\<forall>v \<in> set ws. ?s v < ?lo \<longrightarrow> ?s w \<le> ?s v)" for ws best
  proof (induction ws arbitrary: best)
    case (Cons v ws)
    then have IH: "(earlier_write ?lo v best = Some w \<or> w \<in> set ws \<and> ?s w < ?lo)"
      "\<And>b. earlier_write ?lo v best = Some b \<Longrightarrow> ?s w \<le> ?s b" "\<forall>v \<in> set ws. ?s v < ?lo \<longrightarrow> ?s w \<le> ?s v"
      by auto
    then show ?case by (auto simp: earlier_write_def not_less split: option.splits if_splits intro: order_trans)
  qed simp
  from this [of "filter (\<lambda>w. as_is_write w \<and> array_key w = array_key r) sites" None] assms
  have "w \<in> set sites" "as_is_write w" "array_key w = array_key r" "?s w < ?lo"
    "\<And>v. v \<in> set sites \<Longrightarrow> as_is_write v \<Longrightarrow> array_key v = array_key r \<Longrightarrow> ?s v < ?lo \<Longrightarrow> ?s w \<le> ?s v"
    by (auto simp: earliest_writer_def)
  then show ?thesis by (fastforce simp: list_all_iff)
qed

lemma no_shared_names: "scan_accesses tr bytes {} = []" "scan_writes tr bytes {} = []"
  by (auto simp: scan_accesses_def scan_writes_def access_at_def write_at_def is_shared_cell_def split: prod.splits option.splits)

lemma check_read_single: "length sites < 2 \<Longrightarrow> concat (map (check_read t cfg sites) sites) = []"
proof (cases sites)
  case (Cons s ss)
  assume "length sites < 2"
  with Cons have "sites = [s]" by simp
  moreover have "earliest_writer [s] s = None" unfolding earliest_writer_None by simp
  ultimately show ?thesis by (simp add: check_read_def)
qed simp

lemma first_read_sites:
  "first_read_check t cfg =
     (let sites = scan_accesses (at_root t) (at_bytes t) (collect_groupshared_names (at_root t) (at_bytes t))
      in concat (map (check_read t cfg sites) sites))"
  by (auto simp: first_read_check_def Let_def no_shared_names check_read_single)

lemma unsynchronised_reads:
  assumes "\<And>a b. \<not> barrier_separates_spans cfg a b"
  shows "first_read_check t cfg =
     (let sites = scan_accesses (at_root t) (at_bytes t) (collect_groupshared_names (at_root t) (at_bytes t))
      in map (first_read_report t) (filter (\<lambda>r. \<not> as_is_write r \<and>
           list_ex (\<lambda>w. as_is_write w \<and> array_key w = array_key r \<and>
             ts_start (as_subscript_node w) < ts_start (as_subscript_node r)) sites) sites))"
proof -
  have "concat (map (check_read t cfg sites) rs) =
      map (first_read_report t) (filter (\<lambda>r. \<not> as_is_write r \<and> \<not> (earliest_writer sites r = None)) rs)" for sites rs
    using assms by (induction rs) (auto simp: check_read_def split: option.splits)
  then show ?thesis by (simp only: first_read_sites Let_def earliest_writer_None not_not)
qed

text \<open>Scanning the writes with the last write to every cell pairs each write with the next one to its cell.\<close>

lemma overwrite_loop_set:
  "set (overwrite_loop t cfg sites prior) =
     {overwrite_report t a | a. (\<exists>pre b post. sites = pre @ b # post \<and> prior (cell_id b) = Some a \<and> overwrites t cfg a b \<and>
        (\<forall>c \<in> set pre. cell_id c \<noteq> cell_id b)) \<or>
       (\<exists>xs ys b zs. sites = xs @ a # ys @ b # zs \<and> cell_id a = cell_id b \<and> overwrites t cfg a b \<and>
        (\<forall>c \<in> set ys. cell_id c \<noteq> cell_id b))}"
  (is "_ = ?R sites prior")
proof (induction sites arbitrary: prior)
  case (Cons w sites)
  let ?now = "case prior (cell_id w) of None \<Rightarrow> [] | Some prev \<Rightarrow> if overwrites t cfg prev w then [overwrite_report t prev] else []"
  have "set ?now = {overwrite_report t a | a. prior (cell_id w) = Some a \<and> overwrites t cfg a w}"
    by (cases "prior (cell_id w)") auto
  then have IH: "set (overwrite_loop t cfg (w # sites) prior) =
      {overwrite_report t a | a. prior (cell_id w) = Some a \<and> overwrites t cfg a w} \<union> ?R sites (prior(cell_id w \<mapsto> w))"
    using Cons.IH by simp
  show ?case
  proof (intro equalityI subsetI)
    fix d assume "d \<in> set (overwrite_loop t cfg (w # sites) prior)"
    then consider (now) a where "prior (cell_id w) = Some a" "overwrites t cfg a w" "d = overwrite_report t a"
      | (kept) a pre b post where "d = overwrite_report t a" "sites = pre @ b # post" "overwrites t cfg a b"
          "(prior(cell_id w \<mapsto> w)) (cell_id b) = Some a" "\<forall>c \<in> set pre. cell_id c \<noteq> cell_id b"
      | (later) a xs ys b zs where "d = overwrite_report t a" "sites = xs @ a # ys @ b # zs" "cell_id a = cell_id b"
          "overwrites t cfg a b" "\<forall>c \<in> set ys. cell_id c \<noteq> cell_id b"
      unfolding IH by blast
    then show "d \<in> ?R (w # sites) prior"
    proof cases
      case now
      have "w # sites = [] @ w # sites" by simp
      then show ?thesis using now by fastforce
    next
      case kept
      show ?thesis
      proof (cases "cell_id b = cell_id w")
        case True
        then have "w # sites = [] @ a # pre @ b # post" "cell_id a = cell_id b" using kept by auto
        then show ?thesis using kept(1,3,5) by blast
      next
        case False
        then have "w # sites = (w # pre) @ b # post" "prior (cell_id b) = Some a" "\<forall>c \<in> set (w # pre). cell_id c \<noteq> cell_id b"
          using kept by auto
        then show ?thesis using kept(1,3) by blast
      qed
    next
      case later
      then have "w # sites = (w # xs) @ a # ys @ b # zs" by simp
      then show ?thesis using later by blast
    qed
  next
    fix d assume "d \<in> ?R (w # sites) prior"
    then consider (before) a pre b post where "d = overwrite_report t a" "w # sites = pre @ b # post" "prior (cell_id b) = Some a"
          "overwrites t cfg a b" "\<forall>c \<in> set pre. cell_id c \<noteq> cell_id b"
      | (pair) a xs ys b zs where "d = overwrite_report t a" "w # sites = xs @ a # ys @ b # zs" "cell_id a = cell_id b"
          "overwrites t cfg a b" "\<forall>c \<in> set ys. cell_id c \<noteq> cell_id b"
      by blast
    then show "d \<in> set (overwrite_loop t cfg (w # sites) prior)"
    proof cases
      case before
      show ?thesis
      proof (cases pre)
        case Nil
        then show ?thesis unfolding IH using before by auto
      next
        case (Cons p pre')
        then have "sites = pre' @ b # post" "(prior(cell_id w \<mapsto> w)) (cell_id b) = Some a" "\<forall>c \<in> set pre'. cell_id c \<noteq> cell_id b"
          using before by auto
        then show ?thesis unfolding IH using before(1,4) by blast
      qed
    next
      case pair
      show ?thesis
      proof (cases xs)
        case Nil
        then have "sites = ys @ b # zs" "(prior(cell_id w \<mapsto> w)) (cell_id b) = Some a" using pair by auto
        then show ?thesis unfolding IH using pair(1,4,5) by blast
      next
        case (Cons p xs')
        then have "sites = xs' @ a # ys @ b # zs" using pair by simp
        then show ?thesis unfolding IH using pair(1,3,4,5) by blast
      qed
    qed
  qed
qed simp

lemma overwrite_sites:
  "overwrite_check t cfg =
     overwrite_loop t cfg (scan_writes (at_root t) (at_bytes t) (collect_groupshared_names (at_root t) (at_bytes t))) Map.empty"
proof -
  have "length sites < 2 \<Longrightarrow> overwrite_loop t cfg sites Map.empty = []" for sites
    by (cases sites; cases "tl sites") auto
  then show ?thesis by (auto simp: overwrite_check_def Let_def no_shared_names)
qed

lemma write_read_loop_set:
  "set (write_read_loop t cfg accesses) =
     {write_read_report t r | w r pre mid post. accesses = pre @ w # mid @ r # post \<and> ga_is_write w \<and> \<not> ga_is_write r \<and>
        \<not> barrier_separates_spans cfg (node_span_in t (ga_node w)) (node_span_in t (ga_node r)) \<and>
        list_all (\<lambda>m. ga_is_write m \<or>
          barrier_separates_spans cfg (node_span_in t (ga_node w)) (node_span_in t (ga_node m))) mid}"
  (is "_ = ?R accesses")
proof (induction accesses)
  case (Cons w accesses)
  let ?P = "\<lambda>r. \<not> ga_is_write r \<and> \<not> barrier_separates_spans cfg (node_span_in t (ga_node w)) (node_span_in t (ga_node r))"
  have found: "find ?P as = Some r \<longleftrightarrow> (\<exists>mid post. as = mid @ r # post \<and> ?P r \<and> list_all (\<lambda>m. \<not> ?P m) mid)" for as r
  proof (induction as)
    case (Cons a as)
    show ?case
    proof
      assume f: "find ?P (a # as) = Some r"
      show "\<exists>mid post. a # as = mid @ r # post \<and> ?P r \<and> list_all (\<lambda>m. \<not> ?P m) mid"
      proof (cases "?P a")
        case True
        then have "a # as = [] @ r # as \<and> ?P r \<and> list_all (\<lambda>m. \<not> ?P m) []" using f by simp
        then show ?thesis by blast
      next
        case False
        then obtain mid post where "as = mid @ r # post" "?P r" "list_all (\<lambda>m. \<not> ?P m) mid" using f Cons by auto
        then have "a # as = (a # mid) @ r # post \<and> ?P r \<and> list_all (\<lambda>m. \<not> ?P m) (a # mid)" using False by simp
        then show ?thesis by blast
      qed
    next
      assume "\<exists>mid post. a # as = mid @ r # post \<and> ?P r \<and> list_all (\<lambda>m. \<not> ?P m) mid"
      then show "find ?P (a # as) = Some r" using Cons by (auto simp: Cons_eq_append_conv)
    qed
  qed simp
  have "set (write_read_loop t cfg (w # accesses)) =
      {write_read_report t r | r. ga_is_write w \<and> find ?P accesses = Some r} \<union> set (write_read_loop t cfg accesses)"
  proof -
    have "d \<in> set (if ga_is_write w then (case f of None \<Rightarrow> [] | Some r \<Rightarrow> [write_read_report t r]) else []) \<longleftrightarrow>
        (\<exists>r. d = write_read_report t r \<and> ga_is_write w \<and> f = Some r)" for d f
      by (cases f; cases "ga_is_write w") simp_all
    then show ?thesis by (simp only: write_read_loop.simps set_append) blast
  qed
  also have "\<dots> = {write_read_report t r | r. ga_is_write w \<and> find ?P accesses = Some r} \<union> ?R accesses"
    by (simp only: Cons.IH)
  also have "\<dots> = ?R (w # accesses)"
  proof (intro equalityI subsetI)
    fix d assume "d \<in> {write_read_report t r | r. ga_is_write w \<and> find ?P accesses = Some r} \<union> ?R accesses"
    then show "d \<in> ?R (w # accesses)"
    proof
      assume "d \<in> {write_read_report t r | r. ga_is_write w \<and> find ?P accesses = Some r}"
      then obtain r mid post where r: "d = write_read_report t r" "ga_is_write w" "accesses = mid @ r # post" "?P r"
        "list_all (\<lambda>m. \<not> ?P m) mid" unfolding found by blast
      have "w # accesses = [] @ w # mid @ r # post" using r(3) by simp
      moreover have "list_all (\<lambda>m. ga_is_write m \<or>
          barrier_separates_spans cfg (node_span_in t (ga_node w)) (node_span_in t (ga_node m))) mid"
        using r(5) by (simp add: list_all_iff)
      ultimately show ?thesis using r(1,2,4) by blast
    next
      assume "d \<in> ?R accesses"
      then obtain v r pre mid post where r: "d = write_read_report t r" "accesses = pre @ v # mid @ r # post" "ga_is_write v"
        "\<not> ga_is_write r" "\<not> barrier_separates_spans cfg (node_span_in t (ga_node v)) (node_span_in t (ga_node r))"
        "list_all (\<lambda>m. ga_is_write m \<or>
          barrier_separates_spans cfg (node_span_in t (ga_node v)) (node_span_in t (ga_node m))) mid" by blast
      have "w # accesses = (w # pre) @ v # mid @ r # post" using r(2) by simp
      then show ?thesis using r(1,3-6) by blast
    qed
  next
    fix d assume "d \<in> ?R (w # accesses)"
    then obtain v r pre mid post where r: "d = write_read_report t r" "w # accesses = pre @ v # mid @ r # post" "ga_is_write v"
      "\<not> ga_is_write r" "\<not> barrier_separates_spans cfg (node_span_in t (ga_node v)) (node_span_in t (ga_node r))"
      "list_all (\<lambda>m. ga_is_write m \<or>
        barrier_separates_spans cfg (node_span_in t (ga_node v)) (node_span_in t (ga_node m))) mid" by blast
    show "d \<in> {write_read_report t r | r. ga_is_write w \<and> find ?P accesses = Some r} \<union> ?R accesses"
    proof (cases pre)
      case Nil
      then have "v = w" "accesses = mid @ r # post" using r(2) by simp_all
      then have "find ?P accesses = Some r" unfolding found using r(4-6) by (auto simp: list_all_iff)
      then show ?thesis using r(1,3) \<open>v = w\<close> by blast
    next
      case (Cons p pre')
      then have "accesses = pre' @ v # mid @ r # post" using r(2) by simp
      then show ?thesis using r(1,3-6) by blast
    qed
  qed
  finally show ?case .
qed simp

section \<open>Properties\<close>

text \<open>A read of a shared array is reported exactly when its function writes the array before it, at any index, and the
  graph sees no barrier between the first of these writes and the read.\<close>

theorem first_reads_exact:
  "set (first_read_check t cfg) =
     (let sites = scan_accesses (at_root t) (at_bytes t) (collect_groupshared_names (at_root t) (at_bytes t))
      in {first_read_report t r | r w. r \<in> set sites \<and> \<not> as_is_write r \<and> earliest_writer sites r = Some w \<and>
            \<not> barrier_separates_spans cfg (node_span_in t (as_subscript_node w)) (node_span_in t (as_subscript_node r))})"
  by (force simp: first_read_sites Let_def check_read_def split: option.splits if_splits)

text \<open>With the graphs the engine builds, barriers do not count: a read of a shared array gets an error exactly when
  its function writes the array before it, with a barrier in between or not, for sources without nested functions; the rule
  is documented to be silent after a barrier.\<close>

theorem first_reads_ignore_barriers:
  assumes "build_entry has_error source tree bytes = Some entry" and "list_all no_nested (collect_functions tree)"
  shows "first_read_check t (view_of (ce_info entry)) =
     (let sites = scan_accesses (at_root t) (at_bytes t) (collect_groupshared_names (at_root t) (at_bytes t))
      in map (first_read_report t) (filter (\<lambda>r. \<not> as_is_write r \<and>
           list_ex (\<lambda>w. as_is_write w \<and> array_key w = array_key r \<and>
             ts_start (as_subscript_node w) < ts_start (as_subscript_node r)) sites) sites))"
  using unsynchronised_reads built_unseparated [OF assms] by blast

text \<open>A write to a shared cell is reported exactly when its function writes the cell again, under the same index text,
  and the graph sees no barrier between the write and the next one.\<close>

theorem overwrites_exact:
  "set (overwrite_check t cfg) =
     {overwrite_report t a | a b xs ys zs.
        scan_writes (at_root t) (at_bytes t) (collect_groupshared_names (at_root t) (at_bytes t)) = xs @ a # ys @ b # zs \<and>
        cell_id a = cell_id b \<and> overwrites t cfg a b \<and> list_all (\<lambda>c. cell_id c \<noteq> cell_id b) ys}"
  unfolding overwrite_sites overwrite_loop_set by (simp add: list_all_iff) blast

text \<open>A write to a shared array is charged to the first access after it, in the order of the text, that reads a shared
  array and that the graph sees no barrier before: whatever array is read, at whatever index, and in whatever function.\<close>

theorem write_read_exact:
  "set (write_read_check t cfg) =
     {write_read_report t r | w r pre mid post.
        collect_gs_accesses (at_bytes t) (collect_gs_names (at_bytes t)) (at_root t) False = pre @ w # mid @ r # post \<and>
        ga_is_write w \<and> \<not> ga_is_write r \<and>
        \<not> barrier_separates_spans cfg (node_span_in t (ga_node w)) (node_span_in t (ga_node r)) \<and>
        list_all (\<lambda>m. ga_is_write m \<or>
          barrier_separates_spans cfg (node_span_in t (ga_node w)) (node_span_in t (ga_node m))) mid}"
proof -
  have "collect_gs_accesses bytes [] n b = []" for bytes n b
    by (induction bytes "[] :: string list" n b rule: collect_gs_accesses.induct) (auto split: list.splits)
  then have "write_read_check t cfg =
      write_read_loop t cfg (collect_gs_accesses (at_bytes t) (collect_gs_names (at_bytes t)) (at_root t) False)"
    by (simp add: write_read_check_def Let_def)
  then show ?thesis by (simp only: write_read_loop_set)
qed

text \<open>The two queries of the other rules answer no to everything, so these rules report nothing.\<close>

theorem waiting_rules_silent: "uninitialized_read_check t cfg = []" "dead_store_check t cfg = []"
proof -
  show "uninitialized_read_check t cfg = []"
    by (auto simp: uninitialized_read_check_def groupshared_read_before_write_def)
  have "dead_store_at t cfg names n = []" for names n
    by (simp add: dead_store_at_def dead_store_def split: option.splits)
  then show "dead_store_check t cfg = []" by (simp add: dead_store_check_def Let_def)
qed

text \<open>A read that a barrier separates from the write gets an error.\<close>

abbreviation synced_source :: ast_tree where
  "synced_source \<equiv> \<lparr>at_root = synced_tree, at_language = Tree_Sitter_Hlsl, at_bytes = synced_text, at_source = \<lparr>sid_value = 1\<rparr>\<rparr>"

theorem synchronised_read_reported:
  "\<exists>entry. build_entry (\<lambda>_. False) \<lparr>sid_value = 1\<rparr> synced_tree synced_text = Some entry \<and>
     map (\<lambda>d. (dg_severity d, sp_bytes (dg_primary_span d))) (first_read_check synced_source (view_of (ce_info entry))) =
       [(Error, \<lparr>bs_lo = 61, bs_hi = 65\<rparr>)]"
proof -
  obtain entry where entry: "build_entry (\<lambda>_. False) \<lparr>sid_value = 1\<rparr> synced_tree synced_text = Some entry"
    using build_entry_total by metis
  have "map (\<lambda>d. (dg_severity d, sp_bytes (dg_primary_span d)))
      (let sites = scan_accesses (at_root synced_source) (at_bytes synced_source)
             (collect_groupshared_names (at_root synced_source) (at_bytes synced_source))
       in map (first_read_report synced_source) (filter (\<lambda>r. \<not> as_is_write r \<and>
            list_ex (\<lambda>w. as_is_write w \<and> array_key w = array_key r \<and>
              ts_start (as_subscript_node w) < ts_start (as_subscript_node r)) sites) sites)) =
      [(Error, \<lparr>bs_lo = 61, bs_hi = 65\<rparr>)]" by code_simp
  then show ?thesis using unsynchronised_reads [OF built_unseparated [OF entry synced_flat], of synced_source] entry by auto
qed

text \<open>Each of two writes is charged to the read, which belongs to another function: it is reported twice.\<close>

theorem foreign_read_reported_twice:
  "let body = (\<lambda>lo hi stmts. Ts_Node ''function_definition'' True lo hi [(Some ''body'', ex_node ''compound_statement'' (lo + 8) hi stmts)]);
       t = \<lparr>at_root = ex_node ''translation_unit'' 0 65
               [shared_decl,
                body 24 48 [ex_store 33 39 (ex_cell 33) (ex_node ''number_literal'' 38 39 []),
                            ex_store 40 46 (ex_cell 40) (ex_node ''number_literal'' 45 46 [])],
                body 48 65 [ex_store 57 63 (ex_node ''identifier'' 57 58 []) (ex_cell 59)]],
            at_language = Tree_Sitter_Hlsl,
            at_bytes = ''groupshared float g[64];void f(){g[i]=1;g[k]=2;}void h(){x=g[j];}'', at_source = \<lparr>sid_value = 1\<rparr>\<rparr>
   in map (\<lambda>d. sp_bytes (dg_primary_span d)) (write_read_check t \<lparr>fv_cfg = None, fv_uniformity = None\<rparr>) =
        [\<lparr>bs_lo = 59, bs_hi = 63\<rparr>, \<lparr>bs_lo = 59, bs_hi = 63\<rparr>] \<and>
      first_read_check t \<lparr>fv_cfg = None, fv_uniformity = None\<rparr> = [] \<and>
      overwrite_check t \<lparr>fv_cfg = None, fv_uniformity = None\<rparr> = []"
  by code_simp

theorem first_reads_ignore_barriers_witness:
  "\<exists>entry. build_entry (\<lambda>_. False) \<lparr>sid_value = 1\<rparr> synced_tree synced_text = Some entry \<and>
     first_read_check synced_source (view_of (ce_info entry)) =
       (let sites = scan_accesses synced_tree synced_text (collect_groupshared_names synced_tree synced_text)
        in map (first_read_report synced_source) (filter (\<lambda>r. \<not> as_is_write r \<and>
             list_ex (\<lambda>w. as_is_write w \<and> array_key w = array_key r \<and>
               ts_start (as_subscript_node w) < ts_start (as_subscript_node r)) sites) sites))"
proof -
  obtain entry where entry: "build_entry (\<lambda>_. False) \<lparr>sid_value = 1\<rparr> synced_tree synced_text = Some entry"
    using build_entry_total by metis
  from first_reads_ignore_barriers [OF entry synced_flat, of synced_source] entry show ?thesis by simp
qed

end
