(* ===== verification/Bindings.thy ===== *)
theory Bindings
  imports RuleKit
begin

text \<open>
  Rules of \<^verbatim>\<open>core/src/rules\<close> on what the reflection of a shader declares: constant buffers and their fields,
  resource bindings, entry points. They are loops over the reflected declarations with a test each, some of which search
  the text for the declared name.
\<close>

section \<open>Building a rule\<close>

definition reflect_rule ::
    "string \<Rightarrow> (ast_tree \<Rightarrow> reflection_info \<Rightarrow> diagnostic list) \<Rightarrow> (unit, reflection_info, 'c, 'i) rule" where
  "reflect_rule i check =
     (default_rule i ())\<lparr>rl_stage := Stage_Reflection, rl_on_reflection := (\<lambda>view t r s. (s, check t r))\<rparr>"

definition spanned :: "string \<Rightarrow> severity \<Rightarrow> span \<Rightarrow> string \<Rightarrow> fix_t list \<Rightarrow> diagnostic" where
  "spanned code sev sp message fixes =
     \<lparr>dg_code = code, dg_severity = sev, dg_primary_span = sp, dg_message = message, dg_fixes = fixes\<rparr>"

abbreviation number :: "u32 \<Rightarrow> string" where
  "number n \<equiv> to_decimal (unat n)"

definition contains_text :: "string \<Rightarrow> string \<Rightarrow> bool" where
  "contains_text s pattern \<longleftrightarrow> find_text s pattern 0 \<noteq> None"

definition starts_with :: "string \<Rightarrow> string \<Rightarrow> bool" where
  "starts_with s pre \<longleftrightarrow> take (length pre) s = pre"

text \<open>The declaration of a binding or buffer, or the start of the source where reflection has none.\<close>

definition declared_or_start :: "ast_tree \<Rightarrow> span \<Rightarrow> span" where
  "declared_or_start t sp =
     (if bs_hi (sp_bytes sp) > 0 then sp else \<lparr>sp_source = at_source t, sp_bytes = \<lparr>bs_lo = 0, bs_hi = 0\<rparr>\<rparr>)"

section \<open>Words in a text\<close>

text \<open>The loop several rules write out: \<open>find\<close> from a position, test both neighbours, go on one further.\<close>

function word_occurrences :: "string \<Rightarrow> string \<Rightarrow> nat \<Rightarrow> nat list" where
  "word_occurrences bytes name pos =
     (if pos > length bytes then []
      else case find_text bytes name pos of
             None \<Rightarrow> []
           | Some found \<Rightarrow>
               (if (found = 0 \<or> \<not> is_id_char (bytes ! (found - 1))) \<and>
                   (found + length name \<ge> length bytes \<or> \<not> is_id_char (bytes ! (found + length name)))
                then [found] else []) @ word_occurrences bytes name (found + 1))"
  by pat_completeness auto
termination
  by (relation "measure (\<lambda>(bytes, name, pos). Suc (length bytes) - pos)") (auto dest: find_text_bounds)

declare word_occurrences.simps [simp del]

definition is_word_at :: "string \<Rightarrow> string \<Rightarrow> nat \<Rightarrow> bool" where
  "is_word_at bytes name i \<longleftrightarrow>
     take (length name) (drop i bytes) = name \<and> i + length name \<le> length bytes \<and>
     (i = 0 \<or> \<not> is_id_char (bytes ! (i - 1))) \<and>
     (i + length name \<ge> length bytes \<or> \<not> is_id_char (bytes ! (i + length name)))"

lemma find_text_Some:
  assumes "find_text s pattern pos = Some i"
  shows "pos \<le> i \<and> take (length pattern) (drop i s) = pattern \<and> i + length pattern \<le> length s \<and>
     (\<forall>j. pos \<le> j \<and> j < i \<longrightarrow> take (length pattern) (drop j s) \<noteq> pattern)"
proof -
  let ?js = "[pos..<Suc (length s - length pattern)]"
  obtain k where k: "k < length ?js" "take (length pattern) (drop (?js ! k) s) = pattern" "i = ?js ! k"
    "\<forall>j < k. take (length pattern) (drop (?js ! j) s) \<noteq> pattern"
    using assms unfolding find_text_def find_Some_iff by blast
  have i: "i = pos + k" "pos \<le> i" "i \<le> length s - length pattern" using k(1,3) by (auto simp: nth_upt simp del: upt_Suc)
  have m: "take (length pattern) (drop i s) = pattern" using k(2,3) by simp
  have "length (take (length pattern) (drop i s)) = length pattern" using m by (rule arg_cong)
  then have "i + length pattern \<le> length s \<or> length pattern = 0" by (cases pattern) (auto simp: min_def split: if_splits)
  then have "i + length pattern \<le> length s" using i(3) by auto
  moreover have "take (length pattern) (drop j s) \<noteq> pattern" if "pos \<le> j" "j < i" for j
  proof -
    have "j - pos < k" using that i(1) by simp
    moreover from this have "?js ! (j - pos) = j" using that i k(1) by (simp add: nth_upt del: upt_Suc)
    ultimately show ?thesis using k(4) by auto
  qed
  ultimately show ?thesis using i m by blast
qed

lemma find_text_None:
  assumes "find_text s pattern pos = None" and "pos \<le> i" and "i + length pattern \<le> length s"
  shows "take (length pattern) (drop i s) \<noteq> pattern"
proof -
  have "i \<in> set [pos..<Suc (length s - length pattern)]" using assms(2,3) by (simp del: upt_Suc)
  then show ?thesis using assms(1) unfolding find_text_def find_None_iff by blast
qed

lemma set_word_occurrences: "set (word_occurrences bytes name pos) = {i. pos \<le> i \<and> is_word_at bytes name i}"
proof (induction bytes name pos rule: word_occurrences.induct)
  case (1 bytes name pos)
  consider (past) "pos > length bytes" | (no) "pos \<le> length bytes" "find_text bytes name pos = None"
    | (yes) found where "pos \<le> length bytes" "find_text bytes name pos = Some found" by fastforce
  then show ?case
  proof cases
    case past
    then show ?thesis by (subst word_occurrences.simps) (auto simp: is_word_at_def)
  next
    case no
    then show ?thesis by (subst word_occurrences.simps) (auto simp: is_word_at_def dest: find_text_None)
  next
    case yes
    note f = find_text_Some [OF yes(2)]
    have IH: "set (word_occurrences bytes name (found + 1)) = {i. found + 1 \<le> i \<and> is_word_at bytes name i}"
      using 1 yes by simp
    have "{i. pos \<le> i \<and> is_word_at bytes name i} =
        {i. i = found \<and> is_word_at bytes name i} \<union> {i. found + 1 \<le> i \<and> is_word_at bytes name i}"
      using f by (auto simp: is_word_at_def not_less_eq_eq)
    also have "{i. i = found \<and> is_word_at bytes name i} =
        set (if (found = 0 \<or> \<not> is_id_char (bytes ! (found - 1))) \<and>
           (found + length name \<ge> length bytes \<or> \<not> is_id_char (bytes ! (found + length name))) then [found] else [])"
      using f by (auto simp: is_word_at_def)
    finally show ?thesis using yes IH by (subst word_occurrences.simps) simp
  qed
qed

section \<open>Constant buffers\<close>

definition oversized_cbuffer_check :: "ast_tree \<Rightarrow> reflection_info \<Rightarrow> diagnostic list" where
  "oversized_cbuffer_check t reflection =
     concat (map (\<lambda>cb.
       if cl_total_bytes cb > 4096
       then [spanned ''oversized-cbuffer'' Warning (cl_declaration_span cb)
               (''cbuffer `'' @ cl_name cb @ ''` is '' @ number (cl_total_bytes cb) @ '' bytes (> '' @ number 4096 @
                ''-byte threshold) -- consider splitting or moving large arrays to a `StructuredBuffer`'') []]
       else []) (ri_cbuffers reflection))"

definition fits_rootconstants_check :: "ast_tree \<Rightarrow> reflection_info \<Rightarrow> diagnostic list" where
  "fits_rootconstants_check t reflection =
     concat (map (\<lambda>cb.
       if cl_total_bytes cb = 0 \<or> cl_total_bytes cb > 32 then []
       else [spanned ''cbuffer-fits-rootconstants'' Warning (cl_declaration_span cb)
               (''cbuffer `'' @ cl_name cb @ ''` is '' @ number (cl_total_bytes cb) @
                '' bytes -- fits in a D3D12 root-constant slot (<= 32 bytes / 8 DWORDs); '' @
                ''promote to root constants to skip the descriptor-table indirection'') []]) (ri_cbuffers reflection))"

definition fits_rootcbv_check :: "ast_tree \<Rightarrow> reflection_info \<Rightarrow> diagnostic list" where
  "fits_rootcbv_check t reflection =
     concat (map (\<lambda>cb.
       if cl_total_bytes cb \<le> 32 then []
       else if cl_total_bytes cb > 65536 then []
       else [spanned ''cbuffer-large-fits-rootcbv-not-table'' Warning (declared_or_start t (cl_declaration_span cb))
               (''cbuffer `'' @ cl_name cb @ ''` ('' @ number (cl_total_bytes cb) @
                '' bytes) is too large for root constants but well under the 64 KB '' @
                ''cbuffer limit -- consider binding as a root CBV to dodge the '' @
                ''descriptor-table indirection on every dispatch'') []]) (ri_cbuffers reflection))"

definition as_payload_check :: "ast_tree \<Rightarrow> reflection_info \<Rightarrow> diagnostic list" where
  "as_payload_check t reflection =
     (if \<not> contains_text (at_bytes t) ''\"amplification\"'' \<and> \<not> contains_text (at_bytes t) ''DispatchMesh'' then []
      else concat (map (\<lambda>cb.
        if cl_total_bytes cb \<le> 16384 then []
        else [spanned ''as-payload-over-16k'' Error (cl_declaration_span cb)
                (''struct `'' @ cl_name cb @ ''` is '' @ number (cl_total_bytes cb) @
                 '' bytes -- if used as an amplification-shader payload it exceeds the '' @
                 ''D3D12 16384-byte cap and PSO creation will return `E_INVALIDARG`'') []]) (ri_cbuffers reflection)))"

text \<open>Gaps between neighbouring fields; the end of a field wraps.\<close>

definition field_end :: "cbuffer_field \<Rightarrow> u32" where
  "field_end f = fl_byte_offset f + fl_byte_size f"

definition hole_report :: "cbuffer_layout \<Rightarrow> cbuffer_field \<Rightarrow> cbuffer_field \<Rightarrow> diagnostic" where
  "hole_report cb prev nxt =
     spanned ''cbuffer-padding-hole'' Warning (cl_declaration_span cb)
       (''cbuffer `'' @ cl_name cb @ ''` has a '' @ number (fl_byte_offset nxt - field_end prev) @
        ''-byte padding hole between fields `'' @ fl_name prev @ ''` and `'' @ fl_name nxt @
        ''` (offset '' @ number (field_end prev) @ ''..'' @ number (fl_byte_offset nxt) @
        '') -- reorder fields largest-to-smallest to reclaim cbuffer bandwidth'') []"

fun padding_holes :: "cbuffer_field list \<Rightarrow> (cbuffer_field \<times> cbuffer_field) list" where
  "padding_holes (prev # nxt # fs) =
     (if field_end prev < fl_byte_offset nxt then [(prev, nxt)] else []) @ padding_holes (nxt # fs)"
| "padding_holes fs = []"

definition padding_hole_check :: "ast_tree \<Rightarrow> reflection_info \<Rightarrow> diagnostic list" where
  "padding_hole_check t reflection =
     concat (map (\<lambda>cb. map (\<lambda>(prev, nxt). hole_report cb prev nxt) (padding_holes (cl_fields cb))) (ri_cbuffers reflection))"

definition type_is_16bit :: "string \<Rightarrow> bool" where
  "type_is_16bit type_name \<longleftrightarrow> starts_with type_name ''half'' \<or> starts_with type_name ''min16''"

definition min16float_roundtrip_check :: "ast_tree \<Rightarrow> reflection_info \<Rightarrow> diagnostic list" where
  "min16float_roundtrip_check t reflection =
     concat (map (\<lambda>cb. concat (map (\<lambda>f.
       if \<not> type_is_16bit (fl_type_name f) then []
       else [spanned ''min16float-in-cbuffer-roundtrip'' Note (cl_declaration_span cb)
               (''cbuffer field `'' @ cl_name cb @ ''.'' @ fl_name f @ ''` is `'' @ fl_type_name f @
                ''` -- without `-enable-16bit-types` the cbuffer load is promoted '' @
                ''to 32 bits, then converted back on every read; with the flag the '' @
                ''field stays at 16 bits but every load still pays a 32->16 cast'') []]) (cl_fields cb))) (ri_cbuffers reflection))"

definition type_is_bool :: "string \<Rightarrow> bool" where
  "type_is_bool type_name =
     (if type_name = [] then False
      else case find_text type_name ''bool'' 0 of
             None \<Rightarrow> False
           | Some pos \<Rightarrow>
               (if pos + 4 \<ge> length type_name then True
                else let c = type_name ! (pos + 4) in
                  c = CHR 0x00 \<or> c = CHR '' '' \<or> c = tab_char \<or> c = CHR ''['' \<or> (CHR ''1'' \<le> c \<and> c \<le> CHR ''4'')))"

definition bool_straddles :: "cbuffer_field \<Rightarrow> bool" where
  "bool_straddles f =
     (if \<not> type_is_bool (fl_type_name f) then False
      else let off_in_slot = fl_byte_offset f mod 16 in
        if off_in_slot = 0 then False
        else let end_in_slot = off_in_slot + fl_byte_size f in end_in_slot > 16 \<or> end_in_slot = 16)"

definition bool_straddles_check :: "ast_tree \<Rightarrow> reflection_info \<Rightarrow> diagnostic list" where
  "bool_straddles_check t reflection =
     concat (map (\<lambda>cb. concat (map (\<lambda>f.
       if \<not> bool_straddles f then []
       else [spanned ''bool-straddles-16b'' Error (cl_declaration_span cb)
               (''`bool` field `'' @ fl_name f @ ''` in cbuffer `'' @ cl_name cb @ ''` lands at offset '' @
                number (fl_byte_offset f) @ '' (in-slot byte '' @ number (fl_byte_offset f mod 16) @
                '') -- the layout is implementation-defined across `dxc` / `fxc` / '' @
                ''Slang; insert a `float` pad or reorder so the `bool` starts on a 16-byte slot'') []])
       (cl_fields cb))) (ri_cbuffers reflection))"

definition count_id_occurrences :: "string \<Rightarrow> string \<Rightarrow> byte_span \<Rightarrow> nat" where
  "count_id_occurrences bytes name exclude =
     (if name = [] then 0
      else length (filter (\<lambda>found. u32_of found < bs_lo exclude \<or> u32_of found \<ge> bs_hi exclude) (word_occurrences bytes name 0)))"

definition unused_field_report :: "cbuffer_layout \<Rightarrow> cbuffer_field \<Rightarrow> diagnostic" where
  "unused_field_report cb f =
     spanned ''unused-cbuffer-field'' Warning (cl_declaration_span cb)
       (''cbuffer field `'' @ cl_name cb @ ''.'' @ fl_name f @ ''` is declared but never read -- remove it or move it to a '' @
        ''different cbuffer to recover '' @ number (fl_byte_size f) @ '' bytes'') []"

definition unused_field_check :: "ast_tree \<Rightarrow> reflection_info \<Rightarrow> diagnostic list" where
  "unused_field_check t reflection =
     concat (map (\<lambda>cb. concat (map (\<lambda>f.
       if count_id_occurrences (at_bytes t) (fl_name f) (sp_bytes (cl_declaration_span cb)) \<noteq> 0 then []
       else [unused_field_report cb f]) (cl_fields cb))) (ri_cbuffers reflection))"

section \<open>Bindings\<close>

definition all_resources_bound_check :: "ast_tree \<Rightarrow> reflection_info \<Rightarrow> diagnostic list" where
  "all_resources_bound_check t reflection =
     (if length (ri_bindings reflection) < 4 then []
      else if contains_text (at_bytes t) ''RootSignature'' then []
      else let anchor = (case ri_bindings reflection of
                 [] \<Rightarrow> \<lparr>sp_source = at_source t, sp_bytes = \<lparr>bs_lo = 0, bs_hi = 0\<rparr>\<rparr>
               | b # _ \<Rightarrow> if \<not> byte_span_empty (sp_bytes (rb_declaration_span b)) then rb_declaration_span b
                          else \<lparr>sp_source = at_source t, sp_bytes = \<lparr>bs_lo = 0, bs_hi = 0\<rparr>\<rparr>)
        in [spanned ''all-resources-bound-not-set'' Note anchor
              (''shader declares '' @ to_decimal (length (ri_bindings reflection)) @
               '' resource bindings but no `[RootSignature(...)]` attribute is present -- '' @
               ''compiling with `-all-resources-bound` (D3D12) unlocks driver '' @
               ''optimisations that skip per-resource null-binding checks on every IHV'') []])"

definition bgra_check :: "ast_tree \<Rightarrow> reflection_info \<Rightarrow> diagnostic list" where
  "bgra_check t reflection =
     concat (map (\<lambda>b.
       if \<not> is_texture (rb_kind b) then []
       else if \<not> contains_text (rb_dxgi_format b) ''B8G8R8A8'' then []
       else [spanned ''bgra-rgba-swizzle-mismatch'' Warning
               \<lparr>sp_source = at_source t, sp_bytes = sp_bytes (rb_declaration_span b)\<rparr>
               (''binding `'' @ rb_name b @ ''` is a `B8G8R8A8`-channel-order texture; reads using `.rgba` '' @
                ''silently invert the red and blue channels -- audit the read '' @
                ''sites and switch to `.bgra` (or rebind as `R8G8B8A8`)'')
               [suggestion (''switch the shader read swizzle from `.rgba` to `.bgra` on '' @
                  ''every site that samples `'' @ rb_name b @
                  ''`, OR rebind the resource as `R8G8B8A8_UNORM` on the host side'')]]) (ri_bindings reflection))"

text \<open>Two views of what may be one resource: the same register in two spaces, or the same name.\<close>

definition is_readable_view :: "resource_kind \<Rightarrow> bool" where
  "is_readable_view kind =
     (if is_writable kind then False
      else if kind \<in> {SamplerState, SamplerComparisonState, ConstantBuffer, AccelerationStructure} then False
      else is_texture kind \<or> is_buffer kind)"

definition aliased_by_slot :: "resource_binding \<Rightarrow> resource_binding \<Rightarrow> bool" where
  "aliased_by_slot uav srv \<longleftrightarrow>
     rb_register_slot uav = rb_register_slot srv \<and> rb_register_space uav \<noteq> rb_register_space srv"

definition aliased_by_name :: "resource_binding \<Rightarrow> resource_binding \<Rightarrow> bool" where
  "aliased_by_name uav srv \<longleftrightarrow> rb_name uav \<noteq> [] \<and> rb_name uav = rb_name srv"

definition alias_report :: "ast_tree \<Rightarrow> resource_binding \<Rightarrow> resource_binding \<Rightarrow> diagnostic" where
  "alias_report t uav srv =
     spanned ''uav-srv-implicit-transition-assumed'' Warning (declared_or_start t (rb_declaration_span uav))
       (''UAV binding `'' @ rb_name uav @ ''` and SRV binding `'' @ rb_name srv @ ''` '' @
        (if aliased_by_slot uav srv
         then ''share register slot u/t'' @ number (rb_register_slot uav) @ '' across spaces '' @
              number (rb_register_space uav) @ '' vs '' @ number (rb_register_space srv)
         else ''share the identifier name'') @
        '' -- D3D12 requires an explicit UAV->SRV barrier between the write and the subsequent read; audit the '' @
        ''host-side barrier code'') []"

definition uav_srv_check :: "ast_tree \<Rightarrow> reflection_info \<Rightarrow> diagnostic list" where
  "uav_srv_check t reflection =
     (let bindings = enumerate 0 (ri_bindings reflection) in
      concat (map (\<lambda>(i, uav).
        if \<not> is_writable (rb_kind uav) then []
        else concat (map (\<lambda>(j, srv).
          if i = j then []
          else if \<not> is_readable_view (rb_kind srv) then []
          else if \<not> aliased_by_slot uav srv \<and> \<not> aliased_by_name uav srv then []
          else [alias_report t uav srv]) bindings)) bindings))"

text \<open>A writable resource that is only read: the text after every use is looked at.\<close>

definition is_blank_char :: "char \<Rightarrow> bool" where
  "is_blank_char c \<longleftrightarrow> c = CHR '' '' \<or> c = tab_char \<or> c = newline \<or> c = carriage_return"

function skip_brackets_loop :: "string \<Rightarrow> nat \<Rightarrow> int \<Rightarrow> nat option" where
  "skip_brackets_loop bytes pos depth =
     (if pos \<ge> length bytes then None
      else let c = bytes ! pos in
        if c = CHR ''['' then skip_brackets_loop bytes (pos + 1) (depth + 1)
        else if c = CHR '']'' then (if depth - 1 = 0 then Some (pos + 1) else skip_brackets_loop bytes (pos + 1) (depth - 1))
        else skip_brackets_loop bytes (pos + 1) depth)"
  by pat_completeness auto
termination
  by (relation "measure (\<lambda>(bytes, pos, depth). length bytes - pos)") auto

declare skip_brackets_loop.simps [simp del]

definition skip_brackets :: "string \<Rightarrow> nat \<Rightarrow> nat option" where
  "skip_brackets bytes pos =
     (if pos \<ge> length bytes \<or> bytes ! pos \<noteq> CHR ''['' then None else skip_brackets_loop bytes pos 0)"

definition k_write_methods :: "string list" where
  "k_write_methods =
     [''Store'', ''Store2'', ''Store3'', ''Store4'', ''InterlockedAdd'', ''InterlockedAnd'', ''InterlockedOr'', ''InterlockedXor'',
      ''InterlockedMin'', ''InterlockedMax'', ''InterlockedExchange'', ''InterlockedCompareExchange'',
      ''InterlockedCompareStore'', ''Append'', ''Consume'', ''IncrementCounter'', ''DecrementCounter'']"

definition tail_looks_like_write :: "string \<Rightarrow> nat \<Rightarrow> bool" where
  "tail_looks_like_write bytes tl_pos =
     (let tl_pos = skip_while is_blank_char bytes tl_pos in
      if tl_pos \<ge> length bytes then False
      else if bytes ! tl_pos = CHR ''[''
        then (case skip_brackets bytes tl_pos of
                None \<Rightarrow> False
              | Some past \<Rightarrow>
                  let i = skip_while is_blank_char bytes past in
                  if i \<ge> length bytes then False
                  else let i = (if bytes ! i = CHR ''.''
                         then skip_while is_blank_char bytes (skip_while is_id_char bytes (i + 1)) else i)
                    in i < length bytes \<and> bytes ! i = CHR ''='' \<and>
                       (i + 1 \<ge> length bytes \<or> bytes ! (i + 1) \<noteq> CHR ''=''))
      else if bytes ! tl_pos = CHR ''.''
        then let name_start = tl_pos + 1; i = skip_while is_id_char bytes name_start in
             substr bytes name_start (i - name_start) \<in> set k_write_methods
      else False)"

definition uses_outside :: "string \<Rightarrow> string \<Rightarrow> byte_span \<Rightarrow> nat list" where
  "uses_outside bytes name decl =
     filter (\<lambda>found. \<not> (u32_of found \<ge> bs_lo decl \<and> u32_of found < bs_hi decl)) (word_occurrences bytes name 0)"

definition only_read :: "string \<Rightarrow> resource_binding \<Rightarrow> bool" where
  "only_read bytes b =
     (let uses = uses_outside bytes (rb_name b) (sp_bytes (rb_declaration_span b));
          any_use = (uses \<noteq> []);
          any_write = list_ex (\<lambda>found. tail_looks_like_write bytes (found + length (rb_name b))) uses
      in \<not> (\<not> any_use \<or> any_write))"

definition read_only_report :: "resource_binding \<Rightarrow> diagnostic" where
  "read_only_report b =
     spanned ''rwresource-read-only-usage'' Warning (rb_declaration_span b)
       (''`'' @ rb_name b @ ''` is declared as a writable resource but is only ever read -- '' @
        ''demote to the matching SRV (Buffer / Texture* / StructuredBuffer / '' @
        ''ByteAddressBuffer) to free a UAV slot and use the texture-cache path'') []"

definition rwresource_check :: "ast_tree \<Rightarrow> reflection_info \<Rightarrow> diagnostic list" where
  "rwresource_check t reflection =
     concat (map (\<lambda>b.
       if \<not> is_writable (rb_kind b) then []
       else if rb_kind b = AppendStructuredBuffer \<or> rb_kind b = ConsumeStructuredBuffer then []
       else if rb_name b = [] then []
       else if only_read (at_bytes t) b then [read_only_report b] else []) (ri_bindings reflection))"

section \<open>Calls on byte buffers\<close>

definition alignment_for_load :: "string \<Rightarrow> u64" where
  "alignment_for_load method =
     (if method = ''Load2'' then 8 else if method = ''Load3'' then 16 else if method = ''Load4'' then 16 else 0)"

definition hex_digit :: "char \<Rightarrow> u64 option" where
  "hex_digit c =
     (if CHR ''0'' \<le> c \<and> c \<le> CHR ''9'' then Some (of_char c - 48)
      else if CHR ''a'' \<le> c \<and> c \<le> CHR ''f'' then Some (10 + (of_char c - 97))
      else if CHR ''A'' \<le> c \<and> c \<le> CHR ''F'' then Some (10 + (of_char c - 65))
      else None)"

text \<open>The digits from a position on: their value, which wraps, and where they end.\<close>

function hex_digits :: "string \<Rightarrow> nat \<Rightarrow> u64 \<Rightarrow> u64 \<times> nat" where
  "hex_digits s i value64 =
     (if i \<ge> length s then (value64, i)
      else case hex_digit (s ! i) of
             None \<Rightarrow> (value64, i)
           | Some d \<Rightarrow> hex_digits s (i + 1) (or (push_bit 4 value64) d))"
  by pat_completeness auto
termination
  by (relation "measure (\<lambda>(s, i, value64). length s - i)") auto

function dec_digits :: "string \<Rightarrow> nat \<Rightarrow> u64 \<Rightarrow> u64 \<times> nat" where
  "dec_digits s i value64 =
     (if i < length s \<and> is_digit_char (s ! i) then dec_digits s (i + 1) (value64 * 10 + (of_char (s ! i) - 48)) else (value64, i))"
  by pat_completeness auto
termination
  by (relation "measure (\<lambda>(s, i, value64). length s - i)") auto

declare hex_digits.simps [simp del] dec_digits.simps [simp del]

definition skip_fraction :: "string \<Rightarrow> nat \<Rightarrow> nat option" where
  "skip_fraction s i =
     (if i < length s \<and> s ! i = CHR ''.''
      then let j = skip_while (\<lambda>c. c = CHR ''0'') s (i + 1) in
           if j < length s \<and> CHR ''1'' \<le> s ! j \<and> s ! j \<le> CHR ''9'' then None else Some j
      else Some i)"

definition parse_uint_literal :: "string \<Rightarrow> u64 option" where
  "parse_uint_literal s =
     (if s = [] then None
      else let i = (if s ! 0 = CHR ''+'' then 1 else 0) in
        if i \<ge> length s then None
        else let is_hex = (i + 1 < length s \<and> s ! i = CHR ''0'' \<and> (s ! (i + 1) = CHR ''x'' \<or> s ! (i + 1) = CHR ''X''));
                 start = (if is_hex then i + 2 else i);
                 (value64, i) = (if is_hex then hex_digits s start 0 else dec_digits s start 0)
        in if i = start then None
           else case skip_fraction s i of
                  None \<Rightarrow> None
                | Some i \<Rightarrow>
                    (if i < length s \<and> (s ! i = CHR ''e'' \<or> s ! i = CHR ''E'') then None
                     else if list_all (\<lambda>c. c \<in> set ''uUlL'') (drop i s) then Some value64 else None))"

text \<open>A call \<open>receiver.method(...)\<close> on an identifier.\<close>

definition method_call :: "string \<Rightarrow> ts_node option \<Rightarrow> (string \<times> string) option" where
  "method_call bytes fn =
     (case fn of
        None \<Rightarrow> None
      | Some f \<Rightarrow>
          (if ts_kind f \<noteq> ''field_expression'' then None
           else case (child_by_field f ''argument'', child_by_field f ''field'') of
                  (Some receiver, Some fld) \<Rightarrow>
                    (if ts_kind receiver \<noteq> ''identifier'' then None
                     else Some (node_text (Some receiver) bytes, node_text (Some fld) bytes))
                | _ \<Rightarrow> None))"

definition byte_buffer_named :: "reflection_info \<Rightarrow> string \<Rightarrow> bool" where
  "byte_buffer_named reflection name =
     (case find_binding_used_by reflection name of
        None \<Rightarrow> False
      | Some b \<Rightarrow> rb_kind b = ByteAddressBuffer \<or> rb_kind b = RWByteAddressBuffer)"

definition misaligned_load_at :: "ast_tree \<Rightarrow> reflection_info \<Rightarrow> ts_node \<Rightarrow> diagnostic list" where
  "misaligned_load_at t reflection call =
     (if ts_kind call \<noteq> ''call_expression'' then []
      else case method_call (at_bytes t) (child_by_field call ''function'') of
             None \<Rightarrow> []
           | Some (receiver_name, method_name) \<Rightarrow>
               (let alignment = alignment_for_load method_name in
                if alignment = 0 then []
                else if \<not> byte_buffer_named reflection receiver_name then []
                else case child_by_field call ''arguments'' of
                       None \<Rightarrow> []
                     | Some args \<Rightarrow>
                         (case named_children args of
                            [] \<Rightarrow> []
                          | offset_arg # _ \<Rightarrow>
                              (if ts_kind offset_arg \<noteq> ''number_literal'' then []
                               else let literal_text = node_text (Some offset_arg) (at_bytes t) in
                                 case parse_uint_literal literal_text of
                                   None \<Rightarrow> []
                                 | Some v \<Rightarrow>
                                     (if v mod alignment = 0 then []
                                      else [rule_diagnostic ''byteaddressbuffer-load-misaligned'' (at_source t) (range_of call)
                                              (''`'' @ receiver_name @ ''.'' @ method_name @ ''('' @ literal_text @
                                               '')` is misaligned -- '' @ method_name @ '' requires a multiple-of-'' @
                                               to_decimal (unat alignment) @
                                               ''-byte offset; under-aligned widened loads either fault or '' @
                                               ''split into single-DWORD reads on RDNA / Turing / Ada / Xe-HPG'') []])))))"

definition misaligned_load_check :: "ast_tree \<Rightarrow> reflection_info \<Rightarrow> diagnostic list" where
  "misaligned_load_check t reflection = concat (map (misaligned_load_at t reflection) (preorder (at_root t)))"

definition is_bitcast_intrinsic :: "string \<Rightarrow> bool" where
  "is_bitcast_intrinsic name \<longleftrightarrow>
     name \<in> {''asfloat'', ''asfloat2'', ''asfloat3'', ''asfloat4'', ''asuint'', ''asuint2'', ''asuint3'', ''asuint4'',
       ''asint'', ''asint2'', ''asint3'', ''asint4'', ''asdouble''}"

definition is_load_method :: "string \<Rightarrow> bool" where
  "is_load_method name \<longleftrightarrow> name \<in> {''Load'', ''Load2'', ''Load3'', ''Load4''}"

definition narrow_load_at :: "ast_tree \<Rightarrow> reflection_info \<Rightarrow> ts_node \<Rightarrow> diagnostic list" where
  "narrow_load_at t reflection outer_call =
     (if ts_kind outer_call \<noteq> ''call_expression'' then []
      else let outer_fn = child_by_field outer_call ''function'' in
        if node_kind outer_fn \<noteq> ''identifier'' then []
        else if \<not> is_bitcast_intrinsic (node_text outer_fn (at_bytes t)) then []
        else case child_by_field outer_call ''arguments'' of
               None \<Rightarrow> []
             | Some outer_args \<Rightarrow>
                 (case named_children outer_args of
                    [inner_call] \<Rightarrow>
                      (if ts_kind inner_call \<noteq> ''call_expression'' then []
                       else case method_call (at_bytes t) (child_by_field inner_call ''function'') of
                              None \<Rightarrow> []
                            | Some (receiver_name, method_name) \<Rightarrow>
                                (if \<not> is_load_method method_name then []
                                 else if \<not> byte_buffer_named reflection receiver_name then []
                                 else [rule_diagnostic ''byteaddressbuffer-narrow-when-typed-fits'' (at_source t) (range_of outer_call)
                                         (''`'' @ receiver_name @ ''.'' @ method_name @
                                          ''(...)` reinterpreted via a bit-cast is reading typed POD '' @
                                          ''through a ByteAddressBuffer -- a typed view '' @
                                          ''(`Buffer<float4>` / `StructuredBuffer<T>`) goes through '' @
                                          ''the texture cache on RDNA and L1 on Turing/Ada, which is '' @
                                          ''usually the faster path for this access pattern'') []]))
                  | _ \<Rightarrow> []))"

definition narrow_load_check :: "ast_tree \<Rightarrow> reflection_info \<Rightarrow> diagnostic list" where
  "narrow_load_check t reflection = concat (map (narrow_load_at t reflection) (preorder (at_root t)))"

section \<open>Samplers\<close>

definition contains_ident :: "string \<Rightarrow> string \<Rightarrow> bool" where
  "contains_ident s name =
     (if name = [] \<or> length s < length name then False else word_occurrences s name 0 \<noteq> [])"

definition is_letter_char :: "char \<Rightarrow> bool" where
  "is_letter_char c \<longleftrightarrow> is_alpha_char c"

text \<open>The first argument of a call whose method name ends at a position; trailing blanks are trimmed.\<close>

definition first_argument :: "string \<Rightarrow> nat \<Rightarrow> string option" where
  "first_argument s i =
     (let i = skip_while (\<lambda>c. c = CHR '' '' \<or> c = tab_char) s i in
      if i < length s \<and> s ! i = CHR ''(''
      then let arg_start = skip_while is_blank_char s (i + 1);
               arg_end = skip_while (\<lambda>c. c \<noteq> CHR '','' \<and> c \<noteq> CHR '')'') s arg_start
           in Some (rev (dropWhile is_blank_char (rev (substr s arg_start (arg_end - arg_start)))))
      else None)"

function has_cmp_call_from :: "string \<Rightarrow> string \<Rightarrow> nat \<Rightarrow> bool" where
  "has_cmp_call_from s sampler_name pos =
     (if pos \<ge> length s then False
      else case find_text s ''SampleCmp'' pos of
             None \<Rightarrow> False
           | Some found \<Rightarrow>
               (case first_argument s (skip_while is_letter_char s (found + 9)) of
                  Some arg \<Rightarrow>
                    if contains_ident arg sampler_name then True else has_cmp_call_from s sampler_name (found + 9)
                | None \<Rightarrow> has_cmp_call_from s sampler_name (found + 9)))"
  by pat_completeness auto
termination
  by (relation "measure (\<lambda>(s, sampler_name, pos). length s - pos)") (auto dest!: find_text_bounds)

function has_non_cmp_call_from :: "string \<Rightarrow> string \<Rightarrow> nat \<Rightarrow> bool" where
  "has_non_cmp_call_from s sampler_name pos =
     (if pos \<ge> length s then False
      else case find_text s ''.Sample'' pos of
             None \<Rightarrow> False
           | Some found \<Rightarrow>
               (let name_start = found + 7; i = skip_while is_letter_char s name_start in
                if contains_text (substr s name_start (i - name_start)) ''Cmp'' then has_non_cmp_call_from s sampler_name (found + 7)
                else case first_argument s i of
                       Some arg \<Rightarrow>
                         if contains_ident arg sampler_name then True else has_non_cmp_call_from s sampler_name (found + 7)
                     | None \<Rightarrow> has_non_cmp_call_from s sampler_name (found + 7)))"
  by pat_completeness auto
termination
  by (relation "measure (\<lambda>(s, sampler_name, pos). length s - pos)") (auto dest!: find_text_bounds)

declare has_cmp_call_from.simps [simp del] has_non_cmp_call_from.simps [simp del]

definition comparison_sampler_check :: "ast_tree \<Rightarrow> reflection_info \<Rightarrow> diagnostic list" where
  "comparison_sampler_check t reflection =
     concat (map (\<lambda>b.
       if rb_kind b \<noteq> SamplerComparisonState then []
       else if has_cmp_call_from (at_bytes t) (rb_name b) 0 then []
       else if \<not> has_non_cmp_call_from (at_bytes t) (rb_name b) 0 then []
       else [spanned ''comparison-sampler-without-comparison-op'' Warning
               \<lparr>sp_source = at_source t, sp_bytes = sp_bytes (rb_declaration_span b)\<rparr>
               (''`SamplerComparisonState '' @ rb_name b @
                ''` is declared but only used with non-`Cmp` Sample variants -- '' @
                ''either switch the call sites to `SampleCmp*` (PCF) or change '' @
                ''the binding to a plain `SamplerState`'') []]) (ri_bindings reflection))"

text \<open>The body of a function by its name: the first one with a non-empty range.\<close>

definition entry_body_at :: "string \<Rightarrow> string \<Rightarrow> ts_node \<Rightarrow> byte_span option" where
  "entry_body_at bytes entry_name n =
     (if ts_kind n \<noteq> ''function_definition'' then None
      else case child_by_field n ''declarator'' of
             None \<Rightarrow> None
           | Some d \<Rightarrow>
               (if unat (ts_start d) \<le> length bytes \<and> unat (ts_end d) \<le> length bytes \<and> ts_end d \<ge> ts_start d \<and>
                   contains_ident (substr bytes (unat (ts_start d)) (unat (ts_end d) - unat (ts_start d))) entry_name
                then map_option range_of (child_by_field n ''body'') else None))"

function find_function_body_span :: "string \<Rightarrow> string \<Rightarrow> ts_node \<Rightarrow> byte_span" where
  "find_function_body_span bytes entry_name n =
     (case entry_body_at bytes entry_name n of
        Some bs \<Rightarrow> bs
      | None \<Rightarrow>
          (case find (\<lambda>bs. bs_hi bs > bs_lo bs) (map (find_function_body_span bytes entry_name) (child_nodes n)) of
             Some bs \<Rightarrow> bs
           | None \<Rightarrow> \<lparr>bs_lo = 0, bs_hi = 0\<rparr>))"
  by pat_completeness auto
termination
proof (relation "measure (\<lambda>(bytes, entry_name, n). node_size n)", goal_cases)
  case (2 bytes entry_name n c)
  then show ?case using child_smaller [of c n] by simp
qed simp

declare find_function_body_span.simps [simp del]

definition references :: "ast_tree \<Rightarrow> string \<Rightarrow> entry_point_info \<Rightarrow> bool" where
  "references t name ep =
     (let bs = find_function_body_span (at_bytes t) (ep_name ep) (at_root t) in
      if bs_hi bs \<le> bs_lo bs then False
      else contains_ident (substr (at_bytes t) (unat (bs_lo bs)) (unat (bs_hi bs - bs_lo bs))) name)"

definition static_sampler_check :: "ast_tree \<Rightarrow> reflection_info \<Rightarrow> diagnostic list" where
  "static_sampler_check t reflection =
     (if ri_entry_points reflection = [] \<or> ri_bindings reflection = [] then []
      else concat (map (\<lambda>b.
        if \<not> is_sampler (rb_kind b) then []
        else if length (filter (references t (rb_name b)) (ri_entry_points reflection)) \<noteq> 1 then []
        else [spanned ''static-sampler-when-dynamic-used'' Warning
                \<lparr>sp_source = at_source t, sp_bytes = sp_bytes (rb_declaration_span b)\<rparr>
                (''sampler `'' @ rb_name b @
                 ''` is referenced from a single entry point and never varies across '' @
                 ''draws -- consider promoting it to a D3D12 static sampler in the '' @
                 ''root signature (saves a descriptor heap slot, pre-resident on '' @
                 ''every IHV)'') []]) (ri_bindings reflection)))"

section \<open>Entry points\<close>

fun contains_identifier :: "string \<Rightarrow> string \<Rightarrow> ts_node \<Rightarrow> bool" where
  "contains_identifier bytes target_name (Ts_Node k nm lo hi cs) =
     (if k = ''identifier'' \<and> node_text (Some (Ts_Node k nm lo hi cs)) bytes = target_name then True
      else list_ex (\<lambda>c. contains_identifier bytes target_name (snd c)) cs)"

text \<open>The first function of the text that mentions the name of the entry point.\<close>

definition find_entry_function :: "string \<Rightarrow> string \<Rightarrow> ts_node \<Rightarrow> ts_node option" where
  "find_entry_function bytes entry_name tr =
     find (\<lambda>n. ts_kind n = ''function_definition'' \<and> contains_identifier bytes entry_name n) (preorder tr)"

definition is_derivative_intrinsic :: "string \<Rightarrow> bool" where
  "is_derivative_intrinsic name \<longleftrightarrow> name \<in> {''ddx'', ''ddy'', ''ddx_fine'', ''ddy_fine'', ''ddx_coarse'', ''ddy_coarse''}"

definition called_name :: "string \<Rightarrow> ts_node \<Rightarrow> string" where
  "called_name bytes call = node_text (child_by_field call ''function'') bytes"

definition derivative_at :: "ast_tree \<Rightarrow> string \<Rightarrow> u32 \<times> u32 \<times> u32 \<Rightarrow> ts_node \<Rightarrow> diagnostic list" where
  "derivative_at t entry_name = (\<lambda>(nx, ny, nz) n.
     if ts_kind n = ''call_expression'' \<and> is_derivative_intrinsic (called_name (at_bytes t) n)
     then [rule_diagnostic ''compute-dispatch-grid-shape-vs-quad'' (at_source t) (range_of n)
             (''`'' @ called_name (at_bytes t) n @ ''` requires a 2x2 thread quad but compute entry point `'' @ entry_name @
              ''` is declared `[numthreads('' @ number nx @ '', '' @ number ny @ '', '' @ number nz @
              '')]` -- a 1D dispatch shape produces nonsense '' @
              ''derivatives because adjacent lanes do not share an X/Y quad neighbourhood'') []]
     else [])"

definition grid_shape_check :: "ast_tree \<Rightarrow> reflection_info \<Rightarrow> diagnostic list" where
  "grid_shape_check t reflection =
     concat (map (\<lambda>ep.
       if \<not> is_compute_shader ep then []
       else case ep_numthreads ep of
              None \<Rightarrow> []
            | Some (nx, ny, nz) \<Rightarrow>
                (if ny \<noteq> 1 \<or> nz \<noteq> 1 then []
                 else case find_entry_function (at_bytes t) (ep_name ep) (at_root t) of
                        None \<Rightarrow> []
                      | Some fn \<Rightarrow> concat (map (derivative_at t (ep_name ep) (nx, ny, nz)) (preorder fn))))
       (ri_entry_points reflection))"

definition is_wave_intrinsic :: "string \<Rightarrow> bool" where
  "is_wave_intrinsic name \<longleftrightarrow> length name > 4 \<and> substr name 0 4 = ''Wave''"

definition find_first_wave_call :: "string \<Rightarrow> ts_node \<Rightarrow> ts_node option" where
  "find_first_wave_call bytes fn =
     find (\<lambda>n. ts_kind n = ''call_expression'' \<and> is_wave_intrinsic (called_name bytes n)) (preorder fn)"

definition wavesize_missing_check :: "ast_tree \<Rightarrow> reflection_info \<Rightarrow> diagnostic list" where
  "wavesize_missing_check t reflection =
     concat (map (\<lambda>ep.
       if \<not> is_compute_shader ep \<and> \<not> is_mesh_or_amp_shader ep \<and> \<not> is_pixel_shader ep then []
       else if wave_size_for_entry_point (Some (at_root t)) (at_bytes t) ep \<noteq> None then []
       else case find_entry_function (at_bytes t) (ep_name ep) (at_root t) of
              None \<Rightarrow> []
            | Some fn \<Rightarrow>
                (case find_first_wave_call (at_bytes t) fn of
                   None \<Rightarrow> []
                 | Some call \<Rightarrow>
                     [rule_diagnostic ''wavesize-attribute-missing'' (at_source t) (range_of call)
                        (''entry point `'' @ ep_name ep @ ''` calls wave intrinsic `'' @ called_name (at_bytes t) call @
                         ''` but does not pin the wave size via `[WaveSize(N)]` or '' @
                         ''`[WaveSize(min, max)]` -- results that index by lane count '' @
                         ''silently change between RDNA wave32/wave64, Turing/Ada '' @
                         ''wave32, and Xe-HPG wave8/16/32'') []]))
       (ri_entry_points reflection))"

definition wave64_check :: "ast_tree \<Rightarrow> reflection_info \<Rightarrow> diagnostic list" where
  "wave64_check t reflection =
     concat (map (\<lambda>ep.
       if \<not> is_compute_shader ep then []
       else case wave_size_for_entry_point (Some (at_root t)) (at_bytes t) ep of
              None \<Rightarrow> []
            | Some (lo, hi) \<Rightarrow>
                (if lo \<ge> 64
                 then [spanned ''wave64-on-rdna4-compute-misses-dynamic-vgpr'' Warning (ep_declaration_span ep)
                         (''compute entry point `'' @ ep_name ep @
                          ''` is declared `[WaveSize(64)]`; RDNA 4 dynamic-VGPR mode is '' @
                          ''wave32-only, so wave64 compute on RDNA 4 silently misses the '' @
                          ''per-block occupancy gain'') []]
                 else [])) (ri_entry_points reflection))"

definition wavesize32_check :: "ast_tree \<Rightarrow> reflection_info \<Rightarrow> diagnostic list" where
  "wavesize32_check t reflection =
     concat (map (\<lambda>ep.
       if \<not> is_compute_shader ep \<and> \<not> is_mesh_or_amp_shader ep then []
       else case wave_size_for_entry_point (Some (at_root t)) (at_bytes t) ep of
              None \<Rightarrow> []
            | Some (lo, hi) \<Rightarrow>
                (if lo = 32 \<and> hi = 32
                 then [spanned ''wavesize-32-on-xe2-misses-simd16'' Warning (ep_declaration_span ep)
                         (''(suggestion) entry point `'' @ ep_name ep @
                          ''` is pinned `[WaveSize(32)]`; Xe2 / Battlemage SIMD16 '' @
                          ''native execution saves one address-gen cycle per dispatch '' @
                          ''over SIMD32 -- consider `[WaveSize(16)]` or `[WaveSize(16, 32)]` '' @
                          ''if the kernel's lane utilisation allows'') []]
                 else [])) (ri_entry_points reflection))"

section \<open>The rules\<close>

definition oversized_cbuffer where "oversized_cbuffer = reflect_rule ''oversized-cbuffer'' oversized_cbuffer_check"
definition cbuffer_fits_rootconstants where
  "cbuffer_fits_rootconstants = reflect_rule ''cbuffer-fits-rootconstants'' fits_rootconstants_check"
definition cbuffer_large_fits_rootcbv_not_table where
  "cbuffer_large_fits_rootcbv_not_table = reflect_rule ''cbuffer-large-fits-rootcbv-not-table'' fits_rootcbv_check"
definition as_payload_over_16k where "as_payload_over_16k = reflect_rule ''as-payload-over-16k'' as_payload_check"
definition cbuffer_padding_hole where "cbuffer_padding_hole = reflect_rule ''cbuffer-padding-hole'' padding_hole_check"
definition min16float_in_cbuffer_roundtrip where
  "min16float_in_cbuffer_roundtrip = reflect_rule ''min16float-in-cbuffer-roundtrip'' min16float_roundtrip_check"
definition bool_straddles_16b where "bool_straddles_16b = reflect_rule ''bool-straddles-16b'' bool_straddles_check"
definition unused_cbuffer_field where "unused_cbuffer_field = reflect_rule ''unused-cbuffer-field'' unused_field_check"
definition all_resources_bound_not_set where
  "all_resources_bound_not_set = reflect_rule ''all-resources-bound-not-set'' all_resources_bound_check"
definition bgra_rgba_swizzle_mismatch where "bgra_rgba_swizzle_mismatch = reflect_rule ''bgra-rgba-swizzle-mismatch'' bgra_check"
definition uav_srv_implicit_transition_assumed where
  "uav_srv_implicit_transition_assumed = reflect_rule ''uav-srv-implicit-transition-assumed'' uav_srv_check"
definition rwresource_read_only_usage where
  "rwresource_read_only_usage = reflect_rule ''rwresource-read-only-usage'' rwresource_check"
definition byteaddressbuffer_load_misaligned where
  "byteaddressbuffer_load_misaligned = reflect_rule ''byteaddressbuffer-load-misaligned'' misaligned_load_check"
definition byteaddressbuffer_narrow_when_typed_fits where
  "byteaddressbuffer_narrow_when_typed_fits = reflect_rule ''byteaddressbuffer-narrow-when-typed-fits'' narrow_load_check"
definition comparison_sampler_without_comparison_op where
  "comparison_sampler_without_comparison_op = reflect_rule ''comparison-sampler-without-comparison-op'' comparison_sampler_check"
definition static_sampler_when_dynamic_used where
  "static_sampler_when_dynamic_used = reflect_rule ''static-sampler-when-dynamic-used'' static_sampler_check"
definition compute_dispatch_grid_shape_vs_quad where
  "compute_dispatch_grid_shape_vs_quad = reflect_rule ''compute-dispatch-grid-shape-vs-quad'' grid_shape_check"
definition wavesize_attribute_missing where
  "wavesize_attribute_missing = reflect_rule ''wavesize-attribute-missing'' wavesize_missing_check"
definition wave64_on_rdna4_compute_misses_dynamic_vgpr where
  "wave64_on_rdna4_compute_misses_dynamic_vgpr =
     (reflect_rule ''wave64-on-rdna4-compute-misses-dynamic-vgpr'' wave64_check)\<lparr>rl_target := Rdna4\<rparr>"
definition wavesize_32_on_xe2_misses_simd16 where
  "wavesize_32_on_xe2_misses_simd16 = (reflect_rule ''wavesize-32-on-xe2-misses-simd16'' wavesize32_check)\<lparr>rl_target := Xe2\<rparr>"

section \<open>Properties\<close>

lemma gap_step:
  assumes "p < og \<Longrightarrow> \<not> A" and "ofs \<le> ef" and "ef \<le> og" and "og \<le> el"
  shows "(ef \<le> p \<and> p < og \<or> og \<le> p \<and> p < el \<and> \<not> A) \<longleftrightarrow> ofs \<le> (p :: nat) \<and> p < el \<and> \<not> (ofs \<le> p \<and> p < ef \<or> A)"
  using assms by (cases A; cases "p < og") auto

text \<open>The holes that are reported are the gaps of the layout: when the fields of a buffer are listed in order and do
  not overlap, a byte lies in a reported hole exactly when it lies between the start of the first field and the end of the
  last and no field covers it.\<close>

theorem padding_holes_are_gaps:
  assumes "fs \<noteq> []" and "sorted_wrt (\<lambda>a b. unat (fl_byte_offset a) + unat (fl_byte_size a) \<le> unat (fl_byte_offset b)) fs"
    and "\<forall>f \<in> set fs. unat (fl_byte_offset f) + unat (fl_byte_size f) < 2 ^ 32"
  shows "(\<exists>(a, b) \<in> set (padding_holes fs). unat (field_end a) \<le> p \<and> p < unat (fl_byte_offset b)) \<longleftrightarrow>
     unat (fl_byte_offset (hd fs)) \<le> p \<and> p < unat (field_end (last fs)) \<and>
     \<not> (\<exists>f \<in> set fs. unat (fl_byte_offset f) \<le> p \<and> p < unat (field_end f))"
  using assms
proof (induction fs)
  case (Cons f fs)
  have f: "unat (field_end f) = unat (fl_byte_offset f) + unat (fl_byte_size f)"
    using Cons.prems(3) by (simp add: field_end_def unat_u32_add)
  show ?case
  proof (cases fs)
    case Nil
    then show ?thesis using f by auto
  next
    case fs: (Cons g gs)
    let ?in = "\<lambda>f. unat (fl_byte_offset f) \<le> p \<and> p < unat (field_end f)"
    have ord: "unat (field_end f) \<le> unat (fl_byte_offset g)" "sorted_wrt (\<lambda>a b. unat (fl_byte_offset a) + unat (fl_byte_size a) \<le> unat (fl_byte_offset b)) fs"
      using Cons.prems(2) f by (simp_all add: fs)
    have IH: "(\<exists>(a, b) \<in> set (padding_holes fs). unat (field_end a) \<le> p \<and> p < unat (fl_byte_offset b)) \<longleftrightarrow>
        unat (fl_byte_offset g) \<le> p \<and> p < unat (field_end (last fs)) \<and> \<not> (\<exists>f \<in> set fs. ?in f)"
      using Cons.IH ord(2) Cons.prems(3) fs by simp
    have ends: "unat (field_end h) = unat (fl_byte_offset h) + unat (fl_byte_size h)" if "h \<in> set fs" for h
      using Cons.prems(3) that by (simp add: field_end_def unat_u32_add)
    have from_g: "unat (fl_byte_offset g) \<le> unat (fl_byte_offset h)" if "h \<in> set fs" for h
      using ord(2) that by (auto simp: fs)
    have l: "last fs \<in> set fs" by (rule last_in_set) (simp add: fs)
    have to_last: "unat (fl_byte_offset g) \<le> unat (field_end (last fs))" using ends [OF l] from_g [OF l] by linarith
    have low: "p < unat (fl_byte_offset g) \<Longrightarrow> \<not> (\<exists>h \<in> set fs. ?in h)" using from_g by fastforce
    have "unat (fl_byte_offset f) \<le> unat (field_end f)" using f by simp
    note step = gap_step [where p = p and og = "unat (fl_byte_offset g)", OF low this ord(1) to_last]
    have "(\<exists>(a, b) \<in> set (padding_holes (f # fs)). unat (field_end a) \<le> p \<and> p < unat (fl_byte_offset b)) \<longleftrightarrow>
        (unat (field_end f) \<le> p \<and> p < unat (fl_byte_offset g)) \<or>
        (\<exists>(a, b) \<in> set (padding_holes fs). unat (field_end a) \<le> p \<and> p < unat (fl_byte_offset b))"
      by (auto simp: fs word_less_nat_alt)
    also have "\<dots> \<longleftrightarrow> unat (fl_byte_offset f) \<le> p \<and> p < unat (field_end (last fs)) \<and> \<not> (?in f \<or> (\<exists>h \<in> set fs. ?in h))"
      unfolding IH by (rule step)
    finally show ?thesis by (simp add: fs)
  qed
qed simp

theorem padding_holes_are_gaps_witness:
  "let fs = [\<lparr>fl_name = ''a'', fl_byte_offset = 0, fl_byte_size = 4, fl_type_name = ''float''\<rparr>,
             \<lparr>fl_name = ''b'', fl_byte_offset = 16, fl_byte_size = 12, fl_type_name = ''float3''\<rparr>]
   in (\<exists>(a, b) \<in> set (padding_holes fs). unat (field_end a) \<le> 7 \<and> 7 < unat (fl_byte_offset b)) \<longleftrightarrow>
      unat (fl_byte_offset (hd fs)) \<le> 7 \<and> 7 < unat (field_end (last fs)) \<and>
      \<not> (\<exists>f \<in> set fs. unat (fl_byte_offset f) \<le> 7 \<and> 7 < unat (field_end f))"
  unfolding Let_def by (rule padding_holes_are_gaps) simp_all

text \<open>A field is reported as unused exactly when its name is no word of the text outside the declaration of its
  buffer, for texts that fit the offsets.\<close>

theorem unused_fields_exact:
  assumes "length (at_bytes t) < 2 ^ 32"
  shows "set (unused_field_check t reflection) =
     {unused_field_report cb f | cb f. cb \<in> set (ri_cbuffers reflection) \<and> f \<in> set (cl_fields cb) \<and>
        (fl_name f = [] \<or> \<not> (\<exists>i. is_word_at (at_bytes t) (fl_name f) i \<and>
           (i < unat (bs_lo (sp_bytes (cl_declaration_span cb))) \<or> unat (bs_hi (sp_bytes (cl_declaration_span cb))) \<le> i)))}"
proof -
  have "count_id_occurrences (at_bytes t) name exclude \<noteq> 0 \<longleftrightarrow>
      name \<noteq> [] \<and> (\<exists>i. is_word_at (at_bytes t) name i \<and> (i < unat (bs_lo exclude) \<or> unat (bs_hi exclude) \<le> i))" for name exclude
  proof -
    have "i < 2 ^ 32" if "is_word_at (at_bytes t) name i" for i using that assms by (simp add: is_word_at_def)
    then have "is_word_at (at_bytes t) name i \<Longrightarrow> unat (u32_of i) = i" for i by (simp only: unat_u32_of)
    then show ?thesis
      by (auto simp: count_id_occurrences_def filter_empty_conv set_word_occurrences word_less_nat_alt word_le_nat_alt)
  qed
  then show ?thesis by (force simp: unused_field_check_def)
qed

text \<open>A writable resource is reported as only read exactly when its name occurs as a word outside its declaration and
  none of these words is followed by what the rule takes for a write; queues are left out. What it takes for a write is less
  than its documentation says: compound assignments and atomics by a free function do not count.\<close>

theorem read_only_exact:
  assumes "length (at_bytes t) < 2 ^ 32"
  shows "set (rwresource_check t reflection) =
     {read_only_report b | b. b \<in> set (ri_bindings reflection) \<and> is_writable (rb_kind b) \<and>
        rb_kind b \<noteq> AppendStructuredBuffer \<and> rb_kind b \<noteq> ConsumeStructuredBuffer \<and> rb_name b \<noteq> [] \<and>
        (let used = (\<lambda>i. is_word_at (at_bytes t) (rb_name b) i \<and>
               (i < unat (bs_lo (sp_bytes (rb_declaration_span b))) \<or> unat (bs_hi (sp_bytes (rb_declaration_span b))) \<le> i))
         in (\<exists>i. used i) \<and> \<not> (\<exists>i. used i \<and> tail_looks_like_write (at_bytes t) (i + length (rb_name b))))}"
proof -
  have uses: "set (uses_outside (at_bytes t) name decl) =
      {i. is_word_at (at_bytes t) name i \<and> (i < unat (bs_lo decl) \<or> unat (bs_hi decl) \<le> i)}" for name decl
  proof -
    have "i < 2 ^ 32" if "is_word_at (at_bytes t) name i" for i using that assms by (simp add: is_word_at_def)
    then have "is_word_at (at_bytes t) name i \<Longrightarrow> unat (u32_of i) = i" for i by (simp only: unat_u32_of)
    then show ?thesis
      by (auto simp: uses_outside_def set_word_occurrences word_less_nat_alt word_le_nat_alt)
  qed
  have "only_read (at_bytes t) b \<longleftrightarrow>
      (\<exists>i. i \<in> set (uses_outside (at_bytes t) (rb_name b) (sp_bytes (rb_declaration_span b)))) \<and>
      \<not> (\<exists>i. i \<in> set (uses_outside (at_bytes t) (rb_name b) (sp_bytes (rb_declaration_span b))) \<and>
           tail_looks_like_write (at_bytes t) (i + length (rb_name b)))" for b
    by (cases "uses_outside (at_bytes t) (rb_name b) (sp_bytes (rb_declaration_span b))") (auto simp: only_read_def list_ex_iff)
  then show ?thesis unfolding uses by (auto simp: rwresource_check_def Let_def)
qed

text \<open>Compound assignments and calls of the free atomics are not taken for writes.\<close>

definition ex_binding :: resource_binding where
  "ex_binding = \<lparr>rb_name = ''b'', rb_kind = RWBuffer, rb_register_slot = 0, rb_register_space = 0, rb_array_size = None,
     rb_declaration_span = \<lparr>sp_source = \<lparr>sid_value = 1\<rparr>, sp_bytes = \<lparr>bs_lo = 0, bs_hi = 17\<rparr>\<rparr>, rb_dxgi_format = []\<rparr>"

definition ex_reflection :: reflection_info where
  "ex_reflection = \<lparr>ri_bindings = [ex_binding], ri_cbuffers = [], ri_entry_points = [], ri_target_profile = []\<rparr>"

abbreviation text_tree :: "string \<Rightarrow> ast_tree" where
  "text_tree s \<equiv> \<lparr>at_root = ex_node ''translation_unit'' 0 (u32_of (length s)) [], at_language = Tree_Sitter_Hlsl, at_bytes = s,
     at_source = \<lparr>sid_value = 1\<rparr>\<rparr>"

theorem compound_write_counts_as_read:
  "map dg_code (rwresource_check (text_tree ''RWBuffer<uint> b;void f(){b[0]+=1;}'') ex_reflection) = [''rwresource-read-only-usage'']"
  "map dg_code (rwresource_check (text_tree ''RWBuffer<uint> b;void f(){InterlockedAdd(b[0],1);}'') ex_reflection) =
     [''rwresource-read-only-usage'']"
  "rwresource_check (text_tree ''RWBuffer<uint> b;void f(){b[0]=b[0]+1;}'') ex_reflection = []"
  by code_simp+

theorem read_only_exact_witness:
  "set (rwresource_check (text_tree ''RWBuffer<uint> b;x=b[0];'') ex_reflection) =
     {read_only_report b | b. b \<in> set (ri_bindings ex_reflection) \<and> is_writable (rb_kind b) \<and>
        rb_kind b \<noteq> AppendStructuredBuffer \<and> rb_kind b \<noteq> ConsumeStructuredBuffer \<and> rb_name b \<noteq> [] \<and>
        (let used = (\<lambda>i. is_word_at ''RWBuffer<uint> b;x=b[0];'' (rb_name b) i \<and>
               (i < unat (bs_lo (sp_bytes (rb_declaration_span b))) \<or> unat (bs_hi (sp_bytes (rb_declaration_span b))) \<le> i))
         in (\<exists>i. used i) \<and> \<not> (\<exists>i. used i \<and> tail_looks_like_write ''RWBuffer<uint> b;x=b[0];'' (i + length (rb_name b))))}"
proof -
  have "length (at_bytes (text_tree ''RWBuffer<uint> b;x=b[0];'')) < 2 ^ 32" by simp
  from read_only_exact [OF this, of ex_reflection] show ?thesis by (simp only: ast_tree.simps)
qed

text \<open>Buffers of at most 32 bytes and buffers up to 64K get different advice, and no buffer gets both.\<close>

theorem cbuffer_advice_by_size:
  "map dg_code (fits_rootconstants_check t \<lparr>ri_bindings = [], ri_cbuffers = [cb], ri_entry_points = [], ri_target_profile = []\<rparr> @
       fits_rootcbv_check t \<lparr>ri_bindings = [], ri_cbuffers = [cb], ri_entry_points = [], ri_target_profile = []\<rparr>) =
     (if cl_total_bytes cb = 0 \<or> cl_total_bytes cb > 65536 then []
      else if cl_total_bytes cb \<le> 32 then [''cbuffer-fits-rootconstants''] else [''cbuffer-large-fits-rootcbv-not-table''])"
proof -
  have "cl_total_bytes cb \<le> 32 \<Longrightarrow> \<not> cl_total_bytes cb > 65536" "\<not> cl_total_bytes cb \<le> 32 \<Longrightarrow> cl_total_bytes cb \<noteq> 0"
    by (auto simp: word_le_nat_alt word_less_nat_alt)
  then show ?thesis
    by (cases "cl_total_bytes cb = 0"; cases "cl_total_bytes cb \<le> 32")
      (auto simp: fits_rootconstants_check_def fits_rootcbv_check_def spanned_def)
qed

end
