(* ===== verification/Layouts.thy ===== *)
theory Layouts
  imports Bindings Rewriter
begin

text \<open>
  Rules of \<^verbatim>\<open>core/src/rules\<close> that add up sizes of types: \<^verbatim>\<open>groupshared_too_large.cpp\<close>,
  \<^verbatim>\<open>groupshared_over_32k_without_attribute.cpp\<close>, \<^verbatim>\<open>oversized_ray_payload.cpp\<close>,
  \<^verbatim>\<open>structured_buffer_stride_mismatch.cpp\<close> and \<^verbatim>\<open>structured_buffer_stride_not_cache_aligned.cpp\<close>. Each reads
  declarations from the text with a parser of its own; sums and products are of 32 bits.
\<close>

section \<open>Sizes of types\<close>

definition digit_between :: "char \<Rightarrow> bool" where
  "digit_between c \<longleftrightarrow> CHR ''1'' \<le> c \<and> c \<le> CHR ''4''"

definition component_count :: "string \<Rightarrow> nat \<Rightarrow> u32" where
  "component_count t prefix_len =
     (if length t \<le> prefix_len then 1
      else let c = t ! prefix_len in if digit_between c then char_digit c else 0)"

definition dims_at :: "string \<Rightarrow> nat \<Rightarrow> (u32 \<times> u32) option" where
  "dims_at t prefix_len =
     (if length t < prefix_len + 3 then None
      else let r = t ! prefix_len; x = t ! (prefix_len + 1); c = t ! (prefix_len + 2) in
           if digit_between r \<and> x = CHR ''x'' \<and> digit_between c then Some (char_digit r, char_digit c) else None)"

definition matrix_cells :: "string \<Rightarrow> nat \<Rightarrow> u32" where
  "matrix_cells t prefix_len = (case dims_at t prefix_len of None \<Rightarrow> 0 | Some (r, c) \<Rightarrow> r * c)"

text \<open>The sizes of the two groupshared rules; zero for other types.\<close>

definition sizeof_scalar :: "string \<Rightarrow> u32" where
  "sizeof_scalar t =
     (if starts_with t ''float''
      then (let m = matrix_cells t 5 in if m \<noteq> 0 then 4 * m else 4 * component_count t 5)
      else if starts_with t ''uint'' \<and> \<not> starts_with t ''uint64'' then 4 * component_count t 4
      else if starts_with t ''int'' \<and> \<not> starts_with t ''int64'' then 4 * component_count t 3
      else if starts_with t ''bool'' then 4 * component_count t 4
      else if starts_with t ''half'' then 2 * component_count t 4
      else if starts_with t ''double'' then 8 * component_count t 6
      else 0)"

text \<open>Those of the payload rule.\<close>

definition scalar_size :: "string \<Rightarrow> u32" where
  "scalar_size t =
     (if starts_with t ''float''
      then (let m = matrix_cells t 5 in if m \<noteq> 0 then 4 * m else 4 * component_count t 5)
      else if starts_with t ''uint'' \<and> \<not> starts_with t ''uint64'' then 4 * component_count t 4
      else if starts_with t ''int'' \<and> \<not> starts_with t ''int64'' then 4 * component_count t 3
      else if starts_with t ''bool'' then 4 * component_count t 4
      else if starts_with t ''half'' \<or> starts_with t ''min16''
        then 2 * component_count t (if starts_with t ''half'' then 4 else 10)
      else if starts_with t ''double'' then 8 * component_count t 6
      else 0)"

text \<open>And those of the stride rule, which counts an unknown suffix as one component.\<close>

definition suffix_count :: "string \<Rightarrow> nat \<Rightarrow> u32" where
  "suffix_count t prefix_len =
     (if length t \<le> prefix_len then 1
      else let c = t ! prefix_len in if digit_between c then char_digit c else 1)"

definition matrix_dims :: "string \<Rightarrow> nat \<Rightarrow> u32 \<times> u32" where
  "matrix_dims t prefix_len = (case dims_at t prefix_len of None \<Rightarrow> (1, 1) | Some rc \<Rightarrow> rc)"

definition sizeof_type :: "string \<Rightarrow> u32" where
  "sizeof_type t =
     (let no_x = (CHR ''x'' \<notin> set t); cells = (\<lambda>n. case matrix_dims t n of (r, c) \<Rightarrow> 4 * r * c) in
      if starts_with t ''float'' \<and> no_x then 4 * suffix_count t 5
      else if starts_with t ''int'' \<and> \<not> starts_with t ''int64'' \<and> no_x then 4 * suffix_count t 3
      else if starts_with t ''uint'' \<and> \<not> starts_with t ''uint64'' \<and> no_x then 4 * suffix_count t 4
      else if starts_with t ''bool'' \<and> no_x then 4 * suffix_count t 4
      else if starts_with t ''half'' \<and> no_x then 2 * suffix_count t 4
      else if starts_with t ''double'' \<and> no_x then 8 * suffix_count t 6
      else if starts_with t ''float'' then cells 5
      else if starts_with t ''int'' then cells 3
      else if starts_with t ''uint'' then cells 4
      else 0)"

definition primitive_size :: "string \<Rightarrow> u32 option" where
  "primitive_size name =
     (if name \<in> {''float'', ''uint'', ''int'', ''bool'', ''dword''} then Some 4
      else if name \<in> {''half'', ''min16float'', ''min16uint'', ''min16int'', ''uint16_t'', ''int16_t'', ''float16_t''} then Some 2
      else if name \<in> {''double'', ''uint64_t'', ''int64_t''} then Some 8
      else if name = ''float2'' then Some 8
      else if name = ''float3'' then Some 12
      else if name = ''float4'' then Some 16
      else if name = ''half2'' then Some 4
      else if name = ''half3'' then Some 6
      else if name = ''half4'' then Some 8
      else if name = ''int2'' \<or> name = ''uint2'' then Some 8
      else if name = ''int3'' \<or> name = ''uint3'' then Some 12
      else if name = ''int4'' \<or> name = ''uint4'' then Some 16
      else if name \<in> {''float4x4'', ''row_major float4x4'', ''column_major float4x4''} then Some 64
      else if name = ''float3x3'' then Some 36
      else if name = ''float4x3'' \<or> name = ''float3x4'' then Some 48
      else None)"

section \<open>Shared declarations\<close>

definition trim_text :: "string \<Rightarrow> string" where
  "trim_text s =
     (let blank = (\<lambda>c. c = CHR '' '' \<or> c = tab_char \<or> c = newline) in
      rev (dropWhile blank (rev (dropWhile blank s))))"

definition digits_value :: "string \<Rightarrow> u32" where
  "digits_value digits = fold (\<lambda>c v. v * 10 + char_digit c) digits 0"

definition dim_value :: "string \<Rightarrow> u32 option" where
  "dim_value digits = (if digits \<noteq> [] \<and> list_all is_digit_char digits then Some (digits_value digits) else None)"

text \<open>The dimensions after a name: the product, and where they end; a dimension that is no number gives zero.\<close>

function array_dims :: "string \<Rightarrow> nat \<Rightarrow> u32 \<Rightarrow> u32 \<times> nat" where
  "array_dims bytes i element_count =
     (if i < length bytes \<and> bytes ! i = CHR ''[''
      then let j = skip_while (\<lambda>c. c \<noteq> CHR '']'') bytes (i + 1) in
           if j \<ge> length bytes then (element_count, j)
           else case dim_value (trim_text (substr bytes (i + 1) (j - (i + 1)))) of
                  None \<Rightarrow> (0, j)
                | Some v \<Rightarrow> array_dims bytes (j + 1) (element_count * v)
      else (element_count, i))"
  by pat_completeness auto
termination
proof (relation "measure (\<lambda>(bytes, i, element_count). length bytes - i)", goal_cases)
  case (2 bytes i element_count j v)
  have "i + 1 \<le> j" unfolding 2(2) by simp
  then show ?case using 2(1) by (simp add: diff_less_mono2)
qed simp

declare array_dims.simps [simp del]

abbreviation skip_spaces :: "string \<Rightarrow> nat \<Rightarrow> nat" where
  "skip_spaces \<equiv> skip_while (\<lambda>c. c = CHR '' '' \<or> c = tab_char)"

text \<open>A declaration after its keyword: the size of its type, its number of elements, and where it ends.\<close>

definition shared_declaration :: "string \<Rightarrow> nat \<Rightarrow> u32 \<times> u32 \<times> nat" where
  "shared_declaration bytes i =
     (let i = skip_spaces bytes i;
          i = (if length bytes - i \<ge> 8 \<and> substr bytes i 8 = ''volatile'' then skip_spaces bytes (i + 8) else i);
          type_end = skip_while (\<lambda>c. is_id_char c \<or> c = CHR ''x'') bytes i;
          type_text = substr bytes i (type_end - i);
          name_end = skip_while is_id_char bytes (skip_spaces bytes type_end);
          (element_count, i) = array_dims bytes name_end 1
      in (sizeof_scalar type_text, element_count, i))"

lemma le_skip_while: "k \<le> i \<Longrightarrow> k \<le> skip_while P s i"
  by (rule order_trans [OF _ skip_while_ge])

lemma array_dims_ge: "i \<le> snd (array_dims bytes i n)"
proof (induction bytes i n rule: array_dims.induct)
  case (1 bytes i n)
  show ?case
  proof (cases "i < length bytes \<and> bytes ! i = CHR ''[''")
    case True
    define j where "j = skip_while (\<lambda>c. c \<noteq> CHR '']'') bytes (i + 1)"
    have j: "i + 1 \<le> j" by (simp add: j_def)
    have unfold: "array_dims bytes i n =
        (if j \<ge> length bytes then (n, j)
         else case dim_value (trim_text (substr bytes (i + 1) (j - (i + 1)))) of
                None \<Rightarrow> (0, j) | Some v \<Rightarrow> array_dims bytes (j + 1) (n * v))"
      using True unfolding j_def by (subst array_dims.simps) (simp only: Let_def simp_thms if_True)
    have "j + 1 \<le> snd (array_dims bytes (j + 1) (n * v))"
      if "\<not> length bytes \<le> j" "dim_value (trim_text (substr bytes (i + 1) (j - (i + 1)))) = Some v" for v
      using 1 [OF True j_def] that by simp
    then show ?thesis unfolding unfold using j by (fastforce split: option.splits)
  next
    case False
    then show ?thesis by (subst array_dims.simps) auto
  qed
qed

lemma shared_declaration_ge: "i \<le> snd (snd (shared_declaration bytes i))"
proof -
  have "n \<le> k \<Longrightarrow> n \<le> snd (array_dims bytes k 1)" for n k by (rule order_trans [OF _ array_dims_ge])
  then show ?thesis
    by (simp add: shared_declaration_def Let_def split_beta le_skip_while trans_le_add1)
qed

text \<open>The total, and the range of the first declaration.\<close>

function scan_shared :: "string \<Rightarrow> nat \<Rightarrow> u32 \<Rightarrow> byte_span option \<Rightarrow> u32 \<times> byte_span option" where
  "scan_shared bytes pos tot first =
     (if pos \<ge> length bytes then (tot, first)
      else case find_text bytes ''groupshared'' pos of
             None \<Rightarrow> (tot, first)
           | Some found \<Rightarrow>
               let after = found + 11 in
               if \<not> (found = 0 \<or> \<not> is_id_char (bytes ! (found - 1))) \<or>
                  \<not> (after \<ge> length bytes \<or> \<not> is_id_char (bytes ! after))
               then scan_shared bytes (found + 1) tot first
               else let (per_elem, element_count, i) = shared_declaration bytes after in
                    scan_shared bytes i
                      (if per_elem \<noteq> 0 \<and> element_count \<noteq> 0 then tot + per_elem * element_count else tot)
                      (if first = None then Some \<lparr>bs_lo = u32_of found, bs_hi = u32_of i\<rparr> else first))"
  by pat_completeness auto
termination
proof (relation "measure (\<lambda>(bytes, pos, tot, first). Suc (length bytes) - pos)", goal_cases)
  case (2 bytes pos tot first found after)
  have "pos \<le> found" using find_text_bounds [OF 2(2)] by blast
  then show ?case using 2(1) by auto
next
  case (3 bytes pos tot first found after x per_elem y element_count i)
  have "after \<le> i" using shared_declaration_ge [of after bytes] 3(5-7) by (metis snd_conv)
  moreover have "pos \<le> found" using find_text_bounds [OF 3(2)] by blast
  ultimately show ?case using 3(1,3) by auto
qed simp

declare scan_shared.simps [simp del]

definition total_groupshared_bytes :: "string \<Rightarrow> u32" where
  "total_groupshared_bytes bytes = fst (scan_shared bytes 0 0 None)"

section \<open>Groupshared totals\<close>

definition tree_rule :: "string \<Rightarrow> (ast_tree \<Rightarrow> diagnostic list) \<Rightarrow> (unit, 'r, 'c, 'i) rule" where
  "tree_rule i check = (default_rule i ())\<lparr>rl_on_tree := (\<lambda>view t s. (s, check t))\<rparr>"

definition too_large_check :: "ast_tree \<Rightarrow> diagnostic list" where
  "too_large_check t =
     (case scan_shared (at_bytes t) 0 0 None of
        (tot, None) \<Rightarrow> []
      | (tot, Some bs) \<Rightarrow>
          if tot \<le> 16384 then []
          else [rule_diagnostic ''groupshared-too-large'' (at_source t) bs
                  (''total `groupshared` allocation is '' @ number tot @ '' bytes (> '' @ number 16384 @
                   ''-byte threshold) -- LDS pressure caps CU/SM occupancy at one thread '' @
                   ''group, eliminating wave-level latency hiding'') []])"

definition groupshared_too_large :: "(unit, 'r, 'c, 'i) rule" where
  "groupshared_too_large = tree_rule ''groupshared-too-large'' too_large_check"

text \<open>A function with the attribute between it and the last separator before it.\<close>

definition numthreads_before :: "string \<Rightarrow> ts_node \<Rightarrow> bool" where
  "numthreads_before bytes n =
     (let fn_lo = unat (ts_start n); i = prefix_start bytes fn_lo in
      contains_text (substr bytes i (fn_lo - i)) ''numthreads('')"

definition find_entry_point_with_numthreads :: "ts_node \<Rightarrow> string \<Rightarrow> ts_node option" where
  "find_entry_point_with_numthreads tr bytes =
     find (\<lambda>n. ts_kind n = ''function_definition'' \<and> numthreads_before bytes n) (preorder tr)"

definition suggested_limit :: "u32 \<Rightarrow> u32" where
  "suggested_limit tot = ((tot + 65536 - 1) div 65536) * 65536"

definition limit_text :: "u32 \<Rightarrow> string" where
  "limit_text n = ''[GroupSharedLimit('' @ number n @ '')]''"

definition over_32k_message :: "u32 \<Rightarrow> string" where
  "over_32k_message tot =
     ''total `groupshared` allocation is '' @ number tot @
     '' bytes (> 32 KB SM 6.10 default) but the entry point lacks '' @
     ''`[GroupSharedLimit(N)]` -- compile-errors on SM 6.10 retail and '' @
     ''silently truncates on SM <= 6.9''"

definition limit_fix :: "source_id \<Rightarrow> ts_node \<Rightarrow> u32 \<Rightarrow> fix_t" where
  "limit_fix source entry tot =
     replacing_fix True (''Insert `'' @ limit_text (suggested_limit tot) @ ''` before the entry-point declaration'') source
       \<lparr>bs_lo = ts_start entry, bs_hi = ts_start entry\<rparr> (limit_text (suggested_limit tot) @ [newline])"

definition over_32k_check :: "ast_tree \<Rightarrow> diagnostic list" where
  "over_32k_check t =
     (let bytes = at_bytes t; tot = total_groupshared_bytes bytes in
      if tot \<le> 32768 then []
      else case find_entry_point_with_numthreads (at_root t) bytes of
             Some entry \<Rightarrow>
               (if \<exists>limit \<in> set_option (parse_groupshared_limit_attribute bytes (Some entry)). limit \<ge> tot then []
                else [rule_diagnostic ''groupshared-over-32k-without-attribute'' (at_source t) (range_of entry)
                        (over_32k_message tot) [limit_fix (at_source t) entry tot]])
           | None \<Rightarrow>
               (if contains_text bytes ''GroupSharedLimit'' then []
                else [rule_diagnostic ''groupshared-over-32k-without-attribute'' (at_source t) \<lparr>bs_lo = 0, bs_hi = 0\<rparr>
                        (over_32k_message tot) []]))"

definition groupshared_over_32k_without_attribute :: "(unit, 'r, 'c, 'i) rule" where
  "groupshared_over_32k_without_attribute = tree_rule ''groupshared-over-32k-without-attribute'' over_32k_check"

section \<open>Ray payloads\<close>

definition strip_chars :: "(char \<Rightarrow> bool) \<Rightarrow> string \<Rightarrow> string" where
  "strip_chars P s = rev (dropWhile P (rev (dropWhile P s)))"

definition payload_uint :: "string \<Rightarrow> u32" where
  "payload_uint s = (if list_all is_digit_char s then digits_value s else 0)"

text \<open>The bytes of one field.\<close>

definition payload_count :: "string \<Rightarrow> u32" where
  "payload_count stmt =
     (case find_text stmt ''['' 0 of
        None \<Rightarrow> 1
      | Some lb \<Rightarrow>
          (case find_text stmt '']'' (lb + 1) of
             None \<Rightarrow> 1
           | Some rb \<Rightarrow>
               let n = payload_uint (strip_chars (\<lambda>c. c = CHR '' '' \<or> c = tab_char) (substr stmt (lb + 1) (rb - lb - 1)))
               in if n \<noteq> 0 then n else 1))"

definition payload_field :: "string \<Rightarrow> u32" where
  "payload_field stmt =
     (let per = scalar_size (takeWhile is_id_char stmt) in if per = 0 then 0 else per * payload_count stmt)"

function sum_struct_size :: "string \<Rightarrow> nat \<Rightarrow> u32 \<Rightarrow> u32" where
  "sum_struct_size body_text pos tot =
     (if pos \<ge> length body_text then tot
      else let pos = skip_while (\<lambda>c. attr_blank c \<or> c = CHR ''{'' \<or> c = CHR ''}'') body_text pos in
           case find_text body_text '';'' pos of
             None \<Rightarrow> tot
           | Some semi \<Rightarrow>
               sum_struct_size body_text (semi + 1) (tot + payload_field (substr body_text pos (semi - pos))))"
  by pat_completeness auto
termination
proof (relation "measure (\<lambda>(body_text, pos, tot). Suc (length body_text) - pos)", goal_cases)
  case (2 body_text pos tot p semi)
  have "p \<le> semi" using find_text_bounds [OF 2(3)] by blast
  moreover have "pos \<le> p" unfolding 2(2) by simp
  ultimately show ?case using 2(1) by auto
qed simp

declare sum_struct_size.simps [simp del]

definition payload_body :: "string \<Rightarrow> string option" where
  "payload_body struct_text =
     (case (find_text struct_text ''{'' 0, find_last_of struct_text (CHR ''}'')) of
        (Some lb, Some rb) \<Rightarrow> if rb > lb then Some (substr struct_text (lb + 1) (rb - lb - 1)) else None
      | _ \<Rightarrow> None)"

definition payload_struct :: "ast_tree \<Rightarrow> ts_node \<Rightarrow> diagnostic list" where
  "payload_struct t n =
     (if ts_kind n = ''struct_specifier''
      then (case payload_body (node_text (Some n) (at_bytes t)) of
              None \<Rightarrow> []
            | Some body \<Rightarrow>
                let tot = sum_struct_size body 0 0 in
                if tot > 32
                then [rule_diagnostic ''oversized-ray-payload'' (at_source t) (range_of n)
                        (''struct used as a DXR ray payload is '' @ number tot @
                         '' bytes (> 32-byte register-only ceiling) -- payload spills to the '' @
                         ''on-chip ray stack on every `TraceRay`, costing latency on every '' @
                         ''leaf-traversal step'') []]
                else [])
      else [])"

definition ray_payload_check :: "ast_tree \<Rightarrow> reflection_info \<Rightarrow> diagnostic list" where
  "ray_payload_check t reflection =
     (if list_ex (contains_text (at_bytes t))
           [''TraceRay'', ''ReportHit'', ''\"closesthit\"'', ''\"anyhit\"'', ''\"raygeneration\"'', ''\"miss\"'']
      then concat (map (payload_struct t) (preorder (at_root t)))
      else [])"

definition oversized_ray_payload :: "(unit, reflection_info, 'c, 'i) rule" where
  "oversized_ray_payload = reflect_rule ''oversized-ray-payload'' ray_payload_check"

section \<open>Strides of structured buffers\<close>

definition stride_count :: "string \<Rightarrow> u32" where
  "stride_count rest =
     (case (find_text rest ''['' 0, find_text rest '']'' 0) of
        (Some lb, Some rb) \<Rightarrow>
          if rb > lb + 1
          then (case dim_value (trim_text (substr rest (lb + 1) (rb - lb - 1))) of None \<Rightarrow> 1 | Some v \<Rightarrow> v)
          else 1
      | _ \<Rightarrow> 1)"

text \<open>One field: nothing for text that is no declaration, \<open>Some 0\<close> for a type without a size.\<close>

definition stride_field :: "string \<Rightarrow> (u32 \<times> u32) option" where
  "stride_field field =
     (case find_text field '' '' 0 of
        None \<Rightarrow> None
      | Some sp \<Rightarrow> Some (sizeof_type (trim_text (take sp field)), stride_count (trim_text (drop sp field))))"

function struct_size_from_body :: "string \<Rightarrow> nat \<Rightarrow> u32 \<Rightarrow> u32" where
  "struct_size_from_body body i tot =
     (if i \<ge> length body then tot
      else let start = skip_while (\<lambda>c. attr_blank c \<or> c = CHR '';'') body i in
           if start \<ge> length body then tot
           else let stop = skip_while (\<lambda>c. c \<noteq> CHR '';'' \<and> c \<noteq> CHR ''}'') body start in
                if stop \<ge> length body then tot
                else case stride_field (trim_text (substr body start (stop - start))) of
                       None \<Rightarrow> struct_size_from_body body (stop + 1) tot
                     | Some (base, n) \<Rightarrow>
                         if base = 0 then 0 else struct_size_from_body body (stop + 1) (tot + base * n))"
  by pat_completeness auto
termination
proof (relation "measure (\<lambda>(body, i, tot). length body - i)", goal_cases)
  case (2 body i tot start stop)
  have "start \<le> stop" unfolding 2(4) by simp
  moreover have "i \<le> start" unfolding 2(2) by simp
  ultimately show ?case using 2(1) by (simp add: diff_less_mono2)
next
  case (3 body i tot start stop a base n)
  have "start \<le> stop" unfolding 3(4) by simp
  moreover have "i \<le> start" unfolding 3(2) by simp
  ultimately show ?case using 3(1) by (simp add: diff_less_mono2)
qed simp

declare struct_size_from_body.simps [simp del]

record struct_def =
  st_size_bytes :: u32
  st_declaration_span :: byte_span

text \<open>The struct a node's text declares, by the first \<open>struct\<close> in it.\<close>

definition named_struct :: "string \<Rightarrow> (string \<times> u32) option" where
  "named_struct txt =
     (case find_text txt ''struct'' 0 of
        None \<Rightarrow> None
      | Some sp \<Rightarrow>
          let name_start = skip_spaces txt (sp + 6);
              i = skip_while is_id_char txt name_start;
              name = substr txt name_start (i - name_start)
          in case (find_text txt ''{'' i, find_last_of txt (CHR ''}'')) of
               (Some lb, Some rb) \<Rightarrow>
                 if name \<noteq> [] \<and> rb > lb + 1
                 then Some (name, struct_size_from_body (substr txt (lb + 1) (rb - lb - 1)) 0 0) else None
             | _ \<Rightarrow> None)"

definition struct_at :: "string \<Rightarrow> ts_node \<Rightarrow> (string \<times> struct_def) list" where
  "struct_at bytes n =
     (if ts_kind n \<in> {''struct_specifier'', ''struct_declaration'', ''type_definition'', ''field_declaration_list''}
      then (case named_struct (node_text (Some n) bytes) of
              Some (name, sz) \<Rightarrow>
                if sz \<noteq> 0 then [(name, \<lparr>st_size_bytes = sz, st_declaration_span = range_of n\<rparr>)] else []
            | None \<Rightarrow> [])
      else [])"

text \<open>\<open>emplace\<close> keeps the first struct of a name.\<close>

definition collect_struct_sizes :: "ts_node \<Rightarrow> string \<Rightarrow> string \<rightharpoonup> struct_def" where
  "collect_struct_sizes tr bytes = map_of (concat (map (struct_at bytes) (preorder tr)))"

definition stride_type :: "string \<Rightarrow> string \<Rightarrow> string option" where
  "stride_type txt pre =
     (case find_text txt pre 0 of
        None \<Rightarrow> None
      | Some pos \<Rightarrow>
          let name_start = pos + length pre in
          map_option (\<lambda>stop. trim_text (substr txt name_start (stop - name_start))) (find_text txt ''>'' name_start))"

definition stride_mismatch :: "(string \<rightharpoonup> struct_def) \<Rightarrow> string \<Rightarrow> string \<Rightarrow> (string \<times> u32) option" where
  "stride_mismatch structs txt pre =
     (case stride_type txt pre of
        None \<Rightarrow> None
      | Some type_name \<Rightarrow>
          (case structs type_name of
             None \<Rightarrow> None
           | Some d \<Rightarrow> if st_size_bytes d = 0 \<or> st_size_bytes d mod 16 = 0 then None else Some (type_name, st_size_bytes d)))"

definition scan_structured_buffer_decls :: "ast_tree \<Rightarrow> (string \<rightharpoonup> struct_def) \<Rightarrow> ts_node \<Rightarrow> diagnostic list" where
  "scan_structured_buffer_decls t structs n =
     (if ts_kind n \<in> {''declaration'', ''global_variable_declaration'', ''variable_declaration'', ''field_declaration''}
      then (case List.map_filter (stride_mismatch structs (node_text (Some n) (at_bytes t)))
                   [''StructuredBuffer<'', ''RWStructuredBuffer<''] of
              [] \<Rightarrow> []
            | (type_name, sz) # _ \<Rightarrow>
                [rule_diagnostic ''structured-buffer-stride-mismatch'' (at_source t) (range_of n)
                   (''structured-buffer element type `'' @ type_name @ ''` is '' @ number sz @
                    '' bytes (not a multiple of 16) -- pad to a 16-byte boundary to avoid '' @
                    ''cache-line straddling on every Nth element load'') []])
      else [])"

definition stride_mismatch_check :: "ast_tree \<Rightarrow> diagnostic list" where
  "stride_mismatch_check t =
     concat (map (scan_structured_buffer_decls t (collect_struct_sizes (at_root t) (at_bytes t))) (preorder (at_root t)))"

definition structured_buffer_stride_mismatch :: "(unit, 'r, 'c, 'i) rule" where
  "structured_buffer_stride_mismatch = tree_rule ''structured-buffer-stride-mismatch'' stride_mismatch_check"

text \<open>The second stride rule reads the struct from the syntax tree.\<close>

definition extract_type_parameter :: "string \<Rightarrow> string" where
  "extract_type_parameter decl_text =
     (case (find_text decl_text ''<'' 0, find_last_of decl_text (CHR ''>'')) of
        (Some lt, Some gt) \<Rightarrow>
          if gt \<le> lt + 1 then []
          else strip_chars (\<lambda>c. c = CHR '' '' \<or> c = tab_char) (substr decl_text (lt + 1) (gt - lt - 1))
      | _ \<Rightarrow> [])"

definition find_struct :: "ts_node \<Rightarrow> string \<Rightarrow> string \<Rightarrow> ts_node option" where
  "find_struct tr bytes target =
     find (\<lambda>n. ts_kind n = ''struct_specifier'' \<and> child_by_field n ''name'' \<noteq> None \<and>
               node_text (child_by_field n ''name'') bytes = target) (preorder tr)"

definition field_size :: "string \<Rightarrow> ts_node \<Rightarrow> u32 option" where
  "field_size bytes field =
     (case child_by_field field ''type'' of
        None \<Rightarrow> None
      | Some type_node \<Rightarrow>
          if child_by_field field ''declarator'' \<noteq> None \<and>
             contains_text (node_text (child_by_field field ''declarator'') bytes) ''[''
          then None else primitive_size (node_text (Some type_node) bytes))"

fun sum_fields :: "string \<Rightarrow> ts_node list \<Rightarrow> u32 \<Rightarrow> u32 option" where
  "sum_fields bytes [] tot = Some tot"
| "sum_fields bytes (field # fs) tot =
     (if ts_kind field \<noteq> ''field_declaration'' then sum_fields bytes fs tot
      else case field_size bytes field of None \<Rightarrow> None | Some sz \<Rightarrow> sum_fields bytes fs (tot + sz))"

definition struct_size :: "ts_node \<Rightarrow> string \<Rightarrow> u32 option" where
  "struct_size struct_node bytes =
     (case find (\<lambda>c. ts_kind c = ''field_declaration_list'') (child_nodes struct_node) of
        None \<Rightarrow> None
      | Some body \<Rightarrow>
          (case sum_fields bytes (named_children body) 0 of
             None \<Rightarrow> None
           | Some tot \<Rightarrow> if tot = 0 then None else Some tot))"

definition declares :: "string \<Rightarrow> string \<Rightarrow> ts_node \<Rightarrow> bool" where
  "declares bytes target n =
     (ts_kind n = ''declaration'' \<and>
      (case child_by_field n ''declarator'' of
         None \<Rightarrow> False
       | Some declarator \<Rightarrow>
           let name_node = (if ts_kind declarator = ''init_declarator''
                 then (case child_by_field declarator ''declarator'' of None \<Rightarrow> declarator | Some inner \<Rightarrow> inner)
                 else declarator)
           in node_text (Some name_node) bytes = target))"

definition find_declaration :: "ts_node \<Rightarrow> string \<Rightarrow> string \<Rightarrow> ts_node option" where
  "find_declaration tr bytes target = find (declares bytes target) (preorder tr)"

text \<open>The declaration of a binding, its element type and the stride, where all are found.\<close>

definition binding_stride :: "ast_tree \<Rightarrow> resource_binding \<Rightarrow> (ts_node \<times> string \<times> u32) option" where
  "binding_stride t b =
     (case find_declaration (at_root t) (at_bytes t) (rb_name b) of
        None \<Rightarrow> None
      | Some decl \<Rightarrow>
          (case child_by_field decl ''type'' of
             None \<Rightarrow> None
           | Some type_node \<Rightarrow>
               let type_param = extract_type_parameter (node_text (Some type_node) (at_bytes t)) in
               if type_param = [] then None
               else case find_struct (at_root t) (at_bytes t) type_param of
                      None \<Rightarrow> None
                    | Some struct_node \<Rightarrow>
                        map_option (\<lambda>stride. (decl, type_param, stride)) (struct_size struct_node (at_bytes t))))"

definition check_binding :: "ast_tree \<Rightarrow> resource_binding \<Rightarrow> diagnostic list" where
  "check_binding t b =
     (case binding_stride t b of
        None \<Rightarrow> []
      | Some (decl, type_param, stride) \<Rightarrow>
          if stride = 0 \<or> stride mod 4 \<noteq> 0 \<or> stride mod 64 = 0 then []
          else [rule_diagnostic ''structured-buffer-stride-not-cache-aligned'' (at_source t) (range_of decl)
                  (''`'' @ rb_name b @ ''` has element type `'' @ type_param @ ''` with stride '' @ number stride @
                   '' bytes -- not a multiple of the '' @ number 64 @
                   ''-byte cache line, so every random read straddles two lines on RDNA / Turing / Ada'') []])"

definition not_cache_aligned_check :: "ast_tree \<Rightarrow> reflection_info \<Rightarrow> diagnostic list" where
  "not_cache_aligned_check t reflection =
     concat (map (\<lambda>b.
       if rb_kind b \<in> {StructuredBuffer, RWStructuredBuffer, AppendStructuredBuffer, ConsumeStructuredBuffer}
       then check_binding t b else []) (ri_bindings reflection))"

definition structured_buffer_stride_not_cache_aligned :: "(unit, reflection_info, 'c, 'i) rule" where
  "structured_buffer_stride_not_cache_aligned =
     reflect_rule ''structured-buffer-stride-not-cache-aligned'' not_cache_aligned_check"

section \<open>Totals of declarations\<close>

text \<open>A declaration as it is written, and what it contributes.\<close>

type_synonym shared_var = "string \<times> string \<times> nat list"

definition dims_text :: "nat list \<Rightarrow> string" where
  "dims_text ns = concat (map (\<lambda>n. ''['' @ to_decimal n @ '']'') ns)"

definition shared_text :: "shared_var \<Rightarrow> string" where
  "shared_text = (\<lambda>(ty, name, ns). ''groupshared '' @ ty @ '' '' @ name @ dims_text ns)"

definition shared_bytes :: "shared_var \<Rightarrow> u32" where
  "shared_bytes = (\<lambda>(ty, name, ns). sizeof_scalar ty * prod_list (map u32_of ns))"

definition well_named :: "shared_var \<Rightarrow> bool" where
  "well_named = (\<lambda>(ty, name, ns).
     ty \<noteq> [] \<and> list_all is_id_char ty \<and> \<not> starts_with ty ''volatile'' \<and> name \<noteq> [] \<and> list_all is_id_char name)"

text \<open>Text without the keyword that does not end in the middle of a word.\<close>

definition plain_gap :: "string \<Rightarrow> bool" where
  "plain_gap g \<longleftrightarrow> find_text g ''groupshared'' 0 = None \<and> (g = [] \<or> \<not> is_id_char (last g))"

definition closes :: "string \<Rightarrow> bool" where
  "closes g \<longleftrightarrow> g \<noteq> [] \<and> \<not> is_id_char (hd g) \<and> hd g \<noteq> CHR ''[''"

definition shared_source :: "(shared_var \<times> string) list \<Rightarrow> string" where
  "shared_source ds = concat (map (\<lambda>(d, g). shared_text d @ g) ds)"

lemma find_text_here:
  assumes "pos \<le> i" and "take (length pattern) (drop i s) = pattern" and "i + length pattern \<le> length s"
    and "\<And>j. pos \<le> j \<Longrightarrow> j < i \<Longrightarrow> take (length pattern) (drop j s) \<noteq> pattern"
  shows "find_text s pattern pos = Some i"
proof (cases "find_text s pattern pos")
  case None
  then show ?thesis using find_text_None [OF None assms(1,3)] assms(2) by simp
next
  case (Some k)
  note f = find_text_Some [OF Some]
  show ?thesis
  proof (cases k i rule: linorder_cases)
    case less
    then show ?thesis using f assms(4) by blast
  next
    case equal
    then show ?thesis using Some by simp
  next
    case greater
    then show ?thesis using f assms(1,2) by blast
  qed
qed

lemma id_chars: "\<not> is_id_char CHR '' ''" "\<not> is_id_char tab_char" "\<not> is_id_char newline" "\<not> is_id_char CHR ''[''"
  "is_id_char CHR ''x''" "list_all is_id_char ''groupshared''" "\<not> is_id_char CHR '']''"
  by code_simp+

lemma digit_char_plain: "is_digit_char c \<Longrightarrow> c \<noteq> CHR '' '' \<and> c \<noteq> tab_char \<and> c \<noteq> newline \<and> c \<noteq> CHR '']''"
proof -
  have "\<not> is_digit_char CHR '' ''" "\<not> is_digit_char tab_char" "\<not> is_digit_char newline" "\<not> is_digit_char CHR '']''"
    by code_simp+
  then show "is_digit_char c \<Longrightarrow> c \<noteq> CHR '' '' \<and> c \<noteq> tab_char \<and> c \<noteq> newline \<and> c \<noteq> CHR '']''" by metis
qed

lemma dropWhile_none: "\<forall>c \<in> set s. \<not> P c \<Longrightarrow> dropWhile P s = s"
  by (cases s) auto

lemma trim_decimal: "trim_text (to_decimal n) = to_decimal n"
  using to_decimal_digits [of n] by (simp add: trim_text_def dropWhile_none digit_char_plain)

lemma dim_decimal: "dim_value (to_decimal n) = Some (u32_of n)"
  using to_decimal_digits [of n] wrapped_decimal [of "to_decimal n"]
  by (simp add: dim_value_def digits_value_def list_all_iff)

lemma array_dims_text:
  assumes "rest = [] \<or> hd rest \<noteq> CHR ''[''"
  shows "array_dims (pre @ dims_text ns @ rest) (length pre) m = (m * prod_list (map u32_of ns), length pre + length (dims_text ns))"
proof (induction ns arbitrary: pre m)
  case Nil
  show ?case using assms by (subst array_dims.simps) (cases rest; simp add: dims_text_def nth_append)
next
  case (Cons n ns)
  let ?tail = "dims_text ns @ rest"
  let ?b = "pre @ ''['' @ to_decimal n @ '']'' @ ?tail"
  let ?j = "length pre + 1 + length (to_decimal n)"
  have j: "skip_while (\<lambda>c. c \<noteq> CHR '']'') ?b (length pre + 1) = ?j"
    using skip_while_append [of "to_decimal n" "\<lambda>c. c \<noteq> CHR '']''" "'']'' @ ?tail" "pre @ ''[''"] to_decimal_digits [of n]
    by (auto dest: digit_char_plain)
  have inside: "substr ?b (length pre + 1) (?j - (length pre + 1)) = to_decimal n" by (simp add: substr_def)
  have "array_dims ?b (length pre) m = array_dims ?b (?j + 1) (m * u32_of n)"
    by (subst array_dims.simps)
      (simp only: j inside trim_decimal dim_decimal Let_def, simp add: nth_append)
  also have "\<dots> = (m * u32_of n * prod_list (map u32_of ns), ?j + 1 + length (dims_text ns))"
    using Cons [of "pre @ ''['' @ to_decimal n @ '']''" "m * u32_of n"] by simp
  finally show ?case by (simp add: dims_text_def mult.assoc)
qed

lemma volatile_prefix:
  assumes "list_all is_id_char ty" and "\<not> starts_with ty ''volatile''"
  shows "take 8 (ty @ CHR '' '' # rest) \<noteq> ''volatile''"
proof
  assume eq: "take 8 (ty @ CHR '' '' # rest) = ''volatile''"
  have v: "CHR '' '' \<notin> set ''volatile''" by simp
  show False
  proof (cases "length ty < 8")
    case True
    then have "CHR '' '' \<in> set (take 8 (ty @ CHR '' '' # rest))"
      by (cases "8 - length ty") auto
    then show False using eq v by metis
  next
    case False
    then show False using eq assms(2) by (simp add: starts_with_def eval_nat_numeral)
  qed
qed

lemma shared_declaration_text:
  assumes "well_named (ty, name, ns)" and "rest = [] \<or> \<not> is_id_char (hd rest) \<and> hd rest \<noteq> CHR ''[''"
  shows "shared_declaration (pre @ '' '' @ ty @ '' '' @ name @ dims_text ns @ rest) (length pre) =
     (sizeof_scalar ty, prod_list (map u32_of ns), length pre + 2 + length ty + length name + length (dims_text ns))"
proof -
  let ?b = "pre @ '' '' @ ty @ '' '' @ name @ dims_text ns @ rest"
  have ty: "ty \<noteq> []" "list_all is_id_char ty" "\<not> starts_with ty ''volatile''" and name: "name \<noteq> []" "list_all is_id_char name"
    using assms(1) by (auto simp: well_named_def)
  have hd_id: "xs \<noteq> [] \<Longrightarrow> list_all is_id_char xs \<Longrightarrow> \<not> (hd xs = CHR '' '' \<or> hd xs = tab_char)" for xs
    using id_chars(1,2) by (cases xs) auto
  have after: "dims_text ns @ rest = [] \<or> \<not> is_id_char (hd (dims_text ns @ rest))"
    using assms(2) id_chars(4) by (cases ns) (auto simp: dims_text_def)
  have i: "skip_spaces ?b (length pre) = length pre + 1"
    using skip_while_append [of "'' ''" "\<lambda>c. c = CHR '' '' \<or> c = tab_char" "ty @ '' '' @ name @ dims_text ns @ rest" pre]
      hd_id [OF ty(1,2)] ty(1) by simp
  have v: "substr ?b (length pre + 1) 8 \<noteq> ''volatile''"
    using volatile_prefix [OF ty(2,3), of "name @ dims_text ns @ rest"] by (simp add: substr_def)
  have e: "skip_while (\<lambda>c. is_id_char c \<or> c = CHR ''x'') ?b (length pre + 1) = length pre + 1 + length ty"
    using skip_while_append [of ty "\<lambda>c. is_id_char c \<or> c = CHR ''x''" "'' '' @ name @ dims_text ns @ rest" "pre @ '' ''"]
      ty(2) id_chars(1) by (simp add: list_all_iff)
  have t: "substr ?b (length pre + 1) (length pre + 1 + length ty - (length pre + 1)) = ty" by (simp add: substr_def)
  have n: "skip_spaces ?b (length pre + 1 + length ty) = length pre + 2 + length ty"
    using skip_while_append [of "'' ''" "\<lambda>c. c = CHR '' '' \<or> c = tab_char" "name @ dims_text ns @ rest" "pre @ '' '' @ ty"]
      hd_id [OF name] name(1) by simp
  have ne: "skip_while is_id_char ?b (length pre + 2 + length ty) = length pre + 2 + length ty + length name"
    using skip_while_append [of name is_id_char "dims_text ns @ rest" "pre @ '' '' @ ty @ '' ''"] name(2) after
    by (simp add: list_all_iff)
  have d: "array_dims ?b (length pre + 2 + length ty + length name) 1 =
      (prod_list (map u32_of ns), length pre + 2 + length ty + length name + length (dims_text ns))"
    using array_dims_text [of rest "pre @ '' '' @ ty @ '' '' @ name" ns 1] assms(2) by (auto simp: ac_simps)
  show ?thesis
    unfolding shared_declaration_def i Let_def
    by (simp only: v simp_thms if_False e t n ne d prod.case)
qed

lemma no_straddle:
  assumes "plain_gap g" and "g \<noteq> []" and "i < length g"
  shows "take 11 (drop i (g @ rest)) \<noteq> ''groupshared''"
proof
  assume eq: "take 11 (drop i (g @ rest)) = ''groupshared''"
  show False
  proof (cases "i + 11 \<le> length g")
    case True
    then have "take 11 (drop i g) = ''groupshared''" using eq by simp
    then show False using find_text_None [of g "''groupshared''" 0 i] assms(1) True by (simp add: plain_gap_def eval_nat_numeral)
  next
    case False
    have "last g = (g @ rest) ! (length g - 1)" using assms(2) by (simp add: last_conv_nth nth_append)
    also have "\<dots> = (drop i (g @ rest)) ! (length g - 1 - i)" using assms(3) by (simp del: drop_append)
    also have "\<dots> = take 11 (drop i (g @ rest)) ! (length g - 1 - i)" using False assms(3) by (simp del: drop_append)
    finally have "last g \<in> set ''groupshared''"
      using eq False assms(3) nth_mem [of "length g - 1 - i" "''groupshared''"] by simp
    then show False using assms(1,2) id_chars(6) by (auto simp: plain_gap_def list_all_iff)
  qed
qed

lemma find_after_gap:
  assumes "plain_gap g"
  shows "find_text (pre @ g @ ''groupshared'' @ rest) ''groupshared'' (length pre) = Some (length pre + length g)"
proof (rule find_text_here)
  fix j assume j: "length pre \<le> j" "j < length pre + length g"
  then have "g \<noteq> []" "j - length pre < length g" by auto
  from no_straddle [OF assms this] j
  show "take (length ''groupshared'') (drop j (pre @ g @ ''groupshared'' @ rest)) \<noteq> ''groupshared''"
    by (simp add: eval_nat_numeral)
qed simp_all

lemma find_no_more:
  assumes "plain_gap g"
  shows "find_text (pre @ g) ''groupshared'' (length pre) = None"
proof (rule ccontr)
  assume "find_text (pre @ g) ''groupshared'' (length pre) \<noteq> None"
  then obtain i where i: "find_text (pre @ g) ''groupshared'' (length pre) = Some i" by blast
  note f = find_text_Some [OF i]
  have "i - length pre + length ''groupshared'' \<le> length g" using f by auto
  moreover have "take (length ''groupshared'') (drop (i - length pre) g) = ''groupshared''" using f by (simp del: One_nat_def) auto
  ultimately have "find_text g ''groupshared'' 0 \<noteq> None" using find_text_None [of g "''groupshared''" 0 "i - length pre"] by blast
  then show False using assms by (simp add: plain_gap_def)
qed

lemma scan_shared_step:
  assumes "pos < length bytes" and "find_text bytes ''groupshared'' pos = Some found"
    and "found = 0 \<or> \<not> is_id_char (bytes ! (found - 1))" and "\<not> is_id_char (bytes ! (found + 11))"
    and "shared_declaration bytes (found + 11) = (p, e, i)"
  shows "scan_shared bytes pos tot first = scan_shared bytes i (tot + p * e)
     (if first = None then Some \<lparr>bs_lo = u32_of found, bs_hi = u32_of i\<rparr> else first)"
  using assms by (subst scan_shared.simps) (simp add: Let_def)

lemma scan_shared_source:
  assumes "plain_gap g" and "pre = [] \<or> closes g" and "\<forall>(d, h) \<in> set ds. well_named d \<and> plain_gap h \<and> closes h"
  shows "fst (scan_shared (pre @ g @ shared_source ds) (length pre) tot first) = tot + sum_list (map (\<lambda>(d, h). shared_bytes d) ds)"
  using assms
proof (induction ds arbitrary: pre g tot first)
  case Nil
  then show ?case by (subst scan_shared.simps) (simp add: shared_source_def find_no_more)
next
  case (Cons dh ds)
  obtain ty name ns h where dh: "dh = ((ty, name, ns), h)" by (metis prod_cases3 prod.exhaust)
  let ?decl = "'' '' @ ty @ '' '' @ name @ dims_text ns"
  let ?rest = "h @ shared_source ds"
  let ?b = "pre @ g @ ''groupshared'' @ ?decl @ ?rest"
  let ?n = "length pre + length g"
  have b: "pre @ g @ shared_source (dh # ds) = ?b" by (simp add: shared_source_def dh shared_text_def)
  have h: "well_named (ty, name, ns)" "plain_gap h" "closes h" using Cons.prems(3) dh by auto
  have f: "find_text ?b ''groupshared'' (length pre) = Some ?n" by (rule find_after_gap [OF Cons.prems(1)])
  have left: "?n = 0 \<or> \<not> is_id_char (?b ! (?n - 1))"
  proof (cases "g = []")
    case True
    then show ?thesis using Cons.prems(2) by (simp add: closes_def)
  next
    case False
    then have "?n - 1 = length pre + (length g - 1)" and "length g - 1 < length g" by (cases g; simp)+
    then have "?b ! (?n - 1) = last g" using False by (simp only: nth_append_length_plus) (simp add: nth_append last_conv_nth)
    then show ?thesis using Cons.prems(1) False by (simp add: plain_gap_def)
  qed
  have right: "\<not> is_id_char (?b ! (?n + 11))" using id_chars(1) by (simp add: nth_append eval_nat_numeral)
  have decl: "shared_declaration ?b (?n + 11) =
      (sizeof_scalar ty, prod_list (map u32_of ns), ?n + 11 + length ?decl)"
  proof -
    have "?n + 11 = length (pre @ g @ ''groupshared'')" by simp
    moreover have "?b = (pre @ g @ ''groupshared'') @ '' '' @ ty @ '' '' @ name @ dims_text ns @ ?rest" by simp
    moreover have "?n + 11 + length ?decl =
        length (pre @ g @ ''groupshared'') + 2 + length ty + length name + length (dims_text ns)" by simp
    ultimately show ?thesis
      using shared_declaration_text [OF h(1), of ?rest "pre @ g @ ''groupshared''"] h(3)
      by (simp only: closes_def simp_thms hd_append2 append_is_Nil_conv)
  qed
  have "fst (scan_shared ?b (length pre) tot first) =
      fst (scan_shared ?b (?n + 11 + length ?decl) (tot + sizeof_scalar ty * prod_list (map u32_of ns))
        (if first = None then Some \<lparr>bs_lo = u32_of ?n, bs_hi = u32_of (?n + 11 + length ?decl)\<rparr> else first))"
    by (subst scan_shared_step [OF _ f left right decl]) simp_all
  also have "\<dots> = tot + sizeof_scalar ty * prod_list (map u32_of ns) + sum_list (map (\<lambda>(d, h). shared_bytes d) ds)"
  proof -
    have "?n + 11 + length ?decl = length (pre @ g @ ''groupshared'' @ ?decl)" by simp
    moreover have "?b = (pre @ g @ ''groupshared'' @ ?decl) @ h @ shared_source ds" by simp
    moreover have "\<forall>(d, h) \<in> set ds. well_named d \<and> plain_gap h \<and> closes h" using Cons.prems(3) by simp
    ultimately show ?thesis using Cons.IH [of h "pre @ g @ ''groupshared'' @ ?decl"] h by (simp only: simp_thms)
  qed
  finally show ?case unfolding b by (simp add: dh shared_bytes_def ac_simps)
qed

text \<open>What the scan counts: in a text where each keyword is followed by a plain type, a name and dimensions, and then
  by text without the keyword that does not run into a word, the total of the rules is the sum, in 32 bits, of the size their
  table has for each type times the product of the dimensions. Text in comments counts like any other, and further declarators
  after a comma do not.\<close>

theorem groupshared_total_exact:
  assumes "plain_gap g" and "\<forall>(d, h) \<in> set ds. well_named d \<and> plain_gap h \<and> closes h"
  shows "total_groupshared_bytes (g @ shared_source ds) = sum_list (map (\<lambda>(d, h). shared_bytes d) ds)"
  using scan_shared_source [of g "[]" ds 0 None] assms by (simp add: total_groupshared_bytes_def)

lemma groupshared_total_exact_witness:
  "total_groupshared_bytes (''#define N 4 '' @
     shared_source [((''float4'', ''tile'', [16, 16]), ''; ''), ((''uint'', ''my_groupshared'', [3]), ''; void f() {}'')]) = 4108"
proof -
  have "plain_gap ''#define N 4 ''" "plain_gap ''; ''" "plain_gap ''; void f() {}''" "closes ''; ''" "closes ''; void f() {}''"
    "well_named (''float4'', ''tile'', [16, 16])" "well_named (''uint'', ''my_groupshared'', [3])"
    "sizeof_scalar ''float4'' = 16" "sizeof_scalar ''uint'' = 4" by code_simp+
  then show ?thesis
    using groupshared_total_exact [of "''#define N 4 ''"
      "[((''float4'', ''tile'', [16, 16]), ''; ''), ((''uint'', ''my_groupshared'', [3]), ''; void f() {}'')]"]
    by (simp add: shared_bytes_def)
qed

section \<open>The suggested limit\<close>

lemma unat_suggested:
  assumes "unat tot + 65535 < 2 ^ 32"
  shows "unat (suggested_limit tot) = (unat tot + 65535) div 65536 * 65536"
proof -
  have "unat (tot + 65535) = unat tot + 65535" using assms by (simp add: unat_word_ariths)
  moreover have "tot + 65536 - 1 = tot + 65535" by simp
  moreover have "(unat tot + 65535) div 65536 * 65536 < 2 ^ 32"
    using assms by (metis div_times_less_eq_dividend le_less_trans)
  ultimately show ?thesis unfolding suggested_limit_def by (simp add: unat_word_ariths unat_div)
qed

lemma suggested_limit_wraps:
  assumes "2 ^ 32 \<le> unat tot + 65535"
  shows "suggested_limit tot = 0"
proof -
  have "unat tot < 2 ^ 32" using unsigned_less [of tot] by simp
  then have "unat (tot + 65535) = unat tot + 65535 - 2 ^ 32" using assms by (simp add: unat_word_ariths mod_if)
  then have "unat (tot + 65535) < 65536" using \<open>unat tot < 2 ^ 32\<close> by simp
  moreover have "tot + 65536 - 1 = tot + 65535" by simp
  ultimately have "unat ((tot + 65536 - 1) div 65536) = 0" by (simp only: unat_div) simp
  then have "(tot + 65536 - 1) div 65536 = 0" by (simp only: unat_eq_zero)
  then show ?thesis by (simp add: suggested_limit_def)
qed

lemma limit_attribute_read:
  assumes "CHR ''['' \<notin> set pfx"
  shows "scan_groupshared_limit (pfx @ limit_text n @ s) = Some n"
proof -
  let ?s = "pfx @ ''[GroupSharedLimit('' @ to_decimal (unat n) @ '')]'' @ s"
  let ?args = "\<lambda>j. map_option fst (parse_uint ?s j)"
  have d: "to_decimal (unat n) \<noteq> []" "\<not> attr_blank (hd (to_decimal (unat n)))" by (simp_all add: decimal_start)
  have j: "skip_ws ?s (length pfx + 1) = length pfx + 1"
    using skip_ws_here [of "''GroupSharedLimit('' @ to_decimal (unat n) @ '')]'' @ s" "pfx @ ''[''"] by (simp add: attr_blank_def)
  have k: "skip_ws ?s (length pfx + 17) = length pfx + 17"
    using skip_ws_here [of "''('' @ to_decimal (unat n) @ '')]'' @ s" "pfx @ ''[GroupSharedLimit''"] by (simp add: plain_chars numeral_eq_Suc)
  have a: "skip_ws ?s (length pfx + 18) = length pfx + 18"
    using skip_ws_here [of "to_decimal (unat n) @ '')]'' @ s" "pfx @ ''[GroupSharedLimit(''"] d by (simp add: numeral_eq_Suc)
  have p: "parse_uint ?s (length pfx + 18) = Some (n, length pfx + 18 + length (to_decimal (unat n)))"
    using parse_uint_decimal [of "'')]'' @ s" "pfx @ ''[GroupSharedLimit(''" n] by (simp add: plain_chars numeral_eq_Suc)
  have "attribute_arguments ''GroupSharedLimit'' ?s (length pfx + 1) ?args = Some n"
    using k a p by (simp add: attribute_arguments_def match_keyword_def plain_chars nth_append numeral_eq_Suc Let_def)
  then have "scan_attribute ''GroupSharedLimit'' ?s ?args (length pfx) = Some n"
    using j by (subst scan_attribute.simps) (simp add: Let_def)
  then show ?thesis
    using scan_attribute_skips [OF assms, of "''GroupSharedLimit''" "''[GroupSharedLimit('' @ to_decimal (unat n) @ '')]'' @ s" ?args]
    by (simp add: scan_groupshared_limit_def limit_text_def)
qed

text \<open>The fix of the rule on totals over 32 KiB silences it: unless the total is within 64 KiB of \<open>2\<^sup>32\<close>, the attribute
  it inserts is read back by the attribute reader, after any text without a bracket, as a multiple of 64 KiB that is at
  least the total.\<close>

theorem limit_fix_read_back:
  assumes "unat tot + 65535 < 2 ^ 32" and "CHR ''['' \<notin> set pfx"
  shows "\<exists>n. scan_groupshared_limit (pfx @ te_replacement (hd (fx_edits (limit_fix source entry tot))) @ s) = Some n \<and>
     tot \<le> n \<and> 65536 dvd unat n"
proof -
  have "unat tot \<le> unat (suggested_limit tot)" unfolding unat_suggested [OF assms(1)]
    using div_mult_mod_eq [of "unat tot + 65535" 65536] mod_less_divisor [of 65536 "unat tot + 65535"] by linarith
  moreover have "65536 dvd unat (suggested_limit tot)" unfolding unat_suggested [OF assms(1)] by simp
  ultimately show ?thesis using limit_attribute_read [OF assms(2), of "suggested_limit tot" "newline # s"]
    by (simp add: limit_fix_def replacing_fix_def word_le_nat_alt)
qed

lemma limit_fix_read_back_witness:
  "\<exists>n. scan_groupshared_limit (''static const int K = 1; '' @
     te_replacement (hd (fx_edits (limit_fix \<lparr>sid_value = 1\<rparr> (Ts_Node ''function_definition'' True 24 60 []) 40000))) @ ''void main()'') = Some n \<and>
     (40000 :: u32) \<le> n \<and> 65536 dvd unat n"
  using limit_fix_read_back [of 40000 "''static const int K = 1; ''" "\<lparr>sid_value = 1\<rparr>" "Ts_Node ''function_definition'' True 24 60 []" "''void main()''"]
  by simp

section \<open>Agreement of the size tables\<close>

text \<open>For 32-bit and double scalars and vectors and float matrices, the four tables agree where the last one knows the type.\<close>

lemma size_tables_agree:
  "list_all (\<lambda>t. sizeof_scalar t = scalar_size t \<and> sizeof_type t = scalar_size t \<and> primitive_size t \<in> {None, Some (scalar_size t)})
     [''float'', ''float1'', ''float2'', ''float3'', ''float4'', ''int'', ''int2'', ''int3'', ''int4'', ''uint'', ''uint2'',
      ''uint3'', ''uint4'', ''bool'', ''bool2'', ''bool3'', ''bool4'', ''half'', ''half2'', ''half3'', ''half4'', ''double'',
      ''double2'', ''double3'', ''double4'', ''float2x2'', ''float3x3'', ''float4x4'', ''float3x4'', ''float4x3'']"
  by code_simp

text \<open>For the sized and the minimum-precision types they do not.\<close>

lemma size_tables_differ:
  "sizeof_type ''float16_t'' = 4 \<and> primitive_size ''float16_t'' = Some 2 \<and>
   sizeof_type ''int64_t'' = 4 \<and> primitive_size ''int64_t'' = Some 8 \<and>
   scalar_size ''min16float'' = 2 \<and> sizeof_scalar ''min16float'' = 0 \<and>
   scalar_size ''min16int4'' = 2 \<and> scalar_size ''min16uint4'' = 2 \<and> sizeof_type ''double3x3'' = 0"
  by code_simp

end
