(* ===== verification/Divergence.thy ===== *)
theory Divergence
  imports Bindings SharedMemory Pressure
begin

text \<open>
  Rules of \<^verbatim>\<open>core/src/rules\<close> that ask the control-flow graph and the uniformity analysis about calls and
  expressions of the tree: barriers, derivatives and wave intrinsics in divergent code, samples and constant-buffer
  reads in loops, work after a discard, state that is live across a call, register pressure. The hash map of the
  branch classes is visited in some order; \<open>order\<close> lists its keys.
\<close>

section \<open>Calls\<close>

text \<open>The call expressions of a tree whose function text satisfies a test, in document order.\<close>

definition calls_named :: "(string \<Rightarrow> bool) \<Rightarrow> ast_tree \<Rightarrow> ts_node list" where
  "calls_named P t =
     filter (\<lambda>n. ts_kind n = ''call_expression'' \<and> P (called_name (at_bytes t) n)) (preorder (at_root t))"

definition node_span :: "ast_tree \<Rightarrow> ts_node \<Rightarrow> span" where
  "node_span t n = \<lparr>sp_source = at_source t, sp_bytes = range_of n\<rparr>"

definition k_barrier_names :: "string list" where
  "k_barrier_names =
     [''GroupMemoryBarrier'', ''GroupMemoryBarrierWithGroupSync'', ''DeviceMemoryBarrier'',
      ''DeviceMemoryBarrierWithGroupSync'', ''AllMemoryBarrier'', ''AllMemoryBarrierWithGroupSync'']"

definition collect_barrier_calls :: "ast_tree \<Rightarrow> ts_node list" where
  "collect_barrier_calls = calls_named (\<lambda>s. s \<in> set k_barrier_names)"

definition is_implicit_sample :: "string \<Rightarrow> bool" where
  "is_implicit_sample s \<longleftrightarrow> length s > 7 \<and> ends_with s ''.Sample''"

definition collect_derivative_calls :: "ast_tree \<Rightarrow> ts_node list" where
  "collect_derivative_calls =
     calls_named (\<lambda>s. s \<in> {''ddx'', ''ddy'', ''ddx_fine'', ''ddy_fine'', ''ddx_coarse'', ''ddy_coarse''} \<or> is_implicit_sample s)"

definition k_wave_names :: "string list" where
  "k_wave_names =
     [''WaveActiveSum'', ''WaveActiveProduct'', ''WaveActiveMin'', ''WaveActiveMax'', ''WaveActiveBitAnd'',
      ''WaveActiveBitOr'', ''WaveActiveBitXor'', ''WaveActiveAllTrue'', ''WaveActiveAnyTrue'', ''WaveActiveBallot'',
      ''WaveActiveAllEqual'', ''WaveActiveCountBits'', ''WavePrefixSum'', ''WavePrefixProduct'', ''WavePrefixCountBits'',
      ''WaveReadLaneAt'', ''WaveReadLaneFirst'', ''WaveMatch'']"

definition collect_wave_calls :: "ast_tree \<Rightarrow> ts_node list" where
  "collect_wave_calls = calls_named (\<lambda>s. s \<in> set k_wave_names)"

definition collect_implicit_samples :: "ast_tree \<Rightarrow> ts_node list" where
  "collect_implicit_samples = calls_named is_implicit_sample"

section \<open>Calls in divergent code and in loops\<close>

definition barrier_check :: "(flow_view \<Rightarrow> u64 list) \<Rightarrow> ast_tree \<Rightarrow> flow_view \<Rightarrow> diagnostic list" where
  "barrier_check order t cfg =
     concat (map (\<lambda>call.
       if \<not> inside_divergent_cf cfg (order cfg) (node_span t call) then []
       else [error_diagnostic ''barrier-in-divergent-cf'' (at_source t) (range_of call)
               (''memory barrier inside non-uniform control flow -- this is '' @
                ''undefined behaviour; lanes that never reach the barrier '' @
                ''deadlock the workgroup'')
               [suggestion (''hoist the barrier outside every divergent branch -- every '' @
                  ''lane must reach the barrier; if a lane needs to skip, '' @
                  ''restructure to keep the barrier on the join path'')]]) (collect_barrier_calls t))"

definition derivative_check :: "(flow_view \<Rightarrow> u64 list) \<Rightarrow> ast_tree \<Rightarrow> flow_view \<Rightarrow> diagnostic list" where
  "derivative_check order t cfg =
     concat (map (\<lambda>call.
       if \<not> inside_divergent_cf cfg (order cfg) (node_span t call) then []
       else [rule_diagnostic ''derivative-in-divergent-cf'' (at_source t) (range_of call)
               (''derivative or implicit-gradient sample inside non-uniform '' @
                ''control flow -- per the SM 6.x spec, derivatives across a '' @
                ''diverged quad are undefined'')
               [suggestion (''hoist the derivative / implicit-Sample out of the divergent '' @
                  ''branch (compute it before, then use the value inside), or '' @
                  ''switch to SampleLevel/SampleGrad with explicit gradients'')]]) (collect_derivative_calls t))"

definition wave_check :: "(flow_view \<Rightarrow> u64 list) \<Rightarrow> ast_tree \<Rightarrow> flow_view \<Rightarrow> diagnostic list" where
  "wave_check order t cfg =
     concat (map (\<lambda>call.
       if \<not> inside_divergent_cf cfg (order cfg) (node_span t call) then []
       else [rule_diagnostic ''wave-intrinsic-non-uniform'' (at_source t) (range_of call)
               (''wave intrinsic dispatched from non-uniform control flow -- '' @
                ''the reduction only counts active lanes; this is rarely '' @
                ''intended and a frequent source of scan / reduction bugs'')
               [suggestion (''hoist the wave intrinsic above the divergent branch, or '' @
                  ''ensure every lane in the wave reaches it (e.g. compute the '' @
                  ''value unconditionally, then select with the branch result)'')]]) (collect_wave_calls t))"

definition sample_loop_check :: "ast_tree \<Rightarrow> flow_view \<Rightarrow> diagnostic list" where
  "sample_loop_check t cfg =
     concat (map (\<lambda>call.
       if \<not> inside_loop cfg (node_span t call) then []
       else [rule_diagnostic ''sample-in-loop-implicit-grad'' (at_source t) (range_of call)
               (''implicit-derivative `Sample` inside a loop -- if the loop '' @
                ''iteration count diverges across the 2x2 quad, the derivative '' @
                ''is undefined; use `SampleLevel` / `SampleGrad` to make the '' @
                ''LOD explicit'')
               [suggestion (''switch to `SampleLevel(samp, uv, lod)` or `SampleGrad(samp, '' @
                  ''uv, ddx_uv, ddy_uv)` -- the explicit LOD avoids the cross-'' @
                  ''lane derivative computation'')]]) (collect_implicit_samples t))"

section \<open>Discards\<close>

definition collect_work_calls :: "ast_tree \<Rightarrow> ts_node list" where
  "collect_work_calls =
     calls_named (\<lambda>s. s \<notin> {''ddx'', ''ddy'', ''ddx_fine'', ''ddy_fine'', ''ddx_coarse'', ''ddy_coarse'', ''QuadAny'', ''QuadAll''})"

definition discard_work_check :: "ast_tree \<Rightarrow> flow_view \<Rightarrow> diagnostic list" where
  "discard_work_check t cfg =
     (if \<not> in_pixel_stage_or_unknown cfg then []
      else concat (map (\<lambda>call.
        if \<not> possibly_helper_lane_at cfg (node_span t call) then []
        else [rule_diagnostic ''discard-then-work'' (at_source t) (range_of call)
                (''non-trivial work after a `discard` -- helper lanes still '' @
                 ''execute every instruction; move work that does not feed '' @
                 ''derivatives to before the discard'')
                [suggestion (''rearrange so the discard is the last statement (or at least '' @
                   ''follows every non-derivative computation); helper lanes pay '' @
                   ''for every instruction after the discard on every IHV'')]]) (collect_work_calls t)))"

definition collect_reduction_calls :: "ast_tree \<Rightarrow> ts_node list" where
  "collect_reduction_calls = calls_named (\<lambda>s. s \<in> set (take 14 k_wave_names))"

definition helper_hazard_check :: "ast_tree \<Rightarrow> flow_view \<Rightarrow> diagnostic list" where
  "helper_hazard_check t cfg =
     (if \<not> in_pixel_stage_or_unknown cfg then []
      else concat (map (\<lambda>call.
        if \<not> possibly_helper_lane_at cfg (node_span t call) then []
        else [rule_diagnostic ''wave-intrinsic-helper-lane-hazard'' (at_source t) (range_of call)
                (''wave intrinsic in PS reachable on a path that may have already '' @
                 ''discarded -- helper-lane participation in wave reductions is '' @
                 ''undefined per the SM 6.x spec'')
                [suggestion (''hoist the wave intrinsic above any reachable `discard` / '' @
                   ''`clip`, or guard with `WaveIsHelperLane()` to skip on helper '' @
                   ''lanes'')]]) (collect_reduction_calls t)))"

definition collect_discard_or_clip :: "ast_tree \<Rightarrow> ts_node list" where
  "collect_discard_or_clip t =
     filter (\<lambda>n. ts_kind n = ''discard_statement'' \<or> ts_kind n = ''call_expression'' \<and> called_name (at_bytes t) n = ''clip'')
       (preorder (at_root t))"

definition early_z_check :: "(flow_view \<Rightarrow> u64 list) \<Rightarrow> ast_tree \<Rightarrow> flow_view \<Rightarrow> diagnostic list" where
  "early_z_check order t cfg =
     (if \<not> in_pixel_stage_or_unknown cfg then []
      else if contains_text (at_bytes t) ''[earlydepthstencil]'' \<or> contains_text (at_bytes t) ''earlydepthstencil'' then []
      else concat (map (\<lambda>n.
        if \<not> inside_divergent_cf cfg (order cfg) (node_span t n) then []
        else [rule_diagnostic ''early-z-disabled-by-conditional-discard'' (at_source t) (range_of n)
                (''`discard` / `clip` reachable from non-uniform CF without '' @
                 ''`[earlydepthstencil]` -- conditional discard makes the depth '' @
                 ''test conservative; early-Z is disabled and depth/stencil '' @
                 ''writes serialise the pipeline'')
                [suggestion (''annotate the pixel-shader entry point with '' @
                   ''`[earlydepthstencil]` if the discard cannot affect depth -- '' @
                   ''lets early-Z fire on RDNA / Ada / Xe-HPG'')]]) (collect_discard_or_clip t)))"

text \<open>The nearest proper ancestor of a kind, as a path.\<close>

definition ancestor_of_kind :: "(string \<Rightarrow> bool) \<Rightarrow> ts_node \<Rightarrow> node_path \<Rightarrow> node_path option" where
  "ancestor_of_kind P tr p = find (\<lambda>q. P (kind_at tr q)) (map (\<lambda>k. take k p) (rev [0..<length p]))"

definition text_at :: "ast_tree \<Rightarrow> node_path option \<Rightarrow> string" where
  "text_at t p = (case p of None \<Rightarrow> [] | Some q \<Rightarrow> node_text (node_at (at_root t) q) (at_bytes t))"

definition before_brace :: "string \<Rightarrow> string" where
  "before_brace s = takeWhile (\<lambda>c. c \<noteq> CHR ''{'') s"

definition function_has_earlyz :: "string \<Rightarrow> bool" where
  "function_has_earlyz fn_text \<longleftrightarrow> contains_text (before_brace fn_text) ''[earlydepthstencil]''"

definition clip_at :: "(flow_view \<Rightarrow> u64 list) \<Rightarrow> ast_tree \<Rightarrow> flow_view \<Rightarrow> node_path \<times> ts_node \<Rightarrow> diagnostic list" where
  "clip_at order t cfg = (\<lambda>(p, n).
     if ts_kind n = ''call_expression'' \<and> called_name (at_bytes t) n = ''clip'' \<and>
        \<not> function_has_earlyz (text_at t (ancestor_of_kind (\<lambda>k. k = ''function_definition'') (at_root t) p)) \<and>
        (inside_divergent_cf cfg (order cfg) (node_span t n) \<or> reachable_with_discard cfg (node_span t n))
     then [rule_diagnostic ''clip-from-non-uniform-cf'' (at_source t) (range_of n)
             (''`clip(...)` reached from non-uniform control flow without '' @
              ''`[earlydepthstencil]` -- early-Z is downgraded to late-Z for the '' @
              ''whole pipeline state, losing the bandwidth optimisation on every '' @
              ''fragment; either add `[earlydepthstencil]`, hoist the clip to a '' @
              ''wave-uniform predicate, or move the alpha test out of the shader'') []]
     else [])"

definition clip_check :: "(flow_view \<Rightarrow> u64 list) \<Rightarrow> ast_tree \<Rightarrow> flow_view \<Rightarrow> diagnostic list" where
  "clip_check order t cfg = concat (map (clip_at order t cfg) (located_nodes [] (at_root t)))"

section \<open>Constant buffers\<close>

text \<open>The identifiers after the keyword \<open>cbuffer\<close>.\<close>

function cbuffer_names_from :: "string \<Rightarrow> nat \<Rightarrow> string list" where
  "cbuffer_names_from bytes pos =
     (if pos \<ge> length bytes then []
      else case find_text bytes ''cbuffer'' pos of
             None \<Rightarrow> []
           | Some found \<Rightarrow>
               if found > 0 \<and> is_id_char (bytes ! (found - 1)) then cbuffer_names_from bytes (found + 1)
               else let i = found + 7 in
                 if i < length bytes \<and> is_id_char (bytes ! i) then cbuffer_names_from bytes i
                 else let name_start = skip_while (\<lambda>c. c = CHR '' '' \<or> c = tab_char) bytes i;
                          j = skip_while is_id_char bytes name_start
                      in (if j > name_start then [substr bytes name_start (j - name_start)] else []) @ cbuffer_names_from bytes j)"
  by pat_completeness auto
termination
proof (relation "measure (\<lambda>(bytes, pos). Suc (length bytes) - pos)", goal_cases)
  case (2 bytes pos found)
  then show ?case using find_text_bounds [OF 2(2)] by auto
next
  case (3 bytes pos found i)
  then show ?case using find_text_bounds [OF 3(2)] by auto
next
  case (4 bytes pos found i name_start j)
  have "i \<le> name_start" "name_start \<le> j" unfolding 4(6,7) by simp_all
  then show ?case using 4(1,4) find_text_bounds [OF 4(2)] by auto
qed simp

declare cbuffer_names_from.simps [simp del]

definition collect_cbuffer_names :: "string \<Rightarrow> string set" where
  "collect_cbuffer_names bytes = set (cbuffer_names_from bytes 0)"

definition named_at :: "ts_node \<Rightarrow> nat \<Rightarrow> ts_node option" where
  "named_at n i = (if i < length (named_children n) then Some (named_children n ! i) else None)"

definition is_cb_subscript :: "string \<Rightarrow> string set \<Rightarrow> ts_node \<Rightarrow> bool" where
  "is_cb_subscript bytes cb_names n =
     (ts_kind n = ''subscript_expression'' \<and>
      (case named_at n 0 of
         None \<Rightarrow> False
       | Some recv \<Rightarrow> ts_kind recv = ''field_expression'' \<and> node_text (named_at recv 0) bytes \<in> cb_names))"

definition divergent_index_check :: "ast_tree \<Rightarrow> flow_view \<Rightarrow> diagnostic list" where
  "divergent_index_check t cfg =
     (let cb_names = collect_cbuffer_names (at_bytes t) in
      if cb_names = {} then []
      else concat (map (\<lambda>sub.
        if \<not> is_divergent cfg \<lparr>sp_source = at_source t, sp_bytes = byte_range (named_at sub 1)\<rparr> then []
        else [rule_diagnostic ''cbuffer-divergent-index'' (at_source t) (range_of sub)
                (''cbuffer indexed by a divergent expression -- the constant '' @
                 ''cache (K$ / scalar cache) serialises divergent loads on '' @
                 ''RDNA / Ada / Xe-HPG; consider scalarising via '' @
                 ''WaveActiveAllEqual or moving the array into a typed buffer'')
                [suggestion (''if every lane in the wave shares the same index, gate with '' @
                   ''WaveActiveAllEqual; otherwise move the array out of cbuffer '' @
                   ''into a typed Buffer<T> -- the texture-cache path tolerates '' @
                   ''divergent loads'')]])
        (filter (is_cb_subscript (at_bytes t) cb_names) (preorder (at_root t)))))"

definition is_cb_read :: "string \<Rightarrow> string set \<Rightarrow> ts_node \<Rightarrow> bool" where
  "is_cb_read bytes cb_names n \<longleftrightarrow> ts_kind n = ''field_expression'' \<and> node_text (named_at n 0) bytes \<in> cb_names"

definition load_in_loop_check :: "ast_tree \<Rightarrow> flow_view \<Rightarrow> diagnostic list" where
  "load_in_loop_check t cfg =
     (let cb_names = collect_cbuffer_names (at_bytes t) in
      if cb_names = {} then []
      else concat (map (\<lambda>read.
        if \<not> inside_loop cfg (node_span t read) then []
        else if \<not> loop_invariant_expr cfg (node_span t read) then []
        else [spanned ''cbuffer-load-in-loop'' Note (node_span t read)
                (''cbuffer field read inside a loop -- the value does not change '' @
                 ''across iterations; hoisting to a local lets the constant-cache '' @
                 ''fetch happen once'')
                [suggestion (''lift the cbuffer field read to a block-scope local before the '' @
                   ''loop -- the compiler may CSE this on its own, but the explicit '' @
                   ''hoist removes one constant-cache fetch per iteration'')]])
        (filter (is_cb_read (at_bytes t) cb_names) (preorder (at_root t)))))"

section \<open>State across a call\<close>

text \<open>The two rules differ in the calls they collect, in the threshold and in the message.\<close>

definition collect_traceray_calls :: "ast_tree \<Rightarrow> ts_node list" where
  "collect_traceray_calls = calls_named (\<lambda>s. s = ''TraceRay'')"

text \<open>The last test compares 19 characters with a name of 18.\<close>

definition is_reorder_name :: "string \<Rightarrow> bool" where
  "is_reorder_name s \<longleftrightarrow>
     s = ''MaybeReorderThread'' \<or> s = ''dx::MaybeReorderThread'' \<or>
     (length s \<ge> 19 \<and> drop (length s - 19) s = ''MaybeReorderThread'')"

definition collect_reorder_calls :: "ast_tree \<Rightarrow> ts_node list" where
  "collect_reorder_calls = calls_named is_reorder_name"

definition tree_liveness :: "ast_tree \<Rightarrow> flow_view \<Rightarrow> liveness_info" where
  "tree_liveness t cfg = compute_liveness (fv_cfg cfg) (Some (at_root t)) (at_bytes t)"

text \<open>The number of names live after the block of a call, where the call is in a block.\<close>

definition live_after :: "ast_tree \<Rightarrow> flow_view \<Rightarrow> ts_node \<Rightarrow> nat option" where
  "live_after t cfg call =
     map_option (\<lambda>block. length (live_out_at (tree_liveness t cfg) block)) (block_for cfg (node_span t call))"

definition traceray_check :: "ast_tree \<Rightarrow> flow_view \<Rightarrow> diagnostic list" where
  "traceray_check t cfg =
     (let calls = collect_traceray_calls t in
      if calls = [] then []
      else if li_out_per_block (tree_liveness t cfg) = [] then []
      else concat (map (\<lambda>call. case live_after t cfg call of
             None \<Rightarrow> []
           | Some n \<Rightarrow>
               if n \<le> 2 then []
               else [rule_diagnostic ''live-state-across-traceray'' (at_source t) (range_of call)
                       (''`TraceRay` call site has '' @ to_decimal n @
                        '' AST-level locals live across the call -- the values must be '' @
                        ''carried in the ray stack (scratch / global memory on every IHV) '' @
                        ''for the duration of the trace, costing memory traffic per ray'') []]) calls))"

definition reorder_check :: "ast_tree \<Rightarrow> flow_view \<Rightarrow> diagnostic list" where
  "reorder_check t cfg =
     (let calls = collect_reorder_calls t in
      if calls = [] then []
      else if li_out_per_block (tree_liveness t cfg) = [] then []
      else concat (map (\<lambda>call. case live_after t cfg call of
             None \<Rightarrow> []
           | Some n \<Rightarrow>
               if n \<le> 3 then []
               else [rule_diagnostic ''maybereorderthread-without-payload-shrink'' (at_source t) (range_of call)
                       (''`MaybeReorderThread` call site has '' @ to_decimal n @
                        '' AST-level locals live across the reorder -- the SER scheduler '' @
                        ''must move that state with the thread when it re-coalesces, '' @
                        ''negating the throughput win the reorder is designed to deliver'') []]) calls))"

section \<open>Register pressure\<close>

text \<open>The span the warning is placed on: the block's, else the one of the entry, if either has any bytes.\<close>

definition worst_span :: "cfg_storage option \<Rightarrow> span \<Rightarrow> nat \<Rightarrow> span option" where
  "worst_span st entry raw =
     (let found = (case st of
            None \<Rightarrow> None
          | Some st \<Rightarrow> map_option fst (find (\<lambda>(s, r). r = raw) (cs_span_to_block st)));
          block_span = (case found of None \<Rightarrow> empty_span \<lparr>sid_value = 0\<rparr> | Some s \<Rightarrow> s);
          block_span = (if byte_span_empty (sp_bytes block_span) then entry else block_span)
      in if byte_span_empty (sp_bytes block_span) then None else Some block_span)"

definition vgpr_check :: "span \<Rightarrow> ast_tree \<Rightarrow> flow_view \<Rightarrow> diagnostic list" where
  "vgpr_check entry t cfg =
     (let liveness = tree_liveness t cfg in
      if li_in_per_block liveness = [] then []
      else case estimate_pressure (fv_cfg cfg) liveness (Some (at_root t)) (at_bytes t) None 64 of
             [] \<Rightarrow> []
           | worst # _ \<Rightarrow>
               if pe_estimated_vgprs worst \<le> 64 then []
               else case worst_span (fv_cfg cfg) entry (pe_block worst) of
                      None \<Rightarrow> []
                    | Some block_span \<Rightarrow>
                        [spanned ''vgpr-pressure-warning'' Warning block_span
                           (''basic block holds an estimated '' @ number (pe_estimated_vgprs worst) @
                            '' VGPRs live (heuristic over AST-level liveness; > '' @ number 64 @
                            '' threshold) -- on RDNA / Turing+ / Xe-HPG this caps wave occupancy and '' @
                            ''likely forces register spills to scratch; consider scoping locals more '' @
                            ''tightly or restructuring the kernel into smaller phases'') []])"

section \<open>Branch conditions\<close>

definition uses_derivatives :: "string \<Rightarrow> bool" where
  "uses_derivatives s \<longleftrightarrow>
     list_ex (has_keyword s) [''Sample'', ''SampleBias'', ''SampleGrad'', ''ddx'', ''ddy'', ''ddx_fine'', ''ddy_fine'']"

definition already_wrapped :: "string \<Rightarrow> bool" where
  "already_wrapped s \<longleftrightarrow> has_keyword s ''QuadAny'' \<or> has_keyword s ''QuadAll''"

definition quad_if :: "ast_tree \<Rightarrow> flow_view \<Rightarrow> ts_node \<Rightarrow> diagnostic list" where
  "quad_if t cfg n =
     (if ts_kind n = ''if_statement''
      then (case child_by_field n ''condition'' of
              None \<Rightarrow> []
            | Some cond \<Rightarrow>
                if \<not> already_wrapped (node_text (Some cond) (at_bytes t)) \<and>
                   uses_derivatives (node_text (child_by_field n ''consequence'') (at_bytes t)) \<and>
                   is_divergent cfg (node_span t cond)
                then [rule_diagnostic ''quadany-quadall-opportunity'' (at_source t) (range_of n)
                        (''per-lane `if` containing derivative-bearing intrinsic (Sample / ddx / ddy / '' @
                         ''...) -- consider wrapping the condition in `QuadAny(...)` so all four quad '' @
                         ''lanes participate as helpers and derivatives have valid neighbour samples; '' @
                         ''without it, retired quad lanes feed undefined derivative inputs and produce '' @
                         ''mip-aliasing or seam artefacts at the branch boundary'') []]
                else [])
      else [])"

definition quad_check :: "ast_tree \<Rightarrow> flow_view \<Rightarrow> diagnostic list" where
  "quad_check t cfg = concat (map (quad_if t cfg) (preorder (at_root t)))"

text \<open>The position before blanks, going back from \<open>i\<close>.\<close>

definition back_over :: "(char \<Rightarrow> bool) \<Rightarrow> string \<Rightarrow> nat \<Rightarrow> nat" where
  "back_over P s i = length (dropWhile P (rev (take i s)))"

definition flatten_attr_span :: "string \<Rightarrow> u32 \<Rightarrow> byte_span" where
  "flatten_attr_span bytes if_lo =
     (if if_lo = 0 \<or> unat if_lo > length bytes then \<lparr>bs_lo = 0, bs_hi = 0\<rparr>
      else let i = back_over attr_blank bytes (unat if_lo) in
           if i < 9 then \<lparr>bs_lo = 0, bs_hi = 0\<rparr>
           else if substr bytes (i - 9) 9 \<noteq> ''[flatten]'' then \<lparr>bs_lo = 0, bs_hi = 0\<rparr>
           else \<lparr>bs_lo = u32_of (i - 9), bs_hi = u32_of i\<rparr>)"

definition preceded_by_flatten :: "string \<Rightarrow> u32 \<Rightarrow> bool" where
  "preceded_by_flatten bytes if_lo =
     (if if_lo = 0 \<or> unat if_lo > length bytes then False
      else let i = back_over attr_blank bytes (unat if_lo) in
           if i < 9 then False else substr bytes (i - 9) 9 = ''[flatten]'')"

definition has_flatten_attribute :: "ast_tree \<Rightarrow> node_path \<times> ts_node \<Rightarrow> bool" where
  "has_flatten_attribute t = (\<lambda>(p, n).
     let if_lo = ts_start n in
     if preceded_by_flatten (at_bytes t) if_lo then True
     else if p = [] then False
     else let parent = node_at (at_root t) (parent_path p);
              parent_text = node_text parent (at_bytes t);
              parent_lo = bs_lo (byte_range parent)
          in if if_lo \<le> parent_lo then False
             else if unat (if_lo - parent_lo) > length parent_text then False
             else contains_text (take (unat (if_lo - parent_lo)) parent_text) ''[flatten]'')"

definition flatten_if :: "ast_tree \<Rightarrow> flow_view \<Rightarrow> node_path \<times> ts_node \<Rightarrow> diagnostic list" where
  "flatten_if t cfg = (\<lambda>(p, n).
     if ts_kind n = ''if_statement'' \<and> has_flatten_attribute t (p, n)
     then (case child_by_field n ''condition'' of
             None \<Rightarrow> []
           | Some cond \<Rightarrow>
               if is_uniform cfg (node_span t cond) \<or> is_loop_invariant cfg (node_span t cond)
               then let attr_span = flatten_attr_span (at_bytes t) (ts_start n) in
                    [rule_diagnostic ''flatten-on-uniform-branch'' (at_source t) (range_of n)
                       (''`[flatten]` on a wave-uniform branch is a pessimisation -- both arms '' @
                        ''execute every wave when `[branch]` (or no attribute) would let the wave '' @
                        ''skip the inactive arm entirely; switch to `[branch]` to recover the dead '' @
                        ''arm's instructions'')
                       (if bs_lo attr_span < bs_hi attr_span
                        then [replacing_fix False
                                (''replace `[flatten]` with `[branch]` to let the wave skip the '' @ ''inactive arm'')
                                (at_source t) attr_span ''[branch]'']
                        else [])]
               else [])
     else [])"

definition flatten_check :: "ast_tree \<Rightarrow> flow_view \<Rightarrow> diagnostic list" where
  "flatten_check t cfg = concat (map (flatten_if t cfg) (located_nodes [] (at_root t)))"

section \<open>Samples\<close>

definition is_sample_method :: "string list \<Rightarrow> string \<Rightarrow> bool" where
  "is_sample_method names s \<longleftrightarrow> list_ex (\<lambda>name. ends_with s (''.'' @ name)) names"

definition local_ident :: "string \<Rightarrow> ts_node \<Rightarrow> string list" where
  "local_ident bytes n =
     (if ts_kind n = ''init_declarator'' \<or> ts_kind n = ''declaration''
      then (case find (\<lambda>c. ts_kind c = ''identifier'') (named_children n) of
              None \<Rightarrow> []
            | Some c \<Rightarrow> if node_text (Some c) bytes = [] then [] else [node_text (Some c) bytes])
      else [])"

definition collect_loop_local_idents :: "ts_node \<Rightarrow> string \<Rightarrow> string list" where
  "collect_loop_local_idents loop bytes = stack_loop (\<lambda>n out. out @ local_ident bytes n) [loop] []"

definition is_loop_kind :: "string \<Rightarrow> bool" where
  "is_loop_kind k \<longleftrightarrow> k \<in> {''for_statement'', ''while_statement'', ''do_statement''}"

definition sample_uv :: "ts_node \<Rightarrow> ts_node option" where
  "sample_uv call =
     (case child_by_field call ''arguments'' of
        None \<Rightarrow> None
      | Some args \<Rightarrow> if length (named_children args) < 2 then None else named_at args 1)"

definition uses_loop_local :: "ast_tree \<Rightarrow> node_path \<Rightarrow> string \<Rightarrow> bool" where
  "uses_loop_local t p uv_text =
     (case ancestor_of_kind is_loop_kind (at_root t) p of
        None \<Rightarrow> False
      | Some q \<Rightarrow>
          (case node_at (at_root t) q of
             None \<Rightarrow> False
           | Some loop \<Rightarrow> list_ex (has_keyword uv_text) (collect_loop_local_idents loop (at_bytes t))))"

definition invariant_sample_at :: "ast_tree \<Rightarrow> flow_view \<Rightarrow> node_path \<times> ts_node \<Rightarrow> diagnostic list" where
  "invariant_sample_at t cfg = (\<lambda>(p, n).
     if ts_kind n = ''call_expression'' \<and>
        is_sample_method [''Sample'', ''SampleLevel'', ''SampleGrad'', ''SampleBias'', ''SampleCmp''] (called_name (at_bytes t) n) \<and>
        inside_loop cfg (node_span t n)
     then (case sample_uv n of
             None \<Rightarrow> []
           | Some uv \<Rightarrow>
               if \<not> loop_invariant_expr cfg (node_span t uv) then []
               else if uses_loop_local t p (node_text (Some uv) (at_bytes t)) then []
               else [rule_diagnostic ''loop-invariant-sample'' (at_source t) (range_of n)
                       (''texture sample inside a loop with loop-invariant UV -- the '' @
                        ''fetch returns the same value on every iteration; hoist it '' @
                        ''out of the loop'')
                       [suggestion (''lift the sample to a block-scope local before the loop and '' @
                          ''reuse it inside; saves one texture fetch per iteration on '' @
                          ''every IHV'')]])
     else [])"

definition invariant_sample_check :: "ast_tree \<Rightarrow> flow_view \<Rightarrow> diagnostic list" where
  "invariant_sample_check t cfg = concat (map (invariant_sample_at t cfg) (located_nodes [] (at_root t)))"

text \<open>Samples of a block with the same texture, sampler and coordinates; the hash map of the blocks is visited in the
  order \<open>arrange\<close> gives.\<close>

record texture_sample =
  tx_call :: ts_node
  tx_fingerprint :: string

definition sample_fingerprint :: "string \<Rightarrow> ts_node \<Rightarrow> string option" where
  "sample_fingerprint bytes call =
     (let receiver = (case child_by_field call ''function'' of
             None \<Rightarrow> []
           | Some fn \<Rightarrow> if ts_kind fn = ''field_expression'' then node_text (child_by_field fn ''argument'') bytes else [])
      in case child_by_field call ''arguments'' of
           None \<Rightarrow> None
         | Some args \<Rightarrow>
             if length (named_children args) < 2 then None
             else Some (receiver @ ''|'' @ node_text (named_at args 0) bytes @ ''|'' @ node_text (named_at args 1) bytes))"

definition block_sample :: "ast_tree \<Rightarrow> flow_view \<Rightarrow> ts_node \<Rightarrow> (nat \<times> texture_sample) list" where
  "block_sample t cfg call =
     (case (block_for cfg (node_span t call), sample_fingerprint (at_bytes t) call) of
        (Some block, Some fp) \<Rightarrow> [(block, \<lparr>tx_call = call, tx_fingerprint = fp\<rparr>)]
      | _ \<Rightarrow> [])"

text \<open>The loops over pairs: \<open>reported\<close> is the vector of flags, the result the indices in the order of emission.\<close>

fun pair_inner :: "texture_sample list \<Rightarrow> nat \<Rightarrow> nat list \<Rightarrow> bool list \<times> nat list \<Rightarrow> bool list \<times> nat list" where
  "pair_inner samples i [] st = st"
| "pair_inner samples i (j # js) (reported, out) =
     pair_inner samples i js
       (if reported ! j then (reported, out)
        else if tx_fingerprint (samples ! i) = tx_fingerprint (samples ! j) \<and> tx_fingerprint (samples ! i) \<noteq> []
          then (reported[j := True], out @ [j]) else (reported, out))"

definition duplicate_samples :: "texture_sample list \<Rightarrow> nat list" where
  "duplicate_samples samples =
     snd (fold (\<lambda>i. pair_inner samples i [i + 1..<length samples]) [0..<length samples]
       (replicate (length samples) False, []))"

definition redundant_report :: "ast_tree \<Rightarrow> texture_sample \<Rightarrow> diagnostic" where
  "redundant_report t s =
     rule_diagnostic ''redundant-texture-sample'' (at_source t) (range_of (tx_call s))
       (''duplicate texture sample within the same basic block '' @
        ''(matching texture, sampler, and UV expression) -- the second '' @
        ''sample is wasted bandwidth; CSE the result into a local'') []"

definition redundant_sample_check :: "(nat list \<Rightarrow> nat list) \<Rightarrow> ast_tree \<Rightarrow> flow_view \<Rightarrow> diagnostic list" where
  "redundant_sample_check arrange t cfg =
     (let calls = calls_named (is_sample_method [''Sample'', ''SampleLevel'', ''SampleGrad'', ''SampleBias'']) t in
      if length calls < 2 then []
      else let per_block = concat (map (block_sample t cfg) calls) in
           concat (map (\<lambda>block.
             let samples = map snd (filter (\<lambda>(b, s). b = block) per_block) in
             if length samples < 2 then []
             else map (\<lambda>j. redundant_report t (samples ! j)) (duplicate_samples samples))
             (arrange (remdups (map fst per_block)))))"

section \<open>Divergent branches around a span\<close>

text \<open>The keys the hash map of the branch classes holds.\<close>

definition branch_keys :: "flow_view \<Rightarrow> u64 set" where
  "branch_keys cfg = (case fv_uniformity cfg of None \<Rightarrow> {} | Some data \<Rightarrow> dom (ud_branch data))"

definition not_known_uniform :: "flow_view \<Rightarrow> span \<Rightarrow> bool" where
  "not_known_uniform cfg sp \<longleftrightarrow> of_branch (fv_uniformity cfg) sp \<in> {Divergent, Unknown}"

definition branch_around :: "ast_tree \<Rightarrow> flow_view \<Rightarrow> ts_node \<Rightarrow> bool" where
  "branch_around t cfg n \<longleftrightarrow>
     list_ex (\<lambda>m. is_branch m \<and> span_contains (node_span t m) (node_span t n) \<and> not_known_uniform cfg (node_span t m))
       (preorder (at_root t))"

lemma unpacked_node: "unpacked_span source (pack_node m) = \<lparr>sp_source = source, sp_bytes = range_of m\<rparr>"
  by (simp add: unpacked_span_def pack_node_def pack_span_bytes_parts byte_range_def)

lemma pack_span_node: "pack_span (node_span t m) = pack_node m"
  by (simp add: node_span_def pack_span_def pack_node_def byte_range_def)

lemma branch_table:
  "ud_branch (analyse_uniformity tr bytes empty_uniformity) =
     branch_stamp (seeded_analyzer tr bytes) (filter is_branch (mirrored [tr])) (\<lambda>_. None)"
  by (rule analysis_tables [of tr bytes]) simp

lemma branch_table_dom:
  "dom (ud_branch (analyse_uniformity tr bytes empty_uniformity)) = pack_node ` {m \<in> set (preorder tr). is_branch m}"
proof -
  have "k \<in> dom (ud_branch (analyse_uniformity tr bytes empty_uniformity)) \<longleftrightarrow>
      (\<exists>m \<in> set (preorder tr). is_branch m \<and> pack_node m = k)" for k
  proof -
    have "find (\<lambda>m. pack_node m = k) (rev (filter is_branch (mirrored [tr]))) \<noteq> None \<longleftrightarrow>
        (\<exists>m \<in> set (preorder tr). is_branch m \<and> pack_node m = k)"
      by (simp add: find_None_iff mirrored_set del: mirrored.simps) blast
    then show ?thesis by (auto simp: branch_table branch_lookup dom_def simp del: mirrored.simps split: option.splits)
  qed
  then show ?thesis by (auto simp: set_eq_iff image_iff)
qed

lemma inside_divergent_branch:
  assumes "fv_uniformity cfg = Some (analyse_uniformity (at_root t) bytes empty_uniformity)" and "set keys = branch_keys cfg"
  shows "inside_divergent_cf cfg keys (node_span t n) \<longleftrightarrow> branch_around t cfg n"
proof -
  let ?data = "analyse_uniformity (at_root t) bytes empty_uniformity"
  have keys: "set keys = pack_node ` {m \<in> set (preorder (at_root t)). is_branch m}"
    using assms by (simp add: branch_keys_def branch_table_dom)
  have "ud_branch ?data (pack_node m) \<in> {Some Divergent, Some Unknown} \<longleftrightarrow> not_known_uniform cfg (node_span t m)"
    if "m \<in> set (preorder (at_root t))" "is_branch m" for m
  proof -
    have "pack_node m \<in> dom (ud_branch ?data)" unfolding branch_table_dom using that by blast
    then show ?thesis by (auto simp: not_known_uniform_def of_branch_def assms(1) pack_span_node)
  qed
  moreover have "unpacked_span (sp_source (node_span t n)) (pack_node m) = node_span t m" for m
    by (simp add: unpacked_node node_span_def)
  ultimately show ?thesis
    unfolding inside_divergent_cf_def branch_around_def assms(1) by (auto simp: list_ex_iff keys)
qed

lemma concat_unless: "concat (map (\<lambda>x. if \<not> P x then [] else [f x]) xs) = map f (filter P xs)"
  by (induction xs) auto

text \<open>On the graph the engine builds, and whatever the order in which the hash map of the branches is visited, the
  barrier rule reports exactly the barrier calls that lie inside an \<open>if\<close> or \<open>switch\<close> whose condition the analysis
  does not find uniform, once each and in document order. Loops, which the documentation of the rule lists too, do not count.\<close>

theorem barrier_reports_exact:
  assumes "build_entry has_error (at_source t) (at_root t) (at_bytes t) = Some e"
    and "set (order (view_of (ce_info e))) = branch_keys (view_of (ce_info e))"
  shows "map (sp_bytes \<circ> dg_primary_span) (barrier_check order t (view_of (ce_info e))) =
     map range_of (filter (branch_around t (view_of (ce_info e))) (collect_barrier_calls t))"
proof -
  have "fv_uniformity (view_of (ce_info e)) = Some (analyse_uniformity (at_root t) (at_bytes t) empty_uniformity)"
    using assms(1) by (auto simp: build_entry_def view_of_def split: prod.splits option.splits)
  from inside_divergent_branch [OF this assms(2)] show ?thesis
    by (simp add: barrier_check_def concat_unless error_diagnostic_def rule_diagnostic_def)
qed

definition guarded_barrier :: ast_tree where
  "guarded_barrier =
     \<lparr>at_root = ex_node ''translation_unit'' 0 43
        [Ts_Node ''if_statement'' True 4 42
           [(Some ''condition'', ex_node ''identifier'' 7 20 []),
            (Some ''consequence'', ex_node ''compound_statement'' 21 42 [ex_node ''expression_statement'' 22 41 [ex_call 22 38 40 []]])]],
      at_language = Tree_Sitter_Hlsl, at_bytes = ''f(){if(SV_GroupIndex){AllMemoryBarrier();}}'', at_source = \<lparr>sid_value = 1\<rparr>\<rparr>"

lemma barrier_reports_exact_witness:
  "\<exists>e. build_entry (\<lambda>_. False) (at_source guarded_barrier) (at_root guarded_barrier) (at_bytes guarded_barrier) = Some e \<and>
     map (sp_bytes \<circ> dg_primary_span) (barrier_check (\<lambda>_. [pack_span_bytes 4 42]) guarded_barrier (view_of (ce_info e))) =
       [\<lparr>bs_lo = 22, bs_hi = 40\<rparr>]"
proof -
  let ?data = "analyse_uniformity (at_root guarded_barrier) (at_bytes guarded_barrier) empty_uniformity"
  obtain e where e: "build_entry (\<lambda>_. False) (at_source guarded_barrier) (at_root guarded_barrier) (at_bytes guarded_barrier) = Some e"
    using build_entry_total by metis
  then have u: "fv_uniformity (view_of (ce_info e)) = Some ?data"
    by (auto simp: build_entry_def view_of_def split: prod.splits option.splits)
  have "filter is_branch (preorder (at_root guarded_barrier)) = [snd (hd (ts_children (at_root guarded_barrier)))]" by code_simp
  then have "{m \<in> set (preorder (at_root guarded_barrier)). is_branch m} = {snd (hd (ts_children (at_root guarded_barrier)))}"
    by (metis list.simps(15) set_filter empty_set)
  moreover have "pack_node (snd (hd (ts_children (at_root guarded_barrier)))) = pack_span_bytes 4 42" by code_simp
  ultimately have keys: "set [pack_span_bytes 4 42] = branch_keys (view_of (ce_info e))"
    by (simp add: branch_keys_def u branch_table_dom)
  have "collect_barrier_calls guarded_barrier = [ex_call 22 38 40 []]" by code_simp
  moreover have "branch_around guarded_barrier \<lparr>fv_cfg = None, fv_uniformity = Some ?data\<rparr> (ex_call 22 38 40 [])" by code_simp
  then have "branch_around guarded_barrier (view_of (ce_info e)) (ex_call 22 38 40 [])"
    by (simp add: branch_around_def not_known_uniform_def u)
  moreover have "range_of (ex_call 22 38 40 []) = \<lparr>bs_lo = 22, bs_hi = 40\<rparr>" by code_simp
  ultimately show ?thesis using barrier_reports_exact [OF e, of "\<lambda>_. [pack_span_bytes 4 42]"] keys e by simp
qed

text \<open>Loops are not branches: in a tree without \<open>if\<close> and \<open>switch\<close> no barrier is reported, whatever the loops do.\<close>

lemma loops_are_not_branches:
  assumes "fv_uniformity cfg = Some (analyse_uniformity (at_root t) bytes empty_uniformity)"
    and "set (order cfg) = branch_keys cfg" and "list_all (\<lambda>m. \<not> is_branch m) (preorder (at_root t))"
  shows "barrier_check order t cfg = []"
  using inside_divergent_branch [OF assms(1,2)] assms(3)
  by (auto simp: barrier_check_def concat_unless branch_around_def list_ex_iff list_all_iff filter_empty_conv)

section \<open>Duplicate samples\<close>

definition same_sample :: "texture_sample list \<Rightarrow> nat \<Rightarrow> nat \<Rightarrow> bool" where
  "same_sample ss i j \<longleftrightarrow> tx_fingerprint (ss ! i) = tx_fingerprint (ss ! j) \<and> tx_fingerprint (ss ! i) \<noteq> []"

definition flags_match :: "bool list \<times> nat list \<Rightarrow> nat set \<Rightarrow> bool" where
  "flags_match st js \<longleftrightarrow> distinct (snd st) \<and> set (snd st) = js \<and> (\<forall>j < length (fst st). fst st ! j \<longleftrightarrow> j \<in> js)"

lemma pair_inner_flags:
  assumes "flags_match st js" and "\<forall>j \<in> set xs. j < length (fst st)" and "distinct xs"
  shows "flags_match (pair_inner ss i xs st) (js \<union> {j \<in> set xs. same_sample ss i j}) \<and>
     length (fst (pair_inner ss i xs st)) = length (fst st)"
  using assms
proof (induction xs arbitrary: st js)
  case (Cons j xs)
  obtain reported out where st: "st = (reported, out)" by fastforce
  let ?hit = "\<not> reported ! j \<and> same_sample ss i j"
  let ?st = "if ?hit then (reported[j := True], out @ [j]) else (reported, out)"
  let ?js = "js \<union> (if same_sample ss i j then {j} else {})"
  have j: "j < length reported" using Cons.prems(2) st by simp
  have rep: "reported ! j \<longleftrightarrow> j \<in> js" using Cons.prems(1) j by (simp add: st flags_match_def)
  have "flags_match ?st ?js"
    using Cons.prems(1) rep j by (auto simp: st flags_match_def nth_list_update)
  moreover have "\<forall>k \<in> set xs. k < length (fst ?st)" using Cons.prems(2) st by simp
  ultimately have IH: "flags_match (pair_inner ss i xs ?st) (?js \<union> {k \<in> set xs. same_sample ss i k}) \<and>
      length (fst (pair_inner ss i xs ?st)) = length (fst ?st)" using Cons.IH Cons.prems(3) by simp
  have "pair_inner ss i (j # xs) st = pair_inner ss i xs ?st" by (auto simp: st same_sample_def)
  moreover have "?js \<union> {k \<in> set xs. same_sample ss i k} = js \<union> {k \<in> set (j # xs). same_sample ss i k}" by auto
  ultimately show ?case using IH st by auto
qed simp

lemma duplicate_loop:
  "n \<le> length ss \<Longrightarrow>
     let st = fold (\<lambda>i. pair_inner ss i [i + 1..<length ss]) [0..<n] (replicate (length ss) False, [])
     in flags_match st {j. j < length ss \<and> (\<exists>i < n. i < j \<and> same_sample ss i j)} \<and> length (fst st) = length ss"
proof (induction n)
  case 0
  then show ?case by (simp add: flags_match_def Let_def)
next
  case (Suc n)
  let ?st = "fold (\<lambda>i. pair_inner ss i [i + 1..<length ss]) [0..<n] (replicate (length ss) False, [])"
  have IH: "flags_match ?st {j. j < length ss \<and> (\<exists>i < n. i < j \<and> same_sample ss i j)}" "length (fst ?st) = length ss"
    using Suc by (simp_all add: Let_def)
  have "{j. j < length ss \<and> (\<exists>i < n. i < j \<and> same_sample ss i j)} \<union> {j \<in> set [n + 1..<length ss]. same_sample ss n j} =
      {j. j < length ss \<and> (\<exists>i < Suc n. i < j \<and> same_sample ss i j)}" by (auto simp: less_Suc_eq)
  then show ?case using pair_inner_flags [OF IH(1), of "[n + 1..<length ss]" ss n] IH(2) by (simp add: Let_def)
qed

text \<open>Among the samples of a block, the second and every later one with the same fingerprint is reported, once, and
  no other.\<close>

theorem duplicates_reported_once:
  "distinct (duplicate_samples ss) \<and>
   set (duplicate_samples ss) =
     {j. j < length ss \<and> tx_fingerprint (ss ! j) \<noteq> [] \<and> tx_fingerprint (ss ! j) \<in> set (map tx_fingerprint (take j ss))}"
proof -
  have "flags_match (fold (\<lambda>i. pair_inner ss i [i + 1..<length ss]) [0..<length ss] (replicate (length ss) False, []))
      {j. j < length ss \<and> (\<exists>i < length ss. i < j \<and> same_sample ss i j)}"
    using duplicate_loop [of "length ss" ss] by (simp add: Let_def)
  moreover have "(\<exists>i < length ss. i < j \<and> same_sample ss i j) \<longleftrightarrow>
      tx_fingerprint (ss ! j) \<noteq> [] \<and> tx_fingerprint (ss ! j) \<in> set (map tx_fingerprint (take j ss))" if "j < length ss" for j
  proof -
    have "set (map tx_fingerprint (take j ss)) = (\<lambda>i. tx_fingerprint (ss ! i)) ` {0..<j}"
      using nth_image [of j ss] that by (simp add: image_image [symmetric])
    then have "f \<in> set (map tx_fingerprint (take j ss)) \<longleftrightarrow> (\<exists>i < j. f = tx_fingerprint (ss ! i))" for f
      by (simp only: image_iff) auto
    moreover have "i < j \<Longrightarrow> i < length ss" for i using that by simp
    ultimately show ?thesis unfolding same_sample_def by metis
  qed
  ultimately show ?thesis unfolding duplicate_samples_def flags_match_def by auto
qed

text \<open>The fingerprint leaves out the method and every argument after the second: two samples of different levels of a
  texture count as duplicates.\<close>

definition level_sample :: "u32 \<Rightarrow> ts_node" where
  "level_sample lo =
     Ts_Node ''call_expression'' True lo (lo + 23)
       [(Some ''function'', Ts_Node ''field_expression'' True lo (lo + 13)
           [(Some ''argument'', Ts_Node ''identifier'' True lo (lo + 1) []), (None, Ts_Node ''.'' False (lo + 1) (lo + 2) []),
            (Some ''field'', Ts_Node ''field_identifier'' True (lo + 2) (lo + 13) [])]),
        (Some ''arguments'', Ts_Node ''argument_list'' True (lo + 13) (lo + 23)
           [(None, Ts_Node ''identifier'' True (lo + 14) (lo + 15) []), (None, Ts_Node '','' False (lo + 15) (lo + 16) []),
            (None, Ts_Node ''identifier'' True (lo + 17) (lo + 19) []), (None, Ts_Node '','' False (lo + 19) (lo + 20) []),
            (None, Ts_Node ''number_literal'' True (lo + 21) (lo + 22) [])])]"

lemma levels_count_as_duplicates:
  "let bytes = ''t.SampleLevel(s, uv, 0) + t.SampleLevel(s, uv, 5)'' in
     sample_fingerprint bytes (level_sample 0) = Some ''t|s|uv'' \<and>
     sample_fingerprint bytes (level_sample 26) = Some ''t|s|uv'' \<and>
     node_text (Some (level_sample 0)) bytes \<noteq> node_text (Some (level_sample 26)) bytes"
  by code_simp

section \<open>The attribute before a branch\<close>

lemma back_over_le: "back_over P s i \<le> length s"
  using length_dropWhile_le [of P "rev (take i s)"] by (simp add: back_over_def)

lemma back_over_le_start: "back_over P s i \<le> i"
  using length_dropWhile_le [of P "rev (take i s)"] by (simp add: back_over_def)

lemma back_over_between:
  assumes "back_over P s i \<le> k" and "k < i" and "i \<le> length s"
  shows "P (s ! k)"
proof -
  let ?r = "rev (take i s)"
  have "i - 1 - k < length (takeWhile P ?r)"
  proof -
    have "length (takeWhile P ?r) + length (dropWhile P ?r) = length ?r" by (metis length_append takeWhile_dropWhile_id)
    then show ?thesis using assms by (simp add: back_over_def)
  qed
  then have "P (?r ! (i - 1 - k))" by (metis nth_mem set_takeWhileD takeWhile_nth)
  then show ?thesis using assms by (simp add: rev_nth)
qed

text \<open>The fix of the flatten rule touches the attribute and nothing else: it has an edit exactly when the text before
  the \<open>if\<close> ends in \<open>[flatten]\<close> and blanks, and then the edited bytes are that attribute and only blanks stand between
  it and the \<open>if\<close>.\<close>

theorem flatten_span_exact:
  "(bs_lo (flatten_attr_span bytes if_lo) < bs_hi (flatten_attr_span bytes if_lo) \<longleftrightarrow> preceded_by_flatten bytes if_lo) \<and>
   (let lo = unat (bs_lo (flatten_attr_span bytes if_lo)); hi = unat (bs_hi (flatten_attr_span bytes if_lo)) in
    preceded_by_flatten bytes if_lo \<longrightarrow>
      hi \<le> unat if_lo \<and> bytes = take lo bytes @ ''[flatten]'' @ drop hi bytes \<and>
      list_all attr_blank (substr bytes hi (unat if_lo - hi)))"
proof -
  let ?i = "back_over attr_blank bytes (unat if_lo)"
  let ?sp = "flatten_attr_span bytes if_lo"
  have "unat if_lo < 2 ^ 32" using unsigned_less [of if_lo] by simp
  then have i: "?i \<le> unat if_lo" "?i < 2 ^ 32" using back_over_le_start [of attr_blank bytes "unat if_lo"] by simp_all
  show ?thesis
  proof (cases "preceded_by_flatten bytes if_lo")
    case True
    then have b: "if_lo \<noteq> 0" "unat if_lo \<le> length bytes" "9 \<le> ?i" "substr bytes (?i - 9) 9 = ''[flatten]''"
      by (auto simp: preceded_by_flatten_def Let_def split: if_splits)
    have "?sp = \<lparr>bs_lo = u32_of (?i - 9), bs_hi = u32_of ?i\<rparr>"
      using b unfolding flatten_attr_span_def Let_def by (simp del: of_nat_diff)
    then have sp: "unat (bs_lo ?sp) = ?i - 9" "unat (bs_hi ?sp) = ?i"
      using i(2) unat_u32_of [of "?i - 9"] unat_u32_of [of ?i] by (simp_all del: of_nat_diff)
    have "bytes = take (?i - 9) bytes @ substr bytes (?i - 9) 9 @ drop ?i bytes"
      using b(3) append_take_drop_id [of 9 "drop (?i - 9) bytes"] by (simp add: substr_def)
    moreover have "list_all attr_blank (substr bytes ?i (unat if_lo - ?i))"
      using back_over_between [of attr_blank bytes "unat if_lo"] b(2)
      by (auto simp: list_all_iff set_substr)
    ultimately show ?thesis using True b i sp by (simp add: word_less_nat_alt)
  next
    case False
    then have "bs_lo ?sp = 0 \<and> bs_hi ?sp = 0" by (auto simp: preceded_by_flatten_def flatten_attr_span_def Let_def split: if_splits)
    then show ?thesis using False by simp
  qed
qed

lemma flatten_span_exact_witness:
  "(let lo = unat (bs_lo (flatten_attr_span ''x; [flatten] if (c) {}'' 13)); hi = unat (bs_hi (flatten_attr_span ''x; [flatten] if (c) {}'' 13)) in
      hi \<le> 13 \<and> ''x; [flatten] if (c) {}'' = take lo ''x; [flatten] if (c) {}'' @ ''[flatten]'' @ drop hi ''x; [flatten] if (c) {}'')"
proof -
  have "preceded_by_flatten ''x; [flatten] if (c) {}'' 13" by code_simp
  then show ?thesis using flatten_span_exact [of "''x; [flatten] if (c) {}''" 13] by (auto simp: Let_def)
qed

section \<open>The name of the reorder call\<close>

text \<open>The test of the suffix is never true: no other qualified name is recognised.\<close>

lemma reorder_suffix_dead: "is_reorder_name s \<longleftrightarrow> s = ''MaybeReorderThread'' \<or> s = ''dx::MaybeReorderThread''"
proof -
  have "drop (length s - 19) s \<noteq> ''MaybeReorderThread''" if "length s \<ge> 19"
  proof
    assume "drop (length s - 19) s = ''MaybeReorderThread''"
    from arg_cong [OF this, of length] that show False by simp
  qed
  then show ?thesis unfolding is_reorder_name_def by blast
qed

section \<open>The worst block\<close>

lemma vgpr_warns_on_worst:
  assumes "d \<in> set (vgpr_check entry t cfg)"
  shows "\<exists>st worst rest. fv_cfg cfg = Some st \<and>
     estimate_pressure (Some st) (tree_liveness t cfg) (Some (at_root t)) (at_bytes t) None 64 = worst # rest \<and>
     pe_estimated_vgprs worst > 64 \<and> (\<forall>e \<in> set rest. pe_estimated_vgprs e \<le> pe_estimated_vgprs worst)"
proof (cases "fv_cfg cfg")
  case None
  then show ?thesis using assms by (simp add: vgpr_check_def estimate_pressure_def Let_def split: if_splits)
next
  case (Some st)
  let ?es = "estimate_pressure (Some st) (tree_liveness t cfg) (Some (at_root t)) (at_bytes t) None 64"
  have sorted: "sorted_wrt (\<lambda>a b. pe_estimated_vgprs a \<ge> pe_estimated_vgprs b) ?es"
    unfolding estimate_pressure_def prod.case option.case Let_def
    using worst_first.sorted_sort_by by (simp add: not_less)
  show ?thesis
  proof (cases ?es)
    case Nil
    then show ?thesis using assms Some by (simp add: vgpr_check_def Let_def split: if_splits)
  next
    case (Cons worst rest)
    then show ?thesis using assms Some sorted by (auto simp: vgpr_check_def Let_def not_le split: if_splits)
  qed
qed

section \<open>The rules\<close>

definition barrier_in_divergent_cf :: "(flow_view \<Rightarrow> u64 list) \<Rightarrow> (unit, 'r, flow_view, 'i) rule" where
  "barrier_in_divergent_cf order = flow_rule ''barrier-in-divergent-cf'' (barrier_check order)"

definition derivative_in_divergent_cf :: "(flow_view \<Rightarrow> u64 list) \<Rightarrow> (unit, 'r, flow_view, 'i) rule" where
  "derivative_in_divergent_cf order = flow_rule ''derivative-in-divergent-cf'' (derivative_check order)"

definition wave_intrinsic_non_uniform :: "(flow_view \<Rightarrow> u64 list) \<Rightarrow> (unit, 'r, flow_view, 'i) rule" where
  "wave_intrinsic_non_uniform order = flow_rule ''wave-intrinsic-non-uniform'' (wave_check order)"

definition sample_in_loop_implicit_grad :: "(unit, 'r, flow_view, 'i) rule" where
  "sample_in_loop_implicit_grad = flow_rule ''sample-in-loop-implicit-grad'' sample_loop_check"

definition discard_then_work :: "(unit, 'r, flow_view, 'i) rule" where
  "discard_then_work = flow_rule ''discard-then-work'' discard_work_check"

definition wave_intrinsic_helper_lane_hazard :: "(unit, 'r, flow_view, 'i) rule" where
  "wave_intrinsic_helper_lane_hazard = flow_rule ''wave-intrinsic-helper-lane-hazard'' helper_hazard_check"

definition early_z_disabled_by_conditional_discard :: "(flow_view \<Rightarrow> u64 list) \<Rightarrow> (unit, 'r, flow_view, 'i) rule" where
  "early_z_disabled_by_conditional_discard order = flow_rule ''early-z-disabled-by-conditional-discard'' (early_z_check order)"

definition clip_from_non_uniform_cf :: "(flow_view \<Rightarrow> u64 list) \<Rightarrow> (unit, 'r, flow_view, 'i) rule" where
  "clip_from_non_uniform_cf order = flow_rule ''clip-from-non-uniform-cf'' (clip_check order)"

definition cbuffer_divergent_index :: "(unit, 'r, flow_view, 'i) rule" where
  "cbuffer_divergent_index = flow_rule ''cbuffer-divergent-index'' divergent_index_check"

definition cbuffer_load_in_loop :: "(unit, 'r, flow_view, 'i) rule" where
  "cbuffer_load_in_loop = flow_rule ''cbuffer-load-in-loop'' load_in_loop_check"

definition live_state_across_traceray :: "(unit, 'r, flow_view, 'i) rule" where
  "live_state_across_traceray = flow_rule ''live-state-across-traceray'' traceray_check"

definition maybereorderthread_without_payload_shrink :: "(unit, 'r, flow_view, 'i) rule" where
  "maybereorderthread_without_payload_shrink = flow_rule ''maybereorderthread-without-payload-shrink'' reorder_check"

definition vgpr_pressure_warning :: "(unit, 'r, control_flow_info, 'i) rule" where
  "vgpr_pressure_warning =
     flow_rule ''vgpr-pressure-warning'' (\<lambda>t info. vgpr_check (ci_entry_span (cfi_cfg info)) t (view_of info))"

definition quadany_quadall_opportunity :: "(unit, 'r, flow_view, 'i) rule" where
  "quadany_quadall_opportunity = flow_rule ''quadany-quadall-opportunity'' quad_check"

definition flatten_on_uniform_branch :: "(unit, 'r, flow_view, 'i) rule" where
  "flatten_on_uniform_branch = flow_rule ''flatten-on-uniform-branch'' flatten_check"

definition loop_invariant_sample :: "(unit, 'r, flow_view, 'i) rule" where
  "loop_invariant_sample = flow_rule ''loop-invariant-sample'' invariant_sample_check"

definition redundant_texture_sample :: "(nat list \<Rightarrow> nat list) \<Rightarrow> (unit, 'r, flow_view, 'i) rule" where
  "redundant_texture_sample arrange = flow_rule ''redundant-texture-sample'' (redundant_sample_check arrange)"

end
