(* ===== verification/FlowText.thy ===== *)
theory FlowText
  imports Divergence Layouts
begin

text \<open>
  The other rules of \<^verbatim>\<open>core/src/rules\<close> on the control-flow stage: mesh-shader output counts, reorder hints, quad
  wrappers, hand-written reductions, loads and indexes of buffers. Most of them read the text of a function and put at
  most one question to the graph or the uniformity analysis.
\<close>

section \<open>Hint bits of a reorder call\<close>

definition literal_trim :: "string \<Rightarrow> string" where
  "literal_trim s =
     rev (dropWhile (\<lambda>c. c = CHR '' '' \<or> c = tab_char \<or> c = CHR ''u'' \<or> c = CHR ''U'')
       (rev (dropWhile (\<lambda>c. c = CHR '' '' \<or> c = tab_char) s)))"

definition dec_digit :: "char \<Rightarrow> u32 option" where
  "dec_digit c = (if is_digit_char c then Some (char_digit c) else None)"

definition hex_digit32 :: "char \<Rightarrow> u32 option" where
  "hex_digit32 c =
     (if is_digit_char c then Some (char_digit c)
      else if CHR ''a'' \<le> c \<and> c \<le> CHR ''f'' then Some (of_char c - 97 + 10)
      else if CHR ''A'' \<le> c \<and> c \<le> CHR ''F'' then Some (of_char c - 65 + 10)
      else None)"

text \<open>Digits with the test for overflow before each step.\<close>

fun checked_digits :: "u32 \<Rightarrow> (char \<Rightarrow> u32 option) \<Rightarrow> string \<Rightarrow> u32 \<Rightarrow> u32 option" where
  "checked_digits base digit [] v = Some v"
| "checked_digits base digit (c # cs) v =
     (case digit c of
        None \<Rightarrow> None
      | Some d \<Rightarrow> if v > (0xFFFFFFFF - d) div base then None else checked_digits base digit cs (v * base + d))"

definition is_hex_literal :: "string \<Rightarrow> bool" where
  "is_hex_literal s \<longleftrightarrow> length s > 2 \<and> s ! 0 = CHR ''0'' \<and> (s ! 1 = CHR ''x'' \<or> s ! 1 = CHR ''X'')"

definition parse_hint_bits :: "string \<Rightarrow> u32 option" where
  "parse_hint_bits s =
     (let s = literal_trim s in
      if s = [] then None
      else if is_hex_literal s then checked_digits 16 hex_digit32 (drop 2 s) 0
      else checked_digits 10 dec_digit s 0)"

definition is_reorder_target :: "string \<Rightarrow> bool" where
  "is_reorder_target fn_text =
     (case find_text fn_text ''MaybeReorderThread'' 0 of
        None \<Rightarrow> False
      | Some pos \<Rightarrow> pos = 0 \<or> fn_text ! (pos - 1) \<in> set '':. '')"

definition call_argument :: "ts_node \<Rightarrow> nat \<Rightarrow> ts_node option" where
  "call_argument call i = (case child_by_field call ''arguments'' of None \<Rightarrow> None | Some args \<Rightarrow> named_at args i)"

definition hint_bits_at :: "ast_tree \<Rightarrow> ts_node \<Rightarrow> diagnostic list" where
  "hint_bits_at t n =
     (if ts_kind n = ''call_expression'' \<and> is_reorder_target (called_name (at_bytes t) n)
      then (case call_argument n 2 of
              None \<Rightarrow> []
            | Some arg \<Rightarrow>
                (case parse_hint_bits (node_text (Some arg) (at_bytes t)) of
                   None \<Rightarrow> []
                 | Some bits \<Rightarrow>
                     if bits > 32
                     then [rule_diagnostic ''coherence-hint-redundant-bits'' (at_source t) (range_of arg)
                             (''`MaybeReorderThread` `hintBits` exceeds the SER spec '' @
                              ''ceiling (32) -- the SER scheduler ignores bits above '' @
                              ''the ceiling and the unused width dilutes lane '' @
                              ''bucketing (proposal 0027)'')
                             [replacing_fix True ''clamp `hintBits` literal to the SER spec ceiling (32)'' (at_source t)
                                (range_of arg) ''32'']]
                     else []))
      else [])"

definition redundant_bits_check :: "ast_tree \<Rightarrow> 'c \<Rightarrow> diagnostic list" where
  "redundant_bits_check t cfg = concat (map (hint_bits_at t) (preorder (at_root t)))"

definition coherence_hint_redundant_bits :: "(unit, 'r, 'c, 'i) rule" where
  "coherence_hint_redundant_bits = flow_rule ''coherence-hint-redundant-bits'' redundant_bits_check"

section \<open>Hints that encode the shader\<close>

definition k_taint_sources :: "string list" where
  "k_taint_sources = [''GetShaderTableIndex'', ''IsHit'']"

text \<open>Back to the last character at or before \<open>i\<close> that is not of the class, or to the start.\<close>

definition back_to :: "(char \<Rightarrow> bool) \<Rightarrow> string \<Rightarrow> nat \<Rightarrow> nat" where
  "back_to P s i = back_over P s (Suc i) - 1"

text \<open>The identifier assigned from the source at a position.\<close>

definition assigned_before :: "string \<Rightarrow> nat \<Rightarrow> string option" where
  "assigned_before fn_text src_pos =
     (let eq = back_to (\<lambda>c. c \<noteq> CHR ''='' \<and> c \<noteq> newline \<and> c \<noteq> CHR '';'') fn_text src_pos in
      if eq = 0 \<or> fn_text ! eq \<noteq> CHR ''='' then None
      else let end_id = back_over (\<lambda>c. c = CHR '' '' \<or> c = tab_char) fn_text eq;
               start_id = back_over is_id_char fn_text end_id
           in if start_id = end_id then None else Some (substr fn_text start_id (end_id - start_id)))"

text \<open>The sources are not empty; for an empty one the loop would not advance.\<close>

function tainted_from :: "string \<Rightarrow> string \<Rightarrow> string \<Rightarrow> nat \<Rightarrow> bool" where
  "tainted_from arg_text fn_text src cursor =
     (if cursor \<ge> length fn_text then False
      else case find_text fn_text src cursor of
             None \<Rightarrow> False
           | Some src_pos \<Rightarrow>
               if src = [] then False
               else (case assigned_before fn_text src_pos of
                       None \<Rightarrow> tainted_from arg_text fn_text src (src_pos + length src)
                     | Some lhs \<Rightarrow>
                         if contains_text arg_text lhs then True
                         else tainted_from arg_text fn_text src (src_pos + length src)))"
  by pat_completeness auto
termination
proof (relation "measure (\<lambda>(arg_text, fn_text, src, cursor). length fn_text - cursor)", goal_cases)
  case (2 arg_text fn_text src cursor src_pos)
  then show ?case using find_text_bounds [OF 2(2)] by (cases src) auto
next
  case (3 arg_text fn_text src cursor src_pos lhs)
  then show ?case using find_text_bounds [OF 3(2)] by (cases src) auto
qed simp

declare tainted_from.simps [simp del]

definition taints_via_function_text :: "string \<Rightarrow> string \<Rightarrow> bool" where
  "taints_via_function_text arg_text fn_text \<longleftrightarrow>
     list_ex (contains_text arg_text) k_taint_sources \<or>
     list_ex (\<lambda>src. tainted_from arg_text fn_text src 0) k_taint_sources"

text \<open>The function around a node, the node itself included.\<close>

definition enclosing_function_text :: "ast_tree \<Rightarrow> node_path \<Rightarrow> string" where
  "enclosing_function_text t p =
     text_at t (find (\<lambda>q. kind_at (at_root t) q = ''function_definition'') (map (\<lambda>k. take k p) (rev [0..<Suc (length p)])))"

definition hint_source_at :: "ast_tree \<Rightarrow> node_path \<times> ts_node \<Rightarrow> diagnostic list" where
  "hint_source_at t = (\<lambda>(p, n).
     if ts_kind n = ''call_expression'' \<and> is_reorder_target (called_name (at_bytes t) n)
     then (case call_argument n 1 of
             None \<Rightarrow> []
           | Some arg \<Rightarrow>
               if taints_via_function_text (node_text (Some arg) (at_bytes t)) (enclosing_function_text t p)
               then [rule_diagnostic ''coherence-hint-encodes-shader-type'' (at_source t) (range_of arg)
                       (''`MaybeReorderThread` coherence hint encodes hit-group '' @
                        ''or hit-vs-miss state -- the SER scheduler already '' @
                        ''buckets on this axis; pick an application-specific '' @
                        ''axis (material id, BVH instance) instead '' @
                        ''(proposal 0027)'') []]
               else [])
     else [])"

definition encodes_type_check :: "ast_tree \<Rightarrow> 'c \<Rightarrow> diagnostic list" where
  "encodes_type_check t cfg = concat (map (hint_source_at t) (located_nodes [] (at_root t)))"

definition coherence_hint_encodes_shader_type :: "(unit, 'r, 'c, 'i) rule" where
  "coherence_hint_encodes_shader_type = flow_rule ''coherence-hint-encodes-shader-type'' encodes_type_check"

section \<open>Quad wrappers without a consumer\<close>

definition condition_expression :: "ts_node \<Rightarrow> ts_node option" where
  "condition_expression cond =
     (case child_by_field cond ''value'' of
        Some e \<Rightarrow> Some e
      | None \<Rightarrow> find (\<lambda>c. ts_kind c = ''call_expression'') (named_children cond))"

definition strip_parens :: "ts_node \<Rightarrow> ts_node" where
  "strip_parens e =
     (if ts_kind e = ''parenthesized_expression''
      then (case named_children e of [] \<Rightarrow> e | c # _ \<Rightarrow> c) else e)"

definition quad_wrapper_in_condition :: "string \<Rightarrow> ts_node \<Rightarrow> ts_node option" where
  "quad_wrapper_in_condition bytes if_stmt =
     (case child_by_field if_stmt ''condition'' of
        None \<Rightarrow> None
      | Some cond \<Rightarrow>
          (case condition_expression cond of
             None \<Rightarrow> None
           | Some e \<Rightarrow>
               let e = strip_parens e in
               if ts_kind e = ''call_expression'' \<and> called_name bytes e \<in> {''QuadAny'', ''QuadAll''} then Some e else None))"

definition has_derivative_consumer :: "string \<Rightarrow> bool" where
  "has_derivative_consumer s \<longleftrightarrow> list_ex (contains_text s) [''ddx'', ''ddy'', ''.Sample('']"

text \<open>The fix puts the only argument in place of the wrapper.\<close>

definition unwrap_fix :: "ast_tree \<Rightarrow> ts_node \<Rightarrow> fix_t list" where
  "unwrap_fix t wrapper =
     (case child_by_field wrapper ''arguments'' of
        None \<Rightarrow> []
      | Some args \<Rightarrow>
          (case named_children args of
             [inner] \<Rightarrow>
               if node_text (Some inner) (at_bytes t) = [] then []
               else [replacing_fix True
                       (''drop `QuadAny`/`QuadAll`; body has no '' @ ''derivative-bearing consumer to keep '' @ ''helpers alive for'')
                       (at_source t) (range_of wrapper) (node_text (Some inner) (at_bytes t))]
           | _ \<Rightarrow> []))"

definition quad_wrapper_at :: "ast_tree \<Rightarrow> ts_node \<Rightarrow> diagnostic list" where
  "quad_wrapper_at t n =
     (if ts_kind n = ''if_statement''
      then (case (quad_wrapper_in_condition (at_bytes t) n, child_by_field n ''consequence'') of
              (Some wrapper, Some body) \<Rightarrow>
                if has_derivative_consumer (node_text (Some body) (at_bytes t)) then []
                else [rule_diagnostic ''quadany-replaceable-with-derivative-uniform-branch'' (at_source t) (range_of wrapper)
                        (''`QuadAny`/`QuadAll` wraps a branch whose body does '' @
                         ''no derivative-bearing work; the wrapper pays a '' @
                         ''wave-shuffle without keeping helpers alive for any '' @
                         ''derivative consumer -- the bare condition suffices '' @
                         ''(SM 6.7 quad intrinsics)'') (unwrap_fix t wrapper)]
            | _ \<Rightarrow> [])
      else [])"

definition quad_replaceable_check :: "ast_tree \<Rightarrow> 'c \<Rightarrow> diagnostic list" where
  "quad_replaceable_check t cfg = concat (map (quad_wrapper_at t) (preorder (at_root t)))"

definition quadany_replaceable_with_derivative_uniform_branch :: "(unit, 'r, 'c, 'i) rule" where
  "quadany_replaceable_with_derivative_uniform_branch =
     flow_rule ''quadany-replaceable-with-derivative-uniform-branch'' quad_replaceable_check"

section \<open>Wave reductions in pixel shaders\<close>

definition looks_like_pixel_shader :: "string \<Rightarrow> bool" where
  "looks_like_pixel_shader fn_text =
     (if contains_text fn_text ''[shader(\"pixel\")]'' then True
      else contains_text (before_brace fn_text) ''SV_Target'' \<or> contains_text (before_brace fn_text) ''SV_TARGET'')"

definition k_wave_reductions :: "string list" where
  "k_wave_reductions =
     [''WaveActiveSum'', ''WaveActiveProduct'', ''WaveActiveBitOr'', ''WaveActiveBitAnd'', ''WaveActiveBitXor'',
      ''WaveActiveCountBits'', ''WaveActiveBallot'', ''WaveActiveAllTrue'', ''WaveActiveAnyTrue'']"

definition pixel_reduction_at :: "ast_tree \<Rightarrow> ts_node \<Rightarrow> diagnostic list" where
  "pixel_reduction_at t n =
     (let fn_text = node_text (Some n) (at_bytes t) in
      if ts_kind n = ''function_definition'' \<and> looks_like_pixel_shader fn_text \<and>
         \<not> contains_text fn_text ''WaveOpsIncludeHelperLanes'' \<and> list_ex (contains_text fn_text) k_wave_reductions \<and>
         has_derivative_consumer fn_text
      then [rule_diagnostic ''wave-reduction-pixel-without-helper-attribute'' (at_source t) (range_of n)
              (''pixel-shader entry mixes a `WaveActive*` reduction with a '' @
               ''derivative-bearing op (`ddx`/`ddy`/`Sample`); helper lanes '' @
               ''are excluded from the reduction by default and contaminate '' @
               ''the derivative -- add `[WaveOpsIncludeHelperLanes]` (SM 6.7)'') []]
      else [])"

definition pixel_reduction_check :: "ast_tree \<Rightarrow> 'c \<Rightarrow> diagnostic list" where
  "pixel_reduction_check t cfg = concat (map (pixel_reduction_at t) (preorder (at_root t)))"

definition wave_reduction_pixel_without_helper_attribute :: "(unit, 'r, 'c, 'i) rule" where
  "wave_reduction_pixel_without_helper_attribute =
     flow_rule ''wave-reduction-pixel-without-helper-attribute'' pixel_reduction_check"

section \<open>Hand-written reductions\<close>

definition halving_stride :: "string \<Rightarrow> bool" where
  "halving_stride s \<longleftrightarrow> list_ex (contains_text s) [''>>= 1'', ''>>=1'', ''/= 2'', ''/=2'']"

definition has_atomic :: "string \<Rightarrow> bool" where
  "has_atomic s \<longleftrightarrow>
     list_ex (has_keyword s)
       [''InterlockedAdd'', ''InterlockedOr'', ''InterlockedAnd'', ''InterlockedXor'', ''InterlockedMin'', ''InterlockedMax'']"

definition reduction_variant :: "string \<Rightarrow> string option" where
  "reduction_variant s =
     (if has_keyword s ''GroupMemoryBarrierWithGroupSync'' \<and> halving_stride s
      then Some (''tree-reduction with halving stride and groupshared barriers replaceable by '' @ ''`WaveActive*`'')
      else if has_atomic s
      then Some (''atomic-counter loop reduction replaceable by `WaveActive*` + single '' @ ''wave-leader atomic publish'')
      else if has_keyword s ''WaveReadLaneAt'' \<and> CHR ''^'' \<in> set s
      then Some (''WaveReadLaneAt-XOR butterfly ladder replaceable by a single `WaveActive*` '' @ ''call'')
      else None)"

text \<open>Loops inside a reported loop are not visited.\<close>

function scan_loops :: "ast_tree \<Rightarrow> ts_node \<Rightarrow> diagnostic list" where
  "scan_loops t n =
     (case (if is_loop_kind (ts_kind n) then reduction_variant (node_text (Some n) (at_bytes t)) else None) of
        Some variant \<Rightarrow>
          [rule_diagnostic ''manual-wave-reduction-pattern'' (at_source t) (range_of n)
             (''manual wave-reduction pattern detected ('' @ variant @
              '') -- modern GPUs implement these as cross-lane primitives in '' @
              ''log2(wave_size) cycles; the manual form burns LDS bandwidth and '' @
              ''barrier-synchroniser cycles for what one wave intrinsic does in 5 cycles'') []]
      | None \<Rightarrow> concat (map (scan_loops t) (child_nodes n)))"
  by pat_completeness auto
termination
proof (relation "measure (\<lambda>(t, n). node_size n)", goal_cases)
  case (2 t n c)
  then show ?case using child_smaller [of c n] by simp
qed simp

declare scan_loops.simps [simp del]

definition manual_wave_reduction_pattern :: "(unit, 'r, 'c, 'i) rule" where
  "manual_wave_reduction_pattern = flow_rule ''manual-wave-reduction-pattern'' (\<lambda>t cfg. scan_loops t (at_root t))"

section \<open>Samples used too soon\<close>

definition callee_is_sample :: "string \<Rightarrow> ts_node \<Rightarrow> bool" where
  "callee_is_sample bytes call =
     (case child_by_field call ''function'' of
        None \<Rightarrow> False
      | Some fn \<Rightarrow>
          ts_kind fn = ''field_expression'' \<and>
          node_text (child_by_field fn ''field'') bytes \<in> {''Sample'', ''SampleLevel'', ''SampleGrad'', ''SampleBias'', ''SampleCmp''})"

definition is_sample_value :: "string \<Rightarrow> ts_node option \<Rightarrow> bool" where
  "is_sample_value bytes v =
     (case v of None \<Rightarrow> False | Some v \<Rightarrow> ts_kind v = ''call_expression'' \<and> callee_is_sample bytes v)"

text \<open>The name a declaration gives to a sample, and the sample.\<close>

definition sampled_name :: "string \<Rightarrow> ts_node \<Rightarrow> (string \<times> ts_node) option" where
  "sampled_name bytes decl =
     (if ts_kind decl \<noteq> ''declaration'' then None
      else case find (\<lambda>c. ts_kind c = ''init_declarator'' \<and> is_sample_value bytes (child_by_field c ''value'')) (named_children decl) of
             None \<Rightarrow> None
           | Some c \<Rightarrow>
               let name = node_text (child_by_field c ''declarator'') bytes in
               if name = [] then None else map_option (Pair name) (child_by_field c ''value''))"

text \<open>The first of the next three statements with the name, counted from one.\<close>

definition use_distance :: "string \<Rightarrow> string \<Rightarrow> ts_node list \<Rightarrow> nat option" where
  "use_distance bytes name following =
     map_option (\<lambda>(i, s). i + 1)
       (find (\<lambda>(i, s). has_keyword (node_text (Some s) bytes) name) (enumerate 0 (take 3 following)))"

definition early_use :: "ast_tree \<Rightarrow> ts_node list \<Rightarrow> nat \<Rightarrow> diagnostic list" where
  "early_use t stmts i =
     (case sampled_name (at_bytes t) (stmts ! i) of
        None \<Rightarrow> []
      | Some (name, call) \<Rightarrow>
          (case use_distance (at_bytes t) name (drop (i + 1) stmts) of
             None \<Rightarrow> []
           | Some k \<Rightarrow>
               [rule_diagnostic ''sample-use-no-interleave'' (at_source t) (range_of call)
                  (''(suggestion) `Sample()` result `'' @ name @ ''` is consumed within the next '' @ to_decimal k @
                   '' statement(s) -- interleave compute between sample and use to hide '' @
                   ''the texture-cache miss latency (Nsight: \"Warp Stalled by L1 Long '' @
                   ''Scoreboard\")'') []]))"

text \<open>The blocks directly below a child of a statement, or one level deeper.\<close>

definition inner_blocks :: "ts_node \<Rightarrow> ts_node list" where
  "inner_blocks s =
     concat (map (\<lambda>c. if ts_kind c = ''compound_statement'' then [c]
         else filter (\<lambda>d. ts_kind d = ''compound_statement'') (child_nodes c)) (child_nodes s))"

lemma inner_block_smaller: "b \<in> set (inner_blocks s) \<Longrightarrow> node_size b < node_size s"
proof -
  assume "b \<in> set (inner_blocks s)"
  then obtain c where "c \<in> set (child_nodes s)" "b = c \<or> b \<in> set (child_nodes c)"
    by (auto simp: inner_blocks_def split: if_splits)
  then show ?thesis using child_smaller [of c s] child_smaller [of b c] less_trans by blast
qed

function scan_compound :: "ast_tree \<Rightarrow> ts_node \<Rightarrow> diagnostic list" where
  "scan_compound t b =
     (if ts_kind b \<noteq> ''compound_statement'' then []
      else let stmts = named_children b in
           concat (map (early_use t stmts) [0..<length stmts]) @
           concat (map (\<lambda>s. concat (map (scan_compound t) (inner_blocks s))) stmts))"
  by pat_completeness auto
termination
proof (relation "measure (\<lambda>(t, b). node_size b)", goal_cases)
  case (2 t b stmts s c)
  then have "s \<in> set (child_nodes b)" by (simp add: named_children_def)
  then show ?case using inner_block_smaller [OF 2(4)] child_smaller [of s b] by simp
qed simp

declare scan_compound.simps [simp del]

definition function_samples :: "ast_tree \<Rightarrow> ts_node \<Rightarrow> diagnostic list" where
  "function_samples t n =
     (if ts_kind n = ''function_definition''
      then (case child_by_field n ''body'' of None \<Rightarrow> [] | Some body \<Rightarrow> scan_compound t body)
      else [])"

definition no_interleave_check :: "ast_tree \<Rightarrow> 'c \<Rightarrow> diagnostic list" where
  "no_interleave_check t cfg = concat (map (function_samples t) (preorder (at_root t)))"

definition sample_use_no_interleave :: "(unit, 'r, 'c, 'i) rule" where
  "sample_use_no_interleave = flow_rule ''sample-use-no-interleave'' no_interleave_check"

section \<open>Mesh output counts\<close>

definition wrapped_digits :: "string \<Rightarrow> u32 option" where
  "wrapped_digits s = (if list_all is_digit_char s then Some (digits_value s) else None)"

definition parse_count :: "string \<Rightarrow> u32 option" where
  "parse_count s =
     (let s = trim_text s in
      if s = [] then None
      else wrapped_digits (if last s = CHR ''u'' \<or> last s = CHR ''U'' then butlast s else s))"

text \<open>The number between brackets after the keyword, in the same statement.\<close>

function find_output_cap :: "string \<Rightarrow> string \<Rightarrow> nat \<Rightarrow> u32 option" where
  "find_output_cap bytes kw pos =
     (if pos \<ge> length bytes \<or> kw = [] then None
      else case find_text bytes kw pos of
             None \<Rightarrow> None
           | Some found \<Rightarrow>
               let stop = found + length kw in
               if \<not> (found = 0 \<or> \<not> is_id_char (bytes ! (found - 1))) \<or> \<not> (stop \<ge> length bytes \<or> \<not> is_id_char (bytes ! stop))
               then find_output_cap bytes kw (found + 1)
               else (case find_text bytes ''['' stop of
                       None \<Rightarrow> find_output_cap bytes kw stop
                     | Some lb \<Rightarrow>
                         (case find_text bytes '']'' (lb + 1) of
                            None \<Rightarrow> find_output_cap bytes kw stop
                          | Some rb \<Rightarrow>
                              if CHR '';'' \<in> set (substr bytes stop (lb - stop)) then find_output_cap bytes kw stop
                              else let digits = trim_text (substr bytes (lb + 1) (rb - lb - 1)) in
                                   if digits \<noteq> [] \<and> list_all is_digit_char digits then wrapped_digits digits
                                   else find_output_cap bytes kw (rb + 1))))"
  by pat_completeness auto
termination
proof (relation "measure (\<lambda>(bytes, kw, pos). Suc (length bytes) - pos)", goal_cases)
  case (2 bytes kw pos found stop)
  then show ?case using find_text_bounds [OF 2(2)] by auto
next
  case (3 bytes kw pos found stop)
  then show ?case using find_text_Some [OF 3(2)] by (cases kw) auto
next
  case (4 bytes kw pos found stop lb)
  then show ?case using find_text_Some [OF 4(2)] by (cases kw) auto
next
  case (5 bytes kw pos found stop lb rb)
  then show ?case using find_text_Some [OF 5(2)] by (cases kw) auto
next
  case (6 bytes kw pos found stop lb rb digits)
  have "pos \<le> found" "stop \<le> lb" "lb + 1 \<le> rb"
    using find_text_bounds [OF 6(2)] find_text_bounds [OF 6(5)] find_text_bounds [OF 6(6)] by simp_all
  then show ?case using 6(1,3) by auto
qed simp

declare find_output_cap.simps [simp del]

definition collect_output_calls :: "ast_tree \<Rightarrow> ts_node list" where
  "collect_output_calls t =
     stack_loop (\<lambda>n out. if ts_kind n = ''call_expression'' \<and> called_name (at_bytes t) n = ''SetMeshOutputCounts'' then out @ [n] else out)
       [at_root t] []"

definition exceeds :: "u32 option \<Rightarrow> u32 option \<Rightarrow> bool" where
  "exceeds cap lit = (case (cap, lit) of (Some c, Some l) \<Rightarrow> l > c | _ \<Rightarrow> False)"

definition shown :: "u32 option \<Rightarrow> string \<Rightarrow> string" where
  "shown v other = (case v of Some n \<Rightarrow> number n | None \<Rightarrow> other)"

definition output_call :: "ast_tree \<Rightarrow> flow_view \<Rightarrow> u32 option \<Rightarrow> u32 option \<Rightarrow> ts_node \<Rightarrow> diagnostic list" where
  "output_call t cfg v_cap p_cap call =
     (if block_for cfg (node_span t call) = None then []
      else case child_by_field call ''arguments'' of
             None \<Rightarrow> []
           | Some args \<Rightarrow>
               if length (named_children args) < 2 then []
               else let v_arg = node_text (named_at args 0) (at_bytes t); p_arg = node_text (named_at args 1) (at_bytes t);
                        v_lit = parse_count v_arg; p_lit = parse_count p_arg
                    in if \<not> exceeds v_cap v_lit \<and> \<not> exceeds p_cap p_lit then []
                       else [rule_diagnostic ''output-count-overrun'' (at_source t) (range_of call)
                               (''`SetMeshOutputCounts('' @ shown v_lit v_arg @ '', '' @ shown p_lit p_arg @
                                '')` exceeds the declared output ceiling ('' @ shown v_cap ''?'' @ '' vertices, '' @ shown p_cap ''?'' @
                                '' primitives) -- writes past the workgroup-output buffer have undefined '' @
                                ''semantics on every IHV'') []])"

definition output_count_check :: "ast_tree \<Rightarrow> flow_view \<Rightarrow> diagnostic list" where
  "output_count_check t cfg =
     (let bytes = at_bytes t in
      if \<not> contains_text bytes ''SetMeshOutputCounts'' then []
      else let v_cap = find_output_cap bytes ''out vertices'' 0;
               p_cap = (case find_output_cap bytes ''out primitives'' 0 of
                  Some c \<Rightarrow> Some c | None \<Rightarrow> find_output_cap bytes ''out indices'' 0)
           in if v_cap = None \<and> p_cap = None then []
              else concat (map (output_call t cfg v_cap p_cap) (collect_output_calls t)))"

definition output_count_overrun :: "(unit, 'r, flow_view, 'i) rule" where
  "output_count_overrun = flow_rule ''output-count-overrun'' output_count_check"

text \<open>The argument spans of the second mesh rule: \<open><\<close> and \<open>>\<close> count as brackets.\<close>

record arg_scan =
  ag_start :: nat
  ag_depth :: nat
  ag_spans :: "(nat \<times> nat) list"

definition arg_step :: "string \<Rightarrow> nat \<Rightarrow> arg_scan \<Rightarrow> arg_scan" where
  "arg_step bytes i st =
     (let c = bytes ! i in
      if c \<in> set ''([<'' then st\<lparr>ag_depth := ag_depth st + 1\<rparr>
      else if c \<in> set '')]>'' then st\<lparr>ag_depth := ag_depth st - 1\<rparr>
      else if c = CHR '','' \<and> ag_depth st = 0
        then st\<lparr>ag_spans := ag_spans st @ [(ag_start st, i)], ag_start := i + 1\<rparr>
      else st)"

definition argument_spans :: "string \<Rightarrow> nat \<Rightarrow> nat \<Rightarrow> (nat \<times> nat) list" where
  "argument_spans bytes lo hi =
     (if hi \<le> lo + 1 \<or> hi > length bytes then []
      else let st = fold (arg_step bytes) [lo + 1..<hi - 1] \<lparr>ag_start = lo + 1, ag_depth = 0, ag_spans = []\<rparr>
           in ag_spans st @ (if ag_start st < hi - 1 then [(ag_start st, hi - 1)] else []))"

definition trim_span :: "string \<Rightarrow> nat \<times> nat \<Rightarrow> nat \<times> nat" where
  "trim_span bytes = (\<lambda>(lo, hi).
     let piece = substr bytes lo (hi - lo); lo' = lo + length (takeWhile attr_blank piece)
     in (lo', lo' + length (dropWhile attr_blank (rev (dropWhile attr_blank piece)))))"

definition divergent_argument :: "ast_tree \<Rightarrow> flow_view \<Rightarrow> nat \<times> nat \<Rightarrow> bool" where
  "divergent_argument t cfg raw =
     (let (lo, hi) = trim_span (at_bytes t) raw in
      if hi \<le> lo then False
      else is_divergent cfg \<lparr>sp_source = at_source t, sp_bytes = \<lparr>bs_lo = u32_of lo, bs_hi = u32_of hi\<rparr>\<rparr>)"

definition primcount_at :: "(flow_view \<Rightarrow> u64 list) \<Rightarrow> ast_tree \<Rightarrow> flow_view \<Rightarrow> ts_node \<Rightarrow> diagnostic list" where
  "primcount_at order t cfg n =
     (if ts_kind n = ''call_expression'' \<and> called_name (at_bytes t) n = ''SetMeshOutputCounts''
      then let arg_spans = (case child_by_field n ''arguments'' of
                 None \<Rightarrow> [] | Some args \<Rightarrow> argument_spans (at_bytes t) (unat (ts_start args)) (unat (ts_end args)));
               any_divergent_arg = list_ex (divergent_argument t cfg) arg_spans
           in if any_divergent_arg \<or> inside_divergent_cf cfg (order cfg) (node_span t n)
              then [error_diagnostic ''primcount-overrun-in-conditional-cf'' (at_source t) (range_of n)
                      (if any_divergent_arg
                       then ''`SetMeshOutputCounts(...)` argument is wave-divergent -- the contract '' @
                            ''requires thread-uniform vertex / primitive counts; UB on RDNA / Ada / '' @
                            ''Xe-HPG (silent over-count writes corrupt downstream meshlet state)''
                       else ''`SetMeshOutputCounts(...)` reached from non-thread-uniform control '' @
                            ''flow -- the contract requires the call to dominate every primitive '' @
                            ''write with thread-uniform counts; UB on RDNA / Ada / Xe-HPG'') []]
              else []
      else [])"

definition primcount_check :: "(flow_view \<Rightarrow> u64 list) \<Rightarrow> ast_tree \<Rightarrow> flow_view \<Rightarrow> diagnostic list" where
  "primcount_check order t cfg = concat (map (primcount_at order t cfg) (preorder (at_root t)))"

definition primcount_overrun_in_conditional_cf :: "(flow_view \<Rightarrow> u64 list) \<Rightarrow> (unit, 'r, flow_view, 'i) rule" where
  "primcount_overrun_in_conditional_cf order = flow_rule ''primcount-overrun-in-conditional-cf'' (primcount_check order)"

section \<open>Reorder-coherent resources\<close>

definition contains_barrier :: "string \<Rightarrow> bool" where
  "contains_barrier s \<longleftrightarrow> list_ex (contains_text s) [''DeviceMemoryBarrier'', ''AllMemoryBarrier'', ''GroupMemoryBarrier'']"

text \<open>The identifier before \<open>:\<close> or the end of a declaration.\<close>

definition declared_name :: "string \<Rightarrow> string" where
  "declared_name decl =
     (let scan_end = length (takeWhile (\<lambda>c. c \<noteq> CHR '':'') decl);
          e = back_over (\<lambda>c. c = CHR '' '' \<or> c = tab_char) decl scan_end;
          s = back_over is_id_char decl e
      in substr decl s (e - s))"

function reordercoherent_names :: "string \<Rightarrow> nat \<Rightarrow> string list" where
  "reordercoherent_names bytes cursor =
     (if cursor \<ge> length bytes then []
      else case find_text bytes ''[reordercoherent]'' cursor of
             None \<Rightarrow> []
           | Some pos \<Rightarrow>
               (case find_text bytes '';'' pos of
                  None \<Rightarrow> []
                | Some stop \<Rightarrow>
                    let name = declared_name (substr bytes pos (stop - pos)) in
                    (if name \<noteq> [] then [name] else []) @ reordercoherent_names bytes (stop + 1)))"
  by pat_completeness auto
termination
proof (relation "measure (\<lambda>(bytes, cursor). Suc (length bytes) - cursor)", goal_cases)
  case (2 bytes cursor pos stop name)
  then show ?case using find_text_bounds [OF 2(2)] find_text_bounds [OF 2(3)] by auto
qed simp

declare reordercoherent_names.simps [simp del]

lemma find_char_at: "find_text s [c] pos = Some i \<Longrightarrow> i < length s \<and> s ! i = c"
proof -
  assume "find_text s [c] pos = Some i"
  from find_text_Some [OF this] have "take 1 (drop i s) = [c]" "i < length s" by simp_all
  then show ?thesis by (simp add: Cons_nth_drop_Suc [symmetric])
qed

text \<open>A write at a position: where its index ends and whether a plain assignment follows.\<close>

definition whole_word_at :: "string \<Rightarrow> string \<Rightarrow> nat \<Rightarrow> bool" where
  "whole_word_at s name i \<longleftrightarrow>
     (i = 0 \<or> \<not> is_id_char (s ! (i - 1))) \<and> (i + length name \<ge> length s \<or> \<not> is_id_char (s ! (i + length name)))"

definition plain_assignment_at :: "string \<Rightarrow> nat \<Rightarrow> bool" where
  "plain_assignment_at s from_pos =
     (let i = skip_while (\<lambda>c. c = CHR '' '' \<or> c = tab_char) s from_pos in
      i < length s \<and> s ! i = CHR ''='' \<and> (i + 1 \<ge> length s \<or> s ! (i + 1) \<noteq> CHR ''=''))"

function unsynchronised_from :: "string \<Rightarrow> string \<Rightarrow> nat \<Rightarrow> bool" where
  "unsynchronised_from fn_text name cursor =
     (if name = [] \<or> cursor \<ge> length fn_text then False
      else case find_text fn_text name cursor of
             None \<Rightarrow> False
           | Some i \<Rightarrow>
               if \<not> whole_word_at fn_text name i then unsynchronised_from fn_text name (i + length name)
               else (case find_text fn_text ''['' i of
                       None \<Rightarrow> False
                     | Some bracket \<Rightarrow>
                         (case find_text fn_text '']'' bracket of
                            None \<Rightarrow> False
                          | Some close \<Rightarrow>
                              if \<not> plain_assignment_at fn_text (close + 1) then unsynchronised_from fn_text name (close + 1)
                              else (case find_text fn_text ''MaybeReorderThread'' close of
                                      None \<Rightarrow> unsynchronised_from fn_text name close
                                    | Some reorder \<Rightarrow>
                                        (case find_text fn_text name reorder of
                                           None \<Rightarrow> False
                                         | Some read \<Rightarrow>
                                             if \<not> contains_barrier (substr fn_text i (read - i)) then True
                                             else unsynchronised_from fn_text name (read + length name))))))"
  by pat_completeness auto
termination
proof (relation "measure (\<lambda>(fn_text, name, cursor). Suc (length fn_text) - cursor)", goal_cases)
  case (2 fn_text name cursor i)
  then show ?case using find_text_bounds [OF 2(2)] by (cases name) auto
next
  case (3 fn_text name cursor i bracket close)
  then show ?case using find_text_bounds [OF 3(2)] find_text_bounds [OF 3(4)] find_text_bounds [OF 3(5)] by auto
next
  case (4 fn_text name cursor i bracket close)
  have "i \<le> bracket" "bracket \<le> close" "cursor \<le> i"
    using find_text_bounds [OF 4(2)] find_text_bounds [OF 4(4)] find_text_bounds [OF 4(5)] by simp_all
  moreover have "close \<noteq> cursor"
  proof
    assume "close = cursor"
    with \<open>i \<le> bracket\<close> \<open>bracket \<le> close\<close> \<open>cursor \<le> i\<close> have eq: "bracket = close" by simp
    have "fn_text ! bracket = CHR ''[''" "fn_text ! close = CHR '']''"
      using find_char_at [OF 4(4)] find_char_at [OF 4(5)] by simp_all
    with eq show False by simp
  qed
  ultimately show ?case using 4(1) by auto
next
  case (5 fn_text name cursor i bracket close reorder read)
  then show ?case
    using find_text_bounds [OF 5(2)] find_text_bounds [OF 5(4)] find_text_bounds [OF 5(5)] find_text_bounds [OF 5(7)]
      find_text_bounds [OF 5(8)] by (cases name) auto
qed simp

declare unsynchronised_from.simps [simp del]

definition unsynchronised_window :: "string \<Rightarrow> string \<Rightarrow> bool" where
  "unsynchronised_window fn_text name = unsynchronised_from fn_text name 0"

definition reordercoherent_at :: "ast_tree \<Rightarrow> flow_view \<Rightarrow> string list \<Rightarrow> ts_node \<Rightarrow> diagnostic list" where
  "reordercoherent_at t cfg names n =
     (if ts_kind n = ''function_definition''
      then (case find (\<lambda>name. unsynchronised_window (node_text (Some n) (at_bytes t)) name \<and>
                  \<not> barrier_separates_spans cfg (node_span t n) (node_span t n)) names of
              None \<Rightarrow> []
            | Some name \<Rightarrow>
                [error_diagnostic ''reordercoherent-uav-missing-barrier'' (at_source t) (range_of n)
                   (''`[reordercoherent]` UAV `'' @ name @ ''` is read after `MaybeReorderThread` on a path that '' @
                    ''wrote it before the reorder, without an intervening '' @
                    ''barrier -- the reorder shuffles lanes between the L1 '' @
                    ''cache lines (proposal 0027 SER); add '' @
                    ''`DeviceMemoryBarrier()` before the reorder'') []])
      else [])"

definition reordercoherent_check :: "ast_tree \<Rightarrow> flow_view \<Rightarrow> diagnostic list" where
  "reordercoherent_check t cfg =
     (let names = reordercoherent_names (at_bytes t) 0 in
      if names = [] then [] else concat (map (reordercoherent_at t cfg names) (preorder (at_root t))))"

definition reordercoherent_uav_missing_barrier :: "(unit, 'r, flow_view, 'i) rule" where
  "reordercoherent_uav_missing_barrier = flow_rule ''reordercoherent-uav-missing-barrier'' reordercoherent_check"

section \<open>Divergent indexes of uniform buffers\<close>

text \<open>The first occurrence of a keyword as a word.\<close>

definition find_keyword :: "string \<Rightarrow> string \<Rightarrow> nat option" where
  "find_keyword s keyword = (case word_occurrences s keyword 0 of [] \<Rightarrow> None | i # _ \<Rightarrow> Some i)"

text \<open>The position of the closing character, or the end of the text.\<close>

function balanced_end :: "char \<Rightarrow> char \<Rightarrow> string \<Rightarrow> nat \<Rightarrow> int \<Rightarrow> nat" where
  "balanced_end lc rc s i depth =
     (if i \<ge> length s then i
      else if s ! i = lc then balanced_end lc rc s (i + 1) (depth + 1)
      else if s ! i = rc
        then (if depth - 1 = 0 then i else balanced_end lc rc s (i + 1) (depth - 1))
      else balanced_end lc rc s (i + 1) depth)"
  by pat_completeness auto
termination
  by (relation "measure (\<lambda>(lc, rc, s, i, depth). length s - i)") auto

declare balanced_end.simps [simp del]

lemma balanced_end_ge: "i \<le> balanced_end lc rc s i depth"
proof (induction lc rc s i depth rule: balanced_end.induct)
  case (1 lc rc s i depth)
  then show ?case by (subst balanced_end.simps) auto
qed

definition uniform_decl_name :: "string \<Rightarrow> string \<Rightarrow> nat \<Rightarrow> string" where
  "uniform_decl_name decl_text kind kind_pos =
     (let i = kind_pos + length kind;
          i = (if i < length decl_text \<and> decl_text ! i = CHR ''<''
               then (let j = balanced_end CHR ''<'' CHR ''>'' decl_text i 0 in if j < length decl_text then j + 1 else j) else i);
          name_start = skip_while (\<lambda>c. c = CHR '' '' \<or> c = tab_char) decl_text i;
          j = skip_while is_id_char decl_text name_start
      in substr decl_text name_start (j - name_start))"

definition parse_uniform_decl :: "string \<Rightarrow> (string \<times> string) option" where
  "parse_uniform_decl decl_text =
     (case List.map_filter (\<lambda>kind. map_option (Pair kind) (find_keyword decl_text kind))
             [''Buffer'', ''StructuredBuffer'', ''ByteAddressBuffer'', ''ConstantBuffer''] of
        [] \<Rightarrow> None
      | (kind, kind_pos) # _ \<Rightarrow>
          if find_keyword decl_text ''NonUniformResourceIndex'' \<noteq> None then None
          else let name = uniform_decl_name decl_text kind kind_pos in if name = [] then None else Some (kind, name))"

record uniform_binding =
  ub_name :: string
  ub_kind :: string
  ub_decl_lo :: u32
  ub_decl_hi :: u32

text \<open>Declarations inside a declaration are not visited.\<close>

function collect_uniform_bindings :: "string \<Rightarrow> ts_node \<Rightarrow> uniform_binding list" where
  "collect_uniform_bindings bytes n =
     (if is_variable_kind (ts_kind n)
      then (case parse_uniform_decl (node_text (Some n) bytes) of
              None \<Rightarrow> []
            | Some (kind, name) \<Rightarrow> [\<lparr>ub_name = name, ub_kind = kind, ub_decl_lo = ts_start n, ub_decl_hi = ts_end n\<rparr>])
      else concat (map (collect_uniform_bindings bytes) (child_nodes n)))"
  by pat_completeness auto
termination
proof (relation "measure (\<lambda>(bytes, n). node_size n)", goal_cases)
  case (2 bytes n c)
  then show ?case using child_smaller [of c n] by simp
qed simp

declare collect_uniform_bindings.simps [simp del]

definition divergent_index_report :: "ast_tree \<Rightarrow> uniform_binding \<Rightarrow> nat \<Rightarrow> nat \<Rightarrow> diagnostic" where
  "divergent_index_report t b found j =
     rule_diagnostic ''divergent-buffer-index-on-uniform-resource'' (at_source t) \<lparr>bs_lo = u32_of found, bs_hi = u32_of (j + 1)\<rparr>
       (''`'' @ ub_kind b @ ''<...>` `'' @ ub_name b @ ''` is bound uniformly but the index expression is wave-'' @
        ''divergent -- on RDNA / Ada / Xe-HPG this forces every lane '' @
        ''onto the vector cache path and loses the K$/scalar fast-path '' @
        ''the binding promised; hoist the index to a uniform value or '' @
        ''switch to a typed-buffer view designed for divergent loads'') []"

function scan_indexes :: "ast_tree \<Rightarrow> flow_view \<Rightarrow> uniform_binding \<Rightarrow> nat \<Rightarrow> diagnostic list" where
  "scan_indexes t cfg b pos =
     (if ub_name b = [] \<or> pos > length (at_bytes t) then []
      else case find_text (at_bytes t) (ub_name b) pos of
             None \<Rightarrow> []
           | Some found \<Rightarrow>
               let bytes = at_bytes t; stop = found + length (ub_name b) in
               if \<not> whole_word_at bytes (ub_name b) found \<or> (ub_decl_lo b \<le> u32_of found \<and> u32_of found < ub_decl_hi b)
               then scan_indexes t cfg b (found + 1)
               else let k = skip_while (\<lambda>c. c = CHR '' '' \<or> c = tab_char) bytes stop in
                 if k \<ge> length bytes \<or> bytes ! k \<noteq> CHR ''['' then scan_indexes t cfg b stop
                 else let j = balanced_end CHR ''['' CHR '']'' bytes k 0 in
                   if j \<ge> length bytes then []
                   else (if is_divergent cfg \<lparr>sp_source = at_source t, sp_bytes = \<lparr>bs_lo = u32_of (k + 1), bs_hi = u32_of j\<rparr>\<rparr>
                         then [divergent_index_report t b found j] else []) @ scan_indexes t cfg b (j + 1))"
  by pat_completeness auto
termination
proof (relation "measure (\<lambda>(t, cfg, b, pos). Suc (length (at_bytes t)) - pos)", goal_cases)
  case (2 t cfg b pos found bytes stop)
  then show ?case using find_text_bounds [OF 2(2)] by auto
next
  case (3 t cfg b pos found bytes stop k)
  then show ?case using find_text_bounds [OF 3(2)] by (cases "ub_name b") auto
next
  case (4 t cfg b pos found bytes stop k j)
  have "stop \<le> k" unfolding 4(6) by simp
  moreover have "k \<le> j" unfolding 4(8) by (rule balanced_end_ge)
  ultimately show ?case using 4(1,4) find_text_bounds [OF 4(2)] by auto
qed simp

declare scan_indexes.simps [simp del]

definition uniform_index_check :: "ast_tree \<Rightarrow> flow_view \<Rightarrow> diagnostic list" where
  "uniform_index_check t cfg = concat (map (\<lambda>b. scan_indexes t cfg b 0) (collect_uniform_bindings (at_bytes t) (at_root t)))"

definition divergent_buffer_index_on_uniform_resource :: "(unit, 'r, flow_view, 'i) rule" where
  "divergent_buffer_index_on_uniform_resource = flow_rule ''divergent-buffer-index-on-uniform-resource'' uniform_index_check"

section \<open>Literals of the hint\<close>

lemma fold_decimal_ge: "n \<le> fold (\<lambda>c n. 10 * n + digit_value c) ds (n :: nat)"
proof (induction ds arbitrary: n)
  case (Cons c ds)
  show ?case using Cons [of "10 * n + digit_value c"] by simp
qed simp

lemma digit_value_le: "is_digit_char c \<Longrightarrow> digit_value c \<le> 9"
proof -
  assume "is_digit_char c"
  then have "(of_char c :: nat) \<le> 57" by (simp add: is_digit_char_def less_eq_char_def)
  then show ?thesis by (simp add: digit_value_def)
qed

lemma checked_decimal:
  "list_all is_digit_char ds \<Longrightarrow>
     checked_digits 10 dec_digit ds v =
       (let r = fold (\<lambda>c n. 10 * n + digit_value c) ds (unat v) in if r < 2 ^ 32 then Some (u32_of r) else None)"
proof (induction ds arbitrary: v)
  case Nil
  have "unat v < 2 ^ 32" using unsigned_less [of v] by simp
  then show ?case by simp
next
  case (Cons c ds)
  let ?d = "digit_value c"
  have c: "is_digit_char c" "?d \<le> 9" using Cons.prems digit_value_le by auto
  have d: "dec_digit c = Some (u32_of ?d)" using c(1) by (simp add: dec_digit_def char_digit_value)
  have ud: "unat (u32_of ?d) = ?d" using c(2) by (intro unat_u32_of) simp
  have "u32_of ?d \<le> 0xFFFFFFFF" using ud c(2) by (simp add: word_le_nat_alt)
  then have "unat (0xFFFFFFFF - u32_of ?d) = 4294967295 - ?d" using ud by (simp add: unat_sub)
  then have over: "v > (0xFFFFFFFF - u32_of ?d) div 10 \<longleftrightarrow> 2 ^ 32 \<le> 10 * unat v + ?d"
    using c(2) by (simp add: word_less_nat_alt unat_div) linarith
  show ?case
  proof (cases "2 ^ 32 \<le> 10 * unat v + ?d")
    case True
    then have "2 ^ 32 \<le> fold (\<lambda>c n. 10 * n + digit_value c) ds (10 * unat v + ?d)" using fold_decimal_ge le_trans by blast
    then show ?thesis using True over by (simp add: d Let_def)
  next
    case False
    then have "unat (v * 10 + u32_of ?d) = 10 * unat v + ?d" using ud by (simp add: unat_word_ariths mult.commute)
    then show ?thesis using False over Cons by (simp add: d)
  qed
qed

lemma literal_trim_decimal: "literal_trim (to_decimal n) = to_decimal n"
proof -
  have "\<not> is_digit_char CHR '' ''" "\<not> is_digit_char tab_char" "\<not> is_digit_char CHR ''u''" "\<not> is_digit_char CHR ''U''"
    by code_simp+
  then have "\<forall>c \<in> set (to_decimal n). \<not> (c = CHR '' '' \<or> c = tab_char \<or> c = CHR ''u'' \<or> c = CHR ''U'')"
    using to_decimal_digits [of n] by metis
  then show ?thesis by (simp add: literal_trim_def dropWhile_none)
qed

lemma decimal_not_hex: "\<not> is_hex_literal (to_decimal n)"
proof
  assume "is_hex_literal (to_decimal n)"
  then have "to_decimal n ! 1 \<in> {CHR ''x'', CHR ''X''}" "1 < length (to_decimal n)" by (auto simp: is_hex_literal_def)
  moreover have "\<not> is_digit_char CHR ''x''" "\<not> is_digit_char CHR ''X''" by code_simp+
  ultimately show False using to_decimal_digits [of n] nth_mem by fastforce
qed

text \<open>A decimal literal is read exactly, with the suffix \<open>u\<close> or without, and is no number when it does not fit 32
  bits: nothing wraps. So the rule on hint bits sees \<open>n\<close> above the ceiling exactly when \<open>32 < n < 2\<^sup>3\<^sup>2\<close>, and the literal
  its fix writes is never above it.\<close>

theorem hint_bits_read_exactly:
  "parse_hint_bits (to_decimal n) = (if n < 2 ^ 32 then Some (u32_of n) else None) \<and>
   parse_hint_bits (to_decimal n @ ''u'') = parse_hint_bits (to_decimal n) \<and>
   ((case parse_hint_bits (to_decimal n) of None \<Rightarrow> False | Some bits \<Rightarrow> bits > 32) \<longleftrightarrow> 32 < n \<and> n < 2 ^ 32) \<and>
   parse_hint_bits ''32'' = Some 32"
proof -
  have "checked_digits 10 dec_digit (to_decimal n) 0 = (if n < 2 ^ 32 then Some (u32_of n) else None)"
    using checked_decimal [of "to_decimal n" 0] to_decimal_digits [of n] of_to_decimal [of n]
    by (simp add: list_all_iff of_decimal_def)
  then have p: "parse_hint_bits (to_decimal n) = (if n < 2 ^ 32 then Some (u32_of n) else None)"
    by (simp add: parse_hint_bits_def literal_trim_decimal decimal_not_hex Let_def)
  have "literal_trim (to_decimal n @ ''u'') = literal_trim (to_decimal n)"
  proof -
    have "\<not> (hd (to_decimal n) = CHR '' '' \<or> hd (to_decimal n) = tab_char)" using decimal_start [of n] by (auto simp: attr_blank_def)
    then have "dropWhile (\<lambda>c. c = CHR '' '' \<or> c = tab_char) (to_decimal n @ s) = to_decimal n @ s" for s
      by (cases "to_decimal n") auto
    from this [of "''u''"] this [of "[]"] show ?thesis by (simp add: literal_trim_def)
  qed
  then have "parse_hint_bits (to_decimal n @ ''u'') = parse_hint_bits (to_decimal n)" by (simp add: parse_hint_bits_def)
  moreover have "(case parse_hint_bits (to_decimal n) of None \<Rightarrow> False | Some bits \<Rightarrow> bits > 32) \<longleftrightarrow> 32 < n \<and> n < 2 ^ 32"
    unfolding p using unat_u32_of [of n] by (auto simp: word_less_nat_alt)
  moreover have "parse_hint_bits ''32'' = Some 32" by code_simp
  ultimately show ?thesis using p by blast
qed

section \<open>Arguments with comparisons\<close>

text \<open>A comparison in the first argument hides the comma: both arguments are one span, which the analysis has no class for.\<close>

lemma comparison_hides_comma:
  "argument_spans ''(a < b ? 1 : 2, n)'' 0 18 = [(1, 17)] \<and> argument_spans ''(a == b ? 1 : 2, n)'' 0 19 = [(1, 15), (16, 18)]"
  by code_simp

end
