(* ===== verification/Queries.thy ===== *)
theory Queries
  imports Bindings Layouts Powers
begin

text \<open>
  The query wrapper of \<^verbatim>\<open>core/src/query\<close> and the thirteen rules that are written as tree-sitter queries with a
  predicate on the captures. The query library is a parameter: what it compiles a pattern to, the names it gives the
  captures, and the matches it finds. Each rule is a pattern, what it does when the pattern does not compile, and one
  definition for the body of its callback.
\<close>

section \<open>The wrapper\<close>

datatype query_error =
  Query_Error_None | Query_Error_Syntax | Query_Error_Node_Type | Query_Error_Field | Query_Error_Capture
  | Query_Error_Structure | Query_Error_Language

type_synonym captured_node = "node_path \<times> ts_node"

record raw_match =
  raw_pattern_index :: "16 word"
  raw_captures :: "(u32 \<times> captured_node) list"

text \<open>\<open>ts_query_new\<close>, \<open>ts_query_cursor_new\<close>, \<open>ts_query_capture_name_for_id\<close> and the matches that
  \<open>ts_query_cursor_next_match\<close> delivers one after the other.\<close>

record 'q query_lib =
  ql_new :: "grammar \<Rightarrow> string \<Rightarrow> 'q option \<times> query_error \<times> u32"
  ql_cursor_made :: bool
  ql_capture_name :: "'q \<Rightarrow> u32 \<Rightarrow> string option"
  ql_matches :: "'q \<Rightarrow> ts_node \<Rightarrow> raw_match list"

record compile_error =
  ce_code :: query_error
  ce_byte_offset :: u32
  ce_detail :: string

record capture =
  cap_name :: string
  cap_node :: captured_node

record query_match =
  qm_pattern_index :: u32
  qm_captures :: "capture list"

definition match_capture :: "query_match \<Rightarrow> string \<Rightarrow> captured_node option" where
  "match_capture m name = map_option cap_node (find (\<lambda>c. cap_name c = name) (qm_captures m))"

definition query_compile :: "'q query_lib \<Rightarrow> grammar option \<Rightarrow> string \<Rightarrow> compile_error + 'q" where
  "query_compile lib language pattern =
     (case language of
        None \<Rightarrow> Inl \<lparr>ce_code = Query_Error_Language, ce_byte_offset = 0,
                      ce_detail = ''null TSLanguage passed to Query::compile''\<rparr>
      | Some g \<Rightarrow>
          (case ql_new lib g pattern of
             (Some q, Query_Error_None, _) \<Rightarrow> Inr q
           | (_, code, offset) \<Rightarrow> Inl \<lparr>ce_code = code, ce_byte_offset = offset, ce_detail = []\<rparr>))"

definition capture_name :: "'q query_lib \<Rightarrow> 'q option \<Rightarrow> u32 \<Rightarrow> string" where
  "capture_name lib query index =
     (case query of
        None \<Rightarrow> []
      | Some q \<Rightarrow> (case ql_capture_name lib q index of None \<Rightarrow> [] | Some name \<Rightarrow> name))"

definition wrapped_match :: "'q query_lib \<Rightarrow> 'q option \<Rightarrow> raw_match \<Rightarrow> query_match" where
  "wrapped_match lib query raw =
     \<lparr>qm_pattern_index = ucast (raw_pattern_index raw),
      qm_captures = map (\<lambda>(index, node). \<lparr>cap_name = capture_name lib query index, cap_node = node\<rparr>) (raw_captures raw)\<rparr>"

definition engine_run :: "'q query_lib \<Rightarrow> 'q option \<Rightarrow> ts_node \<Rightarrow> (query_match \<Rightarrow> diagnostic list) \<Rightarrow> diagnostic list" where
  "engine_run lib query root_node on_match =
     (if \<not> ql_cursor_made lib then []
      else case query of
             None \<Rightarrow> []
           | Some q \<Rightarrow> concat (map (\<lambda>raw. on_match (wrapped_match lib query raw)) (ql_matches lib q root_node)))"

section \<open>Rules as queries\<close>

definition pattern_lines :: "string list \<Rightarrow> string" where
  "pattern_lines lines = [newline] @ concat (map (\<lambda>l. l @ [newline]) lines)"

text \<open>The captures a callback asks for, if none is null.\<close>

definition capture_all :: "query_match \<Rightarrow> string list \<Rightarrow> ts_node list option" where
  "capture_all m names =
     (let nodes = map (match_capture m) names
      in if None \<in> set nodes then None else Some (map (snd \<circ> the) nodes))"

definition query_failure :: "string \<Rightarrow> ast_tree \<Rightarrow> diagnostic list" where
  "query_failure rule_id t =
     [error_diagnostic ''clippy::query-compile'' (at_source t) \<lparr>bs_lo = 0, bs_hi = 0\<rparr>
        (''failed to compile '' @ rule_id @ '' query'') []]"

definition query_check :: "'q query_lib \<Rightarrow> string \<Rightarrow> (ast_tree \<Rightarrow> diagnostic list) \<Rightarrow> (query_match \<Rightarrow> diagnostic list) \<Rightarrow>
    ast_tree \<Rightarrow> diagnostic list" where
  "query_check lib pattern failure on_match t =
     (case query_compile lib (Some (at_language t)) pattern of
        Inl e \<Rightarrow> failure t
      | Inr q \<Rightarrow> engine_run lib (Some q) (at_root t) on_match)"

text \<open>\<open>AstTree::text\<close> of a node.\<close>

abbreviation text_of :: "ast_tree \<Rightarrow> ts_node \<Rightarrow> string" where
  "text_of t n \<equiv> ast_text (at_bytes t) (Some n)"

text \<open>The report of a rule on a node, with at most one fix.\<close>

definition node_report :: "string \<Rightarrow> ast_tree \<Rightarrow> ts_node \<Rightarrow> string \<Rightarrow> fix_t list \<Rightarrow> diagnostic list" where
  "node_report rule_id t n message fixes = [rule_diagnostic rule_id (at_source t) (range_of n) message fixes]"

definition replace_node :: "bool \<Rightarrow> string \<Rightarrow> ast_tree \<Rightarrow> ts_node \<Rightarrow> string \<Rightarrow> fix_t" where
  "replace_node machine description t n replacement =
     replacing_fix machine description (at_source t) (range_of n) replacement"

text \<open>The operator of a binary expression: the first anonymous child with a sensible range.\<close>

definition operator_in_range :: "string \<Rightarrow> ts_node \<Rightarrow> bool" where
  "operator_in_range bytes c \<longleftrightarrow>
     unat (ts_start c) < length bytes \<and> unat (ts_end c) \<le> length bytes \<and> ts_start c < ts_end c"

definition binary_operator :: "string \<Rightarrow> ts_node \<Rightarrow> string" where
  "binary_operator bytes expr =
     (case find (\<lambda>c. \<not> ts_named c \<and> operator_in_range bytes c) (child_nodes expr) of
        None \<Rightarrow> []
      | Some c \<Rightarrow> substr bytes (unat (ts_start c)) (unat (ts_end c - ts_start c)))"

definition nested_call_pattern :: string where
  "nested_call_pattern = pattern_lines
     [''    (call_expression'',
      ''        function: (identifier) @outer'',
      ''        arguments: (argument_list'',
      ''            (call_expression'',
      ''                function: (identifier) @inner) @inner_call)) @outer_call'']"

definition operands_pattern :: string where
  "operands_pattern = pattern_lines
     [''    (binary_expression'',
      ''        left:  (_) @left'',
      ''        right: (_) @right) @expr'']"

section \<open>Calls around calls\<close>

definition saturate_match :: "ast_tree \<Rightarrow> query_match \<Rightarrow> diagnostic list" where
  "saturate_match t m =
     (case capture_all m [''outer'', ''inner'', ''outer_call''] of
        Some [outer, inner, outer_call] \<Rightarrow>
          (if text_of t outer \<noteq> ''saturate'' \<or> text_of t inner \<noteq> ''saturate'' then []
           else let inner_call = map_option snd (match_capture m ''inner_call'');
                    inner_text = ast_text (at_bytes t) inner_call
             in node_report ''redundant-saturate'' t outer_call
                  (''`saturate(saturate(x))` is redundant '' @ em_dash @ '' the inner '' @
                   ''`saturate` already clamps to [0, 1]; drop the '' @
                   ''outer call'')
                  (if inner_text \<noteq> [] \<and> bs_hi (byte_range inner_call) \<le> bs_hi (range_of outer_call)
                   then [replace_node True ''drop the outer `saturate` (the inner call already clamps to [0, 1])''
                           t outer_call inner_text]
                   else []))
      | _ \<Rightarrow> [])"

definition normalize_match :: "ast_tree \<Rightarrow> query_match \<Rightarrow> diagnostic list" where
  "normalize_match t m =
     (case capture_all m [''outer'', ''inner'', ''outer_call'', ''inner_call''] of
        Some [outer, inner, outer_call, inner_call] \<Rightarrow>
          (if text_of t outer \<noteq> ''normalize'' \<or> text_of t inner \<noteq> ''normalize'' then []
           else node_report ''redundant-normalize'' t outer_call
                  (''`normalize(normalize(x))` is redundant -- the inner '' @
                   ''`normalize` already produces a unit-length vector; drop the '' @
                   ''outer call'')
                  (if text_of t inner_call \<noteq> [] \<and> ts_end inner_call \<le> ts_end outer_call
                   then [replace_node True
                           (''drop the outer `normalize` (the inner call already produces a '' @
                            ''unit-length vector)'')
                           t outer_call (text_of t inner_call)]
                   else []))
      | _ \<Rightarrow> [])"

definition transpose_match :: "ast_tree \<Rightarrow> query_match \<Rightarrow> diagnostic list" where
  "transpose_match t m =
     (case capture_all m [''outer'', ''inner'', ''outer_call'', ''inner_call''] of
        Some [outer, inner, outer_call, inner_call] \<Rightarrow>
          (if text_of t outer \<noteq> ''transpose'' \<or> text_of t inner \<noteq> ''transpose'' then []
           else case map_option named_children (child_by_field inner_call ''arguments'') of
                  Some [m_node] \<Rightarrow>
                    node_report ''redundant-transpose'' t outer_call
                      (''`transpose(transpose(M))` is redundant -- transpose is its own '' @
                       ''inverse; the two calls cancel'')
                      (if text_of t m_node \<noteq> [] \<and> ts_end inner_call \<le> ts_end outer_call
                       then [replace_node True ''drop both `transpose` calls -- transpose is its own inverse''
                               t outer_call (text_of t m_node)]
                       else [])
                | _ \<Rightarrow> [])
      | _ \<Rightarrow> [])"

section \<open>Casts\<close>

definition normalise_type :: "string \<Rightarrow> string" where
  "normalise_type text = filter (\<lambda>c. \<not> is_blank_char c) text"

definition unwrap_single :: "ts_node \<Rightarrow> ts_node" where
  "unwrap_single n =
     (if ts_kind n = ''parenthesized_expression''
      then (case named_children n of [inner] \<Rightarrow> inner | _ \<Rightarrow> n)
      else n)"

definition cast_pattern :: string where
  "cast_pattern = pattern_lines
     [''    (cast_expression'',
      ''        type: (_) @outer_type'',
      ''        value: (_) @outer_value) @outer_cast'']"

definition cast_match :: "ast_tree \<Rightarrow> query_match \<Rightarrow> diagnostic list" where
  "cast_match t m =
     (case capture_all m [''outer_cast'', ''outer_type'', ''outer_value''] of
        Some [outer_cast, outer_type, outer_value] \<Rightarrow>
          (let inner = unwrap_single outer_value in
           if ts_kind inner \<noteq> ''cast_expression'' then []
           else case child_by_field inner ''type'' of
                  None \<Rightarrow> []
                | Some inner_type \<Rightarrow>
                    (let outer_text = text_of t outer_type; inner_text = text_of t inner_type in
                     if outer_text = [] \<or> inner_text = [] \<or> normalise_type outer_text \<noteq> normalise_type inner_text \<or>
                        text_of t inner = [] then []
                     else node_report ''redundant-precision-cast'' t outer_cast
                            (''redundant `('' @ outer_text @ '')` cast '' @ em_dash @
                             '' the inner cast already produces a value of type `'' @ inner_text @ ''`; drop the outer cast'')
                            [replace_node True
                               (''drop the redundant outer cast; the inner cast already '' @ ''produces the requested type'')
                               t outer_cast (text_of t inner)]))
      | _ \<Rightarrow> [])"

section \<open>Literals\<close>

definition is_float_suffix_char :: "char \<Rightarrow> bool" where
  "is_float_suffix_char c \<longleftrightarrow> c \<in> set ''fFhHlL''"

definition zero_or_one :: "string \<Rightarrow> nat option" where
  "zero_or_one digits =
     (let trimmed = drop (skip_while (\<lambda>c. c = CHR ''0'') digits 0) digits in
      if trimmed = [] then Some 0 else if trimmed = ''1'' then Some 1 else None)"

definition scan_zero_fraction :: "string \<Rightarrow> nat \<Rightarrow> nat option" where
  "scan_zero_fraction text i =
     (if i \<ge> length text \<or> text ! i \<noteq> CHR ''.'' then Some i
      else let j = read_digits text (i + 1) in
           if list_all (\<lambda>c. c = CHR ''0'') (substr text (i + 1) (j - (i + 1))) then Some j else None)"

definition scan_float_suffix :: "string \<Rightarrow> nat \<Rightarrow> bool" where
  "scan_float_suffix text i = list_all is_float_suffix_char (drop i text)"

text \<open>The literal of \<open>lerp-extremes\<close>; the target is zero or one.\<close>

definition literal_is :: "string \<Rightarrow> nat \<Rightarrow> bool" where
  "literal_is text target \<longleftrightarrow>
     (if text = [] then False
      else let int_start = skip_optional_plus text 0; i = read_digits text int_start in
        if i = int_start then False
        else case zero_or_one (substr text int_start (i - int_start)) of
               None \<Rightarrow> False
             | Some value \<Rightarrow>
                 (case scan_zero_fraction text i of
                    None \<Rightarrow> False
                  | Some i \<Rightarrow>
                      (if i < length text \<and> (text ! i = CHR ''e'' \<or> text ! i = CHR ''E'') then False
                       else scan_float_suffix text i \<and> value = target)))"

text \<open>The literal of \<open>clamp01-to-saturate\<close> may have an exponent, of value zero. The accumulator is a \<open>long\<close>, whose
  overflow C++ leaves undefined; here it is a number.\<close>

definition scan_zero_exponent :: "string \<Rightarrow> nat \<Rightarrow> nat option" where
  "scan_zero_exponent text i =
     (if i \<ge> length text \<or> text ! i \<noteq> CHR ''e'' \<and> text ! i \<noteq> CHR ''E'' then Some i
      else let exp_start = (if i + 1 < length text \<and> (text ! (i + 1) = CHR ''+'' \<or> text ! (i + 1) = CHR ''-'') then i + 2 else i + 1);
               j = read_digits text exp_start
           in if j = exp_start \<or> of_decimal (substr text exp_start (j - exp_start)) \<noteq> 0 then None else Some j)"

definition scan_int_part :: "string \<Rightarrow> nat \<Rightarrow> nat \<times> nat option" where
  "scan_int_part text i =
     (let j = read_digits text i in (j, if j = i then None else zero_or_one (substr text i (j - i))))"

definition literal_equals :: "string \<Rightarrow> nat \<Rightarrow> bool" where
  "literal_equals text target \<longleftrightarrow>
     (if text = [] then False
      else let (i, int_kind) = scan_int_part text (skip_optional_plus text 0) in
        case scan_zero_fraction text i of
          None \<Rightarrow> False
        | Some i \<Rightarrow>
            (case scan_zero_exponent text i of
               None \<Rightarrow> False
             | Some i \<Rightarrow> scan_float_suffix text i \<and> int_kind = Some target))"

section \<open>Arithmetic\<close>

definition lerp_pattern :: string where
  "lerp_pattern = pattern_lines
     [''    (call_expression'',
      ''        function: (identifier) @fn'',
      ''        arguments: (argument_list'',
      ''            (_) @a'',
      ''            (_) @b'',
      ''            (number_literal) @t)) @call'']"

definition lerp_match :: "ast_tree \<Rightarrow> query_match \<Rightarrow> diagnostic list" where
  "lerp_match t m =
     (case capture_all m [''fn'', ''a'', ''b'', ''t'', ''call''] of
        Some [fn, a, b, interpolant, call] \<Rightarrow>
          (if text_of t fn \<noteq> ''lerp'' then []
           else let zero = literal_is (text_of t interpolant) 0; one = literal_is (text_of t interpolant) 1 in
             if \<not> zero \<and> \<not> one then []
             else node_report ''lerp-extremes'' t call
                    (if zero
                     then ''`lerp(a, b, 0)` always returns `a` '' @ em_dash @ '' the interpolant '' @
                          ''is 0, so the result is the first endpoint''
                     else ''`lerp(a, b, 1)` always returns `b` '' @ em_dash @ '' the interpolant '' @
                          ''is 1, so the result is the second endpoint'')
                    [replace_node True
                       (if zero then ''replace `lerp(a, b, 0)` with `a`'' else ''replace `lerp(a, b, 1)` with `b`'')
                       t call (text_of t (if zero then a else b))])
      | _ \<Rightarrow> [])"

definition inv_sqrt_pattern :: string where
  "inv_sqrt_pattern = pattern_lines
     [''    (binary_expression'',
      ''        left:  (number_literal) @one'',
      ''        right: (call_expression'',
      ''            function: (identifier) @fn'',
      ''            arguments: (argument_list) @args) @inner_call) @expr'']"

definition inv_sqrt_match :: "ast_tree \<Rightarrow> query_match \<Rightarrow> diagnostic list" where
  "inv_sqrt_match t m =
     (case capture_all m [''one'', ''fn'', ''args'', ''expr''] of
        Some [one, fn, args, expr] \<Rightarrow>
          (if binary_operator (at_bytes t) expr \<noteq> ''/'' \<or> \<not> is_numeric_literal_one (text_of t one) \<or>
              text_of t fn \<noteq> ''sqrt'' then []
           else case named_children args of
                  [sqrt_arg] \<Rightarrow>
                    (if text_of t sqrt_arg = [] then []
                     else node_report ''inv-sqrt-to-rsqrt'' t expr
                            (''`1.0 / sqrt(x)` should be written as `rsqrt(x)` -- '' @
                             ''`rsqrt` is a single hardware instruction on every '' @
                             ''modern GPU'')
                            [replace_node True ''replace `1.0 / sqrt(x)` with `rsqrt(x)`''
                               t expr (''rsqrt('' @ text_of t sqrt_arg @ '')'')])
                | _ \<Rightarrow> [])
      | _ \<Rightarrow> [])"

definition emit_identity :: "ast_tree \<Rightarrow> ts_node \<Rightarrow> string \<Rightarrow> string \<Rightarrow> string \<Rightarrow> diagnostic list" where
  "emit_identity t expr result_text message description =
     node_report ''mul-identity'' t expr message [replace_node True description t expr result_text]"

definition emit_mul_zero :: "ast_tree \<Rightarrow> ts_node \<Rightarrow> string \<Rightarrow> diagnostic list" where
  "emit_mul_zero t expr zero_text =
     node_report ''mul-identity'' t expr
       (''multiply by 0 is 0 for finite values, but '' @
        ''preserves NaN for floats '' @ em_dash @ '' use `0` directly '' @
        ''only if the operand cannot be NaN'')
       [replace_node False
          (''if the operand is guaranteed finite (non-NaN), replace the '' @
           ''multiply-by-zero with the literal `0` (or `0.0`) directly; '' @
           ''otherwise leave as-is to preserve NaN propagation'')
          t expr zero_text]"

definition is_literal_with :: "(string \<Rightarrow> bool) \<Rightarrow> ast_tree \<Rightarrow> ts_node \<Rightarrow> bool" where
  "is_literal_with P t n \<longleftrightarrow> ts_kind n = ''number_literal'' \<and> P (text_of t n)"

definition identity_match :: "ast_tree \<Rightarrow> query_match \<Rightarrow> diagnostic list" where
  "identity_match t m =
     (case capture_all m [''left'', ''right'', ''expr''] of
        Some [left, right, expr] \<Rightarrow>
          (let op = binary_operator (at_bytes t) expr;
               one = is_literal_with is_numeric_literal_one t;
               zero = is_literal_with is_numeric_literal_zero t
           in if op = ''*'' then
                (if one right then emit_identity t expr (text_of t left) ''multiply by 1 is a no-op'' ''replace `x * 1` with `x`''
                 else if one left then emit_identity t expr (text_of t right) ''multiply by 1 is a no-op'' ''replace `1 * x` with `x`''
                 else if zero right then emit_mul_zero t expr (text_of t right)
                 else if zero left then emit_mul_zero t expr (text_of t left)
                 else [])
              else if op = ''+'' then
                (if zero right then emit_identity t expr (text_of t left) ''adding 0 is a no-op'' ''replace `x + 0` with `x`''
                 else if zero left then emit_identity t expr (text_of t right) ''adding 0 is a no-op'' ''replace `0 + x` with `x`''
                 else [])
              else [])
      | _ \<Rightarrow> [])"

definition clamp_pattern :: string where
  "clamp_pattern = pattern_lines
     [''    (call_expression'',
      ''        function: (identifier) @fn'',
      ''        arguments: (argument_list'',
      ''            (_) @x'',
      ''            (number_literal) @lo'',
      ''            (number_literal) @hi)) @call'']"

text \<open>The fix says nothing of being applicable by a machine, which is the default of \<open>Fix\<close>.\<close>

definition clamp_match :: "ast_tree \<Rightarrow> query_match \<Rightarrow> diagnostic list" where
  "clamp_match t m =
     (case capture_all m [''fn'', ''x'', ''lo'', ''hi'', ''call''] of
        Some [fn, x, lo, hi, call] \<Rightarrow>
          (if text_of t fn \<noteq> ''clamp'' \<or> \<not> literal_equals (text_of t lo) 0 \<or> \<not> literal_equals (text_of t hi) 1 then []
           else node_report ''clamp01-to-saturate'' t call
                  (''`clamp(x, 0, 1)` is `saturate(x)` '' @ em_dash @ '' saturate folds into a free '' @
                   ''output modifier on AMD/NVIDIA/Intel; clamp lowers to a min/max pair'')
                  [replace_node True ''replace clamp(x, 0, 1) with saturate(x)'' t call
                     (''saturate('' @ text_of t x @ '')'')])
      | _ \<Rightarrow> [])"

section \<open>Comparisons\<close>

text \<open>\<open>operator<<\<close> of a positive number with a precision of seven: the digits of the nearest seven-digit decimal, without
  trailing zeros, and an exponent of at least two digits outside \<open>10\<^sup>-\<^sup>4 .. 10\<^sup>7\<close>. A 32-bit float is at least
  \<open>10\<^sup>-\<^sup>4\<^sup>6\<close> and below \<open>10\<^sup>3\<^sup>9\<close>.\<close>

definition ten_power :: "int \<Rightarrow> rat" where
  "ten_power e = (if e \<ge> 0 then 10 ^ nat e else 1 / 10 ^ nat (- e))"

definition decimal_exponent :: "rat \<Rightarrow> int" where
  "decimal_exponent v = (case find (\<lambda>e. v < ten_power (e + 1)) [-46..39] of None \<Rightarrow> 39 | Some e \<Rightarrow> e)"

definition seven_digits :: "rat \<Rightarrow> int \<Rightarrow> nat" where
  "seven_digits v e = nat (round_half_even (v * ten_power (6 - e)))"

definition strip_zeros :: "string \<Rightarrow> string" where
  "strip_zeros digits = rev (dropWhile (\<lambda>c. c = CHR ''0'') (rev digits))"

definition with_point :: "string \<Rightarrow> string \<Rightarrow> string" where
  "with_point whole fraction = (if fraction = [] then whole else whole @ ''.'' @ fraction)"

definition show_exponent :: "int \<Rightarrow> string" where
  "show_exponent e =
     (let d = to_decimal (nat \<bar>e\<bar>) in
      ''e'' @ (if e < 0 then ''-'' else ''+'') @ (if length d < 2 then ''0'' @ d else d))"

definition show_float :: "rat \<Rightarrow> string" where
  "show_float v =
     (if v = 0 then ''0''
      else let e0 = decimal_exponent v; n0 = seven_digits v e0;
               (e, n) = (if n0 = 10 ^ 7 then (e0 + 1, 10 ^ 6) else (e0, n0));
               digits = to_decimal n
           in if e < -4 \<or> e \<ge> 7 then with_point (take 1 digits) (strip_zeros (drop 1 digits)) @ show_exponent e
              else if e < 0 then with_point ''0'' (strip_zeros (replicate (nat (- e - 1)) CHR ''0'' @ digits))
              else with_point (take (nat e + 1) digits) (strip_zeros (drop (nat e + 1) digits)))"

definition render_float_literal :: "rat \<Rightarrow> string" where
  "render_float_literal value =
     (if value = k_default_compare_epsilon then ''0.0001f''
      else if value = k_default_div_epsilon then ''1e-06f''
      else let out = show_float value in
        (if CHR ''.'' \<notin> set out \<and> CHR ''e'' \<notin> set out \<and> CHR ''E'' \<notin> set out then out @ ''.0'' else out) @ ''f'')"

definition literal_looks_like_float :: "string \<Rightarrow> bool" where
  "literal_looks_like_float text \<longleftrightarrow>
     (if text = [] then False
      else if CHR ''.'' \<in> set text then True
      else if last text = CHR ''f'' \<or> last text = CHR ''F'' then True
      else CHR ''e'' \<in> set text \<or> CHR ''E'' \<in> set text)"

definition equal_float_fix :: "config option \<Rightarrow> ast_tree \<Rightarrow> ts_node \<Rightarrow> ts_node \<Rightarrow> ts_node \<Rightarrow> fix_t" where
  "equal_float_fix config t left right expr =
     (let epsilon = (case config of None \<Rightarrow> k_default_compare_epsilon | Some c \<Rightarrow> cfg_compare_epsilon c);
          eps_literal = render_float_literal epsilon;
          both_pure = (classify_expression (at_bytes t) (Some left) = SideEffectFree \<and>
                       classify_expression (at_bytes t) (Some right) = SideEffectFree);
          compare_op = (if binary_operator (at_bytes t) expr = ''=='' then ''<'' else ''>='')
      in replace_node both_pure
           (''replace exact float equality with a tolerance check ('' @
            ''`abs((a) - (b)) '' @ compare_op @ '' '' @ eps_literal @ ''`; epsilon '' @
            (if config \<noteq> None then ''from `[float] compare-epsilon`'' else ''= default 1e-4'') @ '')'' @
            (if both_pure then []
             else '' -- suggestion-only: at least one operand is not '' @
                  ''side-effect-free under the purity oracle, hand-review the '' @
                  ''rewrite before applying''))
           t expr
           (''abs(('' @ text_of t left @ '') - ('' @ text_of t right @ '')) '' @ compare_op @ '' '' @ eps_literal))"

definition equal_float_match :: "config option \<Rightarrow> ast_tree \<Rightarrow> query_match \<Rightarrow> diagnostic list" where
  "equal_float_match config t m =
     (case capture_all m [''left'', ''right'', ''expr''] of
        Some [left, right, expr] \<Rightarrow>
          (let op = binary_operator (at_bytes t) expr in
           if op \<noteq> ''=='' \<and> op \<noteq> ''!='' then []
           else if \<not> is_literal_with literal_looks_like_float t left \<and> \<not> is_literal_with literal_looks_like_float t right then []
           else node_report ''compare-equal-float'' t expr
                  (''exact `'' @ op @ ''` on floating-point values is unreliable '' @ em_dash @ '' rounding error '' @
                   ''and NaN make the result unpredictable; use an explicit '' @
                   ''tolerance such as `abs(a - b) < epsilon` instead'')
                  [equal_float_fix config t left right expr])
      | _ \<Rightarrow> [])"

definition is_comparison_op :: "string \<Rightarrow> bool" where
  "is_comparison_op op \<longleftrightarrow> op \<in> set [''=='', ''!='', ''<'', ''<='', ''>'', ''>='']"

definition trim_blank :: "string \<Rightarrow> string" where
  "trim_blank s = rev (dropWhile is_blank_char (rev (dropWhile is_blank_char s)))"

definition is_nan_literal_text :: "string \<Rightarrow> bool" where
  "is_nan_literal_text text \<longleftrightarrow>
     text \<in> set [''NAN'', ''nan'', ''0.0/0.0'', ''(0.0/0.0)'', ''0.0f/0.0f'', ''(0.0f/0.0f)'', ''1.#QNAN'', ''1.#IND'',
                 ''-1.#IND'', ''(-1.#IND)'']"

definition nan_match :: "ast_tree \<Rightarrow> query_match \<Rightarrow> diagnostic list" where
  "nan_match t m =
     (case capture_all m [''left'', ''right'', ''expr''] of
        Some [left, right, expr] \<Rightarrow>
          (if \<not> is_comparison_op (binary_operator (at_bytes t) expr) then []
           else let left_text = trim_blank (text_of t left); right_text = trim_blank (text_of t right);
                    report = (\<lambda>nan_side other_side.
                      node_report ''comparison-with-nan-literal'' t expr
                        (''comparison with NaN literal `'' @ nan_side @
                         ''` is always false (or always true for `!=`) per IEEE-754 '' @ em_dash @ '' '' @
                         ''use `isnan('' @ other_side @ '')` instead'')
                        [suggestion
                          (''replace the comparison with `isnan(x)` (or `!isnan(x)` for '' @
                           ''the negated form); the textual rewrite depends on whether '' @
                           ''the original `op` was `==`, `!=`, or an ordering `<`/`>`'')])
             in if is_nan_literal_text (normalise_type left_text) then report left_text right_text
                else if is_nan_literal_text (normalise_type right_text) then report right_text left_text
                else [])
      | _ \<Rightarrow> [])"

definition step_pattern :: string where
  "step_pattern = pattern_lines
     [''    (conditional_expression'',
      ''        condition: (_) @cond'',
      ''        consequence: (number_literal) @then'',
      ''        alternative: (number_literal) @else) @ternary'']"

definition step_match :: "ast_tree \<Rightarrow> query_match \<Rightarrow> diagnostic list" where
  "step_match t m =
     (case capture_all m [''cond'', ''then'', ''else'', ''ternary''] of
        Some [cond, then_n, else_n, ternary] \<Rightarrow>
          (if \<not> is_numeric_literal_one (text_of t then_n) \<or> \<not> is_numeric_literal_zero (text_of t else_n) \<or>
              ts_kind cond \<noteq> ''binary_expression'' \<or> binary_operator (at_bytes t) cond \<noteq> ''>'' then []
           else case (child_by_field cond ''left'', child_by_field cond ''right'') of
                  (Some left, Some right) \<Rightarrow>
                    (let x_text = text_of t left; thr_text = text_of t right in
                     node_report ''manual-step'' t ternary
                       (''`'' @ x_text @ '' > '' @ thr_text @ '' ? 1.0 : 0.0` is the `step` idiom '' @ em_dash @ '' '' @
                        ''note: `step('' @ thr_text @ '', '' @ x_text @
                        '')` uses `>=` semantics; verify the boundary behaviour is correct'')
                       [replace_node False
                          (''replace with `step('' @ thr_text @ '', '' @ x_text @ '')` '' @ em_dash @
                           '' confirm whether `>` or `>=` at the '' @ ''threshold is intended (`step` uses `>=`)'')
                          t ternary (''step('' @ thr_text @ '', '' @ x_text @ '')'')])
                | _ \<Rightarrow> [])
      | _ \<Rightarrow> [])"

section \<open>Textures\<close>

definition trim_spaces :: "string \<Rightarrow> string" where
  "trim_spaces s = (let space = (\<lambda>c. c = CHR '' '' \<or> c = tab_char \<or> c = newline) in
     rev (dropWhile space (rev (dropWhile space s))))"

fun comma_pieces :: "string \<Rightarrow> string list" where
  "comma_pieces [] = [[]]"
| "comma_pieces (c # s) =
     (if c = CHR '','' then [] # comma_pieces s
      else case comma_pieces s of [] \<Rightarrow> [[c]] | p # ps \<Rightarrow> (c # p) # ps)"

definition zero_number :: "string \<Rightarrow> bool" where
  "zero_number text \<longleftrightarrow>
     (let i = read_digits text 0 in
      if \<not> list_all (\<lambda>c. c = CHR ''0'') (take i text) then False
      else case scan_zero_fraction text i of None \<Rightarrow> False | Some j \<Rightarrow> scan_float_suffix text j)"

definition is_vector_constructor :: "string \<Rightarrow> bool" where
  "is_vector_constructor text \<longleftrightarrow>
     list_ex (starts_with text) [''float2('', ''float3('', ''float4('', ''half2('', ''half3('', ''half4('']"

definition constructor_inside :: "string \<Rightarrow> string option" where
  "constructor_inside text =
     (case (find_text text ''('' 0, find (\<lambda>i. text ! i = CHR '')'') (rev [0..<length text])) of
        (Some lp, Some rp) \<Rightarrow> if rp \<le> lp + 1 then None else Some (substr text (lp + 1) (rp - lp - 1))
      | _ \<Rightarrow> None)"

definition without_sign :: "string \<Rightarrow> string" where
  "without_sign text = (if text \<noteq> [] \<and> (hd text = CHR ''+'' \<or> hd text = CHR ''-'') then tl text else text)"

lemma trim_spaces_length: "length (trim_spaces s) \<le> length s"
  by (simp add: trim_spaces_def) (metis (no_types, lifting) le_trans length_dropWhile_le length_rev)

lemma comma_pieces_length: "p \<in> set (comma_pieces s) \<Longrightarrow> length p \<le> length s"
  by (induction s arbitrary: p) (fastforce split: if_splits list.splits)+

lemma constructor_inside_length: "constructor_inside text = Some s \<Longrightarrow> length s < length text"
  by (auto simp: constructor_inside_def substr_def find_Some_iff split: option.splits if_splits)

function token_is_zero_literal :: "string \<Rightarrow> bool" where
  "token_is_zero_literal token =
     (let text = without_sign (trim_spaces token) in
      if text = [] then False
      else if is_digit_char (hd text) then zero_number text
      else if is_vector_constructor text then
        (case constructor_inside text of
           None \<Rightarrow> False
         | Some inside \<Rightarrow> list_all (\<lambda>piece. token_is_zero_literal piece) (map trim_spaces (comma_pieces inside)))
      else False)"
  by pat_completeness auto
termination
proof (relation "measure length")
  fix token piece :: string and tx inside :: string
  assume tx: "tx = without_sign (trim_spaces token)" and "constructor_inside tx = Some inside"
    and "piece \<in> set (map trim_spaces (comma_pieces inside))"
  then have "length piece < length tx"
    by (auto dest!: constructor_inside_length comma_pieces_length intro: le_less_trans [OF trim_spaces_length])
  also have "length tx \<le> length token"
    using trim_spaces_length [of token] tx by (auto simp: without_sign_def)
  finally show "(piece, token) \<in> measure length" by simp
qed simp

declare token_is_zero_literal.simps [simp del]

definition grad_pattern :: string where
  "grad_pattern = pattern_lines
     [''    (call_expression'',
      ''        function: (field_expression'',
      ''            argument: (_) @tex'',
      ''            field: (field_identifier) @method)'',
      ''        arguments: (argument_list'',
      ''            (_) @sampler'',
      ''            (_) @uv'',
      ''            (_) @ddx'',
      ''            (_) @ddy)) @call'']"

definition kind_simple :: "ts_node \<Rightarrow> bool" where
  "kind_simple n \<longleftrightarrow> ts_kind n \<in> set [''identifier'', ''field_expression'', ''subscript_expression'']"

definition grad_match :: "ast_tree \<Rightarrow> query_match \<Rightarrow> diagnostic list" where
  "grad_match t m =
     (case capture_all m [''tex'', ''method'', ''sampler'', ''uv'', ''ddx'', ''ddy'', ''call''] of
        Some [tex, method, sampler, uv, grad_x, grad_y, call] \<Rightarrow>
          (if text_of t method \<noteq> ''SampleGrad'' \<or> \<not> token_is_zero_literal (text_of t grad_x) \<or>
              \<not> token_is_zero_literal (text_of t grad_y) then []
           else let all_simple = (kind_simple tex \<and> kind_simple sampler \<and> kind_simple uv) in
             node_report ''samplegrad-with-constant-grads'' t call
               (''`SampleGrad(s, uv, 0, 0)` is equivalent to `SampleLevel(s, uv, 0)` -- '' @
                ''the explicit-gradient TMU path costs extra issue cycles versus the '' @
                ''explicit-LOD path'')
               [replace_node all_simple
                  (if all_simple then ''replace SampleGrad with SampleLevel''
                   else ''replace SampleGrad with SampleLevel; verify the texture, '' @
                        ''sampler, and UV expressions are side-effect-free first'')
                  t call (text_of t tex @ ''.SampleLevel('' @ text_of t sampler @ '', '' @ text_of t uv @ '', 0.0)'')])
      | _ \<Rightarrow> [])"

definition level_pattern :: string where
  "level_pattern = pattern_lines
     [''    (call_expression'',
      ''        function: (field_expression'',
      ''            field: (field_identifier) @method)'',
      ''        arguments: (argument_list'',
      ''            (_) @sampler'',
      ''            (_) @uv'',
      ''            (number_literal) @lod)) @call'']"

text \<open>The nearest function definition above a node.\<close>

definition enclosing_definition :: "ts_node \<Rightarrow> node_path \<Rightarrow> ts_node option" where
  "enclosing_definition tr p =
     (case find (\<lambda>k. kind_at tr (take k p) = ''function_definition'') (rev [0..<length p]) of
        None \<Rightarrow> None
      | Some k \<Rightarrow> node_at tr (take k p))"

definition is_compute_entry_context :: "ast_tree \<Rightarrow> node_path \<Rightarrow> bool" where
  "is_compute_entry_context t call =
     (case enclosing_definition (at_root t) call of
        None \<Rightarrow> False
      | Some fn \<Rightarrow> list_ex (contains_text (text_of t fn)) [''shader(\"compute\")'', ''shader('' @ [CHR 0x27] @ ''compute'' @ [CHR 0x27] @ '')'', ''numthreads''])"

definition level_match :: "ast_tree \<Rightarrow> query_match \<Rightarrow> diagnostic list" where
  "level_match t m =
     (case (match_capture m ''method'', match_capture m ''lod'', match_capture m ''call'') of
        (Some (_, method), Some (_, lod), Some (p, call)) \<Rightarrow>
          (if text_of t method \<noteq> ''SampleLevel'' \<or> \<not> is_numeric_literal_zero (text_of t lod) \<or>
              is_compute_entry_context t p then []
           else node_report ''samplelevel-with-zero-on-mipped-tex'' t call
                  (''`SampleLevel(s, uv, 0)` pins LOD to mip 0 -- on a mipped texture this '' @
                   ''defeats the texture cache'' @ [CHR 0x27] @ ''s small-footprint fetch and disables '' @
                   ''trilinear filtering; replace with `Sample(s, uv)` in pixel-shader '' @
                   ''context'') [])
      | _ \<Rightarrow> [])"

section \<open>The rules\<close>

definition query_rule :: "'q query_lib \<Rightarrow> string \<Rightarrow> string \<Rightarrow> (config option \<Rightarrow> ast_tree \<Rightarrow> query_match \<Rightarrow> diagnostic list) \<Rightarrow>
    (unit, 'r, 'c, 'i) rule" where
  "query_rule lib i pattern on_match = (default_rule i ())\<lparr>rl_on_tree :=
     (\<lambda>view t s. (s, query_check lib pattern (query_failure i) (on_match (rv_config view) t) t))\<rparr>"

text \<open>The two texture rules say nothing when their pattern does not compile.\<close>

definition quiet_query_rule :: "'q query_lib \<Rightarrow> string \<Rightarrow> string \<Rightarrow> (ast_tree \<Rightarrow> query_match \<Rightarrow> diagnostic list) \<Rightarrow>
    (unit, 'r, 'c, 'i) rule" where
  "quiet_query_rule lib i pattern on_match = (default_rule i ())\<lparr>rl_on_tree :=
     (\<lambda>view t s. (s, query_check lib pattern (\<lambda>_. []) (on_match t) t))\<rparr>"

definition redundant_saturate where
  "redundant_saturate lib = query_rule lib ''redundant-saturate'' nested_call_pattern (\<lambda>_. saturate_match)"
definition redundant_normalize where
  "redundant_normalize lib = query_rule lib ''redundant-normalize'' nested_call_pattern (\<lambda>_. normalize_match)"
definition redundant_transpose where
  "redundant_transpose lib = query_rule lib ''redundant-transpose'' nested_call_pattern (\<lambda>_. transpose_match)"
definition redundant_precision_cast where
  "redundant_precision_cast lib = query_rule lib ''redundant-precision-cast'' cast_pattern (\<lambda>_. cast_match)"
definition lerp_extremes where
  "lerp_extremes lib = query_rule lib ''lerp-extremes'' lerp_pattern (\<lambda>_. lerp_match)"
definition inv_sqrt_to_rsqrt where
  "inv_sqrt_to_rsqrt lib = query_rule lib ''inv-sqrt-to-rsqrt'' inv_sqrt_pattern (\<lambda>_. inv_sqrt_match)"
definition mul_identity where
  "mul_identity lib = query_rule lib ''mul-identity'' operands_pattern (\<lambda>_. identity_match)"
definition clamp01_to_saturate where
  "clamp01_to_saturate lib = query_rule lib ''clamp01-to-saturate'' clamp_pattern (\<lambda>_. clamp_match)"
definition compare_equal_float where
  "compare_equal_float lib = query_rule lib ''compare-equal-float'' operands_pattern equal_float_match"
definition comparison_with_nan_literal where
  "comparison_with_nan_literal lib = query_rule lib ''comparison-with-nan-literal'' operands_pattern (\<lambda>_. nan_match)"
definition manual_step where
  "manual_step lib = query_rule lib ''manual-step'' step_pattern (\<lambda>_. step_match)"
definition samplegrad_with_constant_grads where
  "samplegrad_with_constant_grads lib = quiet_query_rule lib ''samplegrad-with-constant-grads'' grad_pattern grad_match"
definition samplelevel_with_zero_on_mipped_tex where
  "samplelevel_with_zero_on_mipped_tex lib = quiet_query_rule lib ''samplelevel-with-zero-on-mipped-tex'' level_pattern level_match"

section \<open>The value of a literal\<close>

text \<open>What a decimal literal spells, apart from its suffix.\<close>

definition starts_in :: "string \<Rightarrow> string \<Rightarrow> bool" where
  "starts_in cs s \<longleftrightarrow> s \<noteq> [] \<and> hd s \<in> set cs"

definition fraction_of :: "string \<Rightarrow> string" where
  "fraction_of s = (if starts_in ''.'' s then takeWhile is_digit_char (tl s) else [])"

definition after_fraction :: "string \<Rightarrow> string" where
  "after_fraction s = (if starts_in ''.'' s then dropWhile is_digit_char (tl s) else s)"

definition exponent_of :: "string \<Rightarrow> int" where
  "exponent_of s =
     (if starts_in ''eE'' s
      then let r = (if starts_in ''+-'' (tl s) then tl (tl s) else tl s);
               value = int (of_decimal (takeWhile is_digit_char r))
           in if starts_in ''-'' (tl s) then - value else value
      else 0)"

definition decimal_value :: "string \<Rightarrow> rat" where
  "decimal_value spelling =
     (let s = (if starts_in ''+'' spelling then tl spelling else spelling);
          whole = takeWhile is_digit_char s;
          rest = dropWhile is_digit_char s
      in (of_nat (of_decimal whole) + of_nat (of_decimal (fraction_of rest)) / 10 ^ length (fraction_of rest)) *
         ten_power (exponent_of (after_fraction rest)))"

lemma skip_while_parts:
  "substr s i (skip_while P s i - i) = takeWhile P (drop i s)"
  "drop (skip_while P s i) s = dropWhile P (drop i s)"
  by (simp_all add: skip_while_eq substr_def takeWhile_eq_take [symmetric] dropWhile_eq_drop add.commute)

lemma starts_in_drop: "starts_in cs (drop i s) \<longleftrightarrow> i < length s \<and> s ! i \<in> set cs"
  by (auto simp: starts_in_def hd_drop_conv_nth)

lemma of_decimal_Nil [simp]: "of_decimal [] = 0"
  by (simp add: of_decimal_def)

lemma stripped_zeros_value: "dropWhile (\<lambda>c. c = CHR ''0'') ds = r \<Longrightarrow> of_decimal ds = of_decimal r"
  using of_decimal_zeros [of ds] by (simp only:)

lemma zeros_value: "list_all (\<lambda>c. c = CHR ''0'') ds \<Longrightarrow> of_decimal ds = 0"
  using stripped_zeros_value [of ds "[]"] by (simp add: list_all_iff)

lemma zero_or_one_value:
  assumes "zero_or_one ds = Some k"
  shows "of_decimal ds = k"
proof -
  define r where "r = dropWhile (\<lambda>c. c = CHR ''0'') ds"
  have "zero_or_one ds = (if r = [] then Some 0 else if r = ''1'' then Some 1 else None)"
    using skip_while_parts(2) [of "\<lambda>c. c = CHR ''0''" ds 0] by (simp only: zero_or_one_def Let_def r_def drop_0)
  moreover have "of_decimal ''1'' = 1" by code_simp
  ultimately show ?thesis
    using stripped_zeros_value [OF r_def [symmetric]] assms by (simp split: if_splits)
qed

lemma zero_fraction_value:
  "scan_zero_fraction s i = Some j \<Longrightarrow> of_decimal (fraction_of (drop i s)) = 0 \<and> drop j s = after_fraction (drop i s)"
  by (auto simp: scan_zero_fraction_def Let_def fraction_of_def after_fraction_def starts_in_drop skip_while_parts
      drop_Suc tl_drop intro: zeros_value split: if_splits)

lemma zero_exponent_value: "scan_zero_exponent s i = Some j \<Longrightarrow> exponent_of (drop i s) = 0"
proof -
  assume scan: "scan_zero_exponent s i = Some j"
  show ?thesis
  proof (cases "starts_in ''eE'' (drop i s)")
    case True
    define sign where "sign \<longleftrightarrow> starts_in ''+-'' (drop (i + 1) s)"
    define start where "start = (if sign then i + 2 else i + 1)"
    have "of_decimal (takeWhile is_digit_char (drop start s)) = 0"
      using scan True
      by (auto simp: scan_zero_exponent_def starts_in_drop Let_def skip_while_parts start_def sign_def split: if_splits)
    moreover have "(if starts_in ''+-'' (tl (drop i s)) then tl (tl (drop i s)) else tl (drop i s)) = drop start s"
      by (simp add: start_def sign_def tl_drop drop_Suc)
    ultimately show ?thesis by (simp add: exponent_of_def Let_def)
  qed (simp add: exponent_of_def)
qed

lemma optional_plus_drop: "drop (skip_optional_plus s 0) s = (if starts_in ''+'' s then tl s else s)"
  using starts_in_drop [of "''+''" 0 s] by (auto simp: skip_optional_plus_def drop_Suc)

lemma decimal_value_parts:
  fixes spelling :: string
  defines "i0 \<equiv> skip_optional_plus spelling 0"
  defines "i \<equiv> read_digits spelling i0"
  assumes "of_decimal (substr spelling i0 (i - i0)) = k"
    and "of_decimal (fraction_of (drop i spelling)) = 0" and "exponent_of (after_fraction (drop i spelling)) = 0"
  shows "decimal_value spelling = of_nat k"
proof -
  have "drop i spelling = dropWhile is_digit_char (drop i0 spelling)"
    "substr spelling i0 (i - i0) = takeWhile is_digit_char (drop i0 spelling)"
    by (simp_all add: i_def skip_while_parts)
  then show ?thesis
    unfolding decimal_value_def Let_def optional_plus_drop [symmetric] i0_def [symmetric]
    using assms(3-) by (simp add: ten_power_def)
qed

lemma no_exponent: "\<not> starts_in ''eE'' s \<Longrightarrow> exponent_of s = 0"
  by (simp add: exponent_of_def)

lemma literal_is_value:
  assumes "literal_is spelling k"
  shows "decimal_value spelling = of_nat k"
proof -
  define i0 where "i0 = skip_optional_plus spelling 0"
  define i where "i = read_digits spelling i0"
  from assms obtain j where digits: "zero_or_one (substr spelling i0 (i - i0)) = Some k"
    and j: "scan_zero_fraction spelling i = Some j" and no_e: "\<not> starts_in ''eE'' (drop j spelling)"
    by (auto simp: literal_is_def Let_def i0_def [symmetric] i_def [symmetric] starts_in_drop split: if_splits option.splits)
  show ?thesis
    using zero_or_one_value [OF digits] zero_fraction_value [OF j] no_exponent [OF no_e]
    by (intro decimal_value_parts) (simp_all flip: i0_def i_def)
qed

lemma literal_equals_value:
  assumes "literal_equals spelling k"
  shows "decimal_value spelling = of_nat k"
proof -
  define i0 where "i0 = skip_optional_plus spelling 0"
  define i where "i = read_digits spelling i0"
  from assms obtain j l where digits: "zero_or_one (substr spelling i0 (i - i0)) = Some k"
    and j: "scan_zero_fraction spelling i = Some j" and l: "scan_zero_exponent spelling j = Some l"
    by (auto simp: literal_equals_def scan_int_part_def Let_def i0_def [symmetric] i_def [symmetric] split: if_splits option.splits)
  show ?thesis
    using zero_or_one_value [OF digits] zero_fraction_value [OF j] zero_exponent_value [OF l]
    by (intro decimal_value_parts) (simp_all flip: i0_def i_def)
qed

lemma numeric_literal_value:
  assumes "is_numeric_literal_uint spelling v"
  shows "decimal_value spelling = of_nat (unat v)"
proof -
  define i0 where "i0 = skip_optional_plus spelling 0"
  define i where "i = read_digits spelling i0"
  define j where "j = (if i < length spelling \<and> spelling ! i = CHR ''.'' then read_digits spelling (i + 1) else i)"
  define ds where "ds = substr spelling i0 (i - i0)"
  from assms have ne: "spelling \<noteq> []" by (auto simp: is_numeric_literal_uint_def)
  then have i0_alt: "(if spelling ! 0 = CHR ''+'' then 1 else 0) = i0"
    by (simp add: i0_def skip_optional_plus_def)
  have ds: "\<forall>c \<in> set ds. is_digit_char c"
    by (auto simp: ds_def i_def skip_while_parts dest: set_takeWhileD)
  note unfolded = assms [unfolded is_numeric_literal_uint_def Let_def i0_alt i_def [symmetric] ds_def [symmetric]]
  have "of_decimal ds = unat v"
    using unfolded int_part_value [OF ds, of v] ne by (auto split: if_splits)
  moreover have "of_decimal (fraction_of (drop i spelling)) = 0"
    using unfolded ne
    by (auto simp: fraction_of_def starts_in_drop skip_while_parts tl_drop drop_Suc intro: zeros_value split: if_splits)
  moreover have "\<not> starts_in ''eE'' (drop j spelling)"
    using unfolded ne by (auto simp: j_def starts_in_drop split: if_splits)
  moreover have "drop j spelling = after_fraction (drop i spelling)"
    by (simp add: j_def after_fraction_def starts_in_drop skip_while_parts tl_drop drop_Suc)
  ultimately show ?thesis
    by (intro decimal_value_parts) (simp_all add: no_exponent flip: i0_def i_def ds_def)
qed

lemma zero_decimals_value:
  "skip_zero_fraction s i = Some j \<Longrightarrow> of_decimal (fraction_of (drop i s)) = 0 \<and> drop j s = after_fraction (drop i s)"
proof (cases "i < length s \<and> s ! i = CHR ''.''")
  case True
  define z where "z = dropWhile (\<lambda>c. c = CHR ''0'') (drop (Suc i) s)"
  assume skip: "skip_zero_fraction s i = Some j"
  have j: "j = skip_while (\<lambda>c. c = CHR ''0'') s (Suc i)" and
    no_digit: "\<not> (j < length s \<and> is_digit_char (s ! j) \<and> s ! j \<noteq> CHR ''0'')"
    using skip True by (auto simp: skip_zero_fraction_def Let_def split: if_splits)
  have z: "drop j s = z" by (simp only: j z_def skip_while_parts(2))
  have hd: "z \<noteq> [] \<Longrightarrow> \<not> is_digit_char (hd z)"
  proof -
    assume ne: "z \<noteq> []"
    have "hd z \<noteq> CHR ''0''" using hd_dropWhile [of "\<lambda>c. c = CHR ''0''" "drop (Suc i) s"] ne by (simp add: z_def)
    moreover have "j < length s" "hd z = s ! j" using ne by (auto simp flip: z intro: hd_drop_conv_nth)
    ultimately show ?thesis using no_digit by auto
  qed
  have zeros: "is_digit_char (CHR ''0'')" by code_simp
  define ds where "ds = takeWhile (\<lambda>c. c = CHR ''0'') (drop (Suc i) s)"
  have split: "drop (Suc i) s = ds @ z" by (simp add: ds_def z_def)
  have all: "list_all (\<lambda>c. c = CHR ''0'') ds" by (auto simp: ds_def list_all_iff dest: set_takeWhileD)
  then have digits: "\<forall>c \<in> set ds. is_digit_char c" using zeros unfolding list_all_iff by metis
  have "takeWhile is_digit_char z = []" "dropWhile is_digit_char z = z" using hd by (cases z; auto)+
  then have "takeWhile is_digit_char (drop (Suc i) s) = ds" "dropWhile is_digit_char (drop (Suc i) s) = z"
    unfolding split using digits by (simp_all only: takeWhile_append2 dropWhile_append2 append_Nil2)
  then show ?thesis
    using True zeros_value [OF all] z by (simp add: fraction_of_def after_fraction_def starts_in_drop tl_drop drop_Suc)
next
  case False
  assume "skip_zero_fraction s i = Some j"
  with False show ?thesis
    by (auto simp: skip_zero_fraction_def fraction_of_def after_fraction_def starts_in_drop Let_def split: if_splits)
qed

lemma integer_literal_value:
  assumes "parse_integer_literal digits spelling = Some k"
  shows "decimal_value spelling = of_nat k"
proof -
  define i0 where "i0 = skip_optional_plus spelling 0"
  define i where "i = read_digits spelling i0"
  from assms obtain j where k: "of_decimal (substr spelling i0 (i - i0)) = k"
    and j: "skip_zero_fraction spelling i = Some j" and no_e: "\<not> starts_in ''eE'' (drop j spelling)"
    by (auto simp: parse_integer_literal_def Let_def i0_def [symmetric] i_def [symmetric] starts_in_drop
        split: if_splits option.splits)
  show ?thesis
    using k zero_decimals_value [OF j] no_exponent [OF no_e]
    by (intro decimal_value_parts) (simp_all flip: i0_def i_def)
qed

section \<open>Properties\<close>

lemma literal_with_value:
  "is_literal_with is_numeric_literal_one t n \<Longrightarrow> ts_kind n = ''number_literal'' \<and> decimal_value (text_of t n) = 1"
  "is_literal_with is_numeric_literal_zero t n \<Longrightarrow> ts_kind n = ''number_literal'' \<and> decimal_value (text_of t n) = 0"
  using numeric_literal_value [of "text_of t n" 1] numeric_literal_value [of "text_of t n" 0]
  by (simp_all add: is_literal_with_def is_numeric_literal_one_def is_numeric_literal_zero_def)

lemma replace_node_edits [simp]:
  "fx_edits (replace_node machine description t n replacement) =
     [\<lparr>te_span = \<lparr>sp_source = at_source t, sp_bytes = range_of n\<rparr>, te_replacement = replacement\<rparr>]"
  by (simp add: replace_node_def replacing_fix_def)

lemma node_report_set:
  "d \<in> set (node_report rule_id t n message fixes) \<longleftrightarrow> d = rule_diagnostic rule_id (at_source t) (range_of n) message fixes"
  by (simp add: node_report_def)

lemma rule_diagnostic_fields [simp]:
  "dg_fixes (rule_diagnostic code source bs message fixes) = fixes"
  "dg_primary_span (rule_diagnostic code source bs message fixes) = \<lparr>sp_source = source, sp_bytes = bs\<rparr>"
  by (simp_all add: rule_diagnostic_def)

text \<open>A fix that puts the text of \<open>part\<close> in the place of \<open>whole\<close>.\<close>

definition puts_for :: "ast_tree \<Rightarrow> fix_t \<Rightarrow> ts_node \<Rightarrow> ts_node \<Rightarrow> bool" where
  "puts_for t f part whole \<longleftrightarrow>
     fx_edits f = [\<lparr>te_span = \<lparr>sp_source = at_source t, sp_bytes = range_of whole\<rparr>, te_replacement = text_of t part\<rparr>]"

lemma identity_fix_value:
  fixes val :: "ts_node \<Rightarrow> rat"
  assumes "d \<in> set (identity_match t m)" and "f \<in> set (dg_fixes d)"
    and literals: "\<And>n. ts_kind n = ''number_literal'' \<Longrightarrow> val n = decimal_value (text_of t n)"
    and captures: "capture_all m [''left'', ''right'', ''expr''] = Some [left, right, expr]"
    and meaning: "binary_operator (at_bytes t) expr = ''*'' \<Longrightarrow> val expr = val left * val right"
      "binary_operator (at_bytes t) expr = ''+'' \<Longrightarrow> val expr = val left + val right"
  shows "\<exists>part \<in> {left, right}. puts_for t f part expr \<and> val part = val expr"
proof -
  note lits = literal_with_value [of t left] literal_with_value [of t right] literals [of left] literals [of right]
  show ?thesis
    using assms(1,2) captures meaning lits
    by (auto simp: identity_match_def emit_identity_def emit_mul_zero_def node_report_set puts_for_def Let_def split: if_splits)
qed

lemma lerp_fix_value:
  fixes val :: "ts_node \<Rightarrow> rat"
  assumes "d \<in> set (lerp_match t m)" and "f \<in> set (dg_fixes d)"
    and literals: "\<And>n. ts_kind n = ''number_literal'' \<Longrightarrow> val n = decimal_value (text_of t n)"
    and captures: "capture_all m [''fn'', ''a'', ''b'', ''t'', ''call''] = Some [fn, a, b, interpolant, call]"
    and meaning: "ts_kind interpolant = ''number_literal''" "val call = val a + (val b - val a) * val interpolant"
  shows "\<exists>part \<in> {a, b}. puts_for t f part call \<and> val part = val call"
proof -
  note lits = literal_is_value [of "text_of t interpolant" 0] literal_is_value [of "text_of t interpolant" 1]
    literals [OF meaning(1)]
  show ?thesis
    using assms(1,2) captures meaning(2) lits
    by (auto simp: lerp_match_def node_report_set puts_for_def Let_def split: if_splits)
qed

text \<open>C25: The product that replaces a power has its value: a fix of \<open>pow-to-mul\<close> for an exponent other than four
  replaces exactly the call; the literal spells two or three, as a decimal number; and where the base is one word, the new text, read as the language
  reads products, is the base raised to that number.\<close>

theorem pow_to_mul_keeps_value:
  assumes "d \<in> set (to_mul_visit view n)" and "f \<in> set (dg_fixes d)"
    and "pow_arguments (view_bytes view) n = Some (base, literal)" and "is_word (node_text (Some base) (view_bytes view))"
    and "decimal_value (node_text (Some literal) (view_bytes view)) \<noteq> 4"
  shows "\<exists>k replacement. k \<in> {2, 3} \<and> decimal_value (node_text (Some literal) (view_bytes view)) = of_nat k \<and>
    fx_edits f = [\<lparr>te_span = \<lparr>sp_source = rv_source view, sp_bytes = range_of n\<rparr>, te_replacement = replacement\<rparr>] \<and>
    product_value env replacement = Some (env (node_text (Some base) (view_bytes view)) ^ k)"
proof -
  obtain m where m: "match_pow_call 4 n (view_bytes view) = Some m" and f: "f = product_fix (rv_source view) (range_of n) m"
    using assms(1,2) product_visits(2) [of d view n] by force
  obtain base' literal' where "pow_arguments (view_bytes view) n = Some (base', literal')"
    and k: "parse_integer_literal 2 (node_text (Some literal') (view_bytes view)) = Some (pm_exponent m)"
    "2 \<le> pm_exponent m" "pm_exponent m \<le> 4" and b: "pm_base_text m = node_text (Some base') (view_bytes view)"
    by (rule match_pow_call_facts [OF m])
  with assms(3) have same: "base' = base" "literal' = literal" by simp_all
  note spelled = integer_literal_value [OF k(1), unfolded same]
  with assms(5) have "pm_exponent m \<noteq> 4" by auto
  then show ?thesis
    using spelled k(2,3) b same replacement_value [OF assms(4), of "pm_exponent m" env]
    by (intro exI [of _ "pm_exponent m"]) (auto simp: f)
qed

theorem pow_to_mul_keeps_value_witness:
  "\<exists>k replacement. k \<in> {2, 3} \<and> decimal_value ''2'' = of_nat k \<and>
    fx_edits (hd (dg_fixes (hd (to_mul_visit quotient_view quotient_call)))) =
      [\<lparr>te_span = \<lparr>sp_source = sample_id, sp_bytes = range_of quotient_call\<rparr>, te_replacement = replacement\<rparr>] \<and>
    product_value (\<lambda>_. 5 :: rat) replacement = Some (5 ^ k)"
proof -
  have "hd (to_mul_visit quotient_view quotient_call) \<in> set (to_mul_visit quotient_view quotient_call)"
    "hd (dg_fixes (hd (to_mul_visit quotient_view quotient_call))) \<in>
      set (dg_fixes (hd (to_mul_visit quotient_view quotient_call)))"
    "pow_arguments (view_bytes quotient_view) quotient_call =
      Some (ex_node ''identifier'' 6 7 [], ex_node ''number_literal'' 8 9 [])"
    "is_word (node_text (Some (ex_node ''identifier'' 6 7 [])) (view_bytes quotient_view))"
    "decimal_value (node_text (Some (ex_node ''number_literal'' 8 9 [])) (view_bytes quotient_view)) \<noteq> 4"
    by code_simp+
  moreover have "node_text (Some (ex_node ''number_literal'' 8 9 [])) (view_bytes quotient_view) = ''2''" by code_simp
  ultimately show ?thesis
    using pow_to_mul_keeps_value [of _ quotient_view quotient_call _ _ _ "\<lambda>_. 5 :: rat"]
    by (simp add: quotient_view_def)
qed

text \<open>C38: A fix of the simplifying rules keeps the value: over the rationals, the node whose text a fix of
  \<open>mul-identity\<close> or \<open>lerp-extremes\<close> puts in the place of the reported expression has the value of that expression,
  given what the operators and \<open>lerp\<close> mean and that a literal has the value it spells, with its fraction and its
  exponent.\<close>

theorem simplifications_keep_value:
  fixes val :: "ts_node \<Rightarrow> rat"
  assumes "d \<in> set (identity_match t m) \<union> set (lerp_match t m')" and "f \<in> set (dg_fixes d)"
    and "\<And>n. ts_kind n = ''number_literal'' \<Longrightarrow> val n = decimal_value (text_of t n)"
    and "capture_all m [''left'', ''right'', ''expr''] = Some [left, right, expr]"
    and "binary_operator (at_bytes t) expr = ''*'' \<Longrightarrow> val expr = val left * val right"
    and "binary_operator (at_bytes t) expr = ''+'' \<Longrightarrow> val expr = val left + val right"
    and "capture_all m' [''fn'', ''a'', ''b'', ''t'', ''call''] = Some [fn, a, b, interpolant, call]"
    and "ts_kind interpolant = ''number_literal''" and "val call = val a + (val b - val a) * val interpolant"
  shows "\<exists>part whole. puts_for t f part whole \<and> part \<in> {left, right, a, b} \<and> whole \<in> {expr, call} \<and>
    val part = val whole"
  using assms(1)
proof
  assume "d \<in> set (identity_match t m)"
  from identity_fix_value [where val = val, OF this assms(2,3,4,5,6)] show ?thesis by auto
next
  assume "d \<in> set (lerp_match t m')"
  from lerp_fix_value [where val = val, OF this assms(2,3,7,8,9)] show ?thesis by auto
qed

text \<open>Matches of examples.\<close>

definition ex_match :: "(string \<times> ts_node) list \<Rightarrow> query_match" where
  "ex_match captures = \<lparr>qm_pattern_index = 0, qm_captures = map (\<lambda>(name, n). \<lparr>cap_name = name, cap_node = ([], n)\<rparr>) captures\<rparr>"

definition ex_lerp :: query_match where
  "ex_lerp = ex_match
     [(''call'', ex_node ''call_expression'' 4 21 []), (''fn'', ex_node ''identifier'' 4 8 []),
      (''a'', ex_node ''binary_expression'' 9 14 []), (''b'', ex_node ''identifier'' 16 17 []),
      (''t'', ex_node ''number_literal'' 19 20 [])]"

definition ex_product :: query_match where
  "ex_product = ex_match
     [(''expr'', ex_node ''binary_expression'' 9 14 [ex_node ''identifier'' 9 10 [], ex_token ''*'' 11 12, ex_node ''identifier'' 13 14 []]),
      (''left'', ex_node ''identifier'' 9 10 []), (''right'', ex_node ''identifier'' 13 14 [])]"

abbreviation lerp_text :: string where
  "lerp_text \<equiv> ''a / lerp(b * c, d, 0)''"

text \<open>The endpoint is put in without parentheses, and the fix is applied without a question: a quotient by
  \<open>lerp(b * c, d, 0)\<close> becomes a quotient by \<open>b\<close>, times \<open>c\<close>.\<close>

theorem lerp_fix_ignores_context:
  "\<exists>d. lerp_match (text_tree lerp_text) ex_lerp = [d] \<and> fx_machine_applicable (hd (dg_fixes d)) \<and>
     fst (apply_fixes lerp_text [first_fix d]) = ''a / b * c'' \<and>
     product_value (\<lambda>w. if w = ''c'' then 2 else 1) ''a / b * c'' = Some (2 :: rat) \<and>
     product_value (\<lambda>w. if w = ''c'' then 2 else 1) ''a / (b * c)'' = Some (1 / 2 :: rat)"
proof (intro exI conjI)
  show "lerp_match (text_tree lerp_text) ex_lerp = [hd (lerp_match (text_tree lerp_text) ex_lerp)]" by code_simp
  show "fx_machine_applicable (hd (dg_fixes (hd (lerp_match (text_tree lerp_text) ex_lerp))))" by code_simp
  show "fst (apply_fixes lerp_text [first_fix (hd (lerp_match (text_tree lerp_text) ex_lerp))]) = ''a / b * c''"
    by code_simp
  show "product_value (\<lambda>w. if w = ''c'' then 2 else 1) ''a / b * c'' = Some (2 :: rat)" by code_simp
  show "product_value (\<lambda>w. if w = ''c'' then 2 else 1) ''a / (b * c)'' = Some (1 / 2 :: rat)" by code_simp
qed

lemma bound_literals: "literal_equals ''1e0'' 1" "\<not> literal_is ''1e0'' 1" "literal_equals ''+00.0f'' 0" "\<not> literal_equals ''1u'' 1"
  "token_is_zero_literal '' -float2(0, 0.0f) ''" "\<not> token_is_zero_literal ''float2(0, 1)''"
  by code_simp+

text \<open>The values of the nodes where \<open>b\<close> is two, \<open>c\<close> three and \<open>d\<close> five.\<close>

definition ex_val :: "ts_node \<Rightarrow> rat" where
  "ex_val n =
     (if ts_kind n = ''number_literal'' then decimal_value (text_of (text_tree lerp_text) n)
      else if ts_kind n = ''identifier'' then (if ts_start n = 9 then 2 else if ts_start n = 13 then 3 else 5)
      else 6)"

theorem simplifications_keep_value_witness:
  "\<exists>part whole. puts_for (text_tree lerp_text) (hd (dg_fixes (hd (lerp_match (text_tree lerp_text) ex_lerp)))) part whole \<and>
     part \<in> {ex_node ''identifier'' 9 10 [], ex_node ''identifier'' 13 14 [], ex_node ''binary_expression'' 9 14 [],
             ex_node ''identifier'' 16 17 []} \<and>
     whole \<in> {ex_node ''binary_expression'' 9 14 [ex_node ''identifier'' 9 10 [], ex_token ''*'' 11 12, ex_node ''identifier'' 13 14 []],
              ex_node ''call_expression'' 4 21 []} \<and>
     ex_val part = ex_val whole"
  (is "\<exists>part whole. puts_for ?t ?f part whole \<and> part \<in> {?l, ?r, ?a, ?b} \<and> whole \<in> {?e, ?c} \<and> _")
proof (rule simplifications_keep_value [where m = ex_product and m' = ex_lerp and d = "hd (lerp_match ?t ex_lerp)" and
      val = ex_val and fn = "ex_node ''identifier'' 4 8 []" and
      interpolant = "ex_node ''number_literal'' 19 20 []"])
  have "hd (lerp_match ?t ex_lerp) \<in> set (lerp_match ?t ex_lerp)" by code_simp
  then show "hd (lerp_match ?t ex_lerp) \<in> set (identity_match ?t ex_product) \<union> set (lerp_match ?t ex_lerp)" by simp
  show "?f \<in> set (dg_fixes (hd (lerp_match ?t ex_lerp)))" by code_simp
  show "capture_all ex_product [''left'', ''right'', ''expr''] = Some [?l, ?r, ?e]" by code_simp
  show "capture_all ex_lerp [''fn'', ''a'', ''b'', ''t'', ''call''] =
      Some [ex_node ''identifier'' 4 8 [], ?a, ?b, ex_node ''number_literal'' 19 20 [], ?c]" by code_simp
  show "ex_val ?e = ex_val ?l * ex_val ?r" by code_simp
  have "binary_operator (at_bytes ?t) ?e = ''*''" by code_simp
  then show "ex_val ?e = ex_val ?l + ex_val ?r"
    if "binary_operator (at_bytes ?t) ?e = ''+''" using that by simp
  show "ex_val ?c =
    ex_val ?a + (ex_val ?b - ex_val ?a) *
      ex_val (ex_node ''number_literal'' 19 20 [])" by code_simp
qed (simp_all add: ex_val_def)

end
