(* ===== verification/Rewrites.thy ===== *)
theory Rewrites
  imports Queries FlowText
begin

text \<open>
  Thirteen rules of \<^verbatim>\<open>core/src/rules\<close> that rewrite an expression of the syntax tree, most of them without asking:
  arguments that leave a domain, norms, dot and cross products with an axis, the closed forms of reflection and
  refraction, qualifiers and literals. Each visits the nodes in document order; some do not descend into a node they
  report. The main theorem evaluates the closed form of a cross product.
\<close>

section \<open>Walks and calls\<close>

definition visit_all :: "(ast_tree \<Rightarrow> ts_node \<Rightarrow> diagnostic list) \<Rightarrow> ast_tree \<Rightarrow> diagnostic list" where
  "visit_all visit t = concat (map (visit t) (preorder (at_root t)))"

text \<open>A walk that does not descend below a report.\<close>

function walk_until :: "(ts_node \<Rightarrow> diagnostic list) \<Rightarrow> ts_node \<Rightarrow> diagnostic list" where
  "walk_until visit n =
     (if visit n \<noteq> [] then visit n else concat (map (\<lambda>c. walk_until visit c) (child_nodes n)))"
  by pat_completeness auto
termination
  by (relation "measure (\<lambda>(visit, n). node_size n)") (simp_all only: in_measure prod.case child_smaller wf_measure)

declare walk_until.simps [simp del]

definition visit_until :: "(ast_tree \<Rightarrow> ts_node \<Rightarrow> diagnostic list) \<Rightarrow> ast_tree \<Rightarrow> diagnostic list" where
  "visit_until visit t = walk_until (visit t) (at_root t)"

text \<open>The arguments of a call of the named function.\<close>

definition call_of :: "string \<Rightarrow> ts_node \<Rightarrow> string \<Rightarrow> ts_node list option" where
  "call_of bytes n name =
     (if ts_kind n = ''call_expression'' \<and> node_text (child_by_field n ''function'') bytes = name
      then map_option named_children (child_by_field n ''arguments'')
      else None)"

text \<open>The first anonymous child, whatever its range.\<close>

definition binary_op :: "string \<Rightarrow> ts_node \<Rightarrow> string" where
  "binary_op bytes expr = node_text (find (\<lambda>c. \<not> ts_named c) (child_nodes expr)) bytes"

section \<open>Arguments outside a domain\<close>

definition starts_with_word :: "string \<Rightarrow> string \<Rightarrow> bool" where
  "starts_with_word s word \<longleftrightarrow>
     starts_with s word \<and> (length s = length word \<or> \<not> is_id_char (s ! length word))"

definition acos_visit :: "ast_tree \<Rightarrow> ts_node \<Rightarrow> diagnostic list" where
  "acos_visit t n =
     (let fn_text = node_text (child_by_field n ''function'') (at_bytes t) in
      if ts_kind n = ''call_expression'' \<and> (fn_text = ''acos'' \<or> fn_text = ''asin'')
      then (case map_option named_children (child_by_field n ''arguments'') of
              Some (arg0 # _) \<Rightarrow>
                (let arg_text = text_of t arg0;
                     has_dot = (contains_text arg_text ''dot('' \<or> contains_text arg_text ''dot ('');
                     rest = dropWhile (\<lambda>c. c = CHR '' '' \<or> c = tab_char \<or> c = CHR ''('' \<or> c = CHR ''+'' \<or> c = CHR ''-'') arg_text;
                     guarded = (starts_with_word rest ''saturate'' \<or> starts_with_word rest ''clamp'')
                 in if has_dot \<and> \<not> guarded
                    then node_report ''acos-without-saturate'' t n
                           (fn_text @ ''(dot(...)) without saturate/clamp -- normalised dot '' @
                            ''products can round outside [-1, 1] and produce NaN; '' @
                            ''wrap the argument in clamp(x, -1.0, 1.0)'')
                           [\<lparr>fx_description = ''wrap the argument in clamp(x, -1.0, 1.0); on AMD/NVIDIA '' @
                                              ''this compiles to a free SAT modifier'',
                             fx_machine_applicable = True,
                             fx_edits = (if arg_text = [] then []
                                         else [\<lparr>te_span = \<lparr>sp_source = at_source t, sp_bytes = range_of arg0\<rparr>,
                                                te_replacement = ''clamp('' @ arg_text @ '', -1.0, 1.0)''\<rparr>])\<rparr>]
                    else [])
            | _ \<Rightarrow> [])
      else [])"

text \<open>A minus outside parentheses that follows an operand.\<close>

fun difference_from :: "int \<Rightarrow> bool \<Rightarrow> string \<Rightarrow> bool" where
  "difference_from depth prev_was_op [] = False"
| "difference_from depth prev_was_op (c # s) =
     (if c = CHR ''('' then difference_from (depth + 1) True s
      else if c = CHR '')'' then difference_from (if depth > 0 then depth - 1 else depth) False s
      else if depth = 0 \<and> c = CHR ''-'' \<and> \<not> prev_was_op then True
      else difference_from depth (if is_blank_char c then prev_was_op else c \<in> set ''+-*/,<>=!&|'') s)"

definition can_round_negative :: "string \<Rightarrow> bool" where
  "can_round_negative arg = difference_from 0 True arg"

definition sqrt_visit :: "ast_tree \<Rightarrow> ts_node \<Rightarrow> diagnostic list" where
  "sqrt_visit t n =
     (case call_of (at_bytes t) n ''sqrt'' of
        Some (arg0 # _) \<Rightarrow>
          (let arg_text = text_of t arg0; trimmed = dropWhile (\<lambda>c. c = CHR '' '' \<or> c = tab_char) arg_text in
           if starts_with trimmed ''max('' \<or> starts_with trimmed ''max ('' then []
           else if can_round_negative arg_text
           then node_report ''sqrt-of-potentially-negative'' t n
                  (''sqrt() of a difference expression may round negative, '' @
                   ''producing NaN; wrap the argument in max(0.0, ...) (or '' @
                   ''use rsqrt + reciprocal for the unit-vector case)'')
                  [\<lparr>fx_description = ''wrap the argument in max(0.0, ...) -- the clamp is free '' @
                                     ''on RDNA/Ada (compiles to a SAT-style modifier on the '' @
                                     ''producing instruction) and prevents NaN propagation'',
                    fx_machine_applicable = True,
                    fx_edits = (if arg_text = [] then []
                                else [\<lparr>te_span = \<lparr>sp_source = at_source t, sp_bytes = range_of arg0\<rparr>,
                                       te_replacement = ''max(0.0, '' @ arg_text @ '')''\<rparr>])\<rparr>]
           else [])
      | _ \<Rightarrow> [])"

section \<open>Norms\<close>

definition distance_visit :: "ast_tree \<Rightarrow> ts_node \<Rightarrow> diagnostic list" where
  "distance_visit t n =
     (case call_of (at_bytes t) n ''length'' of
        Some [arg0] \<Rightarrow>
          (let arg = unwrap_single arg0 in
           if ts_kind arg \<noteq> ''binary_expression'' \<or> binary_op (at_bytes t) arg \<noteq> ''-'' then []
           else let a_text = node_text (child_by_field arg ''left'') (at_bytes t);
                    b_text = node_text (child_by_field arg ''right'') (at_bytes t)
                in if a_text = [] \<or> b_text = [] then []
                   else node_report ''manual-distance'' t n
                          (''`length(a - b)` is the open-coded form of '' @
                           ''`distance(a, b)` -- prefer the named intrinsic for '' @
                           ''clarity'')
                          [replace_node True ''replace `length(a - b)` with `distance(a, b)`'' t n
                             (''distance('' @ a_text @ '', '' @ b_text @ '')'')])
      | _ \<Rightarrow> [])"

datatype reason = Saturate_Inside | Self_Product | Self_Dot

definition is_unary_call_to :: "ts_node \<Rightarrow> string \<Rightarrow> string \<Rightarrow> bool" where
  "is_unary_call_to n bytes fn_name \<longleftrightarrow>
     (case call_of bytes n fn_name of Some args \<Rightarrow> length args = 1 | None \<Rightarrow> False)"

definition classify_arg :: "string \<Rightarrow> ts_node \<Rightarrow> reason option" where
  "classify_arg bytes arg =
     (let same = (\<lambda>x y. node_text x bytes \<noteq> [] \<and> node_text x bytes = node_text y bytes) in
      if is_unary_call_to arg bytes ''saturate'' then Some Saturate_Inside
      else if (case call_of bytes arg ''dot'' of Some [a0, a1] \<Rightarrow> same (Some a0) (Some a1) | _ \<Rightarrow> False) then Some Self_Dot
      else if ts_kind arg = ''binary_expression'' \<and> binary_op bytes arg = ''*'' \<and>
              same (child_by_field arg ''left'') (child_by_field arg ''right'') then Some Self_Product
      else None)"

fun reason_blurb :: "reason \<Rightarrow> string" where
  "reason_blurb Saturate_Inside = ''`saturate` already clamps its result to [0, 1]''"
| "reason_blurb Self_Product = ''a self-product `x * x` is always non-negative''"
| "reason_blurb Self_Dot = ''`dot(v, v)` is the squared magnitude and is always non-negative''"

definition abs_visit :: "ast_tree \<Rightarrow> ts_node \<Rightarrow> diagnostic list" where
  "abs_visit t n =
     (case call_of (at_bytes t) n ''abs'' of
        Some [arg] \<Rightarrow>
          (case classify_arg (at_bytes t) arg of
             None \<Rightarrow> []
           | Some reason \<Rightarrow>
               node_report ''redundant-abs'' t n
                 (''`abs(...)` is redundant here -- '' @ reason_blurb reason @
                  '', so the wrapping `abs` adds an instruction with no effect'')
                 (if text_of t arg = [] then []
                  else [replace_node True
                          (''drop the outer `abs` -- the inner expression '' @ ''is already non-negative'')
                          t n (text_of t arg)]))
      | _ \<Rightarrow> [])"

section \<open>Products with an axis\<close>

definition vector_ctor_arity :: "string \<Rightarrow> nat option" where
  "vector_ctor_arity name =
     (if name \<in> set [''float2'', ''int2'', ''uint2'', ''half2''] then Some 2
      else if name \<in> set [''float3'', ''int3'', ''uint3'', ''half3''] then Some 3
      else if name \<in> set [''float4'', ''int4'', ''uint4'', ''half4''] then Some 4
      else None)"

definition axis_swizzle :: "nat \<Rightarrow> char" where
  "axis_swizzle axis =
     (if axis = 0 then CHR ''x'' else if axis = 1 then CHR ''y'' else if axis = 2 then CHR ''z''
      else if axis = 3 then CHR ''w'' else CHR ''x'')"

text \<open>The position of the only one among literals that are zero otherwise.\<close>

fun one_index_from :: "string \<Rightarrow> nat \<Rightarrow> nat option \<Rightarrow> ts_node list \<Rightarrow> nat option" where
  "one_index_from bytes i one_index [] = one_index"
| "one_index_from bytes i one_index (c # cs) =
     (let literal = node_text (Some c) bytes in
      if ts_kind c \<noteq> ''number_literal'' then None
      else if is_numeric_literal_one literal
      then (if one_index \<noteq> None then None else one_index_from bytes (i + 1) (Some i) cs)
      else if is_numeric_literal_zero literal then one_index_from bytes (i + 1) one_index cs
      else None)"

definition axis_index_of_constructor :: "string \<Rightarrow> ts_node \<Rightarrow> nat option" where
  "axis_index_of_constructor bytes n =
     (if ts_kind n \<noteq> ''call_expression'' then None
      else case child_by_field n ''function'' of
             None \<Rightarrow> None
           | Some fn \<Rightarrow>
               (case (vector_ctor_arity (node_text (Some fn) bytes), map_option named_children (child_by_field n ''arguments'')) of
                  (Some arity, Some args) \<Rightarrow> if length args \<noteq> arity then None else one_index_from bytes 0 None args
                | _ \<Rightarrow> None))"

definition dot_visit :: "ast_tree \<Rightarrow> ts_node \<Rightarrow> diagnostic list" where
  "dot_visit t n =
     (case call_of (at_bytes t) n ''dot'' of
        Some [arg0, arg1] \<Rightarrow>
          (case (case axis_index_of_constructor (at_bytes t) arg1 of
                   Some a \<Rightarrow> Some (text_of t arg0, a)
                 | None \<Rightarrow> map_option (Pair (text_of t arg1)) (axis_index_of_constructor (at_bytes t) arg0)) of
             None \<Rightarrow> []
           | Some (v_text, axis) \<Rightarrow>
               (if v_text = [] then []
                else node_report ''dot-on-axis-aligned-vector'' t n
                       (''`dot(v, axis)` against an axis-aligned '' @
                        ''constant unit vector is just a swizzle '' @
                        ''(`v.'' @ [axis_swizzle axis] @
                        ''`) -- saves a multiply-add chain and avoids loading '' @
                        ''the constant vector'')
                       [replace_node True ''replace the dot product with a swizzle'' t n
                          (v_text @ ''.'' @ [axis_swizzle axis])]))
      | _ \<Rightarrow> [])"

datatype component_kind = Component_Zero | Component_Positive | Component_Negative | Component_Other

text \<open>The operator and the operand of a unary expression.\<close>

definition first_operator :: "string \<Rightarrow> ts_node \<Rightarrow> string" where
  "first_operator bytes expr = node_text (find (\<lambda>c. \<not> ts_named c \<and> node_text (Some c) bytes \<noteq> []) (child_nodes expr)) bytes"

definition unary_operand :: "ts_node \<Rightarrow> ts_node option" where
  "unary_operand n =
     (case find ts_named (child_nodes n) of Some c \<Rightarrow> Some c | None \<Rightarrow> child_by_field n ''argument'')"

definition literal_kind :: "string \<Rightarrow> component_kind \<Rightarrow> component_kind" where
  "literal_kind literal one_kind =
     (if is_numeric_literal_zero literal then Component_Zero
      else if is_numeric_literal_one literal then one_kind
      else Component_Other)"

definition classify_component :: "string \<Rightarrow> ts_node \<Rightarrow> component_kind" where
  "classify_component bytes n =
     (if ts_kind n = ''number_literal'' then literal_kind (node_text (Some n) bytes) Component_Positive
      else if ts_kind n = ''unary_expression''
      then (if first_operator bytes n \<noteq> ''-'' \<or> node_kind (unary_operand n) \<noteq> ''number_literal'' then Component_Other
            else literal_kind (node_text (unary_operand n) bytes) Component_Negative)
      else Component_Other)"

definition is_float3_ctor :: "string \<Rightarrow> bool" where
  "is_float3_ctor name \<longleftrightarrow> name \<in> set [''float3'', ''half3'', ''int3'', ''uint3'', ''min16float3'']"

fun axis_from :: "string \<Rightarrow> nat \<Rightarrow> (nat \<times> int) option \<Rightarrow> ts_node list \<Rightarrow> (nat \<times> int) option" where
  "axis_from bytes i info [] = info"
| "axis_from bytes i info (c # cs) =
     (case classify_component bytes c of
        Component_Zero \<Rightarrow> axis_from bytes (i + 1) info cs
      | Component_Positive \<Rightarrow> if info \<noteq> None then None else axis_from bytes (i + 1) (Some (i, 1)) cs
      | Component_Negative \<Rightarrow> if info \<noteq> None then None else axis_from bytes (i + 1) (Some (i, -1)) cs
      | Component_Other \<Rightarrow> None)"

definition float3_arguments :: "string \<Rightarrow> ts_node \<Rightarrow> ts_node list option" where
  "float3_arguments bytes n =
     (if ts_kind n \<noteq> ''call_expression'' then None
      else case child_by_field n ''function'' of
             None \<Rightarrow> None
           | Some fn \<Rightarrow>
               (if \<not> is_float3_ctor (node_text (Some fn) bytes) then None
                else case map_option named_children (child_by_field n ''arguments'') of
                       None \<Rightarrow> None
                     | Some args \<Rightarrow> if length args \<noteq> 3 then None else Some args))"

definition axis_of_constructor :: "string \<Rightarrow> ts_node \<Rightarrow> (nat \<times> int) option" where
  "axis_of_constructor bytes n =
     (case float3_arguments bytes n of None \<Rightarrow> None | Some args \<Rightarrow> axis_from bytes 0 None args)"

definition signed_swizzle :: "string \<Rightarrow> int \<Rightarrow> char \<Rightarrow> string" where
  "signed_swizzle v_text component_sign sw = (if component_sign < 0 then ''-'' else []) @ v_text @ ''.'' @ [sw]"

definition build_replacement :: "string \<Rightarrow> nat \<Rightarrow> int \<Rightarrow> bool \<Rightarrow> string" where
  "build_replacement v_text axis sign flip_sign =
     (let s = (if flip_sign then -1 else 1) * sign;
          sw = signed_swizzle v_text;
          (c0, c1, c2) =
            (if axis = 0 then (''0'', sw s CHR ''z'', sw (- s) CHR ''y'')
             else if axis = 1 then (sw (- s) CHR ''z'', ''0'', sw s CHR ''x'')
             else if axis = 2 then (sw s CHR ''y'', sw (- s) CHR ''x'', ''0'')
             else (''0'', ''0'', ''0''))
      in ''float3('' @ c0 @ '', '' @ c1 @ '', '' @ c2 @ '')'')"

definition cross_visit :: "ast_tree \<Rightarrow> ts_node \<Rightarrow> diagnostic list" where
  "cross_visit t n =
     (case call_of (at_bytes t) n ''cross'' of
        Some [arg0, arg1] \<Rightarrow>
          (let axis_right = axis_of_constructor (at_bytes t) arg1;
               axis_left = (if axis_right = None then axis_of_constructor (at_bytes t) arg0 else None)
           in case (if axis_right \<noteq> None then axis_right else axis_left) of
                None \<Rightarrow> []
              | Some (axis, sign) \<Rightarrow>
                  (let v_text = text_of t (if axis_right \<noteq> None then arg0 else arg1) in
                   if v_text = [] then []
                   else node_report ''cross-with-up-vector'' t n
                          (''`cross(v, K)` against an axis-aligned constant unit '' @
                           ''vector collapses to a swizzle plus sign flip -- saves '' @
                           ''six multiplies and three adds per call site'')
                          [replace_node True
                             (''replace the cross product with the algebraic closed '' @ ''form (swizzle + sign)'')
                             t n (build_replacement v_text axis sign (axis_right = None))]))
      | _ \<Rightarrow> [])"

section \<open>Interpolation and lanes\<close>

definition is_numeric_literal :: "ts_node \<Rightarrow> string \<Rightarrow> bool" where
  "is_numeric_literal n bytes \<longleftrightarrow>
     ts_kind n = ''number_literal'' \<or>
     ts_kind n = ''unary_expression'' \<and> (first_operator bytes n = ''-'' \<or> first_operator bytes n = ''+'') \<and>
       node_kind (unary_operand n) = ''number_literal''"

definition constant_lerp_visit :: "ast_tree \<Rightarrow> ts_node \<Rightarrow> diagnostic list" where
  "constant_lerp_visit t n =
     (case call_of (at_bytes t) n ''lerp'' of
        Some [k1, k2, interpolant] \<Rightarrow>
          (let k1_text = text_of t k1; k2_text = text_of t k2; t_text = text_of t interpolant;
               replacement = ''mad('' @ t_text @ '', '' @ k2_text @ '' - '' @ k1_text @ '', '' @ k1_text @ '')''
           in if is_numeric_literal k1 (at_bytes t) \<and> is_numeric_literal k2 (at_bytes t) \<and>
                 k1_text \<noteq> [] \<and> k2_text \<noteq> [] \<and> t_text \<noteq> []
              then node_report ''select-vs-lerp-of-constant'' t n
                     (''`lerp(K1, K2, t)` with two constant endpoints relies on '' @
                      ''the compiler'' @ [CHR 0x27] @ ''s constant fold to collapse to a single mad '' @
                      ''-- not all backends do this consistently; spelling '' @
                      ''`mad(t, K2-K1, K1)` makes the intent portable'')
                     [replace_node True
                        (''replace with `'' @ replacement @ ''` to make the multiply-add lowering compile-portable'')
                        t n replacement]
              else [])
      | _ \<Rightarrow> [])"

definition literal_is_zero :: "string \<Rightarrow> bool" where
  "literal_is_zero s \<longleftrightarrow>
     (if s = [] then False
      else let start = skip_optional_plus s 0; zeros = skip_while (\<lambda>c. c = CHR ''0'') s in
        if start \<ge> length s \<or> \<not> is_digit_char (s ! start) then False
        else let i = zeros start in
          if i < length s \<and> is_digit_char (s ! i) then False
          else let dot = (i < length s \<and> s ! i = CHR ''.''); j = (if dot then zeros (i + 1) else i) in
            if dot \<and> j < length s \<and> is_digit_char (s ! j) then False
            else if j < length s \<and> (s ! j = CHR ''e'' \<or> s ! j = CHR ''E'') then False
            else list_all (\<lambda>c. c \<in> set ''uUlLfFhH'') (drop j s))"

definition first_lane_visit :: "ast_tree \<Rightarrow> ts_node \<Rightarrow> diagnostic list" where
  "first_lane_visit t n =
     (case call_of (at_bytes t) n ''WaveReadLaneAt'' of
        Some [x, lane] \<Rightarrow>
          (if ts_kind lane = ''number_literal'' \<and> literal_is_zero (text_of t lane) \<and> text_of t x \<noteq> []
           then node_report ''wavereadlaneat-constant-zero-to-readfirst'' t n
                  (''`WaveReadLaneAt(x, 0)` is equivalent to '' @
                   ''`WaveReadLaneFirst(x)` -- the latter lets the '' @
                   ''compiler emit a subgroup-broadcast-first opcode '' @
                   ''instead of a generic per-lane broadcast on RDNA / Ada'')
                  [replace_node True ''replace with `WaveReadLaneFirst(x)`'' t n (''WaveReadLaneFirst('' @ text_of t x @ '')'')]
           else [])
      | _ \<Rightarrow> [])"

section \<open>Qualifiers and hint bits\<close>

definition volatile_visit :: "ast_tree \<Rightarrow> ts_node \<Rightarrow> diagnostic list" where
  "volatile_visit t n =
     (if ts_kind n \<in> set [''declaration'', ''field_declaration'', ''global_variable_declaration'', ''variable_declaration'']
      then (case (find_keyword (text_of t n) ''groupshared'', find_keyword (text_of t n) ''volatile'') of
              (Some _, Some vol_pos) \<Rightarrow>
                (let bytes = at_bytes t;
                     vol_lo = ts_start n + u32_of vol_pos;
                     vol_hi = vol_lo + 8;
                     end_strip = (if unat vol_hi < length bytes \<and>
                                     (bytes ! unat vol_hi = CHR '' '' \<or> bytes ! unat vol_hi = tab_char)
                                  then vol_hi + 1 else vol_hi)
                 in [rule_diagnostic ''groupshared-volatile'' (at_source t) \<lparr>bs_lo = vol_lo, bs_hi = vol_hi\<rparr>
                       (''`volatile` on a `groupshared` declaration is meaningless under '' @
                        ''the HLSL memory model -- use `GroupMemoryBarrier*` for LDS '' @
                        ''ordering, or `globallycoherent` for cross-CU UAV ordering'')
                       [replacing_fix True
                          (''drop the `volatile` qualifier (it does not affect LDS '' @ ''ordering and pessimises the optimiser)'')
                          (at_source t) \<lparr>bs_lo = vol_lo, bs_hi = end_strip\<rparr> []]])
            | _ \<Rightarrow> [])
      else [])"

text \<open>Here the digits are summed without a test for overflow.\<close>

fun wrapping_digits :: "u32 \<Rightarrow> (char \<Rightarrow> u32 option) \<Rightarrow> string \<Rightarrow> u32 \<Rightarrow> u32 option" where
  "wrapping_digits base digit [] v = Some v"
| "wrapping_digits base digit (c # cs) v =
     (case digit c of None \<Rightarrow> None | Some d \<Rightarrow> wrapping_digits base digit cs (v * base + d))"

definition parse_bits :: "string \<Rightarrow> u32 option" where
  "parse_bits s =
     (let s = literal_trim s in
      if s = [] then None
      else if is_hex_literal s then wrapping_digits 16 hex_digit32 (drop 2 s) 0
      else wrapping_digits 10 dec_digit s 0)"

definition cap_for :: "string \<Rightarrow> u32" where
  "cap_for call_text = (if contains_text call_text ''HitObject'' then 8 else 16)"

text \<open>The last argument that is a literal, with its value.\<close>

definition last_literal :: "ast_tree \<Rightarrow> ts_node list \<Rightarrow> (ts_node \<times> u32) option" where
  "last_literal t args =
     (case find (\<lambda>a. ts_kind a = ''number_literal'' \<and> parse_bits (text_of t a) \<noteq> None) (rev args) of
        None \<Rightarrow> None
      | Some a \<Rightarrow> Some (a, the (parse_bits (text_of t a))))"

definition hint_overflow_visit :: "ast_tree \<Rightarrow> ts_node \<Rightarrow> diagnostic list" where
  "hint_overflow_visit t n =
     (if ts_kind n = ''call_expression'' \<and>
         contains_text (node_text (child_by_field n ''function'') (at_bytes t)) ''MaybeReorderThread''
      then (case map_option named_children (child_by_field n ''arguments'') of
              None \<Rightarrow> []
            | Some args \<Rightarrow>
                (if length args < 2 then []
                 else case last_literal t args of
                        None \<Rightarrow> []
                      | Some (literal, value) \<Rightarrow>
                          (let cap = cap_for (text_of t n) in
                           if value > cap
                           then node_report ''ser-coherence-hint-bits-overflow'' t n
                                  (''`MaybeReorderThread(...)` last numeric '' @ ''arg '' @ number value @
                                   '' exceeds the spec coherence-hint-bits cap '' @ number cap @
                                   '' -- the SER scheduler silently truncates the value, '' @
                                   ''producing incoherent reorder'')
                                  [replacing_fix True (''clamp the bits literal to the SER spec cap ('' @ number cap @ '')'')
                                     (at_source t) (range_of literal) (number cap)]
                           else [])))
      else [])"

section \<open>Closed forms\<close>

definition both_operands :: "ts_node \<Rightarrow> (ts_node \<times> ts_node) option" where
  "both_operands n =
     (case (child_by_field n ''left'', child_by_field n ''right'') of (Some l, Some r) \<Rightarrow> Some (l, r) | _ \<Rightarrow> None)"

definition is_binary :: "string \<Rightarrow> string \<Rightarrow> ts_node \<Rightarrow> bool" where
  "is_binary bytes op n \<longleftrightarrow> ts_kind n = ''binary_expression'' \<and> binary_op bytes n = op"

definition is_literal_two :: "ts_node \<Rightarrow> string \<Rightarrow> bool" where
  "is_literal_two n bytes \<longleftrightarrow>
     (let s = node_text (Some n) bytes; i = skip_optional_plus s 0 in
      if ts_kind n \<noteq> ''number_literal'' \<or> s = [] \<or> i \<ge> length s \<or> s ! i \<noteq> CHR ''2'' then False
      else let j = (if i + 1 < length s \<and> s ! (i + 1) = CHR ''.'' then skip_while (\<lambda>c. c = CHR ''0'') s (i + 2) else i + 1) in
        if j < length s \<and> (s ! j = CHR ''e'' \<or> s ! j = CHR ''E'') then False
        else scan_float_suffix s j)"

definition is_dot_call :: "string \<Rightarrow> ts_node \<Rightarrow> (ts_node \<times> ts_node) option" where
  "is_dot_call bytes n = (case call_of bytes n ''dot'' of Some [a0, a1] \<Rightarrow> Some (a0, a1) | _ \<Rightarrow> None)"

text \<open>The texts of the vector and the normal.\<close>

definition try_extract :: "string \<Rightarrow> string \<Rightarrow> ts_node \<Rightarrow> ts_node \<Rightarrow> (string \<times> string) option" where
  "try_extract bytes v_text inner tail_n =
     (if \<not> is_binary bytes ''*'' inner then None
      else case both_operands inner of
             None \<Rightarrow> None
           | Some (il, ir) \<Rightarrow>
               (case (if is_literal_two il bytes then Some ir else if is_literal_two ir bytes then Some il else None) of
                  None \<Rightarrow> None
                | Some dot_node \<Rightarrow>
                    (case is_dot_call bytes dot_node of
                       None \<Rightarrow> None
                     | Some (da, db) \<Rightarrow>
                         (let ta = node_text (Some da) bytes; tb = node_text (Some db) bytes; tn = node_text (Some tail_n) bytes in
                          if tn = [] \<or> v_text = [] then None
                          else if ta = v_text \<and> tb = tn then Some (v_text, tb)
                          else if tb = v_text \<and> ta = tn then Some (v_text, ta)
                          else None))))"

definition try_match_reflect_rhs :: "string \<Rightarrow> ts_node \<Rightarrow> ts_node \<Rightarrow> (string \<times> string) option" where
  "try_match_reflect_rhs bytes rhs v_node =
     (if \<not> is_binary bytes ''*'' rhs then None
      else case both_operands rhs of
             None \<Rightarrow> None
           | Some (l, r) \<Rightarrow>
               (let v_text = node_text (Some v_node) bytes in
                case try_extract bytes v_text l r of Some m \<Rightarrow> Some m | None \<Rightarrow> try_extract bytes v_text r l))"

definition reflect_visit :: "ast_tree \<Rightarrow> ts_node \<Rightarrow> diagnostic list" where
  "reflect_visit t n =
     (if \<not> is_binary (at_bytes t) ''-'' n then []
      else case both_operands n of
             None \<Rightarrow> []
           | Some (lhs, rhs) \<Rightarrow>
               (case try_match_reflect_rhs (at_bytes t) rhs lhs of
                  None \<Rightarrow> []
                | Some (v, nrm) \<Rightarrow>
                    node_report ''manual-reflect'' t n
                      (''`'' @ v @ '' - 2 * dot('' @ nrm @ '', '' @ v @ '') * '' @ nrm @
                       ''` is the reflect formula '' @ em_dash @ '' use `reflect('' @ v @ '', '' @ nrm @ '')`'')
                      [replace_node False
                         (''replace with `reflect('' @ v @ '', '' @ nrm @
                          '')` '' @ em_dash @ '' verify that argument order matches your '' @
                          ''incident/normal convention before applying'')
                         t n (''reflect('' @ v @ '', '' @ nrm @ '')'')]))"

function unwrap_paren :: "ts_node \<Rightarrow> ts_node" where
  "unwrap_paren n =
     (if ts_kind n \<noteq> ''parenthesized_expression'' then n
      else case named_children n of [] \<Rightarrow> n | c # _ \<Rightarrow> unwrap_paren c)"
  by pat_completeness auto
termination
  by (relation "measure node_size") (auto intro: named_child_smaller)

declare unwrap_paren.simps [simp del]

definition match_paren_mul :: "string \<Rightarrow> ts_node option \<Rightarrow> (ts_node \<times> ts_node) option" where
  "match_paren_mul bytes n =
     (case n of
        None \<Rightarrow> None
      | Some n \<Rightarrow>
          (if ts_kind n \<noteq> ''parenthesized_expression'' then None
           else let inner = unwrap_paren n in
             if ts_kind inner \<noteq> ''binary_expression'' \<or> first_operator bytes inner \<noteq> ''*'' then None
             else both_operands inner))"

definition mad_visit :: "ast_tree \<Rightarrow> ts_node \<Rightarrow> diagnostic list" where
  "mad_visit t n =
     (if ts_kind n \<noteq> ''binary_expression'' \<or> first_operator (at_bytes t) n \<noteq> ''+'' then []
      else let lhs = child_by_field n ''left''; rhs = child_by_field n ''right''; mul = match_paren_mul (at_bytes t) in
        case (case mul lhs of Some ab \<Rightarrow> Some (ab, rhs) | None \<Rightarrow> map_option (\<lambda>ab. (ab, lhs)) (mul rhs)) of
          None \<Rightarrow> []
        | Some ((a, b), c) \<Rightarrow>
            (let a_text = text_of t a; b_text = text_of t b; c_text = node_text c (at_bytes t);
                 call = ''mad('' @ a_text @ '', '' @ b_text @ '', '' @ c_text @ '')''
             in if mul c \<noteq> None \<or> a_text = [] \<or> b_text = [] \<or> c_text = [] then []
                else node_report ''manual-mad-decomposition'' t n
                       (''this is a hand-written multiply-add (`(a * b) + c`) -- prefer '' @
                        ''`mad(a, b, c)`, which the compiler is free to schedule into a '' @
                        ''single fused MAD slot on GPUs that support one'')
                       [replace_node False
                          (''replace `(a * b) + c` with `'' @ call @
                           ''`; verify that the surrounding code does not require '' @
                           ''strict IEEE-precise rounding (which would forbid the fusion)'')
                          t n call]))"

definition is_call_to :: "string \<Rightarrow> string \<Rightarrow> ts_node \<Rightarrow> bool" where
  "is_call_to bytes name n \<longleftrightarrow> ts_kind n = ''call_expression'' \<and> node_text (child_by_field n ''function'') bytes = name"

definition contains_call_to :: "string \<Rightarrow> string \<Rightarrow> ts_node \<Rightarrow> bool" where
  "contains_call_to bytes name n \<longleftrightarrow> list_ex (is_call_to bytes name) (preorder n)"

definition contains_dot_of_two_identifiers :: "string \<Rightarrow> ts_node \<Rightarrow> bool" where
  "contains_dot_of_two_identifiers bytes n \<longleftrightarrow>
     list_ex (\<lambda>m. case is_dot_call bytes m of
                    Some (a, b) \<Rightarrow> ts_kind a = ''identifier'' \<and> ts_kind b = ''identifier''
                  | None \<Rightarrow> False) (preorder n)"

definition is_identifier_operand :: "ts_node option \<Rightarrow> bool" where
  "is_identifier_operand n \<longleftrightarrow> node_kind (map_option unwrap_single n) = ''identifier''"

definition mul_has_identifier_operand :: "string \<Rightarrow> ts_node \<Rightarrow> bool" where
  "mul_has_identifier_operand bytes n \<longleftrightarrow>
     list_ex (\<lambda>m. is_binary bytes ''*'' m \<and>
       (is_identifier_operand (child_by_field m ''left'') \<or> is_identifier_operand (child_by_field m ''right''))) (preorder n)"

definition looks_like_sum :: "string \<Rightarrow> ts_node \<Rightarrow> bool" where
  "looks_like_sum bytes candidate \<longleftrightarrow>
     (let inner = unwrap_single candidate in
      is_binary bytes ''+'' inner \<and> contains_call_to bytes ''sqrt'' inner \<and> contains_call_to bytes ''dot'' inner)"

definition return_expr_matches_refract :: "string \<Rightarrow> ts_node \<Rightarrow> bool" where
  "return_expr_matches_refract bytes e =
     (let expr = unwrap_single e in
      if \<not> is_binary bytes ''-'' expr then False
      else case both_operands expr of
             None \<Rightarrow> False
           | Some (lhs, rhs_raw) \<Rightarrow>
               (let rhs = unwrap_single rhs_raw in
                if \<not> is_binary bytes ''*'' rhs then False
                else case both_operands rhs of
                       None \<Rightarrow> False
                     | Some (l, r) \<Rightarrow>
                         (looks_like_sum bytes l \<and> is_identifier_operand (Some r) \<or>
                          looks_like_sum bytes r \<and> is_identifier_operand (Some l)) \<and>
                         mul_has_identifier_operand bytes lhs \<and> contains_dot_of_two_identifiers bytes expr))"

definition refract_visit :: "ast_tree \<Rightarrow> ts_node \<Rightarrow> diagnostic list" where
  "refract_visit t n =
     (if ts_kind n \<noteq> ''return_statement'' then []
      else case named_children n of
             [] \<Rightarrow> []
           | expr # _ \<Rightarrow>
               (if return_expr_matches_refract (at_bytes t) expr
                then node_report ''manual-refract'' t n
                       (''this return expression is the closed-form `refract(I, N, eta)` '' @
                        ''formula -- prefer the built-in `refract()` intrinsic'')
                       [suggestion
                          (''replace the hand-rolled body with `return refract(I, N, eta);` '' @
                           ''-- verify which parameter plays each role before applying'')]
                else []))"

section \<open>The rules\<close>

definition acos_without_saturate where "acos_without_saturate = tree_rule ''acos-without-saturate'' (visit_all acos_visit)"
definition sqrt_of_potentially_negative where
  "sqrt_of_potentially_negative = tree_rule ''sqrt-of-potentially-negative'' (visit_all sqrt_visit)"
definition manual_distance where "manual_distance = tree_rule ''manual-distance'' (visit_all distance_visit)"
definition redundant_abs where "redundant_abs = tree_rule ''redundant-abs'' (visit_all abs_visit)"
definition dot_on_axis_aligned_vector where
  "dot_on_axis_aligned_vector = tree_rule ''dot-on-axis-aligned-vector'' (visit_all dot_visit)"
definition cross_with_up_vector where "cross_with_up_vector = tree_rule ''cross-with-up-vector'' (visit_all cross_visit)"
definition select_vs_lerp_of_constant where
  "select_vs_lerp_of_constant = tree_rule ''select-vs-lerp-of-constant'' (visit_all constant_lerp_visit)"
definition wavereadlaneat_constant_zero_to_readfirst where
  "wavereadlaneat_constant_zero_to_readfirst = tree_rule ''wavereadlaneat-constant-zero-to-readfirst'' (visit_all first_lane_visit)"
definition groupshared_volatile where "groupshared_volatile = tree_rule ''groupshared-volatile'' (visit_until volatile_visit)"
definition ser_coherence_hint_bits_overflow where
  "ser_coherence_hint_bits_overflow = tree_rule ''ser-coherence-hint-bits-overflow'' (visit_all hint_overflow_visit)"
definition manual_reflect where "manual_reflect = tree_rule ''manual-reflect'' (visit_until reflect_visit)"
definition manual_mad_decomposition where
  "manual_mad_decomposition = tree_rule ''manual-mad-decomposition'' (visit_until mad_visit)"
definition manual_refract where "manual_refract = tree_rule ''manual-refract'' (visit_until refract_visit)"

section \<open>The value of a closed form\<close>

text \<open>A vector as the language reads it: a constructor, with words or their negations between commas.\<close>

fun vector_components :: "(string \<Rightarrow> rat) \<Rightarrow> token list \<Rightarrow> rat list option" where
  "vector_components env (Word w # Symbol c # ts) =
     (if c = CHR '','' then map_option (Cons (env w)) (vector_components env ts)
      else if c = CHR '')'' \<and> ts = [] then Some [env w]
      else None)"
| "vector_components env (Symbol m # Word w # Symbol c # ts) =
     (if m \<noteq> CHR ''-'' then None
      else if c = CHR '','' then map_option (Cons (- env w)) (vector_components env ts)
      else if c = CHR '')'' \<and> ts = [] then Some [- env w]
      else None)"
| "vector_components env ts = None"

definition vector_value :: "(string \<Rightarrow> rat) \<Rightarrow> string \<Rightarrow> rat list option" where
  "vector_value env s =
     (case tokens s of
        Word constructor # Symbol c # ts \<Rightarrow> if c = CHR ''('' then vector_components env ts else None
      | _ \<Rightarrow> None)"

fun cross3 :: "rat list \<Rightarrow> rat list \<Rightarrow> rat list" where
  "cross3 [a0, a1, a2] [b0, b1, b2] = [a1 * b2 - a2 * b1, a2 * b0 - a0 * b2, a0 * b1 - a1 * b0]"
| "cross3 _ _ = []"

definition word_vector :: "(string \<Rightarrow> rat) \<Rightarrow> string \<Rightarrow> rat list" where
  "word_vector env v = [env (v @ ''.x''), env (v @ ''.y''), env (v @ ''.z'')]"

lemma swizzle_tokens:
  assumes "is_word v" and "is_word_char sw" and "rest \<noteq> []" and "\<not> is_word_char (hd rest)"
  shows "tokens (signed_swizzle v s sw @ rest) =
    (if s < 0 then Symbol CHR ''-'' # Word (v @ [CHR ''.'', sw]) # tokens rest
     else Word (v @ [CHR ''.'', sw]) # tokens rest)"
proof -
  have "is_word (v @ [CHR ''.'', sw])"
    using assms(1,2) by (simp add: is_word_def is_word_char_def list_all_iff)
  from tokens_word [OF this, of rest] assms(4) show ?thesis
    by (simp add: signed_swizzle_def is_word_char_def is_alnum_char_def is_digit_char_def is_alpha_char_def)
qed

lemma vector_symbols:
  "tokens (''float3('' @ rest) = Word ''float3'' # Symbol CHR ''('' # tokens rest"
  "tokens ('', '' @ rest) = Symbol CHR '','' # tokens rest"
  "tokens (''0'' @ '', '' @ rest) = Word ''0'' # Symbol CHR '','' # tokens rest"
  "tokens ''0)'' = [Word ''0'', Symbol CHR '')'']" "tokens '')'' = [Symbol CHR '')'']"
  by (simp_all add: is_word_char_def is_alnum_char_def is_digit_char_def is_alpha_char_def)

lemma swizzle_chars: "is_word_char CHR ''x''" "is_word_char CHR ''y''" "is_word_char CHR ''z''" "\<not> is_word_char CHR '',''"
  by (simp_all add: is_word_char_def is_alnum_char_def is_digit_char_def is_alpha_char_def)

lemma replacement_vector:
  assumes "is_word v" and "env ''0'' = 0" and "sign = 1 \<or> sign = -1" and "axis < 3"
  shows "vector_value env (build_replacement v axis sign flip) =
    Some (map (\<lambda>x. of_int (if flip then - sign else sign) * x)
      (cross3 (word_vector env v) (map (\<lambda>i. if i = axis then 1 else 0) [0, 1, 2])))"
proof -
  have zero: "tokens (''0'' @ '')'') = [Word ''0'', Symbol CHR '')'']" by (simp add: vector_symbols(4) del: tokens.simps)
  note sw = swizzle_tokens [OF assms(1)]
  have "axis = 0 \<or> axis = 1 \<or> axis = 2" using assms(4) by auto
  then show ?thesis
    using assms(2,3)
    by (elim disjE; cases flip)
      (simp_all add: build_replacement_def Let_def vector_value_def word_vector_def vector_symbols sw swizzle_chars zero
        del: tokens.simps append.simps)
qed

text \<open>The value of a component of a constructor, with its sign.\<close>

definition component_value :: "string \<Rightarrow> ts_node \<Rightarrow> rat" where
  "component_value bytes c =
     (if ts_kind c = ''number_literal'' then decimal_value (node_text (Some c) bytes)
      else - decimal_value (node_text (unary_operand c) bytes))"

lemma literal_kind_value:
  "literal_kind literal k = Component_Zero \<Longrightarrow> k \<noteq> Component_Zero \<Longrightarrow> decimal_value literal = 0"
  "literal_kind literal k = k \<Longrightarrow> k \<noteq> Component_Zero \<Longrightarrow> k \<noteq> Component_Other \<Longrightarrow> decimal_value literal = 1"
  using numeric_literal_value [of literal 1] numeric_literal_value [of literal 0]
  by (auto simp: literal_kind_def is_numeric_literal_one_def is_numeric_literal_zero_def split: if_splits)

lemma literal_kind_sign: "literal_kind literal k = k' \<Longrightarrow> k' = Component_Zero \<or> k' = k \<or> k' = Component_Other"
  by (auto simp: literal_kind_def)

lemma classified_value:
  "classify_component bytes c = Component_Zero \<Longrightarrow> component_value bytes c = 0"
  "classify_component bytes c = Component_Positive \<Longrightarrow> component_value bytes c = 1"
  "classify_component bytes c = Component_Negative \<Longrightarrow> component_value bytes c = -1"
  by (auto simp: classify_component_def component_value_def literal_kind_value
      dest: literal_kind_sign literal_kind_value split: if_splits)

lemma axis_of_constructor_value:
  assumes "axis_of_constructor bytes n = Some (axis, sign)"
  obtains args where "float3_arguments bytes n = Some args" and "axis < 3" and "sign = 1 \<or> sign = -1"
    and "map (component_value bytes) args = map (\<lambda>i. if i = axis then of_int sign else 0) [0, 1, 2]"
proof -
  obtain args where args: "float3_arguments bytes n = Some args" and axis: "axis_from bytes 0 None args = Some (axis, sign)"
    using assms by (auto simp: axis_of_constructor_def split: option.splits)
  from args have "length args = 3" by (auto simp: float3_arguments_def split: if_splits option.splits)
  then obtain c0 c1 c2 where cs: "args = [c0, c1, c2]" by (auto simp: numeral_3_eq_3 length_Suc_conv)
  have "axis < 3 \<and> (sign = 1 \<or> sign = -1) \<and>
    map (component_value bytes) args = map (\<lambda>i. if i = axis then of_int sign else 0) [0, 1, 2]"
    using axis unfolding cs
    by (auto simp: classified_value split: component_kind.splits)
  then show ?thesis using that args by blast
qed

text \<open>The vector an argument denotes: a word with its swizzles, or the components of a constructor.\<close>

definition vector_of :: "(string \<Rightarrow> rat) \<Rightarrow> ast_tree \<Rightarrow> ts_node \<Rightarrow> rat list" where
  "vector_of env t n =
     (if is_word (text_of t n) then word_vector env (text_of t n)
      else case float3_arguments (at_bytes t) n of
             None \<Rightarrow> []
           | Some args \<Rightarrow> map (component_value (at_bytes t)) args)"

lemma cross_with_axis:
  assumes "sign = 1 \<or> sign = (-1 :: int)"
  shows "cross3 (word_vector env v) (map (\<lambda>i. if i = axis then of_int sign else 0) [0, 1, 2 :: nat]) =
      map (\<lambda>x. of_int sign * x) (cross3 (word_vector env v) (map (\<lambda>i. if i = axis then 1 else 0) [0, 1, 2]))"
    and "cross3 (map (\<lambda>i. if i = axis then of_int sign else 0) [0, 1, 2 :: nat]) (word_vector env v) =
      map (\<lambda>x. of_int (- sign) * x) (cross3 (word_vector env v) (map (\<lambda>i. if i = axis then 1 else 0) [0, 1, 2]))"
  using assms by (auto simp: word_vector_def)

text \<open>C39: The closed form has the value of the cross product: a fix replaces the call by a vector whose components, read
  as the language reads them, are those of the product of the two arguments, on whichever side the constant is and
  whatever its axis and sign, if the other argument is one word.\<close>

theorem cross_fix_keeps_value:
  fixes env :: "string \<Rightarrow> rat"
  assumes "d \<in> set (cross_visit t n)" and "f \<in> set (dg_fixes d)"
    and "call_of (at_bytes t) n ''cross'' = Some [arg0, arg1]"
    and "is_word (text_of t arg0) \<or> is_word (text_of t arg1)"
    and "\<And>c. c \<in> {arg0, arg1} \<Longrightarrow> ts_kind c = ''call_expression'' \<Longrightarrow> \<not> is_word (text_of t c)"
    and "env ''0'' = 0"
  shows "\<exists>r. fx_edits f = [\<lparr>te_span = \<lparr>sp_source = at_source t, sp_bytes = range_of n\<rparr>, te_replacement = r\<rparr>] \<and>
    vector_value env r = Some (cross3 (vector_of env t arg0) (vector_of env t arg1))"
proof -
  have axis_arg: "\<exists>args. float3_arguments (at_bytes t) c = Some args \<and> \<not> is_word (text_of t c) \<and>
      axis < 3 \<and> (sign = 1 \<or> sign = -1) \<and>
      map (component_value (at_bytes t)) args = map (\<lambda>i. if i = axis then of_int sign else 0) [0, 1, 2]"
    if "axis_of_constructor (at_bytes t) c = Some (axis, sign)" and "c \<in> {arg0, arg1}" for c axis sign
  proof -
    have "ts_kind c = ''call_expression''"
      using that(1) by (auto simp: axis_of_constructor_def float3_arguments_def split: if_splits)
    then show ?thesis using axis_of_constructor_value [OF that(1)] assms(5) [OF that(2)] by metis
  qed
  show ?thesis
  proof (cases "axis_of_constructor (at_bytes t) arg1")
    case (Some a)
    obtain axis sign where a: "a = (axis, sign)" by (cases a)
    from axis_arg [OF Some [unfolded a] insertI2 [OF insertI1]] obtain args where args: "float3_arguments (at_bytes t) arg1 = Some args"
      "\<not> is_word (text_of t arg1)" "axis < 3" "sign = 1 \<or> sign = -1"
      "map (component_value (at_bytes t)) args = map (\<lambda>i. if i = axis then of_int sign else 0) [0, 1, 2]" by blast
    then have word: "is_word (text_of t arg0)" using assms(4) by simp
    have "f = replace_node True (''replace the cross product with the algebraic closed '' @ ''form (swizzle + sign)'')
        t n (build_replacement (text_of t arg0) axis sign False)"
      using assms(1,2) Some a by (auto simp: cross_visit_def assms(3) node_report_set Let_def split: if_splits)
    then show ?thesis
      using replacement_vector [where env = env, OF word assms(6) args(4,3), of False] args word cross_with_axis(1) [OF args(4)]
      by (simp add: vector_of_def)
  next
    case None
    then obtain axis sign where left: "axis_of_constructor (at_bytes t) arg0 = Some (axis, sign)"
      using assms(1) by (cases "axis_of_constructor (at_bytes t) arg0") (auto simp: cross_visit_def assms(3))
    from axis_arg [OF left insertI1] obtain args where args: "float3_arguments (at_bytes t) arg0 = Some args"
      "\<not> is_word (text_of t arg0)" "axis < 3" "sign = 1 \<or> sign = -1"
      "map (component_value (at_bytes t)) args = map (\<lambda>i. if i = axis then of_int sign else 0) [0, 1, 2]" by blast
    then have word: "is_word (text_of t arg1)" using assms(4) by simp
    have "f = replace_node True (''replace the cross product with the algebraic closed '' @ ''form (swizzle + sign)'')
        t n (build_replacement (text_of t arg1) axis sign True)"
      using assms(1,2) None left by (auto simp: cross_visit_def assms(3) node_report_set Let_def split: if_splits)
    then show ?thesis
      using replacement_vector [where env = env, OF word assms(6) args(4,3), of True] args word cross_with_axis(2) [OF args(4)]
      by (simp add: vector_of_def)
  qed
qed

section \<open>Examples\<close>

definition up_text :: string where
  "up_text = ''cross(v, float3(0, 1, 0))''"

definition up_arguments :: "ts_node list" where
  "up_arguments =
     [ex_node ''identifier'' 6 7 [],
      ex_call 9 15 24 [ex_node ''number_literal'' 16 17 [], ex_node ''number_literal'' 19 20 [], ex_node ''number_literal'' 22 23 []]]"

definition up_call :: ts_node where
  "up_call = ex_call 0 5 25 up_arguments"

lemma up_fix: "map te_replacement (fx_edits (hd (dg_fixes (hd (cross_visit (text_tree up_text) up_call))))) = [''float3(-v.z, 0, v.x)'']"
  by code_simp

text \<open>Fixes that are applied without a question and do not put parentheses: a quotient by \<open>abs(x * x)\<close> becomes a quotient by
  \<open>x\<close>, times \<open>x\<close>, and the swizzle of a sum applies to its last operand only.\<close>

definition abs_call :: ts_node where
  "abs_call = ex_call 2 5 12 [Ts_Node ''binary_expression'' True 6 11
     [(Some ''left'', ex_node ''identifier'' 6 7 []), (None, ex_token ''*'' 8 9), (Some ''right'', ex_node ''identifier'' 10 11 [])]]"

abbreviation abs_text :: string where
  "abs_text \<equiv> ''1/abs(x * x)''"

theorem abs_fix_ignores_context:
  "\<exists>d. abs_visit (text_tree abs_text) abs_call = [d] \<and> fx_machine_applicable (hd (dg_fixes d)) \<and>
     fst (apply_fixes abs_text [first_fix d]) = ''1/x * x'' \<and>
     product_value (\<lambda>w. if w = ''1'' then 1 else 3) ''1/x * x'' = Some (1 :: rat) \<and>
     product_value (\<lambda>w. if w = ''1'' then 1 else 3) ''1/(x * x)'' = Some (1 / 9 :: rat)"
proof (intro exI conjI)
  show "abs_visit (text_tree abs_text) abs_call = [hd (abs_visit (text_tree abs_text) abs_call)]" by code_simp
  show "fx_machine_applicable (hd (dg_fixes (hd (abs_visit (text_tree abs_text) abs_call))))" by code_simp
  show "fst (apply_fixes abs_text [first_fix (hd (abs_visit (text_tree abs_text) abs_call))]) = ''1/x * x''" by code_simp
  show "product_value (\<lambda>w. if w = ''1'' then 1 else 3) ''1/x * x'' = Some (1 :: rat)" by code_simp
  show "product_value (\<lambda>w. if w = ''1'' then 1 else 3) ''1/(x * x)'' = Some (1 / 9 :: rat)" by code_simp
qed

definition sum_dot_call :: ts_node where
  "sum_dot_call = ex_call 0 3 28
     [ex_node ''binary_expression'' 4 9 [],
      ex_call 11 17 26 [ex_node ''number_literal'' 18 19 [], ex_node ''number_literal'' 21 22 [], ex_node ''number_literal'' 24 25 []]]"

theorem swizzle_of_last_operand:
  "map (\<lambda>d. map (\<lambda>f. (fx_machine_applicable f, map te_replacement (fx_edits f))) (dg_fixes d))
     (dot_visit (text_tree ''dot(a + b, float3(1, 0, 0) )'') sum_dot_call) = [[(True, [''a + b.x''])]]"
  by code_simp

text \<open>The exponent of a literal counts as a difference, and a guard that covers only the first operand counts for the whole
  argument.\<close>

theorem exponent_is_difference:
  "can_round_negative ''1e-5''" "\<not> can_round_negative ''-x''" "can_round_negative ''max(a, b) - c''"
  "sqrt_visit (text_tree ''sqrt(max(a, b) - c)'') (ex_call 0 4 19 [ex_node ''binary_expression'' 5 18 []]) = []"
  "length (sqrt_visit (text_tree ''sqrt(1e-5)'') (ex_call 0 4 10 [ex_node ''number_literal'' 5 9 []])) = 1"
  by code_simp+

text \<open>A literal above \<open>2\<^sup>3\<^sup>2\<close> is read modulo \<open>2\<^sup>3\<^sup>2\<close> and passes as one bit.\<close>

theorem hint_bits_wrap: "parse_bits ''4294967297u'' = Some 1" "parse_bits ''0x10'' = Some 16"
  by code_simp+

definition up_env :: "string \<Rightarrow> rat" where
  "up_env w = (if w = ''0'' then 0 else if w = ''v.x'' then 2 else 5)"

theorem cross_fix_keeps_value_witness:
  "\<exists>r. fx_edits (hd (dg_fixes (hd (cross_visit (text_tree up_text) up_call)))) =
      [\<lparr>te_span = \<lparr>sp_source = at_source (text_tree up_text), sp_bytes = range_of up_call\<rparr>, te_replacement = r\<rparr>] \<and>
    vector_value up_env r =
      Some (cross3 (vector_of up_env (text_tree up_text) (up_arguments ! 0)) (vector_of up_env (text_tree up_text) (up_arguments ! 1)))"
proof (rule cross_fix_keeps_value)
  show "hd (cross_visit (text_tree up_text) up_call) \<in> set (cross_visit (text_tree up_text) up_call)" by code_simp
  show "hd (dg_fixes (hd (cross_visit (text_tree up_text) up_call))) \<in> set (dg_fixes (hd (cross_visit (text_tree up_text) up_call)))"
    by code_simp
  show "call_of (at_bytes (text_tree up_text)) up_call ''cross'' = Some [up_arguments ! 0, up_arguments ! 1]" by code_simp
  show "is_word (text_of (text_tree up_text) (up_arguments ! 0)) \<or> is_word (text_of (text_tree up_text) (up_arguments ! 1))"
    by code_simp
  have "list_all (\<lambda>c. ts_kind c \<noteq> ''call_expression'' \<or> \<not> is_word (text_of (text_tree up_text) c)) [up_arguments ! 0, up_arguments ! 1]"
    by code_simp
  then show "\<not> is_word (text_of (text_tree up_text) c)"
    if "c \<in> {up_arguments ! 0, up_arguments ! 1}" and "ts_kind c = ''call_expression''" for c
    using that by (auto simp only: list.pred_inject insert_iff empty_iff)
  show "up_env ''0'' = 0" by code_simp
qed

end
