(* ===== verification/Stages.thy ===== *)
theory Stages
  imports Rewrites
begin

text \<open>
  Thirty-nine rules of \<^verbatim>\<open>core/src/rules\<close> that look for words in the text of a call, of a function or of the whole source:
  cooperative-vector calls, hit objects and their reordering, opacity micromaps, mesh shaders and work graphs, group
  sizes, shading rates and depth output. The examples at the end show
  products that wrap and words that are taken for others.
\<close>

section \<open>Reports\<close>

definition severe_report :: "severity \<Rightarrow> string \<Rightarrow> ast_tree \<Rightarrow> byte_span \<Rightarrow> string \<Rightarrow> diagnostic list" where
  "severe_report sev rule_id t bs message =
     [(rule_diagnostic rule_id (at_source t) bs message [])\<lparr>dg_severity := sev\<rparr>]"

text \<open>A piece of the text of a node, by its offset in that text.\<close>

definition piece_of :: "ts_node \<Rightarrow> nat \<Rightarrow> nat \<Rightarrow> byte_span" where
  "piece_of n pos len = \<lparr>bs_lo = ts_start n + u32_of pos, bs_hi = ts_start n + u32_of pos + u32_of len\<rparr>"

definition source_piece :: "nat \<Rightarrow> nat \<Rightarrow> byte_span" where
  "source_piece lo hi = \<lparr>bs_lo = u32_of lo, bs_hi = u32_of hi\<rparr>"

definition contains_any :: "string \<Rightarrow> string list \<Rightarrow> bool" where
  "contains_any s words = list_ex (contains_text s) words"

definition is_call_named :: "ast_tree \<Rightarrow> string \<Rightarrow> ts_node \<Rightarrow> bool" where
  "is_call_named t name n \<longleftrightarrow> is_call_to (at_bytes t) name n"

text \<open>The text between the quotes that follow a marker.\<close>

definition quoted_after :: "string \<Rightarrow> string \<Rightarrow> string" where
  "quoted_after s marker =
     (case find_text s marker 0 of
        None \<Rightarrow> []
      | Some attr \<Rightarrow>
          (case find_text s ''\"'' attr of
             None \<Rightarrow> []
           | Some open_q \<Rightarrow>
               (case find_text s ''\"'' (open_q + 1) of
                  None \<Rightarrow> []
                | Some close_q \<Rightarrow> substr s (open_q + 1) (close_q - open_q - 1))))"

abbreviation extract_shader_stage :: "string \<Rightarrow> string" where
  "extract_shader_stage s \<equiv> quoted_after s ''shader(''"

definition signature_text :: "string \<Rightarrow> string" where
  "signature_text fn_text = (case find_text fn_text ''{'' 0 of None \<Rightarrow> fn_text | Some body_pos \<Rightarrow> take body_pos fn_text)"

section \<open>Cooperative vectors\<close>

definition k_calls :: "string list" where
  "k_calls = [''MatrixVectorMul'', ''MatrixMul'', ''OuterProductAccumulate'']"

text \<open>A name before the first parenthesis of the call, wherever the search finds it first.\<close>

definition is_target_call :: "string \<Rightarrow> bool" where
  "is_target_call call_text \<longleftrightarrow>
     list_ex (\<lambda>name. case find_text call_text name 0 of
                       None \<Rightarrow> False
                     | Some pos \<Rightarrow> (case find_text call_text ''('' 0 of None \<Rightarrow> True | Some p \<Rightarrow> pos < p)) k_calls"

definition k_optimal_layouts :: "string list" where
  "k_optimal_layouts = [''MATRIX_LAYOUT_INFERENCING_OPTIMAL'', ''MATRIX_LAYOUT_TRAINING_OPTIMAL'']"

definition k_non_optimal_layouts :: "string list" where
  "k_non_optimal_layouts = [''MATRIX_LAYOUT_ROW_MAJOR'', ''MATRIX_LAYOUT_COLUMN_MAJOR'']"

definition parse_uint_after_marker :: "string \<Rightarrow> string \<Rightarrow> u32 option" where
  "parse_uint_after_marker s marker =
     (case find_text s marker 0 of
        None \<Rightarrow> None
      | Some pos \<Rightarrow>
          (let start = skip_while (\<lambda>c. c = CHR '' '' \<or> c = tab_char) s (pos + length marker);
               stop = read_digits s start
           in if stop = start then None else Some (digits_value (substr s start (stop - start)))))"

definition base_offset_visit :: "ast_tree \<Rightarrow> ts_node \<Rightarrow> diagnostic list" where
  "base_offset_visit t n =
     (if ts_kind n = ''call_expression'' \<and> is_target_call (text_of t n)
      then (case parse_uint_after_marker (text_of t n) ''/*offset*/'' of
              None \<Rightarrow> []
            | Some offset \<Rightarrow>
                (if offset mod 16 = 0 then []
                 else severe_report Error ''coopvec-base-offset-misaligned'' t (range_of n)
                        (''cooperative-vector matmul offset '' @ number offset @ '' is not 16-byte aligned; '' @
                         ''matrix engines on Ada / RDNA 3-4 / Xe-HPG fault or '' @
                         ''split the load on misalignment (proposal 0029)'')))
      else [])"

definition blackwell_visit :: "ast_tree \<Rightarrow> ts_node \<Rightarrow> diagnostic list" where
  "blackwell_visit t n =
     (let call_text = text_of t n in
      if ts_kind n = ''call_expression'' \<and> contains_any call_text [''MatrixMul'', ''MatrixVectorMul'', ''OuterProductAccumulate''] \<and>
         contains_any call_text [''COMPONENT_TYPE_FLOAT_E2M1'', ''COMPONENT_TYPE_FLOAT_E3M2'', ''COMPONENT_TYPE_FLOAT_E2M3'',
                                 ''COMPONENT_TYPE_FLOAT_FP4''] \<and>
         \<not> contains_any call_text k_optimal_layouts
      then node_report ''coopvec-fp4-fp6-blackwell-layout'' t n
             (''matrix call with FP4 / FP6 element type lacks '' @
              ''`MATRIX_LAYOUT_INFERENCING_OPTIMAL` (or `TRAINING_OPTIMAL`) -- '' @
              ''Blackwell 5th-gen Tensor Cores are FP4/FP6-native and gate the '' @
              ''swizzle-free fetch path on the OPTIMAL layout'') []
      else [])"

definition fp8_visit :: "ast_tree \<Rightarrow> ts_node \<Rightarrow> diagnostic list" where
  "fp8_visit t n =
     (let call_text = text_of t n in
      if ts_kind n = ''call_expression'' \<and> is_target_call call_text \<and>
         contains_any call_text [''COMPONENT_TYPE_FLOAT_E4M3'', ''COMPONENT_TYPE_FLOAT_E5M2''] \<and>
         \<not> contains_any call_text k_optimal_layouts
      then severe_report Error ''coopvec-fp8-with-non-optimal-layout'' t (range_of n)
             (''cooperative-vector matmul with FP8 component type '' @
              ''requires `MATRIX_LAYOUT_INFERENCING_OPTIMAL` or '' @
              ''`MATRIX_LAYOUT_TRAINING_OPTIMAL`; non-optimal FP8 '' @
              ''layouts are undefined behaviour (proposal 0029)'')
      else [])"

definition non_optimal_visit :: "ast_tree \<Rightarrow> ts_node \<Rightarrow> diagnostic list" where
  "non_optimal_visit t n =
     (if ts_kind n = ''call_expression'' \<and> is_target_call (text_of t n)
      then (case find (contains_text (text_of t n)) k_non_optimal_layouts of
              None \<Rightarrow> []
            | Some layout \<Rightarrow>
                node_report ''coopvec-non-optimal-matrix-layout'' t n
                  (''cooperative-vector matmul uses `'' @ layout @
                   ''`; prefer `MATRIX_LAYOUT_INFERENCING_OPTIMAL` (or '' @
                   ''`TRAINING_OPTIMAL`) for IHV-native swizzle and 2-4x '' @
                   ''throughput on tensor / WMMA / XMX engines'') [])
      else [])"

definition coopvec_stride_visit :: "ast_tree \<Rightarrow> ts_node \<Rightarrow> diagnostic list" where
  "coopvec_stride_visit t n =
     (if ts_kind n = ''call_expression'' \<and> is_target_call (text_of t n) \<and>
         contains_any (text_of t n) k_non_optimal_layouts \<and> contains_text (text_of t n) ''/*stride*/''
      then node_report ''coopvec-stride-mismatch'' t n
             (''cooperative-vector matmul stride / shape consistency '' @
              ''cannot be verified from the AST alone -- reflect against '' @
              ''the matrix shape and component type to confirm '' @
              ''`stride == rows * sizeof(component)` (proposal 0029)'') []
      else [])"

definition coopvec_transpose_visit :: "ast_tree \<Rightarrow> ts_node \<Rightarrow> diagnostic list" where
  "coopvec_transpose_visit t n =
     (if ts_kind n = ''call_expression'' \<and> is_target_call (text_of t n) \<and> contains_text (text_of t n) ''MATRIX_FLAG_TRANSPOSED''
      then node_report ''coopvec-transpose-without-feature-check'' t n
             (''cooperative-vector matmul uses `MATRIX_FLAG_TRANSPOSED` -- '' @
              ''verify an application-side '' @
              ''`CheckFeatureSupport(D3D12_FEATURE_D3D12_OPTIONS18)` covers '' @
              ''the runtime tier; transpose may fail on tier-0 devices'') []
      else [])"

section \<open>Hit objects\<close>

definition table_missing_visit :: "ast_tree \<Rightarrow> ts_node \<Rightarrow> diagnostic list" where
  "table_missing_visit t n =
     (if ts_kind n \<noteq> ''function_definition'' then []
      else let fn_text = text_of t n in
        case find_text fn_text ''FromRayQuery('' 0 of
          None \<Rightarrow> []
        | Some from_pos \<Rightarrow>
            (case find_text fn_text ''.Invoke('' from_pos of
               None \<Rightarrow> []
             | Some invoke_pos \<Rightarrow>
                 (if (case find_text fn_text ''SetShaderTableIndex'' from_pos of None \<Rightarrow> False | Some sti \<Rightarrow> sti < invoke_pos) then []
                  else severe_report Error ''fromrayquery-invoke-without-shader-table'' t (piece_of n (invoke_pos + 1) 6)
                         (''HitObject from `FromRayQuery` requires '' @
                          ''`SetShaderTableIndex(...)` before `Invoke(...)` '' @
                          ''(SER spec 0027); the inline RayQuery does not record '' @
                          ''a shader table''))))"

definition construct_visit :: "ast_tree \<Rightarrow> ts_node \<Rightarrow> diagnostic list" where
  "construct_visit t n =
     (let fn_text = text_of t n; stage = extract_shader_stage fn_text in
      if ts_kind n \<noteq> ''function_definition'' \<or> stage = [] \<or> stage \<in> set [''raygeneration'', ''closesthit'', ''miss''] then []
      else concat (map (\<lambda>ctor. case find_text fn_text ctor 0 of
                                 None \<Rightarrow> []
                               | Some pos \<Rightarrow>
                                   severe_report Error ''hitobject-construct-outside-allowed-stages'' t (piece_of n pos (length ctor))
                                     (''`dx::'' @ ctor @ ''` is not allowed in a `'' @ stage @
                                      ''` shader; SER spec 0027 restricts HitObject '' @
                                      ''construction to raygeneration / closesthit / miss''))
                  [''HitObject::TraceRay'', ''HitObject::FromRayQuery'', ''HitObject::MakeMiss'']))"

definition recursion_cap_visit :: "ast_tree \<Rightarrow> ts_node \<Rightarrow> diagnostic list" where
  "recursion_cap_visit t n =
     (let fn_text = text_of t n in
      if ts_kind n \<noteq> ''function_definition'' \<or> extract_shader_stage fn_text \<noteq> ''closesthit'' then []
      else case find_text fn_text ''.Invoke('' 0 of
             None \<Rightarrow> []
           | Some invoke_pos \<Rightarrow>
               (if \<not> contains_text fn_text ''HitObject'' then []
                else severe_report Error ''hitobject-invoke-after-recursion-cap'' t (piece_of n (invoke_pos + 1) 6)
                       (''`HitObject::Invoke` from a closesthit shader consumes a '' @
                        ''trace-recursion-depth slot; verify the pipeline'' @ [CHR 0x27] @ ''s '' @
                        ''`MaxTraceRecursionDepth` covers this chain (SER spec 0027). '' @
                        ''Phase 4 will track the depth budget exactly'')))"

definition non_inlined_visit :: "ast_tree \<Rightarrow> ts_node \<Rightarrow> diagnostic list" where
  "non_inlined_visit t n =
     (let fn_text = text_of t n in
      if ts_kind n = ''function_definition'' \<and> contains_text fn_text ''noinline'' \<and>
         contains_text (signature_text fn_text) ''HitObject''
      then severe_report Error ''hitobject-passed-to-non-inlined-fn'' t (range_of n)
             (''`dx::HitObject` cannot cross a non-inlined function '' @
              ''boundary (SER spec 0027); this `[noinline]` function '' @
              ''takes or returns a HitObject'')
      else [])"

text \<open>The walk remembers whether it is inside a function, and stops at a report.\<close>

definition memory_report :: "ast_tree \<Rightarrow> bool \<Rightarrow> ts_node \<Rightarrow> diagnostic list" where
  "memory_report t inside_function n =
     (let s = text_of t n in
      if ts_kind n \<in> set [''declaration'', ''field_declaration'', ''global_variable_declaration''] \<and>
         contains_any s [''dx::HitObject'', ''HitObject''] \<and>
         (\<not> inside_function \<or> contains_any s [''groupshared'', ''static'', ''RWStructuredBuffer'', ''RWByteAddressBuffer''])
      then severe_report Error ''hitobject-stored-in-memory'' t (range_of n)
             (''`dx::HitObject` must be register-only inside an inlined '' @
              ''raygen call chain (SER spec 0027); storing it in memory '' @
              ''is undefined behaviour'')
      else [])"

function memory_walk :: "ast_tree \<Rightarrow> bool \<Rightarrow> ts_node \<Rightarrow> diagnostic list" where
  "memory_walk t inside_function n =
     (if memory_report t inside_function n \<noteq> [] then memory_report t inside_function n
      else concat (map (\<lambda>c. memory_walk t (inside_function \<or> ts_kind n = ''function_definition'') c) (child_nodes n)))"
  by pat_completeness auto
termination
  by (relation "measure (\<lambda>(t, inside, n). node_size n)") (simp_all only: in_measure prod.case child_smaller wf_measure)

declare memory_walk.simps [simp del]

definition outside_raygen_visit :: "ast_tree \<Rightarrow> ts_node \<Rightarrow> diagnostic list" where
  "outside_raygen_visit t n =
     (let fn_text = text_of t n; stage = extract_shader_stage fn_text in
      if ts_kind n \<noteq> ''function_definition'' \<or> stage = [] \<or> stage = ''raygeneration'' then []
      else case find_text fn_text ''MaybeReorderThread'' 0 of
             None \<Rightarrow> []
           | Some call_pos \<Rightarrow>
               severe_report Error ''maybereorderthread-outside-raygen'' t (piece_of n call_pos 18)
                 (''`dx::MaybeReorderThread` is only allowed in raygeneration shaders '' @
                  ''(SER spec 0027) -- this call lives in a `'' @ stage @ ''` shader''))"

text \<open>The first of the two constructors.\<close>

definition first_constructor :: "string \<Rightarrow> nat option" where
  "first_constructor fn_text =
     (case (find_text fn_text ''HitObject::TraceRay('' 0, find_text fn_text ''HitObject::FromRayQuery('' 0) of
        (Some a, Some b) \<Rightarrow> Some (min a b)
      | (Some a, None) \<Rightarrow> Some a
      | (None, b) \<Rightarrow> b)"

definition without_reorder_visit :: "ast_tree \<Rightarrow> ts_node \<Rightarrow> diagnostic list" where
  "without_reorder_visit t n =
     (let fn_text = text_of t n in
      if ts_kind n \<noteq> ''function_definition'' then []
      else case first_constructor fn_text of
             None \<Rightarrow> []
           | Some ctor_pos \<Rightarrow>
               (case find_text fn_text ''.Invoke('' ctor_pos of
                  None \<Rightarrow> []
                | Some invoke_pos \<Rightarrow>
                    (if (case find_text fn_text ''MaybeReorderThread'' ctor_pos of None \<Rightarrow> False | Some r \<Rightarrow> r < invoke_pos) then []
                     else [rule_diagnostic ''ser-trace-then-invoke-without-reorder'' (at_source t) (piece_of n (invoke_pos + 1) 6)
                             (''HitObject `TraceRay` -> `Invoke` without an intervening '' @
                              ''`MaybeReorderThread` pays the HitObject overhead without '' @
                              ''recovering it; either insert `MaybeReorderThread` or use '' @
                              ''plain `TraceRay`'') []])))"

section \<open>Ray flags\<close>

definition first_arg_looks_constant :: "string \<Rightarrow> bool" where
  "first_arg_looks_constant first_arg =
     (let s = trim_blank first_arg in
      if s = [] then True
      else if is_digit_char (s ! 0) then True
      else contains_text s ''RAY_FLAG_'')"

text \<open>The first comma outside parentheses.\<close>

fun top_comma :: "string \<Rightarrow> nat \<Rightarrow> int \<Rightarrow> nat option" where
  "top_comma [] i depth = None"
| "top_comma (c # s) i depth =
     (if c = CHR ''('' then top_comma s (i + 1) (depth + 1)
      else if c = CHR '')'' then top_comma s (i + 1) (depth - 1)
      else if c = CHR '','' \<and> depth = 0 then Some i
      else top_comma s (i + 1) depth)"

definition last_char_pos :: "string \<Rightarrow> char \<Rightarrow> nat option" where
  "last_char_pos s c = find (\<lambda>i. s ! i = c) (rev [0..<length s])"

definition allocate_visit :: "ast_tree \<Rightarrow> ts_node \<Rightarrow> diagnostic list" where
  "allocate_visit t n =
     (let call_text = text_of t n in
      if ts_kind n \<noteq> ''call_expression'' then []
      else case find_text call_text ''AllocateRayQuery2'' 0 of
             None \<Rightarrow> []
           | Some fn_pos \<Rightarrow>
               (case (find_text call_text ''('' fn_pos, last_char_pos call_text CHR '')'') of
                  (Some open_p, Some close_p) \<Rightarrow>
                    (if open_p \<ge> close_p then []
                     else let args = substr call_text (open_p + 1) (close_p - open_p - 1);
                              first = (case top_comma args 0 0 of None \<Rightarrow> args | Some comma \<Rightarrow> take comma args)
                          in if first_arg_looks_constant first then []
                             else severe_report Error ''omm-allocaterayquery2-non-const-flags'' t (range_of n)
                                    (''`AllocateRayQuery2` requires the first argument '' @
                                     ''(static ray flags) to be a compile-time constant; '' @
                                     ''move runtime bits to the second argument''))
                | _ \<Rightarrow> []))"

text \<open>The fix ORs the missing flag to the trimmed template argument.\<close>

definition trimmed_hi :: "string \<Rightarrow> nat \<Rightarrow> nat \<Rightarrow> nat" where
  "trimmed_hi bytes lo hi = lo + length (rev (dropWhile is_blank_char (rev (substr bytes lo (hi - lo)))))"

definition allow_flag_fix :: "ast_tree \<Rightarrow> nat \<Rightarrow> nat \<Rightarrow> fix_t list" where
  "allow_flag_fix t arg_lo arg_hi =
     (if arg_lo \<ge> arg_hi then []
      else let bytes = at_bytes t; hi = trimmed_hi bytes arg_lo arg_hi;
               lo = arg_lo + length (takeWhile is_blank_char (substr bytes arg_lo (hi - arg_lo)))
           in if lo \<ge> hi then []
              else [replacing_fix False
                      (''OR `RAY_FLAG_ALLOW_OPACITY_MICROMAPS` into the '' @
                       ''RayQuery template-flag argument; verify the '' @
                       ''BVH has OMM blocks attached'')
                      (at_source t) (source_piece lo hi)
                      (substr bytes lo (hi - lo) @ '' | RAY_FLAG_ALLOW_OPACITY_MICROMAPS'')])"

definition force_2state_visit :: "ast_tree \<Rightarrow> ts_node \<Rightarrow> diagnostic list" where
  "force_2state_visit t n =
     (let s = text_of t n in
      if ts_kind n \<notin> set [''declaration'', ''global_variable_declaration'', ''field_declaration''] then []
      else case find_text s ''RayQuery<'' 0 of
             None \<Rightarrow> []
           | Some rq_pos \<Rightarrow>
               (case find_text s ''>'' rq_pos of
                  None \<Rightarrow> []
                | Some stop \<Rightarrow>
                    (let args = substr s rq_pos (stop - rq_pos) in
                     if contains_text args ''RAY_FLAG_FORCE_OMM_2_STATE'' \<and> \<not> contains_text args ''RAY_FLAG_ALLOW_OPACITY_MICROMAPS''
                     then [error_diagnostic ''omm-rayquery-force-2state-without-allow-flag'' (at_source t) (range_of n)
                             (''`RAY_FLAG_FORCE_OMM_2_STATE` requires '' @
                              ''`RAY_FLAG_ALLOW_OPACITY_MICROMAPS` to be set on the '' @
                              ''same RayQuery; without the allow flag the OMM '' @
                              ''blocks are never consulted (DXR 1.2 OMM spec)'')
                             (allow_flag_fix t (unat (ts_start n) + rq_pos + 9) (unat (ts_start n) + stop))]
                     else [])))"

text \<open>The word before the first parenthesis.\<close>

definition crude_name :: "string \<Rightarrow> nat \<Rightarrow> string" where
  "crude_name call_text open_p =
     (let before = dropWhile (\<lambda>c. c = CHR '' '' \<or> c = tab_char) (rev (take open_p call_text))
      in rev (takeWhile is_id_char before))"

definition pipeline_flag_visit :: "ast_tree \<Rightarrow> ts_node \<Rightarrow> diagnostic list" where
  "pipeline_flag_visit t n =
     (let call_text = text_of t n in
      if ts_kind n \<noteq> ''call_expression'' then []
      else case find_text call_text ''('' 0 of
             None \<Rightarrow> []
           | Some open_p \<Rightarrow>
               (if crude_name call_text open_p = ''TraceRay'' \<and> contains_text call_text ''RAY_FLAG_FORCE_OMM_2_STATE''
                then severe_report Error ''omm-traceray-force-omm-2state-without-pipeline-flag'' t (range_of n)
                       (''`TraceRay` with `RAY_FLAG_FORCE_OMM_2_STATE` is '' @
                        ''undefined behaviour unless the DXR pipeline subobject '' @
                        ''(application-side) sets '' @
                        ''`D3D12_RAYTRACING_PIPELINE_FLAG_ALLOW_OPACITY_MICROMAPS`. '' @
                        ''Verify the C++ pipeline-config1 flags'')
                else []))"

definition is_rt_call :: "string \<Rightarrow> ts_node \<Rightarrow> bool" where
  "is_rt_call bytes n \<longleftrightarrow>
     (let fn = child_by_field n ''function'' in
      ts_kind n = ''call_expression'' \<and>
      (node_text fn bytes \<in> set [''TraceRay'', ''TraceRayInline''] \<or>
       node_kind fn = ''field_expression'' \<and>
         node_text (child_by_field (the fn) ''field'') bytes \<in> set [''Proceed'', ''TraceRayInline'']))"

definition oriented_bbox_check :: "ast_tree \<Rightarrow> diagnostic list" where
  "oriented_bbox_check t =
     (if \<not> list_ex (is_rt_call (at_bytes t)) (preorder (at_root t)) then []
      else severe_report Note ''oriented-bbox-not-set-on-rdna4'' t \<lparr>bs_lo = 0, bs_hi = 0\<rparr>
             (''(suggestion) source uses ray-tracing on an RDNA 4 experimental target -- '' @
              ''verify the project-side BLAS build sets '' @
              ''`D3D12_RAYTRACING_GEOMETRY_FLAG_USE_ORIENTED_BOUNDING_BOX` (or the '' @
              ''equivalent VK Oriented-BBox flag) for up to 10% RT perf on RX 9070''))"

definition force_opaque_visit :: "ast_tree \<Rightarrow> ts_node \<Rightarrow> diagnostic list" where
  "force_opaque_visit t n =
     (if is_call_named t ''TraceRay'' n \<and> contains_text (text_of t n) ''RAY_FLAG_FORCE_OPAQUE''
      then node_report ''ray-flag-force-opaque-with-anyhit'' t n
             (''`TraceRay(...)` with `RAY_FLAG_FORCE_OPAQUE` in a TU that also defines '' @
              ''an `[shader(\"anyhit\")]` entry point -- the AnyHit shader is bound '' @
              ''but the flag skips AnyHit invocation, leaving the shader as dead '' @
              ''code or revealing a logic bug'') []
      else [])"

definition force_opaque_check :: "ast_tree \<Rightarrow> diagnostic list" where
  "force_opaque_check t = (if contains_text (at_bytes t) ''\"anyhit\"'' then visit_all force_opaque_visit t else [])"

definition recursion_depth_visit :: "ast_tree \<Rightarrow> ts_node \<Rightarrow> diagnostic list" where
  "recursion_depth_visit t n =
     (let fn_text = text_of t n in
      if ts_kind n = ''function_definition'' \<and> contains_text fn_text ''\"raygeneration\"'' \<and> contains_text fn_text ''TraceRay'' \<and>
         \<not> contains_text fn_text ''shader_recursion_depth'' \<and>
         \<not> contains_any (at_bytes t) [''MaxTraceRecursionDepth'', ''MaxRecursionDepth'']
      then node_report ''recursion-depth-not-declared'' t n
             (''raygeneration entry calls `TraceRay` but no `MaxRecursionDepth` / '' @
              ''`[shader_recursion_depth(N)]` marker is present; the runtime '' @
              ''defaults to depth 1 and silently truncates recursive bounces'') []
      else [])"

definition object_positions_visit :: "ast_tree \<Rightarrow> ts_node \<Rightarrow> diagnostic list" where
  "object_positions_visit t n =
     (if is_call_named t ''TriangleObjectPositions'' n
      then node_report ''triangle-object-positions-without-allow-data-access-flag'' t n
             (''(suggestion) `TriangleObjectPositions()` (SM 6.10) requires the BLAS '' @
              ''to be built with `D3D12_RAYTRACING_GEOMETRY_FLAG_USE_ORIENTED_BOUNDING_BOX` '' @
              ''(D3D12) or `VK_BUILD_ACCELERATION_STRUCTURE_ALLOW_DATA_ACCESS_BIT_KHR` '' @
              ''(Vulkan) -- without it the call is undefined behaviour. Verify your '' @
              ''BLAS-build CPU-side code sets the flag'') []
      else [])"

definition cluster_id_visit :: "ast_tree \<Rightarrow> ts_node \<Rightarrow> diagnostic list" where
  "cluster_id_visit t n =
     (if is_call_named t ''ClusterID'' n \<and> \<not> contains_text (at_bytes t) ''IsClusteredGeometrySupported''
      then node_report ''cluster-id-without-cluster-geometry-feature-check'' t n
             (''`ClusterID()` (SM 6.10) is functionally pending on devices that '' @
              ''haven'' @ [CHR 0x27] @ ''t yet shipped the clustered-geometry preview support -- '' @
              ''guard the call with `IsClusteredGeometrySupported()` (or an '' @
              ''equivalent feature check) on any path-dominating predicate'') []
      else [])"

definition cluster_id_check :: "ast_tree \<Rightarrow> diagnostic list" where
  "cluster_id_check t = (if contains_text (at_bytes t) ''ClusterID'' then visit_all cluster_id_visit t else [])"

text \<open>The name of the function around a node: a walk with a stack, so the last child is looked at first.\<close>

definition declarator_name :: "string \<Rightarrow> ts_node \<Rightarrow> string option" where
  "declarator_name bytes n =
     (if ts_kind n \<noteq> ''function_declarator'' then None
      else if node_kind (child_by_field n ''declarator'') = ''identifier''
      then Some (node_text (child_by_field n ''declarator'') bytes)
      else map_option (\<lambda>c. node_text (Some c) bytes) (find (\<lambda>c. ts_kind c = ''identifier'') (named_children n)))"

function declarator_search :: "string \<Rightarrow> ts_node \<Rightarrow> string list" where
  "declarator_search bytes n =
     (case declarator_name bytes n of
        Some name \<Rightarrow> [name]
      | None \<Rightarrow> concat (map (\<lambda>c. declarator_search bytes c) (rev (named_children n))))"
  by pat_completeness auto
termination
  by (relation "measure (\<lambda>(bytes, n). node_size n)")
    (simp_all only: in_measure prod.case named_child_smaller wf_measure set_rev)

declare declarator_search.simps [simp del]

definition enclosing_function_name :: "ast_tree \<Rightarrow> node_path \<Rightarrow> string" where
  "enclosing_function_name t call =
     (case enclosing_definition (at_root t) call of
        None \<Rightarrow> []
      | Some fn_def \<Rightarrow> (case declarator_search (at_bytes t) fn_def of [] \<Rightarrow> [] | name # _ \<Rightarrow> name))"

definition lower_ascii :: "char \<Rightarrow> char" where
  "lower_ascii c = (if CHR ''A'' \<le> c \<and> c \<le> CHR ''Z'' then char_of (of_char c + 32 :: nat) else c)"

definition name_smells_shadowy :: "string \<Rightarrow> bool" where
  "name_smells_shadowy fn_name = contains_any (map lower_ascii fn_name) [''shadow'', ''occlusion'', ''visibility'']"

definition accept_first_hit_visit :: "ast_tree \<Rightarrow> node_path \<times> ts_node \<Rightarrow> diagnostic list" where
  "accept_first_hit_visit t located =
     (let (p, n) = located; enclosing = enclosing_function_name t p in
      if is_call_named t ''TraceRay'' n \<and> enclosing \<noteq> [] \<and> name_smells_shadowy enclosing
      then (case map_option named_children (child_by_field n ''arguments'') of
              Some (_ # flag_arg # _) \<Rightarrow>
                (let flag_text = text_of t flag_arg in
                 if contains_text flag_text ''RAY_FLAG_'' \<and> \<not> contains_text flag_text ''RAY_FLAG_ACCEPT_FIRST_HIT_AND_END_SEARCH''
                 then node_report ''missing-accept-first-hit'' t n
                        (''`TraceRay` in shadow / occlusion-style function omits '' @
                         ''`RAY_FLAG_ACCEPT_FIRST_HIT_AND_END_SEARCH` -- BVH traversal '' @
                         ''continues past the first hit even though only the occlusion '' @
                         ''bit is needed; the flag short-circuits and saves a full BVH '' @
                         ''walk per ray'') []
                 else [])
            | _ \<Rightarrow> [])
      else [])"

section \<open>Mesh shaders and work graphs\<close>

text \<open>The mesh-node rules are behind a constant that is false.\<close>

definition k_experimental_mesh_nodes_enabled :: bool where
  "k_experimental_mesh_nodes_enabled = False"

definition mesh_node_check :: "(ast_tree \<Rightarrow> ts_node \<Rightarrow> diagnostic list) \<Rightarrow> ast_tree \<Rightarrow> diagnostic list" where
  "mesh_node_check visit t = (if k_experimental_mesh_nodes_enabled then visit_all visit t else [])"

definition is_mesh_node :: "ast_tree \<Rightarrow> ts_node \<Rightarrow> bool" where
  "is_mesh_node t n \<longleftrightarrow> ts_kind n = ''function_definition'' \<and> contains_text (text_of t n) ''NodeLaunch(\"mesh\")''"

definition topology_visit :: "ast_tree \<Rightarrow> ts_node \<Rightarrow> diagnostic list" where
  "topology_visit t n =
     (if is_mesh_node t n \<and> quoted_after (text_of t n) ''outputtopology('' \<notin> set [''triangle'', ''line'']
      then severe_report Error ''mesh-node-missing-output-topology'' t (range_of n)
             (''mesh nodes must declare `[outputtopology(\"triangle\")]` or '' @
              ''`[outputtopology(\"line\")]`; the rasterizer cannot wire the '' @
              ''node without it (preview Mesh Nodes spec)'')
      else [])"

definition not_leaf_visit :: "ast_tree \<Rightarrow> ts_node \<Rightarrow> diagnostic list" where
  "not_leaf_visit t n =
     (if is_mesh_node t n \<and> contains_text (signature_text (text_of t n)) ''NodeOutput<''
      then severe_report Error ''mesh-node-not-leaf'' t (range_of n)
             (''mesh nodes must be leaf nodes; this `[NodeLaunch(\"mesh\")]` '' @
              ''function declares a `NodeOutput<...>` (preview Mesh Nodes spec)'')
      else [])"

definition vertex_pipeline_visit :: "ast_tree \<Rightarrow> ts_node \<Rightarrow> diagnostic list" where
  "vertex_pipeline_visit t n =
     (if is_mesh_node t n
      then node_report ''mesh-node-uses-vertex-shader-pipeline'' t n
             (''mesh-node entry: verify the application-side pipeline '' @
              ''subobject is `D3D12_MESH_SHADER_PIPELINE_STATE_DESC` (not a '' @
              ''VS+PS graphics PSO); preview Mesh Nodes spec rejects the '' @
              ''legacy graphics path'') []
      else [])"

text \<open>A word in the source: \<open>DispatchMesh\<close> in a body.\<close>

definition body_calls_dispatch_mesh :: "string \<Rightarrow> bool" where
  "body_calls_dispatch_mesh s \<longleftrightarrow> word_occurrences s ''DispatchMesh'' 0 \<noteq> []"

definition find_braced_body :: "string \<Rightarrow> nat \<Rightarrow> (nat \<times> nat) option" where
  "find_braced_body s from_pos =
     (let lo = skip_while (\<lambda>c. c \<noteq> CHR ''{'') s from_pos; stop = balanced_end CHR ''{'' CHR ''}'' s lo 0 in
      if lo \<ge> length s \<or> stop \<ge> length s then None else Some (lo, stop + 1))"

lemma find_braced_body_after: "find_braced_body s i = Some (lo, hi) \<Longrightarrow> i < hi"
proof -
  assume body: "find_braced_body s i = Some (lo, hi)"
  have "i \<le> skip_while (\<lambda>c. c \<noteq> CHR ''{'') s i" by simp
  also have "\<dots> \<le> balanced_end CHR ''{'' CHR ''}'' s (skip_while (\<lambda>c. c \<noteq> CHR ''{'') s i) 0" by (rule balanced_end_ge)
  finally show "i < hi" using body by (auto simp: find_braced_body_def Let_def split: if_splits)
qed

function scan_textually :: "ast_tree \<Rightarrow> nat \<Rightarrow> diagnostic list" where
  "scan_textually t pos =
     (let bytes = at_bytes t in
      if pos \<ge> length bytes then []
      else case find_text bytes ''[shader('' pos of
             None \<Rightarrow> []
           | Some found \<Rightarrow>
               (case find_text bytes '')'' found of
                  None \<Rightarrow> []
                | Some close_paren \<Rightarrow>
                    (if \<not> contains_text (substr bytes found (close_paren + 1 - found)) ''\"amplification\"''
                     then scan_textually t (close_paren + 1)
                     else case find_braced_body bytes close_paren of
                            None \<Rightarrow> scan_textually t (close_paren + 1)
                          | Some (lo, hi) \<Rightarrow>
                              (if body_calls_dispatch_mesh (substr bytes lo (hi - lo)) then []
                               else severe_report Error ''dispatchmesh-not-called'' t (source_piece found hi)
                                      (''amplification-shader entry point must call `DispatchMesh(...)` exactly once '' @
                                       ''before returning -- the contract is required by the D3D12 mesh pipeline; '' @
                                       ''missing the call is UB (deadlock on RDNA, dropped meshlets on Ada, TDR on '' @
                                       ''Xe-HPG)'')) @
                              scan_textually t hi)))"
  by pat_completeness auto
termination
  by (relation "measure (\<lambda>(t, pos). length (at_bytes t) - pos)")
    (auto dest!: find_text_bounds find_braced_body_after simp: not_le intro!: diff_less_mono2)

declare scan_textually.simps [simp del]

definition parse_uint :: "string \<Rightarrow> u32 option" where
  "parse_uint s = (if s = [] then None else wrapped_digits s)"

definition grid_total :: "u32 \<Rightarrow> u32 \<Rightarrow> u32 \<Rightarrow> u64" where
  "grid_total x y z = ucast x * ucast y * ucast z"

definition number64 :: "u64 \<Rightarrow> string" where
  "number64 v = to_decimal (unat v)"

definition small_grid_visit :: "u32 \<Rightarrow> ast_tree \<Rightarrow> ts_node \<Rightarrow> diagnostic list" where
  "small_grid_visit wave_size t n =
     (case call_of (at_bytes t) n ''DispatchMesh'' of
        Some (a # b # c # _) \<Rightarrow>
          (let dim = (\<lambda>k. if ts_kind k = ''number_literal'' then parse_uint (text_of t k) else None) in
           case (dim a, dim b, dim c) of
             (Some x, Some y, Some z) \<Rightarrow>
               (let total = grid_total x y z in
                if total > 0 \<and> total < ucast wave_size
                then node_report ''dispatchmesh-grid-too-small-for-wave'' t n
                       (''`DispatchMesh('' @ number x @ '', '' @ number y @ '', '' @ number z @ '')` total '' @
                        number64 total @ '' is less than wave size '' @ number wave_size @
                        '' -- dispatching less than one wave wastes the entire dispatch '' @
                        ''(the lanes beyond the grid still consume a wave slot)'') []
                else [])
           | _ \<Rightarrow> [])
      | _ \<Rightarrow> [])"

section \<open>Group sizes\<close>

definition parse_integer :: "string \<Rightarrow> u32 option" where
  "parse_integer s = parse_uint (trim_spaces s)"

definition three_dims :: "string \<Rightarrow> (u32 \<times> u32 \<times> u32) option" where
  "three_dims inside =
     (case map parse_integer (comma_pieces inside) of
        [Some x, Some y, Some z] \<Rightarrow> Some (x, y, z)
      | _ \<Rightarrow> None)"

definition bracket_before :: "(char \<Rightarrow> bool) \<Rightarrow> string \<Rightarrow> nat \<Rightarrow> bool" where
  "bracket_before blank bytes found \<longleftrightarrow>
     (let before = dropWhile blank (rev (take found bytes)) in before \<noteq> [] \<and> hd before = CHR ''['')"

text \<open>The end of the parentheses of \<open>numthreads\<close> and the text between them.\<close>

definition close_of :: "string \<Rightarrow> nat \<Rightarrow> nat" where
  "close_of bytes found = balanced_end CHR ''('' CHR '')'' bytes (found + 10) 0"

definition inside_of :: "string \<Rightarrow> nat \<Rightarrow> string" where
  "inside_of bytes found = substr bytes (found + 11) (close_of bytes found - found - 11)"

lemma close_of_ge: "found \<le> close_of bytes found"
  using balanced_end_ge [of "found + 10" "CHR ''(''" "CHR '')''" bytes 0] by (simp add: close_of_def)

text \<open>The loop of the three size rules: the position of the attribute, that of its end, and the three sizes.\<close>

function thread_groups :: "string \<Rightarrow> nat \<Rightarrow> (nat \<times> nat \<times> u32 \<times> u32 \<times> u32) list" where
  "thread_groups bytes pos =
     (if pos \<ge> length bytes then []
      else case find_text bytes ''numthreads('' pos of
             None \<Rightarrow> []
           | Some found \<Rightarrow>
               (if \<not> bracket_before (\<lambda>c. c = CHR '' '' \<or> c = tab_char) bytes found \<or> close_of bytes found \<ge> length bytes
                then thread_groups bytes (found + 1)
                else (case three_dims (inside_of bytes found) of
                        None \<Rightarrow> []
                      | Some dims \<Rightarrow> [(found, close_of bytes found, dims)]) @
                     thread_groups bytes (close_of bytes found + 1)))"
  by pat_completeness auto
termination
proof (relation "measure (\<lambda>(bytes, pos). length bytes - pos)")
  fix bytes :: string and pos found :: nat
  assume "\<not> length bytes \<le> pos" and "find_text bytes ''numthreads('' pos = Some found"
  then have "pos \<le> found" "pos < length bytes" by (auto dest: find_text_bounds)
  then show "((bytes, found + 1), bytes, pos) \<in> measure (\<lambda>(bytes, pos). length bytes - pos)"
    "((bytes, close_of bytes found + 1), bytes, pos) \<in> measure (\<lambda>(bytes, pos). length bytes - pos)"
    using close_of_ge [of found bytes] by (auto intro!: diff_less_mono2)
qed simp

declare thread_groups.simps [simp del]

definition dims_text :: "u32 \<times> u32 \<times> u32 \<Rightarrow> string" where
  "dims_text dims = (let (x, y, z) = dims in ''[numthreads('' @ number x @ '', '' @ number y @ '', '' @ number z @ '')]'')"

definition dims_product :: "u32 \<times> u32 \<times> u32 \<Rightarrow> u32" where
  "dims_product dims = (let (x, y, z) = dims in x * y * z)"

definition too_small_check :: "ast_tree \<Rightarrow> diagnostic list" where
  "too_small_check t = concat (map (\<lambda>(found, i, dims).
     let total = dims_product dims in
     if total = 0 \<or> total \<ge> 32 then []
     else [rule_diagnostic ''numthreads-too-small'' (at_source t) (source_piece (found - 1) (i + 1))
             (''`'' @ dims_text dims @ ''` total '' @ number total @
              '' is below the minimum wave size of 32 -- '' @
              ''every wave slot launches with > 50% of lanes '' @
              ''permanently masked off and no occupancy '' @
              ''headroom for latency hiding'') []]) (thread_groups (at_bytes t) 0))"

definition wave_aligned_check :: "u32 \<Rightarrow> ast_tree \<Rightarrow> diagnostic list" where
  "wave_aligned_check wave_size t = concat (map (\<lambda>(found, i, dims).
     let total = dims_product dims in
     if total < wave_size \<or> total mod wave_size = 0 then []
     else [rule_diagnostic ''numthreads-not-wave-aligned'' (at_source t) (source_piece (found - 1) (i + 1))
             (''`'' @ dims_text dims @ ''` total '' @ number total @ '' is not a multiple of '' @ number wave_size @
              '' -- the final wave of every group launches with masked-off lanes that '' @
              ''still consume a full wave slot'') []]) (thread_groups (at_bytes t) 0))"

definition lane_cap_check :: "ast_tree \<Rightarrow> diagnostic list" where
  "lane_cap_check t = concat (map (\<lambda>(found, i, x, y, z).
     let total = grid_total x y z in
     if total \<le> 1024 then []
     else [rule_diagnostic ''numwaves-anchored-cap'' (at_source t) (source_piece (found - 1) (i + 1))
             (''(suggestion) `'' @ dims_text (x, y, z) @ ''` total '' @ number64 total @
              '' exceeds the current per-group lane '' @
              ''cap of 1024 -- HLSL specs proposal '' @
              ''0054 (`numWaves`) is under '' @
              ''consideration; revisit this dispatch '' @
              ''shape if 0054 lands'') []]) (thread_groups (at_bytes t) 0))"

text \<open>The mesh rule takes the next \<open>numthreads\<close> after every mention of a stage; here a line feed may stand before it.\<close>

definition parse_numthreads_after :: "string \<Rightarrow> nat \<Rightarrow> ((u32 \<times> u32 \<times> u32) \<times> nat \<times> nat) option" where
  "parse_numthreads_after bytes start =
     (case find_text bytes ''numthreads('' start of
        None \<Rightarrow> None
      | Some found \<Rightarrow>
          (if \<not> bracket_before (\<lambda>c. c = CHR '' '' \<or> c = tab_char \<or> c = newline) bytes found \<or> close_of bytes found \<ge> length bytes
           then None
           else map_option (\<lambda>dims. (dims, found - 1, close_of bytes found + 1)) (three_dims (inside_of bytes found))))"

text \<open>All occurrences of a word, overlapping ones included.\<close>

function text_occurrences :: "string \<Rightarrow> string \<Rightarrow> nat \<Rightarrow> nat list" where
  "text_occurrences bytes needle pos =
     (if pos \<ge> length bytes then []
      else case find_text bytes needle pos of None \<Rightarrow> [] | Some found \<Rightarrow> found # text_occurrences bytes needle (found + 1))"
  by pat_completeness auto
termination
  by (relation "measure (\<lambda>(bytes, needle, pos). length bytes - pos)") (auto dest!: find_text_bounds intro!: diff_less_mono2)

declare text_occurrences.simps [simp del]

definition mesh_numthreads_check :: "ast_tree \<Rightarrow> diagnostic list" where
  "mesh_numthreads_check t = concat (map (\<lambda>found.
     case parse_numthreads_after (at_bytes t) found of
       None \<Rightarrow> []
     | Some (dims, lo, hi) \<Rightarrow>
         (if dims_product dims \<le> 128 then []
          else severe_report Error ''mesh-numthreads-over-128'' t (source_piece lo hi)
                 (''mesh / amplification `'' @ dims_text dims @ ''` total '' @ number (dims_product dims) @
                  '' exceeds the D3D12 cap of 128 -- PSO creation will return '' @
                  ''`E_INVALIDARG`'')))
     (concat (map (\<lambda>stage_attr. text_occurrences (at_bytes t) stage_attr 0) [''\"mesh\"'', ''\"amplification\"''])))"

section \<open>Declarations in the source\<close>

definition whole_word :: "string \<Rightarrow> string \<Rightarrow> nat \<Rightarrow> bool" where
  "whole_word bytes w found \<longleftrightarrow>
     (found = 0 \<or> \<not> is_id_char (bytes ! (found - 1))) \<and>
     (found + length w \<ge> length bytes \<or> \<not> is_id_char (bytes ! (found + length w)))"

text \<open>One step of the scan of output arrays: the next position and the report.\<close>

definition output_step :: "ast_tree \<Rightarrow> string \<Rightarrow> nat \<Rightarrow> nat \<times> diagnostic list" where
  "output_step t kind found =
     (let bytes = at_bytes t; stop = found + length kind in
      if \<not> whole_word bytes kind found then (found + 1, [])
      else case find_text bytes ''['' stop of
             None \<Rightarrow> (stop, [])
           | Some lb \<Rightarrow>
               (case find_text bytes '']'' (lb + 1) of
                  None \<Rightarrow> (stop, [])
                | Some rb \<Rightarrow>
                    (if contains_text (substr bytes stop (lb - stop)) '';'' then (stop, [])
                     else case parse_integer (substr bytes (lb + 1) (rb - lb - 1)) of
                            None \<Rightarrow> (rb + 1, [])
                          | Some v \<Rightarrow>
                              (rb + 1,
                               if v \<le> 256 then []
                               else severe_report Error ''mesh-output-decl-exceeds-256'' t (source_piece found (rb + 1))
                                      (''`out '' @ drop 4 kind @ '' ...['' @ number v @
                                       '']` exceeds the D3D12 mesh-shader cap of 256 -- PSO creation will '' @
                                       ''return `E_INVALIDARG`'')))))"

lemma output_step_after: "kind \<noteq> [] \<Longrightarrow> found < fst (output_step t kind found)"
  by (auto simp: output_step_def Let_def dest!: find_text_bounds split: option.splits if_splits)

function output_scan :: "ast_tree \<Rightarrow> string \<Rightarrow> nat \<Rightarrow> diagnostic list" where
  "output_scan t kind pos =
     (if pos \<ge> length (at_bytes t) \<or> kind = [] then []
      else case find_text (at_bytes t) kind pos of
             None \<Rightarrow> []
           | Some found \<Rightarrow> snd (output_step t kind found) @ output_scan t kind (fst (output_step t kind found)))"
  by pat_completeness auto
termination
proof (relation "measure (\<lambda>(t, kind, pos). length (at_bytes t) - pos)")
  fix t :: ast_tree and kind :: string and pos found :: nat
  assume "\<not> (length (at_bytes t) \<le> pos \<or> kind = [])" and "find_text (at_bytes t) kind pos = Some found"
  then show "((t, kind, fst (output_step t kind found)), t, kind, pos) \<in> measure (\<lambda>(t, kind, pos). length (at_bytes t) - pos)"
    using output_step_after [of kind found t] by (auto dest!: find_text_bounds intro!: diff_less_mono2)
qed simp

declare output_scan.simps [simp del]

definition output_decl_check :: "ast_tree \<Rightarrow> diagnostic list" where
  "output_decl_check t = concat (map (\<lambda>kind. output_scan t kind 0) [''out vertices'', ''out indices'', ''out primitives''])"

text \<open>The walk back of at most 256 bytes that looks for the attribute.\<close>

function has_node_id :: "string \<Rightarrow> nat \<Rightarrow> nat \<Rightarrow> bool" where
  "has_node_id bytes scan_lo k =
     (if k \<le> scan_lo then False
      else if length bytes - k \<ge> 7 \<and> substr bytes k 7 = ''[NodeId'' then True
      else if bytes ! k = CHR '';'' \<or> bytes ! k = CHR ''}'' then False
      else has_node_id bytes scan_lo (k - 1))"
  by pat_completeness auto
termination
  by (relation "measure (\<lambda>(bytes, scan_lo, k). k)") auto

declare has_node_id.simps [simp del]

function node_id_scan :: "ast_tree \<Rightarrow> string \<Rightarrow> nat \<Rightarrow> diagnostic list" where
  "node_id_scan t needle pos =
     (let bytes = at_bytes t in
      if pos \<ge> length bytes \<or> needle = [] then []
      else case find_text bytes needle pos of
             None \<Rightarrow> []
           | Some found \<Rightarrow>
               (if found \<noteq> 0 \<and> is_id_char (bytes ! (found - 1)) then node_id_scan t needle (found + 1)
                else (if has_node_id bytes (if found > 256 then found - 256 else 0) found then []
                      else severe_report Note ''nodeid-implicit-mismatch'' t (source_piece found (found + length needle))
                             (''`'' @ take (length needle - 1) needle @
                              ''` declaration without an explicit `[NodeId(\"...\")]` -- the '' @
                              ''downstream node id is inferred from the struct identifier and '' @
                              ''a rename can silently break work-graph wiring'')) @
                     node_id_scan t needle (found + length needle)))"
  by pat_completeness auto
termination
proof (relation "measure (\<lambda>(t, needle, pos). length (at_bytes t) - pos)")
  fix t :: ast_tree and needle bytes :: string and pos found :: nat
  assume "bytes = at_bytes t" and "\<not> (length bytes \<le> pos \<or> needle = [])" and "find_text bytes needle pos = Some found"
  then have "pos \<le> found" "pos < length (at_bytes t)" "0 < length needle" by (auto dest: find_text_bounds)
  then show "((t, needle, found + 1), t, needle, pos) \<in> measure (\<lambda>(t, needle, pos). length (at_bytes t) - pos)"
    "((t, needle, found + length needle), t, needle, pos) \<in> measure (\<lambda>(t, needle, pos). length (at_bytes t) - pos)"
    by (auto intro!: diff_less_mono2 simp del: length_greater_0_conv)
qed simp

declare node_id_scan.simps [simp del]

definition node_id_check :: "ast_tree \<Rightarrow> diagnostic list" where
  "node_id_check t = concat (map (\<lambda>needle. node_id_scan t needle 0)
     [''NodeOutput<'', ''NodeOutputArray<'', ''EmptyNodeOutput<'', ''EmptyNodeOutputArray<''])"

section \<open>Depth and shading rate\<close>

definition find_rov :: "string \<Rightarrow> nat option" where
  "find_rov bytes = find (\<lambda>found. found = 0 \<or> \<not> is_id_char (bytes ! (found - 1))) (text_occurrences bytes ''RasterizerOrdered'' 0)"

definition rov_check :: "ast_tree \<Rightarrow> diagnostic list" where
  "rov_check t =
     (let bytes = at_bytes t in
      case find_rov bytes of
        None \<Rightarrow> []
      | Some rov_pos \<Rightarrow>
          (if contains_text bytes ''earlydepthstencil'' \<or> find_keyword bytes ''discard'' \<noteq> None \<or>
              find_keyword bytes ''clip'' \<noteq> None \<or> contains_any bytes [''SV_Depth'', ''SV_StencilRef''] then []
           else [rule_diagnostic ''rov-without-earlydepthstencil'' (at_source t) (source_piece rov_pos (rov_pos + 17))
                   (''pixel shader uses a `RasterizerOrdered*` (ROV) resource without '' @
                    ''`[earlydepthstencil]` and no `discard` / `clip` / `SV_Depth*` write -- adding '' @
                    ''`[earlydepthstencil]` lets the rasterizer skip shading on occluded pixels and '' @
                    ''halves the ROV serialisation cost on every IHV'') []]))"

definition is_pixel_source :: "string \<Rightarrow> bool" where
  "is_pixel_source bytes \<longleftrightarrow> contains_any bytes [''\"pixel\"'', ''SV_Target'']"

definition sv_depth_check :: "ast_tree \<Rightarrow> diagnostic list" where
  "sv_depth_check t =
     (if \<not> is_pixel_source (at_bytes t) then []
      else concat (map (\<lambda>found. severe_report Note ''sv-depth-vs-conservative-depth'' t (source_piece found (found + 8))
             (''`SV_Depth` disables early-Z on every IHV -- if the written value is '' @
              ''monotonically >= or <= the rasterized depth, switch to '' @
              ''`SV_DepthGreaterEqual` / `SV_DepthLessEqual` to keep early-Z''))
             (word_occurrences (at_bytes t) ''SV_Depth'' 0)))"

definition incompatible_output_check :: "ast_tree \<Rightarrow> diagnostic list" where
  "incompatible_output_check t =
     (if \<not> is_pixel_source (at_bytes t) then []
      else concat (map (\<lambda>kw. case find_keyword (at_bytes t) kw of
                              None \<Rightarrow> []
                            | Some off \<Rightarrow>
                                severe_report Note ''vrs-incompatible-output'' t (source_piece off (off + length kw))
                                  (''pixel shader uses `'' @ kw @
                                   ''` -- if this PSO has per-draw / per-primitive shading-rate enabled the GPU '' @
                                   ''silently forces fine-rate (1x1) shading and the VRS savings are lost''))
             [''SV_Depth'', ''SV_StencilRef'', ''SV_DepthGreaterEqual'', ''SV_DepthLessEqual'', ''discard'', ''clip'']))"

definition rate_conflict_check :: "ast_tree \<Rightarrow> diagnostic list" where
  "rate_conflict_check t =
     (let bytes = at_bytes t in
      if \<not> is_pixel_source bytes then []
      else case find_text bytes ''SV_ShadingRate'' 0 of
             None \<Rightarrow> []
           | Some pos \<Rightarrow>
               (if \<not> contains_any bytes [''D3D12_SHADING_RATE_COMBINER'', ''PerPrimitive'', ''perprimitive'', ''CoarseShadingRate'',
                                         ''[shading_rate]''] then []
                else [rule_diagnostic ''vrs-rate-conflict-with-target'' (at_source t) (source_piece pos (pos + 14))
                        (''PS writes `SV_ShadingRate` AND the source declares a per-primitive / '' @
                         ''coarse-rate VRS source -- D3D12/VK rate combiners take the MIN of the '' @
                         ''two and silently override the per-pixel rate when the per-primitive '' @
                         ''rate is coarser'') []]))"

definition no_vrs_source_check :: "ast_tree \<Rightarrow> diagnostic list" where
  "no_vrs_source_check t =
     (let bytes = at_bytes t in
      if \<not> is_pixel_source bytes then []
      else case find_text bytes ''SV_ShadingRate'' 0 of
             None \<Rightarrow> []
           | Some pos \<Rightarrow>
               (if contains_any bytes [''[earlydepthstencil]'', ''PerPrimitive'', ''perprimitive'', ''CoarseShadingRate'',
                                       ''ScreenSpaceShadingRate'', ''VK_FRAGMENT_SHADING_RATE''] then []
                else [rule_diagnostic ''vrs-without-perprimitive-or-screenspace-source'' (at_source t) (source_piece pos (pos + 14))
                        (''PS emits `SV_ShadingRate` but no upstream per-primitive or '' @
                         ''screen-space VRS source is visible -- without an upstream source '' @
                         ''(`[earlydepthstencil]`, per-primitive coarse-rate, or screen-space '' @
                         ''VRS image) the PS-emitted rate is ignored on most IHVs'') []]))"

text \<open>The lower-case words before the first \<open>ref\<close>.\<close>

definition reference_type_check :: "ast_tree \<Rightarrow> diagnostic list" where
  "reference_type_check t =
     (let bytes = at_bytes t in
      case find_text bytes '' ref '' 0 of
        None \<Rightarrow> []
      | Some pos \<Rightarrow>
          (let prefix = rev (takeWhile (\<lambda>c. c = CHR '' '' \<or> c = tab_char \<or> CHR ''a'' \<le> c \<and> c \<le> CHR ''z'') (rev (take pos bytes))) in
           if \<not> contains_any prefix [''inout'', ''out'', ''in''] then []
           else [rule_diagnostic ''reference-data-type-not-supported-pre-sm610'' (at_source t) (source_piece pos (pos + 5))
                   (''(suggestion) `<qual> ref <type>` parameter syntax matches HLSL specs '' @
                    ''proposal 0006 (reference data types) which is still under-review; '' @
                    ''reference types are not shipped retail on SM <= 6.9, and the '' @
                    ''syntax may move before SM 6.10 retail'') []]))"

section \<open>The rules\<close>

definition coopvec_base_offset_misaligned where
  "coopvec_base_offset_misaligned = tree_rule ''coopvec-base-offset-misaligned'' (visit_all base_offset_visit)"
definition coopvec_fp4_fp6_blackwell_layout where
  "coopvec_fp4_fp6_blackwell_layout =
     (tree_rule ''coopvec-fp4-fp6-blackwell-layout'' (visit_all blackwell_visit))\<lparr>rl_target := Blackwell\<rparr>"
definition coopvec_fp8_with_non_optimal_layout where
  "coopvec_fp8_with_non_optimal_layout = tree_rule ''coopvec-fp8-with-non-optimal-layout'' (visit_all fp8_visit)"
definition coopvec_non_optimal_matrix_layout where
  "coopvec_non_optimal_matrix_layout = tree_rule ''coopvec-non-optimal-matrix-layout'' (visit_all non_optimal_visit)"
definition coopvec_stride_mismatch where
  "coopvec_stride_mismatch = tree_rule ''coopvec-stride-mismatch'' (visit_all coopvec_stride_visit)"
definition coopvec_transpose_without_feature_check where
  "coopvec_transpose_without_feature_check =
     tree_rule ''coopvec-transpose-without-feature-check'' (visit_all coopvec_transpose_visit)"
definition fromrayquery_invoke_without_shader_table where
  "fromrayquery_invoke_without_shader_table = tree_rule ''fromrayquery-invoke-without-shader-table'' (visit_all table_missing_visit)"
definition hitobject_construct_outside_allowed_stages where
  "hitobject_construct_outside_allowed_stages = tree_rule ''hitobject-construct-outside-allowed-stages'' (visit_all construct_visit)"
definition hitobject_invoke_after_recursion_cap where
  "hitobject_invoke_after_recursion_cap = tree_rule ''hitobject-invoke-after-recursion-cap'' (visit_all recursion_cap_visit)"
definition hitobject_passed_to_non_inlined_fn where
  "hitobject_passed_to_non_inlined_fn = tree_rule ''hitobject-passed-to-non-inlined-fn'' (visit_all non_inlined_visit)"
definition hitobject_stored_in_memory where
  "hitobject_stored_in_memory = tree_rule ''hitobject-stored-in-memory'' (\<lambda>t. memory_walk t False (at_root t))"
definition maybereorderthread_outside_raygen where
  "maybereorderthread_outside_raygen = tree_rule ''maybereorderthread-outside-raygen'' (visit_all outside_raygen_visit)"
definition ser_trace_then_invoke_without_reorder where
  "ser_trace_then_invoke_without_reorder = tree_rule ''ser-trace-then-invoke-without-reorder'' (visit_all without_reorder_visit)"
definition omm_allocaterayquery2_non_const_flags where
  "omm_allocaterayquery2_non_const_flags = tree_rule ''omm-allocaterayquery2-non-const-flags'' (visit_all allocate_visit)"
definition omm_rayquery_force_2state_without_allow_flag where
  "omm_rayquery_force_2state_without_allow_flag =
     tree_rule ''omm-rayquery-force-2state-without-allow-flag'' (visit_all force_2state_visit)"
definition omm_traceray_force_omm_2state_without_pipeline_flag where
  "omm_traceray_force_omm_2state_without_pipeline_flag =
     tree_rule ''omm-traceray-force-omm-2state-without-pipeline-flag'' (visit_all pipeline_flag_visit)"
definition oriented_bbox_not_set_on_rdna4 where
  "oriented_bbox_not_set_on_rdna4 = (tree_rule ''oriented-bbox-not-set-on-rdna4'' oriented_bbox_check)\<lparr>rl_target := Rdna4\<rparr>"
definition ray_flag_force_opaque_with_anyhit where
  "ray_flag_force_opaque_with_anyhit = tree_rule ''ray-flag-force-opaque-with-anyhit'' force_opaque_check"
definition recursion_depth_not_declared where
  "recursion_depth_not_declared = tree_rule ''recursion-depth-not-declared'' (visit_all recursion_depth_visit)"
definition triangle_object_positions_without_allow_data_access_flag where
  "triangle_object_positions_without_allow_data_access_flag =
     tree_rule ''triangle-object-positions-without-allow-data-access-flag'' (visit_all object_positions_visit)"
definition cluster_id_without_cluster_geometry_feature_check where
  "cluster_id_without_cluster_geometry_feature_check =
     tree_rule ''cluster-id-without-cluster-geometry-feature-check'' cluster_id_check"
definition missing_accept_first_hit where
  "missing_accept_first_hit =
     tree_rule ''missing-accept-first-hit'' (\<lambda>t. concat (map (accept_first_hit_visit t) (located_nodes [] (at_root t))))"
definition mesh_node_missing_output_topology where
  "mesh_node_missing_output_topology = tree_rule ''mesh-node-missing-output-topology'' (mesh_node_check topology_visit)"
definition mesh_node_not_leaf where "mesh_node_not_leaf = tree_rule ''mesh-node-not-leaf'' (mesh_node_check not_leaf_visit)"
definition mesh_node_uses_vertex_shader_pipeline where
  "mesh_node_uses_vertex_shader_pipeline =
     tree_rule ''mesh-node-uses-vertex-shader-pipeline'' (mesh_node_check vertex_pipeline_visit)"
definition dispatchmesh_not_called where
  "dispatchmesh_not_called = tree_rule ''dispatchmesh-not-called'' (\<lambda>t. scan_textually t 0)"
definition dispatchmesh_grid_too_small_for_wave where
  "dispatchmesh_grid_too_small_for_wave = tree_rule ''dispatchmesh-grid-too-small-for-wave'' (visit_all (small_grid_visit 32))"
definition numthreads_too_small where "numthreads_too_small = tree_rule ''numthreads-too-small'' too_small_check"
definition numthreads_not_wave_aligned where
  "numthreads_not_wave_aligned = tree_rule ''numthreads-not-wave-aligned'' (wave_aligned_check 32)"
definition numwaves_anchored_cap where "numwaves_anchored_cap = tree_rule ''numwaves-anchored-cap'' lane_cap_check"
definition mesh_numthreads_over_128 where "mesh_numthreads_over_128 = tree_rule ''mesh-numthreads-over-128'' mesh_numthreads_check"
definition mesh_output_decl_exceeds_256 where
  "mesh_output_decl_exceeds_256 = tree_rule ''mesh-output-decl-exceeds-256'' output_decl_check"
definition nodeid_implicit_mismatch where "nodeid_implicit_mismatch = tree_rule ''nodeid-implicit-mismatch'' node_id_check"
definition rov_without_earlydepthstencil where
  "rov_without_earlydepthstencil = tree_rule ''rov-without-earlydepthstencil'' rov_check"
definition sv_depth_vs_conservative_depth where
  "sv_depth_vs_conservative_depth = tree_rule ''sv-depth-vs-conservative-depth'' sv_depth_check"
definition vrs_incompatible_output where "vrs_incompatible_output = tree_rule ''vrs-incompatible-output'' incompatible_output_check"
definition vrs_rate_conflict_with_target where
  "vrs_rate_conflict_with_target = tree_rule ''vrs-rate-conflict-with-target'' rate_conflict_check"
definition vrs_without_perprimitive_or_screenspace_source where
  "vrs_without_perprimitive_or_screenspace_source =
     tree_rule ''vrs-without-perprimitive-or-screenspace-source'' no_vrs_source_check"
definition reference_data_type_not_supported_pre_sm610 where
  "reference_data_type_not_supported_pre_sm610 =
     tree_rule ''reference-data-type-not-supported-pre-sm610'' reference_type_check"

section \<open>Examples\<close>

text \<open>The product of three sizes is taken in 32 bits: a group of about four thousand million threads is reported as one
  thread, and another is not above the cap of the mesh rule.\<close>

theorem group_product_wraps:
  "thread_groups ''[numthreads(641, 6700417, 1)]'' 0 = [(1, 27, 641, 6700417, 1)] \<and>
     dims_product (641, 6700417, 1) = 1 \<and> 641 * 6700417 > (2 ^ 32 :: nat)"
  "parse_numthreads_after ''\"mesh\" [numthreads(65536, 65536, 1)]'' 0 = Some ((65536, 65536, 1), 7, 35) \<and>
     dims_product (65536, 65536, 1) = 0 \<and> unat (grid_total 65536 65536 1) = 2 ^ 32"
proof -
  have "thread_groups ''[numthreads(641, 6700417, 1)]'' 0 = [(1, 27, 641, 6700417, 1)]" by code_simp
  then show "thread_groups ''[numthreads(641, 6700417, 1)]'' 0 = [(1, 27, 641, 6700417, 1)] \<and>
     dims_product (641, 6700417, 1) = 1 \<and> 641 * 6700417 > (2 ^ 32 :: nat)"
    by (simp add: dims_product_def)
  have "parse_numthreads_after ''\"mesh\" [numthreads(65536, 65536, 1)]'' 0 = Some ((65536, 65536, 1), 7, 35)" by code_simp
  then show "parse_numthreads_after ''\"mesh\" [numthreads(65536, 65536, 1)]'' 0 = Some ((65536, 65536, 1), 7, 35) \<and>
     dims_product (65536, 65536, 1) = 0 \<and> unat (grid_total 65536 65536 1) = 2 ^ 32"
    by (simp add: dims_product_def grid_total_def)
qed

text \<open>A type that contains the letters of a qualifier counts as one.\<close>

theorem int_counts_as_in:
  "length (reference_type_check (text_tree ''void f(int ref x)'')) = 1"
  by code_simp

text \<open>The rules on mesh nodes never report.\<close>

lemma mesh_nodes_silent: "mesh_node_check visit t = []"
  by (simp add: mesh_node_check_def k_experimental_mesh_nodes_enabled_def)

lemma body_examples:
  "scan_textually (text_tree ''[shader(\"amplification\")] void f() { if (x) { DispatchMesh(1, 1, 1); } }'') 0 = []"
  "map dg_primary_span (scan_textually (text_tree ''[shader(\"amplification\")] void f() { { } } x'') 0) =
     [\<lparr>sp_source = \<lparr>sid_value = 1\<rparr>, sp_bytes = \<lparr>bs_lo = 0, bs_hi = 42\<rparr>\<rparr>]"
  by code_simp+

end
