(* ===== verification/Idioms.thy ===== *)
theory Idioms
  imports Stages
begin

text \<open>
  Twenty-three rules of \<^verbatim>\<open>core/src/rules\<close> that recognise a hand-written form of an intrinsic: conversions, cubic
  interpolation, bit counts, norms and their comparisons, dot products, gathers and depth comparisons. Most walk the
  tree; the last group scans the text for method names. The main theorem is about the rules that do not look below a
  report: their fixes never clash. The examples at the end show what the text patterns accept.
\<close>

section \<open>Scanning the text\<close>

text \<open>A loop over the occurrences of a word. The step gives the next position, always past the occurrence, and what it
  found; the loop stops should it not advance.\<close>

function scan_text :: "(nat \<Rightarrow> nat \<times> 'a list) \<Rightarrow> string \<Rightarrow> string \<Rightarrow> nat \<Rightarrow> 'a list" where
  "scan_text step needle bytes pos =
     (if pos \<ge> length bytes then []
      else case find_text bytes needle pos of
             None \<Rightarrow> []
           | Some found \<Rightarrow>
               snd (step found) @ (if found < fst (step found) then scan_text step needle bytes (fst (step found)) else []))"
  by pat_completeness auto
termination
  by (relation "measure (\<lambda>(step, needle, bytes, pos). length bytes - pos)")
    (auto dest!: find_text_bounds intro!: diff_less_mono2)

declare scan_text.simps [simp del]

definition advances :: "(nat \<Rightarrow> nat \<times> 'a list) \<Rightarrow> bool" where
  "advances step \<longleftrightarrow> (\<forall>found. found < fst (step found))"

lemma scan_text_loop:
  assumes "advances step"
  shows "scan_text step needle bytes pos =
     (if pos \<ge> length bytes then []
      else case find_text bytes needle pos of
             None \<Rightarrow> []
           | Some found \<Rightarrow> snd (step found) @ scan_text step needle bytes (fst (step found)))"
  using assms by (subst scan_text.simps) (auto simp: advances_def split: option.splits)

text \<open>The end of the parentheses that open at a position.\<close>

abbreviation close_paren :: "string \<Rightarrow> nat \<Rightarrow> nat" where
  "close_paren bytes i \<equiv> balanced_end CHR ''('' CHR '')'' bytes i 0"

lemma close_paren_ge: "found \<le> i \<Longrightarrow> found \<le> close_paren bytes i"
  using balanced_end_ge [of i "CHR ''(''" "CHR '')''" bytes 0] by simp

lemma close_paren_after: "i < close_paren bytes i" if "i < length bytes" "bytes ! i = CHR ''(''"
  using that balanced_end_ge [of "i + 1" "CHR ''(''" "CHR '')''" bytes 1]
  by (subst balanced_end.simps) simp

section \<open>Conversions\<close>

definition looks_like_manual_f32tof16 :: "string \<Rightarrow> bool" where
  "looks_like_manual_f32tof16 s \<longleftrightarrow>
     contains_text s ''asuint'' \<and> contains_text s ''>> 13'' \<and> contains_any s [''0x7FFF'', ''0x7fff'']"

definition f32tof16_visit :: "ast_tree \<Rightarrow> ts_node \<Rightarrow> diagnostic list" where
  "f32tof16_visit t n =
     (if ts_kind n \<in> set [''binary_expression'', ''assignment_expression'', ''init_declarator'', ''return_statement''] \<and>
         looks_like_manual_f32tof16 (text_of t n)
      then node_report ''manual-f32tof16'' t n
             (''expression matches the canonical `(asuint(x) >> 13) & 0x7FFF | ...` '' @
              ''lowering of a software fp32 -> fp16 conversion -- replace with the '' @
              ''`f32tof16(x)` intrinsic, which compiles to a single `cvt` instruction'') []
      else [])"

text \<open>The comma after the first argument of a call whose parenthesis is open.\<close>

fun argument_comma :: "string \<Rightarrow> nat \<Rightarrow> nat \<Rightarrow> nat option" where
  "argument_comma [] j depth = None"
| "argument_comma (c # s) j depth =
     (if c = CHR ''('' then argument_comma s (j + 1) (depth + 1)
      else if c = CHR '')'' then (if depth = 1 then None else argument_comma s (j + 1) (depth - 1))
      else if c = CHR '','' \<and> depth = 1 then Some j
      else argument_comma s (j + 1) depth)"

definition second_argument :: "string \<Rightarrow> nat \<Rightarrow> string" where
  "second_argument s comma =
     (let arg_start = skip_while (\<lambda>c. c = CHR '' '' \<or> c = tab_char) s (comma + 1);
          arg_end = balanced_end CHR ''('' CHR '')'' s arg_start 1
      in rev (dropWhile (\<lambda>c. c = CHR '' '' \<or> c = tab_char) (rev (substr s arg_start (arg_end - arg_start)))))"

definition pow_site :: "string \<Rightarrow> nat \<Rightarrow> nat \<times> byte_span list" where
  "pow_site s found =
     (let i = found + 3 in
      if found \<noteq> 0 \<and> is_id_char (s ! (found - 1)) then (found + 1, [])
      else if i \<ge> length s \<or> s ! i \<noteq> CHR ''('' then (found + 1, [])
      else case argument_comma (drop (i + 1) s) (i + 1) 1 of
             None \<Rightarrow> (found + 1, [])
           | Some comma \<Rightarrow>
               (i, if second_argument s comma \<in> set [''2.2'', ''2.2f'', ''2.2F''] then [source_piece found i] else []))"

definition find_pow_2_2_sites :: "string \<Rightarrow> byte_span list" where
  "find_pow_2_2_sites s = scan_text (pow_site s) ''pow'' s 0"

definition srgb_check :: "ast_tree \<Rightarrow> reflection_info \<Rightarrow> diagnostic list" where
  "srgb_check t reflection =
     (if list_ex (\<lambda>b. is_texture (rb_kind b) \<and> contains_text (rb_dxgi_format b) ''SRGB'') (ri_bindings reflection)
      then map (\<lambda>site. rule_diagnostic ''manual-srgb-conversion'' (at_source t) site
                  (''manual `pow(x, 2.2)` applied to a sample from an SRGB-flagged '' @
                   ''texture double-applies the gamma curve -- the hardware sRGB '' @
                   ''sampler already linearised the channel; drop the manual '' @
                   ''conversion'')
                  [suggestion (''drop the manual sRGB / gamma curve: replace `pow(x, 2.2)` '' @
                               ''with `x`. The hardware SRGB sample already linearises the '' @
                               ''channel.'')]) (find_pow_2_2_sites (at_bytes t))
      else [])"

definition k_pairs :: "(string \<times> string) list" where
  "k_pairs =
     [(''pack8888'', ''unpack8888''), (''unpack8888'', ''pack8888''), (''pack_u8'', ''unpack_u8u32''),
      (''pack_s8'', ''unpack_s8s32''), (''pack_clamp_u8'', ''unpack_u8u32''), (''pack_clamp_s8'', ''unpack_s8s32''),
      (''f32tof16'', ''f16tof32''), (''f16tof32'', ''f32tof16'')]"

definition callee_name :: "ts_node \<Rightarrow> string \<Rightarrow> string" where
  "callee_name call bytes = node_text (child_by_field call ''function'') bytes"

definition first_arg :: "ts_node \<Rightarrow> ts_node option" where
  "first_arg call =
     (case map_option named_children (child_by_field call ''arguments'') of Some (a # _) \<Rightarrow> Some a | _ \<Rightarrow> None)"

definition repack_visit :: "ast_tree \<Rightarrow> ts_node \<Rightarrow> diagnostic list" where
  "repack_visit t n =
     (if ts_kind n \<noteq> ''call_expression'' then []
      else case map_option unwrap_single (first_arg n) of
             None \<Rightarrow> []
           | Some inner \<Rightarrow>
               (let outer_name = callee_name n (at_bytes t); inner_name = callee_name inner (at_bytes t) in
                if ts_kind inner = ''call_expression'' \<and> (outer_name, inner_name) \<in> set k_pairs
                then node_report ''unpack-then-repack'' t n
                       (''`'' @ outer_name @ ''('' @ inner_name @
                        ''(...))` is a round-trip with no intervening ALU -- the pair '' @
                        ''is a no-op on the same lanes; remove both calls or carry the '' @
                        ''value in its native form'') []
                else []))"

definition pack_clamp_step :: "ast_tree \<Rightarrow> string \<Rightarrow> nat \<Rightarrow> nat \<times> diagnostic list" where
  "pack_clamp_step t fn found =
     (let bytes = at_bytes t; stop = found + length fn; i = close_paren bytes stop in
      if found \<noteq> 0 \<and> is_id_char (bytes ! (found - 1)) \<or> \<not> (stop < length bytes \<and> bytes ! stop = CHR ''('') then (found + 1, [])
      else if i \<ge> length bytes then (stop, [])
      else (i + 1,
            if \<not> contains_text (substr bytes (stop + 1) (i - stop - 1)) ''saturate('' then []
            else severe_report Note ''pack-clamp-on-prove-bounded'' t (source_piece found (i + 1))
                   (''`'' @ fn @ ''` operand is already saturated -- replace with `'' @
                    take 5 fn @ drop 11 fn @ ''` (truncating pack) to drop the redundant clamp'')))"

definition pack_clamp_check :: "ast_tree \<Rightarrow> diagnostic list" where
  "pack_clamp_check t = concat (map (\<lambda>fn. scan_text (pack_clamp_step t fn) fn (at_bytes t) 0)
     [''pack_clamp_u8'', ''pack_clamp_s8'', ''pack_clamp_u16'', ''pack_clamp_s16''])"

text \<open>A literal one divided by a literal 255, in any parentheses.\<close>

definition is_one_over_255 :: "ts_node \<Rightarrow> string \<Rightarrow> bool" where
  "is_one_over_255 n bytes \<longleftrightarrow>
     (let m = unwrap_paren n; l = child_by_field m ''left''; r = child_by_field m ''right'' in
      ts_kind m = ''binary_expression'' \<and> binary_op bytes m = ''/'' \<and>
      node_kind l = ''number_literal'' \<and> node_kind r = ''number_literal'' \<and>
      is_numeric_literal_one (node_text l bytes) \<and> is_numeric_literal_255 (node_text r bytes))"

definition unorm_fires :: "string \<Rightarrow> ts_node \<Rightarrow> bool" where
  "unorm_fires bytes n \<longleftrightarrow>
     (let op = binary_op bytes n; r = child_by_field n ''right'' in
      ts_kind n = ''binary_expression'' \<and>
      (op = ''/'' \<and> node_kind r = ''number_literal'' \<and> is_numeric_literal_255 (node_text r bytes) \<or>
       op = ''*'' \<and> (case r of None \<Rightarrow> False | Some m \<Rightarrow> is_one_over_255 m bytes)))"

definition unorm_visit :: "ast_tree \<Rightarrow> ts_node \<Rightarrow> diagnostic list" where
  "unorm_visit t n =
     (if \<not> unorm_fires (at_bytes t) n then []
      else let left_text = node_text (child_by_field n ''left'') (at_bytes t) in
           node_report ''redundant-unorm-snorm-conversion'' t n
             (''explicit `/ 255.0` (or `* (1.0/255.0)`) on a sampled value is '' @
              ''almost always a leftover UNORM conversion -- UNORM textures '' @
              ''already return values in [0, 1] from `Sample` / `Load`'')
             [\<lparr>fx_description = ''if the source is a UNORM texture, drop the divide '' @
                                ''(replace the expression with `'' @ left_text @
                                ''`); confirm the source format before '' @
                                ''applying'',
               fx_machine_applicable = False,
               fx_edits = (if left_text = [] then []
                           else [\<lparr>te_span = \<lparr>sp_source = at_source t, sp_bytes = range_of n\<rparr>, te_replacement = left_text\<rparr>])\<rparr>])"

section \<open>Cubic interpolation\<close>

definition strip_ws :: "string \<Rightarrow> string" where
  "strip_ws s = filter (\<lambda>c. \<not> is_blank_char c) s"

record smoothstep_params =
  ss_n_var :: string
  ss_a :: string
  ss_b :: string
  ss_t :: string

text \<open>The operands of a difference, in parentheses or not.\<close>

definition difference_operands :: "string \<Rightarrow> ts_node option \<Rightarrow> (string \<times> string) option" where
  "difference_operands bytes n =
     (let inner = (if node_kind n = ''parenthesized_expression''
                   then (case map_option named_children n of Some (c # _) \<Rightarrow> Some c | _ \<Rightarrow> None) else n)
      in case inner of
           None \<Rightarrow> None
         | Some m \<Rightarrow>
             (let l = node_text (child_by_field m ''left'') bytes; r = node_text (child_by_field m ''right'') bytes in
              if ts_kind m \<noteq> ''binary_expression'' \<or> binary_operator bytes m \<noteq> ''-'' \<or> l = [] \<or> r = [] then None
              else Some (l, r)))"

definition saturate_argument :: "string \<Rightarrow> ts_node option \<Rightarrow> ts_node option" where
  "saturate_argument bytes n =
     (case n of
        None \<Rightarrow> None
      | Some call \<Rightarrow> (case call_of bytes call ''saturate'' of Some [arg] \<Rightarrow> Some arg | _ \<Rightarrow> None))"

definition try_match_saturate_decl :: "ts_node \<Rightarrow> string \<Rightarrow> smoothstep_params option" where
  "try_match_saturate_decl stmt bytes =
     (if ts_kind stmt \<noteq> ''declaration'' then None
      else case find (\<lambda>c. ts_kind c = ''init_declarator'') (named_children stmt) of
             None \<Rightarrow> None
           | Some init_decl \<Rightarrow>
               (let decl_name = child_by_field init_decl ''declarator'' in
                if node_kind decl_name \<noteq> ''identifier'' then None
                else case saturate_argument bytes (child_by_field init_decl ''value'') of
                       None \<Rightarrow> None
                     | Some sat_arg \<Rightarrow>
                         (if ts_kind sat_arg \<noteq> ''binary_expression'' \<or> binary_operator bytes sat_arg \<noteq> ''/'' then None
                          else case (difference_operands bytes (child_by_field sat_arg ''left''),
                                     difference_operands bytes (child_by_field sat_arg ''right'')) of
                                 (Some (t_text, a_text), Some (b_text, a2_text)) \<Rightarrow>
                                   (if a_text \<noteq> a2_text then None
                                    else Some \<lparr>ss_n_var = node_text decl_name bytes, ss_a = a_text, ss_b = b_text, ss_t = t_text\<rparr>)
                               | _ \<Rightarrow> None)))"

definition matches_hermite_form :: "string \<Rightarrow> string \<Rightarrow> bool" where
  "matches_hermite_form stripped n_var \<longleftrightarrow>
     (let nn = n_var @ ''*'' @ n_var @ ''*'' in
      case find_text stripped nn 0 of
        None \<Rightarrow> False
      | Some nn_pos \<Rightarrow>
          (let after_nn = nn_pos + length nn; after_paren = after_nn + 1 in
           after_nn < length stripped \<and> stripped ! after_nn = CHR ''('' \<and>
           after_paren < length stripped \<and> stripped ! after_paren = CHR ''3'' \<and>
           (find_text stripped (''2*'' @ n_var) after_paren \<noteq> None \<or>
            find_text stripped (''2.0*'' @ n_var) after_paren \<noteq> None)))"

definition get_statements :: "ts_node \<Rightarrow> ts_node list" where
  "get_statements compound = filter (\<lambda>c. ts_kind c \<noteq> ''comment'') (named_children compound)"

definition smoothstep_report :: "ast_tree \<Rightarrow> smoothstep_params \<Rightarrow> ts_node \<Rightarrow> ts_node \<Rightarrow> diagnostic" where
  "smoothstep_report t p s1 s2 =
     (let n = ss_n_var p; a = ss_a p; b = ss_b p; x = ss_t p; call = ''smoothstep('' @ a @ '', '' @ b @ '', '' @ x @ '')`'' in
      rule_diagnostic ''manual-smoothstep'' (at_source t) \<lparr>bs_lo = ts_start s1, bs_hi = ts_end s2\<rparr>
        (''hand-rolled cubic Hermite interpolation '' @ em_dash @ '' `'' @ n @ '' = saturate(('' @ x @ '' - '' @ a @
         '') / ('' @ b @ '' - '' @ a @ '')); '' @ n @ '' * '' @ n @ '' * (3 - 2 * '' @ n @ '')` is `'' @ call)
        [suggestion (''replace both statements with `'' @ call @ '' '' @ em_dash @ '' check that `'' @ n @
                     ''` is not used elsewhere in the function before applying'')])"

text \<open>A pair that matches is not the start of another.\<close>

fun smoothstep_pairs :: "ast_tree \<Rightarrow> ts_node list \<Rightarrow> diagnostic list" where
  "smoothstep_pairs t (s1 # s2 # rest) =
     (case try_match_saturate_decl s1 (at_bytes t) of
        None \<Rightarrow> smoothstep_pairs t (s2 # rest)
      | Some p \<Rightarrow>
          (if matches_hermite_form (strip_ws (text_of t s2)) (ss_n_var p)
           then smoothstep_report t p s1 s2 # smoothstep_pairs t rest
           else smoothstep_pairs t (s2 # rest)))"
| "smoothstep_pairs t stmts = []"

definition smoothstep_visit :: "ast_tree \<Rightarrow> ts_node \<Rightarrow> diagnostic list" where
  "smoothstep_visit t n = (if ts_kind n = ''compound_statement'' then smoothstep_pairs t (get_statements n) else [])"

section \<open>Sine and cosine\<close>

definition is_pure_arg :: "ts_node \<Rightarrow> bool" where
  "is_pure_arg n \<longleftrightarrow> list_all (\<lambda>m. ts_kind m \<noteq> ''call_expression'') (preorder n)"

text \<open>The nodes of a statement outside inner blocks, in the order in which the stack gives them: the last child first.\<close>

function stack_nodes :: "ts_node \<Rightarrow> ts_node list" where
  "stack_nodes n =
     (if ts_kind n = ''compound_statement'' then []
      else n # concat (map stack_nodes (rev (child_nodes n))))"
  by pat_completeness auto
termination
  by (relation "measure node_size") (simp_all only: in_measure set_rev child_smaller wf_measure)

declare stack_nodes.simps [simp del]

text \<open>The calls of one function within a block, with the text of the argument.\<close>

definition collect_calls :: "string \<Rightarrow> string \<Rightarrow> ts_node \<Rightarrow> (string \<times> ts_node) list" where
  "collect_calls bytes fn_name compound =
     List.map_filter (\<lambda>cur. case call_of bytes cur fn_name of
                              Some [arg] \<Rightarrow> if is_pure_arg arg then Some (node_text (Some arg) bytes, cur) else None
                            | _ \<Rightarrow> None)
       (concat (map stack_nodes (named_children compound)))"

text \<open>The order of \<open>std::map\<close> over strings.\<close>

fun bytes_less :: "string \<Rightarrow> string \<Rightarrow> bool" where
  "bytes_less s [] = False"
| "bytes_less [] (d # t) = True"
| "bytes_less (c # s) (d # t) = (c < d \<or> c = d \<and> bytes_less s t)"

definition sin_cos_visit :: "ast_tree \<Rightarrow> ts_node \<Rightarrow> diagnostic list" where
  "sin_cos_visit t n =
     (if ts_kind n \<noteq> ''compound_statement'' then []
      else let sins = collect_calls (at_bytes t) ''sin'' n; coss = collect_calls (at_bytes t) ''cos'' n;
               keys = sort_by bytes_less (remdups (map fst sins @ map fst coss))
           in concat (map (\<lambda>arg_text.
                case (map_of sins arg_text, map_of coss arg_text) of
                  (Some sin_call, Some cos_call) \<Rightarrow>
                    node_report ''sin-cos-pair'' t sin_call
                      (''`sin('' @ arg_text @ '')` and `cos('' @ arg_text @ '')` are both present '' @ em_dash @
                       '' use `sincos('' @ arg_text @ '', s, c)` to compute both for the cost of one transcendental instruction'')
                      [suggestion (''introduce `float s, c; sincos('' @ arg_text @
                                   '', s, c);` and replace the individual sin/cos calls with `s` and `c`; '' @
                                   ''choose variable names that do not conflict with existing declarations'')]
                | _ \<Rightarrow> []) keys))"

section \<open>Selections and norms\<close>

definition is_float_family_type :: "string \<Rightarrow> bool" where
  "is_float_family_type name \<longleftrightarrow>
     name \<in> set [''float'', ''float2'', ''float3'', ''float4'', ''half'', ''half2'', ''half3'', ''half4'', ''min16float'']"

text \<open>The condition in the third argument, and whether the arms are swapped.\<close>

definition match_t_arg :: "ts_node \<Rightarrow> string \<Rightarrow> (string \<times> bool) option" where
  "match_t_arg n bytes =
     (let given = (\<lambda>cond swap. if node_text cond bytes = [] then None else Some (node_text cond bytes, swap)) in
      if ts_kind n = ''cast_expression''
      then (let val = child_by_field n ''value'' in
            if \<not> is_float_family_type (node_text (child_by_field n ''type'') bytes) \<or>
               node_kind val \<notin> set [''identifier'', ''field_expression''] then None
            else given val False)
      else if ts_kind n = ''conditional_expression''
      then (case (child_by_field n ''condition'', child_by_field n ''consequence'', child_by_field n ''alternative'') of
              (Some cond, Some then_n, Some else_n) \<Rightarrow>
                (let then_text = node_text (Some then_n) bytes; else_text = node_text (Some else_n) bytes in
                 if ts_kind then_n \<noteq> ''number_literal'' \<or> ts_kind else_n \<noteq> ''number_literal'' then None
                 else if is_numeric_literal_one then_text \<and> is_numeric_literal_zero else_text then given (Some cond) False
                 else if is_numeric_literal_zero then_text \<and> is_numeric_literal_one else_text then given (Some cond) True
                 else None)
            | _ \<Rightarrow> None)
      else None)"

definition bool_lerp_visit :: "ast_tree \<Rightarrow> ts_node \<Rightarrow> diagnostic list" where
  "bool_lerp_visit t n =
     (case call_of (at_bytes t) n ''lerp'' of
        Some [a, b, arg] \<Rightarrow>
          (case match_t_arg arg (at_bytes t) of
             None \<Rightarrow> []
           | Some (cond_text, swap) \<Rightarrow>
               (if text_of t a = [] \<or> text_of t b = [] then []
                else let consequence = text_of t (if swap then a else b);
                         alternative = text_of t (if swap then b else a);
                         choice = cond_text @ '' ? '' @ consequence @ '' : '' @ alternative;
                         both_pure = (classify_expression (at_bytes t) (Some a) = SideEffectFree \<and>
                                      classify_expression (at_bytes t) (Some b) = SideEffectFree)
                     in node_report ''lerp-on-bool-cond'' t n
                          (''`lerp(a, b, <bool>)` produces a portable-codegen mismatch '' @
                           ''(some IHVs fold to select; others emit a real lerp) -- '' @
                           ''use `cond ? b : a` (or `select(cond, b, a)`) for a '' @
                           ''stable lowering'')
                          [replace_node both_pure
                             (''replace with `'' @ choice @ ''` for portable codegen across IHVs'' @
                              (if both_pure then []
                               else '' (suggestion-only: at least one of `a` / `b` '' @
                                    ''is not side-effect-free, applying the '' @
                                    ''rewrite would change the evaluation count)''))
                             t n choice]))
      | _ \<Rightarrow> [])"

definition length_arg_text :: "ts_node option \<Rightarrow> string \<Rightarrow> string" where
  "length_arg_text n bytes =
     (case n of
        None \<Rightarrow> []
      | Some m \<Rightarrow> (case call_of bytes m ''length'' of Some [arg] \<Rightarrow> node_text (Some arg) bytes | _ \<Rightarrow> []))"

definition flipped :: "string \<Rightarrow> string" where
  "flipped op = (if op = ''<'' then ''>'' else if op = ''>'' then ''<'' else if op = ''<='' then ''>='' else ''<='')"

definition comparison_visit :: "ast_tree \<Rightarrow> ts_node \<Rightarrow> diagnostic list" where
  "comparison_visit t n =
     (let bytes = at_bytes t; op = binary_op bytes n; lhs = child_by_field n ''left''; rhs = child_by_field n ''right'' in
      if ts_kind n \<noteq> ''binary_expression'' \<or> op \<notin> set [''<'', ''>'', ''<='', ''>=''] then []
      else let lhs_v = length_arg_text lhs bytes; rhs_v = length_arg_text rhs bytes;
               (v_text, r_text, rewrite_op) =
                 (if lhs_v \<noteq> [] then (lhs_v, node_text rhs bytes, op)
                  else if rhs_v \<noteq> [] then (rhs_v, node_text lhs bytes, flipped op)
                  else ([], [], []))
           in if v_text = [] \<or> r_text = [] then []
              else node_report ''length-comparison'' t n
                     (''`length(v)` compared against a scalar can usually be '' @
                      ''rewritten as `dot(v, v)` against the squared scalar -- '' @
                      ''saves a sqrt at the cost of an earlier overflow point'')
                     [replace_node False
                        (''if the right-hand side is non-negative (and `r * r` does not '' @
                         ''overflow), replace with `dot(v, v) <op> r * r`'') t n
                        (''dot('' @ v_text @ '', '' @ v_text @ '') '' @ rewrite_op @ '' ('' @ r_text @ '') * ('' @ r_text @ '')'')])"

definition normalize_visit :: "ast_tree \<Rightarrow> ts_node \<Rightarrow> diagnostic list" where
  "normalize_visit t n =
     (case (child_by_field n ''left'', child_by_field n ''right'') of
        (Some lhs, Some rhs) \<Rightarrow>
          (case call_of (at_bytes t) rhs ''length'' of
             Some [inner] \<Rightarrow>
               (let v_text = text_of t lhs; is_simple = (ts_kind lhs = ''identifier'') in
                if ts_kind n \<noteq> ''binary_expression'' \<or> binary_op (at_bytes t) n \<noteq> ''/'' \<or> v_text = [] \<or>
                   v_text \<noteq> text_of t inner then []
                else node_report ''length-then-divide'' t n
                       (''`v / length(v)` is the open-coded form of '' @
                        ''`normalize(v)` -- prefer the named intrinsic, which '' @
                        ''may compile to a single rsqrt-and-multiply'')
                       [replace_node is_simple
                          (if is_simple then ''replace `v / length(v)` with `normalize(v)`''
                           else ''replace with `normalize(v)`; verify the '' @
                                ''dividend is side-effect-free before applying'')
                          t n (''normalize('' @ v_text @ '')'')])
           | _ \<Rightarrow> [])
      | _ \<Rightarrow> [])"

definition divisor_is_unguarded_length_or_dot :: "string \<Rightarrow> bool" where
  "divisor_is_unguarded_length_or_dot rhs \<longleftrightarrow>
     (let s = dropWhile (\<lambda>c. c = CHR '' '' \<or> c = tab_char \<or> c = CHR ''('') rhs in
      \<not> (starts_with s ''max('' \<or> starts_with s ''max ('') \<and>
      list_ex (starts_with s) [''length('', ''length ('', ''dot('', ''dot (''])"

definition epsilon_visit :: "config option \<Rightarrow> ast_tree \<Rightarrow> ts_node \<Rightarrow> diagnostic list" where
  "epsilon_visit config t n =
     (let right = child_by_field n ''right''; rhs_text = node_text right (at_bytes t) in
      if ts_kind n \<noteq> ''binary_expression'' \<or> node_text (child_by_field n ''operator'') (at_bytes t) \<noteq> ''/'' \<or>
         \<not> divisor_is_unguarded_length_or_dot rhs_text then []
      else let epsilon = (case config of None \<Rightarrow> k_default_div_epsilon | Some c \<Rightarrow> cfg_div_epsilon c);
               eps_literal = render_float_literal epsilon;
               divisor_pure = (classify_expression (at_bytes t) right = SideEffectFree)
           in node_report ''div-without-epsilon'' t n
                (''division by length(...) / dot(...) without epsilon guard -- '' @
                 ''produces +Inf or NaN at zero divisors; wrap the divisor in '' @
                 ''max(epsilon, ...) or use the SafeNormalize idiom'')
                [replacing_fix divisor_pure
                   (''wrap the divisor in `max('' @ eps_literal @ '', ...)` (epsilon '' @
                    (if config \<noteq> None then ''from `[float] div-epsilon`'' else ''= default 1e-6'') @
                    ''); Inf / NaN propagation through subsequent ops corrupts '' @
                    ''neighbouring pixels in TAA / denoiser pipelines'' @
                    (if divisor_pure then []
                     else '' -- suggestion-only: the divisor is not side-effect-free under '' @
                          ''the purity oracle, hand-review the rewrite before applying''))
                   (at_source t) (byte_range right) (''max('' @ eps_literal @ '', '' @ rhs_text @ '')'')])"

section \<open>Bits\<close>

definition operator_text :: "ts_node \<Rightarrow> string \<Rightarrow> string" where
  "operator_text n bytes =
     (case find (\<lambda>c. \<not> ts_named c \<and> node_text (Some c) bytes \<noteq> []) (child_nodes n) of
        None \<Rightarrow> []
      | Some c \<Rightarrow> node_text (Some c) bytes)"

definition is_literal_one :: "ts_node option \<Rightarrow> string \<Rightarrow> bool" where
  "is_literal_one n bytes \<longleftrightarrow> node_kind n = ''number_literal'' \<and> is_numeric_literal_one (node_text n bytes)"

definition is_mask_low_bit :: "ts_node \<Rightarrow> string \<Rightarrow> bool" where
  "is_mask_low_bit n bytes \<longleftrightarrow>
     (let m = unwrap_paren n in
      ts_kind m = ''binary_expression'' \<and> operator_text m bytes = ''&'' \<and>
      (is_literal_one (child_by_field m ''left'') bytes \<or> is_literal_one (child_by_field m ''right'') bytes))"

abbreviation is_assignment_kind :: "string \<Rightarrow> bool" where
  "is_assignment_kind kind \<equiv>
     kind = ''assignment_expression'' \<or> kind = ''update_expression'' \<or> kind = ''augmented_assignment_expression''"

definition increment_value :: "ts_node \<Rightarrow> ts_node option" where
  "increment_value n =
     (case child_by_field n ''right'' of
        Some r \<Rightarrow> Some r
      | None \<Rightarrow>
          (case child_by_field n ''value'' of
             Some v \<Rightarrow> Some v
           | None \<Rightarrow> (case named_children n of _ # c # _ \<Rightarrow> Some c | _ \<Rightarrow> None)))"

definition is_popcount_increment :: "string \<Rightarrow> ts_node \<Rightarrow> bool" where
  "is_popcount_increment bytes n \<longleftrightarrow>
     is_assignment_kind (ts_kind n) \<and> operator_text n bytes = ''+='' \<and>
     (case increment_value n of None \<Rightarrow> False | Some rhs \<Rightarrow> is_mask_low_bit rhs bytes)"

definition has_popcount_increment :: "ts_node \<Rightarrow> string \<Rightarrow> bool" where
  "has_popcount_increment n bytes \<longleftrightarrow> list_ex (is_popcount_increment bytes) (preorder n)"

definition has_right_shift :: "ts_node \<Rightarrow> string \<Rightarrow> bool" where
  "has_right_shift n bytes \<longleftrightarrow>
     list_ex (\<lambda>m. ts_kind m = ''binary_expression'' \<and> operator_text m bytes = ''>>'' \<or>
                  is_assignment_kind (ts_kind m) \<and> operator_text m bytes = ''>>='') (preorder n)"

definition popcount_visit :: "ast_tree \<Rightarrow> ts_node \<Rightarrow> diagnostic list" where
  "popcount_visit t n =
     (if (ts_kind n = ''for_statement'' \<or> ts_kind n = ''while_statement'') \<and>
         has_popcount_increment n (at_bytes t) \<and> has_right_shift n (at_bytes t)
      then node_report ''countbits-vs-manual-popcount'' t n
             (''this loop looks like an open-coded population count '' @
              ''(`+= (x & 1)` plus a right shift) -- use the '' @
              ''`countbits(x)` intrinsic, which lowers to a single hardware '' @
              ''popcount instruction'')
             [suggestion (''replace the loop body with `count = countbits(x);` (or fold the '' @
                          ''result directly into the accumulator). Verify that the loop has no '' @
                          ''side-effects beyond counting and shifting before applying'')]
      else [])"

definition is_uint_type_name :: "string \<Rightarrow> bool" where
  "is_uint_type_name s \<longleftrightarrow>
     s = ''uint'' \<or> length s = 5 \<and> starts_with s ''uint'' \<and> s ! 4 \<in> set ''234''"

definition is_log2_call :: "ts_node option \<Rightarrow> string \<Rightarrow> ts_node option" where
  "is_log2_call n bytes =
     (case n of
        None \<Rightarrow> None
      | Some m \<Rightarrow> (case call_of bytes m ''log2'' of Some [arg] \<Rightarrow> Some arg | _ \<Rightarrow> None))"

text \<open>The operand under parentheses and casts to a floating type.\<close>

function peel_to_inner :: "string \<Rightarrow> ts_node \<Rightarrow> string" where
  "peel_to_inner bytes n =
     (if ts_kind n = ''parenthesized_expression''
      then (case named_children n of [] \<Rightarrow> node_text (Some n) bytes | c # _ \<Rightarrow> peel_to_inner bytes c)
      else if ts_kind n = ''cast_expression'' \<and>
              node_text (child_by_field n ''type'') bytes \<in> set [''float'', ''float2'', ''float3'', ''float4'', ''double'', ''half'']
      then (case child_by_field n ''value'' of None \<Rightarrow> node_text (Some n) bytes | Some val \<Rightarrow> peel_to_inner bytes val)
      else node_text (Some n) bytes)"
  by pat_completeness auto
termination
  by (relation "measure (\<lambda>(bytes, n). node_size n)") (auto intro: named_child_smaller field_smaller)

declare peel_to_inner.simps [simp del]

definition log2_visit :: "ast_tree \<Rightarrow> ts_node \<Rightarrow> diagnostic list" where
  "log2_visit t n =
     (if ts_kind n \<noteq> ''cast_expression'' \<or> \<not> is_uint_type_name (node_text (child_by_field n ''type'') (at_bytes t)) then []
      else case is_log2_call (map_option unwrap_paren (child_by_field n ''value'')) (at_bytes t) of
             None \<Rightarrow> []
           | Some inner_arg \<Rightarrow>
               (let inner_text = peel_to_inner (at_bytes t) inner_arg in
                node_report ''firstbit-vs-log2-trick'' t n
                  (''`(uint)log2(x)` open-codes the highest-set-bit index via a '' @
                   ''transcendental + integer cast -- use `firstbithigh(x)`, which '' @
                   ''lowers to a single hardware findMSB instruction'')
                  [if inner_text = []
                   then suggestion (''replace `(uint)log2(x)` with `firstbithigh(x)`; '' @
                                    ''verify that x is non-zero or that you want the '' @
                                    ''firstbithigh sentinel for zero'')
                   else replace_node False
                          (''replace with `firstbithigh('' @ inner_text @
                           '')`; verify that the operand is non-zero or that you want the '' @
                           ''firstbithigh sentinel value for zero'') t n
                          (''firstbithigh('' @ inner_text @ '')'')]))"

section \<open>Dot products of four\<close>

text \<open>A component and what it is taken of.\<close>

definition decompose_swizzle :: "string \<Rightarrow> ts_node option \<Rightarrow> (string \<times> char) option" where
  "decompose_swizzle bytes n =
     (case n of
        None \<Rightarrow> None
      | Some m \<Rightarrow>
          (if ts_kind m \<noteq> ''field_expression'' then None
           else case node_text (child_by_field m ''field'') bytes of
                  [ch] \<Rightarrow>
                    (let base = node_text (child_by_field m ''argument'') bytes in
                     if ch \<notin> set ''xyzwrgba'' \<or> base = [] then None else Some (base, ch))
                | _ \<Rightarrow> None))"

definition is_swizzle_product :: "string \<Rightarrow> ts_node \<Rightarrow> (string \<times> string \<times> char) option" where
  "is_swizzle_product bytes n =
     (if ts_kind n \<noteq> ''binary_expression'' \<or> node_text (child_by_field n ''operator'') bytes \<noteq> ''*'' then None
      else case (decompose_swizzle bytes (child_by_field n ''left''), decompose_swizzle bytes (child_by_field n ''right'')) of
             (Some (base_a, ch_l), Some (base_b, ch_r)) \<Rightarrow> if ch_l \<noteq> ch_r then None else Some (base_a, base_b, ch_l)
           | _ \<Rightarrow> None)"

definition is_addition :: "string \<Rightarrow> ts_node \<Rightarrow> bool" where
  "is_addition bytes n \<longleftrightarrow>
     ts_kind n = ''binary_expression'' \<and> node_text (child_by_field n ''operator'') bytes = ''+''"

text \<open>The operands of nested sums; null operands count for nothing.\<close>

definition sum_operands :: "string \<Rightarrow> ts_node \<Rightarrow> ts_node list option" where
  "sum_operands bytes n =
     (if is_addition bytes n
      then Some (List.map_filter id [child_by_field n ''left'', child_by_field n ''right''])
      else if ts_kind n = ''parenthesized_expression'' \<and> length (named_children n) = 1 then Some (named_children n)
      else None)"

lemma sum_operand_smaller: "sum_operands bytes n = Some ms \<Longrightarrow> m \<in> set ms \<Longrightarrow> node_size m < node_size n"
  by (auto simp: sum_operands_def List.map_filter_def split: if_splits option.splits
      intro: field_smaller named_child_smaller)

function flatten_addition :: "string \<Rightarrow> ts_node \<Rightarrow> ts_node list" where
  "flatten_addition bytes n =
     (case sum_operands bytes n of
        None \<Rightarrow> [n]
      | Some ms \<Rightarrow> concat (map (flatten_addition bytes) ms))"
  by pat_completeness auto
termination
  by (relation "measure (\<lambda>(bytes, n). node_size n)") (auto intro: sum_operand_smaller)

declare flatten_addition.simps [simp del]

definition is_xyzw_or_rgba_set :: "char list \<Rightarrow> bool" where
  "is_xyzw_or_rgba_set seen \<longleftrightarrow> set ''xyzw'' \<subseteq> set seen \<or> set ''rgba'' \<subseteq> set seen"

definition check_addition :: "ast_tree \<Rightarrow> ts_node \<Rightarrow> diagnostic list" where
  "check_addition t n =
     (let terms = flatten_addition (at_bytes t) n; products = List.map_filter (is_swizzle_product (at_bytes t)) terms in
      if \<not> is_addition (at_bytes t) n \<or> length terms < 4 then []
      else case products of
             [] \<Rightarrow> []
           | (first_a, first_b, _) # _ \<Rightarrow>
               (if list_all (\<lambda>(a, b, ch). a = first_a \<and> b = first_b) products \<and> length products = 4 \<and>
                   is_xyzw_or_rgba_set (map (\<lambda>(a, b, ch). ch) products)
                then node_report ''dot4add-opportunity'' t n
                       (''4-element dot product expanded as `'' @ first_a @
                        ''.x*'' @ first_b @
                        ''.x + ...`; SM 6.4 `dot4add_u8packed` / `dot4add_i8packed` (or `dot(a, b)` '' @
                        ''for floats) compresses the 19-instruction unrolled form into 1 instruction '' @
                        ''on RDNA 2+ / Turing+ / Xe-HPG'') []
                else []))"

definition parent_of :: "ts_node \<Rightarrow> node_path \<Rightarrow> ts_node option" where
  "parent_of tr p = (if p = [] then None else node_at tr (parent_path p))"

text \<open>A sum that is not an operand of a sum.\<close>

definition dot4_visit :: "ast_tree \<Rightarrow> node_path \<times> ts_node \<Rightarrow> diagnostic list" where
  "dot4_visit t = (\<lambda>(p, n).
     if ts_kind n = ''binary_expression'' \<and>
        \<not> (case parent_of (at_root t) p of None \<Rightarrow> False | Some parent \<Rightarrow> is_addition (at_bytes t) parent)
     then check_addition t n
     else [])"

section \<open>Atomics and branches\<close>

definition bit_cast_visit :: "ast_tree \<Rightarrow> ts_node \<Rightarrow> diagnostic list" where
  "bit_cast_visit t n =
     (let fn_text = callee_name n (at_bytes t); args_text = node_text (child_by_field n ''arguments'') (at_bytes t) in
      if ts_kind n = ''call_expression'' \<and> fn_text \<in> set [''InterlockedMin'', ''InterlockedMax''] \<and>
         contains_any args_text [''asuint('', ''asint('']
      then node_report ''interlocked-float-bit-cast-trick'' t n
             (fn_text @ '' with asuint/asint round-trip -- SM 6.6 introduced '' @
              ''native InterlockedMin/Max on float; the bit-cast '' @
              ''trick is no longer needed'')
             [suggestion (''switch to the SM 6.6 native InterlockedMin/Max(float) -- '' @
                          ''skips the asuint round-trip and the sign-flip ALU ops'')]
      else [])"

text \<open>The text of the function around a call, or else of the parent.\<close>

definition function_or_parent_text :: "ast_tree \<Rightarrow> node_path \<Rightarrow> string" where
  "function_or_parent_text t p =
     (case find (\<lambda>q. kind_at (at_root t) q \<in> set [''function_definition'', ''function_declaration''])
             (map (\<lambda>k. take k p) (rev [0..<Suc (length p)])) of
        Some q \<Rightarrow> node_text (node_at (at_root t) q) (at_bytes t)
      | None \<Rightarrow> node_text (parent_of (at_root t) p) (at_bytes t))"

definition prereduce_visit :: "ast_tree \<Rightarrow> node_path \<times> ts_node \<Rightarrow> diagnostic list" where
  "prereduce_visit t = (\<lambda>(p, n).
     let fn_text = callee_name n (at_bytes t) in
     if ts_kind n = ''call_expression'' \<and> fn_text \<in> set [''InterlockedAdd'', ''InterlockedOr'', ''InterlockedXor''] \<and>
        \<not> contains_any (function_or_parent_text t p)
            [''WaveActiveSum'', ''WavePrefixSum'', ''WaveActiveBitOr'', ''WaveActiveBitXor'']
     then node_report ''interlocked-bin-without-wave-prereduce'' t n
            (fn_text @ ''() with no preceding WaveActive* / WavePrefix* '' @
             ''reduction -- per-lane atomics serialise the wave; '' @
             ''wave-reduce first, then issue one atomic per wave'')
            [suggestion (''WaveActiveSum / WavePrefixSum the operand, then issue a '' @
                         ''single representative-lane InterlockedAdd; saves 32-64x '' @
                         ''atomic traffic on every modern IHV'')]
     else [])"

text \<open>The statements of an arm: those of its block, or the children of its first named child.\<close>

definition arm_statements :: "ts_node \<Rightarrow> ts_node list" where
  "arm_statements arm =
     (if ts_kind arm = ''compound_statement'' then named_children arm
      else case named_children arm of [] \<Rightarrow> [] | block # _ \<Rightarrow> named_children block)"

definition branch_visit :: "ast_tree \<Rightarrow> ts_node \<Rightarrow> diagnostic list" where
  "branch_visit t n =
     (case (child_by_field n ''consequence'', child_by_field n ''alternative'') of
        (Some consequent, Some alternative) \<Rightarrow>
          (case (arm_statements consequent, arm_statements alternative) of
             (then_stmt # _, else_stmt # _) \<Rightarrow>
               (let first_then = trim_blank (text_of t then_stmt); first_else = trim_blank (text_of t else_stmt) in
                if ts_kind n = ''if_statement'' \<and> first_then \<noteq> [] \<and> first_then = first_else
                then node_report ''redundant-computation-in-branch'' t then_stmt
                       (''first statement of the `then` and `else` arms is '' @
                        ''identical -- hoist it above the `if` to let the '' @
                        ''compiler scalarise the computation'')
                       [suggestion (''hoist the duplicated statement out of the branch; on RDNA/Ada '' @
                                    ''the compiler can then schedule the now-uniform op outside the '' @
                                    ''divergent region'')]
                else [])
           | _ \<Rightarrow> [])
      | _ \<Rightarrow> [])"

section \<open>Samples and gathers\<close>

definition id_end :: "string \<Rightarrow> nat \<Rightarrow> nat" where
  "id_end bytes k = skip_while is_id_char bytes k"

lemma id_end_ge: "k \<le> id_end bytes k"
  by (simp add: id_end_def)

text \<open>A call of a comparison sample: the object it is called on and its position.\<close>

definition compare_call :: "string \<Rightarrow> nat \<Rightarrow> nat \<times> (string \<times> nat) list" where
  "compare_call bytes found =
     (let k = id_end bytes (found + 10); receiver = rev (takeWhile is_id_char (rev (take found bytes))) in
      if k \<ge> length bytes \<or> bytes ! k \<noteq> CHR ''('' then (found + 1, [])
      else if receiver = [] then (found + 1, [])
      else (k + 1, [(receiver, found)]))"

text \<open>The calls near the first one on the same object; a cluster takes every call up to its last.\<close>

definition cluster_of :: "string \<times> nat \<Rightarrow> (string \<times> nat) list \<Rightarrow> nat list" where
  "cluster_of c rest =
     map fst (filter (\<lambda>(j, d). fst d = fst c) (enumerate 0 (takeWhile (\<lambda>d. snd d - snd c \<le> 256) rest)))"

function call_clusters :: "ast_tree \<Rightarrow> (string \<times> nat) list \<Rightarrow> diagnostic list" where
  "call_clusters t [] = []"
| "call_clusters t (c # rest) =
     (let same = cluster_of c rest; count = Suc (length same) in
      if count < 4 then call_clusters t rest
      else severe_report Note ''gather-cmp-vs-manual-pcf'' t
             (source_piece (snd c + 1) (snd (rest ! last same) + 10))
             (''`'' @ fst c @ ''` has '' @ to_decimal count @
              '' `SampleCmp*` calls in a small window -- a 2x2 / 3x3 PCF kernel '' @
              ''collapses to one `GatherCmp` (or `GatherCmpRed`) plus weight math, '' @
              ''saving 3-8 TMU issue cycles'') @
           call_clusters t (drop (Suc (last same)) rest))"
  by pat_completeness auto
termination
  by (relation "measure (\<lambda>(t, calls). length calls)") auto

declare call_clusters.simps [simp del]

definition pcf_check :: "ast_tree \<Rightarrow> diagnostic list" where
  "pcf_check t =
     (let calls = scan_text (compare_call (at_bytes t)) ''.SampleCmp'' (at_bytes t) 0 in
      if length calls < 4 then [] else call_clusters t calls)"

definition channel_to_method :: "char \<Rightarrow> string" where
  "channel_to_method c =
     (if c \<in> set ''rx'' then ''GatherRed''
      else if c \<in> set ''gy'' then ''GatherGreen''
      else if c \<in> set ''bz'' then ''GatherBlue''
      else if c \<in> set ''aw'' then ''GatherAlpha''
      else [])"

text \<open>\<open>std::string{1U, ch}\<close> is a list of two characters, not one repeated.\<close>

definition listed_char :: "char \<Rightarrow> string" where
  "listed_char ch = [CHR 0x01, ch]"

definition channel_report :: "ast_tree \<Rightarrow> nat \<Rightarrow> nat \<Rightarrow> nat \<Rightarrow> diagnostic list" where
  "channel_report t found i k =
     (let bytes = at_bytes t; ch = bytes ! k; method = channel_to_method ch; is_red_channel = (ch = CHR ''r'' \<or> ch = CHR ''x'') in
      [\<lparr>dg_code = ''gather-channel-narrowing'', dg_severity = Note,
        dg_primary_span = \<lparr>sp_source = at_source t, sp_bytes = source_piece (found + 1) (k + 1)\<rparr>,
        dg_message = ''`Gather(...).'' @ listed_char ch @
                     ''` consumes only one channel -- replace with `'' @ method @
                     ''` to encode the channel at TMU instruction level and drop the swizzle'',
        dg_fixes =
          [replacing_fix is_red_channel
             (if is_red_channel then ''replace `Gather(...).r` with `GatherRed(...).r`''
              else ''replace `Gather(...).<channel>` with the channel-'' @
                   ''specific gather; verify the original swizzle was '' @
                   ''intended to mean the channel name (not a texel index)'')
             (at_source t) (source_piece (found + 1) (k + 1))
             (method @ substr bytes (found + 7) (i - (found + 7) + 1) @ ''.r'')]\<rparr>])"

definition channel_step :: "ast_tree \<Rightarrow> nat \<Rightarrow> nat \<times> diagnostic list" where
  "channel_step t found =
     (let bytes = at_bytes t; i = close_paren bytes (found + 7); k = i + 2 in
      if is_id_char (bytes ! found) \<and> found > 0 \<and> bytes ! (found - 1) \<noteq> CHR ''.'' then (found + 1, [])
      else if found + 7 < length bytes \<and> is_id_char (bytes ! (found + 7)) then (found + 1, [])
      else if i \<ge> length bytes then (found + 1, [])
      else if i + 1 \<ge> length bytes \<or> bytes ! (i + 1) \<noteq> CHR ''.'' then (i + 1, [])
      else if k \<ge> length bytes then (i + 1, [])
      else if channel_to_method (bytes ! k) = [] then (i + 1, [])
      else if k + 1 < length bytes \<and> is_id_char (bytes ! (k + 1)) then (i + 1, [])
      else (k + 1, channel_report t found i k))"

definition channel_check :: "ast_tree \<Rightarrow> diagnostic list" where
  "channel_check t = scan_text (channel_step t) ''.Gather('' (at_bytes t) 0"

definition precise_window :: "string \<Rightarrow> nat \<Rightarrow> string" where
  "precise_window bytes found =
     (let lo = (if found > 256 then found - 256 else 0); hi = min (found + 256) (length bytes) in substr bytes lo (hi - lo))"

definition precise_pcf_step :: "ast_tree \<Rightarrow> nat \<Rightarrow> nat \<times> diagnostic list" where
  "precise_pcf_step t found =
     (if found \<noteq> 0 \<and> is_id_char (at_bytes t ! (found - 1)) then (found + 1, [])
      else if has_keyword (precise_window (at_bytes t) found) ''precise'' then (found + 9, [])
      else (found + 9,
            severe_report Note ''missing-precise-on-pcf'' t (source_piece found (found + 9))
              (''PCF / depth-compare site without a nearby `precise` qualifier -- fast-math '' @
               ''reassociation can perturb the rounding of weight sums and produce visible '' @
               ''shadow flicker'')))"

definition precise_pcf_check :: "ast_tree \<Rightarrow> diagnostic list" where
  "precise_pcf_check t = scan_text (precise_pcf_step t) ''SampleCmp'' (at_bytes t) 0"

definition is_order_at :: "string \<Rightarrow> nat \<Rightarrow> bool" where
  "is_order_at bytes k \<longleftrightarrow>
     (bytes ! k = CHR ''<'' \<or> bytes ! k = CHR ''>'') \<and>
     (k + 1 \<ge> length bytes \<or> bytes ! (k + 1) \<noteq> CHR ''<'') \<and> (k + 1 \<ge> length bytes \<or> bytes ! (k + 1) \<noteq> CHR ''>'')"

definition manual_compare_step :: "ast_tree \<Rightarrow> nat \<Rightarrow> nat \<times> diagnostic list" where
  "manual_compare_step t found =
     (let bytes = at_bytes t; name_end = id_end bytes (found + 7);
          method = substr bytes (found + 1) (name_end - (found + 1)); i = close_paren bytes name_end;
          k0 = (if i + 1 < length bytes \<and> bytes ! (i + 1) = CHR ''.'' then id_end bytes (i + 2) else i + 1);
          k = skip_while (\<lambda>c. c = CHR '' '' \<or> c = tab_char) bytes k0;
          cmp_hi = (if k + 2 \<le> length bytes \<and> bytes ! (k + 1) = CHR ''='' then k + 2 else k + 1) in
      if method \<notin> set [''Sample'', ''SampleLevel'', ''SampleBias''] then (found + 1, [])
      else if name_end \<ge> length bytes \<or> bytes ! name_end \<noteq> CHR ''('' then (found + 1, [])
      else if i \<ge> length bytes then (found + 1, [])
      else if k \<ge> length bytes then (i + 1, [])
      else if \<not> is_order_at bytes k then (i + 1, [])
      else (cmp_hi,
            severe_report Warning ''samplecmp-vs-manual-compare'' t (source_piece (found + 1) cmp_hi)
              (''hand-rolled depth compare on a texture sample -- replace `'' @
               method @ ''(...) '' @ listed_char (bytes ! k) @
               '' ref` with `SampleCmp` / `SampleCmpLevelZero` against a '' @
               ''`SamplerComparisonState` to use the hardware PCF path'')))"

definition manual_compare_check :: "ast_tree \<Rightarrow> diagnostic list" where
  "manual_compare_check t = scan_text (manual_compare_step t) ''.Sample'' (at_bytes t) 0"

definition past_close :: "string \<Rightarrow> nat \<Rightarrow> nat" where
  "past_close bytes i = (let j = close_paren bytes i in if j < length bytes then j + 1 else j)"

definition lod_bias_step :: "ast_tree \<Rightarrow> nat \<Rightarrow> nat \<times> diagnostic list" where
  "lod_bias_step t found =
     (let i = found + 11; call_hi = past_close (at_bytes t) i in
      if i \<ge> length (at_bytes t) then (found + 1, [])
      else (call_hi,
            severe_report Warning ''texture-lod-bias-without-grad'' t (source_piece (found + 1) call_hi)
              (''`SampleBias` relies on implicit pixel-quad derivatives -- in compute / mesh / '' @
               ''ray-tracing contexts there is no quad and the call is undefined behaviour; '' @
               ''use `SampleGrad` with explicit gradients or `SampleLevel` with an explicit LOD'')))"

definition lod_bias_check :: "ast_tree \<Rightarrow> diagnostic list" where
  "lod_bias_check t =
     (let bytes = at_bytes t in
      if contains_text bytes ''\"pixel\"'' \<and>
         \<not> contains_any bytes [''[numthreads'', ''\"compute\"'', ''\"mesh\"'', ''\"amplification\"''] then []
      else scan_text (lod_bias_step t) ''.SampleBias('' bytes 0)"

text \<open>Every step moves on.\<close>

lemma pow_site_advances: "advances (pow_site s)"
  by (auto simp: advances_def pow_site_def Let_def split: option.splits)

lemma pack_clamp_advances: "fn \<noteq> [] \<Longrightarrow> advances (pack_clamp_step t fn)"
proof -
  assume "fn \<noteq> []"
  then have "found < found + length fn" for found by simp
  moreover have "found < close_paren (at_bytes t) (found + length fn) + 1" for found
    using close_paren_ge [of found "found + length fn" "at_bytes t"] by simp
  ultimately show ?thesis by (auto simp: advances_def pack_clamp_step_def Let_def)
qed

lemma compare_call_advances: "advances (compare_call bytes)"
proof -
  have "found < id_end bytes (found + 10) + 1" for found
    using id_end_ge [of "found + 10" bytes] by linarith
  then show ?thesis by (auto simp: advances_def compare_call_def Let_def)
qed

lemma channel_advances: "advances (channel_step t)"
proof -
  have "found \<le> close_paren (at_bytes t) (found + 7)" for found by (rule close_paren_ge) simp
  then show ?thesis by (auto simp: advances_def channel_step_def Let_def less_Suc_eq_le intro: le_SucI)
qed

lemma precise_pcf_advances: "advances (precise_pcf_step t)"
  by (simp add: advances_def precise_pcf_step_def)

lemma manual_compare_advances: "advances (manual_compare_step t)"
  unfolding advances_def
proof
  fix found
  define name_end where "name_end = id_end (at_bytes t) (found + 7)"
  define i where "i = close_paren (at_bytes t) name_end"
  define k0 where "k0 = (if i + 1 < length (at_bytes t) \<and> at_bytes t ! (i + 1) = CHR ''.'' then id_end (at_bytes t) (i + 2) else i + 1)"
  define k where "k = skip_while (\<lambda>c. c = CHR '' '' \<or> c = tab_char) (at_bytes t) k0"
  have "found + 7 \<le> name_end" unfolding name_end_def by (rule id_end_ge)
  then have i: "found \<le> i" unfolding i_def by (intro close_paren_ge) simp
  have "i + 1 \<le> k0" using id_end_ge [of "i + 2" "at_bytes t"] by (simp add: k0_def)
  also have "k0 \<le> k" unfolding k_def by simp
  finally have "found < i + 1" "found < k + 1" "found < k + 2" using i by linarith+
  then show "found < fst (manual_compare_step t found)"
    unfolding manual_compare_step_def Let_def name_end_def [symmetric] i_def [symmetric] k0_def [symmetric] k_def [symmetric]
    by simp
qed

lemma lod_bias_advances: "advances (lod_bias_step t)"
  unfolding advances_def
proof
  fix found
  have "found + 11 \<le> close_paren (at_bytes t) (found + 11)" by (rule balanced_end_ge)
  then show "found < fst (lod_bias_step t found)"
    by (auto simp: lod_bias_step_def past_close_def Let_def)
qed

section \<open>Refinements in loops\<close>

text \<open>The first assignment whose right-hand side names its target, from a position on, and where the target stands.\<close>

lemma id_end_after: "i < length s \<Longrightarrow> is_id_char (s ! i) \<Longrightarrow> i < id_end s i"
  unfolding id_end_def by (subst skip_while.simps) (simp add: less_eq_Suc_le)

function find_self_update :: "string \<Rightarrow> nat \<Rightarrow> (string \<times> nat) option" where
  "find_self_update body i =
     (if i \<ge> length body then None
      else if \<not> is_id_char (body ! i) \<or> i > 0 \<and> is_id_char (body ! (i - 1)) then find_self_update body (i + 1)
      else let name_end = id_end body i; name = substr body i (name_end - i);
               k = skip_while (\<lambda>c. c = CHR '' '' \<or> c = tab_char) body name_end
           in if name \<in> set [''for'', ''while'', ''if'', ''else'', ''do'', ''return''] then find_self_update body name_end
              else if k \<ge> length body \<or> body ! k \<noteq> CHR ''='' \<or> k + 1 < length body \<and> body ! (k + 1) = CHR ''=''
              then find_self_update body name_end
              else case find_text body '';'' k of
                     None \<Rightarrow> None
                   | Some stmt_end \<Rightarrow>
                       (if find_keyword (substr body (k + 1) (stmt_end - (k + 1))) name \<noteq> None then Some (name, i)
                        else find_self_update body (stmt_end + 1)))"
  by pat_completeness auto
termination
proof (relation "measure (\<lambda>(body, i). length body - i)")
  fix body name :: string and i name_end k stmt_end :: nat
  assume *: "\<not> length body \<le> i" "\<not> (\<not> is_id_char (body ! i) \<or> 0 < i \<and> is_id_char (body ! (i - 1)))" "name_end = id_end body i"
  then have "i < name_end" using id_end_after [of i body] by simp
  then show "((body, name_end), body, i) \<in> measure (\<lambda>(body, i). length body - i)"
    "((body, name_end), body, i) \<in> measure (\<lambda>(body, i). length body - i)" using * by auto
  assume "k = skip_while (\<lambda>c. c = CHR '' '' \<or> c = tab_char) body name_end" "find_text body '';'' k = Some stmt_end"
  moreover from this have "k \<le> stmt_end" by (auto dest: find_text_bounds)
  ultimately have "name_end \<le> stmt_end"
    using skip_while_ge [of name_end "\<lambda>c. c = CHR '' '' \<or> c = tab_char" body] by linarith
  then show "((body, stmt_end + 1), body, i) \<in> measure (\<lambda>(body, i). length body - i)" using * \<open>i < name_end\<close> by auto
qed auto

declare find_self_update.simps [simp del]

definition precise_declaration :: "string \<Rightarrow> string \<Rightarrow> nat \<Rightarrow> nat \<times> unit list" where
  "precise_declaration bytes var_name p =
     (let stop = p + 7 in
      if \<not> whole_word bytes ''precise'' p then (p + 1, [])
      else (stop, if find_keyword (substr bytes stop (min (length bytes) (stop + 64) - stop)) var_name \<noteq> None then [()] else []))"

definition variable_declared_precise :: "string \<Rightarrow> string \<Rightarrow> bool" where
  "variable_declared_precise bytes var_name \<longleftrightarrow> scan_text (precise_declaration bytes var_name) ''precise'' bytes 0 \<noteq> []"

definition refine_report :: "ast_tree \<Rightarrow> ts_node \<Rightarrow> diagnostic list" where
  "refine_report t n =
     (let loop_text = text_of t n in
      if find_keyword loop_text ''precise'' \<noteq> None then []
      else case find_self_update loop_text 0 of
             None \<Rightarrow> []
           | Some (var_name, local_offset) \<Rightarrow>
               (if variable_declared_precise (at_bytes t) var_name then []
                else severe_report Warning ''precise-missing-on-iterative-refine'' t (piece_of n local_offset (length var_name))
                       (''iteration variable `'' @ var_name @
                        ''` is updated as `x = f(x)` inside a loop without `precise` -- '' @
                        ''fast-math reordering may collapse the refinement to the initial '' @
                        ''guess; declare the variable as `precise` to protect the iteration'')))"

function refine_walk :: "ast_tree \<Rightarrow> ts_node \<Rightarrow> diagnostic list" where
  "refine_walk t n =
     (if ts_kind n \<in> set [''for_statement'', ''while_statement'', ''do_statement''] then refine_report t n
      else concat (map (refine_walk t) (child_nodes n)))"
  by pat_completeness auto
termination
  by (relation "measure (\<lambda>(t, n). node_size n)") (simp_all only: in_measure prod.case child_smaller wf_measure)

declare refine_walk.simps [simp del]

section \<open>The rules\<close>

definition manual_f32tof16 where "manual_f32tof16 = tree_rule ''manual-f32tof16'' (visit_until f32tof16_visit)"
definition manual_smoothstep where "manual_smoothstep = tree_rule ''manual-smoothstep'' (visit_all smoothstep_visit)"
definition manual_srgb_conversion where "manual_srgb_conversion = reflect_rule ''manual-srgb-conversion'' srgb_check"
definition sin_cos_pair where "sin_cos_pair = tree_rule ''sin-cos-pair'' (visit_all sin_cos_visit)"
definition lerp_on_bool_cond where "lerp_on_bool_cond = tree_rule ''lerp-on-bool-cond'' (visit_all bool_lerp_visit)"
definition length_comparison where "length_comparison = tree_rule ''length-comparison'' (visit_all comparison_visit)"
definition length_then_divide where "length_then_divide = tree_rule ''length-then-divide'' (visit_until normalize_visit)"
definition countbits_vs_manual_popcount where
  "countbits_vs_manual_popcount = tree_rule ''countbits-vs-manual-popcount'' (visit_until popcount_visit)"
definition firstbit_vs_log2_trick where
  "firstbit_vs_log2_trick = tree_rule ''firstbit-vs-log2-trick'' (visit_until log2_visit)"
definition div_without_epsilon :: "(unit, 'r, 'c, 'i) rule" where
  "div_without_epsilon = (default_rule ''div-without-epsilon'' ())\<lparr>rl_on_tree :=
     (\<lambda>view t s. (s, visit_all (epsilon_visit (rv_config view)) t))\<rparr>"
definition unpack_then_repack where "unpack_then_repack = tree_rule ''unpack-then-repack'' (visit_all repack_visit)"
definition pack_clamp_on_prove_bounded where
  "pack_clamp_on_prove_bounded = tree_rule ''pack-clamp-on-prove-bounded'' pack_clamp_check"
definition redundant_unorm_snorm_conversion where
  "redundant_unorm_snorm_conversion = tree_rule ''redundant-unorm-snorm-conversion'' (visit_until unorm_visit)"
definition redundant_computation_in_branch where
  "redundant_computation_in_branch = tree_rule ''redundant-computation-in-branch'' (visit_all branch_visit)"
definition dot4add_opportunity where
  "dot4add_opportunity =
     tree_rule ''dot4add-opportunity'' (\<lambda>t. concat (map (dot4_visit t) (located_nodes [] (at_root t))))"
definition interlocked_float_bit_cast_trick where
  "interlocked_float_bit_cast_trick = tree_rule ''interlocked-float-bit-cast-trick'' (visit_all bit_cast_visit)"
definition interlocked_bin_without_wave_prereduce where
  "interlocked_bin_without_wave_prereduce =
     tree_rule ''interlocked-bin-without-wave-prereduce'' (\<lambda>t. concat (map (prereduce_visit t) (located_nodes [] (at_root t))))"
definition gather_cmp_vs_manual_pcf where "gather_cmp_vs_manual_pcf = tree_rule ''gather-cmp-vs-manual-pcf'' pcf_check"
definition gather_channel_narrowing where "gather_channel_narrowing = tree_rule ''gather-channel-narrowing'' channel_check"
definition missing_precise_on_pcf where "missing_precise_on_pcf = tree_rule ''missing-precise-on-pcf'' precise_pcf_check"
definition precise_missing_on_iterative_refine where
  "precise_missing_on_iterative_refine =
     tree_rule ''precise-missing-on-iterative-refine'' (\<lambda>t. refine_walk t (at_root t))"
definition samplecmp_vs_manual_compare where
  "samplecmp_vs_manual_compare = tree_rule ''samplecmp-vs-manual-compare'' manual_compare_check"
definition texture_lod_bias_without_grad where
  "texture_lod_bias_without_grad = tree_rule ''texture-lod-bias-without-grad'' lod_bias_check"

section \<open>Walks that stop at a report\<close>

text \<open>What tree-sitter guarantees of the ranges in a tree: children lie within their parent, in order and disjoint.\<close>

definition well_nested :: "ts_node \<Rightarrow> bool" where
  "well_nested n \<longleftrightarrow>
     list_all (\<lambda>m. ts_start m \<le> ts_end m \<and> sorted_wrt (\<lambda>a b. ts_end a \<le> ts_start b) (child_nodes m) \<and>
                   list_all (\<lambda>c. ts_start m \<le> ts_start c \<and> ts_end c \<le> ts_end m) (child_nodes m)) (preorder n)"

lemma well_nested_children:
  "well_nested n \<longleftrightarrow> ts_start n \<le> ts_end n \<and> sorted_wrt (\<lambda>a b. ts_end a \<le> ts_start b) (child_nodes n) \<and>
     (\<forall>c \<in> set (child_nodes n). ts_start n \<le> ts_start c \<and> ts_end c \<le> ts_end n \<and> well_nested c)"
  unfolding well_nested_def by (subst preorder_children) (auto simp: list_all_iff)

text \<open>A visit with at most one report, which lies on the node and whose only fix edits the node.\<close>

definition replaces :: "ast_tree \<Rightarrow> ts_node \<Rightarrow> diagnostic list \<Rightarrow> bool" where
  "replaces t n ds \<longleftrightarrow>
     ds = [] \<or> (\<exists>code message f. ds = [rule_diagnostic code (at_source t) (range_of n) message [f]] \<and>
                             (\<forall>e \<in> set (fx_edits f). sp_bytes (te_span e) = range_of n))"

definition replaces_node :: "(ast_tree \<Rightarrow> ts_node \<Rightarrow> diagnostic list) \<Rightarrow> bool" where
  "replaces_node visit \<longleftrightarrow> (\<forall>t n. replaces t n (visit t n))"

abbreviation dg_bytes :: "diagnostic \<Rightarrow> byte_span" where
  "dg_bytes d \<equiv> sp_bytes (dg_primary_span d)"

definition edits_itself :: "diagnostic \<Rightarrow> bool" where
  "edits_itself d \<longleftrightarrow> (\<forall>e \<in> set (fx_edits (hd (dg_fixes d))). sp_bytes (te_span e) = dg_bytes d)"

lemma sorted_wrt_concat:
  assumes "\<forall>xs \<in> set xss. sorted_wrt P xs" and "sorted_wrt (\<lambda>xs ys. \<forall>x \<in> set xs. \<forall>y \<in> set ys. P x y) xss"
  shows "sorted_wrt P (concat xss)"
  using assms by (induction xss) (auto simp: sorted_wrt_append)

lemma walk_until_ordered:
  assumes "replaces_node visit" and "well_nested n"
  shows "sorted_wrt (\<lambda>d e. bs_hi (dg_bytes d) \<le> bs_lo (dg_bytes e)) (walk_until (visit t) n) \<and>
    (\<forall>d \<in> set (walk_until (visit t) n).
       ts_start n \<le> bs_lo (dg_bytes d) \<and> bs_hi (dg_bytes d) \<le> ts_end n \<and> edits_itself d)"
  using assms(2)
proof (induction "visit t" n rule: walk_until.induct)
  case (1 n)
  show ?case
  proof (cases "visit t n = []")
    case False
    then obtain code message f where "visit t n = [rule_diagnostic code (at_source t) (range_of n) message [f]]"
      and "\<forall>e \<in> set (fx_edits f). sp_bytes (te_span e) = range_of n"
      using assms(1) unfolding replaces_node_def replaces_def by blast
    then show ?thesis
      by (subst (1 2) walk_until.simps) (auto simp: rule_diagnostic_def edits_itself_def byte_range_def)
  next
    case True
    let ?parts = "map (walk_until (visit t)) (child_nodes n)"
    have step: "walk_until (visit t) n = concat ?parts" using True by (subst walk_until.simps) simp
    have nested: "ts_start n \<le> ts_start c" "ts_end c \<le> ts_end n" "well_nested c" if "c \<in> set (child_nodes n)" for c
      using that 1(2) unfolding well_nested_children [of n] by blast+
    have part: "sorted_wrt (\<lambda>d e. bs_hi (dg_bytes d) \<le> bs_lo (dg_bytes e)) (walk_until (visit t) c) \<and>
        (\<forall>d \<in> set (walk_until (visit t) c).
           ts_start c \<le> bs_lo (dg_bytes d) \<and> bs_hi (dg_bytes d) \<le> ts_end c \<and> edits_itself d)"
      if "c \<in> set (child_nodes n)" for c
      using 1(1) [OF _ that nested(3) [OF that]] True by simp
    have "sorted_wrt (\<lambda>a b. ts_end a \<le> ts_start b) (child_nodes n)" using 1(2) well_nested_children [of n] by blast
    moreover have "bs_hi (dg_bytes x) \<le> bs_lo (dg_bytes y)"
      if "a \<in> set (child_nodes n)" "b \<in> set (child_nodes n)" "ts_end a \<le> ts_start b"
        "x \<in> set (walk_until (visit t) a)" "y \<in> set (walk_until (visit t) b)" for a b x y
    proof -
      have "bs_hi (dg_bytes x) \<le> ts_end a" using part [OF that(1)] that(4) by blast
      also note that(3)
      also have "ts_start b \<le> bs_lo (dg_bytes y)" using part [OF that(2)] that(5) by blast
      finally show ?thesis .
    qed
    ultimately have "sorted_wrt (\<lambda>xs ys. \<forall>x \<in> set xs. \<forall>y \<in> set ys. bs_hi (dg_bytes x) \<le> bs_lo (dg_bytes y)) ?parts"
      by (subst sorted_wrt_map) (rule sorted_wrt_mono_rel [rotated], assumption, blast)
    then have "sorted_wrt (\<lambda>d e. bs_hi (dg_bytes d) \<le> bs_lo (dg_bytes e)) (concat ?parts)"
      using part by (intro sorted_wrt_concat) auto
    moreover have "ts_start n \<le> bs_lo (dg_bytes d) \<and> bs_hi (dg_bytes d) \<le> ts_end n \<and> edits_itself d"
      if "d \<in> set (concat ?parts)" for d
    proof -
      from that obtain c where c: "c \<in> set (child_nodes n)" "d \<in> set (walk_until (visit t) c)" by auto
      then show ?thesis using part [OF c(1)] nested(1,2) [OF c(1)] order_trans by blast
    qed
    ultimately show ?thesis unfolding step by blast
  qed
qed

text \<open>Fixes that clash with no other are all applied.\<close>

lemma no_clash_all_applied:
  assumes "\<And>i j. i < length fxs \<Longrightarrow> j < length fxs \<Longrightarrow> i \<noteq> j \<Longrightarrow> \<not> Rewriter.clash fxs i j"
  shows "set (applied fxs) = {i. i < length fxs \<and> fix_edits fxs i \<noteq> []}" and "snd (apply_fixes s fxs) = []"
proof -
  have "i \<in> set (applied fxs) \<longleftrightarrow> fix_edits fxs i \<noteq> []" if "i < length fxs" for i
    using applied_iff [OF that] assms [OF that] set_applied [of fxs] pord.irrefl [of fxs i] by fastforce
  then show eq: "set (applied fxs) = {i. i < length fxs \<and> fix_edits fxs i \<noteq> []}"
    using set_applied [of fxs] by auto
  then have "dropped fxs = []" by (auto simp: dropped_def filter_empty_conv)
  then show "snd (apply_fixes s fxs) = []"
    using accept_all_conflicts [of fxs] by (auto simp: apply_fixes_def split: prod.splits)
qed

lemma ordered_fixes_apart:
  assumes "sorted_wrt (\<lambda>d e. bs_hi (dg_bytes d) \<le> bs_lo (dg_bytes e)) ds" and "\<forall>d \<in> set ds. edits_itself d"
    and "i < length ds" and "j < length ds" and "i \<noteq> j"
  shows "\<not> Rewriter.clash (map first_fix ds) i j"
proof -
  have "bs_hi (dg_bytes (ds ! i)) \<le> bs_lo (dg_bytes (ds ! j)) \<or> bs_hi (dg_bytes (ds ! j)) \<le> bs_lo (dg_bytes (ds ! i))"
    using assms(1,3,4,5) by (cases "i < j") (auto simp: sorted_wrt_iff_nth_less)
  moreover have "edits_itself (ds ! i)" "edits_itself (ds ! j)" using assms by auto
  ultimately show ?thesis
    using assms(3,4) by (fastforce simp: Rewriter.clash_def overlaps_def first_fix_def edits_itself_def)
qed

lemma replaces_nothing [simp]: "replaces t n []"
  by (simp add: replaces_def)

lemma replaces_report [simp]:
  "\<forall>e \<in> set (fx_edits f). sp_bytes (te_span e) = range_of n \<Longrightarrow> replaces t n (node_report code t n message [f])"
  by (auto simp: replaces_def node_report_def)

lemma replaced_edits [simp]:
  "fx_edits (replace_node machine description t n replacement) =
     [\<lparr>te_span = \<lparr>sp_source = at_source t, sp_bytes = range_of n\<rparr>, te_replacement = replacement\<rparr>]"
  "fx_edits (suggestion description) = []"
  by (simp_all add: replace_node_def replacing_fix_def suggestion_def)

lemma replacing_visits:
  "replaces_node normalize_visit" "replaces_node log2_visit" "replaces_node unorm_visit"
  "replaces_node reflect_visit" "replaces_node mad_visit"
  unfolding replaces_node_def normalize_visit_def log2_visit_def unorm_visit_def reflect_visit_def mad_visit_def Let_def
  by (simp_all split: option.split list.split prod.split)

text \<open>C40: The rules that do not look below a report never give the rewriter fixes that clash: on a tree with nested
  ranges, all fixes of a run are applied, and none is reported as a conflict.\<close>

theorem until_fixes_all_apply:
  assumes "visit \<in> {normalize_visit, log2_visit, unorm_visit, reflect_visit, mad_visit}"
    and "well_nested (at_root t)"
  shows "set (applied (map first_fix (visit_until visit t))) =
      {i. i < length (visit_until visit t) \<and> fix_edits (map first_fix (visit_until visit t)) i \<noteq> []} \<and>
    snd (apply_fixes (at_bytes t) (map first_fix (visit_until visit t))) = []"
proof -
  have "replaces_node visit" using assms(1) replacing_visits by blast
  from walk_until_ordered [OF this assms(2)]
  have "\<not> Rewriter.clash (map first_fix (visit_until visit t)) i j"
    if "i < length (visit_until visit t)" "j < length (visit_until visit t)" "i \<noteq> j" for i j
    using that unfolding visit_until_def by (intro ordered_fixes_apart) blast+
  then show ?thesis using no_clash_all_applied [of "map first_fix (visit_until visit t)"] by simp
qed

text \<open>Two quotients in a sum are both replaced.\<close>

definition ex_quotient :: "u32 \<Rightarrow> ts_node" where
  "ex_quotient lo =
     Ts_Node ''binary_expression'' True lo (lo + 11)
       [(Some ''left'', ex_node ''identifier'' lo (lo + 1) []), (None, ex_token ''/'' (lo + 1) (lo + 2)),
        (Some ''right'', ex_call (lo + 2) (lo + 8) (lo + 11) [ex_node ''identifier'' (lo + 9) (lo + 10) []])]"

definition ex_quotients :: ast_tree where
  "ex_quotients = (text_tree ''a/length(a)+b/length(b)'')\<lparr>at_root :=
     ex_node ''binary_expression'' 0 23 [ex_quotient 0, ex_token ''+'' 11 12, ex_quotient 12]\<rparr>"

lemma until_fixes_all_apply_witness:
  "length (visit_until normalize_visit ex_quotients) = 2 \<and>
   snd (apply_fixes (at_bytes ex_quotients) (map first_fix (visit_until normalize_visit ex_quotients))) = [] \<and>
   set (applied (map first_fix (visit_until normalize_visit ex_quotients))) = {0, 1} \<and>
   fst (apply_fixes (at_bytes ex_quotients) (map first_fix (visit_until normalize_visit ex_quotients))) =
     ''normalize(a)+normalize(b)''"
proof (intro conjI)
  have "well_nested (at_root ex_quotients)" by code_simp
  note all = until_fixes_all_apply [of normalize_visit, OF _ this, simplified]
  show two: "length (visit_until normalize_visit ex_quotients) = 2" by code_simp
  show "snd (apply_fixes (at_bytes ex_quotients) (map first_fix (visit_until normalize_visit ex_quotients))) = []"
    by (rule all [THEN conjunct2])
  have "list_all (\<lambda>i. fix_edits (map first_fix (visit_until normalize_visit ex_quotients)) i \<noteq> []) [0, 1]" by code_simp
  then show "set (applied (map first_fix (visit_until normalize_visit ex_quotients))) = {0, 1}"
    unfolding all [THEN conjunct1] two by (auto simp: less_2_cases_iff)
  show "fst (apply_fixes (at_bytes ex_quotients) (map first_fix (visit_until normalize_visit ex_quotients))) =
     ''normalize(a)+normalize(b)''" by code_simp
qed

section \<open>Examples\<close>

lemma scan_text_step: "d \<in> set (scan_text step needle bytes pos) \<Longrightarrow> \<exists>found. d \<in> set (snd (step found))"
proof (induction step needle bytes pos rule: scan_text.induct)
  case (1 step needle bytes pos)
  show ?case
  proof (cases "find_text bytes needle pos")
    case (Some found)
    then show ?thesis using 1 by (subst (asm) (2) scan_text.simps) (auto split: if_splits)
  next
    case None
    then show ?thesis using 1(2) by (subst (asm) scan_text.simps) (simp split: if_splits)
  qed
qed

text \<open>A character in braces after a count is a list: every report on a gathered channel, and every one on a hand-written
  comparison, has the byte 1 in its message.\<close>

theorem messages_have_control_byte:
  "d \<in> set (channel_check t) \<Longrightarrow> CHR 0x01 \<in> set (dg_message d)"
  "d \<in> set (manual_compare_check t) \<Longrightarrow> CHR 0x01 \<in> set (dg_message d)"
proof -
  show "CHR 0x01 \<in> set (dg_message d)" if "d \<in> set (channel_check t)"
    using scan_text_step [OF that [unfolded channel_check_def]]
    by (auto simp: channel_step_def channel_report_def listed_char_def Let_def simp del: String.char.simps split: if_splits)
  show "CHR 0x01 \<in> set (dg_message d)" if "d \<in> set (manual_compare_check t)"
    using scan_text_step [OF that [unfolded manual_compare_check_def]]
    by (auto simp: manual_compare_step_def severe_report_def rule_diagnostic_def listed_char_def Let_def
        simp del: String.char.simps split: if_splits)
qed

text \<open>A sum is taken for the difference of the cubic form, and literals with a suffix are not read.\<close>

theorem hermite_pattern_is_loose:
  "matches_hermite_form (strip_ws ''return n * n * (3 + 2 * n);'') ''n''"
  "\<not> matches_hermite_form (strip_ws ''return n * n * (3.0f - 2.0f * n);'') ''n''"
  "\<not> matches_hermite_form (strip_ws ''start * t * t * (3 - 2 * t)'') ''t''"
  by code_simp+

text \<open>Two clusters of four calls in turn: the second object is not reported.\<close>

theorem interleaved_cluster_lost:
  "length (call_clusters (text_tree []) (map (\<lambda>i. (if even i then ''a'' else ''b'', i)) [0..<8])) = 1"
  by code_simp

text \<open>The same comment at the start of both arms is reported as a statement computed twice.\<close>

theorem same_comment_reported:
  "length (branch_visit (text_tree ''if(c){/**/a();}else{/**/b();}'')
     (Ts_Node ''if_statement'' True 0 29
        [(Some ''consequence'', ex_node ''compound_statement'' 5 15 [ex_node ''comment'' 6 10 []]),
         (Some ''alternative'', ex_node ''else_clause'' 15 29 [ex_node ''compound_statement'' 19 29 [ex_node ''comment'' 20 24 []]])])) = 1"
  by code_simp

text \<open>Any name under a cast counts as a condition, and the rewrite is applied without asking.\<close>

theorem cast_counts_as_condition:
  "map (map (\<lambda>f. (fx_machine_applicable f, map te_replacement (fx_edits f))) \<circ> dg_fixes)
     (bool_lerp_visit (text_tree ''lerp(a,b,(float)k)'')
        (ex_call 0 4 18 [ex_node ''identifier'' 5 6 [], ex_node ''identifier'' 7 8 [],
           Ts_Node ''cast_expression'' True 9 17
             [(Some ''type'', ex_node ''primitive_type'' 10 15 []), (Some ''value'', ex_node ''identifier'' 16 17 [])]])) =
   [[(True, [''k ? b : a''])]]"
  by code_simp

lemma scan_examples:
  "map dg_primary_span (channel_check (text_tree ''c=t.Gather(s,f(u)).g;'')) =
     [\<lparr>sp_source = \<lparr>sid_value = 1\<rparr>, sp_bytes = \<lparr>bs_lo = 4, bs_hi = 20\<rparr>\<rparr>]"
  "find_self_update ''while(e){float d=1;x = f(x, 2);}'' 0 = Some (''x'', 19)"
  "find_pow_2_2_sites ''a=pow(f(b,1), 2.2 )'' = [\<lparr>bs_lo = 2, bs_hi = 5\<rparr>]"
  by code_simp+

end
