(* ===== verification/Spec2Isabelle.thy ===== *)
theory Spec2Isabelle
  imports Prelude Sources Rewriter Suppress Config Wire Documents Ast Lint Cfg Dominators Dominance
    CfgBuilder Uniformity Engines CfgEngine Rpc Actions Server Cli CfgQuery Liveness Pressure RuleUtil
    RuleKit Barriers Repeated Powers SharedMemory Bindings Layouts Divergence FlowText Queries Rewrites Stages
    Idioms
begin

text \<open>
  A verification model of shader-clippy, a linter for HLSL and Slang shaders, and of its language server. The sources
  are those under \<^verbatim>\<open>core/\<close> (the linter), \<^verbatim>\<open>cli/\<close> (the command line) and \<^verbatim>\<open>lsp/\<close> (the server).

  \<^bold>\<open>How the program works.\<close> A source is registered with the source manager, parsed by tree-sitter, and given to the
  rules in four stages: over the syntax tree, over the compiler's reflection, over the control-flow graphs with their
  uniformity analysis, and over an intermediate representation. What a rule reports goes through the inline
  suppressions of the source; the severities of the project's configuration are applied to the rest; fixes are
  arbitrated and spliced by the rewriter. The command line runs the pipeline on files, prints the diagnostics and stores
  the fixes. The server runs it on open buffers, and turns the diagnostics into notifications, quick fixes and hovers.

  \<^bold>\<open>Which theory models what.\<close>

  \<^item> \<open>Prelude\<close>: lemma collections and facts on lists, words and options that the components share.
  \<^item> \<open>Sources\<close> (\<^verbatim>\<open>source.hpp, source.cpp, diagnostic.hpp\<close>): ids, spans, line tables, registration with its size cap.
  \<^item> \<open>Rewriter\<close> (\<^verbatim>\<open>rewriter.hpp, rewriter.cpp\<close>): priorities, overlap, acceptance, splicing.
  \<^item> \<open>Suppress\<close> (\<^verbatim>\<open>suppress.hpp, suppress.cpp\<close>): markers, scopes, the scanner, the index and its lookup.
  \<^item> \<open>Config\<close> (\<^verbatim>\<open>config.hpp, config.cpp, language.cpp\<close>): sections, globs, severities, discovery, languages.
  \<^item> \<open>Ast\<close> (\<^verbatim>\<open>parser.cpp\<close> and the walk of \<^verbatim>\<open>lint.cpp\<close>): nodes, parsing, the cursor walk.
  \<^item> \<open>Lint\<close> (\<^verbatim>\<open>lint.hpp, rule.hpp, lint.cpp, rule_context.cpp\<close>): the stages and the emission of diagnostics.
  \<^item> \<open>Cfg\<close> (\<^verbatim>\<open>cfg_storage.hpp, cfg_storage.cpp\<close>): block ids, reachability, dominance and barrier queries.
  \<^item> \<open>Dominators\<close>, \<open>Dominance\<close> (\<^verbatim>\<open>dominators.cpp\<close>): the algorithm, and its proof against dominance over paths.
  \<^item> \<open>CfgBuilder\<close> (\<^verbatim>\<open>cfg_builder.cpp\<close>): blocks and edges of every statement.
  \<^item> \<open>Uniformity\<close> (\<^verbatim>\<open>uniformity_analyzer.cpp\<close>): taint from divergent semantics, and the oracle.
  \<^item> \<open>Engines\<close> (\<^verbatim>\<open>reflection/engine.cpp, reflection.cpp, ir/engine.cpp\<close>): the caches of the reflection and IR engines.
  \<^item> \<open>CfgEngine\<close> (\<^verbatim>\<open>control_flow/engine.cpp\<close>): builder, dominators and uniformity behind a cache.
  \<^item> \<open>Wire\<close> (\<^verbatim>\<open>framing.cpp, uri.cpp\<close>): message frames and file URIs.
  \<^item> \<open>Documents\<close> (\<^verbatim>\<open>document/manager.cpp\<close>): open buffers, incremental changes, the debounce.
  \<^item> \<open>Rpc\<close> (\<^verbatim>\<open>message.hpp, dispatcher.cpp\<close>): JSON-RPC envelopes, ids, handlers and error replies.
  \<^item> \<open>Actions\<close> (\<^verbatim>\<open>diagnostic_convert.cpp, code_actions.cpp\<close>): positions, quick fixes, hovers.
  \<^item> \<open>Server\<close> (\<^verbatim>\<open>handlers.cpp, config_resolver.cpp, lsp/src/main.cpp\<close>): the handlers and the loop.
  \<^item> \<open>Cli\<close> (\<^verbatim>\<open>cli/src/main.cpp\<close>): options, the run over the files, output formats, exit status.
  \<^item> \<open>CfgQuery\<close> (\<^verbatim>\<open>rules/util/cfg_query.cpp, helper_lane_analyzer.cpp, uniformity.cpp, light_dataflow.cpp\<close>): the questions
    about spans and control flow that the rules ask.
  \<^item> \<open>Liveness\<close> (\<^verbatim>\<open>rules/util/liveness.cpp\<close>): definitions and uses per block, and the live names.
  \<^item> \<open>Pressure\<close> (\<^verbatim>\<open>rules/util/register_pressure_ast.cpp\<close>): widths of types and the register estimate of a block.
  \<^item> \<open>RuleUtil\<close> (\<^verbatim>\<open>numeric_literal.cpp, purity_oracle.cpp, reflect_resource.cpp, reflect_sampler.cpp, reflect_stage.cpp,
    sm6_10.cpp\<close> of \<^verbatim>\<open>rules/util\<close>): literals, side effects, resource kinds, stages, profiles and attributes.
  \<^item> \<open>RuleKit\<close> (\<^verbatim>\<open>rules/util/ast_helpers.hpp\<close> and what the rules repeat): nodes with ancestors, keywords, diagnostics.
  \<^item> \<open>Barriers\<close>: what \<open>CfgBuilder\<close> and the barrier query of \<open>CfgQuery\<close> give together.
  \<^item> \<open>Repeated\<close> (\<^verbatim>\<open>rules/repeated_pure_intrinsic.cpp\<close>): equal calls of pure intrinsics, and the writes between them.
  \<^item> \<open>Powers\<close> (\<^verbatim>\<open>rules/pow_const_squared.cpp, pow_to_mul.cpp, pow_integer_decomposition.cpp,
    pow_base_two_to_exp2.cpp\<close>): calls of \<open>pow\<close> with constant arguments, and the products that replace them.
  \<^item> \<open>SharedMemory\<close> (\<^verbatim>\<open>rules/groupshared_first_read_without_barrier.cpp, groupshared_overwrite_before_barrier.cpp,
    groupshared_write_then_no_barrier_read.cpp, groupshared_uninitialized_read.cpp, groupshared_dead_store.cpp\<close>): accesses to
    shared arrays and the barriers between them.
  \<^item> \<open>Bindings\<close> (twenty rules of \<^verbatim>\<open>rules\<close> that read the reflection): constant buffers and their fields, resource
    bindings, samplers, entry points, and the words of the text that name them.
  \<^item> \<open>Layouts\<close> (\<^verbatim>\<open>rules/groupshared_too_large.cpp, groupshared_over_32k_without_attribute.cpp,
    oversized_ray_payload.cpp, structured_buffer_stride_mismatch.cpp, structured_buffer_stride_not_cache_aligned.cpp\<close>):
    sizes of types, totals of shared arrays, strides of structs.
  \<^item> \<open>Divergence\<close> (seventeen rules of \<^verbatim>\<open>rules\<close> on the control-flow stage): calls in divergent code and in loops,
    work after a discard, live state, register pressure, branch attributes, repeated samples.
  \<^item> \<open>FlowText\<close> (ten more rules of that stage): hint bits, quad wrappers, hand-written reductions, output counts,
    reorder-coherent resources, divergent indexes.
  \<^item> \<open>Queries\<close> (\<^verbatim>\<open>query/query.hpp, query/query.cpp\<close> and the thirteen rules written as queries): captures, the match
    loop, numeric literals and the values they spell.
  \<^item> \<open>Rewrites\<close> (thirteen more rules of \<^verbatim>\<open>rules\<close> on expressions): domains of functions, norms, products with an
    axis, interpolation, closed forms, hint bits.
  \<^item> \<open>Stages\<close> (thirty-nine rules of \<^verbatim>\<open>rules\<close> on the text of calls, functions and sources): cooperative vectors, hit
    objects, ray flags, mesh shaders, group sizes, depth output and shading rates.
  \<^item> \<open>Idioms\<close> (twenty-three rules of \<^verbatim>\<open>rules\<close> on hand-written forms of intrinsics): conversions, interpolation, norms,
    bit counts, dot products, gathers and comparisons; and why the fixes of a walk that stops at a report never clash.

  \<^bold>\<open>Correspondence.\<close> A C++ structure is a record with a prefix of its own (\<open>sf_\<close>, \<open>bb_\<close>, \<open>sv_\<close> and so on), an
  enumeration a datatype, \<open>std::uint32_t\<close> a 32 bit word, \<open>std::string\<close> a list of bytes, \<open>std::optional\<close> an option and
  \<open>std::expected\<close> a sum with the error on the left. A member function is a function of the same name that returns the
  changed object. Maps that are only looked up are HOL maps; where the iteration order matters (the engine's cache) they
  are association lists in key order. Pointers into the tree are nodes of a tree value.

  \<^bold>\<open>What the lemmas show.\<close> Components are proved against a reference of their own: the suppression index against the list
  of entries, the line table against counting line feeds, globs against the language of their tokens, graph searches
  against paths, the dominator tree against dominance over paths, liveness against paths to a use, the splicing against
  a rendering of the text, a lint run against what the hooks say, the JSON output (of ASCII texts) against the grammar of JSON, the
  server's loop against serving bodies one by one, its buffers against the text of a client that edits. Interfaces are locales (a store with stable keys, a step relation
  with an invariant) interpreted on the model. The theorems that span components are in the theory of the component
  that composes the others: \<open>Lint\<close>, \<open>CfgEngine\<close>, \<open>Server\<close> and \<open>Cli\<close>.

  \<^bold>\<open>Loops and fuel.\<close> Loops over text and trees are recursive functions with a termination proof. The dominator passes
  return \<open>None\<close> if they do not end, and are proved to end: a pass that changes something lowers a bounded measure. The
  sweeps of the liveness analysis are bounded by eight per block in the code; two more than the blocks are proved enough. The
  server's loop ends because every read shortens the stream.

  \<^bold>\<open>Parameters.\<close> Code that is not in the repository is an argument: tree-sitter (a function from text to a tree, the
  predicate \<open>has_error\<close> and the matches of a query), the Slang bridge, toml++ (its parsed tables are a datatype), the JSON library (its values are
  a datatype; parsing and printing are functions, and printing may fail, as it does on strings that are not UTF-8: a reply that
  cannot be printed ends the server, a notification that cannot be printed is not sent), the file system, the environment and the clock.

  \<^bold>\<open>Code and documentation.\<close> The definitions follow the code. Where a comment or a page of the documentation says
  something else, the text of the theorem that shows what the code does says so.

  \<^bold>\<open>Not modelled.\<close> The Slang bridge, which only calls its library; thread and lock objects
  (the interleavings of the reflection cache are modelled as steps); the terminal the command line writes to, beyond its
  bytes; about a quarter of the rules, each a pattern of its own, which are parameters of the orchestrator like the modelled ones.
\<close>

end
